(* ===== verification/Prelude.thy ===== *)
theory Prelude
  imports Main "HOL-Library.Word" "HOL-Library.Monad_Syntax"
begin

text \<open>
  Shared vocabulary of the development.  A kernel routine that can hit an \<open>assert\<close>
  or a \<open>panic\<close>, or whose loop may not end, returns an \<open>option\<close>: \<open>None\<close> stands for
  a kernel that stops (or never returns), \<open>Some\<close> for a normal return.  Error codes that
  the C code returns to its caller are ordinary values inside \<open>Some\<close>.

  Machine integers are kept as natural numbers with the truncation written out
  (\<open>u32\<close>, \<open>u64\<close>) where a C assignment narrows or wraps, and as words where the
  code works on bits.
\<close>

section \<open>Collections of facts\<close>

named_theorems links_simps
named_theorems pmm_simps
named_theorems sched_simps
named_theorems sync_simps
named_theorems fs_simps

section \<open>Assertions\<close>

definition kassert :: "bool \<Rightarrow> unit option" where
  "kassert b = (if b then Some () else None)"

lemma kassert_simps [simp]:
  "kassert True = Some ()" "kassert False = None"
  by (simp_all add: kassert_def)

lemma kassert_Some [simp]: "kassert b = Some u \<longleftrightarrow> b"
  by (simp add: kassert_def)

lemma bind_kassert_Some [simp]:
  "(Option.bind (kassert b) f = Some y) \<longleftrightarrow> b \<and> f () = Some y"
  by (simp add: kassert_def)

lemma bind_kassert_if: "Option.bind (kassert b) f = (if b then f () else None)"
  by (simp add: kassert_def)

section \<open>Truncation to a machine width\<close>

definition u32 :: "nat \<Rightarrow> nat" where
  "u32 n = n mod 4294967296"

definition u64 :: "nat \<Rightarrow> nat" where
  "u64 n = n mod 18446744073709551616"

definition sub32 :: "nat \<Rightarrow> nat \<Rightarrow> nat" where
  "sub32 a b = u32 (a + 4294967296 - u32 b)"

lemma u32_id [simp]: "n < 4294967296 \<Longrightarrow> u32 n = n"
  by (simp add: u32_def)

lemma u32_less [simp]: "u32 n < 4294967296"
  by (simp add: u32_def)

lemma u64_id [simp]: "n < 18446744073709551616 \<Longrightarrow> u64 n = n"
  by (simp add: u64_def)

lemma u64_less [simp]: "u64 n < 18446744073709551616"
  by (simp add: u64_def)

lemma sub32_id [simp]:
  assumes "b \<le> a" and "a < 4294967296"
  shows "sub32 a b = a - b"
proof -
  have "u32 b = b" using assms by simp
  moreover have "a + 4294967296 - b = (a - b) + 4294967296" using assms by simp
  moreover have "u32 ((a - b) + 4294967296) = u32 (a - b)" by (simp add: u32_def)
  ultimately show ?thesis using assms by (simp add: sub32_def)
qed

section \<open>Lists\<close>

lemma last_Cons_append: "last (a # xs @ [b]) = b"
  by simp

lemma sum_list_split: "sum_list (map f (xs @ x # ys)) = f x + sum_list (map f (xs @ ys))"
  for f :: "'a \<Rightarrow> nat"
  by simp

lemma member_sum_list_le: "x \<in> set xs \<Longrightarrow> f x \<le> sum_list (map f xs)" for f :: "'a \<Rightarrow> nat"
  by (induction xs) auto

end
