(* ===== verification/Clist.thy ===== *)
theory Clist
  imports Prelude
begin

text \<open>
  The circular doubly linked lists of \<open>libs/list.h\<close>.  Every list node of the kernel
  (a page's \<open>page_link\<close>, a process's \<open>run_link\<close>, a list head \<dots>) is a value of a type
  \<open>'a\<close> of node addresses, and the two pointers of all nodes form one heap, a record of
  two functions.  The operations are the pointer assignments of the C code.

  \<open>clist h l xs\<close> is the abstraction: following \<open>next\<close> from the head \<open>l\<close> visits exactly
  the nodes \<open>xs\<close> and returns to \<open>l\<close>, and the \<open>prev\<close> pointers run the same way back.
\<close>

section \<open>The heap of list entries and the operations of list.h\<close>

record 'a links =
  lnext :: "'a \<Rightarrow> 'a"
  lprev :: "'a \<Rightarrow> 'a"

definition list_init :: "'a \<Rightarrow> 'a links \<Rightarrow> 'a links" where
  "list_init elm h = h\<lparr>lprev := (lprev h)(elm := elm), lnext := (lnext h)(elm := elm)\<rparr>"

definition raw_list_add :: "'a \<Rightarrow> 'a \<Rightarrow> 'a \<Rightarrow> 'a links \<Rightarrow> 'a links" where
  "raw_list_add elm pr nx h =
     (let h1 = h\<lparr>lprev := (lprev h)(nx := elm)\<rparr>;
          h2 = h1\<lparr>lnext := (lnext h1)(pr := elm)\<rparr>;
          h3 = h2\<lparr>lnext := (lnext h2)(elm := nx)\<rparr>
      in h3\<lparr>lprev := (lprev h3)(elm := pr)\<rparr>)"

definition list_add_after :: "'a \<Rightarrow> 'a \<Rightarrow> 'a links \<Rightarrow> 'a links" where
  "list_add_after listelm elm h = raw_list_add elm listelm (lnext h listelm) h"

definition list_add :: "'a \<Rightarrow> 'a \<Rightarrow> 'a links \<Rightarrow> 'a links" where
  "list_add listelm elm h = list_add_after listelm elm h"

definition list_add_before :: "'a \<Rightarrow> 'a \<Rightarrow> 'a links \<Rightarrow> 'a links" where
  "list_add_before listelm elm h = raw_list_add elm (lprev h listelm) listelm h"

definition raw_list_del :: "'a \<Rightarrow> 'a \<Rightarrow> 'a links \<Rightarrow> 'a links" where
  "raw_list_del pr nx h =
     (let h1 = h\<lparr>lnext := (lnext h)(pr := nx)\<rparr>
      in h1\<lparr>lprev := (lprev h1)(nx := pr)\<rparr>)"

definition list_del :: "'a \<Rightarrow> 'a links \<Rightarrow> 'a links" where
  "list_del listelm h = raw_list_del (lprev h listelm) (lnext h listelm) h"

definition list_del_init :: "'a \<Rightarrow> 'a links \<Rightarrow> 'a links" where
  "list_del_init listelm h = list_init listelm (list_del listelm h)"

definition list_empty :: "'a \<Rightarrow> 'a links \<Rightarrow> bool" where
  "list_empty l h \<longleftrightarrow> lnext h l = l"

definition list_next :: "'a \<Rightarrow> 'a links \<Rightarrow> 'a" where
  "list_next listelm h = lnext h listelm"

definition list_prev :: "'a \<Rightarrow> 'a links \<Rightarrow> 'a" where
  "list_prev listelm h = lprev h listelm"

lemmas list_op_defs = list_init_def raw_list_add_def list_add_after_def list_add_def
  list_add_before_def raw_list_del_def list_del_def list_del_init_def list_empty_def
  list_next_def list_prev_def

section \<open>Segments and circular lists\<close>

text \<open>\<open>dseg h a xs b\<close>: the nodes strictly between \<open>a\<close> and \<open>b\<close> are \<open>xs\<close>, both ways.\<close>

primrec dseg :: "'a links \<Rightarrow> 'a \<Rightarrow> 'a list \<Rightarrow> 'a \<Rightarrow> bool" where
  "dseg h a [] b \<longleftrightarrow> lnext h a = b \<and> lprev h b = a"
| "dseg h a (x # xs) b \<longleftrightarrow> lnext h a = x \<and> lprev h x = a \<and> dseg h x xs b"

definition clist :: "'a links \<Rightarrow> 'a \<Rightarrow> 'a list \<Rightarrow> bool" where
  "clist h l xs \<longleftrightarrow> distinct (l # xs) \<and> dseg h l xs l"

lemma dseg_append [simp]:
  "dseg h a (xs @ y # ys) b \<longleftrightarrow> dseg h a xs y \<and> dseg h y ys b"
  by (induction xs arbitrary: a) auto

lemma dseg_next: "dseg h a xs b \<Longrightarrow> lnext h a = hd (xs @ [b])"
  by (cases xs) auto

lemma dseg_prev: "dseg h a xs b \<Longrightarrow> lprev h b = last (a # xs)"
  by (induction xs arbitrary: a) auto

lemma dseg_cong:
  assumes "\<And>x. x \<in> set (a # xs) \<Longrightarrow> lnext h' x = lnext h x"
    and "\<And>x. x \<in> set (xs @ [b]) \<Longrightarrow> lprev h' x = lprev h x"
  shows "dseg h' a xs b = dseg h a xs b"
  using assms by (induction xs arbitrary: a) auto

lemma clist_cong:
  assumes "\<And>x. x \<in> set (l # xs) \<Longrightarrow> lnext h' x = lnext h x"
    and "\<And>x. x \<in> set (l # xs) \<Longrightarrow> lprev h' x = lprev h x"
  shows "clist h' l xs = clist h l xs"
  unfolding clist_def using dseg_cong [of l xs h' h l] assms by auto

lemma clist_distinct: "clist h l xs \<Longrightarrow> distinct (l # xs)"
  by (simp add: clist_def)

lemma clist_head_next: "clist h l xs \<Longrightarrow> lnext h l = hd (xs @ [l])"
  by (simp add: clist_def dseg_next)

lemma clist_head_prev: "clist h l xs \<Longrightarrow> lprev h l = last (l # xs)"
  unfolding clist_def by (blast dest: dseg_prev)

lemma clist_mid_next: "clist h l (xs @ e # ys) \<Longrightarrow> lnext h e = hd (ys @ [l])"
  by (simp add: clist_def dseg_next)

lemma clist_mid_prev: "clist h l (xs @ e # ys) \<Longrightarrow> lprev h e = last (l # xs)"
  unfolding clist_def dseg_append by (blast dest: dseg_prev)

lemma clist_empty_iff: "clist h l xs \<Longrightarrow> list_empty l h \<longleftrightarrow> xs = []"
  by (cases xs) (auto simp: clist_def list_empty_def)

lemma clist_unlinked_init: "clist (list_init e h) e []"
  by (simp add: clist_def list_init_def)

text \<open>The list a head denotes is unique, so the abstraction is a partial function.\<close>

lemma dseg_unique:
  "dseg h a xs b \<Longrightarrow> dseg h a ys b \<Longrightarrow> b \<notin> set xs \<Longrightarrow> b \<notin> set ys \<Longrightarrow> xs = ys"
proof (induction xs arbitrary: a ys)
  case Nil
  then show ?case by (cases ys) auto
next
  case (Cons x xs)
  then show ?case by (cases ys) auto
qed

lemma clist_unique: "clist h l xs \<Longrightarrow> clist h l ys \<Longrightarrow> xs = ys"
  by (auto simp: clist_def intro: dseg_unique)

section \<open>What the operations do to a circular list\<close>

lemma dseg_upd_other:
  assumes "elm \<notin> set (a # xs)" and "elm \<notin> set (xs @ [b])" and "pr \<notin> set (a # xs)"
    and "nx \<notin> set (xs @ [b])"
  shows "dseg (raw_list_add elm pr nx h) a xs b = dseg h a xs b"
  by (rule dseg_cong) (use assms in \<open>auto simp: raw_list_add_def Let_def\<close>)

lemma dseg_snoc_last: "dseg h a (xs @ [x]) b \<Longrightarrow> dseg h a xs x"
  by simp

lemma raw_add_between:
  assumes d: "distinct (l # xs @ ys)" and s: "dseg h l (xs @ ys) l"
    and e: "elm \<notin> set (l # xs @ ys)"
  shows "dseg (raw_list_add elm (last (l # xs)) (hd (ys @ [l])) h) l (xs @ elm # ys) l"
proof -
  define h' where "h' = raw_list_add elm (last (l # xs)) (hd (ys @ [l])) h"
  have nx: "lnext h' = (lnext h)(last (l # xs) := elm, elm := hd (ys @ [l]))"
    and pv: "lprev h' = (lprev h)(hd (ys @ [l]) := elm, elm := last (l # xs))"
    by (simp_all add: h'_def raw_list_add_def Let_def)
  have left: "dseg h' l xs elm"
  proof (cases xs rule: rev_cases)
    case Nil
    then show ?thesis using e by (auto simp: nx pv)
  next
    case (snoc zs z)
    then have "dseg h l zs z" using s by simp
    moreover have "dseg h' l zs z = dseg h l zs z"
      by (rule dseg_cong) (use d e snoc in \<open>cases ys; auto simp: nx pv\<close>)+
    ultimately show ?thesis using snoc d e by (auto simp: nx pv)
  qed
  have right: "dseg h' elm ys l"
  proof (cases ys)
    case Nil
    then show ?thesis using e by (auto simp: nx pv)
  next
    case (Cons z zs)
    then have "dseg h z zs l" using s by simp
    moreover have "dseg h' z zs l = dseg h z zs l"
      by (rule dseg_cong) (use d e Cons in \<open>cases xs rule: rev_cases; auto simp: nx pv\<close>)+
    ultimately show ?thesis using Cons d e by (auto simp: nx pv)
  qed
  from left right show ?thesis by (simp add: h'_def)
qed

lemma clist_raw_add:
  assumes "clist h l (xs @ ys)" and "elm \<notin> set (l # xs @ ys)"
  shows "clist (raw_list_add elm (last (l # xs)) (hd (ys @ [l])) h) l (xs @ elm # ys)"
  using assms raw_add_between [of l xs ys h elm] by (auto simp: clist_def)

lemma clist_list_add_after:
  assumes "clist h l (xs @ ys)" and "elm \<notin> set (l # xs @ ys)" and "le = last (l # xs)"
  shows "clist (list_add_after le elm h) l (xs @ elm # ys)"
proof -
  have "lnext h le = hd (ys @ [l])"
  proof (cases xs rule: rev_cases)
    case Nil
    then show ?thesis using assms clist_head_next [of h l ys] by simp
  next
    case (snoc zs z)
    then show ?thesis using assms clist_mid_next [of h l zs z ys] by simp
  qed
  then show ?thesis
    using clist_raw_add [OF assms(1,2)] assms(3) by (simp add: list_add_after_def)
qed

lemma clist_list_add:
  assumes "clist h l (xs @ ys)" and "elm \<notin> set (l # xs @ ys)" and "le = last (l # xs)"
  shows "clist (list_add le elm h) l (xs @ elm # ys)"
  using clist_list_add_after [OF assms] by (simp add: list_add_def)

lemma clist_list_add_before:
  assumes "clist h l (xs @ ys)" and "elm \<notin> set (l # xs @ ys)" and "le = hd (ys @ [l])"
  shows "clist (list_add_before le elm h) l (xs @ elm # ys)"
proof -
  have "lprev h le = last (l # xs)"
  proof (cases ys)
    case Nil
    then show ?thesis using assms clist_head_prev [of h l xs] by simp
  next
    case (Cons z zs)
    then show ?thesis using assms clist_mid_prev [of h l xs z zs] by simp
  qed
  then show ?thesis
    using clist_raw_add [OF assms(1,2)] assms(3) by (simp add: list_add_before_def)
qed

lemma clist_push_front:
  "clist h l xs \<Longrightarrow> elm \<notin> set (l # xs) \<Longrightarrow> clist (list_add l elm h) l (elm # xs)"
  using clist_list_add [of h l "[]" xs elm l] by simp

lemma clist_push_back:
  "clist h l xs \<Longrightarrow> elm \<notin> set (l # xs) \<Longrightarrow> clist (list_add_before l elm h) l (xs @ [elm])"
  using clist_list_add_before [of h l xs "[]" elm l] by simp

lemma clist_list_del:
  assumes "clist h l (xs @ e # ys)"
  shows "clist (list_del e h) l (xs @ ys)"
proof -
  have d: "distinct (l # xs @ e # ys)" and s: "dseg h l (xs @ e # ys) l"
    using assms by (simp_all add: clist_def)
  have pe: "lprev h e = last (l # xs)" and ne: "lnext h e = hd (ys @ [l])"
    using assms by (rule clist_mid_prev, rule clist_mid_next)
  have h': "list_del e h = h\<lparr>lnext := (lnext h)(last (l # xs) := hd (ys @ [l])),
                             lprev := (lprev h)(hd (ys @ [l]) := last (l # xs))\<rparr>"
    by (simp add: list_del_def raw_list_del_def Let_def pe ne)
  have left: "dseg (list_del e h) l xs (hd (ys @ [l]))"
  proof (cases xs rule: rev_cases)
    case Nil
    then show ?thesis by (simp add: h')
  next
    case (snoc zs z)
    then have "dseg h l zs z" using s by simp
    moreover have "dseg (list_del e h) l zs z = dseg h l zs z"
      by (rule dseg_cong) (use d snoc in \<open>cases ys; auto simp: h'\<close>)+
    ultimately show ?thesis using snoc d by (auto simp: h')
  qed
  show ?thesis
  proof (cases ys)
    case Nil
    then show ?thesis using left d by (simp add: clist_def)
  next
    case (Cons z zs)
    then have "dseg h z zs l" using s by simp
    moreover have "dseg (list_del e h) z zs l = dseg h z zs l"
      by (rule dseg_cong) (use d Cons in \<open>cases xs rule: rev_cases; auto simp: h'\<close>)+
    ultimately show ?thesis using Cons left d by (simp add: clist_def)
  qed
qed

lemma list_init_other:
  assumes "clist h l xs" and "e \<notin> set (l # xs)"
  shows "clist (list_init e h) l xs"
proof -
  have "clist (list_init e h) l xs = clist h l xs"
    by (rule clist_cong) (use assms in \<open>auto simp: list_init_def\<close>)
  then show ?thesis using assms by simp
qed

lemma clist_list_del_init:
  assumes "clist h l (xs @ e # ys)"
  shows "clist (list_del_init e h) l (xs @ ys)" and "list_empty e (list_del_init e h)"
proof -
  have "e \<notin> set (l # xs @ ys)" using clist_distinct [OF assms] by auto
  then show "clist (list_del_init e h) l (xs @ ys)"
    unfolding list_del_init_def by (intro list_init_other clist_list_del assms)
  show "list_empty e (list_del_init e h)"
    by (simp add: list_del_init_def list_init_def list_empty_def)
qed

text \<open>Frame rules: an operation on one list leaves every list it shares no node with alone.\<close>

lemma clist_add_frame:
  assumes "clist h l' zs" and "elm \<notin> set (l' # zs)" and "pr \<notin> set (l' # zs)"
    and "nx \<notin> set (l' # zs)"
  shows "clist (raw_list_add elm pr nx h) l' zs"
proof -
  have "clist (raw_list_add elm pr nx h) l' zs = clist h l' zs"
    by (rule clist_cong) (use assms in \<open>auto simp: raw_list_add_def Let_def\<close>)
  then show ?thesis using assms by simp
qed

lemma clist_del_frame:
  assumes "clist h l' zs" and "lprev h e \<notin> set (l' # zs)" and "lnext h e \<notin> set (l' # zs)"
  shows "clist (list_del e h) l' zs"
proof -
  have "clist (list_del e h) l' zs = clist h l' zs"
    by (rule clist_cong) (use assms in \<open>auto simp: list_del_def raw_list_del_def Let_def\<close>)
  then show ?thesis using assms by simp
qed

lemma lnext_add_before_other:
  assumes "clist h l (xs @ ys)" and "le = hd (ys @ [l])" and "q \<notin> set (l # xs @ ys)" and "q \<noteq> elm"
  shows "lnext (list_add_before le elm h) q = lnext h q"
proof -
  have "lprev h le = last (l # xs)"
    using assms(1,2) clist_head_prev [of h l xs] clist_mid_prev [of h l xs] by (cases ys) auto
  then have "lprev h le \<noteq> q" using assms(3) by auto
  then show ?thesis using assms(4) by (simp add: list_add_before_def raw_list_add_def Let_def)
qed

lemma lnext_del_init_other:
  assumes "clist h l (xs @ e # ys)" and "q \<notin> set (l # xs @ e # ys)"
  shows "lnext (list_del_init e h) q = lnext h q"
proof -
  have "lprev h e = last (l # xs)" using assms(1) by (rule clist_mid_prev)
  then have "lprev h e \<noteq> q" using assms(2) by auto
  then show ?thesis
    using assms(2) by (simp add: list_del_init_def list_init_def list_del_def raw_list_del_def Let_def)
qed

section \<open>Non-destructive traversal\<close>

text \<open>\<open>fseg\<close> follows only the \<open>next\<close> pointers, which is all that a forward scan reads.\<close>

primrec fseg :: "'a links \<Rightarrow> 'a \<Rightarrow> 'a list \<Rightarrow> 'a \<Rightarrow> bool" where
  "fseg h a [] b \<longleftrightarrow> lnext h a = b"
| "fseg h a (x # xs) b \<longleftrightarrow> lnext h a = x \<and> fseg h x xs b"

lemma fseg_append [simp]: "fseg h a (xs @ y # ys) b \<longleftrightarrow> fseg h a xs y \<and> fseg h y ys b"
  by (induction xs arbitrary: a) auto

lemma dseg_fseg: "dseg h a xs b \<Longrightarrow> fseg h a xs b"
  by (induction xs arbitrary: a) auto

lemma clist_fseg: "clist h l xs \<Longrightarrow> fseg h l xs l"
  by (simp add: clist_def dseg_fseg)

lemma fseg_cong:
  "(\<And>x. x \<in> set (a # xs) \<Longrightarrow> lnext h' x = lnext h x) \<Longrightarrow> fseg h' a xs b = fseg h a xs b"
  by (induction xs arbitrary: a) auto

text \<open>Every node of a list is reached by following \<open>next\<close> from the head.\<close>

lemma clist_decomp: "clist h l xs \<Longrightarrow> e \<in> set xs \<Longrightarrow> \<exists>us vs. xs = us @ e # vs"
  by (meson split_list)

lemma clist_node_nonempty: "clist h l xs \<Longrightarrow> e \<in> set xs \<Longrightarrow> \<not> list_empty e h"
proof -
  assume c: "clist h l xs" and e: "e \<in> set xs"
  then obtain us vs where xs: "xs = us @ e # vs" by (meson split_list)
  with c have "lnext h e = hd (vs @ [l])" by (auto dest: clist_mid_next)
  with clist_distinct [OF c] xs show ?thesis by (cases vs) (auto simp: list_empty_def)
qed

end
