(* ===== verification/Page_Frame.thy ===== *)
theory Page_Frame
  imports Clist
begin

unbundle bit_operations_syntax

text \<open>
  Page frame descriptors: \<open>struct Page\<close>, its flag bits (\<open>kern/mm/memlayout.h\<close> over
  \<open>libs/atomic.h\<close>), its reference counter (\<open>kern/mm/pmm.h\<close>) and the \<open>free_area_t\<close>
  that the page allocators keep.  A \<open>struct Page *\<close> is its index in the array
  \<open>pages\<close>; the list nodes are the head of the free list and the \<open>page_link\<close> of a page.
  The contract every \<open>struct pmm_manager\<close> fulfils is the locale \<open>page_manager\<close>.
\<close>

section \<open>Bit operations of atomic.h on one 64-bit word\<close>

definition BIT_MASK :: "nat \<Rightarrow> 64 word" where
  "BIT_MASK nr = push_bit (nr mod 64) 1"

definition atomic_set_bit :: "nat \<Rightarrow> 64 word \<Rightarrow> 64 word" where
  "atomic_set_bit nr w = w OR BIT_MASK nr"

definition atomic_clear_bit :: "nat \<Rightarrow> 64 word \<Rightarrow> 64 word" where
  "atomic_clear_bit nr w = w AND NOT (BIT_MASK nr)"

definition atomic_change_bit :: "nat \<Rightarrow> 64 word \<Rightarrow> 64 word" where
  "atomic_change_bit nr w = w XOR BIT_MASK nr"

definition atomic_test_and_set_bit :: "nat \<Rightarrow> 64 word \<Rightarrow> bool \<times> 64 word" where
  "atomic_test_and_set_bit nr w = (w AND BIT_MASK nr \<noteq> 0, w OR BIT_MASK nr)"

definition atomic_test_and_clear_bit :: "nat \<Rightarrow> 64 word \<Rightarrow> bool \<times> 64 word" where
  "atomic_test_and_clear_bit nr w = (w AND BIT_MASK nr \<noteq> 0, w AND NOT (BIT_MASK nr))"

definition atomic_test_bit :: "nat \<Rightarrow> 64 word \<Rightarrow> bool" where
  "atomic_test_bit nr w \<longleftrightarrow> drop_bit nr w AND 1 \<noteq> 0"

lemma test_bit_iff: "atomic_test_bit nr w \<longleftrightarrow> bit w nr"
  by (simp add: atomic_test_bit_def bit_iff_odd_drop_bit and_one_eq odd_iff_mod_2_eq_one)

lemma bit_BIT_MASK: "bit (BIT_MASK nr) m \<longleftrightarrow> m = nr mod 64"
proof -
  have "nr mod 64 < 64" by simp
  then show ?thesis by (auto simp: BIT_MASK_def bit_exp_iff possible_bit_word)
qed

lemma test_set_bit [simp]:
  "nr < 64 \<Longrightarrow> atomic_test_bit m (atomic_set_bit nr w) \<longleftrightarrow> m = nr \<or> atomic_test_bit m w"
  by (auto simp: test_bit_iff atomic_set_bit_def bit_or_iff bit_BIT_MASK)

lemma test_clear_bit [simp]:
  assumes "nr < 64"
  shows "atomic_test_bit m (atomic_clear_bit nr w) \<longleftrightarrow> m \<noteq> nr \<and> atomic_test_bit m w"
proof -
  have "bit w m \<Longrightarrow> m < 64" using bit_imp_le_length [of w m] by simp
  then show ?thesis
    using assms by (auto simp: test_bit_iff atomic_clear_bit_def bit_and_iff bit_not_iff
        bit_BIT_MASK possible_bit_word)
qed

lemma test_zero [simp]: "\<not> atomic_test_bit m 0"
  by (simp add: test_bit_iff)

section \<open>struct Page and free\_area\_t\<close>

record page =
  pg_ref :: int
  pg_flags :: "64 word"
  pg_property :: nat
  pg_pra_vaddr :: nat

datatype fnode = FreeList | PageLink nat

fun le2page :: "fnode \<Rightarrow> nat" where
  "le2page (PageLink p) = p"

record pmm =
  pages :: "nat \<Rightarrow> page"
  links :: "fnode links"
  nr_free :: nat

definition PG_reserved :: nat where "PG_reserved = 0"
definition PG_property :: nat where "PG_property = 1"

definition upd_page :: "nat \<Rightarrow> (page \<Rightarrow> page) \<Rightarrow> pmm \<Rightarrow> pmm" where
  "upd_page p f s = s\<lparr>pages := (pages s)(p := f (pages s p))\<rparr>"

definition upd_links :: "(fnode links \<Rightarrow> fnode links) \<Rightarrow> pmm \<Rightarrow> pmm" where
  "upd_links f s = s\<lparr>links := f (links s)\<rparr>"

definition SetPageReserved :: "nat \<Rightarrow> pmm \<Rightarrow> pmm" where
  "SetPageReserved p = upd_page p (\<lambda>g. g\<lparr>pg_flags := atomic_set_bit PG_reserved (pg_flags g)\<rparr>)"

definition ClearPageReserved :: "nat \<Rightarrow> pmm \<Rightarrow> pmm" where
  "ClearPageReserved p =
     upd_page p (\<lambda>g. g\<lparr>pg_flags := atomic_clear_bit PG_reserved (pg_flags g)\<rparr>)"

definition PageReserved :: "pmm \<Rightarrow> nat \<Rightarrow> bool" where
  "PageReserved s p = atomic_test_bit PG_reserved (pg_flags (pages s p))"

definition SetPageProperty :: "nat \<Rightarrow> pmm \<Rightarrow> pmm" where
  "SetPageProperty p = upd_page p (\<lambda>g. g\<lparr>pg_flags := atomic_set_bit PG_property (pg_flags g)\<rparr>)"

definition ClearPageProperty :: "nat \<Rightarrow> pmm \<Rightarrow> pmm" where
  "ClearPageProperty p =
     upd_page p (\<lambda>g. g\<lparr>pg_flags := atomic_clear_bit PG_property (pg_flags g)\<rparr>)"

definition PageProperty :: "pmm \<Rightarrow> nat \<Rightarrow> bool" where
  "PageProperty s p = atomic_test_bit PG_property (pg_flags (pages s p))"

definition property :: "pmm \<Rightarrow> nat \<Rightarrow> nat" where
  "property s p = pg_property (pages s p)"

definition set_property :: "nat \<Rightarrow> nat \<Rightarrow> pmm \<Rightarrow> pmm" where
  "set_property p v = upd_page p (\<lambda>g. g\<lparr>pg_property := u32 v\<rparr>)"

definition set_flags :: "nat \<Rightarrow> 64 word \<Rightarrow> pmm \<Rightarrow> pmm" where
  "set_flags p v = upd_page p (\<lambda>g. g\<lparr>pg_flags := v\<rparr>)"

definition page_ref :: "pmm \<Rightarrow> nat \<Rightarrow> int" where
  "page_ref s p = pg_ref (pages s p)"

definition set_page_ref :: "nat \<Rightarrow> int \<Rightarrow> pmm \<Rightarrow> pmm" where
  "set_page_ref p v = upd_page p (\<lambda>g. g\<lparr>pg_ref := v\<rparr>)"

definition page_ref_inc :: "nat \<Rightarrow> pmm \<Rightarrow> int \<times> pmm" where
  "page_ref_inc p s =
     (let s' = upd_page p (\<lambda>g. g\<lparr>pg_ref := pg_ref g + 1\<rparr>) s in (page_ref s' p, s'))"

definition page_ref_dec :: "nat \<Rightarrow> pmm \<Rightarrow> int \<times> pmm" where
  "page_ref_dec p s =
     (let s' = upd_page p (\<lambda>g. g\<lparr>pg_ref := pg_ref g - 1\<rparr>) s in (page_ref s' p, s'))"

section \<open>How the accessors see the updates\<close>

lemma pmm_frame_simps [simp]:
  "links (upd_page p f s) = links s" "nr_free (upd_page p f s) = nr_free s"
  "pages (upd_links g s) = pages s" "nr_free (upd_links g s) = nr_free s"
  "links (upd_links g s) = g (links s)"
  by (simp_all add: upd_page_def upd_links_def)

lemma pages_upd_page [simp]: "pages (upd_page p f s) = (pages s)(p := f (pages s p))"
  by (simp add: upd_page_def)

lemmas page_op_defs = SetPageReserved_def ClearPageReserved_def SetPageProperty_def
  ClearPageProperty_def set_property_def set_flags_def set_page_ref_def

lemma page_ops_links [simp]:
  "links (SetPageProperty p s) = links s" "links (ClearPageProperty p s) = links s"
  "links (set_property p v s) = links s" "links (set_flags p w s) = links s"
  "links (set_page_ref p i s) = links s"
  by (simp_all add: page_op_defs)

lemma page_ops_nr_free [simp]:
  "nr_free (SetPageProperty p s) = nr_free s" "nr_free (ClearPageProperty p s) = nr_free s"
  "nr_free (set_property p v s) = nr_free s" "nr_free (set_flags p w s) = nr_free s"
  "nr_free (set_page_ref p i s) = nr_free s"
  by (simp_all add: page_op_defs)

lemma PageProperty_upd [simp]:
  "PageProperty (SetPageProperty p s) q \<longleftrightarrow> q = p \<or> PageProperty s q"
  "PageProperty (ClearPageProperty p s) q \<longleftrightarrow> q \<noteq> p \<and> PageProperty s q"
  "PageProperty (set_property p v s) q = PageProperty s q"
  "PageProperty (set_page_ref p i s) q = PageProperty s q"
  "PageProperty (set_flags p 0 s) q \<longleftrightarrow> q \<noteq> p \<and> PageProperty s q"
  "PageProperty (upd_links g s) q = PageProperty s q"
  "PageProperty (s\<lparr>nr_free := k\<rparr>) q = PageProperty s q"
  by (auto simp: PageProperty_def page_op_defs PG_property_def)

lemma PageReserved_upd [simp]:
  "PageReserved (SetPageProperty p s) q = PageReserved s q"
  "PageReserved (ClearPageProperty p s) q = PageReserved s q"
  "PageReserved (set_property p v s) q = PageReserved s q"
  "PageReserved (set_page_ref p i s) q = PageReserved s q"
  "PageReserved (set_flags p 0 s) q \<longleftrightarrow> q \<noteq> p \<and> PageReserved s q"
  "PageReserved (upd_links g s) q = PageReserved s q"
  "PageReserved (s\<lparr>nr_free := k\<rparr>) q = PageReserved s q"
  by (auto simp: PageReserved_def page_op_defs PG_property_def PG_reserved_def)

lemma property_upd [simp]:
  "property (SetPageProperty p s) = property s"
  "property (ClearPageProperty p s) = property s"
  "property (set_property p v s) = (property s)(p := u32 v)"
  "property (set_page_ref p i s) = property s"
  "property (set_flags p w s) = property s"
  "property (upd_links g s) = property s"
  "property (s\<lparr>nr_free := k\<rparr>) = property s"
  by (auto simp: property_def page_op_defs fun_eq_iff)

lemma page_ref_upd [simp]:
  "page_ref (SetPageProperty p s) q = page_ref s q"
  "page_ref (ClearPageProperty p s) q = page_ref s q"
  "page_ref (set_property p v s) q = page_ref s q"
  "page_ref (set_page_ref p i s) q = (if q = p then i else page_ref s q)"
  "page_ref (set_flags p w s) q = page_ref s q"
  "page_ref (upd_links g s) q = page_ref s q"
  "page_ref (s\<lparr>nr_free := k\<rparr>) q = page_ref s q"
  by (auto simp: page_ref_def page_op_defs)

section \<open>The contract of a page manager\<close>

text \<open>
  \<open>frees s\<close> is the set of page frames the manager holds.  \<open>freeable b n s\<close> says when a
  block may be given back; each manager states its own condition.
\<close>

locale page_manager =
  fixes alloc :: "nat \<Rightarrow> 's \<Rightarrow> (nat option \<times> 's) option"
    and free :: "nat \<Rightarrow> nat \<Rightarrow> 's \<Rightarrow> 's option"
    and nr_free_pages :: "'s \<Rightarrow> nat"
    and inv :: "'s \<Rightarrow> bool"
    and frees :: "'s \<Rightarrow> nat set"
    and freeable :: "nat \<Rightarrow> nat \<Rightarrow> 's \<Rightarrow> bool"
  assumes finite_frees: "inv s \<Longrightarrow> finite (frees s)"
    and nr_free_card: "inv s \<Longrightarrow> nr_free_pages s = card (frees s)"
    and alloc_returns: "inv s \<Longrightarrow> 0 < n \<Longrightarrow> \<exists>r. alloc n s = Some r"
    and alloc_fails: "inv s \<Longrightarrow> alloc n s = Some (None, s') \<Longrightarrow> s' = s"
    and alloc_gives: "inv s \<Longrightarrow> alloc n s = Some (Some p, s') \<Longrightarrow>
          inv s' \<and> {p..<p + n} \<subseteq> frees s \<and> frees s' = frees s - {p..<p + n}"
    and free_takes: "inv s \<Longrightarrow> freeable b n s \<Longrightarrow>
          \<exists>s'. free b n s = Some s' \<and> inv s' \<and> frees s' = frees s \<union> {b..<b + n}"
    and freeable_new: "inv s \<Longrightarrow> freeable b n s \<Longrightarrow> 0 < n \<and> {b..<b + n} \<inter> frees s = {}"
begin

lemma alloc_twice_disjoint:
  assumes "inv s" and "alloc n s = Some (Some p, s1)" and "alloc m s1 = Some (Some q, s2)"
  shows "{p..<p + n} \<inter> {q..<q + m} = {}" and "inv s2"
proof -
  have "inv s1" and s1: "frees s1 = frees s - {p..<p + n}"
    using alloc_gives [OF assms(1,2)] by simp_all
  then have "inv s2" and "{q..<q + m} \<subseteq> frees s1"
    using alloc_gives [of s1 m q s2] assms(3) by simp_all
  then show "{p..<p + n} \<inter> {q..<q + m} = {}" and "inv s2" unfolding s1 by blast+
qed

lemma alloc_nr_free:
  assumes "inv s" and "alloc n s = Some (Some p, s')"
  shows "nr_free_pages s' + n = nr_free_pages s"
proof -
  have g: "inv s'" "{p..<p + n} \<subseteq> frees s" "frees s' = frees s - {p..<p + n}"
    using alloc_gives [OF assms] by simp_all
  have "card (frees s') = card (frees s) - card {p..<p + n}"
    using g by (simp add: card_Diff_subset)
  moreover have "card {p..<p + n} \<le> card (frees s)"
    by (rule card_mono) (use g finite_frees [OF assms(1)] in auto)
  ultimately show ?thesis using g assms by (simp add: nr_free_card)
qed

lemma free_nr_free:
  assumes "inv s" and "freeable b n s" and "free b n s = Some s'"
  shows "nr_free_pages s' = nr_free_pages s + n"
proof -
  have g: "inv s'" "frees s' = frees s \<union> {b..<b + n}"
    using free_takes [OF assms(1,2)] assms(3) by auto
  have "card (frees s \<union> {b..<b + n}) = card (frees s) + card {b..<b + n}"
    by (rule card_Un_disjoint)
      (use finite_frees [OF assms(1)] freeable_new [OF assms(1,2)] in auto)
  then show ?thesis using g assms by (simp add: nr_free_card)
qed

lemma alloc_free_restores:
  assumes "inv s" and "alloc n s = Some (Some p, s1)" and "freeable p n s1"
  shows "\<exists>s2. free p n s1 = Some s2 \<and> inv s2 \<and> frees s2 = frees s
           \<and> nr_free_pages s2 = nr_free_pages s"
proof -
  have g: "inv s1" "{p..<p + n} \<subseteq> frees s" "frees s1 = frees s - {p..<p + n}"
    using alloc_gives [OF assms(1,2)] by simp_all
  obtain s2 where s2: "free p n s1 = Some s2" "inv s2" "frees s2 = frees s1 \<union> {p..<p + n}"
    using free_takes [OF g(1) assms(3)] by auto
  have "nr_free_pages s2 = nr_free_pages s1 + n"
    by (rule free_nr_free [OF g(1) assms(3) s2(1)])
  moreover have "nr_free_pages s1 + n = nr_free_pages s" by (rule alloc_nr_free [OF assms(1,2)])
  moreover have "frees s2 = frees s" using g s2 by auto
  ultimately show ?thesis using s2 by simp
qed

end

end
