(* ===== verification/Free_List.thy ===== *)
theory Free_List
  imports Page_Frame
begin

text \<open>
  The address-ordered free list that the first-fit manager (lab8,
  \<open>kern/mm/default_pmm.c\<close>) and the best-fit manager (lab2, \<open>kern/mm/best_fit_pmm.c\<close>)
  share: the loops that reset page descriptors, the ordered insertion of a block, the two
  coalescing steps, the cut of a block by an allocation, and the invariant \<open>fl_inv\<close> of a
  free list.  The two C files hold the same statements; each manager composes these steps.
\<close>

section \<open>The statements of the C code\<close>

fun memmap_pages :: "nat \<Rightarrow> nat \<Rightarrow> pmm \<Rightarrow> pmm option" where
  "memmap_pages p 0 s = Some s"
| "memmap_pages p (Suc k) s = do {
     kassert (PageReserved s p);
     memmap_pages (Suc p) k (set_page_ref p 0 (set_property p 0 (set_flags p 0 s)))
   }"

fun reset_pages :: "nat \<Rightarrow> nat \<Rightarrow> pmm \<Rightarrow> pmm option" where
  "reset_pages p 0 s = Some s"
| "reset_pages p (Suc k) s = do {
     kassert (\<not> PageReserved s p \<and> \<not> PageProperty s p);
     reset_pages (Suc p) k (set_page_ref p 0 (set_flags p 0 s))
   }"

partial_function (option) insert_loop :: "nat \<Rightarrow> fnode \<Rightarrow> pmm \<Rightarrow> pmm option" where
  "insert_loop base le s =
     (let le = list_next le (links s)
      in if le = FreeList then Some s
         else if base < le2page le
         then Some (upd_links (list_add_before le (PageLink base)) s)
         else if list_next le (links s) = FreeList
         then insert_loop base le (upd_links (list_add le (PageLink base)) s)
         else insert_loop base le s)"

definition link_block :: "nat \<Rightarrow> pmm \<Rightarrow> pmm option" where
  "link_block base s =
     (if list_empty FreeList (links s)
      then Some (upd_links (list_add FreeList (PageLink base)) s)
      else insert_loop base FreeList s)"

definition coalesce_prev :: "nat \<Rightarrow> pmm \<Rightarrow> nat \<times> pmm" where
  "coalesce_prev base s =
     (let le = list_prev (PageLink base) (links s)
      in if le \<noteq> FreeList \<and> le2page le + property s (le2page le) = base
         then let p = le2page le;
                  s1 = set_property p (property s p + property s base) s;
                  s2 = ClearPageProperty base s1;
                  s3 = upd_links (list_del (PageLink base)) s2
              in (p, s3)
         else (base, s))"

definition coalesce_next :: "nat \<Rightarrow> pmm \<Rightarrow> pmm" where
  "coalesce_next base s =
     (let le = list_next (PageLink base) (links s)
      in if le \<noteq> FreeList \<and> base + property s base = le2page le
         then let p = le2page le;
                  s1 = set_property base (property s base + property s p) s;
                  s2 = ClearPageProperty p s1
              in upd_links (list_del (PageLink p)) s2
         else s)"

definition cut_block :: "nat \<Rightarrow> nat \<Rightarrow> pmm \<Rightarrow> pmm" where
  "cut_block n page s =
     (let prev = list_prev (PageLink page) (links s);
          s1 = upd_links (list_del (PageLink page)) s;
          s2 = (if n < property s1 page
                then let p = page + n;
                         s3 = set_property p (property s1 page - n) s1;
                         s4 = SetPageProperty p s3
                     in upd_links (list_add prev (PageLink p)) s4
                else s1);
          s5 = s2\<lparr>nr_free := sub32 (nr_free s2) n\<rparr>
      in ClearPageProperty page s5)"

section \<open>Blocks of page frames\<close>

definition blocks_ok :: "(nat \<Rightarrow> nat) \<Rightarrow> nat list \<Rightarrow> bool" where
  "blocks_ok f bs \<longleftrightarrow> sorted_wrt (\<lambda>b c. b + f b \<le> c) bs \<and> (\<forall>b\<in>set bs. 0 < f b)"

definition bset :: "(nat \<Rightarrow> nat) \<Rightarrow> nat list \<Rightarrow> nat set" where
  "bset f bs = (\<Union>b\<in>set bs. {b..<b + f b})"

lemma bset_simps [simp]:
  "bset f [] = {}" "bset f (b # bs) = {b..<b + f b} \<union> bset f bs"
  "bset f (us @ vs) = bset f us \<union> bset f vs"
  by (auto simp: bset_def)

lemma finite_bset [simp]: "finite (bset f bs)"
  by (simp add: bset_def)

lemma blocks_ok_append:
  "blocks_ok f (us @ p # vs) \<longleftrightarrow> blocks_ok f us \<and> blocks_ok f vs \<and> 0 < f p
     \<and> (\<forall>u\<in>set us. u + f u \<le> p) \<and> (\<forall>v\<in>set vs. p + f p \<le> v)
     \<and> (\<forall>u\<in>set us. \<forall>v\<in>set vs. u + f u \<le> v)"
  by (auto simp: blocks_ok_def sorted_wrt_append)

lemma blocks_ok_append2:
  "blocks_ok f (us @ vs) \<longleftrightarrow> blocks_ok f us \<and> blocks_ok f vs
     \<and> (\<forall>u\<in>set us. \<forall>v\<in>set vs. u + f u \<le> v)"
  by (auto simp: blocks_ok_def sorted_wrt_append)

lemma blocks_ok_Cons:
  "blocks_ok f (p # vs) \<longleftrightarrow> blocks_ok f vs \<and> 0 < f p \<and> (\<forall>v\<in>set vs. p + f p \<le> v)"
  by (auto simp: blocks_ok_def)

lemma blocks_ok_Nil [simp]: "blocks_ok f []"
  by (simp add: blocks_ok_def)

lemma blocks_ok_cong: "(\<And>b. b \<in> set bs \<Longrightarrow> f b = g b) \<Longrightarrow> blocks_ok f bs = blocks_ok g bs"
  by (induction bs) (auto simp: blocks_ok_Cons)

lemma bset_cong: "(\<And>b. b \<in> set bs \<Longrightarrow> f b = g b) \<Longrightarrow> bset f bs = bset g bs"
  by (simp add: bset_def)

lemma map_upd_other: "x \<notin> set bs \<Longrightarrow> map (f(x := v)) bs = map f bs"
  by simp

lemma card_bset: "blocks_ok f bs \<Longrightarrow> card (bset f bs) = sum_list (map f bs)"
proof (induction bs)
  case Nil
  then show ?case by simp
next
  case (Cons b bs)
  then have ok: "blocks_ok f bs" and above: "\<forall>v\<in>set bs. b + f b \<le> v"
    by (simp_all add: blocks_ok_Cons)
  have "{b..<b + f b} \<inter> bset f bs = {}" using above by (force simp: bset_def)
  then have "card (bset f (b # bs)) = card {b..<b + f b} + card (bset f bs)"
    by (simp add: card_Un_disjoint)
  with Cons.IH [OF ok] show ?case by simp
qed

lemma blocks_ok_bset_disjoint:
  assumes "blocks_ok f (us @ p # vs)"
  shows "{p..<p + f p} \<inter> (bset f us \<union> bset f vs) = {}"
  using assms by (force simp: blocks_ok_append bset_def)

lemma blocks_ok_inside:
  assumes "blocks_ok f (us @ p # vs)" and "p < q" and "q < p + f p"
  shows "q \<notin> set us" and "q \<notin> set vs"
  using assms by (force simp: blocks_ok_append)+

lemma blocks_ok_cut:
  assumes ok: "blocks_ok f (us @ p # vs)" and "0 < n" and "n < f p"
  shows "blocks_ok (f(p + n := f p - n)) (us @ (p + n) # vs)"
proof -
  let ?g = "f(p + n := f p - n)"
  have nin: "p + n \<notin> set us" "p + n \<notin> set vs"
    using blocks_ok_inside [OF ok, of "p + n"] assms by auto
  then have eq: "\<And>b. b \<in> set us \<union> set vs \<Longrightarrow> ?g b = f b" by auto
  have "blocks_ok ?g us" "blocks_ok ?g vs"
    using ok eq blocks_ok_cong [of us ?g f] blocks_ok_cong [of vs ?g f]
    by (auto simp: blocks_ok_append)
  moreover have "\<forall>u\<in>set us. u + ?g u \<le> p + n" "\<forall>u\<in>set us. \<forall>v\<in>set vs. u + ?g u \<le> v"
    "\<forall>v\<in>set vs. p + n + ?g (p + n) \<le> v"
    using ok eq assms by (force simp: blocks_ok_append)+
  ultimately show ?thesis using assms by (simp add: blocks_ok_append)
qed

lemma blocks_ok_insert:
  assumes ok: "blocks_ok f (us @ vs)" and "0 < n" and "b \<notin> set us" "b \<notin> set vs"
    and "\<forall>u\<in>set us. u < b" and "\<forall>v\<in>set vs. b < v"
    and dis: "{b..<b + n} \<inter> bset f (us @ vs) = {}"
  shows "blocks_ok (f(b := n)) (us @ b # vs)"
proof -
  let ?g = "f(b := n)"
  have eq: "\<And>c. c \<in> set us \<union> set vs \<Longrightarrow> ?g c = f c" using assms by auto
  have "blocks_ok ?g us" "blocks_ok ?g vs"
    using ok eq blocks_ok_cong [of us ?g f] blocks_ok_cong [of vs ?g f]
    by (auto simp: blocks_ok_append2)
  moreover have "\<forall>u\<in>set us. u + f u \<le> b"
  proof
    fix u assume u: "u \<in> set us"
    have "b \<in> {b..<b + n}" using \<open>0 < n\<close> by simp
    then have "b \<notin> bset f (us @ vs)" using dis by blast
    then have "b \<notin> {u..<u + f u}" using u by (auto simp: bset_def)
    with u assms(5) show "u + f u \<le> b" by auto
  qed
  moreover have "\<forall>v\<in>set vs. b + n \<le> v"
  proof
    fix v assume v: "v \<in> set vs"
    then have "0 < f v" using ok by (auto simp: blocks_ok_def)
    then have "v \<in> bset f (us @ vs)" using v by (auto simp: bset_def)
    then have "v \<notin> {b..<b + n}" using dis by auto
    with v assms(6) show "b + n \<le> v" by auto
  qed
  ultimately show ?thesis
    using ok eq assms(2,3,4) by (auto simp: blocks_ok_append2 blocks_ok_Cons)
qed

lemma blocks_ok_merge:
  assumes ok: "blocks_ok f (us @ b # c # vs)" and adj: "b + f b = c"
  shows "blocks_ok (f(b := f b + f c)) (us @ b # vs)"
    and "bset (f(b := f b + f c)) (us @ b # vs) = bset f (us @ b # c # vs)"
    and "sum_list (map (f(b := f b + f c)) (us @ b # vs)) = sum_list (map f (us @ b # c # vs))"
proof -
  let ?g = "f(b := f b + f c)"
  have nin: "b \<notin> set us" "b \<notin> set vs" using ok by (force simp: blocks_ok_append blocks_ok_Cons)+
  then have eq: "\<And>d. d \<in> set us \<union> set vs \<Longrightarrow> ?g d = f d" by auto
  have "blocks_ok ?g us" "blocks_ok ?g vs"
    using ok eq blocks_ok_cong [of us ?g f] blocks_ok_cong [of vs ?g f]
    by (auto simp: blocks_ok_append blocks_ok_Cons)
  then show "blocks_ok ?g (us @ b # vs)"
    using ok eq adj by (auto simp: blocks_ok_append blocks_ok_Cons)
  have "bset ?g us = bset f us" "bset ?g vs = bset f vs"
    using eq by (auto intro!: bset_cong)
  then show "bset ?g (us @ b # vs) = bset f (us @ b # c # vs)"
    using adj by auto
  show "sum_list (map ?g (us @ b # vs)) = sum_list (map f (us @ b # c # vs))"
    using nin by simp
qed

section \<open>The invariant of a free list\<close>

definition fl_inv :: "pmm \<Rightarrow> nat list \<Rightarrow> bool" where
  "fl_inv s bs \<longleftrightarrow> clist (links s) FreeList (map PageLink bs)
     \<and> blocks_ok (property s) bs
     \<and> (\<forall>p. PageProperty s p \<longleftrightarrow> p \<in> set bs)
     \<and> (\<forall>p\<in>bset (property s) bs. \<not> PageReserved s p)
     \<and> nr_free s = sum_list (map (property s) bs)
     \<and> nr_free s < 4294967296"

definition free_set :: "pmm \<Rightarrow> nat set" where
  "free_set s = {p. \<exists>b. PageProperty s b \<and> b \<le> p \<and> p < b + property s b}"

lemma fl_inv_free_set: "fl_inv s bs \<Longrightarrow> free_set s = bset (property s) bs"
  by (auto simp: fl_inv_def free_set_def bset_def)

lemma fl_inv_card: "fl_inv s bs \<Longrightarrow> card (free_set s) = nr_free s"
  using card_bset [of "property s" bs] by (simp add: fl_inv_free_set) (simp add: fl_inv_def)

lemma fl_inv_finite: "fl_inv s bs \<Longrightarrow> finite (free_set s)"
  by (simp add: fl_inv_free_set)

lemma fl_inv_unique: "fl_inv s bs \<Longrightarrow> fl_inv s cs \<Longrightarrow> bs = cs"
proof -
  assume "fl_inv s bs" "fl_inv s cs"
  then have "map PageLink bs = map PageLink cs"
    by (auto simp: fl_inv_def dest: clist_unique)
  then show "bs = cs" by (simp add: inj_map_eq_map inj_def)
qed

lemma fl_inv_property_le: "fl_inv s bs \<Longrightarrow> b \<in> set bs \<Longrightarrow> property s b \<le> nr_free s"
  using member_sum_list_le [of b bs "property s"] by (simp add: fl_inv_def)

lemma fl_inv_head_notin:
  "fl_inv s (us @ p # vs) \<Longrightarrow> p \<notin> set us \<and> p \<notin> set vs \<and> distinct (us @ vs)"
  using clist_distinct [of "links s" FreeList "map PageLink (us @ p # vs)"]
  by (auto simp: fl_inv_def distinct_map)

text \<open>The invariant reads only the list, the properties, the flags and the count.\<close>

definition same_view :: "pmm \<Rightarrow> pmm \<Rightarrow> bool" where
  "same_view s t \<longleftrightarrow> links s = links t \<and> property s = property t
     \<and> PageProperty s = PageProperty t \<and> PageReserved s = PageReserved t \<and> nr_free s = nr_free t"

lemma same_view_fl_inv: "same_view s t \<Longrightarrow> fl_inv s bs = fl_inv t bs"
  by (simp add: same_view_def fl_inv_def)

lemma same_view_free_set: "same_view s t \<Longrightarrow> free_set s = free_set t"
  by (simp add: same_view_def free_set_def)

section \<open>The loop that resets the descriptors of a freed block\<close>

lemma reset_pages_ok:
  assumes "\<forall>p\<in>{b..<b + n}. \<not> PageReserved s p \<and> \<not> PageProperty s p"
  shows "\<exists>t. reset_pages b n s = Some t \<and> same_view t s
           \<and> (\<forall>p. page_ref t p = (if p \<in> {b..<b + n} then 0 else page_ref s p))"
  using assms
proof (induction n arbitrary: b s)
  case 0
  then show ?case by (simp add: same_view_def)
next
  case (Suc n)
  define s1 where "s1 = set_page_ref b 0 (set_flags b 0 s)"
  have sv: "same_view s1 s"
    using Suc.prems by (auto simp: s1_def same_view_def fun_eq_iff)
  have "\<forall>p\<in>{Suc b..<Suc b + n}. \<not> PageReserved s1 p \<and> \<not> PageProperty s1 p"
    using Suc.prems by (auto simp: s1_def)
  then obtain t where t: "reset_pages (Suc b) n s1 = Some t" "same_view t s1"
    "\<forall>p. page_ref t p = (if p \<in> {Suc b..<Suc b + n} then 0 else page_ref s1 p)"
    using Suc.IH by blast
  have "reset_pages b (Suc n) s = Some t"
    using Suc.prems t(1) by (simp add: s1_def)
  moreover have "same_view t s" using t(2) sv by (simp add: same_view_def)
  moreover have "\<forall>p. page_ref t p = (if p \<in> {b..<b + Suc n} then 0 else page_ref s p)"
    using t(3) by (auto simp: s1_def)
  ultimately show ?case by blast
qed

lemma reset_pages_panics:
  assumes "p \<in> {b..<b + n}" and "PageReserved s p \<or> PageProperty s p"
  shows "reset_pages b n s = None"
  using assms
proof (induction n arbitrary: b s)
  case 0
  then show ?case by simp
next
  case (Suc n)
  show ?case
  proof (cases "p = b")
    case True
    then show ?thesis using Suc.prems by (auto simp: kassert_def)
  next
    case False
    then show ?thesis
      using Suc.prems Suc.IH [of "Suc b" "set_page_ref b 0 (set_flags b 0 s)"]
      by (auto simp: kassert_def)
  qed
qed

lemma memmap_pages_ok:
  assumes "\<forall>p\<in>{b..<b + n}. PageReserved s p"
  shows "\<exists>t. memmap_pages b n s = Some t \<and> links t = links s \<and> nr_free t = nr_free s
     \<and> (\<forall>p. PageReserved t p \<longleftrightarrow> p \<notin> {b..<b + n} \<and> PageReserved s p)
     \<and> (\<forall>p. PageProperty t p \<longleftrightarrow> p \<notin> {b..<b + n} \<and> PageProperty s p)
     \<and> (\<forall>p. property t p = (if p \<in> {b..<b + n} then 0 else property s p))
     \<and> (\<forall>p. page_ref t p = (if p \<in> {b..<b + n} then 0 else page_ref s p))"
  using assms
proof (induction n arbitrary: b s)
  case 0
  then show ?case by simp
next
  case (Suc n)
  define s1 where "s1 = set_page_ref b 0 (set_property b 0 (set_flags b 0 s))"
  have "\<forall>p\<in>{Suc b..<Suc b + n}. PageReserved s1 p"
    using Suc.prems by (auto simp: s1_def)
  then obtain t where t: "memmap_pages (Suc b) n s1 = Some t" "links t = links s1"
    "nr_free t = nr_free s1"
    "\<forall>p. PageReserved t p \<longleftrightarrow> p \<notin> {Suc b..<Suc b + n} \<and> PageReserved s1 p"
    "\<forall>p. PageProperty t p \<longleftrightarrow> p \<notin> {Suc b..<Suc b + n} \<and> PageProperty s1 p"
    "\<forall>p. property t p = (if p \<in> {Suc b..<Suc b + n} then 0 else property s1 p)"
    "\<forall>p. page_ref t p = (if p \<in> {Suc b..<Suc b + n} then 0 else page_ref s1 p)"
    using Suc.IH by blast
  have "memmap_pages b (Suc n) s = Some t"
    using Suc.prems t(1) by (simp add: s1_def)
  then show ?case using t(2-) by (intro exI [of _ t]) (auto simp: s1_def)
qed

section \<open>Searching a list\<close>

lemma find_split_first:
  "List.find P bs = Some p \<Longrightarrow> \<exists>us vs. bs = us @ p # vs \<and> P p \<and> (\<forall>u\<in>set us. \<not> P u)"
proof (induction bs)
  case Nil
  then show ?case by simp
next
  case (Cons b bs)
  show ?case
  proof (cases "P b")
    case True
    then show ?thesis using Cons.prems by (intro exI [of _ "[]"] exI [of _ bs]) simp
  next
    case False
    then obtain us vs where "bs = us @ p # vs" "P p" "\<forall>u\<in>set us. \<not> P u"
      using Cons by auto
    then show ?thesis using False by (intro exI [of _ "b # us"] exI [of _ vs]) simp
  qed
qed

section \<open>Ordered insertion\<close>

lemma insert_loop_before:
  assumes "clist (links s) FreeList (map PageLink (us @ ws @ v # vs))"
    and "\<forall>w\<in>set ws. w \<le> base" and "base < v" and "le = last (FreeList # map PageLink us)"
  shows "insert_loop base le s = Some (upd_links (list_add_before (PageLink v) (PageLink base)) s)"
  using assms
proof (induction ws arbitrary: us le)
  case Nil
  have "list_next le (links s) = PageLink v"
    using Nil.prems by (cases us rule: rev_cases)
      (auto simp: list_next_def dest: clist_head_next clist_mid_next)
  then show ?case using Nil.prems by (subst insert_loop.simps) simp
next
  case (Cons w ws)
  have nx: "list_next le (links s) = PageLink w"
    using Cons.prems by (cases us rule: rev_cases)
      (auto simp: list_next_def dest: clist_head_next clist_mid_next)
  have "list_next (PageLink w) (links s) = hd (map PageLink (ws @ v # vs) @ [FreeList])"
    using Cons.prems(1) clist_mid_next [of "links s" FreeList "map PageLink us" "PageLink w"]
    by (simp add: list_next_def)
  then have "list_next (PageLink w) (links s) \<noteq> FreeList" by (cases ws) auto
  moreover have "insert_loop base (PageLink w) s
      = Some (upd_links (list_add_before (PageLink v) (PageLink base)) s)"
    by (rule Cons.IH [of "us @ [w]"]) (use Cons.prems in auto)
  ultimately show ?case using Cons.prems(2) nx by (subst insert_loop.simps) simp
qed

text \<open>
  When no block lies above the new one, the loop appends it behind the last block and does
  not stop: the next iteration meets the new node itself and adds it a second time behind
  itself, which leaves its \<open>prev\<close> pointer aimed at itself.
\<close>

lemma insert_loop_tail:
  assumes "clist (links s) FreeList (map PageLink (us @ ws @ [w]))"
    and "\<forall>x\<in>set (ws @ [w]). x \<le> base" and "base \<notin> set (us @ ws @ [w])"
    and "le = last (FreeList # map PageLink us)"
  shows "insert_loop base le s = Some (upd_links
           (\<lambda>h. list_add (PageLink base) (PageLink base) (list_add (PageLink w) (PageLink base) h)) s)"
  using assms
proof (induction ws arbitrary: us le)
  case Nil
  have nx: "list_next le (links s) = PageLink w"
    using Nil.prems by (cases us rule: rev_cases)
      (auto simp: list_next_def dest: clist_head_next clist_mid_next)
  have nw: "list_next (PageLink w) (links s) = FreeList"
    using Nil.prems(1) clist_mid_next [of "links s" FreeList "map PageLink us" "PageLink w" "[]"]
    by (simp add: list_next_def)
  define s1 where "s1 = upd_links (list_add (PageLink w) (PageLink base)) s"
  have "base \<noteq> w" using Nil.prems by auto
  then have n1: "list_next (PageLink w) (links s1) = PageLink base"
    "list_next (PageLink base) (links s1) = FreeList"
    using nw by (auto simp: s1_def list_op_defs Let_def)
  define s2 where "s2 = upd_links (list_add (PageLink base) (PageLink base)) s1"
  have n2: "list_next (PageLink base) (links s2) = FreeList"
    using n1 by (auto simp: s2_def list_op_defs Let_def)
  have "insert_loop base (PageLink base) s2 = Some s2"
    by (subst insert_loop.simps) (simp add: n2)
  then have "insert_loop base (PageLink w) s1 = Some s2"
    by (subst insert_loop.simps) (simp add: n1 flip: s2_def)
  then have "insert_loop base le s = Some s2"
    using Nil.prems nx nw by (subst insert_loop.simps) (simp flip: s1_def)
  then show ?case by (simp add: s2_def s1_def upd_links_def)
next
  case (Cons x ws)
  have nx: "list_next le (links s) = PageLink x"
    using Cons.prems by (cases us rule: rev_cases)
      (auto simp: list_next_def dest: clist_head_next clist_mid_next)
  have "list_next (PageLink x) (links s) = hd (map PageLink (ws @ [w]) @ [FreeList])"
    using Cons.prems(1) clist_mid_next [of "links s" FreeList "map PageLink us" "PageLink x"]
    by (simp add: list_next_def)
  then have "list_next (PageLink x) (links s) \<noteq> FreeList" by (cases ws) auto
  moreover have "insert_loop base (PageLink x) s = Some (upd_links
      (\<lambda>h. list_add (PageLink base) (PageLink base) (list_add (PageLink w) (PageLink base) h)) s)"
    by (rule Cons.IH [of "us @ [x]"]) (use Cons.prems in auto)
  ultimately show ?case using Cons.prems(2) nx by (subst insert_loop.simps) simp
qed

lemma split_sorted_at:
  fixes b :: nat
  assumes "sorted_wrt (<) bs" and "b \<notin> set bs"
  shows "\<exists>us vs. bs = us @ vs \<and> (\<forall>u\<in>set us. u < b) \<and> (\<forall>v\<in>set vs. b < v)"
proof -
  have "bs = takeWhile (\<lambda>x. x < b) bs @ dropWhile (\<lambda>x. x < b) bs" by simp
  moreover have "\<forall>u\<in>set (takeWhile (\<lambda>x. x < b) bs). u < b" by (meson set_takeWhileD)
  moreover have "\<forall>v\<in>set (dropWhile (\<lambda>x. x < b) bs). b < v"
    using assms
  proof (induction bs)
    case Nil
    then show ?case by simp
  next
    case (Cons x bs)
    then show ?case by (cases "x < b") auto
  qed
  ultimately show ?thesis by metis
qed

lemma blocks_ok_sorted: "blocks_ok f bs \<Longrightarrow> sorted_wrt (<) bs"
  unfolding blocks_ok_def by (induction bs) auto

lemma PageLink_image [simp]: "PageLink x \<in> PageLink ` A \<longleftrightarrow> x \<in> A" "FreeList \<notin> PageLink ` A"
  by auto

lemma hd_map_link: "vs \<noteq> [] \<Longrightarrow> hd (map PageLink vs @ [FreeList]) = PageLink (hd vs)"
  by (cases vs) auto

lemma link_block_ok:
  assumes c: "clist (links s) FreeList (map PageLink (us @ vs))"
    and "\<forall>u\<in>set us. u < base" and "\<forall>v\<in>set vs. base < v" and above: "vs = [] \<Longrightarrow> us = []"
  shows "\<exists>h. link_block base s = Some (upd_links (\<lambda>_. h) s)
           \<and> clist h FreeList (map PageLink (us @ base # vs))"
proof (cases "us @ vs = []")
  case True
  then have "list_empty FreeList (links s)" using c clist_empty_iff by fastforce
  moreover have "clist (list_add FreeList (PageLink base) (links s)) FreeList [PageLink base]"
    by (rule clist_push_front) (use c True in simp_all)
  ultimately show ?thesis using True
    by (intro exI [of _ "list_add FreeList (PageLink base) (links s)"])
      (simp add: link_block_def upd_links_def)
next
  case False
  then obtain v vs' where vs: "vs = v # vs'" using above by (cases vs) auto
  have "\<not> list_empty FreeList (links s)" using c False clist_empty_iff by fastforce
  moreover have "insert_loop base FreeList s
      = Some (upd_links (list_add_before (PageLink v) (PageLink base)) s)"
    by (rule insert_loop_before [of s "[]" us v vs']) (use assms vs in auto)
  moreover have "clist (list_add_before (PageLink v) (PageLink base) (links s)) FreeList
      (map PageLink us @ PageLink base # map PageLink vs)"
    by (rule clist_list_add_before) (use assms vs in auto)
  ultimately show ?thesis using vs
    by (intro exI [of _ "list_add_before (PageLink v) (PageLink base) (links s)"])
      (simp add: link_block_def upd_links_def)
qed

text \<open>Linking a block whose descriptors were prepared re-establishes the invariant.\<close>

lemma fl_inv_add_block:
  assumes inv: "fl_inv s (us @ vs)" and n: "0 < n" "nr_free s + n < 4294967296"
    and order: "\<forall>u\<in>set us. u < base" "\<forall>v\<in>set vs. base < v"
    and dis: "{base..<base + n} \<inter> free_set s = {}"
    and res: "\<forall>p\<in>{base..<base + n}. \<not> PageReserved s p"
    and t: "links t = h" "clist h FreeList (map PageLink (us @ base # vs))"
      "property t = (property s)(base := n)" "nr_free t = nr_free s + n"
      "\<forall>p. PageProperty t p \<longleftrightarrow> p = base \<or> PageProperty s p"
      "\<forall>p. PageReserved t p \<longleftrightarrow> PageReserved s p"
  shows "fl_inv t (us @ base # vs)" and "free_set t = free_set s \<union> {base..<base + n}"
proof -
  have ok: "blocks_ok (property s) (us @ vs)" using inv by (simp add: fl_inv_def)
  have nin: "base \<notin> set us" "base \<notin> set vs" using order by auto
  have fs: "free_set s = bset (property s) (us @ vs)" by (rule fl_inv_free_set [OF inv])
  have ok': "blocks_ok (property t) (us @ base # vs)"
    unfolding t(3) by (rule blocks_ok_insert [OF ok n(1) nin order dis [unfolded fs]])
  have b: "bset (property t) us = bset (property s) us" "bset (property t) vs = bset (property s) vs"
    using nin by (auto simp: t(3) intro!: bset_cong)
  have m: "map (property t) us = map (property s) us" "map (property t) vs = map (property s) vs"
    using nin by (simp_all add: t(3))
  have pb: "property t base = n" by (simp add: t(3))
  have bs: "bset (property t) (us @ base # vs) = bset (property s) (us @ vs) \<union> {base..<base + n}"
    using b by (auto simp: t(3))
  show inv': "fl_inv t (us @ base # vs)"
    unfolding fl_inv_def
  proof (intro conjI)
    show "\<forall>p\<in>bset (property t) (us @ base # vs). \<not> PageReserved t p"
      unfolding bs using inv res by (auto simp: t(6) fl_inv_def)
    show "nr_free t = sum_list (map (property t) (us @ base # vs))"
      using inv pb by (simp add: m t(4) fl_inv_def)
  qed (use inv t ok' n in \<open>auto simp: fl_inv_def\<close>)
  show "free_set t = free_set s \<union> {base..<base + n}"
    by (simp only: fl_inv_free_set [OF inv'] fs bs)
qed

section \<open>Coalescing\<close>

lemma coalesce_prev_ok:
  assumes inv: "fl_inv s (us @ base # vs)" and co: "coalesce_prev base s = (b, t)"
  shows "\<exists>us'. fl_inv t (us' @ b # vs) \<and> free_set t = free_set s \<and> nr_free t = nr_free s
           \<and> (\<forall>u. us' \<noteq> [] \<and> u = last us' \<longrightarrow> us' = us \<or> u \<in> set us)"
proof -
  have c: "clist (links s) FreeList (map PageLink us @ PageLink base # map PageLink vs)"
    using inv by (simp add: fl_inv_def)
  have pv: "list_prev (PageLink base) (links s) = last (FreeList # map PageLink us)"
    using clist_mid_prev [OF c] by (simp add: list_prev_def)
  show ?thesis
  proof (cases us rule: rev_cases)
    case Nil
    then have "b = base \<and> t = s" using co pv by (simp add: coalesce_prev_def)
    then show ?thesis using inv Nil by (intro exI [of _ "[]"]) simp
  next
    case (snoc us' p)
    then have pv': "list_prev (PageLink base) (links s) = PageLink p" using pv by simp
    show ?thesis
    proof (cases "p + property s p = base")
      case False
      then have "b = base \<and> t = s" using co pv' by (simp add: coalesce_prev_def)
      then show ?thesis using inv by (intro exI [of _ us]) simp
    next
      case adj: True
      let ?g = "(property s)(p := property s p + property s base)"
      have ok: "blocks_ok (property s) (us' @ p # base # vs)"
        using inv snoc by (simp add: fl_inv_def)
      have le: "property s p + property s base < 4294967296"
        using inv snoc by (simp add: fl_inv_def)
      have eqs: "b = p" "links t = list_del (PageLink base) (links s)" "property t = ?g"
        "nr_free t = nr_free s" "\<forall>q. PageProperty t q \<longleftrightarrow> q \<noteq> base \<and> PageProperty s q"
        "\<forall>q. PageReserved t q = PageReserved s q"
        using co pv' adj le by (auto simp: coalesce_prev_def Let_def)
      have "clist (links t) FreeList (map PageLink us @ map PageLink vs)"
        unfolding eqs(2) by (rule clist_list_del [OF c])
      then have c': "clist (links t) FreeList (map PageLink (us' @ p # vs))"
        using snoc by simp
      have nb: "base \<notin> set us" "base \<notin> set vs" using fl_inv_head_notin [OF inv] by auto
      note mg = blocks_ok_merge [OF ok adj]
      have inv': "fl_inv t (us' @ p # vs)"
        unfolding fl_inv_def
        using inv c' mg nb snoc by (auto simp: eqs fl_inv_def simp del: fun_upd_apply bset_simps)
      moreover have "free_set t = free_set s"
        using mg(2) snoc by (simp add: fl_inv_free_set [OF inv'] fl_inv_free_set [OF inv] eqs
            del: bset_simps fun_upd_apply)
      ultimately show ?thesis using snoc eqs by (intro exI [of _ us']) auto
    qed
  qed
qed

lemma coalesce_next_ok:
  assumes inv: "fl_inv s (us @ base # vs)"
  shows "\<exists>vs'. fl_inv (coalesce_next base s) (us @ base # vs')
           \<and> free_set (coalesce_next base s) = free_set s \<and> nr_free (coalesce_next base s) = nr_free s"
proof -
  have c: "clist (links s) FreeList (map PageLink us @ PageLink base # map PageLink vs)"
    using inv by (simp add: fl_inv_def)
  have nx: "list_next (PageLink base) (links s) = hd (map PageLink vs @ [FreeList])"
    using clist_mid_next [OF c] by (simp add: list_next_def)
  show ?thesis
  proof (cases vs)
    case Nil
    then have "coalesce_next base s = s" using nx by (simp add: coalesce_next_def)
    then show ?thesis using inv by (intro exI [of _ vs]) simp
  next
    case (Cons p vs')
    then have nx': "list_next (PageLink base) (links s) = PageLink p" using nx by simp
    show ?thesis
    proof (cases "base + property s base = p")
      case False
      then have "coalesce_next base s = s" using nx' by (simp add: coalesce_next_def)
      then show ?thesis using inv by (intro exI [of _ vs]) simp
    next
      case adj: True
      let ?g = "(property s)(base := property s base + property s p)"
      let ?t = "coalesce_next base s"
      have ok: "blocks_ok (property s) (us @ base # p # vs')"
        using inv Cons by (simp add: fl_inv_def)
      have le: "property s base + property s p < 4294967296"
        using inv Cons by (simp add: fl_inv_def)
      have eqs: "links ?t = list_del (PageLink p) (links s)" "property ?t = ?g"
        "nr_free ?t = nr_free s" "\<forall>q. PageProperty ?t q \<longleftrightarrow> q \<noteq> p \<and> PageProperty s q"
        "\<forall>q. PageReserved ?t q = PageReserved s q"
        using nx' adj le by (auto simp: coalesce_next_def Let_def)
      have "clist (links s) FreeList (map PageLink (us @ [base]) @ PageLink p # map PageLink vs')"
        using c Cons by simp
      from clist_list_del [OF this] have c': "clist (links ?t) FreeList (map PageLink (us @ base # vs'))"
        by (simp add: eqs(1))
      have np: "p \<notin> set us" "p \<notin> set vs'" "p \<noteq> base"
        using fl_inv_head_notin [of s "us @ [base]" p vs'] inv Cons by auto
      note mg = blocks_ok_merge [OF ok adj]
      have inv': "fl_inv ?t (us @ base # vs')"
        unfolding fl_inv_def
        using inv c' mg np Cons by (auto simp: eqs fl_inv_def simp del: fun_upd_apply bset_simps)
      moreover have "free_set ?t = free_set s"
        using mg(2) Cons by (simp add: fl_inv_free_set [OF inv'] fl_inv_free_set [OF inv] eqs
            del: bset_simps fun_upd_apply)
      ultimately show ?thesis using eqs by (intro exI [of _ vs']) auto
    qed
  qed
qed

section \<open>Cutting n pages off the front of a block\<close>

lemma cut_block_ok:
  assumes inv: "fl_inv s (us @ p # vs)" and n: "0 < n" "n \<le> property s p"
  defines "t \<equiv> cut_block n p s"
  shows "fl_inv t (us @ (if n < property s p then [p + n] else []) @ vs)"
    and "free_set t = free_set s - {p..<p + n}" and "{p..<p + n} \<subseteq> free_set s"
    and "nr_free t = nr_free s - n"
proof -
  have c: "clist (links s) FreeList (map PageLink us @ PageLink p # map PageLink vs)"
    and ok: "blocks_ok (property s) (us @ p # vs)"
    using inv by (simp_all add: fl_inv_def)
  have np: "p \<notin> set us" "p \<notin> set vs" using fl_inv_head_notin [OF inv] by auto
  have ple: "property s p \<le> nr_free s" using inv by (intro fl_inv_property_le) auto
  have nf: "nr_free s < 4294967296" using inv by (simp add: fl_inv_def)
  have fs: "free_set s = {p..<p + property s p} \<union> bset (property s) (us @ vs)"
    by (auto simp: fl_inv_free_set [OF inv])
  have dis: "{p..<p + property s p} \<inter> bset (property s) (us @ vs) = {}"
    using blocks_ok_bset_disjoint [OF ok] by simp
  have sub: "{p..<p + n} \<subseteq> {p..<p + property s p}" using n by auto
  then show "{p..<p + n} \<subseteq> free_set s" unfolding fs by blast
  have pv: "list_prev (PageLink p) (links s) = last (FreeList # map PageLink us)"
    using clist_mid_prev [OF c] by (simp add: list_prev_def)
  have del: "clist (list_del (PageLink p) (links s)) FreeList (map PageLink us @ map PageLink vs)"
    by (rule clist_list_del [OF c])
  have nrt: "nr_free t = nr_free s - n"
    using n ple nf by (simp add: t_def cut_block_def Let_def)
  then show "nr_free t = nr_free s - n" .
  have "fl_inv t (us @ (if n < property s p then [p + n] else []) @ vs)
      \<and> free_set t = free_set s - {p..<p + n}"
  proof (cases "n < property s p")
    case False
    then have np': "n = property s p" using n by simp
    have eqs: "links t = list_del (PageLink p) (links s)" "property t = property s"
      "\<forall>q. PageProperty t q \<longleftrightarrow> q \<noteq> p \<and> PageProperty s q"
      "\<forall>q. PageReserved t q = PageReserved s q"
      using False by (auto simp: t_def cut_block_def Let_def)
    have "blocks_ok (property s) (us @ vs)"
      using ok by (simp add: blocks_ok_append2 blocks_ok_Cons)
    moreover have "clist (links t) FreeList (map PageLink (us @ vs))"
      using del by (simp add: eqs(1))
    ultimately have inv': "fl_inv t (us @ vs)"
      using inv np nrt np' nf by (auto simp: fl_inv_def eqs)
    have "free_set t = bset (property s) (us @ vs)"
      by (simp add: fl_inv_free_set [OF inv'] eqs)
    then show ?thesis using inv' False dis fs np' by auto
  next
    case True
    let ?g = "(property s)(p + n := property s p - n)"
    have nq: "p + n \<notin> set us" "p + n \<notin> set vs"
      using blocks_ok_inside [OF ok, of "p + n"] n True by auto
    have lt: "property s p - n < 4294967296" using ple nf by simp
    have eqs: "links t = list_add (list_prev (PageLink p) (links s)) (PageLink (p + n))
                 (list_del (PageLink p) (links s))" "property t = ?g"
      "\<forall>q. PageProperty t q \<longleftrightarrow> q \<noteq> p \<and> (q = p + n \<or> PageProperty s q)"
      "\<forall>q. PageReserved t q = PageReserved s q"
      using True n lt by (auto simp: t_def cut_block_def Let_def)
    have "clist (links t) FreeList (map PageLink us @ PageLink (p + n) # map PageLink vs)"
      unfolding eqs(1) pv by (rule clist_list_add [OF del]) (use nq in auto)
    moreover have ok': "blocks_ok (property t) (us @ (p + n) # vs)"
      unfolding eqs(2) by (rule blocks_ok_cut [OF ok]) (use n True in simp_all)
    moreover have b: "bset (property t) us = bset (property s) us"
      "bset (property t) vs = bset (property s) vs"
      using nq by (auto simp: eqs(2) intro!: bset_cong)
    moreover have m: "sum_list (map (property t) us) = sum_list (map (property s) us)"
      "sum_list (map (property t) vs) = sum_list (map (property s) vs)"
      using nq by (simp_all add: eqs(2))
    moreover have "property t (p + n) = property s p - n" by (simp add: eqs(2))
    ultimately have inv': "fl_inv t (us @ (p + n) # vs)"
      using inv np nrt nf n True by (auto simp: fl_inv_def eqs(3,4))
    have "free_set t = {p + n..<p + property s p} \<union> bset (property s) (us @ vs)"
      using True b by (auto simp: fl_inv_free_set [OF inv'] eqs(2))
    moreover have "{p + n..<p + property s p} = {p..<p + property s p} - {p..<p + n}" by auto
    ultimately have "free_set t = free_set s - {p..<p + n}" using dis sub unfolding fs by blast
    then show ?thesis using inv' True by simp
  qed
  then show "fl_inv t (us @ (if n < property s p then [p + n] else []) @ vs)"
    and "free_set t = free_set s - {p..<p + n}" by simp_all
qed

section \<open>Publishing a prepared block\<close>

lemma publish_block_ok:
  assumes inv: "fl_inv s (us @ vs)" and n: "0 < n" "nr_free s + n < 4294967296"
    and order: "\<forall>u\<in>set us. u < base" "\<forall>v\<in>set vs. base < v" and above: "vs = [] \<Longrightarrow> us = []"
    and dis: "{base..<base + n} \<inter> free_set s = {}"
    and res: "\<forall>p\<in>{base..<base + n}. \<not> PageReserved s p"
  defines "s1 \<equiv> SetPageProperty base (set_property base n s)"
  shows "\<exists>t. link_block base (s1\<lparr>nr_free := u32 (nr_free s1 + n)\<rparr>) = Some t
     \<and> fl_inv t (us @ base # vs) \<and> free_set t = free_set s \<union> {base..<base + n}
     \<and> nr_free t = nr_free s + n \<and> PageReserved t = PageReserved s"
proof -
  let ?s2 = "s1\<lparr>nr_free := u32 (nr_free s1 + n)\<rparr>"
  have "clist (links ?s2) FreeList (map PageLink (us @ vs))"
    using inv by (simp add: fl_inv_def s1_def)
  from link_block_ok [OF this order above] obtain h where
    h: "link_block base ?s2 = Some (upd_links (\<lambda>_. h) ?s2)"
       "clist h FreeList (map PageLink (us @ base # vs))" by blast
  let ?t = "upd_links (\<lambda>_. h) ?s2"
  have p: "property ?t = (property s)(base := n)" using n by (simp add: s1_def)
  have q: "\<forall>p. PageProperty ?t p \<longleftrightarrow> p = base \<or> PageProperty s p"
    "\<forall>p. PageReserved ?t p \<longleftrightarrow> PageReserved s p" "nr_free ?t = nr_free s + n"
    using n by (auto simp: s1_def)
  have "fl_inv ?t (us @ base # vs)" "free_set ?t = free_set s \<union> {base..<base + n}"
    by (rule fl_inv_add_block [OF inv n order dis res _ h(2) p q(3,1,2)]; simp)+
  moreover have "PageReserved ?t = PageReserved s" using q(2) by (auto simp: fun_eq_iff)
  ultimately show ?thesis using h(1) q(3) by blast
qed

lemma fl_inv_sorted: "fl_inv s bs \<Longrightarrow> sorted_wrt (<) bs"
  by (auto simp: fl_inv_def dest: blocks_ok_sorted)

text \<open>Where an address outside the free set falls in the list.\<close>

lemma fl_inv_split_at:
  assumes inv: "fl_inv s bs" and "base \<notin> free_set s"
  shows "\<exists>us vs. bs = us @ vs \<and> (\<forall>u\<in>set us. u < base) \<and> (\<forall>v\<in>set vs. base < v)"
proof -
  have "base \<notin> set bs"
    using assms by (auto simp: fl_inv_free_set [OF inv] bset_def fl_inv_def blocks_ok_def)
  then show ?thesis using split_sorted_at [OF fl_inv_sorted [OF inv]] by blast
qed

lemma fl_inv_above:
  assumes inv: "fl_inv s (us @ vs)" and "\<forall>u\<in>set us. u < base" and "base \<notin> free_set s"
    and "free_set s = {} \<or> (\<exists>f\<in>free_set s. base < f)" and "vs = []"
  shows "us = []"
proof (rule ccontr)
  assume "us \<noteq> []"
  then have "free_set s \<noteq> {}"
    using inv assms(5) by (cases us) (auto simp: fl_inv_free_set [OF inv] fl_inv_def blocks_ok_def)
  then obtain f where f: "f \<in> free_set s" "base < f" using assms(4) by blast
  then obtain u where u: "u \<in> set us" "u \<le> f" "f < u + property s u"
    using assms(5) by (auto simp: fl_inv_free_set [OF inv] bset_def)
  then have "base \<in> {u..<u + property s u}" using f assms(2) by auto
  then have "base \<in> free_set s" using u by (auto simp: fl_inv_free_set [OF inv] bset_def)
  with assms(3) show False by blast
qed

end
