(* ===== verification/First_Fit.thy ===== *)
theory First_Fit
  imports Free_List
begin

text \<open>
  The first-fit page manager \<open>default_pmm_manager\<close> of \<open>lab8/kern/mm/default_pmm.c\<close>.
  Allocation and release are proved against the invariant \<open>fl_inv\<close> and interpret the
  interface \<open>page_manager\<close>.  Release needs some free block above the released one: without
  it the insertion loop of the C code links the block twice, and the last theorem shows the
  same page handed out to two callers as a consequence.
\<close>

section \<open>default\_pmm.c\<close>

definition default_init :: "pmm \<Rightarrow> pmm" where
  "default_init s = (upd_links (list_init FreeList) s)\<lparr>nr_free := 0\<rparr>"

definition default_init_memmap :: "nat \<Rightarrow> nat \<Rightarrow> pmm \<Rightarrow> pmm option" where
  "default_init_memmap base n s = do {
     kassert (0 < n);
     s1 \<leftarrow> memmap_pages base n s;
     let s2 = SetPageProperty base (set_property base n s1);
     link_block base (s2\<lparr>nr_free := u32 (nr_free s2 + n)\<rparr>)
   }"

partial_function (option) first_fit_scan :: "nat \<Rightarrow> fnode \<Rightarrow> pmm \<Rightarrow> nat option option" where
  "first_fit_scan n le s =
     (let le = list_next le (links s)
      in if le = FreeList then Some None
         else if n \<le> property s (le2page le) then Some (Some (le2page le))
         else first_fit_scan n le s)"

definition default_alloc_pages :: "nat \<Rightarrow> pmm \<Rightarrow> (nat option \<times> pmm) option" where
  "default_alloc_pages n s = do {
     kassert (0 < n);
     if nr_free s < n then Some (None, s)
     else do {
       page \<leftarrow> first_fit_scan n FreeList s;
       Some (case page of None \<Rightarrow> (None, s) | Some p \<Rightarrow> (Some p, cut_block n p s))
     }
   }"

definition default_free_pages :: "nat \<Rightarrow> nat \<Rightarrow> pmm \<Rightarrow> pmm option" where
  "default_free_pages base n s = do {
     kassert (0 < n);
     s1 \<leftarrow> reset_pages base n s;
     let s2 = SetPageProperty base (set_property base n s1);
     s3 \<leftarrow> link_block base (s2\<lparr>nr_free := u32 (nr_free s2 + n)\<rparr>);
     let (base', s4) = coalesce_prev base s3;
     Some (coalesce_next base' s4)
   }"

definition default_nr_free_pages :: "pmm \<Rightarrow> nat" where
  "default_nr_free_pages s = nr_free s"

section \<open>The scan\<close>

lemma first_fit_scan_find:
  assumes "fseg (links s) le (map PageLink bs) FreeList"
  shows "first_fit_scan n le s = Some (List.find (\<lambda>b. n \<le> property s b) bs)"
  using assms
proof (induction bs arbitrary: le)
  case Nil
  then show ?case by (subst first_fit_scan.simps) (simp add: list_next_def)
next
  case (Cons b bs)
  then show ?case by (subst first_fit_scan.simps) (simp add: list_next_def)
qed

lemma default_alloc_find:
  assumes inv: "fl_inv s bs" and "0 < n"
  shows "default_alloc_pages n s = Some (case List.find (\<lambda>b. n \<le> property s b) bs of
     None \<Rightarrow> (None, s) | Some p \<Rightarrow> (Some p, cut_block n p s))"
proof (cases "nr_free s < n")
  case True
  have "\<forall>b\<in>set bs. property s b < n" using fl_inv_property_le [OF inv] True by fastforce
  then have "List.find (\<lambda>b. n \<le> property s b) bs = None" by (auto simp: find_None_iff)
  then show ?thesis using True assms by (simp add: default_alloc_pages_def)
next
  case False
  have "first_fit_scan n FreeList s = Some (List.find (\<lambda>b. n \<le> property s b) bs)"
    using inv by (intro first_fit_scan_find clist_fseg) (simp add: fl_inv_def)
  then show ?thesis using False assms by (simp add: default_alloc_pages_def)
qed

section \<open>Allocation\<close>

lemma default_alloc_none:
  assumes "fl_inv s bs" and "0 < n" and "List.find (\<lambda>b. n \<le> property s b) bs = None"
  shows "default_alloc_pages n s = Some (None, s)" and "\<forall>b\<in>set bs. property s b < n"
  using default_alloc_find [OF assms(1,2)] assms(3) by (auto simp: find_None_iff not_le)

lemma default_alloc_some:
  assumes inv: "fl_inv s bs" and n: "0 < n"
    and f: "List.find (\<lambda>b. n \<le> property s b) bs = Some p"
  shows "\<exists>us vs. default_alloc_pages n s = Some (Some p, cut_block n p s)
     \<and> bs = us @ p # vs \<and> (\<forall>u\<in>set us. property s u < n) \<and> n \<le> property s p
     \<and> fl_inv (cut_block n p s) (us @ (if n < property s p then [p + n] else []) @ vs)
     \<and> {p..<p + n} \<subseteq> free_set s \<and> free_set (cut_block n p s) = free_set s - {p..<p + n}
     \<and> nr_free (cut_block n p s) = nr_free s - n"
proof -
  obtain us vs where sp: "bs = us @ p # vs" "n \<le> property s p" "\<forall>u\<in>set us. property s u < n"
    using find_split_first [OF f] by (auto simp: not_le)
  note cut = cut_block_ok [OF inv [unfolded sp(1)] n sp(2)]
  have "default_alloc_pages n s = Some (Some p, cut_block n p s)"
    using default_alloc_find [OF inv n] f by simp
  with cut sp show ?thesis by blast
qed

section \<open>Release\<close>

definition ff_freeable :: "nat \<Rightarrow> nat \<Rightarrow> pmm \<Rightarrow> bool" where
  "ff_freeable b n s \<longleftrightarrow> 0 < n \<and> nr_free s + n < 4294967296
     \<and> (\<forall>p\<in>{b..<b + n}. \<not> PageReserved s p \<and> \<not> PageProperty s p)
     \<and> {b..<b + n} \<inter> free_set s = {}
     \<and> (free_set s = {} \<or> (\<exists>f\<in>free_set s. b < f))"

lemma free_pages_steps:
  assumes inv: "fl_inv s bs" and fr: "ff_freeable b n s"
  shows "\<exists>t bs'. default_free_pages b n s = Some t \<and> fl_inv t bs'
     \<and> free_set t = free_set s \<union> {b..<b + n} \<and> nr_free t = nr_free s + n"
proof -
  have n: "0 < n" "nr_free s + n < 4294967296" and dis: "{b..<b + n} \<inter> free_set s = {}"
    and ok: "\<forall>p\<in>{b..<b + n}. \<not> PageReserved s p \<and> \<not> PageProperty s p"
    and ab: "free_set s = {} \<or> (\<exists>f\<in>free_set s. b < f)"
    using fr by (simp_all add: ff_freeable_def)
  have bn: "b \<notin> free_set s" using dis n by (auto simp: disjoint_iff)
  obtain s1 where s1: "reset_pages b n s = Some s1" "same_view s1 s"
    using reset_pages_ok [OF ok] by blast
  obtain us vs where sp: "bs = us @ vs" "\<forall>u\<in>set us. u < b" "\<forall>v\<in>set vs. b < v"
    using fl_inv_split_at [OF inv bn] by blast
  have inv1: "fl_inv s1 (us @ vs)" using inv sp same_view_fl_inv [OF s1(2)] by simp
  have fs1: "free_set s1 = free_set s" by (rule same_view_free_set [OF s1(2)])
  have eq1: "nr_free s1 = nr_free s" "PageReserved s1 = PageReserved s"
    using s1(2) by (simp_all add: same_view_def)
  have above: "vs = [] \<Longrightarrow> us = []"
    using fl_inv_above [OF inv [unfolded sp(1)] sp(2) bn ab] .
  let ?s2 = "SetPageProperty b (set_property b n s1)"
  obtain s3 where s3: "link_block b (?s2\<lparr>nr_free := u32 (nr_free ?s2 + n)\<rparr>) = Some s3"
    "fl_inv s3 (us @ b # vs)" "free_set s3 = free_set s \<union> {b..<b + n}" "nr_free s3 = nr_free s + n"
    using publish_block_ok [OF inv1 n(1) _ sp(2,3) above] n dis ok by (auto simp: fs1 eq1)
  obtain b' s4 where s4: "coalesce_prev b s3 = (b', s4)" by fastforce
  obtain us' where us': "fl_inv s4 (us' @ b' # vs)" "free_set s4 = free_set s3"
    "nr_free s4 = nr_free s3"
    using coalesce_prev_ok [OF s3(2) s4] by blast
  obtain vs' where "fl_inv (coalesce_next b' s4) (us' @ b' # vs')"
    "free_set (coalesce_next b' s4) = free_set s4" "nr_free (coalesce_next b' s4) = nr_free s4"
    using coalesce_next_ok [OF us'(1)] by blast
  moreover have "default_free_pages b n s = Some (coalesce_next b' s4)"
    using s1 s3 s4 n by (simp add: default_free_pages_def Let_def)
  ultimately show ?thesis using us' s3 by auto
qed

section \<open>Registering a region\<close>

lemma memmap_publish:
  assumes inv: "fl_inv s bs" and n: "0 < n" "nr_free s + n < 4294967296"
    and res: "\<forall>p\<in>{base..<base + n}. PageReserved s p"
    and ab: "free_set s = {} \<or> (\<exists>f\<in>free_set s. base < f)"
  shows "\<exists>t us vs. default_init_memmap base n s = Some t \<and> bs = us @ vs
     \<and> (\<forall>u\<in>set us. u < base) \<and> (\<forall>v\<in>set vs. base < v) \<and> fl_inv t (us @ base # vs)
     \<and> free_set t = free_set s \<union> {base..<base + n}
     \<and> (\<forall>p. PageReserved t p \<longleftrightarrow> p \<notin> {base..<base + n} \<and> PageReserved s p)"
proof -
  let ?R = "{base..<base + n}"
  have fs: "free_set s = bset (property s) bs" by (rule fl_inv_free_set [OF inv])
  have dis: "?R \<inter> free_set s = {}"
    using inv res unfolding fs fl_inv_def by blast
  have hb: "b \<in> set bs \<Longrightarrow> b \<in> free_set s" for b
    using inv by (auto simp: fs bset_def fl_inv_def blocks_ok_def)
  have bn: "base \<notin> free_set s" using dis n by (auto simp: disjoint_iff)
  obtain us vs where sp: "bs = us @ vs" "\<forall>u\<in>set us. u < base" "\<forall>v\<in>set vs. base < v"
    using fl_inv_split_at [OF inv bn] by blast
  have above: "vs = [] \<Longrightarrow> us = []"
    using fl_inv_above [OF inv [unfolded sp(1)] sp(2) bn ab] .
  obtain s1 where s1: "memmap_pages base n s = Some s1" "links s1 = links s" "nr_free s1 = nr_free s"
    "\<forall>p. PageReserved s1 p \<longleftrightarrow> p \<notin> ?R \<and> PageReserved s p"
    "\<forall>p. PageProperty s1 p \<longleftrightarrow> p \<notin> ?R \<and> PageProperty s p"
    "\<forall>p. property s1 p = (if p \<in> ?R then 0 else property s p)"
    using memmap_pages_ok [OF res] by blast
  have out: "b \<notin> ?R" if "b \<in> set bs" for b using hb [OF that] dis by blast
  have pe: "\<And>b. b \<in> set bs \<Longrightarrow> property s1 b = property s b" using s1(6) by (auto dest: out)
  have "map (property s1) bs = map (property s) bs" using pe by simp
  then have inv1: "fl_inv s1 bs"
    using inv out pe blocks_ok_cong [of bs "property s1" "property s"]
      bset_cong [of bs "property s1" "property s"]
    unfolding fl_inv_def s1(2,3) by (auto simp: s1(4,5) simp del: map_eq_conv)
  have fs1: "free_set s1 = free_set s"
    using bset_cong [of bs "property s1" "property s", OF pe] fs fl_inv_free_set [OF inv1] by simp
  let ?s2 = "SetPageProperty base (set_property base n s1)"
  have res1: "\<forall>p\<in>?R. \<not> PageReserved s1 p" using s1(4) by blast
  have n1: "nr_free s1 + n < 4294967296" using n s1(3) by simp
  obtain t where t: "link_block base (?s2\<lparr>nr_free := u32 (nr_free ?s2 + n)\<rparr>) = Some t"
    "fl_inv t (us @ base # vs)" "free_set t = free_set s \<union> ?R"
    "PageReserved t = PageReserved s1"
    using publish_block_ok [OF inv1 [unfolded sp(1)] n(1) n1 sp(2,3) above dis [folded fs1] res1]
    unfolding fs1 by blast
  have "default_init_memmap base n s = Some t"
    using s1(1) t(1) n by (simp add: default_init_memmap_def Let_def)
  then show ?thesis
    using t sp s1(4) by (intro exI [of _ t] exI [of _ us] exI [of _ vs]) simp
qed

section \<open>Appending above every block\<close>

lemma link_block_above:
  assumes c: "clist (links s) FreeList (map PageLink bs)" and "bs \<noteq> []" and ab: "\<forall>b\<in>set bs. b < base"
  shows "\<exists>h. link_block base s = Some (upd_links (\<lambda>_. h) s)
     \<and> fseg h FreeList (map PageLink (bs @ [base])) FreeList \<and> lprev h (PageLink base) = PageLink base"
proof -
  obtain ws w where bs: "bs = ws @ [w]" using assms(2) by (cases bs rule: rev_cases) auto
  let ?B = "PageLink base" and ?W = "PageLink w"
  define h where "h = list_add ?B ?B (list_add ?W ?B (links s))"
  have "\<not> list_empty FreeList (links s)" using c bs clist_empty_iff by fastforce
  moreover have "insert_loop base FreeList s
      = Some (upd_links (\<lambda>h. list_add ?B ?B (list_add ?W ?B h)) s)"
    by (rule insert_loop_tail [of s "[]" ws w base FreeList]) (use c ab bs in auto)
  ultimately have "link_block base s = Some (upd_links (\<lambda>_. h) s)"
    by (simp add: link_block_def h_def upd_links_def)
  moreover have f: "fseg (links s) FreeList (map PageLink ws) ?W" "lnext (links s) ?W = FreeList"
    using clist_fseg [OF c] bs by simp_all
  moreover have ne: "base \<noteq> w" "base \<notin> set ws" "w \<notin> set ws"
    using ab bs clist_distinct [OF c] by (auto simp: distinct_map)
  moreover have nx: "lnext h = (lnext (links s))(?W := ?B, ?B := FreeList)"
    "lprev h ?B = ?B"
    using f(2) ne by (auto simp: h_def list_op_defs Let_def fun_eq_iff)
  moreover have "fseg h FreeList (map PageLink ws) ?W = fseg (links s) FreeList (map PageLink ws) ?W"
    by (rule fseg_cong) (use ne nx in auto)
  ultimately show ?thesis using bs ne by (intro exI [of _ h]) simp
qed

interpretation ff: page_manager default_alloc_pages default_free_pages default_nr_free_pages
  "\<lambda>s. \<exists>bs. fl_inv s bs" free_set ff_freeable
proof (unfold_locales, goal_cases)
  case (1 s)
  then show ?case by (auto intro: fl_inv_finite)
next
  case (2 s)
  then show ?case by (auto simp: default_nr_free_pages_def fl_inv_card)
next
  case (3 s n)
  then show ?case using default_alloc_find by blast
next
  case (4 s n s')
  then obtain bs where inv: "fl_inv s bs" by blast
  have "0 < n" using 4 by (simp add: default_alloc_pages_def)
  then show ?case
    using 4 default_alloc_find [OF inv] by (auto split: option.splits)
next
  case (5 s n p s')
  then obtain bs where inv: "fl_inv s bs" by blast
  have n: "0 < n" using 5 by (simp add: default_alloc_pages_def)
  have f: "List.find (\<lambda>b. n \<le> property s b) bs = Some p" and s': "s' = cut_block n p s"
    using 5 default_alloc_find [OF inv n] by (auto split: option.splits)
  show ?case using default_alloc_some [OF inv n f] s' by blast
next
  case (6 s b n)
  then show ?case using free_pages_steps by blast
next
  case (7 s b n)
  then show ?case by (simp add: ff_freeable_def)
qed

lemma above_all_link:
  assumes inv: "fl_inv s bs" and ne: "bs \<noteq> []" and ab: "\<forall>b\<in>set bs. b < base"
    and n: "0 < n" "nr_free s + n < 4294967296"
    and ok: "\<forall>p\<in>{base..<base + n}. \<not> PageReserved s p \<and> \<not> PageProperty s p"
  shows "\<exists>t. default_free_pages base n s = Some t
     \<and> fseg (links t) FreeList (map PageLink (bs @ [base])) FreeList
     \<and> lprev (links t) (PageLink base) = PageLink base
     \<and> property t = (property s)(base := n) \<and> nr_free t = nr_free s + n"
proof -
  obtain s1 where s1: "reset_pages base n s = Some s1" "same_view s1 s"
    using reset_pages_ok [OF ok] by blast
  let ?s2 = "SetPageProperty base (set_property base n s1)"
  let ?s3 = "?s2\<lparr>nr_free := u32 (nr_free ?s2 + n)\<rparr>"
  have "clist (links ?s3) FreeList (map PageLink bs)"
    using inv s1(2) by (simp add: fl_inv_def same_view_def)
  from link_block_above [OF this ne ab] obtain h where
    h: "link_block base ?s3 = Some (upd_links (\<lambda>_. h) ?s3)"
      "fseg h FreeList (map PageLink (bs @ [base])) FreeList" "lprev h (PageLink base) = PageLink base"
    by blast
  let ?t = "upd_links (\<lambda>_. h) ?s3"
  have view: "property ?t = (property s)(base := n)" "nr_free ?t = nr_free s + n"
    using s1(2) n by (simp_all add: same_view_def)
  have "coalesce_prev base ?t = (base, ?t)"
    using h(3) n view by (simp add: coalesce_prev_def list_prev_def)
  moreover have "lnext h (PageLink base) = FreeList" using h(2) by simp
  then have "coalesce_next base ?t = ?t"
    by (simp add: coalesce_next_def list_next_def)
  ultimately have "default_free_pages base n s = Some ?t"
    using s1(1) h(1) n by (simp add: default_free_pages_def Let_def)
  then show ?thesis using h view by (intro exI [of _ ?t]) simp
qed

lemma alloc_scan:
  assumes "fseg (links s) FreeList (map PageLink bs) FreeList" and "0 < n" and "n \<le> nr_free s"
  shows "default_alloc_pages n s = Some (case List.find (\<lambda>b. n \<le> property s b) bs of
     None \<Rightarrow> (None, s) | Some p \<Rightarrow> (Some p, cut_block n p s))"
  using assms first_fit_scan_find [of s FreeList bs n] by (simp add: default_alloc_pages_def)

lemma find_append_last:
  "\<forall>b\<in>set bs. \<not> P b \<Longrightarrow> P c \<Longrightarrow> List.find P (bs @ c # cs) = Some c"
  by (induction bs) auto

text \<open>A page array whose frames in \<open>R\<close> are reserved, for the concrete instances below.\<close>

definition frames_with :: "nat set \<Rightarrow> pmm" where
  "frames_with R = \<lparr>pages = (\<lambda>p. \<lparr>pg_ref = 0, pg_flags = (if p \<in> R then 1 else 0),
       pg_property = 0, pg_pra_vaddr = 0\<rparr>),
     links = \<lparr>lnext = (\<lambda>_. FreeList), lprev = (\<lambda>_. FreeList)\<rparr>, nr_free = 0\<rparr>"

lemma default_init_inv: "fl_inv (default_init s) []" if "\<forall>p. \<not> PageProperty s p"
  using that clist_unlinked_init [of FreeList "links s"]
  by (simp add: default_init_def fl_inv_def)

lemma frames_with_flags:
  "\<not> PageProperty (default_init (frames_with R)) p" "\<not> PageProperty (frames_with R) p"
  "PageReserved (default_init (frames_with R)) p \<longleftrightarrow> p \<in> R"
  by (simp_all add: default_init_def frames_with_def PageProperty_def PageReserved_def
      PG_property_def PG_reserved_def atomic_test_bit_def upd_links_def bit_simps)

lemma example_region:
  assumes n: "0 < n" "n < 4294967296"
  shows "\<exists>t. default_init_memmap b n (default_init (frames_with {b..<b + n})) = Some t
     \<and> fl_inv t [b] \<and> free_set t = {b..<b + n} \<and> nr_free t = n \<and> property t b = n
     \<and> (\<forall>p. \<not> PageReserved t p)"
proof -
  let ?s = "default_init (frames_with {b..<b + n})"
  have i: "fl_inv ?s []" by (rule default_init_inv) (simp add: frames_with_flags)
  then have f: "free_set ?s = {}" "nr_free ?s = 0"
    by (simp_all add: fl_inv_free_set) (simp add: fl_inv_def)
  obtain t where t: "default_init_memmap b n ?s = Some t" "fl_inv t [b]" "free_set t = {b..<b + n}"
    "\<forall>p. PageReserved t p \<longleftrightarrow> p \<notin> {b..<b + n} \<and> PageReserved ?s p"
    using memmap_publish [OF i n(1), of b] f n by (auto simp: frames_with_flags)
  have "nr_free t = n" using fl_inv_card [OF t(2)] t(3) by simp
  moreover have "nr_free t = property t b" using t(2) by (simp add: fl_inv_def)
  ultimately show ?thesis using t by (auto simp: frames_with_flags)
qed

lemma example_two_regions:
  "\<exists>s. fl_inv s [2, 10] \<and> property s 2 = 5 \<and> property s 10 = 3 \<and> nr_free s = 8"
proof -
  let ?s = "default_init (frames_with {2..<13})"
  have i: "fl_inv ?s []" by (rule default_init_inv) (simp add: frames_with_flags)
  then have f: "free_set ?s = {}" "nr_free ?s = 0"
    by (simp_all add: fl_inv_free_set) (simp add: fl_inv_def)
  obtain t where t: "fl_inv t [10]" "free_set t = {10..<13}"
    "\<forall>p. PageReserved t p \<longleftrightarrow> p \<notin> {10..<13} \<and> PageReserved ?s p"
    using memmap_publish [OF i, of 3 10] f by (auto simp: frames_with_flags)
  have nt: "nr_free t = 3" using fl_inv_card [OF t(1)] t(2) by simp
  have ab: "free_set t = {} \<or> (\<exists>f\<in>free_set t. 2 < f)"
    unfolding t(2) by (intro disjI2 bexI [of _ 10]) simp_all
  obtain us vs u where u: "[10] = us @ vs" "\<forall>u\<in>set us. u < 2" "fl_inv u (us @ 2 # vs)"
    "free_set u = free_set t \<union> {2..<2 + 5}"
    using memmap_publish [OF t(1) _ _ _ ab, of 5] nt t(3) by (auto simp: frames_with_flags)
  then have inv: "fl_inv u [2, 10]" by (cases us) auto
  have fs: "free_set u = {10..<13} \<union> {2..<7}" using u(4) t(2) by simp
  have eq: "{2..<2 + property u 2} \<union> {10..<10 + property u 10} = {10..<13} \<union> {2..<7}"
    using fs fl_inv_free_set [OF inv] by simp
  have le: "2 + property u 2 \<le> 10" using inv by (simp add: fl_inv_def blocks_ok_def)
  have m: "x \<in> {2..<2 + property u 2} \<or> x \<in> {10..<10 + property u 10} \<longleftrightarrow> x \<in> {10..<13} \<or> x \<in> {2..<7}" for x
    using eq by blast
  have "property u 10 = 3" using m [of 12] m [of 13] le by simp
  moreover have "property u 2 = 5" using m [of 6] m [of 7] le by simp
  moreover have "nr_free u = property u 2 + property u 10" using inv by (simp add: fl_inv_def)
  ultimately show ?thesis using inv by simp blast
qed

section \<open>Properties\<close>

text \<open>C1: allocation of \<open>n > 0\<close> pages from a well-formed free list always returns.  It
  returns NULL, leaving the state alone, exactly when no block holds \<open>n\<close> pages; otherwise it
  returns the first block that does, in address order, takes exactly its first \<open>n\<close> pages out
  of the free set, puts the rest of the block back in its place, and keeps the invariant.\<close>

theorem default_alloc_pages_first_fit:
  assumes inv: "fl_inv s bs" and n: "0 < n"
  shows "\<exists>r t. default_alloc_pages n s = Some (r, t) \<and> (case r of
      None \<Rightarrow> t = s \<and> (\<forall>b\<in>set bs. property s b < n)
    | Some p \<Rightarrow> \<exists>us vs. bs = us @ p # vs \<and> (\<forall>u\<in>set us. property s u < n) \<and> n \<le> property s p
        \<and> fl_inv t (us @ (if n < property s p then [p + n] else []) @ vs)
        \<and> {p..<p + n} \<subseteq> free_set s \<and> free_set t = free_set s - {p..<p + n}
        \<and> nr_free t = nr_free s - n)"
proof (cases "List.find (\<lambda>b. n \<le> property s b) bs")
  case None
  from default_alloc_none [OF inv n None] show ?thesis
    by (intro exI [of _ None] exI [of _ s]) simp
next
  case (Some p)
  from default_alloc_some [OF inv n this] show ?thesis
    by (intro exI [of _ "Some p"] exI [of _ "cut_block n p s"]) auto
qed



theorem default_alloc_pages_first_fit_witness:
  "\<exists>s t. fl_inv s [10] \<and> default_alloc_pages 3 s = Some (Some 10, t) \<and> free_set t = {13}"
proof -
  obtain s where s: "fl_inv s [10]" "free_set s = {10..<14}" "nr_free s = 4" "property s 10 = 4"
    using example_region [of 4 10] by auto
  have "{10..<14} - {10..<13} = {13::nat}" by auto
  then show ?thesis
    using default_alloc_pages_first_fit [OF s(1), of 3] s
    by (auto simp: Cons_eq_append_conv split: option.splits)
qed

text \<open>Registering a region of reserved frames adds exactly that region to the free set as
  one block, in address order, clears the reserved flag of its frames and of no other, and keeps
  the invariant (on an empty list, or when some free frame lies above the region).\<close>

theorem default_init_memmap_registers:
  assumes "fl_inv s bs" and "0 < n" and "nr_free s + n < 4294967296"
    and "\<forall>p\<in>{base..<base + n}. PageReserved s p"
    and "free_set s = {} \<or> (\<exists>f\<in>free_set s. base < f)"
  shows "\<exists>t us vs. default_init_memmap base n s = Some t \<and> bs = us @ vs
     \<and> (\<forall>u\<in>set us. u < base) \<and> (\<forall>v\<in>set vs. base < v) \<and> fl_inv t (us @ base # vs)
     \<and> free_set t = free_set s \<union> {base..<base + n}
     \<and> (\<forall>p. PageReserved t p \<longleftrightarrow> p \<notin> {base..<base + n} \<and> PageReserved s p)"
  by (rule memmap_publish [OF assms])

theorem default_init_memmap_registers_witness:
  "\<exists>t. default_init_memmap 10 4 (default_init (frames_with {10..<14})) = Some t
     \<and> fl_inv t [10] \<and> free_set t = {10..<14}"
proof -
  have i: "fl_inv (default_init (frames_with {10..<14})) []"
    by (rule default_init_inv) (simp add: frames_with_flags)
  then have f: "free_set (default_init (frames_with {10..<14})) = {}"
    "nr_free (default_init (frames_with {10..<14})) + 4 < 4294967296"
    by (simp_all add: fl_inv_free_set) (simp add: fl_inv_def)
  show ?thesis
    using default_init_memmap_registers [OF i _ f(2), of 10] f(1)
    by (auto simp: frames_with_flags)
qed

text \<open>C2: giving back a block of allocated frames below some free frame always returns, adds
  exactly those frames to the free set and to the count, and keeps the invariant, whatever
  neighbours the block is merged with.\<close>

theorem default_free_pages_returns_block:
  assumes "fl_inv s bs" and "ff_freeable b n s"
  shows "\<exists>t bs'. default_free_pages b n s = Some t \<and> fl_inv t bs'
     \<and> free_set t = free_set s \<union> {b..<b + n} \<and> nr_free t = nr_free s + n"
  by (rule free_pages_steps [OF assms])

theorem default_free_pages_returns_block_witness:
  "\<exists>s t bs. fl_inv s [10] \<and> default_free_pages 2 3 s = Some t \<and> fl_inv t bs
     \<and> free_set t = {10..<14} \<union> {2..<5}"
proof -
  obtain s where s: "fl_inv s [10]" "free_set s = {10..<14}" "nr_free s = 4" "property s 10 = 4"
    "\<forall>p. \<not> PageReserved s p"
    using example_region [of 4 10] by auto
  have "\<forall>p. PageProperty s p \<longleftrightarrow> p = 10" using s(1) by (simp add: fl_inv_def)
  then have fr: "ff_freeable 2 3 s"
    using s by (auto simp: ff_freeable_def intro!: bexI [of _ 10])
  obtain t bs where "default_free_pages 2 3 s = Some t" "fl_inv t bs"
    "free_set t = free_set s \<union> {2..<2 + 3}"
    using default_free_pages_returns_block [OF s(1) fr] by blast
  then show ?thesis using s by (intro exI [of _ s] exI [of _ t] exI [of _ bs]) simp
qed

text \<open>Allocating \<open>n\<close> pages and giving the same block back restores the set of free frames
  and the free count, provided some free frame lies above the block.\<close>

theorem default_alloc_free_roundtrip:
  assumes "fl_inv s bs" and "default_alloc_pages n s = Some (Some p, s1)" and "ff_freeable p n s1"
  shows "\<exists>s2. default_free_pages p n s1 = Some s2 \<and> (\<exists>cs. fl_inv s2 cs)
     \<and> free_set s2 = free_set s \<and> default_nr_free_pages s2 = default_nr_free_pages s"
  using ff.alloc_free_restores [of s n p s1] assms by blast

theorem default_alloc_free_roundtrip_witness:
  "\<exists>s s1 s2. default_alloc_pages 3 s = Some (Some 10, s1) \<and> default_free_pages 10 3 s1 = Some s2
     \<and> free_set s2 = {10..<14}"
proof -
  obtain s where s: "fl_inv s [10]" "free_set s = {10..<14}" "nr_free s = 4" "property s 10 = 4"
    "\<forall>p. \<not> PageReserved s p"
    using example_region [of 4 10] by auto
  have "List.find (\<lambda>b. 3 \<le> property s b) [10] = Some 10" using s by simp
  from default_alloc_some [OF s(1) _ this] obtain t where
    t: "default_alloc_pages 3 s = Some (Some 10, t)" "fl_inv t [13]" "free_set t = {10..<14} - {10..<13}"
    "nr_free t = 1" "t = cut_block 3 10 s"
    using s by (auto simp: Cons_eq_append_conv)
  have "\<forall>p. \<not> PageReserved t p" using s(4,5) by (simp add: t(5) cut_block_def Let_def)
  moreover have "\<forall>p. PageProperty t p \<longleftrightarrow> p = 13" using t(2) by (simp add: fl_inv_def)
  ultimately have fr: "ff_freeable 10 3 t"
    using t by (auto simp: ff_freeable_def intro!: bexI [of _ 13])
  show ?thesis using default_alloc_free_roundtrip [OF s(1) t(1) fr] t(1) s(2) by blast
qed

text \<open>C3: the behaviour without a free block above.  Freeing \<open>n\<close> pages that lie above every
  free block succeeds, but the insertion loop links the block a second time behind itself, so its
  \<open>prev\<close> pointer refers to itself and the block can no longer be unlinked: two later requests
  for \<open>k < n\<close> pages that no lower block can serve both receive the same page.\<close>

theorem default_free_above_all_allocates_twice:
  assumes inv: "fl_inv s bs" and "bs \<noteq> []" and ab: "\<forall>b\<in>set bs. b < base"
    and "nr_free s + n < 4294967296"
    and ok: "\<forall>p\<in>{base..<base + n}. \<not> PageReserved s p \<and> \<not> PageProperty s p"
    and k: "0 < k" "k < n" "2 * k \<le> nr_free s + n" and low: "\<forall>b\<in>set bs. property s b < k"
  shows "\<exists>t t1 t2. default_free_pages base n s = Some t
     \<and> default_alloc_pages k t = Some (Some base, t1)
     \<and> default_alloc_pages k t1 = Some (Some base, t2)"
proof -
  have "0 < n" using k by simp
  obtain t where t: "default_free_pages base n s = Some t"
    "fseg (links t) FreeList (map PageLink (bs @ [base])) FreeList"
    "lprev (links t) (PageLink base) = PageLink base"
    "property t = (property s)(base := n)" "nr_free t = nr_free s + n"
    using above_all_link [OF inv assms(2) ab \<open>0 < n\<close> assms(4) ok] by blast
  have nb: "base \<notin> set bs" "base + k \<notin> set bs" using ab by auto
  have f1: "List.find (\<lambda>b. k \<le> property t b) (bs @ [base]) = Some base"
    by (rule find_append_last) (use low nb k t(4) in auto)
  have a1: "default_alloc_pages k t = Some (Some base, cut_block k base t)"
    using alloc_scan [OF t(2) k(1)] k t(5) f1 by simp
  let ?t1 = "cut_block k base t"
  have lt: "n - k < 4294967296" "nr_free t < 4294967296" using assms(4) t(5) by simp_all
  have nx: "lnext (links t) (PageLink base) = FreeList" using t(2) by simp
  have l1: "lnext (links ?t1)
      = (lnext (links t))(PageLink base := PageLink (base + k), PageLink (base + k) := FreeList)"
    using k t(3,4) nx by (auto simp: cut_block_def Let_def list_op_defs fun_eq_iff)
  have p1: "property ?t1 = (property t)(base + k := n - k)" "nr_free ?t1 = nr_free s + n - k"
    using k t(4,5) lt by (auto simp: cut_block_def Let_def)
  have "fseg (links ?t1) FreeList (map PageLink bs) (PageLink base)
      = fseg (links t) FreeList (map PageLink bs) (PageLink base)"
    by (rule fseg_cong) (use nb l1 in auto)
  then have s1: "fseg (links ?t1) FreeList (map PageLink (bs @ base # [base + k])) FreeList"
    using t(2) l1 k by simp
  have f2: "List.find (\<lambda>b. k \<le> property ?t1 b) (bs @ base # [base + k]) = Some base"
    by (rule find_append_last) (use low nb k t(4) p1 in auto)
  have "default_alloc_pages k ?t1 = Some (Some base, cut_block k base ?t1)"
    using alloc_scan [OF s1 k(1)] k p1(2) f2 by simp
  with t(1) a1 show ?thesis by blast
qed

theorem default_free_above_all_allocates_twice_witness:
  "\<exists>s t t1 t2. fl_inv s [10] \<and> default_free_pages 12 3 s = Some t
     \<and> default_alloc_pages 2 t = Some (Some 12, t1) \<and> default_alloc_pages 2 t1 = Some (Some 12, t2)"
proof -
  obtain s where s: "fl_inv s [10]" "nr_free s = 1" "property s 10 = 1" "\<forall>p. \<not> PageReserved s p"
    using example_region [of 1 10] by auto
  have "\<forall>p. PageProperty s p \<longleftrightarrow> p = 10" using s(1) by (simp add: fl_inv_def)
  then show ?thesis
    using default_free_above_all_allocates_twice [OF s(1), of 12 3 2] s by auto
qed

end
