(* ===== verification/Paging_Model.thy ===== *)
theory Paging_Model
  imports First_Fit Errors
begin

text \<open>
  Physical memory and the three-level page tables of \<open>kern/mm/pmm.c\<close>, \<open>pmm.h\<close> and \<open>mmu.h\<close>.
  A page frame is its index in the array \<open>pages\<close>; the direct map makes the kernel virtual address of
  a frame and the frame one to one, so a \<open>pte_t *\<close> is a frame and the index of a word in it, and a
  \<open>pde_t *pgdir\<close> is a frame.  Frames are arrays of 512 words.  The page manager is the first-fit one, as
  \<open>init_pmm_manager\<close> sets it.  The translation buffer holds no state of its own here.
\<close>

section \<open>mmu.h and memlayout.h\<close>

definition PTXSHIFT :: nat where "PTXSHIFT = 12"
definition PDX0SHIFT :: nat where "PDX0SHIFT = 21"
definition PDX1SHIFT :: nat where "PDX1SHIFT = 30"
definition PTE_PPN_SHIFT :: nat where "PTE_PPN_SHIFT = 10"
definition PGSHIFT :: nat where "PGSHIFT = 12"
definition NPTEENTRY :: nat where "NPTEENTRY = 512"
definition NPDEENTRY :: nat where "NPDEENTRY = 512"
definition PGSIZE :: "64 word" where "PGSIZE = 4096"
definition PTSIZE :: "64 word" where "PTSIZE = PGSIZE * of_nat NPTEENTRY"
definition PDSIZE :: "64 word" where "PDSIZE = PTSIZE * of_nat NPDEENTRY"

definition PDX1 :: "64 word \<Rightarrow> nat" where "PDX1 la = unat (drop_bit PDX1SHIFT la AND 0x1FF)"
definition PDX0 :: "64 word \<Rightarrow> nat" where "PDX0 la = unat (drop_bit PDX0SHIFT la AND 0x1FF)"
definition PTX :: "64 word \<Rightarrow> nat" where "PTX la = unat (drop_bit PTXSHIFT la AND 0x1FF)"
definition PPN :: "64 word \<Rightarrow> nat" where "PPN la = unat (drop_bit PTXSHIFT la)"
definition PGOFF :: "64 word \<Rightarrow> 64 word" where "PGOFF la = la AND 0xFFF"

definition PGADDR :: "64 word \<Rightarrow> 64 word \<Rightarrow> 64 word \<Rightarrow> 64 word \<Rightarrow> 64 word" where
  "PGADDR d1 d0 t off =
     push_bit PDX1SHIFT d1 OR push_bit PDX0SHIFT d0 OR push_bit PTXSHIFT t OR off"

definition PTE_ADDR :: "64 word \<Rightarrow> 64 word" where
  "PTE_ADDR pte = push_bit (PTXSHIFT - PTE_PPN_SHIFT) (pte AND NOT 0x3FF)"

definition PDE_ADDR :: "64 word \<Rightarrow> 64 word" where "PDE_ADDR pde = PTE_ADDR pde"

definition PTE_V :: "64 word" where "PTE_V = 0x001"
definition PTE_R :: "64 word" where "PTE_R = 0x002"
definition PTE_W :: "64 word" where "PTE_W = 0x004"
definition PTE_X :: "64 word" where "PTE_X = 0x008"
definition PTE_U :: "64 word" where "PTE_U = 0x010"
definition PTE_USER :: "64 word" where "PTE_USER = PTE_R OR PTE_W OR PTE_X OR PTE_U OR PTE_V"

definition ROUNDDOWN :: "64 word \<Rightarrow> 64 word \<Rightarrow> 64 word" where
  "ROUNDDOWN a n = a - a mod n"

definition ROUNDUP :: "64 word \<Rightarrow> 64 word \<Rightarrow> 64 word" where
  "ROUNDUP a n = ROUNDDOWN (a + n - 1) n"

definition KERNBASE :: "64 word" where "KERNBASE = 0xFFFFFFFFC0200000"
definition KMEMSIZE :: "64 word" where "KMEMSIZE = 0x7E00000"
definition KERNTOP :: "64 word" where "KERNTOP = KERNBASE + KMEMSIZE"
definition PHYSICAL_MEMORY_OFFSET :: "64 word" where "PHYSICAL_MEMORY_OFFSET = 0xFFFFFFFF40000000"
definition USERTOP :: "64 word" where "USERTOP = 0x80000000"
definition USERBASE :: "64 word" where "USERBASE = 0x00200000"

definition USER_ACCESS :: "64 word \<Rightarrow> 64 word \<Rightarrow> bool" where
  "USER_ACCESS start en \<longleftrightarrow> USERBASE \<le> start \<and> start < en \<and> en \<le> USERTOP"

definition KERN_ACCESS :: "64 word \<Rightarrow> 64 word \<Rightarrow> bool" where
  "KERN_ACCESS start en \<longleftrightarrow> KERNBASE \<le> start \<and> start < en \<and> en \<le> KERNTOP"

section \<open>pmm.h\<close>

record pmem =
  pm_pmm :: pmm
  pm_npage :: nat
  pm_frame :: "nat \<Rightarrow> nat \<Rightarrow> 64 word"

definition nbase :: nat where "nbase = 0x80000"

definition page2ppn :: "nat \<Rightarrow> nat" where "page2ppn page = page + nbase"

definition page2pa :: "nat \<Rightarrow> 64 word" where
  "page2pa page = push_bit PGSHIFT (of_nat (page2ppn page))"

text \<open>Indexing the array below its start is undefined, hence the second check.\<close>

definition pa2page :: "pmem \<Rightarrow> 64 word \<Rightarrow> nat option" where
  "pa2page s pa = do {
     kassert (PPN pa < pm_npage s);
     kassert (nbase \<le> PPN pa);
     Some (PPN pa - nbase)
   }"

text \<open>\<open>va_pa_offset\<close> is set once, to \<open>PHYSICAL_MEMORY_OFFSET\<close>.\<close>

definition PADDR :: "64 word \<Rightarrow> 64 word option" where
  "PADDR kva = do { kassert (KERNBASE \<le> kva); Some (kva - PHYSICAL_MEMORY_OFFSET) }"

text \<open>\<open>KADDR\<close> as the frame that the resulting kernel virtual address maps.\<close>

definition KADDR :: "pmem \<Rightarrow> 64 word \<Rightarrow> nat option" where
  "KADDR s pa = do {
     kassert (PPN pa < pm_npage s);
     kassert (nbase \<le> PPN pa);
     Some (PPN pa - nbase)
   }"

definition page2kva :: "pmem \<Rightarrow> nat \<Rightarrow> nat option" where
  "page2kva s page = KADDR s (page2pa page)"

definition kva2page :: "pmem \<Rightarrow> 64 word \<Rightarrow> nat option" where
  "kva2page m kva = do { pa \<leftarrow> PADDR kva; pa2page m pa }"

text \<open>The kernel virtual address of a frame.\<close>

definition kva_of :: "nat \<Rightarrow> nat" where
  "kva_of f = unat (page2pa f + PHYSICAL_MEMORY_OFFSET)"

definition pte2page :: "pmem \<Rightarrow> 64 word \<Rightarrow> nat option" where
  "pte2page s pte = do { kassert (pte AND PTE_V \<noteq> 0); pa2page s (PTE_ADDR pte) }"

definition pde2page :: "pmem \<Rightarrow> 64 word \<Rightarrow> nat option" where
  "pde2page s pde = pa2page s (PDE_ADDR pde)"

definition pte_create :: "nat \<Rightarrow> 64 word \<Rightarrow> 64 word" where
  "pte_create ppn type = push_bit PTE_PPN_SHIFT (of_nat ppn) OR PTE_V OR type"

definition ptd_create :: "nat \<Rightarrow> 64 word" where
  "ptd_create ppn = pte_create ppn PTE_V"

section \<open>pmm.c\<close>

definition upd_pmm :: "(pmm \<Rightarrow> pmm) \<Rightarrow> pmem \<Rightarrow> pmem" where
  "upd_pmm f s = s\<lparr>pm_pmm := f (pm_pmm s)\<rparr>"

definition write_word :: "nat \<Rightarrow> nat \<Rightarrow> 64 word \<Rightarrow> pmem \<Rightarrow> pmem" where
  "write_word f i w s = s\<lparr>pm_frame := (pm_frame s)(f := (pm_frame s f)(i := w))\<rparr>"

definition clear_frame :: "nat \<Rightarrow> pmem \<Rightarrow> pmem" where
  "clear_frame f s = s\<lparr>pm_frame := (pm_frame s)(f := (\<lambda>_. 0))\<rparr>"

definition copy_frame :: "nat \<Rightarrow> nat \<Rightarrow> pmem \<Rightarrow> pmem" where
  "copy_frame dst src s = s\<lparr>pm_frame := (pm_frame s)(dst := pm_frame s src)\<rparr>"

definition alloc_pages :: "nat \<Rightarrow> pmem \<Rightarrow> (nat option \<times> pmem) option" where
  "alloc_pages n s = do {
     (page, p) \<leftarrow> default_alloc_pages n (pm_pmm s);
     Some (page, s\<lparr>pm_pmm := p\<rparr>)
   }"

definition free_pages :: "nat \<Rightarrow> nat \<Rightarrow> pmem \<Rightarrow> pmem option" where
  "free_pages base n s = do {
     p \<leftarrow> default_free_pages base n (pm_pmm s);
     Some (s\<lparr>pm_pmm := p\<rparr>)
   }"

definition nr_free_pages :: "pmem \<Rightarrow> nat" where
  "nr_free_pages s = default_nr_free_pages (pm_pmm s)"

definition init_pmm_manager :: "pmem \<Rightarrow> pmem" where
  "init_pmm_manager = upd_pmm default_init"

definition init_memmap :: "nat \<Rightarrow> nat \<Rightarrow> pmem \<Rightarrow> pmem option" where
  "init_memmap base n s = do {
     p \<leftarrow> default_init_memmap base n (pm_pmm s);
     Some (s\<lparr>pm_pmm := p\<rparr>)
   }"

fun reserve_pages :: "nat \<Rightarrow> nat \<Rightarrow> pmm \<Rightarrow> pmm" where
  "reserve_pages i 0 s = s"
| "reserve_pages i (Suc n) s = reserve_pages (Suc i) n (SetPageReserved i s)"

definition sizeof_Page :: nat where "sizeof_Page = 64"

text \<open>\<open>mem_begin\<close> and \<open>mem_size\<close> are what the device tree reports, \<open>kend\<close> the address of the
  linker symbol \<open>end\<close>.  With fewer pages than \<open>nbase\<close> the loop would leave the array.\<close>

definition page_init :: "64 word \<Rightarrow> 64 word \<Rightarrow> 64 word \<Rightarrow> pmem \<Rightarrow> pmem option" where
  "page_init mem_begin mem_size kend s = do {
     kassert (mem_size \<noteq> 0);
     let mem_end = mem_begin + mem_size;
     let maxpa = (if KERNTOP < mem_end then KERNTOP else mem_end);
     let npage = unat (maxpa div PGSIZE);
     let pages = ROUNDUP kend PGSIZE;
     kassert (nbase \<le> npage);
     let s1 = upd_pmm (reserve_pages 0 (npage - nbase)) (s\<lparr>pm_npage := npage\<rparr>);
     freemem \<leftarrow> PADDR (pages + of_nat (sizeof_Page * (npage - nbase)));
     let mem_begin = ROUNDUP freemem PGSIZE;
     let mem_end = ROUNDDOWN mem_end PGSIZE;
     if freemem < mem_end
     then do {
       base \<leftarrow> pa2page s1 mem_begin;
       init_memmap base (unat ((mem_end - mem_begin) div PGSIZE)) s1
     }
     else Some s1
   }"

definition alloc_page :: "pmem \<Rightarrow> (nat option \<times> pmem) option" where
  "alloc_page = alloc_pages 1"

definition free_page :: "nat \<Rightarrow> pmem \<Rightarrow> pmem option" where
  "free_page page = free_pages page 1"

text \<open>One level of the walk, which \<open>get_pte\<close> has twice: the table that the entry \<open>(f, i)\<close> points
  to, allocated and cleared on demand.\<close>

definition get_table :: "nat \<Rightarrow> nat \<Rightarrow> bool \<Rightarrow> pmem \<Rightarrow> (nat option \<times> pmem) option" where
  "get_table f i create s =
     (if pm_frame s f i AND PTE_V = 0
      then if \<not> create then Some (None, s)
           else do {
             (r, s1) \<leftarrow> alloc_page s;
             case r of
               None \<Rightarrow> Some (None, s1)
             | Some page \<Rightarrow> do {
                 let s2 = upd_pmm (set_page_ref page 1) s1;
                 let pa = page2pa page;
                 k \<leftarrow> KADDR s2 pa;
                 let s3 = clear_frame k s2;
                 let s4 = write_word f i (pte_create (page2ppn page) (PTE_U OR PTE_V)) s3;
                 t \<leftarrow> KADDR s4 (PDE_ADDR (pm_frame s4 f i));
                 Some (Some t, s4)
               }
           }
      else do {
        t \<leftarrow> KADDR s (PDE_ADDR (pm_frame s f i));
        Some (Some t, s)
      })"

definition get_pte :: "nat \<Rightarrow> 64 word \<Rightarrow> bool \<Rightarrow> pmem \<Rightarrow> ((nat \<times> nat) option \<times> pmem) option" where
  "get_pte pgdir la create s = do {
     (r1, s1) \<leftarrow> get_table pgdir (PDX1 la) create s;
     case r1 of
       None \<Rightarrow> Some (None, s1)
     | Some pd0 \<Rightarrow> do {
         (r0, s2) \<leftarrow> get_table pd0 (PDX0 la) create s1;
         case r0 of
           None \<Rightarrow> Some (None, s2)
         | Some pt \<Rightarrow> Some (Some (pt, PTX la), s2)
       }
   }"

definition read_pte :: "pmem \<Rightarrow> nat \<times> nat \<Rightarrow> 64 word" where
  "read_pte s ptep = pm_frame s (fst ptep) (snd ptep)"

definition write_pte :: "nat \<times> nat \<Rightarrow> 64 word \<Rightarrow> pmem \<Rightarrow> pmem" where
  "write_pte ptep w s = write_word (fst ptep) (snd ptep) w s"

text \<open>The result and what \<open>*ptep_store\<close> receives.\<close>

definition get_page :: "nat \<Rightarrow> 64 word \<Rightarrow> pmem \<Rightarrow> (nat option \<times> (nat \<times> nat) option \<times> pmem) option" where
  "get_page pgdir la s = do {
     (r, s1) \<leftarrow> get_pte pgdir la False s;
     case r of
       Some ptep \<Rightarrow>
         (if read_pte s1 ptep AND PTE_V \<noteq> 0
          then do { p \<leftarrow> pte2page s1 (read_pte s1 ptep); Some (Some p, r, s1) }
          else Some (None, r, s1))
     | None \<Rightarrow> Some (None, r, s1)
   }"

definition page_remove_pte :: "nat \<times> nat \<Rightarrow> pmem \<Rightarrow> pmem option" where
  "page_remove_pte ptep s =
     (if read_pte s ptep AND PTE_V \<noteq> 0
      then do {
        page \<leftarrow> pte2page s (read_pte s ptep);
        let s1 = upd_pmm (\<lambda>p. snd (page_ref_dec page p)) s;
        s2 \<leftarrow> (if page_ref (pm_pmm s1) page = 0 then free_page page s1 else Some s1);
        Some (write_pte ptep 0 s2)
      }
      else Some s)"

partial_function (option) unmap_loop :: "nat \<Rightarrow> 64 word \<Rightarrow> 64 word \<Rightarrow> pmem \<Rightarrow> pmem option" where
  "unmap_loop pgdir start en s = do {
     (r, s1) \<leftarrow> get_pte pgdir start False s;
     (start', s2) \<leftarrow>
       (case r of
          None \<Rightarrow> Some (ROUNDDOWN (start + PTSIZE) PTSIZE, s1)
        | Some ptep \<Rightarrow> do {
            s2 \<leftarrow> (if read_pte s1 ptep \<noteq> 0 then page_remove_pte ptep s1 else Some s1);
            Some (start + PGSIZE, s2)
          });
     if start' \<noteq> 0 \<and> start' < en then unmap_loop pgdir start' en s2 else Some s2
   }"

definition unmap_range :: "nat \<Rightarrow> 64 word \<Rightarrow> 64 word \<Rightarrow> pmem \<Rightarrow> pmem option" where
  "unmap_range pgdir start en s = do {
     kassert (start mod PGSIZE = 0 \<and> en mod PGSIZE = 0);
     kassert (USER_ACCESS start en);
     unmap_loop pgdir start en s
   }"

partial_function (option) exit_inner ::
  "nat \<Rightarrow> 64 word \<Rightarrow> 64 word \<Rightarrow> 64 word \<Rightarrow> bool \<Rightarrow> pmem \<Rightarrow> (64 word \<times> bool \<times> pmem) option" where
  "exit_inner pd0 d1start d0start en free_pd0 s = do {
     let pde0 = pm_frame s pd0 (PDX0 d0start);
     (free_pd0', s1) \<leftarrow>
       (if pde0 AND PTE_V \<noteq> 0
        then do {
          pg \<leftarrow> pde2page s pde0;
          pt \<leftarrow> page2kva s pg;
          let free_pt = (\<forall>i\<in>set [0..<NPTEENTRY]. pm_frame s pt i AND PTE_V = 0);
          if free_pt then do {
            s1 \<leftarrow> free_page pg s;
            Some (free_pd0, write_word pd0 (PDX0 d0start) 0 s1)
          }
          else Some (free_pd0, s)
        }
        else Some (False, s));
     let d0start' = d0start + PTSIZE;
     if d0start' \<noteq> 0 \<and> d0start' < d1start + PDSIZE \<and> d0start' < en
     then exit_inner pd0 d1start d0start' en free_pd0' s1
     else Some (d0start', free_pd0', s1)
   }"

partial_function (option) exit_outer :: "nat \<Rightarrow> 64 word \<Rightarrow> 64 word \<Rightarrow> 64 word \<Rightarrow> pmem \<Rightarrow> pmem option" where
  "exit_outer pgdir d1start d0start en s = do {
     let pde1 = pm_frame s pgdir (PDX1 d1start);
     s1 \<leftarrow>
       (if pde1 AND PTE_V \<noteq> 0
        then do {
          pg \<leftarrow> pde2page s pde1;
          pd0 \<leftarrow> page2kva s pg;
          (d0, free_pd0, s1) \<leftarrow> exit_inner pd0 d1start d0start en True s;
          if free_pd0 then do {
            s2 \<leftarrow> free_page pg s1;
            Some (write_word pgdir (PDX1 d1start) 0 s2)
          }
          else Some s1
        }
        else Some s);
     let d1start' = d1start + PDSIZE;
     if d1start' \<noteq> 0 \<and> d1start' < en then exit_outer pgdir d1start' d1start' en s1 else Some s1
   }"

definition exit_range :: "nat \<Rightarrow> 64 word \<Rightarrow> 64 word \<Rightarrow> pmem \<Rightarrow> pmem option" where
  "exit_range pgdir start en s = do {
     kassert (start mod PGSIZE = 0 \<and> en mod PGSIZE = 0);
     kassert (USER_ACCESS start en);
     exit_outer pgdir (ROUNDDOWN start PDSIZE) (ROUNDDOWN start PTSIZE) en s
   }"

definition page_remove :: "nat \<Rightarrow> 64 word \<Rightarrow> pmem \<Rightarrow> pmem option" where
  "page_remove pgdir la s = do {
     (r, s1) \<leftarrow> get_pte pgdir la False s;
     case r of
       Some ptep \<Rightarrow> page_remove_pte ptep s1
     | None \<Rightarrow> Some s1
   }"

definition page_insert :: "nat \<Rightarrow> nat \<Rightarrow> 64 word \<Rightarrow> 64 word \<Rightarrow> pmem \<Rightarrow> (int \<times> pmem) option" where
  "page_insert pgdir page la perm s = do {
     (r, s1) \<leftarrow> get_pte pgdir la True s;
     case r of
       None \<Rightarrow> Some (- E_NO_MEM, s1)
     | Some ptep \<Rightarrow> do {
         let s2 = upd_pmm (\<lambda>p. snd (page_ref_inc page p)) s1;
         s3 \<leftarrow>
           (if read_pte s2 ptep AND PTE_V \<noteq> 0
            then do {
              p \<leftarrow> pte2page s2 (read_pte s2 ptep);
              if p = page then Some (upd_pmm (\<lambda>p. snd (page_ref_dec page p)) s2)
              else page_remove_pte ptep s2
            }
            else Some s2);
         Some (0, write_pte ptep (pte_create (page2ppn page) (PTE_V OR perm)) s3)
       }
   }"

definition pgdir_alloc_page :: "nat \<Rightarrow> 64 word \<Rightarrow> 64 word \<Rightarrow> pmem \<Rightarrow> (nat option \<times> pmem) option" where
  "pgdir_alloc_page pgdir la perm s = do {
     (r, s1) \<leftarrow> alloc_page s;
     case r of
       None \<Rightarrow> Some (None, s1)
     | Some page \<Rightarrow> do {
         (ret, s2) \<leftarrow> page_insert pgdir page la perm s1;
         if ret \<noteq> 0 then do { s3 \<leftarrow> free_page page s2; Some (None, s3) }
         else do {
           let s3 = upd_pmm (upd_page page (\<lambda>g. g\<lparr>pg_pra_vaddr := unat la\<rparr>)) s2;
           kassert (page_ref (pm_pmm s3) page = 1);
           Some (Some page, s3)
         }
       }
   }"

text \<open>One mapped page of \<open>copy_range\<close>, whose \<open>share\<close> the code does not use; \<open>False\<close> when there is no
  memory for the tables.  Running out of frames for the page itself is the failed \<open>assert(npage != NULL)\<close>.\<close>

definition copy_page :: "nat \<Rightarrow> nat \<times> nat \<Rightarrow> 64 word \<Rightarrow> pmem \<Rightarrow> (bool \<times> pmem) option" where
  "copy_page to ptep start s = do {
     (r, s1) \<leftarrow> get_pte to start True s;
     case r of
       None \<Rightarrow> Some (False, s1)
     | Some nptep \<Rightarrow> do {
         let perm = read_pte s1 ptep AND PTE_USER;
         page \<leftarrow> pte2page s1 (read_pte s1 ptep);
         (np, s2) \<leftarrow> alloc_page s1;
         npage \<leftarrow> np;
         src \<leftarrow> page2kva s2 page;
         dst \<leftarrow> page2kva s2 npage;
         (ret, s3) \<leftarrow> page_insert to npage start perm (copy_frame dst src s2);
         kassert (ret = 0);
         Some (True, s3)
       }
   }"

partial_function (option) copy_loop :: "nat \<Rightarrow> nat \<Rightarrow> 64 word \<Rightarrow> 64 word \<Rightarrow> pmem \<Rightarrow> (int \<times> pmem) option" where
  "copy_loop to frm start en s = do {
     (r, s1) \<leftarrow> get_pte frm start False s;
     (ok, start', s2) \<leftarrow>
       (case r of
          None \<Rightarrow> Some (True, ROUNDDOWN (start + PTSIZE) PTSIZE, s1)
        | Some ptep \<Rightarrow>
            if read_pte s1 ptep AND PTE_V \<noteq> 0
            then do { (ok, s2) \<leftarrow> copy_page to ptep start s1; Some (ok, start + PGSIZE, s2) }
            else Some (True, start + PGSIZE, s1));
     if \<not> ok then Some (- E_NO_MEM, s2)
     else if start' \<noteq> 0 \<and> start' < en then copy_loop to frm start' en s2 else Some (0, s2)
   }"

definition copy_range :: "nat \<Rightarrow> nat \<Rightarrow> 64 word \<Rightarrow> 64 word \<Rightarrow> pmem \<Rightarrow> (int \<times> pmem) option" where
  "copy_range to frm start en s = do {
     kassert (start mod PGSIZE = 0 \<and> en mod PGSIZE = 0);
     kassert (USER_ACCESS start en);
     copy_loop to frm start en s
   }"

fun map_segment_loop :: "nat \<Rightarrow> nat \<Rightarrow> 64 word \<Rightarrow> 64 word \<Rightarrow> 64 word \<Rightarrow> pmem \<Rightarrow> pmem option" where
  "map_segment_loop pgdir 0 la pa perm s = Some s"
| "map_segment_loop pgdir (Suc n) la pa perm s = do {
     (r, s1) \<leftarrow> get_pte pgdir la True s;
     ptep \<leftarrow> r;
     let s2 = write_pte ptep (pte_create (unat (drop_bit PGSHIFT pa)) (PTE_V OR perm)) s1;
     map_segment_loop pgdir n (la + PGSIZE) (pa + PGSIZE) perm s2
   }"

definition boot_map_segment :: "nat \<Rightarrow> 64 word \<Rightarrow> 64 word \<Rightarrow> 64 word \<Rightarrow> 64 word \<Rightarrow> pmem \<Rightarrow> pmem option" where
  "boot_map_segment pgdir la sz pa perm s = do {
     kassert (PGOFF la = PGOFF pa);
     let n = ROUNDUP (sz + PGOFF la) PGSIZE div PGSIZE;
     map_segment_loop pgdir (unat n) (ROUNDDOWN la PGSIZE) (ROUNDDOWN pa PGSIZE) perm s
   }"

definition boot_alloc_page :: "pmem \<Rightarrow> (nat \<times> pmem) option" where
  "boot_alloc_page s = do {
     (r, s1) \<leftarrow> alloc_page s;
     p \<leftarrow> r;
     k \<leftarrow> page2kva s1 p;
     Some (k, s1)
   }"

end
