(* ===== verification/Proc_Struct.thy ===== *)
theory Proc_Struct
  imports Clist
begin

text \<open>
  The kernel state shared by the process, scheduling and synchronisation code: the records of
  \<open>kern/process/proc.h\<close>, \<open>kern/trap/trap.h\<close>, \<open>kern/schedule/sched.h\<close> and
  \<open>kern/sync/{wait,sem,monitor}.h\<close>.  A pointer to an object is a natural number, a pointer that may be
  \<open>NULL\<close> an option; dereferencing \<open>NULL\<close> is \<open>None\<close>.  Every list field embedded in an object is a
  node of the circular list family it is threaded on, so each family has its own \<open>links\<close>.
  A code section between \<open>local_intr_save\<close> and \<open>local_intr_restore\<close> is one step of the model.
\<close>

section \<open>Processes\<close>

datatype proc_state = PROC_UNINIT | PROC_SLEEPING | PROC_RUNNABLE | PROC_ZOMBIE

record reg_context =
  ctx_ra :: "64 word"
  ctx_sp :: "64 word"
  ctx_s0 :: "64 word"
  ctx_s1 :: "64 word"
  ctx_s2 :: "64 word"
  ctx_s3 :: "64 word"
  ctx_s4 :: "64 word"
  ctx_s5 :: "64 word"
  ctx_s6 :: "64 word"
  ctx_s7 :: "64 word"
  ctx_s8 :: "64 word"
  ctx_s9 :: "64 word"
  ctx_s10 :: "64 word"
  ctx_s11 :: "64 word"

record pushregs =
  gpr_zero :: "64 word"
  gpr_ra :: "64 word"
  gpr_sp :: "64 word"
  gpr_gp :: "64 word"
  gpr_tp :: "64 word"
  gpr_t0 :: "64 word"
  gpr_t1 :: "64 word"
  gpr_t2 :: "64 word"
  gpr_s0 :: "64 word"
  gpr_s1 :: "64 word"
  gpr_a0 :: "64 word"
  gpr_a1 :: "64 word"
  gpr_a2 :: "64 word"
  gpr_a3 :: "64 word"
  gpr_a4 :: "64 word"
  gpr_a5 :: "64 word"
  gpr_a6 :: "64 word"
  gpr_a7 :: "64 word"
  gpr_s2 :: "64 word"
  gpr_s3 :: "64 word"
  gpr_s4 :: "64 word"
  gpr_s5 :: "64 word"
  gpr_s6 :: "64 word"
  gpr_s7 :: "64 word"
  gpr_s8 :: "64 word"
  gpr_s9 :: "64 word"
  gpr_s10 :: "64 word"
  gpr_s11 :: "64 word"
  gpr_t3 :: "64 word"
  gpr_t4 :: "64 word"
  gpr_t5 :: "64 word"
  gpr_t6 :: "64 word"

record trapframe =
  tf_gpr :: pushregs
  tf_status :: "64 word"
  tf_epc :: "64 word"
  tf_tval :: "64 word"
  tf_cause :: "64 word"

definition PROC_NAME_LEN :: nat where "PROC_NAME_LEN = 15"
definition MAX_PROCESS :: int where "MAX_PROCESS = 4096"
definition MAX_PID :: int where "MAX_PID = MAX_PROCESS * 2"
definition MAX_TIME_SLICE :: int where "MAX_TIME_SLICE = 5"

definition PF_EXITING :: "32 word" where "PF_EXITING = 1"
definition WT_INTERRUPTED :: "32 word" where "WT_INTERRUPTED = 0x80000000"
definition WT_CHILD :: "32 word" where "WT_CHILD = or 1 WT_INTERRUPTED"
definition WT_KSEM :: "32 word" where "WT_KSEM = 0x100"
definition WT_TIMER :: "32 word" where "WT_TIMER = or 2 WT_INTERRUPTED"
definition WT_KBD :: "32 word" where "WT_KBD = or 4 WT_INTERRUPTED"

datatype rq_ptr = NoRq | TheRq

text \<open>\<open>p_tf\<close> is the address of the trap frame and the frame stored there (\<open>None\<close> for \<open>NULL\<close>).
  The embedded list and heap nodes of a process are found in the families of the state below.\<close>

record proc_struct =
  p_state :: proc_state
  p_pid :: int
  p_runs :: int
  p_kstack :: nat
  p_need_resched :: bool
  p_parent :: "nat option"
  p_mm :: "nat option"
  p_context :: reg_context
  p_tf :: "(nat \<times> trapframe) option"
  p_pgdir :: nat
  p_flags :: "32 word"
  p_name :: string
  p_exit_code :: int
  p_wait_state :: "32 word"
  p_cptr :: "nat option"
  p_yptr :: "nat option"
  p_optr :: "nat option"
  p_rq :: rq_ptr
  p_time_slice :: int
  p_stride :: nat
  p_priority :: nat
  p_filesp :: "nat option"

section \<open>List nodes, timers, wait entries, semaphores, monitors\<close>

datatype rnode = RunList | RunLink nat
datatype tnode = TimerList | TimerLink nat
datatype plnode = ProcList | ListLink nat
datatype hnode = HashHead nat | HashLink nat
datatype wnode = WaitHead nat | WaitLink nat

record skew_heap_entry =
  sk_parent :: "nat option"
  sk_left :: "nat option"
  sk_right :: "nat option"

record timer_t =
  t_expires :: nat
  t_proc :: "nat option"

record wait_t =
  w_proc :: "nat option"
  w_wakeup_flags :: "32 word"
  w_queue :: nat

text \<open>The wait queue embedded in the semaphore \<open>q\<close> is the list head \<open>WaitHead q\<close>.\<close>

record semaphore_t =
  sem_value :: int

record condvar_t =
  cv_sem :: nat
  cv_count :: int
  cv_owner :: nat

record monitor_t =
  mt_mutex :: nat
  mt_next :: nat
  mt_next_count :: int
  mt_cv :: "nat list"

section \<open>The kernel state\<close>

record kern =
  procs :: "nat \<Rightarrow> proc_struct"
  current :: "nat option"
  idleproc :: "nat option"
  initproc :: "nat option"
  cpu :: reg_context
  satp :: nat
  run_links :: "rnode links"
  proc_num :: nat
  max_time_slice :: int
  run_pool :: "nat option"
  pool :: "nat \<Rightarrow> skew_heap_entry"
  timer_links :: "tnode links"
  timers :: "nat \<Rightarrow> timer_t"
  list_links :: "plnode links"
  hash_links :: "hnode links"
  nr_process :: int
  next_safe :: int
  last_pid :: int
  wait_links :: "wnode links"
  waits :: "nat \<Rightarrow> wait_t"
  sems :: "nat \<Rightarrow> semaphore_t"
  condvars :: "nat \<Rightarrow> condvar_t"
  monitors :: "nat \<Rightarrow> monitor_t"

definition upd_proc :: "nat \<Rightarrow> (proc_struct \<Rightarrow> proc_struct) \<Rightarrow> kern \<Rightarrow> kern" where
  "upd_proc p f s = s\<lparr>procs := (procs s)(p := f (procs s p))\<rparr>"

definition upd_run_links :: "(rnode links \<Rightarrow> rnode links) \<Rightarrow> kern \<Rightarrow> kern" where
  "upd_run_links f s = s\<lparr>run_links := f (run_links s)\<rparr>"

lemma procs_upd_proc [simp]: "procs (upd_proc p f s) = (procs s)(p := f (procs s p))"
  by (simp add: upd_proc_def)

lemma upd_proc_frame [simp]:
  "current (upd_proc p f s) = current s" "idleproc (upd_proc p f s) = idleproc s"
  "initproc (upd_proc p f s) = initproc s" "cpu (upd_proc p f s) = cpu s"
  "satp (upd_proc p f s) = satp s" "run_links (upd_proc p f s) = run_links s"
  "proc_num (upd_proc p f s) = proc_num s" "max_time_slice (upd_proc p f s) = max_time_slice s"
  "run_pool (upd_proc p f s) = run_pool s" "pool (upd_proc p f s) = pool s"
  "timer_links (upd_proc p f s) = timer_links s" "timers (upd_proc p f s) = timers s"
  "list_links (upd_proc p f s) = list_links s" "hash_links (upd_proc p f s) = hash_links s"
  "nr_process (upd_proc p f s) = nr_process s" "next_safe (upd_proc p f s) = next_safe s"
  "last_pid (upd_proc p f s) = last_pid s" "wait_links (upd_proc p f s) = wait_links s"
  "waits (upd_proc p f s) = waits s" "sems (upd_proc p f s) = sems s"
  "condvars (upd_proc p f s) = condvars s" "monitors (upd_proc p f s) = monitors s"
  by (simp_all add: upd_proc_def)

lemma upd_run_links_simps [simp]:
  "run_links (upd_run_links f s) = f (run_links s)" "procs (upd_run_links f s) = procs s"
  "proc_num (upd_run_links f s) = proc_num s" "max_time_slice (upd_run_links f s) = max_time_slice s"
  "run_pool (upd_run_links f s) = run_pool s" "pool (upd_run_links f s) = pool s"
  by (simp_all add: upd_run_links_def)

section \<open>What a scheduling class may touch\<close>

text \<open>\<open>rq_frame s t\<close>: \<open>t\<close> differs from \<open>s\<close> only in the run queue and in the scheduling fields
  of the processes; \<open>rq_view\<close> is the run queue and the
  process fields that decide its shape.\<close>

definition proc_core :: "proc_struct \<Rightarrow> proc_struct" where
  "proc_core p = p\<lparr>p_rq := NoRq, p_time_slice := 0, p_stride := 0\<rparr>"

definition rest_of :: "kern \<Rightarrow> kern" where
  "rest_of s = s\<lparr>procs := (\<lambda>p. proc_core (procs s p)),
     run_links := \<lparr>lnext = (\<lambda>_. RunList), lprev = (\<lambda>_. RunList)\<rparr>, proc_num := 0,
     run_pool := None, pool := (\<lambda>_. \<lparr>sk_parent = None, sk_left = None, sk_right = None\<rparr>)\<rparr>"

definition rq_frame :: "kern \<Rightarrow> kern \<Rightarrow> bool" where
  "rq_frame s t \<longleftrightarrow> rest_of s = rest_of t"

definition rq_view where
  "rq_view s = (run_links s, proc_num s, max_time_slice s, run_pool s, pool s,
     (\<lambda>p. (p_rq (procs s p), p_stride (procs s p), p_priority (procs s p))))"

lemma rq_frame_refl [simp, intro]: "rq_frame s s"
  by (simp add: rq_frame_def)

lemma rq_frame_trans [trans]: "rq_frame s t \<Longrightarrow> rq_frame t u \<Longrightarrow> rq_frame s u"
  by (simp add: rq_frame_def)

lemma proc_core_sel [simp]:
  "p_state (proc_core a) = p_state a"
  "p_pid (proc_core a) = p_pid a"
  "p_wait_state (proc_core a) = p_wait_state a"
  "p_parent (proc_core a) = p_parent a"
  "p_need_resched (proc_core a) = p_need_resched a"
  "p_priority (proc_core a) = p_priority a"
  "p_flags (proc_core a) = p_flags a"
  "p_runs (proc_core a) = p_runs a"
  "p_cptr (proc_core a) = p_cptr a"
  "p_optr (proc_core a) = p_optr a"
  "p_yptr (proc_core a) = p_yptr a"
  "p_pgdir (proc_core a) = p_pgdir a"
  "p_exit_code (proc_core a) = p_exit_code a"
  "p_context (proc_core a) = p_context a"
  "p_mm (proc_core a) = p_mm a"
  "p_filesp (proc_core a) = p_filesp a"
  "p_kstack (proc_core a) = p_kstack a"
  by (simp_all add: proc_core_def)

lemma proc_core_fields:
  assumes "proc_core a = proc_core b"
  shows "p_state a = p_state b"
    "p_pid a = p_pid b"
    "p_wait_state a = p_wait_state b"
    "p_parent a = p_parent b"
    "p_need_resched a = p_need_resched b"
    "p_priority a = p_priority b"
    "p_flags a = p_flags b"
    "p_runs a = p_runs b"
    "p_cptr a = p_cptr b"
    "p_optr a = p_optr b"
    "p_yptr a = p_yptr b"
    "p_pgdir a = p_pgdir b"
    "p_exit_code a = p_exit_code b"
    "p_context a = p_context b"
    "p_mm a = p_mm b"
    "p_filesp a = p_filesp b"
    "p_kstack a = p_kstack b"
  by (simp_all only: proc_core_sel [of a, symmetric] proc_core_sel [of b, symmetric] assms)

lemma rest_of_sel:
  "current (rest_of s) = current s"
  "idleproc (rest_of s) = idleproc s"
  "initproc (rest_of s) = initproc s"
  "cpu (rest_of s) = cpu s"
  "satp (rest_of s) = satp s"
  "max_time_slice (rest_of s) = max_time_slice s"
  "timer_links (rest_of s) = timer_links s"
  "timers (rest_of s) = timers s"
  "list_links (rest_of s) = list_links s"
  "hash_links (rest_of s) = hash_links s"
  "nr_process (rest_of s) = nr_process s"
  "next_safe (rest_of s) = next_safe s"
  "last_pid (rest_of s) = last_pid s"
  "wait_links (rest_of s) = wait_links s"
  "waits (rest_of s) = waits s"
  "sems (rest_of s) = sems s"
  "condvars (rest_of s) = condvars s"
  "monitors (rest_of s) = monitors s"
  "procs (rest_of s) = (\<lambda>p. proc_core (procs s p))"
  by (simp_all add: rest_of_def)

lemma rq_frame_kern:
  assumes "rq_frame s t"
  shows "current t = current s"
    "idleproc t = idleproc s"
    "initproc t = initproc s"
    "cpu t = cpu s"
    "satp t = satp s"
    "max_time_slice t = max_time_slice s"
    "timer_links t = timer_links s"
    "timers t = timers s"
    "list_links t = list_links s"
    "hash_links t = hash_links s"
    "nr_process t = nr_process s"
    "next_safe t = next_safe s"
    "last_pid t = last_pid s"
    "wait_links t = wait_links s"
    "waits t = waits s"
    "sems t = sems s"
    "condvars t = condvars s"
    "monitors t = monitors s"
  by (simp_all only: rest_of_sel [of s, symmetric] rest_of_sel [of t, symmetric] assms [unfolded rq_frame_def])

lemma rq_frame_core:
  assumes "rq_frame s t"
  shows "proc_core (procs t p) = proc_core (procs s p)"
proof -
  have "procs (rest_of t) = procs (rest_of s)" using assms by (simp add: rq_frame_def)
  then show ?thesis by (simp add: rest_of_sel fun_eq_iff)
qed

lemmas rq_frame_procs = proc_core_fields [OF rq_frame_core]

lemma rq_frame_upd:
  assumes "\<And>a. proc_core (f a) = proc_core a"
  shows "rq_frame s (upd_proc p f s)"
  using assms by (simp add: rq_frame_def rest_of_def fun_eq_iff upd_proc_def)

lemma rq_frame_links [simp, intro]: "rq_frame s (upd_run_links f s)"
  by (simp add: rq_frame_def rest_of_def upd_run_links_def)

lemma rq_frame_num [simp, intro]: "rq_frame s (s\<lparr>proc_num := n\<rparr>)"
  by (simp add: rq_frame_def rest_of_def)

section \<open>What a context switch leaves alone\<close>

definition static_proc where
  "static_proc p = (p_pid p, p_parent p, p_wait_state p, p_flags p, p_exit_code p, p_cptr p, p_yptr p,
     p_optr p, p_mm p, p_filesp p, p_kstack p, p_pgdir p, p_name p, p_tf p)"

definition sched_frame :: "kern \<Rightarrow> kern \<Rightarrow> bool" where
  "sched_frame s t \<longleftrightarrow> initproc t = initproc s
     \<and> timer_links t = timer_links s
     \<and> timers t = timers s
     \<and> list_links t = list_links s
     \<and> hash_links t = hash_links s
     \<and> nr_process t = nr_process s
     \<and> next_safe t = next_safe s
     \<and> last_pid t = last_pid s
     \<and> wait_links t = wait_links s
     \<and> waits t = waits s
     \<and> sems t = sems s
     \<and> condvars t = condvars s
     \<and> monitors t = monitors s
     \<and> idleproc t = idleproc s
     \<and> max_time_slice t = max_time_slice s
     \<and> (\<forall>p. static_proc (procs t p) = static_proc (procs s p))"

lemma sched_frame_refl [simp, intro]: "sched_frame s s"
  by (simp add: sched_frame_def)

lemma sched_frame_trans [trans]: "sched_frame s t \<Longrightarrow> sched_frame t u \<Longrightarrow> sched_frame s u"
  by (simp add: sched_frame_def)

lemma static_proc_core: "static_proc (proc_core a) = static_proc a"
  by (simp add: static_proc_def proc_core_def)

lemma rq_frame_sched: "rq_frame s t \<Longrightarrow> sched_frame s t"
  using rq_frame_kern [of s t] static_proc_core rq_frame_core [of s t]
  unfolding sched_frame_def by metis

lemma sched_frame_upd:
  "(\<And>a. static_proc (f a) = static_proc a) \<Longrightarrow> sched_frame s (upd_proc p f s)"
  by (auto simp: sched_frame_def)

lemma sched_frame_proc:
  assumes "sched_frame s t"
  shows "p_pid (procs t p) = p_pid (procs s p)" "p_parent (procs t p) = p_parent (procs s p)"
    "p_wait_state (procs t p) = p_wait_state (procs s p)" "p_flags (procs t p) = p_flags (procs s p)"
    "p_exit_code (procs t p) = p_exit_code (procs s p)" "p_cptr (procs t p) = p_cptr (procs s p)"
    "p_yptr (procs t p) = p_yptr (procs s p)" "p_optr (procs t p) = p_optr (procs s p)"
    "p_mm (procs t p) = p_mm (procs s p)"
  using assms by (auto simp: sched_frame_def static_proc_def)

section \<open>The state before any initialisation\<close>

definition zero_context :: reg_context where
  "zero_context = \<lparr>ctx_ra = 0, ctx_sp = 0, ctx_s0 = 0, ctx_s1 = 0, ctx_s2 = 0, ctx_s3 = 0,
     ctx_s4 = 0, ctx_s5 = 0, ctx_s6 = 0, ctx_s7 = 0, ctx_s8 = 0, ctx_s9 = 0, ctx_s10 = 0,
     ctx_s11 = 0\<rparr>"

definition zero_proc :: proc_struct where
  "zero_proc = \<lparr>p_state = PROC_UNINIT, p_pid = 0, p_runs = 0, p_kstack = 0, p_need_resched = False,
     p_parent = None, p_mm = None, p_context = zero_context, p_tf = None, p_pgdir = 0, p_flags = 0,
     p_name = [], p_exit_code = 0, p_wait_state = 0, p_cptr = None, p_yptr = None, p_optr = None,
     p_rq = NoRq, p_time_slice = 0, p_stride = 0, p_priority = 0, p_filesp = None\<rparr>"

text \<open>Static variables of the kernel start as the C code initialises them; list nodes nobody has
  linked yet refer to themselves.\<close>

definition boot_kern :: kern where
  "boot_kern = \<lparr>procs = (\<lambda>_. zero_proc), current = None, idleproc = None, initproc = None,
     cpu = zero_context, satp = 0, run_links = \<lparr>lnext = id, lprev = id\<rparr>, proc_num = 0,
     max_time_slice = 0, run_pool = None,
     pool = (\<lambda>_. \<lparr>sk_parent = None, sk_left = None, sk_right = None\<rparr>),
     timer_links = \<lparr>lnext = id, lprev = id\<rparr>, timers = (\<lambda>_. \<lparr>t_expires = 0, t_proc = None\<rparr>),
     list_links = \<lparr>lnext = id, lprev = id\<rparr>, hash_links = \<lparr>lnext = id, lprev = id\<rparr>,
     nr_process = 0, next_safe = MAX_PID, last_pid = MAX_PID,
     wait_links = \<lparr>lnext = id, lprev = id\<rparr>,
     waits = (\<lambda>_. \<lparr>w_proc = None, w_wakeup_flags = 0, w_queue = 0\<rparr>),
     sems = (\<lambda>_. \<lparr>sem_value = 0\<rparr>),
     condvars = (\<lambda>_. \<lparr>cv_sem = 0, cv_count = 0, cv_owner = 0\<rparr>),
     monitors = (\<lambda>_. \<lparr>mt_mutex = 0, mt_next = 0, mt_next_count = 0, mt_cv = []\<rparr>)\<rparr>"

end
