(* ===== verification/Sched.thy ===== *)
theory Sched
  imports Proc_Struct
begin

text \<open>
  The scheduler core of \<open>kern/schedule/sched.c\<close>: \<open>wakeup_proc\<close> and \<open>schedule\<close> call the
  scheduling class through the function table \<open>struct sched_class\<close>, and \<open>proc_run\<close> of
  \<open>kern/process/proc.c\<close> switches the processor.  The locale \<open>sched_policy\<close> is the contract of
  a scheduling class; the client lemmas about \<open>schedule\<close> and \<open>wakeup_proc\<close> are proved from it.
\<close>

record sched_class =
  sc_name :: string
  sc_init :: "kern \<Rightarrow> kern"
  sc_enqueue :: "nat \<Rightarrow> kern \<Rightarrow> kern option"
  sc_dequeue :: "nat \<Rightarrow> kern \<Rightarrow> kern option"
  sc_pick_next :: "kern \<Rightarrow> (nat option \<times> kern) option"
  sc_proc_tick :: "nat \<Rightarrow> kern \<Rightarrow> kern"

definition sched_class_enqueue :: "sched_class \<Rightarrow> nat \<Rightarrow> kern \<Rightarrow> kern option" where
  "sched_class_enqueue sc p s = (if Some p \<noteq> idleproc s then sc_enqueue sc p s else Some s)"

definition sched_class_dequeue :: "sched_class \<Rightarrow> nat \<Rightarrow> kern \<Rightarrow> kern option" where
  "sched_class_dequeue sc p s = sc_dequeue sc p s"

definition sched_class_pick_next :: "sched_class \<Rightarrow> kern \<Rightarrow> (nat option \<times> kern) option" where
  "sched_class_pick_next sc s = sc_pick_next sc s"

definition sched_class_proc_tick :: "sched_class \<Rightarrow> nat \<Rightarrow> kern \<Rightarrow> kern" where
  "sched_class_proc_tick sc p s =
     (if Some p \<noteq> idleproc s then sc_proc_tick sc p s
      else upd_proc p (\<lambda>a. a\<lparr>p_need_resched := True\<rparr>) s)"

definition sched_init :: "sched_class \<Rightarrow> kern \<Rightarrow> kern" where
  "sched_init sc s =
     (let s1 = s\<lparr>timer_links := list_init TimerList (timer_links s)\<rparr>;
          s2 = s1\<lparr>max_time_slice := MAX_TIME_SLICE\<rparr>
      in sc_init sc s2)"

definition wakeup_proc :: "sched_class \<Rightarrow> nat \<Rightarrow> kern \<Rightarrow> kern option" where
  "wakeup_proc sc p s = do {
     kassert (p_state (procs s p) \<noteq> PROC_ZOMBIE);
     if p_state (procs s p) \<noteq> PROC_RUNNABLE then do {
       let s1 = upd_proc p (\<lambda>a. a\<lparr>p_state := PROC_RUNNABLE, p_wait_state := 0\<rparr>) s;
       if Some p \<noteq> current s1 then sched_class_enqueue sc p s1 else Some s1
     } else Some s
   }"

text \<open>\<open>switch_to\<close> saves the callee-saved registers into the old context and loads the new ones.\<close>

definition switch_to :: "nat \<Rightarrow> nat \<Rightarrow> kern \<Rightarrow> kern" where
  "switch_to from to s =
     (let s1 = upd_proc from (\<lambda>a. a\<lparr>p_context := cpu s\<rparr>) s
      in s1\<lparr>cpu := p_context (procs s1 to)\<rparr>)"

definition proc_run :: "nat \<Rightarrow> kern \<Rightarrow> kern option" where
  "proc_run p s =
     (if Some p \<noteq> current s then do {
        from \<leftarrow> current s;
        let s1 = s\<lparr>current := Some p\<rparr>;
        let s2 = s1\<lparr>satp := p_pgdir (procs s1 p)\<rparr>;
        Some (switch_to from p s2)
      } else Some s)"

definition schedule :: "sched_class \<Rightarrow> kern \<Rightarrow> kern option" where
  "schedule sc s = do {
     c \<leftarrow> current s;
     let s1 = upd_proc c (\<lambda>a. a\<lparr>p_need_resched := False\<rparr>) s;
     s2 \<leftarrow> (if p_state (procs s1 c) = PROC_RUNNABLE then sched_class_enqueue sc c s1 else Some s1);
     (r, s3) \<leftarrow> sched_class_pick_next sc s2;
     s4 \<leftarrow> (case r of Some p \<Rightarrow> sched_class_dequeue sc p s3 | None \<Rightarrow> Some s3);
     q \<leftarrow> (case r of Some p \<Rightarrow> Some p | None \<Rightarrow> idleproc s4);
     let s5 = upd_proc q (\<lambda>a. a\<lparr>p_runs := p_runs a + 1\<rparr>) s4;
     if Some q \<noteq> current s5 then proc_run q s5 else Some s5
   }"

section \<open>Frame facts of the switch\<close>

lemma switch_to_simps [simp]:
  "p_state (procs (switch_to f t s) p) = p_state (procs s p)"
  "p_wait_state (procs (switch_to f t s) p) = p_wait_state (procs s p)"
  "rq_view (switch_to f t s) = rq_view s"
  "current (switch_to f t s) = current s" "idleproc (switch_to f t s) = idleproc s"
  by (auto simp: switch_to_def Let_def rq_view_def)

lemma rq_view_kern [simp]:
  "rq_view (s\<lparr>current := x\<rparr>) = rq_view s" "rq_view (s\<lparr>satp := y\<rparr>) = rq_view s"
  "rq_view (s\<lparr>wait_links := wl\<rparr>) = rq_view s" "rq_view (s\<lparr>waits := ws\<rparr>) = rq_view s"
  "rq_view (s\<lparr>sems := sm\<rparr>) = rq_view s" "rq_view (s\<lparr>timer_links := tlk\<rparr>) = rq_view s"
  "rq_view (s\<lparr>timers := tm\<rparr>) = rq_view s"
  by (simp_all add: rq_view_def)

lemma rq_view_upd:
  assumes "\<And>a. p_rq (f a) = p_rq a" "\<And>a. p_stride (f a) = p_stride a"
    "\<And>a. p_priority (f a) = p_priority a"
  shows "rq_view (upd_proc p f s) = rq_view s"
  using assms by (auto simp: rq_view_def)

lemma proc_run_new:
  assumes "current s = Some c" and "p \<noteq> c"
  shows "\<exists>t. proc_run p s = Some t \<and> current t = Some p \<and> idleproc t = idleproc s
     \<and> rq_view t = rq_view s \<and> (\<forall>q. p_state (procs t q) = p_state (procs s q)
     \<and> p_wait_state (procs t q) = p_wait_state (procs s q)) \<and> satp t = p_pgdir (procs s p)
     \<and> sched_frame s t"
proof -
  let ?s2 = "s\<lparr>current := Some p, satp := p_pgdir (procs s p)\<rparr>"
  have "sched_frame s (switch_to c p ?s2)"
    by (simp add: sched_frame_def switch_to_def Let_def static_proc_def)
  then show ?thesis
    using assms by (simp add: proc_run_def Let_def) (simp add: switch_to_def Let_def)
qed

section \<open>The contract of a scheduling class\<close>

text \<open>\<open>rep s Q\<close>: the run queue is well formed and holds exactly the processes \<open>Q\<close>.
  \<open>fresh p s\<close>: \<open>p\<close> may be enqueued.  \<open>live\<close>: the addresses that can be processes.  \<open>pick_next\<close> and \<open>dequeue\<close> are specified together, the
  way \<open>schedule\<close> calls them.\<close>

locale sched_policy =
  fixes sc :: sched_class
    and rep :: "kern \<Rightarrow> nat set \<Rightarrow> bool"
    and fresh :: "nat \<Rightarrow> kern \<Rightarrow> bool"
    and live :: "nat \<Rightarrow> bool"
  assumes rep_view: "rep s Q \<Longrightarrow> rq_view t = rq_view s \<Longrightarrow> rep t Q"
    and fresh_view: "fresh p s \<Longrightarrow> rq_view t = rq_view s \<Longrightarrow> fresh p t"
    and enqueue: "rep s Q \<Longrightarrow> p \<notin> Q \<Longrightarrow> live p \<Longrightarrow> fresh p s \<Longrightarrow>
        \<exists>t. sc_enqueue sc p s = Some t \<and> rep t (insert p Q) \<and> rq_frame s t
          \<and> (\<forall>q. q \<noteq> p \<longrightarrow> fresh q s \<longrightarrow> fresh q t)"
    and pick_none: "rep s {} \<Longrightarrow> sc_pick_next sc s = Some (None, s)"
    and pick_some: "rep s Q \<Longrightarrow> Q \<noteq> {} \<Longrightarrow>
        \<exists>p t u. p \<in> Q \<and> sc_pick_next sc s = Some (Some p, t) \<and> sc_dequeue sc p t = Some u
          \<and> rep u (Q - {p}) \<and> rq_frame s u \<and> fresh p u
          \<and> (\<forall>q. q \<notin> Q \<longrightarrow> fresh q s \<longrightarrow> fresh q u)"
    and tick: "\<exists>ts nr. sc_proc_tick sc p s
        = upd_proc p (\<lambda>a. a\<lparr>p_time_slice := ts, p_need_resched := nr\<rparr>) s"
begin

text \<open>The scheduler's invariant: the run queue holds exactly the runnable processes other than
  the running one and the idle one, and every other process can be enqueued.\<close>

definition sched_inv :: "kern \<Rightarrow> nat set \<Rightarrow> nat \<Rightarrow> nat \<Rightarrow> bool" where
  "sched_inv s Q c i \<longleftrightarrow> rep s Q \<and> current s = Some c \<and> idleproc s = Some i
     \<and> (\<forall>p. p \<in> Q \<longleftrightarrow> p_state (procs s p) = PROC_RUNNABLE \<and> p \<noteq> c \<and> p \<noteq> i)
     \<and> (\<forall>p. live p \<longrightarrow> p \<notin> Q \<longrightarrow> p \<noteq> i \<longrightarrow> fresh p s)
     \<and> (\<forall>p\<in>Q. live p) \<and> (c \<noteq> i \<longrightarrow> live c)"

lemma requeue_current:
  assumes "sched_inv s Q c i"
  defines "R \<equiv> (if p_state (procs s c) = PROC_RUNNABLE \<and> c \<noteq> i then insert c Q else Q)"
  shows "\<exists>t. (let s1 = upd_proc c (\<lambda>a. a\<lparr>p_need_resched := False\<rparr>) s in
       if p_state (procs s1 c) = PROC_RUNNABLE then sched_class_enqueue sc c s1 else Some s1) = Some t
     \<and> rep t R \<and> (\<forall>p. live p \<longrightarrow> p \<notin> R \<longrightarrow> p \<noteq> i \<longrightarrow> fresh p t)
     \<and> current t = Some c \<and> idleproc t = Some i \<and> sched_frame s t
     \<and> (\<forall>p. p_state (procs t p) = p_state (procs s p))"
proof -
  have fr: "sched_frame s (upd_proc c (\<lambda>a. a\<lparr>p_need_resched := False\<rparr>) s)"
    by (rule sched_frame_upd) (simp add: static_proc_def)
  let ?s1 = "upd_proc c (\<lambda>a. a\<lparr>p_need_resched := False\<rparr>) s"
  have v: "rq_view ?s1 = rq_view s" by (rule rq_view_upd) simp_all
  have a: "rep ?s1 Q" "\<forall>p. live p \<longrightarrow> p \<notin> Q \<longrightarrow> p \<noteq> i \<longrightarrow> fresh p ?s1" "c \<notin> Q" "idleproc s = Some i"
    "current s = Some c" "c \<noteq> i \<longrightarrow> live c"
    using assms(1) rep_view [OF _ v] fresh_view [OF _ v] by (auto simp: sched_inv_def)
  show ?thesis
  proof (cases "p_state (procs s c) = PROC_RUNNABLE \<and> c \<noteq> i")
    case True
    then have "live c" "fresh c ?s1" using a by simp_all
    from enqueue [OF a(1,3) this] obtain t where t: "sc_enqueue sc c ?s1 = Some t"
      "rep t (insert c Q)" "rq_frame ?s1 t" "\<forall>q. q \<noteq> c \<longrightarrow> fresh q ?s1 \<longrightarrow> fresh q t" by blast
    have "\<forall>p. p_state (procs t p) = p_state (procs s p)" using rq_frame_procs(1) [OF t(3)] by simp
    moreover have "current t = Some c" "idleproc t = Some i"
      using rq_frame_kern(1,2) [OF t(3)] a by simp_all
    moreover have "sched_frame s t" using fr rq_frame_sched [OF t(3)] by (rule sched_frame_trans)
    ultimately show ?thesis using True t a by (auto simp: sched_class_enqueue_def R_def)
  next
    case False
    then show ?thesis
      by (intro exI [of _ ?s1]) (use a fr in \<open>auto simp: sched_class_enqueue_def R_def Let_def\<close>)
  qed
qed

lemma schedule_steps:
  assumes "sched_inv s Q c i"
  defines "R \<equiv> (if p_state (procs s c) = PROC_RUNNABLE \<and> c \<noteq> i then insert c Q else Q)"
  shows "\<exists>t n. schedule sc s = Some t \<and> sched_inv t (R - {n}) n i
     \<and> (if R = {} then n = i else n \<in> R) \<and> sched_frame s t
     \<and> (\<forall>p. p_state (procs t p) = p_state (procs s p))"
proof -
  obtain s2 where s2: "(let s1 = upd_proc c (\<lambda>a. a\<lparr>p_need_resched := False\<rparr>) s in
       if p_state (procs s1 c) = PROC_RUNNABLE then sched_class_enqueue sc c s1 else Some s1) = Some s2"
    "rep s2 R" "\<forall>p. live p \<longrightarrow> p \<notin> R \<longrightarrow> p \<noteq> i \<longrightarrow> fresh p s2" "current s2 = Some c" "idleproc s2 = Some i" "sched_frame s s2"
    "\<forall>p. p_state (procs s2 p) = p_state (procs s p)"
    using requeue_current [OF assms(1)] unfolding R_def by blast
  have inv: "current s = Some c" "\<And>p. p \<in> Q \<longleftrightarrow> p_state (procs s p) = PROC_RUNNABLE \<and> p \<noteq> c \<and> p \<noteq> i"
    using assms(1) by (auto simp: sched_inv_def)
  have lv: "\<forall>p\<in>R. live p" using assms(1) by (auto simp: sched_inv_def R_def)
  have memR: "\<And>p. p \<in> R \<longleftrightarrow> p_state (procs s p) = PROC_RUNNABLE \<and> p \<noteq> i"
    using inv(2) by (auto simp: R_def)
  obtain r s3 s4 n where r: "sc_pick_next sc s2 = Some (r, s3)"
    "(case r of Some p \<Rightarrow> sc_dequeue sc p s3 | None \<Rightarrow> Some s3) = Some s4"
    "(case r of Some p \<Rightarrow> Some p | None \<Rightarrow> Some i) = Some n"
    "rep s4 (R - {n})" "rq_frame s2 s4" "\<forall>p. live p \<longrightarrow> p \<notin> R - {n} \<longrightarrow> p \<noteq> i \<longrightarrow> fresh p s4"
    "if R = {} then n = i else n \<in> R"
  proof (cases "R = {}")
    case True
    then show ?thesis using that [of None s2 s2 i] s2 pick_none [of s2] by auto
  next
    case False
    from pick_some [OF s2(2) this] obtain p t u where "p \<in> R" "sc_pick_next sc s2 = Some (Some p, t)"
      "sc_dequeue sc p t = Some u" "rep u (R - {p})" "rq_frame s2 u" "fresh p u"
      "\<forall>q. q \<notin> R \<longrightarrow> fresh q s2 \<longrightarrow> fresh q u" by blast
    then show ?thesis using that [of "Some p" t u p] s2(3) False by auto
  qed
  let ?s5 = "upd_proc n (\<lambda>a. a\<lparr>p_runs := p_runs a + 1\<rparr>) s4"
  have v5: "rq_view ?s5 = rq_view s4" by (rule rq_view_upd) simp_all
  have f5: "sched_frame s4 ?s5" by (rule sched_frame_upd) (simp add: static_proc_def)
  have k4: "current s4 = Some c" "idleproc s4 = Some i" "\<And>p. p_state (procs s4 p) = p_state (procs s p)"
    using rq_frame_kern(1,2) [OF r(5)] rq_frame_procs(1) [OF r(5)] s2 by simp_all
  obtain t where t: "(if n \<noteq> c then proc_run n ?s5 else Some ?s5) = Some t" "current t = Some n"
    "idleproc t = Some i" "rq_view t = rq_view s4" "\<forall>p. p_state (procs t p) = p_state (procs s p)"
    "sched_frame s4 t"
  proof (cases "n = c")
    case True then show ?thesis using that [of ?s5] k4 v5 f5 by auto
  next
    case False
    from proc_run_new [of ?s5 c n] show ?thesis
      using that k4 v5 False sched_frame_trans [OF f5] by auto
  qed
  have "schedule sc s = Some t"
    using s2(1) r(1,2,3) k4(1,2) t(1) inv(1)
    by (cases r) (simp_all add: schedule_def sched_class_pick_next_def sched_class_dequeue_def Let_def)
  moreover have "sched_inv t (R - {n}) n i"
    using t rep_view [OF r(4) t(4)] r(6,7) fresh_view [OF _ t(4)] memR lv
    by (auto simp: sched_inv_def split: if_splits)
  moreover have "sched_frame s t"
    using s2(6) rq_frame_sched [OF r(5)] t(6) sched_frame_trans by blast
  ultimately show ?thesis using r(7) t(5) by blast
qed

lemma wakeup_steps:
  assumes "sched_inv s Q c i" and "p_state (procs s p) \<noteq> PROC_ZOMBIE" and "p \<noteq> i" and "live p"
  shows "\<exists>t. wakeup_proc sc p s = Some t \<and> sched_inv t (if p = c then Q else insert p Q) c i
     \<and> (\<forall>q. p_state (procs t q) = (if q = p then PROC_RUNNABLE else p_state (procs s q)))"
proof (cases "p_state (procs s p) = PROC_RUNNABLE")
  case True
  then have "(if p = c then Q else insert p Q) = Q" using assms by (auto simp: sched_inv_def)
  then show ?thesis using assms True by (auto simp: wakeup_proc_def)
next
  case False
  let ?s1 = "upd_proc p (\<lambda>a. a\<lparr>p_state := PROC_RUNNABLE, p_wait_state := 0\<rparr>) s"
  have v: "rq_view ?s1 = rq_view s" by (rule rq_view_upd) simp_all
  have a: "rep ?s1 Q" "\<forall>q. live q \<longrightarrow> q \<notin> Q \<longrightarrow> q \<noteq> i \<longrightarrow> fresh q ?s1" "p \<notin> Q" "idleproc s = Some i"
    "current s = Some c"
    using assms(1) rep_view [OF _ v] fresh_view [OF _ v] False by (auto simp: sched_inv_def)
  show ?thesis
  proof (cases "p = c")
    case True
    then show ?thesis using assms False a by (auto simp: wakeup_proc_def Let_def sched_inv_def)
  next
    case nc: False
    have "fresh p ?s1" using a assms(3,4) by simp
    from enqueue [OF a(1,3) assms(4) this] obtain t where t: "sc_enqueue sc p ?s1 = Some t"
      "rep t (insert p Q)" "rq_frame ?s1 t" "\<forall>q. q \<noteq> p \<longrightarrow> fresh q ?s1 \<longrightarrow> fresh q t" by blast
    have k: "\<forall>q. p_state (procs t q) = (if q = p then PROC_RUNNABLE else p_state (procs s q))"
      "current t = Some c" "idleproc t = Some i"
      using rq_frame_procs(1) [OF t(3)] rq_frame_kern(1,2) [OF t(3)] a by auto
    have "wakeup_proc sc p s = Some t"
      using assms(2,3) False nc a t(1) by (simp add: wakeup_proc_def Let_def sched_class_enqueue_def)
    moreover have "sched_inv t (insert p Q) c i"
      using t(2,4) a k assms nc unfolding sched_inv_def by auto
    ultimately show ?thesis using k nc by auto
  qed
qed

lemma sched_inv_cong:
  assumes "sched_inv s Q c i" and v: "rq_view t = rq_view s"
    and "current t = current s" and "idleproc t = idleproc s"
    and "\<And>p. p \<noteq> c \<Longrightarrow> p_state (procs t p) = p_state (procs s p)"
  shows "sched_inv t Q c i"
proof -
  have "rep t Q" "\<forall>p. live p \<longrightarrow> p \<notin> Q \<longrightarrow> p \<noteq> i \<longrightarrow> fresh p t"
    using assms(1) rep_view [OF _ v] fresh_view [OF _ v] by (auto simp: sched_inv_def)
  moreover have "p \<in> Q \<longleftrightarrow> p_state (procs t p) = PROC_RUNNABLE \<and> p \<noteq> c \<and> p \<noteq> i" for p
    using assms(1,5) by (cases "p = c") (auto simp: sched_inv_def)
  moreover have "current s = Some c" "idleproc s = Some i" "\<forall>p\<in>Q. live p" "c \<noteq> i \<longrightarrow> live c"
    using assms(1) by (simp_all add: sched_inv_def)
  ultimately show ?thesis unfolding sched_inv_def assms(3,4) by blast
qed

lemma wakeup_frame:
  assumes "sched_inv s Q c i" and "wakeup_proc sc p s = Some t" and "p \<noteq> i" and "live p"
  shows "rq_frame (if p_state (procs s p) = PROC_RUNNABLE then s
    else upd_proc p (\<lambda>a. a\<lparr>p_state := PROC_RUNNABLE, p_wait_state := 0\<rparr>) s) t"
proof (cases "p_state (procs s p) = PROC_RUNNABLE \<or> p = c")
  case True
  then show ?thesis using assms by (auto simp: wakeup_proc_def Let_def sched_inv_def split: if_splits)
next
  case False
  let ?s1 = "upd_proc p (\<lambda>a. a\<lparr>p_state := PROC_RUNNABLE, p_wait_state := 0\<rparr>) s"
  have v: "rq_view ?s1 = rq_view s" by (rule rq_view_upd) simp_all
  have a: "rep ?s1 Q" "fresh p ?s1" "p \<notin> Q" "idleproc s = Some i" "current s = Some c"
    using assms(1,3,4) rep_view [OF _ v] fresh_view [OF _ v] False by (auto simp: sched_inv_def)
  have "sc_enqueue sc p ?s1 = Some t"
    using assms(2,3) False a by (auto simp: wakeup_proc_def Let_def sched_class_enqueue_def split: if_splits)
  with enqueue [OF a(1,3) assms(4) a(2)] show ?thesis using False by auto
qed

lemma tick_keeps:
  assumes "sched_inv s Q c i"
  shows "sched_inv (sched_class_proc_tick sc c s) Q c i"
proof -
  obtain g where g: "sched_class_proc_tick sc c s = upd_proc c g s" "\<And>a. p_rq (g a) = p_rq a"
    "\<And>a. p_stride (g a) = p_stride a" "\<And>a. p_priority (g a) = p_priority a"
    "\<And>a. p_state (g a) = p_state a"
  proof (cases "Some c \<noteq> idleproc s")
    case True
    from tick [of c s] obtain ts nr where
      "sc_proc_tick sc c s = upd_proc c (\<lambda>a. a\<lparr>p_time_slice := ts, p_need_resched := nr\<rparr>) s" by blast
    then show ?thesis using that True by (simp add: sched_class_proc_tick_def)
  next
    case False then show ?thesis using that by (simp add: sched_class_proc_tick_def)
  qed
  have v: "rq_view (upd_proc c g s) = rq_view s" by (rule rq_view_upd) (rule g)+
  show ?thesis using assms rep_view [OF _ v] fresh_view [OF _ v] g by (auto simp: sched_inv_def)
qed

end

section \<open>Classes that keep an ordered list\<close>

text \<open>A class that serves the head of a list; \<open>enqueue\<close> may insert anywhere.\<close>

locale list_policy =
  fixes sc :: sched_class
    and qrep :: "kern \<Rightarrow> nat list \<Rightarrow> bool"
    and fresh :: "nat \<Rightarrow> kern \<Rightarrow> bool"
  assumes qrep_view: "qrep s q \<Longrightarrow> rq_view t = rq_view s \<Longrightarrow> qrep t q"
    and list_fresh_view: "fresh p s \<Longrightarrow> rq_view t = rq_view s \<Longrightarrow> fresh p t"
    and qrep_distinct: "qrep s q \<Longrightarrow> distinct q"
    and insert_some: "qrep s q \<Longrightarrow> p \<notin> set q \<Longrightarrow> fresh p s \<Longrightarrow>
        \<exists>us vs t. q = us @ vs \<and> sc_enqueue sc p s = Some t \<and> qrep t (us @ p # vs) \<and> rq_frame s t
          \<and> (\<forall>r. r \<noteq> p \<longrightarrow> fresh r s \<longrightarrow> fresh r t)"
    and pick_empty: "qrep s [] \<Longrightarrow> sc_pick_next sc s = Some (None, s)"
    and pick_head: "qrep s (p # q) \<Longrightarrow> sc_pick_next sc s = Some (Some p, s) \<and>
        (\<exists>u. sc_dequeue sc p s = Some u \<and> qrep u q \<and> rq_frame s u \<and> fresh p u
          \<and> (\<forall>r. fresh r s \<longrightarrow> fresh r u))"
    and list_tick: "\<exists>ts nr. sc_proc_tick sc p s
        = upd_proc p (\<lambda>a. a\<lparr>p_time_slice := ts, p_need_resched := nr\<rparr>) s"

sublocale list_policy \<subseteq> sched_policy sc "\<lambda>s Q. \<exists>q. qrep s q \<and> Q = set q" fresh "\<lambda>_. True"
proof
  fix s t :: kern and Q p
  show "\<exists>q. qrep s q \<and> Q = set q \<Longrightarrow> rq_view t = rq_view s \<Longrightarrow> \<exists>q. qrep t q \<and> Q = set q"
    using qrep_view by blast
  show "fresh p s \<Longrightarrow> rq_view t = rq_view s \<Longrightarrow> fresh p t" by (rule list_fresh_view)
  show "\<exists>ts nr. sc_proc_tick sc p s
      = upd_proc p (\<lambda>a. a\<lparr>p_time_slice := ts, p_need_resched := nr\<rparr>) s" by (rule list_tick)
  show "\<exists>q. qrep s q \<and> {} = set q \<Longrightarrow> sc_pick_next sc s = Some (None, s)"
    using pick_empty by auto
next
  fix s :: kern and Q p
  assume "\<exists>q. qrep s q \<and> Q = set q" and p: "p \<notin> Q" "fresh p s"
  then obtain q where q: "qrep s q" "Q = set q" by blast
  with p insert_some [of s q p] obtain us vs t where "q = us @ vs" "sc_enqueue sc p s = Some t"
    "qrep t (us @ p # vs)" "rq_frame s t" "\<forall>r. r \<noteq> p \<longrightarrow> fresh r s \<longrightarrow> fresh r t" by blast
  then show "\<exists>t. sc_enqueue sc p s = Some t \<and> (\<exists>q. qrep t q \<and> insert p Q = set q) \<and> rq_frame s t
      \<and> (\<forall>r. r \<noteq> p \<longrightarrow> fresh r s \<longrightarrow> fresh r t)"
    using q(2) by (intro exI [of _ t]) (auto intro!: exI [of _ "us @ p # vs"])
next
  fix s :: kern and Q
  assume "\<exists>q. qrep s q \<and> Q = set q" and "Q \<noteq> {}"
  then obtain p q where q: "qrep s (p # q)" "Q = set (p # q)" by (metis list.exhaust set_empty)
  from pick_head [OF q(1)] obtain u where u: "sc_pick_next sc s = Some (Some p, s)"
    "sc_dequeue sc p s = Some u" "qrep u q" "rq_frame s u" "fresh p u" "\<forall>r. fresh r s \<longrightarrow> fresh r u"
    by blast
  have "Q - {p} = set q" using qrep_distinct [OF q(1)] q(2) by auto
  with u q(2) show "\<exists>p t u. p \<in> Q \<and> sc_pick_next sc s = Some (Some p, t) \<and> sc_dequeue sc p t = Some u
      \<and> (\<exists>q. qrep u q \<and> Q - {p} = set q) \<and> rq_frame s u \<and> fresh p u
      \<and> (\<forall>q. q \<notin> Q \<longrightarrow> fresh q s \<longrightarrow> fresh q u)"
    by (intro exI [of _ p] exI [of _ s] exI [of _ u]) auto
qed

context list_policy begin

definition list_inv :: "kern \<Rightarrow> nat list \<Rightarrow> nat \<Rightarrow> nat \<Rightarrow> bool" where
  "list_inv s q c i \<longleftrightarrow> qrep s q \<and> sched_inv s (set q) c i"

text \<open>The state in which \<open>schedule\<close> picks the next process: the running one is back in the list.\<close>

lemma requeue_list:
  assumes "list_inv s q c i"
  defines "run \<equiv> p_state (procs s c) = PROC_RUNNABLE"
  shows "\<exists>s2 r. (if run then sched_class_enqueue sc c (upd_proc c (\<lambda>a. a\<lparr>p_need_resched := False\<rparr>) s)
        else Some (upd_proc c (\<lambda>a. a\<lparr>p_need_resched := False\<rparr>) s)) = Some s2
     \<and> qrep s2 r \<and> idleproc s2 = Some i \<and> current s2 = Some c
     \<and> (\<forall>p. p_priority (procs s2 p) = p_priority (procs s p))
     \<and> (if run \<and> c \<noteq> i then \<exists>us vs. q = us @ vs \<and> r = us @ c # vs else r = q)"
proof -
  have q: "qrep s q" and inv: "sched_inv s (set q) c i"
    using assms(1) by (simp_all add: list_inv_def)
  have c: "current s = Some c" "idleproc s = Some i" "c \<notin> set q"
    "\<And>p. p \<notin> set q \<Longrightarrow> p \<noteq> i \<Longrightarrow> fresh p s"
    using inv by (auto simp: sched_inv_def)
  let ?s1 = "upd_proc c (\<lambda>a. a\<lparr>p_need_resched := False\<rparr>) s"
  have v: "rq_view ?s1 = rq_view s" by (rule rq_view_upd) simp_all
  show ?thesis
  proof (cases "run \<and> c \<noteq> i")
    case True
    then have f: "fresh c ?s1" using c fresh_view [OF _ v] by simp
    obtain us vs t where t: "q = us @ vs" "sc_enqueue sc c ?s1 = Some t" "qrep t (us @ c # vs)"
      "rq_frame ?s1 t"
      using insert_some [OF qrep_view [OF q v] c(3) f] by blast
    have "\<forall>p. p_priority (procs t p) = p_priority (procs s p)"
      using rq_frame_procs(6) [OF t(4)] by simp
    then show ?thesis
      using True c t rq_frame_kern(1,2) [OF t(4)]
      by (intro exI [of _ t] exI [of _ "us @ c # vs"]) (auto simp: sched_class_enqueue_def)
  next
    case False
    then show ?thesis
      using c qrep_view [OF q v]
      by (intro exI [of _ ?s1] exI [of _ q]) (auto simp: sched_class_enqueue_def)
  qed
qed

lemma schedule_head:
  assumes inv: "sched_inv s (set q) c i"
    and s2: "(if p_state (procs s c) = PROC_RUNNABLE
        then sched_class_enqueue sc c (upd_proc c (\<lambda>a. a\<lparr>p_need_resched := False\<rparr>) s)
        else Some (upd_proc c (\<lambda>a. a\<lparr>p_need_resched := False\<rparr>) s)) = Some s2"
      "qrep s2 r" "idleproc s2 = Some i" "current s2 = Some c"
    and r: "set r = (if p_state (procs s c) = PROC_RUNNABLE \<and> c \<noteq> i then insert c (set q) else set q)"
  shows "\<exists>t. schedule sc s = Some t \<and> (\<forall>p. p_state (procs t p) = p_state (procs s p))
     \<and> (case r of [] \<Rightarrow> list_inv t [] i i | n # r' \<Rightarrow> list_inv t r' n i)"
proof -
  have c: "current s = Some c" using inv by (simp add: sched_inv_def)
  have sch: "schedule sc s = do {
      (x, s3) \<leftarrow> sc_pick_next sc s2;
      s4 \<leftarrow> (case x of Some p \<Rightarrow> sc_dequeue sc p s3 | None \<Rightarrow> Some s3);
      n \<leftarrow> (case x of Some p \<Rightarrow> Some p | None \<Rightarrow> idleproc s4);
      let s5 = upd_proc n (\<lambda>a. a\<lparr>p_runs := p_runs a + 1\<rparr>) s4;
      if Some n \<noteq> current s5 then proc_run n s5 else Some s5}"
    unfolding schedule_def sched_class_pick_next_def sched_class_dequeue_def
    using s2(1) c(1) by (simp add: Let_def)
  obtain n r' s4 where n: "schedule sc s = (let s5 = upd_proc n (\<lambda>a. a\<lparr>p_runs := p_runs a + 1\<rparr>) s4
      in if n \<noteq> c then proc_run n s5 else Some s5)" "qrep s4 r'" "current s4 = Some c"
    "case r of [] \<Rightarrow> n = i \<and> r' = [] | p # ps \<Rightarrow> n = p \<and> r' = ps"
  proof (cases r)
    case Nil
    then show ?thesis using that [of i s2 "[]"] s2 sch pick_empty by (simp add: Let_def)
  next
    case (Cons p ps)
    then obtain u where "sc_pick_next sc s2 = Some (Some p, s2)" "sc_dequeue sc p s2 = Some u"
      "qrep u ps" "rq_frame s2 u" using pick_head [of s2 p ps] s2(2) by auto
    then show ?thesis
      using that [of p u ps] s2 sch Cons rq_frame_kern(1) [of s2 u] by (simp add: Let_def)
  qed
  let ?s5 = "upd_proc n (\<lambda>a. a\<lparr>p_runs := p_runs a + 1\<rparr>) s4"
  have v5: "rq_view ?s5 = rq_view s4" by (rule rq_view_upd) simp_all
  obtain t where t: "schedule sc s = Some t" "current t = Some n" "rq_view t = rq_view s4"
    using n(1,3) v5 proc_run_new [of ?s5 c n] by (cases "n = c") (auto simp: Let_def)
  obtain m where m: "sched_inv t (set r - {m}) m i" "\<forall>p. p_state (procs t p) = p_state (procs s p)"
    using schedule_steps [OF inv, folded r] t(1) by auto
  then have "m = n" using t(2) by (simp add: sched_inv_def)
  then have "sched_inv t (set r - {n}) n i" using m(1) by simp
  moreover have "set r - {n} = set r'"
    using n(4) qrep_distinct [OF s2(2)] by (cases r) auto
  ultimately have "list_inv t r' n i" using qrep_view [OF n(2) t(3)] by (simp add: list_inv_def)
  then show ?thesis using t(1) m(2) n(4) by (cases r) auto
qed

end

text \<open>A first-in first-out class.\<close>

locale queue_policy = list_policy +
  assumes enqueue_back: "qrep s q \<Longrightarrow> p \<notin> set q \<Longrightarrow> fresh p s \<Longrightarrow>
      \<exists>t. sc_enqueue sc p s = Some t \<and> qrep t (q @ [p])"
begin

lemma schedule_queue:
  assumes "list_inv s q c i"
  defines "r \<equiv> (if p_state (procs s c) = PROC_RUNNABLE \<and> c \<noteq> i then q @ [c] else q)"
  shows "\<exists>t. schedule sc s = Some t \<and> (\<forall>p. p_state (procs t p) = p_state (procs s p))
     \<and> (case r of [] \<Rightarrow> list_inv t [] i i | n # r' \<Rightarrow> list_inv t r' n i)"
proof -
  let ?s1 = "upd_proc c (\<lambda>a. a\<lparr>p_need_resched := False\<rparr>) s"
  have q: "qrep s q" and inv: "sched_inv s (set q) c i"
    using assms(1) by (simp_all add: list_inv_def)
  obtain s2 r2 where s2: "(if p_state (procs s c) = PROC_RUNNABLE then sched_class_enqueue sc c ?s1
      else Some ?s1) = Some s2" "qrep s2 r2" "idleproc s2 = Some i" "current s2 = Some c"
    "if p_state (procs s c) = PROC_RUNNABLE \<and> c \<noteq> i then \<exists>us vs. q = us @ vs \<and> r2 = us @ c # vs else r2 = q"
    using requeue_list [OF assms(1)] by blast
  have "qrep s2 r"
  proof (cases "p_state (procs s c) = PROC_RUNNABLE \<and> c \<noteq> i")
    case True
    have v: "rq_view ?s1 = rq_view s" by (rule rq_view_upd) simp_all
    have "c \<notin> set q" "fresh c ?s1" "idleproc s = Some i"
      using inv True fresh_view [OF _ v] by (auto simp: sched_inv_def)
    then have "\<exists>t. sc_enqueue sc c ?s1 = Some t \<and> qrep t (q @ [c])"
      using enqueue_back [OF qrep_view [OF q v]] by blast
    then show ?thesis
      using s2(1) True \<open>idleproc s = Some i\<close> by (auto simp: sched_class_enqueue_def r_def)
  next
    case False
    then show ?thesis using s2(2,5) by (auto simp: r_def)
  qed
  then show ?thesis using schedule_head [OF inv s2(1) _ s2(3,4)] by (auto simp: r_def)
qed

lemma wakeup_queue:
  assumes "list_inv s q c i" and "p_state (procs s p) \<noteq> PROC_ZOMBIE"
    and "p_state (procs s p) \<noteq> PROC_RUNNABLE" and "p \<noteq> i" and "p \<noteq> c"
  shows "\<exists>t. wakeup_proc sc p s = Some t \<and> list_inv t (q @ [p]) c i
     \<and> (\<forall>r. p_state (procs t r) = (if r = p then PROC_RUNNABLE else p_state (procs s r)))
     \<and> p_wait_state (procs t p) = 0"
proof -
  have q: "qrep s q" and inv: "sched_inv s (set q) c i"
    using assms(1) by (simp_all add: list_inv_def)
  let ?s1 = "upd_proc p (\<lambda>a. a\<lparr>p_state := PROC_RUNNABLE, p_wait_state := 0\<rparr>) s"
  have v: "rq_view ?s1 = rq_view s" by (rule rq_view_upd) simp_all
  have a: "p \<notin> set q" "fresh p ?s1" "idleproc s = Some i" "current s = Some c"
    using inv assms fresh_view [OF _ v] by (auto simp: sched_inv_def)
  obtain t where t: "sc_enqueue sc p ?s1 = Some t" "qrep t (q @ [p])"
    using enqueue_back [OF qrep_view [OF q v] a(1,2)] by blast
  obtain us vs where "rq_frame ?s1 t"
    using insert_some [OF qrep_view [OF q v] a(1,2)] t(1) by auto
  then have "p_wait_state (procs t p) = 0" using rq_frame_procs(3) [of ?s1 t p] by simp
  moreover have "wakeup_proc sc p s = Some t"
    using assms a t(1) by (simp add: wakeup_proc_def Let_def sched_class_enqueue_def)
  ultimately show ?thesis
    using wakeup_steps [OF inv assms(2,4)] assms(5) t(2) by (auto simp: list_inv_def)
qed

end

text \<open>\<open>schedule_times k\<close>: the scheduler runs \<open>k\<close> times while no process changes its state.\<close>

fun schedule_times :: "sched_class \<Rightarrow> nat \<Rightarrow> kern \<Rightarrow> kern option" where
  "schedule_times sc 0 s = Some s"
| "schedule_times sc (Suc k) s = Option.bind (schedule sc s) (schedule_times sc k)"

context queue_policy begin

lemma runs_in_turn:
  assumes "list_inv s (us @ p # vs) c i" and "p_state (procs s c) = PROC_RUNNABLE" and "c \<noteq> i"
  shows "\<exists>t. schedule_times sc (Suc (length us)) s = Some t \<and> current t = Some p"
  using assms
proof (induction us arbitrary: s c vs)
  case Nil
  then obtain t where "schedule sc s = Some t" "list_inv t (vs @ [c]) p i"
    using schedule_queue [of s "p # vs" c i] by auto
  then show ?case by (auto simp: list_inv_def sched_inv_def)
next
  case (Cons u us)
  obtain t where t: "schedule sc s = Some t" "list_inv t (us @ p # vs @ [c]) u i"
    "\<forall>p. p_state (procs t p) = p_state (procs s p)"
    using schedule_queue [OF Cons.prems(1)] Cons.prems(2,3) by auto
  have "u \<in> set ((u # us) @ p # vs)" by simp
  then have u: "p_state (procs s u) = PROC_RUNNABLE" "u \<noteq> i"
    using Cons.prems(1) unfolding list_inv_def sched_inv_def by blast+
  with Cons.IH [OF t(2)] t(1,3) show ?case by simp
qed

end

end
