(* ===== verification/Sched_Lists.thy ===== *)
theory Sched_Lists
  imports Sched
begin

text \<open>
  The scheduling classes that keep the run queue as a list: round robin
  (\<open>lab8/kern/schedule/default_sched.c\<close>), FIFO and shortest job first
  (\<open>lab6/kern/schedule/sched_fifo.c\<close>, \<open>sched_sjf.c\<close>).  All three fulfil the contract
  \<open>sched_policy\<close>; round robin and FIFO also fulfil the queue contract \<open>queue_policy\<close>, from
  which the rotation of the run queue and the bound on a process's wait follow.
\<close>

section \<open>default\_sched.c\<close>

definition RR_init :: "kern \<Rightarrow> kern" where
  "RR_init s = (upd_run_links (list_init RunList) s)\<lparr>proc_num := 0\<rparr>"

definition RR_enqueue :: "nat \<Rightarrow> kern \<Rightarrow> kern option" where
  "RR_enqueue p s = do {
     kassert (list_empty (RunLink p) (run_links s));
     let s1 = upd_run_links (list_add_before RunList (RunLink p)) s;
     let s2 = (if p_time_slice (procs s1 p) = 0 \<or> max_time_slice s1 < p_time_slice (procs s1 p)
               then upd_proc p (\<lambda>a. a\<lparr>p_time_slice := max_time_slice s1\<rparr>) s1 else s1);
     let s3 = upd_proc p (\<lambda>a. a\<lparr>p_rq := TheRq\<rparr>) s2;
     Some (s3\<lparr>proc_num := u32 (proc_num s3 + 1)\<rparr>)
   }"

definition RR_dequeue :: "nat \<Rightarrow> kern \<Rightarrow> kern option" where
  "RR_dequeue p s = do {
     kassert (\<not> list_empty (RunLink p) (run_links s) \<and> p_rq (procs s p) = TheRq);
     let s1 = upd_run_links (list_del_init (RunLink p)) s;
     Some (s1\<lparr>proc_num := sub32 (proc_num s1) 1\<rparr>)
   }"

fun le2proc :: "rnode \<Rightarrow> nat" where
  "le2proc (RunLink p) = p"

definition RR_pick_next :: "kern \<Rightarrow> (nat option \<times> kern) option" where
  "RR_pick_next s =
     (let le = list_next RunList (run_links s)
      in if le \<noteq> RunList then Some (Some (le2proc le), s) else Some (None, s))"

definition RR_proc_tick :: "nat \<Rightarrow> kern \<Rightarrow> kern" where
  "RR_proc_tick p s =
     (let s1 = (if 0 < p_time_slice (procs s p)
                then upd_proc p (\<lambda>a. a\<lparr>p_time_slice := p_time_slice a - 1\<rparr>) s else s)
      in if p_time_slice (procs s1 p) = 0
         then upd_proc p (\<lambda>a. a\<lparr>p_need_resched := True\<rparr>) s1 else s1)"

definition default_sched_class :: sched_class where
  "default_sched_class = \<lparr>sc_name = ''RR_scheduler'', sc_init = RR_init, sc_enqueue = RR_enqueue,
     sc_dequeue = RR_dequeue, sc_pick_next = RR_pick_next, sc_proc_tick = RR_proc_tick\<rparr>"

section \<open>sched\_fifo.c\<close>

definition FIFO_init :: "kern \<Rightarrow> kern" where
  "FIFO_init s = (upd_run_links (list_init RunList) s)\<lparr>proc_num := 0\<rparr>"

definition FIFO_enqueue :: "nat \<Rightarrow> kern \<Rightarrow> kern option" where
  "FIFO_enqueue p s = do {
     kassert (list_empty (RunLink p) (run_links s));
     let s1 = upd_run_links (list_add_before RunList (RunLink p)) s;
     let s2 = (if p_time_slice (procs s1 p) = 0 \<or> max_time_slice s1 < p_time_slice (procs s1 p)
               then upd_proc p (\<lambda>a. a\<lparr>p_time_slice := max_time_slice s1\<rparr>) s1 else s1);
     let s3 = upd_proc p (\<lambda>a. a\<lparr>p_rq := TheRq\<rparr>) s2;
     Some (s3\<lparr>proc_num := u32 (proc_num s3 + 1)\<rparr>)
   }"

definition FIFO_dequeue :: "nat \<Rightarrow> kern \<Rightarrow> kern option" where
  "FIFO_dequeue p s = do {
     kassert (\<not> list_empty (RunLink p) (run_links s) \<and> p_rq (procs s p) = TheRq);
     let s1 = upd_run_links (list_del_init (RunLink p)) s;
     Some (s1\<lparr>proc_num := sub32 (proc_num s1) 1\<rparr>)
   }"

definition FIFO_pick_next :: "kern \<Rightarrow> (nat option \<times> kern) option" where
  "FIFO_pick_next s =
     (let le = list_next RunList (run_links s)
      in if le \<noteq> RunList then Some (Some (le2proc le), s) else Some (None, s))"

definition FIFO_proc_tick :: "nat \<Rightarrow> kern \<Rightarrow> kern" where
  "FIFO_proc_tick p s = s"

definition fifo_sched_class :: sched_class where
  "fifo_sched_class = \<lparr>sc_name = ''FIFO_scheduler'', sc_init = FIFO_init, sc_enqueue = FIFO_enqueue,
     sc_dequeue = FIFO_dequeue, sc_pick_next = FIFO_pick_next, sc_proc_tick = FIFO_proc_tick\<rparr>"

section \<open>sched\_sjf.c\<close>

definition SJF_init :: "kern \<Rightarrow> kern" where
  "SJF_init s = (upd_run_links (list_init RunList) s)\<lparr>proc_num := 0\<rparr>"

text \<open>The scan for the first queued process with a strictly larger priority value.\<close>

partial_function (option) SJF_scan :: "nat \<Rightarrow> rnode \<Rightarrow> kern \<Rightarrow> rnode option" where
  "SJF_scan p le s =
     (if le = RunList then Some le
      else if p_priority (procs s p) < p_priority (procs s (le2proc le)) then Some le
      else SJF_scan p (list_next le (run_links s)) s)"

definition SJF_enqueue :: "nat \<Rightarrow> kern \<Rightarrow> kern option" where
  "SJF_enqueue p s = do {
     kassert (list_empty (RunLink p) (run_links s));
     le \<leftarrow> SJF_scan p (list_next RunList (run_links s)) s;
     let s1 = upd_run_links (list_add_before le (RunLink p)) s;
     let s2 = (if p_time_slice (procs s1 p) = 0 \<or> max_time_slice s1 < p_time_slice (procs s1 p)
               then upd_proc p (\<lambda>a. a\<lparr>p_time_slice := max_time_slice s1\<rparr>) s1 else s1);
     let s3 = upd_proc p (\<lambda>a. a\<lparr>p_rq := TheRq\<rparr>) s2;
     Some (s3\<lparr>proc_num := u32 (proc_num s3 + 1)\<rparr>)
   }"

definition SJF_dequeue :: "nat \<Rightarrow> kern \<Rightarrow> kern option" where
  "SJF_dequeue p s = do {
     kassert (\<not> list_empty (RunLink p) (run_links s) \<and> p_rq (procs s p) = TheRq);
     let s1 = upd_run_links (list_del_init (RunLink p)) s;
     Some (s1\<lparr>proc_num := sub32 (proc_num s1) 1\<rparr>)
   }"

definition SJF_pick_next :: "kern \<Rightarrow> (nat option \<times> kern) option" where
  "SJF_pick_next s =
     (let le = list_next RunList (run_links s)
      in if le \<noteq> RunList then Some (Some (le2proc le), s) else Some (None, s))"

definition SJF_proc_tick :: "nat \<Rightarrow> kern \<Rightarrow> kern" where
  "SJF_proc_tick p s = s"

definition sjf_sched_class :: sched_class where
  "sjf_sched_class = \<lparr>sc_name = ''SJF_scheduler'', sc_init = SJF_init, sc_enqueue = SJF_enqueue,
     sc_dequeue = SJF_dequeue, sc_pick_next = SJF_pick_next, sc_proc_tick = SJF_proc_tick\<rparr>"

section \<open>The run list and what the shared operations do to it\<close>

definition rq_list :: "kern \<Rightarrow> nat list \<Rightarrow> bool" where
  "rq_list s q \<longleftrightarrow> clist (run_links s) RunList (map RunLink q) \<and> proc_num s = u32 (length q)
     \<and> (\<forall>p\<in>set q. p_rq (procs s p) = TheRq)"

definition unlinked :: "nat \<Rightarrow> kern \<Rightarrow> bool" where
  "unlinked p s \<longleftrightarrow> list_empty (RunLink p) (run_links s)"

lemma rq_list_view: "rq_list s q \<Longrightarrow> rq_view t = rq_view s \<Longrightarrow> rq_list t q"
  unfolding rq_list_def rq_view_def by (auto simp: fun_eq_iff)

lemma unlinked_view: "unlinked p s \<Longrightarrow> rq_view t = rq_view s \<Longrightarrow> unlinked p t"
  by (simp add: unlinked_def rq_view_def)

lemma rq_list_distinct: "rq_list s q \<Longrightarrow> distinct q"
  by (auto simp: rq_list_def clist_def distinct_map)

lemma rq_list_linked:
  assumes "rq_list s q" and "p \<in> set q"
  shows "\<not> unlinked p s"
  using assms clist_node_nonempty [of "run_links s" RunList "map RunLink q" "RunLink p"]
  by (simp add: rq_list_def unlinked_def)

definition link_at :: "rnode \<Rightarrow> nat \<Rightarrow> kern \<Rightarrow> kern" where
  "link_at le p s =
     (let s1 = upd_run_links (list_add_before le (RunLink p)) s;
          s2 = (if p_time_slice (procs s1 p) = 0 \<or> max_time_slice s1 < p_time_slice (procs s1 p)
                then upd_proc p (\<lambda>a. a\<lparr>p_time_slice := max_time_slice s1\<rparr>) s1 else s1);
          s3 = upd_proc p (\<lambda>a. a\<lparr>p_rq := TheRq\<rparr>) s2
      in s3\<lparr>proc_num := u32 (proc_num s3 + 1)\<rparr>)"

definition unlink_proc :: "nat \<Rightarrow> kern \<Rightarrow> kern" where
  "unlink_proc p s =
     (let s1 = upd_run_links (list_del_init (RunLink p)) s
      in s1\<lparr>proc_num := sub32 (proc_num s1) 1\<rparr>)"

lemma u32_Suc: "u32 (Suc (u32 n)) = u32 (Suc n)"
  by (simp add: u32_def mod_Suc_eq)

lemma sub32_u32_1: "sub32 (u32 (Suc n)) 1 = u32 n"
proof -
  have "(4294967295 + Suc n mod 4294967296) mod 4294967296 = (4294967295 + Suc n) mod 4294967296"
    by (rule mod_add_right_eq)
  also have "\<dots> = n mod 4294967296" by simp
  finally show ?thesis by (simp add: sub32_def u32_def)
qed

lemma head_node:
  assumes "rq_list s q"
  shows "list_next RunList (run_links s) = (case q of [] \<Rightarrow> RunList | p # _ \<Rightarrow> RunLink p)"
  using assms clist_head_next [of "run_links s" RunList "map RunLink q"]
  by (cases q) (auto simp: rq_list_def list_next_def)

lemma link_at_rest:
  "rq_frame s (link_at le p s)"
  "procs (link_at le p s) q = (if q = p then (procs s p)\<lparr>p_rq := TheRq, p_time_slice :=
     (if p_time_slice (procs s p) = 0 \<or> max_time_slice s < p_time_slice (procs s p)
      then max_time_slice s else p_time_slice (procs s p))\<rparr> else procs s q)"
  "run_links (link_at le p s) = list_add_before le (RunLink p) (run_links s)"
  by (simp_all add: link_at_def Let_def)
    (auto simp: rq_frame_def rest_of_def upd_proc_def upd_run_links_def proc_core_def fun_eq_iff)

lemma link_at_ok:
  assumes l: "rq_list s (us @ vs)" and p: "p \<notin> set (us @ vs)"
    and le: "le = (case vs of [] \<Rightarrow> RunList | v # _ \<Rightarrow> RunLink v)"
  shows "rq_list (link_at le p s) (us @ p # vs)"
    and "q \<noteq> p \<Longrightarrow> unlinked q s \<Longrightarrow> unlinked q (link_at le p s)"
proof -
  have c: "clist (run_links s) RunList (map RunLink us @ map RunLink vs)"
    and n: "proc_num s = u32 (length (us @ vs))"
    using l by (simp_all add: rq_list_def)
  have h: "le = hd (map RunLink vs @ [RunList])" using le by (cases vs) auto
  have "clist (list_add_before le (RunLink p) (run_links s)) RunList
      (map RunLink us @ RunLink p # map RunLink vs)"
    by (rule clist_list_add_before [OF c _ h]) (use p in auto)
  then show "rq_list (link_at le p s) (us @ p # vs)"
    using l n by (auto simp: rq_list_def link_at_rest) (simp_all add: link_at_def Let_def u32_Suc)
  assume q: "q \<noteq> p" "unlinked q s"
  then have "q \<notin> set (us @ vs)" using rq_list_linked [OF l] by blast
  then show "unlinked q (link_at le p s)"
    using q lnext_add_before_other [OF c h, of "RunLink q" "RunLink p"]
    by (auto simp: unlinked_def list_empty_def link_at_rest)
qed

lemma unlink_rest:
  "rq_frame s (unlink_proc p s)" "procs (unlink_proc p s) = procs s"
  "run_links (unlink_proc p s) = list_del_init (RunLink p) (run_links s)"
  "proc_num (unlink_proc p s) = sub32 (proc_num s) 1"
  by (simp_all add: unlink_proc_def Let_def)
    (simp add: rq_frame_def rest_of_def upd_run_links_def)

lemma unlink_ok:
  assumes l: "rq_list s (us @ p # vs)"
  shows "rq_list (unlink_proc p s) (us @ vs)" and "unlinked p (unlink_proc p s)"
    and "unlinked q s \<Longrightarrow> unlinked q (unlink_proc p s)"
    and "\<not> list_empty (RunLink p) (run_links s) \<and> p_rq (procs s p) = TheRq"
proof -
  have c: "clist (run_links s) RunList (map RunLink us @ RunLink p # map RunLink vs)"
    and n: "proc_num s = u32 (Suc (length (us @ vs)))"
    using l by (simp_all add: rq_list_def)
  note d = clist_list_del_init [OF c]
  show "rq_list (unlink_proc p s) (us @ vs)"
    using l d(1) n sub32_u32_1 [of "length (us @ vs)"] by (simp add: rq_list_def unlink_rest)
  show "unlinked p (unlink_proc p s)" using d(2) by (simp add: unlinked_def unlink_rest)
  show "\<not> list_empty (RunLink p) (run_links s) \<and> p_rq (procs s p) = TheRq"
    using rq_list_linked [OF l, of p] l by (simp add: unlinked_def rq_list_def)
  assume q: "unlinked q s"
  then have "q \<notin> set (us @ p # vs)" using rq_list_linked [OF l] by blast
  then show "unlinked q (unlink_proc p s)"
    using q lnext_del_init_other [OF c, of "RunLink q"]
    by (auto simp: unlinked_def list_empty_def unlink_rest)
qed

lemma RR_enqueue_eq: "RR_enqueue p s
    = (if unlinked p s then Some (link_at RunList p s) else None)"
  by (simp add: RR_enqueue_def bind_kassert_if unlinked_def link_at_def Let_def)

lemma FIFO_eq: "FIFO_enqueue = RR_enqueue" "FIFO_dequeue = RR_dequeue" "FIFO_pick_next = RR_pick_next"
  "SJF_dequeue = RR_dequeue" "SJF_pick_next = RR_pick_next" "FIFO_init = RR_init" "SJF_init = RR_init"
  by (auto simp: fun_eq_iff RR_enqueue_def FIFO_enqueue_def RR_dequeue_def FIFO_dequeue_def
      SJF_dequeue_def RR_pick_next_def FIFO_pick_next_def SJF_pick_next_def RR_init_def FIFO_init_def
      SJF_init_def)

lemma RR_dequeue_eq: "RR_dequeue p s
    = (if \<not> unlinked p s \<and> p_rq (procs s p) = TheRq then Some (unlink_proc p s) else None)"
  by (simp add: RR_dequeue_def bind_kassert_if unlinked_def unlink_proc_def Let_def)

lemma RR_pick_eq: "rq_list s q \<Longrightarrow>
    RR_pick_next s = Some (case q of [] \<Rightarrow> None | p # _ \<Rightarrow> Some p, s)"
  by (cases q) (simp_all add: RR_pick_next_def head_node)

lemma RR_tick_eq: "\<exists>ts nr. RR_proc_tick p s
    = upd_proc p (\<lambda>a. a\<lparr>p_time_slice := ts, p_need_resched := nr\<rparr>) s"
proof -
  let ?ts = "if 0 < p_time_slice (procs s p) then p_time_slice (procs s p) - 1
    else p_time_slice (procs s p)"
  have "RR_proc_tick p s = upd_proc p (\<lambda>a. a\<lparr>p_time_slice := ?ts,
      p_need_resched := (if ?ts = 0 then True else p_need_resched (procs s p))\<rparr>) s"
    by (auto simp: RR_proc_tick_def Let_def upd_proc_def intro!: kern.equality)
  then show ?thesis by blast
qed

lemma no_tick_eq: "\<exists>ts nr. s = upd_proc p (\<lambda>a. a\<lparr>p_time_slice := ts, p_need_resched := nr\<rparr>) s"
  by (intro exI [of _ "p_time_slice (procs s p)"] exI [of _ "p_need_resched (procs s p)"])
    (simp add: upd_proc_def)

section \<open>Round robin and FIFO fulfil the queue contract\<close>

lemma class_sel [simp]:
  "sc_enqueue default_sched_class = RR_enqueue" "sc_dequeue default_sched_class = RR_dequeue"
  "sc_pick_next default_sched_class = RR_pick_next" "sc_proc_tick default_sched_class = RR_proc_tick"
  "sc_enqueue fifo_sched_class = RR_enqueue" "sc_dequeue fifo_sched_class = RR_dequeue"
  "sc_pick_next fifo_sched_class = RR_pick_next" "sc_proc_tick fifo_sched_class = FIFO_proc_tick"
  "sc_enqueue sjf_sched_class = SJF_enqueue" "sc_dequeue sjf_sched_class = RR_dequeue"
  "sc_pick_next sjf_sched_class = RR_pick_next" "sc_proc_tick sjf_sched_class = SJF_proc_tick"
  by (simp_all add: default_sched_class_def fifo_sched_class_def sjf_sched_class_def FIFO_eq)

lemma RR_insert:
  assumes "rq_list s q" and "p \<notin> set q" and "unlinked p s"
  shows "RR_enqueue p s = Some (link_at RunList p s)" "rq_list (link_at RunList p s) (q @ [p])"
    "rq_frame s (link_at RunList p s)" "r \<noteq> p \<Longrightarrow> unlinked r s \<Longrightarrow> unlinked r (link_at RunList p s)"
  using link_at_ok [of s q "[]" p RunList] link_at_rest(1) assms by (simp_all add: RR_enqueue_eq)

lemma RR_remove:
  assumes "rq_list s (p # q)"
  shows "RR_pick_next s = Some (Some p, s)" "RR_dequeue p s = Some (unlink_proc p s)"
    "rq_list (unlink_proc p s) q" "rq_frame s (unlink_proc p s)" "unlinked p (unlink_proc p s)"
    "unlinked r s \<Longrightarrow> unlinked r (unlink_proc p s)"
  using unlink_ok [of s "[]" p q] assms RR_pick_eq [OF assms] unlink_rest(1)
  by (simp_all add: RR_dequeue_eq unlinked_def)

interpretation rr: queue_policy default_sched_class rq_list unlinked
proof (unfold_locales, goal_cases)
  case (4 s q p)
  then show ?case using RR_insert [of s q p] by (intro exI [of _ q] exI [of _ "[]"]) auto
next
  case (6 s p q)
  then show ?case using RR_remove [of s p q] by simp
qed (auto intro: rq_list_view unlinked_view rq_list_distinct RR_tick_eq simp: RR_pick_eq
    RR_insert)

interpretation fifo: queue_policy fifo_sched_class rq_list unlinked
proof (unfold_locales, goal_cases)
  case (4 s q p)
  then show ?case using RR_insert [of s q p] by (intro exI [of _ q] exI [of _ "[]"]) auto
next
  case (6 s p q)
  then show ?case using RR_remove [of s p q] by simp
qed (auto intro: rq_list_view unlinked_view rq_list_distinct no_tick_eq simp: RR_pick_eq
    RR_insert FIFO_proc_tick_def)

section \<open>Shortest job first keeps the run list sorted\<close>

definition sjf_list :: "kern \<Rightarrow> nat list \<Rightarrow> bool" where
  "sjf_list s q \<longleftrightarrow> rq_list s q \<and> sorted_wrt (\<lambda>a b. p_priority (procs s a) \<le> p_priority (procs s b)) q"

definition node_of :: "nat list \<Rightarrow> rnode" where
  "node_of vs = (case vs of [] \<Rightarrow> RunList | v # _ \<Rightarrow> RunLink v)"

lemma next_of_node:
  assumes "rq_list s (us @ v # vs)"
  shows "list_next (RunLink v) (run_links s) = node_of vs"
  using assms clist_mid_next [of "run_links s" RunList "map RunLink us" "RunLink v" "map RunLink vs"]
  by (cases vs) (auto simp: rq_list_def list_next_def node_of_def)

lemma SJF_scan_result:
  assumes "rq_list s (us @ vs)"
  shows "SJF_scan p (node_of vs) s
     = Some (node_of (dropWhile (\<lambda>x. \<not> p_priority (procs s p) < p_priority (procs s x)) vs))"
  using assms
proof (induction vs arbitrary: us)
  case Nil
  then show ?case by (subst SJF_scan.simps) (simp add: node_of_def)
next
  case (Cons v vs)
  have "SJF_scan p (node_of (v # vs)) s = (if p_priority (procs s p) < p_priority (procs s v)
      then Some (RunLink v) else SJF_scan p (node_of vs) s)"
    by (subst SJF_scan.simps) (simp add: node_of_def next_of_node [OF Cons.prems, unfolded node_of_def])
  then show ?case using Cons.IH [of "us @ [v]"] Cons.prems by (auto simp: node_of_def)
qed

lemma SJF_insert:
  assumes q: "sjf_list s q" and p: "p \<notin> set q" "unlinked p s"
  defines "us \<equiv> takeWhile (\<lambda>x. p_priority (procs s x) \<le> p_priority (procs s p)) q"
    and "vs \<equiv> dropWhile (\<lambda>x. p_priority (procs s x) \<le> p_priority (procs s p)) q"
  shows "q = us @ vs" and "SJF_enqueue p s = Some (link_at (node_of vs) p s)"
    and "sjf_list (link_at (node_of vs) p s) (us @ p # vs)"
    and "r \<noteq> p \<Longrightarrow> unlinked r s \<Longrightarrow> unlinked r (link_at (node_of vs) p s)"
proof -
  show e: "q = us @ vs" by (simp add: us_def vs_def)
  have l: "rq_list s (us @ vs)" using q e by (simp add: sjf_list_def)
  have "SJF_scan p (node_of q) s = Some (node_of vs)"
    using SJF_scan_result [of s "[]" q p] q by (simp add: sjf_list_def vs_def not_less)
  moreover have "list_next RunList (run_links s) = node_of q"
    using head_node q by (simp add: sjf_list_def node_of_def)
  ultimately show "SJF_enqueue p s = Some (link_at (node_of vs) p s)"
    using p(2) by (simp add: SJF_enqueue_def bind_kassert_if unlinked_def link_at_def Let_def)
  have pp: "p_priority (procs (link_at le p s) x) = p_priority (procs s x)" for le x
    by (simp add: link_at_rest)
  have "rq_list (link_at (node_of vs) p s) (us @ p # vs)"
    by (rule link_at_ok(1) [OF l]) (use p e in \<open>auto simp: node_of_def\<close>)
  moreover have "sorted_wrt (\<lambda>a b. p_priority (procs s a) \<le> p_priority (procs s b)) (us @ p # vs)"
  proof -
    have so: "sorted_wrt (\<lambda>a b. p_priority (procs s a) \<le> p_priority (procs s b)) (us @ vs)"
      using q e by (simp add: sjf_list_def)
    have u: "\<forall>u\<in>set us. p_priority (procs s u) \<le> p_priority (procs s p)"
      by (auto simp: us_def dest: set_takeWhileD)
    have v: "\<forall>v\<in>set vs. p_priority (procs s p) \<le> p_priority (procs s v)"
    proof (cases vs)
      case (Cons w ws)
      then have "p_priority (procs s p) < p_priority (procs s w)"
        using hd_dropWhile [of "\<lambda>x. p_priority (procs s x) \<le> p_priority (procs s p)" q]
        by (simp add: vs_def)
      then show ?thesis using so Cons by (fastforce simp: sorted_wrt_append)
    qed simp
    show ?thesis using so u v by (simp add: sorted_wrt_append)
  qed
  ultimately show "sjf_list (link_at (node_of vs) p s) (us @ p # vs)" by (simp add: sjf_list_def pp)
  show "r \<noteq> p \<Longrightarrow> unlinked r s \<Longrightarrow> unlinked r (link_at (node_of vs) p s)"
    by (rule link_at_ok(2) [OF l]) (use p e in \<open>auto simp: node_of_def\<close>)
qed

interpretation sjf: list_policy sjf_sched_class sjf_list unlinked
proof (unfold_locales, goal_cases)
  case (1 s q t)
  then have "\<And>x. p_priority (procs t x) = p_priority (procs s x)"
    by (auto simp: rq_view_def fun_eq_iff)
  then show ?case using 1 rq_list_view by (auto simp: sjf_list_def)
next
  case (4 s q p)
  show ?case
    using SJF_insert [OF 4] link_at_rest(1)
    by (intro exI conjI [OF _ conjI]) auto
next
  case (6 s p q)
  have "procs (unlink_proc p s) = procs s" by (simp add: unlink_rest)
  then show ?case using 6 RR_remove [of s p q] by (auto simp: sjf_list_def)
qed (auto intro: unlinked_view rq_list_distinct no_tick_eq simp: RR_pick_eq sjf_list_def
    SJF_proc_tick_def)

section \<open>The scheduler over the list classes\<close>

text \<open>The scheduler's invariant for the list classes: the run list \<open>q\<close> holds exactly the runnable
  processes except the running one \<open>c\<close> and the idle one \<open>i\<close>, and no other process is linked.\<close>

definition runq_ok :: "kern \<Rightarrow> nat list \<Rightarrow> nat \<Rightarrow> nat \<Rightarrow> bool" where
  "runq_ok s q c i \<longleftrightarrow> rq_list s q \<and> current s = Some c \<and> idleproc s = Some i
     \<and> (\<forall>p. p \<in> set q \<longleftrightarrow> p_state (procs s p) = PROC_RUNNABLE \<and> p \<noteq> c \<and> p \<noteq> i)
     \<and> (\<forall>p. p \<notin> set q \<longrightarrow> p \<noteq> i \<longrightarrow> unlinked p s)"

lemma list_inv_runq:
  "rr.list_inv s q c i \<longleftrightarrow> runq_ok s q c i" "fifo.list_inv s q c i \<longleftrightarrow> runq_ok s q c i"
  "sjf.list_inv s q c i \<longleftrightarrow> runq_ok s q c i \<and> sjf_list s q"
  unfolding rr.list_inv_def rr.sched_inv_def fifo.list_inv_def fifo.sched_inv_def
    sjf.list_inv_def sjf.sched_inv_def runq_ok_def
  by (auto simp: sjf_list_def)

definition example_procs :: "kern" where
  "example_procs = RR_init (boot_kern\<lparr>current := Some 2, idleproc := Some 1, max_time_slice := 5,
     procs := (\<lambda>p. if p \<in> {2, 3, 4} then zero_proc\<lparr>p_state := PROC_RUNNABLE, p_priority := p\<rparr>
       else zero_proc)\<rparr>)"

lemma RR_init_empty: "rq_list (RR_init s) []"
  using clist_unlinked_init [of RunList "run_links s"] by (simp add: rq_list_def RR_init_def u32_def)

lemma example_runq:
  "\<exists>s. runq_ok s [3, 4] 2 1 \<and> sjf_list s [3, 4] \<and> (\<forall>p. procs s p =
     (if p \<in> {3, 4} then zero_proc\<lparr>p_state := PROC_RUNNABLE, p_priority := p, p_rq := TheRq, p_time_slice := 5\<rparr>
      else procs example_procs p))"
proof -
  let ?s0 = example_procs and ?s1 = "link_at RunList 3 example_procs"
  let ?s2 = "link_at RunList 4 ?s1"
  have u0: "unlinked p ?s0" for p
    by (simp add: example_procs_def RR_init_def unlinked_def list_empty_def list_init_def boot_kern_def)
  have q0: "rq_list ?s0 []" unfolding example_procs_def by (rule RR_init_empty)
  have q1: "rq_list ?s1 [3]" "\<And>r. r \<noteq> 3 \<Longrightarrow> unlinked r ?s1"
    using RR_insert(2,4) [OF q0 _ u0] u0 by simp_all
  have q2: "rq_list ?s2 [3, 4]" "\<And>r. r \<noteq> 3 \<Longrightarrow> r \<noteq> 4 \<Longrightarrow> unlinked r ?s2"
    using RR_insert(2) [OF q1(1), of 4] RR_insert(4) [OF q1(1), of 4] q1(2) by simp_all
  have k: "current ?s0 = Some 2" "idleproc ?s0 = Some 1" "max_time_slice ?s0 = 5"
    "\<And>p. procs ?s0 p = (if p \<in> {2, 3, 4} then zero_proc\<lparr>p_state := PROC_RUNNABLE, p_priority := p\<rparr> else zero_proc)"
    by (simp_all add: example_procs_def RR_init_def boot_kern_def upd_run_links_def)
  have f: "rq_frame ?s0 ?s2" using link_at_rest(1) rq_frame_trans by blast
  have "procs ?s2 p = (if p \<in> {3, 4} then zero_proc\<lparr>p_state := PROC_RUNNABLE, p_priority := p,
      p_rq := TheRq, p_time_slice := 5\<rparr> else procs ?s0 p)" for p
    using rq_frame_kern(6) [OF link_at_rest(1) [of ?s0 RunList 3]] k(3)
    by (auto simp: link_at_rest k zero_proc_def)
  note pr = this
  have "runq_ok ?s2 [3, 4] 2 1"
    using q2 k(1,2) rq_frame_kern(1,2) [OF f] pr by (auto simp: runq_ok_def k zero_proc_def)
  then show ?thesis using q2(1) pr by (intro exI [of _ ?s2]) (auto simp: sjf_list_def)
qed

text \<open>C5: under round robin \<open>schedule\<close> always returns.  A running process that is still runnable
  goes to the back of the run list (the idle process never does), the front of the list runs next,
  the idle process only when nobody is runnable; no process is lost from or duplicated in the list.\<close>

theorem RR_schedule_rotates:
  assumes "runq_ok s q c i"
  shows "\<exists>t. schedule default_sched_class s = Some t
     \<and> (\<forall>p. p_state (procs t p) = p_state (procs s p))
     \<and> (case (if p_state (procs s c) = PROC_RUNNABLE \<and> c \<noteq> i then q @ [c] else q) of
          [] \<Rightarrow> runq_ok t [] i i
        | n # r \<Rightarrow> runq_ok t r n i)"
  using rr.schedule_queue [of s q c i] assms unfolding list_inv_runq .

theorem RR_schedule_rotates_witness:
  "\<exists>s t. runq_ok s [3, 4] 2 1 \<and> schedule default_sched_class s = Some t \<and> runq_ok t [4, 2] 3 1"
proof -
  obtain s where s: "runq_ok s [3, 4] 2 1" "procs s 2 = procs example_procs 2"
    using example_runq by auto
  then have "p_state (procs s 2) = PROC_RUNNABLE"
    by (simp add: example_procs_def RR_init_def boot_kern_def)
  then show ?thesis using RR_schedule_rotates [OF s(1)] s(1) by auto
qed

text \<open>C6: round robin starves nobody: as long as no process changes its state, the process at
  position \<open>k\<close> of the run list is the running one after exactly \<open>k + 1\<close> calls of \<open>schedule\<close>.\<close>

theorem RR_runs_in_turn:
  assumes "runq_ok s (us @ p # vs) c i" and "p_state (procs s c) = PROC_RUNNABLE" and "c \<noteq> i"
  shows "\<exists>t. schedule_times default_sched_class (Suc (length us)) s = Some t \<and> current t = Some p"
  using rr.runs_in_turn [of s us p vs c i] assms unfolding list_inv_runq by blast

theorem RR_runs_in_turn_witness:
  "\<exists>s t. runq_ok s [3, 4] 2 1 \<and> schedule_times default_sched_class 2 s = Some t \<and> current t = Some 4"
proof -
  obtain s where s: "runq_ok s [3, 4] 2 1" "procs s 2 = procs example_procs 2"
    using example_runq by auto
  then have r: "p_state (procs s 2) = PROC_RUNNABLE" and a: "runq_ok s ([3] @ 4 # []) 2 1"
    by (simp_all add: example_procs_def RR_init_def boot_kern_def)
  have l: "Suc (length [3::nat]) = 2" and "(2::nat) \<noteq> 1" by simp_all
  then show ?thesis using RR_runs_in_turn [OF a r, unfolded l] s(1) by blast
qed

text \<open>Waking a process that is neither runnable nor dead makes it runnable, clears its wait
  state and appends it to the run list, which keeps the scheduler's invariant.\<close>

theorem wakeup_proc_appends:
  assumes "runq_ok s q c i" and "p_state (procs s p) \<noteq> PROC_ZOMBIE"
    and "p_state (procs s p) \<noteq> PROC_RUNNABLE" and "p \<noteq> i" and "p \<noteq> c"
  shows "\<exists>t. wakeup_proc default_sched_class p s = Some t \<and> runq_ok t (q @ [p]) c i
     \<and> (\<forall>r. p_state (procs t r) = (if r = p then PROC_RUNNABLE else p_state (procs s r)))
     \<and> p_wait_state (procs t p) = 0"
  using rr.wakeup_queue [of s q c i p] assms unfolding list_inv_runq by blast

theorem wakeup_proc_appends_witness:
  "\<exists>s t. runq_ok s [3, 4] 2 1 \<and> wakeup_proc default_sched_class 7 s = Some t \<and> runq_ok t [3, 4, 7] 2 1"
proof -
  obtain s where s: "runq_ok s [3, 4] 2 1" "procs s 7 = procs example_procs 7"
    using example_runq by auto
  then have "p_state (procs s 7) = PROC_UNINIT"
    by (simp add: example_procs_def RR_init_def boot_kern_def zero_proc_def)
  then show ?thesis using wakeup_proc_appends [OF s(1), of 7] s(1) by auto
qed

text \<open>C7: under shortest job first \<open>schedule\<close> keeps the run list sorted by priority value, and
  the process that runs next has a priority value not above that of any runnable process.\<close>

theorem SJF_schedule_picks_least:
  assumes "runq_ok s q c i" and "sjf_list s q"
  shows "\<exists>t n q'. schedule sjf_sched_class s = Some t \<and> runq_ok t q' n i \<and> sjf_list t q'
     \<and> (n \<noteq> i \<longrightarrow> p_state (procs s n) = PROC_RUNNABLE)
     \<and> (\<forall>p. p_state (procs s p) = PROC_RUNNABLE \<and> p \<noteq> i \<longrightarrow> n \<noteq> i
          \<and> p_priority (procs s n) \<le> p_priority (procs s p))"
proof -
  have inv: "sjf.list_inv s q c i" using assms by (simp add: list_inv_runq)
  obtain s2 r where s2: "(if p_state (procs s c) = PROC_RUNNABLE
        then sched_class_enqueue sjf_sched_class c (upd_proc c (\<lambda>a. a\<lparr>p_need_resched := False\<rparr>) s)
        else Some (upd_proc c (\<lambda>a. a\<lparr>p_need_resched := False\<rparr>) s)) = Some s2"
    "sjf_list s2 r" "idleproc s2 = Some i" "current s2 = Some c"
    "\<forall>p. p_priority (procs s2 p) = p_priority (procs s p)"
    "if p_state (procs s c) = PROC_RUNNABLE \<and> c \<noteq> i
      then \<exists>us vs. q = us @ vs \<and> r = us @ c # vs else r = q"
    using sjf.requeue_list [OF inv] by blast
  have R: "set r = (if p_state (procs s c) = PROC_RUNNABLE \<and> c \<noteq> i then insert c (set q) else set q)"
    using s2(6) by (auto split: if_splits)
  have run: "p \<in> set r \<longleftrightarrow> p_state (procs s p) = PROC_RUNNABLE \<and> p \<noteq> i" for p
    using assms(1) by (auto simp: R runq_ok_def)
  have si: "sjf.sched_inv s (set q) c i" using inv by (simp add: sjf.list_inv_def)
  from sjf.schedule_head [OF si s2(1-4) R] obtain t where t: "schedule sjf_sched_class s = Some t"
    "case r of [] \<Rightarrow> sjf.list_inv t [] i i | n # r' \<Rightarrow> sjf.list_inv t r' n i" by blast
  show ?thesis
  proof (cases r)
    case Nil
    then have "\<not> (p_state (procs s p) = PROC_RUNNABLE \<and> p \<noteq> i)" for p using run [of p] by simp
    then show ?thesis
      using t Nil by (intro exI [of _ t] exI [of _ i] exI [of _ "[]"]) (simp add: list_inv_runq)
  next
    case (Cons n r')
    have "\<forall>p\<in>set r. p_priority (procs s n) \<le> p_priority (procs s p)"
      using s2(2,5) Cons by (auto simp: sjf_list_def)
    then have "p_priority (procs s n) \<le> p_priority (procs s p)"
      if "p_state (procs s p) = PROC_RUNNABLE" "p \<noteq> i" for p using run that by blast
    moreover have "p_state (procs s n) = PROC_RUNNABLE \<and> n \<noteq> i" using run [of n] Cons by simp
    ultimately show ?thesis
      using t Cons by (intro exI [of _ t] exI [of _ n] exI [of _ r']) (simp add: list_inv_runq)
  qed
qed

theorem SJF_schedule_picks_least_witness:
  "\<exists>s t q'. runq_ok s [3, 4] 2 1 \<and> schedule sjf_sched_class s = Some t \<and> runq_ok t q' 2 1"
proof -
  obtain s where s: "runq_ok s [3, 4] 2 1" "sjf_list s [3, 4]" "\<forall>p. procs s p =
     (if p \<in> {3, 4} then zero_proc\<lparr>p_state := PROC_RUNNABLE, p_priority := p, p_rq := TheRq, p_time_slice := 5\<rparr>
      else procs example_procs p)"
    using example_runq by blast
  have e: "procs example_procs p = (if p \<in> {2, 3, 4}
      then zero_proc\<lparr>p_state := PROC_RUNNABLE, p_priority := p\<rparr> else zero_proc)" for p
    by (simp add: example_procs_def RR_init_def boot_kern_def)
  have all: "p_state (procs s p) = PROC_RUNNABLE \<longleftrightarrow> p \<in> {2, 3, 4}"
    and pr: "p \<in> {2, 3, 4} \<Longrightarrow> p_priority (procs s p) = p" for p
    using s(3) by (auto simp: e zero_proc_def)
  from SJF_schedule_picks_least [OF s(1,2)] obtain t n q' where t: "schedule sjf_sched_class s = Some t"
    "runq_ok t q' n 1" "n \<noteq> 1 \<longrightarrow> p_state (procs s n) = PROC_RUNNABLE"
    "\<forall>p. p_state (procs s p) = PROC_RUNNABLE \<and> p \<noteq> 1 \<longrightarrow> n \<noteq> 1
      \<and> p_priority (procs s n) \<le> p_priority (procs s p)" by blast
  have "n \<noteq> 1 \<and> p_priority (procs s n) \<le> p_priority (procs s 2)" using spec [OF t(4), of 2] all [of 2] by simp
  moreover from this have "n \<in> {2, 3, 4}" using t(3) all by simp
  ultimately have "n = 2" using pr [of n] pr [of 2] by auto
  then show ?thesis using s(1) t by blast
qed

end
