(* ===== verification/Wait_Queue.thy ===== *)
theory Wait_Queue
  imports Sched_Lists
begin

text \<open>
  Wait queues, \<open>kern/sync/wait.c\<close>: a queue is a list head, a \<open>wait_t\<close> entry records the process
  that sleeps on it.  Waking goes through \<open>wakeup_proc\<close> of the scheduler core, so the lemmas are
  proved from the contract \<open>sched_policy\<close>.
\<close>

section \<open>wait.c\<close>

definition upd_wait :: "nat \<Rightarrow> (wait_t \<Rightarrow> wait_t) \<Rightarrow> kern \<Rightarrow> kern" where
  "upd_wait w f s = s\<lparr>waits := (waits s)(w := f (waits s w))\<rparr>"

definition upd_wait_links :: "(wnode links \<Rightarrow> wnode links) \<Rightarrow> kern \<Rightarrow> kern" where
  "upd_wait_links f s = s\<lparr>wait_links := f (wait_links s)\<rparr>"

fun le2wait :: "wnode \<Rightarrow> nat" where
  "le2wait (WaitLink w) = w"

definition wait_init :: "nat \<Rightarrow> nat \<Rightarrow> kern \<Rightarrow> kern" where
  "wait_init w p s =
     upd_wait_links (list_init (WaitLink w))
       (upd_wait w (\<lambda>x. x\<lparr>w_proc := Some p, w_wakeup_flags := WT_INTERRUPTED\<rparr>) s)"

definition wait_queue_init :: "nat \<Rightarrow> kern \<Rightarrow> kern" where
  "wait_queue_init q = upd_wait_links (list_init (WaitHead q))"

definition wait_queue_add :: "nat \<Rightarrow> nat \<Rightarrow> kern \<Rightarrow> kern option" where
  "wait_queue_add q w s = do {
     kassert (list_empty (WaitLink w) (wait_links s) \<and> w_proc (waits s w) \<noteq> None);
     let s1 = upd_wait w (\<lambda>x. x\<lparr>w_queue := q\<rparr>) s;
     Some (upd_wait_links (list_add_before (WaitHead q) (WaitLink w)) s1)
   }"

definition wait_queue_del :: "nat \<Rightarrow> nat \<Rightarrow> kern \<Rightarrow> kern option" where
  "wait_queue_del q w s = do {
     kassert (\<not> list_empty (WaitLink w) (wait_links s) \<and> w_queue (waits s w) = q);
     Some (upd_wait_links (list_del_init (WaitLink w)) s)
   }"

definition wait_queue_next :: "nat \<Rightarrow> nat \<Rightarrow> kern \<Rightarrow> nat option option" where
  "wait_queue_next q w s = do {
     kassert (\<not> list_empty (WaitLink w) (wait_links s) \<and> w_queue (waits s w) = q);
     let le = list_next (WaitLink w) (wait_links s);
     Some (if le \<noteq> WaitHead q then Some (le2wait le) else None)
   }"

definition wait_queue_prev :: "nat \<Rightarrow> nat \<Rightarrow> kern \<Rightarrow> nat option option" where
  "wait_queue_prev q w s = do {
     kassert (\<not> list_empty (WaitLink w) (wait_links s) \<and> w_queue (waits s w) = q);
     let le = list_prev (WaitLink w) (wait_links s);
     Some (if le \<noteq> WaitHead q then Some (le2wait le) else None)
   }"

definition wait_queue_first :: "nat \<Rightarrow> kern \<Rightarrow> nat option" where
  "wait_queue_first q s =
     (let le = list_next (WaitHead q) (wait_links s)
      in if le \<noteq> WaitHead q then Some (le2wait le) else None)"

definition wait_queue_last :: "nat \<Rightarrow> kern \<Rightarrow> nat option" where
  "wait_queue_last q s =
     (let le = list_prev (WaitHead q) (wait_links s)
      in if le \<noteq> WaitHead q then Some (le2wait le) else None)"

definition wait_queue_empty :: "nat \<Rightarrow> kern \<Rightarrow> bool" where
  "wait_queue_empty q s = list_empty (WaitHead q) (wait_links s)"

definition wait_in_queue :: "nat \<Rightarrow> kern \<Rightarrow> bool" where
  "wait_in_queue w s \<longleftrightarrow> \<not> list_empty (WaitLink w) (wait_links s)"

definition wakeup_wait :: "sched_class \<Rightarrow> nat \<Rightarrow> nat \<Rightarrow> 32 word \<Rightarrow> bool \<Rightarrow> kern \<Rightarrow> kern option" where
  "wakeup_wait sc q w flags del s = do {
     s1 \<leftarrow> (if del then wait_queue_del q w s else Some s);
     let s2 = upd_wait w (\<lambda>x. x\<lparr>w_wakeup_flags := flags\<rparr>) s1;
     p \<leftarrow> w_proc (waits s2 w);
     wakeup_proc sc p s2
   }"

definition wakeup_first :: "sched_class \<Rightarrow> nat \<Rightarrow> 32 word \<Rightarrow> bool \<Rightarrow> kern \<Rightarrow> kern option" where
  "wakeup_first sc q flags del s =
     (case wait_queue_first q s of
        Some w \<Rightarrow> wakeup_wait sc q w flags del s
      | None \<Rightarrow> Some s)"

partial_function (option) wakeup_del_loop :: "sched_class \<Rightarrow> nat \<Rightarrow> 32 word \<Rightarrow> nat \<Rightarrow> kern \<Rightarrow> kern option" where
  "wakeup_del_loop sc q flags w s = do {
     s1 \<leftarrow> wakeup_wait sc q w flags True s;
     case wait_queue_first q s1 of
       Some w' \<Rightarrow> wakeup_del_loop sc q flags w' s1
     | None \<Rightarrow> Some s1
   }"

partial_function (option) wakeup_keep_loop :: "sched_class \<Rightarrow> nat \<Rightarrow> 32 word \<Rightarrow> nat \<Rightarrow> kern \<Rightarrow> kern option" where
  "wakeup_keep_loop sc q flags w s = do {
     s1 \<leftarrow> wakeup_wait sc q w flags False s;
     r \<leftarrow> wait_queue_next q w s1;
     case r of
       Some w' \<Rightarrow> wakeup_keep_loop sc q flags w' s1
     | None \<Rightarrow> Some s1
   }"

definition wakeup_queue :: "sched_class \<Rightarrow> nat \<Rightarrow> 32 word \<Rightarrow> bool \<Rightarrow> kern \<Rightarrow> kern option" where
  "wakeup_queue sc q flags del s =
     (case wait_queue_first q s of
        Some w \<Rightarrow> if del then wakeup_del_loop sc q flags w s else wakeup_keep_loop sc q flags w s
      | None \<Rightarrow> Some s)"

definition wait_current_set :: "nat \<Rightarrow> nat \<Rightarrow> 32 word \<Rightarrow> kern \<Rightarrow> kern option" where
  "wait_current_set q w state s = do {
     kassert (current s \<noteq> None);
     c \<leftarrow> current s;
     let s1 = wait_init w c s;
     let s2 = upd_proc c (\<lambda>a. a\<lparr>p_state := PROC_SLEEPING\<rparr>) s1;
     let s3 = upd_proc c (\<lambda>a. a\<lparr>p_wait_state := state\<rparr>) s2;
     wait_queue_add q w s3
   }"

definition wait_current_del :: "nat \<Rightarrow> nat \<Rightarrow> kern \<Rightarrow> kern option" where
  "wait_current_del q w s = (if wait_in_queue w s then wait_queue_del q w s else Some s)"

section \<open>Well-formed queues\<close>

text \<open>\<open>wait_list s q ws\<close>: the queue \<open>q\<close> holds the entries \<open>ws\<close>, oldest first.\<close>

definition wait_list :: "kern \<Rightarrow> nat \<Rightarrow> nat list \<Rightarrow> bool" where
  "wait_list s q ws \<longleftrightarrow> clist (wait_links s) (WaitHead q) (map WaitLink ws)
     \<and> (\<forall>w\<in>set ws. w_queue (waits s w) = q \<and> w_proc (waits s w) \<noteq> None)"

lemma wait_simps [simp]:
  "wait_links (upd_wait w f s) = wait_links s" "waits (upd_wait w f s) = (waits s)(w := f (waits s w))"
  "wait_links (upd_wait_links g s) = g (wait_links s)" "waits (upd_wait_links g s) = waits s"
  "procs (upd_wait w f s) = procs s" "procs (upd_wait_links g s) = procs s"
  "current (upd_wait w f s) = current s" "current (upd_wait_links g s) = current s"
  "idleproc (upd_wait w f s) = idleproc s" "idleproc (upd_wait_links g s) = idleproc s"
  "sems (upd_wait w f s) = sems s" "sems (upd_wait_links g s) = sems s"
  "rq_view (upd_wait w f s) = rq_view s" "rq_view (upd_wait_links g s) = rq_view s"
  by (auto simp: upd_wait_def upd_wait_links_def rq_view_def)

lemma wait_list_distinct: "wait_list s q ws \<Longrightarrow> distinct ws"
  by (auto simp: wait_list_def clist_def distinct_map)

lemma wait_list_cong:
  assumes "wait_list s q ws" and "wait_links t = wait_links s"
    and "\<And>w. w_queue (waits t w) = w_queue (waits s w)" and "\<And>w. w_proc (waits t w) = w_proc (waits s w)"
  shows "wait_list t q ws"
  using assms by (simp add: wait_list_def)

lemma wait_first: "wait_list s q ws \<Longrightarrow> wait_queue_first q s = (case ws of [] \<Rightarrow> None | w # _ \<Rightarrow> Some w)"
  using clist_head_next [of "wait_links s" "WaitHead q" "map WaitLink ws"]
  by (cases ws) (auto simp: wait_list_def wait_queue_first_def list_next_def)

lemma wait_last:
  "wait_list s q ws \<Longrightarrow> wait_queue_last q s = (if ws = [] then None else Some (last ws))"
  using clist_head_prev [of "wait_links s" "WaitHead q" "map WaitLink ws"]
  by (cases ws rule: rev_cases) (auto simp: wait_list_def wait_queue_last_def list_prev_def)

lemma wait_empty: "wait_list s q ws \<Longrightarrow> wait_queue_empty q s \<longleftrightarrow> ws = []"
  using clist_empty_iff [of "wait_links s" "WaitHead q" "map WaitLink ws"]
  by (simp add: wait_list_def wait_queue_empty_def)

lemma wait_linked: "wait_list s q ws \<Longrightarrow> w \<in> set ws \<Longrightarrow> wait_in_queue w s"
  using clist_node_nonempty [of "wait_links s" "WaitHead q" "map WaitLink ws" "WaitLink w"]
  by (simp add: wait_list_def wait_in_queue_def)

lemma wait_next:
  assumes "wait_list s q (us @ w # vs)"
  shows "wait_queue_next q w s = Some (case vs of [] \<Rightarrow> None | v # _ \<Rightarrow> Some v)"
proof -
  have "lnext (wait_links s) (WaitLink w) = hd (map WaitLink vs @ [WaitHead q])"
    using assms clist_mid_next [of "wait_links s" "WaitHead q" "map WaitLink us" "WaitLink w" "map WaitLink vs"]
    by (simp add: wait_list_def)
  then show ?thesis
    using wait_linked [OF assms, of w] assms
    by (cases vs) (simp_all add: wait_queue_next_def wait_in_queue_def list_next_def wait_list_def)
qed

lemma wait_add:
  assumes "wait_list s q ws" and "\<not> wait_in_queue w s" and "w_proc (waits s w) \<noteq> None"
  shows "\<exists>t. wait_queue_add q w s = Some t \<and> wait_list t q (ws @ [w])
     \<and> (\<exists>l. t = upd_wait_links (\<lambda>_. l) (upd_wait w (\<lambda>x. x\<lparr>w_queue := q\<rparr>) s))
     \<and> (\<forall>u. u \<noteq> w \<longrightarrow> \<not> wait_in_queue u s \<longrightarrow> \<not> wait_in_queue u t)"
proof -
  have nw: "w \<notin> set ws" using wait_linked assms(1,2) by blast
  let ?t = "upd_wait_links (list_add_before (WaitHead q) (WaitLink w)) (upd_wait w (\<lambda>x. x\<lparr>w_queue := q\<rparr>) s)"
  have c: "clist (wait_links s) (WaitHead q) (map WaitLink ws @ [])" using assms(1) by (simp add: wait_list_def)
  have "wait_queue_add q w s = Some ?t"
    using assms by (simp add: wait_queue_add_def wait_in_queue_def)
  moreover have "wait_list ?t q (ws @ [w])"
    using assms c nw clist_push_back [of "wait_links s" "WaitHead q" "map WaitLink ws" "WaitLink w"]
    by (auto simp: wait_list_def)
  moreover have "\<not> wait_in_queue u ?t" if "u \<noteq> w" "\<not> wait_in_queue u s" for u
  proof -
    have "u \<notin> set ws" using wait_linked assms(1) that(2) by blast
    then show ?thesis
      using that lnext_add_before_other [OF c, of "WaitHead q" "WaitLink u" "WaitLink w"]
      by (auto simp: wait_in_queue_def list_empty_def)
  qed
  ultimately show ?thesis by (intro exI [of _ ?t]) (auto simp: upd_wait_links_def)
qed

lemma wait_del:
  assumes "wait_list s q (us @ w # vs)"
  shows "\<exists>t. wait_queue_del q w s = Some t \<and> wait_list t q (us @ vs) \<and> \<not> wait_in_queue w t
     \<and> (\<exists>l. t = upd_wait_links (\<lambda>_. l) s) \<and> (\<forall>u. \<not> wait_in_queue u s \<longrightarrow> \<not> wait_in_queue u t)"
proof -
  have c: "clist (wait_links s) (WaitHead q) (map WaitLink us @ WaitLink w # map WaitLink vs)"
    using assms by (simp add: wait_list_def)
  let ?t = "upd_wait_links (list_del_init (WaitLink w)) s"
  have "wait_queue_del q w s = Some ?t"
    using wait_linked [OF assms, of w] assms
    by (simp add: wait_queue_del_def wait_in_queue_def wait_list_def)
  moreover have "wait_list ?t q (us @ vs)" "\<not> wait_in_queue w ?t"
    using clist_list_del_init [OF c] assms by (simp_all add: wait_list_def wait_in_queue_def)
  moreover have "\<not> wait_in_queue u ?t" if "\<not> wait_in_queue u s" for u
  proof -
    have "u \<notin> set (us @ w # vs)" using wait_linked assms that by blast
    then show ?thesis
      using that lnext_del_init_other [OF c, of "WaitLink u"]
      by (auto simp: wait_in_queue_def list_empty_def)
  qed
  ultimately show ?thesis by (intro exI [of _ ?t]) (auto simp: upd_wait_links_def)
qed

section \<open>Waking sleepers\<close>

text \<open>\<open>sleeper i s w\<close>: the process of the entry can be woken.\<close>

definition sleeper :: "(nat \<Rightarrow> bool) \<Rightarrow> nat \<Rightarrow> kern \<Rightarrow> nat \<Rightarrow> bool" where
  "sleeper live i s w \<longleftrightarrow> (\<exists>p. w_proc (waits s w) = Some p \<and> p \<noteq> i \<and> live p
     \<and> p_state (procs s p) \<noteq> PROC_ZOMBIE)"

lemma wait_frame_rq:
  assumes "rq_frame s t"
  shows "wait_links t = wait_links s" "waits t = waits s" "sems t = sems s"
  using rq_frame_kern [OF assms] by simp_all

context sched_policy begin

lemma wakeup_full:
  assumes inv: "sched_inv s Q c i" and "p \<noteq> i" and "live p" and "p_state (procs s p) \<noteq> PROC_ZOMBIE"
  shows "\<exists>t. wakeup_proc sc p s = Some t \<and> sched_inv t (if p = c then Q else insert p Q) c i
     \<and> (\<forall>q. p_state (procs t q) = (if q = p then PROC_RUNNABLE else p_state (procs s q)))
     \<and> (\<forall>q. q \<noteq> p \<longrightarrow> p_wait_state (procs t q) = p_wait_state (procs s q))
     \<and> wait_links t = wait_links s \<and> waits t = waits s \<and> sems t = sems s"
proof -
  obtain t where t: "wakeup_proc sc p s = Some t" "sched_inv t (if p = c then Q else insert p Q) c i"
    "\<forall>q. p_state (procs t q) = (if q = p then PROC_RUNNABLE else p_state (procs s q))"
    using wakeup_steps [OF inv assms(4,2,3)] by blast
  note f = wakeup_frame [OF inv t(1) assms(2,3)]
  have "wait_links t = wait_links s \<and> waits t = waits s \<and> sems t = sems s"
    using wait_frame_rq [OF f] by (simp split: if_splits)
  moreover have "\<forall>q. q \<noteq> p \<longrightarrow> p_wait_state (procs t q) = p_wait_state (procs s q)"
    using rq_frame_procs(3) [OF f] by (simp split: if_splits)
  ultimately show ?thesis using t by blast
qed

lemma wakeup_wait_del:
  assumes inv: "sched_inv s Q c i" and l: "wait_list s q (w # ws)"
    and p: "w_proc (waits s w) = Some p" "p \<noteq> i" "live p" "p_state (procs s p) \<noteq> PROC_ZOMBIE"
  shows "\<exists>t. wakeup_wait sc q w fl True s = Some t \<and> sched_inv t (if p = c then Q else insert p Q) c i
     \<and> wait_list t q ws \<and> \<not> wait_in_queue w t
     \<and> waits t = (waits s)(w := (waits s w)\<lparr>w_wakeup_flags := fl\<rparr>) \<and> sems t = sems s
     \<and> (\<forall>u. \<not> wait_in_queue u s \<longrightarrow> \<not> wait_in_queue u t)
     \<and> (\<forall>q. p_state (procs t q) = (if q = p then PROC_RUNNABLE else p_state (procs s q)))
     \<and> (\<forall>q. q \<noteq> p \<longrightarrow> p_wait_state (procs t q) = p_wait_state (procs s q))"
proof -
  obtain s1 where s1: "wait_queue_del q w s = Some s1" "wait_list s1 q ws" "\<not> wait_in_queue w s1"
    "\<exists>l. s1 = upd_wait_links (\<lambda>_. l) s" "\<forall>u. \<not> wait_in_queue u s \<longrightarrow> \<not> wait_in_queue u s1"
    using wait_del [of s q "[]" w ws] l by auto
  let ?s2 = "upd_wait w (\<lambda>x. x\<lparr>w_wakeup_flags := fl\<rparr>) s1"
  have pr: "procs s1 = procs s" "waits s1 = waits s" "sems s1 = sems s" "rq_view s1 = rq_view s"
    "current s1 = current s" "idleproc s1 = idleproc s" using s1(4) by auto
  have inv2: "sched_inv ?s2 Q c i" by (rule sched_inv_cong [OF inv]) (use pr in auto)
  obtain t where t: "wakeup_proc sc p ?s2 = Some t" "sched_inv t (if p = c then Q else insert p Q) c i"
    "\<forall>q. p_state (procs t q) = (if q = p then PROC_RUNNABLE else p_state (procs ?s2 q))"
    "\<forall>q. q \<noteq> p \<longrightarrow> p_wait_state (procs t q) = p_wait_state (procs ?s2 q)"
    "wait_links t = wait_links ?s2" "waits t = waits ?s2" "sems t = sems ?s2"
    using wakeup_full [OF inv2 p(2,3)] p(4) pr by auto
  have "wakeup_wait sc q w fl True s = Some t"
    using s1(1) t(1) p(1) pr by (simp add: wakeup_wait_def)
  moreover have "wait_list t q ws" by (rule wait_list_cong [OF s1(2)]) (use t(5,6) in auto)
  ultimately show ?thesis using t s1(3,5) pr by (intro exI [of _ t]) (auto simp: wait_in_queue_def)
qed

lemma wakeup_queue_all:
  assumes "sched_inv s Q c i" and "wait_list s q (w # ws)" and "\<forall>u\<in>set (w # ws). sleeper live i s u"
  shows "\<exists>t Q'. wakeup_del_loop sc q fl w s = Some t \<and> sched_inv t Q' c i \<and> wait_list t q []
     \<and> (\<forall>u\<in>set (w # ws). w_wakeup_flags (waits t u) = fl \<and> \<not> wait_in_queue u t)
     \<and> (\<forall>u. u \<notin> set (w # ws) \<longrightarrow> waits t u = waits s u)
     \<and> (\<forall>u. \<not> wait_in_queue u s \<longrightarrow> \<not> wait_in_queue u t)
     \<and> (\<forall>p. p_state (procs t p) = (if \<exists>u\<in>set (w # ws). w_proc (waits s u) = Some p
          then PROC_RUNNABLE else p_state (procs s p)))"
  using assms
proof (induction ws arbitrary: s Q w)
  case Nil
  obtain p where p: "w_proc (waits s w) = Some p" "p \<noteq> i" "live p" "p_state (procs s p) \<noteq> PROC_ZOMBIE"
    using Nil.prems(3) by (auto simp: sleeper_def)
  obtain t where "wakeup_wait sc q w fl True s = Some t" "sched_inv t (if p = c then Q else insert p Q) c i"
    "\<forall>u. \<not> wait_in_queue u s \<longrightarrow> \<not> wait_in_queue u t"
    "wait_list t q []" "\<not> wait_in_queue w t" "waits t = (waits s)(w := (waits s w)\<lparr>w_wakeup_flags := fl\<rparr>)"
    "\<forall>q. p_state (procs t q) = (if q = p then PROC_RUNNABLE else p_state (procs s q))"
    using wakeup_wait_del [OF Nil.prems(1,2) p] by blast
  then show ?case
    using p(1) wait_first [of t q "[]"] by (subst wakeup_del_loop.simps) auto
next
  case (Cons v ws)
  obtain p where p: "w_proc (waits s w) = Some p" "p \<noteq> i" "live p" "p_state (procs s p) \<noteq> PROC_ZOMBIE"
    using Cons.prems(3) by (auto simp: sleeper_def)
  obtain t where t: "wakeup_wait sc q w fl True s = Some t" "sched_inv t (if p = c then Q else insert p Q) c i"
    "wait_list t q (v # ws)" "\<not> wait_in_queue w t" "waits t = (waits s)(w := (waits s w)\<lparr>w_wakeup_flags := fl\<rparr>)"
    "\<forall>u. \<not> wait_in_queue u s \<longrightarrow> \<not> wait_in_queue u t"
    "\<forall>q. p_state (procs t q) = (if q = p then PROC_RUNNABLE else p_state (procs s q))"
    using wakeup_wait_del [OF Cons.prems(1,2) p] by blast
  have nw: "w \<notin> set (v # ws)" using wait_list_distinct [OF Cons.prems(2)] by simp
  have "\<forall>u\<in>set (v # ws). sleeper live i t u"
    using Cons.prems(3) t(5,7) nw by (auto simp: sleeper_def)
  from Cons.IH [OF t(2,3) this] obtain t' Q' where t': "wakeup_del_loop sc q fl v t = Some t'"
    "sched_inv t' Q' c i" "wait_list t' q []"
    "\<forall>u\<in>set (v # ws). w_wakeup_flags (waits t' u) = fl \<and> \<not> wait_in_queue u t'"
    "\<forall>u. u \<notin> set (v # ws) \<longrightarrow> waits t' u = waits t u"
    "\<forall>u. \<not> wait_in_queue u t \<longrightarrow> \<not> wait_in_queue u t'"
    "\<forall>p. p_state (procs t' p) = (if \<exists>u\<in>set (v # ws). w_proc (waits t u) = Some p
          then PROC_RUNNABLE else p_state (procs t p))" by blast
  have "wakeup_del_loop sc q fl w s = Some t'"
    using t(1) t'(1) wait_first [OF t(3)] by (subst wakeup_del_loop.simps) simp
  moreover have "\<forall>u\<in>set (w # v # ws). w_wakeup_flags (waits t' u) = fl \<and> \<not> wait_in_queue u t'"
    using t'(4,5,6) t(4,5) nw by auto
  moreover have "\<forall>u. u \<notin> set (w # v # ws) \<longrightarrow> waits t' u = waits s u" using t'(5) t(5) by auto
  moreover have "(\<exists>u\<in>set (v # ws). w_proc (waits t u) = Some r)
      \<longleftrightarrow> (\<exists>u\<in>set (v # ws). w_proc (waits s u) = Some r)" for r
    using t(5) nw by auto
  then have "\<forall>r. p_state (procs t' r) = (if \<exists>u\<in>set (w # v # ws). w_proc (waits s u) = Some r
          then PROC_RUNNABLE else p_state (procs s r))"
    using t'(7) t(7) p(1) by auto
  ultimately show ?case using t'(2,3,6) t(6) by (intro exI [of _ t'] exI [of _ Q']) auto
qed

end

section \<open>Properties\<close>

lemma runq_sched_inv: "runq_ok s q c i \<Longrightarrow> rr.sched_inv s (set q) c i"
  by (simp add: list_inv_runq(1) [symmetric] rr.list_inv_def)

text \<open>\<open>wakeup_queue\<close> with deletion, under round robin, wakes every sleeper of the queue and
  nobody else: it returns, the queue is empty, each entry carries the wakeup flags and is off the
  queue, exactly their processes became runnable, and no assertion or warning of
  \<open>wakeup_proc\<close> stops it.\<close>

theorem wakeup_queue_wakes_all:
  assumes "runq_ok s rl c i" and "wait_list s q ws"
    and "\<forall>w\<in>set ws. \<exists>p. w_proc (waits s w) = Some p \<and> p \<noteq> i \<and> p_state (procs s p) \<noteq> PROC_ZOMBIE"
  shows "\<exists>t. wakeup_queue default_sched_class q fl True s = Some t \<and> wait_list t q []
     \<and> (\<forall>w\<in>set ws. w_wakeup_flags (waits t w) = fl \<and> \<not> wait_in_queue w t)
     \<and> (\<forall>w. w \<notin> set ws \<longrightarrow> waits t w = waits s w)
     \<and> (\<forall>p. p_state (procs t p) = (if \<exists>w\<in>set ws. w_proc (waits s w) = Some p
          then PROC_RUNNABLE else p_state (procs s p)))"
proof (cases ws)
  case Nil
  then show ?thesis using assms(2) wait_first [OF assms(2)] by (auto simp: wakeup_queue_def)
next
  case (Cons w ws')
  have "\<forall>u\<in>set (w # ws'). sleeper (\<lambda>_. True) i s u" using assms(3) Cons by (simp add: sleeper_def)
  from rr.wakeup_queue_all [OF runq_sched_inv [OF assms(1)] assms(2) [unfolded Cons] this, of fl]
  obtain t where "wakeup_del_loop default_sched_class q fl w s = Some t" "wait_list t q []"
     "\<forall>u\<in>set (w # ws'). w_wakeup_flags (waits t u) = fl \<and> \<not> wait_in_queue u t"
     "\<forall>u. u \<notin> set (w # ws') \<longrightarrow> waits t u = waits s u"
     "\<forall>p. p_state (procs t p) = (if \<exists>u\<in>set (w # ws'). w_proc (waits s u) = Some p
          then PROC_RUNNABLE else p_state (procs s p))" by blast
  moreover from this(1) have "wakeup_queue default_sched_class q fl True s = Some t"
    using wait_first [OF assms(2)] Cons by (simp add: wakeup_queue_def)
  ultimately show ?thesis unfolding Cons by blast
qed

theorem wakeup_queue_wakes_all_witness:
  "\<exists>s t. wait_list s 9 [5] \<and> wakeup_queue default_sched_class 9 WT_KBD True s = Some t \<and> wait_list t 9 []
     \<and> w_proc (waits s 5) = Some 7 \<and> p_state (procs t 7) = PROC_RUNNABLE"
proof -
  obtain s0 where s0: "runq_ok s0 [3, 4] 2 1" "procs s0 7 = procs example_procs 7"
    using example_runq by auto
  let ?l = "list_add_before (WaitHead 9) (WaitLink 5) \<lparr>lnext = id, lprev = id\<rparr>"
  let ?s = "s0\<lparr>wait_links := ?l, waits := (\<lambda>_. \<lparr>w_proc = Some 7, w_wakeup_flags = 0, w_queue = 9\<rparr>)\<rparr>"
  have r: "runq_ok ?s [3, 4] 2 1"
    using s0(1) unfolding runq_ok_def rq_list_def unlinked_def by simp blast
  have "clist \<lparr>lnext = id, lprev = id\<rparr> (WaitHead 9) []" by (simp add: clist_def)
  from clist_push_back [OF this, of "WaitLink 5"] have l: "wait_list ?s 9 [5]" by (simp add: wait_list_def)
  have "p_state (procs s0 7) = PROC_UNINIT"
    using s0(2) by (simp add: example_procs_def RR_init_def boot_kern_def zero_proc_def)
  then have "\<forall>w\<in>set [5]. \<exists>p. w_proc (waits ?s w) = Some p \<and> p \<noteq> 1 \<and> p_state (procs ?s p) \<noteq> PROC_ZOMBIE"
    by simp
  from wakeup_queue_wakes_all [OF r l this, of WT_KBD] obtain t where
    t: "wakeup_queue default_sched_class 9 WT_KBD True ?s = Some t" "wait_list t 9 []"
      "\<forall>p. p_state (procs t p) = (if \<exists>w\<in>set [5]. w_proc (waits ?s w) = Some p
          then PROC_RUNNABLE else p_state (procs ?s p))" by blast
  have "p_state (procs t 7) = PROC_RUNNABLE" "w_proc (waits ?s 5) = Some 7" using t(3) by simp_all
  then show ?thesis using l t(1,2) by blast
qed

end
