(* ===== verification/Semaphore.thy ===== *)
theory Semaphore
  imports Wait_Queue
begin

text \<open>
  Counting semaphores, \<open>kern/sync/sem.c\<close>.  \<open>__down\<close> sleeps in the middle, so it is two steps:
  what runs up to and including the call of \<open>schedule\<close>, and what runs when the process is back
  on the processor.  The relation \<open>sem_step\<close> interleaves the operations of any number of
  processes with preemption; the invariant of its reachable states gives mutual exclusion, no lost
  wakeups and that no assertion of the code fails.
\<close>

section \<open>sem.c\<close>

definition upd_sem :: "nat \<Rightarrow> (semaphore_t \<Rightarrow> semaphore_t) \<Rightarrow> kern \<Rightarrow> kern" where
  "upd_sem m f s = s\<lparr>sems := (sems s)(m := f (sems s m))\<rparr>"

definition sem_init :: "nat \<Rightarrow> int \<Rightarrow> kern \<Rightarrow> kern" where
  "sem_init m v s = wait_queue_init m (upd_sem m (\<lambda>x. x\<lparr>sem_value := v\<rparr>) s)"

definition sem_up_raw :: "sched_class \<Rightarrow> nat \<Rightarrow> 32 word \<Rightarrow> kern \<Rightarrow> kern option" where
  "sem_up_raw sc m state s =
     (case wait_queue_first m s of
        None \<Rightarrow> Some (upd_sem m (\<lambda>x. x\<lparr>sem_value := sem_value x + 1\<rparr>) s)
      | Some w \<Rightarrow> do {
          p \<leftarrow> w_proc (waits s w);
          kassert (p_wait_state (procs s p) = state);
          wakeup_wait sc m w state True s
        })"

text \<open>The first part of \<open>__down\<close>; \<open>w\<close> is the entry on the caller's kernel stack.  The result says
  whether the caller went to sleep.\<close>

definition sem_down_enter :: "sched_class \<Rightarrow> nat \<Rightarrow> nat \<Rightarrow> 32 word \<Rightarrow> kern \<Rightarrow> (bool \<times> kern) option" where
  "sem_down_enter sc m w state s =
     (if 0 < sem_value (sems s m)
      then Some (False, upd_sem m (\<lambda>x. x\<lparr>sem_value := sem_value x - 1\<rparr>) s)
      else do {
        s1 \<leftarrow> wait_current_set m w state s;
        s2 \<leftarrow> schedule sc s1;
        Some (True, s2)
      })"

text \<open>The rest of \<open>__down\<close>, after the sleeper runs again.\<close>

definition sem_down_resume :: "nat \<Rightarrow> nat \<Rightarrow> 32 word \<Rightarrow> kern \<Rightarrow> (32 word \<times> kern) option" where
  "sem_down_resume m w state s = do {
     s1 \<leftarrow> wait_current_del m w s;
     Some (if w_wakeup_flags (waits s1 w) \<noteq> state then w_wakeup_flags (waits s1 w) else 0, s1)
   }"

definition up :: "sched_class \<Rightarrow> nat \<Rightarrow> kern \<Rightarrow> kern option" where
  "up sc m s = sem_up_raw sc m WT_KSEM s"

definition down_enter :: "sched_class \<Rightarrow> nat \<Rightarrow> nat \<Rightarrow> kern \<Rightarrow> (bool \<times> kern) option" where
  "down_enter sc m w s = sem_down_enter sc m w WT_KSEM s"

definition down_resume :: "nat \<Rightarrow> nat \<Rightarrow> kern \<Rightarrow> kern option" where
  "down_resume m w s = do {
     (flags, s1) \<leftarrow> sem_down_resume m w WT_KSEM s;
     kassert (flags = 0);
     Some s1
   }"

definition try_down :: "nat \<Rightarrow> kern \<Rightarrow> bool \<times> kern" where
  "try_down m s =
     (if 0 < sem_value (sems s m)
      then (True, upd_sem m (\<lambda>x. x\<lparr>sem_value := sem_value x - 1\<rparr>) s)
      else (False, s))"

section \<open>Processes that share one semaphore\<close>

text \<open>A state is the kernel state, the processes that hold a unit of the semaphore, and those among
  them that were handed one while asleep and have not run since.  A process holds at most one unit
  and releases only a unit it holds; the wait entry of process \<open>c\<close> is named \<open>c\<close>.\<close>

inductive sem_step :: "sched_class \<Rightarrow> nat \<Rightarrow> kern \<times> nat set \<times> nat set \<Rightarrow> kern \<times> nat set \<times> nat set \<Rightarrow> bool"
  for sc m where
  acquire: "current s = Some c \<Longrightarrow> Some c \<noteq> idleproc s \<Longrightarrow> c \<notin> H \<Longrightarrow> down_enter sc m c s = Some (False, t)
    \<Longrightarrow> sem_step sc m (s, H, W) (t, insert c H, W)"
| block: "current s = Some c \<Longrightarrow> Some c \<noteq> idleproc s \<Longrightarrow> c \<notin> H \<Longrightarrow> down_enter sc m c s = Some (True, t)
    \<Longrightarrow> sem_step sc m (s, H, W) (t, H, W)"
| attempt: "current s = Some c \<Longrightarrow> Some c \<noteq> idleproc s \<Longrightarrow> c \<notin> H \<Longrightarrow> try_down m s = (ok, t)
    \<Longrightarrow> sem_step sc m (s, H, W) (t, if ok then insert c H else H, W)"
| resume: "current s = Some c \<Longrightarrow> c \<in> W \<Longrightarrow> down_resume m c s = Some t
    \<Longrightarrow> sem_step sc m (s, H, W) (t, H, W - {c})"
| release: "current s = Some c \<Longrightarrow> c \<in> H \<Longrightarrow> c \<notin> W \<Longrightarrow> wait_queue_first m s = None \<Longrightarrow> up sc m s = Some t
    \<Longrightarrow> sem_step sc m (s, H, W) (t, H - {c}, W)"
| hand_over: "current s = Some c \<Longrightarrow> c \<in> H \<Longrightarrow> c \<notin> W \<Longrightarrow> wait_queue_first m s = Some w \<Longrightarrow> up sc m s = Some t
    \<Longrightarrow> sem_step sc m (s, H, W) (t, insert w (H - {c}), insert w W)"
| preempt: "schedule sc s = Some t \<Longrightarrow> sem_step sc m (s, H, W) (t, H, W)"

inductive sem_reach :: "sched_class \<Rightarrow> nat \<Rightarrow> kern \<Rightarrow> kern \<times> nat set \<times> nat set \<Rightarrow> bool"
  for sc m s0 where
  start: "sem_reach sc m s0 (s0, {}, {})"
| step: "sem_reach sc m s0 a \<Longrightarrow> sem_step sc m a b \<Longrightarrow> sem_reach sc m s0 b"

inductive_cases sem_stepE: "sem_step sc m (s, H, W) b"

lemma upd_sem_simps [simp]:
  "procs (upd_sem m f s) = procs s" "current (upd_sem m f s) = current s"
  "idleproc (upd_sem m f s) = idleproc s" "waits (upd_sem m f s) = waits s"
  "wait_links (upd_sem m f s) = wait_links s" "sems (upd_sem m f s) = (sems s)(m := f (sems s m))"
  "rq_view (upd_sem m f s) = rq_view s"
  by (simp_all add: upd_sem_def rq_view_def)

lemma wait_in_queue_cong [simp]: "wait_in_queue w (upd_sem m f s) = wait_in_queue w s"
  by (simp add: wait_in_queue_def)

context sched_policy begin

text \<open>The invariant, for a semaphore initialised to \<open>n\<close>; \<open>ws\<close> are the sleepers in order.\<close>

definition sem_good :: "nat \<Rightarrow> int \<Rightarrow> nat \<Rightarrow> nat list \<Rightarrow> nat \<Rightarrow> kern \<Rightarrow> nat set \<Rightarrow> nat set \<Rightarrow> bool" where
  "sem_good m n i ws c s H W \<longleftrightarrow> (\<exists>Q. sched_inv s Q c i) \<and> wait_list s m ws
     \<and> (\<forall>w\<in>set ws. w_proc (waits s w) = Some w \<and> p_state (procs s w) = PROC_SLEEPING
          \<and> p_wait_state (procs s w) = WT_KSEM \<and> w \<notin> H \<and> w \<noteq> i \<and> w \<noteq> c \<and> live w)
     \<and> (\<forall>w. w \<notin> set ws \<longrightarrow> \<not> wait_in_queue w s) \<and> finite H
     \<and> int (card H) + sem_value (sems s m) = n \<and> 0 \<le> sem_value (sems s m)
     \<and> (ws \<noteq> [] \<longrightarrow> sem_value (sems s m) = 0) \<and> W \<subseteq> H
     \<and> (\<forall>p\<in>W. w_wakeup_flags (waits s p) = WT_KSEM)"

lemma sem_goodD:
  assumes "sem_good m n i ws c s H W"
  shows "finite H" "int (card H) + sem_value (sems s m) = n" "0 \<le> sem_value (sems s m)"
    "ws \<noteq> [] \<longrightarrow> sem_value (sems s m) = 0" "W \<subseteq> H" "set ws \<inter> H = {}" "wait_list s m ws"
    "\<forall>p\<in>W. w_wakeup_flags (waits s p) = WT_KSEM" "\<forall>w. w \<notin> set ws \<longrightarrow> \<not> wait_in_queue w s"
    "current s = Some c" "idleproc s = Some i"
  using assms by (auto simp: sem_good_def sched_inv_def)

lemma sem_good_sems:
  assumes g: "sem_good m n i ws c s H W" and "sem_value (f (sems s m)) + int (card H') = n"
    and "0 \<le> sem_value (f (sems s m))" and "finite H'" and "W \<subseteq> H'" and "set ws \<inter> H' = {}"
    and "ws \<noteq> [] \<longrightarrow> sem_value (f (sems s m)) = 0"
  shows "sem_good m n i ws c (upd_sem m f s) H' W"
proof -
  obtain Q where "sched_inv s Q c i" using g by (auto simp: sem_good_def)
  then have "sched_inv (upd_sem m f s) Q c i" by (rule sched_inv_cong) simp_all
  moreover have "wait_list (upd_sem m f s) m ws"
    using g by (simp add: sem_good_def wait_list_def)
  ultimately show ?thesis using g assms(2-) unfolding sem_good_def by auto
qed

lemma down_fast:
  assumes g: "sem_good m n i ws c s H W" and v: "0 < sem_value (sems s m)" and "c \<notin> H"
  shows "sem_good m n i ws c (upd_sem m (\<lambda>x. x\<lparr>sem_value := sem_value x - 1\<rparr>) s) (insert c H) W"
  by (rule sem_good_sems [OF g]) (use sem_goodD [OF g] v assms(3) in auto)

lemma schedule_good:
  assumes inv: "sched_inv s Q c i" and l: "wait_list s m ws"
    and ws: "\<forall>w\<in>set ws. w_proc (waits s w) = Some w \<and> p_state (procs s w) = PROC_SLEEPING
          \<and> p_wait_state (procs s w) = WT_KSEM \<and> w \<notin> H \<and> w \<noteq> i \<and> live w"
    and "\<forall>w. w \<notin> set ws \<longrightarrow> \<not> wait_in_queue w s" and "finite H"
    and "int (card H) + sem_value (sems s m) = n" and "0 \<le> sem_value (sems s m)"
    and "ws \<noteq> [] \<longrightarrow> sem_value (sems s m) = 0" and "W \<subseteq> H"
    and "\<forall>p\<in>W. w_wakeup_flags (waits s p) = WT_KSEM"
  shows "\<exists>t c'. schedule sc s = Some t \<and> sem_good m n i ws c' t H W"
proof -
  obtain t c' where t: "schedule sc s = Some t"
    "sched_inv t ((if p_state (procs s c) = PROC_RUNNABLE \<and> c \<noteq> i then insert c Q else Q) - {c'}) c' i"
    "if (if p_state (procs s c) = PROC_RUNNABLE \<and> c \<noteq> i then insert c Q else Q) = {} then c' = i
      else c' \<in> (if p_state (procs s c) = PROC_RUNNABLE \<and> c \<noteq> i then insert c Q else Q)"
    "sched_frame s t" "\<forall>p. p_state (procs t p) = p_state (procs s p)"
    using schedule_steps [OF inv] by blast
  have "c' \<notin> set ws"
  proof
    assume w: "c' \<in> set ws"
    then have "p_state (procs s c') = PROC_SLEEPING" "c' \<noteq> i" using ws by auto
    moreover have "\<forall>p\<in>Q. p_state (procs s p) = PROC_RUNNABLE" using inv by (auto simp: sched_inv_def)
    ultimately show False using t(3) by (auto split: if_splits)
  qed
  moreover have "wait_links t = wait_links s" "waits t = waits s" "sems t = sems s"
    using t(4) by (simp_all add: sched_frame_def)
  moreover have "wait_list t m ws" by (rule wait_list_cong [OF l]) (use calculation in auto)
  ultimately have "sem_good m n i ws c' t H W"
    using assms(3-) t(2,5) sched_frame_proc(3) [OF t(4)] unfolding sem_good_def wait_in_queue_def by auto
  then show ?thesis using t(1) by blast
qed

lemma down_blocks:
  assumes g: "sem_good m n i ws c s H W" and v: "\<not> 0 < sem_value (sems s m)" and c: "c \<notin> H" "c \<noteq> i"
  shows "\<exists>t c'. down_enter sc m c s = Some (True, t) \<and> sem_good m n i (ws @ [c]) c' t H W"
proof -
  obtain Q where inv: "sched_inv s Q c i" and l: "wait_list s m ws"
    and cq: "c \<notin> set ws" "\<not> wait_in_queue c s"
    using g by (auto simp: sem_good_def)
  have cur: "current s = Some c" "live c" using inv c by (simp_all add: sched_inv_def)
  let ?s1 = "wait_init c c s"
  let ?s3 = "upd_proc c (\<lambda>a. a\<lparr>p_wait_state := WT_KSEM\<rparr>)
    (upd_proc c (\<lambda>a. a\<lparr>p_state := PROC_SLEEPING\<rparr>) ?s1)"
  have wl: "wait_links ?s3 = list_init (WaitLink c) (wait_links s)"
    "waits ?s3 = (waits s)(c := (waits s c)\<lparr>w_proc := Some c, w_wakeup_flags := WT_INTERRUPTED\<rparr>)"
    by (simp_all add: wait_init_def)
  have l3: "wait_list ?s3 m ws"
    using l cq(1) list_init_other [of "wait_links s" "WaitHead m" "map WaitLink ws" "WaitLink c"]
    unfolding wait_list_def wl by auto
  have nq: "\<not> wait_in_queue u ?s3" if "\<not> wait_in_queue u s" for u
    using that unfolding wait_in_queue_def wl by (auto simp: list_empty_def list_init_def)
  obtain t where t: "wait_queue_add m c ?s3 = Some t" "wait_list t m (ws @ [c])"
    "\<exists>l. t = upd_wait_links (\<lambda>_. l) (upd_wait c (\<lambda>x. x\<lparr>w_queue := m\<rparr>) ?s3)"
    "\<forall>u. u \<noteq> c \<longrightarrow> \<not> wait_in_queue u ?s3 \<longrightarrow> \<not> wait_in_queue u t"
    using wait_add [OF l3 nq [OF cq(2)]] wl(2) by auto
  have f: "procs t = procs ?s3" "current t = current s" "idleproc t = idleproc s" "sems t = sems s"
    "rq_view t = rq_view s" "waits t = (waits ?s3)(c := (waits ?s3 c)\<lparr>w_queue := m\<rparr>)"
    using t(3) by (auto simp: wait_init_def rq_view_upd)
  have set: "wait_current_set m c WT_KSEM s = Some t"
    using t(1) cur by (simp add: wait_current_set_def Let_def)
  have inv_t: "sched_inv t Q c i"
    by (rule sched_inv_cong [OF inv f(5,2,3)]) (simp add: f(1) wait_init_def)
  have "\<exists>u c'. schedule sc t = Some u \<and> sem_good m n i (ws @ [c]) c' u H W"
  proof (rule schedule_good [OF inv_t t(2)])
    show "\<forall>w\<in>set (ws @ [c]). w_proc (waits t w) = Some w \<and> p_state (procs t w) = PROC_SLEEPING
        \<and> p_wait_state (procs t w) = WT_KSEM \<and> w \<notin> H \<and> w \<noteq> i \<and> live w"
      using g c cur cq(1) unfolding f(1,6) wl(2) by (auto simp: sem_good_def wait_init_def)
    show "\<forall>w. w \<notin> set (ws @ [c]) \<longrightarrow> \<not> wait_in_queue w t"
      using t(4) nq g by (auto simp: sem_good_def)
    show "\<forall>p\<in>W. w_wakeup_flags (waits t p) = WT_KSEM"
      using g c unfolding f(6) wl(2) by (auto simp: sem_good_def)
  qed (use sem_goodD [OF g] v f(4) in auto)
  then show ?thesis using set v by (auto simp: down_enter_def sem_down_enter_def)
qed

lemma up_free:
  assumes g: "sem_good m n i [] c s H W" and c: "c \<in> H" "c \<notin> W"
  shows "up sc m s = Some (upd_sem m (\<lambda>x. x\<lparr>sem_value := sem_value x + 1\<rparr>) s)"
    and "sem_good m n i [] c (upd_sem m (\<lambda>x. x\<lparr>sem_value := sem_value x + 1\<rparr>) s) (H - {c}) W"
proof -
  have "wait_queue_first m s = None" using wait_first [of s m "[]"] g by (simp add: sem_good_def)
  then show "up sc m s = Some (upd_sem m (\<lambda>x. x\<lparr>sem_value := sem_value x + 1\<rparr>) s)"
    by (simp add: up_def sem_up_raw_def)
  note d = sem_goodD [OF g]
  have k: "int (card H) = int (card (H - {c})) + 1"
    using d(1) c card_Suc_Diff1 [of H c] by simp
  show "sem_good m n i [] c (upd_sem m (\<lambda>x. x\<lparr>sem_value := sem_value x + 1\<rparr>) s) (H - {c}) W"
  proof (rule sem_good_sems [OF g])
    show "sem_value ((sems s m)\<lparr>sem_value := sem_value (sems s m) + 1\<rparr>) + int (card (H - {c})) = n"
      using d(2) unfolding k by simp
    show "0 \<le> sem_value ((sems s m)\<lparr>sem_value := sem_value (sems s m) + 1\<rparr>)" using d(3) by simp
    show "finite (H - {c})" "W \<subseteq> H - {c}" "set [] \<inter> (H - {c}) = {}" using d(1,5) c by auto
  qed simp
qed

lemma up_hands_over:
  assumes g: "sem_good m n i (w # ws) c s H W" and c: "c \<in> H" "c \<notin> W"
  shows "wait_queue_first m s = Some w \<and> (\<exists>t. up sc m s = Some t
     \<and> sem_good m n i ws c t (insert w (H - {c})) (insert w W))"
proof -
  obtain Q where inv: "sched_inv s Q c i" and l: "wait_list s m (w # ws)"
    using g by (auto simp: sem_good_def)
  have w: "w_proc (waits s w) = Some w" "p_state (procs s w) = PROC_SLEEPING"
    "p_wait_state (procs s w) = WT_KSEM" "w \<notin> H" "w \<noteq> i" "live w" "w \<noteq> c" "w \<notin> set ws"
    using g wait_list_distinct [OF l] by (auto simp: sem_good_def)
  have fst: "wait_queue_first m s = Some w" using wait_first [OF l] by simp
  have nz: "p_state (procs s w) \<noteq> PROC_ZOMBIE" using w(2) by simp
  obtain t where t: "wakeup_wait sc m w WT_KSEM True s = Some t"
    "sched_inv t (if w = c then Q else insert w Q) c i" "wait_list t m ws" "\<not> wait_in_queue w t"
    "waits t = (waits s)(w := (waits s w)\<lparr>w_wakeup_flags := WT_KSEM\<rparr>)" "sems t = sems s"
    "\<forall>u. \<not> wait_in_queue u s \<longrightarrow> \<not> wait_in_queue u t"
    "\<forall>q. p_state (procs t q) = (if q = w then PROC_RUNNABLE else p_state (procs s q))"
    "\<forall>q. q \<noteq> w \<longrightarrow> p_wait_state (procs t q) = p_wait_state (procs s q)"
    using wakeup_wait_del [OF inv l w(1,5,6) nz] by blast
  have "up sc m s = Some t" using t(1) fst w(1,3) by (simp add: up_def sem_up_raw_def)
  moreover have "sem_good m n i ws c t (insert w (H - {c})) (insert w W)"
    unfolding sem_good_def
  proof (intro conjI)
    show "\<exists>Q. sched_inv t Q c i" using t(2) by blast
    show "\<forall>u\<in>set ws. w_proc (waits t u) = Some u \<and> p_state (procs t u) = PROC_SLEEPING
        \<and> p_wait_state (procs t u) = WT_KSEM \<and> u \<notin> insert w (H - {c}) \<and> u \<noteq> i \<and> u \<noteq> c \<and> live u"
      using g t(5,8,9) w(8) by (auto simp: sem_good_def)
    show "\<forall>u. u \<notin> set ws \<longrightarrow> \<not> wait_in_queue u t"
      using g t(4,7) by (auto simp: sem_good_def)
    have "card (insert w (H - {c})) = card H"
      using g c w(4) card_Suc_Diff1 [of H c] by (simp add: sem_good_def)
    then show "int (card (insert w (H - {c}))) + sem_value (sems t m) = n"
      using g t(6) by (simp add: sem_good_def)
    show "\<forall>p\<in>insert w W. w_wakeup_flags (waits t p) = WT_KSEM"
      using g t(5) by (auto simp: sem_good_def)
  qed (use sem_goodD [OF g] c t(3,6) in auto)
  ultimately show ?thesis using fst by blast
qed

lemma resume_good:
  assumes g: "sem_good m n i ws c s H W" and c: "c \<in> W"
  shows "down_resume m c s = Some s" and "sem_good m n i ws c s H (W - {c})"
proof -
  have "c \<notin> set ws" "w_wakeup_flags (waits s c) = WT_KSEM" using g c by (auto simp: sem_good_def)
  then show "down_resume m c s = Some s"
    using g by (simp add: down_resume_def sem_down_resume_def wait_current_del_def sem_good_def)
  show "sem_good m n i ws c s H (W - {c})" using g by (auto simp: sem_good_def)
qed

lemma sem_step_good:
  assumes g: "sem_good m n i ws c s H W" and st: "sem_step sc m (s, H, W) (t, H', W')"
  shows "\<exists>ws' c'. sem_good m n i ws' c' t H' W'"
proof -
  have cur: "current s = Some c" "idleproc s = Some i" using g by (auto simp: sem_good_def sched_inv_def)
  have fast: "sem_good m n i ws c u (insert c H) W"
    if "0 < sem_value (sems s m)" "c \<notin> H" "u = upd_sem m (\<lambda>x. x\<lparr>sem_value := sem_value x - 1\<rparr>) s" for u
    using down_fast [OF g that(1,2)] that(3) by simp
  from st show ?thesis
  proof (rule sem_stepE)
    fix c' u assume a: "(t, H', W') = (u, insert c' H, W)" "current s = Some c'" "c' \<notin> H"
      "down_enter sc m c' s = Some (False, u)"
    then have "c' = c" "0 < sem_value (sems s m)"
      "u = upd_sem m (\<lambda>x. x\<lparr>sem_value := sem_value x - 1\<rparr>) s"
      using cur by (auto simp: down_enter_def sem_down_enter_def Option.bind_eq_Some_conv split: if_splits)
    then show ?thesis using fast a by blast
  next
    fix c' u assume a: "(t, H', W') = (u, H, W)" "current s = Some c'" "Some c' \<noteq> idleproc s" "c' \<notin> H"
      "down_enter sc m c' s = Some (True, u)"
    then have "c' = c" "\<not> 0 < sem_value (sems s m)" "c \<noteq> i"
      using cur by (auto simp: down_enter_def sem_down_enter_def split: if_splits)
    then show ?thesis using down_blocks [OF g] a by auto
  next
    fix c' ok u assume a: "(t, H', W') = (u, if ok then insert c' H else H, W)" "current s = Some c'"
      "c' \<notin> H" "try_down m s = (ok, u)"
    then show ?thesis
      using cur g fast by (cases "0 < sem_value (sems s m)") (auto simp: try_down_def)
  next
    fix c' u assume "(t, H', W') = (u, H, W - {c'})" "current s = Some c'" "c' \<in> W"
      "down_resume m c' s = Some u"
    then show ?thesis using cur resume_good [OF g] by auto
  next
    fix c' u assume a: "(t, H', W') = (u, H - {c'}, W)" "current s = Some c'" "c' \<in> H" "c' \<notin> W"
      "wait_queue_first m s = None" "up sc m s = Some u"
    then have e: "ws = []" "c' = c"
      using wait_first [OF sem_goodD(7) [OF g]] cur by (auto split: list.splits)
    show ?thesis using up_free [OF g [unfolded e(1)]] a e(2) by auto
  next
    fix c' w u assume a: "(t, H', W') = (u, insert w (H - {c'}), insert w W)" "current s = Some c'"
      "c' \<in> H" "c' \<notin> W" "wait_queue_first m s = Some w" "up sc m s = Some u"
    then obtain ws' where e: "ws = w # ws'" "c' = c"
      using wait_first [OF sem_goodD(7) [OF g]] cur by (auto split: list.splits)
    show ?thesis using up_hands_over [OF g [unfolded e(1)]] a e(2) by auto
  next
    fix u assume a: "(t, H', W') = (u, H, W)" "schedule sc s = Some u"
    obtain Q where Q: "sched_inv s Q c i" using g by (auto simp: sem_good_def)
    have "\<exists>t c'. schedule sc s = Some t \<and> sem_good m n i ws c' t H W"
      by (rule schedule_good [OF Q]) (use g sem_goodD [OF g] in \<open>auto simp: sem_good_def\<close>)
    then show ?thesis using a by auto
  qed
qed

lemma sem_reach_good:
  assumes "sem_reach sc m s0 a" and "sem_good m n i ws0 c0 s0 {} {}"
  shows "\<exists>ws c. sem_good m n i ws c (fst a) (fst (snd a)) (snd (snd a))"
  using assms(1)
proof induction
  case start
  then show ?case using assms(2) by auto
next
  case (step a b)
  then obtain ws c where "sem_good m n i ws c (fst a) (fst (snd a)) (snd (snd a))" by blast
  then show ?case
    using sem_step_good [of m n i ws c "fst a" "fst (snd a)" "snd (snd a)" "fst b" "fst (snd b)" "snd (snd b)"]
      step.hyps(2) by simp
qed

lemma sem_init_good:
  assumes inv: "sched_inv s Q c i" and "0 \<le> n" and nq: "\<forall>w. \<not> wait_in_queue w s"
  shows "sem_good m n i [] c (sem_init m n s) {} {}"
proof -
  have "sched_inv (sem_init m n s) Q c i"
    by (rule sched_inv_cong [OF inv]) (simp_all add: sem_init_def wait_queue_init_def)
  moreover have "wait_list (sem_init m n s) m []"
    using clist_unlinked_init [of "WaitHead m" "wait_links s"]
    by (simp add: wait_list_def sem_init_def wait_queue_init_def)
  moreover have "\<not> wait_in_queue w (sem_init m n s)" for w
    using nq by (auto simp: sem_init_def wait_queue_init_def wait_in_queue_def list_empty_def list_init_def)
  moreover have "sem_value (sems (sem_init m n s) m) = n" by (simp add: sem_init_def wait_queue_init_def)
  ultimately show ?thesis using assms(2) by (auto simp: sem_good_def)
qed

end

section \<open>Property\<close>

text \<open>C20: processes that use one semaphore of initial value \<open>n\<close>, under round robin with
  preemption at any step.  In every reachable state at most \<open>n\<close> processes hold it and the free
  units make up the difference; nobody sleeps while a unit is free; sleepers are asleep and hold
  nothing; and whatever the running process does next (down, up, coming back from a sleep) no
  assertion fails.\<close>

theorem semaphore_safe:
  assumes "runq_ok s q c0 i" and "0 \<le> n" and "\<forall>w. \<not> wait_in_queue w s"
    and r: "sem_reach default_sched_class m (sem_init m n s) (t, H, W)"
  shows "finite H \<and> int (card H) + sem_value (sems t m) = n \<and> 0 \<le> sem_value (sems t m)
     \<and> (\<exists>ws. wait_list t m ws \<and> (ws \<noteq> [] \<longrightarrow> sem_value (sems t m) = 0)
          \<and> (\<forall>w\<in>set ws. p_state (procs t w) = PROC_SLEEPING \<and> w \<notin> H))
     \<and> (\<forall>c. current t = Some c \<longrightarrow> c \<noteq> i \<longrightarrow>
          (c \<notin> H \<longrightarrow> down_enter default_sched_class m c t \<noteq> None)
          \<and> (c \<in> H - W \<longrightarrow> up default_sched_class m t \<noteq> None)
          \<and> (c \<in> W \<longrightarrow> down_resume m c t \<noteq> None))"
proof -
  have "rr.sem_good m n i [] c0 (sem_init m n s) {} {}"
    by (rule rr.sem_init_good [OF runq_sched_inv [OF assms(1)] assms(2,3)])
  from rr.sem_reach_good [OF r this] obtain ws c where g: "rr.sem_good m n i ws c t H W" by auto
  note d = rr.sem_goodD [OF g]
  have "\<forall>w\<in>set ws. p_state (procs t w) = PROC_SLEEPING \<and> w \<notin> H"
    using g by (simp add: rr.sem_good_def)
  moreover have "down_enter default_sched_class m c t \<noteq> None" if "c \<notin> H" "c \<noteq> i"
    using rr.down_blocks [OF g _ that]
    by (cases "0 < sem_value (sems t m)") (auto simp: down_enter_def sem_down_enter_def)
  moreover have "up default_sched_class m t \<noteq> None" if "c \<in> H" "c \<notin> W"
  proof (cases ws)
    case Nil
    then show ?thesis using rr.up_free(1) [OF g [unfolded Nil] that] by simp
  next
    case (Cons w ws')
    then show ?thesis using rr.up_hands_over [OF g [unfolded Cons] that] by auto
  qed
  moreover have "down_resume m c t \<noteq> None" if "c \<in> W" using rr.resume_good(1) [OF g that] by simp
  ultimately show ?thesis using d by auto
qed

theorem semaphore_safe_witness:
  "\<exists>s t. sem_reach default_sched_class 7 (sem_init 7 1 s) (t, {2}, {}) \<and> sem_value (sems t 7) = 0"
proof -
  obtain s0 where s0: "runq_ok s0 [3, 4] 2 1" using example_runq by blast
  let ?s = "s0\<lparr>wait_links := \<lparr>lnext = id, lprev = id\<rparr>\<rparr>"
  have r: "runq_ok ?s [3, 4] 2 1"
    using s0 unfolding runq_ok_def rq_list_def unlinked_def by simp blast
  have w: "\<forall>w. \<not> wait_in_queue w ?s" by (simp add: wait_in_queue_def list_empty_def)
  let ?i = "sem_init 7 1 ?s"
  have k: "current ?i = Some 2" "Some 2 \<noteq> idleproc ?i"
    using r by (simp_all add: sem_init_def wait_queue_init_def runq_ok_def)
  have "down_enter default_sched_class 7 2 ?i
      = Some (False, upd_sem 7 (\<lambda>x. x\<lparr>sem_value := sem_value x - 1\<rparr>) ?i)"
    by (simp add: down_enter_def sem_down_enter_def sem_init_def wait_queue_init_def)
  then have "sem_step default_sched_class 7 (?i, {}, {})
      (upd_sem 7 (\<lambda>x. x\<lparr>sem_value := sem_value x - 1\<rparr>) ?i, insert 2 {}, {})"
    using k by (intro sem_step.acquire) auto
  then have reach: "sem_reach default_sched_class 7 ?i
      (upd_sem 7 (\<lambda>x. x\<lparr>sem_value := sem_value x - 1\<rparr>) ?i, {2}, {})"
    by (rule sem_reach.step [OF sem_reach.start])
  let ?t = "upd_sem 7 (\<lambda>x. x\<lparr>sem_value := sem_value x - 1\<rparr>) ?i"
  have "int (card {2::nat}) + sem_value (sems ?t 7) = 1"
    using semaphore_safe [OF r _ w reach] by simp
  then have "sem_value (sems ?t 7) = 0" by simp
  then show ?thesis using reach by blast
qed

end
