(* ===== verification/Strings.thy ===== *)
theory Strings
  imports Prelude
begin

text \<open>
  The string and memory routines of \<open>libs/string.c\<close> and \<open>kern/libs/string.c\<close>.  Memory is a
  function from addresses to bytes; a routine that looks for a terminator is \<open>None\<close> when there is
  none.  \<open>char\<close> is unsigned on this architecture.  The first part of the file is the code, the second relates it to lists of bytes.
\<close>

type_synonym mem = "nat \<Rightarrow> 8 word"

section \<open>libs/string.c\<close>

partial_function (option) strlen_loop :: "mem \<Rightarrow> nat \<Rightarrow> nat \<Rightarrow> nat option" where
  "strlen_loop m s cnt = (if m s \<noteq> 0 then strlen_loop m (s + 1) (cnt + 1) else Some cnt)"

definition strlen :: "mem \<Rightarrow> nat \<Rightarrow> nat option" where
  "strlen m s = strlen_loop m s 0"

function strnlen_loop :: "mem \<Rightarrow> nat \<Rightarrow> nat \<Rightarrow> nat \<Rightarrow> nat" where
  "strnlen_loop m s len cnt =
     (if cnt < len \<and> m s \<noteq> 0 then strnlen_loop m (s + 1) len (cnt + 1) else cnt)"
  by pat_completeness auto
termination by (relation "measure (\<lambda>(m, s, len, cnt). len - cnt)") auto

declare strnlen_loop.simps [simp del]

definition strnlen :: "mem \<Rightarrow> nat \<Rightarrow> nat \<Rightarrow> nat" where
  "strnlen m s len = strnlen_loop m s len 0"

partial_function (option) strcpy :: "mem \<Rightarrow> nat \<Rightarrow> nat \<Rightarrow> mem option" where
  "strcpy m p src =
     (let c = m src; m' = m(p := c)
      in if c \<noteq> 0 then strcpy m' (p + 1) (src + 1) else Some m')"

primrec strncpy :: "mem \<Rightarrow> nat \<Rightarrow> nat \<Rightarrow> nat \<Rightarrow> mem" where
  "strncpy m p src 0 = m"
| "strncpy m p src (Suc len) =
     (let c = m src in strncpy (m(p := c)) (p + 1) (if c \<noteq> 0 then src + 1 else src) len)"

definition strcat :: "mem \<Rightarrow> nat \<Rightarrow> nat \<Rightarrow> mem option" where
  "strcat m dst src = do { n \<leftarrow> strlen m dst; strcpy m (dst + n) src }"

definition byte_diff :: "8 word \<Rightarrow> 8 word \<Rightarrow> int" where
  "byte_diff a b = uint a - uint b"

partial_function (option) strcmp :: "mem \<Rightarrow> nat \<Rightarrow> nat \<Rightarrow> int option" where
  "strcmp m s1 s2 =
     (if m s1 \<noteq> 0 \<and> m s1 = m s2 then strcmp m (s1 + 1) (s2 + 1)
      else Some (byte_diff (m s1) (m s2)))"

primrec strncmp :: "mem \<Rightarrow> nat \<Rightarrow> nat \<Rightarrow> nat \<Rightarrow> int" where
  "strncmp m s1 s2 0 = 0"
| "strncmp m s1 s2 (Suc n) =
     (if m s1 \<noteq> 0 \<and> m s1 = m s2 then strncmp m (s1 + 1) (s2 + 1) n
      else byte_diff (m s1) (m s2))"

partial_function (option) strchr :: "mem \<Rightarrow> nat \<Rightarrow> 8 word \<Rightarrow> nat option option" where
  "strchr m s c =
     (if m s \<noteq> 0 then (if m s = c then Some (Some s) else strchr m (s + 1) c) else Some None)"

partial_function (option) strfind :: "mem \<Rightarrow> nat \<Rightarrow> 8 word \<Rightarrow> nat option" where
  "strfind m s c =
     (if m s \<noteq> 0 then (if m s = c then Some s else strfind m (s + 1) c) else Some s)"

partial_function (option) skip_blanks :: "mem \<Rightarrow> nat \<Rightarrow> nat option" where
  "skip_blanks m s = (if m s = 32 \<or> m s = 9 then skip_blanks m (s + 1) else Some s)"

definition digit_value :: "8 word \<Rightarrow> nat option" where
  "digit_value c =
     (if 48 \<le> c \<and> c \<le> 57 then Some (unat c - 48)
      else if 97 \<le> c \<and> c \<le> 122 then Some (unat c - 97 + 10)
      else if 65 \<le> c \<and> c \<le> 90 then Some (unat c - 65 + 10)
      else None)"

partial_function (option) strtol_digits :: "mem \<Rightarrow> nat \<Rightarrow> nat \<Rightarrow> 64 word \<Rightarrow> (64 word \<times> nat) option" where
  "strtol_digits m s base val =
     (case digit_value (m s) of
        None \<Rightarrow> Some (val, s)
      | Some dig \<Rightarrow> if dig \<ge> base then Some (val, s)
                    else strtol_digits m (s + 1) base (val * of_nat base + of_nat dig))"

text \<open>The result and the final \<open>endptr\<close>; \<open>long\<close> arithmetic wraps.\<close>

definition strtol :: "mem \<Rightarrow> nat \<Rightarrow> nat \<Rightarrow> (64 word \<times> nat) option" where
  "strtol m s base = do {
     s1 \<leftarrow> skip_blanks m s;
     let (s2, neg) = (if m s1 = 43 then (s1 + 1, False)
                      else if m s1 = 45 then (s1 + 1, True) else (s1, False));
     let (s3, b) = (if (base = 0 \<or> base = 16) \<and> m s2 = 48 \<and> m (s2 + 1) = 120 then (s2 + 2, 16)
                    else if base = 0 \<and> m s2 = 48 then (s2 + 1, 8)
                    else if base = 0 then (s2, 10) else (s2, base));
     (val, s4) \<leftarrow> strtol_digits m s3 b 0;
     Some (if neg then - val else val, s4)
   }"

primrec memset :: "mem \<Rightarrow> nat \<Rightarrow> 8 word \<Rightarrow> nat \<Rightarrow> mem" where
  "memset m p c 0 = m"
| "memset m p c (Suc n) = memset (m(p := c)) (p + 1) c n"

primrec move_up :: "mem \<Rightarrow> nat \<Rightarrow> nat \<Rightarrow> nat \<Rightarrow> mem" where
  "move_up m d s 0 = m"
| "move_up m d s (Suc n) = move_up (m(d := m s)) (d + 1) (s + 1) n"

primrec move_down :: "mem \<Rightarrow> nat \<Rightarrow> nat \<Rightarrow> nat \<Rightarrow> mem" where
  "move_down m d s 0 = m"
| "move_down m d s (Suc n) = move_down (m(d - 1 := m (s - 1))) (d - 1) (s - 1) n"

definition memmove :: "mem \<Rightarrow> nat \<Rightarrow> nat \<Rightarrow> nat \<Rightarrow> mem" where
  "memmove m d s n =
     (if s < d \<and> d < s + n then move_down m (d + n) (s + n) n else move_up m d s n)"

definition memcpy :: "mem \<Rightarrow> nat \<Rightarrow> nat \<Rightarrow> nat \<Rightarrow> mem" where
  "memcpy m d s n = move_up m d s n"

primrec memcmp :: "mem \<Rightarrow> nat \<Rightarrow> nat \<Rightarrow> nat \<Rightarrow> int" where
  "memcmp m s1 s2 0 = 0"
| "memcmp m s1 s2 (Suc n) =
     (if m s1 \<noteq> m s2 then byte_diff (m s1) (m s2) else memcmp m (s1 + 1) (s2 + 1) n)"

section \<open>kern/libs/string.c\<close>

text \<open>\<open>dst\<close> is what \<open>kmalloc\<close> returned.\<close>

definition strdup :: "mem \<Rightarrow> nat option \<Rightarrow> nat \<Rightarrow> mem option" where
  "strdup m dst src = do {
     len \<leftarrow> strlen m src;
     case dst of
       Some d \<Rightarrow> Some ((memcpy m d src len)(d + len := 0))
     | None \<Rightarrow> Some m
   }"

definition stradd :: "mem \<Rightarrow> nat option \<Rightarrow> nat \<Rightarrow> nat \<Rightarrow> mem option" where
  "stradd m dst src1 src2 = do {
     len1 \<leftarrow> strlen m src1;
     len2 \<leftarrow> strlen m src2;
     case dst of
       Some d \<Rightarrow>
         (let m1 = memcpy m d src1 len1; d1 = d + len1;
              m2 = memcpy m1 d1 src2 len2; d2 = d1 + len2
          in Some (m2(d2 := 0)))
     | None \<Rightarrow> Some m
   }"

section \<open>Strings as lists\<close>

text \<open>\<open>bytes m a xs\<close>: the bytes \<open>xs\<close> stand at \<open>a\<close>; \<open>cstr m a xs\<close>: followed by the terminator and
  not containing it.\<close>

primrec bytes :: "mem \<Rightarrow> nat \<Rightarrow> 8 word list \<Rightarrow> bool" where
  "bytes m a [] \<longleftrightarrow> True"
| "bytes m a (x # xs) \<longleftrightarrow> m a = x \<and> bytes m (a + 1) xs"

definition cstr :: "mem \<Rightarrow> nat \<Rightarrow> 8 word list \<Rightarrow> bool" where
  "cstr m a xs \<longleftrightarrow> bytes m a (xs @ [0]) \<and> 0 \<notin> set xs"

lemma bytes_append [simp]: "bytes m a (xs @ ys) \<longleftrightarrow> bytes m a xs \<and> bytes m (a + length xs) ys"
  by (induction xs arbitrary: a) auto

lemma bytes_nth: "bytes m a xs \<longleftrightarrow> (\<forall>i<length xs. m (a + i) = xs ! i)"
proof (induction xs arbitrary: a)
  case (Cons x xs)
  show ?case
  proof
    assume "bytes m a (x # xs)"
    then show "\<forall>i<length (x # xs). m (a + i) = (x # xs) ! i"
      using Cons.IH [of "a + 1"] by (auto simp: less_Suc_eq_0_disj)
  next
    assume r: "\<forall>i<length (x # xs). m (a + i) = (x # xs) ! i"
    have "\<forall>i<length xs. m (a + 1 + i) = xs ! i" using r by (auto dest: spec [of _ "Suc _"])
    moreover have "m a = x" using r by (auto dest: spec [of _ 0])
    ultimately show "bytes m a (x # xs)" using Cons.IH [of "a + 1"] by simp
  qed
qed simp

lemma bytes_cong:
  "(\<And>i. i < length xs \<Longrightarrow> m' (a + i) = m (a + i)) \<Longrightarrow> bytes m' a xs = bytes m a xs"
  by (simp add: bytes_nth)

lemma cstr_simps [simp]:
  "cstr m a [] \<longleftrightarrow> m a = 0" "cstr m a (x # xs) \<longleftrightarrow> m a = x \<and> x \<noteq> 0 \<and> cstr m (a + 1) xs"
  by (auto simp: cstr_def)

lemma cstr_unique: "cstr m a xs \<Longrightarrow> cstr m a ys \<Longrightarrow> xs = ys"
proof (induction xs arbitrary: a ys)
  case Nil
  then show ?case by (cases ys) auto
next
  case (Cons x xs)
  then show ?case by (cases ys) auto
qed

lemma strlen_ok:
  assumes "cstr m s xs"
  shows "strlen m s = Some (length xs)"
proof -
  have "strlen_loop m s k = Some (k + length xs)" for k
    using assms
  proof (induction xs arbitrary: s k)
    case Nil
    then show ?case by (subst strlen_loop.simps) simp
  next
    case (Cons x xs)
    then show ?case by (subst strlen_loop.simps) simp
  qed
  then show ?thesis by (simp add: strlen_def)
qed

lemma strnlen_ok:
  assumes "cstr m s xs"
  shows "strnlen m s len = min len (length xs)"
proof -
  have "strnlen_loop m s len k = min len (k + length xs)" if "k \<le> len" for k
    using assms that
  proof (induction xs arbitrary: s k)
    case Nil
    then show ?case by (subst strnlen_loop.simps) simp
  next
    case (Cons x xs)
    then show ?case by (subst strnlen_loop.simps) (simp add: min_def)
  qed
  from this [of 0] show ?thesis by (simp add: strnlen_def)
qed

lemma move_up_eq:
  assumes "\<not> (s < d \<and> d < s + n)"
  shows "move_up m d s n = (\<lambda>a. if d \<le> a \<and> a < d + n then m (s + (a - d)) else m a)"
  using assms
proof (induction n arbitrary: m d s)
  case (Suc n)
  have g: "\<not> (s + 1 < d + 1 \<and> d + 1 < s + 1 + n)" using Suc.prems by auto
  show ?case
    unfolding move_up.simps Suc.IH [OF g]
    by (rule ext) (use Suc.prems in \<open>auto simp: Suc_diff_le le_Suc_eq intro!: arg_cong [of _ _ m]\<close>)
qed (auto simp: fun_eq_iff)

lemma move_down_eq:
  assumes "s \<le> d"
  shows "move_down m (d + n) (s + n) n = (\<lambda>a. if d \<le> a \<and> a < d + n then m (s + (a - d)) else m a)"
  using assms
proof (induction n arbitrary: m)
  case (Suc n)
  have e: "d + Suc n - 1 = d + n" "s + Suc n - 1 = s + n" by simp_all
  show ?case
    unfolding move_down.simps e Suc.IH [OF Suc.prems]
    by (rule ext) (use Suc.prems in auto)
qed (auto simp: fun_eq_iff)

lemma memcpy_disjoint:
  assumes "bytes m s xs" and "d + length xs \<le> s \<or> s + length xs \<le> d"
  shows "bytes (memcpy m d s (length xs)) d xs"
    and "\<And>a. a < d \<or> d + length xs \<le> a \<Longrightarrow> memcpy m d s (length xs) a = m a"
  using assms by (auto simp: memcpy_def move_up_eq bytes_nth)

lemma memset_eq: "memset m p c n = (\<lambda>a. if p \<le> a \<and> a < p + n then c else m a)"
  by (induction n arbitrary: m p) (auto simp: fun_eq_iff)

lemma strcpy_ok:
  assumes "cstr m s xs" and "p + length xs < s \<or> s + length xs < p"
  shows "\<exists>m'. strcpy m p s = Some m' \<and> cstr m' p xs \<and> (\<forall>a. a < p \<or> p + length xs < a \<longrightarrow> m' a = m a)"
  using assms
proof (induction xs arbitrary: m p s)
  case Nil
  then show ?case by (subst strcpy.simps) simp
next
  case (Cons x xs)
  define m1 where "m1 = m(p := m s)"
  have s1: "bytes m (s + 1) (xs @ [0])" "0 \<notin> set xs" "m s = x" "x \<noteq> 0"
    using Cons.prems(1) by (auto simp: cstr_def)
  have "bytes m1 (s + 1) (xs @ [0]) = bytes m (s + 1) (xs @ [0])"
    by (rule bytes_cong) (use Cons.prems(2) in \<open>auto simp: m1_def\<close>)
  then have c: "cstr m1 (s + 1) xs" using s1 unfolding cstr_def by blast
  have "p + 1 + length xs < s + 1 \<or> s + 1 + length xs < p + 1" using Cons.prems(2) by auto
  from Cons.IH [OF c this]
  obtain m' where m': "strcpy m1 (p + 1) (s + 1) = Some m'" "cstr m' (p + 1) xs"
    "\<forall>a. a < p + 1 \<or> p + 1 + length xs < a \<longrightarrow> m' a = m1 a" by blast
  have "strcpy m p s = Some m'" using m'(1) s1 by (subst strcpy.simps) (simp add: Let_def m1_def)
  moreover have "m' p = x" using m'(3) s1 by (simp add: m1_def)
  ultimately show ?case using m'(2,3) s1 by (intro exI [of _ m']) (auto simp: m1_def)
qed

lemma strncpy_ok:
  assumes "cstr m s xs" and "p + len \<le> s \<or> s + length xs < p"
  shows "strncpy m p s len = (\<lambda>a. if p \<le> a \<and> a < p + len
     then (if a - p < length xs then xs ! (a - p) else 0) else m a)"
  using assms
proof (induction len arbitrary: m p s xs)
  case (Suc len)
  define m1 where "m1 = m(p := m s)"
  have step: "strncpy m p s (Suc len) = strncpy m1 (p + 1) (if m s \<noteq> 0 then s + 1 else s) len"
    by (simp add: m1_def Let_def)
  show ?case
  proof (cases xs)
    case Nil
    then have "cstr m1 s []" using Suc.prems by (auto simp: m1_def)
    moreover have "p + 1 + len \<le> s \<or> s + length [] < p + 1" using Suc.prems(2) Nil by auto
    ultimately have i: "strncpy m1 (p + 1) s len = (\<lambda>a. if p + 1 \<le> a \<and> a < p + 1 + len then 0 else m1 a)"
      using Suc.IH [of m1 s "[]" "p + 1"] by (auto simp: fun_eq_iff)
    have z: "m s = 0" using Suc.prems(1) Nil by simp
    have "strncpy m p s (Suc len) = strncpy m1 (p + 1) s len" using step z by simp
    then show ?thesis
      unfolding i by (auto simp: fun_eq_iff Nil m1_def z)
  next
    case (Cons x ys)
    have b: "bytes m (s + 1) (ys @ [0])" "0 \<notin> set ys" "m s = x" "x \<noteq> 0"
      using Suc.prems(1) Cons by (auto simp: cstr_def)
    have "bytes m1 (s + 1) (ys @ [0]) = bytes m (s + 1) (ys @ [0])"
      by (rule bytes_cong) (use Suc.prems(2) Cons in \<open>auto simp: m1_def\<close>)
    then have "cstr m1 (s + 1) ys" using b unfolding cstr_def by blast
    moreover have "p + 1 + len \<le> s + 1 \<or> s + 1 + length ys < p + 1" using Suc.prems(2) Cons by auto
    ultimately have i: "strncpy m1 (p + 1) (s + 1) len = (\<lambda>a. if p + 1 \<le> a \<and> a < p + 1 + len
        then (if a - (p + 1) < length ys then ys ! (a - (p + 1)) else 0) else m1 a)"
      by (rule Suc.IH)
    have "strncpy m p s (Suc len) = strncpy m1 (p + 1) (s + 1) len" using step b by simp
    then show ?thesis
      unfolding i using b by (auto simp: fun_eq_iff Cons nth_Cons' m1_def)
  qed
qed (auto simp: fun_eq_iff)

lemma byte_diff_sign [simp]: "byte_diff a b < 0 \<longleftrightarrow> a < b" "byte_diff a b = 0 \<longleftrightarrow> a = b"
  by (simp_all add: byte_diff_def word_less_def word_uint_eq_iff)

lemma strcmp_ok:
  assumes "cstr m a xs" and "cstr m b ys"
  shows "\<exists>r. strcmp m a b = Some r \<and> (r = 0 \<longleftrightarrow> xs = ys) \<and> (r < 0 \<longleftrightarrow> (xs, ys) \<in> lexord {(u, v). u < v})"
  using assms
proof (induction xs arbitrary: a b ys)
  case Nil
  then show ?case
    by (cases ys; subst strcmp.simps) (auto simp: word_gt_0)
next
  case (Cons x xs)
  show ?case
  proof (cases ys)
    case Nil
    then show ?thesis using Cons.prems by (subst strcmp.simps) auto
  next
    case ys: (Cons y ys')
    show ?thesis
    proof (cases "x = y")
      case True
      then have "strcmp m a b = strcmp m (a + 1) (b + 1)"
        using Cons.prems ys by (subst strcmp.simps) simp
      then show ?thesis using Cons.IH [of "a + 1" "b + 1" ys'] Cons.prems ys True by simp
    next
      case False
      then have "strcmp m a b = Some (byte_diff x y)" using Cons.prems ys by (subst strcmp.simps) simp
      then show ?thesis using False ys by simp
    qed
  qed
qed

lemma strchr_ok:
  assumes "cstr m s xs"
  shows "strchr m s c = Some (if c \<in> set xs then Some (s + length (takeWhile (\<lambda>x. x \<noteq> c) xs)) else None)"
    and "strfind m s c = Some (s + length (takeWhile (\<lambda>x. x \<noteq> c) xs))"
  using assms
proof (induction xs arbitrary: s)
  case Nil
  case 1
  then show ?case by (subst strchr.simps) simp
next
  case Nil
  case 2
  then show ?case by (subst strfind.simps) simp
next
  case (Cons x xs)
  case 1
  then show ?case using Cons.IH [of "s + 1"] by (subst strchr.simps) auto
next
  case (Cons x xs)
  case 2
  then show ?case using Cons.IH [of "s + 1"] by (subst strfind.simps) auto
qed

lemma stradd_ok:
  assumes "cstr m a xs" and "cstr m b ys"
    and "d + length xs + length ys < a \<or> a + length xs < d"
    and "d + length xs + length ys < b \<or> b + length ys < d"
  shows "\<exists>m'. stradd m (Some d) a b = Some m' \<and> cstr m' d (xs @ ys)
     \<and> (\<forall>x. x < d \<or> d + length xs + length ys < x \<longrightarrow> m' x = m x)"
proof -
  define m1 where "m1 = memcpy m d a (length xs)"
  have a: "bytes m a xs" "0 \<notin> set xs" and b: "bytes m b ys" "0 \<notin> set ys"
    using assms(1,2) by (auto simp: cstr_def)
  have da: "d + length xs \<le> a \<or> a + length xs \<le> d" using assms(3) by auto
  note c1 = memcpy_disjoint [OF a(1) da, folded m1_def]
  have "bytes m1 b ys = bytes m b ys"
    by (rule bytes_cong) (use c1(2) assms(4) in auto)
  then have b1: "bytes m1 b ys" using b(1) by simp
  have db: "d + length xs + length ys \<le> b \<or> b + length ys \<le> d + length xs" using assms(4) by auto
  define m2 where "m2 = memcpy m1 (d + length xs) b (length ys)"
  note c2 = memcpy_disjoint [OF b1 db, folded m2_def]
  let ?m = "m2(d + length xs + length ys := 0)"
  have "stradd m (Some d) a b = Some ?m"
    using strlen_ok [OF assms(1)] strlen_ok [OF assms(2)] by (simp add: stradd_def Let_def m1_def m2_def)
  moreover have "bytes ?m d xs = bytes m1 d xs"
    by (rule bytes_cong) (use c2(2) in auto)
  moreover have "bytes ?m (d + length xs) ys = bytes m2 (d + length xs) ys"
    by (rule bytes_cong) auto
  moreover have "?m x = m x" if "x < d \<or> d + length xs + length ys < x" for x
    using that c1(2) [of x] c2(2) [of x] by auto
  ultimately show ?thesis using c1(1) c2(1) a(2) b(2)
    by (intro exI [of _ ?m]) (auto simp: cstr_def add.assoc)
qed

section \<open>Reading numbers\<close>

text \<open>The number that digit values \<open>ds\<close> write in base \<open>b\<close>.\<close>

definition number :: "nat \<Rightarrow> nat \<Rightarrow> nat list \<Rightarrow> nat" where
  "number b v ds = foldl (\<lambda>v d. v * b + d) v ds"

lemma strtol_digits_ok:
  assumes "bytes m s xs" and "\<forall>x\<in>set xs. \<exists>d<b. digit_value x = Some d"
    and "\<And>d. digit_value (m (s + length xs)) = Some d \<Longrightarrow> b \<le> d"
  shows "strtol_digits m s b (of_nat v)
     = Some (of_nat (number b v (map (\<lambda>x. the (digit_value x)) xs)), s + length xs)"
  using assms
proof (induction xs arbitrary: s v)
  case Nil
  then show ?case by (subst strtol_digits.simps) (auto simp: number_def split: option.split)
next
  case (Cons x xs)
  obtain d where d: "digit_value x = Some d" "d < b" using Cons.prems(2) by auto
  have "strtol_digits m s b (of_nat v) = strtol_digits m (s + 1) b (of_nat (v * b + d))"
    using d Cons.prems(1) by (subst strtol_digits.simps) simp
  then show ?case using Cons.IH [of "s + 1" "v * b + d"] Cons.prems d by (simp add: number_def)
qed

text \<open>Decimal numbers: an optional sign, digits, and something that is not a digit.\<close>

lemma decimal_digits:
  assumes "bytes m s xs" and "\<forall>x\<in>set xs. 48 \<le> x \<and> x \<le> 57"
    and "\<not> (48 \<le> m (s + length xs) \<and> m (s + length xs) \<le> 57)"
  shows "strtol_digits m s 10 0 = Some (of_nat (number 10 0 (map (\<lambda>x. unat x - 48) xs)), s + length xs)"
proof -
  have dig: "digit_value y = Some (unat y - 48) \<and> unat y - 48 < 10" if "48 \<le> y" "y \<le> 57" for y :: "8 word"
    using that by (auto simp: digit_value_def word_le_nat_alt)
  have rest: "10 \<le> d" if "digit_value (m (s + length xs)) = Some d" for d
    using that assms(3) by (auto simp: digit_value_def split: if_splits)
  have all: "\<forall>y\<in>set xs. \<exists>d<10. digit_value y = Some d" using assms(2) dig by blast
  have e: "map (\<lambda>x. the (digit_value x)) xs = map (\<lambda>x. unat x - 48) xs" using assms(2) dig by auto
  show ?thesis using strtol_digits_ok [OF assms(1) all rest, of 0] unfolding e by simp
qed

lemma strtol_decimal:
  assumes "bytes m s xs" and "xs \<noteq> []" and "\<forall>x\<in>set xs. 48 \<le> x \<and> x \<le> 57"
    and "\<not> (48 \<le> m (s + length xs) \<and> m (s + length xs) \<le> 57)"
  shows "strtol m s 10 = Some (of_nat (number 10 0 (map (\<lambda>x. unat x - 48) xs)), s + length xs)"
proof -
  obtain x ys where xs: "xs = x # ys" using assms(2) by (cases xs) auto
  then have x: "m s = x" "48 \<le> x" "x \<le> 57" using assms(1,3) by auto
  have ne: "m s \<noteq> 32" "m s \<noteq> 9" "m s \<noteq> 43" "m s \<noteq> 45" using x by auto
  then have k: "skip_blanks m s = Some s" by (subst skip_blanks.simps) simp
  show ?thesis using ne k decimal_digits [OF assms(1,3,4)] by (simp add: strtol_def)
qed

lemma strtol_minus:
  assumes "m s = 45" and "bytes m (s + 1) xs" and "\<forall>x\<in>set xs. 48 \<le> x \<and> x \<le> 57"
    and "\<not> (48 \<le> m (s + 1 + length xs) \<and> m (s + 1 + length xs) \<le> 57)"
  shows "strtol m s 10 = Some (- of_nat (number 10 0 (map (\<lambda>x. unat x - 48) xs)), s + 1 + length xs)"
proof -
  have k: "skip_blanks m s = Some s" using assms(1) by (subst skip_blanks.simps) simp
  show ?thesis using k assms(1) decimal_digits [OF assms(2-4)] by (simp add: strtol_def)
qed

section \<open>Properties\<close>

text \<open>C24: \<open>memmove\<close> is right for every overlap of source and destination: each destination byte gets
  the byte the source had before the call, nothing else changes.\<close>

theorem memmove_copies:
  "memmove m d s n = (\<lambda>a. if d \<le> a \<and> a < d + n then m (s + (a - d)) else m a)"
  unfolding memmove_def using move_up_eq [of s d n m] move_down_eq [of s d m n] by auto

text \<open>On terminated strings \<open>strcmp\<close> returns; its sign is the lexicographic order of the bytes
  and 0 means equal, \<open>strlen\<close>, \<open>strnlen\<close>, \<open>strchr\<close> and \<open>strfind\<close> give the length and the first occurrence.\<close>

theorem string_queries:
  assumes "cstr m a xs" and "cstr m b ys"
  shows "(\<exists>r. strcmp m a b = Some r \<and> (r = 0 \<longleftrightarrow> xs = ys) \<and> (r < 0 \<longleftrightarrow> (xs, ys) \<in> lexord {(u, v). u < v}))
     \<and> strlen m a = Some (length xs) \<and> strnlen m a n = min n (length xs)
     \<and> strfind m a c = Some (a + length (takeWhile (\<lambda>x. x \<noteq> c) xs))
     \<and> strchr m a c = Some (if c \<in> set xs then Some (a + length (takeWhile (\<lambda>x. x \<noteq> c) xs)) else None)"
  using strcmp_ok [OF assms] strlen_ok [OF assms(1)] strnlen_ok [OF assms(1)] strchr_ok [OF assms(1)] by blast

theorem string_queries_witness:
  "\<exists>r. strcmp ((\<lambda>_. 0)(5 := 97, 6 := 98, 9 := 97, 10 := 99)) 5 9 = Some r \<and> r < 0"
proof -
  let ?m = "(\<lambda>_. 0)(5 := 97, 6 := 98, 9 := 97, 10 := 99) :: mem"
  have "cstr ?m 5 [97, 98]" "cstr ?m 9 [97, 99]" by simp_all
  from string_queries [OF this] show ?thesis by auto
qed

text \<open>Copying routines: \<open>strcpy\<close>, \<open>strcat\<close> and \<open>stradd\<close> on disjoint regions produce
  the string, and the concatenation of two strings, and write nothing outside it.\<close>

lemma string_copies:
  assumes "cstr m a xs" and "cstr m b ys" and "cstr m e zs"
    and "d + length xs + length ys < a \<or> a + length xs < d"
    and "d + length xs + length ys < b \<or> b + length ys < d"
    and "e + length zs + length ys < b \<or> b + length ys < e"
  shows "(\<exists>m'. strcpy m d a = Some m' \<and> cstr m' d xs \<and> (\<forall>x. x < d \<or> d + length xs < x \<longrightarrow> m' x = m x))
     \<and> (\<exists>m'. strcat m e b = Some m' \<and> cstr m' e (zs @ ys)
          \<and> (\<forall>x. x < e + length zs \<or> e + length zs + length ys < x \<longrightarrow> m' x = m x))
     \<and> (\<exists>m'. stradd m (Some d) a b = Some m' \<and> cstr m' d (xs @ ys)
          \<and> (\<forall>x. x < d \<or> d + length xs + length ys < x \<longrightarrow> m' x = m x))"
proof (intro conjI)
  show "\<exists>m'. strcpy m d a = Some m' \<and> cstr m' d xs \<and> (\<forall>x. x < d \<or> d + length xs < x \<longrightarrow> m' x = m x)"
    using strcpy_ok [OF assms(1), of d] assms(4) by auto
  show "\<exists>m'. stradd m (Some d) a b = Some m' \<and> cstr m' d (xs @ ys)
     \<and> (\<forall>x. x < d \<or> d + length xs + length ys < x \<longrightarrow> m' x = m x)"
    by (rule stradd_ok [OF assms(1,2,4,5)])
  obtain m' where m': "strcpy m (e + length zs) b = Some m'" "cstr m' (e + length zs) ys"
    "\<forall>x. x < e + length zs \<or> e + length zs + length ys < x \<longrightarrow> m' x = m x"
    using strcpy_ok [OF assms(2), of "e + length zs"] assms(6) by auto
  have z: "bytes m e zs" "0 \<notin> set zs" using assms(3) by (auto simp: cstr_def)
  have "bytes m' e zs = bytes m e zs" by (rule bytes_cong) (use m'(3) in auto)
  then have "cstr m' e (zs @ ys)" using z m'(2) by (auto simp: cstr_def add.assoc)
  moreover have "strcat m e b = Some m'" using strlen_ok [OF assms(3)] m'(1) by (simp add: strcat_def)
  ultimately show "\<exists>m'. strcat m e b = Some m' \<and> cstr m' e (zs @ ys)
     \<and> (\<forall>x. x < e + length zs \<or> e + length zs + length ys < x \<longrightarrow> m' x = m x)" using m'(3) by blast
qed

end
