(* ===== verification/Vmm_Model.thy ===== *)
theory Vmm_Model
  imports Paging_Model Semaphore Strings
begin

text \<open>
  Virtual memory areas and address spaces: \<open>kern/mm/vmm.c\<close> and \<open>vmm.h\<close>.  The state holds the kernel
  state of the processes and semaphores, the physical memory, the areas and the address spaces by
  address, and the blocks that \<open>kmalloc\<close> still has to give (its own code is the SLOB allocator).
  The semaphore \<open>mm_sem\<close> of the address space \<open>m\<close> is the semaphore \<open>m\<close>.  User memory is the byte store
  that the current page table shows; the kernel's accesses to it go through that page table.
\<close>

definition VM_READ :: "32 word" where "VM_READ = 1"
definition VM_WRITE :: "32 word" where "VM_WRITE = 2"
definition VM_EXEC :: "32 word" where "VM_EXEC = 4"
definition VM_STACK :: "32 word" where "VM_STACK = 8"

record vma_struct =
  vma_mm :: "nat option"
  vma_start :: "64 word"
  vma_end :: "64 word"
  vma_flags :: "32 word"

datatype mnode = MmapList nat | VmaLink nat

fun le2vma :: "mnode \<Rightarrow> nat option" where
  "le2vma (VmaLink v) = Some v"
| "le2vma (MmapList m) = None"

record mm_struct =
  mm_cache :: "nat option"
  mm_pgdir :: "nat option"
  mm_map_count :: int
  mm_users :: int
  mm_locked_by :: int

record vmm =
  vm_kern :: kern
  vm_mem :: pmem
  vm_links :: "mnode links"
  vm_vmas :: "nat \<Rightarrow> vma_struct"
  vm_mms :: "nat \<Rightarrow> mm_struct"
  vm_pool :: "nat list"

definition upd_mm :: "nat \<Rightarrow> (mm_struct \<Rightarrow> mm_struct) \<Rightarrow> vmm \<Rightarrow> vmm" where
  "upd_mm m f s = s\<lparr>vm_mms := (vm_mms s)(m := f (vm_mms s m))\<rparr>"

definition upd_vma :: "nat \<Rightarrow> (vma_struct \<Rightarrow> vma_struct) \<Rightarrow> vmm \<Rightarrow> vmm" where
  "upd_vma v f s = s\<lparr>vm_vmas := (vm_vmas s)(v := f (vm_vmas s v))\<rparr>"

definition upd_vlinks :: "(mnode links \<Rightarrow> mnode links) \<Rightarrow> vmm \<Rightarrow> vmm" where
  "upd_vlinks f s = s\<lparr>vm_links := f (vm_links s)\<rparr>"

definition kmalloc_obj :: "vmm \<Rightarrow> nat option \<times> vmm" where
  "kmalloc_obj s = (case vm_pool s of [] \<Rightarrow> (None, s) | a # as \<Rightarrow> (Some a, s\<lparr>vm_pool := as\<rparr>))"

definition kfree_obj :: "nat \<Rightarrow> vmm \<Rightarrow> vmm" where
  "kfree_obj a s = s\<lparr>vm_pool := a # vm_pool s\<rparr>"

section \<open>vmm.h\<close>

definition mm_count :: "nat \<Rightarrow> vmm \<Rightarrow> int" where
  "mm_count m s = mm_users (vm_mms s m)"

definition set_mm_count :: "nat \<Rightarrow> int \<Rightarrow> vmm \<Rightarrow> vmm" where
  "set_mm_count m v = upd_mm m (\<lambda>x. x\<lparr>mm_users := v\<rparr>)"

definition mm_count_inc :: "nat \<Rightarrow> vmm \<Rightarrow> int \<times> vmm" where
  "mm_count_inc m s = (let t = set_mm_count m (mm_count m s + 1) s in (mm_count m t, t))"

definition mm_count_dec :: "nat \<Rightarrow> vmm \<Rightarrow> int \<times> vmm" where
  "mm_count_dec m s = (let t = set_mm_count m (mm_count m s - 1) s in (mm_count m t, t))"

definition set_locked_by :: "nat \<Rightarrow> vmm \<Rightarrow> vmm" where
  "set_locked_by m s =
     (case current (vm_kern s) of
        Some c \<Rightarrow> upd_mm m (\<lambda>x. x\<lparr>mm_locked_by := p_pid (procs (vm_kern s) c)\<rparr>) s
      | None \<Rightarrow> s)"

text \<open>\<open>lock_mm\<close> up to the point where it returns or sleeps (\<open>True\<close>) in \<open>down\<close>, whose wait entry is
  \<open>w\<close>; \<open>lock_mm_resume\<close> is the rest after it was woken.\<close>

definition lock_mm :: "sched_class \<Rightarrow> nat \<Rightarrow> nat option \<Rightarrow> vmm \<Rightarrow> (bool \<times> vmm) option" where
  "lock_mm sc w mm s =
     (case mm of
        None \<Rightarrow> Some (False, s)
      | Some m \<Rightarrow> do {
          (sleeps, k) \<leftarrow> down_enter sc m w (vm_kern s);
          let s1 = s\<lparr>vm_kern := k\<rparr>;
          Some (if sleeps then (True, s1) else (False, set_locked_by m s1))
        })"

definition lock_mm_resume :: "nat \<Rightarrow> nat \<Rightarrow> vmm \<Rightarrow> vmm option" where
  "lock_mm_resume w m s = do {
     k \<leftarrow> down_resume m w (vm_kern s);
     Some (set_locked_by m (s\<lparr>vm_kern := k\<rparr>))
   }"

definition unlock_mm :: "sched_class \<Rightarrow> nat option \<Rightarrow> vmm \<Rightarrow> vmm option" where
  "unlock_mm sc mm s =
     (case mm of
        None \<Rightarrow> Some s
      | Some m \<Rightarrow> do {
          k \<leftarrow> up sc m (vm_kern s);
          Some (upd_mm m (\<lambda>x. x\<lparr>mm_locked_by := 0\<rparr>) (s\<lparr>vm_kern := k\<rparr>))
        })"

section \<open>vmm.c\<close>

definition mm_create :: "vmm \<Rightarrow> nat option \<times> vmm" where
  "mm_create s =
     (case kmalloc_obj s of
        (None, s1) \<Rightarrow> (None, s1)
      | (Some m, s1) \<Rightarrow>
          (let s2 = upd_vlinks (list_init (MmapList m)) s1;
               s3 = upd_mm m (\<lambda>x. x\<lparr>mm_cache := None, mm_pgdir := None, mm_map_count := 0\<rparr>) s2;
               s4 = set_mm_count m 0 s3
           in (Some m, s4\<lparr>vm_kern := sem_init m 1 (vm_kern s4)\<rparr>)))"

definition vma_create :: "64 word \<Rightarrow> 64 word \<Rightarrow> 32 word \<Rightarrow> vmm \<Rightarrow> nat option \<times> vmm" where
  "vma_create start en flags s =
     (case kmalloc_obj s of
        (None, s1) \<Rightarrow> (None, s1)
      | (Some v, s1) \<Rightarrow>
          (Some v, upd_vma v (\<lambda>x. x\<lparr>vma_start := start, vma_end := en, vma_flags := flags\<rparr>) s1))"

definition vma_has :: "vmm \<Rightarrow> nat \<Rightarrow> 64 word \<Rightarrow> bool" where
  "vma_has s v a \<longleftrightarrow> vma_start (vm_vmas s v) \<le> a \<and> a < vma_end (vm_vmas s v)"

partial_function (option) find_vma_loop :: "nat \<Rightarrow> mnode \<Rightarrow> 64 word \<Rightarrow> vmm \<Rightarrow> nat option option" where
  "find_vma_loop m le addr s =
     (let le = list_next le (vm_links s)
      in if le = MmapList m then Some None
         else do {
           v \<leftarrow> le2vma le;
           if vma_has s v addr then Some (Some v) else find_vma_loop m le addr s
         })"

definition find_vma :: "nat option \<Rightarrow> 64 word \<Rightarrow> vmm \<Rightarrow> (nat option \<times> vmm) option" where
  "find_vma mm addr s =
     (case mm of
        None \<Rightarrow> Some (None, s)
      | Some m \<Rightarrow> do {
          vma \<leftarrow> (case mm_cache (vm_mms s m) of
              Some v \<Rightarrow> if vma_has s v addr then Some (Some v) else find_vma_loop m (MmapList m) addr s
            | None \<Rightarrow> find_vma_loop m (MmapList m) addr s);
          Some (vma, case vma of Some v \<Rightarrow> upd_mm m (\<lambda>x. x\<lparr>mm_cache := Some v\<rparr>) s | None \<Rightarrow> s)
        })"

definition check_vma_overlap :: "nat \<Rightarrow> nat \<Rightarrow> vmm \<Rightarrow> unit option" where
  "check_vma_overlap prev nxt s = do {
     kassert (vma_start (vm_vmas s prev) < vma_end (vm_vmas s prev));
     kassert (vma_end (vm_vmas s prev) \<le> vma_start (vm_vmas s nxt));
     kassert (vma_start (vm_vmas s nxt) < vma_end (vm_vmas s nxt))
   }"

partial_function (option) insert_vma_loop :: "nat \<Rightarrow> mnode \<Rightarrow> nat \<Rightarrow> vmm \<Rightarrow> mnode option" where
  "insert_vma_loop m le_prev vma s =
     (let le = list_next le_prev (vm_links s)
      in if le = MmapList m then Some le_prev
         else do {
           mmap_prev \<leftarrow> le2vma le;
           if vma_start (vm_vmas s vma) < vma_start (vm_vmas s mmap_prev) then Some le_prev
           else insert_vma_loop m le vma s
         })"

definition insert_vma_struct :: "nat \<Rightarrow> nat \<Rightarrow> vmm \<Rightarrow> vmm option" where
  "insert_vma_struct m vma s = do {
     kassert (vma_start (vm_vmas s vma) < vma_end (vm_vmas s vma));
     le_prev \<leftarrow> insert_vma_loop m (MmapList m) vma s;
     let le_next = list_next le_prev (vm_links s);
     (if le_prev \<noteq> MmapList m then do { v \<leftarrow> le2vma le_prev; check_vma_overlap v vma s } else Some ());
     (if le_next \<noteq> MmapList m then do { v \<leftarrow> le2vma le_next; check_vma_overlap vma v s } else Some ());
     let s1 = upd_vma vma (\<lambda>x. x\<lparr>vma_mm := Some m\<rparr>) s;
     let s2 = upd_vlinks (list_add_after le_prev (VmaLink vma)) s1;
     Some (upd_mm m (\<lambda>x. x\<lparr>mm_map_count := mm_map_count x + 1\<rparr>) s2)
   }"

partial_function (option) mm_destroy_loop :: "nat \<Rightarrow> vmm \<Rightarrow> vmm option" where
  "mm_destroy_loop m s =
     (let le = list_next (MmapList m) (vm_links s)
      in if le = MmapList m then Some s
         else do {
           v \<leftarrow> le2vma le;
           mm_destroy_loop m (kfree_obj v (upd_vlinks (list_del le) s))
         })"

definition mm_destroy :: "nat \<Rightarrow> vmm \<Rightarrow> vmm option" where
  "mm_destroy m s = do {
     kassert (mm_count m s = 0);
     s1 \<leftarrow> mm_destroy_loop m s;
     Some (kfree_obj m s1)
   }"

definition mm_map_new :: "nat \<Rightarrow> 64 word \<Rightarrow> 64 word \<Rightarrow> 32 word \<Rightarrow> vmm \<Rightarrow> (int \<times> nat option \<times> vmm) option" where
  "mm_map_new m start en flags s =
     (case vma_create start en flags s of
        (None, s1) \<Rightarrow> Some (- E_NO_MEM, None, s1)
      | (Some vma, s1) \<Rightarrow> do {
          s2 \<leftarrow> insert_vma_struct m vma s1;
          Some (0, Some vma, s2)
        })"

text \<open>The result and what \<open>*vma_store\<close> receives.\<close>

definition mm_map :: "nat option \<Rightarrow> 64 word \<Rightarrow> 64 word \<Rightarrow> 32 word \<Rightarrow> vmm \<Rightarrow> (int \<times> nat option \<times> vmm) option" where
  "mm_map mm addr len flags s = do {
     let start = ROUNDDOWN addr PGSIZE;
     let en = ROUNDUP (addr + len) PGSIZE;
     if \<not> USER_ACCESS start en then Some (- E_INVAL, None, s)
     else do {
       m \<leftarrow> mm;
       (vma, s1) \<leftarrow> find_vma (Some m) start s;
       case vma of
         Some v \<Rightarrow>
           (if vma_start (vm_vmas s1 v) < en then Some (- E_INVAL, None, s1) else mm_map_new m start en flags s1)
       | None \<Rightarrow> mm_map_new m start en flags s1
     }
   }"


partial_function (option) dup_loop :: "nat \<Rightarrow> nat \<Rightarrow> mnode \<Rightarrow> vmm \<Rightarrow> (int \<times> vmm) option" where
  "dup_loop to frm le s =
     (let le = list_prev le (vm_links s)
      in if le = MmapList frm then Some (0, s)
         else do {
           vma \<leftarrow> le2vma le;
           let v = vm_vmas s vma;
           case vma_create (vma_start v) (vma_end v) (vma_flags v) s of
             (None, s1) \<Rightarrow> Some (- E_NO_MEM, s1)
           | (Some nvma, s1) \<Rightarrow> do {
               s2 \<leftarrow> insert_vma_struct to nvma s1;
               tp \<leftarrow> mm_pgdir (vm_mms s2 to);
               fp \<leftarrow> mm_pgdir (vm_mms s2 frm);
               (ret, mem) \<leftarrow> copy_range tp fp (vma_start (vm_vmas s2 vma)) (vma_end (vm_vmas s2 vma)) (vm_mem s2);
               let s3 = s2\<lparr>vm_mem := mem\<rparr>;
               if ret \<noteq> 0 then Some (- E_NO_MEM, s3) else dup_loop to frm le s3
             }
         })"

definition dup_mmap :: "nat option \<Rightarrow> nat option \<Rightarrow> vmm \<Rightarrow> (int \<times> vmm) option" where
  "dup_mmap to frm s = do { t \<leftarrow> to; f \<leftarrow> frm; dup_loop t f (MmapList f) s }"

partial_function (option) exit_unmap_loop :: "nat \<Rightarrow> nat \<Rightarrow> mnode \<Rightarrow> vmm \<Rightarrow> vmm option" where
  "exit_unmap_loop m pgdir le s =
     (let le = list_next le (vm_links s)
      in if le = MmapList m then Some s
         else do {
           v \<leftarrow> le2vma le;
           mem \<leftarrow> unmap_range pgdir (vma_start (vm_vmas s v)) (vma_end (vm_vmas s v)) (vm_mem s);
           exit_unmap_loop m pgdir le (s\<lparr>vm_mem := mem\<rparr>)
         })"

partial_function (option) exit_tables_loop :: "nat \<Rightarrow> nat \<Rightarrow> mnode \<Rightarrow> vmm \<Rightarrow> vmm option" where
  "exit_tables_loop m pgdir le s =
     (let le = list_next le (vm_links s)
      in if le = MmapList m then Some s
         else do {
           v \<leftarrow> le2vma le;
           mem \<leftarrow> exit_range pgdir (vma_start (vm_vmas s v)) (vma_end (vm_vmas s v)) (vm_mem s);
           exit_tables_loop m pgdir le (s\<lparr>vm_mem := mem\<rparr>)
         })"

text \<open>The first loop leaves \<open>le\<close> at the list head, so the second starts there too.\<close>

definition exit_mmap :: "nat option \<Rightarrow> vmm \<Rightarrow> vmm option" where
  "exit_mmap mm s = do {
     m \<leftarrow> mm;
     kassert (mm_count m s = 0);
     pgdir \<leftarrow> mm_pgdir (vm_mms s m);
     s1 \<leftarrow> exit_unmap_loop m pgdir (MmapList m) s;
     exit_tables_loop m pgdir (MmapList m) s1
   }"

partial_function (option) check_loop :: "nat \<Rightarrow> 64 word \<Rightarrow> 64 word \<Rightarrow> bool \<Rightarrow> vmm \<Rightarrow> (bool \<times> vmm) option" where
  "check_loop m start en write s =
     (if start < en
      then do {
        (vma, s1) \<leftarrow> find_vma (Some m) start s;
        case vma of
          None \<Rightarrow> Some (False, s1)
        | Some v \<Rightarrow>
            if start < vma_start (vm_vmas s1 v) then Some (False, s1)
            else if vma_flags (vm_vmas s1 v) AND (if write then VM_WRITE else VM_READ) = 0 then Some (False, s1)
            else if write \<and> vma_flags (vm_vmas s1 v) AND VM_STACK \<noteq> 0 \<and> start < vma_start (vm_vmas s1 v) + PGSIZE
            then Some (False, s1)
            else check_loop m (vma_end (vm_vmas s1 v)) en write s1
      }
      else Some (True, s))"

definition user_mem_check :: "nat option \<Rightarrow> 64 word \<Rightarrow> 64 word \<Rightarrow> bool \<Rightarrow> vmm \<Rightarrow> (bool \<times> vmm) option" where
  "user_mem_check mm addr len write s =
     (case mm of
        Some m \<Rightarrow>
          (if USER_ACCESS addr (addr + len) then check_loop m addr (addr + len) write s else Some (False, s))
      | None \<Rightarrow> Some (KERN_ACCESS addr (addr + len), s))"

text \<open>Whether the page table maps \<open>la\<close> for a read or a write of the kernel.\<close>

definition page_access :: "pmem \<Rightarrow> nat \<Rightarrow> bool \<Rightarrow> 64 word \<Rightarrow> bool" where
  "page_access m pgdir write la =
     (case get_pte pgdir la False m of
        Some (Some ptep, _) \<Rightarrow>
          read_pte m ptep AND PTE_V \<noteq> 0 \<and> read_pte m ptep AND (if write then PTE_W else PTE_R) \<noteq> 0
      | _ \<Rightarrow> False)"

text \<open>The kernel accesses the user's \<open>n\<close> bytes at \<open>a\<close>.  On a page fault \<open>exception_handler\<close> prints a line and
  returns to the same instruction, so an access that the page table does not allow never ends.\<close>

definition user_touch :: "nat option \<Rightarrow> 64 word \<Rightarrow> nat \<Rightarrow> bool \<Rightarrow> vmm \<Rightarrow> unit option" where
  "user_touch mm a n write s =
     (case mm of
        None \<Rightarrow> Some ()
      | Some m \<Rightarrow> do {
          pgdir \<leftarrow> mm_pgdir (vm_mms s m);
          kassert (\<forall>i\<in>set [0..<n]. page_access (vm_mem s) pgdir write (a + of_nat i))
        })"

definition copy_from_user ::
  "nat option \<Rightarrow> 64 word \<Rightarrow> 64 word \<Rightarrow> 64 word \<Rightarrow> bool \<Rightarrow> Strings.mem \<times> vmm \<Rightarrow> (bool \<times> Strings.mem \<times> vmm) option" where
  "copy_from_user mm dst src len writable = (\<lambda>(u, s). do {
     (ok, s1) \<leftarrow> user_mem_check mm src len writable s;
     if \<not> ok then Some (False, u, s1)
     else do {
       user_touch mm src (unat len) False s1;
       Some (True, memcpy u (unat dst) (unat src) (unat len), s1)
     }
   })"

definition copy_to_user ::
  "nat option \<Rightarrow> 64 word \<Rightarrow> 64 word \<Rightarrow> 64 word \<Rightarrow> Strings.mem \<times> vmm \<Rightarrow> (bool \<times> Strings.mem \<times> vmm) option" where
  "copy_to_user mm dst src len = (\<lambda>(u, s). do {
     (ok, s1) \<leftarrow> user_mem_check mm dst len True s;
     if \<not> ok then Some (False, u, s1)
     else do {
       user_touch mm dst (unat len) True s1;
       Some (True, memcpy u (unat dst) (unat src) (unat len), s1)
     }
   })"

partial_function (option) copy_string_loop ::
  "nat option \<Rightarrow> 64 word \<Rightarrow> 64 word \<Rightarrow> 64 word \<Rightarrow> 64 word \<Rightarrow> Strings.mem \<times> vmm \<Rightarrow> (bool \<times> Strings.mem \<times> vmm) option" where
  "copy_string_loop mm dst src maxn part us = do {
     let part = (if maxn < part then maxn else part);
     (ok, s1) \<leftarrow> user_mem_check mm src part False (snd us);
     if \<not> ok then Some (False, fst us, s1)
     else do {
       let alen = strnlen (fst us) (unat src) (unat part);
       user_touch mm src (min (alen + 1) (unat part)) False s1;
       if alen < unat part
       then Some (True, memcpy (fst us) (unat dst) (unat src) (alen + 1), s1)
       else if part = maxn then Some (False, fst us, s1)
       else copy_string_loop mm (dst + part) (src + part) (maxn - part) PGSIZE
              (memcpy (fst us) (unat dst) (unat src) (unat part), s1)
     }
   }"

definition copy_string ::
  "nat option \<Rightarrow> 64 word \<Rightarrow> 64 word \<Rightarrow> 64 word \<Rightarrow> Strings.mem \<times> vmm \<Rightarrow> (bool \<times> Strings.mem \<times> vmm) option" where
  "copy_string mm dst src maxn us =
     copy_string_loop mm dst src maxn (ROUNDDOWN (src + PGSIZE) PGSIZE - src) us"

end
