(* ===== verification/Inode_Model.thy ===== *)
theory Inode_Model
  imports Vmm_Model
begin

text \<open>
  The state of the file system layers and its lowest part: I/O buffers (\<open>kern/fs/iobuf.c\<close>) and inodes with
  their two counters (\<open>kern/fs/vfs/inode.c\<close>, \<open>inode.h\<close>).  The function table \<open>struct inode_ops\<close> of a concrete file system or device is the
  record \<open>vops\<close>, an argument of everything that calls through it; \<open>'d\<close> is its private state.  An operation
  that is missing in the table, or fails an assertion, is \<open>None\<close>.  All addresses, of kernel and user memory, index one byte store.
  Kernel code is not preempted and never sleeps while it holds one of the locks used here, so taking one is the
  fast path of \<open>down\<close>; the other path is \<open>None\<close>.
\<close>

section \<open>unistd.h, stat.h\<close>

definition O_RDONLY :: "32 word" where "O_RDONLY = 0"
definition O_WRONLY :: "32 word" where "O_WRONLY = 1"
definition O_RDWR :: "32 word" where "O_RDWR = 2"
definition O_CREAT :: "32 word" where "O_CREAT = 0x4"
definition O_EXCL :: "32 word" where "O_EXCL = 0x8"
definition O_TRUNC :: "32 word" where "O_TRUNC = 0x10"
definition O_APPEND :: "32 word" where "O_APPEND = 0x20"
definition O_ACCMODE :: "32 word" where "O_ACCMODE = 3"
definition NO_FD :: int where "NO_FD = - 0x9527"
definition LSEEK_SET :: int where "LSEEK_SET = 0"
definition LSEEK_CUR :: int where "LSEEK_CUR = 1"
definition LSEEK_END :: int where "LSEEK_END = 2"
definition FS_MAX_DNAME_LEN :: nat where "FS_MAX_DNAME_LEN = 31"
definition FS_MAX_FNAME_LEN :: nat where "FS_MAX_FNAME_LEN = 255"
definition FS_MAX_FPATH_LEN :: nat where "FS_MAX_FPATH_LEN = 4095"

definition S_IFMT :: "32 word" where "S_IFMT = 0x7000"
definition S_IFDIR :: "32 word" where "S_IFDIR = 0x2000"
definition S_ISDIR :: "32 word \<Rightarrow> bool" where "S_ISDIR mode \<longleftrightarrow> mode AND S_IFMT = S_IFDIR"

record stat =
  st_mode :: "32 word"
  st_nlinks :: nat
  st_blocks :: nat
  st_size :: nat

section \<open>The state\<close>

record iobuf =
  io_base :: nat
  io_offset :: int
  io_len :: nat
  io_resid :: nat

record inode =
  in_type :: nat
  in_ref :: int
  in_open :: int
  in_fs :: "nat option"
  in_ops :: bool

datatype fstatus = FD_NONE | FD_INIT | FD_OPENED | FD_CLOSED

record file_t =
  f_status :: fstatus
  f_readable :: bool
  f_writable :: bool
  f_fd :: int
  f_pos :: int
  f_node :: "nat option"
  f_open_count :: int

record files_struct =
  fl_pwd :: "nat option"
  fl_fd :: "nat \<Rightarrow> file_t"
  fl_count :: int

record vfs_dev =
  vd_name :: nat
  vd_node :: "nat option"
  vd_fs :: "nat option"
  vd_mountable :: bool

datatype dvnode = VdevList | VdevLink nat

record 'd os =
  os_vm :: vmm
  os_mem :: Strings.mem
  os_nodes :: "nat \<Rightarrow> inode"
  os_files :: "nat \<Rightarrow> files_struct"
  vdev_list :: "dvnode links"
  os_vdevs :: "nat \<Rightarrow> vfs_dev"
  vdev_list_sem :: nat
  bootfs_node :: "nat option"
  bootfs_sem :: nat
  os_data :: 'd

record 'd vops =
  op_open :: "nat \<Rightarrow> 32 word \<Rightarrow> 'd os \<Rightarrow> (int \<times> 'd os) option"
  op_close :: "nat \<Rightarrow> 'd os \<Rightarrow> (int \<times> 'd os) option"
  op_read :: "nat \<Rightarrow> iobuf \<Rightarrow> 'd os \<Rightarrow> (int \<times> iobuf \<times> 'd os) option"
  op_write :: "nat \<Rightarrow> iobuf \<Rightarrow> 'd os \<Rightarrow> (int \<times> iobuf \<times> 'd os) option"
  op_fstat :: "nat \<Rightarrow> 'd os \<Rightarrow> (int \<times> stat \<times> 'd os) option"
  op_fsync :: "nat \<Rightarrow> 'd os \<Rightarrow> (int \<times> 'd os) option"
  op_namefile :: "nat \<Rightarrow> iobuf \<Rightarrow> 'd os \<Rightarrow> (int \<times> iobuf \<times> 'd os) option"
  op_getdirentry :: "nat \<Rightarrow> iobuf \<Rightarrow> 'd os \<Rightarrow> (int \<times> iobuf \<times> 'd os) option"
  op_reclaim :: "nat \<Rightarrow> 'd os \<Rightarrow> (int \<times> 'd os) option"
  op_gettype :: "nat \<Rightarrow> 'd os \<Rightarrow> (int \<times> 32 word \<times> 'd os) option"
  op_tryseek :: "nat \<Rightarrow> int \<Rightarrow> 'd os \<Rightarrow> (int \<times> 'd os) option"
  op_truncate :: "nat \<Rightarrow> int \<Rightarrow> 'd os \<Rightarrow> (int \<times> 'd os) option"
  op_create :: "nat \<Rightarrow> nat \<Rightarrow> bool \<Rightarrow> 'd os \<Rightarrow> (int \<times> nat option \<times> 'd os) option"
  op_lookup :: "nat \<Rightarrow> nat \<Rightarrow> 'd os \<Rightarrow> (int \<times> nat option \<times> 'd os) option"
  fs_sync :: "nat \<Rightarrow> 'd os \<Rightarrow> (int \<times> 'd os) option"
  fs_get_root :: "nat \<Rightarrow> 'd os \<Rightarrow> (nat option \<times> 'd os) option"
  fs_unmount :: "nat \<Rightarrow> 'd os \<Rightarrow> (int \<times> 'd os) option"
  fs_cleanup :: "nat \<Rightarrow> 'd os \<Rightarrow> 'd os option"
  op_sched :: sched_class

definition upd_node :: "nat \<Rightarrow> (inode \<Rightarrow> inode) \<Rightarrow> 'd os \<Rightarrow> 'd os" where
  "upd_node n f s = s\<lparr>os_nodes := (os_nodes s)(n := f (os_nodes s n))\<rparr>"

definition upd_files :: "nat \<Rightarrow> (files_struct \<Rightarrow> files_struct) \<Rightarrow> 'd os \<Rightarrow> 'd os" where
  "upd_files p f s = s\<lparr>os_files := (os_files s)(p := f (os_files s p))\<rparr>"

definition os_kern :: "'d os \<Rightarrow> kern" where "os_kern s = vm_kern (os_vm s)"

definition set_kern :: "kern \<Rightarrow> 'd os \<Rightarrow> 'd os" where
  "set_kern k s = s\<lparr>os_vm := (os_vm s)\<lparr>vm_kern := k\<rparr>\<rparr>"

definition os_kmalloc :: "'d os \<Rightarrow> nat option \<times> 'd os" where
  "os_kmalloc s = (let (r, v) = kmalloc_obj (os_vm s) in (r, s\<lparr>os_vm := v\<rparr>))"

definition os_kfree :: "nat \<Rightarrow> 'd os \<Rightarrow> 'd os" where
  "os_kfree a s = s\<lparr>os_vm := kfree_obj a (os_vm s)\<rparr>"

definition os_down :: "nat \<Rightarrow> 'd os \<Rightarrow> 'd os option" where
  "os_down m s = do {
     let (ok, k) = try_down m (os_kern s);
     kassert ok;
     Some (set_kern k s)
   }"

definition os_up :: "'d vops \<Rightarrow> nat \<Rightarrow> 'd os \<Rightarrow> 'd os option" where
  "os_up V m s = do { k \<leftarrow> up (op_sched V) m (os_kern s); Some (set_kern k s) }"

section \<open>iobuf.c\<close>

definition iobuf_init :: "nat \<Rightarrow> nat \<Rightarrow> int \<Rightarrow> iobuf" where
  "iobuf_init base len off = \<lparr>io_base = base, io_offset = off, io_len = len, io_resid = len\<rparr>"

definition iobuf_used :: "iobuf \<Rightarrow> nat" where
  "iobuf_used iob = io_len iob - io_resid iob"

definition iobuf_skip :: "nat \<Rightarrow> iobuf \<Rightarrow> iobuf option" where
  "iobuf_skip n iob = do {
     kassert (n \<le> io_resid iob);
     Some (iob\<lparr>io_base := io_base iob + n, io_offset := io_offset iob + int n, io_resid := io_resid iob - n\<rparr>)
   }"

text \<open>The result, \<open>*copiedp\<close>, the buffer and the memory afterwards; with \<open>m2b\<close> the data moves into the
  buffer.\<close>

definition iobuf_move ::
  "iobuf \<Rightarrow> nat \<Rightarrow> nat \<Rightarrow> bool \<Rightarrow> Strings.mem \<Rightarrow> (int \<times> nat \<times> iobuf \<times> Strings.mem) option" where
  "iobuf_move iob data len m2b m = do {
     let alen = min (io_resid iob) len;
     (iob1, m1) \<leftarrow>
       (if 0 < alen
        then do {
          let m1 = (if m2b then memmove m (io_base iob) data alen else memmove m data (io_base iob) alen);
          iob1 \<leftarrow> iobuf_skip alen iob;
          Some (iob1, m1)
        }
        else Some (iob, m));
     Some (if len - alen = 0 then 0 else - E_NO_MEM, alen, iob1, m1)
   }"

definition iobuf_move_zeros :: "iobuf \<Rightarrow> nat \<Rightarrow> Strings.mem \<Rightarrow> (int \<times> nat \<times> iobuf \<times> Strings.mem) option" where
  "iobuf_move_zeros iob len m = do {
     let alen = min (io_resid iob) len;
     (iob1, m1) \<leftarrow>
       (if 0 < alen
        then do {
          iob1 \<leftarrow> iobuf_skip alen iob;
          Some (iob1, memset m (io_base iob) 0 alen)
        }
        else Some (iob, m));
     Some (if len - alen = 0 then 0 else - E_NO_MEM, alen, iob1, m1)
   }"

section \<open>inode.c\<close>

definition MAX_INODE_COUNT :: int where "MAX_INODE_COUNT = 0x10000"
definition inode_type_device_info :: nat where "inode_type_device_info = 0x1234"
definition inode_type_sfs_inode_info :: nat where "inode_type_sfs_inode_info = 0x1235"

definition alloc_inode :: "nat \<Rightarrow> 'd os \<Rightarrow> nat option \<times> 'd os" where
  "alloc_inode ty s =
     (case os_kmalloc s of
        (None, s1) \<Rightarrow> (None, s1)
      | (Some n, s1) \<Rightarrow> (Some n, upd_node n (\<lambda>x. x\<lparr>in_type := ty\<rparr>) s1))"

definition inode_ref_count :: "nat \<Rightarrow> 'd os \<Rightarrow> int" where "inode_ref_count n s = in_ref (os_nodes s n)"
definition inode_open_count :: "nat \<Rightarrow> 'd os \<Rightarrow> int" where "inode_open_count n s = in_open (os_nodes s n)"

definition inode_check :: "nat \<Rightarrow> 'd os \<Rightarrow> unit option" where
  "inode_check n s = do {
     kassert (in_ops (os_nodes s n));
     kassert (inode_open_count n s \<le> inode_ref_count n s \<and> 0 \<le> inode_open_count n s);
     kassert (inode_ref_count n s < MAX_INODE_COUNT \<and> inode_open_count n s < MAX_INODE_COUNT)
   }"

definition vop_open :: "'d vops \<Rightarrow> nat \<Rightarrow> 32 word \<Rightarrow> 'd os \<Rightarrow> (int \<times> 'd os) option" where
  "vop_open V n flags s = do { inode_check n s; op_open V n flags s }"

definition vop_close :: "'d vops \<Rightarrow> nat \<Rightarrow> 'd os \<Rightarrow> (int \<times> 'd os) option" where
  "vop_close V n s = do { inode_check n s; op_close V n s }"

definition vop_read :: "'d vops \<Rightarrow> nat \<Rightarrow> iobuf \<Rightarrow> 'd os \<Rightarrow> (int \<times> iobuf \<times> 'd os) option" where
  "vop_read V n iob s = do { inode_check n s; op_read V n iob s }"

definition vop_write :: "'d vops \<Rightarrow> nat \<Rightarrow> iobuf \<Rightarrow> 'd os \<Rightarrow> (int \<times> iobuf \<times> 'd os) option" where
  "vop_write V n iob s = do { inode_check n s; op_write V n iob s }"

definition vop_fstat :: "'d vops \<Rightarrow> nat \<Rightarrow> 'd os \<Rightarrow> (int \<times> stat \<times> 'd os) option" where
  "vop_fstat V n s = do { inode_check n s; op_fstat V n s }"

definition vop_fsync :: "'d vops \<Rightarrow> nat \<Rightarrow> 'd os \<Rightarrow> (int \<times> 'd os) option" where
  "vop_fsync V n s = do { inode_check n s; op_fsync V n s }"

definition vop_namefile :: "'d vops \<Rightarrow> nat \<Rightarrow> iobuf \<Rightarrow> 'd os \<Rightarrow> (int \<times> iobuf \<times> 'd os) option" where
  "vop_namefile V n iob s = do { inode_check n s; op_namefile V n iob s }"

definition vop_getdirentry :: "'d vops \<Rightarrow> nat \<Rightarrow> iobuf \<Rightarrow> 'd os \<Rightarrow> (int \<times> iobuf \<times> 'd os) option" where
  "vop_getdirentry V n iob s = do { inode_check n s; op_getdirentry V n iob s }"

definition vop_reclaim :: "'d vops \<Rightarrow> nat \<Rightarrow> 'd os \<Rightarrow> (int \<times> 'd os) option" where
  "vop_reclaim V n s = do { inode_check n s; op_reclaim V n s }"

definition vop_gettype :: "'d vops \<Rightarrow> nat \<Rightarrow> 'd os \<Rightarrow> (int \<times> 32 word \<times> 'd os) option" where
  "vop_gettype V n s = do { inode_check n s; op_gettype V n s }"

definition vop_tryseek :: "'d vops \<Rightarrow> nat \<Rightarrow> int \<Rightarrow> 'd os \<Rightarrow> (int \<times> 'd os) option" where
  "vop_tryseek V n pos s = do { inode_check n s; op_tryseek V n pos s }"

definition vop_truncate :: "'d vops \<Rightarrow> nat \<Rightarrow> int \<Rightarrow> 'd os \<Rightarrow> (int \<times> 'd os) option" where
  "vop_truncate V n len s = do { inode_check n s; op_truncate V n len s }"

definition vop_create :: "'d vops \<Rightarrow> nat \<Rightarrow> nat \<Rightarrow> bool \<Rightarrow> 'd os \<Rightarrow> (int \<times> nat option \<times> 'd os) option" where
  "vop_create V n name excl s = do { inode_check n s; op_create V n name excl s }"

definition vop_lookup :: "'d vops \<Rightarrow> nat \<Rightarrow> nat \<Rightarrow> 'd os \<Rightarrow> (int \<times> nat option \<times> 'd os) option" where
  "vop_lookup V n path s = do { inode_check n s; op_lookup V n path s }"

definition inode_ref_inc :: "nat \<Rightarrow> 'd os \<Rightarrow> int \<times> 'd os" where
  "inode_ref_inc n s = (let t = upd_node n (\<lambda>x. x\<lparr>in_ref := in_ref x + 1\<rparr>) s in (inode_ref_count n t, t))"

definition inode_open_inc :: "nat \<Rightarrow> 'd os \<Rightarrow> int \<times> 'd os" where
  "inode_open_inc n s = (let t = upd_node n (\<lambda>x. x\<lparr>in_open := in_open x + 1\<rparr>) s in (inode_open_count n t, t))"

definition inode_ref_dec :: "'d vops \<Rightarrow> nat \<Rightarrow> 'd os \<Rightarrow> (int \<times> 'd os) option" where
  "inode_ref_dec V n s = do {
     kassert (0 < inode_ref_count n s);
     let s1 = upd_node n (\<lambda>x. x\<lparr>in_ref := in_ref x - 1\<rparr>) s;
     let c = inode_ref_count n s1;
     s2 \<leftarrow> (if c = 0 then do { (ret, s2) \<leftarrow> vop_reclaim V n s1; Some s2 } else Some s1);
     Some (c, s2)
   }"

definition inode_open_dec :: "'d vops \<Rightarrow> nat \<Rightarrow> 'd os \<Rightarrow> (int \<times> 'd os) option" where
  "inode_open_dec V n s = do {
     kassert (0 < inode_open_count n s);
     let s1 = upd_node n (\<lambda>x. x\<lparr>in_open := in_open x - 1\<rparr>) s;
     let c = inode_open_count n s1;
     s2 \<leftarrow> (if c = 0 then do { (ret, s2) \<leftarrow> vop_close V n s1; Some s2 } else Some s1);
     Some (c, s2)
   }"

definition inode_init :: "nat \<Rightarrow> nat option \<Rightarrow> 'd os \<Rightarrow> 'd os" where
  "inode_init n fs s =
     snd (inode_ref_inc n (upd_node n (\<lambda>x. x\<lparr>in_ref := 0, in_open := 0, in_ops := True, in_fs := fs\<rparr>) s))"

definition inode_kill :: "nat \<Rightarrow> 'd os \<Rightarrow> 'd os option" where
  "inode_kill n s = do {
     kassert (inode_ref_count n s = 0);
     kassert (inode_open_count n s = 0);
     Some (os_kfree n s)
   }"

end
