(* ===== verification/Vfs_Model.thy ===== *)
theory Vfs_Model
  imports Inode_Model
begin

text \<open>
  The virtual file system: working directories (\<open>vfspath.c\<close>), the device list (\<open>vfsdev.c\<close>), the boot file system
  (\<open>vfs.c\<close>), path lookup (\<open>vfslookup.c\<close>) and opening files by path (\<open>vfsfile.c\<close>).
  A result that the code stores through a pointer is a component of the value, meaningful when the code stores it.
\<close>

section \<open>fs.h\<close>

definition current_filesp :: "'d os \<Rightarrow> nat option" where
  "current_filesp s = do { c \<leftarrow> current (os_kern s); p_filesp (procs (os_kern s) c) }"

definition lock_files :: "nat \<Rightarrow> 'd os \<Rightarrow> 'd os option" where
  "lock_files p s = os_down p s"

definition unlock_files :: "'d vops \<Rightarrow> nat \<Rightarrow> 'd os \<Rightarrow> 'd os option" where
  "unlock_files V p s = os_up V p s"

section \<open>vfspath.c, first part\<close>

definition get_cwd_nolock :: "'d os \<Rightarrow> nat option option" where
  "get_cwd_nolock s = do { p \<leftarrow> current_filesp s; Some (fl_pwd (os_files s p)) }"

definition set_cwd_nolock :: "nat option \<Rightarrow> 'd os \<Rightarrow> 'd os option" where
  "set_cwd_nolock pwd s = do { p \<leftarrow> current_filesp s; Some (upd_files p (\<lambda>x. x\<lparr>fl_pwd := pwd\<rparr>) s) }"

definition lock_cfs :: "'d os \<Rightarrow> 'd os option" where
  "lock_cfs s = do { p \<leftarrow> current_filesp s; lock_files p s }"

definition unlock_cfs :: "'d vops \<Rightarrow> 'd os \<Rightarrow> 'd os option" where
  "unlock_cfs V s = do { p \<leftarrow> current_filesp s; unlock_files V p s }"

definition vfs_get_curdir :: "'d os \<Rightarrow> (int \<times> nat option \<times> 'd os) option" where
  "vfs_get_curdir s = do {
     d \<leftarrow> get_cwd_nolock s;
     Some (case d of
         Some n \<Rightarrow> (0, Some n, snd (inode_ref_inc n s))
       | None \<Rightarrow> (- E_NOENT, None, s))
   }"

definition vfs_set_curdir :: "'d vops \<Rightarrow> nat option \<Rightarrow> 'd os \<Rightarrow> (int \<times> 'd os) option" where
  "vfs_set_curdir V dir s = do {
     s1 \<leftarrow> lock_cfs s;
     old_dir \<leftarrow> get_cwd_nolock s1;
     (ret, s2) \<leftarrow>
       (if old_dir \<noteq> dir
        then do {
          (ret, s2) \<leftarrow>
            (case dir of
               Some d \<Rightarrow> do {
                 (ret, type, s2) \<leftarrow> vop_gettype V d s1;
                 if ret \<noteq> 0 then Some (ret, s2)
                 else if \<not> S_ISDIR type then Some (- E_NOTDIR, s2)
                 else Some (0, snd (inode_ref_inc d s2))
               }
             | None \<Rightarrow> Some (0, s1));
          if ret \<noteq> 0 then Some (ret, s2)
          else do {
            s3 \<leftarrow> set_cwd_nolock dir s2;
            s4 \<leftarrow> (case old_dir of Some o' \<Rightarrow> do { (_, s4) \<leftarrow> inode_ref_dec V o' s3; Some s4 } | None \<Rightarrow> Some s3);
            Some (0, s4)
          }
        }
        else Some (0, s1));
     s5 \<leftarrow> unlock_cfs V s2;
     Some (ret, s5)
   }"

section \<open>vfsdev.c\<close>

definition upd_vdev :: "nat \<Rightarrow> (vfs_dev \<Rightarrow> vfs_dev) \<Rightarrow> 'd os \<Rightarrow> 'd os" where
  "upd_vdev v f s = s\<lparr>os_vdevs := (os_vdevs s)(v := f (os_vdevs s v))\<rparr>"

fun le2vdev :: "dvnode \<Rightarrow> nat option" where
  "le2vdev (VdevLink v) = Some v"
| "le2vdev VdevList = None"

definition lock_vdev_list :: "'d os \<Rightarrow> 'd os option" where
  "lock_vdev_list s = os_down (vdev_list_sem s) s"

definition unlock_vdev_list :: "'d vops \<Rightarrow> 'd os \<Rightarrow> 'd os option" where
  "unlock_vdev_list V s = os_up V (vdev_list_sem s) s"

definition vfs_devlist_init :: "'d os \<Rightarrow> 'd os" where
  "vfs_devlist_init s =
     (let s1 = s\<lparr>vdev_list := list_init VdevList (vdev_list s)\<rparr>
      in set_kern (sem_init (vdev_list_sem s1) 1 (os_kern s1)) s1)"

partial_function (option) cleanup_loop :: "'d vops \<Rightarrow> dvnode \<Rightarrow> 'd os \<Rightarrow> 'd os option" where
  "cleanup_loop V le s =
     (let le = list_next le (vdev_list s)
      in if le = VdevList then Some s
         else do {
           v \<leftarrow> le2vdev le;
           s1 \<leftarrow> (case vd_fs (os_vdevs s v) of Some fs \<Rightarrow> fs_cleanup V fs s | None \<Rightarrow> Some s);
           cleanup_loop V le s1
         })"

definition vfs_cleanup :: "'d vops \<Rightarrow> 'd os \<Rightarrow> 'd os option" where
  "vfs_cleanup V s =
     (if \<not> list_empty VdevList (vdev_list s)
      then do {
        s1 \<leftarrow> lock_vdev_list s;
        s2 \<leftarrow> cleanup_loop V VdevList s1;
        unlock_vdev_list V s2
      }
      else Some s)"

text \<open>The scans compare names with \<open>strcmp\<close> and stop at the first entry that fits.\<close>

partial_function (option) find_vdev :: "(nat \<Rightarrow> 'd os \<Rightarrow> bool option) \<Rightarrow> dvnode \<Rightarrow> 'd os \<Rightarrow> nat option option" where
  "find_vdev P le s =
     (let le = list_next le (vdev_list s)
      in if le = VdevList then Some None
         else do {
           v \<leftarrow> le2vdev le;
           b \<leftarrow> P v s;
           if b then Some (Some v) else find_vdev P le s
         })"

definition named :: "nat \<Rightarrow> nat \<Rightarrow> 'd os \<Rightarrow> bool option" where
  "named devname v s = do {
     d \<leftarrow> strcmp (os_mem s) devname (vd_name (os_vdevs s v));
     Some (d = 0)
   }"

definition vfs_get_root :: "'d vops \<Rightarrow> nat \<Rightarrow> 'd os \<Rightarrow> (int \<times> nat option \<times> 'd os) option" where
  "vfs_get_root V devname s =
     (if \<not> list_empty VdevList (vdev_list s)
      then do {
        s1 \<leftarrow> lock_vdev_list s;
        v \<leftarrow> find_vdev (named devname) VdevList s1;
        (ret, found, s2) \<leftarrow>
          (case v of
             None \<Rightarrow> Some (- E_NO_DEV, None, s1)
           | Some v \<Rightarrow> do {
               let vdev = os_vdevs s1 v;
               (found, s2) \<leftarrow>
                 (case vd_fs vdev of
                    Some fs \<Rightarrow> fs_get_root V fs s1
                  | None \<Rightarrow>
                      if \<not> vd_mountable vdev
                      then do { n \<leftarrow> vd_node vdev; Some (Some n, snd (inode_ref_inc n s1)) }
                      else Some (None, s1));
               Some (if found \<noteq> None then 0 else - E_NA_DEV, found, s2)
             });
        s3 \<leftarrow> unlock_vdev_list V s2;
        Some (ret, found, s3)
      }
      else Some (- E_NO_DEV, None, s))"

definition vfs_get_devname :: "nat \<Rightarrow> 'd os \<Rightarrow> nat option option" where
  "vfs_get_devname fs s = do {
     v \<leftarrow> find_vdev (\<lambda>v s. Some (vd_fs (os_vdevs s v) = Some fs)) VdevList s;
     Some (map_option (\<lambda>v. vd_name (os_vdevs s v)) v)
   }"

text \<open>1 when there is no conflict, as in the code.\<close>

definition check_devname_conflict :: "nat \<Rightarrow> 'd os \<Rightarrow> bool option" where
  "check_devname_conflict devname s = do {
     v \<leftarrow> find_vdev (\<lambda>v s. do { d \<leftarrow> strcmp (os_mem s) (vd_name (os_vdevs s v)) devname; Some (d = 0) }) VdevList s;
     Some (v = None)
   }"

definition vfs_do_add :: "'d vops \<Rightarrow> nat \<Rightarrow> nat option \<Rightarrow> nat option \<Rightarrow> bool \<Rightarrow> 'd os \<Rightarrow> (int \<times> 'd os) option" where
  "vfs_do_add V devname devnode fs mountable s = do {
     kassert (case devnode of
         None \<Rightarrow> \<not> mountable
       | Some n \<Rightarrow> in_type (os_nodes s n) = inode_type_device_info);
     len \<leftarrow> strlen (os_mem s) devname;
     if FS_MAX_DNAME_LEN < len then Some (- E_TOO_BIG, s)
     else do {
       let (a, s1) = os_kmalloc s;
       m \<leftarrow> strdup (os_mem s1) a devname;
       case a of
         None \<Rightarrow> Some (- E_NO_MEM, s1)
       | Some s_devname \<Rightarrow> do {
           let (b, s2) = os_kmalloc (s1\<lparr>os_mem := m\<rparr>);
           case b of
             None \<Rightarrow> Some (- E_NO_MEM, os_kfree s_devname s2)
           | Some vdev \<Rightarrow> do {
               s3 \<leftarrow> lock_vdev_list s2;
               ok \<leftarrow> check_devname_conflict s_devname s3;
               if \<not> ok
               then do {
                 s4 \<leftarrow> unlock_vdev_list V s3;
                 Some (- E_EXISTS, os_kfree s_devname (os_kfree vdev s4))
               }
               else do {
                 let s4 = upd_vdev vdev (\<lambda>_. \<lparr>vd_name = s_devname, vd_node = devnode, vd_fs = fs, vd_mountable = mountable\<rparr>) s3;
                 let s5 = s4\<lparr>vdev_list := list_add VdevList (VdevLink vdev) (vdev_list s4)\<rparr>;
                 s6 \<leftarrow> unlock_vdev_list V s5;
                 Some (0, s6)
               }
             }
         }
     }
   }"

definition vfs_add_fs :: "'d vops \<Rightarrow> nat \<Rightarrow> nat option \<Rightarrow> 'd os \<Rightarrow> (int \<times> 'd os) option" where
  "vfs_add_fs V devname fs = vfs_do_add V devname None fs False"

definition vfs_add_dev :: "'d vops \<Rightarrow> nat \<Rightarrow> nat option \<Rightarrow> bool \<Rightarrow> 'd os \<Rightarrow> (int \<times> 'd os) option" where
  "vfs_add_dev V devname devnode mountable = vfs_do_add V devname devnode None mountable"

definition find_mount :: "nat \<Rightarrow> 'd os \<Rightarrow> (int \<times> nat option) option" where
  "find_mount devname s = do {
     v \<leftarrow> find_vdev (\<lambda>v s. if vd_mountable (os_vdevs s v)
         then do { d \<leftarrow> strcmp (os_mem s) (vd_name (os_vdevs s v)) devname; Some (d = 0) } else Some False) VdevList s;
     Some (case v of Some v \<Rightarrow> (0, Some v) | None \<Rightarrow> (- E_NO_DEV, None))
   }"

text \<open>\<open>mountfunc\<close> gets the inode of the device and stores a file system.\<close>

definition vfs_mount ::
  "'d vops \<Rightarrow> nat \<Rightarrow> (nat \<Rightarrow> 'd os \<Rightarrow> (int \<times> nat option \<times> 'd os) option) \<Rightarrow> 'd os \<Rightarrow> (int \<times> 'd os) option" where
  "vfs_mount V devname mountfunc s = do {
     s1 \<leftarrow> lock_vdev_list s;
     (ret, v) \<leftarrow> find_mount devname s1;
     (ret, s2) \<leftarrow>
       (case v of
          None \<Rightarrow> Some (ret, s1)
        | Some v \<Rightarrow>
            if vd_fs (os_vdevs s1 v) \<noteq> None then Some (- E_BUSY, s1)
            else do {
              kassert (vd_mountable (os_vdevs s1 v));
              n \<leftarrow> vd_node (os_vdevs s1 v);
              kassert (in_type (os_nodes s1 n) = inode_type_device_info);
              (ret, fs, s2) \<leftarrow> mountfunc n s1;
              let s3 = upd_vdev v (\<lambda>x. x\<lparr>vd_fs := fs\<rparr>) s2;
              kassert (ret = 0 \<longrightarrow> fs \<noteq> None);
              Some (ret, s3)
            });
     s4 \<leftarrow> unlock_vdev_list V s2;
     Some (ret, s4)
   }"

definition vfs_unmount :: "'d vops \<Rightarrow> nat \<Rightarrow> 'd os \<Rightarrow> (int \<times> 'd os) option" where
  "vfs_unmount V devname s = do {
     s1 \<leftarrow> lock_vdev_list s;
     (ret, v) \<leftarrow> find_mount devname s1;
     (ret, s2) \<leftarrow>
       (case v of
          None \<Rightarrow> Some (ret, s1)
        | Some v \<Rightarrow>
            (case vd_fs (os_vdevs s1 v) of
               None \<Rightarrow> Some (- E_INVAL, s1)
             | Some fs \<Rightarrow> do {
                 kassert (vd_mountable (os_vdevs s1 v));
                 (ret, s2) \<leftarrow> fs_sync V fs s1;
                 if ret \<noteq> 0 then Some (ret, s2)
                 else do {
                   (ret, s3) \<leftarrow> fs_unmount V fs s2;
                   Some (ret, if ret = 0 then upd_vdev v (\<lambda>x. x\<lparr>vd_fs := None\<rparr>) s3 else s3)
                 }
               }));
     s4 \<leftarrow> unlock_vdev_list V s2;
     Some (ret, s4)
   }"

partial_function (option) unmount_loop :: "'d vops \<Rightarrow> dvnode \<Rightarrow> 'd os \<Rightarrow> 'd os option" where
  "unmount_loop V le s =
     (let le = list_next le (vdev_list s)
      in if le = VdevList then Some s
         else do {
           v \<leftarrow> le2vdev le;
           s1 \<leftarrow>
             (case vd_fs (os_vdevs s v) of
                Some fs \<Rightarrow>
                  (if vd_mountable (os_vdevs s v)
                   then do {
                     (ret, s1) \<leftarrow> fs_sync V fs s;
                     if ret \<noteq> 0 then Some s1
                     else do {
                       (ret, s2) \<leftarrow> fs_unmount V fs s1;
                       Some (if ret \<noteq> 0 then s2 else upd_vdev v (\<lambda>x. x\<lparr>vd_fs := None\<rparr>) s2)
                     }
                   }
                   else Some s)
              | None \<Rightarrow> Some s);
           unmount_loop V le s1
         })"

definition vfs_unmount_all :: "'d vops \<Rightarrow> 'd os \<Rightarrow> (int \<times> 'd os) option" where
  "vfs_unmount_all V s =
     (if \<not> list_empty VdevList (vdev_list s)
      then do {
        s1 \<leftarrow> lock_vdev_list s;
        s2 \<leftarrow> unmount_loop V VdevList s1;
        s3 \<leftarrow> unlock_vdev_list V s2;
        Some (0, s3)
      }
      else Some (0, s))"

section \<open>vfs.c, first part\<close>

definition vfs_init :: "'d os \<Rightarrow> 'd os" where
  "vfs_init s = vfs_devlist_init (set_kern (sem_init (bootfs_sem s) 1 (os_kern s)) s)"

definition lock_bootfs :: "'d os \<Rightarrow> 'd os option" where
  "lock_bootfs s = os_down (bootfs_sem s) s"

definition unlock_bootfs :: "'d vops \<Rightarrow> 'd os \<Rightarrow> 'd os option" where
  "unlock_bootfs V s = os_up V (bootfs_sem s) s"

definition change_bootfs :: "'d vops \<Rightarrow> nat option \<Rightarrow> 'd os \<Rightarrow> 'd os option" where
  "change_bootfs V node s = do {
     s1 \<leftarrow> lock_bootfs s;
     let old = bootfs_node s1;
     s2 \<leftarrow> unlock_bootfs V (s1\<lparr>bootfs_node := node\<rparr>);
     case old of Some o' \<Rightarrow> do { (_, s3) \<leftarrow> inode_ref_dec V o' s2; Some s3 } | None \<Rightarrow> Some s2
   }"

definition vfs_get_bootfs :: "'d vops \<Rightarrow> 'd os \<Rightarrow> (int \<times> nat option \<times> 'd os) option" where
  "vfs_get_bootfs V s =
     (if bootfs_node s \<noteq> None
      then do {
        s1 \<leftarrow> lock_bootfs s;
        let node = bootfs_node s1;
        let s2 = (case node of Some n \<Rightarrow> snd (inode_ref_inc n s1) | None \<Rightarrow> s1);
        s3 \<leftarrow> unlock_bootfs V s2;
        Some (if node = None then - E_NOENT else 0, node, s3)
      }
      else Some (- E_NOENT, None, s))"

section \<open>vfslookup.c\<close>

text \<open>The positions of the first colon or slash, whichever comes first: \<open>(slash, colon)\<close>.\<close>

partial_function (option) dev_scan :: "Strings.mem \<Rightarrow> nat \<Rightarrow> nat \<Rightarrow> (nat option \<times> nat option) option" where
  "dev_scan m path i =
     (if m (path + i) = 0 then Some (None, None)
      else if m (path + i) = 58 then Some (None, Some i)
      else if m (path + i) = 47 then Some (Some i, None)
      else dev_scan m path (i + 1))"

partial_function (option) skip_slashes :: "Strings.mem \<Rightarrow> nat \<Rightarrow> nat option" where
  "skip_slashes m p = (if m p = 47 then skip_slashes m (p + 1) else Some p)"

text \<open>The result, \<open>*subpath\<close> and \<open>*node_store\<close>.\<close>

definition get_device :: "'d vops \<Rightarrow> nat \<Rightarrow> 'd os \<Rightarrow> (int \<times> nat \<times> nat option \<times> 'd os) option" where
  "get_device V path s = do {
     (slash, colon) \<leftarrow> dev_scan (os_mem s) path 0;
     if colon = None \<and> slash \<noteq> Some 0
     then do { (ret, node, s1) \<leftarrow> vfs_get_curdir s; Some (ret, path, node, s1) }
     else if colon \<noteq> None \<and> colon \<noteq> Some 0
     then do {
       c \<leftarrow> colon;
       let s1 = s\<lparr>os_mem := (os_mem s)(path + c := 0)\<rparr>;
       sub \<leftarrow> skip_slashes (os_mem s1) (path + c + 1);
       (ret, node, s2) \<leftarrow> vfs_get_root V path s1;
       Some (ret, sub, node, s2)
     }
     else do {
       (ret, node, s1) \<leftarrow>
         (if os_mem s path = 47 then vfs_get_bootfs V s
          else do {
            kassert (os_mem s path = 58);
            (ret, d, s1) \<leftarrow> vfs_get_curdir s;
            if ret \<noteq> 0 then Some (ret, None, s1)
            else do {
              node \<leftarrow> d;
              fs \<leftarrow> in_fs (os_nodes s1 node);
              (root, s2) \<leftarrow> fs_get_root V fs s1;
              (_, s3) \<leftarrow> inode_ref_dec V node s2;
              Some (0, root, s3)
            }
          });
       if ret \<noteq> 0 then Some (ret, path, node, s1)
       else do { sub \<leftarrow> skip_slashes (os_mem s1) (path + 1); Some (0, sub, node, s1) }
     }
   }"

definition vfs_lookup :: "'d vops \<Rightarrow> nat \<Rightarrow> 'd os \<Rightarrow> (int \<times> nat option \<times> 'd os) option" where
  "vfs_lookup V path s = do {
     (ret, sub, d, s1) \<leftarrow> get_device V path s;
     if ret \<noteq> 0 then Some (ret, None, s1)
     else if os_mem s1 sub \<noteq> 0
     then do {
       node \<leftarrow> d;
       (ret, res, s2) \<leftarrow> vop_lookup V node sub s1;
       (_, s3) \<leftarrow> inode_ref_dec V node s2;
       Some (ret, res, s3)
     }
     else Some (0, d, s1)
   }"

definition vfs_lookup_parent :: "'d vops \<Rightarrow> nat \<Rightarrow> 'd os \<Rightarrow> (int \<times> nat option \<times> nat \<times> 'd os) option" where
  "vfs_lookup_parent V path s = do {
     (ret, sub, d, s1) \<leftarrow> get_device V path s;
     if ret \<noteq> 0 then Some (ret, None, path, s1) else Some (0, d, sub, s1)
   }"

section \<open>vfspath.c and vfs.c, second parts\<close>

definition vfs_chdir :: "'d vops \<Rightarrow> nat \<Rightarrow> 'd os \<Rightarrow> (int \<times> 'd os) option" where
  "vfs_chdir V path s = do {
     (ret, node, s1) \<leftarrow> vfs_lookup V path s;
     if ret = 0
     then do {
       n \<leftarrow> node;
       (ret, s2) \<leftarrow> vfs_set_curdir V (Some n) s1;
       (_, s3) \<leftarrow> inode_ref_dec V n s2;
       Some (ret, s3)
     }
     else Some (ret, s1)
   }"

text \<open>\<open>colon\<close> is the address of the local variable of that name.\<close>

definition vfs_getcwd :: "'d vops \<Rightarrow> nat \<Rightarrow> iobuf \<Rightarrow> 'd os \<Rightarrow> (int \<times> iobuf \<times> 'd os) option" where
  "vfs_getcwd V colon iob s = do {
     (ret, d, s1) \<leftarrow> vfs_get_curdir s;
     if ret \<noteq> 0 then Some (ret, iob, s1)
     else do {
       node \<leftarrow> d;
       fs \<leftarrow> in_fs (os_nodes s1 node);
       r \<leftarrow> vfs_get_devname fs s1;
       devname \<leftarrow> r;
       len \<leftarrow> strlen (os_mem s1) devname;
       (ret1, _, iob1, m1) \<leftarrow> iobuf_move iob devname len True (os_mem s1);
       let s2 = s1\<lparr>os_mem := m1\<rparr>;
       (ret2, iob3, s4) \<leftarrow>
         (if ret1 \<noteq> 0 then Some (ret1, iob1, s2)
          else do {
            (ret2, _, iob2, m2) \<leftarrow> iobuf_move iob1 colon 1 True ((os_mem s2)(colon := 58));
            let s3 = s2\<lparr>os_mem := m2\<rparr>;
            if ret2 \<noteq> 0 then Some (ret2, iob2, s3) else vop_namefile V node iob2 s3
          });
       (_, s5) \<leftarrow> inode_ref_dec V node s4;
       Some (ret2, iob3, s5)
     }
   }"

definition vfs_set_bootfs :: "'d vops \<Rightarrow> nat option \<Rightarrow> 'd os \<Rightarrow> (int \<times> 'd os) option" where
  "vfs_set_bootfs V fsname s =
     (case fsname of
        None \<Rightarrow> do { s1 \<leftarrow> change_bootfs V None s; Some (0, s1) }
      | Some name \<Rightarrow> do {
          c \<leftarrow> strchr (os_mem s) name 58;
          case c of
            None \<Rightarrow> Some (- E_INVAL, s)
          | Some p \<Rightarrow>
              if os_mem s (p + 1) \<noteq> 0 then Some (- E_INVAL, s)
              else do {
                (ret, s1) \<leftarrow> vfs_chdir V name s;
                if ret \<noteq> 0 then Some (ret, s1)
                else do {
                  (ret, node, s2) \<leftarrow> vfs_get_curdir s1;
                  if ret \<noteq> 0 then Some (ret, s2)
                  else do { s3 \<leftarrow> change_bootfs V node s2; Some (0, s3) }
                }
              }
        })"

section \<open>vfsfile.c\<close>

definition vfs_open :: "'d vops \<Rightarrow> nat \<Rightarrow> 32 word \<Rightarrow> 'd os \<Rightarrow> (int \<times> nat option \<times> 'd os) option" where
  "vfs_open V path flags s =
     (let acc = flags AND O_ACCMODE; can_write = (acc = O_WRONLY \<or> acc = O_RDWR);
          excl = (flags AND O_EXCL \<noteq> 0); create = (flags AND O_CREAT \<noteq> 0)
      in if acc \<noteq> O_RDONLY \<and> \<not> can_write then Some (- E_INVAL, None, s)
         else if flags AND O_TRUNC \<noteq> 0 \<and> \<not> can_write then Some (- E_INVAL, None, s)
         else do {
           (ret, found, s1) \<leftarrow> vfs_lookup V path s;
           (ret, node, s2) \<leftarrow>
             (if ret \<noteq> 0
              then if ret = - 16 \<and> create
                   then do {
                     (ret, d, name, s2) \<leftarrow> vfs_lookup_parent V path s1;
                     if ret \<noteq> 0 then Some (ret, None, s2)
                     else do {
                       dir \<leftarrow> d;
                       (_, node, s3) \<leftarrow> vop_create V dir name excl s2;
                       Some (0, node, s3)
                     }
                   }
                   else Some (ret, None, s1)
              else if excl \<and> create then Some (- E_EXISTS, None, s1)
              else Some (0, found, s1));
           if ret \<noteq> 0 then Some (ret, None, s2)
           else do {
             n \<leftarrow> node;
             (ret, s3) \<leftarrow> vop_open V n flags s2;
             if ret \<noteq> 0 then do { (_, s4) \<leftarrow> inode_ref_dec V n s3; Some (ret, None, s4) }
             else do {
               let s4 = snd (inode_open_inc n s3);
               (ret, s5) \<leftarrow> (if flags AND O_TRUNC \<noteq> 0 \<or> create then vop_truncate V n 0 s4 else Some (0, s4));
               if ret \<noteq> 0
               then do {
                 (_, s6) \<leftarrow> inode_open_dec V n s5;
                 (_, s7) \<leftarrow> inode_ref_dec V n s6;
                 Some (ret, None, s7)
               }
               else Some (0, Some n, s5)
             }
           }
         })"

definition vfs_close :: "'d vops \<Rightarrow> nat \<Rightarrow> 'd os \<Rightarrow> (int \<times> 'd os) option" where
  "vfs_close V n s = do {
     (_, s1) \<leftarrow> inode_open_dec V n s;
     (_, s2) \<leftarrow> inode_ref_dec V n s1;
     Some (0, s2)
   }"

definition vfs_unlink :: "nat \<Rightarrow> int" where "vfs_unlink path = - E_UNIMP"
definition vfs_rename :: "nat \<Rightarrow> nat \<Rightarrow> int" where "vfs_rename old_path new_path = - E_UNIMP"
definition vfs_link :: "nat \<Rightarrow> nat \<Rightarrow> int" where "vfs_link old_path new_path = - E_UNIMP"
definition vfs_symlink :: "nat \<Rightarrow> nat \<Rightarrow> int" where "vfs_symlink old_path new_path = - E_UNIMP"
definition vfs_readlink :: "nat \<Rightarrow> iobuf \<Rightarrow> int" where "vfs_readlink path iob = - E_UNIMP"
definition vfs_mkdir :: "nat \<Rightarrow> int" where "vfs_mkdir path = - E_UNIMP"

end
