(* ===== verification/File_Model.thy ===== *)
theory File_Model
  imports Vfs_Model
begin

text \<open>
  The open-file tables of the processes: \<open>kern/fs/file.c\<close>, \<open>file.h\<close>, \<open>fs.c\<close>, \<open>fs.h\<close>.  A \<open>struct file *\<close>
  is the table it belongs to and its index there.
\<close>

section \<open>file.h and fs.h\<close>

text \<open>\<open>sizeof(struct files_struct)\<close> is 48 and \<open>sizeof(struct file)\<close> is 56 (\<open>bool\<close> is a \<open>long long\<close>).\<close>

definition FILES_STRUCT_BUFSIZE :: nat where "FILES_STRUCT_BUFSIZE = 4096 - 48"
definition FILES_STRUCT_NENTRY :: nat where "FILES_STRUCT_NENTRY = FILES_STRUCT_BUFSIZE div 56"

definition get_file :: "nat \<times> nat \<Rightarrow> 'd os \<Rightarrow> file_t" where
  "get_file f s = fl_fd (os_files s (fst f)) (snd f)"

definition upd_file :: "nat \<times> nat \<Rightarrow> (file_t \<Rightarrow> file_t) \<Rightarrow> 'd os \<Rightarrow> 'd os" where
  "upd_file f g = upd_files (fst f) (\<lambda>x. x\<lparr>fl_fd := (fl_fd x)(snd f := g (fl_fd x (snd f)))\<rparr>)"

definition fopen_count :: "nat \<times> nat \<Rightarrow> 'd os \<Rightarrow> int" where
  "fopen_count f s = f_open_count (get_file f s)"

definition fopen_count_inc :: "nat \<times> nat \<Rightarrow> 'd os \<Rightarrow> int \<times> 'd os" where
  "fopen_count_inc f s = (let t = upd_file f (\<lambda>x. x\<lparr>f_open_count := f_open_count x + 1\<rparr>) s in (fopen_count f t, t))"

definition fopen_count_dec :: "nat \<times> nat \<Rightarrow> 'd os \<Rightarrow> int \<times> 'd os" where
  "fopen_count_dec f s = (let t = upd_file f (\<lambda>x. x\<lparr>f_open_count := f_open_count x - 1\<rparr>) s in (fopen_count f t, t))"

definition files_count :: "nat \<Rightarrow> 'd os \<Rightarrow> int" where
  "files_count p s = fl_count (os_files s p)"

definition files_count_inc :: "nat \<Rightarrow> 'd os \<Rightarrow> int \<times> 'd os" where
  "files_count_inc p s = (let t = upd_files p (\<lambda>x. x\<lparr>fl_count := fl_count x + 1\<rparr>) s in (files_count p t, t))"

definition files_count_dec :: "nat \<Rightarrow> 'd os \<Rightarrow> int \<times> 'd os" where
  "files_count_dec p s = (let t = upd_files p (\<lambda>x. x\<lparr>fl_count := fl_count x - 1\<rparr>) s in (files_count p t, t))"

section \<open>file.c\<close>

definition testfd :: "int \<Rightarrow> bool" where
  "testfd fd \<longleftrightarrow> 0 \<le> fd \<and> fd < int FILES_STRUCT_NENTRY"

definition get_fd_array :: "'d os \<Rightarrow> nat option" where
  "get_fd_array s = do {
     p \<leftarrow> current_filesp s;
     kassert (0 < files_count p s);
     Some p
   }"

definition fd_array_init :: "nat \<Rightarrow> 'd os \<Rightarrow> 'd os" where
  "fd_array_init p = upd_files p (\<lambda>x. x\<lparr>fl_fd := (\<lambda>fd.
     if fd < FILES_STRUCT_NENTRY then (fl_fd x fd)\<lparr>f_open_count := 0, f_status := FD_NONE, f_fd := int fd\<rparr> else fl_fd x fd)\<rparr>)"

text \<open>The result and \<open>*file_store\<close>.\<close>

definition fd_array_alloc :: "int \<Rightarrow> 'd os \<Rightarrow> (int \<times> (nat \<times> nat) option \<times> 'd os) option" where
  "fd_array_alloc fd s = do {
     p \<leftarrow> get_fd_array s;
     let r = (if fd = NO_FD
       then (case List.find (\<lambda>i. f_status (get_file (p, i) s) = FD_NONE) [0..<FILES_STRUCT_NENTRY] of
               Some i \<Rightarrow> Inr i
             | None \<Rightarrow> Inl (- E_MAX_OPEN))
       else if testfd fd
       then (if f_status (get_file (p, nat fd) s) = FD_NONE then Inr (nat fd) else Inl (- E_BUSY))
       else Inl (- E_INVAL));
     case r of
       Inl e \<Rightarrow> Some (e, None, s)
     | Inr i \<Rightarrow> do {
         kassert (fopen_count (p, i) s = 0);
         Some (0, Some (p, i), upd_file (p, i) (\<lambda>x. x\<lparr>f_status := FD_INIT, f_node := None\<rparr>) s)
       }
   }"

definition fd_array_free :: "'d vops \<Rightarrow> nat \<times> nat \<Rightarrow> 'd os \<Rightarrow> 'd os option" where
  "fd_array_free V f s = do {
     kassert (f_status (get_file f s) = FD_INIT \<or> f_status (get_file f s) = FD_CLOSED);
     kassert (fopen_count f s = 0);
     s1 \<leftarrow> (if f_status (get_file f s) = FD_CLOSED
       then do { n \<leftarrow> f_node (get_file f s); (_, s1) \<leftarrow> vfs_close V n s; Some s1 }
       else Some s);
     Some (upd_file f (\<lambda>x. x\<lparr>f_status := FD_NONE\<rparr>) s1)
   }"

definition fd_array_acquire :: "nat \<times> nat \<Rightarrow> 'd os \<Rightarrow> 'd os option" where
  "fd_array_acquire f s = do {
     kassert (f_status (get_file f s) = FD_OPENED);
     Some (snd (fopen_count_inc f s))
   }"

definition fd_array_release :: "'d vops \<Rightarrow> nat \<times> nat \<Rightarrow> 'd os \<Rightarrow> 'd os option" where
  "fd_array_release V f s = do {
     kassert (f_status (get_file f s) = FD_OPENED \<or> f_status (get_file f s) = FD_CLOSED);
     kassert (0 < fopen_count f s);
     let (c, s1) = fopen_count_dec f s;
     if c = 0 then fd_array_free V f s1 else Some s1
   }"

definition fd_array_open :: "nat \<times> nat \<Rightarrow> 'd os \<Rightarrow> 'd os option" where
  "fd_array_open f s = do {
     kassert (f_status (get_file f s) = FD_INIT \<and> f_node (get_file f s) \<noteq> None);
     Some (snd (fopen_count_inc f (upd_file f (\<lambda>x. x\<lparr>f_status := FD_OPENED\<rparr>) s)))
   }"

definition fd_array_close :: "'d vops \<Rightarrow> nat \<times> nat \<Rightarrow> 'd os \<Rightarrow> 'd os option" where
  "fd_array_close V f s = do {
     kassert (f_status (get_file f s) = FD_OPENED);
     kassert (0 < fopen_count f s);
     let (c, s1) = fopen_count_dec f (upd_file f (\<lambda>x. x\<lparr>f_status := FD_CLOSED\<rparr>) s);
     if c = 0 then fd_array_free V f s1 else Some s1
   }"

definition fd_array_dup :: "nat \<times> nat \<Rightarrow> nat \<times> nat \<Rightarrow> 'd os \<Rightarrow> 'd os option" where
  "fd_array_dup to frm s = do {
     kassert (f_status (get_file to s) = FD_INIT \<and> f_status (get_file frm s) = FD_OPENED);
     let src = get_file frm s;
     let s1 = upd_file to (\<lambda>x. x\<lparr>f_pos := f_pos src, f_readable := f_readable src, f_writable := f_writable src\<rparr>) s;
     n \<leftarrow> f_node src;
     let s2 = snd (inode_open_inc n (snd (inode_ref_inc n s1)));
     fd_array_open to (upd_file to (\<lambda>x. x\<lparr>f_node := Some n\<rparr>) s2)
   }"

definition fd2file :: "int \<Rightarrow> 'd os \<Rightarrow> (int \<times> (nat \<times> nat) option) option" where
  "fd2file fd s =
     (if testfd fd
      then do {
        p \<leftarrow> get_fd_array s;
        let x = get_file (p, nat fd) s;
        Some (if f_status x = FD_OPENED \<and> f_fd x = fd then (0, Some (p, nat fd)) else (- E_INVAL, None))
      }
      else Some (- E_INVAL, None))"

definition file_testfd :: "int \<Rightarrow> bool \<Rightarrow> bool \<Rightarrow> 'd os \<Rightarrow> bool option" where
  "file_testfd fd readable writable s = do {
     (ret, f) \<leftarrow> fd2file fd s;
     if ret \<noteq> 0 then Some False
     else do {
       x \<leftarrow> f;
       Some (\<not> (readable \<and> \<not> f_readable (get_file x s)) \<and> \<not> (writable \<and> \<not> f_writable (get_file x s)))
     }
   }"

definition file_open :: "'d vops \<Rightarrow> nat \<Rightarrow> 32 word \<Rightarrow> 'd os \<Rightarrow> (int \<times> 'd os) option" where
  "file_open V path flags s =
     (let acc = flags AND O_ACCMODE;
          readable = (acc = O_RDONLY \<or> acc = O_RDWR); writable = (acc = O_WRONLY \<or> acc = O_RDWR)
      in if \<not> readable \<and> \<not> writable then Some (- E_INVAL, s)
         else do {
           (ret, f, s1) \<leftarrow> fd_array_alloc NO_FD s;
           if ret \<noteq> 0 then Some (ret, s1)
           else do {
             file \<leftarrow> f;
             (ret, nd, s2) \<leftarrow> vfs_open V path flags s1;
             if ret \<noteq> 0 then do { s3 \<leftarrow> fd_array_free V file s2; Some (ret, s3) }
             else do {
               node \<leftarrow> nd;
               let s3 = upd_file file (\<lambda>x. x\<lparr>f_pos := 0\<rparr>) s2;
               (ret, s4) \<leftarrow>
                 (if flags AND O_APPEND \<noteq> 0
                  then do {
                    (ret, st, s4) \<leftarrow> vop_fstat V node s3;
                    if ret \<noteq> 0
                    then do {
                      (_, s5) \<leftarrow> vfs_close V node s4;
                      s6 \<leftarrow> fd_array_free V file s5;
                      Some (ret, s6)
                    }
                    else Some (0, upd_file file (\<lambda>x. x\<lparr>f_pos := int (st_size st)\<rparr>) s4)
                  }
                  else Some (0, s3));
               if ret \<noteq> 0 then Some (ret, s4)
               else do {
                 let s5 = upd_file file (\<lambda>x. x\<lparr>f_node := Some node, f_readable := readable, f_writable := writable\<rparr>) s4;
                 s6 \<leftarrow> fd_array_open file s5;
                 Some (f_fd (get_file file s6), s6)
               }
             }
           }
         })"

definition file_close :: "'d vops \<Rightarrow> int \<Rightarrow> 'd os \<Rightarrow> (int \<times> 'd os) option" where
  "file_close V fd s = do {
     (ret, f) \<leftarrow> fd2file fd s;
     if ret \<noteq> 0 then Some (ret, s)
     else do { file \<leftarrow> f; s1 \<leftarrow> fd_array_close V file s; Some (0, s1) }
   }"

text \<open>The result and \<open>*copied_store\<close>.\<close>

definition file_read :: "'d vops \<Rightarrow> int \<Rightarrow> nat \<Rightarrow> nat \<Rightarrow> 'd os \<Rightarrow> (int \<times> nat \<times> 'd os) option" where
  "file_read V fd base len s = do {
     (ret, f) \<leftarrow> fd2file fd s;
     if ret \<noteq> 0 then Some (ret, 0, s)
     else do {
       file \<leftarrow> f;
       if \<not> f_readable (get_file file s) then Some (- E_INVAL, 0, s)
       else do {
         s1 \<leftarrow> fd_array_acquire file s;
         node \<leftarrow> f_node (get_file file s1);
         (ret, iob, s2) \<leftarrow> vop_read V node (iobuf_init base len (f_pos (get_file file s1))) s1;
         let copied = iobuf_used iob;
         let s3 = (if f_status (get_file file s2) = FD_OPENED
                   then upd_file file (\<lambda>x. x\<lparr>f_pos := f_pos x + int copied\<rparr>) s2 else s2);
         s4 \<leftarrow> fd_array_release V file s3;
         Some (ret, copied, s4)
       }
     }
   }"

definition file_write :: "'d vops \<Rightarrow> int \<Rightarrow> nat \<Rightarrow> nat \<Rightarrow> 'd os \<Rightarrow> (int \<times> nat \<times> 'd os) option" where
  "file_write V fd base len s = do {
     (ret, f) \<leftarrow> fd2file fd s;
     if ret \<noteq> 0 then Some (ret, 0, s)
     else do {
       file \<leftarrow> f;
       if \<not> f_writable (get_file file s) then Some (- E_INVAL, 0, s)
       else do {
         s1 \<leftarrow> fd_array_acquire file s;
         node \<leftarrow> f_node (get_file file s1);
         (ret, iob, s2) \<leftarrow> vop_write V node (iobuf_init base len (f_pos (get_file file s1))) s1;
         let copied = iobuf_used iob;
         let s3 = (if f_status (get_file file s2) = FD_OPENED
                   then upd_file file (\<lambda>x. x\<lparr>f_pos := f_pos x + int copied\<rparr>) s2 else s2);
         s4 \<leftarrow> fd_array_release V file s3;
         Some (ret, copied, s4)
       }
     }
   }"

definition file_seek :: "'d vops \<Rightarrow> int \<Rightarrow> int \<Rightarrow> int \<Rightarrow> 'd os \<Rightarrow> (int \<times> 'd os) option" where
  "file_seek V fd pos whence s = do {
     (ret, f) \<leftarrow> fd2file fd s;
     if ret \<noteq> 0 then Some (ret, s)
     else do {
       file \<leftarrow> f;
       s1 \<leftarrow> fd_array_acquire file s;
       node \<leftarrow> f_node (get_file file s1);
       (ret, pos, s2) \<leftarrow>
         (if whence = LSEEK_SET then Some (0, pos, s1)
          else if whence = LSEEK_CUR then Some (0, pos + f_pos (get_file file s1), s1)
          else if whence = LSEEK_END
          then do {
            (ret, st, s2) \<leftarrow> vop_fstat V node s1;
            Some (ret, if ret = 0 then pos + int (st_size st) else pos, s2)
          }
          else Some (- E_INVAL, pos, s1));
       (ret, s3) \<leftarrow>
         (if ret = 0
          then do {
            (ret, s3) \<leftarrow> vop_tryseek V node pos s2;
            Some (ret, if ret = 0 then upd_file file (\<lambda>x. x\<lparr>f_pos := pos\<rparr>) s3 else s3)
          }
          else Some (ret, s2));
       s4 \<leftarrow> fd_array_release V file s3;
       Some (ret, s4)
     }
   }"

definition file_fstat :: "'d vops \<Rightarrow> int \<Rightarrow> 'd os \<Rightarrow> (int \<times> stat option \<times> 'd os) option" where
  "file_fstat V fd s = do {
     (ret, f) \<leftarrow> fd2file fd s;
     if ret \<noteq> 0 then Some (ret, None, s)
     else do {
       file \<leftarrow> f;
       s1 \<leftarrow> fd_array_acquire file s;
       node \<leftarrow> f_node (get_file file s1);
       (ret, st, s2) \<leftarrow> vop_fstat V node s1;
       s3 \<leftarrow> fd_array_release V file s2;
       Some (ret, Some st, s3)
     }
   }"

definition file_fsync :: "'d vops \<Rightarrow> int \<Rightarrow> 'd os \<Rightarrow> (int \<times> 'd os) option" where
  "file_fsync V fd s = do {
     (ret, f) \<leftarrow> fd2file fd s;
     if ret \<noteq> 0 then Some (ret, s)
     else do {
       file \<leftarrow> f;
       s1 \<leftarrow> fd_array_acquire file s;
       node \<leftarrow> f_node (get_file file s1);
       (ret, s2) \<leftarrow> vop_fsync V node s1;
       s3 \<leftarrow> fd_array_release V file s2;
       Some (ret, s3)
     }
   }"

text \<open>\<open>struct dirent\<close> as its offset and the address of its name; the new offset is the second component.\<close>

definition file_getdirentry :: "'d vops \<Rightarrow> int \<Rightarrow> int \<Rightarrow> nat \<Rightarrow> 'd os \<Rightarrow> (int \<times> int \<times> 'd os) option" where
  "file_getdirentry V fd off name s = do {
     (ret, f) \<leftarrow> fd2file fd s;
     if ret \<noteq> 0 then Some (ret, off, s)
     else do {
       file \<leftarrow> f;
       s1 \<leftarrow> fd_array_acquire file s;
       node \<leftarrow> f_node (get_file file s1);
       (ret, iob, s2) \<leftarrow> vop_getdirentry V node (iobuf_init name (FS_MAX_FNAME_LEN + 1) off) s1;
       s3 \<leftarrow> fd_array_release V file s2;
       Some (ret, if ret = 0 then off + int (iobuf_used iob) else off, s3)
     }
   }"

definition file_dup :: "int \<Rightarrow> int \<Rightarrow> 'd os \<Rightarrow> (int \<times> 'd os) option" where
  "file_dup fd1 fd2 s = do {
     (ret, f1) \<leftarrow> fd2file fd1 s;
     if ret \<noteq> 0 then Some (ret, s)
     else do {
       file1 \<leftarrow> f1;
       (ret, f2, s1) \<leftarrow> fd_array_alloc fd2 s;
       if ret \<noteq> 0 then Some (ret, s1)
       else do {
         file2 \<leftarrow> f2;
         s2 \<leftarrow> fd_array_dup file2 file1 s1;
         Some (f_fd (get_file file2 s2), s2)
       }
     }
   }"

section \<open>fs.c\<close>

definition files_create :: "'d os \<Rightarrow> nat option \<times> 'd os" where
  "files_create s =
     (case os_kmalloc s of
        (None, s1) \<Rightarrow> (None, s1)
      | (Some p, s1) \<Rightarrow>
          (let s2 = upd_files p (\<lambda>x. x\<lparr>fl_pwd := None, fl_count := 0\<rparr>) s1;
               s3 = set_kern (sem_init p 1 (os_kern s2)) s2
           in (Some p, fd_array_init p s3)))"

text \<open>The loops over the table, from index \<open>i\<close> on for \<open>n\<close> entries.\<close>

fun destroy_loop :: "'d vops \<Rightarrow> nat \<Rightarrow> nat \<Rightarrow> nat \<Rightarrow> 'd os \<Rightarrow> 'd os option" where
  "destroy_loop V p i 0 s = Some s"
| "destroy_loop V p i (Suc n) s = do {
     s1 \<leftarrow> (if f_status (get_file (p, i) s) = FD_OPENED then fd_array_close V (p, i) s else Some s);
     kassert (f_status (get_file (p, i) s1) = FD_NONE);
     destroy_loop V p (Suc i) n s1
   }"

definition files_destroy :: "'d vops \<Rightarrow> nat \<Rightarrow> 'd os \<Rightarrow> 'd os option" where
  "files_destroy V p s = do {
     kassert (files_count p s = 0);
     s1 \<leftarrow> (case fl_pwd (os_files s p) of
         Some d \<Rightarrow> do { (_, s1) \<leftarrow> inode_ref_dec V d s; Some s1 }
       | None \<Rightarrow> Some s);
     s2 \<leftarrow> destroy_loop V p 0 FILES_STRUCT_NENTRY s1;
     Some (os_kfree p s2)
   }"

fun closeall_loop :: "'d vops \<Rightarrow> nat \<Rightarrow> nat \<Rightarrow> nat \<Rightarrow> 'd os \<Rightarrow> 'd os option" where
  "closeall_loop V p i 0 s = Some s"
| "closeall_loop V p i (Suc n) s = do {
     s1 \<leftarrow> (if f_status (get_file (p, i) s) = FD_OPENED then fd_array_close V (p, i) s else Some s);
     closeall_loop V p (Suc i) n s1
   }"

definition files_closeall :: "'d vops \<Rightarrow> nat \<Rightarrow> 'd os \<Rightarrow> 'd os option" where
  "files_closeall V p s = do {
     kassert (0 < files_count p s);
     closeall_loop V p 2 (FILES_STRUCT_NENTRY - 2) s
   }"

fun dup_files_loop :: "nat \<Rightarrow> nat \<Rightarrow> nat \<Rightarrow> nat \<Rightarrow> 'd os \<Rightarrow> 'd os option" where
  "dup_files_loop to frm i 0 s = Some s"
| "dup_files_loop to frm i (Suc n) s = do {
     s1 \<leftarrow> (if f_status (get_file (frm, i) s) = FD_OPENED
       then fd_array_dup (to, i) (frm, i) (upd_file (to, i) (\<lambda>x. x\<lparr>f_status := FD_INIT\<rparr>) s)
       else Some s);
     dup_files_loop to frm (Suc i) n s1
   }"

definition dup_files :: "nat \<Rightarrow> nat \<Rightarrow> 'd os \<Rightarrow> (int \<times> 'd os) option" where
  "dup_files to frm s = do {
     kassert (files_count to s = 0 \<and> 0 < files_count frm s);
     let s1 = upd_files to (\<lambda>x. x\<lparr>fl_pwd := fl_pwd (os_files s frm)\<rparr>) s;
     let s2 = (case fl_pwd (os_files s1 to) of Some d \<Rightarrow> snd (inode_ref_inc d s1) | None \<Rightarrow> s1);
     s3 \<leftarrow> dup_files_loop to frm 0 FILES_STRUCT_NENTRY s2;
     Some (0, s3)
   }"

end
