(* ===== verification/Proc_Table.thy ===== *)
theory Proc_Table
  imports Sched_Lists
begin

text \<open>
  The process tables of \<open>kern/process/proc.c\<close>: the list of all processes with the parent, child
  and sibling pointers (\<open>set_links\<close>, \<open>remove_links\<close>), the allocation of process identifiers
  (\<open>get_pid\<close>) and the hash table that finds a process by identifier.
\<close>

section \<open>Names\<close>

text \<open>A name buffer has \<open>PROC_NAME_LEN + 1\<close> characters.  Both functions copy \<open>PROC_NAME_LEN\<close>
  characters, the string's terminator or not: \<open>nm\<close> is the memory from the argument's address on.\<close>

definition name_buf :: "string \<Rightarrow> string" where
  "name_buf nm = take PROC_NAME_LEN nm @ [CHR 0x00]"

definition set_proc_name :: "nat \<Rightarrow> string \<Rightarrow> kern \<Rightarrow> kern" where
  "set_proc_name p nm = upd_proc p (\<lambda>a. a\<lparr>p_name := name_buf nm\<rparr>)"

definition get_proc_name :: "nat \<Rightarrow> kern \<Rightarrow> string" where
  "get_proc_name p s = name_buf (p_name (procs s p))"

section \<open>Family links\<close>

definition set_links :: "nat \<Rightarrow> kern \<Rightarrow> kern option" where
  "set_links p s = do {
     let s1 = s\<lparr>list_links := list_add ProcList (ListLink p) (list_links s)\<rparr>;
     let s2 = upd_proc p (\<lambda>a. a\<lparr>p_yptr := None\<rparr>) s1;
     q \<leftarrow> p_parent (procs s2 p);
     let s3 = upd_proc p (\<lambda>a. a\<lparr>p_optr := p_cptr (procs s2 q)\<rparr>) s2;
     let s4 = (case p_optr (procs s3 p) of
                 Some y \<Rightarrow> upd_proc y (\<lambda>a. a\<lparr>p_yptr := Some p\<rparr>) s3
               | None \<Rightarrow> s3);
     let s5 = upd_proc q (\<lambda>a. a\<lparr>p_cptr := Some p\<rparr>) s4;
     Some (s5\<lparr>nr_process := nr_process s5 + 1\<rparr>)
   }"

definition remove_links :: "nat \<Rightarrow> kern \<Rightarrow> kern option" where
  "remove_links p s = do {
     let s1 = s\<lparr>list_links := list_del (ListLink p) (list_links s)\<rparr>;
     let s2 = (case p_optr (procs s1 p) of
                 Some y \<Rightarrow> upd_proc y (\<lambda>a. a\<lparr>p_yptr := p_yptr (procs s1 p)\<rparr>) s1
               | None \<Rightarrow> s1);
     s3 \<leftarrow> (case p_yptr (procs s2 p) of
              Some y \<Rightarrow> Some (upd_proc y (\<lambda>a. a\<lparr>p_optr := p_optr (procs s2 p)\<rparr>) s2)
            | None \<Rightarrow> do {
                q \<leftarrow> p_parent (procs s2 p);
                Some (upd_proc q (\<lambda>a. a\<lparr>p_cptr := p_optr (procs s2 p)\<rparr>) s2)
              });
     Some (s3\<lparr>nr_process := nr_process s3 - 1\<rparr>)
   }"

section \<open>Process identifiers\<close>

fun le2plist :: "plnode \<Rightarrow> nat" where
  "le2plist (ListLink p) = p"

text \<open>The scan from \<open>repeat:\<close>, with the jump back when the candidate reaches \<open>next_safe\<close>.\<close>

partial_function (option) pid_scan :: "kern \<Rightarrow> plnode \<Rightarrow> int \<Rightarrow> int \<Rightarrow> (int \<times> int) option" where
  "pid_scan s le cand safe =
     (let le' = list_next le (list_links s)
      in if le' = ProcList then Some (cand, safe)
         else let pid = p_pid (procs s (le2plist le'))
              in if pid = cand then
                   (if cand + 1 \<ge> safe
                    then pid_scan s ProcList (if cand + 1 \<ge> MAX_PID then 1 else cand + 1) MAX_PID
                    else pid_scan s le' (cand + 1) safe)
                 else if pid > cand \<and> safe > pid then pid_scan s le' cand pid
                 else pid_scan s le' cand safe)"

definition get_pid :: "kern \<Rightarrow> (int \<times> kern) option" where
  "get_pid s = do {
     let l = last_pid s + 1;
     (l', n') \<leftarrow> (if l \<ge> MAX_PID then pid_scan s ProcList 1 MAX_PID
                 else if l \<ge> next_safe s then pid_scan s ProcList l MAX_PID
                 else Some (l, next_safe s));
     Some (l', s\<lparr>last_pid := l', next_safe := n'\<rparr>)
   }"

section \<open>The hash table\<close>

definition GOLDEN_RATIO_PRIME_32 :: nat where
  "GOLDEN_RATIO_PRIME_32 = 0x9e370001"

definition hash32 :: "nat \<Rightarrow> nat \<Rightarrow> nat" where
  "hash32 val bits = (let h = u32 (val * GOLDEN_RATIO_PRIME_32) in h div 2 ^ (32 - bits))"

definition HASH_SHIFT :: nat where "HASH_SHIFT = 10"
definition HASH_LIST_SIZE :: nat where "HASH_LIST_SIZE = 2 ^ HASH_SHIFT"

definition pid_hashfn :: "int \<Rightarrow> nat" where
  "pid_hashfn x = hash32 (nat (x mod 4294967296)) HASH_SHIFT"

fun le2hash :: "hnode \<Rightarrow> nat" where
  "le2hash (HashLink p) = p"

definition hash_proc :: "nat \<Rightarrow> kern \<Rightarrow> kern" where
  "hash_proc p s = s\<lparr>hash_links :=
     list_add (HashHead (pid_hashfn (p_pid (procs s p)))) (HashLink p) (hash_links s)\<rparr>"

definition unhash_proc :: "nat \<Rightarrow> kern \<Rightarrow> kern" where
  "unhash_proc p s = s\<lparr>hash_links := list_del (HashLink p) (hash_links s)\<rparr>"

partial_function (option) find_loop :: "kern \<Rightarrow> int \<Rightarrow> hnode \<Rightarrow> hnode \<Rightarrow> nat option option" where
  "find_loop s pid h le =
     (let le' = list_next le (hash_links s)
      in if le' = h then Some None
         else if p_pid (procs s (le2hash le')) = pid then Some (Some (le2hash le'))
         else find_loop s pid h le')"

definition find_proc :: "int \<Rightarrow> kern \<Rightarrow> nat option option" where
  "find_proc pid s =
     (if 0 < pid \<and> pid < MAX_PID
      then find_loop s pid (HashHead (pid_hashfn pid)) (HashHead (pid_hashfn pid))
      else Some None)"

section \<open>get\_pid returns an unused identifier\<close>

definition proc_list :: "kern \<Rightarrow> nat list \<Rightarrow> bool" where
  "proc_list s ps \<longleftrightarrow> clist (list_links s) ProcList (map ListLink ps)"

definition pids :: "kern \<Rightarrow> nat list \<Rightarrow> int set" where
  "pids s ps = (\<lambda>p. p_pid (procs s p)) ` set ps"

text \<open>No process has an identifier strictly between \<open>last_pid\<close> and \<open>next_safe\<close>.\<close>

definition pid_inv :: "kern \<Rightarrow> nat list \<Rightarrow> bool" where
  "pid_inv s ps \<longleftrightarrow> 1 \<le> last_pid s \<and> next_safe s \<le> MAX_PID
     \<and> (\<forall>x\<in>pids s ps. \<not> (last_pid s < x \<and> x < next_safe s))"

definition plnode_of :: "nat list \<Rightarrow> nat list \<Rightarrow> plnode" where
  "plnode_of us vs = (if us = [] then ProcList else ListLink (last us))"

lemma proc_list_next:
  assumes "proc_list s (us @ vs)"
  shows "list_next (plnode_of us vs) (list_links s) = (case vs of [] \<Rightarrow> ProcList | v # _ \<Rightarrow> ListLink v)"
proof (cases us rule: rev_cases)
  case Nil
  then show ?thesis
    using clist_head_next [of "list_links s" ProcList "map ListLink vs"] assms
    by (cases vs) (auto simp: proc_list_def plnode_of_def list_next_def)
next
  case (snoc us' u)
  then show ?thesis
    using clist_mid_next [of "list_links s" ProcList "map ListLink us'" "ListLink u" "map ListLink vs"] assms
    by (cases vs) (auto simp: proc_list_def plnode_of_def list_next_def)
qed

text \<open>How many increments lie between a candidate and the unused identifier \<open>u\<close>.\<close>

definition pid_dist :: "int \<Rightarrow> int \<Rightarrow> nat" where
  "pid_dist u l = nat (if l \<le> u then u - l else u - l + (MAX_PID - 1))"

lemma pid_dist_Suc:
  assumes "1 \<le> l" "l < MAX_PID" "l \<noteq> u" "1 \<le> u" "u < MAX_PID"
  shows "pid_dist u l = Suc (pid_dist u (if l + 1 \<ge> MAX_PID then 1 else l + 1))"
  using assms by (auto simp: pid_dist_def MAX_PID_def MAX_PROCESS_def)

lemma pid_scan_ok:
  assumes l: "proc_list s (us @ vs)" and u: "u \<notin> pids s (us @ vs)" "1 \<le> u" "u < MAX_PID"
    and b: "1 \<le> cand" "cand < safe" "safe \<le> MAX_PID"
    and seen: "\<forall>x\<in>pids s us. \<not> (cand \<le> x \<and> x < safe)"
  shows "\<exists>l' n'. pid_scan s (plnode_of us vs) cand safe = Some (l', n') \<and> 1 \<le> l' \<and> l' < n'
     \<and> n' \<le> MAX_PID \<and> (\<forall>x\<in>pids s (us @ vs). \<not> (l' \<le> x \<and> x < n'))"
  using l u b seen
proof (induction "pid_dist u cand" arbitrary: us vs cand safe rule: less_induct)
  case less
  note IHd = less.hyps and outer = less.prems
  from outer show ?case
  proof (induction vs arbitrary: us safe)
    case Nil
    then show ?case using proc_list_next [of s us "[]"] by (subst pid_scan.simps) simp
  next
    case (Cons v vs)
    let ?pid = "p_pid (procs s v)"
    have nx: "list_next (plnode_of us (v # vs)) (list_links s) = ListLink v"
      using proc_list_next [OF Cons.prems(1)] by simp
    have sp: "us @ v # vs = (us @ [v]) @ vs" by simp
    have nd: "plnode_of (us @ [v]) vs = ListLink v" by (cases us) (auto simp: plnode_of_def)
    have pin: "pids s (us @ [v]) = insert ?pid (pids s us)" by (auto simp: pids_def)
    have un: "?pid \<noteq> u" using Cons.prems(2) by (auto simp: pids_def)
    show ?case
    proof (cases "?pid = cand")
      case eq: True
      have dl: "cand < MAX_PID" using Cons.prems by simp
      have dist: "pid_dist u (if cand + 1 \<ge> MAX_PID then 1 else cand + 1) < pid_dist u cand"
        using pid_dist_Suc [of cand u] Cons.prems(3-6) dl un eq by simp
      show ?thesis
      proof (cases "cand + 1 \<ge> safe")
        case True
        have st: "pid_scan s (plnode_of us (v # vs)) cand safe
            = pid_scan s (plnode_of [] (us @ v # vs)) (if cand + 1 \<ge> MAX_PID then 1 else cand + 1) MAX_PID"
          using nx eq True by (subst pid_scan.simps) (simp add: plnode_of_def Let_def)
        show ?thesis unfolding st
          using IHd [OF dist, of "[]" "us @ v # vs" MAX_PID] Cons.prems
          by (auto simp: pids_def MAX_PID_def MAX_PROCESS_def)
      next
        case False
        have st: "pid_scan s (plnode_of us (v # vs)) cand safe = pid_scan s (plnode_of (us @ [v]) vs) (cand + 1) safe"
          using nx eq False nd by (subst pid_scan.simps) (simp add: Let_def)
        have "pid_dist u (cand + 1) < pid_dist u cand" using dist False Cons.prems by simp
        from IHd [OF this, of "us @ [v]" vs safe] show ?thesis
          unfolding st sp using Cons.prems False eq pin by auto
      qed
    next
      case ne: False
      define safe' where "safe' = (if ?pid > cand \<and> safe > ?pid then ?pid else safe)"
      have st: "pid_scan s (plnode_of us (v # vs)) cand safe = pid_scan s (plnode_of (us @ [v]) vs) cand safe'"
        using nx ne nd by (subst pid_scan.simps) (simp add: Let_def safe'_def)
      show ?thesis unfolding st sp
        by (rule Cons.IH) (use Cons.prems ne pin in \<open>auto simp: safe'_def\<close>)
    qed
  qed
qed

lemma get_pid_ok:
  assumes l: "proc_list s ps" and inv: "pid_inv s ps" and free: "card (pids s ps) < 8191"
  shows "\<exists>pid t. get_pid s = Some (pid, t) \<and> 1 \<le> pid \<and> pid < MAX_PID \<and> pid \<notin> pids s ps
     \<and> t = s\<lparr>last_pid := pid, next_safe := next_safe t\<rparr> \<and> pid_inv t ps"
proof -
  have "\<exists>u. u \<in> {1..<MAX_PID} - pids s ps"
  proof (rule ccontr)
    assume "\<nexists>u. u \<in> {1..<MAX_PID} - pids s ps"
    then have "{1..<MAX_PID} \<subseteq> pids s ps" by blast
    then have "card {1..<MAX_PID} \<le> card (pids s ps)" by (intro card_mono) (simp_all add: pids_def)
    then show False using free by (simp add: MAX_PID_def MAX_PROCESS_def)
  qed
  then obtain u where u: "u \<notin> pids s ps" "1 \<le> u" "u < MAX_PID" by auto
  have scan: "\<exists>l' n'. pid_scan s ProcList k MAX_PID = Some (l', n') \<and> 1 \<le> l' \<and> l' < n' \<and> n' \<le> MAX_PID
      \<and> (\<forall>x\<in>pids s ps. \<not> (l' \<le> x \<and> x < n'))" if "1 \<le> k" "k < MAX_PID" for k
    using pid_scan_ok [of s "[]" ps u k MAX_PID] l u that by (simp add: plnode_of_def pids_def)
  have "\<exists>l' n'. (if last_pid s + 1 \<ge> MAX_PID then pid_scan s ProcList 1 MAX_PID
        else if last_pid s + 1 \<ge> next_safe s then pid_scan s ProcList (last_pid s + 1) MAX_PID
        else Some (last_pid s + 1, next_safe s)) = Some (l', n')
      \<and> 1 \<le> l' \<and> l' < n' \<and> n' \<le> MAX_PID \<and> (\<forall>x\<in>pids s ps. \<not> (l' \<le> x \<and> x < n'))"
    using scan [of 1] scan [of "last_pid s + 1"] inv
    by (auto simp: pid_inv_def MAX_PID_def MAX_PROCESS_def)
  then obtain l' n' where r: "(if last_pid s + 1 \<ge> MAX_PID then pid_scan s ProcList 1 MAX_PID
        else if last_pid s + 1 \<ge> next_safe s then pid_scan s ProcList (last_pid s + 1) MAX_PID
        else Some (last_pid s + 1, next_safe s)) = Some (l', n')"
    "1 \<le> l'" "l' < n'" "n' \<le> MAX_PID" "\<forall>x\<in>pids s ps. \<not> (l' \<le> x \<and> x < n')" by blast
  have "get_pid s = Some (l', s\<lparr>last_pid := l', next_safe := n'\<rparr>)"
    using r(1) by (simp add: get_pid_def Let_def)
  moreover have "pid_inv (s\<lparr>last_pid := l', next_safe := n'\<rparr>) ps"
    using r by (auto simp: pid_inv_def pids_def)
  ultimately show ?thesis using r by (intro exI [of _ l'] exI) auto
qed

section \<open>Lookup by identifier\<close>

lemma pid_hashfn_less: "pid_hashfn x < HASH_LIST_SIZE"
proof -
  have "u32 k div 2 ^ 22 < 2 ^ 10" for k
    using u32_less [of k] by (intro less_mult_imp_div_less) simp
  then show ?thesis by (simp add: pid_hashfn_def hash32_def HASH_SHIFT_def HASH_LIST_SIZE_def Let_def)
qed

definition hash_ok :: "kern \<Rightarrow> (nat \<Rightarrow> nat list) \<Rightarrow> bool" where
  "hash_ok s hs \<longleftrightarrow> (\<forall>h<HASH_LIST_SIZE. clist (hash_links s) (HashHead h) (map HashLink (hs h))
     \<and> (\<forall>p\<in>set (hs h). pid_hashfn (p_pid (procs s p)) = h))"

lemma hash_disjoint:
  assumes "hash_ok s hs" and "h < HASH_LIST_SIZE" and "k < HASH_LIST_SIZE" and "h \<noteq> k"
  shows "set (hs h) \<inter> set (hs k) = {}"
proof -
  have "pid_hashfn (p_pid (procs s p)) = h" if "p \<in> set (hs h)" for p
    using assms(1,2) that by (simp add: hash_ok_def)
  moreover have "pid_hashfn (p_pid (procs s p)) = k" if "p \<in> set (hs k)" for p
    using assms(1,3) that by (simp add: hash_ok_def)
  ultimately show ?thesis using assms(4) by fastforce
qed

lemma hash_proc_ok:
  fixes p :: nat
  assumes ok: "hash_ok s hs"
  defines "h \<equiv> pid_hashfn (p_pid (procs s p))"
  assumes p: "p \<notin> set (hs h)"
  shows "hash_ok (hash_proc p s) (hs(h := p # hs h))"
proof -
  have h: "h < HASH_LIST_SIZE" by (simp add: h_def pid_hashfn_less)
  have c: "clist (hash_links s) (HashHead h) (map HashLink (hs h))" using ok h by (simp add: hash_ok_def)
  have new: "clist (list_add (HashHead h) (HashLink p) (hash_links s)) (HashHead h) (HashLink p # map HashLink (hs h))"
    by (rule clist_push_front [OF c]) (use p in auto)
  have other: "clist (list_add (HashHead h) (HashLink p) (hash_links s)) (HashHead k) (map HashLink (hs k))"
    if k: "k < HASH_LIST_SIZE" "k \<noteq> h" for k
  proof -
    have ck: "clist (hash_links s) (HashHead k) (map HashLink (hs k))" using ok k by (simp add: hash_ok_def)
    have "p \<notin> set (hs k)" using ok k by (auto simp: hash_ok_def h_def)
    moreover have "lnext (hash_links s) (HashHead h) \<notin> set (HashHead k # map HashLink (hs k))"
      using clist_head_next [OF c] hash_disjoint [OF ok h k(1)] k(2) by (cases "hs h") auto
    ultimately show ?thesis
      unfolding list_add_def list_add_after_def by (intro clist_add_frame [OF ck]) (use k(2) in auto)
  qed
  show ?thesis
    unfolding hash_ok_def
  proof (intro allI impI)
    fix k assume "k < HASH_LIST_SIZE"
    then show "clist (hash_links (hash_proc p s)) (HashHead k) (map HashLink ((hs(h := p # hs h)) k))
        \<and> (\<forall>q\<in>set ((hs(h := p # hs h)) k). pid_hashfn (p_pid (procs (hash_proc p s) q)) = k)"
      using new other ok by (cases "k = h") (auto simp: hash_proc_def h_def hash_ok_def)
  qed
qed

lemma unhash_proc_ok:
  fixes p :: nat
  assumes ok: "hash_ok s hs"
  defines "h \<equiv> pid_hashfn (p_pid (procs s p))"
  assumes p: "p \<in> set (hs h)"
  shows "hash_ok (unhash_proc p s) (hs(h := remove1 p (hs h)))"
proof -
  have h: "h < HASH_LIST_SIZE" by (simp add: h_def pid_hashfn_less)
  obtain us vs where e: "hs h = us @ p # vs" "p \<notin> set us" using p by (meson split_list_first)
  have c: "clist (hash_links s) (HashHead h) (map HashLink us @ HashLink p # map HashLink vs)"
    using ok h e by (auto simp: hash_ok_def)
  have r: "remove1 p (hs h) = us @ vs" using e by (simp add: remove1_append)
  have new: "clist (list_del (HashLink p) (hash_links s)) (HashHead h) (map HashLink us @ map HashLink vs)"
    by (rule clist_list_del [OF c])
  have other: "clist (list_del (HashLink p) (hash_links s)) (HashHead k) (map HashLink (hs k))"
    if k: "k < HASH_LIST_SIZE" "k \<noteq> h" for k
  proof (rule clist_del_frame)
    show "clist (hash_links s) (HashHead k) (map HashLink (hs k))" using ok k by (simp add: hash_ok_def)
    have d: "set (hs h) \<inter> set (hs k) = {}" using hash_disjoint [OF ok h k(1)] k(2) by simp
    show "lprev (hash_links s) (HashLink p) \<notin> set (HashHead k # map HashLink (hs k))"
      using clist_mid_prev [OF c] d e k(2) by (cases us rule: rev_cases) auto
    show "lnext (hash_links s) (HashLink p) \<notin> set (HashHead k # map HashLink (hs k))"
      using clist_mid_next [OF c] d e k(2) by (cases vs) auto
  qed
  show ?thesis
    unfolding hash_ok_def
  proof (intro allI impI)
    fix k assume "k < HASH_LIST_SIZE"
    then show "clist (hash_links (unhash_proc p s)) (HashHead k) (map HashLink ((hs(h := remove1 p (hs h))) k))
        \<and> (\<forall>q\<in>set ((hs(h := remove1 p (hs h))) k). pid_hashfn (p_pid (procs (unhash_proc p s) q)) = k)"
      using new other ok e r by (cases "k = h") (auto simp: unhash_proc_def hash_ok_def)
  qed
qed

lemma find_loop_ok:
  assumes "clist (hash_links s) h (map HashLink (us @ vs))" and "h \<notin> range HashLink"
  shows "find_loop s pid h (if us = [] then h else HashLink (last us))
     = Some (List.find (\<lambda>p. p_pid (procs s p) = pid) vs)"
  using assms
proof (induction vs arbitrary: us)
  case Nil
  have "list_next (if us = [] then h else HashLink (last us)) (hash_links s) = h"
    using clist_head_next [OF Nil.prems(1)]
      clist_mid_next [of "hash_links s" h "map HashLink (butlast us)" "HashLink (last us)" "[]"] Nil.prems(1)
    by (cases us rule: rev_cases) (auto simp: list_next_def)
  then show ?case by (subst find_loop.simps) simp
next
  case (Cons v vs)
  have nx: "list_next (if us = [] then h else HashLink (last us)) (hash_links s) = HashLink v"
    using clist_head_next [OF Cons.prems(1)] Cons.prems(1)
      clist_mid_next [of "hash_links s" h "map HashLink (butlast us)" "HashLink (last us)" "HashLink v # map HashLink vs"]
    by (cases us rule: rev_cases) (auto simp: list_next_def)
  have "HashLink v \<noteq> h" using Cons.prems(2) by auto
  then show ?case
    using nx Cons.IH [of "us @ [v]"] Cons.prems by (subst find_loop.simps) (simp add: Let_def)
qed

lemma find_proc_ok:
  assumes "hash_ok s hs"
  shows "find_proc pid s = Some (if 0 < pid \<and> pid < MAX_PID
     then List.find (\<lambda>p. p_pid (procs s p) = pid) (hs (pid_hashfn pid)) else None)"
proof -
  have "clist (hash_links s) (HashHead (pid_hashfn pid)) (map HashLink ([] @ hs (pid_hashfn pid)))"
    using assms pid_hashfn_less [of pid] by (simp add: hash_ok_def)
  from find_loop_ok [OF this, of pid] show ?thesis by (auto simp: find_proc_def)
qed

section \<open>The family tree\<close>

text \<open>\<open>sib_seg s a xs b\<close>: the siblings \<open>xs\<close> are linked by \<open>optr\<close> (older) and \<open>yptr\<close> (younger),
  with \<open>a\<close> before and \<open>b\<close> after them.\<close>

definition opt_hd :: "nat list \<Rightarrow> nat option \<Rightarrow> nat option" where
  "opt_hd xs d = (case xs of [] \<Rightarrow> d | x # _ \<Rightarrow> Some x)"

definition opt_last :: "nat list \<Rightarrow> nat option \<Rightarrow> nat option" where
  "opt_last xs d = (if xs = [] then d else Some (last xs))"

lemma opt_hd_simps [simp]: "opt_hd [] d = d" "opt_hd (x # xs) d = Some x"
  by (simp_all add: opt_hd_def)

lemma opt_last_simps [simp]: "opt_last [] d = d" "opt_last (xs @ [x]) d = Some x"
  "opt_last (x # xs) d = opt_last xs (Some x)"
  by (simp_all add: opt_last_def)

primrec sib_seg :: "kern \<Rightarrow> nat option \<Rightarrow> nat list \<Rightarrow> nat option \<Rightarrow> bool" where
  "sib_seg s a [] b \<longleftrightarrow> True"
| "sib_seg s a (x # xs) b \<longleftrightarrow> p_yptr (procs s x) = a \<and> p_optr (procs s x) = opt_hd xs b
     \<and> sib_seg s (Some x) xs b"

lemma sib_seg_append:
  "sib_seg s a (xs @ ys) b \<longleftrightarrow> sib_seg s a xs (opt_hd ys b) \<and> sib_seg s (opt_last xs a) ys b"
  by (induction xs arbitrary: a) (auto simp: opt_hd_def split: list.splits)

lemma sib_seg_cong:
  "(\<And>x. x \<in> set xs \<Longrightarrow> p_yptr (procs t x) = p_yptr (procs s x) \<and> p_optr (procs t x) = p_optr (procs s x))
   \<Longrightarrow> sib_seg t a xs b = sib_seg s a xs b"
  by (induction xs arbitrary: a) auto

definition children :: "kern \<Rightarrow> nat \<Rightarrow> nat list \<Rightarrow> bool" where
  "children s q cs \<longleftrightarrow> p_cptr (procs s q) = opt_hd cs None \<and> sib_seg s None cs None \<and> distinct cs"

text \<open>The processes are the idle process \<open>i\<close>, which is on no list, and those of the process list;
  \<open>ch q\<close> are the children of \<open>q\<close>, youngest first.\<close>

definition family :: "kern \<Rightarrow> nat \<Rightarrow> nat list \<Rightarrow> (nat \<Rightarrow> nat list) \<Rightarrow> bool" where
  "family s i ps ch \<longleftrightarrow> proc_list s ps \<and> nr_process s = int (length ps) + 1 \<and> i \<notin> set ps
     \<and> (\<forall>p\<in>set ps. \<exists>q\<in>insert i (set ps). p_parent (procs s p) = Some q)
     \<and> (\<forall>q\<in>insert i (set ps). children s q (ch q)
          \<and> set (ch q) = {p \<in> set ps. p_parent (procs s p) = Some q})"

lemma family_disjoint:
  "family s i ps ch \<Longrightarrow> q \<in> insert i (set ps) \<Longrightarrow> r \<in> insert i (set ps) \<Longrightarrow> q \<noteq> r
    \<Longrightarrow> set (ch q) \<inter> set (ch r) = {}"
  by (auto simp: family_def)

lemma proc_list_add:
  assumes "proc_list s ps" and "p \<notin> set ps"
  shows "proc_list (s\<lparr>list_links := list_add ProcList (ListLink p) (list_links s)\<rparr>) (p # ps)"
  using assms clist_push_front [of "list_links s" ProcList "map ListLink ps" "ListLink p"]
  by (auto simp: proc_list_def)

lemma proc_list_del:
  assumes "proc_list s ps" and "p \<in> set ps"
  shows "proc_list (s\<lparr>list_links := list_del (ListLink p) (list_links s)\<rparr>) (remove1 p ps)"
proof -
  obtain us vs where e: "ps = us @ p # vs" "p \<notin> set us" using assms(2) by (meson split_list_first)
  then have "clist (list_links s) ProcList (map ListLink us @ ListLink p # map ListLink vs)"
    using assms(1) by (simp add: proc_list_def)
  from clist_list_del [OF this] show ?thesis using e by (simp add: proc_list_def remove1_append)
qed

text \<open>Only the family pointers of processes, the process list and its length change.\<close>

definition links_only :: "kern \<Rightarrow> kern \<Rightarrow> bool" where
  "links_only s t \<longleftrightarrow> t = s\<lparr>procs := procs t, list_links := list_links t, nr_process := nr_process t\<rparr>
     \<and> (\<forall>x. procs t x = (procs s x)\<lparr>p_cptr := p_cptr (procs t x), p_yptr := p_yptr (procs t x),
          p_optr := p_optr (procs t x)\<rparr>)"

lemma links_only_procs:
  assumes "links_only s t"
  shows "p_parent (procs t x) = p_parent (procs s x)" "p_pid (procs t x) = p_pid (procs s x)"
    "p_state (procs t x) = p_state (procs s x)" "p_wait_state (procs t x) = p_wait_state (procs s x)"
    "p_rq (procs t x) = p_rq (procs s x)" "p_stride (procs t x) = p_stride (procs s x)"
    "p_priority (procs t x) = p_priority (procs s x)" "p_exit_code (procs t x) = p_exit_code (procs s x)"
proof -
  have e: "procs t x = (procs s x)\<lparr>p_cptr := p_cptr (procs t x), p_yptr := p_yptr (procs t x),
      p_optr := p_optr (procs t x)\<rparr>" using assms by (simp add: links_only_def)
  show "p_parent (procs t x) = p_parent (procs s x)" "p_pid (procs t x) = p_pid (procs s x)"
    "p_state (procs t x) = p_state (procs s x)" "p_wait_state (procs t x) = p_wait_state (procs s x)"
    "p_rq (procs t x) = p_rq (procs s x)" "p_stride (procs t x) = p_stride (procs s x)"
    "p_priority (procs t x) = p_priority (procs s x)" "p_exit_code (procs t x) = p_exit_code (procs s x)"
    by (subst e, simp)+
qed

lemma links_only_kern:
  assumes "links_only s t"
  shows "rq_view t = rq_view s" "current t = current s" "idleproc t = idleproc s"
    "initproc t = initproc s" "hash_links t = hash_links s" "last_pid t = last_pid s"
    "next_safe t = next_safe s" "wait_links t = wait_links s" "waits t = waits s" "sems t = sems s"
proof -
  have e: "t = s\<lparr>procs := procs t, list_links := list_links t, nr_process := nr_process t\<rparr>"
    using assms by (simp add: links_only_def)
  show "current t = current s" "idleproc t = idleproc s"
    "initproc t = initproc s" "hash_links t = hash_links s" "last_pid t = last_pid s"
    "next_safe t = next_safe s" "wait_links t = wait_links s" "waits t = waits s" "sems t = sems s"
    by (subst e, simp)+
  have "run_links t = run_links s" "proc_num t = proc_num s" "max_time_slice t = max_time_slice s"
    "run_pool t = run_pool s" "pool t = pool s" by (subst e, simp)+
  then show "rq_view t = rq_view s" using links_only_procs(5-7) [OF assms] by (simp add: rq_view_def)
qed

lemma set_links_sel:
  assumes "p_parent (procs s p) = Some q" and "p_cptr (procs s q) \<noteq> Some p"
  shows "\<exists>t. set_links p s = Some t \<and> links_only s t
     \<and> list_links t = list_add ProcList (ListLink p) (list_links s) \<and> nr_process t = nr_process s + 1
     \<and> (\<forall>x. p_cptr (procs t x) = (if x = q then Some p else p_cptr (procs s x))
          \<and> p_yptr (procs t x) = (if p_cptr (procs s q) = Some x then Some p
              else if x = p then None else p_yptr (procs s x))
          \<and> p_optr (procs t x) = (if x = p then p_cptr (procs s q) else p_optr (procs s x)))"
  using assms
  by (cases "p_cptr (procs s q)") (auto simp: set_links_def links_only_def Let_def upd_proc_def)

lemma set_links_ok:
  assumes f: "family s i ps ch" and p: "p \<notin> insert i (set ps)" "p_cptr (procs s p) = None"
    and q: "p_parent (procs s p) = Some q" "q \<in> insert i (set ps)"
  shows "\<exists>t. set_links p s = Some t \<and> links_only s t \<and> family t i (p # ps) (ch(q := p # ch q, p := []))"
proof -
  have cq: "children s q (ch q)" "set (ch q) = {x \<in> set ps. p_parent (procs s x) = Some q}"
    using f q(2) by (auto simp: family_def)
  have np: "p \<noteq> q" "p \<notin> set (ch q)" using p q cq(2) by auto
  have hd: "p_cptr (procs s q) = opt_hd (ch q) None" using cq(1) by (simp add: children_def)
  have "p_cptr (procs s q) \<noteq> Some p" using hd np(2) by (auto simp: opt_hd_def split: list.splits)
  from set_links_sel [OF q(1) this] obtain t where t: "set_links p s = Some t" "links_only s t"
    "list_links t = list_add ProcList (ListLink p) (list_links s)" "nr_process t = nr_process s + 1"
    "\<And>x. p_cptr (procs t x) = (if x = q then Some p else p_cptr (procs s x))"
    "\<And>x. p_yptr (procs t x) = (if p_cptr (procs s q) = Some x then Some p
        else if x = p then None else p_yptr (procs s x))"
    "\<And>x. p_optr (procs t x) = (if x = p then p_cptr (procs s q) else p_optr (procs s x))" by blast
  have par: "p_parent (procs t x) = p_parent (procs s x)" for x by (rule links_only_procs [OF t(2)])
  have head: "x \<in> set (ch q)" if "p_cptr (procs s q) = Some x" for x
    using that hd by (auto simp: opt_hd_def split: list.splits)
  have same: "sib_seg t a xs b = sib_seg s a xs b" if "p \<notin> set xs" "\<forall>x\<in>set xs. p_cptr (procs s q) \<noteq> Some x"
    for a xs b
    by (rule sib_seg_cong) (use that t(6,7) in auto)
  have new: "children t q (p # ch q)"
  proof -
    have "sib_seg t (Some p) (ch q) None"
    proof (cases "ch q")
      case (Cons y ys)
      have s: "sib_seg s None (y # ys) None" "distinct (y # ys)" using cq(1) Cons by (simp_all add: children_def)
      have "sib_seg t (Some y) ys None"
        using s same [of ys "Some y" None] np(2) hd Cons by auto
      then show ?thesis using s Cons hd t(6,7) np(2) by auto
    qed simp
    then show ?thesis using t(5-7) cq(1) np hd head by (auto simp: children_def)
  qed
  have rest: "children t r (ch r)" if r: "r \<in> insert i (set ps)" "r \<noteq> q" for r
  proof -
    have c: "children s r (ch r)" "set (ch r) = {x \<in> set ps. p_parent (procs s x) = Some r}"
      using f r(1) by (auto simp: family_def)
    have "set (ch q) \<inter> set (ch r) = {}" using family_disjoint [OF f q(2) r(1)] r(2) by simp
    then have "\<forall>x\<in>set (ch r). p_cptr (procs s q) \<noteq> Some x" using head by auto
    moreover have "p \<notin> set (ch r)" using c(2) p by auto
    ultimately show ?thesis using c(1) same t(5) r(2) by (auto simp: children_def)
  qed
  have self: "children t p []" using t(5) np(1) p(2) by (simp add: children_def)
  have "proc_list t (p # ps)"
    using proc_list_add [of s ps p] f p(1) t(3) by (simp add: proc_list_def family_def)
  moreover have "\<forall>x\<in>set (p # ps). \<exists>r\<in>insert i (set (p # ps)). p_parent (procs t x) = Some r"
    using f q unfolding family_def par by auto
  moreover have "\<forall>r\<in>insert i (set (p # ps)). children t r ((ch(q := p # ch q, p := [])) r)
      \<and> set ((ch(q := p # ch q, p := [])) r) = {x \<in> set (p # ps). p_parent (procs t x) = Some r}"
  proof
    fix r assume r: "r \<in> insert i (set (p # ps))"
    have noch: "p_parent (procs s x) \<noteq> Some p" if "x \<in> set (p # ps)" for x
      using that f p(1) q np(1) by (fastforce simp: family_def)
    consider "r = p" | "r = q" "r \<noteq> p" | "r \<in> insert i (set ps)" "r \<noteq> p" "r \<noteq> q" using r by auto
    then show "children t r ((ch(q := p # ch q, p := [])) r)
      \<and> set ((ch(q := p # ch q, p := [])) r) = {x \<in> set (p # ps). p_parent (procs t x) = Some r}"
    proof cases
      case 1
      then show ?thesis using self noch by (auto simp: par)
    next
      case 2
      then show ?thesis using new cq(2) q(1) by (auto simp: par)
    next
      case 3
      have "set (ch r) = {x \<in> set ps. p_parent (procs s x) = Some r}" using f 3(1) by (auto simp: family_def)
      moreover have "{x \<in> set (p # ps). p_parent (procs s x) = Some r} = {x \<in> set ps. p_parent (procs s x) = Some r}"
        using q(1) 3(3) by auto
      ultimately show ?thesis using rest [OF 3(1,3)] 3(2,3) by (simp only: par fun_upd_other) simp
    qed
  qed
  ultimately have "family t i (p # ps) (ch(q := p # ch q, p := []))"
    using f p(1) t(4) by (simp add: family_def)
  then show ?thesis using t(1,2) by blast
qed

lemma remove_links_sel:
  assumes "p_parent (procs s p) = Some q" and "p_optr (procs s p) \<noteq> Some p" and "p_yptr (procs s p) \<noteq> Some p"
  shows "\<exists>t. remove_links p s = Some t \<and> links_only s t
     \<and> list_links t = list_del (ListLink p) (list_links s) \<and> nr_process t = nr_process s - 1
     \<and> (\<forall>x. p_cptr (procs t x) = (if p_yptr (procs s p) = None \<and> x = q then p_optr (procs s p) else p_cptr (procs s x))
          \<and> p_yptr (procs t x) = (if p_optr (procs s p) = Some x then p_yptr (procs s p) else p_yptr (procs s x))
          \<and> p_optr (procs t x) = (if p_yptr (procs s p) = Some x then p_optr (procs s p) else p_optr (procs s x)))"
  using assms
  by (cases "p_optr (procs s p)"; cases "p_yptr (procs s p)")
    (auto simp: remove_links_def links_only_def Let_def upd_proc_def)

lemma remove_links_ok:
  assumes f: "family s i ps ch" and p: "p \<in> set ps" "ch p = []" and q: "p_parent (procs s p) = Some q"
  shows "\<exists>t. remove_links p s = Some t \<and> links_only s t \<and> family t i (remove1 p ps) (ch(q := remove1 p (ch q)))"
proof -
  have qin: "q \<in> insert i (set ps)" using f p(1) q by (auto simp: family_def)
  have cq: "children s q (ch q)" "set (ch q) = {x \<in> set ps. p_parent (procs s x) = Some q}"
    using f qin by (auto simp: family_def)
  then have "p \<in> set (ch q)" using p q by simp
  then obtain us vs where e: "ch q = us @ p # vs" by (meson split_list)
  have d: "distinct (us @ p # vs)" and sg: "sib_seg s None (us @ p # vs) None"
    using cq(1) e by (simp_all add: children_def)
  have pp: "p_yptr (procs s p) = opt_last us None" "p_optr (procs s p) = opt_hd vs None"
    using sg by (simp_all add: sib_seg_append)
  have inn: "opt_last us None = Some x \<Longrightarrow> x \<in> set us" "opt_hd vs None = Some x \<Longrightarrow> x \<in> set vs" for x
    by (auto simp: opt_last_def opt_hd_def split: if_splits list.splits)
  have "p_optr (procs s p) \<noteq> Some p" "p_yptr (procs s p) \<noteq> Some p"
    using inn d unfolding pp by auto
  from remove_links_sel [OF q this] obtain t where t: "remove_links p s = Some t" "links_only s t"
    "list_links t = list_del (ListLink p) (list_links s)" "nr_process t = nr_process s - 1"
    "\<And>x. p_cptr (procs t x) = (if opt_last us None = None \<and> x = q then opt_hd vs None else p_cptr (procs s x))"
    "\<And>x. p_yptr (procs t x) = (if opt_hd vs None = Some x then opt_last us None else p_yptr (procs s x))"
    "\<And>x. p_optr (procs t x) = (if opt_last us None = Some x then opt_hd vs None else p_optr (procs s x))"
    unfolding pp by blast
  have par: "p_parent (procs t x) = p_parent (procs s x)" for x by (rule links_only_procs [OF t(2)])
  have left: "sib_seg t None us (opt_hd vs None)"
  proof (cases us rule: rev_cases)
    case (snoc us' u)
    have s: "sib_seg s None us' (Some u)" "p_yptr (procs s u) = opt_last us' None"
      using sg snoc by (simp_all add: sib_seg_append)
    have "sib_seg t None us' (Some u) = sib_seg s None us' (Some u)"
      by (rule sib_seg_cong) (use t(6,7) snoc d inn in auto)
    moreover have "opt_hd vs None \<noteq> Some u" using inn(2) d snoc by auto
    ultimately show ?thesis using s snoc t(6,7) by (simp add: sib_seg_append)
  qed simp
  have right: "sib_seg t (opt_last us None) vs None"
  proof (cases vs)
    case (Cons v vs')
    have s: "sib_seg s (Some v) vs' None" "p_optr (procs s v) = opt_hd vs' None"
      using sg Cons by (simp_all add: sib_seg_append)
    have "sib_seg t (Some v) vs' None = sib_seg s (Some v) vs' None"
      by (rule sib_seg_cong) (use t(6,7) Cons d inn in auto)
    moreover have "opt_last us None \<noteq> Some v" using inn(1) d Cons by auto
    ultimately show ?thesis using s Cons t(6,7) by simp
  qed simp
  have r1: "remove1 p (ch q) = us @ vs" using e d by (simp add: remove1_append)
  have new: "children t q (us @ vs)"
  proof -
    have "p_cptr (procs t q) = opt_hd (us @ vs) None"
      using t(5) [of q] cq(1) e by (cases us) (auto simp: children_def opt_last_def)
    then show ?thesis using left right d by (simp add: children_def sib_seg_append)
  qed
  have rest: "children t r (ch r)" if r: "r \<in> insert i (set ps)" "r \<noteq> q" for r
  proof -
    have c: "children s r (ch r)" using f r(1) by (auto simp: family_def)
    have dis: "set (ch q) \<inter> set (ch r) = {}" using family_disjoint [OF f qin r(1)] r(2) by simp
    have "sib_seg t None (ch r) None = sib_seg s None (ch r) None"
      by (rule sib_seg_cong) (use t(6,7) dis e inn in auto)
    then show ?thesis using c t(5) r(2) by (simp add: children_def)
  qed
  have pl: "proc_list t (remove1 p ps)"
    using proc_list_del [of s ps p] f p(1) t(3) by (simp add: proc_list_def family_def)
  have dps: "distinct ps" using f by (auto simp: family_def proc_list_def clist_def distinct_map)
  have noch: "p_parent (procs s x) \<noteq> Some p" if "x \<in> set ps" for x
    using f p that by (auto simp: family_def)
  have parents: "\<forall>x\<in>set (remove1 p ps). \<exists>r\<in>insert i (set (remove1 p ps)). p_parent (procs t x) = Some r"
  proof
    fix x assume "x \<in> set (remove1 p ps)"
    then have "x \<in> set ps" using dps by simp
    then obtain r where "r \<in> insert i (set ps)" "p_parent (procs s x) = Some r"
      using f unfolding family_def by blast
    then show "\<exists>r\<in>insert i (set (remove1 p ps)). p_parent (procs t x) = Some r"
      using noch \<open>x \<in> set ps\<close> dps by (auto simp: par)
  qed
  have "\<forall>r\<in>insert i (set (remove1 p ps)). children t r ((ch(q := remove1 p (ch q))) r)
      \<and> set ((ch(q := remove1 p (ch q))) r) = {x \<in> set (remove1 p ps). p_parent (procs t x) = Some r}"
  proof
    fix r assume "r \<in> insert i (set (remove1 p ps))"
    then have r: "r \<in> insert i (set ps)" using dps by auto
    show "children t r ((ch(q := remove1 p (ch q))) r)
      \<and> set ((ch(q := remove1 p (ch q))) r) = {x \<in> set (remove1 p ps). p_parent (procs t x) = Some r}"
    proof (cases "r = q")
      case True
      have "set (us @ vs) = set (ch q) - {p}" using e d by auto
      then show ?thesis using new r1 cq(2) True dps by (auto simp: par)
    next
      case False
      have "set (ch r) = {x \<in> set ps. p_parent (procs s x) = Some r}" using f r by (auto simp: family_def)
      then show ?thesis using rest [OF r False] False q dps by (auto simp: par)
    qed
  qed
  moreover have "int (length (remove1 p ps)) = int (length ps) - 1"
  proof -
    have "length ps > 0" using p(1) by (cases ps) simp_all
    then have "int (length ps - 1) = int (length ps) - 1" by linarith
    then show ?thesis using p(1) by (simp only: length_remove1 if_True)
  qed
  ultimately have "family t i (remove1 p ps) (ch(q := remove1 p (ch q)))"
    using f pl parents t(4) dps by (simp add: family_def)
  then show ?thesis using t(1,2) by blast
qed

section \<open>Properties\<close>

lemma pids_add: "pids (upd_proc p (\<lambda>a. a\<lparr>p_pid := x\<rparr>) s) (p # ps) \<subseteq> insert x (pids s ps)"
  by (auto simp: pids_def)

lemma boot_lists:
  "proc_list boot_kern []" "hash_ok boot_kern (\<lambda>_. [])" "pid_inv boot_kern []"
  by (simp_all add: proc_list_def hash_ok_def pid_inv_def pids_def boot_kern_def MAX_PID_def MAX_PROCESS_def
      clist_def)

text \<open>C21: as long as one identifier is unused \<open>get_pid\<close> always returns.  The identifier
  it gives is valid and no process of the process list has it; only the two static variables change, and the
  window of identifiers they describe as unused stays right when the new process gets the
  identifier and joins the list.\<close>

theorem get_pid_unused:
  assumes "proc_list s ps" and "pid_inv s ps" and "card (pids s ps) < 8191"
  shows "\<exists>pid t. get_pid s = Some (pid, t) \<and> 1 \<le> pid \<and> pid < MAX_PID \<and> pid \<notin> pids s ps
     \<and> t = s\<lparr>last_pid := pid, next_safe := next_safe t\<rparr> \<and> pid_inv t ps
     \<and> (\<forall>p. pid_inv (upd_proc p (\<lambda>a. a\<lparr>p_pid := pid\<rparr>) t) (p # ps))"
proof -
  obtain pid t where g: "get_pid s = Some (pid, t)" "1 \<le> pid" "pid < MAX_PID" "pid \<notin> pids s ps"
    "t = s\<lparr>last_pid := pid, next_safe := next_safe t\<rparr>" "pid_inv t ps"
    using get_pid_ok [OF assms] by blast
  have "last_pid t = pid" by (subst g(5)) simp
  then have "pid_inv (upd_proc p (\<lambda>a. a\<lparr>p_pid := pid\<rparr>) t) (p # ps)" for p
    using g(6) pids_add [of p pid t ps] by (auto simp: pid_inv_def)
  then show ?thesis using g by blast
qed

theorem get_pid_unused_witness:
  "\<exists>pid t. get_pid (boot_kern\<lparr>last_pid := 4\<rparr>) = Some (pid, t) \<and> 1 \<le> pid \<and> pid < MAX_PID"
proof -
  have "proc_list (boot_kern\<lparr>last_pid := 4\<rparr>) []" "pid_inv (boot_kern\<lparr>last_pid := 4\<rparr>) []"
    using boot_lists(1,3) by (simp_all add: proc_list_def pid_inv_def pids_def)
  moreover have "card (pids (boot_kern\<lparr>last_pid := 4\<rparr>) []) < 8191" by (simp add: pids_def)
  ultimately show ?thesis using get_pid_unused by blast
qed

text \<open>A process that \<open>hash_proc\<close> enters is found under its identifier, all other lookups are as
  they were, and \<open>unhash_proc\<close> takes the effect back.  Lookups always return.\<close>

theorem hash_proc_find_proc:
  assumes "hash_ok s hs" and "p \<notin> set (hs (pid_hashfn (p_pid (procs s p))))"
    and "0 < p_pid (procs s p)" and "p_pid (procs s p) < MAX_PID"
  shows "find_proc (p_pid (procs s p)) (hash_proc p s) = Some (Some p)
     \<and> (\<forall>x. x \<noteq> p_pid (procs s p) \<longrightarrow> find_proc x (hash_proc p s) = find_proc x s)
     \<and> (\<forall>x. find_proc x (unhash_proc p (hash_proc p s)) = find_proc x s)
     \<and> (\<forall>x. find_proc x s \<noteq> None)"
proof -
  let ?h = "pid_hashfn (p_pid (procs s p))"
  have a: "hash_ok (hash_proc p s) (hs(?h := p # hs ?h))" by (rule hash_proc_ok [OF assms(1,2)])
  have pr: "procs (hash_proc p s) = procs s" "procs (unhash_proc p (hash_proc p s)) = procs s"
    by (simp_all add: hash_proc_def unhash_proc_def)
  have "hash_ok (unhash_proc p (hash_proc p s)) hs"
    using unhash_proc_ok [OF a, of p] by (simp add: pr)
  from find_proc_ok [OF this] find_proc_ok [OF a] find_proc_ok [OF assms(1)]
  show ?thesis using assms(3,4) by (simp add: pr)
qed

theorem hash_proc_find_proc_witness:
  "find_proc 7 (hash_proc 3 (upd_proc 3 (\<lambda>a. a\<lparr>p_pid := 7\<rparr>) boot_kern)) = Some (Some 3)"
proof -
  let ?s = "upd_proc 3 (\<lambda>a. a\<lparr>p_pid := 7\<rparr>) boot_kern"
  have "hash_ok ?s (\<lambda>_. [])" using boot_lists(2) by (simp add: hash_ok_def)
  then show ?thesis using hash_proc_find_proc [of ?s "\<lambda>_. []" 3] by (simp add: MAX_PID_def MAX_PROCESS_def)
qed

text \<open>\<open>set_links\<close> puts a new process in front of the process list and makes it the youngest child of
  its parent; all sibling lists stay right, and \<open>remove_links\<close> undoes it.\<close>

theorem set_links_adds_child:
  assumes "family s i ps ch" and "p \<notin> insert i (set ps)" and "p_cptr (procs s p) = None"
    and "p_parent (procs s p) = Some q" and "q \<in> insert i (set ps)"
  shows "\<exists>t u. set_links p s = Some t \<and> links_only s t \<and> family t i (p # ps) (ch(q := p # ch q, p := []))
     \<and> remove_links p t = Some u \<and> family u i ps (ch(p := []))"
proof -
  obtain t where t: "set_links p s = Some t" "links_only s t" "family t i (p # ps) (ch(q := p # ch q, p := []))"
    using set_links_ok [OF assms] by blast
  have n: "p \<noteq> q" using assms(2,5) by auto
  have "p_parent (procs t p) = Some q" using links_only_procs(1) [OF t(2)] assms(4) by simp
  from remove_links_ok [OF t(3) _ _ this] obtain u where
    u: "remove_links p t = Some u" "family u i ps ((ch(q := p # ch q, p := []))(q := ch q))"
    using n by auto
  have "(ch(q := p # ch q, p := []))(q := ch q) = ch(p := [])" using n by auto
  then show ?thesis using t u by auto
qed

lemma example_family:
  "family (boot_kern\<lparr>nr_process := 1, procs := (\<lambda>x. zero_proc\<lparr>p_parent := Some 1\<rparr>)\<rparr>) 1 [] (\<lambda>_. [])"
  using boot_lists(1) by (simp add: family_def children_def proc_list_def zero_proc_def)

theorem set_links_adds_child_witness:
  "\<exists>t. set_links 2 (boot_kern\<lparr>nr_process := 1, procs := (\<lambda>x. zero_proc\<lparr>p_parent := Some 1\<rparr>)\<rparr>) = Some t
     \<and> family t 1 [2] ((\<lambda>_. [])(1 := [2], 2 := []))"
  using set_links_adds_child [OF example_family, of 2 1] by (auto simp: zero_proc_def)

text \<open>Removing any childless process of the list takes it out of the process list and out of its
  parent's children, wherever among its siblings it is, and keeps everybody else's family.\<close>

theorem remove_links_removes_child:
  assumes "family s i ps ch" and "p \<in> set ps" and "ch p = []" and "p_parent (procs s p) = Some q"
  shows "\<exists>t. remove_links p s = Some t \<and> links_only s t
     \<and> family t i (remove1 p ps) (ch(q := remove1 p (ch q)))"
  by (rule remove_links_ok [OF assms])

theorem remove_links_removes_child_witness:
  "\<exists>s t. family s 1 [3, 2] ((\<lambda>_. [])(1 := [3, 2])) \<and> remove_links 2 s = Some t
     \<and> family t 1 [3] ((\<lambda>_. [])(1 := [3]))"
proof -
  let ?P = "\<lambda>x. if x = 1 then zero_proc\<lparr>p_cptr := Some 3\<rparr>
    else if x = 2 then zero_proc\<lparr>p_parent := Some 1, p_yptr := Some 3\<rparr>
    else if x = (3::nat) then zero_proc\<lparr>p_parent := Some 1, p_optr := Some 2\<rparr> else zero_proc"
  let ?l = "list_add ProcList (ListLink 3) (list_add ProcList (ListLink 2) (list_links boot_kern))"
  let ?s = "boot_kern\<lparr>nr_process := 3, procs := ?P, list_links := ?l\<rparr>"
  have "proc_list (boot_kern\<lparr>list_links := list_add ProcList (ListLink 2) (list_links boot_kern)\<rparr>) [2]"
    by (rule proc_list_add [OF boot_lists(1)]) simp
  from proc_list_add [OF this, of 3] have "proc_list ?s [3, 2]" by (simp add: proc_list_def)
  then have f: "family ?s 1 [3, 2] ((\<lambda>_. [])(1 := [3, 2]))"
    by (auto simp: family_def children_def zero_proc_def)
  have "p_parent (procs ?s 2) = Some 1" by (simp add: zero_proc_def)
  from remove_links_removes_child [OF f _ _ this] f show ?thesis by auto
qed

end
