(* ===== verification/Timers.thy ===== *)
theory Timers
  imports Sched_Lists
begin

text \<open>
  The timer list of \<open>kern/schedule/sched.c\<close>.  Each timer stores the ticks that remain after its
  predecessor expires, so a tick touches the first timer only.  The abstraction \<open>deadlines\<close> gives
  every timer its own remaining time; \<open>add_timer\<close>, \<open>del_timer\<close> and \<open>run_timer_list\<close> are shown
  to insert into, delete from and count down that table, \<open>run_timer_list\<close> against the
  contract \<open>sched_policy\<close> of the scheduling class it wakes processes through.
\<close>

section \<open>sched.c: timers\<close>

definition upd_timer :: "nat \<Rightarrow> (timer_t \<Rightarrow> timer_t) \<Rightarrow> kern \<Rightarrow> kern" where
  "upd_timer t f s = s\<lparr>timers := (timers s)(t := f (timers s t))\<rparr>"

definition upd_timer_links :: "(tnode links \<Rightarrow> tnode links) \<Rightarrow> kern \<Rightarrow> kern" where
  "upd_timer_links f s = s\<lparr>timer_links := f (timer_links s)\<rparr>"

fun le2timer :: "tnode \<Rightarrow> nat" where
  "le2timer (TimerLink t) = t"

definition expires :: "kern \<Rightarrow> nat \<Rightarrow> nat" where
  "expires s t = t_expires (timers s t)"

definition set_expires :: "nat \<Rightarrow> nat \<Rightarrow> kern \<Rightarrow> kern" where
  "set_expires t e = upd_timer t (\<lambda>x. x\<lparr>t_expires := e\<rparr>)"

definition timer_init :: "nat \<Rightarrow> nat \<Rightarrow> nat \<Rightarrow> kern \<Rightarrow> kern" where
  "timer_init t p e s =
     upd_timer_links (list_init (TimerLink t))
       (upd_timer t (\<lambda>x. x\<lparr>t_expires := u32 e, t_proc := Some p\<rparr>) s)"

partial_function (option) add_timer_loop :: "nat \<Rightarrow> tnode \<Rightarrow> kern \<Rightarrow> (tnode \<times> kern) option" where
  "add_timer_loop t le s =
     (if le \<noteq> TimerList then
        let nx = le2timer le
        in if expires s t < expires s nx
           then Some (le, set_expires nx (sub32 (expires s nx) (expires s t)) s)
           else let s1 = set_expires t (sub32 (expires s t) (expires s nx)) s
                in add_timer_loop t (list_next le (timer_links s1)) s1
      else Some (le, s))"

definition add_timer :: "nat \<Rightarrow> kern \<Rightarrow> kern option" where
  "add_timer t s = do {
     kassert (0 < expires s t \<and> t_proc (timers s t) \<noteq> None);
     kassert (list_empty (TimerLink t) (timer_links s));
     (le, s1) \<leftarrow> add_timer_loop t (list_next TimerList (timer_links s)) s;
     Some (upd_timer_links (list_add_before le (TimerLink t)) s1)
   }"

definition del_timer :: "nat \<Rightarrow> kern \<Rightarrow> kern" where
  "del_timer t s =
     (if \<not> list_empty (TimerLink t) (timer_links s) then
        let s1 = (if expires s t \<noteq> 0 then
                    let le = list_next (TimerLink t) (timer_links s)
                    in if le \<noteq> TimerList
                       then set_expires (le2timer le) (u32 (expires s (le2timer le) + expires s t)) s
                       else s
                  else s)
        in upd_timer_links (list_del_init (TimerLink t)) s1
      else s)"

partial_function (option) expire_loop :: "sched_class \<Rightarrow> nat \<Rightarrow> kern \<Rightarrow> kern option" where
  "expire_loop sc t s =
     (if expires s t = 0 then do {
        let le = list_next (TimerLink t) (timer_links s);
        p \<leftarrow> t_proc (timers s t);
        _ \<leftarrow> (if p_wait_state (procs s p) \<noteq> 0
             then kassert (and (p_wait_state (procs s p)) WT_INTERRUPTED \<noteq> 0) else Some ());
        s1 \<leftarrow> wakeup_proc sc p s;
        let s2 = del_timer t s1;
        if le = TimerList then Some s2 else expire_loop sc (le2timer le) s2
      } else Some s)"

definition run_timer_list :: "sched_class \<Rightarrow> kern \<Rightarrow> kern option" where
  "run_timer_list sc s = do {
     let le = list_next TimerList (timer_links s);
     s1 \<leftarrow> (if le \<noteq> TimerList then do {
              let t = le2timer le;
              kassert (expires s t \<noteq> 0);
              let s0 = set_expires t (sub32 (expires s t) 1) s;
              expire_loop sc t s0
            } else Some s);
     Some (case current s1 of Some c \<Rightarrow> sched_class_proc_tick sc c s1 | None \<Rightarrow> s1)
   }"

section \<open>The table of remaining times\<close>

fun tick_times :: "(nat \<Rightarrow> nat) \<Rightarrow> nat \<Rightarrow> nat list \<Rightarrow> (nat \<times> nat) list" where
  "tick_times e a [] = []"
| "tick_times e a (t # ts) = (t, a + e t) # tick_times e (a + e t) ts"

definition timer_list :: "kern \<Rightarrow> nat list \<Rightarrow> bool" where
  "timer_list s ts \<longleftrightarrow> clist (timer_links s) TimerList (map TimerLink ts)
     \<and> (\<forall>t\<in>set ts. t_proc (timers s t) \<noteq> None) \<and> sum_list (map (expires s) ts) < 4294967296
     \<and> (ts \<noteq> [] \<longrightarrow> 0 < expires s (hd ts))"

definition deadlines :: "kern \<Rightarrow> nat list \<Rightarrow> (nat \<times> nat) list" where
  "deadlines s ts = tick_times (expires s) 0 ts"

lemma times_cong: "(\<And>t. t \<in> set ts \<Longrightarrow> e t = e' t) \<Longrightarrow> tick_times e a ts = tick_times e' a ts"
  by (induction ts arbitrary: a) auto

lemma times_append:
  "tick_times e a (us @ vs) = tick_times e a us @ tick_times e (a + sum_list (map e us)) vs"
  by (induction us arbitrary: a) (auto simp: add.assoc)

lemma times_shift: "tick_times e (a + d) ts = map (\<lambda>(t, x). (t, x + d)) (tick_times e a ts)"
proof (induction ts arbitrary: a)
  case (Cons t ts)
  have "tick_times e (a + d + e t) ts = tick_times e (a + e t + d) ts" by (simp add: ac_simps)
  then show ?case using Cons.IH [of "a + e t"] by (simp add: ac_simps)
qed simp

lemma times_hd: "tick_times e a (v # vs) = tick_times (e(v := a + e v)) 0 (v # vs)" if "v \<notin> set vs"
proof -
  have "tick_times e (a + e v) vs = tick_times (e(v := a + e v)) (a + e v) vs"
    by (rule times_cong) (use that in auto)
  then show ?thesis by simp
qed

lemma timer_simps [simp]:
  "timer_links (set_expires t e s) = timer_links s"
  "expires (set_expires t e s) = (expires s)(t := e)"
  "t_proc (timers (set_expires t e s) x) = t_proc (timers s x)"
  "expires (upd_timer_links f s) = expires s"
  "timers (upd_timer_links f s) = timers s"
  "timer_links (upd_timer_links f s) = f (timer_links s)"
  "procs (set_expires t e s) = procs s" "procs (upd_timer_links f s) = procs s"
  "current (set_expires t e s) = current s" "current (upd_timer_links f s) = current s"
  "idleproc (set_expires t e s) = idleproc s" "idleproc (upd_timer_links f s) = idleproc s"
  "rq_view (set_expires t e s) = rq_view s" "rq_view (upd_timer_links f s) = rq_view s"
  by (auto simp: set_expires_def upd_timer_def upd_timer_links_def expires_def fun_eq_iff rq_view_def)

definition tnode_of :: "nat list \<Rightarrow> tnode" where
  "tnode_of vs = (case vs of [] \<Rightarrow> TimerList | v # _ \<Rightarrow> TimerLink v)"

lemma tnode_of_simps [simp]: "tnode_of [] = TimerList" "tnode_of (v # vs) = TimerLink v"
  by (simp_all add: tnode_of_def)

lemma tnode_hd: "tnode_of vs = hd (map TimerLink vs @ [TimerList])"
  by (cases vs) auto

lemma timer_next:
  assumes "clist h TimerList (map TimerLink (us @ v # vs))"
  shows "list_next (TimerLink v) h = tnode_of vs"
  using assms clist_mid_next [of h TimerList "map TimerLink us" "TimerLink v" "map TimerLink vs"]
  by (simp add: list_next_def tnode_hd)

lemma timer_first:
  "clist h TimerList (map TimerLink ts) \<Longrightarrow> list_next TimerList h = tnode_of ts"
  using clist_head_next [of h TimerList "map TimerLink ts"] by (simp add: list_next_def tnode_hd)

section \<open>Inserting\<close>

text \<open>The insertion loop on the list of timers and the map of stored ticks.\<close>

fun insert_delta :: "nat \<Rightarrow> (nat \<Rightarrow> nat) \<Rightarrow> nat list \<Rightarrow> nat list \<times> nat list \<times> (nat \<Rightarrow> nat)" where
  "insert_delta t e [] = ([], [], e)"
| "insert_delta t e (v # vs) =
     (if e t < e v then ([], v # vs, e(v := e v - e t))
      else let (xs, ys, e') = insert_delta t (e(t := e t - e v)) vs in (v # xs, ys, e'))"

definition with_expires :: "(nat \<Rightarrow> nat) \<Rightarrow> kern \<Rightarrow> kern" where
  "with_expires e s = s\<lparr>timers := (\<lambda>x. (timers s x)\<lparr>t_expires := e x\<rparr>)\<rparr>"

lemma with_expires_simps [simp]:
  "with_expires e (with_expires e' s) = with_expires e s" "with_expires (expires s) s = s"
  "expires (with_expires e s) = e" "timer_links (with_expires e s) = timer_links s"
  "t_proc (timers (with_expires e s) x) = t_proc (timers s x)"
  by (auto simp: with_expires_def expires_def fun_eq_iff)

lemma set_expires_with: "set_expires t k s = with_expires ((expires s)(t := k)) s"
  by (auto simp: set_expires_def upd_timer_def with_expires_def expires_def fun_eq_iff)

lemma add_loop:
  assumes "clist (timer_links s) TimerList (map TimerLink (us @ vs))" and "t \<notin> set (us @ vs)"
    and "expires s t < 4294967296" and "\<forall>v\<in>set vs. expires s v < 4294967296"
    and "insert_delta t (expires s) vs = (xs, ys, e')"
  shows "add_timer_loop t (tnode_of vs) s = Some (tnode_of ys, with_expires e' s)"
  using assms
proof (induction vs arbitrary: us s xs ys)
  case Nil
  then show ?case by (subst add_timer_loop.simps) auto
next
  case (Cons v vs)
  show ?case
  proof (cases "expires s t < expires s v")
    case True
    then show ?thesis
      using Cons.prems by (subst add_timer_loop.simps) (auto simp: set_expires_with)
  next
    case False
    let ?s1 = "with_expires ((expires s)(t := expires s t - expires s v)) s"
    obtain xs' where x: "insert_delta t (expires ?s1) vs = (xs', ys, e')"
      using False Cons.prems(5) by (auto split: prod.splits)
    have "add_timer_loop t (tnode_of (v # vs)) s = add_timer_loop t (tnode_of vs) ?s1"
      using False Cons.prems timer_next [of "timer_links s" us v vs]
      by (subst add_timer_loop.simps) (simp add: set_expires_with)
    also have "\<dots> = Some (tnode_of ys, with_expires e' ?s1)"
      by (rule Cons.IH [of ?s1 "us @ [v]", OF _ _ _ _ x]) (use Cons.prems in auto)
    finally show ?thesis by simp
  qed
qed

lemma insert_delta_times:
  assumes "insert_delta t e vs = (xs, ys, e')" and "t \<notin> set vs" and "distinct vs"
  shows "vs = xs @ ys"
    and "tick_times e' a (xs @ t # ys)
       = tick_times e a xs @ (t, a + e t) # tick_times e (a + sum_list (map e xs)) ys"
    and "\<forall>x\<in>set xs. e' x = e x" and "sum_list (map e xs) \<le> e t"
    and "e' t = e t - sum_list (map e xs)" and "\<forall>x. x \<notin> insert t (set vs) \<longrightarrow> e' x = e x"
proof -
  have "vs = xs @ ys \<and> (\<forall>x\<in>set xs. e' x = e x) \<and> sum_list (map e xs) \<le> e t
     \<and> e' t = e t - sum_list (map e xs) \<and> (\<forall>x. x \<notin> insert t (set vs) \<longrightarrow> e' x = e x)
     \<and> (\<forall>a. tick_times e' a (xs @ t # ys)
          = tick_times e a xs @ (t, a + e t) # tick_times e (a + sum_list (map e xs)) ys)"
    using assms
  proof (induction vs arbitrary: e xs)
    case (Cons v vs)
    show ?case
    proof (cases "e t < e v")
      case True
      then have r: "xs = []" "ys = v # vs" "e' = e(v := e v - e t)" using Cons.prems by auto
      have "tick_times e' (a + e v) vs = tick_times e (a + e v) vs" for a
        by (rule times_cong) (use Cons.prems r in auto)
      then show ?thesis using True Cons.prems r by simp
    next
      case False
      let ?e1 = "e(t := e t - e v)"
      obtain xs' where x: "insert_delta t ?e1 vs = (xs', ys, e')" "xs = v # xs'"
        using False Cons.prems(1) by (auto split: prod.splits)
      have nv: "v \<notin> set vs" "v \<noteq> t" "t \<notin> set vs" "distinct vs" using Cons.prems by auto
      from Cons.IH [OF x(1) nv(3,4)] have IH: "vs = xs' @ ys" "\<forall>x\<in>set xs'. e' x = ?e1 x"
        "sum_list (map ?e1 xs') \<le> ?e1 t" "e' t = ?e1 t - sum_list (map ?e1 xs')"
        "\<forall>x. x \<notin> insert t (set vs) \<longrightarrow> e' x = ?e1 x"
        "\<And>a. tick_times e' a (xs' @ t # ys)
          = tick_times ?e1 a xs' @ (t, a + ?e1 t) # tick_times ?e1 (a + sum_list (map ?e1 xs')) ys" by blast+
      have nt: "t \<notin> set xs'" "t \<notin> set ys" using IH(1) nv by auto
      have m: "sum_list (map ?e1 xs') = sum_list (map e xs')"
        by (rule arg_cong [of _ _ sum_list], rule map_cong) (use nt in auto)
      have c: "tick_times ?e1 b zs = tick_times e b zs" if "t \<notin> set zs" for b zs
        by (rule times_cong) (use that in auto)
      have ev: "e' v = e v" using IH(5) nv by auto
      have "tick_times e' a (xs @ t # ys) = tick_times e a xs @ (t, a + e t) # tick_times e (a + sum_list (map e xs)) ys"
        for a
        using IH(6) [of "a + e v"] False
        unfolding x(2) m c [OF nt(1)] c [OF nt(2)] by (simp add: ev add.assoc)
      moreover have "\<forall>x\<in>set xs. e' x = e x" using IH(2) nt(1) x(2) ev by auto
      moreover have "sum_list (map e xs) \<le> e t" using IH(3) m x(2) False by simp
      moreover have "e' t = e t - sum_list (map e xs)" using IH(4) m x(2) False by simp
      moreover have "\<forall>y. y \<notin> insert t (set (v # vs)) \<longrightarrow> e' y = e y" using IH(5) by auto
      moreover have "v # vs = xs @ ys" using IH(1) x(2) by simp
      ultimately show ?thesis by blast
    qed
  qed auto
  then show "vs = xs @ ys"
    and "tick_times e' a (xs @ t # ys)
       = tick_times e a xs @ (t, a + e t) # tick_times e (a + sum_list (map e xs)) ys"
    and "\<forall>x\<in>set xs. e' x = e x" and "sum_list (map e xs) \<le> e t"
    and "e' t = e t - sum_list (map e xs)" and "\<forall>x. x \<notin> insert t (set vs) \<longrightarrow> e' x = e x"
    by blast+
qed

lemma times_bound:
  "(\<forall>(t, x)\<in>set (tick_times e a ts). x < B) \<and> a < B \<longleftrightarrow> a + sum_list (map e ts) < B"
proof (induction ts arbitrary: a)
  case (Cons t ts)
  show ?case using Cons.IH [of "a + e t"] by (auto simp: add.assoc)
qed simp

lemma times_sorted: "sorted (map snd (tick_times e a ts)) \<and> (\<forall>x\<in>set (map snd (tick_times e a ts)). a \<le> x)"
  by (induction ts arbitrary: a) (force)+

lemma times_fst: "map fst (tick_times e a ts) = ts"
  by (induction ts arbitrary: a) auto

text \<open>\<open>timer_raw\<close> is \<open>timer_list\<close> without the condition on the first timer, which fails while
  \<open>run_timer_list\<close> wakes the expired timers.\<close>

definition timer_raw :: "kern \<Rightarrow> nat list \<Rightarrow> bool" where
  "timer_raw s ts \<longleftrightarrow> clist (timer_links s) TimerList (map TimerLink ts)
     \<and> (\<forall>t\<in>set ts. t_proc (timers s t) \<noteq> None) \<and> sum_list (map (expires s) ts) < 4294967296"

lemma timer_list_raw: "timer_list s ts \<longleftrightarrow> timer_raw s ts \<and> (ts \<noteq> [] \<longrightarrow> 0 < expires s (hd ts))"
  by (auto simp: timer_list_def timer_raw_def)

lemma timer_raw_distinct: "timer_raw s ts \<Longrightarrow> distinct ts"
  by (auto simp: timer_raw_def clist_def distinct_map)

lemma timer_raw_bound:
  assumes "timer_raw s ts" and "t \<in> set ts"
  shows "expires s t < 4294967296"
  using assms member_sum_list_le [of t ts "expires s"] by (auto simp: timer_raw_def)

lemma add_timer_steps:
  assumes l: "timer_list s ts" and t: "t \<notin> set ts" "list_empty (TimerLink t) (timer_links s)"
    and e: "0 < expires s t" "expires s t < 4294967296" "t_proc (timers s t) \<noteq> None"
  shows "\<exists>us vs s'. ts = us @ vs \<and> add_timer t s = Some s' \<and> timer_list s' (us @ t # vs)
     \<and> deadlines s' (us @ t # vs) = take (length us) (deadlines s ts) @ (t, expires s t)
          # drop (length us) (deadlines s ts)"
proof -
  have raw: "timer_raw s ts" using l by (simp add: timer_list_raw)
  then have c: "clist (timer_links s) TimerList (map TimerLink ts)" by (simp add: timer_raw_def)
  obtain us vs e' where i: "insert_delta t (expires s) ts = (us, vs, e')"
    by (cases "insert_delta t (expires s) ts") auto
  note d = insert_delta_times [OF i t(1) timer_raw_distinct [OF raw]]
  have loop: "add_timer_loop t (tnode_of ts) s = Some (tnode_of vs, with_expires e' s)"
    by (rule add_loop [of s "[]"]) (use c t e raw timer_raw_bound i in auto)
  define s' where "s' = upd_timer_links (list_add_before (tnode_of vs) (TimerLink t)) (with_expires e' s)"
  have add: "add_timer t s = Some s'"
    using e t(2) loop timer_first [OF c] by (auto simp: add_timer_def s'_def)
  have e': "expires s' = e'" by (simp add: s'_def)
  have dl: "deadlines s' (us @ t # vs) = tick_times (expires s) 0 us @ (t, expires s t)
      # tick_times (expires s) (sum_list (map (expires s) us)) vs"
    using d(2) [of 0] by (simp add: deadlines_def e')
  have dts: "deadlines s ts = tick_times (expires s) 0 us @ tick_times (expires s) (sum_list (map (expires s) us)) vs"
    by (simp add: deadlines_def d(1) times_append)
  have len: "length (tick_times (expires s) 0 us) = length us"
    by (metis times_fst length_map)
  have "\<forall>(t, x)\<in>set (deadlines s ts). x < 4294967296"
    using times_bound [of "expires s" 0 ts 4294967296] raw by (simp add: timer_raw_def deadlines_def)
  then have "\<forall>(t, x)\<in>set (tick_times e' 0 (us @ t # vs)). x < 4294967296"
    using dl e(2) unfolding dts by (auto simp: deadlines_def e')
  then have sum: "sum_list (map e' (us @ t # vs)) < 4294967296"
    using times_bound [of e' 0 "us @ t # vs" 4294967296] by simp
  have "clist (timer_links s') TimerList (map TimerLink us @ TimerLink t # map TimerLink vs)"
    unfolding s'_def timer_simps with_expires_simps
    by (rule clist_list_add_before) (use c d(1) t(1) in \<open>auto simp: tnode_hd\<close>)
  moreover have "\<forall>x\<in>set (us @ t # vs). t_proc (timers s' x) \<noteq> None"
    using raw e(3) d(1) by (auto simp: s'_def timer_raw_def)
  moreover have "0 < e' (hd (us @ t # vs))"
    using l d(1,3,5) e(1) by (cases us) (auto simp: timer_list_def)
  ultimately have "timer_list s' (us @ t # vs)" using sum by (simp add: timer_list_def e')
  then show ?thesis
    using add d(1) dl unfolding dts by (intro exI [of _ us] exI [of _ vs] exI [of _ s']) (simp add: len)
qed

section \<open>Deleting\<close>

lemma del_timer_steps:
  assumes r: "timer_raw s (us @ t # vs)"
  shows "timer_raw (del_timer t s) (us @ vs)"
    and "deadlines (del_timer t s) (us @ vs) = [x \<leftarrow> deadlines s (us @ t # vs). fst x \<noteq> t]"
    and "\<exists>e l. del_timer t s = s\<lparr>timers := e, timer_links := l\<rparr>"
    and "t_proc (timers (del_timer t s) x) = t_proc (timers s x)"
    and "expires s t = 0 \<Longrightarrow> expires (del_timer t s) = expires s"
    and "us = [] \<Longrightarrow> 0 < expires s t \<Longrightarrow> vs \<noteq> [] \<Longrightarrow> 0 < expires (del_timer t s) (hd vs)"
    and "u \<in> set us \<Longrightarrow> expires (del_timer t s) u = expires s u"
    and "list_empty (TimerLink t) (timer_links (del_timer t s))"
proof -
  have c: "clist (timer_links s) TimerList (map TimerLink us @ TimerLink t # map TimerLink vs)"
    and sum: "sum_list (map (expires s) (us @ t # vs)) < 4294967296"
    using r by (simp_all add: timer_raw_def)
  have dist: "distinct (us @ t # vs)" using timer_raw_distinct [OF r] .
  have ne: "\<not> list_empty (TimerLink t) (timer_links s)"
    by (rule clist_node_nonempty [OF c]) simp
  have nx: "list_next (TimerLink t) (timer_links s) = tnode_of vs"
    by (rule timer_next [of _ us]) (use c in simp)
  define e' where "e' = (case vs of [] \<Rightarrow> expires s
    | v # _ \<Rightarrow> (expires s)(v := expires s v + expires s t))"
  have e0: "e' = expires s" if "expires s t = 0"
    using that by (cases vs) (auto simp: e'_def)
  have del: "del_timer t s = upd_timer_links (list_del_init (TimerLink t)) (with_expires e' s)"
  proof (cases "expires s t = 0")
    case True
    then show ?thesis using ne e0 by (simp add: del_timer_def)
  next
    case False
    show ?thesis
    proof (cases vs)
      case Nil
      then show ?thesis using ne False nx by (simp add: del_timer_def e'_def)
    next
      case (Cons v ws)
      have "expires s v + expires s t < 4294967296" using sum Cons by simp
      then show ?thesis using ne False nx Cons by (simp add: del_timer_def e'_def set_expires_with)
    qed
  qed
  have ex: "expires (del_timer t s) = e'" by (simp add: del)
  have eus: "\<forall>x\<in>set us. e' x = expires s x" using dist by (cases vs) (auto simp: e'_def)
  then have tus: "tick_times e' a us = tick_times (expires s) a us" for a by (intro times_cong) simp
  have sus: "sum_list (map e' us) = sum_list (map (expires s) us)"
    using eus by (simp cong: map_cong)
  have tvs: "tick_times e' a vs = tick_times (expires s) (a + expires s t) vs" for a
  proof (cases vs)
    case (Cons v ws)
    have "tick_times e' b ws = tick_times (expires s) b ws" for b
      by (rule times_cong) (use dist Cons in \<open>auto simp: e'_def\<close>)
    then show ?thesis using Cons by (simp add: e'_def ac_simps)
  qed simp
  show "deadlines (del_timer t s) (us @ vs) = [x \<leftarrow> deadlines s (us @ t # vs). fst x \<noteq> t]"
  proof -
    have k: "[x \<leftarrow> tick_times (expires s) a xs. fst x \<noteq> t] = tick_times (expires s) a xs" if "t \<notin> set xs" for a xs
      by (rule filter_True) (metis that times_fst in_set_conv_nth nth_map length_map)
    show ?thesis
      using dist by (simp add: deadlines_def ex times_append tus sus tvs k)
  qed
  have su: "sum_list (map e' (us @ vs)) \<le> sum_list (map (expires s) (us @ t # vs))"
  proof (cases vs)
    case (Cons v ws)
    have "sum_list (map e' ws) = sum_list (map (expires s) ws)"
      by (rule arg_cong [of _ _ sum_list], rule map_cong) (use dist Cons in \<open>auto simp: e'_def\<close>)
    moreover have "e' v = expires s v + expires s t" using Cons by (simp add: e'_def)
    ultimately show ?thesis using sus Cons by simp
  qed (simp add: sus)
  show "timer_raw (del_timer t s) (us @ vs)"
    using clist_list_del_init(1) [OF c] su sum r by (auto simp: timer_raw_def ex) (auto simp: del)
  show "\<exists>e l. del_timer t s = s\<lparr>timers := e, timer_links := l\<rparr>"
    by (simp add: del upd_timer_links_def with_expires_def) blast
  show "t_proc (timers (del_timer t s) x) = t_proc (timers s x)" by (simp add: del)
  show "expires s t = 0 \<Longrightarrow> expires (del_timer t s) = expires s" using e0 by (simp add: ex)
  show "us = [] \<Longrightarrow> 0 < expires s t \<Longrightarrow> vs \<noteq> [] \<Longrightarrow> 0 < expires (del_timer t s) (hd vs)"
    by (cases vs) (auto simp: ex e'_def)
  show "u \<in> set us \<Longrightarrow> expires (del_timer t s) u = expires s u" using eus by (simp add: ex)
  show "list_empty (TimerLink t) (timer_links (del_timer t s))"
    using clist_list_del_init(2) [OF c] by (simp add: del)
qed

section \<open>The clock tick\<close>

text \<open>\<open>wakeable i s p\<close>: the timer of \<open>p\<close> may expire without an assertion failing.\<close>

definition wakeable :: "nat \<Rightarrow> kern \<Rightarrow> nat \<Rightarrow> bool" where
  "wakeable i s p \<longleftrightarrow> p \<noteq> i \<and> p_state (procs s p) \<noteq> PROC_ZOMBIE
     \<and> (p_wait_state (procs s p) = 0 \<or> and (p_wait_state (procs s p)) WT_INTERRUPTED \<noteq> 0)"

definition timer_procs_ok :: "nat \<Rightarrow> kern \<Rightarrow> nat list \<Rightarrow> bool" where
  "timer_procs_ok i s ts \<longleftrightarrow> (\<forall>t\<in>set ts. \<exists>p. t_proc (timers s t) = Some p \<and> wakeable i s p)"

definition owners :: "kern \<Rightarrow> nat list \<Rightarrow> nat set" where
  "owners s ts = {p. \<exists>t\<in>set ts. t_proc (timers s t) = Some p}"

lemma timers_frame_rq:
  assumes "rq_frame s t"
  shows "timer_links t = timer_links s" "timers t = timers s" "expires t = expires s"
  using rq_frame_kern [OF assms] by (simp_all add: expires_def fun_eq_iff)

context sched_policy begin

lemma sched_inv_timers:
  "sched_inv (s\<lparr>timers := e, timer_links := l\<rparr>) Q c i \<longleftrightarrow> sched_inv s Q c i"
proof -
  have v: "rq_view (s\<lparr>timers := e, timer_links := l\<rparr>) = rq_view s" by (simp add: rq_view_def)
  note * = rep_view [OF _ v] fresh_view [OF _ v] rep_view [OF _ v [symmetric]]
    fresh_view [OF _ v [symmetric]]
  show ?thesis by (auto simp: sched_inv_def dest: *)
qed

lemma expire_one:
  assumes inv: "sched_inv s Q c i" and raw: "timer_raw s (t # ts)"
    and ok: "timer_procs_ok i s (t # ts)" and z: "expires s t = 0" and lv: "Ball (owners s (t # ts)) live"
  shows "\<exists>s2 Q' p. expire_loop sc t s = (if ts = [] then Some s2 else expire_loop sc (hd ts) s2)
     \<and> t_proc (timers s t) = Some p
     \<and> sched_inv s2 Q' c i \<and> timer_raw s2 ts \<and> timer_procs_ok i s2 ts \<and> expires s2 = expires s
     \<and> (\<forall>x. t_proc (timers s2 x) = t_proc (timers s x))
     \<and> (\<forall>q. p_state (procs s2 q) = (if q = p then PROC_RUNNABLE else p_state (procs s q)))"
proof -
  obtain p where p: "t_proc (timers s t) = Some p" "wakeable i s p"
    using ok by (auto simp: timer_procs_ok_def)
  then have w: "p \<noteq> i" "p_state (procs s p) \<noteq> PROC_ZOMBIE"
    "p_wait_state (procs s p) = 0 \<or> and (p_wait_state (procs s p)) WT_INTERRUPTED \<noteq> 0"
    by (simp_all add: wakeable_def)
  have lp: "live p" using lv p(1) by (auto simp: owners_def)
  obtain s1 where s1: "wakeup_proc sc p s = Some s1" "sched_inv s1 (if p = c then Q else insert p Q) c i"
    "\<forall>q. p_state (procs s1 q) = (if q = p then PROC_RUNNABLE else p_state (procs s q))"
    using wakeup_steps [OF inv w(2,1) lp] by blast
  let ?m = "if p_state (procs s p) = PROC_RUNNABLE then s
    else upd_proc p (\<lambda>a. a\<lparr>p_state := PROC_RUNNABLE, p_wait_state := 0\<rparr>) s"
  note f = wakeup_frame [OF inv s1(1) w(1) lp]
  have tm: "timer_links s1 = timer_links s" "timers s1 = timers s" "expires s1 = expires s"
    using timers_frame_rq [OF f] by (simp_all add: expires_def fun_eq_iff split: if_splits)
  have ws: "p_wait_state (procs s1 q) = p_wait_state (procs s q) \<or> p_wait_state (procs s1 q) = 0" for q
    using rq_frame_procs(3) [OF f, of q] by (auto split: if_splits)
  have raw1: "timer_raw s1 ([] @ t # ts)" using raw tm by (simp add: timer_raw_def)
  note d = del_timer_steps [OF raw1]
  let ?s2 = "del_timer t s1"
  obtain e l where el: "?s2 = s1\<lparr>timers := e, timer_links := l\<rparr>" using d(3) by blast
  have pr: "procs ?s2 = procs s1" by (simp add: el)
  have z1: "expires s1 t = 0" using z tm by simp
  have nx: "list_next (TimerLink t) (timer_links s) = tnode_of ts"
    by (rule timer_next [of _ "[]"]) (use raw in \<open>simp add: timer_raw_def\<close>)
  have "expire_loop sc t s = (if ts = [] then Some ?s2 else expire_loop sc (hd ts) ?s2)"
    using p(1) w(3) s1(1) z nx by (subst expire_loop.simps) (cases ts; auto)
  moreover have "timer_procs_ok i ?s2 ts"
    unfolding timer_procs_ok_def
  proof
    fix u assume "u \<in> set ts"
    then obtain r where r: "t_proc (timers s u) = Some r" "wakeable i s r"
      using ok by (auto simp: timer_procs_ok_def)
    then have "wakeable i ?s2 r" using s1(3) ws [of r] by (auto simp: wakeable_def pr)
    then show "\<exists>p. t_proc (timers ?s2 u) = Some p \<and> wakeable i ?s2 p" using r(1) d(4) tm(2) by auto
  qed
  moreover have "sched_inv ?s2 (if p = c then Q else insert p Q) c i"
    unfolding el sched_inv_timers by (rule s1(2))
  ultimately show ?thesis
    using d(1,4,5) z1 tm p(1) s1(3) by (intro exI [of _ ?s2]) (auto simp: pr)
qed

lemma expire_all:
  assumes "sched_inv s Q c i" and "timer_raw s ts" and "timer_procs_ok i s ts" and "ts \<noteq> []"
    and "Ball (owners s ts) live"
  shows "\<exists>s' Q'. expire_loop sc (hd ts) s = Some s' \<and> sched_inv s' Q' c i
     \<and> timer_raw s' (dropWhile (\<lambda>t. expires s t = 0) ts) \<and> expires s' = expires s
     \<and> (\<forall>q. p_state (procs s' q) = (if q \<in> owners s (takeWhile (\<lambda>t. expires s t = 0) ts)
          then PROC_RUNNABLE else p_state (procs s q)))"
  using assms
proof (induction ts arbitrary: s Q)
  case (Cons t ts)
  show ?case
  proof (cases "expires s t = 0")
    case False
    then have "expire_loop sc t s = Some s" by (subst expire_loop.simps) simp
    then show ?thesis using Cons.prems False by (auto simp: owners_def)
  next
    case True
    from expire_one [OF Cons.prems(1-3) True Cons.prems(5)] obtain s2 Q' p where
      s2: "expire_loop sc t s = (if ts = [] then Some s2 else expire_loop sc (hd ts) s2)"
      "t_proc (timers s t) = Some p"
      "sched_inv s2 Q' c i" "timer_raw s2 ts" "timer_procs_ok i s2 ts" "expires s2 = expires s"
      "\<forall>x. t_proc (timers s2 x) = t_proc (timers s x)"
      "\<forall>q. p_state (procs s2 q) = (if q = p then PROC_RUNNABLE else p_state (procs s q))" by blast
    have ow: "owners s (t # us) = insert p (owners s2 us)" for us
      using s2(2,7) by (auto simp: owners_def)
    show ?thesis
    proof (cases "ts = []")
      case ts: True
      have "owners s2 [] = {}" by (simp add: owners_def)
      then show ?thesis
        using s2 True ts ow [of "[]"] by (intro exI [of _ s2] exI [of _ Q']) simp
    next
      case ts: False
      obtain s' Q'' where s': "expire_loop sc (hd ts) s2 = Some s'" "sched_inv s' Q'' c i"
        "timer_raw s' (dropWhile (\<lambda>t. expires s2 t = 0) ts)" "expires s' = expires s2"
        "\<forall>q. p_state (procs s' q) = (if q \<in> owners s2 (takeWhile (\<lambda>t. expires s2 t = 0) ts)
          then PROC_RUNNABLE else p_state (procs s2 q))"
        using Cons.IH [OF s2(3-5) ts] Cons.prems(5) ow [of ts] by auto
      show ?thesis
        using s' s2(1,6,8) True ts ow by (intro exI [of _ s'] exI [of _ Q'']) simp
    qed
  qed
qed simp

end

text \<open>What one tick does to the table: every time goes down by one, and those that reach zero leave.\<close>

definition tick_down :: "(nat \<times> nat) list \<Rightarrow> (nat \<times> nat) list" where
  "tick_down ds = [(t, x - 1). (t, x) \<leftarrow> ds, 1 < x]"

lemma tick_down_simps [simp]:
  "tick_down [] = []"
  "tick_down ((t, x) # ds) = (if 1 < x then (t, x - 1) # tick_down ds else tick_down ds)"
  "tick_down (xs @ ys) = tick_down xs @ tick_down ys"
  by (simp_all add: tick_down_def)

lemma tick_down_times:
  "0 < a \<Longrightarrow> tick_down (tick_times e a ts) = [d \<leftarrow> tick_times e (a - 1) ts. 0 < snd d]"
proof (induction ts arbitrary: a)
  case (Cons t ts)
  from Cons.IH [of "a + e t"] Cons.prems show ?case by (simp add: add.commute)
qed simp

lemma times_zero_prefix:
  "tick_times e 0 (dropWhile (\<lambda>t. e t = 0) ts) = [d \<leftarrow> tick_times e 0 ts. 0 < snd d]"
proof (induction ts)
  case (Cons t ts)
  show ?case
  proof (cases "e t = 0")
    case False
    then have "\<forall>d\<in>set (tick_times e (e t) ts). 0 < snd d"
      using times_sorted [of e "e t" ts] by fastforce
    then show ?thesis using False by (simp add: filter_True)
  qed (use Cons.IH in simp)
qed simp

lemma takeWhile_zero:
  "t \<in> set (takeWhile (\<lambda>t. e t = 0) ts) \<longleftrightarrow> (t, 0) \<in> set (tick_times e 0 ts)"
proof (induction ts)
  case (Cons u ts)
  show ?case
  proof (cases "e u = 0")
    case False
    then have "(t, 0) \<notin> set (tick_times e (e u) ts)"
      using times_sorted [of e "e u" ts] by force
    then show ?thesis using False by simp
  qed (use Cons.IH in auto)
qed simp

lemma tick_head:
  assumes "0 < e t" and "t \<notin> set ts"
  defines "e' \<equiv> e(t := e t - 1)"
  shows "tick_down (tick_times e 0 (t # ts)) = [d \<leftarrow> tick_times e' 0 (t # ts). 0 < snd d]"
    and "(u, 0) \<in> set (tick_times e' 0 (t # ts)) \<longleftrightarrow> (u, 1) \<in> set (tick_times e 0 (t # ts))"
proof -
  have c: "tick_times e' b ts = tick_times e b ts" for b
    by (rule times_cong) (use assms in auto)
  show "tick_down (tick_times e 0 (t # ts)) = [d \<leftarrow> tick_times e' 0 (t # ts). 0 < snd d]"
    using tick_down_times [of "e t" e ts] assms(1) c by (auto simp: e'_def)
  have "tick_times e (e t) ts = map (\<lambda>(t, x). (t, x + 1)) (tick_times e (e t - 1) ts)"
    using times_shift [of e "e t - 1" 1 ts] assms(1) by simp
  then show "(u, 0) \<in> set (tick_times e' 0 (t # ts)) \<longleftrightarrow> (u, 1) \<in> set (tick_times e 0 (t # ts))"
    using assms(1) c by (force simp: e'_def)
qed

context sched_policy begin

lemma run_timer_steps:
  assumes inv: "sched_inv s Q c i" and l: "timer_list s ts" and ok: "timer_procs_ok i s ts"
    and lv: "Ball (owners s ts) live"
  shows "\<exists>s' vs Q'. run_timer_list sc s = Some s' \<and> timer_list s' vs \<and> sched_inv s' Q' c i
     \<and> deadlines s' vs = tick_down (deadlines s ts)
     \<and> (\<forall>q. p_state (procs s' q) =
          (if \<exists>t. (t, 1) \<in> set (deadlines s ts) \<and> t_proc (timers s t) = Some q
           then PROC_RUNNABLE else p_state (procs s q)))"
proof -
  have raw: "timer_raw s ts" using l by (simp add: timer_list_raw)
  have fin: "\<exists>s'. Some (case current s1 of Some c \<Rightarrow> sched_class_proc_tick sc c s1 | None \<Rightarrow> s1) = Some s'
      \<and> sched_inv s' Q' c i \<and> timer_links s' = timer_links s1 \<and> timers s' = timers s1
      \<and> (\<forall>q. p_state (procs s' q) = p_state (procs s1 q))" if "sched_inv s1 Q' c i" for s1 Q'
  proof -
    have "timer_links (sched_class_proc_tick sc c s1) = timer_links s1
        \<and> timers (sched_class_proc_tick sc c s1) = timers s1
        \<and> (\<forall>q. p_state (procs (sched_class_proc_tick sc c s1) q) = p_state (procs s1 q))"
      using tick [of c s1] by (auto simp: sched_class_proc_tick_def)
    moreover have "current s1 = Some c" using that by (simp add: sched_inv_def)
    ultimately show ?thesis using tick_keeps [OF that] by simp
  qed
  show ?thesis
  proof (cases ts)
    case Nil
    have "list_next TimerList (timer_links s) = TimerList"
      using timer_first [of "timer_links s" ts] raw Nil by (simp add: timer_raw_def)
    moreover obtain s' where s': "Some (case current s of Some c \<Rightarrow> sched_class_proc_tick sc c s | None \<Rightarrow> s) = Some s'"
      "sched_inv s' Q c i" "timer_links s' = timer_links s" "timers s' = timers s"
      "\<forall>q. p_state (procs s' q) = p_state (procs s q)"
      using fin [OF inv] by blast
    ultimately have "run_timer_list sc s = Some s'" by (simp add: run_timer_list_def)
    moreover have "timer_list s' []" using l s'(3) Nil by (simp add: timer_list_def)
    ultimately show ?thesis
      using s' Nil by (intro exI [of _ s'] exI [of _ "[]"] exI [of _ Q]) (simp add: deadlines_def)
  next
    case (Cons t us)
    have z: "0 < expires s t" using l Cons by (simp add: timer_list_def)
    have dist: "t \<notin> set us" using timer_raw_distinct [OF raw] Cons by simp
    let ?s0 = "set_expires t (expires s t - 1) s"
    have e0: "expires ?s0 = (expires s)(t := expires s t - 1)" by simp
    have f: "list_next TimerList (timer_links s) = TimerLink t"
      using timer_first [of "timer_links s" ts] raw Cons by (simp add: timer_raw_def)
    have sm: "sum_list (map (expires ?s0) ts) \<le> sum_list (map (expires s) ts)"
      by (rule sum_list_mono) simp
    then have raw0: "timer_raw ?s0 ts" using raw by (simp add: timer_raw_def)
    have inv0: "sched_inv ?s0 Q c i"
    proof -
      have "?s0 = s\<lparr>timers := timers ?s0, timer_links := timer_links s\<rparr>"
        by (simp add: set_expires_def upd_timer_def)
      then show ?thesis using inv by (metis sched_inv_timers)
    qed
    have ok0: "timer_procs_ok i ?s0 ts" using ok by (simp add: timer_procs_ok_def wakeable_def)
    have lv0: "Ball (owners ?s0 ts) live" using lv by (simp add: owners_def)
    obtain s1 Q' where s1: "expire_loop sc (hd ts) ?s0 = Some s1" "sched_inv s1 Q' c i"
      "timer_raw s1 (dropWhile (\<lambda>t. expires ?s0 t = 0) ts)" "expires s1 = expires ?s0"
      "\<forall>q. p_state (procs s1 q) = (if q \<in> owners ?s0 (takeWhile (\<lambda>t. expires ?s0 t = 0) ts)
          then PROC_RUNNABLE else p_state (procs ?s0 q))"
      using expire_all [OF inv0 raw0 ok0 _ lv0] Cons by blast
    obtain s' where s': "Some (case current s1 of Some c \<Rightarrow> sched_class_proc_tick sc c s1 | None \<Rightarrow> s1) = Some s'"
      "sched_inv s' Q' c i" "timer_links s' = timer_links s1" "timers s' = timers s1"
      "\<forall>q. p_state (procs s' q) = p_state (procs s1 q)"
      using fin [OF s1(2)] by blast
    let ?vs = "dropWhile (\<lambda>t. expires ?s0 t = 0) ts"
    have ex': "expires s' = expires ?s0" using s'(4) s1(4) by (simp add: expires_def fun_eq_iff)
    have b: "expires s t < 4294967296"
      using timer_raw_bound [OF raw, of t] Cons by simp
    then have "run_timer_list sc s = Some s'"
      using f z s1(1) s'(1) Cons by (simp add: run_timer_list_def)
    moreover have "timer_list s' ?vs"
      using s1(3) s'(3,4) hd_dropWhile [of "\<lambda>t. expires ?s0 t = 0" ts]
      by (auto simp: timer_list_raw timer_raw_def ex' s1(4))
    moreover have "deadlines s' ?vs = tick_down (deadlines s ts)"
      using times_zero_prefix [of "expires ?s0" ts]
      by (simp only: deadlines_def ex' e0 Cons tick_head(1) [of "expires s", OF z dist])
    moreover have "q \<in> owners ?s0 (takeWhile (\<lambda>t. expires ?s0 t = 0) ts) \<longleftrightarrow>
        (\<exists>u. (u, 1) \<in> set (deadlines s ts) \<and> t_proc (timers s u) = Some q)" for q
      using tick_head(2) [of "expires s" t us] z dist takeWhile_zero [of _ "expires ?s0" ts]
      unfolding owners_def deadlines_def Cons e0 by auto
    ultimately show ?thesis
      using s'(2,5) s1(5) by (intro exI [of _ s'] exI [of _ ?vs] exI [of _ Q']) (simp, blast)
  qed
qed

end

section \<open>Properties\<close>

text \<open>C8: adding a timer of \<open>e > 0\<close> ticks to a well-formed list always returns.  It gives the
  new timer exactly \<open>e\<close> ticks and leaves the remaining time of every other timer as it was, although
  the stored ticks are relative; the list stays ordered by remaining time.\<close>

theorem add_timer_inserts_deadline:
  assumes "timer_list s ts" and "t \<notin> set ts" and "list_empty (TimerLink t) (timer_links s)"
    and "0 < expires s t" and "expires s t < 4294967296" and "t_proc (timers s t) \<noteq> None"
  shows "\<exists>us vs s'. ts = us @ vs \<and> add_timer t s = Some s' \<and> timer_list s' (us @ t # vs)
     \<and> deadlines s' (us @ t # vs) = take (length us) (deadlines s ts) @ (t, expires s t)
          # drop (length us) (deadlines s ts)
     \<and> sorted (map snd (deadlines s' (us @ t # vs)))"
proof -
  from add_timer_steps [OF assms] obtain us vs s' where *: "ts = us @ vs" "add_timer t s = Some s'"
    "timer_list s' (us @ t # vs)" "deadlines s' (us @ t # vs) = take (length us) (deadlines s ts)
      @ (t, expires s t) # drop (length us) (deadlines s ts)" by blast
  moreover have "sorted (map snd (deadlines s' (us @ t # vs)))"
    unfolding deadlines_def using times_sorted by blast
  ultimately show ?thesis by blast
qed

definition example_timer :: kern where
  "example_timer = timer_init 5 3 7 (example_procs\<lparr>timer_links := list_init TimerList (timer_links example_procs)\<rparr>)"

lemma example_timer_facts:
  "timer_list example_timer []" "list_empty (TimerLink 5) (timer_links example_timer)"
  "expires example_timer 5 = 7" "t_proc (timers example_timer 5) = Some 3"
  by (simp_all add: example_timer_def timer_init_def timer_list_def clist_def upd_timer_links_def
      upd_timer_def list_init_def list_empty_def expires_def)

theorem add_timer_inserts_deadline_witness:
  "\<exists>s'. add_timer 5 example_timer = Some s' \<and> deadlines s' [5] = [(5, 7)]"
proof -
  have "deadlines example_timer [] = []" by (simp add: deadlines_def)
  then show ?thesis
    using add_timer_inserts_deadline [OF example_timer_facts(1) _ example_timer_facts(2)]
      example_timer_facts(3,4) by auto
qed

text \<open>Deleting a timer removes exactly its entry: the remaining time of every other timer is
  unchanged, the list stays well formed, and the timer's node is unlinked.\<close>

theorem del_timer_removes_deadline:
  assumes "timer_list s (us @ t # vs)"
  shows "timer_list (del_timer t s) (us @ vs)
     \<and> deadlines (del_timer t s) (us @ vs) = [x \<leftarrow> deadlines s (us @ t # vs). fst x \<noteq> t]
     \<and> list_empty (TimerLink t) (timer_links (del_timer t s))"
proof -
  have r: "timer_raw s (us @ t # vs)" using assms by (simp add: timer_list_raw)
  note d = del_timer_steps [OF r]
  have "us @ vs \<noteq> [] \<longrightarrow> 0 < expires (del_timer t s) (hd (us @ vs))"
    using assms d(6,7) by (cases us) (auto simp: timer_list_def)
  then show ?thesis using d(1,2,8) by (simp add: timer_list_raw)
qed

theorem del_timer_removes_deadline_witness:
  "\<exists>s. timer_list s [5] \<and> timer_list (del_timer 5 s) [] \<and> deadlines (del_timer 5 s) [] = []"
proof -
  obtain us vs s where "[] = us @ vs" "timer_list s (us @ 5 # vs)"
    using add_timer_steps [OF example_timer_facts(1), of 5] example_timer_facts by auto
  then have s: "timer_list s ([] @ 5 # [])" by simp
  show ?thesis using del_timer_removes_deadline [OF s] s by (auto simp: deadlines_def)
qed

text \<open>C9: a clock tick counts every timer down by one, removes exactly the timers that reach
  zero, makes exactly their processes runnable, and keeps the timer list and the scheduler's
  invariant, under the conditions that the assertions in the loop check.\<close>

theorem run_timer_list_counts_down:
  assumes "runq_ok s q c i" and "timer_list s ts" and "timer_procs_ok i s ts"
  shows "\<exists>s' vs q'. run_timer_list default_sched_class s = Some s' \<and> timer_list s' vs
     \<and> runq_ok s' q' c i \<and> deadlines s' vs = tick_down (deadlines s ts)
     \<and> (\<forall>p. p_state (procs s' p) =
          (if \<exists>t. (t, 1) \<in> set (deadlines s ts) \<and> t_proc (timers s t) = Some p
           then PROC_RUNNABLE else p_state (procs s p)))"
proof -
  have inv: "rr.sched_inv s (set q) c i"
    using assms(1) by (simp add: list_inv_runq(1) [symmetric] rr.list_inv_def)
  from rr.run_timer_steps [OF inv assms(2,3)] obtain s' vs Q' where
    r: "run_timer_list default_sched_class s = Some s'" "timer_list s' vs" "rr.sched_inv s' Q' c i"
      "deadlines s' vs = tick_down (deadlines s ts)"
      "\<forall>p. p_state (procs s' p) =
          (if \<exists>t. (t, 1) \<in> set (deadlines s ts) \<and> t_proc (timers s t) = Some p
           then PROC_RUNNABLE else p_state (procs s p))" by blast
  then obtain q' where "rq_list s' q'" "Q' = set q'" by (auto simp: rr.sched_inv_def)
  then have "runq_ok s' q' c i"
    using r(3) by (simp add: list_inv_runq(1) [symmetric] rr.list_inv_def)
  then show ?thesis using r by blast
qed

theorem run_timer_list_counts_down_witness:
  "\<exists>s s' q'. runq_ok s [3, 4] 2 1 \<and> deadlines s [5] = [(5, 1)]
     \<and> run_timer_list default_sched_class s = Some s' \<and> timer_list s' [] \<and> runq_ok s' q' 2 1"
proof -
  obtain s0 where s0: "runq_ok s0 [3, 4] 2 1" "procs s0 3 = zero_proc\<lparr>p_state := PROC_RUNNABLE,
      p_priority := 3, p_rq := TheRq, p_time_slice := 5\<rparr>"
    using example_runq by auto
  let ?l = "\<lparr>lnext = (\<lambda>n. if n = TimerList then TimerLink 5 else TimerList),
      lprev = (\<lambda>n. if n = TimerList then TimerLink 5 else TimerList)\<rparr>"
  let ?s = "s0\<lparr>timers := (\<lambda>_. \<lparr>t_expires = 1, t_proc = Some 3\<rparr>), timer_links := ?l\<rparr>"
  have r: "runq_ok ?s [3, 4] 2 1"
    using s0(1) unfolding runq_ok_def rq_list_def unlinked_def by simp blast
  have l: "timer_list ?s [5]" by (simp add: timer_list_def clist_def expires_def)
  have ok: "timer_procs_ok 1 ?s [5]"
    using s0(2) by (simp add: timer_procs_ok_def wakeable_def zero_proc_def)
  have d: "deadlines ?s [5] = [(5, 1)]" by (simp add: deadlines_def expires_def)
  obtain s' vs q' where s': "run_timer_list default_sched_class ?s = Some s'" "timer_list s' vs"
    "runq_ok s' q' 2 1" "deadlines s' vs = tick_down (deadlines ?s [5])"
    using run_timer_list_counts_down [OF r l ok] by blast
  have "map fst (deadlines s' vs) = vs" by (simp add: deadlines_def times_fst)
  then have "vs = []" using s'(4) d by simp
  then show ?thesis using r d s' by blast
qed

end
