(* ===== verification/Proc_Life.thy ===== *)
theory Proc_Life
  imports File_Model Proc_Table Timers
begin

text \<open>
  The life of a process (\<open>kern/process/proc.c\<close>): creation by \<open>do_fork\<close> with its parts, \<open>do_exit\<close>, \<open>do_wait\<close>,
  \<open>do_kill\<close>, \<open>do_sleep\<close>, and the start of the first two processes.  A kernel stack is a
  byte address.  What the linker decides is the record \<open>ksyms\<close>.  A call that gives up the processor ends with the call of \<open>schedule\<close>; what follows once the process
  runs again is a definition of its own.  The memory lock of the parent is free whenever it forks: whoever holds
  such a lock does not sleep.
\<close>

section \<open>Constants\<close>

definition CLONE_VM :: "32 word" where "CLONE_VM = 0x100"
definition CLONE_THREAD :: "32 word" where "CLONE_THREAD = 0x200"
definition CLONE_FS :: "32 word" where "CLONE_FS = 0x800"
definition KSTACKPAGE :: nat where "KSTACKPAGE = 2"
definition KSTACKSIZE :: nat where "KSTACKSIZE = KSTACKPAGE * 4096"
definition SSTATUS_SIE :: "64 word" where "SSTATUS_SIE = 0x2"
definition SSTATUS_SPIE :: "64 word" where "SSTATUS_SPIE = 0x20"
definition SSTATUS_SPP :: "64 word" where "SSTATUS_SPP = 0x100"

text \<open>\<open>sizeof(struct trapframe)\<close>: 36 registers.\<close>

definition sizeof_trapframe :: nat where "sizeof_trapframe = 288"

text \<open>Addresses of \<open>forkret\<close>, \<open>kernel_thread_entry\<close>, \<open>init_main\<close> and \<open>bootstack\<close>, the literals
  \<open>"idle"\<close> and \<open>"init"\<close> with the bytes behind them, and the frame of the boot page directory.\<close>

record ksyms =
  ks_forkret :: "64 word"
  ks_thread_entry :: "64 word"
  ks_init_main :: "64 word"
  ks_bootstack :: nat
  ks_idle_name :: string
  ks_init_name :: string
  ks_boot_pgdir :: nat

definition boot_pgdir_pa :: "ksyms \<Rightarrow> nat" where
  "boot_pgdir_pa K = unat (page2pa (ks_boot_pgdir K))"

definition set_mem :: "pmem \<Rightarrow> 'd os \<Rightarrow> 'd os" where
  "set_mem m s = s\<lparr>os_vm := (os_vm s)\<lparr>vm_mem := m\<rparr>\<rparr>"

definition os_proc :: "'d os \<Rightarrow> nat \<Rightarrow> proc_struct" where
  "os_proc s p = procs (os_kern s) p"

definition upd_os_proc :: "nat \<Rightarrow> (proc_struct \<Rightarrow> proc_struct) \<Rightarrow> 'd os \<Rightarrow> 'd os" where
  "upd_os_proc p f s = set_kern (upd_proc p f (os_kern s)) s"

definition os_wakeup :: "'d vops \<Rightarrow> nat \<Rightarrow> 'd os \<Rightarrow> 'd os option" where
  "os_wakeup V p s = do { k \<leftarrow> wakeup_proc (op_sched V) p (os_kern s); Some (set_kern k s) }"

definition os_schedule :: "'d vops \<Rightarrow> 'd os \<Rightarrow> 'd os option" where
  "os_schedule V s = do { k \<leftarrow> schedule (op_sched V) (os_kern s); Some (set_kern k s) }"

section \<open>Allocation of a process\<close>

text \<open>The name keeps its last character, which \<open>memset\<close> does not reach.\<close>

definition init_proc :: "ksyms \<Rightarrow> nat \<Rightarrow> kern \<Rightarrow> kern" where
  "init_proc K p k =
     (let k1 = upd_proc p (\<lambda>a. a\<lparr>p_state := PROC_UNINIT, p_pid := - 1, p_runs := 0, p_kstack := 0, p_need_resched := False,
          p_parent := None, p_mm := None, p_context := zero_context, p_tf := None, p_pgdir := boot_pgdir_pa K, p_flags := 0,
          p_name := replicate PROC_NAME_LEN (CHR 0x00) @ drop PROC_NAME_LEN (p_name a), p_wait_state := 0,
          p_cptr := None, p_optr := None, p_yptr := None, p_rq := NoRq\<rparr>) k;
          k2 = upd_run_links (list_init (RunLink p)) k1;
          k3 = upd_proc p (\<lambda>a. a\<lparr>p_time_slice := 0\<rparr>) k2;
          k4 = k3\<lparr>pool := (pool k3)(p := \<lparr>sk_parent = None, sk_left = None, sk_right = None\<rparr>)\<rparr>
      in upd_proc p (\<lambda>a. a\<lparr>p_stride := 0, p_priority := 0, p_filesp := None\<rparr>) k4)"

definition alloc_proc :: "ksyms \<Rightarrow> 'd os \<Rightarrow> nat option \<times> 'd os" where
  "alloc_proc K s =
     (case os_kmalloc s of
        (None, s1) \<Rightarrow> (None, s1)
      | (Some p, s1) \<Rightarrow> (Some p, set_kern (init_proc K p (os_kern s1)) s1))"

definition setup_kstack :: "nat \<Rightarrow> 'd os \<Rightarrow> (int \<times> 'd os) option" where
  "setup_kstack p s = do {
     (page, m) \<leftarrow> alloc_pages KSTACKPAGE (vm_mem (os_vm s));
     let s1 = set_mem m s;
     case page of
       Some g \<Rightarrow> do { f \<leftarrow> page2kva m g; Some (0, upd_os_proc p (\<lambda>a. a\<lparr>p_kstack := kva_of f\<rparr>) s1) }
     | None \<Rightarrow> Some (- E_NO_MEM, s1)
   }"

definition put_kstack :: "nat \<Rightarrow> 'd os \<Rightarrow> 'd os option" where
  "put_kstack p s = do {
     page \<leftarrow> kva2page (vm_mem (os_vm s)) (of_nat (p_kstack (os_proc s p)));
     m \<leftarrow> free_pages page KSTACKPAGE (vm_mem (os_vm s));
     Some (set_mem m s)
   }"

section \<open>Address spaces of processes\<close>

definition setup_pgdir :: "ksyms \<Rightarrow> nat \<Rightarrow> vmm \<Rightarrow> (int \<times> vmm) option" where
  "setup_pgdir K m v = do {
     (page, mem) \<leftarrow> alloc_page (vm_mem v);
     case page of
       None \<Rightarrow> Some (- E_NO_MEM, v\<lparr>vm_mem := mem\<rparr>)
     | Some g \<Rightarrow> do {
         f \<leftarrow> page2kva mem g;
         Some (0, upd_mm m (\<lambda>x. x\<lparr>mm_pgdir := Some f\<rparr>) (v\<lparr>vm_mem := copy_frame f (ks_boot_pgdir K) mem\<rparr>))
       }
   }"

definition put_pgdir :: "nat \<Rightarrow> vmm \<Rightarrow> vmm option" where
  "put_pgdir m v = do {
     f \<leftarrow> mm_pgdir (vm_mms v m);
     page \<leftarrow> pa2page (vm_mem v) (page2pa f);
     mem \<leftarrow> free_page page (vm_mem v);
     Some (v\<lparr>vm_mem := mem\<rparr>)
   }"

text \<open>From the label \<open>good_mm\<close> on.\<close>

definition share_mm :: "nat \<Rightarrow> nat \<Rightarrow> 'd os \<Rightarrow> (int \<times> 'd os) option" where
  "share_mm m p s = do {
     let v = snd (mm_count_inc m (os_vm s));
     f \<leftarrow> mm_pgdir (vm_mms v m);
     Some (0, upd_os_proc p (\<lambda>a. a\<lparr>p_mm := Some m, p_pgdir := unat (page2pa f)\<rparr>) (s\<lparr>os_vm := v\<rparr>))
   }"

definition copy_mm :: "'d vops \<Rightarrow> ksyms \<Rightarrow> 32 word \<Rightarrow> nat \<Rightarrow> 'd os \<Rightarrow> (int \<times> 'd os) option" where
  "copy_mm V K clone_flags p s = do {
     c \<leftarrow> current (os_kern s);
     case p_mm (os_proc s c) of
       None \<Rightarrow> Some (0, s)
     | Some oldmm \<Rightarrow>
         if clone_flags AND CLONE_VM \<noteq> 0 then share_mm oldmm p s
         else (case mm_create (os_vm s) of
             (None, v) \<Rightarrow> Some (- E_NO_MEM, s\<lparr>os_vm := v\<rparr>)
           | (Some m, v) \<Rightarrow> do {
               (r, v1) \<leftarrow> setup_pgdir K m v;
               if r \<noteq> 0 then do { v2 \<leftarrow> mm_destroy m v1; Some (- E_NO_MEM, s\<lparr>os_vm := v2\<rparr>) }
               else do {
                 (sleeps, v2) \<leftarrow> lock_mm (op_sched V) c (Some oldmm) v1;
                 kassert (\<not> sleeps);
                 (ret, v3) \<leftarrow> dup_mmap (Some m) (Some oldmm) v2;
                 v4 \<leftarrow> unlock_mm (op_sched V) (Some oldmm) v3;
                 if ret \<noteq> 0
                 then do {
                   v5 \<leftarrow> exit_mmap (Some m) v4;
                   v6 \<leftarrow> put_pgdir m v5;
                   v7 \<leftarrow> mm_destroy m v6;
                   Some (ret, s\<lparr>os_vm := v7\<rparr>)
                 }
                 else share_mm m p (s\<lparr>os_vm := v4\<rparr>)
               }
             })
   }"

section \<open>Copying the rest of the parent\<close>

definition copy_thread :: "ksyms \<Rightarrow> nat \<Rightarrow> 64 word \<Rightarrow> trapframe \<Rightarrow> 'd os \<Rightarrow> 'd os" where
  "copy_thread K p esp tf s =
     (let a = p_kstack (os_proc s p) + KSTACKSIZE - sizeof_trapframe;
          sp = (if esp = 0 then of_nat a else esp)
      in upd_os_proc p (\<lambda>x. x\<lparr>p_tf := Some (a, tf\<lparr>tf_gpr := (tf_gpr tf)\<lparr>gpr_a0 := 0, gpr_sp := sp\<rparr>\<rparr>),
           p_context := (p_context x)\<lparr>ctx_ra := ks_forkret K, ctx_sp := of_nat a\<rparr>\<rparr>) s)"

definition share_files :: "nat \<Rightarrow> nat \<Rightarrow> 'd os \<Rightarrow> int \<times> 'd os" where
  "share_files f p s = (0, upd_os_proc p (\<lambda>a. a\<lparr>p_filesp := Some f\<rparr>) (snd (files_count_inc f s)))"

definition copy_files :: "'d vops \<Rightarrow> 32 word \<Rightarrow> nat \<Rightarrow> 'd os \<Rightarrow> (int \<times> 'd os) option" where
  "copy_files V clone_flags p s = do {
     old \<leftarrow> current_filesp s;
     if clone_flags AND CLONE_FS \<noteq> 0 then Some (share_files old p s)
     else (case files_create s of
         (None, s1) \<Rightarrow> Some (- E_NO_MEM, s1)
       | (Some f, s1) \<Rightarrow> do {
           (ret, s2) \<leftarrow> dup_files f old s1;
           if ret \<noteq> 0 then do { s3 \<leftarrow> files_destroy V f s2; Some (ret, s3) }
           else Some (share_files f p s2)
         })
   }"

definition put_files :: "'d vops \<Rightarrow> nat \<Rightarrow> 'd os \<Rightarrow> 'd os option" where
  "put_files V p s =
     (case p_filesp (os_proc s p) of
        None \<Rightarrow> Some s
      | Some f \<Rightarrow>
          (let (c, s1) = files_count_dec f s in if c = 0 then files_destroy V f s1 else Some s1))"

section \<open>do\_fork\<close>

text \<open>The new process enters the tables and becomes runnable.\<close>

definition fork_enter :: "'d vops \<Rightarrow> nat \<Rightarrow> 'd os \<Rightarrow> (int \<times> 'd os) option" where
  "fork_enter V p s = do {
     (pid, k) \<leftarrow> get_pid (os_kern s);
     let k1 = hash_proc p (upd_proc p (\<lambda>a. a\<lparr>p_pid := pid\<rparr>) k);
     k2 \<leftarrow> set_links p k1;
     k3 \<leftarrow> wakeup_proc (op_sched V) p k2;
     Some (p_pid (procs k3 p), set_kern k3 s)
   }"

definition fork_cleanup_kstack :: "nat \<Rightarrow> 'd os \<Rightarrow> 'd os option" where
  "fork_cleanup_kstack p s = do { s1 \<leftarrow> put_kstack p s; Some (os_kfree p s1) }"

definition do_fork :: "'d vops \<Rightarrow> ksyms \<Rightarrow> 32 word \<Rightarrow> 64 word \<Rightarrow> trapframe \<Rightarrow> 'd os \<Rightarrow> (int \<times> 'd os) option" where
  "do_fork V K clone_flags stack tf s =
     (if MAX_PROCESS \<le> nr_process (os_kern s) then Some (- E_NO_FREE_PROC, s)
      else (case alloc_proc K s of
          (None, s1) \<Rightarrow> Some (- E_NO_MEM, s1)
        | (Some p, s1) \<Rightarrow> do {
            let s2 = upd_os_proc p (\<lambda>a. a\<lparr>p_parent := current (os_kern s1)\<rparr>) s1;
            c \<leftarrow> current (os_kern s2);
            kassert (p_wait_state (os_proc s2 c) = 0);
            (r, s3) \<leftarrow> setup_kstack p s2;
            if r \<noteq> 0 then Some (- E_NO_MEM, os_kfree p s3)
            else do {
              (r, s4) \<leftarrow> copy_mm V K clone_flags p s3;
              if r \<noteq> 0 then do { s5 \<leftarrow> fork_cleanup_kstack p s4; Some (- E_NO_MEM, s5) }
              else do {
                (r, s5) \<leftarrow> copy_files V clone_flags p s4;
                if r \<noteq> 0 then do { s6 \<leftarrow> fork_cleanup_kstack p s5; Some (- E_NO_MEM, s6) }
                else fork_enter V p (copy_thread K p stack tf s5)
              }
            }
          }))"

definition zero_regs :: pushregs where
  "zero_regs = \<lparr>gpr_zero = 0, gpr_ra = 0, gpr_sp = 0, gpr_gp = 0, gpr_tp = 0, gpr_t0 = 0, gpr_t1 = 0, gpr_t2 = 0,
     gpr_s0 = 0, gpr_s1 = 0, gpr_a0 = 0, gpr_a1 = 0, gpr_a2 = 0, gpr_a3 = 0, gpr_a4 = 0, gpr_a5 = 0, gpr_a6 = 0, gpr_a7 = 0,
     gpr_s2 = 0, gpr_s3 = 0, gpr_s4 = 0, gpr_s5 = 0, gpr_s6 = 0, gpr_s7 = 0, gpr_s8 = 0, gpr_s9 = 0, gpr_s10 = 0, gpr_s11 = 0,
     gpr_t3 = 0, gpr_t4 = 0, gpr_t5 = 0, gpr_t6 = 0\<rparr>"

text \<open>\<open>sstatus\<close> is what \<open>read_csr\<close> gives.\<close>

definition kernel_thread ::
  "'d vops \<Rightarrow> ksyms \<Rightarrow> 64 word \<Rightarrow> 64 word \<Rightarrow> 64 word \<Rightarrow> 32 word \<Rightarrow> 'd os \<Rightarrow> (int \<times> 'd os) option" where
  "kernel_thread V K sstatus fn arg clone_flags s =
     do_fork V K (clone_flags OR CLONE_VM) 0
       \<lparr>tf_gpr = zero_regs\<lparr>gpr_s0 := fn, gpr_s1 := arg\<rparr>, tf_status = (sstatus OR SSTATUS_SPP OR SSTATUS_SPIE) AND NOT SSTATUS_SIE,
        tf_epc = ks_thread_entry K, tf_tval = 0, tf_cause = 0\<rparr> s"

section \<open>do\_exit\<close>

definition exit_release :: "'d vops \<Rightarrow> ksyms \<Rightarrow> nat \<Rightarrow> 'd os \<Rightarrow> 'd os option" where
  "exit_release V K c s =
     (case p_mm (os_proc s c) of
        None \<Rightarrow> Some s
      | Some m \<Rightarrow> do {
          let s1 = set_kern ((os_kern s)\<lparr>satp := boot_pgdir_pa K\<rparr>) s;
          let (n, v) = mm_count_dec m (os_vm s1);
          v1 \<leftarrow> (if n = 0
            then do { v1 \<leftarrow> exit_mmap (Some m) v; v2 \<leftarrow> put_pgdir m v1; mm_destroy m v2 }
            else Some v);
          put_files V c (upd_os_proc c (\<lambda>a. a\<lparr>p_mm := None\<rparr>) (s1\<lparr>os_vm := v1\<rparr>))
        })"

text \<open>The children of \<open>c\<close> become children of \<open>initproc\<close>.\<close>

definition adopt_child :: "nat \<Rightarrow> nat \<Rightarrow> nat \<Rightarrow> kern \<Rightarrow> kern" where
  "adopt_child c i p s =
     (let s1 = upd_proc c (\<lambda>a. a\<lparr>p_cptr := p_optr (procs s p)\<rparr>) s;
          s2 = upd_proc p (\<lambda>a. a\<lparr>p_yptr := None\<rparr>) s1;
          s3 = upd_proc p (\<lambda>a. a\<lparr>p_optr := p_cptr (procs s2 i)\<rparr>) s2;
          s4 = (case p_optr (procs s3 p) of Some y \<Rightarrow> upd_proc y (\<lambda>a. a\<lparr>p_yptr := Some p\<rparr>) s3 | None \<Rightarrow> s3);
          s5 = upd_proc p (\<lambda>a. a\<lparr>p_parent := Some i\<rparr>) s4
      in upd_proc i (\<lambda>a. a\<lparr>p_cptr := Some p\<rparr>) s5)"

partial_function (option) adopt_loop :: "sched_class \<Rightarrow> nat \<Rightarrow> kern \<Rightarrow> kern option" where
  "adopt_loop sc c s =
     (case p_cptr (procs s c) of
        None \<Rightarrow> Some s
      | Some p \<Rightarrow> do {
          i \<leftarrow> initproc s;
          let s1 = adopt_child c i p s;
          s2 \<leftarrow> (if p_state (procs s1 p) = PROC_ZOMBIE \<and> p_wait_state (procs s1 i) = WT_CHILD
                then wakeup_proc sc i s1 else Some s1);
          adopt_loop sc c s2
        })"

definition exit_links :: "sched_class \<Rightarrow> nat \<Rightarrow> int \<Rightarrow> kern \<Rightarrow> kern option" where
  "exit_links sc c error_code s = do {
     let s1 = upd_proc c (\<lambda>a. a\<lparr>p_state := PROC_ZOMBIE, p_exit_code := error_code\<rparr>) s;
     q \<leftarrow> p_parent (procs s1 c);
     s2 \<leftarrow> (if p_wait_state (procs s1 q) = WT_CHILD then wakeup_proc sc q s1 else Some s1);
     adopt_loop sc c s2
   }"

text \<open>The code behind the call of \<open>schedule\<close> panics, so the processor must go to another process.\<close>

definition do_exit :: "'d vops \<Rightarrow> ksyms \<Rightarrow> int \<Rightarrow> 'd os \<Rightarrow> 'd os option" where
  "do_exit V K error_code s = do {
     c \<leftarrow> current (os_kern s);
     kassert (Some c \<noteq> idleproc (os_kern s));
     kassert (Some c \<noteq> initproc (os_kern s));
     s1 \<leftarrow> exit_release V K c s;
     k \<leftarrow> exit_links (op_sched V) c error_code (os_kern s1);
     s2 \<leftarrow> os_schedule V (set_kern k s1);
     kassert (current (os_kern s2) \<noteq> Some c);
     Some s2
   }"

section \<open>do\_wait, do\_kill, do\_yield\<close>

partial_function (option) zombie_loop :: "kern \<Rightarrow> nat option \<Rightarrow> nat option option" where
  "zombie_loop s q =
     (case q of
        None \<Rightarrow> Some None
      | Some p \<Rightarrow> if p_state (procs s p) = PROC_ZOMBIE then Some (Some p) else zombie_loop s (p_optr (procs s p)))"

text \<open>\<open>haskid\<close> and the zombie, if any.\<close>

definition wait_find :: "nat \<Rightarrow> int \<Rightarrow> kern \<Rightarrow> (bool \<times> nat option) option" where
  "wait_find c pid s =
     (if pid \<noteq> 0
      then do {
        r \<leftarrow> find_proc pid s;
        Some (case r of
            Some p \<Rightarrow> if p_parent (procs s p) = Some c
                     then (True, if p_state (procs s p) = PROC_ZOMBIE then Some p else None) else (False, None)
          | None \<Rightarrow> (False, None))
      }
      else do { z \<leftarrow> zombie_loop s (p_cptr (procs s c)); Some (p_cptr (procs s c) \<noteq> None, z) })"

definition put_int :: "nat \<Rightarrow> int \<Rightarrow> Strings.mem \<Rightarrow> Strings.mem" where
  "put_int a v m = (let w = (word_of_int v :: 32 word) in
     m(a := ucast w, a + 1 := ucast (drop_bit 8 w), a + 2 := ucast (drop_bit 16 w), a + 3 := ucast (drop_bit 24 w)))"

text \<open>From the label \<open>found\<close> on.\<close>

definition wait_reap :: "64 word option \<Rightarrow> nat \<Rightarrow> 'd os \<Rightarrow> (int \<times> 'd os) option" where
  "wait_reap code p s = do {
     kassert (Some p \<noteq> idleproc (os_kern s) \<and> Some p \<noteq> initproc (os_kern s));
     s1 \<leftarrow> (case code of
         Some a \<Rightarrow> do {
           c \<leftarrow> current (os_kern s);
           user_touch (p_mm (os_proc s c)) a 4 True (os_vm s);
           Some (s\<lparr>os_mem := put_int (unat a) (p_exit_code (os_proc s p)) (os_mem s)\<rparr>)
         }
       | None \<Rightarrow> Some s);
     k \<leftarrow> remove_links p (unhash_proc p (os_kern s1));
     s2 \<leftarrow> put_kstack p (set_kern k s1);
     Some (0, os_kfree p s2)
   }"

text \<open>From the label \<open>repeat\<close> on; no result means that the process sleeps in \<open>schedule\<close>.\<close>

definition wait_repeat :: "'d vops \<Rightarrow> int \<Rightarrow> 64 word option \<Rightarrow> 'd os \<Rightarrow> (int option \<times> 'd os) option" where
  "wait_repeat V pid code s = do {
     c \<leftarrow> current (os_kern s);
     (haskid, z) \<leftarrow> wait_find c pid (os_kern s);
     case z of
       Some p \<Rightarrow> do { (r, s1) \<leftarrow> wait_reap code p s; Some (Some r, s1) }
     | None \<Rightarrow>
         if haskid
         then do {
           s1 \<leftarrow> os_schedule V (upd_os_proc c (\<lambda>a. a\<lparr>p_state := PROC_SLEEPING, p_wait_state := WT_CHILD\<rparr>) s);
           Some (None, s1)
         }
         else Some (Some (- E_BAD_PROC), s)
   }"

definition do_wait :: "'d vops \<Rightarrow> int \<Rightarrow> 64 word option \<Rightarrow> 'd os \<Rightarrow> (int option \<times> 'd os) option" where
  "do_wait V pid code s = do {
     c \<leftarrow> current (os_kern s);
     (ok, s1) \<leftarrow> (case code of
         Some a \<Rightarrow> do { (ok, v) \<leftarrow> user_mem_check (p_mm (os_proc s c)) a 4 True (os_vm s); Some (ok, s\<lparr>os_vm := v\<rparr>) }
       | None \<Rightarrow> Some (True, s));
     if \<not> ok then Some (Some (- E_INVAL), s1) else wait_repeat V pid code s1
   }"

definition do_wait_resume :: "'d vops \<Rightarrow> ksyms \<Rightarrow> int \<Rightarrow> 64 word option \<Rightarrow> 'd os \<Rightarrow> (int option \<times> 'd os) option" where
  "do_wait_resume V K pid code s = do {
     c \<leftarrow> current (os_kern s);
     if p_flags (os_proc s c) AND PF_EXITING \<noteq> 0
     then do { s1 \<leftarrow> do_exit V K (- E_KILLED) s; Some (None, s1) }
     else wait_repeat V pid code s
   }"

definition do_kill :: "sched_class \<Rightarrow> int \<Rightarrow> kern \<Rightarrow> (int \<times> kern) option" where
  "do_kill sc pid s = do {
     r \<leftarrow> find_proc pid s;
     case r of
       None \<Rightarrow> Some (- E_INVAL, s)
     | Some p \<Rightarrow>
         if p_flags (procs s p) AND PF_EXITING = 0
         then do {
           let s1 = upd_proc p (\<lambda>a. a\<lparr>p_flags := p_flags a OR PF_EXITING\<rparr>) s;
           s2 \<leftarrow> (if p_wait_state (procs s1 p) AND WT_INTERRUPTED \<noteq> 0 then wakeup_proc sc p s1 else Some s1);
           Some (0, s2)
         }
         else Some (- E_KILLED, s)
   }"

definition do_yield :: "kern \<Rightarrow> (int \<times> kern) option" where
  "do_yield s = do { c \<leftarrow> current s; Some (0, upd_proc c (\<lambda>a. a\<lparr>p_need_resched := True\<rparr>) s) }"

section \<open>Priorities and sleeping\<close>

definition lab6_set_priority :: "32 word \<Rightarrow> kern \<Rightarrow> kern option" where
  "lab6_set_priority priority s = do {
     c \<leftarrow> current s;
     Some (upd_proc c (\<lambda>a. a\<lparr>p_priority := if priority = 0 then 1 else unat priority\<rparr>) s)
   }"

text \<open>\<open>timer\<close> is the address of the local variable \<open>__timer\<close>; without a result the process sleeps.\<close>

definition do_sleep :: "sched_class \<Rightarrow> nat \<Rightarrow> nat \<Rightarrow> kern \<Rightarrow> (int option \<times> kern) option" where
  "do_sleep sc timer time s =
     (if time = 0 then Some (Some 0, s)
      else do {
        c \<leftarrow> current s;
        let s1 = timer_init timer c time s;
        let s2 = upd_proc c (\<lambda>a. a\<lparr>p_state := PROC_SLEEPING, p_wait_state := WT_TIMER\<rparr>) s1;
        s3 \<leftarrow> add_timer timer s2;
        s4 \<leftarrow> schedule sc s3;
        Some (None, s4)
      })"

definition do_sleep_resume :: "nat \<Rightarrow> kern \<Rightarrow> int \<times> kern" where
  "do_sleep_resume timer s = (0, del_timer timer s)"

section \<open>The first processes\<close>

definition list_init_tables :: "kern \<Rightarrow> kern" where
  "list_init_tables s = s\<lparr>list_links := list_init ProcList (list_links s),
     hash_links := fold (\<lambda>i. list_init (HashHead i)) [0..<HASH_LIST_SIZE] (hash_links s)\<rparr>"

definition proc_init :: "'d vops \<Rightarrow> ksyms \<Rightarrow> 64 word \<Rightarrow> 'd os \<Rightarrow> 'd os option" where
  "proc_init V K sstatus s = do {
     let s1 = set_kern (list_init_tables (os_kern s)) s;
     let (idle, s2) = alloc_proc K s1;
     let s3 = set_kern ((os_kern s2)\<lparr>idleproc := idle\<rparr>) s2;
     p \<leftarrow> idle;
     let s4 = upd_os_proc p (\<lambda>a. a\<lparr>p_pid := 0, p_state := PROC_RUNNABLE, p_kstack := ks_bootstack K, p_need_resched := True\<rparr>) s3;
     let (filesp, s5) = files_create s4;
     let s6 = upd_os_proc p (\<lambda>a. a\<lparr>p_filesp := filesp\<rparr>) s5;
     f \<leftarrow> filesp;
     let s7 = snd (files_count_inc f s6);
     let s8 = set_kern (set_proc_name p (ks_idle_name K) (os_kern s7)) s7;
     let s9 = set_kern ((os_kern s8)\<lparr>nr_process := nr_process (os_kern s8) + 1, current := Some p\<rparr>) s8;
     (pid, s10) \<leftarrow> kernel_thread V K sstatus (ks_init_main K) 0 0 s9;
     kassert (0 < pid);
     r \<leftarrow> find_proc pid (os_kern s10);
     let s11 = set_kern ((os_kern s10)\<lparr>initproc := r\<rparr>) s10;
     i \<leftarrow> r;
     let s12 = set_kern (set_proc_name i (ks_init_name K) (os_kern s11)) s11;
     kassert (p_pid (os_proc s12 p) = 0);
     kassert (p_pid (os_proc s12 i) = 1);
     Some s12
   }"

text \<open>One turn of the loop of \<open>cpu_idle\<close>.\<close>

definition cpu_idle_step :: "sched_class \<Rightarrow> kern \<Rightarrow> kern option" where
  "cpu_idle_step sc s = do {
     c \<leftarrow> current s;
     if p_need_resched (procs s c) then schedule sc s else Some s
   }"

end
