(* ===== verification/Bytes.thy ===== *)
theory Bytes
  imports Strings
begin

text \<open>
  Runs of bytes in memory and the little-endian encoding of the machine's integers, for data that the code
  moves between memory and a block of a disk.
\<close>

section \<open>Reading and writing runs of bytes\<close>

definition read_bytes :: "mem \<Rightarrow> nat \<Rightarrow> nat \<Rightarrow> 8 word list" where
  "read_bytes m a n = map (\<lambda>i. m (a + i)) [0..<n]"

definition write_bytes :: "mem \<Rightarrow> nat \<Rightarrow> 8 word list \<Rightarrow> mem" where
  "write_bytes m a bs = (\<lambda>x. if a \<le> x \<and> x < a + length bs then bs ! (x - a) else m x)"

lemma length_read_bytes [simp]: "length (read_bytes m a n) = n"
  by (simp add: read_bytes_def)

lemma nth_read_bytes [simp]: "i < n \<Longrightarrow> read_bytes m a n ! i = m (a + i)"
  by (simp add: read_bytes_def)

lemma read_write_bytes [simp]: "n = length bs \<Longrightarrow> read_bytes (write_bytes m a bs) a n = bs"
  by (rule nth_equalityI) (auto simp: write_bytes_def)

lemma write_bytes_out [simp]:
  "x < a \<or> a + length bs \<le> x \<Longrightarrow> write_bytes m a bs x = m x"
  by (auto simp: write_bytes_def)

lemma write_bytes_in [simp]:
  "a \<le> x \<Longrightarrow> x < a + length bs \<Longrightarrow> write_bytes m a bs x = bs ! (x - a)"
  by (auto simp: write_bytes_def)

lemma read_bytes_cong:
  "(\<And>i. i < n \<Longrightarrow> m' (a + i) = m (a + i)) \<Longrightarrow> read_bytes m' a n = read_bytes m a n"
  by (simp add: read_bytes_def)

lemma read_write_bytes_other [simp]:
  "a + n \<le> b \<or> b + length bs \<le> a \<Longrightarrow> read_bytes (write_bytes m b bs) a n = read_bytes m a n"
  by (rule read_bytes_cong) (auto simp: write_bytes_def)

lemma memcpy_bytes:
  assumes "d + n \<le> s \<or> s + n \<le> d"
  shows "memcpy m d s n = write_bytes m d (read_bytes m s n)"
  using assms by (auto simp: memcpy_def move_up_eq write_bytes_def fun_eq_iff)

lemma read_bytes_append: "read_bytes m a (n + k) = read_bytes m a n @ read_bytes m (a + n) k"
  by (rule nth_equalityI) (auto simp: nth_append)

lemma take_read_bytes [simp]: "take k (read_bytes m a n) = read_bytes m a (min n k)"
  by (rule nth_equalityI) auto

lemma drop_read_bytes [simp]: "drop k (read_bytes m a n) = read_bytes m (a + k) (n - k)"
  by (rule nth_equalityI) (auto simp: add.assoc)

lemma bytes_read_bytes: "Strings.bytes m a xs \<longleftrightarrow> read_bytes m a (length xs) = xs"
  by (auto simp: bytes_nth list_eq_iff_nth_eq)

section \<open>Little-endian integers\<close>

primrec le_bytes :: "nat \<Rightarrow> nat \<Rightarrow> 8 word list" where
  "le_bytes 0 v = []"
| "le_bytes (Suc n) v = of_nat v # le_bytes n (v div 256)"

primrec le_val :: "8 word list \<Rightarrow> nat" where
  "le_val [] = 0"
| "le_val (b # bs) = unat b + 256 * le_val bs"

lemma length_le_bytes [simp]: "length (le_bytes n v) = n"
  by (induction n arbitrary: v) auto

lemma le_val_le_bytes: "le_val (le_bytes n v) = v mod 256 ^ n"
proof (induction n arbitrary: v)
  case (Suc n)
  have "v mod (256 * 256 ^ n) = v mod 256 + 256 * (v div 256 mod 256 ^ n)"
    by (simp add: mod_mult2_eq)
  then show ?case by (simp add: Suc.IH unat_of_nat)
qed simp

lemma le_val_le_bytes_small [simp]: "v < 256 ^ n \<Longrightarrow> le_val (le_bytes n v) = v"
  by (simp add: le_val_le_bytes)

lemma le_val_bound: "le_val bs < 256 ^ length bs"
proof (induction bs)
  case (Cons b bs)
  have "unat b < 256" using unsigned_less [of b] by simp
  then have "unat b + 256 * le_val bs < 256 * (1 + le_val bs)" by simp
  also have "\<dots> \<le> 256 * 256 ^ length bs" using Cons.IH by (intro mult_le_mono2) simp
  finally show ?case by simp
qed simp

lemma le_bytes_le_val: "length bs = n \<Longrightarrow> le_bytes n (le_val bs) = bs"
proof (induction bs arbitrary: n)
  case (Cons b bs)
  have "unat b < 256" using unsigned_less [of b] by simp
  then have "(unat b + 256 * le_val bs) div 256 = le_val bs" by simp
  moreover have "(of_nat (unat b + 256 * le_val bs) :: 8 word) = b"
  proof -
    have z: "(of_nat 256 :: 8 word) = 0" by simp
    have "(of_nat (unat b + 256 * le_val bs) :: 8 word) = of_nat (unat b) + of_nat 256 * of_nat (le_val bs)"
      by (simp only: of_nat_add of_nat_mult)
    then show ?thesis unfolding z by simp
  qed
  ultimately show ?case using Cons by auto
qed simp

section \<open>32-bit words in memory\<close>

definition load32 :: "mem \<Rightarrow> nat \<Rightarrow> 32 word" where
  "load32 m a = of_nat (le_val (read_bytes m a 4))"

definition store32 :: "nat \<Rightarrow> 32 word \<Rightarrow> mem \<Rightarrow> mem" where
  "store32 a w m = write_bytes m a (le_bytes 4 (unat w))"

lemma load_store32 [simp]: "load32 (store32 a w m) a = w"
proof -
  have "unat w < 256 ^ 4" using unsigned_less [of w] by simp
  then show ?thesis by (simp add: load32_def store32_def)
qed

lemma load_store32_other [simp]:
  "a + 4 \<le> b \<or> b + 4 \<le> a \<Longrightarrow> load32 (store32 b w m) a = load32 m a"
  by (simp add: load32_def store32_def)

lemma store32_out [simp]: "x < a \<or> a + 4 \<le> x \<Longrightarrow> store32 a w m x = m x"
  by (simp add: store32_def)

lemma load32_cong: "(\<And>i. i < 4 \<Longrightarrow> m' (a + i) = m (a + i)) \<Longrightarrow> load32 m' a = load32 m a"
  by (simp add: load32_def read_bytes_cong [of 4 m' a m])

lemma store32_load32 [simp]: "store32 a (load32 m a) m = m"
proof -
  have "le_val (read_bytes m a 4) < 256 ^ 4" using le_val_bound [of "read_bytes m a 4"] by simp
  then have "unat (load32 m a) = le_val (read_bytes m a 4)" by (simp add: load32_def unat_of_nat)
  then have "le_bytes 4 (unat (load32 m a)) = read_bytes m a 4" by (simp add: le_bytes_le_val)
  then show ?thesis by (auto simp: store32_def write_bytes_def fun_eq_iff)
qed

end
