(* ===== verification/Sysfile.thy ===== *)
theory Sysfile
  imports Proc_Life Bytes
begin

text \<open>
  The file system calls below the dispatcher: \<open>kern/fs/sysfile.c\<close>.  They move paths and data between user and kernel memory
  under the lock of the address space and call the operations of \<open>file.c\<close> and the VFS.  A kernel buffer is an object of the
  \<open>kmalloc\<close> pool, whose number is its address; a local variable that is passed by address has its address as an argument.
\<close>

definition IOBUF_SIZE :: nat where "IOBUF_SIZE = 4096"

section \<open>Values in memory\<close>

definition load64 :: "Strings.mem \<Rightarrow> nat \<Rightarrow> 64 word" where "load64 m a = of_nat (le_val (read_bytes m a 8))"
definition store64 :: "nat \<Rightarrow> 64 word \<Rightarrow> Strings.mem \<Rightarrow> Strings.mem" where "store64 a w m = write_bytes m a (le_bytes 8 (unat w))"

definition put_mem :: "Strings.mem \<Rightarrow> 'd os \<Rightarrow> 'd os" where "put_mem m s = s\<lparr>os_mem := m\<rparr>"

text \<open>A \<open>size\_t\<close> returned as an \<open>int\<close>.\<close>

definition to_int :: "nat \<Rightarrow> int" where "to_int n = sint (of_nat n :: 32 word)"

section \<open>The lock of the address space and the copies\<close>

definition cur_mm :: "'d os \<Rightarrow> nat option option" where
  "cur_mm s = do { c \<leftarrow> current (os_kern s); Some (p_mm (os_proc s c)) }"

definition lock_user :: "'d vops \<Rightarrow> nat option \<Rightarrow> 'd os \<Rightarrow> 'd os option" where
  "lock_user V mm s = do {
     c \<leftarrow> current (os_kern s);
     (sleeps, v) \<leftarrow> lock_mm (op_sched V) c mm (os_vm s);
     kassert (\<not> sleeps);
     Some (s\<lparr>os_vm := v\<rparr>)
   }"

definition unlock_user :: "'d vops \<Rightarrow> nat option \<Rightarrow> 'd os \<Rightarrow> 'd os option" where
  "unlock_user V mm s = do { v \<leftarrow> unlock_mm (op_sched V) mm (os_vm s); Some (s\<lparr>os_vm := v\<rparr>) }"

definition with_copy :: "(Strings.mem \<times> vmm \<Rightarrow> (bool \<times> Strings.mem \<times> vmm) option) \<Rightarrow> 'd os \<Rightarrow> (bool \<times> 'd os) option" where
  "with_copy f s = do { (ok, u, v) \<leftarrow> f (os_mem s, os_vm s); Some (ok, s\<lparr>os_mem := u, os_vm := v\<rparr>) }"

text \<open>A copy between user and kernel memory under the lock.\<close>

definition locked_copy ::
  "'d vops \<Rightarrow> nat option \<Rightarrow> (Strings.mem \<times> vmm \<Rightarrow> (bool \<times> Strings.mem \<times> vmm) option) \<Rightarrow> 'd os \<Rightarrow> (bool \<times> 'd os) option" where
  "locked_copy V mm f s = do {
     s1 \<leftarrow> lock_user V mm s;
     (ok, s2) \<leftarrow> with_copy f s1;
     s3 \<leftarrow> unlock_user V mm s2;
     Some (ok, s3)
   }"

section \<open>Paths\<close>

definition copy_path :: "'d vops \<Rightarrow> 64 word \<Rightarrow> 'd os \<Rightarrow> (int \<times> nat option \<times> 'd os) option" where
  "copy_path V from s = do {
     mm \<leftarrow> cur_mm s;
     case os_kmalloc s of
       (None, s1) \<Rightarrow> Some (- E_NO_MEM, None, s1)
     | (Some buffer, s1) \<Rightarrow> do {
         (ok, s2) \<leftarrow> locked_copy V mm (copy_string mm (of_nat buffer) from (of_nat (FS_MAX_FPATH_LEN + 1))) s1;
         Some (if ok then (0, Some buffer, s2) else (- E_INVAL, None, os_kfree buffer s2))
       }
   }"

definition sysfile_open :: "'d vops \<Rightarrow> 64 word \<Rightarrow> 32 word \<Rightarrow> 'd os \<Rightarrow> (int \<times> 'd os) option" where
  "sysfile_open V path open_flags s = do {
     (ret, p, s1) \<leftarrow> copy_path V path s;
     if ret \<noteq> 0 then Some (ret, s1)
     else do {
       path \<leftarrow> p;
       (ret, s2) \<leftarrow> file_open V path open_flags s1;
       Some (ret, os_kfree path s2)
     }
   }"

definition sysfile_close :: "'d vops \<Rightarrow> int \<Rightarrow> 'd os \<Rightarrow> (int \<times> 'd os) option" where
  "sysfile_close V fd s = file_close V fd s"

section \<open>Reading and writing\<close>

text \<open>The loops; the results are \<open>ret\<close> and \<open>copied\<close>.  the last number says how far \<open>base\<close> moves in the round.\<close>

definition read_round :: "'d vops \<Rightarrow> int \<Rightarrow> nat option \<Rightarrow> nat \<Rightarrow> 64 word \<Rightarrow> nat \<Rightarrow> 'd os \<Rightarrow> (int \<times> nat \<times> nat \<times> 'd os) option" where
  "read_round V fd mm buffer base len s = do {
     (ret, alen, s1) \<leftarrow> file_read V fd buffer (min IOBUF_SIZE len) s;
     if alen \<noteq> 0
     then do {
       s2 \<leftarrow> lock_user V mm s1;
       (ok, s3) \<leftarrow> with_copy (copy_to_user mm base (of_nat buffer) (of_nat alen)) s2;
       kassert (ok \<longrightarrow> alen \<le> len);
       s4 \<leftarrow> unlock_user V mm s3;
       Some (if \<not> ok \<and> ret = 0 then - E_INVAL else ret, alen, if ok then alen else 0, s4)
     }
     else Some (ret, alen, 0, s1)
   }"

partial_function (option) read_loop ::
  "'d vops \<Rightarrow> int \<Rightarrow> nat option \<Rightarrow> nat \<Rightarrow> 64 word \<Rightarrow> nat \<Rightarrow> nat \<Rightarrow> int \<Rightarrow> 'd os \<Rightarrow> (int \<times> nat \<times> 'd os) option" where
  "read_loop V fd mm buffer base len copied ret s =
     (if len \<noteq> 0
      then do {
        (ret, alen, dn, s1) \<leftarrow> read_round V fd mm buffer base len s;
        if ret \<noteq> 0 \<or> alen = 0 then Some (ret, copied + dn, s1)
        else read_loop V fd mm buffer (base + of_nat dn) (len - dn) (copied + dn) ret s1
      }
      else Some (ret, copied, s))"

definition sysfile_read :: "'d vops \<Rightarrow> int \<Rightarrow> 64 word \<Rightarrow> nat \<Rightarrow> 'd os \<Rightarrow> (int \<times> 'd os) option" where
  "sysfile_read V fd base len s = do {
     mm \<leftarrow> cur_mm s;
     if len = 0 then Some (0, s)
     else do {
       ok \<leftarrow> file_testfd fd True False s;
       if \<not> ok then Some (- E_INVAL, s)
       else (case os_kmalloc s of
           (None, s1) \<Rightarrow> Some (- E_NO_MEM, s1)
         | (Some buffer, s1) \<Rightarrow> do {
             (ret, copied, s2) \<leftarrow> read_loop V fd mm buffer base len 0 0 s1;
             Some (if copied \<noteq> 0 then to_int copied else ret, os_kfree buffer s2)
           })
     }
   }"

definition write_round :: "'d vops \<Rightarrow> int \<Rightarrow> nat option \<Rightarrow> nat \<Rightarrow> 64 word \<Rightarrow> nat \<Rightarrow> 'd os \<Rightarrow> (int \<times> nat \<times> nat \<times> 'd os) option" where
  "write_round V fd mm buffer base len s = do {
     let alen = min IOBUF_SIZE len;
     (ok, s1) \<leftarrow> locked_copy V mm (copy_from_user mm (of_nat buffer) base (of_nat alen) False) s;
     if ok
     then do {
       (ret, alen, s2) \<leftarrow> file_write V fd buffer alen s1;
       kassert (alen \<noteq> 0 \<longrightarrow> alen \<le> len);
       Some (ret, alen, alen, s2)
     }
     else Some (- E_INVAL, alen, 0, s1)
   }"

partial_function (option) write_loop ::
  "'d vops \<Rightarrow> int \<Rightarrow> nat option \<Rightarrow> nat \<Rightarrow> 64 word \<Rightarrow> nat \<Rightarrow> nat \<Rightarrow> int \<Rightarrow> 'd os \<Rightarrow> (int \<times> nat \<times> 'd os) option" where
  "write_loop V fd mm buffer base len copied ret s =
     (if len \<noteq> 0
      then do {
        (ret, alen, dn, s1) \<leftarrow> write_round V fd mm buffer base len s;
        if ret \<noteq> 0 \<or> alen = 0 then Some (ret, copied + dn, s1)
        else write_loop V fd mm buffer (base + of_nat dn) (len - dn) (copied + dn) ret s1
      }
      else Some (ret, copied, s))"

definition sysfile_write :: "'d vops \<Rightarrow> int \<Rightarrow> 64 word \<Rightarrow> nat \<Rightarrow> 'd os \<Rightarrow> (int \<times> 'd os) option" where
  "sysfile_write V fd base len s = do {
     mm \<leftarrow> cur_mm s;
     if len = 0 then Some (0, s)
     else do {
       ok \<leftarrow> file_testfd fd False True s;
       if \<not> ok then Some (- E_INVAL, s)
       else (case os_kmalloc s of
           (None, s1) \<Rightarrow> Some (- E_NO_MEM, s1)
         | (Some buffer, s1) \<Rightarrow> do {
             (ret, copied, s2) \<leftarrow> write_loop V fd mm buffer base len 0 0 s1;
             Some (if copied \<noteq> 0 then to_int copied else ret, os_kfree buffer s2)
           })
     }
   }"

definition sysfile_seek :: "'d vops \<Rightarrow> int \<Rightarrow> int \<Rightarrow> int \<Rightarrow> 'd os \<Rightarrow> (int \<times> 'd os) option" where
  "sysfile_seek V fd pos whence s = file_seek V fd pos whence s"

section \<open>Status\<close>

text \<open>\<open>struct stat\<close> in memory: four bytes of mode, four of padding, three words.\<close>

definition sizeof_stat :: nat where "sizeof_stat = 32"

definition store_stat :: "nat \<Rightarrow> stat \<Rightarrow> Strings.mem \<Rightarrow> Strings.mem" where
  "store_stat a st m =
     store64 (a + 24) (of_nat (st_size st)) (store64 (a + 16) (of_nat (st_blocks st))
       (store64 (a + 8) (of_nat (st_nlinks st)) (store32 a (st_mode st) m)))"

text \<open>\<open>loc\<close> is the address of \<open>__local_stat\<close>.\<close>

definition sysfile_fstat :: "'d vops \<Rightarrow> nat \<Rightarrow> int \<Rightarrow> 64 word \<Rightarrow> 'd os \<Rightarrow> (int \<times> 'd os) option" where
  "sysfile_fstat V loc fd ustat s = do {
     mm \<leftarrow> cur_mm s;
     (ret, st, s1) \<leftarrow> file_fstat V fd s;
     if ret \<noteq> 0 then Some (ret, s1)
     else do {
       st \<leftarrow> st;
       (ok, s2) \<leftarrow> locked_copy V mm (copy_to_user mm ustat (of_nat loc) (of_nat sizeof_stat)) (put_mem (store_stat loc st (os_mem s1)) s1);
       Some (if ok then ret else - E_INVAL, s2)
     }
   }"

definition sysfile_fsync :: "'d vops \<Rightarrow> int \<Rightarrow> 'd os \<Rightarrow> (int \<times> 'd os) option" where
  "sysfile_fsync V fd s = file_fsync V fd s"

section \<open>Directories\<close>

definition sysfile_chdir :: "'d vops \<Rightarrow> 64 word \<Rightarrow> 'd os \<Rightarrow> (int \<times> 'd os) option" where
  "sysfile_chdir V path s = do {
     (ret, p, s1) \<leftarrow> copy_path V path s;
     if ret \<noteq> 0 then Some (ret, s1)
     else do {
       path \<leftarrow> p;
       (ret, s2) \<leftarrow> vfs_chdir V path s1;
       Some (ret, os_kfree path s2)
     }
   }"

definition copy_two_paths :: "'d vops \<Rightarrow> (nat \<Rightarrow> nat \<Rightarrow> int) \<Rightarrow> 64 word \<Rightarrow> 64 word \<Rightarrow> 'd os \<Rightarrow> (int \<times> 'd os) option" where
  "copy_two_paths V f path1 path2 s = do {
     (ret, p1, s1) \<leftarrow> copy_path V path1 s;
     if ret \<noteq> 0 then Some (ret, s1)
     else do {
       old_path \<leftarrow> p1;
       (ret, p2, s2) \<leftarrow> copy_path V path2 s1;
       if ret \<noteq> 0 then Some (ret, os_kfree old_path s2)
       else do {
         new_path \<leftarrow> p2;
         Some (f old_path new_path, os_kfree new_path (os_kfree old_path s2))
       }
     }
   }"

definition sysfile_link :: "'d vops \<Rightarrow> 64 word \<Rightarrow> 64 word \<Rightarrow> 'd os \<Rightarrow> (int \<times> 'd os) option" where
  "sysfile_link V path1 path2 s = copy_two_paths V vfs_link path1 path2 s"

definition sysfile_rename :: "'d vops \<Rightarrow> 64 word \<Rightarrow> 64 word \<Rightarrow> 'd os \<Rightarrow> (int \<times> 'd os) option" where
  "sysfile_rename V path1 path2 s = copy_two_paths V vfs_rename path1 path2 s"

definition sysfile_unlink :: "'d vops \<Rightarrow> 64 word \<Rightarrow> 'd os \<Rightarrow> (int \<times> 'd os) option" where
  "sysfile_unlink V path s = do {
     (ret, p, s1) \<leftarrow> copy_path V path s;
     if ret \<noteq> 0 then Some (ret, s1)
     else do { path \<leftarrow> p; Some (vfs_unlink path, os_kfree path s1) }
   }"

text \<open>\<open>colon\<close> is the address of the local variable of \<open>vfs\_getcwd\<close>.\<close>

definition sysfile_getcwd :: "'d vops \<Rightarrow> nat \<Rightarrow> 64 word \<Rightarrow> nat \<Rightarrow> 'd os \<Rightarrow> (int \<times> 'd os) option" where
  "sysfile_getcwd V colon buf len s = do {
     mm \<leftarrow> cur_mm s;
     if len = 0 then Some (- E_INVAL, s)
     else do {
       s1 \<leftarrow> lock_user V mm s;
       (ok, v) \<leftarrow> user_mem_check mm buf (of_nat len) True (os_vm s1);
       let s2 = s1\<lparr>os_vm := v\<rparr>;
       (ret, s3) \<leftarrow>
         (if ok
          then do {
            (ret, iob, s3) \<leftarrow> vfs_getcwd V colon (iobuf_init (unat buf) len 0) s2;
            user_touch mm buf (iobuf_used iob) True (os_vm s3);
            Some (ret, s3)
          }
          else Some (- E_INVAL, s2));
       s4 \<leftarrow> unlock_user V mm s3;
       Some (ret, s4)
     }
   }"

text \<open>\<open>struct dirent\<close> in memory: the offset in eight bytes, then the name.\<close>

definition sizeof_dirent :: nat where "sizeof_dirent = 8 + (FS_MAX_FNAME_LEN + 1)"

definition sysfile_getdirentry :: "'d vops \<Rightarrow> int \<Rightarrow> 64 word \<Rightarrow> 'd os \<Rightarrow> (int \<times> 'd os) option" where
  "sysfile_getdirentry V fd udirent s = do {
     mm \<leftarrow> cur_mm s;
     case os_kmalloc s of
       (None, s1) \<Rightarrow> Some (- E_NO_MEM, s1)
     | (Some d, s1) \<Rightarrow> do {
         (ok, s2) \<leftarrow> locked_copy V mm (copy_from_user mm (of_nat d) udirent 8 True) s1;
         if \<not> ok then Some (- E_INVAL, os_kfree d s2)
         else do {
           (ret, off, s3) \<leftarrow> file_getdirentry V fd (sint (load64 (os_mem s2) d)) (d + 8) s2;
           let s4 = put_mem (store64 d (of_int off) (os_mem s3)) s3;
           if ret \<noteq> 0 then Some (ret, os_kfree d s4)
           else do {
             (ok, s5) \<leftarrow> locked_copy V mm (copy_to_user mm udirent (of_nat d) (of_nat sizeof_dirent)) s4;
             Some (if ok then ret else - E_INVAL, os_kfree d s5)
           }
         }
       }
   }"

section \<open>Descriptors\<close>

definition sysfile_dup :: "int \<Rightarrow> int \<Rightarrow> 'd os \<Rightarrow> (int \<times> 'd os) option" where
  "sysfile_dup fd1 fd2 s = file_dup fd1 fd2 s"

definition sysfile_pipe :: "nat \<Rightarrow> int" where "sysfile_pipe fd_store = - E_UNIMP"
definition sysfile_mkfifo :: "64 word \<Rightarrow> 32 word \<Rightarrow> int" where "sysfile_mkfifo name open_flags = - E_UNIMP"

end
