(* ===== verification/Printfmt.thy ===== *)
theory Printfmt
  imports Strings Errors
begin

text \<open>
  Formatted output, \<open>libs/printfmt.c\<close>.  \<open>vprintfmt\<close> hands its characters to \<open>putch\<close> one after
  the other and reads nothing back, so the model returns them as a list, and \<open>vsnprintf\<close> feeds the
  list to \<open>sprintputch\<close>; the format and the string arguments are lists too and do not overlap the output buffer.  \<open>None\<close> is a missing
  or wrongly typed argument, or a call that does not return.
\<close>

section \<open>Numbers\<close>

partial_function (option) printnum :: "nat \<Rightarrow> nat \<Rightarrow> int \<Rightarrow> char \<Rightarrow> string option" where
  "printnum num base width padc = do {
     let result = num div base;
     let md = num mod base;
     pre \<leftarrow> (if num \<ge> base then printnum result base (width - 1) padc
            else Some (replicate (nat (width - 1)) padc));
     Some (pre @ [''0123456789abcdef'' ! md])
   }"

text \<open>An argument of the \<open>va_list\<close>: a number (an \<open>int\<close> is the low half) or a string pointer.\<close>

datatype va = VNum "64 word" | VStr "string option"

fun va_num :: "va list \<Rightarrow> (64 word \<times> va list) option" where
  "va_num (VNum w # as) = Some (w, as)"
| "va_num _ = None"

fun va_str :: "va list \<Rightarrow> (string option \<times> va list) option" where
  "va_str (VStr p # as) = Some (p, as)"
| "va_str _ = None"

definition va_int :: "va list \<Rightarrow> (int \<times> va list) option" where
  "va_int as = do { (w, as') \<leftarrow> va_num as; Some (sint (ucast w :: 32 word), as') }"

definition getuint :: "va list \<Rightarrow> nat \<Rightarrow> (nat \<times> va list) option" where
  "getuint as lflag = do {
     (w, as') \<leftarrow> va_num as;
     Some (if lflag \<ge> 2 then unat w else if lflag \<noteq> 0 then unat w else unat (ucast w :: 32 word), as')
   }"

definition getint :: "va list \<Rightarrow> nat \<Rightarrow> (int \<times> va list) option" where
  "getint as lflag = do {
     (w, as') \<leftarrow> va_num as;
     Some (if lflag \<ge> 2 then sint w else if lflag \<noteq> 0 then sint w else sint (ucast w :: 32 word), as')
   }"

section \<open>Conversion specifications\<close>

record spec =
  padc :: char
  width :: int
  precision :: int
  lflag :: nat
  altflag :: bool

definition spec0 :: spec where
  "spec0 = \<lparr>padc = CHR '' '', width = -1, precision = -1, lflag = 0, altflag = False\<rparr>"

definition is_digit :: "char \<Rightarrow> bool" where
  "is_digit c \<longleftrightarrow> 48 \<le> (of_char c :: nat) \<and> (of_char c :: nat) \<le> 57"

fun fmt_digits :: "int \<Rightarrow> char \<Rightarrow> string \<Rightarrow> int \<times> string" where
  "fmt_digits n ch [] = (n * 10 + of_char ch - 48, [])"
| "fmt_digits n ch (d # r) =
     (let n' = n * 10 + of_char ch - 48 in if is_digit d then fmt_digits n' d r else (n', d # r))"

lemma fmt_digits_length: "length (snd (fmt_digits n c r)) \<le> length r"
  by (induction n c r rule: fmt_digits.induct) (auto simp: Let_def)

definition process_precision :: "int \<Rightarrow> spec \<Rightarrow> spec" where
  "process_precision n sp =
     (let sp1 = sp\<lparr>precision := n\<rparr>
      in if width sp1 < 0 then sp1\<lparr>width := precision sp1, precision := -1\<rparr> else sp1)"

text \<open>The \<open>reswitch\<close> loop up to the conversion character; at the end of the format that is the
  terminator.\<close>

function parse_spec :: "spec \<Rightarrow> string \<Rightarrow> va list \<Rightarrow> (char \<times> spec \<times> string \<times> va list) option" where
  "parse_spec sp [] as = Some (CHR 0x00, sp, [], as)"
| "parse_spec sp (ch # r) as =
     (if ch = CHR ''-'' then parse_spec (sp\<lparr>padc := CHR ''-''\<rparr>) r as
      else if ch = CHR ''0'' then parse_spec (sp\<lparr>padc := CHR ''0''\<rparr>) r as
      else if is_digit ch then parse_spec (process_precision (fst (fmt_digits 0 ch r)) sp) (snd (fmt_digits 0 ch r)) as
      else if ch = CHR ''*'' then
        (case va_int as of
           Some (n, as') \<Rightarrow> parse_spec (process_precision n sp) r as'
         | None \<Rightarrow> None)
      else if ch = CHR ''.'' then parse_spec (if width sp < 0 then sp\<lparr>width := 0\<rparr> else sp) r as
      else if ch = CHR ''#'' then parse_spec (sp\<lparr>altflag := True\<rparr>) r as
      else if ch = CHR ''l'' then parse_spec (sp\<lparr>lflag := lflag sp + 1\<rparr>) r as
      else Some (ch, sp, r, as))"
  by pat_completeness simp_all
termination
  by (relation "measure (\<lambda>(sp, r, as). length r)") (simp_all add: less_Suc_eq_le fmt_digits_length)

declare parse_spec.simps [simp del]

section \<open>Conversions\<close>

fun str_body :: "bool \<Rightarrow> string \<Rightarrow> int \<Rightarrow> int \<Rightarrow> string \<times> int" where
  "str_body alt [] prec w = ([], w)"
| "str_body alt (ch # cs) prec w =
     (if prec < 0 \<or> prec - 1 \<ge> 0
      then let (out, w') = str_body alt cs (if prec < 0 then prec else prec - 1) (w - 1)
           in ((if alt \<and> ((of_char ch :: nat) < 32 \<or> 126 < (of_char ch :: nat)) then CHR ''?'' else ch) # out, w')
      else ([], w))"

definition print_str :: "spec \<Rightarrow> string option \<Rightarrow> string" where
  "print_str sp arg =
     (let p = (case arg of None \<Rightarrow> ''(null)'' | Some s \<Rightarrow> s);
          n = (if precision sp < 0 then length p else min (nat (precision sp)) (length p));
          w1 = (if width sp > 0 \<and> padc sp \<noteq> CHR ''-'' then width sp - int n else width sp);
          pad = (if width sp > 0 \<and> padc sp \<noteq> CHR ''-'' then replicate (nat w1) (padc sp) else []);
          w2 = (if width sp > 0 \<and> padc sp \<noteq> CHR ''-'' then min w1 0 else w1);
          (body, w3) = str_body (altflag sp) p (precision sp) w2
      in pad @ body @ replicate (nat w3) (CHR '' ''))"

definition convert :: "char \<Rightarrow> spec \<Rightarrow> va list \<Rightarrow> (string \<times> va list) option" where
  "convert ch sp as =
     (if ch = CHR ''c'' then do {
        (w, as') \<leftarrow> va_num as;
        Some ([char_of (unat w)], as')
      }
      else if ch = CHR ''s'' then do {
        (p, as') \<leftarrow> va_str as;
        Some (print_str sp p, as')
      }
      else if ch = CHR ''d'' then do {
        (n, as') \<leftarrow> getint as (lflag sp);
        out \<leftarrow> printnum (nat \<bar>n\<bar>) 10 (width sp) (padc sp);
        Some ((if n < 0 then ''-'' else []) @ out, as')
      }
      else if ch = CHR ''u'' then do {
        (n, as') \<leftarrow> getuint as (lflag sp);
        out \<leftarrow> printnum n 10 (width sp) (padc sp);
        Some (out, as')
      }
      else if ch = CHR ''o'' then do {
        (n, as') \<leftarrow> getuint as (lflag sp);
        out \<leftarrow> printnum n 8 (width sp) (padc sp);
        Some (out, as')
      }
      else if ch = CHR ''p'' then do {
        (w, as') \<leftarrow> va_num as;
        out \<leftarrow> printnum (unat w) 16 (width sp) (padc sp);
        Some (''0x'' @ out, as')
      }
      else if ch = CHR ''x'' then do {
        (n, as') \<leftarrow> getuint as (lflag sp);
        out \<leftarrow> printnum n 16 (width sp) (padc sp);
        Some (out, as')
      }
      else if ch = CHR ''%'' then Some (''%'', as)
      else None)"

definition conversions :: string where "conversions = ''csduopx%''"

definition error_string :: "int \<Rightarrow> string option" where
  "error_string e = map_of
     [(E_UNSPECIFIED, ''unspecified error''), (E_BAD_PROC, ''bad process''),
      (E_INVAL, ''invalid parameter''), (E_NO_MEM, ''out of memory''),
      (E_NO_FREE_PROC, ''out of processes''), (E_FAULT, ''segmentation fault''),
      (E_INVAL_ELF, ''invalid elf file''), (E_KILLED, ''process is killed''),
      (E_PANIC, ''panic failure''), (E_NO_DEV, ''no such device''),
      (E_NA_DEV, ''device not available''), (E_BUSY, ''device/file is busy''),
      (E_NOENT, ''no such file or directory''), (E_ISDIR, ''is a directory''),
      (E_NOTDIR, ''not a directory''), (E_XDEV, ''cross device link''),
      (E_UNIMP, ''unimplemented feature''), (E_SEEK, ''illegal seek''),
      (E_MAX_OPEN, ''too many files are open''), (E_EXISTS, ''file or directory already exists''),
      (E_NOTEMPTY, ''directory is not empty'')] e"

definition not_pct :: "char \<Rightarrow> bool" where "not_pct c \<longleftrightarrow> c \<noteq> CHR ''%''"

partial_function (option) vprintfmt :: "string \<Rightarrow> va list \<Rightarrow> string option" where
  "vprintfmt fmt as =
     (if list_all not_pct fmt then Some fmt
      else do {
        let lit = takeWhile not_pct fmt;
        let r = List.tl (dropWhile not_pct fmt);
        (ch, sp, r1, as1) \<leftarrow> parse_spec spec0 r as;
        if ch = CHR ''e'' then do {
          (err, as2) \<leftarrow> va_int as1;
          let err = \<bar>err\<bar>;
          out \<leftarrow> (if err > MAXERROR \<or> error_string err = None
                 then vprintfmt ''error %d'' [VNum (of_int err)]
                 else vprintfmt ''%s'' [VStr (error_string err)]);
          rest \<leftarrow> vprintfmt r1 as2;
          Some (lit @ out @ rest)
        }
        else if ch \<in> set conversions then do {
          (out, as2) \<leftarrow> convert ch sp as1;
          rest \<leftarrow> vprintfmt r1 as2;
          Some (lit @ out @ rest)
        }
        else do {
          rest \<leftarrow> vprintfmt r as1;
          Some (lit @ ''%'' @ rest)
        }
      })"

definition printfmt :: "string \<Rightarrow> va list \<Rightarrow> string option" where
  "printfmt fmt as = vprintfmt fmt as"

section \<open>Printing into a buffer\<close>

record sprintbuf =
  sb_buf :: nat
  sb_ebuf :: nat
  sb_cnt :: int

definition sprintputch :: "char \<Rightarrow> mem \<times> sprintbuf \<Rightarrow> mem \<times> sprintbuf" where
  "sprintputch ch = (\<lambda>(m, b).
     let b1 = b\<lparr>sb_cnt := sb_cnt b + 1\<rparr>
     in if sb_buf b1 < sb_ebuf b1
        then (m(sb_buf b1 := of_char ch), b1\<lparr>sb_buf := sb_buf b1 + 1\<rparr>)
        else (m, b1))"

definition vsnprintf :: "mem \<Rightarrow> nat option \<Rightarrow> nat \<Rightarrow> string \<Rightarrow> va list \<Rightarrow> (int \<times> mem) option" where
  "vsnprintf m str sz fmt as =
     (case str of
        None \<Rightarrow> Some (- E_INVAL, m)
      | Some a \<Rightarrow>
          (let b = \<lparr>sb_buf = a, sb_ebuf = a + sz - 1, sb_cnt = 0\<rparr>
           in if sb_buf b > sb_ebuf b then Some (- E_INVAL, m)
              else do {
                out \<leftarrow> vprintfmt fmt as;
                let (m', b') = fold sprintputch out (m, b);
                Some (sb_cnt b', m'(sb_buf b' := 0))
              }))"

definition snprintf :: "mem \<Rightarrow> nat option \<Rightarrow> nat \<Rightarrow> string \<Rightarrow> va list \<Rightarrow> (int \<times> mem) option" where
  "snprintf m str sz fmt as = vsnprintf m str sz fmt as"

section \<open>Numerals\<close>

definition digit_char :: "nat \<Rightarrow> char" where
  "digit_char d = ''0123456789abcdef'' ! d"

fun numeral_of :: "nat \<Rightarrow> nat \<Rightarrow> string" where
  "numeral_of b n = (if 2 \<le> b \<and> b \<le> n then numeral_of b (n div b) @ [digit_char (n mod b)]
     else [digit_char n])"

declare numeral_of.simps [simp del]

definition pad_to :: "int \<Rightarrow> char \<Rightarrow> string \<Rightarrow> string" where
  "pad_to w c s = replicate (nat (w - int (length s))) c @ s"

lemma printnum_ok:
  assumes "2 \<le> b"
  shows "printnum n b w c = Some (pad_to w c (numeral_of b n))"
proof (induction n arbitrary: w rule: less_induct)
  case (less n)
  show ?case
  proof (cases "b \<le> n")
    case True
    then have "n div b < n" using assms by simp
    from less.IH [OF this, of "w - 1"] show ?thesis
      using True assms by (subst printnum.simps, subst numeral_of.simps)
        (simp add: Let_def pad_to_def digit_char_def diff_diff_eq add.commute)
  next
    case False
    then show ?thesis using assms
      by (subst printnum.simps, subst numeral_of.simps) (simp add: Let_def pad_to_def digit_char_def)
  qed
qed

section \<open>Reference semantics of a format\<close>

text \<open>What the kernel's format strings are made of: literal text, strings, signed decimals, eight-digit
  hexadecimals, characters and error codes.\<close>

datatype piece = PLit string | PStr "string option" | PDec int | PHex nat | PChr char | PErr int

fun piece_fmt :: "piece \<Rightarrow> string" where
  "piece_fmt (PLit s) = s"
| "piece_fmt (PStr s) = ''%s''"
| "piece_fmt (PDec n) = ''%d''"
| "piece_fmt (PHex n) = ''%08x''"
| "piece_fmt (PChr c) = ''%c''"
| "piece_fmt (PErr e) = ''%e''"

fun piece_args :: "piece \<Rightarrow> va list" where
  "piece_args (PLit s) = []"
| "piece_args (PStr s) = [VStr s]"
| "piece_args (PDec n) = [VNum (of_int n)]"
| "piece_args (PHex n) = [VNum (of_nat n)]"
| "piece_args (PChr c) = [VNum (of_char c)]"
| "piece_args (PErr e) = [VNum (of_int e)]"

definition decimal :: "int \<Rightarrow> string" where
  "decimal n = (if n < 0 then ''-'' else []) @ numeral_of 10 (nat \<bar>n\<bar>)"

fun piece_text :: "piece \<Rightarrow> string" where
  "piece_text (PLit s) = s"
| "piece_text (PStr s) = (case s of None \<Rightarrow> ''(null)'' | Some x \<Rightarrow> x)"
| "piece_text (PDec n) = decimal n"
| "piece_text (PHex n) = pad_to 8 (CHR ''0'') (numeral_of 16 n)"
| "piece_text (PChr c) = [c]"
| "piece_text (PErr e) = (case error_string \<bar>e\<bar> of Some s \<Rightarrow> s | None \<Rightarrow> ''error '' @ decimal \<bar>e\<bar>)"

fun piece_ok :: "piece \<Rightarrow> bool" where
  "piece_ok (PLit s) = list_all not_pct s"
| "piece_ok (PDec n) = (-2147483648 \<le> n \<and> n < 2147483648)"
| "piece_ok (PHex n) = (n < 4294967296)"
| "piece_ok (PErr e) = (-2147483648 < e \<and> e < 2147483648)"
| "piece_ok _ = True"

lemma str_body_all: "p < 0 \<Longrightarrow> str_body False s p w = (s, w - int (length s))"
  by (induction s arbitrary: w) auto

lemma print_str_plain: "print_str spec0 p = (case p of None \<Rightarrow> ''(null)'' | Some s \<Rightarrow> s)"
  by (simp add: print_str_def spec0_def str_body_all Let_def split: option.split)

lemma ucast_of_int: "ucast (word_of_int n :: 64 word) = (word_of_int n :: 32 word)"
  by (rule bit_word_eqI) (simp add: bit_simps)

lemma sint_int32: "-2147483648 \<le> n \<Longrightarrow> n < 2147483648 \<Longrightarrow> sint (ucast (word_of_int n :: 64 word) :: 32 word) = n"
  by (simp add: ucast_of_int sint_sbintrunc' signed_take_bit_int_eq_self)

lemma va_int_of_int:
  "-2147483648 \<le> n \<Longrightarrow> n < 2147483648 \<Longrightarrow> va_int (VNum (word_of_int n) # as) = Some (n, as)"
  by (simp add: va_int_def sint_int32)

lemma unat_nat32: "n < 4294967296 \<Longrightarrow> unat (ucast (of_nat n :: 64 word) :: 32 word) = n"
proof -
  assume n: "n < 4294967296"
  have "ucast (of_nat n :: 64 word) = (of_nat n :: 32 word)"
    using ucast_of_int [of "int n"] by simp
  then show ?thesis using n by (simp add: unat_of_nat)
qed

lemma unat_of_char: "char_of (unat (of_char c :: 64 word)) = c"
proof -
  have "unat (of_nat (of_char c :: nat) :: 64 word) = of_char c"
    using less_trans [OF nat_of_char_less_256 [of c], of "2 ^ 64"] by (simp only: unat_of_nat) simp
  moreover have "(of_nat (of_char c :: nat) :: 64 word) = of_char c" by (rule of_nat_of_char)
  ultimately have "unat (of_char c :: 64 word) = (of_char c :: nat)" by (simp only:)
  then show ?thesis by (simp only: char_of_char)
qed

lemma literal_first:
  assumes "list_all not_pct s"
  shows "vprintfmt (s @ f) as = do { r \<leftarrow> vprintfmt f as; Some (s @ r) }"
proof (cases "list_all not_pct f")
  case True
  then show ?thesis using assms vprintfmt.simps [of f as] vprintfmt.simps [of "s @ f" as] by simp
next
  case False
  have s: "\<And>x. x \<in> set s \<Longrightarrow> not_pct x" using assms by (simp add: list_all_iff)
  define r where "r = List.tl (dropWhile not_pct f)"
  define l where "l = takeWhile not_pct f"
  have t: "takeWhile not_pct (s @ f) = s @ l" "List.tl (dropWhile not_pct (s @ f)) = r"
    using takeWhile_append2 [of s not_pct f, OF s] dropWhile_append2 [of s not_pct f, OF s]
    by (simp_all add: l_def r_def)
  have sf: "\<not> list_all not_pct (s @ f)" using False by simp
  note e1 = vprintfmt.simps [of "s @ f" as, unfolded if_not_P [OF sf] Let_def t]
  note e2 = vprintfmt.simps [of f as, unfolded if_not_P [OF False] Let_def, folded l_def r_def]
  show ?thesis
  proof (cases "parse_spec spec0 r as")
    case None
    then show ?thesis unfolding e1 e2 by simp
  next
    case (Some x)
    obtain ch sp r1 as1 where x: "x = (ch, sp, r1, as1)" by (cases x) auto
    show ?thesis unfolding e1 e2 Some x
      by (cases "ch = CHR ''e''"; cases "ch \<in> set conversions")
        (simp_all add: Option.bind_assoc case_prod_unfold Let_def)
  qed
qed

lemma parse_simple:
  assumes "ch \<in> set ''csduopxe%''"
  shows "parse_spec sp (ch # r) as = Some (ch, sp, r, as)"
proof -
  have "\<not> is_digit ch \<and> ch \<notin> set ''-0*.#l''"
    using assms by (simp only: list.set insert_iff empty_iff) (elim disjE; simp add: is_digit_def)
  then show ?thesis by (simp add: parse_spec.simps)
qed

lemma parse_08x: "parse_spec spec0 (''08x'' @ r) as
    = Some (CHR ''x'', spec0\<lparr>padc := CHR ''0'', width := 8, precision := -1\<rparr>, r, as)"
  by (simp add: parse_spec.simps is_digit_def process_precision_def spec0_def)

lemma conversion_step:
  assumes "ch \<in> set conversions" and "parse_spec spec0 r as = Some (ch, sp, r1, as1)"
    and "convert ch sp as1 = Some (out, as2)"
  shows "vprintfmt (CHR ''%'' # r) as = do { rest \<leftarrow> vprintfmt r1 as2; Some (out @ rest) }"
proof -
  have "ch \<noteq> CHR ''e''" using assms(1) by (auto simp: conversions_def)
  then show ?thesis
    using assms by (subst vprintfmt.simps) (simp add: not_pct_def)
qed

lemma vprintfmt_Nil [simp]: "vprintfmt [] as = Some []"
  by (subst vprintfmt.simps) simp

lemma vprintfmt_s: "vprintfmt ''%s'' [VStr p] = Some (case p of None \<Rightarrow> ''(null)'' | Some s \<Rightarrow> s)"
  using conversion_step [of "CHR ''s''" "''s''" "[VStr p]" spec0 "[]" "[VStr p]" "print_str spec0 p" "[]"]
  by (simp add: conversions_def parse_simple convert_def print_str_plain)

lemma convert_d:
  assumes "-2147483648 \<le> n" and "n < 2147483648"
  shows "convert (CHR ''d'') spec0 (VNum (word_of_int n) # as) = Some (decimal n, as)"
  using assms by (simp add: convert_def getint_def spec0_def sint_int32 printnum_ok decimal_def pad_to_def)

lemma vprintfmt_error: 
  assumes "-2147483648 \<le> n" and "n < 2147483648"
  shows "vprintfmt ''error %d'' [VNum (word_of_int n)] = Some (''error '' @ decimal n)"
proof -
  have "vprintfmt ''%d'' [VNum (word_of_int n)] = Some (decimal n)"
    using conversion_step [OF _ parse_simple convert_d [OF assms], of "[]"] by (simp add: conversions_def)
  then show ?thesis using literal_first [of "''error ''" "''%d''"] by (simp add: not_pct_def)
qed

lemma piece_step:
  assumes "piece_ok p"
  shows "vprintfmt (piece_fmt p @ f) (piece_args p @ as) = do { r \<leftarrow> vprintfmt f as; Some (piece_text p @ r) }"
proof (cases p)
  case (PLit s)
  then show ?thesis using assms literal_first by simp
next
  case (PStr s)
  have "convert (CHR ''s'') spec0 (VStr s # as) = Some (piece_text p, as)"
    by (simp add: convert_def print_str_plain PStr)
  from conversion_step [OF _ parse_simple this] show ?thesis by (simp add: conversions_def PStr)
next
  case (PDec n)
  then have "convert (CHR ''d'') spec0 (VNum (word_of_int n) # as) = Some (piece_text p, as)"
    using assms convert_d by simp
  from conversion_step [OF _ parse_simple this] show ?thesis by (simp add: conversions_def PDec)
next
  case (PHex n)
  let ?sp = "spec0\<lparr>padc := CHR ''0'', width := 8, precision := -1\<rparr>"
  have "convert (CHR ''x'') ?sp (VNum (of_nat n) # as) = Some (piece_text p, as)"
    using assms PHex by (simp add: convert_def getuint_def spec0_def unat_nat32 printnum_ok)
  from conversion_step [OF _ parse_08x this] show ?thesis by (simp add: conversions_def PHex)
next
  case (PChr c)
  have "convert (CHR ''c'') spec0 (VNum (of_char c) # as) = Some ([c], as)"
    by (simp add: convert_def unat_of_char)
  from conversion_step [OF _ parse_simple this] show ?thesis by (simp add: conversions_def PChr)
next
  case (PErr e)
  have b: "-2147483648 < e" "e < 2147483648" using assms PErr by auto
  have k: "error_string x = Some y \<Longrightarrow> x \<le> MAXERROR" for x y
    by (auto simp: error_string_def error_defs split: if_splits)
  have "(if \<bar>e\<bar> > MAXERROR \<or> error_string \<bar>e\<bar> = None then vprintfmt ''error %d'' [VNum (word_of_int \<bar>e\<bar>)]
      else vprintfmt ''%s'' [VStr (error_string \<bar>e\<bar>)]) = Some (piece_text p)"
  proof (cases "error_string \<bar>e\<bar>")
    case None
    then show ?thesis using vprintfmt_error [of "\<bar>e\<bar>"] b PErr by simp
  next
    case (Some y)
    then show ?thesis using k [OF Some] PErr by (simp add: vprintfmt_s)
  qed
  then show ?thesis
    using b unfolding PErr piece_fmt.simps piece_args.simps
    by (subst vprintfmt.simps) (simp add: not_pct_def parse_simple va_int_of_int Let_def)
qed

lemma number_append [simp]: "number b v (ds @ es) = number b (number b v ds) es"
  by (simp add: number_def)

lemma number_Cons [simp]: "number b v (d # ds) = number b (v * b + d) ds" "number b v [] = v"
  by (simp_all add: number_def)

lemma digit_char_byte:
  assumes "d < 10"
  shows "unat (of_char (digit_char d) :: 8 word) = 48 + d"
proof -
  have "d \<in> {0, 1, 2, 3, 4, 5, 6, 7, 8, 9}" using assms by auto
  then show ?thesis by (auto simp: digit_char_def)
qed

lemma numeral_of_length: "2 \<le> b \<Longrightarrow> 0 < k \<Longrightarrow> n < b ^ k \<Longrightarrow> length (numeral_of b n) \<le> k"
proof (induction k arbitrary: n)
  case (Suc k)
  show ?case
  proof (cases "b \<le> n")
    case True
    have "0 < k"
    proof (rule ccontr)
      assume "\<not> 0 < k"
      then show False using Suc.prems(3) True by simp
    qed
    moreover have "n div b < b ^ k" using Suc.prems(1,3) by (intro less_mult_imp_div_less) (simp add: mult.commute)
    ultimately have "length (numeral_of b (n div b)) \<le> k" using Suc.IH Suc.prems(1) by blast
    then show ?thesis using True Suc.prems(1) by (subst numeral_of.simps) simp
  qed (subst numeral_of.simps, simp)
qed simp

lemma numeral_of_decimal:
  "number 10 0 (map (\<lambda>c. unat (of_char c :: 8 word) - 48) (numeral_of 10 n)) = n
   \<and> (\<forall>c\<in>set (numeral_of 10 n). 48 \<le> (of_char c :: 8 word) \<and> (of_char c :: 8 word) \<le> 57)
   \<and> numeral_of 10 n \<noteq> []"
proof (induction n rule: less_induct)
  case (less n)
  show ?case
  proof (cases "10 \<le> n")
    case True
    then have "n div 10 < n" by simp
    from less.IH [OF this] show ?thesis
      using True digit_char_byte [of "n mod 10"]
      by (subst (1 2 3) numeral_of.simps) (simp add: word_le_nat_alt)
  next
    case False
    then show ?thesis using digit_char_byte [of n]
      by (subst (1 2 3) numeral_of.simps) (simp add: word_le_nat_alt)
  qed
qed

section \<open>The buffer\<close>

lemma fold_sprintputch:
  assumes "a \<le> e"
  shows "\<exists>m'. fold sprintputch out (m, \<lparr>sb_buf = a, sb_ebuf = e, sb_cnt = c\<rparr>)
     = (m', \<lparr>sb_buf = a + min (length out) (e - a), sb_ebuf = e, sb_cnt = c + int (length out)\<rparr>)
     \<and> bytes m' a (map of_char (take (e - a) out))
     \<and> (\<forall>x. x < a \<or> a + min (length out) (e - a) \<le> x \<longrightarrow> m' x = m x)"
  using assms
proof (induction out arbitrary: m a c)
  case (Cons ch out)
  show ?case
  proof (cases "a < e")
    case True
    define m1 where "m1 = m(a := of_char ch)"
    have st: "sprintputch ch (m, \<lparr>sb_buf = a, sb_ebuf = e, sb_cnt = c\<rparr>)
        = (m1, \<lparr>sb_buf = a + 1, sb_ebuf = e, sb_cnt = c + 1\<rparr>)"
      using True by (simp add: sprintputch_def m1_def)
    have le: "a + 1 \<le> e" using True by simp
    obtain m' where m': "fold sprintputch out (m1, \<lparr>sb_buf = a + 1, sb_ebuf = e, sb_cnt = c + 1\<rparr>)
       = (m', \<lparr>sb_buf = a + 1 + min (length out) (e - (a + 1)), sb_ebuf = e, sb_cnt = c + 1 + int (length out)\<rparr>)"
      "bytes m' (a + 1) (map of_char (take (e - (a + 1)) out))"
      "\<forall>x. x < a + 1 \<or> a + 1 + min (length out) (e - (a + 1)) \<le> x \<longrightarrow> m' x = m1 x"
      using Cons.IH [OF le, of m1 "c + 1"] by blast
    have k: "e - a = Suc (e - (a + 1))" using True by simp
    show ?thesis
      using m' st by (intro exI [of _ m']) (auto simp: k add.assoc m1_def)
  next
    case False
    then have e: "a = e" using Cons.prems by simp
    have st: "sprintputch ch (m, \<lparr>sb_buf = a, sb_ebuf = e, sb_cnt = c\<rparr>)
        = (m, \<lparr>sb_buf = a, sb_ebuf = e, sb_cnt = c + 1\<rparr>)"
      using False by (simp add: sprintputch_def)
    show ?thesis using Cons.IH [of a m "c + 1"] Cons.prems st e by (auto simp: add.assoc)
  qed
qed simp

lemma vprintfmt_pieces:
  assumes "\<forall>p\<in>set ps. piece_ok p"
  shows "vprintfmt (concat (map piece_fmt ps)) (concat (map piece_args ps))
     = Some (concat (map piece_text ps))"
  using assms
proof (induction ps)
  case (Cons p ps)
  then show ?case using piece_step [of p "concat (map piece_fmt ps)" "concat (map piece_args ps)"] by simp
qed simp

section \<open>Properties\<close>

text \<open>C25: for every format put together from literals, \<open>%s\<close>, \<open>%d\<close>, \<open>%08x\<close>, \<open>%c\<close> and \<open>%e\<close>, with the
  matching arguments in range, \<open>vprintfmt\<close> returns and prints exactly the concatenation of the texts of the pieces.\<close>

theorem vprintfmt_renders:
  assumes "\<forall>p\<in>set ps. piece_ok p"
  shows "vprintfmt (concat (map piece_fmt ps)) (concat (map piece_args ps))
     = Some (concat (map piece_text ps))"
  by (rule vprintfmt_pieces [OF assms])

theorem vprintfmt_renders_witness:
  "vprintfmt ''pid %d: %e'' [VNum (word_of_int (-12)), VNum (word_of_int 4)] = Some ''pid -12: out of memory''"
  using vprintfmt_renders [of "[PLit ''pid '', PDec (-12), PLit '': '', PErr 4]"]
  by (simp add: not_pct_def decimal_def numeral_of.simps digit_char_def error_string_def error_defs)

text \<open>\<open>vsnprintf\<close> never writes outside its buffer: it stores as much of the text as fits, always
  terminates it, leaves every other byte alone, and returns the full length of the text.\<close>

theorem vsnprintf_stays_in_buffer:
  assumes "0 < a" and "0 < sz" and "vprintfmt fmt as = Some out"
  shows "\<exists>m'. vsnprintf m (Some a) sz fmt as = Some (int (length out), m')
     \<and> bytes m' a (map of_char (take (sz - 1) out) @ [0])
     \<and> (\<forall>x. x < a \<or> a + sz \<le> x \<longrightarrow> m' x = m x)"
proof -
  have e: "a \<le> a + sz - 1" "a + sz - 1 - a = sz - 1" using assms(2) by simp_all
  obtain m' where m': "fold sprintputch out (m, \<lparr>sb_buf = a, sb_ebuf = a + sz - 1, sb_cnt = 0\<rparr>)
     = (m', \<lparr>sb_buf = a + min (length out) (sz - 1), sb_ebuf = a + sz - 1, sb_cnt = int (length out)\<rparr>)"
    "bytes m' a (map of_char (take (sz - 1) out))"
    "\<forall>x. x < a \<or> a + min (length out) (sz - 1) \<le> x \<longrightarrow> m' x = m x"
    using fold_sprintputch [OF e(1), of out m 0] unfolding e(2) by auto
  let ?k = "min (length out) (sz - 1)"
  have "vsnprintf m (Some a) sz fmt as = Some (int (length out), m'(a + ?k := 0))"
    using m'(1) e(1) assms(2,3) by (simp add: vsnprintf_def)
  moreover have "bytes (m'(a + ?k := 0)) a (map of_char (take (sz - 1) out))
      = bytes m' a (map of_char (take (sz - 1) out))"
    by (rule bytes_cong) auto
  ultimately show ?thesis using m' assms(2)
    by (intro exI [of _ "m'(a + ?k := 0)"]) (auto simp: min.commute)
qed

theorem vsnprintf_stays_in_buffer_witness:
  "\<exists>m'. vsnprintf (\<lambda>_. 1) (Some 8) 3 ''ucore'' [] = Some (5, m') \<and> bytes m' 8 [117, 99, 0] \<and> m' 11 = 1"
proof -
  have "vprintfmt ''ucore'' [] = Some ''ucore''" by (subst vprintfmt.simps) (simp add: not_pct_def)
  from vsnprintf_stays_in_buffer [OF _ _ this, of 8 3 "\<lambda>_. 1"] show ?thesis by auto
qed

text \<open>C26: reading back what was printed: \<open>strtol\<close> in base 10 on a buffer that \<open>snprintf\<close> filled with
  \<open>%d\<close> of any \<open>int\<close>, negative ones with their sign, gives the number and stops at the terminator.\<close>

theorem strtol_snprintf_roundtrip:
  assumes "0 < a" and "- 2147483648 \<le> n" and "n < 2147483648" and "11 < sz"
  shows "\<exists>m' k. snprintf m (Some a) sz ''%d'' [VNum (word_of_int n)] = Some (int k, m')
     \<and> strtol m' a 10 = Some (word_of_int n, a + k) \<and> m' (a + k) = 0 \<and> (n < 0 \<longleftrightarrow> m' a = 45)"
proof -
  let ?ds = "numeral_of 10 (nat \<bar>n\<bar>)" and ?out = "decimal n"
  have o: "vprintfmt ''%d'' [VNum (word_of_int n)] = Some ?out"
    using vprintfmt_pieces [of "[PDec n]"] assms(2,3) by simp
  have lo: "length ?ds \<le> 10" using numeral_of_length [of 10 10 "nat \<bar>n\<bar>"] assms(2,3) by simp
  have "length ?out \<le> Suc (length ?ds)" unfolding decimal_def by (cases "n < 0") simp_all
  then have l: "length ?out < sz" using lo assms(4) by linarith
  have sz: "0 < sz" using assms(4) by simp
  obtain m' where m': "vsnprintf m (Some a) sz ''%d'' [VNum (word_of_int n)] = Some (int (length ?out), m')"
    "bytes m' a (map of_char (take (sz - 1) ?out) @ [0])"
    using vsnprintf_stays_in_buffer [OF assms(1) sz o, of m] by blast
  have "take (sz - 1) ?out = ?out" using l by simp
  then have b: "bytes m' a (map of_char ?out)" "m' (a + length ?out) = 0" using m'(2) by simp_all
  note d = numeral_of_decimal [of "nat \<bar>n\<bar>"]
  let ?xs = "map of_char ?ds :: 8 word list"
  have dx: "\<forall>x\<in>set ?xs. 48 \<le> x \<and> x \<le> 57" "number 10 0 (map (\<lambda>x. unat x - 48) ?xs) = nat \<bar>n\<bar>" "?xs \<noteq> []"
    using d by (auto simp: comp_def)
  have "strtol m' a 10 = Some (word_of_int n, a + length ?out) \<and> (n < 0 \<longleftrightarrow> m' a = 45)"
  proof (cases "n < 0")
    case True
    then have e: "?out = CHR ''-'' # ?ds" by (simp add: decimal_def)
    have "m' a = 45" "bytes m' (a + 1) ?xs" using b(1) unfolding e by simp_all
    moreover from this have "strtol m' a 10 = Some (- of_nat (number 10 0 (map (\<lambda>x. unat x - 48) ?xs)), a + 1 + length ?xs)"
      by (intro strtol_minus dx(1)) (use b(2) e in simp_all)
    ultimately show ?thesis using True unfolding dx(2) e by simp
  next
    case False
    then have e: "?out = ?ds" by (simp add: decimal_def)
    obtain x ys where xs: "?xs = x # ys" using dx(3) by (cases ?xs) auto
    then have "m' a = x" "48 \<le> x" using b(1) dx(1) unfolding e by auto
    then have "m' a \<noteq> 45" by auto
    moreover have "strtol m' a 10 = Some (of_nat (number 10 0 (map (\<lambda>x. unat x - 48) ?xs)), a + length ?xs)"
      by (intro strtol_decimal dx(1,3)) (use b e in simp_all)
    ultimately show ?thesis using False unfolding dx(2) e by simp
  qed
  then show ?thesis using m'(1) b(2) by (intro exI [of _ m'] exI [of _ "length ?out"]) (simp add: snprintf_def)
qed

theorem strtol_snprintf_roundtrip_witness:
  "\<exists>m' k. snprintf (\<lambda>_. 7) (Some 100) 12 ''%d'' [VNum (- 2025)] = Some (int k, m') \<and> strtol m' 100 10 = Some (- 2025, 100 + k)
     \<and> m' 100 = 45"
  using strtol_snprintf_roundtrip [of 100 "- 2025" 12 "\<lambda>_. 7"] by auto

end
