(* ===== verification/Exec.thy ===== *)
theory Exec
  imports Sysfile Printfmt
begin

text \<open>
  Loading a program: \<open>do\_execve\<close> and \<open>load\_icode\<close> of \<open>kern/process/proc.c\<close> and the file format of \<open>libs/elf.h\<close>.  What the code
  writes through the kernel address of a page, or to the user's stack once the page table is loaded, goes to these
  addresses of the byte store.
\<close>

unbundle bit_operations_syntax

section \<open>elf.h, memlayout.h, unistd.h\<close>

definition ELF_MAGIC :: "32 word" where "ELF_MAGIC = 0x464C457F"
definition ELF_PT_LOAD :: "32 word" where "ELF_PT_LOAD = 1"
definition ELF_PF_X :: "32 word" where "ELF_PF_X = 1"
definition ELF_PF_W :: "32 word" where "ELF_PF_W = 2"
definition ELF_PF_R :: "32 word" where "ELF_PF_R = 4"
definition USTACKTOP :: "64 word" where "USTACKTOP = USERTOP"
definition USTACKSIZE :: "64 word" where "USTACKSIZE = 256 * PGSIZE"
definition EXEC_MAX_ARG_NUM :: int where "EXEC_MAX_ARG_NUM = 32"
definition EXEC_MAX_ARG_LEN :: nat where "EXEC_MAX_ARG_LEN = 4095"

record elfhdr =
  e_magic :: "32 word"
  e_entry :: "64 word"
  e_phoff :: "64 word"
  e_phnum :: nat

record proghdr =
  p_type :: "32 word"
  p_pflags :: "32 word"
  p_offset :: "64 word"
  p_va :: "64 word"
  p_filesz :: "64 word"
  p_memsz :: "64 word"

definition sizeof_elfhdr :: nat where "sizeof_elfhdr = 64"
definition sizeof_proghdr :: nat where "sizeof_proghdr = 56"

definition get_elfhdr :: "Strings.mem \<Rightarrow> nat \<Rightarrow> elfhdr" where
  "get_elfhdr m a = \<lparr>e_magic = load32 m a, e_entry = load64 m (a + 24), e_phoff = load64 m (a + 32),
     e_phnum = le_val (read_bytes m (a + 56) 2)\<rparr>"

definition get_proghdr :: "Strings.mem \<Rightarrow> nat \<Rightarrow> proghdr" where
  "get_proghdr m a = \<lparr>p_type = load32 m a, p_pflags = load32 m (a + 4), p_offset = load64 m (a + 8), p_va = load64 m (a + 16),
     p_filesz = load64 m (a + 32), p_memsz = load64 m (a + 40)\<rparr>"

section \<open>Segments\<close>

definition load_icode_read :: "'d vops \<Rightarrow> int \<Rightarrow> 64 word \<Rightarrow> nat \<Rightarrow> 64 word \<Rightarrow> 'd os \<Rightarrow> (int \<times> 'd os) option" where
  "load_icode_read V fd buf len offset s = do {
     (ret, s1) \<leftarrow> sysfile_seek V fd (sint offset) LSEEK_SET s;
     if ret \<noteq> 0 then Some (ret, s1)
     else do {
       (ret, s2) \<leftarrow> sysfile_read V fd buf len s1;
       Some (if nat (ret mod 18446744073709551616) \<noteq> len then (if ret < 0 then ret else - 1) else 0, s2)
     }
   }"

definition segment_flags :: "32 word \<Rightarrow> 32 word" where
  "segment_flags f = (if f AND ELF_PF_X \<noteq> 0 then VM_EXEC else 0) OR (if f AND ELF_PF_W \<noteq> 0 then VM_WRITE else 0)
     OR (if f AND ELF_PF_R \<noteq> 0 then VM_READ else 0)"

definition segment_perm :: "32 word \<Rightarrow> 64 word" where
  "segment_perm vm_flags = PTE_U OR PTE_V OR (if vm_flags AND VM_READ \<noteq> 0 then PTE_R else 0)
     OR (if vm_flags AND VM_WRITE \<noteq> 0 then PTE_W OR PTE_R else 0) OR (if vm_flags AND VM_EXEC \<noteq> 0 then PTE_X else 0)"

text \<open>How much of the page in front of \<open>la\<close> is used from \<open>off\<close> on, if the segment ends at \<open>en\<close>.\<close>

definition page_part :: "64 word \<Rightarrow> 64 word \<Rightarrow> 64 word \<Rightarrow> 64 word" where
  "page_part off en la = PGSIZE - off - (if en < la then la - en else 0)"

definition seg_page :: "nat \<Rightarrow> 64 word \<Rightarrow> 64 word \<Rightarrow> 'd os \<Rightarrow> (nat option \<times> 'd os) option" where
  "seg_page mm la perm s = do {
     d \<leftarrow> mm_pgdir (vm_mms (os_vm s) mm);
     (page, m) \<leftarrow> pgdir_alloc_page d la perm (vm_mem (os_vm s));
     Some (page, set_mem m s)
   }"

text \<open>The loop over the pages with contents of the file; the results are \<open>ret\<close>, \<open>start\<close>, \<open>la\<close> and \<open>page\<close>.\<close>

partial_function (option) load_data ::
  "'d vops \<Rightarrow> int \<Rightarrow> nat \<Rightarrow> 64 word \<Rightarrow> 64 word \<Rightarrow> 64 word \<Rightarrow> 64 word \<Rightarrow> 64 word \<Rightarrow> nat option \<Rightarrow> 'd os
    \<Rightarrow> (int \<times> 64 word \<times> 64 word \<times> nat option \<times> 'd os) option" where
  "load_data V fd mm perm en start la offset page s =
     (if start < en
      then do {
        (page, s1) \<leftarrow> seg_page mm la perm s;
        case page of
          None \<Rightarrow> Some (- E_NO_MEM, start, la, None, s1)
        | Some g \<Rightarrow> do {
            let off = start - la;
            let la = la + PGSIZE;
            let sz = page_part off en la;
            f \<leftarrow> page2kva (vm_mem (os_vm s1)) g;
            (ret, s2) \<leftarrow> load_icode_read V fd (of_nat (kva_of f) + off) (unat sz) offset s1;
            if ret \<noteq> 0 then Some (ret, start, la, Some g, s2)
            else load_data V fd mm perm en (start + sz) la (offset + sz) (Some g) s2
          }
      }
      else Some (0, start, la, page, s))"

definition zero_part :: "nat \<Rightarrow> 64 word \<Rightarrow> 64 word \<Rightarrow> 'd os \<Rightarrow> 'd os option" where
  "zero_part page off sz s = do {
     f \<leftarrow> page2kva (vm_mem (os_vm s)) page;
     Some (s\<lparr>os_mem := memset (os_mem s) (unat (of_nat (kva_of f) + off)) 0 (unat sz)\<rparr>)
   }"

text \<open>The rest of the last page with contents; the result is \<open>start\<close>.\<close>

definition bss_head :: "64 word \<Rightarrow> 64 word \<Rightarrow> 64 word \<Rightarrow> nat option \<Rightarrow> 'd os \<Rightarrow> (64 word \<times> 'd os) option" where
  "bss_head en start la page s =
     (if start < la \<and> start \<noteq> en
      then do {
        g \<leftarrow> page;
        let off = start + PGSIZE - la;
        let sz = page_part off en la;
        s1 \<leftarrow> zero_part g off sz s;
        let start = start + sz;
        kassert ((en < la \<and> start = en) \<or> (la \<le> en \<and> start = la));
        Some (start, s1)
      }
      else Some (start, s))"

partial_function (option) load_bss :: "nat \<Rightarrow> 64 word \<Rightarrow> 64 word \<Rightarrow> 64 word \<Rightarrow> 64 word \<Rightarrow> 'd os \<Rightarrow> (int \<times> 'd os) option" where
  "load_bss mm perm en start la s =
     (if start < en
      then do {
        (page, s1) \<leftarrow> seg_page mm la perm s;
        case page of
          None \<Rightarrow> Some (- E_NO_MEM, s1)
        | Some g \<Rightarrow> do {
            let off = start - la;
            let la = la + PGSIZE;
            let sz = page_part off en la;
            s2 \<leftarrow> zero_part g off sz s1;
            load_bss mm perm en (start + sz) la s2
          }
      }
      else Some (0, s))"

definition load_segment :: "'d vops \<Rightarrow> int \<Rightarrow> nat \<Rightarrow> proghdr \<Rightarrow> 'd os \<Rightarrow> (int \<times> 'd os) option" where
  "load_segment V fd mm ph s =
     (if p_memsz ph < p_filesz ph then Some (- E_INVAL_ELF, s)
      else do {
        let vm_flags = segment_flags (p_pflags ph);
        let perm = segment_perm vm_flags;
        (ret, _, v) \<leftarrow> mm_map (Some mm) (p_va ph) (p_memsz ph) vm_flags (os_vm s);
        let s1 = s\<lparr>os_vm := v\<rparr>;
        if ret \<noteq> 0 then Some (ret, s1)
        else do {
          (ret, start, la, page, s2) \<leftarrow>
            load_data V fd mm perm (p_va ph + p_filesz ph) (p_va ph) (ROUNDDOWN (p_va ph) PGSIZE) (p_offset ph) None s1;
          if ret \<noteq> 0 then Some (ret, s2)
          else do {
            (start, s3) \<leftarrow> bss_head (p_va ph + p_memsz ph) start la page s2;
            load_bss mm perm (p_va ph + p_memsz ph) start la s3
          }
        }
      })"

text \<open>The program headers from number \<open>i\<close> on, \<open>n\<close> of them; \<open>pa\<close> is the address of \<open>ph\_content\<close>.\<close>

primrec load_segments :: "'d vops \<Rightarrow> int \<Rightarrow> nat \<Rightarrow> elfhdr \<Rightarrow> nat \<Rightarrow> nat \<Rightarrow> nat \<Rightarrow> 'd os \<Rightarrow> (int \<times> 'd os) option" where
  "load_segments V fd mm elf pa i 0 s = Some (0, s)"
| "load_segments V fd mm elf pa i (Suc n) s = do {
     (ret, s1) \<leftarrow> load_icode_read V fd (of_nat pa) sizeof_proghdr (e_phoff elf + of_nat (sizeof_proghdr * i)) s;
     if ret \<noteq> 0 then Some (ret, s1)
     else do {
       let ph = get_proghdr (os_mem s1) pa;
       (ret, s2) \<leftarrow> (if p_type ph \<noteq> ELF_PT_LOAD then Some (0, s1) else load_segment V fd mm ph s1);
       if ret \<noteq> 0 then Some (ret, s2) else load_segments V fd mm elf pa (i + 1) n s2
     }
   }"

section \<open>The arguments on the stack of the program\<close>

fun args_size :: "Strings.mem \<Rightarrow> nat list \<Rightarrow> nat \<Rightarrow> nat" where
  "args_size m [] sz = sz"
| "args_size m (k # ks) sz = args_size m ks (u32 (sz + strnlen m k (EXEC_MAX_ARG_LEN + 1) + 1))"

definition args_top :: "Strings.mem \<Rightarrow> nat list \<Rightarrow> 64 word" where
  "args_top m kargv = (let stacktop = USTACKTOP - of_nat (args_size m kargv 0) in stacktop - stacktop mod 8)"

definition args_array :: "Strings.mem \<Rightarrow> nat list \<Rightarrow> 64 word" where
  "args_array m kargv = args_top m kargv - of_nat (length kargv + 1) * 8"

text \<open>The stores to the stack of the new address space, which \<open>v\<close> holds and the page table of which is loaded.\<close>

fun put_args :: "nat \<Rightarrow> vmm \<Rightarrow> 64 word \<Rightarrow> 64 word \<Rightarrow> nat list \<Rightarrow> nat \<Rightarrow> nat \<Rightarrow> Strings.mem \<Rightarrow> Strings.mem option" where
  "put_args mm v uargv stacktop [] i sz m = do {
     user_touch (Some mm) (uargv + of_nat i * 8) 8 True v;
     Some (store64 (unat (uargv + of_nat i * 8)) 0 m)
   }"
| "put_args mm v uargv stacktop (k # ks) i sz m = do {
     let p = stacktop + of_nat sz;
     user_touch (Some mm) (uargv + of_nat i * 8) 8 True v;
     let m0 = store64 (unat (uargv + of_nat i * 8)) p m;
     len \<leftarrow> strlen m0 k;
     user_touch (Some mm) p (len + 1) True v;
     m1 \<leftarrow> strcpy m0 (unat p) k;
     put_args mm v uargv stacktop ks (i + 1) (u32 (sz + strnlen m1 k (EXEC_MAX_ARG_LEN + 1) + 1)) m1
   }"

definition exec_frame :: "elfhdr \<Rightarrow> 64 word \<Rightarrow> nat \<Rightarrow> trapframe \<Rightarrow> trapframe" where
  "exec_frame elf uargv argc tf =
     \<lparr>tf_gpr = zero_regs\<lparr>gpr_sp := uargv, gpr_a0 := of_nat argc, gpr_a1 := uargv\<rparr>,
      tf_status = (tf_status tf AND NOT SSTATUS_SPP) OR SSTATUS_SPIE, tf_epc = e_entry elf, tf_tval = 0, tf_cause = 0\<rparr>"

section \<open>load\_icode\<close>

text \<open>From the labels \<open>bad\_elf\_cleanup\_pgdir\<close> and \<open>bad\_cleanup\_mmap\<close> on.\<close>

definition load_cleanup_pgdir :: "nat \<Rightarrow> int \<Rightarrow> 'd os \<Rightarrow> (int \<times> 'd os) option" where
  "load_cleanup_pgdir mm ret s = do { v \<leftarrow> put_pgdir mm (os_vm s); v1 \<leftarrow> mm_destroy mm v; Some (ret, s\<lparr>os_vm := v1\<rparr>) }"

definition load_cleanup_mmap :: "nat \<Rightarrow> int \<Rightarrow> 'd os \<Rightarrow> (int \<times> 'd os) option" where
  "load_cleanup_mmap mm ret s = do { v \<leftarrow> exit_mmap (Some mm) (os_vm s); load_cleanup_pgdir mm ret (s\<lparr>os_vm := v\<rparr>) }"

text \<open>The four pages below the top of the stack.\<close>

primrec stack_pages :: "nat \<Rightarrow> nat \<Rightarrow> 'd os \<Rightarrow> 'd os option" where
  "stack_pages mm 0 s = Some s"
| "stack_pages mm (Suc n) s = do {
     s1 \<leftarrow> stack_pages mm n s;
     (page, s2) \<leftarrow> seg_page mm (USTACKTOP - of_nat (Suc n) * PGSIZE) PTE_USER s1;
     kassert (page \<noteq> None);
     Some s2
   }"

text \<open>Everything behind the creation of the user stack; nothing here fails.\<close>

definition load_finish :: "nat \<Rightarrow> elfhdr \<Rightarrow> nat list \<Rightarrow> 'd os \<Rightarrow> (int \<times> 'd os) option" where
  "load_finish mm elf kargv s = do {
     c \<leftarrow> current (os_kern s);
     s1 \<leftarrow> stack_pages mm 4 s;
     (_, s2) \<leftarrow> share_mm mm c s1;
     let s3 = set_kern ((os_kern s2)\<lparr>satp := p_pgdir (os_proc s2 c)\<rparr>) s2;
     let uargv = args_array (os_mem s3) kargv;
     m \<leftarrow> put_args mm (os_vm s3) uargv (args_top (os_mem s3) kargv) kargv 0 0 (os_mem s3);
     (a, tf) \<leftarrow> p_tf (os_proc s3 c);
     Some (0, upd_os_proc c (\<lambda>x. x\<lparr>p_tf := Some (a, exec_frame elf uargv (length kargv) tf)\<rparr>) (s3\<lparr>os_mem := m\<rparr>))
   }"

text \<open>\<open>kargv\<close> holds the \<open>argc\<close> pointers that are set; \<open>ea\<close> and \<open>pa\<close> are the addresses of \<open>elf\_content\<close> and \<open>ph\_content\<close>.\<close>

definition load_icode :: "'d vops \<Rightarrow> ksyms \<Rightarrow> nat \<Rightarrow> nat \<Rightarrow> int \<Rightarrow> nat list \<Rightarrow> 'd os \<Rightarrow> (int \<times> 'd os) option" where
  "load_icode V K ea pa fd kargv s = do {
     kassert (int (length kargv) \<le> EXEC_MAX_ARG_NUM);
     c \<leftarrow> current (os_kern s);
     kassert (p_mm (os_proc s c) = None);
     case mm_create (os_vm s) of
       (None, v) \<Rightarrow> Some (- E_NO_MEM, s\<lparr>os_vm := v\<rparr>)
     | (Some mm, v) \<Rightarrow> do {
         (r, v1) \<leftarrow> setup_pgdir K mm v;
         if r \<noteq> 0 then do { v2 \<leftarrow> mm_destroy mm v1; Some (- E_NO_MEM, s\<lparr>os_vm := v2\<rparr>) }
         else do {
           (ret, s2) \<leftarrow> load_icode_read V fd (of_nat ea) sizeof_elfhdr 0 (s\<lparr>os_vm := v1\<rparr>);
           let elf = get_elfhdr (os_mem s2) ea;
           if ret \<noteq> 0 then load_cleanup_pgdir mm ret s2
           else if e_magic elf \<noteq> ELF_MAGIC then load_cleanup_pgdir mm (- E_INVAL_ELF) s2
           else do {
             (ret, s3) \<leftarrow> load_segments V fd mm elf pa 0 (e_phnum elf) s2;
             if ret \<noteq> 0 then load_cleanup_mmap mm ret s3
             else do {
               (_, s4) \<leftarrow> sysfile_close V fd s3;
               (ret, _, v) \<leftarrow> mm_map (Some mm) (USTACKTOP - USTACKSIZE) USTACKSIZE (VM_READ OR VM_WRITE OR VM_STACK) (os_vm s4);
               let s5 = s4\<lparr>os_vm := v\<rparr>;
               if ret \<noteq> 0 then load_cleanup_mmap mm ret s5 else load_finish mm elf kargv s5
             }
           }
         }
       }
   }"

section \<open>do\_execve\<close>

definition put_kargv :: "nat list \<Rightarrow> 'd os \<Rightarrow> 'd os" where
  "put_kargv kargv s = foldr os_kfree kargv s"

text \<open>The loop over the arguments: \<open>n\<close> are left, \<open>kargv\<close> are copied.\<close>

fun copy_args :: "nat option \<Rightarrow> 64 word \<Rightarrow> nat \<Rightarrow> nat list \<Rightarrow> 'd os \<Rightarrow> (int \<times> nat list \<times> 'd os) option" where
  "copy_args mm argv 0 kargv s = Some (0, kargv, s)"
| "copy_args mm argv (Suc n) kargv s =
     (case os_kmalloc s of
        (None, s1) \<Rightarrow> Some (- E_NO_MEM, [], put_kargv kargv s1)
      | (Some buffer, s1) \<Rightarrow> do {
          user_touch mm (argv + of_nat (length kargv) * 8) 8 False (os_vm s1);
          let from = load64 (os_mem s1) (unat (argv + of_nat (length kargv) * 8));
          (ok, s2) \<leftarrow> with_copy (copy_string mm (of_nat buffer) from (of_nat (EXEC_MAX_ARG_LEN + 1))) s1;
          if \<not> ok then Some (- E_INVAL, [], put_kargv kargv (os_kfree buffer s2))
          else copy_args mm argv n (kargv @ [buffer]) s2
        })"

definition copy_kargv :: "nat option \<Rightarrow> nat \<Rightarrow> 64 word \<Rightarrow> 'd os \<Rightarrow> (int \<times> nat list \<times> 'd os) option" where
  "copy_kargv mm argc argv s = do {
     (ok, v) \<leftarrow> user_mem_check mm argv (8 * of_nat argc) False (os_vm s);
     let s1 = s\<lparr>os_vm := v\<rparr>;
     if \<not> ok then Some (- E_INVAL, [], s1) else copy_args mm argv argc [] s1
   }"

text \<open>The old address space goes.\<close>

definition exec_release :: "ksyms \<Rightarrow> nat \<Rightarrow> 'd os \<Rightarrow> 'd os option" where
  "exec_release K c s =
     (case p_mm (os_proc s c) of
        None \<Rightarrow> Some s
      | Some m \<Rightarrow> do {
          let s1 = set_kern ((os_kern s)\<lparr>satp := boot_pgdir_pa K\<rparr>) s;
          let (n, v) = mm_count_dec m (os_vm s1);
          v1 \<leftarrow> (if n = 0
            then do { v1 \<leftarrow> exit_mmap (Some m) v; v2 \<leftarrow> put_pgdir m v1; mm_destroy m v2 }
            else Some v);
          Some (upd_os_proc c (\<lambda>a. a\<lparr>p_mm := None\<rparr>) (s1\<lparr>os_vm := v1\<rparr>))
        })"

definition exec_fails :: "'d vops \<Rightarrow> ksyms \<Rightarrow> int \<Rightarrow> nat list \<Rightarrow> 'd os \<Rightarrow> (int option \<times> 'd os) option" where
  "exec_fails V K ret kargv s = do { s1 \<leftarrow> do_exit V K ret (put_kargv kargv s); Some (None, s1) }"

text \<open>What follows the copies: \<open>ln\<close> is the address of \<open>local\_name\<close>.\<close>

definition exec_load ::
  "'d vops \<Rightarrow> ksyms \<Rightarrow> nat \<Rightarrow> nat \<Rightarrow> nat \<Rightarrow> nat list \<Rightarrow> 64 word \<Rightarrow> 'd os \<Rightarrow> (int option \<times> 'd os) option" where
  "exec_load V K ln ea pa kargv path s = do {
     c \<leftarrow> current (os_kern s);
     fl \<leftarrow> p_filesp (os_proc s c);
     s1 \<leftarrow> files_closeall V fl s;
     (fd, s2) \<leftarrow> sysfile_open V path O_RDONLY s1;
     if fd < 0 then exec_fails V K fd kargv s2
     else do {
       s3 \<leftarrow> exec_release K c s2;
       (ret, s4) \<leftarrow> load_icode V K ea pa fd kargv s3;
       if ret \<noteq> 0 then exec_fails V K ret kargv s4
       else do {
         let s5 = put_kargv kargv s4;
         let nm = map (\<lambda>b. char_of (unat b)) (read_bytes (os_mem s5) ln (PROC_NAME_LEN + 1));
         Some (Some 0, set_kern (set_proc_name c nm (os_kern s5)) s5)
       }
     }
   }"

text \<open>Without a result the process has exited.\<close>

definition do_execve ::
  "'d vops \<Rightarrow> ksyms \<Rightarrow> nat \<Rightarrow> nat \<Rightarrow> nat \<Rightarrow> 64 word \<Rightarrow> int \<Rightarrow> 64 word \<Rightarrow> 'd os \<Rightarrow> (int option \<times> 'd os) option" where
  "do_execve V K ln ea pa nam argc argv s = do {
     c \<leftarrow> current (os_kern s);
     let mm = p_mm (os_proc s c);
     if \<not> (1 \<le> argc \<and> argc \<le> EXEC_MAX_ARG_NUM) then Some (Some (- E_INVAL), s)
     else do {
       s1 \<leftarrow> lock_user V mm (s\<lparr>os_mem := memset (os_mem s) ln 0 (PROC_NAME_LEN + 1)\<rparr>);
       (ok, s2) \<leftarrow>
         (if nam = 0
          then do {
            (_, m) \<leftarrow> snprintf (os_mem s1) (Some ln) (PROC_NAME_LEN + 1) ''<null> %d'' [VNum (word_of_int (p_pid (os_proc s1 c)))];
            Some (True, s1\<lparr>os_mem := m\<rparr>)
          }
          else with_copy (copy_string mm (of_nat ln) nam (of_nat (PROC_NAME_LEN + 1))) s1);
       if \<not> ok then do { s3 \<leftarrow> unlock_user V mm s2; Some (Some (- E_INVAL), s3) }
       else do {
         (ret, kargv, s3) \<leftarrow> copy_kargv mm (nat argc) argv s2;
         s4 \<leftarrow> unlock_user V mm s3;
         if ret \<noteq> 0 then Some (Some ret, s4)
         else do {
           user_touch mm argv 8 False (os_vm s4);
           exec_load V K ln ea pa kargv (load64 (os_mem s4) (unat argv)) s4
         }
       }
     }
   }"

end
