(* ===== verification/Vmm_Inv.thy ===== *)
theory Vmm_Inv
  imports Vmm_Model
begin

text \<open>
  The invariant of an address space (its areas in address order, disjoint, each non-empty) and what
  \<open>find_vma\<close> and \<open>insert_vma_struct\<close> do to it.
\<close>

abbreviation vstart :: "vmm \<Rightarrow> nat \<Rightarrow> 64 word" where
  "vstart s v \<equiv> vma_start (vm_vmas s v)"

abbreviation vend :: "vmm \<Rightarrow> nat \<Rightarrow> 64 word" where
  "vend s v \<equiv> vma_end (vm_vmas s v)"

definition mm_list :: "vmm \<Rightarrow> nat \<Rightarrow> nat list \<Rightarrow> bool" where
  "mm_list s m vs \<longleftrightarrow> clist (vm_links s) (MmapList m) (map VmaLink vs)"

definition areas_ok :: "vmm \<Rightarrow> nat list \<Rightarrow> bool" where
  "areas_ok s vs \<longleftrightarrow> sorted_wrt (\<lambda>a b. vend s a \<le> vstart s b) vs \<and> (\<forall>v\<in>set vs. vstart s v < vend s v)"

definition mm_inv :: "vmm \<Rightarrow> nat \<Rightarrow> nat list \<Rightarrow> bool" where
  "mm_inv s m vs \<longleftrightarrow> mm_list s m vs \<and> areas_ok s vs \<and> (\<forall>v\<in>set vs. vma_mm (vm_vmas s v) = Some m)
     \<and> mm_map_count (vm_mms s m) = int (length vs) \<and> (\<forall>v. mm_cache (vm_mms s m) = Some v \<longrightarrow> v \<in> set vs)"

lemma mm_list_distinct: "mm_list s m vs \<Longrightarrow> distinct vs"
  unfolding mm_list_def by (auto dest!: clist_distinct simp: distinct_map)

lemma areas_disjoint:
  assumes ok: "areas_ok s vs" and v: "v \<in> set vs" "w \<in> set vs" and a: "vma_has s v a" "vma_has s w a"
  shows "v = w"
proof (rule ccontr)
  assume "v \<noteq> w"
  obtain i j where i: "i < length vs" "vs ! i = v" and j: "j < length vs" "vs ! j = w"
    using v by (auto simp: in_set_conv_nth)
  have "vend s v \<le> vstart s w \<or> vend s w \<le> vstart s v"
    using ok i j \<open>v \<noteq> w\<close> unfolding areas_ok_def sorted_wrt_iff_nth_less by (metis linorder_neqE_nat)
  then show False using a by (auto simp: vma_has_def)
qed

section \<open>Finding an area\<close>

lemma find_vma_loop_find:
  "fseg (vm_links s) le (map VmaLink vs) (MmapList m) \<Longrightarrow>
   find_vma_loop m le addr s = Some (List.find (\<lambda>v. vma_has s v addr) vs)"
proof (induction vs arbitrary: le)
  case Nil
  then show ?case by (subst find_vma_loop.simps) (simp add: list_next_def)
next
  case (Cons v vs)
  then show ?case by (subst find_vma_loop.simps) (auto simp: list_next_def)
qed

definition area_at :: "vmm \<Rightarrow> nat list \<Rightarrow> 64 word \<Rightarrow> nat option" where
  "area_at s vs addr = List.find (\<lambda>v. vma_has s v addr) vs"

lemma find_member: "List.find P xs = Some x \<Longrightarrow> x \<in> set xs \<and> P x"
  by (induction xs) (auto split: if_splits)

lemma area_at_Some:
  assumes "areas_ok s vs"
  shows "area_at s vs addr = Some v \<longleftrightarrow> v \<in> set vs \<and> vma_has s v addr"
proof
  assume "v \<in> set vs \<and> vma_has s v addr"
  moreover from this obtain w where "area_at s vs addr = Some w"
    by (cases "area_at s vs addr") (auto simp: area_at_def find_None_iff)
  ultimately show "area_at s vs addr = Some v"
    using areas_disjoint [OF assms] find_member [of _ vs w] unfolding area_at_def by blast
qed (use find_member [of _ vs v] in \<open>auto simp: area_at_def\<close>)

lemma area_at_None: "area_at s vs addr = None \<longleftrightarrow> (\<forall>v\<in>set vs. \<not> vma_has s v addr)"
  by (auto simp: area_at_def find_None_iff)

lemma upd_mm_simps [simp]:
  "vm_links (upd_mm m f s) = vm_links s" "vm_vmas (upd_mm m f s) = vm_vmas s" "vm_mem (upd_mm m f s) = vm_mem s"
  "vm_kern (upd_mm m f s) = vm_kern s" "vm_pool (upd_mm m f s) = vm_pool s"
  "vm_mms (upd_mm m f s) = (vm_mms s)(m := f (vm_mms s m))"
  by (simp_all add: upd_mm_def)

lemma vma_has_upd_mm [simp]: "vma_has (upd_mm m f s) v a = vma_has s v a"
  by (simp add: vma_has_def)

lemma mm_inv_cache:
  assumes "mm_inv s m' vs" and "m' = m \<longrightarrow> v \<in> set vs"
  shows "mm_inv (upd_mm m (\<lambda>x. x\<lparr>mm_cache := Some v\<rparr>) s) m' vs"
  using assms by (auto simp: mm_inv_def mm_list_def areas_ok_def)

lemma mm_inv_fseg: "mm_inv s m vs \<Longrightarrow> fseg (vm_links s) (MmapList m) (map VmaLink vs) (MmapList m)"
  by (simp add: mm_inv_def mm_list_def clist_fseg)

lemma find_vma_ok:
  assumes inv: "mm_inv s m vs"
  shows "find_vma (Some m) addr s = Some (area_at s vs addr,
     case area_at s vs addr of Some v \<Rightarrow> upd_mm m (\<lambda>x. x\<lparr>mm_cache := Some v\<rparr>) s | None \<Rightarrow> s)"
proof -
  have ok: "areas_ok s vs" and c: "\<And>v. mm_cache (vm_mms s m) = Some v \<Longrightarrow> v \<in> set vs" using inv by (auto simp: mm_inv_def)
  have l: "find_vma_loop m (MmapList m) addr s = Some (area_at s vs addr)"
    using find_vma_loop_find [OF mm_inv_fseg [OF inv]] by (simp add: area_at_def)
  show ?thesis
  proof (cases "mm_cache (vm_mms s m)")
    case None
    then show ?thesis by (simp add: find_vma_def l)
  next
    case (Some v)
    show ?thesis
    proof (cases "vma_has s v addr")
      case True
      then have "area_at s vs addr = Some v" using area_at_Some [OF ok] c [OF Some] by simp
      then show ?thesis using Some True by (simp add: find_vma_def)
    next
      case False
      then show ?thesis using Some by (simp add: find_vma_def l)
    qed
  qed
qed

lemma find_vma_inv:
  assumes "mm_inv s m vs"
  shows "\<exists>t. find_vma (Some m) addr s = Some (area_at s vs addr, t) \<and> mm_inv t m vs
     \<and> (\<forall>m' vs'. m' \<noteq> m \<longrightarrow> mm_inv s m' vs' \<longrightarrow> mm_inv t m' vs') \<and> vm_vmas t = vm_vmas s \<and> vm_links t = vm_links s
     \<and> vm_mem t = vm_mem s \<and> vm_pool t = vm_pool s \<and> vm_kern t = vm_kern s
     \<and> (\<forall>k. mm_pgdir (vm_mms t k) = mm_pgdir (vm_mms s k))"
proof -
  have ok: "areas_ok s vs" using assms by (simp add: mm_inv_def)
  show ?thesis
  proof (cases "area_at s vs addr")
    case None
    then show ?thesis using assms by (simp add: find_vma_ok [OF assms])
  next
    case (Some v)
    then have "v \<in> set vs" using area_at_Some [OF ok] by simp
    then show ?thesis
      using Some assms mm_inv_cache [of s m vs m v] mm_inv_cache [of s _ _ m v] by (simp add: find_vma_ok [OF assms])
  qed
qed

section \<open>Inserting an area\<close>

lemma insert_vma_loop_ok:
  "fseg (vm_links s) le (map VmaLink vs) (MmapList m) \<Longrightarrow>
   insert_vma_loop m le vma s = Some (last (le # map VmaLink (takeWhile (\<lambda>v. vstart s v \<le> vstart s vma) vs)))"
proof (induction vs arbitrary: le)
  case Nil
  then show ?case by (subst insert_vma_loop.simps) (simp add: list_next_def)
next
  case (Cons v vs)
  then show ?case by (subst insert_vma_loop.simps) (auto simp: list_next_def not_less)
qed

definition no_overlap :: "vmm \<Rightarrow> nat list \<Rightarrow> nat \<Rightarrow> bool" where
  "no_overlap s vs v \<longleftrightarrow> vstart s v < vend s v \<and> (\<forall>w\<in>set vs. vend s w \<le> vstart s v \<or> vend s v \<le> vstart s w)"

lemma no_overlap_split:
  assumes ok: "areas_ok s vs" and xs: "xs = takeWhile (\<lambda>w. vstart s w \<le> vstart s v) vs" and ys: "ys = dropWhile (\<lambda>w. vstart s w \<le> vstart s v) vs"
    and v: "vstart s v < vend s v"
  shows "no_overlap s vs v \<longleftrightarrow> (xs \<noteq> [] \<longrightarrow> vend s (last xs) \<le> vstart s v) \<and> (ys \<noteq> [] \<longrightarrow> vend s v \<le> vstart s (hd ys))"
    and "no_overlap s vs v \<Longrightarrow> areas_ok s (xs @ v # ys)"
proof -
  have vs: "vs = xs @ ys" by (simp add: xs ys)
  have lo: "vstart s w \<le> vstart s v" if "w \<in> set xs" for w using that set_takeWhileD [of w _ vs] by (auto simp: xs)
  have pos: "\<forall>w\<in>set vs. vstart s w < vend s w" and srt: "sorted_wrt (\<lambda>a b. vend s a \<le> vstart s b) (xs @ ys)"
    using ok vs by (auto simp: areas_ok_def)
  have hd: "vstart s v < vstart s (hd ys)" if "ys \<noteq> []" using that hd_dropWhile [of "\<lambda>w. vstart s w \<le> vstart s v" vs] by (auto simp: ys not_le dropWhile_eq_Nil_conv)
  have tl: "vstart s (hd ys) \<le> vstart s w" if "w \<in> set ys" for w
    using that srt pos vs by (cases ys) (auto simp: sorted_wrt_append intro: order_trans less_imp_le)
  have lst: "vend s w \<le> vend s (last xs)" if "w \<in> set xs" for w
  proof -
    have "xs \<noteq> []" using that by auto
    then obtain zs z where z: "xs = zs @ [z]" by (cases xs rule: rev_cases) auto
    have "z \<in> set vs" using vs z by simp
    then have "vstart s z < vend s z" using pos by blast
    then show ?thesis using that srt z by (auto simp: sorted_wrt_append intro: order_trans less_imp_le)
  qed
  have A: "(\<forall>w\<in>set xs. vend s w \<le> vstart s v) \<and> (\<forall>w\<in>set ys. vend s v \<le> vstart s w)" if "no_overlap s vs v"
  proof (intro conjI ballI)
    fix w assume w: "w \<in> set xs"
    then show "vend s w \<le> vstart s v" using that lo [OF w] v vs by (fastforce simp: no_overlap_def)
  next
    fix w assume w: "w \<in> set ys"
    then have "ys \<noteq> []" by auto
    then have "vstart s v < vstart s w" using hd tl [OF w] by simp
    moreover have "vstart s w < vend s w" using pos vs w by simp
    moreover have "vend s w \<le> vstart s v \<or> vend s v \<le> vstart s w" using that w vs by (simp add: no_overlap_def)
    ultimately show "vend s v \<le> vstart s w" by auto
  qed
  show "no_overlap s vs v \<longleftrightarrow> (xs \<noteq> [] \<longrightarrow> vend s (last xs) \<le> vstart s v) \<and> (ys \<noteq> [] \<longrightarrow> vend s v \<le> vstart s (hd ys))" (is "?l = ?r")
  proof
    assume ?r
    then have "vend s w \<le> vstart s v" if "w \<in> set xs" for w using lst [OF that] that by (cases xs) auto
    moreover have "vend s v \<le> vstart s w" if "w \<in> set ys" for w using tl [OF that] that \<open>?r\<close> by (cases ys) auto
    ultimately show ?l using v vs by (auto simp: no_overlap_def)
  qed (use A in auto)
  show "areas_ok s (xs @ v # ys)" if "no_overlap s vs v"
    using A [OF that] srt pos v vs by (auto simp: areas_ok_def sorted_wrt_append)
qed


lemma mm_inv_apart: "mm_inv s m vs \<Longrightarrow> mm_inv s m' vs' \<Longrightarrow> m' \<noteq> m \<Longrightarrow> set vs \<inter> set vs' = {}"
  by (auto simp: mm_inv_def)

lemma upd_vma_simps [simp]:
  "vm_links (upd_vma v f s) = vm_links s" "vm_mms (upd_vma v f s) = vm_mms s" "vm_mem (upd_vma v f s) = vm_mem s"
  "vm_kern (upd_vma v f s) = vm_kern s" "vm_pool (upd_vma v f s) = vm_pool s"
  "vm_vmas (upd_vma v f s) = (vm_vmas s)(v := f (vm_vmas s v))"
  "vm_links (upd_vlinks g s) = g (vm_links s)" "vm_mms (upd_vlinks g s) = vm_mms s" "vm_mem (upd_vlinks g s) = vm_mem s"
  "vm_kern (upd_vlinks g s) = vm_kern s" "vm_pool (upd_vlinks g s) = vm_pool s" "vm_vmas (upd_vlinks g s) = vm_vmas s"
  by (simp_all add: upd_vma_def upd_vlinks_def)

text \<open>The state after a successful insertion of \<open>v\<close> behind the areas \<open>xs\<close>.\<close>

definition inserted :: "nat \<Rightarrow> nat list \<Rightarrow> nat \<Rightarrow> vmm \<Rightarrow> vmm" where
  "inserted m xs v s =
     upd_mm m (\<lambda>x. x\<lparr>mm_map_count := mm_map_count x + 1\<rparr>)
       (upd_vlinks (list_add_after (last (MmapList m # map VmaLink xs)) (VmaLink v))
         (upd_vma v (\<lambda>x. x\<lparr>vma_mm := Some m\<rparr>) s))"

lemma inserted_same [simp]:
  "vm_mem (inserted m xs v s) = vm_mem s" "vm_pool (inserted m xs v s) = vm_pool s" "vm_kern (inserted m xs v s) = vm_kern s"
  "vstart (inserted m xs v s) w = vstart s w" "vend (inserted m xs v s) w = vend s w"
  "vma_flags (vm_vmas (inserted m xs v s) w) = vma_flags (vm_vmas s w)"
  "mm_pgdir (vm_mms (inserted m xs v s) k) = mm_pgdir (vm_mms s k)"
  by (auto simp: inserted_def)

lemma inserted_inv:
  assumes inv: "mm_inv s m (xs @ ys)" and v: "v \<notin> set (xs @ ys)" and ok: "areas_ok s (xs @ v # ys)"
  shows "mm_inv (inserted m xs v s) m (xs @ v # ys)"
    and "m' \<noteq> m \<Longrightarrow> v \<notin> set vs' \<Longrightarrow> mm_inv s m' vs' \<Longrightarrow> mm_inv (inserted m xs v s) m' vs'"
proof -
  let ?le = "last (MmapList m # map VmaLink xs)"
  have c: "clist (vm_links s) (MmapList m) (map VmaLink xs @ map VmaLink ys)" using inv by (simp add: mm_inv_def mm_list_def)
  have nv: "VmaLink v \<notin> set (MmapList m # map VmaLink xs @ map VmaLink ys)" using v by auto
  have "clist (list_add_after ?le (VmaLink v) (vm_links s)) (MmapList m) (map VmaLink xs @ VmaLink v # map VmaLink ys)"
    by (rule clist_list_add_after [OF c nv refl])
  then have "mm_list (inserted m xs v s) m (xs @ v # ys)" by (simp add: mm_list_def inserted_def)
  moreover have "areas_ok (inserted m xs v s) (xs @ v # ys)" using ok by (simp add: areas_ok_def)
  ultimately show "mm_inv (inserted m xs v s) m (xs @ v # ys)"
    using inv v by (auto simp: mm_inv_def inserted_def)
  assume o: "m' \<noteq> m" "v \<notin> set vs'" "mm_inv s m' vs'"
  have c': "clist (vm_links s) (MmapList m') (map VmaLink vs')" using o(3) by (simp add: mm_inv_def mm_list_def)
  have ap: "set (xs @ ys) \<inter> set vs' = {}" by (rule mm_inv_apart [OF inv o(3,1)])
  have le: "?le \<notin> set (MmapList m' # map VmaLink vs')"
    using ap o(1) by (cases xs rule: rev_cases) auto
  have "lnext (vm_links s) ?le = hd (map VmaLink ys @ [MmapList m])"
    using c clist_head_next [of "vm_links s" "MmapList m" "map VmaLink ys"] clist_mid_next [of "vm_links s" "MmapList m" _ _ "map VmaLink ys"]
    by (cases xs rule: rev_cases) auto
  then have nx: "lnext (vm_links s) ?le \<notin> set (MmapList m' # map VmaLink vs')" using ap o(1) by (cases ys) auto
  have "clist (list_add_after ?le (VmaLink v) (vm_links s)) (MmapList m') (map VmaLink vs')"
    unfolding list_add_after_def by (rule clist_add_frame [OF c' _ le nx]) (use o(2) in auto)
  then have "mm_list (inserted m xs v s) m' vs'" by (simp add: mm_list_def inserted_def)
  moreover have "areas_ok (inserted m xs v s) vs'" using o(3) by (simp add: mm_inv_def areas_ok_def)
  ultimately show "mm_inv (inserted m xs v s) m' vs'"
    using o by (auto simp: mm_inv_def inserted_def)
qed

lemma insert_vma_struct_ok:
  assumes inv: "mm_inv s m vs" and v: "v \<notin> set vs" and xs: "xs = takeWhile (\<lambda>w. vstart s w \<le> vstart s v) vs"
  shows "insert_vma_struct m v s = (if no_overlap s vs v then Some (inserted m xs v s) else None)"
proof (cases "vstart s v < vend s v")
  case False
  then show ?thesis by (simp add: insert_vma_struct_def no_overlap_def)
next
  case True
  define ys where "ys = dropWhile (\<lambda>w. vstart s w \<le> vstart s v) vs"
  have ok: "areas_ok s vs" and c: "clist (vm_links s) (MmapList m) (map VmaLink xs @ map VmaLink ys)"
    using inv by (auto simp: mm_inv_def mm_list_def xs ys_def simp flip: map_append)
  have l: "insert_vma_loop m (MmapList m) v s = Some (last (MmapList m # map VmaLink xs))"
    using insert_vma_loop_ok [OF mm_inv_fseg [OF inv]] by (simp add: xs)
  have nx: "list_next (last (MmapList m # map VmaLink xs)) (vm_links s) = hd (map VmaLink ys @ [MmapList m])"
    using c clist_head_next [of "vm_links s" "MmapList m" "map VmaLink ys"] clist_mid_next [of "vm_links s" "MmapList m" _ _ "map VmaLink ys"]
    by (cases xs rule: rev_cases) (auto simp: list_next_def)
  have pos: "\<forall>w\<in>set xs \<union> set ys. vstart s w < vend s w"
    using ok set_takeWhileD [of _ _ vs] set_dropWhileD [of _ _ vs] unfolding areas_ok_def xs ys_def by blast
  have 1: "(if last (MmapList m # map VmaLink xs) \<noteq> MmapList m
       then Option.bind (le2vma (last (MmapList m # map VmaLink xs))) (\<lambda>w. check_vma_overlap w v s) else Some ())
     = (if xs \<noteq> [] \<longrightarrow> vend s (last xs) \<le> vstart s v then Some () else None)"
    using True pos by (cases xs rule: rev_cases) (auto simp: check_vma_overlap_def bind_kassert_if kassert_def)
  have 2: "(if hd (map VmaLink ys @ [MmapList m]) \<noteq> MmapList m
       then Option.bind (le2vma (hd (map VmaLink ys @ [MmapList m]))) (\<lambda>w. check_vma_overlap v w s) else Some ())
     = (if ys \<noteq> [] \<longrightarrow> vend s v \<le> vstart s (hd ys) then Some () else None)"
    using True pos by (cases ys) (auto simp: check_vma_overlap_def bind_kassert_if kassert_def)
  show ?thesis
    unfolding insert_vma_struct_def l Option.bind.simps Let_def nx 1 2 no_overlap_split(1) [OF ok xs ys_def True]
    using True by (auto simp: inserted_def)
qed

end
