(* ===== verification/Paging_Inv.thy ===== *)
theory Paging_Inv
  imports Paging_Model
begin

text \<open>
  The invariant of the page tables: which frame holds which table (\<open>roles\<close>), every valid entry of the
  user part leads to the right table or to an allocated page, and the reference counter of a page is the
  number of user entries that map it.  The kernel part of a page directory, which \<open>setup_pgdir\<close> copies
  from \<open>boot_pgdir_va\<close>, and the kernel's own tables, which map all of physical memory, are arbitrary.
  Adding a table on demand keeps the invariant.
\<close>

lemma bits_small: "take_bit k w = w \<Longrightarrow> bit w n \<Longrightarrow> n < k" for w :: "64 word"
  by (metis bit_take_bit_iff)

lemma of_nat_small: "x < 2 ^ k \<Longrightarrow> bit (of_nat x :: 64 word) n \<Longrightarrow> n < k"
  by (rule bits_small [of k "of_nat x"]) (simp_all add: take_bit_of_nat take_bit_nat_eq_self)

lemma PTE_ADDR_create:
  assumes "ppn < 2 ^ 44" and "take_bit 10 ty = ty"
  shows "PTE_ADDR (pte_create ppn ty) = push_bit 12 (of_nat ppn)"
proof (rule bit_word_eqI)
  fix n assume "n < LENGTH(64)"
  have k: "(0x3FF :: 64 word) = mask 10" by (simp add: mask_eq_exp_minus_1)
  have v: "bit PTE_V m \<longleftrightarrow> m = 0" for m by (auto simp: PTE_V_def bit_simps)
  show "bit (PTE_ADDR (pte_create ppn ty)) n = bit (push_bit 12 (of_nat ppn) :: 64 word) n"
    using \<open>n < LENGTH(64)\<close> bits_small [OF assms(2), of "n - 2"]
    unfolding PTE_ADDR_def pte_create_def PTXSHIFT_def PTE_PPN_SHIFT_def k
    by (auto simp: bit_push_bit_iff bit_and_iff bit_or_iff bit_not_iff bit_mask_iff v
        possible_bit_word diff_diff_add add.commute intro: arg_cong)
qed

lemma PPN_push:
  assumes "ppn < 2 ^ 44"
  shows "PPN (push_bit 12 (of_nat ppn)) = ppn"
proof -
  have "drop_bit 12 (push_bit 12 (of_nat ppn)) = (of_nat ppn :: 64 word)"
  proof (rule bit_word_eqI)
    fix n assume "n < LENGTH(64)"
    then show "bit (drop_bit 12 (push_bit 12 (of_nat ppn)) :: 64 word) n = bit (of_nat ppn :: 64 word) n"
      using of_nat_small [OF assms, of n] by (auto simp: bit_drop_bit_eq bit_push_bit_iff possible_bit_word)
  qed
  then show ?thesis using assms by (simp add: PPN_def PTXSHIFT_def unat_of_nat)
qed

lemma pte_create_valid: "pte_create ppn ty AND PTE_V \<noteq> 0"
proof -
  have "bit (pte_create ppn ty AND PTE_V) 0"
    by (simp add: pte_create_def PTE_V_def bit_simps)
  then show ?thesis by (metis bit_0_eq bot_apply bot_bool_def)
qed

section \<open>Well-formed page tables\<close>

text \<open>\<open>Kern\<close> is a frame that the kernel keeps for itself, as the tables of \<open>switch_kernel_memorylayout\<close>.\<close>

datatype role = Root | Dir nat | Tab nat nat | Kern

fun child :: "role \<Rightarrow> nat \<Rightarrow> role" where
  "child Root i = Dir i"
| "child (Dir d) i = Tab d i"
| "child _ k = Kern"

text \<open>The entries of a directory for the addresses below \<open>USERTOP\<close>, and the entries that the invariant is about.\<close>

definition user_pdx :: "nat \<Rightarrow> bool" where
  "user_pdx k \<longleftrightarrow> k < PDX1 USERTOP"

fun walked :: "role \<Rightarrow> nat \<Rightarrow> bool" where
  "walked Root k = user_pdx k"
| "walked Kern k = False"
| "walked _ k = True"

definition valid :: "64 word \<Rightarrow> bool" where
  "valid e \<longleftrightarrow> e AND PTE_V \<noteq> 0"

definition table_of :: "pmem \<Rightarrow> nat \<Rightarrow> nat \<Rightarrow> nat option" where
  "table_of s f i = (if valid (pm_frame s f i) then KADDR s (PTE_ADDR (pm_frame s f i)) else None)"

definition leaf :: "pmem \<Rightarrow> nat \<Rightarrow> 64 word \<Rightarrow> (nat \<times> nat) option" where
  "leaf s pgdir la = do {
     kassert (user_pdx (PDX1 la));
     d \<leftarrow> table_of s pgdir (PDX1 la);
     t \<leftarrow> table_of s d (PDX0 la);
     Some (t, PTX la)
   }"

text \<open>The entry that maps the user address \<open>la\<close>, 0 when there is none.\<close>

definition pte_at :: "pmem \<Rightarrow> nat \<Rightarrow> 64 word \<Rightarrow> 64 word" where
  "pte_at s pgdir la = (case leaf s pgdir la of Some p \<Rightarrow> read_pte s p | None \<Rightarrow> 0)"

type_synonym roles = "nat \<Rightarrow> (nat \<times> role) option"

definition maps :: "pmem \<Rightarrow> roles \<Rightarrow> nat \<Rightarrow> (nat \<times> nat) set" where
  "maps s L g = {(f, k). (\<exists>r i j. L f = Some (r, Tab i j)) \<and> k < 512 \<and> table_of s f k = Some g}"

text \<open>\<open>L\<close> gives every frame that holds a table the page directory it belongs to and its place there.\<close>

definition tables_ok :: "pmem \<Rightarrow> roles \<Rightarrow> bool" where
  "tables_ok s L \<longleftrightarrow>
     (\<forall>f r ro k. L f = Some (r, ro) \<longrightarrow> k < 512 \<longrightarrow> walked ro k \<longrightarrow> valid (pm_frame s f k) \<longrightarrow>
        (\<exists>g. table_of s f k = Some g \<and>
           (case ro of Tab i j \<Rightarrow> L g = None \<and> g \<notin> free_set (pm_pmm s) \<and> \<not> PageReserved (pm_pmm s) g
            | _ \<Rightarrow> L g = Some (r, child ro k))))"

definition frames_ok :: "pmem \<Rightarrow> roles \<Rightarrow> bool" where
  "frames_ok s L \<longleftrightarrow> (\<exists>bs. fl_inv (pm_pmm s) bs) \<and> pm_npage s < 2 ^ 32
     \<and> (\<forall>f\<in>free_set (pm_pmm s). f + nbase < pm_npage s) \<and> (\<forall>f r. L f = Some (r, Root) \<longrightarrow> r = f)
     \<and> (\<forall>f x. L f = Some x \<longrightarrow> f + nbase < pm_npage s \<and> f \<notin> free_set (pm_pmm s)
          \<and> \<not> PageReserved (pm_pmm s) f)"

definition pt_inv :: "pmem \<Rightarrow> roles \<Rightarrow> bool" where
  "pt_inv s L \<longleftrightarrow> frames_ok s L \<and> tables_ok s L
     \<and> (\<forall>g. L g = None \<longrightarrow> page_ref (pm_pmm s) g = int (card (maps s L g)))"

lemma valid_simps [simp]: "\<not> valid 0" "valid (pte_create p ty)"
  by (simp_all add: valid_def pte_create_valid)

lemma KADDR_create:
  assumes "p + nbase < pm_npage s" and "pm_npage s < 2 ^ 32" and "take_bit 10 ty = ty"
  shows "KADDR s (PTE_ADDR (pte_create (page2ppn p) ty)) = Some p"
    and "KADDR s (page2pa p) = Some p"
proof -
  have l: "p + nbase < 2 ^ 44" using assms(1,2) by simp
  show "KADDR s (PTE_ADDR (pte_create (page2ppn p) ty)) = Some p"
    using assms(1) PPN_push [OF l] PTE_ADDR_create [OF l assms(3)] by (simp add: KADDR_def page2ppn_def)
  show "KADDR s (page2pa p) = Some p"
    using assms(1) PPN_push [OF l] by (simp add: KADDR_def page2ppn_def page2pa_def PGSHIFT_def)
qed

lemma KADDR_cong: "pm_npage t = pm_npage s \<Longrightarrow> KADDR t = KADDR s"
  by (simp add: KADDR_def fun_eq_iff)

lemma pa2page_KADDR: "pa2page s pa = KADDR s pa"
  by (simp add: pa2page_def KADDR_def)

lemma KADDR_range: "KADDR s pa = Some g \<Longrightarrow> g + nbase < pm_npage s"
  by (auto simp: KADDR_def bind_kassert_if split: if_splits)

lemma table_of_range: "table_of s f k = Some g \<Longrightarrow> g + nbase < pm_npage s"
  by (auto simp: table_of_def KADDR_range split: if_splits)

lemma index_less [simp]: "PDX1 la < 512" "PDX0 la < 512" "PTX la < 512"
proof -
  have "unat (w AND 0x1FF) < 512" for w :: "64 word"
  proof -
    have "w AND 0x1FF = take_bit 9 w" by (simp add: take_bit_eq_mask mask_eq_exp_minus_1)
    then show ?thesis using take_bit_nat_less_exp [of 9 "unat w"] by (simp add: unsigned_take_bit_eq)
  qed
  then show "PDX1 la < 512" "PDX0 la < 512" "PTX la < 512" by (simp_all add: PDX1_def PDX0_def PTX_def)
qed

section \<open>Allocating and freeing one frame\<close>

lemma cut_block_rest [simp]:
  "page_ref (cut_block n p s) q = page_ref s q" "PageReserved (cut_block n p s) q = PageReserved s q"
  by (simp_all add: cut_block_def Let_def)

lemma insert_loop_pages: "insert_loop b le s = Some t \<Longrightarrow> pages t = pages s"
  by (erule insert_loop.raw_induct [where P = "\<lambda>b le s t. pages t = pages s", rotated])
    (auto simp: Let_def split: if_splits)

lemma link_block_rest:
  assumes "link_block b s = Some t"
  shows "page_ref t q = page_ref s q" "PageReserved t q = PageReserved s q"
proof -
  have "pages t = pages s"
    using assms insert_loop_pages [of b FreeList s t] by (auto simp: link_block_def split: if_splits)
  then show "page_ref t q = page_ref s q" "PageReserved t q = PageReserved s q"
    by (simp_all add: page_ref_def PageReserved_def)
qed

lemma default_free_ref:
  assumes "default_free_pages b n s = Some t"
  shows "page_ref t q = (if q \<in> {b..<b + n} then 0 else page_ref s q)" "PageReserved t q = PageReserved s q"
proof -
  obtain s1 s3 where s1: "reset_pages b n s = Some s1"
    and s3: "link_block b ((SetPageProperty b (set_property b n s1))\<lparr>nr_free := u32 (nr_free s1 + n)\<rparr>) = Some s3"
    and t: "t = coalesce_next (fst (coalesce_prev b s3)) (snd (coalesce_prev b s3))"
    using assms by (auto simp: default_free_pages_def Let_def Option.bind_eq_Some_conv case_prod_unfold)
  have "\<forall>p\<in>{b..<b + n}. \<not> PageReserved s p \<and> \<not> PageProperty s p"
    using reset_pages_panics [of _ b n s] s1 by fastforce
  from reset_pages_ok [OF this] s1 have r: "same_view s1 s"
    "\<forall>p. page_ref s1 p = (if p \<in> {b..<b + n} then 0 else page_ref s p)" by auto
  have c: "page_ref (snd (coalesce_prev b u)) q = page_ref u q" "page_ref (coalesce_next b' u) q = page_ref u q"
    "PageReserved (snd (coalesce_prev b u)) q = PageReserved u q" "PageReserved (coalesce_next b' u) q = PageReserved u q"
    for b' u by (simp_all add: coalesce_prev_def coalesce_next_def Let_def)
  show "page_ref t q = (if q \<in> {b..<b + n} then 0 else page_ref s q)" "PageReserved t q = PageReserved s q"
    using r by (simp_all add: t c link_block_rest [OF s3] same_view_def)
qed

definition same_but_pmm :: "pmem \<Rightarrow> pmem \<Rightarrow> bool" where
  "same_but_pmm s t \<longleftrightarrow> pm_npage t = pm_npage s \<and> pm_frame t = pm_frame s"

lemma table_of_cong: "pm_npage t = pm_npage s \<Longrightarrow> pm_frame t f k = pm_frame s f k \<Longrightarrow> table_of t f k = table_of s f k"
  by (simp add: table_of_def KADDR_def)

lemma alloc_page_ok:
  assumes "pt_inv s L"
  shows "(free_set (pm_pmm s) = {} \<and> alloc_page s = Some (None, s))
     \<or> (\<exists>t p. alloc_page s = Some (Some t, s\<lparr>pm_pmm := p\<rparr>) \<and> t \<in> free_set (pm_pmm s) \<and> (\<exists>bs. fl_inv p bs)
          \<and> free_set p = free_set (pm_pmm s) - {t} \<and> page_ref p = page_ref (pm_pmm s)
          \<and> PageReserved p = PageReserved (pm_pmm s))"
proof -
  obtain bs where inv: "fl_inv (pm_pmm s) bs" using assms by (auto simp: pt_inv_def frames_ok_def)
  show ?thesis
  proof (cases "List.find (\<lambda>b. 1 \<le> property (pm_pmm s) b) bs")
    case None
    have "alloc_page s = Some (None, s)" and a: "\<forall>b\<in>set bs. property (pm_pmm s) b < 1"
      using default_alloc_none [OF inv _ None] by (simp_all add: alloc_page_def alloc_pages_def)
    moreover have "free_set (pm_pmm s) = {}"
      using a unfolding fl_inv_free_set [OF inv] bset_def by force
    ultimately show ?thesis by simp
  next
    case (Some t)
    from default_alloc_some [OF inv _ Some] show ?thesis
      by (intro disjI2 exI [of _ t] exI [of _ "cut_block 1 t (pm_pmm s)"])
        (auto simp: alloc_page_def alloc_pages_def fun_eq_iff)
  qed
qed

section \<open>A new table\<close>

abbreviation frees :: "pmem \<Rightarrow> nat set" where
  "frees s \<equiv> free_set (pm_pmm s)"

abbreviation refs :: "pmem \<Rightarrow> nat \<Rightarrow> int" where
  "refs s \<equiv> page_ref (pm_pmm s)"

abbreviation reserved :: "pmem \<Rightarrow> nat \<Rightarrow> bool" where
  "reserved s \<equiv> PageReserved (pm_pmm s)"

lemma pt_invD:
  assumes "pt_inv s L"
  shows "\<exists>bs. fl_inv (pm_pmm s) bs" "pm_npage s < 2 ^ 32" "f \<in> frees s \<Longrightarrow> f + nbase < pm_npage s"
    "L f = Some x \<Longrightarrow> f + nbase < pm_npage s" "L f = Some x \<Longrightarrow> f \<notin> frees s" "L f = Some x \<Longrightarrow> \<not> reserved s f"
    "L f = None \<Longrightarrow> refs s f = int (card (maps s L f))" "f \<in> frees s \<Longrightarrow> L f = None"
    "L f = Some (r, Root) \<Longrightarrow> r = f"
proof -
  show n: "L f = Some x \<Longrightarrow> f \<notin> frees s" for x using assms by (auto simp: pt_inv_def frames_ok_def)
  show "f \<in> frees s \<Longrightarrow> L f = None" using n by (cases "L f") auto
qed (use assms in \<open>auto simp: pt_inv_def frames_ok_def\<close>)

lemma pt_inv_free_card: assumes "pt_inv s L" shows "finite (frees s)" "nr_free (pm_pmm s) = card (frees s)"
  using pt_invD(1) [OF assms] by (auto simp: fl_inv_finite fl_inv_card)

lemma table_of_valid: "table_of s f k = Some g \<Longrightarrow> valid (pm_frame s f k)"
  by (simp add: table_of_def split: if_splits)

lemma table_entry:
  assumes "pt_inv s L" and "L f = Some (r, ro)" and "k < 512" and "walked ro k" and "table_of s f k = Some g"
  shows "case ro of Tab i j \<Rightarrow> L g = None \<and> g \<notin> frees s \<and> \<not> reserved s g | _ \<Rightarrow> L g = Some (r, child ro k)"
proof -
  have "valid (pm_frame s f k)" by (rule table_of_valid [OF assms(5)])
  then show ?thesis using assms by (fastforce simp: pt_inv_def tables_ok_def)
qed

lemma table_none:
  assumes "pt_inv s L" and "L f = Some (r, ro)" and "k < 512" and "walked ro k" and "table_of s f k = None"
  shows "\<not> valid (pm_frame s f k)"
  using assms by (fastforce simp: pt_inv_def tables_ok_def)

definition new_table :: "pmem \<Rightarrow> nat \<Rightarrow> nat \<Rightarrow> nat \<Rightarrow> pmem \<Rightarrow> bool" where
  "new_table s f i t u \<longleftrightarrow> t \<in> frees s \<and> (\<exists>bs. fl_inv (pm_pmm u) bs) \<and> frees u = frees s - {t}
     \<and> pm_npage u = pm_npage s \<and> reserved u = reserved s
     \<and> (\<forall>g. g \<noteq> t \<longrightarrow> refs u g = refs s g)
     \<and> pm_frame u = (pm_frame s)(t := (\<lambda>_. 0), f := (pm_frame s f)(i := pte_create (page2ppn t) (PTE_U OR PTE_V)))"

text \<open>The kernel's entries are as before.\<close>

definition kernel_kept :: "pmem \<Rightarrow> roles \<Rightarrow> pmem \<Rightarrow> bool" where
  "kernel_kept s L u \<longleftrightarrow>
     (\<forall>f r ro k. L f = Some (r, ro) \<longrightarrow> \<not> walked ro k \<longrightarrow> pm_frame u f k = pm_frame s f k)"

text \<open>\<open>u\<close> extends \<open>s\<close> by tables: some free frames became tables, nothing that is mapped changed.\<close>

definition pt_ext :: "pmem \<Rightarrow> roles \<Rightarrow> pmem \<Rightarrow> roles \<Rightarrow> bool" where
  "pt_ext s L u L' \<longleftrightarrow> L \<subseteq>\<^sub>m L' \<and> pm_npage u = pm_npage s \<and> frees u \<subseteq> frees s
     \<and> dom L' = dom L \<union> (frees s - frees u) \<and> reserved u = reserved s \<and> kernel_kept s L u
     \<and> (\<forall>g. L' g = None \<longrightarrow> refs u g = refs s g \<and> pm_frame u g = pm_frame s g)
     \<and> (\<forall>p r la. L p = Some (r, Root) \<longrightarrow> pte_at u p la = pte_at s p la
          \<and> (leaf s p la \<noteq> None \<longrightarrow> leaf u p la = leaf s p la))"

lemma kernel_kept_refl [simp]: "kernel_kept s L s"
  by (simp add: kernel_kept_def)

lemma kernel_keptD: "kernel_kept s L u \<Longrightarrow> L f = Some (r, ro) \<Longrightarrow> \<not> walked ro k \<Longrightarrow> pm_frame u f k = pm_frame s f k"
  by (auto simp: kernel_kept_def)

lemma kernel_kept_trans:
  assumes "kernel_kept s L t" and "kernel_kept t L' u" and "L \<subseteq>\<^sub>m L'" shows "kernel_kept s L u"
proof -
  have "L' f = Some x" if "L f = Some x" for f x using assms(3) that by (auto simp: map_le_def dom_def)
  then show ?thesis using assms(1,2) unfolding kernel_kept_def by metis
qed

lemma pt_ext_refl [simp, intro]: "pt_ext s L s L"
  by (simp add: pt_ext_def)

lemma pt_ext_None: "pt_ext s L u L' \<Longrightarrow> L' g = None \<Longrightarrow> L g = None"
  by (cases "L g") (auto simp: pt_ext_def map_le_def dom_def)

lemma pt_ext_Some: "pt_ext s L u L' \<Longrightarrow> L g = Some x \<Longrightarrow> L' g = Some x"
  by (auto simp: pt_ext_def map_le_def dom_def)

lemma pt_ext_trans:
  assumes a: "pt_ext s L t L'" and b: "pt_ext t L' u L''"
  shows "pt_ext s L u L''"
proof -
  have "L \<subseteq>\<^sub>m L''" using a b by (auto simp: pt_ext_def intro: map_le_trans)
  moreover have "dom L'' = dom L \<union> (frees s - frees u)" using a b by (auto simp: pt_ext_def)
  moreover have "refs u g = refs s g \<and> pm_frame u g = pm_frame s g" if "L'' g = None" for g
    using that pt_ext_None [OF b that] a b by (simp add: pt_ext_def)
  moreover have "pte_at u p la = pte_at s p la \<and> (leaf s p la \<noteq> None \<longrightarrow> leaf u p la = leaf s p la)"
    if "L p = Some (r, Root)" for p r la
  proof -
    have "L' p = Some (r, Root)" by (rule pt_ext_Some [OF a that])
    then have "pte_at u p la = pte_at t p la" "leaf t p la \<noteq> None \<Longrightarrow> leaf u p la = leaf t p la"
      using b by (auto simp: pt_ext_def)
    moreover have "pte_at t p la = pte_at s p la" "leaf s p la \<noteq> None \<Longrightarrow> leaf t p la = leaf s p la"
      using a that by (auto simp: pt_ext_def)
    ultimately show ?thesis by auto
  qed
  moreover have "kernel_kept s L u" using a b by (auto simp: pt_ext_def intro: kernel_kept_trans)
  ultimately show ?thesis using a b unfolding pt_ext_def by (intro conjI) auto
qed

lemma new_table_tables:
  assumes inv: "pt_inv s L" and f: "L f = Some (r, ro)" and n: "new_table s f i t u"
  shows "L t = None" "f \<noteq> t" "table_of u t k = None" "table_of u f i = Some t"
    "L x \<noteq> None \<Longrightarrow> table_of u x k = (if x = f \<and> k = i then Some t else table_of s x k)"
    "L x \<noteq> None \<Longrightarrow> x \<noteq> f \<Longrightarrow> pm_frame u x = pm_frame s x"
proof -
  have t: "t \<in> frees s" "pm_npage u = pm_npage s"
    and fr: "pm_frame u = (pm_frame s)(t := (\<lambda>_. 0), f := (pm_frame s f)(i := pte_create (page2ppn t) (PTE_U OR PTE_V)))"
    using n by (simp_all add: new_table_def)
  show Lt: "L t = None" by (rule pt_invD(8) [OF inv t(1)])
  then show ft: "f \<noteq> t" using f by auto
  have ty: "take_bit 10 (PTE_U OR PTE_V) = PTE_U OR PTE_V" by (simp add: PTE_U_def PTE_V_def)
  have "t + nbase < pm_npage u" "pm_npage u < 2 ^ 32"
    using pt_invD(2,3) [OF inv] t by simp_all
  then show fi: "table_of u f i = Some t" using KADDR_create(1) [OF _ _ ty] by (simp add: table_of_def fr)
  show "table_of u t k = None" using ft by (simp add: table_of_def fr)
  show "table_of u x k = (if x = f \<and> k = i then Some t else table_of s x k)" if "L x \<noteq> None"
  proof (cases "x = f \<and> k = i")
    case False
    then have "pm_frame u x k = pm_frame s x k" using that Lt by (auto simp: fr)
    then have "table_of u x k = table_of s x k" by (rule table_of_cong [OF t(2)])
    with False show ?thesis by auto
  qed (use fi in simp)
  show "pm_frame u x = pm_frame s x" if "L x \<noteq> None" "x \<noteq> f" using that Lt by (auto simp: fr)
qed

lemma new_table_inv:
  assumes inv: "pt_inv s L" and f: "L f = Some (r, ro)" and ro: "\<And>i j. ro \<noteq> Tab i j" and i: "i < 512" "walked ro i"
    and e: "table_of s f i = None" and n: "new_table s f i t u"
  shows "pt_inv u (L(t \<mapsto> (r, child ro i)))" "pt_ext s L u (L(t \<mapsto> (r, child ro i)))"
proof -
  let ?L = "L(t \<mapsto> (r, child ro i))"
  have nt: "t \<in> frees s" "\<exists>bs. fl_inv (pm_pmm u) bs" "frees u = frees s - {t}"
     "pm_npage u = pm_npage s" "reserved u = reserved s" "\<And>g. g \<noteq> t \<Longrightarrow> refs u g = refs s g"
    using n by (simp_all add: new_table_def)
  note tt = new_table_tables [OF inv f n]
  obtain bs where bs: "fl_inv (pm_pmm s) bs" using pt_invD(1) [OF inv] by blast
  have ch: "child ro i \<noteq> Root" by (cases ro) auto
  have "\<not> reserved s t" using bs nt(1) unfolding fl_inv_free_set [OF bs] by (simp add: fl_inv_def)
  then have "frames_ok u ?L"
    using nt(2-5) pt_invD(2-6,9) [OF inv] nt(1) ch by (auto simp: frames_ok_def split: if_splits)
  moreover have "tables_ok u ?L"
    unfolding tables_ok_def
  proof (intro allI impI)
    fix x r' ro' k assume x: "?L x = Some (r', ro')" "k < 512" "walked ro' k" "valid (pm_frame u x k)"
    have xt: "x \<noteq> t" using x(4) tt(2) n by (auto simp: new_table_def)
    then have Lx: "L x = Some (r', ro')" using x(1) by simp
    show "\<exists>g. table_of u x k = Some g \<and> (case ro' of Tab i j \<Rightarrow> ?L g = None \<and> g \<notin> frees u \<and> \<not> reserved u g
        | _ \<Rightarrow> ?L g = Some (r', child ro' k))"
    proof (cases "x = f \<and> k = i")
      case True
      then have "r' = r" "ro' = ro" using Lx f by auto
      then show ?thesis using True tt(4) ro i(2) by (cases ro) auto
    next
      case False
      have fr: "pm_frame u x k = pm_frame s x k" using False xt n by (auto simp: new_table_def)
      then obtain g where g: "table_of s x k = Some g" using table_none [OF inv Lx x(2,3)] x(4) by fastforce
      note en = table_entry [OF inv Lx x(2,3) g]
      have "table_of u x k = Some g" using tt(5) [of x k] Lx False g by simp
      moreover have "case ro' of Tab i j \<Rightarrow> ?L g = None \<and> g \<notin> frees u \<and> \<not> reserved u g | _ \<Rightarrow> ?L g = Some (r', child ro' k)"
        using en nt tt(1) by (cases ro') auto
      ultimately show ?thesis by blast
    qed
  qed
  moreover have "refs u g = int (card (maps u ?L g))" if "?L g = None" for g
  proof -
    have nf: "\<forall>r' a b. L f \<noteq> Some (r', Tab a b)" using f ro by auto
    have "maps u ?L g = maps s L g"
    proof -
      have "(x, k) \<in> maps u ?L g \<longleftrightarrow> (x, k) \<in> maps s L g" for x k
      proof (cases "x = f")
        case True
        then show ?thesis using nf tt(2) by (auto simp: maps_def)
      next
        case False
        then show ?thesis using tt(1,3) tt(5) [of x k] by (cases "x = t") (auto simp: maps_def)
      qed
      then show ?thesis by auto
    qed
    then show ?thesis using that nt(6) [of g] pt_invD(7) [OF inv, of g] by (auto split: if_splits)
  qed
  ultimately show "pt_inv u ?L" by (simp add: pt_inv_def)
  have "pte_at u p la = pte_at s p la" if p: "L p = Some (r', Root)" for p r' la
  proof (cases "user_pdx (PDX1 la) \<longrightarrow> p = f \<and> PDX1 la = i")
    case True
    then show ?thesis using e tt(3,4) by (cases "user_pdx (PDX1 la)") (simp_all add: pte_at_def leaf_def)
  next
    case False
    then have up: "user_pdx (PDX1 la)" and False: "\<not> (p = f \<and> PDX1 la = i)" by simp_all
    have 1: "table_of u p (PDX1 la) = table_of s p (PDX1 la)" using tt(5) [of p "PDX1 la"] p False by simp
    show ?thesis
    proof (cases "table_of s p (PDX1 la)")
      case None
      then show ?thesis using 1 by (simp add: pte_at_def leaf_def)
    next
      case (Some d)
      have Ld: "L d = Some (r', Dir (PDX1 la))" using table_entry [OF inv p _ _ Some] up by simp
      show ?thesis
      proof (cases "d = f \<and> PDX0 la = i")
        case True
        then show ?thesis using e tt(2,4) n 1 Some up
          by (simp add: pte_at_def leaf_def read_pte_def new_table_def)
      next
        case False
        have 0: "table_of u d (PDX0 la) = table_of s d (PDX0 la)" using tt(5) [of d "PDX0 la"] Ld False by simp
        show ?thesis
        proof (cases "table_of s d (PDX0 la)")
          case None
          then show ?thesis using 0 1 Some by (simp add: pte_at_def leaf_def)
        next
          case t: (Some x)
          have Lx: "L x = Some (r', Tab (PDX1 la) (PDX0 la))" using table_entry [OF inv Ld _ _ t] by simp
          then have "x \<noteq> f" using f ro by auto
          then have "pm_frame u x = pm_frame s x" using tt(6) [of x] Lx by simp
          then show ?thesis using 0 1 Some t up by (simp add: pte_at_def leaf_def read_pte_def)
        qed
      qed
    qed
  qed
  moreover have "pm_frame u g = pm_frame s g" if "?L g = None" for g
    using that f n by (auto simp: new_table_def split: if_splits)
  moreover have "leaf u p la = leaf s p la" if p: "L p = Some (r', Root)" and l: "leaf s p la \<noteq> None" for p r' la
  proof -
    obtain d x where d: "table_of s p (PDX1 la) = Some d" "table_of s d (PDX0 la) = Some x" "user_pdx (PDX1 la)"
      using l by (auto simp: leaf_def Option.bind_eq_Some_conv bind_kassert_if split: if_splits)
    have Ld: "L d = Some (r', Dir (PDX1 la))" using table_entry [OF inv p _ _ d(1)] d(3) by simp
    then show ?thesis
      using d e tt(5) [of p "PDX1 la"] p tt(5) [of d "PDX0 la"] by (auto simp: leaf_def)
  qed
  moreover have "kernel_kept s L u"
    unfolding kernel_kept_def
  proof (intro allI impI)
    fix x r' ro' k assume x: "L x = Some (r', ro')" "\<not> walked ro' k"
    have "x \<noteq> t" using tt(1) x(1) by auto
    moreover have "\<not> (x = f \<and> k = i)" using x f i(2) by auto
    ultimately show "pm_frame u x k = pm_frame s x k" using n by (auto simp: new_table_def)
  qed
  ultimately show "pt_ext s L u ?L"
    using nt tt(1) by (auto simp: pt_ext_def map_le_def split: if_splits)
qed

lemma get_table_ok:
  assumes inv: "pt_inv s L" and f: "L f = Some (r, ro)" and ro: "\<And>i j. ro \<noteq> Tab i j" and i: "i < 512" "walked ro i"
  shows "(\<exists>t. table_of s f i = Some t \<and> L t = Some (r, child ro i) \<and> get_table f i create s = Some (Some t, s))
     \<or> (table_of s f i = None \<and> (\<not> create \<or> frees s = {}) \<and> get_table f i create s = Some (None, s))
     \<or> (table_of s f i = None \<and> create \<and> (\<exists>t u. get_table f i create s = Some (Some t, u) \<and> new_table s f i t u))"
proof (cases "table_of s f i")
  case (Some t)
  have v: "valid (pm_frame s f i)" "KADDR s (PTE_ADDR (pm_frame s f i)) = Some t"
    using Some by (simp_all add: table_of_def split: if_splits)
  have "L t = Some (r, child ro i)" using table_entry [OF inv f i Some] ro by (cases ro) auto
  then show ?thesis using v Some by (simp add: get_table_def valid_def PDE_ADDR_def)
next
  case None
  have v: "pm_frame s f i AND PTE_V = 0" using table_none [OF inv f i None] by (simp add: valid_def)
  show ?thesis
  proof (cases "create \<and> frees s \<noteq> {}")
    case False
    then have "get_table f i create s = Some (None, s)"
      using v alloc_page_ok [OF inv] by (cases create) (simp_all add: get_table_def)
    then show ?thesis using None False by blast
  next
    case True
    then obtain t p where t: "alloc_page s = Some (Some t, s\<lparr>pm_pmm := p\<rparr>)" "t \<in> frees s" "\<exists>bs. fl_inv p bs"
      "free_set p = frees s - {t}" "page_ref p = refs s" "PageReserved p = reserved s"
      using alloc_page_ok [OF inv] by auto
    have k: "t + nbase < pm_npage s" "pm_npage s < 2 ^ 32" using pt_invD(2,3) [OF inv] t(2) by simp_all
    have ty: "take_bit 10 (PTE_U OR PTE_V) = PTE_U OR PTE_V" by (simp add: PTE_U_def PTE_V_def)
    let ?s2 = "upd_pmm (set_page_ref t 1) (s\<lparr>pm_pmm := p\<rparr>)"
    let ?u = "write_word f i (pte_create (page2ppn t) (PTE_U OR PTE_V)) (clear_frame t ?s2)"
    have n: "pm_npage ?s2 = pm_npage s" "pm_npage ?u = pm_npage s"
      by (simp_all add: upd_pmm_def write_word_def clear_frame_def)
    have "KADDR ?s2 (page2pa t) = Some t" "KADDR ?u (PTE_ADDR (pte_create (page2ppn t) (PTE_U OR PTE_V))) = Some t"
      using KADDR_create [of t ?s2, OF _ _ ty] KADDR_create [of t ?u, OF _ _ ty] k unfolding n by simp_all
    moreover have "pm_frame ?u f i = pte_create (page2ppn t) (PTE_U OR PTE_V)" by (simp add: write_word_def)
    ultimately have "get_table f i create s = Some (Some t, ?u)"
      using True v t(1) by (simp add: get_table_def PDE_ADDR_def Let_def)
    moreover have "new_table s f i t ?u"
    proof -
      have sv: "same_view (set_page_ref t 1 p) p" by (simp add: same_view_def fun_eq_iff)
      have pu: "pm_pmm ?u = set_page_ref t 1 p" by (simp add: upd_pmm_def write_word_def clear_frame_def)
      have "f \<noteq> t" using f pt_invD(8) [OF inv t(2)] by auto
      then have "pm_frame ?u = (pm_frame s)(t := (\<lambda>_. 0), f := (pm_frame s f)(i := pte_create (page2ppn t) (PTE_U OR PTE_V)))"
        by (simp add: upd_pmm_def write_word_def clear_frame_def)
      moreover have "\<exists>bs. fl_inv (set_page_ref t 1 p) bs" using t(3) same_view_fl_inv [OF sv] by simp
      moreover have "free_set (set_page_ref t 1 p) = frees s - {t}" using t(4) same_view_free_set [OF sv] by simp
      moreover have "PageReserved (set_page_ref t 1 p) = reserved s" using t(6) sv by (simp add: same_view_def)
      ultimately show ?thesis using t(2,5) n(2) unfolding new_table_def pu by simp
    qed
    ultimately show ?thesis using None True by blast
  qed
qed

end
