(* ===== verification/Paging_Ops.thy ===== *)
theory Paging_Ops
  imports Paging_Inv
begin

text \<open>
  The walk \<open>get_pte\<close> against the abstract view \<open>leaf\<close>/\<open>pte_at\<close> of an address space, and the effect
  of storing, removing and inserting one mapping on that view and on the invariant.
\<close>

section \<open>The walk\<close>

lemma pt_inv_parts: "pt_inv s L \<Longrightarrow> frames_ok s L" "pt_inv s L \<Longrightarrow> tables_ok s L"
  by (simp_all add: pt_inv_def)

lemma get_pte_lookup:
  assumes inv: "pt_inv s L" and p: "L p = Some (r, Root)" and la: "user_pdx (PDX1 la)"
  shows "get_pte p la False s = Some (leaf s p la, s)"
proof -
  have no: "Root \<noteq> Tab i j" "Dir d \<noteq> Tab i j" for d i j by simp_all
  have w: "walked Root (PDX1 la)" using la by simp
  from get_table_ok [OF inv p no(1) index_less(1) w, of False] show ?thesis
  proof (elim disjE exE conjE)
    fix d assume d: "table_of s p (PDX1 la) = Some d" "L d = Some (r, child Root (PDX1 la))"
      "get_table p (PDX1 la) False s = Some (Some d, s)"
    then have "L d = Some (r, Dir (PDX1 la))" by simp
    from get_table_ok [OF inv this no(2) index_less(2), of la False] d la show ?thesis
      by (auto simp: get_pte_def leaf_def)
  qed (use la in \<open>auto simp: get_pte_def leaf_def\<close>)
qed

lemma leaf_tab:
  assumes inv: "pt_inv s L" and p: "L p = Some (r, Root)" and l: "leaf s p la = Some q"
  shows "L (fst q) = Some (r, Tab (PDX1 la) (PDX0 la))" "snd q = PTX la"
proof -
  obtain d t where d: "table_of s p (PDX1 la) = Some d" "table_of s d (PDX0 la) = Some t" "q = (t, PTX la)"
    and up: "user_pdx (PDX1 la)"
    using l by (auto simp: leaf_def Option.bind_eq_Some_conv bind_kassert_if split: if_splits)
  have "L d = Some (r, Dir (PDX1 la))" using table_entry [OF inv p _ _ d(1)] up by simp
  from table_entry [OF inv this _ _ d(2)] show "L (fst q) = Some (r, Tab (PDX1 la) (PDX0 la))" using d(3) by simp
  show "snd q = PTX la" using d(3) by simp
qed

lemma new_table_frees: "pt_inv s L \<Longrightarrow> new_table s f i t u \<Longrightarrow> card (frees s) = Suc (card (frees u))"
  using pt_inv_free_card(1) [of s L] card_Suc_Diff1 [of "frees s" t] by (simp add: new_table_def)

lemma leaf_user: "leaf s p la \<noteq> None \<Longrightarrow> user_pdx (PDX1 la)"
  by (auto simp: leaf_def bind_kassert_if split: if_splits)

lemma get_pte_create:
  assumes inv: "pt_inv s L" and p: "L p = Some (r, Root)" and la: "user_pdx (PDX1 la)"
  shows "\<exists>res u L'. get_pte p la True s = Some (res, u) \<and> pt_inv u L' \<and> pt_ext s L u L'
     \<and> card (frees s) \<le> card (frees u) + 2
     \<and> (leaf s p la \<noteq> None \<longrightarrow> u = s \<and> L' = L \<and> res = leaf s p la)
     \<and> (case res of None \<Rightarrow> frees u = {} | Some q \<Rightarrow> leaf u p la = Some q)"
proof -
  have step: "\<exists>d u L'. get_table f i True s' = Some (d, u) \<and> pt_inv u L' \<and> pt_ext s' L1 u L'
     \<and> card (frees s') \<le> card (frees u) + 1 \<and> (table_of s' f i \<noteq> None \<longrightarrow> u = s' \<and> L' = L1 \<and> d = table_of s' f i)
     \<and> (case d of None \<Rightarrow> frees u = {} | Some d \<Rightarrow> table_of u f i = Some d \<and> L' d = Some (r, child ro i))
     \<and> (\<forall>x k. L1 x \<noteq> None \<longrightarrow> (x, k) \<noteq> (f, i) \<longrightarrow> table_of u x k = table_of s' x k)"
    if i1: "pt_inv s' L1" and f: "L1 f = Some (r, ro)" and ro: "\<And>i j. ro \<noteq> Tab i j" and i: "i < 512" "walked ro i" for s' L1 f ro i
    using get_table_ok [OF i1 f ro i, of True]
  proof (elim disjE exE conjE)
    fix t u assume e: "table_of s' f i = None" and g: "get_table f i True s' = Some (Some t, u)" and n: "new_table s' f i t u"
    note tt = new_table_tables [OF i1 f n]
    show ?thesis
      using g e new_table_inv [OF i1 f ro i e n] new_table_frees [OF i1 n] tt
      by (intro exI [of _ "Some t"] exI [of _ u] exI [of _ "L1(t \<mapsto> (r, child ro i))"]) auto
  next
    assume "frees s' = {}" "get_table f i True s' = Some (None, s')" "table_of s' f i = None"
    then show ?thesis using i1 by (intro exI [of _ None] exI [of _ s'] exI [of _ L1]) auto
  qed (use i1 in auto)
  obtain d u L' where d: "get_table p (PDX1 la) True s = Some (d, u)" "pt_inv u L'" "pt_ext s L u L'"
     "card (frees s) \<le> card (frees u) + 1"
     "table_of s p (PDX1 la) \<noteq> None \<longrightarrow> u = s \<and> L' = L \<and> d = table_of s p (PDX1 la)"
     "case d of None \<Rightarrow> frees u = {} | Some d \<Rightarrow> table_of u p (PDX1 la) = Some d \<and> L' d = Some (r, child Root (PDX1 la))"
    using step [OF inv p _ index_less(1) [of la]] la by force
  show ?thesis
  proof (cases d)
    case None
    then have "leaf s p la = None" using d(5) by (cases "table_of s p (PDX1 la)") (auto simp: leaf_def)
    then show ?thesis using None d by (intro exI [of _ None] exI [of _ u] exI [of _ L']) (auto simp: get_pte_def)
  next
    case (Some d')
    have L: "table_of u p (PDX1 la) = Some d'" "L' d' = Some (r, Dir (PDX1 la))" using d(6) Some by simp_all
    obtain t u' L'' where t: "get_table d' (PDX0 la) True u = Some (t, u')" "pt_inv u' L''" "pt_ext u L' u' L''"
     "card (frees u) \<le> card (frees u') + 1"
     "table_of u d' (PDX0 la) \<noteq> None \<longrightarrow> u' = u \<and> L'' = L' \<and> t = table_of u d' (PDX0 la)"
     "case t of None \<Rightarrow> frees u' = {} | Some t \<Rightarrow> table_of u' d' (PDX0 la) = Some t \<and> L'' t = Some (r, child (Dir (PDX1 la)) (PDX0 la))"
     "\<forall>x k. L' x \<noteq> None \<longrightarrow> (x, k) \<noteq> (d', PDX0 la) \<longrightarrow> table_of u' x k = table_of u x k"
      using step [OF d(2) L(2) _ index_less(2) [of la]] by force
    have lf: "leaf s p la \<noteq> None \<Longrightarrow> u' = s \<and> L'' = L \<and> map_option (\<lambda>t. (t, PTX la)) t = leaf s p la"
    proof -
      assume "leaf s p la \<noteq> None"
      then obtain a b where ab: "table_of s p (PDX1 la) = Some a" "table_of s a (PDX0 la) = Some b"
        by (auto simp: leaf_def Option.bind_eq_Some_conv bind_kassert_if split: if_splits)
      then have "u = s" "L' = L" "d' = a" using d(5) Some by auto
      then show ?thesis using t(5) ab la by (auto simp: leaf_def)
    qed
    have "L' p = Some (r, Root)" by (rule pt_ext_Some [OF d(3) p])
    moreover from this have "p \<noteq> d'" using L(2) by auto
    ultimately have "table_of u' p (PDX1 la) = Some d'" using t(7) L by simp
    then have "case t of None \<Rightarrow> frees u' = {} | Some t \<Rightarrow> leaf u' p la = Some (t, PTX la)"
      using t(6) la by (cases t) (auto simp: leaf_def)
    then show ?thesis
      using d(1,4) t(1,2,4) Some pt_ext_trans [OF d(3) t(3)] lf
      by (intro exI [of _ "map_option (\<lambda>t. (t, PTX la)) t"] exI [of _ u'] exI [of _ L''])
        (auto simp: get_pte_def split: option.splits)
  qed
qed

section \<open>Writing a leaf entry\<close>

definition page_idx :: "64 word \<Rightarrow> nat \<times> nat \<times> nat" where
  "page_idx la = (PDX1 la, PDX0 la, PTX la)"

lemma finite_maps:
  assumes "frames_ok s L" shows "finite (maps s L g)"
proof -
  have "maps s L g \<subseteq> {..<pm_npage s} \<times> {..<512}" using assms by (fastforce simp: maps_def frames_ok_def)
  then show ?thesis by (rule finite_subset) simp
qed

lemma write_leaf_tables:
  assumes "pm_npage u = pm_npage s" "pm_frame u = pm_frame (write_pte q w s)"
  shows "table_of u x k = (if (x, k) = q then if valid w then KADDR s (PTE_ADDR w) else None else table_of s x k)"
  using assms by (cases q) (auto simp: table_of_def write_pte_def write_word_def KADDR_def)

text \<open>The effect of one store to a leaf entry, whatever happens to the page descriptors.\<close>

lemma write_leaf:
  assumes inv: "pt_inv s L" and p: "L p = Some (r, Root)" and l: "leaf s p la = Some q"
    and u: "pm_npage u = pm_npage s" "pm_frame u = pm_frame (write_pte q w s)"
  shows "(x, k) \<in> maps u L h \<longleftrightarrow> (if (x, k) = q then valid w \<and> KADDR s (PTE_ADDR w) = Some h else (x, k) \<in> maps s L h)"
    and "L p' = Some (r', Root) \<Longrightarrow>
          pte_at u p' la' = (if p' = p \<and> page_idx la' = page_idx la then w else pte_at s p' la')"
    and "L x \<noteq> Some (r, Tab (PDX1 la) (PDX0 la)) \<Longrightarrow> pm_frame u x = pm_frame s x"
proof -
  have q: "L (fst q) = Some (r, Tab (PDX1 la) (PDX0 la))" "snd q = PTX la" using leaf_tab [OF inv p l] by simp_all
  note tab = write_leaf_tables [OF u]
  show "(x, k) \<in> maps u L h \<longleftrightarrow> (if (x, k) = q then valid w \<and> KADDR s (PTE_ADDR w) = Some h else (x, k) \<in> maps s L h)"
    using q tab [of x k] by (auto simp: maps_def)
  show "L x \<noteq> Some (r, Tab (PDX1 la) (PDX0 la)) \<Longrightarrow> pm_frame u x = pm_frame s x"
    using q(1) by (auto simp: u(2) write_pte_def write_word_def)
  assume p': "L p' = Some (r', Root)"
  have nq: "(x, k) \<noteq> q" if "L x = Some (r'', ro)" "ro = Root \<or> (\<exists>d. ro = Dir d)" for x k r'' ro
    using that q(1) by auto
  have lf: "leaf u p' la' = leaf s p' la'"
  proof (cases "table_of s p' (PDX1 la')")
    case None
    then show ?thesis using tab [of p' "PDX1 la'"] nq [OF p'] by (simp add: leaf_def)
  next
    case (Some d)
    show ?thesis
    proof (cases "user_pdx (PDX1 la')")
    case True
    have "L d = Some (r', Dir (PDX1 la'))" using table_entry [OF inv p' _ _ Some] True by simp
    then show ?thesis using Some tab [of p' "PDX1 la'"] nq [OF p'] tab [of d "PDX0 la'"] nq [of d] by (simp add: leaf_def)
    qed (simp add: leaf_def)
  qed
  have pp: "r' = p'" "r = p" using pt_invD(9) [OF inv] p p' by simp_all
  show "pte_at u p' la' = (if p' = p \<and> page_idx la' = page_idx la then w else pte_at s p' la')"
  proof (cases "leaf s p' la'")
    case None
    have "\<not> (p' = p \<and> page_idx la' = page_idx la)" using None l by (auto simp: leaf_def page_idx_def)
    then show ?thesis using None lf by (auto simp: pte_at_def)
  next
    case (Some q')
    have q': "L (fst q') = Some (r', Tab (PDX1 la') (PDX0 la'))" "snd q' = PTX la'"
      using leaf_tab [OF inv p' Some] by simp_all
    show ?thesis
    proof (cases "q' = q")
      case True
      then have "p' = p" "page_idx la' = page_idx la" using q q' pp by (auto simp: page_idx_def)
      then show ?thesis using True Some lf u(2)
        by (auto simp: pte_at_def read_pte_def write_pte_def write_word_def)
    next
      case False
      have "\<not> (p' = p \<and> page_idx la' = page_idx la)" using False Some l by (auto simp: leaf_def page_idx_def)
      then show ?thesis using False Some lf u(2)
        by (cases q'; cases q) (auto simp: pte_at_def read_pte_def write_pte_def write_word_def)
    qed
  qed
qed

lemma write_leaf_kept:
  assumes "pt_inv s L" and "L p = Some (r, Root)" and "leaf s p la = Some q"
    and "pm_npage u = pm_npage s" "pm_frame u = pm_frame (write_pte q w s)"
  shows "kernel_kept s L u"
  unfolding kernel_kept_def
proof (intro allI impI)
  fix x r' ro k assume "L x = Some (r', ro)" "\<not> walked ro k"
  then have "L x \<noteq> Some (r, Tab (PDX1 la) (PDX0 la))" by auto
  from write_leaf(3) [OF assms this] show "pm_frame u x k = pm_frame s x k" by simp
qed

section \<open>Unmapping and mapping\<close>

text \<open>Giving a frame back works when it lies below some free frame (or there is none).\<close>

definition below_free :: "pmem \<Rightarrow> nat \<Rightarrow> bool" where
  "below_free s g \<longleftrightarrow> frees s = {} \<or> (\<exists>f\<in>frees s. g < f)"

lemma free_page_ok:
  assumes fo: "frames_ok s L" and g: "g + nbase < pm_npage s" "g \<notin> frees s" "\<not> reserved s g" "below_free s g"
  shows "\<exists>p. free_page g s = Some (s\<lparr>pm_pmm := p\<rparr>) \<and> (\<exists>bs. fl_inv p bs) \<and> free_set p = insert g (frees s)
     \<and> (\<forall>h. page_ref p h = (if h = g then 0 else refs s h)) \<and> PageReserved p = reserved s"
proof -
  obtain bs where bs: "fl_inv (pm_pmm s) bs" using fo by (auto simp: frames_ok_def)
  have "\<not> PageProperty (pm_pmm s) g"
  proof
    assume "PageProperty (pm_pmm s) g"
    then have "g \<in> set bs" using bs by (simp add: fl_inv_def)
    then have "g \<in> frees s" using bs unfolding fl_inv_free_set [OF bs]
      by (force simp: fl_inv_def blocks_ok_def bset_def)
    then show False using g(2) by simp
  qed
  moreover have "nr_free (pm_pmm s) + 1 < 4294967296"
  proof -
    have "frees s \<subseteq> {..<pm_npage s} - {g}" using fo g(2) by (auto simp: frames_ok_def)
    then have "card (frees s) \<le> card ({..<pm_npage s} - {g})" by (intro card_mono) auto
    also have "\<dots> = pm_npage s - 1" using g(1) by simp
    finally have "nr_free (pm_pmm s) \<le> pm_npage s - 1" using fl_inv_card [OF bs] by simp
    moreover have "pm_npage s < 4294967296" using fo by (simp add: frames_ok_def)
    ultimately show ?thesis using g(1) by linarith
  qed
  ultimately have "ff_freeable g 1 (pm_pmm s)"
    using g by (auto simp: ff_freeable_def below_free_def)
  from free_pages_steps [OF bs this] obtain p bs' where p: "default_free_pages g 1 (pm_pmm s) = Some p"
    "fl_inv p bs'" "free_set p = frees s \<union> {g..<g + 1}" by blast
  then show ?thesis
    using default_free_ref [OF p(1)] by (intro exI [of _ p]) (auto simp: free_page_def free_pages_def fun_eq_iff)
qed

lemma ref_view:
  "same_view (snd (page_ref_dec g p)) p" "same_view (snd (page_ref_inc g p)) p"
  "page_ref (snd (page_ref_dec g p)) h = page_ref p h - (if h = g then 1 else 0)"
  "page_ref (snd (page_ref_inc g p)) h = page_ref p h + (if h = g then 1 else 0)"
  by (auto simp: page_ref_dec_def page_ref_inc_def same_view_def fun_eq_iff Let_def page_ref_def property_def
      PageProperty_def PageReserved_def upd_page_def)

text \<open>What removing the mapping \<open>q\<close> of frame \<open>g\<close> does, also while the counter of another page
  is ahead of its mappings.\<close>

lemma remove_pte_step:
  assumes fo: "frames_ok s L" and q: "valid (read_pte s q)" "pte2page s (read_pte s q) = Some g"
    and g: "L g = None" "g \<notin> frees s" "\<not> reserved s g" "below_free s g" and pos: "0 < refs s g"
  shows "\<exists>u. page_remove_pte q s = Some u \<and> frames_ok u L
     \<and> pm_npage u = pm_npage s \<and> pm_frame u = pm_frame (write_pte q 0 s)
     \<and> (\<forall>h. refs u h = refs s h - (if h = g then 1 else 0)) \<and> reserved u = reserved s
     \<and> frees u = frees s \<union> (if refs s g = 1 then {g} else {})"
proof -
  let ?s1 = "upd_pmm (\<lambda>p. snd (page_ref_dec g p)) s"
  have sv: "same_view (pm_pmm ?s1) (pm_pmm s)" by (simp add: upd_pmm_def ref_view)
  have rf: "refs ?s1 h = refs s h - (if h = g then 1 else 0)" for h by (simp add: upd_pmm_def ref_view)
  have fl: "fl_inv (pm_pmm ?s1) bs = fl_inv (pm_pmm s) bs" "frees ?s1 = frees s" "reserved ?s1 = reserved s" for bs
    using same_view_fl_inv [OF sv] same_view_free_set [OF sv] sv by (simp_all add: same_view_def)
  have n: "pm_npage ?s1 = pm_npage s" "pm_frame ?s1 = pm_frame s" by (simp_all add: upd_pmm_def)
  have fo1: "frames_ok ?s1 L" using fo by (simp add: frames_ok_def fl n)
  have gr: "g + nbase < pm_npage s"
    using q(2) by (auto simp: pte2page_def pa2page_KADDR bind_kassert_if KADDR_range split: if_splits)
  have v: "read_pte s q AND PTE_V \<noteq> 0" using q(1) by (simp add: valid_def)
  have wn: "pm_npage (write_pte q 0 t) = pm_npage t" "pm_pmm (write_pte q 0 t) = pm_pmm t"
    "pm_frame t = pm_frame s \<Longrightarrow> pm_frame (write_pte q 0 t) = pm_frame (write_pte q 0 s)" for t
    by (simp_all add: write_pte_def write_word_def)
  show ?thesis
  proof (cases "refs s g = 1")
    case True
    obtain p where p: "free_page g ?s1 = Some (?s1\<lparr>pm_pmm := p\<rparr>)" "\<exists>bs. fl_inv p bs" "free_set p = insert g (frees ?s1)"
      "\<forall>h. page_ref p h = (if h = g then 0 else refs ?s1 h)" "PageReserved p = reserved ?s1"
      using free_page_ok [OF fo1, of g] g gr by (auto simp: fl n below_free_def)
    have "page_remove_pte q s = Some (write_pte q 0 (?s1\<lparr>pm_pmm := p\<rparr>))"
      using v q(2) True rf [of g] p(1) by (simp add: page_remove_pte_def Let_def)
    moreover have "frames_ok (write_pte q 0 (?s1\<lparr>pm_pmm := p\<rparr>)) L"
      using fo1 p g gr by (auto simp: frames_ok_def wn(1,2) n fl)
    ultimately show ?thesis using p rf True wn(3) [of "?s1\<lparr>pm_pmm := p\<rparr>"]
      by (intro exI [of _ "write_pte q 0 (?s1\<lparr>pm_pmm := p\<rparr>)"]) (auto simp: wn(1,2) n fl)
  next
    case False
    have "page_remove_pte q s = Some (write_pte q 0 ?s1)"
      using v q(2) False rf [of g] by (simp add: page_remove_pte_def Let_def)
    moreover have "frames_ok (write_pte q 0 ?s1) L" using fo1 by (simp add: frames_ok_def wn(1,2))
    ultimately show ?thesis using rf False wn(3) [of ?s1]
      by (intro exI [of _ "write_pte q 0 ?s1"]) (auto simp: wn(1,2) n fl)
  qed
qed

lemma tables_ok_write:
  assumes inv: "pt_inv s L" and p: "L p = Some (r, Root)" and l: "leaf s p la = Some q"
    and u: "pm_npage u = pm_npage s" "pm_frame u = pm_frame (write_pte q w s)" "reserved u = reserved s"
    and w: "valid w \<Longrightarrow> \<exists>g. KADDR s (PTE_ADDR w) = Some g \<and> L g = None \<and> g \<notin> frees u \<and> \<not> reserved s g"
    and fr: "\<And>g. g \<in> frees u \<Longrightarrow> g \<in> frees s \<or> maps u L g = {}"
  shows "tables_ok u L"
  unfolding tables_ok_def
proof (intro allI impI)
  fix x r' ro k assume x: "L x = Some (r', ro)" "k < 512" "walked ro k" "valid (pm_frame u x k)"
  have q: "L (fst q) = Some (r, Tab (PDX1 la) (PDX0 la))" using leaf_tab [OF inv p l] by simp
  note tab = write_leaf_tables [OF u(1,2), of x k]
  show "\<exists>g. table_of u x k = Some g \<and> (case ro of Tab i j \<Rightarrow> L g = None \<and> g \<notin> frees u \<and> \<not> reserved u g
      | _ \<Rightarrow> L g = Some (r', child ro k))"
  proof (cases "(x, k) = q")
    case True
    then have "ro = Tab (PDX1 la) (PDX0 la)" using q x(1) by auto
    moreover have "valid w" using x(4) True u(2) by (cases q) (auto simp: write_pte_def write_word_def)
    ultimately show ?thesis using w tab True u(3) by auto
  next
    case False
    have "pm_frame u x k = pm_frame s x k" using False u(2) by (cases q) (auto simp: write_pte_def write_word_def)
    then have "valid (pm_frame s x k)" using x(4) by simp
    then obtain g where g: "table_of s x k = Some g" using table_none [OF inv x(1-3)] by (cases "table_of s x k") auto
    have t: "table_of u x k = Some g" using tab False g by simp
    show ?thesis
    proof (cases ro)
      case (Tab i j)
      have e: "L g = None" "g \<notin> frees s" "\<not> reserved s g" using table_entry [OF inv x(1-3) g] Tab by simp_all
      have "(x, k) \<in> maps u L g" using t x(1,2) Tab by (simp add: maps_def)
      then have "g \<notin> frees u" using fr [of g] e(2) by auto
      then show ?thesis using e t Tab u(3) by simp
    qed (use table_entry [OF inv x(1-3) g] t in auto)
  qed
qed

lemma mapped_page:
  assumes inv: "pt_inv s L" and p: "L p = Some (r, Root)" and l: "leaf s p la = Some q" and v: "valid (read_pte s q)"
  shows "\<exists>g. table_of s (fst q) (snd q) = Some g \<and> pte2page s (read_pte s q) = Some g \<and> KADDR s (PTE_ADDR (read_pte s q)) = Some g
     \<and> L g = None \<and> g \<notin> frees s \<and> \<not> reserved s g \<and> q \<in> maps s L g \<and> 0 < refs s g"
proof -
  have q: "L (fst q) = Some (r, Tab (PDX1 la) (PDX0 la))" "snd q < 512" using leaf_tab [OF inv p l] by simp_all
  have "valid (pm_frame s (fst q) (snd q))" using v by (simp add: read_pte_def)
  then obtain g where g: "table_of s (fst q) (snd q) = Some g"
    using table_none [OF inv q] by (cases "table_of s (fst q) (snd q)") simp_all
  have k: "KADDR s (PTE_ADDR (read_pte s q)) = Some g"
    using g by (simp add: table_of_def read_pte_def split: if_splits)
  have e: "L g = None" "g \<notin> frees s" "\<not> reserved s g" using table_entry [OF inv q _ g] by simp_all
  have m: "q \<in> maps s L g" using q g by (cases q) (auto simp: maps_def)
  then have "0 < card (maps s L g)" using finite_maps [OF pt_inv_parts(1) [OF inv]] by (auto simp: card_gt_0_iff)
  then have "0 < refs s g" using pt_invD(7) [OF inv e(1)] by simp
  then show ?thesis using g k e m v by (simp add: pte2page_def pa2page_KADDR valid_def)
qed

lemma page_remove_pte_ok:
  assumes inv: "pt_inv s L" and p: "L p = Some (r, Root)" and l: "leaf s p la = Some q"
    and b: "\<And>g. pte2page s (read_pte s q) = Some g \<Longrightarrow> below_free s g"
  shows "\<exists>u. page_remove_pte q s = Some u \<and> pt_inv u L \<and> \<not> valid (pte_at u p la) \<and> frees s \<subseteq> frees u
     \<and> (\<forall>p' r' la'. L p' = Some (r', Root) \<longrightarrow> \<not> (p' = p \<and> page_idx la' = page_idx la) \<longrightarrow> pte_at u p' la' = pte_at s p' la')
     \<and> (\<forall>g. L g = None \<longrightarrow> pm_frame u g = pm_frame s g) \<and> pm_npage u = pm_npage s \<and> reserved u = reserved s
     \<and> kernel_kept s L u \<and> (\<forall>g. 0 < refs s g \<longrightarrow> refs u g = 0 \<longrightarrow> g \<in> frees u)
     \<and> frees u = frees s \<union> {g. valid (pte_at s p la) \<and> pte2page s (pte_at s p la) = Some g \<and> refs s g = 1}"
proof (cases "valid (read_pte s q)")
  case False
  then have "page_remove_pte q s = Some s" by (simp add: page_remove_pte_def valid_def)
  then show ?thesis using inv False l by (intro exI [of _ s]) (auto simp: pte_at_def)
next
  case True
  obtain g where g: "pte2page s (read_pte s q) = Some g" "KADDR s (PTE_ADDR (read_pte s q)) = Some g"
     "L g = None" "g \<notin> frees s" "\<not> reserved s g" "q \<in> maps s L g" "0 < refs s g"
    using mapped_page [OF inv p l True] by blast
  from remove_pte_step [OF pt_inv_parts(1) [OF inv] True g(1,3-5) b [OF g(1)] g(7)] obtain u where
    u: "page_remove_pte q s = Some u" "frames_ok u L" "pm_npage u = pm_npage s" "pm_frame u = pm_frame (write_pte q 0 s)"
     "\<forall>h. refs u h = refs s h - (if h = g then 1 else 0)" "reserved u = reserved s"
     "frees u = frees s \<union> (if refs s g = 1 then {g} else {})" by blast
  note wl = write_leaf [OF inv p l u(3,4)]
  have m: "maps u L h = maps s L h - {q}" for h
    using wl(1) [of _ _ h] by (auto split: if_splits)
  have mq: "q \<in> maps s L h \<longleftrightarrow> h = g" for h using g(6) by (auto simp: maps_def)
  have c: "card (maps u L h) = card (maps s L h) - (if h = g then 1 else 0)" for h
    using mq [of h] finite_maps [OF pt_inv_parts(1) [OF inv], of h] by (auto simp: m card_Diff_singleton_if)
  have cg: "0 < card (maps s L g)" using g(3,7) pt_invD(7) [OF inv] by simp
  have "tables_ok u L"
  proof (rule tables_ok_write [OF inv p l u(3,4,6)])
    fix h assume h: "h \<in> frees u"
    show "h \<in> frees s \<or> maps u L h = {}"
    proof (cases "h = g \<and> refs s g = 1")
      case True
      then have "card (maps u L h) = 0" using c [of h] pt_invD(7) [OF inv g(3)] by simp
      then show ?thesis using finite_maps [OF u(2), of h] by simp
    next
      case False
      then show ?thesis using h u(7) by (auto split: if_splits)
    qed
  qed simp
  moreover have "refs u h = int (card (maps u L h))" if "L h = None" for h
    using pt_invD(7) [OF inv that] u(5) c [of h] cg by auto
  ultimately have "pt_inv u L" using u(2) by (simp add: pt_inv_def)
  moreover have "pte_at u p la = 0" using wl(2) [OF p, of la] by simp
  moreover have "pm_frame u h = pm_frame s h" if "L h = None" for h using wl(3) [of h] that by simp
  moreover have "pte_at s p la = read_pte s q" using l by (simp add: pte_at_def)
  moreover have "0 < refs s h \<Longrightarrow> refs u h = 0 \<Longrightarrow> h \<in> frees u" for h using u(5,7) by (auto split: if_splits)
  moreover have "kernel_kept s L u" by (rule write_leaf_kept [OF inv p l u(3,4)])
  ultimately show ?thesis using u wl(2) g(1) True by (intro exI [of _ u]) auto
qed

lemma insert_end:
  assumes inv: "pt_inv s L" and p: "L p = Some (r, Root)" and l: "leaf s p la = Some q"
    and pg: "L pg = None" "\<not> reserved s pg" "pg + nbase < pm_npage s" and perm: "take_bit 10 perm = perm"
    and t: "frames_ok t L" "pm_npage t = pm_npage s" "reserved t = reserved s"
      "pm_frame (write_pte q w t) = pm_frame (write_pte q w s)" "pg \<notin> frees t"
    and fr: "\<forall>g\<in>frees t. g \<in> frees s \<or> maps s L g \<subseteq> {q}"
    and rf: "\<forall>h. L h = None \<longrightarrow> refs t h = int (card (maps s L h - {q})) + (if h = pg then 1 else 0)"
    and w: "w = pte_create (page2ppn pg) (PTE_V OR perm)"
  shows "pt_inv (write_pte q w t) L"
    and "L p' = Some (r', Root) \<Longrightarrow>
          pte_at (write_pte q w t) p' la' = (if p' = p \<and> page_idx la' = page_idx la then w else pte_at s p' la')"
    and "L g = None \<Longrightarrow> pm_frame (write_pte q w t) g = pm_frame s g"
    and "kernel_kept s L (write_pte q w t)"
proof -
  let ?u = "write_pte q w t"
  have u: "pm_npage ?u = pm_npage s" "frees ?u = frees t" "refs ?u = refs t" "reserved ?u = reserved s"
    and fu: "frames_ok ?u L"
    using t by (simp_all add: write_pte_def write_word_def frames_ok_def)
  note wl = write_leaf [OF inv p l u(1) t(4)]
  have ty: "take_bit 10 (PTE_V OR perm) = PTE_V OR perm" using perm by (simp add: take_bit_or PTE_V_def)
  have k: "KADDR s (PTE_ADDR w) = Some pg" unfolding w
    by (rule KADDR_create(1) [OF pg(3) pt_invD(2) [OF inv] ty])
  have vw: "valid w" by (simp add: w)
  have "maps ?u L h = (maps s L h - {q}) \<union> (if h = pg then {q} else {})" for h
    using wl(1) [of _ _ h] vw k by (auto split: if_splits)
  note m = this
  have "card (maps ?u L h) = card (maps s L h - {q}) + (if h = pg then 1 else 0)" for h
    using finite_maps [OF pt_inv_parts(1) [OF inv]] by (simp add: m card.insert_remove)
  then have "\<forall>h. L h = None \<longrightarrow> refs ?u h = int (card (maps ?u L h))" using rf by (simp add: u(3))
  moreover have "tables_ok ?u L"
  proof (rule tables_ok_write [OF inv p l u(1) t(4) u(4)])
    show "\<exists>g. KADDR s (PTE_ADDR w) = Some g \<and> L g = None \<and> g \<notin> frees ?u \<and> \<not> reserved s g"
      using k pg t(5) by (simp add: u(2))
    show "g \<in> frees s \<or> maps ?u L g = {}" if "g \<in> frees ?u" for g
      using that fr t(5) by (auto simp: u(2) m)
  qed
  ultimately show "pt_inv ?u L" using fu by (simp add: pt_inv_def)
  show "L p' = Some (r', Root) \<Longrightarrow> pte_at ?u p' la' = (if p' = p \<and> page_idx la' = page_idx la then w else pte_at s p' la')"
    by (rule wl(2))
  show "L g = None \<Longrightarrow> pm_frame ?u g = pm_frame s g" using wl(3) [of g] by simp
  show "kernel_kept s L ?u" by (rule write_leaf_kept [OF inv p l u(1) t(4)])
qed

lemma maps_other:
  assumes "q \<in> maps s L g" and "h \<noteq> g" shows "q \<notin> maps s L h"
  using assms by (auto simp: maps_def)

definition inc_ref :: "nat \<Rightarrow> pmem \<Rightarrow> pmem" where
  "inc_ref pg = upd_pmm (\<lambda>p. snd (page_ref_inc pg p))"

lemma inc_ref_simps [simp]:
  "refs (inc_ref pg s) h = refs s h + (if h = pg then 1 else 0)" "frees (inc_ref pg s) = frees s"
  "reserved (inc_ref pg s) = reserved s" "pm_npage (inc_ref pg s) = pm_npage s" "pm_frame (inc_ref pg s) = pm_frame s"
  "frames_ok (inc_ref pg s) L = frames_ok s L" "read_pte (inc_ref pg s) q = read_pte s q"
  "pte2page (inc_ref pg s) e = pte2page s e"
proof -
  have sv: "same_view (pm_pmm (inc_ref pg s)) (pm_pmm s)" by (simp add: inc_ref_def upd_pmm_def ref_view)
  show "refs (inc_ref pg s) h = refs s h + (if h = pg then 1 else 0)" by (simp add: inc_ref_def upd_pmm_def ref_view)
  show fr: "frees (inc_ref pg s) = frees s" "reserved (inc_ref pg s) = reserved s"
    using same_view_free_set [OF sv] sv by (simp_all add: same_view_def)
  show n: "pm_npage (inc_ref pg s) = pm_npage s" "pm_frame (inc_ref pg s) = pm_frame s"
    by (simp_all add: inc_ref_def upd_pmm_def)
  show "frames_ok (inc_ref pg s) L = frames_ok s L" by (simp add: frames_ok_def fr n same_view_fl_inv [OF sv])
  show "read_pte (inc_ref pg s) q = read_pte s q" "pte2page (inc_ref pg s) e = pte2page s e"
    by (simp_all add: read_pte_def pte2page_def pa2page_def n)
qed

lemma dec_inc_ref:
  "refs (upd_pmm (\<lambda>p. snd (page_ref_dec pg p)) (inc_ref pg s)) = refs s"
  "frees (upd_pmm (\<lambda>p. snd (page_ref_dec pg p)) s) = frees s"
  "reserved (upd_pmm (\<lambda>p. snd (page_ref_dec pg p)) s) = reserved s"
  "frames_ok (upd_pmm (\<lambda>p. snd (page_ref_dec pg p)) s) L = frames_ok s L"
  "pm_npage (upd_pmm f s) = pm_npage s" "pm_frame (upd_pmm f s) = pm_frame s"
proof -
  let ?t = "upd_pmm (\<lambda>p. snd (page_ref_dec pg p)) s"
  have sv: "same_view (pm_pmm ?t) (pm_pmm s)" by (simp add: upd_pmm_def ref_view)
  show "refs (upd_pmm (\<lambda>p. snd (page_ref_dec pg p)) (inc_ref pg s)) = refs s"
    using inc_ref_simps(1) [of pg s] by (simp add: fun_eq_iff upd_pmm_def ref_view)
  show fr: "frees ?t = frees s" "reserved ?t = reserved s"
    using same_view_free_set [OF sv] sv by (simp_all add: same_view_def)
  show n: "pm_npage (upd_pmm f s) = pm_npage s" "pm_frame (upd_pmm f s) = pm_frame s" for f by (simp_all add: upd_pmm_def)
  show "frames_ok ?t L = frames_ok s L" by (simp add: frames_ok_def fr n same_view_fl_inv [OF sv])
qed

lemma write_twice: "pm_frame t = pm_frame (write_pte q v s) \<Longrightarrow> pm_frame (write_pte q w t) = pm_frame (write_pte q w s)"
  "pm_frame t = pm_frame s \<Longrightarrow> pm_frame (write_pte q w t) = pm_frame (write_pte q w s)"
  by (simp_all add: write_pte_def write_word_def)

lemma page_insert_ok:
  assumes inv: "pt_inv s L" and p: "L p = Some (r, Root)" and la: "user_pdx (PDX1 la)"
    and pg: "L pg = None" "pg \<notin> frees s" "\<not> reserved s pg" "pg + nbase < pm_npage s"
    and perm: "take_bit 10 perm = perm"
    and b: "\<And>g. valid (pte_at s p la) \<Longrightarrow> pte2page s (pte_at s p la) = Some g \<Longrightarrow> below_free s g"
  shows "\<exists>ret u L'. page_insert p pg la perm s = Some (ret, u) \<and> pt_inv u L' \<and> L \<subseteq>\<^sub>m L' \<and> L' pg = None
     \<and> (leaf s p la \<noteq> None \<longrightarrow> ret = 0 \<and> L' = L)
     \<and> ((ret = 0 \<and> pte_at u p la = pte_create (page2ppn pg) (PTE_V OR perm))
        \<or> (ret = - E_NO_MEM \<and> frees u = {} \<and> pte_at u p la = pte_at s p la))
     \<and> (\<forall>p' r' la'. L p' = Some (r', Root) \<longrightarrow> \<not> (p' = p \<and> page_idx la' = page_idx la) \<longrightarrow> pte_at u p' la' = pte_at s p' la')
     \<and> (\<forall>g. L' g = None \<longrightarrow> pm_frame u g = pm_frame s g) \<and> pm_npage u = pm_npage s \<and> reserved u = reserved s
     \<and> kernel_kept s L u
     \<and> (\<not> valid (pte_at s p la) \<longrightarrow> frees u \<subseteq> frees s \<and> dom L' = dom L \<union> (frees s - frees u)
          \<and> card (frees s) \<le> card (frees u) + 2
          \<and> (\<forall>h. L' h = None \<longrightarrow> refs u h = refs s h + (if h = pg \<and> ret = 0 then 1 else 0)))"
proof -
  obtain res s1 L1 where g: "get_pte p la True s = Some (res, s1)" and inv1: "pt_inv s1 L1" and ext: "pt_ext s L s1 L1"
    and card: "card (frees s) \<le> card (frees s1) + 2" and same: "leaf s p la \<noteq> None \<longrightarrow> s1 = s \<and> L1 = L \<and> res = leaf s p la"
    and res: "case res of None \<Rightarrow> frees s1 = {} | Some q \<Rightarrow> leaf s1 p la = Some q"
    using get_pte_create [OF inv p la] by blast
  have e: "L \<subseteq>\<^sub>m L1" "pm_npage s1 = pm_npage s" "reserved s1 = reserved s" "frees s1 \<subseteq> frees s"
    "dom L1 = dom L \<union> (frees s - frees s1)"
    "\<And>g. L1 g = None \<Longrightarrow> refs s1 g = refs s g \<and> pm_frame s1 g = pm_frame s g"
    "\<And>p r la. L p = Some (r, Root) \<Longrightarrow> pte_at s1 p la = pte_at s p la" "kernel_kept s L s1"
    using ext by (auto simp: pt_ext_def)
  have p1: "L1 p = Some (r, Root)" by (rule pt_ext_Some [OF ext p])
  have l_none: "res \<noteq> None" if "leaf s p la \<noteq> None" using that same by simp
  have "pg \<notin> dom L1" using e(5) pg(1,2) by auto
  then have pg1: "L1 pg = None" by auto
  show ?thesis
  proof (cases res)
    case None
    then have "page_insert p pg la perm s = Some (- E_NO_MEM, s1)" using g by (simp add: page_insert_def)
    moreover have "leaf s p la = None" using same res None l_none by (cases "leaf s p la") auto
    ultimately show ?thesis using None res inv1 e pg1 card p
      by (intro exI [of _ "- E_NO_MEM"] exI [of _ s1] exI [of _ L1]) (auto simp: E_NO_MEM_def)
  next
    case (Some q)
    then have l: "leaf s1 p la = Some q" using res by simp
    have pq: "pte_at s p la = read_pte s1 q" using e(7) [OF p, of la] l by (simp add: pte_at_def)
    let ?w = "pte_create (page2ppn pg) (PTE_V OR perm)"
    have pgs: "\<not> reserved s1 pg" "pg + nbase < pm_npage s1" "pg \<notin> frees s1" using pg e by auto
    let ?s2 = "inc_ref pg s1"
    have fin: "?thesis" if ins: "page_insert p pg la perm s = Some (0, write_pte q ?w t)"
        and t: "frames_ok t L1" "pm_npage t = pm_npage s1" "reserved t = reserved s1"
          "pm_frame (write_pte q ?w t) = pm_frame (write_pte q ?w s1)" "pg \<notin> frees t"
        and fr: "\<forall>g\<in>frees t. g \<in> frees s1 \<or> maps s1 L1 g \<subseteq> {q}"
        and rf: "\<forall>h. L1 h = None \<longrightarrow> refs t h = int (card (maps s1 L1 h - {q})) + (if h = pg then 1 else 0)"
        and nv: "\<not> valid (pte_at s p la) \<Longrightarrow> frees t = frees s1 \<and> (\<forall>h. refs t h = refs s1 h + (if h = pg then 1 else 0))" for t
    proof -
      note ie = insert_end [OF inv1 p1 l pg1 pgs(1,2) perm t fr rf refl]
      have w: "frees (write_pte q ?w t) = frees t" "refs (write_pte q ?w t) = refs t"
        "reserved (write_pte q ?w t) = reserved s" "pm_npage (write_pte q ?w t) = pm_npage s"
        using t(2,3) e(2,3) by (simp_all add: write_pte_def write_word_def)
      have "pte_at (write_pte q ?w t) p' la' = pte_at s p' la'" if "L p' = Some (r', Root)"
        "\<not> (p' = p \<and> page_idx la' = page_idx la)" for p' r' la'
        using ie(2) [OF pt_ext_Some [OF ext that(1)]] e(7) [OF that(1)] that(2) by auto
      moreover have "pte_at (write_pte q ?w t) p la = ?w" using ie(2) [OF p1, of la] by simp
      moreover have "kernel_kept s L (write_pte q ?w t)" by (rule kernel_kept_trans [OF e(8) ie(4) e(1)])
      ultimately show ?thesis
        using ins ie(1,3) e pg1 nv card same
        by (intro exI [of _ 0] exI [of _ "write_pte q ?w t"] exI [of _ L1]) (auto simp: w)
    qed
    show ?thesis
    proof (cases "valid (read_pte s1 q)")
      case False
      have nm: "q \<notin> maps s1 L1 h" for h
        using False by (cases q) (auto simp: maps_def read_pte_def dest: table_of_valid)
      have "page_insert p pg la perm s = Some (0, write_pte q ?w ?s2)"
        using g Some False by (simp add: page_insert_def Let_def valid_def flip: inc_ref_def)
      then show ?thesis
        by (rule fin) (use pgs pt_inv_parts(1) [OF inv1] pt_invD(7) [OF inv1] nm in \<open>auto intro: write_twice\<close>)
    next
      case True
      have v: "read_pte s1 q AND PTE_V \<noteq> 0" using True by (simp add: valid_def)
      obtain g0 where m: "pte2page s1 (read_pte s1 q) = Some g0" "L1 g0 = None" "g0 \<notin> frees s1" "\<not> reserved s1 g0"
        "q \<in> maps s1 L1 g0" "0 < refs s1 g0" using mapped_page [OF inv1 p1 l True] by blast
      note fm = finite_maps [OF pt_inv_parts(1) [OF inv1]]
      have cd: "card (maps s1 L1 h) = card (maps s1 L1 h - {q}) + (if h = g0 then 1 else 0)" for h
        using m(5) maps_other [OF m(5), of h] card_Suc_Diff1 [OF fm, of q h] by auto
      show ?thesis
      proof (cases "g0 = pg")
        case pgeq: True
        have "page_insert p pg la perm s = Some (0, write_pte q ?w (upd_pmm (\<lambda>p. snd (page_ref_dec pg p)) ?s2))"
          using g Some v m(1) pgeq by (simp add: page_insert_def Let_def flip: inc_ref_def)
        then show ?thesis
          by (rule fin) (use pgs pt_inv_parts(1) [OF inv1] pt_invD(7) [OF inv1] cd pgeq True pq in
              \<open>auto simp: dec_inc_ref intro: write_twice\<close>)
      next
        case False
        have "leaf s p la \<noteq> None" using True pq by (cases "leaf s p la") (auto simp: pte_at_def)
        then have ss: "s1 = s" "L1 = L" using same by simp_all
        have "below_free ?s2 g0" using b [of g0] pq m(1) True by (simp add: ss below_free_def)
        then obtain u where u: "page_remove_pte q ?s2 = Some u" "frames_ok u L1" "pm_npage u = pm_npage s1"
          "pm_frame u = pm_frame (write_pte q 0 ?s2)" "reserved u = reserved s1"
          "\<forall>h. refs u h = refs ?s2 h - (if h = g0 then 1 else 0)"
          "frees u = frees s1 \<union> (if refs ?s2 g0 = 1 then {g0} else {})"
          using remove_pte_step [of ?s2 L1 q g0] pt_inv_parts(1) [OF inv1] True m False by auto
        have "page_insert p pg la perm s = Some (0, write_pte q ?w u)"
          using g Some v m(1) False u(1) by (simp add: page_insert_def Let_def flip: inc_ref_def)
        then show ?thesis
        proof (rule fin)
          show "frames_ok u L1" "pm_npage u = pm_npage s1" "reserved u = reserved s1" by fact+
          show "pm_frame (write_pte q ?w u) = pm_frame (write_pte q ?w s1)"
            by (rule write_twice(1) [of u q 0]) (use u(4) in \<open>simp add: write_pte_def write_word_def\<close>)
          show "pg \<notin> frees u" using u(7) pgs(3) False by auto
          show "\<forall>h\<in>frees u. h \<in> frees s1 \<or> maps s1 L1 h \<subseteq> {q}"
          proof
            fix h assume h: "h \<in> frees u"
            show "h \<in> frees s1 \<or> maps s1 L1 h \<subseteq> {q}"
            proof (cases "h = g0 \<and> refs s1 g0 = 1")
            case True
            then have "card (maps s1 L1 h) = 1" using pt_invD(7) [OF inv1 m(2)] by simp
            then show ?thesis using m(5) True by (auto simp: card_1_singleton_iff)
          next
            case False
            then show ?thesis using h u(7) \<open>g0 \<noteq> pg\<close> by (auto split: if_splits)
            qed
          qed
          show "\<forall>h. L1 h = None \<longrightarrow> refs u h = int (card (maps s1 L1 h - {q})) + (if h = pg then 1 else 0)"
            using pt_invD(7) [OF inv1] u(6) cd by auto
          show "\<not> valid (pte_at s p la) \<Longrightarrow> frees u = frees s1 \<and> (\<forall>h. refs u h = refs s1 h + (if h = pg then 1 else 0))"
            using True pq by simp
        qed
      qed
    qed
  qed
qed

end
