(* ===== verification/Paging_Range.thy ===== *)
theory Paging_Range
  imports Paging_Ops
begin

text \<open>
  Page indices as arithmetic on addresses, and the loops of \<open>unmap_range\<close> and \<open>copy_range\<close> by
  induction on the rest of the range.
\<close>

section \<open>Addresses and indices\<close>

lemma mask9: "unat (w AND 0x1FF :: 64 word) = unat w mod 512"
proof -
  have "w AND 0x1FF = take_bit 9 w" by (simp add: take_bit_eq_mask mask_eq_exp_minus_1)
  then show ?thesis by (simp add: unsigned_take_bit_eq take_bit_eq_mod unat_mod)
qed

lemma idx_nat:
  "PDX1 la = unat la div 2 ^ 30 mod 512" "PDX0 la = unat la div 2 ^ 21 mod 512" "PTX la = unat la div 2 ^ 12 mod 512"
  by (simp_all add: PDX1_def PDX0_def PTX_def PDX1SHIFT_def PDX0SHIFT_def PTXSHIFT_def mask9 unsigned_drop_bit_eq
      drop_bit_eq_div unat_div)

lemma idx_page:
  "PDX1 la = unat la div 4096 div 512 div 512 mod 512" "PDX0 la = unat la div 4096 div 512 mod 512"
  "PTX la = unat la div 4096 mod 512"
  by (simp_all add: idx_nat flip: div_mult2_eq)

lemma same_table:
  assumes "unat la div 2 ^ 21 = unat la' div 2 ^ 21"
  shows "PDX1 la = PDX1 la'" "PDX0 la = PDX0 la'"
proof -
  have "unat x div 2 ^ 30 = unat x div 2 ^ 21 div 2 ^ 9" for x :: "64 word" by (simp flip: div_mult2_eq)
  then show "PDX1 la = PDX1 la'" "PDX0 la = PDX0 la'" using assms by (simp_all add: idx_nat)
qed

lemma page_idx_eq:
  assumes "unat la < 2 ^ 39" and "unat la' < 2 ^ 39"
  shows "page_idx la = page_idx la' \<longleftrightarrow> unat la div 4096 = unat la' div 4096"
proof -
  have b: "unat x div 4096 div 512 div 512 mod 512 = unat x div 4096 div 512 div 512" if "unat x < 2 ^ 39" for x :: "64 word"
    using that by (simp add: less_mult_imp_div_less flip: div_mult2_eq)
  have s: "m = m div 512 div 512 * 262144 + (m div 512 mod 512) * 512 + m mod 512" for m :: nat
    using div_mult_mod_eq [of m 512] div_mult_mod_eq [of "m div 512" 512] by linarith
  show ?thesis
    using s [of "unat la div 4096"] s [of "unat la' div 4096"] b [OF assms(1)] b [OF assms(2)]
    by (auto simp: page_idx_def idx_page)
qed

lemma leaf_same_table:
  assumes "unat la div 2 ^ 21 = unat la' div 2 ^ 21"
  shows "leaf s p la = None \<longleftrightarrow> leaf s p la' = None"
  using same_table [OF assms]
  by (cases "user_pdx (PDX1 la')") (auto simp: leaf_def Option.bind_eq_None_conv)

lemma pte_at_same_page:
  assumes "unat la div 4096 = unat la' div 4096"
  shows "pte_at s p la = pte_at s p la'"
  using assms by (simp add: pte_at_def leaf_def idx_page)

lemma size_nat: "unat PGSIZE = 4096" "unat PTSIZE = 2 ^ 21" "unat PDSIZE = 2 ^ 30"
  by (simp_all add: PGSIZE_def PTSIZE_def PDSIZE_def NPTEENTRY_def NPDEENTRY_def)

lemma step_page:
  assumes "unat a < 2 ^ 39" shows "unat (a + PGSIZE) = unat a + 4096"
  using assms by (simp add: unat_word_ariths size_nat)

lemma step_table:
  assumes "unat a < 2 ^ 39"
  shows "unat (ROUNDDOWN (a + PTSIZE) PTSIZE) = (unat a div 2 ^ 21 + 1) * 2 ^ 21"
proof -
  have 1: "unat (a + PTSIZE) = unat a + 2 ^ 21" using assms by (simp add: unat_word_ariths size_nat)
  have "unat (ROUNDDOWN (a + PTSIZE) PTSIZE) = unat (a + PTSIZE) - unat ((a + PTSIZE) mod PTSIZE)"
    unfolding ROUNDDOWN_def by (rule unat_sub) (simp add: word_le_nat_alt unat_mod)
  moreover have "n + 2097152 - n mod 2097152 = 2097152 + n div 2097152 * 2097152" for n :: nat
    using minus_mod_eq_div_mult [of n 2097152] mod_less_eq_dividend [of n 2097152] by linarith
  ultimately show ?thesis by (simp add: 1 unat_mod size_nat)
qed

section \<open>Unmapping a range\<close>

lemma below_user: "la < USERTOP \<Longrightarrow> unat la < 2 ^ 31" for la :: "64 word"
  by (simp add: word_less_nat_alt USERTOP_def)

lemma user_pdx_below: "la < USERTOP \<Longrightarrow> user_pdx (PDX1 la)"
proof -
  assume "la < USERTOP"
  then have "unat la div 2 ^ 30 < 2" using below_user by (intro less_mult_imp_div_less) simp
  moreover have "PDX1 USERTOP = 2" by (simp add: idx_nat USERTOP_def)
  ultimately show ?thesis by (simp add: user_pdx_def idx_nat)
qed

lemma next_table:
  fixes n :: nat
  assumes "n < 2 ^ 31"
  shows "n < (n div 2 ^ 21 + 1) * 2 ^ 21 \<and> (n div 2 ^ 21 + 1) * 2 ^ 21 < 2 ^ 32"
proof -
  have "n div 2097152 < 1024" by (rule less_mult_imp_div_less) (use assms in simp)
  moreover have "n < 2097152 + n div 2097152 * 2097152"
    using div_mult_mod_eq [of n 2097152] mod_less_divisor [of 2097152 n] by linarith
  ultimately show ?thesis by simp
qed

lemma in_page:
  fixes a n :: nat
  assumes "a mod 4096 = 0" and "a \<le> n" and "n < a + 4096"
  shows "n div 4096 = a div 4096"
proof -
  obtain i where "a = 4096 * i" using assms(1) by (auto simp: mod_eq_0_iff_dvd elim!: dvdE)
  then show ?thesis using assms(2,3) by (auto intro: div_nat_eqI)
qed

lemma pte_at_none: "leaf s p la = None \<Longrightarrow> pte_at s p la = 0"
  by (simp add: pte_at_def)

text \<open>The address at which the loops of \<open>unmap_range\<close> and \<open>copy_range\<close> go on: up to it nothing
  is mapped when there is no table, and only the page of \<open>start\<close> otherwise.\<close>

lemma next_start:
  assumes "start < en" and "en \<le> USERTOP" and "unat start mod 4096 = 0"
    and n: "start' = (if leaf s p start = None then ROUNDDOWN (start + PTSIZE) PTSIZE else start + PGSIZE)"
  shows "start < start'" "start' \<noteq> 0" "unat start' mod 4096 = 0" "unat start' < 2 ^ 32"
    and "start \<le> la \<Longrightarrow> la < start' \<Longrightarrow> la < en \<Longrightarrow> \<not> valid (pte_at s p start) \<Longrightarrow> \<not> valid (pte_at s p la)"
    and "start \<le> la \<Longrightarrow> la < start' \<Longrightarrow> leaf s p start \<noteq> None \<Longrightarrow> unat la div 4096 = unat start div 4096"
proof -
  have u: "unat start < 2 ^ 31" using assms(1,2) by (intro below_user) simp
  have d: "unat start = unat start div 2 ^ 21 * 2 ^ 21 + unat start mod 2 ^ 21" by simp
  have nn: "unat start' = (if leaf s p start = None then (unat start div 2 ^ 21 + 1) * 2 ^ 21 else unat start + 4096)"
    using step_page [of start] step_table [of start] u by (simp add: n)
  have up: "unat start < unat start' \<and> unat start' < 2 ^ 32"
  proof (cases "leaf s p start = None")
    case True
    have "unat start mod 2 ^ 21 < 2 ^ 21" by simp
    then show ?thesis using nn [unfolded if_P [OF True]] next_table [OF u] by simp
  next
    case False
    then show ?thesis using nn [unfolded if_not_P [OF False]] u by simp
  qed
  show "start < start'" "unat start' < 2 ^ 32" using up by (simp_all add: word_less_nat_alt)
  show "start' \<noteq> 0" using up by auto
  show "unat start' mod 4096 = 0"
  proof (cases "leaf s p start = None")
    case True
    have "(unat start div 2 ^ 21 + 1) * 2 ^ 21 = (unat start div 2 ^ 21 + 1) * 512 * (4096::nat)" by simp
    then show ?thesis using nn True by (metis mod_mult_self2_is_0)
  qed (use nn assms(3) in \<open>simp add: mod_add_eq [symmetric]\<close>)
  have pg: "unat la div 4096 = unat start div 4096" if "start \<le> la" "la < start'" "leaf s p start \<noteq> None" for la
  proof -
    have "unat start \<le> unat la" "unat la < unat start + 4096"
      using that nn by (simp_all add: word_less_nat_alt word_le_nat_alt)
    then show ?thesis using in_page [OF assms(3)] by blast
  qed
  then show "start \<le> la \<Longrightarrow> la < start' \<Longrightarrow> leaf s p start \<noteq> None \<Longrightarrow> unat la div 4096 = unat start div 4096" .
  show "\<not> valid (pte_at s p la)" if "start \<le> la" "la < start'" "la < en" "\<not> valid (pte_at s p start)"
  proof (cases "leaf s p start = None")
    case True
    have "unat start \<le> unat la" "unat la < (unat start div 2 ^ 21 + 1) * 2 ^ 21"
      using that(1,2) nn True by (simp_all add: word_less_nat_alt word_le_nat_alt)
    then have "unat start div 2 ^ 21 = unat la div 2 ^ 21"
      by (metis Suc_eq_plus1 div_le_mono le_antisym less_Suc_eq_le less_mult_imp_div_less)
    then have "leaf s p la = None" using leaf_same_table True by blast
    then show ?thesis by (simp add: pte_at_none)
  next
    case False
    then show ?thesis using pg [OF that(1,2)] that(4) pte_at_same_page [of la start s p] by simp
  qed
qed

lemma page_nat:
  fixes a b n :: nat
  assumes "a mod 4096 = 0" "b mod 4096 = 0" "a < b" "n div 4096 = a div 4096"
  shows "a \<le> n \<and> n < b"
proof -
  obtain i j where ij: "a = 4096 * i" "b = 4096 * j" using assms(1,2) by (auto simp: mod_eq_0_iff_dvd elim!: dvdE)
  then have "i < j" "n div 4096 = i" using assms(3,4) by simp_all
  then show ?thesis using ij div_mult_mod_eq [of n 4096] mod_less_divisor [of 4096 n] by linarith
qed

lemma page_range:
  assumes "unat start mod 4096 = 0" and "start < en" and "unat en mod 4096 = 0" and "unat la div 4096 = unat start div 4096"
  shows "start \<le> la \<and> la < en"
  using page_nat [OF assms(1,3) _ assms(4)] assms(2) by (simp add: word_less_nat_alt word_le_nat_alt)

definition has_above :: "pmem \<Rightarrow> nat \<Rightarrow> bool" where
  "has_above s g \<longleftrightarrow> (\<exists>f\<in>frees s. g < f)"

lemma has_above_mono: "has_above s g \<Longrightarrow> frees s \<subseteq> frees u \<Longrightarrow> has_above u g"
  by (auto simp: has_above_def)

lemma has_above_below: "has_above s g \<Longrightarrow> below_free s g"
  by (auto simp: has_above_def below_free_def)

lemma pte2page_cong: "pm_npage u = pm_npage s \<Longrightarrow> pte2page u e = pte2page s e"
  by (simp add: pte2page_def pa2page_def)

text \<open>One iteration of the loop of \<open>unmap_range\<close>.\<close>

definition unmapped :: "pmem \<Rightarrow> roles \<Rightarrow> nat \<Rightarrow> 64 word \<Rightarrow> 64 word \<Rightarrow> pmem \<Rightarrow> bool" where
  "unmapped s L p start en u \<longleftrightarrow> pt_inv u L \<and> pm_npage u = pm_npage s \<and> reserved u = reserved s \<and> frees s \<subseteq> frees u
     \<and> kernel_kept s L u \<and> (\<forall>la. start \<le> la \<and> la < en \<longrightarrow> \<not> valid (pte_at u p la))
     \<and> (\<forall>p' r' la. L p' = Some (r', Root) \<longrightarrow> unat la < 2 ^ 39 \<longrightarrow> \<not> (p' = p \<and> start \<le> la \<and> la < en) \<longrightarrow>
          pte_at u p' la = pte_at s p' la)
     \<and> (\<forall>g. L g = None \<longrightarrow> pm_frame u g = pm_frame s g)
     \<and> (\<forall>g. L g = None \<longrightarrow> 0 < refs s g \<longrightarrow> refs u g = 0 \<longrightarrow> g \<in> frees u)"

lemma unmapped_trans:
  assumes a: "unmapped s L p x y t" and b: "unmapped t L p y z u" and o: "x \<le> y" "y \<le> z"
    and bd: "unat z < 2 ^ 39" and p: "L p = Some (r, Root)"
  shows "unmapped s L p x z u"
proof -
  have le: "la < 2 ^ 39" if "la < z" for la :: "64 word"
    using that bd by (simp add: word_less_nat_alt)
  have 1: "\<not> valid (pte_at u p la)" if "x \<le> la" "la < z" for la
  proof (cases "la < y")
    case True
    have "unat la < 2 ^ 39" using that bd by (simp add: word_less_nat_alt)
    then have "pte_at u p la = pte_at t p la" using b True p unfolding unmapped_def by (metis not_le)
    then show ?thesis using a True that by (simp add: unmapped_def)
  next
    case False
    then show ?thesis using b that by (simp add: unmapped_def)
  qed
  have 2: "pte_at u p' la = pte_at s p' la" if "L p' = Some (r', Root)" "unat la < 2 ^ 39" "\<not> (p' = p \<and> x \<le> la \<and> la < z)" for p' r' la
  proof -
    have "\<not> (p' = p \<and> y \<le> la \<and> la < z)" "\<not> (p' = p \<and> x \<le> la \<and> la < y)" using that(3) o by auto
    then show ?thesis using a b that(1,2) unfolding unmapped_def by metis
  qed
  have 3: "g \<in> frees u" if "L g = None" "0 < refs s g" "refs u g = 0" for g
  proof (cases "refs t g = 0")
    case True
    then show ?thesis using a b that by (auto simp: unmapped_def)
  next
    case False
    have "0 \<le> refs t g" using a pt_invD(7) [of t L g] that(1) by (simp add: unmapped_def)
    then show ?thesis using False b that by (simp add: unmapped_def)
  qed
  have "kernel_kept s L u" using a b unfolding unmapped_def by (blast intro: kernel_kept_trans map_le_refl)
  then show ?thesis using a b 1 2 3 unfolding unmapped_def by auto
qed

lemma unmap_step:
  assumes inv: "pt_inv s L" and p: "L p = Some (r, Root)" and se: "start < en" "en \<le> USERTOP" "unat start mod 4096 = 0" "unat en mod 4096 = 0"
    and above: "\<forall>la g. start \<le> la \<and> la < en \<longrightarrow> valid (pte_at s p la) \<longrightarrow> pte2page s (pte_at s p la) = Some g \<longrightarrow> has_above s g"
    and n: "start' = (if leaf s p start = None then ROUNDDOWN (start + PTSIZE) PTSIZE else start + PGSIZE)"
  shows "\<exists>u. (case leaf s p start of None \<Rightarrow> Some s
          | Some q \<Rightarrow> if read_pte s q \<noteq> 0 then page_remove_pte q s else Some s) = Some u \<and> unmapped s L p start (min start' en) u"
proof -
  note nx = next_start [OF se(1-3) n]
  have noop: "unmapped s L p start (min start' en) s" if "\<not> valid (pte_at s p start)"
    using inv nx(5) that by (auto simp: unmapped_def)
  show ?thesis
  proof (cases "leaf s p start")
    case None
    then show ?thesis using noop by (simp add: pte_at_none)
  next
    case (Some q)
    have q: "pte_at s p start = read_pte s q" using Some by (simp add: pte_at_def)
    show ?thesis
    proof (cases "read_pte s q = 0")
      case True
      then show ?thesis using noop Some q by simp
    next
      case False
      have "below_free s g" if "pte2page s (read_pte s q) = Some g" for g
      proof (rule has_above_below)
        have "valid (read_pte s q)" using that by (auto simp: pte2page_def valid_def bind_kassert_if split: if_splits)
        then show "has_above s g" using above se(1) that q by (metis order_refl)
      qed
      from page_remove_pte_ok [OF inv p Some this] obtain u where
        u: "page_remove_pte q s = Some u" "pt_inv u L" "\<not> valid (pte_at u p start)" "frees s \<subseteq> frees u"
        "\<forall>p' r' la'. L p' = Some (r', Root) \<longrightarrow> \<not> (p' = p \<and> page_idx la' = page_idx start) \<longrightarrow> pte_at u p' la' = pte_at s p' la'"
        "\<forall>g. L g = None \<longrightarrow> pm_frame u g = pm_frame s g" "pm_npage u = pm_npage s" "reserved u = reserved s"
        "\<forall>g. 0 < refs s g \<longrightarrow> refs u g = 0 \<longrightarrow> g \<in> frees u" "kernel_kept s L u" by blast
      have st: "unat start < 2 ^ 39" using below_user [OF less_le_trans [OF se(1,2)]] by simp
      have "\<not> valid (pte_at u p la)" if "start \<le> la" "la < min start' en" for la
        using nx(6) [of la] that Some u(3) pte_at_same_page [of la start u p] by simp
      moreover have "pte_at u p' la = pte_at s p' la" if "L p' = Some (r', Root)" "unat la < 2 ^ 39"
          "\<not> (p' = p \<and> start \<le> la \<and> la < min start' en)" for p' r' la
      proof -
        have "page_idx la \<noteq> page_idx start" if "p' = p"
        proof
          assume "page_idx la = page_idx start"
          then have "unat la div 4096 = unat start div 4096" using page_idx_eq [OF \<open>unat la < 2 ^ 39\<close> st] by simp
          moreover have "start < min start' en" using nx(1) se(1) by simp
          moreover have "unat (min start' en) mod 4096 = 0" using nx(3) se(4) by (simp add: min_def)
          ultimately show False using page_range [OF se(3), of "min start' en" la] \<open>\<not> (p' = p \<and> start \<le> la \<and> la < min start' en)\<close> that by auto
        qed
        then show ?thesis using u(5) that(1) by blast
      qed
      ultimately show ?thesis using u Some False by (intro exI [of _ u]) (simp add: unmapped_def)
    qed
  qed
qed

lemma unmap_loop_ok:
  assumes "pt_inv s L" and "L p = Some (r, Root)" and "start < en" "en \<le> USERTOP" "unat start mod 4096 = 0" "unat en mod 4096 = 0"
    and "\<forall>la g. start \<le> la \<and> la < en \<longrightarrow> valid (pte_at s p la) \<longrightarrow> pte2page s (pte_at s p la) = Some g \<longrightarrow> has_above s g"
  shows "\<exists>u. unmap_loop p start en s = Some u \<and> unmapped s L p start en u"
  using assms
proof (induction "unat en - unat start" arbitrary: start s rule: less_induct)
  case less
  note inv = less.prems(1) and p = less.prems(2)
  define start' where n: "start' = (if leaf s p start = None then ROUNDDOWN (start + PTSIZE) PTSIZE else start + PGSIZE)"
  note nx = next_start [OF less.prems(3-5) n]
  obtain u where u: "(case leaf s p start of None \<Rightarrow> Some s
          | Some q \<Rightarrow> if read_pte s q \<noteq> 0 then page_remove_pte q s else Some s) = Some u"
    and un: "unmapped s L p start (min start' en) u"
    using unmap_step [OF less.prems(1-4) less.prems(5-7) n] by blast
  have eq: "unmap_loop p start en s = (if start' < en then unmap_loop p start' en u else Some u)"
    using u nx(2) get_pte_lookup [OF inv p user_pdx_below [OF less_le_trans [OF less.prems(3,4)]]]
    by (subst unmap_loop.simps) (auto simp: n split: option.splits)
  show ?case
  proof (cases "start' < en")
    case True
    have m: "min start' en = start'" using True by simp
    have inv': "pt_inv u L" "pm_npage u = pm_npage s" "frees s \<subseteq> frees u" using un by (simp_all add: unmapped_def)
    have en: "unat en < 2 ^ 39" using less.prems(4) by (simp add: word_le_nat_alt USERTOP_def)
    have "has_above u g" if "start' \<le> la" "la < en" "valid (pte_at u p la)" "pte2page u (pte_at u p la) = Some g" for la g
    proof -
      have "unat la < 2 ^ 39" using that(2) en by (simp add: word_less_nat_alt)
      then have "pte_at u p la = pte_at s p la" using un that(1) p unfolding unmapped_def m by (metis not_le)
      then have "has_above s g"
        using less.prems(7) that nx(1) pte2page_cong [OF inv'(2)] by (metis order_trans less_imp_le)
      then show ?thesis using has_above_mono inv'(3) by blast
    qed
    moreover have "unat en - unat start' < unat en - unat start"
      using nx(1) True by (simp add: word_less_nat_alt)
    ultimately obtain v where "unmap_loop p start' en u = Some v" "unmapped u L p start' en v"
      using less.hyps [of start' u] inv'(1) p True less.prems(4,6) nx(3) by blast
    then show ?thesis
      using eq True unmapped_trans [OF un [unfolded m] _ _ _ en p] nx(1) by (metis less_imp_le)
  next
    case False
    then have "min start' en = en" by simp
    then show ?thesis using eq un False by simp
  qed
qed

section \<open>Copying a range\<close>

text \<open>Only the frames that hold tables matter to the page tables.\<close>

lemma pt_inv_cong:
  assumes inv: "pt_inv s L" and n: "pm_npage u = pm_npage s" and f: "\<forall>g. L g \<noteq> None \<longrightarrow> pm_frame u g = pm_frame s g"
    and p: "\<forall>g\<in>frees u. g \<in> frees s \<or> (L g = None \<and> refs s g = 0 \<and> g + nbase < pm_npage s)" "\<exists>bs. fl_inv (pm_pmm u) bs" "reserved u = reserved s" "\<forall>g. L g = None \<longrightarrow> refs u g = refs s g"
  shows "pt_inv u L" "L q = Some (r, Root) \<Longrightarrow> leaf u q la = leaf s q la" "L q = Some (r, Root) \<Longrightarrow> pte_at u q la = pte_at s q la"
proof -
  have t: "table_of u g k = table_of s g k" if "L g \<noteq> None" for g k
    using table_of_cong [OF n] f that by simp
  have "maps u L g = maps s L g" for g using t by (auto simp: maps_def)
  then have "\<forall>g. L g = None \<longrightarrow> refs u g = int (card (maps u L g))" using p(4) pt_invD(7) [OF inv] by simp
  moreover have "frames_ok u L" using pt_inv_parts(1) [OF inv] n p by (auto simp: frames_ok_def)
  moreover have nz: "refs s h \<noteq> 0" if "L g = Some (r', Tab i j)" "k < 512" "table_of s g k = Some h" "L h = None" for g r' i j k h
  proof -
    have "(g, k) \<in> maps s L h" using that(1-3) by (auto simp: maps_def)
    then have "card (maps s L h) \<noteq> 0" using finite_maps [OF pt_inv_parts(1) [OF inv], of h] by auto
    then show ?thesis using pt_invD(7) [OF inv that(4)] by simp
  qed
  moreover have "tables_ok u L"
    unfolding tables_ok_def
  proof (intro allI impI)
    fix g r' ro k assume g: "L g = Some (r', ro)" "k < 512" "walked ro k" "valid (pm_frame u g k)"
    then have "valid (pm_frame s g k)" "table_of u g k = table_of s g k" using f t by simp_all
    then obtain h where "table_of s g k = Some h \<and>
        (case ro of Tab i j \<Rightarrow> L h = None \<and> h \<notin> frees s \<and> \<not> reserved s h | _ \<Rightarrow> L h = Some (r', child ro k))"
      using pt_inv_parts(2) [OF inv] g(1-3) unfolding tables_ok_def by blast
    then show "\<exists>h. table_of u g k = Some h \<and>
        (case ro of Tab i j \<Rightarrow> L h = None \<and> h \<notin> frees u \<and> \<not> reserved u h | _ \<Rightarrow> L h = Some (r', child ro k))"
      using p(1,3) \<open>table_of u g k = table_of s g k\<close> nz g(1,2) by (intro exI [of _ h]) (auto split: role.splits)
  qed
  ultimately show "pt_inv u L" by (simp add: pt_inv_def)
  assume q: "L q = Some (r, Root)"
  have d: "L d = Some (r, Dir (PDX1 la))" if "table_of s q (PDX1 la) = Some d" "user_pdx (PDX1 la)" for d
    using table_entry [OF inv q _ _ that(1)] that(2) by simp
  show l: "leaf u q la = leaf s q la"
    using t [of q "PDX1 la"] q t [of _ "PDX0 la"] d
    by (cases "table_of s q (PDX1 la)"; cases "user_pdx (PDX1 la)") (auto simp: leaf_def)
  show "pte_at u q la = pte_at s q la"
  proof (cases "leaf s q la")
    case (Some x)
    have "L (fst x) \<noteq> None" using leaf_tab(1) [OF inv q Some] by simp
    then show ?thesis using l Some f by (simp add: pte_at_def read_pte_def)
  qed (use l in \<open>simp add: pte_at_def\<close>)
qed

lemma free_unmapped:
  assumes inv: "pt_inv s L" and t: "t \<in> frees s"
  shows "L t = None" "refs s t = 0" "t + nbase < pm_npage s" "\<not> reserved s t"
proof -
  show L: "L t = None" by (rule pt_invD(8) [OF inv t])
  have "maps s L t = {}"
  proof (rule equals0I)
    fix q assume "q \<in> maps s L t"
    then obtain f k r i j where q: "L f = Some (r, Tab i j)" "k < 512" "table_of s f k = Some t"
      by (auto simp: maps_def)
    show False using table_entry [OF inv q(1,2) _ q(3)] t by simp
  qed
  then show "refs s t = 0" using pt_invD(7) [OF inv L] by simp
  show "t + nbase < pm_npage s" by (rule pt_invD(3) [OF inv t])
  obtain bs where bs: "fl_inv (pm_pmm s) bs" using pt_invD(1) [OF inv] by blast
  show "\<not> reserved s t" using bs t unfolding fl_inv_free_set [OF bs] by (simp add: fl_inv_def)
qed

lemma alloc_page_inv:
  assumes inv: "pt_inv s L" and ne: "frees s \<noteq> {}"
  shows "\<exists>t u. alloc_page s = Some (Some t, u) \<and> t \<in> frees s \<and> pt_inv u L \<and> frees u = frees s - {t}
     \<and> refs u = refs s \<and> reserved u = reserved s \<and> pm_npage u = pm_npage s \<and> pm_frame u = pm_frame s"
proof -
  obtain t p where t: "alloc_page s = Some (Some t, s\<lparr>pm_pmm := p\<rparr>)" "t \<in> frees s" "\<exists>bs. fl_inv p bs"
      "free_set p = frees s - {t}" "page_ref p = refs s" "PageReserved p = reserved s"
    using alloc_page_ok [OF inv] ne by auto
  have "pt_inv (s\<lparr>pm_pmm := p\<rparr>) L"
    by (rule pt_inv_cong(1) [OF inv]) (use t in auto)
  then show ?thesis using t by (intro exI [of _ t] exI [of _ "s\<lparr>pm_pmm := p\<rparr>"]) simp
qed

lemma copy_frame_simps [simp]:
  "pm_pmm (copy_frame d x s) = pm_pmm s" "pm_npage (copy_frame d x s) = pm_npage s"
  "pm_frame (copy_frame d x s) f = (if f = d then pm_frame s x else pm_frame s f)"
  by (simp_all add: copy_frame_def)

lemma copy_frame_inv:
  assumes inv: "pt_inv s L" and d: "L d = None"
  shows "pt_inv (copy_frame d x s) L" "L q = Some (r, Root) \<Longrightarrow> leaf (copy_frame d x s) q la = leaf s q la"
    "L q = Some (r, Root) \<Longrightarrow> pte_at (copy_frame d x s) q la = pte_at s q la"
proof -
  have n: "pm_npage (copy_frame d x s) = pm_npage s" by simp
  have f: "\<forall>g. L g \<noteq> None \<longrightarrow> pm_frame (copy_frame d x s) g = pm_frame s g" using d by auto
  have p: "\<forall>g\<in>frees (copy_frame d x s). g \<in> frees s \<or> (L g = None \<and> refs s g = 0 \<and> g + nbase < pm_npage s)" "\<exists>bs. fl_inv (pm_pmm (copy_frame d x s)) bs"
    "reserved (copy_frame d x s) = reserved s" "\<forall>g. L g = None \<longrightarrow> refs (copy_frame d x s) g = refs s g"
    using pt_invD(1) [OF inv] by simp_all
  show "pt_inv (copy_frame d x s) L" "L q = Some (r, Root) \<Longrightarrow> leaf (copy_frame d x s) q la = leaf s q la"
    "L q = Some (r, Root) \<Longrightarrow> pte_at (copy_frame d x s) q la = pte_at s q la"
    using pt_inv_cong [OF inv n f p] by blast+
qed

lemma page2kva_ok:
  assumes "pt_inv s L" and "g + nbase < pm_npage s" shows "page2kva s g = Some g"
  using KADDR_create(2) [OF assms(2) pt_invD(2) [OF assms(1)], of 0] by (simp add: page2kva_def)

lemma perm_bits: "take_bit 10 (e AND PTE_USER) = e AND PTE_USER" for e :: "64 word"
proof -
  have "take_bit 10 (PTE_USER :: 64 word) = PTE_USER" by (simp add: PTE_USER_def PTE_R_def PTE_W_def PTE_X_def PTE_U_def PTE_V_def)
  then show ?thesis by (metis take_bit_and and.assoc and.commute take_bit_eq_mask)
qed

lemma copy_page_ok:
  assumes inv: "pt_inv s L" and p: "L p = Some (p, Root)" and c: "L c = Some (c, Root)" and pc: "p \<noteq> c"
    and l: "leaf s p la = Some ptep" and v: "valid (pte_at s p la)" and nv: "\<not> valid (pte_at s c la)"
    and cd: "3 \<le> card (frees s)"
  shows "\<exists>u L' g h. copy_page c ptep la s = Some (True, u) \<and> pt_inv u L' \<and> L \<subseteq>\<^sub>m L' \<and> pm_npage u = pm_npage s
     \<and> reserved u = reserved s \<and> kernel_kept s L u \<and> frees u \<subseteq> frees s \<and> card (frees s) \<le> card (frees u) + 3
     \<and> pte2page s (pte_at s p la) = Some g \<and> h \<in> frees s \<and> h \<notin> frees u \<and> L' h = None
     \<and> pte_at u c la = pte_create (page2ppn h) (PTE_V OR (pte_at s p la AND PTE_USER))
     \<and> pm_frame u h = pm_frame s g \<and> refs u h = 1
     \<and> (\<forall>p' r' la'. L p' = Some (r', Root) \<longrightarrow> \<not> (p' = c \<and> page_idx la' = page_idx la) \<longrightarrow> pte_at u p' la' = pte_at s p' la')
     \<and> (\<forall>x. x \<notin> frees s \<longrightarrow> L x = None \<longrightarrow> L' x = None \<and> pm_frame u x = pm_frame s x \<and> refs u x = refs s x)"
proof -
  obtain res s1 L1 where g1: "get_pte c la True s = Some (res, s1)" and i1: "pt_inv s1 L1" and e: "pt_ext s L s1 L1"
    and cd1: "card (frees s) \<le> card (frees s1) + 2" and r: "case res of None \<Rightarrow> frees s1 = {} | Some q \<Rightarrow> leaf s1 c la = Some q"
    using get_pte_create [OF inv c leaf_user [of s p la]] l by auto
  have e1: "pm_npage s1 = pm_npage s" "reserved s1 = reserved s" "frees s1 \<subseteq> frees s" "L \<subseteq>\<^sub>m L1"
    "dom L1 = dom L \<union> (frees s - frees s1)" "\<And>g. L1 g = None \<Longrightarrow> refs s1 g = refs s g \<and> pm_frame s1 g = pm_frame s g"
    "\<And>q r la. L q = Some (r, Root) \<Longrightarrow> pte_at s1 q la = pte_at s q la" "leaf s1 p la = Some ptep"
    "kernel_kept s L s1"
    using e l p by (auto simp: pt_ext_def)
  have ne: "frees s1 \<noteq> {}" using cd cd1 by auto
  then obtain nptep where res: "res = Some nptep" "leaf s1 c la = Some nptep" using r by (cases res) auto
  have p1: "L1 p = Some (p, Root)" "L1 c = Some (c, Root)" using pt_ext_Some [OF e] p c by auto
  have pe: "read_pte s1 ptep = pte_at s p la" using e1(7) [OF p, of la] e1(8) by (simp add: pte_at_def)
  obtain g where g: "pte2page s1 (pte_at s p la) = Some g" "L1 g = None" "g \<notin> frees s1" "g + nbase < pm_npage s1"
    using mapped_page [OF i1 p1(1) e1(8)] v pe KADDR_range [of s1] by metis
  obtain h s2 where h: "alloc_page s1 = Some (Some h, s2)" "h \<in> frees s1" "pt_inv s2 L1" "frees s2 = frees s1 - {h}"
     "refs s2 = refs s1" "reserved s2 = reserved s1" "pm_npage s2 = pm_npage s1" "pm_frame s2 = pm_frame s1"
    using alloc_page_inv [OF i1 ne] by blast
  note fh = free_unmapped [OF i1 h(2)]
  define s3 where "s3 = copy_frame h g s2"
  have s3: "pm_pmm s3 = pm_pmm s2" "pm_npage s3 = pm_npage s2" "\<And>f. f \<noteq> h \<Longrightarrow> pm_frame s3 f = pm_frame s1 f" "pm_frame s3 h = pm_frame s1 g"
    by (simp_all add: s3_def h(8))
  have i3: "pt_inv s3 L1" unfolding s3_def by (rule copy_frame_inv(1) [OF h(3) fh(1)])
  have c2: "\<forall>g. L1 g \<noteq> None \<longrightarrow> pm_frame s2 g = pm_frame s1 g" "\<forall>g\<in>frees s2. g \<in> frees s1 \<or> (L1 g = None \<and> refs s1 g = 0 \<and> g + nbase < pm_npage s1)" "\<exists>bs. fl_inv (pm_pmm s2) bs"
     "\<forall>g. L1 g = None \<longrightarrow> refs s2 g = refs s1 g"
    using h pt_invD(1) [OF h(3)] by auto
  note v2 = pt_inv_cong(2,3) [OF i1 h(7) c2(1,2,3) h(6) c2(4)]
  have at3: "pte_at s3 q la' = pte_at s q la'" if "L q = Some (r', Root)" for q r' la'
    using copy_frame_inv(3) [OF h(3) fh(1) pt_ext_Some [OF e that]] v2(2) [OF pt_ext_Some [OF e that]] e1(7) [OF that]
    by (simp add: s3_def)
  have lf3: "leaf s3 c la \<noteq> None"
    using copy_frame_inv(2) [OF h(3) fh(1) p1(2)] v2(1) [OF p1(2)] res(2) by (simp add: s3_def)
  have perm: "take_bit 10 (pte_at s p la AND PTE_USER) = pte_at s p la AND PTE_USER" by (rule perm_bits)
  have h3: "h \<notin> frees s3" "\<not> reserved s3 h" "h + nbase < pm_npage s3"
    using h fh by (simp_all add: s3)
  have nv3: "\<not> valid (pte_at s3 c la)" using at3 [OF c] nv by simp
  obtain ret u L' where ins: "page_insert c h la (pte_at s p la AND PTE_USER) s3 = Some (ret, u)" and L': "pt_inv u L'" "L' = L1" "ret = 0"
    "pte_at u c la = pte_create (page2ppn h) (PTE_V OR (pte_at s p la AND PTE_USER))"
    and oth: "\<forall>p' r' la'. L1 p' = Some (r', Root) \<longrightarrow> \<not> (p' = c \<and> page_idx la' = page_idx la) \<longrightarrow> pte_at u p' la' = pte_at s3 p' la'"
    and fr: "\<forall>g. L' g = None \<longrightarrow> pm_frame u g = pm_frame s3 g" "pm_npage u = pm_npage s3" "reserved u = reserved s3"
    and fs: "frees u \<subseteq> frees s3" "dom L' = dom L1 \<union> (frees s3 - frees u)"
    and rf: "\<forall>x. L' x = None \<longrightarrow> refs u x = refs s3 x + (if x = h \<and> ret = 0 then 1 else 0)"
    and kk: "kernel_kept s3 L1 u"
    using page_insert_ok [OF i3 p1(2) leaf_user [OF lf3] fh(1) h3 perm] lf3 nv3 by (auto simp: E_NO_MEM_def)
  have "frees s3 \<subseteq> frees u"
  proof
    fix x assume "x \<in> frees s3"
    then have "x \<notin> dom L1" using pt_invD(8) [OF i3, of x] by (simp add: domIff)
    then show "x \<in> frees u" using fs(2) \<open>x \<in> frees s3\<close> unfolding L'(2) by blast
  qed
  then have fu: "frees u = frees s1 - {h}" using fs(1) h(4) by (simp add: s3)
  have fin1: "finite (frees s1)" by (rule pt_inv_free_card(1) [OF i1])
  have k: "page2kva s2 g = Some g" "page2kva s2 h = Some h"
    using page2kva_ok [OF h(3)] g(4) fh(3) by (simp_all add: h(7))
  have "copy_page c ptep la s = Some (True, u)"
    using g1 res(1) pe g(1) h(1) k ins L'(3) by (simp add: copy_page_def s3_def Let_def)
  moreover have "card (frees s) \<le> card (frees u) + 3"
    using cd1 card_Suc_Diff1 [OF fin1 h(2)] by (simp add: fu)
  moreover have "pte2page s (pte_at s p la) = Some g" using g(1) pte2page_cong [OF e1(1)] by simp
  moreover have "pm_frame u h = pm_frame s g" "refs u h = 1"
    using fr(1) rf L'(2,3) fh(1,2) s3 h(5) e1(6) [OF g(2)] by simp_all
  moreover have "pte_at u p' la' = pte_at s p' la'" if "L p' = Some (r', Root)" "\<not> (p' = c \<and> page_idx la' = page_idx la)" for p' r' la'
    using oth pt_ext_Some [OF e that(1)] at3 [OF that(1)] that(2) by simp
  moreover have "L' x = None \<and> pm_frame u x = pm_frame s x \<and> refs u x = refs s x" if "x \<notin> frees s" "L x = None" for x
  proof -
    have "x \<notin> dom L1" using e1(5) that by auto
    then have x: "L1 x = None" by auto
    have "x \<noteq> h" using that(1) h(2) e1(3) by auto
    then show ?thesis using x fr(1) rf e1(6) [OF x] h(5) by (simp add: L'(2) s3)
  qed
  moreover have "frees u \<subseteq> frees s" "h \<in> frees s" "h \<notin> frees u" using fu e1(3) h(2) by auto
  moreover have "pt_inv u L1" "L1 h = None" "L \<subseteq>\<^sub>m L1" using L'(1,2) fh(1) e1(4) by simp_all
  moreover have "pm_npage u = pm_npage s" "reserved u = reserved s" using fr(2,3) s3(1,2) h(6,7) e1(1,2) by simp_all
  moreover have "kernel_kept s L u"
  proof (rule kernel_kept_trans [OF kernel_kept_trans [OF e1(9) _ e1(4)] kk e1(4)])
    show "kernel_kept s1 L1 s3" using s3(3) fh(1) unfolding kernel_kept_def by (metis option.distinct(1))
  qed
  ultimately show ?thesis using L'(4) unfolding L'(2) by blast
qed

text \<open>What \<open>copy_range\<close> promises: below \<open>en\<close> the child has a page of its own for every page of the
  parent, with the same contents and the parent's permissions, and nothing else changes.\<close>

definition page_copied :: "pmem \<Rightarrow> nat \<Rightarrow> nat \<Rightarrow> 64 word \<Rightarrow> pmem \<Rightarrow> roles \<Rightarrow> bool" where
  "page_copied s p c la u L' \<longleftrightarrow>
     (if valid (pte_at s p la)
      then \<exists>g h. pte2page s (pte_at s p la) = Some g \<and> h \<in> frees s \<and> h \<notin> frees u \<and> L' h = None
             \<and> pte_at u c la = pte_create (page2ppn h) (PTE_V OR (pte_at s p la AND PTE_USER))
             \<and> pm_frame u h = pm_frame s g \<and> refs u h = 1
      else \<not> valid (pte_at u c la))"

definition copied :: "pmem \<Rightarrow> roles \<Rightarrow> nat \<Rightarrow> nat \<Rightarrow> 64 word \<Rightarrow> 64 word \<Rightarrow> pmem \<Rightarrow> roles \<Rightarrow> bool" where
  "copied s L p c start en u L' \<longleftrightarrow> pt_inv u L' \<and> L \<subseteq>\<^sub>m L' \<and> pm_npage u = pm_npage s \<and> reserved u = reserved s
     \<and> kernel_kept s L u \<and> frees u \<subseteq> frees s
     \<and> (\<forall>la. start \<le> la \<and> la < en \<longrightarrow>
          page_copied s p c la u L')
     \<and> (\<forall>p' r' la. L p' = Some (r', Root) \<longrightarrow> unat la < 2 ^ 39 \<longrightarrow> \<not> (p' = c \<and> start \<le> la \<and> la < en) \<longrightarrow>
          pte_at u p' la = pte_at s p' la)
     \<and> (\<forall>x. x \<notin> frees s \<longrightarrow> L x = None \<longrightarrow> L' x = None \<and> pm_frame u x = pm_frame s x \<and> refs u x = refs s x)"

lemma copiedD:
  assumes "copied s L p c start en u L'"
  shows "pt_inv u L'" "L \<subseteq>\<^sub>m L'" "pm_npage u = pm_npage s" "reserved u = reserved s" "frees u \<subseteq> frees s"
    "start \<le> la \<Longrightarrow> la < en \<Longrightarrow> page_copied s p c la u L'"
    "L p' = Some (r', Root) \<Longrightarrow> unat la < 2 ^ 39 \<Longrightarrow> p' = c \<longrightarrow> start \<le> la \<longrightarrow> en \<le> la \<Longrightarrow> pte_at u p' la = pte_at s p' la"
    "x \<notin> frees s \<Longrightarrow> L x = None \<Longrightarrow> L' x = None" "x \<notin> frees s \<Longrightarrow> L x = None \<Longrightarrow> pm_frame u x = pm_frame s x"
    "x \<notin> frees s \<Longrightarrow> L x = None \<Longrightarrow> refs u x = refs s x" "kernel_kept s L u"
  using assms unfolding copied_def by (auto simp: not_less)

text \<open>A page that was copied stays so while later pages are.\<close>

lemma page_copied_later:
  assumes a: "page_copied s p c la t L1" and b: "frees u \<subseteq> frees t" "pte_at u c la = pte_at t c la"
    and k: "\<And>x. x \<notin> frees t \<Longrightarrow> L1 x = None \<Longrightarrow> L2 x = None \<and> pm_frame u x = pm_frame t x \<and> refs u x = refs t x"
  shows "page_copied s p c la u L2"
proof (cases "valid (pte_at s p la)")
  case True
  then obtain g h where h: "pte2page s (pte_at s p la) = Some g" "h \<in> frees s" "h \<notin> frees t" "L1 h = None"
     "pte_at t c la = pte_create (page2ppn h) (PTE_V OR (pte_at s p la AND PTE_USER))" "pm_frame t h = pm_frame s g" "refs t h = 1"
    using a unfolding page_copied_def by auto
  then show ?thesis using k [OF h(3,4)] b True unfolding page_copied_def by auto
qed (use a b in \<open>simp add: page_copied_def\<close>)

text \<open>It may also be copied after others were.\<close>

lemma page_copied_earlier:
  assumes inv: "pt_inv s L" and p: "L p = Some (r, Root)" and b: "page_copied t p c la u L2"
    and t: "pm_npage t = pm_npage s" "frees t \<subseteq> frees s" "pte_at t p la = pte_at s p la"
    and k: "\<And>x. x \<notin> frees s \<Longrightarrow> L x = None \<Longrightarrow> pm_frame t x = pm_frame s x"
  shows "page_copied s p c la u L2"
proof (cases "valid (pte_at s p la)")
  case True
  then obtain g h where h: "pte2page t (pte_at s p la) = Some g" "h \<in> frees t" "h \<notin> frees u" "L2 h = None"
     "pte_at u c la = pte_create (page2ppn h) (PTE_V OR (pte_at s p la AND PTE_USER))" "pm_frame u h = pm_frame t g" "refs u h = 1"
    using b unfolding page_copied_def t(3) by auto
  obtain q where q: "leaf s p la = Some q" using True by (cases "leaf s p la") (auto simp: pte_at_def)
  have eq: "pte_at s p la = read_pte s q" using q by (simp add: pte_at_def)
  have gs: "pte2page s (pte_at s p la) = Some g" using h(1) pte2page_cong [OF t(1)] by simp
  have "L g = None" "g \<notin> frees s" using mapped_page [OF inv p q] True gs unfolding eq by auto
  then have "pm_frame t g = pm_frame s g" by (rule k [rotated])
  moreover have "h \<in> frees s" using t(2) h(2) by auto
  ultimately show ?thesis using True gs h unfolding page_copied_def by auto
qed (use b t(3) in \<open>simp add: page_copied_def\<close>)

lemma copied_trans:
  assumes a: "copied s L p c x y t L1" and b: "copied t L1 p c y z u L2" and o: "x \<le> y" "y \<le> z"
    and bd: "unat z < 2 ^ 39" and inv: "pt_inv s L" and p: "L p = Some (p, Root)" and c: "L c = Some (c, Root)" and pc: "p \<noteq> c"
  shows "copied s L p c x z u L2"
proof -
  note a = copiedD [OF a] and b = copiedD [OF b]
  have p1: "L1 c = Some (c, Root)" "\<And>q r. L q = Some (r, Root) \<Longrightarrow> L1 q = Some (r, Root)"
    using a(2) c by (auto simp: map_le_def dom_def)
  have b39: "unat la < 2 ^ 39" if "la < z" for la using that bd by (simp add: word_less_nat_alt)
  have 1: "page_copied s p c la u L2" if la: "x \<le> la" "la < z" for la
  proof (cases "la < y")
    case True
    then have "c = c \<longrightarrow> y \<le> la \<longrightarrow> z \<le> la" using leD by blast
    from page_copied_later [OF a(6) [OF la(1) True] b(5) b(7) [OF p1(1) b39 [OF la(2)] this]] show ?thesis
      using b(8-10) by blast
  next
    case False
    then have yl: "y \<le> la" by simp
    have "pte_at t p la = pte_at s p la" using a(7) [OF p b39 [OF la(2)]] pc by simp
    then show ?thesis using page_copied_earlier [OF inv p b(6) [OF yl la(2)] a(3,5) _ a(9)] by blast
  qed
  have 2: "pte_at u p' la = pte_at s p' la" if "L p' = Some (r', Root)" "unat la < 2 ^ 39" "\<not> (p' = c \<and> x \<le> la \<and> la < z)" for p' r' la
  proof -
    have "p' = c \<longrightarrow> y \<le> la \<longrightarrow> z \<le> la" "p' = c \<longrightarrow> x \<le> la \<longrightarrow> y \<le> la" using that(3) o by auto
    then show ?thesis using a(7) [OF that(1,2)] b(7) [OF p1(2) [OF that(1)] that(2)] by simp
  qed
  have 3: "L2 g = None \<and> pm_frame u g = pm_frame s g \<and> refs u g = refs s g" if "g \<notin> frees s" "L g = None" for g
    using a(8-10) [OF that] b(8-10) [of g] a(5) that(1) by auto
  have 4: "L \<subseteq>\<^sub>m L2" "frees u \<subseteq> frees s" "pm_npage u = pm_npage s" "reserved u = reserved s"
    using a(2-5) b(2-5) by (auto intro: map_le_trans)
  have "kernel_kept s L u" by (rule kernel_kept_trans [OF a(11) b(11) a(2)])
  then show ?thesis unfolding copied_def using b(1) 1 2 3 4 by blast
qed

text \<open>The parent's pages in a range.\<close>

definition mapped_pages :: "pmem \<Rightarrow> nat \<Rightarrow> 64 word \<Rightarrow> 64 word \<Rightarrow> nat set" where
  "mapped_pages s p start en =
     {k \<in> {unat start div 4096..<unat en div 4096}. valid (pte_at s p (of_nat (4096 * k)))}"

lemma copy_step:
  assumes inv: "pt_inv s L" and p: "L p = Some (p, Root)" and c: "L c = Some (c, Root)" and pc: "p \<noteq> c"
    and se: "start < en" "en \<le> USERTOP" "unat start mod 4096 = 0" "unat en mod 4096 = 0"
    and nv: "\<forall>la. start \<le> la \<and> la < en \<longrightarrow> \<not> valid (pte_at s c la)"
    and cd: "valid (pte_at s p start) \<longrightarrow> 3 \<le> card (frees s)"
    and n: "start' = (if leaf s p start = None then ROUNDDOWN (start + PTSIZE) PTSIZE else start + PGSIZE)"
  shows "\<exists>u L'. (case leaf s p start of None \<Rightarrow> Some (True, s)
      | Some q \<Rightarrow> if valid (read_pte s q) then copy_page c q start s else Some (True, s)) = Some (True, u)
     \<and> copied s L p c start (min start' en) u L'
     \<and> card (frees s) \<le> card (frees u) + (if valid (pte_at s p start) then 3 else 0)"
proof -
  note nx = next_start [OF se(1-3) n]
  show ?thesis
  proof (cases "valid (pte_at s p start)")
    case False
    have "page_copied s p c la s L" if "start \<le> la" "la < min start' en" for la
      using nx(5) [of la] that False nv by (simp add: page_copied_def)
    then have "copied s L p c start (min start' en) s L" using inv by (simp add: copied_def)
    then show ?thesis using False by (intro exI [of _ s] exI [of _ L]) (auto simp: pte_at_def split: option.splits)
  next
    case True
    then obtain q where q: "leaf s p start = Some q" by (cases "leaf s p start") (auto simp: pte_at_def)
    have eq: "pte_at s p start = read_pte s q" using q by (simp add: pte_at_def)
    have "\<not> valid (pte_at s c start)" using nv se(1) by simp
    from copy_page_ok [OF inv p c pc q True this] cd True obtain u L' g h where
      u: "copy_page c q start s = Some (True, u)" "pt_inv u L'" "L \<subseteq>\<^sub>m L'" "pm_npage u = pm_npage s"
     "reserved u = reserved s" "frees u \<subseteq> frees s" "card (frees s) \<le> card (frees u) + 3" "kernel_kept s L u"
     and h: "pte2page s (pte_at s p start) = Some g" "h \<in> frees s" "h \<notin> frees u" "L' h = None"
     "pte_at u c start = pte_create (page2ppn h) (PTE_V OR (pte_at s p start AND PTE_USER))"
     "pm_frame u h = pm_frame s g" "refs u h = 1"
     and o: "\<forall>p' r' la'. L p' = Some (r', Root) \<longrightarrow> \<not> (p' = c \<and> page_idx la' = page_idx start) \<longrightarrow> pte_at u p' la' = pte_at s p' la'"
     and k: "\<forall>x. x \<notin> frees s \<longrightarrow> L x = None \<longrightarrow> L' x = None \<and> pm_frame u x = pm_frame s x \<and> refs u x = refs s x"
      by blast
    have "page_copied s p c la u L'" if "start \<le> la" "la < min start' en" for la
    proof -
      have d: "unat la div 4096 = unat start div 4096" using nx(6) that q by simp
      have "page_copied s p c start u L'" unfolding page_copied_def using True h by auto
      then show ?thesis unfolding page_copied_def pte_at_same_page [OF d] .
    qed
    moreover have st: "unat start < 2 ^ 39" using below_user [OF less_le_trans [OF se(1,2)]] by simp
    have "pte_at u p' la = pte_at s p' la" if "L p' = Some (r', Root)" "unat la < 2 ^ 39"
        "\<not> (p' = c \<and> start \<le> la \<and> la < min start' en)" for p' r' la
    proof -
      have "page_idx la \<noteq> page_idx start" if "p' = c"
      proof
        assume "page_idx la = page_idx start"
        then have "unat la div 4096 = unat start div 4096" using page_idx_eq [OF \<open>unat la < 2 ^ 39\<close> st] by simp
        moreover have "start < min start' en" using nx(1) se(1) by simp
        moreover have "unat (min start' en) mod 4096 = 0" using nx(3) se(4) by (simp add: min_def)
        ultimately show False
          using page_range [OF se(3), of "min start' en" la] \<open>\<not> (p' = c \<and> start \<le> la \<and> la < min start' en)\<close> that by auto
      qed
      then show ?thesis using o that(1) by blast
    qed
    ultimately have "copied s L p c start (min start' en) u L'" unfolding copied_def using u k by blast
    then show ?thesis using u(1,7) q True eq by (intro exI [of _ u] exI [of _ L']) simp
  qed
qed

lemma page_address:
  assumes "unat a mod 4096 = 0" shows "of_nat (4096 * (unat a div 4096)) = (a :: 64 word)"
proof -
  have "4096 * (unat a div 4096) = unat a" using assms mult_div_mod_eq [of 4096 "unat a"] by simp
  then show ?thesis by simp
qed

lemma mapped_pages_step:
  assumes se: "start < en" "unat start mod 4096 = 0" "unat en mod 4096 = 0"
    and s': "start < start'" "unat start' mod 4096 = 0"
  shows "card (mapped_pages s p start' en) + (if valid (pte_at s p start) then 1 else 0) \<le> card (mapped_pages s p start en)"
proof -
  have fin: "finite (mapped_pages s p a en)" for a by (simp add: mapped_pages_def)
  have "unat start < unat start'" "unat start < unat en" using se(1) s'(1) by (simp_all add: word_less_nat_alt)
  then have lt: "unat start div 4096 < unat start' div 4096" "unat start div 4096 < unat en div 4096"
    using se(2,3) s'(2) by (auto simp: mod_eq_0_iff_dvd elim!: dvdE)
  let ?k = "if valid (pte_at s p start) then {unat start div 4096} else {}"
  have "mapped_pages s p start' en \<union> ?k \<subseteq> mapped_pages s p start en"
    using lt page_address [OF se(2)] by (auto simp: mapped_pages_def)
  then have "card (mapped_pages s p start' en \<union> ?k) \<le> card (mapped_pages s p start en)" by (rule card_mono [OF fin])
  moreover have "mapped_pages s p start' en \<inter> ?k = {}" using lt by (auto simp: mapped_pages_def)
  ultimately show ?thesis by (subst (asm) card_Un_disjoint) (auto simp: fin)
qed

lemma mapped_pages_cong:
  assumes "en \<le> USERTOP" and "unat en mod 4096 = 0" and "\<And>la. unat la < 2 ^ 39 \<Longrightarrow> pte_at u p la = pte_at s p la"
  shows "mapped_pages u p start en = mapped_pages s p start en"
proof -
  have "unat (of_nat (4096 * k) :: 64 word) < 2 ^ 39" if "k < unat en div 4096" for k
  proof -
    have "4096 * k < unat en" using that assms(2) by (auto simp: mod_eq_0_iff_dvd elim!: dvdE)
    moreover have "unat en \<le> 2 ^ 31" using assms(1) by (simp add: word_le_nat_alt USERTOP_def)
    ultimately show ?thesis by (subst unat_of_nat) simp
  qed
  then show ?thesis using assms(3) by (auto simp: mapped_pages_def)
qed

lemma copy_loop_ok:
  assumes "pt_inv s L" and "L p = Some (p, Root)" "L c = Some (c, Root)" "p \<noteq> c"
    and "start < en" "en \<le> USERTOP" "unat start mod 4096 = 0" "unat en mod 4096 = 0"
    and "\<forall>la. start \<le> la \<and> la < en \<longrightarrow> \<not> valid (pte_at s c la)"
    and "3 * card (mapped_pages s p start en) \<le> card (frees s)"
  shows "\<exists>u L'. copy_loop c p start en s = Some (0, u) \<and> copied s L p c start en u L'
     \<and> card (frees s) \<le> card (frees u) + 3 * card (mapped_pages s p start en)"
  using assms
proof (induction "unat en - unat start" arbitrary: start s L rule: less_induct)
  case less
  note inv = less.prems(1) and p = less.prems(2) and c = less.prems(3) and pc = less.prems(4)
  define start' where n: "start' = (if leaf s p start = None then ROUNDDOWN (start + PTSIZE) PTSIZE else start + PGSIZE)"
  note nx = next_start [OF less.prems(5-7) n]
  note mp = mapped_pages_step [OF less.prems(5,7,8) nx(1,3), of s p]
  have "valid (pte_at s p start) \<longrightarrow> 3 \<le> card (frees s)" using mp less.prems(10) by (auto split: if_splits)
  from copy_step [OF less.prems(1-9) this n] obtain u L' where
    u: "(case leaf s p start of None \<Rightarrow> Some (True, s)
      | Some q \<Rightarrow> if valid (read_pte s q) then copy_page c q start s else Some (True, s)) = Some (True, u)"
    and cp: "copied s L p c start (min start' en) u L'"
    and cd: "card (frees s) \<le> card (frees u) + (if valid (pte_at s p start) then 3 else 0)" by blast
  have eq: "copy_loop c p start en s = (if start' < en then copy_loop c p start' en u else Some (0, u))"
    using u nx(2) get_pte_lookup [OF inv p user_pdx_below [OF less_le_trans [OF less.prems(5,6)]]]
    by (subst copy_loop.simps) (auto simp: n valid_def split: option.splits if_splits)
  have en: "unat en < 2 ^ 39" using less.prems(6) by (simp add: word_le_nat_alt USERTOP_def)
  show ?case
  proof (cases "start' < en")
    case True
    have m: "min start' en = start'" using True by simp
    note cD = copiedD [OF cp [unfolded m]]
    have p': "L' p = Some (p, Root)" "L' c = Some (c, Root)" using cD(2) p c by (auto simp: map_le_def dom_def)
    have b39: "unat la < 2 ^ 39" if "la < en" for la using that en by (simp add: word_less_nat_alt)
    have "\<not> valid (pte_at u c la)" if "start' \<le> la \<and> la < en" for la
      using cD(7) [OF c b39, of la] that less.prems(9) nx(1) by (metis less_imp_le order_trans)
    moreover have "mapped_pages u p start' en = mapped_pages s p start' en"
      by (rule mapped_pages_cong [OF less.prems(6,8)]) (use cD(7) [OF p] pc in simp)
    moreover have "3 * card (mapped_pages s p start' en) \<le> card (frees u)"
      using mp less.prems(10) cd by (auto split: if_splits)
    moreover have "unat en - unat start' < unat en - unat start" using nx(1) True by (simp add: word_less_nat_alt)
    ultimately obtain v L'' where v: "copy_loop c p start' en u = Some (0, v)" "copied u L' p c start' en v L''"
       "card (frees u) \<le> card (frees v) + 3 * card (mapped_pages s p start' en)"
      using less.hyps [of start' u L'] cD(1) p' pc True less.prems(6,8) nx(3) by metis
    have "copied s L p c start en v L''"
      by (rule copied_trans [OF cp [unfolded m] v(2) _ _ en inv p c pc]) (use nx(1) True in auto)
    moreover have "card (frees s) \<le> card (frees v) + 3 * card (mapped_pages s p start en)"
      using v(3) cd mp by (auto split: if_splits)
    ultimately show ?thesis using v(1) eq True by auto
  next
    case False
    then have "min start' en = en" by simp
    moreover have "card (frees s) \<le> card (frees u) + 3 * card (mapped_pages s p start en)"
      using cd mp by (auto split: if_splits)
    ultimately show ?thesis using eq cp False by auto
  qed
qed

end
