(* ===== verification/Paging.thy ===== *)
theory Paging
  imports Paging_Range
begin

text \<open>
  The properties of the page-table operations, with the concrete address spaces they are applied to.
\<close>

section \<open>A concrete state\<close>

lemma user_base: "user_pdx (PDX1 USERBASE)" "USERBASE < USERTOP"
proof -
  show "USERBASE < USERTOP" by (simp add: USERBASE_def USERTOP_def)
  then show "user_pdx (PDX1 USERBASE)" by (rule user_pdx_below)
qed

lemma take_user: "take_bit 10 (PTE_USER :: 64 word) = PTE_USER"
  by (simp add: PTE_USER_def PTE_R_def PTE_W_def PTE_X_def PTE_U_def PTE_V_def)

lemma fresh_tables_inv:
  assumes p: "fl_inv p bs" "\<forall>f\<in>free_set p. f + nbase < n" "n < 2 ^ 32" "\<forall>q. page_ref p q = 0" "\<forall>q. \<not> PageReserved p q"
    and L: "\<And>f r ro. L f = Some (r, ro) \<Longrightarrow> f + nbase < n \<and> f \<notin> free_set p \<and> (ro = Kern \<or> ro = Root \<and> r = f)"
    and w: "\<And>f k. L f = Some (f, Root) \<Longrightarrow> user_pdx k \<Longrightarrow> \<not> valid (fr f k)"
  shows "pt_inv \<lparr>pm_pmm = p, pm_npage = n, pm_frame = fr\<rparr> L"
proof -
  let ?s = "\<lparr>pm_pmm = p, pm_npage = n, pm_frame = fr\<rparr>"
  have "maps ?s L g = {}" for g using L by (fastforce simp: maps_def)
  moreover have "frames_ok ?s L" unfolding frames_ok_def using p L by fastforce
  moreover have "tables_ok ?s L"
    unfolding tables_ok_def
  proof (intro allI impI)
    fix f r ro k assume a: "L f = Some (r, ro)" "walked ro k" "valid (pm_frame ?s f k)"
    then have "ro = Root" "r = f" using L [OF a(1)] by auto
    then show "\<exists>g. table_of ?s f k = Some g \<and> (case ro of Tab i j \<Rightarrow> L g = None \<and> g \<notin> frees ?s \<and> \<not> reserved ?s g
        | _ \<Rightarrow> L g = Some (r, child ro k))" using w [of f k] a by simp
  qed
  ultimately show ?thesis using p(4) by (simp add: pt_inv_def)
qed

text \<open>The kernel part that every directory shares: its last entry leads through tables of the kernel
  to entries that map physical memory, the free frames included.\<close>

definition kernel_mapped :: "pmem \<Rightarrow> roles \<Rightarrow> nat \<Rightarrow> bool" where
  "kernel_mapped s L p \<longleftrightarrow> (\<exists>d t x y. L d = Some (x, Kern) \<and> L t = Some (y, Kern)
     \<and> table_of s p 511 = Some d \<and> table_of s d 0 = Some t \<and> (\<forall>f\<in>frees s. table_of s t f = Some f))"

lemma kernel_mapped_kept:
  assumes "kernel_mapped s L p" and "L p = Some (p, Root)" and "kernel_kept s L u" and "L \<subseteq>\<^sub>m L'"
    and "pm_npage u = pm_npage s" and "frees u \<subseteq> frees s"
  shows "kernel_mapped u L' p"
proof -
  obtain d t x y where k: "L d = Some (x, Kern)" "L t = Some (y, Kern)" "table_of s p 511 = Some d" "table_of s d 0 = Some t"
     "\<forall>f\<in>frees s. table_of s t f = Some f" using assms(1) unfolding kernel_mapped_def by blast
  have up: "\<not> walked Root 511" by (simp add: user_pdx_def PDX1_def USERTOP_def PDX1SHIFT_def)
  have "pm_frame u p 511 = pm_frame s p 511" "\<And>i. pm_frame u d i = pm_frame s d i" "\<And>i. pm_frame u t i = pm_frame s t i"
    using kernel_keptD [OF assms(3)] k(1,2) assms(2) up by auto
  then have "table_of u p 511 = Some d" "table_of u d 0 = Some t" "\<And>i. table_of u t i = table_of s t i"
    using table_of_cong [OF assms(5)] k by auto
  moreover have "L' d = Some (x, Kern)" "L' t = Some (y, Kern)" using k(1,2) assms(4) by (auto simp: map_le_def dom_def)
  ultimately show ?thesis using k(5) assms(6) unfolding kernel_mapped_def
    by (metis subsetD)
qed

text \<open>Two page directories without user entries in the frames 1 and 2, with the kernel's part and its
  tables in the frames 3 and 4, the free frames 10 to 19, and the frame 5 in no one's possession.\<close>

definition example_words :: "nat \<Rightarrow> nat \<Rightarrow> 64 word" where
  "example_words f k =
     (if (f = 1 \<or> f = 2) \<and> k = 511 then pte_create (page2ppn 3) (PTE_U OR PTE_V)
      else if f = 3 \<and> k = 0 then pte_create (page2ppn 4) (PTE_U OR PTE_V)
      else if f = 4 \<and> k < 20 then pte_create (page2ppn k) (PTE_V OR PTE_R OR PTE_W)
      else 0)"

lemma example_tables:
  "\<exists>s L. pt_inv s L \<and> L 1 = Some (1, Root) \<and> L 2 = Some (2, Root) \<and> L 5 = None \<and> pm_npage s = nbase + 20
     \<and> frees s = {10..<20} \<and> \<not> reserved s 5 \<and> (\<forall>la. pte_at s 1 la = 0) \<and> (\<forall>la. pte_at s 2 la = 0)
     \<and> kernel_mapped s L 1 \<and> kernel_mapped s L 2"
proof -
  obtain t where t: "fl_inv t [10]" "free_set t = {10..<20}" "\<forall>p. \<not> PageReserved t p"
    using example_region [of 10 10] by auto
  let ?p = "t\<lparr>pages := (\<lambda>q. (pages t q)\<lparr>pg_ref := 0\<rparr>)\<rparr>"
  let ?L = "[1 \<mapsto> (1, Root), 2 \<mapsto> (2, Root), 3 \<mapsto> (3, Kern), 4 \<mapsto> (4, Kern)]"
  let ?s = "\<lparr>pm_pmm = ?p, pm_npage = nbase + 20, pm_frame = example_words\<rparr>"
  have sv: "same_view ?p t"
    by (simp add: same_view_def fun_eq_iff page_ref_def property_def PageProperty_def PageReserved_def)
  have r: "\<forall>q. page_ref ?p q = 0" "\<forall>q. \<not> PageReserved ?p q"
    using t(3) by (simp_all add: page_ref_def PageReserved_def)
  have f: "fl_inv ?p [10]" "free_set ?p = {10..<20}"
    using t same_view_fl_inv [OF sv] same_view_free_set [OF sv] by simp_all
  have two: "PDX1 USERTOP = 2" by (simp add: idx_nat USERTOP_def)
  have nv: "\<not> valid (example_words f k)" if "f = 1 \<or> f = 2" "user_pdx k" for f k
    using that by (auto simp: example_words_def user_pdx_def two)
  have "pt_inv ?s ?L"
    by (rule fresh_tables_inv [OF f(1) _ _ r]) (use f(2) nv in \<open>auto simp: nbase_def split: if_splits\<close>)
  moreover have "pte_at ?s q la = 0" if "q = 1 \<or> q = 2" for q la
  proof (cases "user_pdx (PDX1 la)")
    case True
    then have "table_of ?s q (PDX1 la) = None" using nv [OF that True] by (simp add: table_of_def)
    then show ?thesis by (simp add: pte_at_def leaf_def)
  qed (simp add: pte_at_def leaf_def)
  moreover have "kernel_mapped ?s ?L q" if "q = 1 \<or> q = 2" for q
  proof -
    have ty: "take_bit 10 (PTE_U OR PTE_V) = PTE_U OR PTE_V" "take_bit 10 (PTE_V OR PTE_R OR PTE_W) = PTE_V OR PTE_R OR PTE_W"
      by (simp_all add: PTE_U_def PTE_V_def PTE_R_def PTE_W_def)
    have k: "KADDR ?s (PTE_ADDR (pte_create (page2ppn g) ty)) = Some g" if "g < 20" "take_bit 10 ty = ty" for g ty
      by (rule KADDR_create(1)) (use that in \<open>simp_all add: nbase_def\<close>)
    have "table_of ?s q 511 = Some 3" "table_of ?s 3 0 = Some 4" "\<forall>g\<in>frees ?s. table_of ?s 4 g = Some g"
      using that k ty f(2) by (auto simp: table_of_def example_words_def)
    then show ?thesis unfolding kernel_mapped_def by (intro exI [of _ 3] exI [of _ 4]) simp
  qed
  ultimately show ?thesis using f r by (intro exI [of _ ?s] exI [of _ ?L]) auto
qed

text \<open>The same with frame 5 mapped at \<open>USERBASE\<close> in the directory of frame 1.\<close>

lemma example_mapping:
  "\<exists>s L. pt_inv s L \<and> L 1 = Some (1, Root) \<and> L 2 = Some (2, Root) \<and> L 5 = None \<and> frees s \<subseteq> {10..<20} \<and> 8 \<le> card (frees s)
     \<and> pte_at s 1 USERBASE = pte_create (page2ppn 5) (PTE_V OR PTE_USER) \<and> pte2page s (pte_at s 1 USERBASE) = Some 5
     \<and> (\<forall>la. page_idx la \<noteq> page_idx USERBASE \<longrightarrow> pte_at s 1 la = 0) \<and> (\<forall>la. pte_at s 2 la = 0)
     \<and> kernel_mapped s L 1 \<and> kernel_mapped s L 2"
proof -
  obtain s L where s: "pt_inv s L" "L 1 = Some (1, Root)" "L 2 = Some (2, Root)" "L 5 = None" "pm_npage s = nbase + 20"
     "frees s = {10..<20}" "\<not> reserved s 5" and z: "\<forall>la. pte_at s 1 la = 0" "\<forall>la. pte_at s 2 la = 0"
    and km: "kernel_mapped s L 1" "kernel_mapped s L 2"
    using example_tables by blast
  have five: "5 \<notin> frees s" "5 + nbase < pm_npage s" using s(5,6) by auto
  have nv: "\<not> valid (pte_at s 1 USERBASE)" using z by simp
  obtain ret u L' where u: "pt_inv u L'" "L \<subseteq>\<^sub>m L'" "L' 5 = None"
    and r: "(ret = 0 \<and> pte_at u 1 USERBASE = pte_create (page2ppn 5) (PTE_V OR PTE_USER))
        \<or> (ret = - E_NO_MEM \<and> frees u = {} \<and> pte_at u 1 USERBASE = pte_at s 1 USERBASE)"
    and o: "\<forall>p' r' la'. L p' = Some (r', Root) \<longrightarrow> \<not> (p' = 1 \<and> page_idx la' = page_idx USERBASE) \<longrightarrow> pte_at u p' la' = pte_at s p' la'"
    and f: "frees u \<subseteq> frees s" "card (frees s) \<le> card (frees u) + 2" "pm_npage u = pm_npage s" "kernel_kept s L u"
    using page_insert_ok [OF s(1,2) user_base(1) s(4) five(1) s(7) five(2) take_user] nv by auto
  have c: "8 \<le> card (frees u)" using f(2) s(6) by simp
  then have e: "pte_at u 1 USERBASE = pte_create (page2ppn 5) (PTE_V OR PTE_USER)" using r by auto
  have ty: "take_bit 10 (PTE_V OR PTE_USER) = PTE_V OR PTE_USER"
    by (simp add: PTE_USER_def PTE_R_def PTE_W_def PTE_X_def PTE_U_def PTE_V_def)
  have n: "5 + nbase < pm_npage u" "pm_npage u < 2 ^ 32" using five f(3) pt_invD(2) [OF u(1)] by simp_all
  have "pte2page u (pte_at u 1 USERBASE) = Some 5"
    using KADDR_create(1) [OF n ty] pte_create_valid unfolding e by (simp add: pte2page_def pa2page_KADDR)
  moreover have "L' 1 = Some (1, Root)" "L' 2 = Some (2, Root)" using u(2) s(2,3) by (auto simp: map_le_def dom_def)
  moreover have "pte_at u 2 la = 0" for la using o s(3) z by simp
  moreover have "pte_at u 1 la = 0" if "page_idx la \<noteq> page_idx USERBASE" for la using o s(2) z that by simp
  ultimately show ?thesis
    using u(1,3) c e f(1) kernel_mapped_kept [OF km(1) s(2) f(4) u(2) f(3,1)]
      kernel_mapped_kept [OF km(2) s(3) f(4) u(2) f(3,1)] unfolding s(6) by (intro exI [of _ u] exI [of _ L']) simp
qed

lemma take_small: "take_bit 10 perm = perm" if "perm < 0x400" for perm :: "64 word"
  using that by (simp add: unsigned_take_bit_eq word_unat_eq_iff take_bit_nat_eq_self word_less_nat_alt)

lemma set_vaddr_view: "same_view (upd_page p (\<lambda>g. g\<lparr>pg_pra_vaddr := v\<rparr>) s) s"
  "page_ref (upd_page p (\<lambda>g. g\<lparr>pg_pra_vaddr := v\<rparr>) s) q = page_ref s q"
  by (auto simp: same_view_def fun_eq_iff page_ref_def property_def PageProperty_def PageReserved_def upd_page_def)

section \<open>Properties\<close>

text \<open>C12: \<open>page_insert\<close> at a user address, with a user part of well-formed page tables (the kernel part of the
  directories is arbitrary), either maps the page of \<open>la\<close> to the frame with the given permissions, so that
  \<open>get_page\<close> finds it, or returns \<open>-E_NO_MEM\<close> with no frame left and that mapping unchanged; every other user
  mapping of every address space, the kernel's entries and tables and the contents of every frame that is no user
  table are unchanged, and the reference counters count the mappings again.\<close>

theorem page_insert_maps:
  assumes "pt_inv s L" and "L pgdir = Some (pgdir, Root)" and "L page = None" and "page \<notin> frees s" and "\<not> reserved s page"
    and "page + nbase < pm_npage s" and "perm < 0x400" and "la < USERTOP"
    and "\<forall>g. pte2page s (pte_at s pgdir la) = Some g \<longrightarrow> below_free s g"
  shows "\<exists>ret u L'. page_insert pgdir page la perm s = Some (ret, u) \<and> pt_inv u L' \<and> L \<subseteq>\<^sub>m L'
     \<and> ((ret = 0 \<and> pte_at u pgdir la = pte_create (page2ppn page) (PTE_V OR perm)
            \<and> (\<exists>q. get_page pgdir la u = Some (Some page, Some q, u)))
        \<or> (ret = - E_NO_MEM \<and> frees u = {} \<and> pte_at u pgdir la = pte_at s pgdir la))
     \<and> (\<forall>p la'. L p = Some (p, Root) \<longrightarrow> \<not> (p = pgdir \<and> page_idx la' = page_idx la) \<longrightarrow> pte_at u p la' = pte_at s p la')
     \<and> kernel_kept s L u \<and> (\<forall>g. L' g = None \<longrightarrow> pm_frame u g = pm_frame s g)"
proof -
  have perm: "take_bit 10 perm = perm" using assms(7) by (rule take_small)
  note up = user_pdx_below [OF assms(8)]
  obtain ret u L' where u: "page_insert pgdir page la perm s = Some (ret, u)" "pt_inv u L'" "L \<subseteq>\<^sub>m L'" "pm_npage u = pm_npage s"
     "(ret = 0 \<and> pte_at u pgdir la = pte_create (page2ppn page) (PTE_V OR perm))
        \<or> (ret = - E_NO_MEM \<and> frees u = {} \<and> pte_at u pgdir la = pte_at s pgdir la)"
     "\<forall>p' r' la'. L p' = Some (r', Root) \<longrightarrow> \<not> (p' = pgdir \<and> page_idx la' = page_idx la) \<longrightarrow> pte_at u p' la' = pte_at s p' la'"
     "\<forall>g. L' g = None \<longrightarrow> pm_frame u g = pm_frame s g" "kernel_kept s L u"
    using page_insert_ok [OF assms(1,2) up assms(3-6) perm] assms(9) by blast
  have p': "L' pgdir = Some (pgdir, Root)" using u(3) assms(2) by (auto simp: map_le_def dom_def)
  have "\<exists>q. get_page pgdir la u = Some (Some page, Some q, u)"
    if e: "pte_at u pgdir la = pte_create (page2ppn page) (PTE_V OR perm)"
  proof -
    obtain q where q: "leaf u pgdir la = Some q" using e by (cases "leaf u pgdir la") (auto simp: pte_at_def dest: arg_cong [of _ _ valid])
    have rq: "read_pte u q = pte_create (page2ppn page) (PTE_V OR perm)" using e q by (simp add: pte_at_def)
    have ty: "take_bit 10 (PTE_V OR perm) = PTE_V OR perm" using perm by (simp add: take_bit_or PTE_V_def)
    have "pte2page u (read_pte u q) = Some page"
      using KADDR_create(1) [OF _ _ ty, of page u] assms(6) u(4) pt_invD(2) [OF u(2)] pte_create_valid
      by (simp add: rq pte2page_def pa2page_KADDR)
    then show ?thesis
      using get_pte_lookup [OF u(2) p' up] q pte_create_valid by (simp add: get_page_def rq)
  qed
  then show ?thesis using u by (intro exI [of _ ret] exI [of _ u] exI [of _ L']) auto
qed

theorem page_insert_maps_witness:
  "\<exists>s L ret u L'. pt_inv s L \<and> L 1 = Some (1, Root) \<and> kernel_mapped s L 1
     \<and> page_insert 1 5 USERBASE PTE_USER s = Some (ret, u) \<and> pt_inv u L' \<and> pm_frame u 1 511 = pm_frame s 1 511"
proof -
  obtain s L where s: "pt_inv s L" "L 1 = Some (1, Root)" "L 5 = None" "pm_npage s = nbase + 20"
     "frees s = {10..<20}" "\<not> reserved s 5" "\<forall>la. pte_at s 1 la = 0" "kernel_mapped s L 1"
    using example_tables by blast
  have "\<forall>g. pte2page s (pte_at s 1 USERBASE) = Some g \<longrightarrow> below_free s g" using s(7) by (simp add: pte2page_def)
  then obtain ret u L' where u: "page_insert 1 5 USERBASE PTE_USER s = Some (ret, u)" "pt_inv u L'" "kernel_kept s L u"
    using page_insert_maps [OF s(1-3), of PTE_USER USERBASE] s(4-6) user_base(2)
    by (auto simp: PTE_USER_def PTE_R_def PTE_W_def PTE_X_def PTE_U_def PTE_V_def)
  have "pm_frame u 1 511 = pm_frame s 1 511" by (rule kernel_keptD [OF u(3) s(2)]) (simp add: user_pdx_def idx_nat USERTOP_def)
  then show ?thesis using s u by blast
qed

text \<open>\<open>unmap_range\<close> of a page-aligned user range returns with nothing mapped in the range, keeps
  every other mapping of every address space, the contents of all mapped frames and the invariant,
  and frees every frame whose last mapping it removed.\<close>

theorem unmap_range_unmaps:
  assumes "pt_inv s L" and "L pgdir = Some (pgdir, Root)" and "start mod PGSIZE = 0" and "en mod PGSIZE = 0" and "USER_ACCESS start en"
    and "\<forall>la g. start \<le> la \<and> la < en \<longrightarrow> pte2page s (pte_at s pgdir la) = Some g \<longrightarrow> has_above s g"
  shows "\<exists>u. unmap_range pgdir start en s = Some u \<and> pt_inv u L
     \<and> (\<forall>la. start \<le> la \<and> la < en \<longrightarrow> \<not> valid (pte_at u pgdir la))
     \<and> (\<forall>p la. L p = Some (p, Root) \<longrightarrow> unat la < 2 ^ 39 \<longrightarrow> \<not> (p = pgdir \<and> start \<le> la \<and> la < en) \<longrightarrow> pte_at u p la = pte_at s p la)
     \<and> kernel_kept s L u \<and> (\<forall>g. L g = None \<longrightarrow> pm_frame u g = pm_frame s g)
     \<and> frees s \<subseteq> frees u \<and> (\<forall>g. L g = None \<longrightarrow> 0 < refs s g \<longrightarrow> refs u g = 0 \<longrightarrow> g \<in> frees u)"
proof -
  have al: "unat start mod 4096 = 0" "unat en mod 4096 = 0"
    using assms(3,4) by (metis size_nat(1) unat_mod unsigned_0)+
  have se: "start < en" "en \<le> USERTOP" using assms(5) by (simp_all add: USER_ACCESS_def)
  from unmap_loop_ok [OF assms(1,2) se al] assms(6) obtain u where
    u: "unmap_loop pgdir start en s = Some u" "unmapped s L pgdir start en u" by blast
  have "unmap_range pgdir start en s = Some u" using assms(3-5) u(1) by (simp add: unmap_range_def)
  then show ?thesis using u(2) unfolding unmapped_def by blast
qed

theorem unmap_range_unmaps_witness:
  "\<exists>s L u. pt_inv s L \<and> valid (pte_at s 1 USERBASE) \<and> unmap_range 1 USERBASE (USERBASE + PGSIZE) s = Some u
     \<and> \<not> valid (pte_at u 1 USERBASE)"
proof -
  obtain s L where s: "pt_inv s L" "L 1 = Some (1, Root)" "frees s \<subseteq> {10..<20}" "8 \<le> card (frees s)"
    "pte_at s 1 USERBASE = pte_create (page2ppn 5) (PTE_V OR PTE_USER)" "pte2page s (pte_at s 1 USERBASE) = Some 5"
    "\<forall>la. page_idx la \<noteq> page_idx USERBASE \<longrightarrow> pte_at s 1 la = 0"
    using example_mapping by blast
  have "frees s \<noteq> {}" using s(4) by auto
  then have a: "has_above s 5" using s(3) by (fastforce simp: has_above_def)
  have "has_above s g" if g: "pte2page s (pte_at s 1 la) = Some g" for la g
  proof (cases "page_idx la = page_idx USERBASE")
    case True
    then have "leaf s 1 la = leaf s 1 USERBASE" by (simp add: page_idx_def leaf_def)
    then have "pte_at s 1 la = pte_at s 1 USERBASE" by (simp add: pte_at_def)
    then show ?thesis using g s(6) a by simp
  qed (use s(7) g in \<open>simp add: pte2page_def\<close>)
  then have h: "\<forall>la g. USERBASE \<le> la \<and> la < USERBASE + PGSIZE \<longrightarrow> pte2page s (pte_at s 1 la) = Some g \<longrightarrow> has_above s g"
    by blast
  have w: "USERBASE mod PGSIZE = 0" "(USERBASE + PGSIZE) mod PGSIZE = 0" "USER_ACCESS USERBASE (USERBASE + PGSIZE)"
    "USERBASE \<le> USERBASE" "USERBASE < USERBASE + PGSIZE"
    by (simp_all add: USERBASE_def PGSIZE_def USER_ACCESS_def USERTOP_def)
  obtain u where "unmap_range 1 USERBASE (USERBASE + PGSIZE) s = Some u" "\<not> valid (pte_at u 1 USERBASE)"
    using unmap_range_unmaps [OF s(1,2) w(1-3) h] w(4,5) by blast
  then show ?thesis using s(1,5) valid_simps(2) by metis
qed

text \<open>C13: with three free frames for every page of the parent in the range and nothing of the child's
  there, \<open>copy_range\<close> gives the child its own copy of every page, with the same contents, the parent's
  permissions and one reference; the parent, all other address spaces, the kernel's entries and tables, and all other
  frames are unchanged.\<close>

theorem copy_range_copies:
  assumes "pt_inv s L" and "L frm = Some (frm, Root)" and "L to = Some (to, Root)" and "frm \<noteq> to"
    and "start mod PGSIZE = 0" and "en mod PGSIZE = 0" and "USER_ACCESS start en"
    and "\<forall>la. start \<le> la \<and> la < en \<longrightarrow> \<not> valid (pte_at s to la)"
    and "3 * card (mapped_pages s frm start en) \<le> card (frees s)"
  shows "\<exists>u L'. copy_range to frm start en s = Some (0, u) \<and> pt_inv u L' \<and> L \<subseteq>\<^sub>m L'
     \<and> (\<forall>la. start \<le> la \<and> la < en \<longrightarrow>
          (if valid (pte_at s frm la)
           then \<exists>g h. pte2page s (pte_at s frm la) = Some g \<and> h \<in> frees s \<and> refs u h = 1 \<and> pm_frame u h = pm_frame s g
                  \<and> pte_at u to la = pte_create (page2ppn h) (PTE_V OR (pte_at s frm la AND PTE_USER))
           else \<not> valid (pte_at u to la)))
     \<and> (\<forall>p la. L p = Some (p, Root) \<longrightarrow> unat la < 2 ^ 39 \<longrightarrow> \<not> (p = to \<and> start \<le> la \<and> la < en) \<longrightarrow> pte_at u p la = pte_at s p la)
     \<and> kernel_kept s L u \<and> (\<forall>x. x \<notin> frees s \<longrightarrow> L x = None \<longrightarrow> pm_frame u x = pm_frame s x \<and> refs u x = refs s x)"
proof -
  have al: "unat start mod 4096 = 0" "unat en mod 4096 = 0"
    using assms(5,6) by (metis size_nat(1) unat_mod unsigned_0)+
  have se: "start < en" "en \<le> USERTOP" using assms(7) by (simp_all add: USER_ACCESS_def)
  from copy_loop_ok [OF assms(1-4) se al assms(8,9)] obtain u L' where
    u: "copy_loop to frm start en s = Some (0, u)" and cp: "copied s L frm to start en u L'" by blast
  have "copy_range to frm start en s = Some (0, u)" using assms(5-7) u by (simp add: copy_range_def)
  moreover have "if valid (pte_at s frm la)
      then \<exists>g h. pte2page s (pte_at s frm la) = Some g \<and> h \<in> frees s \<and> refs u h = 1 \<and> pm_frame u h = pm_frame s g
         \<and> pte_at u to la = pte_create (page2ppn h) (PTE_V OR (pte_at s frm la AND PTE_USER))
      else \<not> valid (pte_at u to la)" if "start \<le> la \<and> la < en" for la
    using copiedD(6) [OF cp, of la] that unfolding page_copied_def by (simp split: if_splits) blast
  ultimately show ?thesis using cp unfolding copied_def by blast
qed

theorem copy_range_copies_witness:
  "\<exists>s L u. pt_inv s L \<and> kernel_mapped s L 1 \<and> kernel_mapped s L 2 \<and> valid (pte_at s 1 USERBASE) \<and> copy_range 2 1 USERBASE (USERBASE + PGSIZE) s = Some (0, u)
     \<and> pte_at u 2 USERBASE \<noteq> 0"
proof -
  obtain s L where s: "pt_inv s L" "L 1 = Some (1, Root)" "L 2 = Some (2, Root)" "8 \<le> card (frees s)"
    "pte_at s 1 USERBASE = pte_create (page2ppn 5) (PTE_V OR PTE_USER)" "\<forall>la. pte_at s 2 la = 0"
    "kernel_mapped s L 1" "kernel_mapped s L 2"
    using example_mapping by blast
  have w: "USERBASE mod PGSIZE = 0" "(USERBASE + PGSIZE) mod PGSIZE = 0" "USER_ACCESS USERBASE (USERBASE + PGSIZE)"
    "USERBASE \<le> USERBASE" "USERBASE < USERBASE + PGSIZE" "unat (USERBASE + PGSIZE) div 4096 = 513" "unat USERBASE div 4096 = 512"
    by (simp_all add: USERBASE_def PGSIZE_def USER_ACCESS_def USERTOP_def)
  have "mapped_pages s 1 USERBASE (USERBASE + PGSIZE) \<subseteq> {512..<513}" by (auto simp: mapped_pages_def w(6,7))
  then have "card (mapped_pages s 1 USERBASE (USERBASE + PGSIZE)) \<le> card {512..<513::nat}" by (intro card_mono) auto
  then have c: "3 * card (mapped_pages s 1 USERBASE (USERBASE + PGSIZE)) \<le> card (frees s)" using s(4) by simp
  have v: "valid (pte_at s 1 USERBASE)" using s(5) by simp
  have nv: "\<forall>la. USERBASE \<le> la \<and> la < USERBASE + PGSIZE \<longrightarrow> \<not> valid (pte_at s 2 la)" using s(6) by simp
  obtain u h where u: "copy_range 2 1 USERBASE (USERBASE + PGSIZE) s = Some (0, u)"
     "pte_at u 2 USERBASE = pte_create (page2ppn h) (PTE_V OR (pte_at s 1 USERBASE AND PTE_USER))"
    using copy_range_copies [OF s(1-3) _ w(1-3) nv c] v w(4,5) by (simp split: if_splits) blast
  have "pte_at u 2 USERBASE \<noteq> 0" using u(2) valid_simps by metis
  then show ?thesis using s(1,7,8) v u(1) by blast
qed

lemma pgdir_alloc_page_ok:
  assumes "pt_inv s L" and "L pgdir = Some (pgdir, Root)" and "la < USERTOP" and "\<not> valid (pte_at s pgdir la)" and "perm < 0x400"
  shows "\<exists>res u L'. pgdir_alloc_page pgdir la perm s = Some (res, u) \<and> pt_inv u L' \<and> L \<subseteq>\<^sub>m L'
     \<and> (case res of
          Some page \<Rightarrow> page \<in> frees s \<and> page \<notin> frees u \<and> refs u page = 1 \<and> pte_at u pgdir la = pte_create (page2ppn page) (PTE_V OR perm)
        | None \<Rightarrow> pte_at u pgdir la = pte_at s pgdir la \<and> (frees s = {} \<or> frees u \<noteq> {}))
     \<and> kernel_kept s L u \<and> (4 \<le> card (frees s) \<longrightarrow> res \<noteq> None \<and> card (frees s) \<le> card (frees u) + 3)
     \<and> (leaf s pgdir la \<noteq> None \<longrightarrow> frees s \<noteq> {} \<longrightarrow> res \<noteq> None \<and> card (frees s) = card (frees u) + 1)
     \<and> (\<forall>p la'. L p = Some (p, Root) \<longrightarrow> \<not> (p = pgdir \<and> page_idx la' = page_idx la) \<longrightarrow> pte_at u p la' = pte_at s p la')"
proof (cases "frees s = {}")
  case True
  then have "alloc_page s = Some (None, s)" using alloc_page_ok [OF assms(1)] by auto
  then show ?thesis using assms(1) True
    by (intro exI [of _ None] exI [of _ s] exI [of _ L]) (simp add: pgdir_alloc_page_def)
next
  case False
  obtain t s1 where t: "alloc_page s = Some (Some t, s1)" "t \<in> frees s" "pt_inv s1 L" "frees s1 = frees s - {t}"
     "refs s1 = refs s" "reserved s1 = reserved s" "pm_npage s1 = pm_npage s" "pm_frame s1 = pm_frame s"
    using alloc_page_inv [OF assms(1) False] by blast
  note ft = free_unmapped [OF assms(1) t(2)]
  have fl: "\<exists>bs. fl_inv (pm_pmm s1) bs" by (rule pt_invD(1) [OF t(3)])
  have at: "pte_at s1 q la' = pte_at s q la'" if "L q = Some (r, Root)" for q r la'
    by (rule pt_inv_cong(3) [OF assms(1) _ _ _ fl _ _ that]) (use t in auto)
  have nv: "\<not> valid (pte_at s1 pgdir la)" using at [OF assms(2)] assms(4) by simp
  have t1: "t \<notin> frees s1" "\<not> reserved s1 t" "t + nbase < pm_npage s1" using t ft by auto
  obtain ret u L' where u: "page_insert pgdir t la perm s1 = Some (ret, u)" "pt_inv u L'" "L \<subseteq>\<^sub>m L'" "L' t = None"
    and r: "(ret = 0 \<and> pte_at u pgdir la = pte_create (page2ppn t) (PTE_V OR perm))
        \<or> (ret = - E_NO_MEM \<and> frees u = {} \<and> pte_at u pgdir la = pte_at s1 pgdir la)"
    and o: "\<forall>p' r' la'. L p' = Some (r', Root) \<longrightarrow> \<not> (p' = pgdir \<and> page_idx la' = page_idx la) \<longrightarrow> pte_at u p' la' = pte_at s1 p' la'"
    and kk: "kernel_kept s1 L u" and lm: "leaf s1 pgdir la \<noteq> None \<longrightarrow> ret = 0 \<and> L' = L"
    and dm: "dom L' = dom L \<union> (frees s1 - frees u)" and cu: "card (frees s1) \<le> card (frees u) + 2"
    and f: "pm_npage u = pm_npage s1" "reserved u = reserved s1" "frees u \<subseteq> frees s1"
      "\<forall>h. L' h = None \<longrightarrow> refs u h = refs s1 h + (if h = t \<and> ret = 0 then 1 else 0)"
    using page_insert_ok [OF t(3) assms(2) user_pdx_below [OF assms(3)] ft(1) t1 take_small [OF assms(5)]] nv by auto
  have kk: "kernel_kept s L v" if "pm_frame v = pm_frame u" for v
    using kk that t(8) by (simp add: kernel_kept_def)
  have fin: "finite (frees s)" by (rule pt_inv_free_card(1) [OF assms(1)])
  have cs: "card (frees s) = card (frees s1) + 1" using card_Suc_Diff1 [OF fin t(2)] by (simp add: t(4))
  have lf: "leaf s1 pgdir la = leaf s pgdir la"
    by (rule pt_inv_cong(2) [OF assms(1) _ _ _ fl _ _ assms(2)]) (use t in auto)
  have same: "ret = 0" "frees u = frees s1" if "leaf s pgdir la \<noteq> None"
  proof -
    show "ret = 0" using lm that lf by simp
    have "frees s1 \<inter> dom L = {}" using pt_invD(8) [OF t(3)] by (auto simp: domIff)
    moreover have "L' = L" using lm that lf by simp
    then have "frees s1 - frees u \<subseteq> dom L" using dm by blast
    ultimately show "frees u = frees s1" using f(3) by blast
  qed
  have p': "L' q = Some (r, Root)" if "L q = Some (r, Root)" for q r using u(3) that by (auto simp: map_le_def dom_def)
  have tu: "t \<notin> frees u" "refs u t = (if ret = 0 then 1 else 0)" using f t1(1) u(4) t(5) ft(2) by auto
  show ?thesis
  proof (cases "ret = 0")
    case True
    let ?u = "upd_pmm (upd_page t (\<lambda>g. g\<lparr>pg_pra_vaddr := unat la\<rparr>)) u"
    have v: "same_view (pm_pmm ?u) (pm_pmm u)" "refs ?u = refs u" "pm_npage ?u = pm_npage u" "pm_frame ?u = pm_frame u"
      by (simp_all add: upd_pmm_def set_vaddr_view fun_eq_iff)
    have v': "frees ?u = frees u" "\<exists>bs. fl_inv (pm_pmm ?u) bs" "reserved ?u = reserved u"
      using same_view_free_set [OF v(1)] same_view_fl_inv [OF v(1)] pt_invD(1) [OF u(2)] v(1) by (simp_all add: same_view_def)
    have c: "pt_inv ?u L'" "L' q = Some (r, Root) \<Longrightarrow> pte_at ?u q la' = pte_at u q la'" for q r la'
      by (rule pt_inv_cong [OF u(2) v(3) _ _ v'(2,3)]; simp add: v v')+
    have "pgdir_alloc_page pgdir la perm s = Some (Some t, ?u)"
      using t(1) u(1) True tu(2) v(2) by (simp add: pgdir_alloc_page_def Let_def)
    moreover have "pte_at ?u p la' = pte_at s p la'" if "L p = Some (p, Root)" "\<not> (p = pgdir \<and> page_idx la' = page_idx la)" for p la'
      using o that at c(2) p' by simp
    ultimately show ?thesis using c(1) u(3) t(2) tu r True v(2) v'(1) c(2) [OF p' [OF assms(2)]] kk [OF v(4)] cs cu same(2)
      by (intro exI [of _ "Some t"] exI [of _ ?u] exI [of _ L']) (auto simp: E_NO_MEM_def)
  next
    case False
    then have fu: "frees u = {}" "pte_at u pgdir la = pte_at s1 pgdir la" using r by auto
    obtain p where p: "free_page t u = Some (u\<lparr>pm_pmm := p\<rparr>)" "\<exists>bs. fl_inv p bs" "free_set p = insert t (frees u)"
       "\<forall>h. page_ref p h = (if h = t then 0 else refs u h)" "PageReserved p = reserved u"
      using free_page_ok [OF pt_inv_parts(1) [OF u(2)], of t] tu(1) t1 f(1,2) fu(1) by (auto simp: below_free_def)
    let ?u = "u\<lparr>pm_pmm := p\<rparr>"
    have k: "pm_npage ?u = pm_npage u" "\<forall>g. L' g \<noteq> None \<longrightarrow> pm_frame ?u g = pm_frame u g"
      "\<forall>g\<in>frees ?u. g \<in> frees u \<or> (L' g = None \<and> refs u g = 0 \<and> g + nbase < pm_npage u)"
      "\<exists>bs. fl_inv (pm_pmm ?u) bs" "reserved ?u = reserved u" "\<forall>g. L' g = None \<longrightarrow> refs ?u g = refs u g"
      using p u(4) tu False t1(3) f(1) by auto
    note c = pt_inv_cong(1,3) [OF u(2) k]
    have "pgdir_alloc_page pgdir la perm s = Some (None, ?u)"
      using t(1) u(1) False p(1) by (simp add: pgdir_alloc_page_def)
    moreover have "pte_at ?u p la' = pte_at s p la'" if "L p = Some (p, Root)" "\<not> (p = pgdir \<and> page_idx la' = page_idx la)" for p la'
      using o that at c(2) p' by simp
    ultimately show ?thesis using c(1) u(3) p(3) fu(2) at [OF assms(2)] c(2) [OF p' [OF assms(2)]] kk [of ?u] cs cu [unfolded fu(1) card.empty] same(1) False
      by (intro exI [of _ None] exI [of _ ?u] exI [of _ L']) auto
  qed
qed

text \<open>C14: \<open>pgdir_alloc_page\<close> at an unmapped user address never fails an assertion: it either maps a frame that
  was free, with one reference, or returns NULL with every mapping as it was and the frame given back; the kernel's entries and tables are unchanged.\<close>

theorem pgdir_alloc_page_maps_or_undoes:
  assumes "pt_inv s L" and "L pgdir = Some (pgdir, Root)" and "la < USERTOP" and "\<not> valid (pte_at s pgdir la)" and "perm < 0x400"
  shows "\<exists>res u L'. pgdir_alloc_page pgdir la perm s = Some (res, u) \<and> pt_inv u L' \<and> L \<subseteq>\<^sub>m L'
     \<and> (case res of
          Some page \<Rightarrow> page \<in> frees s \<and> page \<notin> frees u \<and> refs u page = 1 \<and> pte_at u pgdir la = pte_create (page2ppn page) (PTE_V OR perm)
        | None \<Rightarrow> pte_at u pgdir la = pte_at s pgdir la \<and> (frees s = {} \<or> frees u \<noteq> {}))
     \<and> kernel_kept s L u
     \<and> (\<forall>p la'. L p = Some (p, Root) \<longrightarrow> \<not> (p = pgdir \<and> page_idx la' = page_idx la) \<longrightarrow> pte_at u p la' = pte_at s p la')"
  using pgdir_alloc_page_ok [OF assms] by blast

theorem pgdir_alloc_page_maps_or_undoes_witness:
  "\<exists>s L res u L'. pt_inv s L \<and> kernel_mapped s L 1 \<and> pgdir_alloc_page 1 USERBASE PTE_USER s = Some (res, u) \<and> pt_inv u L'"
proof -
  obtain s L where s: "pt_inv s L" "L 1 = Some (1, Root)" "\<forall>la. pte_at s 1 la = 0" "kernel_mapped s L 1"
    using example_tables by blast
  have "\<not> valid (pte_at s 1 USERBASE)" using s(3) by simp
  moreover have "PTE_USER < 0x400" by (simp add: PTE_USER_def PTE_R_def PTE_W_def PTE_X_def PTE_U_def PTE_V_def)
  ultimately show ?thesis using pgdir_alloc_page_maps_or_undoes [OF s(1,2) user_base(2)] s(1,4) by blast
qed

end
