(* ===== verification/Vmm.thy ===== *)
theory Vmm
  imports Vmm_Inv Paging Proc_Table
begin

text \<open>The properties of address spaces: inserting areas, mapping, and checking user pointers.\<close>

section \<open>Checking a user buffer\<close>

text \<open>What \<open>user_mem_check\<close> asks of one byte.\<close>

definition byte_ok :: "vmm \<Rightarrow> nat list \<Rightarrow> bool \<Rightarrow> 64 word \<Rightarrow> bool" where
  "byte_ok s vs write a \<longleftrightarrow> (\<exists>v\<in>set vs. vma_has s v a
     \<and> vma_flags (vm_vmas s v) AND (if write then VM_WRITE else VM_READ) \<noteq> 0
     \<and> (write \<and> vma_flags (vm_vmas s v) AND VM_STACK \<noteq> 0 \<longrightarrow> vstart s v + PGSIZE \<le> a))"

lemma byte_ok_cong: "vm_vmas t = vm_vmas s \<Longrightarrow> byte_ok t vs write a = byte_ok s vs write a"
  by (simp add: byte_ok_def vma_has_def)

lemma check_loop_ok:
  assumes "mm_inv s m vs" and "en \<le> USERTOP"
  shows "\<exists>t. check_loop m start en write s = Some (\<forall>a. start \<le> a \<and> a < en \<longrightarrow> byte_ok s vs write a, t) \<and> mm_inv t m vs
     \<and> vm_vmas t = vm_vmas s \<and> vm_mem t = vm_mem s \<and> vm_pool t = vm_pool s \<and> vm_kern t = vm_kern s
     \<and> (\<forall>k. mm_pgdir (vm_mms t k) = mm_pgdir (vm_mms s k))"
  using assms
proof (induction "unat en - unat start" arbitrary: start s rule: less_induct)
  case less
  note inv = less.prems(1)
  have ok: "areas_ok s vs" using inv by (simp add: mm_inv_def)
  show ?case
  proof (cases "start < en")
    case False
    then have "\<forall>a. start \<le> a \<and> a < en \<longrightarrow> byte_ok s vs write a" by auto
    then show ?thesis using False inv by (subst check_loop.simps) simp
  next
    case True
    obtain t where t: "find_vma (Some m) start s = Some (area_at s vs start, t)" "mm_inv t m vs"
      "vm_vmas t = vm_vmas s" "vm_mem t = vm_mem s" "vm_pool t = vm_pool s" "vm_kern t = vm_kern s"
      "\<forall>k. mm_pgdir (vm_mms t k) = mm_pgdir (vm_mms s k)"
      using find_vma_inv [OF inv] by blast
    show ?thesis
    proof (cases "area_at s vs start")
      case None
      then have "\<not> byte_ok s vs write start" by (auto simp: byte_ok_def area_at_None)
      then have "(\<forall>a. start \<le> a \<and> a < en \<longrightarrow> byte_ok s vs write a) = False" using True by auto
      then show ?thesis using True t None by (subst check_loop.simps) simp
    next
      case (Some v)
      then have v: "v \<in> set vs" "vma_has s v start" using area_at_Some [OF ok] by auto
      have uniq: "w = v" if "w \<in> set vs" "vma_has s w start" for w using areas_disjoint [OF ok] that v by blast
      have sv: "vstart s v \<le> start" "start < vend s v" using v(2) by (simp_all add: vma_has_def)
      let ?flag = "vma_flags (vm_vmas s v) AND (if write then VM_WRITE else VM_READ) \<noteq> 0"
      let ?stack = "write \<and> vma_flags (vm_vmas s v) AND VM_STACK \<noteq> 0"
      have b: "byte_ok s vs write start \<longleftrightarrow> ?flag \<and> (?stack \<longrightarrow> vstart s v + PGSIZE \<le> start)"
        using v uniq unfolding byte_ok_def by blast
      show ?thesis
      proof (cases "byte_ok s vs write start")
        case False
        then have "(\<forall>a. start \<le> a \<and> a < en \<longrightarrow> byte_ok s vs write a) = False" using True by auto
        then show ?thesis using True t Some False sv b by (subst check_loop.simps) (auto simp: not_le)
      next
        case bt: True
        have "\<not> start < vstart t v" using sv(1) t(3) by simp
        have run: "check_loop m start en write s = check_loop m (vend t v) en write t"
          using True t(1,3) Some bt sv b by (subst check_loop.simps) (auto simp: not_le)
        have "unat en - unat (vend t v) < unat en - unat start"
          using sv(2) True t(3) by (simp add: word_less_nat_alt)
        from less.hyps [OF this t(2) less.prems(2)] obtain u where u:
          "check_loop m (vend t v) en write t = Some (\<forall>a. vend t v \<le> a \<and> a < en \<longrightarrow> byte_ok t vs write a, u)" "mm_inv u m vs"
          "vm_vmas u = vm_vmas t" "vm_mem u = vm_mem t" "vm_pool u = vm_pool t" "vm_kern u = vm_kern t"
          "\<forall>k. mm_pgdir (vm_mms u k) = mm_pgdir (vm_mms t k)" by blast
        have "byte_ok s vs write a" if "start \<le> a" "a < vend s v" for a
        proof -
          have "vma_has s v a" using that sv(1) by (simp add: vma_has_def)
          moreover have "?stack \<longrightarrow> vstart s v + PGSIZE \<le> a" using b bt that(1) by auto
          ultimately show ?thesis using b bt v(1) unfolding byte_ok_def by blast
        qed
        then have "(\<forall>a. vend t v \<le> a \<and> a < en \<longrightarrow> byte_ok t vs write a) \<longleftrightarrow> (\<forall>a. start \<le> a \<and> a < en \<longrightarrow> byte_ok s vs write a)"
          using byte_ok_cong [OF t(3)] sv(2) unfolding t(3) by (meson less_imp_le less_le_trans not_le)
        then show ?thesis using u t run by auto
      qed
    qed
  qed
qed

section \<open>Mapping\<close>

definition fresh_pool :: "vmm \<Rightarrow> nat list \<Rightarrow> bool" where
  "fresh_pool s vs \<longleftrightarrow> distinct (vm_pool s) \<and> set (vm_pool s) \<inter> set vs = {}"

lemma mm_inv_cong:
  assumes "mm_inv s m vs" and "vm_links t = vm_links s" "vm_mms t = vm_mms s" "\<forall>v\<in>set vs. vm_vmas t v = vm_vmas s v"
  shows "mm_inv t m vs"
proof -
  have "areas_ok t vs"
    using assms unfolding mm_inv_def areas_ok_def by (auto elim: sorted_wrt_mono_rel [rotated])
  then show ?thesis using assms by (simp add: mm_inv_def mm_list_def)
qed

definition area :: "vmm \<Rightarrow> nat \<Rightarrow> 64 word \<times> 64 word \<times> 32 word" where
  "area s v = (vstart s v, vend s v, vma_flags (vm_vmas s v))"

lemma mm_inv_frame:
  assumes "mm_inv s m vs" and "vm_vmas t = vm_vmas s" and "vm_mms t m = vm_mms s m" and "mm_list t m vs"
  shows "mm_inv t m vs"
  using assms by (auto simp: mm_inv_def areas_ok_def)

lemma mm_map_new_ok:
  assumes inv: "mm_inv s m vs" and f: "vm_pool s = v # as" "v \<notin> set vs" and se: "start < en"
    and free: "\<forall>w\<in>set vs. vend s w \<le> start \<or> en \<le> vstart s w"
  shows "\<exists>xs ys t. vs = xs @ ys \<and> mm_map_new m start en flags s = Some (0, Some v, t) \<and> mm_inv t m (xs @ v # ys)
     \<and> vstart t v = start \<and> vend t v = en \<and> vma_flags (vm_vmas t v) = flags
     \<and> (\<forall>w\<in>set vs. vm_vmas t w = vm_vmas s w) \<and> vm_pool t = as \<and> (\<forall>w. w \<noteq> v \<longrightarrow> area t w = area s w)
     \<and> (\<forall>m' vs'. m' \<noteq> m \<longrightarrow> v \<notin> set vs' \<longrightarrow> mm_inv s m' vs' \<longrightarrow> mm_inv t m' vs')
     \<and> vm_mem t = vm_mem s \<and> vm_kern t = vm_kern s \<and> (\<forall>k. mm_pgdir (vm_mms t k) = mm_pgdir (vm_mms s k))"
proof -
  define s1 where "s1 = upd_vma v (\<lambda>x. x\<lparr>vma_start := start, vma_end := en, vma_flags := flags\<rparr>) (s\<lparr>vm_pool := as\<rparr>)"
  have s1: "vm_links s1 = vm_links s" "vm_mms s1 = vm_mms s" "\<forall>w. w \<noteq> v \<longrightarrow> vm_vmas s1 w = vm_vmas s w"
    "vstart s1 v = start" "vend s1 v = en" "vma_flags (vm_vmas s1 v) = flags" "vm_pool s1 = as" "vm_mem s1 = vm_mem s" "vm_kern s1 = vm_kern s"
    by (simp_all add: s1_def)
  have inv1: "mm_inv s1 m' vs'" if "mm_inv s m' vs'" "v \<notin> set vs'" for m' vs'
    by (rule mm_inv_cong [OF that(1) s1(1,2)]) (use s1(3) that(2) in auto)
  note i1 = inv1 [OF inv f(2)]
  define xs where "xs = takeWhile (\<lambda>w. vstart s1 w \<le> vstart s1 v) vs"
  define ys where "ys = dropWhile (\<lambda>w. vstart s1 w \<le> vstart s1 v) vs"
  have vs: "vs = xs @ ys" by (simp add: xs_def ys_def)
  have no: "no_overlap s1 vs v" using se free s1 f(2) unfolding no_overlap_def by metis
  have ok: "areas_ok s1 vs" using i1 by (simp add: mm_inv_def)
  have st: "vstart s1 v < vend s1 v" using se s1 by simp
  have ok': "areas_ok s1 (xs @ v # ys)" by (rule no_overlap_split(2) [OF ok xs_def ys_def st no])
  let ?t = "inserted m xs v s1"
  have "insert_vma_struct m v s1 = Some ?t" using insert_vma_struct_ok [OF i1 f(2) xs_def] no by simp
  then have "mm_map_new m start en flags s = Some (0, Some v, ?t)"
    by (simp add: mm_map_new_def vma_create_def kmalloc_obj_def f(1) flip: s1_def)
  moreover have "mm_inv ?t m (xs @ v # ys)" by (rule inserted_inv(1)) (use i1 vs f(2) ok' in auto)
  moreover have "mm_inv ?t m' vs'" if "m' \<noteq> m" "v \<notin> set vs'" "mm_inv s m' vs'" for m' vs'
    by (rule inserted_inv(2) [OF _ _ ok' that(1,2) inv1 [OF that(3,2)]]) (use i1 vs f(2) in auto)
  moreover have "vm_vmas ?t w = vm_vmas s w" if "w \<in> set vs" for w
    using that f(2) s1(3) by (auto simp: inserted_def)
  moreover have "area ?t w = area s w" if "w \<noteq> v" for w using that s1(3) by (simp add: area_def)
  ultimately show ?thesis using vs s1 by (intro exI [of _ xs] exI [of _ ys] exI [of _ ?t]) simp
qed


section \<open>A concrete address space\<close>

lemma mm_create_inv:
  assumes "mm_create s = (Some m, t)"
  shows "mm_inv t m []" "vm_pool s = m # vm_pool t" "vm_vmas t = vm_vmas s"
  using assms by (auto simp: mm_create_def kmalloc_obj_def Let_def mm_inv_def mm_list_def areas_ok_def clist_unlinked_init
      set_mm_count_def split: list.splits)

definition boot_vmm :: vmm where
  "boot_vmm = \<lparr>vm_kern = boot_kern, vm_mem = \<lparr>pm_pmm = frames_with {}, pm_npage = nbase, pm_frame = \<lambda>_ _. 0\<rparr>,
     vm_links = \<lparr>lnext = (\<lambda>_. MmapList 0), lprev = (\<lambda>_. MmapList 0)\<rparr>,
     vm_vmas = (\<lambda>_. \<lparr>vma_mm = None, vma_start = 0, vma_end = 0, vma_flags = 0\<rparr>),
     vm_mms = (\<lambda>_. \<lparr>mm_cache = None, mm_pgdir = None, mm_map_count = 0, mm_users = 0, mm_locked_by = 0\<rparr>),
     vm_pool = [1, 2, 3, 4]\<rparr>"

text \<open>An address space with the one area \<open>[USERBASE, USERBASE + PGSIZE)\<close>, readable only.\<close>

lemma example_area:
  "\<exists>s v. mm_inv s 1 [v] \<and> vstart s v = USERBASE \<and> vend s v = USERBASE + PGSIZE \<and> vma_flags (vm_vmas s v) = VM_READ
     \<and> vm_pool s = [3, 4] \<and> v = 2"
proof -
  obtain s where s: "mm_create boot_vmm = (Some 1, s)" by (simp add: mm_create_def boot_vmm_def kmalloc_obj_def Let_def)
  have p: "vm_pool s = [2, 3, 4]" using mm_create_inv(2) [OF s] by (simp add: boot_vmm_def)
  have "USERBASE < USERBASE + PGSIZE" by (simp add: USERBASE_def PGSIZE_def)
  from mm_map_new_ok [OF mm_create_inv(1) [OF s] p _ this, of VM_READ] show ?thesis by auto
qed

section \<open>Properties\<close>

text \<open>C15: in an address space whose areas are in order, \<open>insert_vma_struct\<close> accepts a new area exactly when
  it is non-empty and overlaps no other (otherwise an assertion fails); then it stands at its place in address order, the
  count and the back pointer are right and no other address space changes.\<close>

theorem insert_vma_keeps_order:
  assumes "mm_inv s m vs" and "v \<notin> set vs"
  shows "case insert_vma_struct m v s of
       Some t \<Rightarrow> no_overlap s vs v \<and> (\<exists>xs ys. vs = xs @ ys \<and> mm_inv t m (xs @ v # ys)
           \<and> (\<forall>m' vs'. m' \<noteq> m \<longrightarrow> v \<notin> set vs' \<longrightarrow> mm_inv s m' vs' \<longrightarrow> mm_inv t m' vs'))
     | None \<Rightarrow> \<not> no_overlap s vs v"
proof (cases "no_overlap s vs v")
  case True
  define xs where "xs = takeWhile (\<lambda>w. vstart s w \<le> vstart s v) vs"
  define ys where "ys = dropWhile (\<lambda>w. vstart s w \<le> vstart s v) vs"
  have vs: "vs = xs @ ys" by (simp add: xs_def ys_def)
  have t: "insert_vma_struct m v s = Some (inserted m xs v s)" using insert_vma_struct_ok [OF assms xs_def] True by simp
  have ok: "areas_ok s (xs @ v # ys)"
    by (rule no_overlap_split(2) [OF _ xs_def ys_def _ True]) (use assms True in \<open>simp_all add: mm_inv_def no_overlap_def\<close>)
  have "mm_inv (inserted m xs v s) m (xs @ v # ys)" by (rule inserted_inv(1)) (use assms vs ok in auto)
  moreover have "mm_inv (inserted m xs v s) m' vs'" if "m' \<noteq> m" "v \<notin> set vs'" "mm_inv s m' vs'" for m' vs'
    by (rule inserted_inv(2) [OF _ _ ok that]) (use assms vs in auto)
  ultimately show ?thesis using vs True t by auto
qed (simp add: insert_vma_struct_ok [OF assms refl])

theorem insert_vma_keeps_order_witness:
  "\<exists>s t. mm_inv s 1 [2] \<and> insert_vma_struct 1 3 s = Some t \<and> (\<exists>vs. mm_inv t 1 vs \<and> set vs = {2, 3})"
proof -
  obtain s where s: "mm_inv s 1 [2]" "vstart s 2 = USERBASE" "vend s 2 = USERBASE + PGSIZE" using example_area by auto
  let ?s = "upd_vma 3 (\<lambda>x. x\<lparr>vma_start := USERBASE + PGSIZE, vma_end := USERBASE + 2 * PGSIZE\<rparr>) s"
  have inv: "mm_inv ?s 1 [2]" by (rule mm_inv_cong [OF s(1)]) auto
  have "no_overlap ?s [2] 3" using s(2,3) by (simp add: no_overlap_def USERBASE_def PGSIZE_def)
  then obtain t xs ys where t: "insert_vma_struct 1 3 ?s = Some t" "[2] = xs @ ys" "mm_inv t 1 (xs @ 3 # ys)"
    using insert_vma_keeps_order [OF inv, of 3] by (auto split: option.splits)
  moreover from this(2) have "set (xs @ 3 # ys) = {2, 3}" by (auto simp: Cons_eq_append_conv)
  ultimately show ?thesis using inv t by blast
qed

text \<open>C17: \<open>user_mem_check\<close> of a user buffer answers yes exactly when the buffer lies in user space and every byte of it is in an area
  with the permission, and, when writing, not in the lowest page of a stack area; the check changes
  nothing but the lookup cache.\<close>

theorem user_mem_check_spec:
  assumes "mm_inv s m vs"
  shows "\<exists>t. user_mem_check (Some m) addr len write s =
       Some (USER_ACCESS addr (addr + len) \<and> (\<forall>a. addr \<le> a \<and> a < addr + len \<longrightarrow> byte_ok s vs write a), t)
     \<and> mm_inv t m vs \<and> vm_vmas t = vm_vmas s \<and> vm_mem t = vm_mem s"
proof (cases "USER_ACCESS addr (addr + len)")
  case False
  then show ?thesis using assms by (simp add: user_mem_check_def)
next
  case True
  then have "addr + len \<le> USERTOP" by (simp add: USER_ACCESS_def)
  from check_loop_ok [OF assms this, of addr "write"] show ?thesis using True by (auto simp: user_mem_check_def)
qed

theorem user_mem_check_spec_witness:
  "\<exists>s t u. mm_inv s 1 [2] \<and> user_mem_check (Some 1) USERBASE 8 False s = Some (True, t)
     \<and> user_mem_check (Some 1) USERBASE 8 True s = Some (False, u)"
proof -
  obtain s where s: "mm_inv s 1 [2]" "vstart s 2 = USERBASE" "vend s 2 = USERBASE + PGSIZE" "vma_flags (vm_vmas s 2) = VM_READ"
    using example_area by auto
  have r: "VM_READ AND VM_READ \<noteq> 0" "VM_READ AND VM_WRITE = 0" by (simp_all add: VM_READ_def VM_WRITE_def)
  have u: "USER_ACCESS USERBASE (USERBASE + 8)" "USERBASE < USERBASE + 8"
    by (simp_all add: USER_ACCESS_def USERBASE_def USERTOP_def)
  have "USERBASE + 8 \<le> USERBASE + PGSIZE" by (simp add: USERBASE_def PGSIZE_def)
  then have "byte_ok s [2] False a" if "USERBASE \<le> a \<and> a < USERBASE + 8" for a
    using that s(2-4) r(1) by (auto simp: byte_ok_def vma_has_def intro: less_le_trans)
  moreover have "\<not> (\<forall>a. USERBASE \<le> a \<and> a < USERBASE + 8 \<longrightarrow> byte_ok s [2] True a)"
    using s(4) r(2) u(2) by (auto simp: byte_ok_def intro!: exI [of _ USERBASE])
  ultimately have b: "(\<forall>a. USERBASE \<le> a \<and> a < USERBASE + 8 \<longrightarrow> byte_ok s [2] False a) = True"
      "(\<forall>a. USERBASE \<le> a \<and> a < USERBASE + 8 \<longrightarrow> byte_ok s [2] True a) = False" by blast+
  obtain t where "user_mem_check (Some 1) USERBASE 8 False s = Some (True, t)"
    using user_mem_check_spec [OF s(1), of USERBASE 8 False] u(1) unfolding b(1) by auto
  moreover obtain u where "user_mem_check (Some 1) USERBASE 8 True s = Some (False, u)"
    using user_mem_check_spec [OF s(1), of USERBASE 8 True] unfolding b(2) by auto
  ultimately show ?thesis using s(1) by blast
qed

text \<open>C16: the four outcomes of \<open>mm_map\<close>: a range outside user space or beginning inside an area is refused with
  \<open>-E_INVAL\<close>, a failing allocation with \<open>-E_NO_MEM\<close>, a range free of areas is added in order, and
  a range that begins in a gap but reaches into a later area fails an assertion instead of returning an error.\<close>

theorem mm_map_outcomes:
  assumes "mm_inv s m vs" and "fresh_pool s vs" and "start = ROUNDDOWN addr PGSIZE" and "en = ROUNDUP (addr + len) PGSIZE"
  shows "if \<not> USER_ACCESS start en then mm_map (Some m) addr len flags s = Some (- E_INVAL, None, s)
     else if \<exists>w\<in>set vs. vma_has s w start
       then \<exists>t. mm_map (Some m) addr len flags s = Some (- E_INVAL, None, t) \<and> mm_inv t m vs
     else case vm_pool s of
         [] \<Rightarrow> \<exists>t. mm_map (Some m) addr len flags s = Some (- E_NO_MEM, None, t) \<and> mm_inv t m vs
       | v # as \<Rightarrow>
          if \<exists>w\<in>set vs. start < vend s w \<and> vstart s w < en then mm_map (Some m) addr len flags s = None
          else \<exists>xs ys t. vs = xs @ ys \<and> mm_map (Some m) addr len flags s = Some (0, Some v, t) \<and> mm_inv t m (xs @ v # ys)
            \<and> vstart t v = start \<and> vend t v = en \<and> vma_flags (vm_vmas t v) = flags \<and> fresh_pool t (xs @ v # ys)"
proof (cases "USER_ACCESS start en")
  case False
  then show ?thesis using assms(3,4) by (simp add: mm_map_def)
next
  case True
  have se: "start < en" using True by (simp add: USER_ACCESS_def)
  obtain t where t: "find_vma (Some m) start s = Some (area_at s vs start, t)" "mm_inv t m vs"
      "vm_vmas t = vm_vmas s" "vm_pool t = vm_pool s"
    using find_vma_inv [OF assms(1)] by blast
  have ok: "areas_ok s vs" using assms(1) by (simp add: mm_inv_def)
  show ?thesis
  proof (cases "area_at s vs start")
    case (Some w)
    then have "w \<in> set vs" "vma_has s w start" using area_at_Some [OF ok] by auto
    moreover from this(2) se have "vstart t w < en" by (auto simp: vma_has_def t(3))
    ultimately show ?thesis using True t(1,2) Some assms(3,4) by (auto simp: mm_map_def)
  next
    case None
    then have nh: "\<not> (\<exists>w\<in>set vs. vma_has s w start)" by (auto simp: area_at_None)
    have run: "mm_map (Some m) addr len flags s = mm_map_new m start en flags t"
      using True t(1) None assms(3,4) by (simp add: mm_map_def)
    show ?thesis
    proof (cases "vm_pool s")
      case Nil
      then have "mm_map_new m start en flags t = Some (- E_NO_MEM, None, t)"
        using t(4) by (simp add: mm_map_new_def vma_create_def kmalloc_obj_def)
      then show ?thesis using run nh Nil True t(2) by auto
    next
      case (Cons v as)
      then have v: "vm_pool t = v # as" "v \<notin> set vs" "distinct (v # as)" "set as \<inter> set vs = {}"
        using assms(2) t(4) by (auto simp: fresh_pool_def)
      show ?thesis
      proof (cases "\<exists>w\<in>set vs. start < vend s w \<and> vstart s w < en")
        case False
        then have fr: "\<forall>w\<in>set vs. vend t w \<le> start \<or> en \<le> vstart t w" by (auto simp: t(3) not_less)
        from mm_map_new_ok [OF t(2) v(1,2) se fr, of flags] obtain xs ys u where
          u: "vs = xs @ ys" "mm_map_new m start en flags t = Some (0, Some v, u)" "mm_inv u m (xs @ v # ys)"
            "vstart u v = start" "vend u v = en" "vma_flags (vm_vmas u v) = flags" "vm_pool u = as" by blast
        have "fresh_pool u (xs @ v # ys)" using v u(1,7) by (auto simp: fresh_pool_def)
        then show ?thesis using u run False nh Cons True by auto
      next
        case overlap: True
        define t1 where "t1 = upd_vma v (\<lambda>x. x\<lparr>vma_start := start, vma_end := en, vma_flags := flags\<rparr>) (t\<lparr>vm_pool := as\<rparr>)"
        have "mm_inv t1 m vs" by (rule mm_inv_cong [OF t(2)]) (use v(2) in \<open>auto simp: t1_def\<close>)
        moreover have "\<not> no_overlap t1 vs v" using overlap v(2) se by (auto simp: no_overlap_def t1_def t(3) not_le)
        ultimately have "insert_vma_struct m v t1 = None" using insert_vma_struct_ok [OF _ v(2) refl] by simp
        then have "mm_map_new m start en flags t = None"
          by (simp add: mm_map_new_def vma_create_def kmalloc_obj_def v(1) flip: t1_def)
        then show ?thesis using run overlap nh Cons True by auto
      qed
    qed
  qed
qed

theorem mm_map_outcomes_witness:
  "\<exists>s. mm_inv s 1 [2] \<and> vm_pool s = [3, 4] \<and> mm_map (Some 1) (USERBASE - PGSIZE) PGSIZE 0 s = Some (- E_INVAL, None, s)"
proof -
  obtain s where s: "mm_inv s 1 [2]" "vm_pool s = [3, 4]" using example_area by auto
  have "fresh_pool s [2]" using s(2) by (simp add: fresh_pool_def)
  moreover have "\<not> USER_ACCESS (ROUNDDOWN (USERBASE - PGSIZE) PGSIZE) (ROUNDUP (USERBASE - PGSIZE + PGSIZE) PGSIZE)"
    by (simp add: USER_ACCESS_def ROUNDDOWN_def ROUNDUP_def USERBASE_def PGSIZE_def)
  ultimately show ?thesis using mm_map_outcomes [OF s(1) _ refl refl, of "USERBASE - PGSIZE" PGSIZE 0] s by auto
qed

end
