(* ===== verification/Dev_Model.thy ===== *)
theory Dev_Model
  imports Vfs_Model Vmm
begin

text \<open>
  The state behind the file system operations and the devices: \<open>kern/driver/ide.c\<close> and \<open>ramdisk.c\<close> (a disk is
  a region of kernel memory), \<open>kern/fs/devs/dev.c\<close>, \<open>dev_disk0.c\<close>, \<open>dev_stdin.c\<close> and \<open>dev_stdout.c\<close>, and the records
  of \<open>kern/fs/sfs/sfs.h\<close> and \<open>bitmap.c\<close>.  A device or an SFS inode is the \<open>in_info\<close> part of an inode and has the number
  of that inode; a file system has the number of its \<open>struct fs\<close>.  An I/O buffer that lives in kernel memory is an
  address into \<open>os_mem\<close>; the on-disk inode of an open file and the local words that
  are read from or written to a block are values, converted to their bytes at the block buffer.
\<close>

unbundle bit_operations_syntax

section \<open>stat.h\<close>

definition S_IFREG :: "32 word" where "S_IFREG = 0x1000"
definition S_IFLNK :: "32 word" where "S_IFLNK = 0x3000"
definition S_IFCHR :: "32 word" where "S_IFCHR = 0x4000"
definition S_IFBLK :: "32 word" where "S_IFBLK = 0x5000"

section \<open>The state\<close>

record ide_device =
  ide_valid :: bool
  ide_sets :: nat
  ide_size :: nat
  ide_iobase :: nat

text \<open>The four function pointers of a \<open>struct device\<close> are set together by its initialisation function;
  the constructor names the set.\<close>

datatype devops = DevDisk0 | DevStdin | DevStdout

record device =
  d_blocks :: nat
  d_blocksize :: nat
  d_ops :: devops

text \<open>The table of operations that \<open>vop_init\<close> stores in an inode.\<close>

datatype node_ops = DevNode | SfsDir | SfsFile

record bitmap =
  bm_nbits :: nat
  bm_nwords :: nat
  bm_map :: nat

record sfs_super =
  su_magic :: nat
  su_blocks :: nat
  su_unused_blocks :: nat
  su_info :: "8 word list"

record sfs_disk_inode =
  di_size :: nat
  di_type :: nat
  di_nlinks :: nat
  di_blocks :: nat
  di_direct :: "nat list"
  di_indirect :: nat

text \<open>\<open>sin_dp\<close> is the address of the allocated \<open>struct sfs_disk_inode\<close>, \<open>sin_din\<close> its contents.\<close>

record sfs_inode =
  sin_dp :: nat
  sin_din :: sfs_disk_inode
  sin_ino :: nat
  sin_dirty :: bool
  sin_reclaim_count :: int

datatype snode = InodeList nat | HashList nat nat | InodeLink nat | HashLink nat

record sfs_fs =
  sf_super :: sfs_super
  sf_dev :: nat
  sf_bitmap :: nat
  sf_freemap :: bitmap
  sf_super_dirty :: bool
  sf_buffer :: nat
  sf_hash_list :: nat

record fsdata =
  ide_devices :: "nat \<Rightarrow> ide_device"
  devs :: "nat \<Rightarrow> device"
  optab :: "nat \<Rightarrow> node_ops"
  disk0_buffer :: nat
  disk0_sem :: nat
  stdin_buffer :: nat
  p_rpos :: nat
  p_wpos :: nat
  stdin_queue :: nat
  console :: "8 word list"
  sfss :: "nat \<Rightarrow> sfs_fs"
  sins :: "nat \<Rightarrow> sfs_inode"
  sfs_links :: "snode links"

type_synonym ucore = "fsdata os"

definition upd_data :: "(fsdata \<Rightarrow> fsdata) \<Rightarrow> ucore \<Rightarrow> ucore" where
  "upd_data f s = s\<lparr>os_data := f (os_data s)\<rparr>"

definition upd_mem :: "(Strings.mem \<Rightarrow> Strings.mem) \<Rightarrow> ucore \<Rightarrow> ucore" where
  "upd_mem f s = s\<lparr>os_mem := f (os_mem s)\<rparr>"

lemma upd_data_simps [simp]:
  "os_data (upd_data f s) = f (os_data s)" "os_mem (upd_data f s) = os_mem s"
  "os_nodes (upd_data f s) = os_nodes s" "os_vm (upd_data f s) = os_vm s"
  "os_files (upd_data f s) = os_files s" "os_kern (upd_data f s) = os_kern s"
  "vdev_list (upd_data f s) = vdev_list s" "os_vdevs (upd_data f s) = os_vdevs s"
  "bootfs_node (upd_data f s) = bootfs_node s" "bootfs_sem (upd_data f s) = bootfs_sem s"
  "vdev_list_sem (upd_data f s) = vdev_list_sem s"
  by (simp_all add: upd_data_def os_kern_def)

lemma upd_mem_simps [simp]:
  "os_mem (upd_mem g s) = g (os_mem s)" "os_data (upd_mem g s) = os_data s"
  "os_nodes (upd_mem g s) = os_nodes s" "os_vm (upd_mem g s) = os_vm s"
  "os_files (upd_mem g s) = os_files s" "os_kern (upd_mem g s) = os_kern s"
  "vdev_list (upd_mem g s) = vdev_list s" "os_vdevs (upd_mem g s) = os_vdevs s"
  "bootfs_node (upd_mem g s) = bootfs_node s" "bootfs_sem (upd_mem g s) = bootfs_sem s"
  "vdev_list_sem (upd_mem g s) = vdev_list_sem s"
  by (simp_all add: upd_mem_def os_kern_def)

section \<open>ide.c, ramdisk.c\<close>

definition SECTSIZE :: nat where "SECTSIZE = 512"
definition SWAP_DEV_NO :: nat where "SWAP_DEV_NO = 1"
definition DISK0_DEV_NO :: nat where "DISK0_DEV_NO = 2"
definition MAX_IDE :: nat where "MAX_IDE = 4"
definition MAX_NSECS :: nat where "MAX_NSECS = 128"
definition MAX_DISK_NSECS :: nat where "MAX_DISK_NSECS = 0x10000000"

definition VALID_IDE :: "nat \<Rightarrow> ucore \<Rightarrow> bool" where
  "VALID_IDE ideno s \<longleftrightarrow> ideno < MAX_IDE \<and> ide_valid (ide_devices (os_data s) ideno)"

text \<open>Both transfer routines clip the length with unsigned arithmetic, in which the test for a negative count
  never holds, and return 0.\<close>

definition ramdisk_read :: "ide_device \<Rightarrow> nat \<Rightarrow> nat \<Rightarrow> nat \<Rightarrow> Strings.mem \<Rightarrow> int \<times> Strings.mem" where
  "ramdisk_read dev secno dst nsecs m =
     (let n = min nsecs (u64 (ide_size dev + 18446744073709551616 - secno))
      in (0, memcpy m dst (u64 (ide_iobase dev + secno * SECTSIZE)) (n * SECTSIZE)))"

definition ramdisk_write :: "ide_device \<Rightarrow> nat \<Rightarrow> nat \<Rightarrow> nat \<Rightarrow> Strings.mem \<Rightarrow> int \<times> Strings.mem" where
  "ramdisk_write dev secno src nsecs m =
     (let n = min nsecs (u64 (ide_size dev + 18446744073709551616 - secno))
      in (0, memcpy m (u64 (ide_iobase dev + secno * SECTSIZE)) src (n * SECTSIZE)))"

text \<open>\<open>start\<close> and \<open>fin\<close> are the linker's addresses of the two disk images.\<close>

definition ramdisk_init :: "nat \<times> nat \<Rightarrow> nat \<times> nat \<Rightarrow> nat \<Rightarrow> ide_device option" where
  "ramdisk_init swap sfs devno = do {
     (start, fin) \<leftarrow>
       (if devno = SWAP_DEV_NO then Some swap else if devno = DISK0_DEV_NO then Some sfs else None);
     Some (if start \<noteq> fin
       then \<lparr>ide_valid = True, ide_sets = 0xFFFFFFFF, ide_size = u32 (fin - start) div SECTSIZE, ide_iobase = start\<rparr>
       else \<lparr>ide_valid = False, ide_sets = 0, ide_size = 0, ide_iobase = 0\<rparr>)
   }"

definition ide_device_valid :: "nat \<Rightarrow> ucore \<Rightarrow> bool" where "ide_device_valid ideno s = VALID_IDE ideno s"

definition ide_device_size :: "nat \<Rightarrow> ucore \<Rightarrow> nat" where
  "ide_device_size ideno s = (if ide_device_valid ideno s then ide_size (ide_devices (os_data s) ideno) else 0)"

definition ide_read_secs :: "nat \<Rightarrow> nat \<Rightarrow> nat \<Rightarrow> nat \<Rightarrow> ucore \<Rightarrow> (int \<times> ucore) option" where
  "ide_read_secs ideno secno dst nsecs s = do {
     kassert (nsecs \<le> MAX_NSECS \<and> VALID_IDE ideno s);
     kassert (secno < MAX_DISK_NSECS \<and> secno + nsecs \<le> MAX_DISK_NSECS);
     let (ret, m) = ramdisk_read (ide_devices (os_data s) ideno) secno dst nsecs (os_mem s);
     Some (ret, upd_mem (\<lambda>_. m) s)
   }"

definition ide_write_secs :: "nat \<Rightarrow> nat \<Rightarrow> nat \<Rightarrow> nat \<Rightarrow> ucore \<Rightarrow> (int \<times> ucore) option" where
  "ide_write_secs ideno secno src nsecs s = do {
     kassert (nsecs \<le> MAX_NSECS \<and> VALID_IDE ideno s);
     kassert (secno < MAX_DISK_NSECS \<and> secno + nsecs \<le> MAX_DISK_NSECS);
     let (ret, m) = ramdisk_write (ide_devices (os_data s) ideno) secno src nsecs (os_mem s);
     Some (ret, upd_mem (\<lambda>_. m) s)
   }"

definition ide_init :: "nat \<times> nat \<Rightarrow> nat \<times> nat \<Rightarrow> ucore \<Rightarrow> ucore option" where
  "ide_init swap sfs s = do {
     let s1 = upd_data (\<lambda>d. d\<lparr>ide_devices := (\<lambda>i. if i < MAX_IDE then (ide_devices d i)\<lparr>ide_valid := False\<rparr>
       else ide_devices d i)\<rparr>) s;
     d1 \<leftarrow> ramdisk_init swap sfs SWAP_DEV_NO;
     let s2 = upd_data (\<lambda>d. d\<lparr>ide_devices := (ide_devices d)(SWAP_DEV_NO := d1)\<rparr>) s1;
     kassert (VALID_IDE SWAP_DEV_NO s2);
     d2 \<leftarrow> ramdisk_init swap sfs DISK0_DEV_NO;
     let s3 = upd_data (\<lambda>d. d\<lparr>ide_devices := (ide_devices d)(DISK0_DEV_NO := d2)\<rparr>) s2;
     kassert (VALID_IDE DISK0_DEV_NO s3);
     Some s3
   }"

section \<open>dev\_disk0.c\<close>

definition DISK0_BLKSIZE :: nat where "DISK0_BLKSIZE = 4096"
definition DISK0_BUFSIZE :: nat where "DISK0_BUFSIZE = 4 * DISK0_BLKSIZE"
definition DISK0_BLK_NSECT :: nat where "DISK0_BLK_NSECT = DISK0_BLKSIZE div SECTSIZE"

definition lock_disk0 :: "ucore \<Rightarrow> ucore option" where
  "lock_disk0 s = os_down (disk0_sem (os_data s)) s"

definition unlock_disk0 :: "fsdata vops \<Rightarrow> ucore \<Rightarrow> ucore option" where
  "unlock_disk0 V s = os_up V (disk0_sem (os_data s)) s"

definition disk0_read_blks_nolock :: "nat \<Rightarrow> nat \<Rightarrow> ucore \<Rightarrow> ucore option" where
  "disk0_read_blks_nolock blkno nblks s = do {
     let sectno = u32 (blkno * DISK0_BLK_NSECT);
     let nsecs = u32 (nblks * DISK0_BLK_NSECT);
     (ret, s1) \<leftarrow> ide_read_secs DISK0_DEV_NO sectno (disk0_buffer (os_data s)) nsecs s;
     kassert (ret = 0);
     Some s1
   }"

definition disk0_write_blks_nolock :: "nat \<Rightarrow> nat \<Rightarrow> ucore \<Rightarrow> ucore option" where
  "disk0_write_blks_nolock blkno nblks s = do {
     let sectno = u32 (blkno * DISK0_BLK_NSECT);
     let nsecs = u32 (nblks * DISK0_BLK_NSECT);
     (ret, s1) \<leftarrow> ide_write_secs DISK0_DEV_NO sectno (disk0_buffer (os_data s)) nsecs s;
     kassert (ret = 0);
     Some s1
   }"

text \<open>\<open>iobuf_move\<close> on the memory of the state.\<close>

definition os_iobuf_move :: "iobuf \<Rightarrow> nat \<Rightarrow> nat \<Rightarrow> bool \<Rightarrow> ucore \<Rightarrow> (int \<times> nat \<times> iobuf \<times> ucore) option" where
  "os_iobuf_move iob data len m2b s = do {
     (ret, copied, iob1, m) \<leftarrow> iobuf_move iob data len m2b (os_mem s);
     Some (ret, copied, iob1, upd_mem (\<lambda>_. m) s)
   }"

partial_function (option) disk0_loop :: "bool \<Rightarrow> nat \<Rightarrow> nat \<Rightarrow> iobuf \<Rightarrow> ucore \<Rightarrow> (iobuf \<times> ucore) option" where
  "disk0_loop wr blkno resid iob s =
     (if resid = 0 then Some (iob, s)
      else if wr then do {
        (ret, copied, iob1, s1) \<leftarrow> os_iobuf_move iob (disk0_buffer (os_data s)) DISK0_BUFSIZE False s;
        kassert (copied \<noteq> 0 \<and> copied \<le> resid \<and> copied mod DISK0_BLKSIZE = 0);
        let nblks = u32 (copied div DISK0_BLKSIZE);
        s2 \<leftarrow> disk0_write_blks_nolock blkno nblks s1;
        disk0_loop wr (u32 (blkno + nblks)) (resid - copied) iob1 s2
      }
      else do {
        let alen = min resid DISK0_BUFSIZE;
        let nblks = u32 (alen div DISK0_BLKSIZE);
        s1 \<leftarrow> disk0_read_blks_nolock blkno nblks s;
        (ret, copied, iob1, s2) \<leftarrow> os_iobuf_move iob (disk0_buffer (os_data s1)) alen True s1;
        kassert (copied = alen \<and> copied mod DISK0_BLKSIZE = 0);
        disk0_loop wr (u32 (blkno + nblks)) (resid - copied) iob1 s2
      })"

text \<open>The quotient is used only when the offset is a multiple of the block size, where C's division and \<open>div\<close>
  agree also below zero.\<close>

definition disk0_io :: "fsdata vops \<Rightarrow> nat \<Rightarrow> iobuf \<Rightarrow> bool \<Rightarrow> ucore \<Rightarrow> (int \<times> iobuf \<times> ucore) option" where
  "disk0_io V dev iob wr s = do {
     let offset = io_offset iob;
     let resid = io_resid iob;
     let blkno = nat ((offset div int DISK0_BLKSIZE) mod 4294967296);
     let nblks = u32 (resid div DISK0_BLKSIZE);
     if offset mod int DISK0_BLKSIZE \<noteq> 0 \<or> resid mod DISK0_BLKSIZE \<noteq> 0 then Some (- E_INVAL, iob, s)
     else if d_blocks (devs (os_data s) dev) < u32 (blkno + nblks) then Some (- E_INVAL, iob, s)
     else if nblks = 0 then Some (0, iob, s)
     else do {
       s1 \<leftarrow> lock_disk0 s;
       (iob1, s2) \<leftarrow> disk0_loop wr blkno resid iob s1;
       s3 \<leftarrow> unlock_disk0 V s2;
       Some (0, iob1, s3)
     }
   }"

section \<open>dev\_stdin.c\<close>

definition STDIN_BUFSIZE :: nat where "STDIN_BUFSIZE = 4096"

definition dev_stdin_write :: "fsdata vops \<Rightarrow> 8 word \<Rightarrow> ucore \<Rightarrow> ucore option" where
  "dev_stdin_write V c s =
     (if c \<noteq> 0
      then do {
        let d = os_data s;
        let s1 = upd_mem (\<lambda>m. m(stdin_buffer d + p_wpos d mod STDIN_BUFSIZE := c)) s;
        let s2 = (if int (p_wpos d) - int (p_rpos d) < int STDIN_BUFSIZE
                  then upd_data (\<lambda>d. d\<lparr>p_wpos := p_wpos d + 1\<rparr>) s1 else s1);
        (if \<not> wait_queue_empty (stdin_queue d) (os_kern s2)
         then do {
           k \<leftarrow> wakeup_queue (op_sched V) (stdin_queue d) WT_KBD True (os_kern s2);
           Some (set_kern k s2)
         }
         else Some s2)
      }
      else Some s)"

text \<open>The copying part of the loop: how far \<open>ret\<close> gets before the buffer is empty or \<open>len\<close> is reached.\<close>

function stdin_copy :: "nat \<Rightarrow> nat \<Rightarrow> nat \<Rightarrow> ucore \<Rightarrow> nat \<times> ucore" where
  "stdin_copy buf len ret s =
     (if ret < len \<and> p_rpos (os_data s) < p_wpos (os_data s)
      then stdin_copy (buf + 1) len (ret + 1)
        (upd_data (\<lambda>d. d\<lparr>p_rpos := p_rpos d + 1\<rparr>)
          (upd_mem (\<lambda>m. m(buf := m (stdin_buffer (os_data s) + p_rpos (os_data s) mod STDIN_BUFSIZE))) s))
      else (ret, s))"
  by auto
termination by (relation "measure (\<lambda>(buf, len, ret, s). len - ret)") auto

declare stdin_copy.simps [simp del]

text \<open>\<open>dev_stdin_read\<close> up to the point where it returns or, with \<open>True\<close>, sleeps; \<open>w\<close> is its wait entry and
  \<open>ret\<close> the number of bytes already read.  \<open>dev_stdin_read_resume\<close> is what runs after the wake-up.\<close>

definition dev_stdin_read_enter ::
  "fsdata vops \<Rightarrow> nat \<Rightarrow> nat \<Rightarrow> nat \<Rightarrow> nat \<Rightarrow> ucore \<Rightarrow> (bool \<times> nat \<times> ucore) option" where
  "dev_stdin_read_enter V w buf len ret s = do {
     let (ret1, s1) = stdin_copy buf len ret s;
     (if ret1 < len
      then do {
        k1 \<leftarrow> wait_current_set (stdin_queue (os_data s1)) w WT_KBD (os_kern s1);
        k2 \<leftarrow> schedule (op_sched V) k1;
        Some (True, ret1, set_kern k2 s1)
      }
      else Some (False, ret1, s1))
   }"

definition dev_stdin_read_resume ::
  "fsdata vops \<Rightarrow> nat \<Rightarrow> nat \<Rightarrow> nat \<Rightarrow> nat \<Rightarrow> ucore \<Rightarrow> (bool \<times> nat \<times> ucore) option" where
  "dev_stdin_read_resume V w buf len ret s = do {
     k \<leftarrow> wait_current_del (stdin_queue (os_data s)) w (os_kern s);
     let s1 = set_kern k s;
     (if w_wakeup_flags (waits k w) = WT_KBD then dev_stdin_read_enter V w buf len ret s1
      else Some (False, ret, s1))
   }"

definition stdin_open :: "32 word \<Rightarrow> int" where
  "stdin_open open_flags = (if open_flags \<noteq> O_RDONLY then - E_INVAL else 0)"

text \<open>The case in which the reader need not wait; the wait entry is then not used.\<close>

definition stdin_io :: "fsdata vops \<Rightarrow> iobuf \<Rightarrow> bool \<Rightarrow> ucore \<Rightarrow> (int \<times> iobuf \<times> ucore) option" where
  "stdin_io V iob wr s =
     (if \<not> wr
      then do {
        let (ret, s1) = stdin_copy (io_base iob) (io_resid iob) 0 s;
        kassert (ret = io_resid iob);
        Some (int ret, if 0 < ret then iob\<lparr>io_resid := io_resid iob - ret\<rparr> else iob, s1)
      }
      else Some (- E_INVAL, iob, s))"

definition stdin_ioctl :: int where "stdin_ioctl = - E_INVAL"

section \<open>dev\_stdout.c\<close>

definition stdout_open :: "32 word \<Rightarrow> int" where
  "stdout_open open_flags = (if open_flags \<noteq> O_WRONLY then - E_INVAL else 0)"

text \<open>What the serial line gets for one character: a backspace also wipes.\<close>

definition serial_putc :: "8 word \<Rightarrow> 8 word list" where
  "serial_putc c = (if c \<noteq> 8 then [c] else [8, 32, 8])"

definition cputchar :: "8 word \<Rightarrow> ucore \<Rightarrow> ucore" where
  "cputchar c s = upd_data (\<lambda>d. d\<lparr>console := console d @ serial_putc c\<rparr>) s"

primrec stdout_loop :: "nat \<Rightarrow> nat \<Rightarrow> ucore \<Rightarrow> ucore" where
  "stdout_loop data 0 s = s"
| "stdout_loop data (Suc n) s = stdout_loop (data + 1) n (cputchar (os_mem s data) s)"

definition stdout_io :: "iobuf \<Rightarrow> bool \<Rightarrow> ucore \<Rightarrow> (int \<times> iobuf \<times> ucore) option" where
  "stdout_io iob wr s =
     (if wr then Some (0, iob\<lparr>io_resid := 0\<rparr>, stdout_loop (io_base iob) (io_resid iob) s)
      else Some (- E_INVAL, iob, s))"

definition stdout_ioctl :: int where "stdout_ioctl = - E_INVAL"

section \<open>dev.h, dev.c\<close>

definition dop_open :: "nat \<Rightarrow> 32 word \<Rightarrow> ucore \<Rightarrow> int" where
  "dop_open dev open_flags s =
     (case d_ops (devs (os_data s) dev) of
        DevDisk0 \<Rightarrow> 0
      | DevStdin \<Rightarrow> stdin_open open_flags
      | DevStdout \<Rightarrow> stdout_open open_flags)"

definition dop_close :: "nat \<Rightarrow> ucore \<Rightarrow> int" where "dop_close dev s = 0"

definition dop_io :: "fsdata vops \<Rightarrow> nat \<Rightarrow> iobuf \<Rightarrow> bool \<Rightarrow> ucore \<Rightarrow> (int \<times> iobuf \<times> ucore) option" where
  "dop_io V dev iob wr s =
     (case d_ops (devs (os_data s) dev) of
        DevDisk0 \<Rightarrow> disk0_io V dev iob wr s
      | DevStdin \<Rightarrow> stdin_io V iob wr s
      | DevStdout \<Rightarrow> stdout_io iob wr s)"

definition dop_ioctl :: "nat \<Rightarrow> int \<Rightarrow> ucore \<Rightarrow> int" where
  "dop_ioctl dev oper s =
     (case d_ops (devs (os_data s) dev) of
        DevDisk0 \<Rightarrow> - E_UNIMP
      | DevStdin \<Rightarrow> stdin_ioctl
      | DevStdout \<Rightarrow> stdout_ioctl)"

text \<open>\<open>vop_info(node, device)\<close>.\<close>

definition device_info :: "nat \<Rightarrow> ucore \<Rightarrow> nat option" where
  "device_info node s = do { kassert (in_type (os_nodes s node) = inode_type_device_info); Some node }"

definition dev_open :: "nat \<Rightarrow> 32 word \<Rightarrow> ucore \<Rightarrow> (int \<times> ucore) option" where
  "dev_open node open_flags s =
     (if open_flags AND (O_CREAT OR O_TRUNC OR O_EXCL OR O_APPEND) \<noteq> 0 then Some (- E_INVAL, s)
      else do { dev \<leftarrow> device_info node s; Some (dop_open dev open_flags s, s) })"

definition dev_close :: "nat \<Rightarrow> ucore \<Rightarrow> (int \<times> ucore) option" where
  "dev_close node s = do { dev \<leftarrow> device_info node s; Some (dop_close dev s, s) }"

definition dev_read :: "fsdata vops \<Rightarrow> nat \<Rightarrow> iobuf \<Rightarrow> ucore \<Rightarrow> (int \<times> iobuf \<times> ucore) option" where
  "dev_read V node iob s = do { dev \<leftarrow> device_info node s; dop_io V dev iob False s }"

definition dev_write :: "fsdata vops \<Rightarrow> nat \<Rightarrow> iobuf \<Rightarrow> ucore \<Rightarrow> (int \<times> iobuf \<times> ucore) option" where
  "dev_write V node iob s = do { dev \<leftarrow> device_info node s; dop_io V dev iob True s }"

definition dev_ioctl :: "nat \<Rightarrow> int \<Rightarrow> ucore \<Rightarrow> (int \<times> ucore) option" where
  "dev_ioctl node oper s = do { dev \<leftarrow> device_info node s; Some (dop_ioctl dev oper s, s) }"

definition dev_gettype :: "nat \<Rightarrow> ucore \<Rightarrow> (int \<times> 32 word \<times> ucore) option" where
  "dev_gettype node s = do {
     dev \<leftarrow> device_info node s;
     Some (0, if 0 < d_blocks (devs (os_data s) dev) then S_IFBLK else S_IFCHR, s)
   }"

definition dev_fstat :: "fsdata vops \<Rightarrow> nat \<Rightarrow> ucore \<Rightarrow> (int \<times> stat \<times> ucore) option" where
  "dev_fstat V node s = do {
     (ret, mode, s1) \<leftarrow> vop_gettype V node s;
     if ret \<noteq> 0 then Some (ret, \<lparr>st_mode = mode, st_nlinks = 0, st_blocks = 0, st_size = 0\<rparr>, s1)
     else do {
       dev \<leftarrow> device_info node s1;
       let d = devs (os_data s1) dev;
       Some (0, \<lparr>st_mode = mode, st_nlinks = 1, st_blocks = d_blocks d,
                 st_size = u64 (d_blocks d * d_blocksize d)\<rparr>, s1)
     }
   }"

definition dev_tryseek :: "nat \<Rightarrow> int \<Rightarrow> ucore \<Rightarrow> (int \<times> ucore) option" where
  "dev_tryseek node pos s = do {
     dev \<leftarrow> device_info node s;
     let d = devs (os_data s) dev;
     (if 0 < d_blocks d
      then do {
        kassert (d_blocksize d \<noteq> 0);
        Some (if nat (pos mod 18446744073709551616) mod d_blocksize d = 0 \<and> 0 \<le> pos
                \<and> nat pos < u64 (d_blocks d * d_blocksize d) then 0 else - E_INVAL, s)
      }
      else Some (- E_INVAL, s))
   }"

definition dev_lookup :: "nat \<Rightarrow> nat \<Rightarrow> ucore \<Rightarrow> (int \<times> nat option \<times> ucore) option" where
  "dev_lookup node path s =
     (if os_mem s path \<noteq> 0 then Some (- E_NOENT, None, s)
      else Some (0, Some node, snd (inode_ref_inc node s)))"

definition vop_init :: "nat \<Rightarrow> node_ops \<Rightarrow> nat option \<Rightarrow> ucore \<Rightarrow> ucore" where
  "vop_init node tab fs s = inode_init node fs (upd_data (\<lambda>d. d\<lparr>optab := (optab d)(node := tab)\<rparr>) s)"

definition dev_create_inode :: "ucore \<Rightarrow> nat option \<times> ucore" where
  "dev_create_inode s =
     (case alloc_inode inode_type_device_info s of
        (None, s1) \<Rightarrow> (None, s1)
      | (Some node, s1) \<Rightarrow> (Some node, vop_init node DevNode None s1))"

section \<open>Initialisation of the devices\<close>

definition upd_dev :: "nat \<Rightarrow> (device \<Rightarrow> device) \<Rightarrow> ucore \<Rightarrow> ucore" where
  "upd_dev n f = upd_data (\<lambda>d. d\<lparr>devs := (devs d)(n := f (devs d n))\<rparr>)"

definition disk0_device_init :: "nat \<Rightarrow> ucore \<Rightarrow> ucore option" where
  "disk0_device_init dev s = do {
     kassert (ide_device_valid DISK0_DEV_NO s);
     let s1 = upd_dev dev (\<lambda>_. \<lparr>d_blocks = ide_device_size DISK0_DEV_NO s div DISK0_BLK_NSECT,
       d_blocksize = DISK0_BLKSIZE, d_ops = DevDisk0\<rparr>) s;
     let s2 = set_kern (sem_init (disk0_sem (os_data s1)) 1 (os_kern s1)) s1;
     let (a, s3) = os_kmalloc s2;
     buf \<leftarrow> a;
     Some (upd_data (\<lambda>d. d\<lparr>disk0_buffer := buf\<rparr>) s3)
   }"

definition stdin_device_init :: "nat \<Rightarrow> ucore \<Rightarrow> ucore" where
  "stdin_device_init dev s =
     (let s1 = upd_dev dev (\<lambda>_. \<lparr>d_blocks = 0, d_blocksize = 1, d_ops = DevStdin\<rparr>) s;
          s2 = upd_data (\<lambda>d. d\<lparr>p_rpos := 0, p_wpos := 0\<rparr>) s1
      in set_kern (wait_queue_init (stdin_queue (os_data s2)) (os_kern s2)) s2)"

definition stdout_device_init :: "nat \<Rightarrow> ucore \<Rightarrow> ucore" where
  "stdout_device_init dev s = upd_dev dev (\<lambda>_. \<lparr>d_blocks = 0, d_blocksize = 1, d_ops = DevStdout\<rparr>) s"

text \<open>\<open>name\<close> is the address of the string literal that names the device.\<close>

definition dev_init_stdin :: "fsdata vops \<Rightarrow> nat \<Rightarrow> ucore \<Rightarrow> ucore option" where
  "dev_init_stdin V name s = do {
     let (r, s1) = dev_create_inode s;
     node \<leftarrow> r;
     let s2 = stdin_device_init node s1;
     (ret, s3) \<leftarrow> vfs_add_dev V name (Some node) False s2;
     kassert (ret = 0);
     Some s3
   }"

definition dev_init_stdout :: "fsdata vops \<Rightarrow> nat \<Rightarrow> ucore \<Rightarrow> ucore option" where
  "dev_init_stdout V name s = do {
     let (r, s1) = dev_create_inode s;
     node \<leftarrow> r;
     let s2 = stdout_device_init node s1;
     (ret, s3) \<leftarrow> vfs_add_dev V name (Some node) False s2;
     kassert (ret = 0);
     Some s3
   }"

definition dev_init_disk0 :: "fsdata vops \<Rightarrow> nat \<Rightarrow> ucore \<Rightarrow> ucore option" where
  "dev_init_disk0 V name s = do {
     let (r, s1) = dev_create_inode s;
     node \<leftarrow> r;
     s2 \<leftarrow> disk0_device_init node s1;
     (ret, s3) \<leftarrow> vfs_add_dev V name (Some node) True s2;
     kassert (ret = 0);
     Some s3
   }"

definition dev_init :: "fsdata vops \<Rightarrow> nat \<Rightarrow> nat \<Rightarrow> nat \<Rightarrow> ucore \<Rightarrow> ucore option" where
  "dev_init V stdin_name stdout_name disk0_name s = do {
     s1 \<leftarrow> dev_init_stdin V stdin_name s;
     s2 \<leftarrow> dev_init_stdout V stdout_name s1;
     dev_init_disk0 V disk0_name s2
   }"

section \<open>A state to evaluate the model on\<close>

text \<open>No process, no inode, no device; objects are allocated at the given addresses and every semaphore has
  the value 1.\<close>

definition boot_fsdata :: fsdata where
  "boot_fsdata = \<lparr>ide_devices = (\<lambda>_. \<lparr>ide_valid = False, ide_sets = 0, ide_size = 0, ide_iobase = 0\<rparr>),
     devs = (\<lambda>_. \<lparr>d_blocks = 0, d_blocksize = 1, d_ops = DevStdout\<rparr>), optab = (\<lambda>_. DevNode),
     disk0_buffer = 0, disk0_sem = 3, stdin_buffer = 0, p_rpos = 0, p_wpos = 0, stdin_queue = 4, console = [],
     sfss = (\<lambda>_. \<lparr>sf_super = \<lparr>su_magic = 0, su_blocks = 0, su_unused_blocks = 0, su_info = []\<rparr>, sf_dev = 0, sf_bitmap = 0,
       sf_freemap = \<lparr>bm_nbits = 0, bm_nwords = 0, bm_map = 0\<rparr>, sf_super_dirty = False, sf_buffer = 0, sf_hash_list = 0\<rparr>),
     sins = (\<lambda>_. \<lparr>sin_dp = 0, sin_din = \<lparr>di_size = 0, di_type = 0, di_nlinks = 0, di_blocks = 0, di_direct = [], di_indirect = 0\<rparr>,
       sin_ino = 0, sin_dirty = False, sin_reclaim_count = 0\<rparr>),
     sfs_links = \<lparr>lnext = id, lprev = id\<rparr>\<rparr>"

definition boot_ucore :: "nat list \<Rightarrow> ucore" where
  "boot_ucore free = \<lparr>os_vm = boot_vmm\<lparr>vm_kern := boot_kern\<lparr>sems := (\<lambda>_. \<lparr>sem_value = 1\<rparr>)\<rparr>, vm_pool := free\<rparr>, os_mem = (\<lambda>_. 0),
     os_nodes = (\<lambda>_. \<lparr>in_type = 0, in_ref = 0, in_open = 0, in_fs = None, in_ops = False\<rparr>),
     os_files = (\<lambda>p. \<lparr>fl_pwd = None,
       fl_fd = (\<lambda>i. \<lparr>f_status = FD_NONE, f_readable = False, f_writable = False, f_fd = int i, f_pos = 0, f_node = None, f_open_count = 0\<rparr>),
       fl_count = 0\<rparr>),
     vdev_list = \<lparr>lnext = (\<lambda>_. VdevList), lprev = (\<lambda>_. VdevList)\<rparr>,
     os_vdevs = (\<lambda>_. \<lparr>vd_name = 0, vd_node = None, vd_fs = None, vd_mountable = False\<rparr>), vdev_list_sem = 1,
     bootfs_node = None, bootfs_sem = 2, os_data = boot_fsdata\<rparr>"

end
