(* ===== verification/Console.thy ===== *)
theory Console
  imports Dev_Model Printfmt
begin

text \<open>
  The console: \<open>kern/driver/console.c\<close>, \<open>kern/libs/stdio.c\<close> and \<open>kern/libs/readline.c\<close>.  What the firmware call
  \<open>sbi\_console\_getchar\<close> will answer is the list \<open>serial\<close>; when it is used up the answer is \<open>-1\<close>, nothing waiting.  What is
  written to the console is appended to the field \<open>console\<close> of the devices.
\<close>

section \<open>console.c\<close>

definition CONSBUFSIZE :: nat where "CONSBUFSIZE = 512"

record console_in =
  cons_buf :: "8 word list"
  cons_rpos :: nat
  cons_wpos :: nat
  serial :: "int list"

definition sbi_console_getchar :: "console_in \<Rightarrow> int \<times> console_in" where
  "sbi_console_getchar k = (case serial k of [] \<Rightarrow> (- 1, k) | c # cs \<Rightarrow> (c, k\<lparr>serial := cs\<rparr>))"

definition serial_proc_data :: "console_in \<Rightarrow> int \<times> console_in" where
  "serial_proc_data k = (let (c, k1) = sbi_console_getchar k in (if c < 0 then - 1 else if c = 127 then 8 else c, k1))"

definition put_cons :: "int \<Rightarrow> console_in \<Rightarrow> console_in" where
  "put_cons c k = k\<lparr>cons_buf := (cons_buf k)[cons_wpos k := of_int c],
     cons_wpos := if cons_wpos k + 1 = CONSBUFSIZE then 0 else cons_wpos k + 1\<rparr>"

lemma serial_put_cons [simp]: "serial (put_cons c k) = serial k"
  by (simp add: put_cons_def)

lemma serial_proc_data_less: "serial_proc_data k = (c, k1) \<Longrightarrow> c \<noteq> - 1 \<Longrightarrow> length (serial k1) < length (serial k)"
  by (auto simp: serial_proc_data_def sbi_console_getchar_def Let_def split: list.splits if_splits prod.splits)

text \<open>The loop ends because every character comes from the line.\<close>

function cons_intr :: "console_in \<Rightarrow> console_in" where
  "cons_intr k = (let (c, k1) = serial_proc_data k in if c = - 1 then k1 else cons_intr (if c \<noteq> 0 then put_cons c k1 else k1))"
  by auto
termination
proof (relation "measure (\<lambda>k. length (serial k))", goal_cases)
  case (2 k p c k1)
  then have "length (serial k1) < length (serial k)" using serial_proc_data_less [of k c k1] by simp
  then show ?case by simp
qed simp

declare cons_intr.simps [simp del]

definition serial_intr :: "console_in \<Rightarrow> console_in" where "serial_intr k = cons_intr k"
definition kbd_intr :: "console_in \<Rightarrow> console_in" where "kbd_intr k = serial_intr k"
definition cons_init :: "console_in \<Rightarrow> console_in" where "cons_init k = snd (sbi_console_getchar k)"

definition cons_putc :: "8 word \<Rightarrow> ucore \<Rightarrow> ucore" where "cons_putc c s = cputchar c s"

definition cons_getc :: "console_in \<Rightarrow> int \<times> console_in" where
  "cons_getc k =
     (let k1 = serial_intr k
      in if cons_rpos k1 \<noteq> cons_wpos k1
         then (uint (cons_buf k1 ! cons_rpos k1), k1\<lparr>cons_rpos := if cons_rpos k1 + 1 = CONSBUFSIZE then 0 else cons_rpos k1 + 1\<rparr>)
         else (0, k1))"

section \<open>stdio.c\<close>

text \<open>The number of characters counts calls of \<open>cputch\<close>, not the bytes a backspace makes.\<close>

definition cput_string :: "8 word list \<Rightarrow> ucore \<Rightarrow> ucore" where "cput_string bs s = fold cons_putc bs s"

definition vcprintf :: "string \<Rightarrow> va list \<Rightarrow> ucore \<Rightarrow> (int \<times> ucore) option" where
  "vcprintf fmt ap s = do { out \<leftarrow> vprintfmt fmt ap; Some (int (length out), cput_string (map of_char out) s) }"

definition cprintf :: "string \<Rightarrow> va list \<Rightarrow> ucore \<Rightarrow> (int \<times> ucore) option" where
  "cprintf fmt ap s = vcprintf fmt ap s"

definition cputs :: "string \<Rightarrow> ucore \<Rightarrow> int \<times> ucore" where
  "cputs str s = (int (length str) + 1, cons_putc 10 (cput_string (map of_char str) s))"

partial_function (option) getchar :: "console_in \<Rightarrow> (int \<times> console_in) option" where
  "getchar k = (let (c, k1) = cons_getc k in if c = 0 then getchar k1 else Some (c, k1))"

section \<open>readline.c\<close>

definition BUFSIZE :: nat where "BUFSIZE = 1024"

text \<open>The buffer is a list of \<open>BUFSIZE\<close> characters; the result says whether a line was read.\<close>

partial_function (option) readline_loop :: "nat \<Rightarrow> 8 word list \<Rightarrow> console_in \<Rightarrow> ucore \<Rightarrow> (bool \<times> 8 word list \<times> console_in \<times> ucore) option" where
  "readline_loop i buf k s = do {
     (c, k1) \<leftarrow> getchar k;
     if c < 0 then Some (False, buf, k1, s)
     else if 32 \<le> c \<and> i < BUFSIZE - 1 then readline_loop (i + 1) (buf[i := of_int c]) k1 (cputchar (of_int c) s)
     else if c = 8 \<and> 0 < i then readline_loop (i - 1) buf k1 (cputchar (of_int c) s)
     else if c = 10 \<or> c = 13 then Some (True, buf[i := 0], k1, cputchar (of_int c) s)
     else readline_loop i buf k1 s
   }"

definition readline :: "string option \<Rightarrow> 8 word list \<Rightarrow> console_in \<Rightarrow> ucore \<Rightarrow> (bool \<times> 8 word list \<times> console_in \<times> ucore) option" where
  "readline prompt buf k s = do {
     s1 \<leftarrow> (case prompt of None \<Rightarrow> Some s | Some p \<Rightarrow> do { (_, s1) \<leftarrow> cprintf ''%s'' [VStr (Some p)] s; Some s1 });
     readline_loop 0 buf k s1
   }"

section \<open>The ring is a queue\<close>

text \<open>What waits in the ring.\<close>

definition waiting :: "console_in \<Rightarrow> 8 word list" where
  "waiting k = map (\<lambda>i. cons_buf k ! ((cons_rpos k + i) mod CONSBUFSIZE)) [0..<(cons_wpos k + CONSBUFSIZE - cons_rpos k) mod CONSBUFSIZE]"

definition ring_ok :: "console_in \<Rightarrow> bool" where
  "ring_ok k \<longleftrightarrow> length (cons_buf k) = CONSBUFSIZE \<and> cons_rpos k < CONSBUFSIZE \<and> cons_wpos k < CONSBUFSIZE"

text \<open>What the line delivers up to the first answer that says that nothing is there.\<close>

definition delivered :: "int list \<Rightarrow> 8 word list" where
  "delivered cs = map (\<lambda>c. of_int (if c = 127 then 8 else c)) (filter (\<lambda>c. c \<noteq> 0) (takeWhile (\<lambda>c. 0 \<le> c) cs))"

lemma length_waiting: "length (waiting k) = (cons_wpos k + CONSBUFSIZE - cons_rpos k) mod CONSBUFSIZE"
  by (simp add: waiting_def)

lemma ring_step: "a < 512 \<Longrightarrow> (if a + 1 = (512::nat) then 0 else a + 1) = (a + 1) mod 512"
  by auto

lemma put_cons_ok:
  assumes "ring_ok k" "length (waiting k) < CONSBUFSIZE - 1"
  shows "ring_ok (put_cons c k)" "waiting (put_cons c k) = waiting k @ [of_int c]"
proof -
  let ?r = "cons_rpos k" and ?w = "cons_wpos k"
  have b: "?r < 512" "?w < 512" "length (cons_buf k) = 512" using assms(1) by (simp_all add: ring_ok_def CONSBUFSIZE_def)
  define n where "n = (?w + 512 - ?r) mod 512"
  have n: "n < 511" using assms(2) by (simp add: length_waiting n_def CONSBUFSIZE_def)
  have w: "?w = (?r + n) mod 512" unfolding n_def using b by (cases "?r \<le> ?w") (auto simp: mod_if)
  have n1: "((?w + 1) mod 512 + 512 - ?r) mod 512 = n + 1"
    unfolding w using n b by (auto simp: mod_if)
  have ne: "(?r + i) mod 512 \<noteq> ?w" if "i < n" for i unfolding w using that n b by (auto simp: mod_if split: if_splits)
  show "ring_ok (put_cons c k)" using b by (simp add: put_cons_def ring_ok_def CONSBUFSIZE_def)
  have "waiting (put_cons c k) = map (\<lambda>i. (cons_buf k)[?w := of_int c] ! ((?r + i) mod 512)) [0..<n + 1]"
    unfolding n1 [symmetric] waiting_def put_cons_def CONSBUFSIZE_def ring_step [OF b(2)] by simp
  also have "\<dots> = map (\<lambda>i. cons_buf k ! ((?r + i) mod 512)) [0..<n] @ [of_int c]"
  proof -
    have "(cons_buf k)[?w := of_int c] ! ((?r + i) mod 512) = cons_buf k ! ((?r + i) mod 512)" if "i < n" for i
      using ne [OF that] by (metis nth_list_update_neq)
    then show ?thesis using b(2,3) by (simp add: w [symmetric])
  qed
  finally show "waiting (put_cons c k) = waiting k @ [of_int c]" by (simp add: waiting_def n_def CONSBUFSIZE_def)
qed

lemma serial_intr_ok:
  assumes "ring_ok k" "length (waiting k) + length (delivered (serial k)) < CONSBUFSIZE"
  shows "ring_ok (serial_intr k) \<and> waiting (serial_intr k) = waiting k @ delivered (serial k)"
  using assms unfolding serial_intr_def
proof (induction k rule: cons_intr.induct)
  case (1 k)
  show ?case
  proof (cases "serial k")
    case Nil
    then show ?thesis using 1(2) by (simp add: cons_intr.simps [of k] serial_proc_data_def sbi_console_getchar_def delivered_def)
  next
    case (Cons c cs)
    let ?k = "k\<lparr>serial := cs\<rparr>"
    have same: "ring_ok ?k = ring_ok k" "waiting ?k = waiting k" by (simp_all add: ring_ok_def waiting_def)
    show ?thesis
    proof (cases "c < 0")
      case True
      then show ?thesis using 1(2) Cons by (simp add: cons_intr.simps [of k] serial_proc_data_def sbi_console_getchar_def delivered_def same)
    next
      case False
      define d where "d = (if c = 127 then 8 else c)"
      have pd: "serial_proc_data k = (d, ?k)" and dn: "d \<noteq> - 1" using False Cons by (simp_all add: serial_proc_data_def sbi_console_getchar_def d_def)
      have st: "cons_intr k = cons_intr (if d \<noteq> 0 then put_cons d ?k else ?k)" using pd dn by (simp add: cons_intr.simps [of k])
      have dl: "delivered (serial k) = (if d \<noteq> 0 then [of_int d] else []) @ delivered cs"
        using False Cons by (auto simp: delivered_def d_def)
      note ih = 1(1) [OF pd [symmetric] refl dn]
      show ?thesis
      proof (cases "d = 0")
        case True
        then show ?thesis using ih 1(2,3) by (simp add: st dl same)
      next
        case False
        have "length (waiting ?k) < CONSBUFSIZE - 1" using 1(3) False by (simp add: dl same)
        note p = put_cons_ok [OF _ this, of d]
        show ?thesis using ih 1(2,3) p False by (simp add: st dl same)
      qed
    qed
  qed
qed

text \<open>As long as fewer than \<open>CONSBUFSIZE\<close> characters wait, \<open>cons\_getc\<close> answers with the oldest character that has not been
  read, those that just came in last, and with 0 exactly when there is none; no character is lost or repeated.\<close>

lemma cons_getc_queue:
  assumes "ring_ok k" "length (waiting k) + length (delivered (serial k)) < CONSBUFSIZE"
  shows "ring_ok (snd (cons_getc k))
    \<and> (case waiting k @ delivered (serial k) of
         [] \<Rightarrow> fst (cons_getc k) = 0 \<and> waiting (snd (cons_getc k)) = []
       | c # cs \<Rightarrow> fst (cons_getc k) = uint c \<and> waiting (snd (cons_getc k)) = cs)"
proof -
  define k1 where "k1 = serial_intr k"
  have k1: "ring_ok k1" "waiting k1 = waiting k @ delivered (serial k)" using serial_intr_ok [OF assms] by (simp_all add: k1_def)
  let ?r = "cons_rpos k1" and ?w = "cons_wpos k1"
  have b: "?r < 512" "?w < 512" using k1(1) by (simp_all add: ring_ok_def CONSBUFSIZE_def)
  define n where "n = (?w + 512 - ?r) mod 512"
  have wt: "waiting k1 = map (\<lambda>i. cons_buf k1 ! ((?r + i) mod 512)) [0..<n]" by (simp add: waiting_def n_def CONSBUFSIZE_def)
  have e: "?r = ?w \<longleftrightarrow> n = 0" unfolding n_def using b by (cases "?r \<le> ?w") (auto simp: mod_if)
  show ?thesis
  proof (cases "?r = ?w")
    case True
    then have "waiting k1 = []" using e wt by simp
    then show ?thesis using k1 True by (simp add: cons_getc_def Let_def flip: k1_def)
  next
    case False
    then obtain m where m: "n = Suc m" using e by (cases n) auto
    let ?k = "k1\<lparr>cons_rpos := (?r + 1) mod 512\<rparr>"
    have g: "cons_getc k = (uint (cons_buf k1 ! ?r), ?k)"
      using False unfolding cons_getc_def Let_def k1_def [symmetric] CONSBUFSIZE_def ring_step [OF b(1)] by simp
    have n1: "(?w + 512 - (?r + 1) mod 512) mod 512 = m"
      using m b unfolding n_def by (cases "?r < ?w") (auto simp: mod_if split: if_splits)
    have "waiting ?k = map (\<lambda>i. cons_buf k1 ! (((?r + 1) mod 512 + i) mod 512)) [0..<m]"
      using n1 by (simp add: waiting_def CONSBUFSIZE_def)
    also have "\<dots> = map (\<lambda>i. cons_buf k1 ! ((?r + i) mod 512)) [1..<n]"
      unfolding m by (simp add: mod_simps map_Suc_upt [symmetric] del: map_Suc_upt upt_Suc)
    finally have "waiting k1 = (cons_buf k1 ! ?r) # waiting ?k" using wt m b by (simp add: upt_rec del: upt_Suc)
    moreover have "ring_ok ?k" using k1(1) by (simp add: ring_ok_def CONSBUFSIZE_def)
    ultimately show ?thesis unfolding g using k1(2) by (auto split: list.splits)
  qed
qed

lemma cons_getc_queue_witness:
  "fst (cons_getc \<lparr>cons_buf = replicate 512 0, cons_rpos = 511, cons_wpos = 511, serial = [0, 127, 104, -1, 105]\<rparr>) = 8"
proof -
  let ?k = "\<lparr>cons_buf = replicate 512 0, cons_rpos = 511, cons_wpos = 511, serial = [0, 127, 104, -1, 105]\<rparr>"
  have w: "waiting ?k = []" "delivered (serial ?k) = [8, 104]" by (simp_all add: waiting_def CONSBUFSIZE_def delivered_def)
  show ?thesis using cons_getc_queue [of ?k] w by (simp add: ring_ok_def CONSBUFSIZE_def)
qed

end
