(* ===== verification/Syscall.thy ===== *)
theory Syscall
  imports Exec Console
begin

text \<open>
  The system calls of \<open>kern/syscall/syscall.c\<close> and their numbers in \<open>libs/unistd.h\<close>.  A machine is the operating system with
  the counter \<open>ticks\<close> of \<open>kern/driver/clock.c\<close> and the input side of the console.  A call answers \<open>None\<close> when it does not
  return to its caller: the process has exited or sleeps and another one runs.
\<close>

unbundle bit_operations_syntax

section \<open>unistd.h\<close>

definition SYS_exit :: nat where "SYS_exit = 1"
definition SYS_fork :: nat where "SYS_fork = 2"
definition SYS_wait :: nat where "SYS_wait = 3"
definition SYS_exec :: nat where "SYS_exec = 4"
definition SYS_yield :: nat where "SYS_yield = 10"
definition SYS_sleep :: nat where "SYS_sleep = 11"
definition SYS_kill :: nat where "SYS_kill = 12"
definition SYS_gettime :: nat where "SYS_gettime = 17"
definition SYS_getpid :: nat where "SYS_getpid = 18"
definition SYS_putc :: nat where "SYS_putc = 30"
definition SYS_pgdir :: nat where "SYS_pgdir = 31"
definition SYS_open :: nat where "SYS_open = 100"
definition SYS_close :: nat where "SYS_close = 101"
definition SYS_read :: nat where "SYS_read = 102"
definition SYS_write :: nat where "SYS_write = 103"
definition SYS_seek :: nat where "SYS_seek = 104"
definition SYS_fstat :: nat where "SYS_fstat = 110"
definition SYS_fsync :: nat where "SYS_fsync = 111"
definition SYS_getcwd :: nat where "SYS_getcwd = 121"
definition SYS_getdirentry :: nat where "SYS_getdirentry = 128"
definition SYS_dup :: nat where "SYS_dup = 130"
definition SYS_lab6_set_priority :: nat where "SYS_lab6_set_priority = 255"

section \<open>The machine\<close>

record machine =
  mc_os :: ucore
  ticks :: "64 word"
  cons :: console_in

text \<open>The addresses of the local variables that the calls hand to other parts: \<open>local\_name\<close>, \<open>elf\_content\<close> and
  \<open>ph\_content\<close> of \<open>do\_execve\<close> and \<open>load\_icode\<close>, \<open>\_\_local\_stat\<close> of \<open>sysfile\_fstat\<close>, the colon of \<open>vfs\_getcwd\<close> and
  \<open>\_\_timer\<close> of \<open>do\_sleep\<close>.\<close>

record stack_vars =
  lv_name :: nat
  lv_elf :: nat
  lv_ph :: nat
  lv_stat :: nat
  lv_colon :: nat
  lv_timer :: nat

record env =
  ev_vops :: "fsdata vops"
  ev_syms :: ksyms
  ev_vars :: stack_vars

definition on_os :: "(ucore \<Rightarrow> (int option \<times> ucore) option) \<Rightarrow> machine \<Rightarrow> (int option \<times> machine) option" where
  "on_os f s = do { (r, u) \<leftarrow> f (mc_os s); Some (r, s\<lparr>mc_os := u\<rparr>) }"

definition returns :: "('a \<Rightarrow> (int \<times> 'a) option) \<Rightarrow> 'a \<Rightarrow> (int option \<times> 'a) option" where
  "returns f s = do { (r, s1) \<leftarrow> f s; Some (Some r, s1) }"

definition on_kern :: "(kern \<Rightarrow> (int option \<times> kern) option) \<Rightarrow> ucore \<Rightarrow> (int option \<times> ucore) option" where
  "on_kern f s = do { (r, k) \<leftarrow> f (os_kern s); Some (r, set_kern k s) }"

text \<open>A cast of an argument to \<open>int\<close> and to \<open>unsigned int\<close>.\<close>

definition arg_int :: "64 word \<Rightarrow> int" where "arg_int w = sint (ucast w :: 32 word)"
definition arg_uint :: "64 word \<Rightarrow> 32 word" where "arg_uint w = ucast w"

section \<open>syscall.c\<close>

type_synonym call = "env \<Rightarrow> 64 word list \<Rightarrow> machine \<Rightarrow> (int option \<times> machine) option"

definition cur_tf :: "ucore \<Rightarrow> (nat \<times> trapframe) option" where
  "cur_tf s = do { c \<leftarrow> current (os_kern s); p_tf (os_proc s c) }"

definition sys_exit :: call where
  "sys_exit E arg = on_os (\<lambda>s. do { s1 \<leftarrow> do_exit (ev_vops E) (ev_syms E) (arg_int (arg ! 0)) s; Some (None, s1) })"

definition sys_fork :: call where
  "sys_fork E arg = on_os (returns (\<lambda>s. do {
     (_, tf) \<leftarrow> cur_tf s;
     do_fork (ev_vops E) (ev_syms E) 0 (gpr_sp (tf_gpr tf)) tf s
   }))"

definition sys_wait :: call where
  "sys_wait E arg = on_os (do_wait (ev_vops E) (arg_int (arg ! 0)) (if arg ! 1 = 0 then None else Some (arg ! 1)))"

definition sys_exec :: call where
  "sys_exec E arg = on_os (let v = ev_vars E in
     do_execve (ev_vops E) (ev_syms E) (lv_name v) (lv_elf v) (lv_ph v) (arg ! 0) (arg_int (arg ! 1)) (arg ! 2))"

definition sys_yield :: call where "sys_yield E arg = on_os (on_kern (returns do_yield))"

definition sys_kill :: call where
  "sys_kill E arg = on_os (on_kern (returns (do_kill (op_sched (ev_vops E)) (arg_int (arg ! 0)))))"

definition sys_getpid :: call where
  "sys_getpid E arg = on_os (returns (\<lambda>s. do { c \<leftarrow> current (os_kern s); Some (p_pid (os_proc s c), s) }))"

definition sys_putc :: call where
  "sys_putc E arg = on_os (\<lambda>s. Some (Some 0, cputchar (ucast (arg ! 0)) s))"

definition sys_pgdir :: call where "sys_pgdir E arg s = Some (Some 0, s)"

definition sys_gettime :: call where
  "sys_gettime E arg s = do {
     let t = arg_int (ticks s) * 10;
     kassert (- 2147483648 \<le> t \<and> t < 2147483648);
     Some (Some t, s)
   }"

definition sys_lab6_set_priority :: call where
  "sys_lab6_set_priority E arg = on_os (\<lambda>s. do {
     let priority = arg_uint (arg ! 0);
     (_, s1) \<leftarrow> cprintf ''set priority to %d\<newline>'' [VNum (ucast priority)] s;
     k \<leftarrow> lab6_set_priority priority (os_kern s1);
     Some (Some 0, set_kern k s1)
   })"

definition sys_sleep :: call where
  "sys_sleep E arg = on_os (on_kern (do_sleep (op_sched (ev_vops E)) (lv_timer (ev_vars E)) (unat (arg_uint (arg ! 0)))))"

definition sys_open :: call where
  "sys_open E arg = on_os (returns (sysfile_open (ev_vops E) (arg ! 0) (arg_uint (arg ! 1))))"

definition sys_close :: call where
  "sys_close E arg = on_os (returns (sysfile_close (ev_vops E) (arg_int (arg ! 0))))"

definition sys_read :: call where
  "sys_read E arg = on_os (returns (sysfile_read (ev_vops E) (arg_int (arg ! 0)) (arg ! 1) (unat (arg ! 2))))"

definition sys_write :: call where
  "sys_write E arg = on_os (returns (sysfile_write (ev_vops E) (arg_int (arg ! 0)) (arg ! 1) (unat (arg ! 2))))"

definition sys_seek :: call where
  "sys_seek E arg = on_os (returns (sysfile_seek (ev_vops E) (arg_int (arg ! 0)) (sint (arg ! 1)) (arg_int (arg ! 2))))"

definition sys_fstat :: call where
  "sys_fstat E arg = on_os (returns (sysfile_fstat (ev_vops E) (lv_stat (ev_vars E)) (arg_int (arg ! 0)) (arg ! 1)))"

definition sys_fsync :: call where
  "sys_fsync E arg = on_os (returns (sysfile_fsync (ev_vops E) (arg_int (arg ! 0))))"

definition sys_getcwd :: call where
  "sys_getcwd E arg = on_os (returns (sysfile_getcwd (ev_vops E) (lv_colon (ev_vars E)) (arg ! 0) (unat (arg ! 1))))"

definition sys_getdirentry :: call where
  "sys_getdirentry E arg = on_os (returns (sysfile_getdirentry (ev_vops E) (arg_int (arg ! 0)) (arg ! 1)))"

definition sys_dup :: call where
  "sys_dup E arg = on_os (returns (sysfile_dup (arg_int (arg ! 0)) (arg_int (arg ! 1))))"

text \<open>The table; the entries between are NULL.\<close>

definition syscalls :: "nat \<Rightarrow> call option" where
  "syscalls = map_of
     [(SYS_exit, sys_exit), (SYS_fork, sys_fork), (SYS_wait, sys_wait), (SYS_exec, sys_exec), (SYS_yield, sys_yield),
      (SYS_kill, sys_kill), (SYS_getpid, sys_getpid), (SYS_putc, sys_putc), (SYS_pgdir, sys_pgdir),
      (SYS_gettime, sys_gettime), (SYS_lab6_set_priority, sys_lab6_set_priority), (SYS_sleep, sys_sleep),
      (SYS_open, sys_open), (SYS_close, sys_close), (SYS_read, sys_read), (SYS_write, sys_write), (SYS_seek, sys_seek),
      (SYS_fstat, sys_fstat), (SYS_fsync, sys_fsync), (SYS_getcwd, sys_getcwd), (SYS_getdirentry, sys_getdirentry),
      (SYS_dup, sys_dup)]"

definition NUM_SYSCALLS :: nat where "NUM_SYSCALLS = 256"

definition set_a0 :: "64 word \<Rightarrow> trapframe \<Rightarrow> trapframe" where
  "set_a0 w tf = tf\<lparr>tf_gpr := (tf_gpr tf)\<lparr>gpr_a0 := w\<rparr>\<rparr>"

definition upd_tf :: "nat \<Rightarrow> (trapframe \<Rightarrow> trapframe) \<Rightarrow> machine \<Rightarrow> machine" where
  "upd_tf c f s = s\<lparr>mc_os := upd_os_proc c (\<lambda>x. x\<lparr>p_tf := map_option (map_prod id f) (p_tf x)\<rparr>) (mc_os s)\<rparr>"

text \<open>The result says whether the call returns.\<close>

definition syscall :: "env \<Rightarrow> machine \<Rightarrow> (bool \<times> machine) option" where
  "syscall E s = do {
     c \<leftarrow> current (os_kern (mc_os s));
     (_, tf) \<leftarrow> p_tf (os_proc (mc_os s) c);
     let r = tf_gpr tf;
     let num = arg_int (gpr_a0 r);
     f \<leftarrow> (if 0 \<le> num \<and> nat num < NUM_SYSCALLS then syscalls (nat num) else None);
     (ret, s1) \<leftarrow> f E [gpr_a1 r, gpr_a2 r, gpr_a3 r, gpr_a4 r, gpr_a5 r] s;
     Some (case ret of None \<Rightarrow> (False, s1) | Some x \<Rightarrow> (True, upd_tf c (set_a0 (word_of_int x)) s1))
   }"

end
