(* ===== verification/Trap.thy ===== *)
theory Trap
  imports Syscall Timers
begin

text \<open>
  Traps: \<open>kern/trap/trap.c\<close>.  A frame is saved by \<open>trapentry.S\<close> at an address of the kernel stack; while the trap is handled the
  field \<open>tf\<close> of the current process points to it, and what the frame holds is kept with the pointer.
\<close>

unbundle bit_operations_syntax

section \<open>riscv.h\<close>

definition IRQ_U_SOFT :: "64 word" where "IRQ_U_SOFT = 0"
definition IRQ_S_SOFT :: "64 word" where "IRQ_S_SOFT = 1"
definition IRQ_H_SOFT :: "64 word" where "IRQ_H_SOFT = 2"
definition IRQ_M_SOFT :: "64 word" where "IRQ_M_SOFT = 3"
definition IRQ_U_TIMER :: "64 word" where "IRQ_U_TIMER = 4"
definition IRQ_S_TIMER :: "64 word" where "IRQ_S_TIMER = 5"
definition IRQ_H_TIMER :: "64 word" where "IRQ_H_TIMER = 6"
definition IRQ_M_TIMER :: "64 word" where "IRQ_M_TIMER = 7"
definition IRQ_U_EXT :: "64 word" where "IRQ_U_EXT = 8"
definition IRQ_S_EXT :: "64 word" where "IRQ_S_EXT = 9"
definition IRQ_H_EXT :: "64 word" where "IRQ_H_EXT = 10"
definition IRQ_M_EXT :: "64 word" where "IRQ_M_EXT = 11"
definition CAUSE_MISALIGNED_FETCH :: "64 word" where "CAUSE_MISALIGNED_FETCH = 0x0"
definition CAUSE_FETCH_ACCESS :: "64 word" where "CAUSE_FETCH_ACCESS = 0x1"
definition CAUSE_ILLEGAL_INSTRUCTION :: "64 word" where "CAUSE_ILLEGAL_INSTRUCTION = 0x2"
definition CAUSE_BREAKPOINT :: "64 word" where "CAUSE_BREAKPOINT = 0x3"
definition CAUSE_MISALIGNED_LOAD :: "64 word" where "CAUSE_MISALIGNED_LOAD = 0x4"
definition CAUSE_LOAD_ACCESS :: "64 word" where "CAUSE_LOAD_ACCESS = 0x5"
definition CAUSE_MISALIGNED_STORE :: "64 word" where "CAUSE_MISALIGNED_STORE = 0x6"
definition CAUSE_STORE_ACCESS :: "64 word" where "CAUSE_STORE_ACCESS = 0x7"
definition CAUSE_USER_ECALL :: "64 word" where "CAUSE_USER_ECALL = 0x8"
definition CAUSE_SUPERVISOR_ECALL :: "64 word" where "CAUSE_SUPERVISOR_ECALL = 0x9"
definition CAUSE_HYPERVISOR_ECALL :: "64 word" where "CAUSE_HYPERVISOR_ECALL = 0xa"
definition CAUSE_MACHINE_ECALL :: "64 word" where "CAUSE_MACHINE_ECALL = 0xb"
definition CAUSE_FETCH_PAGE_FAULT :: "64 word" where "CAUSE_FETCH_PAGE_FAULT = 0xc"
definition CAUSE_LOAD_PAGE_FAULT :: "64 word" where "CAUSE_LOAD_PAGE_FAULT = 0xd"
definition CAUSE_STORE_PAGE_FAULT :: "64 word" where "CAUSE_STORE_PAGE_FAULT = 0xf"

section \<open>Printing a frame\<close>

definition trap_in_kernel :: "trapframe \<Rightarrow> bool" where
  "trap_in_kernel tf \<longleftrightarrow> tf_status tf AND SSTATUS_SPP \<noteq> 0"

definition printing :: "string \<Rightarrow> va list \<Rightarrow> machine \<Rightarrow> machine option" where
  "printing fmt args s = do { (_, u) \<leftarrow> cprintf fmt args (mc_os s); Some (s\<lparr>mc_os := u\<rparr>) }"

fun print_all :: "(string \<times> 64 word) list \<Rightarrow> machine \<Rightarrow> machine option" where
  "print_all [] s = Some s"
| "print_all ((fmt, w) # ps) s = do { s1 \<leftarrow> printing fmt [VNum w] s; print_all ps s1 }"

definition print_regs :: "pushregs \<Rightarrow> machine \<Rightarrow> machine option" where
  "print_regs g = print_all
     [(''  zero     0x%08x\<newline>'', gpr_zero g), (''  ra       0x%08x\<newline>'', gpr_ra g), (''  sp       0x%08x\<newline>'', gpr_sp g),
      (''  gp       0x%08x\<newline>'', gpr_gp g), (''  tp       0x%08x\<newline>'', gpr_tp g), (''  t0       0x%08x\<newline>'', gpr_t0 g),
      (''  t1       0x%08x\<newline>'', gpr_t1 g), (''  t2       0x%08x\<newline>'', gpr_t2 g), (''  s0       0x%08x\<newline>'', gpr_s0 g),
      (''  s1       0x%08x\<newline>'', gpr_s1 g), (''  a0       0x%08x\<newline>'', gpr_a0 g), (''  a1       0x%08x\<newline>'', gpr_a1 g),
      (''  a2       0x%08x\<newline>'', gpr_a2 g), (''  a3       0x%08x\<newline>'', gpr_a3 g), (''  a4       0x%08x\<newline>'', gpr_a4 g),
      (''  a5       0x%08x\<newline>'', gpr_a5 g), (''  a6       0x%08x\<newline>'', gpr_a6 g), (''  a7       0x%08x\<newline>'', gpr_a7 g),
      (''  s2       0x%08x\<newline>'', gpr_s2 g), (''  s3       0x%08x\<newline>'', gpr_s3 g), (''  s4       0x%08x\<newline>'', gpr_s4 g),
      (''  s5       0x%08x\<newline>'', gpr_s5 g), (''  s6       0x%08x\<newline>'', gpr_s6 g), (''  s7       0x%08x\<newline>'', gpr_s7 g),
      (''  s8       0x%08x\<newline>'', gpr_s8 g), (''  s9       0x%08x\<newline>'', gpr_s9 g), (''  s10      0x%08x\<newline>'', gpr_s10 g),
      (''  s11      0x%08x\<newline>'', gpr_s11 g), (''  t3       0x%08x\<newline>'', gpr_t3 g), (''  t4       0x%08x\<newline>'', gpr_t4 g),
      (''  t5       0x%08x\<newline>'', gpr_t5 g), (''  t6       0x%08x\<newline>'', gpr_t6 g)]"

definition print_trapframe :: "nat \<Rightarrow> trapframe \<Rightarrow> machine \<Rightarrow> machine option" where
  "print_trapframe a tf s = do {
     s1 \<leftarrow> printing ''trapframe at %p\<newline>'' [VNum (of_nat a)] s;
     s2 \<leftarrow> print_regs (tf_gpr tf) s1;
     print_all [(''  status   0x%08x\<newline>'', tf_status tf), (''  epc      0x%08x\<newline>'', tf_epc tf),
       (''  tval 0x%08x\<newline>'', tf_tval tf), (''  cause    0x%08x\<newline>'', tf_cause tf)] s2
   }"

section \<open>Interrupts\<close>

definition timer_interrupt :: "env \<Rightarrow> machine \<Rightarrow> machine option" where
  "timer_interrupt E s = do {
     let s1 = s\<lparr>ticks := ticks s + 1\<rparr>;
     k \<leftarrow> run_timer_list (op_sched (ev_vops E)) (os_kern (mc_os s1));
     let (ch, kb) = cons_getc (cons s1);
     u \<leftarrow> dev_stdin_write (ev_vops E) (of_int ch) (set_kern k (mc_os s1));
     Some (s1\<lparr>mc_os := u, cons := kb\<rparr>)
   }"

definition interrupt_name :: "64 word \<Rightarrow> string option" where
  "interrupt_name = map_of
     [(IRQ_U_SOFT, ''User software interrupt\<newline>''), (IRQ_S_SOFT, ''Supervisor software interrupt\<newline>''),
      (IRQ_H_SOFT, ''Hypervisor software interrupt\<newline>''), (IRQ_M_SOFT, ''Machine software interrupt\<newline>''),
      (IRQ_U_TIMER, ''User software interrupt\<newline>''), (IRQ_H_TIMER, ''Hypervisor software interrupt\<newline>''),
      (IRQ_M_TIMER, ''Machine software interrupt\<newline>''), (IRQ_U_EXT, ''User software interrupt\<newline>''),
      (IRQ_S_EXT, ''Supervisor external interrupt\<newline>''), (IRQ_H_EXT, ''Hypervisor software interrupt\<newline>''),
      (IRQ_M_EXT, ''Machine software interrupt\<newline>'')]"

definition interrupt_handler :: "env \<Rightarrow> nat \<Rightarrow> trapframe \<Rightarrow> machine \<Rightarrow> machine option" where
  "interrupt_handler E a tf s =
     (let cause = drop_bit 1 (push_bit 1 (tf_cause tf))
      in if cause = IRQ_S_TIMER then timer_interrupt E s
         else (case interrupt_name cause of Some m \<Rightarrow> printing m [] s | None \<Rightarrow> print_trapframe a tf s))"

section \<open>Exceptions\<close>

definition exception_name :: "64 word \<Rightarrow> string option" where
  "exception_name = map_of
     [(CAUSE_MISALIGNED_FETCH, ''Instruction address misaligned\<newline>''), (CAUSE_FETCH_ACCESS, ''Instruction access fault\<newline>''),
      (CAUSE_ILLEGAL_INSTRUCTION, ''Illegal instruction\<newline>''), (CAUSE_BREAKPOINT, ''Breakpoint\<newline>''),
      (CAUSE_MISALIGNED_LOAD, ''Load address misaligned\<newline>''), (CAUSE_LOAD_ACCESS, ''Load access fault\<newline>''),
      (CAUSE_STORE_ACCESS, ''Store/AMO access fault\<newline>''), (CAUSE_HYPERVISOR_ECALL, ''Environment call from H-mode\<newline>''),
      (CAUSE_MACHINE_ECALL, ''Environment call from M-mode\<newline>''), (CAUSE_FETCH_PAGE_FAULT, ''Instruction page fault\<newline>''),
      (CAUSE_LOAD_PAGE_FAULT, ''Load page fault\<newline>''), (CAUSE_STORE_PAGE_FAULT, ''Store/AMO page fault\<newline>'')]"

text \<open>An environment call: the frame is the one the current process points to.\<close>

definition ecall :: "env \<Rightarrow> machine \<Rightarrow> (bool \<times> machine) option" where
  "ecall E s = do {
     c \<leftarrow> current (os_kern (mc_os s));
     syscall E (upd_tf c (\<lambda>tf. tf\<lparr>tf_epc := tf_epc tf + 4\<rparr>) s)
   }"

text \<open>The result says whether the handler returns.\<close>

definition exception_handler :: "env \<Rightarrow> nat \<Rightarrow> trapframe \<Rightarrow> machine \<Rightarrow> (bool \<times> machine) option" where
  "exception_handler E a tf s =
     (if tf_cause tf = CAUSE_MISALIGNED_STORE then None
      else if tf_cause tf = CAUSE_USER_ECALL then ecall E s
      else if tf_cause tf = CAUSE_SUPERVISOR_ECALL
      then do { s1 \<leftarrow> printing ''Environment call from S-mode\<newline>'' [] s; ecall E s1 }
      else do {
        s1 \<leftarrow> (case exception_name (tf_cause tf) of Some m \<Rightarrow> printing m [] s | None \<Rightarrow> print_trapframe a tf s);
        Some (True, s1)
      })"

definition trap_dispatch :: "env \<Rightarrow> nat \<Rightarrow> trapframe \<Rightarrow> machine \<Rightarrow> (bool \<times> machine) option" where
  "trap_dispatch E a tf s =
     (if sint (tf_cause tf) < 0 then do { s1 \<leftarrow> interrupt_handler E a tf s; Some (True, s1) } else exception_handler E a tf s)"

section \<open>trap\<close>

text \<open>What follows the dispatch.  The result says whether the process goes on with the frame that follows, or another one runs now.
  An outer frame at the same address is the same frame.\<close>

definition trap_leave :: "env \<Rightarrow> nat \<Rightarrow> (nat \<times> trapframe) option \<Rightarrow> bool \<Rightarrow> machine \<Rightarrow> (bool \<times> trapframe \<times> machine) option" where
  "trap_leave E a otf in_kernel s = do {
     c \<leftarrow> current (os_kern (mc_os s));
     (_, tf) \<leftarrow> p_tf (os_proc (mc_os s) c);
     let otf = (case otf of Some (b, x) \<Rightarrow> Some (b, if b = a then tf else x) | None \<Rightarrow> None);
     let u = upd_os_proc c (\<lambda>x. x\<lparr>p_tf := otf\<rparr>) (mc_os s);
     if in_kernel then Some (True, tf, s\<lparr>mc_os := u\<rparr>)
     else if p_flags (os_proc u c) AND PF_EXITING \<noteq> 0
     then do { u1 \<leftarrow> do_exit (ev_vops E) (ev_syms E) (- E_KILLED) u; Some (False, tf, s\<lparr>mc_os := u1\<rparr>) }
     else if p_need_resched (os_proc u c)
     then do { u1 \<leftarrow> os_schedule (ev_vops E) u; Some (current (os_kern u1) = Some c, tf, s\<lparr>mc_os := u1\<rparr>) }
     else Some (True, tf, s\<lparr>mc_os := u\<rparr>)
   }"

definition trap :: "env \<Rightarrow> nat \<Rightarrow> trapframe \<Rightarrow> machine \<Rightarrow> (bool \<times> trapframe \<times> machine) option" where
  "trap E a tf s =
     (case current (os_kern (mc_os s)) of
        None \<Rightarrow> do { (ok, s1) \<leftarrow> trap_dispatch E a tf s; Some (ok, tf, s1) }
      | Some c \<Rightarrow> do {
          let otf = p_tf (os_proc (mc_os s) c);
          (ok, s1) \<leftarrow> trap_dispatch E a tf (s\<lparr>mc_os := upd_os_proc c (\<lambda>x. x\<lparr>p_tf := Some (a, tf)\<rparr>) (mc_os s)\<rparr>);
          if ok then trap_leave E a otf (trap_in_kernel tf) s1 else Some (False, tf, s1)
        })"

end
