(* ===== verification/Bitmap.thy ===== *)
theory Bitmap
  imports Dev_Model Bytes
begin

text \<open>
  \<open>kern/fs/sfs/bitmap.c\<close>: an array of 32-bit words in kernel memory; a set bit stands for a free block.
  \<open>free_bits\<close> is the set of indices the bitmap offers.  The properties are what each operation does to that set.
\<close>

unbundle bit_operations_syntax

definition WORD_BITS :: nat where "WORD_BITS = 32"

definition bm_word :: "bitmap \<Rightarrow> nat \<Rightarrow> nat" where "bm_word bm ix = bm_map bm + 4 * ix"

definition bit_mask :: "nat \<Rightarrow> 32 word" where "bit_mask k = push_bit k 1"

text \<open>The words are 32 bits but \<open>WORD_BITS\<close> has type \<open>size_t\<close>, so the sums below do not wrap.\<close>

definition bitmap_create :: "nat \<Rightarrow> ucore \<Rightarrow> ((nat \<times> bitmap) option \<times> ucore) option" where
  "bitmap_create nbits s = do {
     kassert (nbits \<noteq> 0 \<and> nbits < nbits + WORD_BITS);
     let (a, s1) = os_kmalloc s;
     case a of
       None \<Rightarrow> Some (None, s1)
     | Some p \<Rightarrow> do {
         let nwords = u32 ((nbits + WORD_BITS - 1) div WORD_BITS);
         let (b, s2) = os_kmalloc s1;
         case b of
           None \<Rightarrow> Some (None, os_kfree p s2)
         | Some mp \<Rightarrow> do {
             let bm = \<lparr>bm_nbits = nbits, bm_nwords = nwords, bm_map = mp\<rparr>;
             let m = memset (os_mem s2) mp 0xFF (4 * nwords);
             m1 \<leftarrow> (if nbits \<noteq> nwords * WORD_BITS
               then do {
                 let ix = nwords - 1;
                 let overbits = nbits - ix * WORD_BITS;
                 kassert (nbits div WORD_BITS = ix);
                 kassert (0 < overbits \<and> overbits < WORD_BITS);
                 Some (fold (\<lambda>k m. store32 (bm_word bm ix) (load32 m (bm_word bm ix) XOR bit_mask k) m)
                   [overbits..<WORD_BITS] m)
               }
               else Some m);
             Some (Some (p, bm), upd_mem (\<lambda>_. m1) s2)
           }
       }
   }"

function find_offset :: "32 word \<Rightarrow> nat \<Rightarrow> nat option" where
  "find_offset w offset =
     (if offset < WORD_BITS
      then if w AND bit_mask offset \<noteq> 0 then Some offset else find_offset w (offset + 1)
      else None)"
  by auto
termination by (relation "measure (\<lambda>(w, k). WORD_BITS - k)") auto

function alloc_scan :: "bitmap \<Rightarrow> nat \<Rightarrow> Strings.mem \<Rightarrow> (int \<times> nat option \<times> Strings.mem) option" where
  "alloc_scan bm ix m =
     (if ix < bm_nwords bm
      then if load32 m (bm_word bm ix) \<noteq> 0
        then (case find_offset (load32 m (bm_word bm ix)) 0 of
            Some offset \<Rightarrow>
              Some (0, Some (u32 (ix * WORD_BITS + offset)),
                store32 (bm_word bm ix) (load32 m (bm_word bm ix) XOR bit_mask offset) m)
          | None \<Rightarrow> None)
        else alloc_scan bm (ix + 1) m
      else Some (- E_NO_MEM, None, m))"
  by auto
termination by (relation "measure (\<lambda>(bm, ix, m). bm_nwords bm - ix)") auto

declare find_offset.simps [simp del] alloc_scan.simps [simp del]

definition bitmap_alloc :: "bitmap \<Rightarrow> Strings.mem \<Rightarrow> (int \<times> nat option \<times> Strings.mem) option" where
  "bitmap_alloc bm m = alloc_scan bm 0 m"

definition bitmap_translate :: "bitmap \<Rightarrow> nat \<Rightarrow> (nat \<times> 32 word) option" where
  "bitmap_translate bm index = do {
     kassert (index < bm_nbits bm);
     Some (bm_word bm (index div WORD_BITS), bit_mask (index mod WORD_BITS))
   }"

definition bitmap_test :: "bitmap \<Rightarrow> nat \<Rightarrow> Strings.mem \<Rightarrow> bool option" where
  "bitmap_test bm index m = do {
     (word, mask) \<leftarrow> bitmap_translate bm index;
     Some (load32 m word AND mask \<noteq> 0)
   }"

definition bitmap_free :: "bitmap \<Rightarrow> nat \<Rightarrow> Strings.mem \<Rightarrow> Strings.mem option" where
  "bitmap_free bm index m = do {
     (word, mask) \<leftarrow> bitmap_translate bm index;
     kassert (load32 m word AND mask = 0);
     Some (store32 word (load32 m word OR mask) m)
   }"

definition bitmap_destroy :: "nat \<Rightarrow> bitmap \<Rightarrow> ucore \<Rightarrow> ucore" where
  "bitmap_destroy p bm s = os_kfree p (os_kfree (bm_map bm) s)"

definition bitmap_getdata :: "bitmap \<Rightarrow> nat \<times> nat" where
  "bitmap_getdata bm = (bm_map bm, 4 * bm_nwords bm)"

section \<open>The indices a bitmap offers\<close>

definition bit_free :: "bitmap \<Rightarrow> Strings.mem \<Rightarrow> nat \<Rightarrow> bool" where
  "bit_free bm m i \<longleftrightarrow> bit (load32 m (bm_word bm (i div WORD_BITS))) (i mod WORD_BITS)"

definition free_bits :: "bitmap \<Rightarrow> Strings.mem \<Rightarrow> nat set" where
  "free_bits bm m = {i. i < WORD_BITS * bm_nwords bm \<and> bit_free bm m i}"

lemma finite_free_bits [simp]: "finite (free_bits bm m)"
  by (simp add: free_bits_def)

lemma bit_mask_bit: "bit (bit_mask k) n \<longleftrightarrow> n = k \<and> k < 32"
  by (auto simp: bit_mask_def bit_simps)

lemma and_bit_mask: "k < WORD_BITS \<Longrightarrow> w AND bit_mask k = 0 \<longleftrightarrow> \<not> bit w k"
  by (auto simp: bit_eq_iff [where 'a = "32 word"] bit_simps bit_mask_bit WORD_BITS_def)

lemma bm_word_other: "i \<noteq> j \<Longrightarrow> load32 (store32 (bm_word bm i) w m) (bm_word bm j) = load32 m (bm_word bm j)"
  by (rule load_store32_other) (auto simp: bm_word_def)

lemma bit_free_store:
  "bit_free bm (store32 (bm_word bm j) w m) i \<longleftrightarrow>
     (if i div WORD_BITS = j then bit w (i mod WORD_BITS) else bit_free bm m i)"
  by (auto simp: bit_free_def bm_word_other)

definition bit_flip :: "bitmap \<Rightarrow> nat \<Rightarrow> Strings.mem \<Rightarrow> Strings.mem" where
  "bit_flip bm i m = (let a = bm_word bm (i div WORD_BITS)
     in store32 a (load32 m a XOR bit_mask (i mod WORD_BITS)) m)"

lemma store_store32 [simp]: "store32 a v (store32 a w m) = store32 a v m"
  by (auto simp: store32_def write_bytes_def fun_eq_iff)

lemma find_offset_Some:
  "find_offset w k = Some j \<Longrightarrow> bit w j \<and> j < WORD_BITS \<and> k \<le> j \<and> (\<forall>i. k \<le> i \<and> i < j \<longrightarrow> \<not> bit w i)"
proof (induction w k rule: find_offset.induct)
  case (1 w k)
  show ?case
  proof (cases "k < WORD_BITS \<and> bit w k")
    case True
    then show ?thesis using "1.prems" by (subst (asm) find_offset.simps) (auto simp: and_bit_mask)
  next
    case False
    then have "k < WORD_BITS" and nb: "\<not> bit w k" and "find_offset w (k + 1) = Some j"
      using "1.prems" by (auto simp: find_offset.simps [of w k] and_bit_mask split: if_splits)
    then have ih: "bit w j \<and> j < WORD_BITS \<and> k + 1 \<le> j \<and> (\<forall>i. k + 1 \<le> i \<and> i < j \<longrightarrow> \<not> bit w i)"
      using "1.IH" by (simp add: and_bit_mask)
    have "\<not> bit w i" if "k \<le> i" "i < j" for i
      using that nb ih by (cases "i = k") auto
    then show ?thesis using ih by simp
  qed
qed

lemma find_offset_None: "find_offset w k = None \<Longrightarrow> k \<le> i \<Longrightarrow> i < WORD_BITS \<Longrightarrow> \<not> bit w i"
proof (induction w k rule: find_offset.induct)
  case (1 w k)
  have lt: "k < WORD_BITS" using "1.prems" by simp
  then have nb: "\<not> bit w k" and r: "find_offset w (k + 1) = None"
    using "1.prems"(1) by (auto simp: find_offset.simps [of w k] and_bit_mask split: if_splits)
  then show ?case using "1.IH" lt "1.prems" by (cases "i = k") (auto simp: and_bit_mask)
qed

lemma find_offset_nonzero:
  assumes "w \<noteq> 0"
  obtains j where "find_offset w 0 = Some j"
proof (cases "find_offset w 0")
  case None
  have "\<not> bit w i" for i
    using find_offset_None [OF None, of i] bit_imp_le_length [of w i] by (cases "i < 32") (auto simp: WORD_BITS_def)
  then have "w = 0" by (simp add: bit_eq_iff [where 'a = "32 word"])
  then show ?thesis using assms by simp
qed (rule that)

text \<open>An allocation takes the least free index and changes nothing else; it fails exactly when none is
  free.\<close>

lemma alloc_scan_spec:
  assumes "WORD_BITS * bm_nwords bm \<le> 4294967296"
    and "\<forall>i<WORD_BITS * ix. \<not> bit_free bm m i" and "ix \<le> bm_nwords bm"
  shows "(free_bits bm m = {} \<longrightarrow> alloc_scan bm ix m = Some (- E_NO_MEM, None, m))
    \<and> (free_bits bm m \<noteq> {} \<longrightarrow> (\<exists>m'. alloc_scan bm ix m = Some (0, Some (Min (free_bits bm m)), m')
        \<and> free_bits bm m' = free_bits bm m - {Min (free_bits bm m)}
        \<and> (\<forall>a. a < bm_map bm \<or> bm_map bm + 4 * bm_nwords bm \<le> a \<longrightarrow> m' a = m a)
        \<and> m' = bit_flip bm (Min (free_bits bm m)) m))"
  using assms
proof (induction bm ix m rule: alloc_scan.induct)
  case (1 bm ix m)
  let ?w = "load32 m (bm_word bm ix)"
  show ?case
  proof (cases "ix < bm_nwords bm")
    case False
    then have "free_bits bm m = {}" using "1.prems" by (auto simp: free_bits_def)
    then show ?thesis using False by (simp add: alloc_scan.simps [of bm ix])
  next
    case lt: True
    show ?thesis
    proof (cases "?w = 0")
      case True
      have "\<not> bit_free bm m i" if "i < WORD_BITS * (ix + 1)" for i
      proof (cases "i < WORD_BITS * ix")
        case False
        then have "i div WORD_BITS = ix" using that by (auto simp: WORD_BITS_def)
        then show ?thesis using True by (simp add: bit_free_def)
      qed (use "1.prems" in simp)
      then show ?thesis using "1.IH" [OF lt] True lt "1.prems" by (simp add: alloc_scan.simps [of bm ix])
    next
      case False
      then obtain j where j: "find_offset ?w 0 = Some j" using find_offset_nonzero by blast
      note jp = find_offset_Some [OF j]
      define k where "k = ix * WORD_BITS + j"
      have kd: "k div WORD_BITS = ix" "k mod WORD_BITS = j" using jp by (auto simp: k_def WORD_BITS_def)
      have kb: "k < WORD_BITS * bm_nwords bm"
      proof -
        have "k < WORD_BITS * (ix + 1)" using jp by (simp add: k_def)
        also have "\<dots> \<le> WORD_BITS * bm_nwords bm" using lt by (intro mult_le_mono2) simp
        finally show ?thesis .
      qed
      have kf: "k \<in> free_bits bm m" using kb kd jp by (simp add: free_bits_def bit_free_def)
      have least: "k \<le> i" if i: "i \<in> free_bits bm m" for i
      proof (rule ccontr)
        assume "\<not> k \<le> i"
        then have ik: "i < k" by simp
        have "\<not> i < WORD_BITS * ix" using i "1.prems" by (auto simp: free_bits_def)
        then have "i div WORD_BITS = ix" using ik jp by (auto simp: k_def WORD_BITS_def)
        moreover from this have "i mod WORD_BITS < j"
          using ik div_mult_mod_eq [of i WORD_BITS] by (simp add: k_def)
        ultimately show False using i jp by (auto simp: free_bits_def bit_free_def)
      qed
      have mn: "Min (free_bits bm m) = k" using kf least by (intro Min_eqI) auto
      define m' where "m' = store32 (bm_word bm ix) (?w XOR bit_mask j) m"
      have "bit_free bm m' i \<longleftrightarrow> bit_free bm m i \<and> i \<noteq> k" for i
      proof (cases "i div WORD_BITS = ix")
        case True
        then have "i = k \<longleftrightarrow> i mod WORD_BITS = j" using kd by (metis div_mult_mod_eq)
        then show ?thesis using True jp
          by (auto simp: m'_def bit_free_store bit_free_def bit_simps bit_mask_bit WORD_BITS_def)
      next
        case False
        then show ?thesis using kd by (auto simp: m'_def bit_free_store)
      qed
      then have "free_bits bm m' = free_bits bm m - {k}" by (auto simp: free_bits_def)
      moreover have "m' a = m a" if "a < bm_map bm \<or> bm_map bm + 4 * bm_nwords bm \<le> a" for a
        unfolding m'_def by (rule store32_out) (use that lt in \<open>auto simp: bm_word_def\<close>)
      moreover have "alloc_scan bm ix m = Some (0, Some k, m')"
      proof -
        have "ix * WORD_BITS + j < 4294967296" using kb "1.prems"(1) by (simp add: k_def)
        then show ?thesis using lt False j by (simp add: alloc_scan.simps [of bm ix] k_def m'_def)
      qed
      moreover have "m' = bit_flip bm k m" by (simp add: m'_def bit_flip_def Let_def kd)
      ultimately show ?thesis using mn kf by blast
    qed
  qed
qed

lemma bitmap_alloc_none:
  assumes "WORD_BITS * bm_nwords bm \<le> 4294967296" and "free_bits bm m = {}"
  shows "bitmap_alloc bm m = Some (- E_NO_MEM, None, m)"
  using alloc_scan_spec [of bm 0 m] assms by (simp add: bitmap_alloc_def)

lemma bitmap_alloc_some:
  assumes "WORD_BITS * bm_nwords bm \<le> 4294967296" and "free_bits bm m \<noteq> {}"
  obtains m' where "bitmap_alloc bm m = Some (0, Some (Min (free_bits bm m)), m')"
    and "free_bits bm m' = free_bits bm m - {Min (free_bits bm m)}"
    and "\<And>a. a < bm_map bm \<or> bm_map bm + 4 * bm_nwords bm \<le> a \<Longrightarrow> m' a = m a"
    and "m' = bit_flip bm (Min (free_bits bm m)) m"
  using alloc_scan_spec [of bm 0 m] assms by (auto simp: bitmap_alloc_def)

lemma bitmap_test_eq:
  assumes "i < bm_nbits bm"
  shows "bitmap_test bm i m = Some (bit_free bm m i)"
  using assms by (simp add: bitmap_test_def bitmap_translate_def bit_free_def and_bit_mask WORD_BITS_def)

text \<open>Freeing asserts that the block was taken.\<close>

lemma bitmap_free_taken:
  assumes "i < bm_nbits bm" and "bm_nbits bm \<le> WORD_BITS * bm_nwords bm" and "\<not> bit_free bm m i"
  obtains m' where "bitmap_free bm i m = Some m'" and "free_bits bm m' = insert i (free_bits bm m)"
    and "\<And>a. a < bm_map bm \<or> bm_map bm + 4 * bm_nwords bm \<le> a \<Longrightarrow> m' a = m a"
proof -
  let ?w = "load32 m (bm_word bm (i div WORD_BITS))"
  define m' where "m' = store32 (bm_word bm (i div WORD_BITS)) (?w OR bit_mask (i mod WORD_BITS)) m"
  have ib: "i < WORD_BITS * bm_nwords bm" using assms by simp
  have "bitmap_free bm i m = Some m'"
    using assms by (simp add: bitmap_free_def bitmap_translate_def m'_def bit_free_def and_bit_mask WORD_BITS_def)
  moreover have "bit_free bm m' j \<longleftrightarrow> bit_free bm m j \<or> j = i" for j
  proof (cases "j div WORD_BITS = i div WORD_BITS")
    case True
    then have "j = i \<longleftrightarrow> j mod WORD_BITS = i mod WORD_BITS" by (metis div_mult_mod_eq)
    then show ?thesis using True
      by (auto simp: m'_def bit_free_store bit_free_def bit_simps bit_mask_bit WORD_BITS_def)
  next
    case False
    then show ?thesis by (auto simp: m'_def bit_free_store)
  qed
  then have "free_bits bm m' = insert i (free_bits bm m)" using ib by (auto simp: free_bits_def)
  moreover have "m' a = m a" if "a < bm_map bm \<or> bm_map bm + 4 * bm_nwords bm \<le> a" for a
  proof -
    have "i div WORD_BITS < bm_nwords bm" using ib by (simp add: less_mult_imp_div_less mult.commute)
    then show ?thesis unfolding m'_def by (intro store32_out) (use that in \<open>auto simp: bm_word_def\<close>)
  qed
  ultimately show ?thesis by (rule that)
qed

lemma bitmap_free_free:
  assumes "i < bm_nbits bm" and "bit_free bm m i"
  shows "bitmap_free bm i m = None"
  using assms by (simp add: bitmap_free_def bitmap_translate_def bit_free_def and_bit_mask WORD_BITS_def)

text \<open>A bit set by an allocation is the one that freeing the index sets back.\<close>

lemma bitmap_free_flip:
  assumes "i < bm_nbits bm" and "bit_free bm m i"
  shows "bitmap_free bm i (bit_flip bm i m) = Some m"
proof -
  define a where "a = bm_word bm (i div WORD_BITS)"
  define k where "k = i mod WORD_BITS"
  have k: "k < WORD_BITS" and b: "bit (load32 m a) k"
    using assms by (auto simp: k_def a_def bit_free_def WORD_BITS_def)
  have w: "(load32 m a XOR bit_mask k) AND bit_mask k = 0"
    using k b by (simp add: and_bit_mask bit_simps bit_mask_bit WORD_BITS_def)
  have r: "(load32 m a XOR bit_mask k) OR bit_mask k = load32 m a"
    using k b by (auto simp: bit_eq_iff [where 'a = "32 word"] bit_simps bit_mask_bit)
  show ?thesis
    using assms w r by (simp add: bitmap_free_def bitmap_translate_def bit_flip_def Let_def flip: a_def k_def)
qed

section \<open>A fresh bitmap\<close>

lemma fold_flip_bit:
  assumes "distinct ks" and "\<forall>k\<in>set ks. k < 32" and "n < 32"
  shows "bit (load32 (fold (\<lambda>k m. store32 a (load32 m a XOR bit_mask k) m) ks m) a) n \<longleftrightarrow>
    (bit (load32 m a) n \<noteq> (n \<in> set ks))"
  using assms by (induction ks arbitrary: m) (auto simp: bit_simps bit_mask_bit)

lemma fold_flip_other:
  "b + 4 \<le> a \<or> a + 4 \<le> b \<Longrightarrow>
     load32 (fold (\<lambda>k m. store32 a (load32 m a XOR bit_mask k) m) ks m) b = load32 m b"
  by (induction ks arbitrary: m) auto

lemma fold_flip_out:
  "x < a \<or> a + 4 \<le> x \<Longrightarrow> fold (\<lambda>k m. store32 a (load32 m a XOR bit_mask k) m) ks m x = m x"
  by (induction ks arbitrary: m) auto

lemma load32_memset: "p \<le> a \<Longrightarrow> a + 4 \<le> p + n \<Longrightarrow> bit (load32 (memset m p 0xFF n) a) k \<longleftrightarrow> k < 32"
proof -
  assume a: "p \<le> a" "a + 4 \<le> p + n"
  have "read_bytes (memset m p 0xFF n) a 4 = replicate 4 0xFF"
    by (rule nth_equalityI) (use a in \<open>auto simp: memset_eq\<close>)
  also have "\<dots> = [0xFF, 0xFF, 0xFF, 0xFF]" by (simp add: eval_nat_numeral)
  finally have "load32 (memset m p 0xFF n) a = - 1" by (simp add: load32_def)
  then show ?thesis by (simp add: bit_simps)
qed

lemma bitmap_create_frees:
  assumes "bitmap_create nbits s = Some (Some (p, bm), s1)" and "nbits < 4294967296"
  shows "free_bits bm (os_mem s1) = {..<nbits}" and "bm_nbits bm = nbits"
    and "nbits \<le> WORD_BITS * bm_nwords bm" and "WORD_BITS * bm_nwords bm < nbits + WORD_BITS"
    and "\<And>a. a < bm_map bm \<or> bm_map bm + 4 * bm_nwords bm \<le> a \<Longrightarrow> os_mem s1 a = os_mem s a"
proof -
  have nz: "0 < nbits" using assms by (auto simp: bitmap_create_def)
  define nw where "nw = (nbits + 31) div 32"
  have u: "u32 ((nbits + WORD_BITS - 1) div WORD_BITS) = nw"
    using assms(2) by (simp add: WORD_BITS_def nw_def)
  have nwb: "nbits \<le> 32 * nw" "32 * nw < nbits + 32" "0 < nw" using nz by (auto simp: nw_def)
  obtain r1 s' where k1: "os_kmalloc s = (r1, s')" by fastforce
  obtain r2 s'' where k2: "os_kmalloc s' = (r2, s'')" by fastforce
  obtain p' where p': "r1 = Some p'"
    using assms(1) nz k1 by (cases r1) (auto simp: bitmap_create_def WORD_BITS_def)
  obtain mp where mp: "r2 = Some mp"
    using assms(1) nz k1 k2 p' by (cases r2) (auto simp: bitmap_create_def WORD_BITS_def Let_def)
  note k = k1 [unfolded p'] k2 [unfolded mp]
  have ms: "os_mem s'' = os_mem s"
    using k by (auto simp: os_kmalloc_def split: prod.splits)
  define m0 where "m0 = memset (os_mem s) mp 0xFF (4 * nw)"
  define A where "A = mp + 4 * (nw - 1)"
  define m1 where "m1 = (if nbits \<noteq> nw * 32
    then fold (\<lambda>k m. store32 A (load32 m A XOR bit_mask k) m) [nbits - (nw - 1) * 32..<32] m0 else m0)"
  have r: "bm = \<lparr>bm_nbits = nbits, bm_nwords = nw, bm_map = mp\<rparr>" "os_mem s1 = m1"
    using assms(1) k ms u nz
    by (auto simp: bitmap_create_def WORD_BITS_def m1_def m0_def A_def bm_word_def Let_def split: if_splits)
  have w: "load32 m1 (mp + 4 * j) = load32 m0 (mp + 4 * j)" if "j < nw - 1" for j
    using that by (auto simp: m1_def A_def intro!: fold_flip_other)
  have fr: "bit_free bm m1 i \<longleftrightarrow> i < nbits" if i: "i < 32 * nw" for i
  proof -
    have d: "i div 32 < nw" using i by (simp add: less_mult_imp_div_less mult.commute)
    have b0: "bit (load32 m0 (mp + 4 * (i div 32))) (i mod 32)"
      unfolding m0_def by (subst load32_memset) (use d in auto)
    show ?thesis
    proof (cases "i div 32 < nw - 1")
      case True
      then have "i < nbits" using nwb by linarith
      then show ?thesis using b0 w [OF True] by (simp add: r bit_free_def bm_word_def WORD_BITS_def)
    next
      case False
      then have e: "i div 32 = nw - 1" using d by linarith
      have i2: "i = (nw - 1) * 32 + i mod 32" using e div_mult_mod_eq [of i 32] by simp
      have "bit (load32 m1 A) (i mod 32) \<longleftrightarrow> i < nbits"
      proof (cases "nbits = nw * 32")
        case True
        then show ?thesis using b0 e i by (simp add: m1_def A_def)
      next
        case False
        have "(i mod 32 \<in> set [nbits - (nw - 1) * 32..<32]) \<longleftrightarrow> \<not> i < nbits"
          using i2 nwb by auto
        then show ?thesis using False b0 e by (simp add: m1_def fold_flip_bit A_def)
      qed
      then show ?thesis by (simp add: r bit_free_def bm_word_def WORD_BITS_def e A_def)
    qed
  qed
  show "free_bits bm (os_mem s1) = {..<nbits}"
    using fr nwb by (auto simp: free_bits_def r WORD_BITS_def)
  show "bm_nbits bm = nbits" "nbits \<le> WORD_BITS * bm_nwords bm" "WORD_BITS * bm_nwords bm < nbits + WORD_BITS"
    using nwb by (simp_all add: r WORD_BITS_def)
  show "os_mem s1 a = os_mem s a" if "a < bm_map bm \<or> bm_map bm + 4 * bm_nwords bm \<le> a" for a
  proof -
    have o: "a < mp \<or> mp + 4 * nw \<le> a" using that by (simp add: r)
    then have "a < A \<or> A + 4 \<le> a" using nwb by (auto simp: A_def)
    then have "m1 a = m0 a" by (simp add: m1_def fold_flip_out)
    then show ?thesis using o by (auto simp: r m0_def memset_eq)
  qed
qed

section \<open>Properties\<close>

text \<open>A new bitmap offers exactly the indices below its size: the surplus bits of its last word are
  marked as taken, and memory outside the array keeps its contents.\<close>

theorem bitmap_create_offers_all:
  assumes "bitmap_create nbits s = Some (Some (p, bm), s1)" and "nbits < 4294967296"
  shows "free_bits bm (os_mem s1) = {..<nbits} \<and> bm_nbits bm = nbits
    \<and> (\<forall>a. a < bm_map bm \<or> bm_map bm + 4 * bm_nwords bm \<le> a \<longrightarrow> os_mem s1 a = os_mem s a)"
  using bitmap_create_frees [OF assms] by simp

theorem bitmap_create_offers_all_witness:
  "\<exists>p bm s1. bitmap_create 40 (boot_ucore [1000, 2000]) = Some (Some (p, bm), s1)
     \<and> free_bits bm (os_mem s1) = {..<40}"
proof -
  obtain p bm s1 where "bitmap_create 40 (boot_ucore [1000, 2000]) = Some (Some (p, bm), s1)"
    by (simp add: bitmap_create_def WORD_BITS_def os_kmalloc_def kmalloc_obj_def boot_ucore_def Let_def)
  moreover from this have "free_bits bm (os_mem s1) = {..<40}"
    using bitmap_create_offers_all [of 40 "boot_ucore [1000, 2000]" p bm s1] by simp
  ultimately show ?thesis by blast
qed

text \<open>C27: An allocation returns the least index the bitmap offers and takes only that one; it fails, and
  changes nothing, exactly when no index is offered.  Freeing the index restores the memory.\<close>

theorem bitmap_alloc_least_roundtrip:
  assumes "WORD_BITS * bm_nwords bm \<le> 4294967296" and "free_bits bm m \<subseteq> {..<bm_nbits bm}"
  shows "if free_bits bm m = {} then bitmap_alloc bm m = Some (- E_NO_MEM, None, m)
    else (let i = Min (free_bits bm m) in \<exists>m'. bitmap_alloc bm m = Some (0, Some i, m')
      \<and> free_bits bm m' = free_bits bm m - {i} \<and> bitmap_free bm i m' = Some m)"
proof (cases "free_bits bm m = {}")
  case True
  then show ?thesis using bitmap_alloc_none [OF assms(1)] by simp
next
  case False
  have "Min (free_bits bm m) \<in> free_bits bm m" using False by simp
  then have "bit_free bm m (Min (free_bits bm m))" "Min (free_bits bm m) < bm_nbits bm"
    using assms(2) by (auto simp: free_bits_def)
  then have "bitmap_free bm (Min (free_bits bm m)) (bit_flip bm (Min (free_bits bm m)) m) = Some m"
    by (simp add: bitmap_free_flip)
  with False show ?thesis
    by (auto simp: Let_def intro: bitmap_alloc_some [OF assms(1) False])
qed

theorem bitmap_alloc_least_roundtrip_witness:
  "\<exists>m'. bitmap_alloc \<lparr>bm_nbits = 20, bm_nwords = 1, bm_map = 0\<rparr> ((\<lambda>_. 0)(1 := 2)) = Some (0, Some 9, m')
    \<and> bitmap_free \<lparr>bm_nbits = 20, bm_nwords = 1, bm_map = 0\<rparr> 9 m' = Some ((\<lambda>_. 0)(1 := 2))"
proof -
  let ?bm = "\<lparr>bm_nbits = 20, bm_nwords = 1, bm_map = 0\<rparr>" and ?m = "(\<lambda>_. 0)(1 := 2) :: Strings.mem"
  have "load32 ?m 0 = bit_mask 9"
    by (simp add: load32_def read_bytes_def bit_mask_def upt_rec)
  then have "free_bits ?bm ?m = {9}"
    by (auto simp: free_bits_def bit_free_def bm_word_def WORD_BITS_def bit_mask_bit)
  then show ?thesis using bitmap_alloc_least_roundtrip [of ?bm ?m] by (auto simp: WORD_BITS_def Let_def)
qed

end
