(* ===== verification/Sfs_Io.thy ===== *)
theory Sfs_Io
  imports Bitmap Proc_Table
begin

text \<open>
  The simple file system below its inodes: \<open>kern/fs/sfs/sfs.h\<close> (constants and on-disk formats), \<open>sfs_lock.c\<close> and
  \<open>sfs_io.c\<close> (whole blocks, parts of a block through the buffer, the superblock and the free map).  \<open>f\<close> is the file
  system; its three semaphores are the numbers \<open>f\<close>, \<open>f + 1\<close>, \<open>f + 2\<close>.
\<close>

section \<open>sfs.h\<close>

definition SFS_MAGIC :: nat where "SFS_MAGIC = 0x2f8dbe2a"
definition SFS_BLKSIZE :: nat where "SFS_BLKSIZE = 4096"
definition SFS_NDIRECT :: nat where "SFS_NDIRECT = 12"
definition SFS_MAX_INFO_LEN :: nat where "SFS_MAX_INFO_LEN = 31"
definition SFS_MAX_FNAME_LEN :: nat where "SFS_MAX_FNAME_LEN = FS_MAX_FNAME_LEN"
definition SFS_MAX_FILE_SIZE :: nat where "SFS_MAX_FILE_SIZE = 1024 * 1024 * 128"
definition SFS_BLKN_SUPER :: nat where "SFS_BLKN_SUPER = 0"
definition SFS_BLKN_ROOT :: nat where "SFS_BLKN_ROOT = 1"
definition SFS_BLKN_FREEMAP :: nat where "SFS_BLKN_FREEMAP = 2"
definition SFS_BLKBITS :: nat where "SFS_BLKBITS = SFS_BLKSIZE * 8"
definition SFS_BLK_NENTRY :: nat where "SFS_BLK_NENTRY = SFS_BLKSIZE div 4"
definition SFS_TYPE_INVAL :: nat where "SFS_TYPE_INVAL = 0"
definition SFS_TYPE_FILE :: nat where "SFS_TYPE_FILE = 1"
definition SFS_TYPE_DIR :: nat where "SFS_TYPE_DIR = 2"
definition SFS_TYPE_LINK :: nat where "SFS_TYPE_LINK = 3"
definition SFS_HLIST_SHIFT :: nat where "SFS_HLIST_SHIFT = 10"
definition SFS_HLIST_SIZE :: nat where "SFS_HLIST_SIZE = 2 ^ SFS_HLIST_SHIFT"
definition sin_hashfn :: "nat \<Rightarrow> nat" where "sin_hashfn x = hash32 x SFS_HLIST_SHIFT"

definition ROUNDUP_DIV :: "nat \<Rightarrow> nat \<Rightarrow> nat" where "ROUNDUP_DIV a n = (a + n - 1) div n"

definition sfs_freemap_bits :: "sfs_super \<Rightarrow> nat" where
  "sfs_freemap_bits su = u32 (ROUNDUP_DIV (su_blocks su) SFS_BLKBITS * SFS_BLKBITS)"

definition sfs_freemap_blocks :: "sfs_super \<Rightarrow> nat" where
  "sfs_freemap_blocks su = u32 (ROUNDUP_DIV (su_blocks su) SFS_BLKBITS)"

text \<open>The bytes of the on-disk structures, in the order of their fields; there is no padding.\<close>

definition super_bytes :: "sfs_super \<Rightarrow> 8 word list" where
  "super_bytes su = le_bytes 4 (su_magic su) @ le_bytes 4 (su_blocks su) @ le_bytes 4 (su_unused_blocks su) @ su_info su"

definition super_of :: "8 word list \<Rightarrow> sfs_super" where
  "super_of bs = \<lparr>su_magic = le_val (take 4 bs), su_blocks = le_val (take 4 (drop 4 bs)),
     su_unused_blocks = le_val (take 4 (drop 8 bs)), su_info = take (SFS_MAX_INFO_LEN + 1) (drop 12 bs)\<rparr>"

definition sizeof_din :: nat where "sizeof_din = 64"

definition din_bytes :: "sfs_disk_inode \<Rightarrow> 8 word list" where
  "din_bytes di = le_bytes 4 (di_size di) @ le_bytes 2 (di_type di) @ le_bytes 2 (di_nlinks di) @ le_bytes 4 (di_blocks di)
     @ concat (map (le_bytes 4) (di_direct di)) @ le_bytes 4 (di_indirect di)"

definition din_of :: "8 word list \<Rightarrow> sfs_disk_inode" where
  "din_of bs = \<lparr>di_size = le_val (take 4 bs), di_type = le_val (take 2 (drop 4 bs)),
     di_nlinks = le_val (take 2 (drop 6 bs)), di_blocks = le_val (take 4 (drop 8 bs)),
     di_direct = map (\<lambda>i. le_val (take 4 (drop (12 + 4 * i) bs))) [0..<SFS_NDIRECT],
     di_indirect = le_val (take 4 (drop 60 bs))\<rparr>"

text \<open>A \<open>struct sfs_disk_entry\<close> is the number of an inode and a name.\<close>

definition sizeof_entry :: nat where "sizeof_entry = 4 + SFS_MAX_FNAME_LEN + 1"
definition sfs_dentry_size :: nat where "sfs_dentry_size = SFS_MAX_FNAME_LEN + 1"

definition get_sfs :: "nat \<Rightarrow> ucore \<Rightarrow> sfs_fs" where "get_sfs f s = sfss (os_data s) f"

definition upd_sfs :: "nat \<Rightarrow> (sfs_fs \<Rightarrow> sfs_fs) \<Rightarrow> ucore \<Rightarrow> ucore" where
  "upd_sfs f g = upd_data (\<lambda>d. d\<lparr>sfss := (sfss d)(f := g (sfss d f))\<rparr>)"

definition sfs_blocks :: "nat \<Rightarrow> ucore \<Rightarrow> nat" where "sfs_blocks f s = su_blocks (sf_super (get_sfs f s))"

section \<open>sfs\_lock.c\<close>

definition fs_sem :: "nat \<Rightarrow> nat" where "fs_sem f = f"
definition io_sem :: "nat \<Rightarrow> nat" where "io_sem f = f + 1"
definition mutex_sem :: "nat \<Rightarrow> nat" where "mutex_sem f = f + 2"

definition lock_sfs_fs :: "nat \<Rightarrow> ucore \<Rightarrow> ucore option" where "lock_sfs_fs f s = os_down (fs_sem f) s"
definition lock_sfs_io :: "nat \<Rightarrow> ucore \<Rightarrow> ucore option" where "lock_sfs_io f s = os_down (io_sem f) s"
definition unlock_sfs_fs :: "fsdata vops \<Rightarrow> nat \<Rightarrow> ucore \<Rightarrow> ucore option" where "unlock_sfs_fs V f s = os_up V (fs_sem f) s"
definition unlock_sfs_io :: "fsdata vops \<Rightarrow> nat \<Rightarrow> ucore \<Rightarrow> ucore option" where "unlock_sfs_io V f s = os_up V (io_sem f) s"

section \<open>sfs\_io.c\<close>

definition sfs_rwblock_nolock ::
  "fsdata vops \<Rightarrow> nat \<Rightarrow> nat \<Rightarrow> nat \<Rightarrow> bool \<Rightarrow> bool \<Rightarrow> ucore \<Rightarrow> (int \<times> ucore) option" where
  "sfs_rwblock_nolock V f buf blkno wr check s = do {
     kassert ((blkno \<noteq> 0 \<or> \<not> check) \<and> blkno < sfs_blocks f s);
     let iob = iobuf_init buf SFS_BLKSIZE (int (u32 (blkno * SFS_BLKSIZE)));
     (ret, iob1, s1) \<leftarrow> dop_io V (sf_dev (get_sfs f s)) iob wr s;
     Some (ret, s1)
   }"

primrec rwblock_loop ::
  "fsdata vops \<Rightarrow> nat \<Rightarrow> bool \<Rightarrow> nat \<Rightarrow> nat \<Rightarrow> nat \<Rightarrow> ucore \<Rightarrow> (int \<times> ucore) option" where
  "rwblock_loop V f wr buf blkno 0 s = Some (0, s)"
| "rwblock_loop V f wr buf blkno (Suc nblks) s = do {
     (ret, s1) \<leftarrow> sfs_rwblock_nolock V f buf blkno wr True s;
     if ret \<noteq> 0 then Some (ret, s1)
     else rwblock_loop V f wr (buf + SFS_BLKSIZE) (u32 (blkno + 1)) nblks s1
   }"

definition sfs_rwblock ::
  "fsdata vops \<Rightarrow> nat \<Rightarrow> nat \<Rightarrow> nat \<Rightarrow> nat \<Rightarrow> bool \<Rightarrow> ucore \<Rightarrow> (int \<times> ucore) option" where
  "sfs_rwblock V f buf blkno nblks wr s = do {
     s1 \<leftarrow> lock_sfs_io f s;
     (ret, s2) \<leftarrow> rwblock_loop V f wr buf blkno nblks s1;
     s3 \<leftarrow> unlock_sfs_io V f s2;
     Some (ret, s3)
   }"

definition sfs_rblock :: "fsdata vops \<Rightarrow> nat \<Rightarrow> nat \<Rightarrow> nat \<Rightarrow> nat \<Rightarrow> ucore \<Rightarrow> (int \<times> ucore) option" where
  "sfs_rblock V f buf blkno nblks s = sfs_rwblock V f buf blkno nblks False s"

definition sfs_wblock :: "fsdata vops \<Rightarrow> nat \<Rightarrow> nat \<Rightarrow> nat \<Rightarrow> nat \<Rightarrow> ucore \<Rightarrow> (int \<times> ucore) option" where
  "sfs_wblock V f buf blkno nblks s = sfs_rwblock V f buf blkno nblks True s"

text \<open>\<open>sfs_rbuf\<close> returns the \<open>len\<close> bytes that it copies to \<open>buf\<close> when it succeeds; \<open>sfs_wbuf\<close> takes the
  bytes found there.\<close>

definition sfs_rbuf ::
  "fsdata vops \<Rightarrow> nat \<Rightarrow> nat \<Rightarrow> nat \<Rightarrow> nat \<Rightarrow> ucore \<Rightarrow> (int \<times> 8 word list \<times> ucore) option" where
  "sfs_rbuf V f len blkno offset s = do {
     kassert (offset < SFS_BLKSIZE \<and> offset + len \<le> SFS_BLKSIZE);
     s1 \<leftarrow> lock_sfs_io f s;
     let b = sf_buffer (get_sfs f s1);
     (ret, s2) \<leftarrow> sfs_rwblock_nolock V f b blkno False True s1;
     s3 \<leftarrow> unlock_sfs_io V f s2;
     Some (ret, if ret = 0 then read_bytes (os_mem s2) (b + offset) len else [], s3)
   }"

definition sfs_wbuf ::
  "fsdata vops \<Rightarrow> nat \<Rightarrow> 8 word list \<Rightarrow> nat \<Rightarrow> nat \<Rightarrow> ucore \<Rightarrow> (int \<times> ucore) option" where
  "sfs_wbuf V f bs blkno offset s = do {
     kassert (offset < SFS_BLKSIZE \<and> offset + length bs \<le> SFS_BLKSIZE);
     s1 \<leftarrow> lock_sfs_io f s;
     let b = sf_buffer (get_sfs f s1);
     (ret, s2) \<leftarrow> sfs_rwblock_nolock V f b blkno False True s1;
     (ret, s3) \<leftarrow>
       (if ret = 0 then sfs_rwblock_nolock V f b blkno True True (upd_mem (\<lambda>m. write_bytes m (b + offset) bs) s2)
        else Some (ret, s2));
     s4 \<leftarrow> unlock_sfs_io V f s3;
     Some (ret, s4)
   }"

definition sfs_sync_super :: "fsdata vops \<Rightarrow> nat \<Rightarrow> ucore \<Rightarrow> (int \<times> ucore) option" where
  "sfs_sync_super V f s = do {
     s1 \<leftarrow> lock_sfs_io f s;
     let b = sf_buffer (get_sfs f s1);
     let s2 = upd_mem (\<lambda>m. memset m b 0 SFS_BLKSIZE) s1;
     let s3 = upd_mem (\<lambda>m. write_bytes m b (super_bytes (sf_super (get_sfs f s2)))) s2;
     (ret, s4) \<leftarrow> sfs_rwblock_nolock V f b SFS_BLKN_SUPER True False s3;
     s5 \<leftarrow> unlock_sfs_io V f s4;
     Some (ret, s5)
   }"

definition sfs_sync_freemap :: "fsdata vops \<Rightarrow> nat \<Rightarrow> ucore \<Rightarrow> (int \<times> ucore) option" where
  "sfs_sync_freemap V f s =
     sfs_wblock V f (fst (bitmap_getdata (sf_freemap (get_sfs f s)))) SFS_BLKN_FREEMAP
       (sfs_freemap_blocks (sf_super (get_sfs f s))) s"

primrec clear_loop :: "fsdata vops \<Rightarrow> nat \<Rightarrow> nat \<Rightarrow> nat \<Rightarrow> int \<Rightarrow> ucore \<Rightarrow> (int \<times> ucore) option" where
  "clear_loop V f blkno 0 ret s = Some (ret, s)"
| "clear_loop V f blkno (Suc nblks) ret s = do {
     (ret, s1) \<leftarrow> sfs_rwblock_nolock V f (sf_buffer (get_sfs f s)) blkno True True s;
     if ret \<noteq> 0 then Some (ret, s1) else clear_loop V f (u32 (blkno + 1)) nblks ret s1
   }"

text \<open>With no block to clear, the code returns a variable it never set.\<close>

definition sfs_clear_block :: "fsdata vops \<Rightarrow> nat \<Rightarrow> nat \<Rightarrow> nat \<Rightarrow> ucore \<Rightarrow> (int \<times> ucore) option" where
  "sfs_clear_block V f blkno nblks s = do {
     kassert (nblks \<noteq> 0);
     s1 \<leftarrow> lock_sfs_io f s;
     let s2 = upd_mem (\<lambda>m. memset m (sf_buffer (get_sfs f s1)) 0 SFS_BLKSIZE) s1;
     (ret, s3) \<leftarrow> clear_loop V f blkno nblks 0 s2;
     s4 \<leftarrow> unlock_sfs_io V f s3;
     Some (ret, s4)
   }"

end
