(* ===== verification/Sfs_Inode.thy ===== *)
theory Sfs_Inode
  imports Sfs_Io
begin

text \<open>
  \<open>kern/fs/sfs/sfs_inode.c\<close>: the block map of a file, the blocks of a directory, the inodes in memory and the
  operations of the two tables \<open>sfs_node_dirops\<close> and \<open>sfs_node_fileops\<close>.  An in-memory inode has the number \<open>n\<close>
  of its \<open>struct inode\<close>; its semaphore has the same number.
\<close>

unbundle bit_operations_syntax

definition get_sin :: "nat \<Rightarrow> ucore \<Rightarrow> sfs_inode" where "get_sin n s = sins (os_data s) n"
definition get_din :: "nat \<Rightarrow> ucore \<Rightarrow> sfs_disk_inode" where "get_din n s = sin_din (get_sin n s)"

definition upd_sin :: "nat \<Rightarrow> (sfs_inode \<Rightarrow> sfs_inode) \<Rightarrow> ucore \<Rightarrow> ucore" where
  "upd_sin n g = upd_data (\<lambda>d. d\<lparr>sins := (sins d)(n := g (sins d n))\<rparr>)"

definition upd_din :: "nat \<Rightarrow> (sfs_disk_inode \<Rightarrow> sfs_disk_inode) \<Rightarrow> ucore \<Rightarrow> ucore" where
  "upd_din n g = upd_sin n (\<lambda>x. x\<lparr>sin_din := g (sin_din x)\<rparr>)"

definition set_dirty :: "nat \<Rightarrow> ucore \<Rightarrow> ucore" where "set_dirty n = upd_sin n (\<lambda>x. x\<lparr>sin_dirty := True\<rparr>)"

definition upd_super :: "nat \<Rightarrow> (sfs_super \<Rightarrow> sfs_super) \<Rightarrow> ucore \<Rightarrow> ucore" where
  "upd_super f g = upd_sfs f (\<lambda>x. x\<lparr>sf_super := g (sf_super x), sf_super_dirty := True\<rparr>)"

text \<open>\<open>vop_info(node, sfs_inode)\<close> and \<open>fsop_info(vop_fs(node), sfs)\<close>.\<close>

definition sin_info :: "nat \<Rightarrow> ucore \<Rightarrow> nat option" where
  "sin_info node s = do { kassert (in_type (os_nodes s node) = inode_type_sfs_inode_info); Some node }"

definition fs_info :: "nat \<Rightarrow> ucore \<Rightarrow> nat option" where "fs_info node s = in_fs (os_nodes s node)"

definition lock_sin :: "nat \<Rightarrow> ucore \<Rightarrow> ucore option" where "lock_sin n s = os_down n s"
definition unlock_sin :: "fsdata vops \<Rightarrow> nat \<Rightarrow> ucore \<Rightarrow> ucore option" where "unlock_sin V n s = os_up V n s"

definition sfs_get_ops :: "nat \<Rightarrow> node_ops option" where
  "sfs_get_ops ty = (if ty = SFS_TYPE_DIR then Some SfsDir else if ty = SFS_TYPE_FILE then Some SfsFile else None)"

section \<open>The inodes of a file system in memory\<close>

definition sfs_hash_list :: "nat \<Rightarrow> nat \<Rightarrow> ucore \<Rightarrow> snode" where
  "sfs_hash_list f ino s = HashList (sf_hash_list (get_sfs f s)) (sin_hashfn ino)"

definition upd_slinks :: "(snode links \<Rightarrow> snode links) \<Rightarrow> ucore \<Rightarrow> ucore" where
  "upd_slinks g = upd_data (\<lambda>d. d\<lparr>sfs_links := g (sfs_links d)\<rparr>)"

definition sfs_set_links :: "nat \<Rightarrow> nat \<Rightarrow> ucore \<Rightarrow> ucore" where
  "sfs_set_links f n s =
     (let s1 = upd_slinks (list_add (InodeList f) (InodeLink n)) s
      in upd_slinks (list_add (sfs_hash_list f (sin_ino (get_sin n s1)) s1) (HashLink n)) s1)"

definition sfs_remove_links :: "nat \<Rightarrow> ucore \<Rightarrow> ucore" where
  "sfs_remove_links n s = upd_slinks (list_del (HashLink n)) (upd_slinks (list_del (InodeLink n)) s)"

section \<open>Blocks\<close>

definition sfs_block_inuse :: "nat \<Rightarrow> nat \<Rightarrow> ucore \<Rightarrow> bool option" where
  "sfs_block_inuse f ino s =
     (if ino \<noteq> 0 \<and> ino < sfs_blocks f s
      then do { b \<leftarrow> bitmap_test (sf_freemap (get_sfs f s)) ino (os_mem s); Some (\<not> b) }
      else None)"

definition sfs_block_alloc :: "fsdata vops \<Rightarrow> nat \<Rightarrow> ucore \<Rightarrow> (int \<times> nat option \<times> ucore) option" where
  "sfs_block_alloc V f s = do {
     (ret, ino, m) \<leftarrow> bitmap_alloc (sf_freemap (get_sfs f s)) (os_mem s);
     let s1 = upd_mem (\<lambda>_. m) s;
     if ret \<noteq> 0 then Some (ret, None, s1)
     else do {
       b \<leftarrow> ino;
       kassert (0 < su_unused_blocks (sf_super (get_sfs f s1)));
       let s2 = upd_super f (\<lambda>u. u\<lparr>su_unused_blocks := su_unused_blocks u - 1\<rparr>) s1;
       used \<leftarrow> sfs_block_inuse f b s2;
       kassert used;
       (ret, s3) \<leftarrow> sfs_clear_block V f b 1 s2;
       Some (ret, Some b, s3)
     }
   }"

definition sfs_block_free :: "nat \<Rightarrow> nat \<Rightarrow> ucore \<Rightarrow> ucore option" where
  "sfs_block_free f ino s = do {
     used \<leftarrow> sfs_block_inuse f ino s;
     kassert used;
     m \<leftarrow> bitmap_free (sf_freemap (get_sfs f s)) ino (os_mem s);
     Some (upd_super f (\<lambda>u. u\<lparr>su_unused_blocks := u32 (su_unused_blocks u + 1)\<rparr>) (upd_mem (\<lambda>_. m) s))
   }"

section \<open>Loading an inode\<close>

definition sfs_create_inode ::
  "nat \<Rightarrow> nat \<Rightarrow> sfs_disk_inode \<Rightarrow> nat \<Rightarrow> ucore \<Rightarrow> (int \<times> nat option \<times> ucore) option" where
  "sfs_create_inode f dp din ino s =
     (case alloc_inode inode_type_sfs_inode_info s of
        (None, s1) \<Rightarrow> Some (- E_NO_MEM, None, s1)
      | (Some node, s1) \<Rightarrow> do {
          tab \<leftarrow> sfs_get_ops (di_type din);
          let s2 = vop_init node tab (Some f) s1;
          let s3 = upd_sin node (\<lambda>_. \<lparr>sin_dp = dp, sin_din = din, sin_ino = ino, sin_dirty = False,
                                       sin_reclaim_count = 1\<rparr>) s2;
          Some (0, Some node, set_kern (sem_init node 1 (os_kern s3)) s3)
        })"

fun le2sin :: "snode \<Rightarrow> nat option" where
  "le2sin (HashLink n) = Some n"
| "le2sin (InodeLink n) = Some n"
| "le2sin _ = None"

partial_function (option) lookup_loop :: "snode \<Rightarrow> nat \<Rightarrow> snode \<Rightarrow> ucore \<Rightarrow> (nat option \<times> ucore) option" where
  "lookup_loop list ino le s =
     (let le = list_next le (sfs_links (os_data s)) in
      if le = list then Some (None, s)
      else do {
        n \<leftarrow> le2sin le;
        (if sin_ino (get_sin n s) = ino
         then (let (c, s1) = inode_ref_inc n s in
           Some (Some n, if c = 1 then upd_sin n (\<lambda>x. x\<lparr>sin_reclaim_count := sin_reclaim_count x + 1\<rparr>) s1 else s1))
         else lookup_loop list ino le s)
      })"

definition lookup_sfs_nolock :: "nat \<Rightarrow> nat \<Rightarrow> ucore \<Rightarrow> (nat option \<times> ucore) option" where
  "lookup_sfs_nolock f ino s = lookup_loop (sfs_hash_list f ino s) ino (sfs_hash_list f ino s) s"

definition sfs_load_inode :: "fsdata vops \<Rightarrow> nat \<Rightarrow> nat \<Rightarrow> ucore \<Rightarrow> (int \<times> nat option \<times> ucore) option" where
  "sfs_load_inode V f ino s = do {
     s1 \<leftarrow> lock_sfs_fs f s;
     (r, s2) \<leftarrow> lookup_sfs_nolock f ino s1;
     case r of
       Some node \<Rightarrow> do { s3 \<leftarrow> unlock_sfs_fs V f s2; Some (0, Some node, s3) }
     | None \<Rightarrow> do {
         let (a, s3) = os_kmalloc s2;
         case a of
           None \<Rightarrow> do { s4 \<leftarrow> unlock_sfs_fs V f s3; Some (- E_NO_MEM, None, s4) }
         | Some dp \<Rightarrow> do {
             used \<leftarrow> sfs_block_inuse f ino s3;
             kassert used;
             (ret, bs, s4) \<leftarrow> sfs_rbuf V f sizeof_din ino 0 s3;
             if ret \<noteq> 0 then do { s5 \<leftarrow> unlock_sfs_fs V f (os_kfree dp s4); Some (ret, None, s5) }
             else do {
               let din = din_of bs;
               kassert (di_nlinks din \<noteq> 0);
               (ret, node, s5) \<leftarrow> sfs_create_inode f dp din ino s4;
               if ret \<noteq> 0 then do { s6 \<leftarrow> unlock_sfs_fs V f (os_kfree dp s5); Some (ret, None, s6) }
               else do {
                 n \<leftarrow> node;
                 s6 \<leftarrow> unlock_sfs_fs V f (sfs_set_links f n s5);
                 Some (0, Some n, s6)
               }
             }
           }
       }
   }"

section \<open>The block map of a file\<close>

text \<open>The indirect block is passed by value; the second component of the result is its value afterwards.\<close>

definition sfs_bmap_get_sub_nolock ::
  "fsdata vops \<Rightarrow> nat \<Rightarrow> nat \<Rightarrow> nat \<Rightarrow> bool \<Rightarrow> ucore \<Rightarrow> (int \<times> nat \<times> nat \<times> ucore) option" where
  "sfs_bmap_get_sub_nolock V f ent0 index create s = do {
     kassert (index < SFS_BLK_NENTRY);
     let offset = index * 4;
     \<comment> \<open>\<open>Inl\<close>: return or \<open>goto out\<close>; \<open>Inr\<close>: a block is to be allocated under the entry block\<close>
     (r, s1) \<leftarrow>
       (if ent0 \<noteq> 0
        then do {
          (ret, bs, s1) \<leftarrow> sfs_rbuf V f 4 ent0 offset s;
          Some (if ret \<noteq> 0 then Inl (ret, 0) else if le_val bs \<noteq> 0 \<or> \<not> create then Inl (0, le_val bs) else Inr ent0, s1)
        }
        else if \<not> create then Some (Inl (0, 0), s)
        else do {
          (ret, b, s1) \<leftarrow> sfs_block_alloc V f s;
          if ret \<noteq> 0 then Some (Inl (ret, 0), s1) else do { e \<leftarrow> b; Some (Inr e, s1) }
        });
     case r of
       Inl (ret, ino) \<Rightarrow> Some (ret, ent0, ino, s1)
     | Inr ent \<Rightarrow> do {
         (ret, b, s2) \<leftarrow> sfs_block_alloc V f s1;
         if ret \<noteq> 0
         then do {
           s3 \<leftarrow> (if ent \<noteq> ent0 then sfs_block_free f ent s2 else Some s2);
           Some (ret, ent0, 0, s3)
         }
         else do {
           ino \<leftarrow> b;
           (ret, s3) \<leftarrow> sfs_wbuf V f (le_bytes 4 ino) ent offset s2;
           if ret \<noteq> 0
           then do {
             s4 \<leftarrow> sfs_block_free f ino s3;
             s5 \<leftarrow> (if ent \<noteq> ent0 then sfs_block_free f ent s4 else Some s4);
             Some (ret, ent0, 0, s5)
           }
           else Some (0, ent, ino, s3)
         }
       }
   }"

definition sfs_bmap_get_nolock ::
  "fsdata vops \<Rightarrow> nat \<Rightarrow> nat \<Rightarrow> nat \<Rightarrow> bool \<Rightarrow> ucore \<Rightarrow> (int \<times> nat \<times> ucore) option" where
  "sfs_bmap_get_nolock V f n index create s = do {
     (ret, ino, s1) \<leftarrow>
       (if index < SFS_NDIRECT
        then
          (if di_direct (get_din n s) ! index = 0 \<and> create
           then do {
             (ret, b, s1) \<leftarrow> sfs_block_alloc V f s;
             if ret \<noteq> 0 then Some (ret, 0, s1)
             else do {
               ino \<leftarrow> b;
               let s2 = upd_din n (\<lambda>d. d\<lparr>di_direct := (di_direct d)[index := ino]\<rparr>) s1;
               Some (0, ino, set_dirty n s2)
             }
           }
           else Some (0, di_direct (get_din n s) ! index, s))
        else if index - SFS_NDIRECT < SFS_BLK_NENTRY
        then do {
          (ret, ent, ino, s1) \<leftarrow>
            sfs_bmap_get_sub_nolock V f (di_indirect (get_din n s)) (index - SFS_NDIRECT) create s;
          if ret \<noteq> 0 then Some (ret, 0, s1)
          else if ent \<noteq> di_indirect (get_din n s1)
          then do {
            kassert (di_indirect (get_din n s1) = 0);
            Some (0, ino, set_dirty n (upd_din n (\<lambda>d. d\<lparr>di_indirect := ent\<rparr>) s1))
          }
          else Some (0, ino, s1)
        }
        else None);
     if ret \<noteq> 0 then Some (ret, 0, s1)
     else do {
       used \<leftarrow> (if ino = 0 then Some True else sfs_block_inuse f ino s1);
       kassert used;
       Some (0, ino, s1)
     }
   }"

definition sfs_bmap_free_sub_nolock :: "fsdata vops \<Rightarrow> nat \<Rightarrow> nat \<Rightarrow> nat \<Rightarrow> ucore \<Rightarrow> (int \<times> ucore) option" where
  "sfs_bmap_free_sub_nolock V f ent index s = do {
     used \<leftarrow> sfs_block_inuse f ent s;
     kassert (used \<and> index < SFS_BLK_NENTRY);
     let offset = index * 4;
     (ret, bs, s1) \<leftarrow> sfs_rbuf V f 4 ent offset s;
     if ret \<noteq> 0 then Some (ret, s1)
     else if le_val bs \<noteq> 0
     then do {
       (ret, s2) \<leftarrow> sfs_wbuf V f (le_bytes 4 0) ent offset s1;
       if ret \<noteq> 0 then Some (ret, s2)
       else do { s3 \<leftarrow> sfs_block_free f (le_val bs) s2; Some (0, s3) }
     }
     else Some (0, s1)
   }"

definition sfs_bmap_free_nolock :: "fsdata vops \<Rightarrow> nat \<Rightarrow> nat \<Rightarrow> nat \<Rightarrow> ucore \<Rightarrow> (int \<times> ucore) option" where
  "sfs_bmap_free_nolock V f n index s =
     (if index < SFS_NDIRECT
      then
        (if di_direct (get_din n s) ! index \<noteq> 0
         then do {
           s1 \<leftarrow> sfs_block_free f (di_direct (get_din n s) ! index) s;
           Some (0, set_dirty n (upd_din n (\<lambda>d. d\<lparr>di_direct := (di_direct d)[index := 0]\<rparr>) s1))
         }
         else Some (0, s))
      else if index - SFS_NDIRECT < SFS_BLK_NENTRY \<and> di_indirect (get_din n s) \<noteq> 0
      then sfs_bmap_free_sub_nolock V f (di_indirect (get_din n s)) (index - SFS_NDIRECT) s
      else Some (0, s))"

definition sfs_bmap_load_nolock :: "fsdata vops \<Rightarrow> nat \<Rightarrow> nat \<Rightarrow> nat \<Rightarrow> ucore \<Rightarrow> (int \<times> nat \<times> ucore) option" where
  "sfs_bmap_load_nolock V f n index s = do {
     kassert (index \<le> di_blocks (get_din n s));
     let create = (index = di_blocks (get_din n s));
     (ret, ino, s1) \<leftarrow> sfs_bmap_get_nolock V f n index create s;
     if ret \<noteq> 0 then Some (ret, 0, s1)
     else do {
       used \<leftarrow> sfs_block_inuse f ino s1;
       kassert used;
       Some (0, ino, if create then upd_din n (\<lambda>d. d\<lparr>di_blocks := u32 (di_blocks d + 1)\<rparr>) s1 else s1)
     }
   }"

definition sfs_bmap_truncate_nolock :: "fsdata vops \<Rightarrow> nat \<Rightarrow> nat \<Rightarrow> ucore \<Rightarrow> (int \<times> ucore) option" where
  "sfs_bmap_truncate_nolock V f n s = do {
     kassert (di_blocks (get_din n s) \<noteq> 0);
     (ret, s1) \<leftarrow> sfs_bmap_free_nolock V f n (di_blocks (get_din n s) - 1) s;
     if ret \<noteq> 0 then Some (ret, s1)
     else Some (0, set_dirty n (upd_din n (\<lambda>d. d\<lparr>di_blocks := di_blocks d - 1\<rparr>) s1))
   }"

section \<open>Directories\<close>

text \<open>The entry is read to the address \<open>e\<close>.\<close>

definition entry_ino :: "nat \<Rightarrow> ucore \<Rightarrow> nat" where "entry_ino e s = le_val (read_bytes (os_mem s) e 4)"
definition entry_name :: "nat \<Rightarrow> nat" where "entry_name e = e + 4"

definition sfs_dirent_read_nolock :: "fsdata vops \<Rightarrow> nat \<Rightarrow> nat \<Rightarrow> nat \<Rightarrow> nat \<Rightarrow> ucore \<Rightarrow> (int \<times> ucore) option" where
  "sfs_dirent_read_nolock V f n slot e s = do {
     kassert (di_type (get_din n s) = SFS_TYPE_DIR \<and> slot < di_blocks (get_din n s));
     (ret, ino, s1) \<leftarrow> sfs_bmap_load_nolock V f n slot s;
     if ret \<noteq> 0 then Some (ret, s1)
     else do {
       used \<leftarrow> sfs_block_inuse f ino s1;
       kassert used;
       (ret, bs, s2) \<leftarrow> sfs_rbuf V f sizeof_entry ino 0 s1;
       if ret \<noteq> 0 then Some (ret, s2)
       else Some (0, upd_mem (\<lambda>m. (write_bytes m e bs)(entry_name e + SFS_MAX_FNAME_LEN := 0)) s2)
     }
   }"

text \<open>The slots from \<open>i\<close> on; the result holds what is stored through \<open>ino_store\<close>, \<open>slot\<close> and \<open>empty_slot\<close>.\<close>

primrec dirent_search_loop ::
  "fsdata vops \<Rightarrow> nat \<Rightarrow> nat \<Rightarrow> nat \<Rightarrow> nat \<Rightarrow> nat \<Rightarrow> nat \<Rightarrow> nat \<Rightarrow> ucore
     \<Rightarrow> (int \<times> nat option \<times> nat option \<times> nat \<times> ucore) option" where
  "dirent_search_loop V f n name e i vacant 0 s = Some (- E_NOENT, None, None, vacant, s)"
| "dirent_search_loop V f n name e i vacant (Suc k) s = do {
     (ret, s1) \<leftarrow> sfs_dirent_read_nolock V f n i e s;
     if ret \<noteq> 0 then Some (ret, None, None, vacant, s1)
     else if entry_ino e s1 = 0 then dirent_search_loop V f n name e (i + 1) i k s1
     else do {
       c \<leftarrow> strcmp (os_mem s1) name (entry_name e);
       if c = 0 then Some (0, Some (entry_ino e s1), Some i, vacant, s1)
       else dirent_search_loop V f n name e (i + 1) vacant k s1
     }
   }"

definition sfs_dirent_search_nolock ::
  "fsdata vops \<Rightarrow> nat \<Rightarrow> nat \<Rightarrow> nat \<Rightarrow> ucore \<Rightarrow> (int \<times> nat option \<times> nat option \<times> nat \<times> ucore) option" where
  "sfs_dirent_search_nolock V f n name s = do {
     len \<leftarrow> strlen (os_mem s) name;
     kassert (len \<le> SFS_MAX_FNAME_LEN);
     let (a, s1) = os_kmalloc s;
     case a of
       None \<Rightarrow> Some (- E_NO_MEM, None, None, 0, s1)
     | Some e \<Rightarrow> do {
         let nslots = di_blocks (get_din n s1);
         (ret, ino, slot, vacant, s2) \<leftarrow> dirent_search_loop V f n name e 0 nslots nslots s1;
         Some (ret, ino, slot, vacant, os_kfree e s2)
       }
   }"

primrec findino_loop ::
  "fsdata vops \<Rightarrow> nat \<Rightarrow> nat \<Rightarrow> nat \<Rightarrow> nat \<Rightarrow> nat \<Rightarrow> nat \<Rightarrow> ucore \<Rightarrow> (int \<times> ucore) option" where
  "findino_loop V f n ino e i 0 s = Some (- E_NOENT, s)"
| "findino_loop V f n ino e i (Suc k) s = do {
     (ret, s1) \<leftarrow> sfs_dirent_read_nolock V f n i e s;
     if ret \<noteq> 0 then Some (ret, s1)
     else if entry_ino e s1 = ino then Some (0, s1)
     else findino_loop V f n ino e (i + 1) k s1
   }"

definition sfs_dirent_findino_nolock :: "fsdata vops \<Rightarrow> nat \<Rightarrow> nat \<Rightarrow> nat \<Rightarrow> nat \<Rightarrow> ucore \<Rightarrow> (int \<times> ucore) option" where
  "sfs_dirent_findino_nolock V f n ino e s = findino_loop V f n ino e 0 (di_blocks (get_din n s)) s"

definition sfs_lookup_once :: "fsdata vops \<Rightarrow> nat \<Rightarrow> nat \<Rightarrow> nat \<Rightarrow> ucore \<Rightarrow> (int \<times> nat option \<times> nat option \<times> ucore) option" where
  "sfs_lookup_once V f n name s = do {
     s1 \<leftarrow> lock_sin n s;
     (ret, ino, slot, vacant, s2) \<leftarrow> sfs_dirent_search_nolock V f n name s1;
     s3 \<leftarrow> unlock_sin V n s2;
     if ret = 0 then do {
       i \<leftarrow> ino;
       (ret, node, s4) \<leftarrow> sfs_load_inode V f i s3;
       Some (ret, node, slot, s4)
     }
     else Some (ret, None, slot, s3)
   }"

end
