(* ===== verification/Sfs_File.thy ===== *)
theory Sfs_File
  imports Sfs_Inode
begin

text \<open>
  The rest of \<open>kern/fs/sfs/sfs_inode.c\<close>: reading and writing, status, synchronisation, path names, directory listing,
  reclaiming and resizing.  Calls that go through the function table of an inode use the table \<open>V\<close>.
\<close>

unbundle bit_operations_syntax

section \<open>Opening and closing\<close>

definition sfs_opendir :: "32 word \<Rightarrow> int" where
  "sfs_opendir open_flags =
     (if open_flags AND O_ACCMODE \<noteq> O_RDONLY then - E_ISDIR
      else if open_flags AND O_APPEND \<noteq> 0 then - E_ISDIR else 0)"

definition sfs_openfile :: "32 word \<Rightarrow> int" where "sfs_openfile open_flags = 0"

definition sfs_close :: "fsdata vops \<Rightarrow> nat \<Rightarrow> ucore \<Rightarrow> (int \<times> ucore) option" where
  "sfs_close V node s = vop_fsync V node s"

section \<open>Reading and writing\<close>

text \<open>\<open>sfs_buf_op\<close> and \<open>sfs_block_op\<close>, as \<open>write\<close> selects them.\<close>

definition sfs_buf_op ::
  "fsdata vops \<Rightarrow> nat \<Rightarrow> bool \<Rightarrow> nat \<Rightarrow> nat \<Rightarrow> nat \<Rightarrow> nat \<Rightarrow> ucore \<Rightarrow> (int \<times> ucore) option" where
  "sfs_buf_op V f wr buf len blkno offset s =
     (if wr then sfs_wbuf V f (read_bytes (os_mem s) buf len) blkno offset s
      else do {
        (ret, bs, s1) \<leftarrow> sfs_rbuf V f len blkno offset s;
        Some (ret, upd_mem (\<lambda>m. write_bytes m buf bs) s1)
      })"

definition sfs_block_op ::
  "fsdata vops \<Rightarrow> nat \<Rightarrow> bool \<Rightarrow> nat \<Rightarrow> nat \<Rightarrow> nat \<Rightarrow> ucore \<Rightarrow> (int \<times> ucore) option" where
  "sfs_block_op V f wr buf blkno nblks s =
     (if wr then sfs_wblock V f buf blkno nblks s else sfs_rblock V f buf blkno nblks s)"

text \<open>A part of the block \<open>blkno\<close> of the file.\<close>

definition io_part ::
  "fsdata vops \<Rightarrow> nat \<Rightarrow> nat \<Rightarrow> bool \<Rightarrow> nat \<Rightarrow> nat \<Rightarrow> nat \<Rightarrow> nat \<Rightarrow> ucore \<Rightarrow> (int \<times> ucore) option" where
  "io_part V f n wr buf blkno len offset s = do {
     (ret, ino, s1) \<leftarrow> sfs_bmap_load_nolock V f n blkno s;
     if ret \<noteq> 0 then Some (ret, s1) else sfs_buf_op V f wr buf len ino offset s1
   }"

primrec io_blocks ::
  "fsdata vops \<Rightarrow> nat \<Rightarrow> nat \<Rightarrow> bool \<Rightarrow> nat \<Rightarrow> nat \<Rightarrow> nat \<Rightarrow> nat \<Rightarrow> ucore \<Rightarrow> (int \<times> nat \<times> ucore) option" where
  "io_blocks V f n wr buf blkno alen 0 s = Some (0, alen, s)"
| "io_blocks V f n wr buf blkno alen (Suc nblks) s = do {
     (ret, ino, s1) \<leftarrow> sfs_bmap_load_nolock V f n blkno s;
     if ret \<noteq> 0 then Some (ret, alen, s1)
     else do {
       (ret, s2) \<leftarrow> sfs_block_op V f wr buf ino 1 s1;
       if ret \<noteq> 0 then Some (ret, alen, s2)
       else io_blocks V f n wr (buf + SFS_BLKSIZE) (u32 (blkno + 1)) (alen + SFS_BLKSIZE) nblks s2
     }
   }"

text \<open>The three steps: the unaligned head, the whole blocks, the tail.\<close>

definition io_steps ::
  "fsdata vops \<Rightarrow> nat \<Rightarrow> nat \<Rightarrow> bool \<Rightarrow> nat \<Rightarrow> nat \<Rightarrow> nat \<Rightarrow> ucore \<Rightarrow> (int \<times> nat \<times> ucore) option" where
  "io_steps V f n wr buf offset endpos s = do {
     let blkno = u32 (offset div SFS_BLKSIZE);
     let nblks = u32 (endpos div SFS_BLKSIZE - blkno);
     let blkoff = offset mod SFS_BLKSIZE;
     let len = (if nblks \<noteq> 0 then SFS_BLKSIZE - blkoff else endpos - offset);
     (ret, alen, s1) \<leftarrow>
       (if blkoff \<noteq> 0
        then do {
          (ret, s1) \<leftarrow> io_part V f n wr buf blkno len blkoff s;
          Some (ret, if ret \<noteq> 0 then 0 else len, s1)
        }
        else Some (0, 0, s));
     if ret \<noteq> 0 \<or> (blkoff \<noteq> 0 \<and> nblks = 0) then Some (ret, alen, s1)
     else do {
       let blkno = (if blkoff \<noteq> 0 then blkno + 1 else blkno);
       let nblks = (if blkoff \<noteq> 0 then nblks - 1 else nblks);
       (ret, alen, s2) \<leftarrow> io_blocks V f n wr (buf + alen) blkno alen nblks s1;
       if ret \<noteq> 0 then Some (ret, alen, s2)
       else do {
         let len = endpos - (offset + alen);
         (if 0 < len
          then do {
            (ret, s3) \<leftarrow> io_part V f n wr (buf + alen) (blkno + nblks) len 0 s2;
            Some (ret, if ret \<noteq> 0 then alen else alen + len, s3)
          }
          else Some (0, alen, s2))
       }
     }
   }"

definition s64 :: "int \<Rightarrow> int" where
  "s64 z = (z + 9223372036854775808) mod 18446744073709551616 - 9223372036854775808"

text \<open>The result, \<open>*alenp\<close> and the state afterwards.\<close>

definition sfs_io_nolock ::
  "fsdata vops \<Rightarrow> nat \<Rightarrow> nat \<Rightarrow> nat \<Rightarrow> int \<Rightarrow> nat \<Rightarrow> bool \<Rightarrow> ucore \<Rightarrow> (int \<times> nat \<times> ucore) option" where
  "sfs_io_nolock V f n buf offset alen wr s = do {
     kassert (di_type (get_din n s) \<noteq> SFS_TYPE_DIR);
     let endpos = s64 (offset + int alen);
     if offset < 0 \<or> int SFS_MAX_FILE_SIZE \<le> offset \<or> endpos < offset then Some (- E_INVAL, 0, s)
     else if offset = endpos then Some (0, 0, s)
     else do {
       let endpos = min (nat endpos) SFS_MAX_FILE_SIZE;
       let fsize = di_size (get_din n s);
       let offset = nat offset;
       (if \<not> wr \<and> fsize \<le> offset then Some (0, 0, s)
        else do {
          let endpos = (if wr then endpos else min endpos fsize);
          (ret, alen, s1) \<leftarrow> io_steps V f n wr buf offset endpos s;
          Some (ret, alen,
            if di_size (get_din n s1) < offset + alen
            then set_dirty n (upd_din n (\<lambda>d. d\<lparr>di_size := u32 (offset + alen)\<rparr>) s1) else s1)
        })
     }
   }"

definition sfs_io :: "fsdata vops \<Rightarrow> nat \<Rightarrow> iobuf \<Rightarrow> bool \<Rightarrow> ucore \<Rightarrow> (int \<times> iobuf \<times> ucore) option" where
  "sfs_io V node iob wr s = do {
     f \<leftarrow> fs_info node s;
     n \<leftarrow> sin_info node s;
     s1 \<leftarrow> lock_sin n s;
     (ret, alen, s2) \<leftarrow> sfs_io_nolock V f n (io_base iob) (io_offset iob) (io_resid iob) wr s1;
     iob1 \<leftarrow> (if alen \<noteq> 0 then iobuf_skip alen iob else Some iob);
     s3 \<leftarrow> unlock_sin V n s2;
     Some (ret, iob1, s3)
   }"

definition sfs_read :: "fsdata vops \<Rightarrow> nat \<Rightarrow> iobuf \<Rightarrow> ucore \<Rightarrow> (int \<times> iobuf \<times> ucore) option" where
  "sfs_read V node iob s = sfs_io V node iob False s"

definition sfs_write :: "fsdata vops \<Rightarrow> nat \<Rightarrow> iobuf \<Rightarrow> ucore \<Rightarrow> (int \<times> iobuf \<times> ucore) option" where
  "sfs_write V node iob s = sfs_io V node iob True s"

section \<open>Status and synchronisation\<close>

definition sfs_gettype :: "nat \<Rightarrow> ucore \<Rightarrow> (int \<times> 32 word \<times> ucore) option" where
  "sfs_gettype node s = do {
     n \<leftarrow> sin_info node s;
     (let t = di_type (get_din n s) in
      if t = SFS_TYPE_DIR then Some (0, S_IFDIR, s)
      else if t = SFS_TYPE_FILE then Some (0, S_IFREG, s)
      else if t = SFS_TYPE_LINK then Some (0, S_IFLNK, s)
      else None)
   }"

definition sfs_fstat :: "fsdata vops \<Rightarrow> nat \<Rightarrow> ucore \<Rightarrow> (int \<times> stat \<times> ucore) option" where
  "sfs_fstat V node s = do {
     (ret, mode, s1) \<leftarrow> vop_gettype V node s;
     if ret \<noteq> 0 then Some (ret, \<lparr>st_mode = mode, st_nlinks = 0, st_blocks = 0, st_size = 0\<rparr>, s1)
     else do {
       n \<leftarrow> sin_info node s1;
       let d = get_din n s1;
       Some (0, \<lparr>st_mode = mode, st_nlinks = di_nlinks d, st_blocks = di_blocks d, st_size = di_size d\<rparr>, s1)
     }
   }"

definition sfs_fsync :: "fsdata vops \<Rightarrow> nat \<Rightarrow> ucore \<Rightarrow> (int \<times> ucore) option" where
  "sfs_fsync V node s = do {
     f \<leftarrow> fs_info node s;
     n \<leftarrow> sin_info node s;
     (if sin_dirty (get_sin n s)
      then do {
        s1 \<leftarrow> lock_sin n s;
        (ret, s2) \<leftarrow>
          (if sin_dirty (get_sin n s1)
           then do {
             let s2 = upd_sin n (\<lambda>x. x\<lparr>sin_dirty := False\<rparr>) s1;
             (ret, s3) \<leftarrow> sfs_wbuf V f (din_bytes (get_din n s2)) (sin_ino (get_sin n s2)) 0 s2;
             Some (ret, if ret \<noteq> 0 then set_dirty n s3 else s3)
           }
           else Some (0, s1));
        s3 \<leftarrow> unlock_sin V n s2;
        Some (ret, s3)
      }
      else Some (0, s))
   }"

section \<open>The path name of a directory\<close>

text \<open>\<open>dotdot\<close> is the address of the literal \<open>".."\<close>.  The loop returns with 0 after the root was reached, or
  with the error and the inode whose reference is still to be dropped.\<close>

partial_function (option) namefile_loop ::
  "fsdata vops \<Rightarrow> nat \<Rightarrow> nat \<Rightarrow> nat \<Rightarrow> nat \<Rightarrow> nat \<Rightarrow> nat \<Rightarrow> ucore \<Rightarrow> (int \<times> nat \<times> nat \<times> nat \<times> ucore) option" where
  "namefile_loop V f dotdot e node ptr resid s = do {
     (ret, parent, slot, s1) \<leftarrow> sfs_lookup_once V f node dotdot s;
     if ret \<noteq> 0 then Some (ret, node, ptr, resid, s1)
     else do {
       up \<leftarrow> parent;
       let ino = sin_ino (get_sin node s1);
       (c, s2) \<leftarrow> inode_ref_dec V node s1;
       if node = up
       then do { (c, s3) \<leftarrow> inode_ref_dec V node s2; Some (0, node, ptr, resid, s3) }
       else do {
         n \<leftarrow> sin_info up s2;
         kassert (ino \<noteq> sin_ino (get_sin n s2) \<and> di_type (get_din n s2) = SFS_TYPE_DIR);
         s3 \<leftarrow> lock_sin n s2;
         (ret, s4) \<leftarrow> sfs_dirent_findino_nolock V f n ino e s3;
         s5 \<leftarrow> unlock_sin V n s4;
         if ret \<noteq> 0 then Some (ret, up, ptr, resid, s5)
         else do {
           len \<leftarrow> strlen (os_mem s5) (entry_name e);
           let alen = len + 1;
           (if resid < alen then Some (- E_NO_MEM, up, ptr, resid, s5)
            else do {
              let p = ptr - alen;
              let s6 = upd_mem (\<lambda>m. (memcpy m p (entry_name e) (alen - 1))(p + (alen - 1) := 47)) s5;
              namefile_loop V f dotdot e up p (resid - alen) s6
            })
         }
       }
     }
   }"

definition sfs_namefile :: "fsdata vops \<Rightarrow> nat \<Rightarrow> nat \<Rightarrow> iobuf \<Rightarrow> ucore \<Rightarrow> (int \<times> iobuf \<times> ucore) option" where
  "sfs_namefile V dotdot node iob s =
     (if io_resid iob \<le> 2 then Some (- E_NO_MEM, iob, s)
      else do {
        let (a, s1) = os_kmalloc s;
        case a of
          None \<Rightarrow> Some (- E_NO_MEM, iob, s1)
        | Some e \<Rightarrow> do {
            f \<leftarrow> fs_info node s1;
            n \<leftarrow> sin_info node s1;
            let (c, s2) = inode_ref_inc node s1;
            (ret, node1, ptr, resid, s3) \<leftarrow>
              namefile_loop V f dotdot e node (io_base iob + io_resid iob) (io_resid iob - 2) s2;
            if ret \<noteq> 0
            then do { (c, s4) \<leftarrow> inode_ref_dec V node1 s3; Some (ret, iob, os_kfree e s4) }
            else do {
              let alen = io_resid iob - resid - 2;
              let b = io_base iob + 1;
              let s4 = upd_mem (\<lambda>m. (memmove m b ptr alen)(b - 1 := 47, b + alen := 0)) s3;
              iob1 \<leftarrow> iobuf_skip alen iob;
              Some (0, iob1, os_kfree e s4)
            }
          }
      })"

section \<open>Listing a directory\<close>

primrec getdirentry_loop ::
  "fsdata vops \<Rightarrow> nat \<Rightarrow> nat \<Rightarrow> nat \<Rightarrow> nat \<Rightarrow> nat \<Rightarrow> nat \<Rightarrow> ucore \<Rightarrow> (int \<times> ucore) option" where
  "getdirentry_loop V f n e slot i 0 s = Some (- E_NOENT, s)"
| "getdirentry_loop V f n e slot i (Suc k) s = do {
     (ret, s1) \<leftarrow> sfs_dirent_read_nolock V f n i e s;
     if ret \<noteq> 0 then Some (ret, s1)
     else if entry_ino e s1 \<noteq> 0
     then (if slot = 0 then Some (0, s1) else getdirentry_loop V f n e (slot - 1) (i + 1) k s1)
     else getdirentry_loop V f n e slot (i + 1) k s1
   }"

definition sfs_getdirentry_sub_nolock :: "fsdata vops \<Rightarrow> nat \<Rightarrow> nat \<Rightarrow> nat \<Rightarrow> nat \<Rightarrow> ucore \<Rightarrow> (int \<times> ucore) option" where
  "sfs_getdirentry_sub_nolock V f n slot e s = getdirentry_loop V f n e slot 0 (di_blocks (get_din n s)) s"

definition sfs_getdirentry :: "fsdata vops \<Rightarrow> nat \<Rightarrow> iobuf \<Rightarrow> ucore \<Rightarrow> (int \<times> iobuf \<times> ucore) option" where
  "sfs_getdirentry V node iob s = do {
     let (a, s1) = os_kmalloc s;
     case a of
       None \<Rightarrow> Some (- E_NO_MEM, iob, s1)
     | Some e \<Rightarrow> do {
         f \<leftarrow> fs_info node s1;
         n \<leftarrow> sin_info node s1;
         let offset = io_offset iob;
         if offset < 0 \<or> offset mod int sfs_dentry_size \<noteq> 0 then Some (- E_INVAL, iob, os_kfree e s1)
         else do {
           let slot = u32 (nat offset div sfs_dentry_size);
           if di_blocks (get_din n s1) < slot then Some (- E_NOENT, iob, os_kfree e s1)
           else do {
             s2 \<leftarrow> lock_sin n s1;
             (ret, s3) \<leftarrow> sfs_getdirentry_sub_nolock V f n slot e s2;
             s4 \<leftarrow> unlock_sin V n s3;
             if ret \<noteq> 0 then Some (ret, iob, os_kfree e s4)
             else do {
               (ret, copied, iob1, s5) \<leftarrow> os_iobuf_move iob (entry_name e) sfs_dentry_size True s4;
               Some (ret, iob1, os_kfree e s5)
             }
           }
         }
       }
   }"

section \<open>Resizing and reclaiming\<close>

primrec grow_loop :: "fsdata vops \<Rightarrow> nat \<Rightarrow> nat \<Rightarrow> nat \<Rightarrow> nat \<Rightarrow> ucore \<Rightarrow> (int \<times> ucore) option" where
  "grow_loop V f n nblks 0 s = Some (0, s)"
| "grow_loop V f n nblks (Suc k) s = do {
     (ret, ino, s1) \<leftarrow> sfs_bmap_load_nolock V f n nblks s;
     if ret \<noteq> 0 then Some (ret, s1) else grow_loop V f n (nblks + 1) k s1
   }"

primrec shrink_loop :: "fsdata vops \<Rightarrow> nat \<Rightarrow> nat \<Rightarrow> nat \<Rightarrow> ucore \<Rightarrow> (int \<times> ucore) option" where
  "shrink_loop V f n 0 s = Some (0, s)"
| "shrink_loop V f n (Suc k) s = do {
     (ret, s1) \<leftarrow> sfs_bmap_truncate_nolock V f n s;
     if ret \<noteq> 0 then Some (ret, s1) else shrink_loop V f n k s1
   }"

definition sfs_truncfile :: "fsdata vops \<Rightarrow> nat \<Rightarrow> int \<Rightarrow> ucore \<Rightarrow> (int \<times> ucore) option" where
  "sfs_truncfile V node len s =
     (if len < 0 \<or> int SFS_MAX_FILE_SIZE < len then Some (- E_INVAL, s)
      else do {
        f \<leftarrow> fs_info node s;
        n \<leftarrow> sin_info node s;
        let tblks = u32 (ROUNDUP_DIV (nat len) SFS_BLKSIZE);
        if int (di_size (get_din n s)) = len
        then do { kassert (tblks = di_blocks (get_din n s)); Some (0, s) }
        else do {
          s1 \<leftarrow> lock_sin n s;
          let nblks = di_blocks (get_din n s1);
          (ret, s2) \<leftarrow>
            (if nblks < tblks then grow_loop V f n nblks (tblks - nblks) s1
             else if tblks < nblks then shrink_loop V f n (nblks - tblks) s1
             else Some (0, s1));
          s3 \<leftarrow>
            (if ret \<noteq> 0 then Some s2
             else do {
               kassert (di_blocks (get_din n s2) = tblks);
               Some (set_dirty n (upd_din n (\<lambda>d. d\<lparr>di_size := nat len\<rparr>) s2))
             });
          s4 \<leftarrow> unlock_sin V n s3;
          Some (ret, s4)
        }
      })"

definition sfs_tryseek :: "fsdata vops \<Rightarrow> nat \<Rightarrow> int \<Rightarrow> ucore \<Rightarrow> (int \<times> ucore) option" where
  "sfs_tryseek V node pos s =
     (if pos < 0 \<or> int SFS_MAX_FILE_SIZE \<le> pos then Some (- E_INVAL, s)
      else do {
        n \<leftarrow> sin_info node s;
        if int (di_size (get_din n s)) < pos then vop_truncate V node pos s else Some (0, s)
      })"

definition sfs_reclaim :: "fsdata vops \<Rightarrow> nat \<Rightarrow> ucore \<Rightarrow> (int \<times> ucore) option" where
  "sfs_reclaim V node s = do {
     f \<leftarrow> fs_info node s;
     n \<leftarrow> sin_info node s;
     s1 \<leftarrow> lock_sfs_fs f s;
     kassert (0 < sin_reclaim_count (get_sin n s1));
     let s2 = upd_sin n (\<lambda>x. x\<lparr>sin_reclaim_count := sin_reclaim_count x - 1\<rparr>) s1;
     (ret, s3) \<leftarrow>
       (if sin_reclaim_count (get_sin n s2) \<noteq> 0 \<or> inode_ref_count node s2 \<noteq> 0 then Some (- E_BUSY, s2)
        else do {
          (ret, s3) \<leftarrow> (if di_nlinks (get_din n s2) = 0 then vop_truncate V node 0 s2 else Some (0, s2));
          if ret \<noteq> 0 then Some (ret, s3)
          else if sin_dirty (get_sin n s3) then vop_fsync V node s3 else Some (0, s3)
        });
     if ret \<noteq> 0 then do { s4 \<leftarrow> unlock_sfs_fs V f s3; Some (ret, s4) }
     else do {
       s4 \<leftarrow> unlock_sfs_fs V f (sfs_remove_links n s3);
       s5 \<leftarrow>
         (if di_nlinks (get_din n s4) = 0
          then do {
            s5 \<leftarrow> sfs_block_free f (sin_ino (get_sin n s4)) s4;
            (let ent = di_indirect (get_din n s5) in if ent \<noteq> 0 then sfs_block_free f ent s5 else Some s5)
          }
          else Some s4);
       s6 \<leftarrow> inode_kill node (os_kfree (sin_dp (get_sin n s5)) s5);
       Some (0, s6)
     }
   }"

section \<open>Looking up a name\<close>

definition sfs_lookup :: "fsdata vops \<Rightarrow> nat \<Rightarrow> nat \<Rightarrow> ucore \<Rightarrow> (int \<times> nat option \<times> ucore) option" where
  "sfs_lookup V node path s = do {
     f \<leftarrow> fs_info node s;
     kassert (os_mem s path \<noteq> 0 \<and> os_mem s path \<noteq> 47);
     let (c, s1) = inode_ref_inc node s;
     n \<leftarrow> sin_info node s1;
     if di_type (get_din n s1) \<noteq> SFS_TYPE_DIR
     then do { (c, s2) \<leftarrow> inode_ref_dec V node s1; Some (- E_NOTDIR, None, s2) }
     else do {
       (ret, subnode, slot, s2) \<leftarrow> sfs_lookup_once V f n path s1;
       (c, s3) \<leftarrow> inode_ref_dec V node s2;
       Some (ret, if ret \<noteq> 0 then None else subnode, s3)
     }
   }"

end
