(* ===== verification/Sfs_Fs.thy ===== *)
theory Sfs_Fs
  imports Sfs_File File_Model
begin

text \<open>
  \<open>kern/fs/sfs/sfs_fs.c\<close>, \<open>sfs.c\<close> and \<open>kern/fs/fs.c\<close>: synchronising, mounting and unmounting a simple file system; and the
  function tables of the three kinds of inodes put together into one table \<open>ucore_vops\<close>, in which each operation
  calls the others through the table as the code does.
\<close>

section \<open>sfs\_fs.c\<close>

partial_function (option) sync_loop :: "fsdata vops \<Rightarrow> snode \<Rightarrow> snode \<Rightarrow> ucore \<Rightarrow> ucore option" where
  "sync_loop V list le s =
     (let le = list_next le (sfs_links (os_data s)) in
      if le = list then Some s
      else do {
        n \<leftarrow> le2sin le;
        (ret, s1) \<leftarrow> vop_fsync V n s;
        sync_loop V list le s1
      })"

definition sfs_sync :: "fsdata vops \<Rightarrow> nat \<Rightarrow> ucore \<Rightarrow> (int \<times> ucore) option" where
  "sfs_sync V f s = do {
     s1 \<leftarrow> lock_sfs_fs f s;
     s2 \<leftarrow> sync_loop V (InodeList f) (InodeList f) s1;
     s3 \<leftarrow> unlock_sfs_fs V f s2;
     (if sf_super_dirty (get_sfs f s3)
      then do {
        let s4 = upd_sfs f (\<lambda>x. x\<lparr>sf_super_dirty := False\<rparr>) s3;
        (ret, s5) \<leftarrow> sfs_sync_super V f s4;
        if ret \<noteq> 0 then Some (ret, upd_sfs f (\<lambda>x. x\<lparr>sf_super_dirty := True\<rparr>) s5)
        else do {
          (ret, s6) \<leftarrow> sfs_sync_freemap V f s5;
          Some (ret, if ret \<noteq> 0 then upd_sfs f (\<lambda>x. x\<lparr>sf_super_dirty := True\<rparr>) s6 else s6)
        }
      }
      else Some (0, s3))
   }"

definition sfs_get_root :: "fsdata vops \<Rightarrow> nat \<Rightarrow> ucore \<Rightarrow> (nat option \<times> ucore) option" where
  "sfs_get_root V f s = do {
     (ret, node, s1) \<leftarrow> sfs_load_inode V f SFS_BLKN_ROOT s;
     kassert (ret = 0);
     Some (node, s1)
   }"

definition sfs_unmount :: "nat \<Rightarrow> ucore \<Rightarrow> (int \<times> ucore) option" where
  "sfs_unmount f s =
     (if \<not> list_empty (InodeList f) (sfs_links (os_data s)) then Some (- E_BUSY, s)
      else do {
        let x = get_sfs f s;
        kassert (\<not> sf_super_dirty x);
        let s1 = bitmap_destroy (sf_bitmap x) (sf_freemap x) s;
        Some (0, os_kfree f (os_kfree (sf_hash_list x) (os_kfree (sf_buffer x) s1)))
      })"

primrec cleanup_sync :: "fsdata vops \<Rightarrow> nat \<Rightarrow> nat \<Rightarrow> ucore \<Rightarrow> ucore option" where
  "cleanup_sync V f 0 s = Some s"
| "cleanup_sync V f (Suc k) s = do {
     (ret, s1) \<leftarrow> fs_sync V f s;
     if ret = 0 then Some s1 else cleanup_sync V f k s1
   }"

definition sfs_cleanup :: "fsdata vops \<Rightarrow> nat \<Rightarrow> ucore \<Rightarrow> ucore option" where
  "sfs_cleanup V f s = cleanup_sync V f 32 s"

definition sfs_init_read :: "fsdata vops \<Rightarrow> nat \<Rightarrow> nat \<Rightarrow> nat \<Rightarrow> ucore \<Rightarrow> (int \<times> ucore) option" where
  "sfs_init_read V dev blkno blk_buffer s = do {
     let iob = iobuf_init blk_buffer SFS_BLKSIZE (int (u32 (blkno * SFS_BLKSIZE)));
     (ret, iob1, s1) \<leftarrow> dop_io V dev iob False s;
     Some (ret, s1)
   }"

primrec init_freemap_loop :: "fsdata vops \<Rightarrow> nat \<Rightarrow> nat \<Rightarrow> nat \<Rightarrow> nat \<Rightarrow> ucore \<Rightarrow> (int \<times> ucore) option" where
  "init_freemap_loop V dev blkno data 0 s = Some (0, s)"
| "init_freemap_loop V dev blkno data (Suc nblks) s = do {
     (ret, s1) \<leftarrow> sfs_init_read V dev blkno data s;
     if ret \<noteq> 0 then Some (ret, s1)
     else init_freemap_loop V dev (u32 (blkno + 1)) (data + SFS_BLKSIZE) nblks s1
   }"

definition sfs_init_freemap ::
  "fsdata vops \<Rightarrow> nat \<Rightarrow> bitmap \<Rightarrow> nat \<Rightarrow> nat \<Rightarrow> ucore \<Rightarrow> (int \<times> ucore) option" where
  "sfs_init_freemap V dev freemap blkno nblks s = do {
     let (data, len) = bitmap_getdata freemap;
     kassert (len = nblks * SFS_BLKSIZE);
     init_freemap_loop V dev blkno data nblks s
   }"

primrec count_free :: "bitmap \<Rightarrow> Strings.mem \<Rightarrow> nat \<Rightarrow> nat option" where
  "count_free bm m 0 = Some 0"
| "count_free bm m (Suc i) = do {
     c \<leftarrow> count_free bm m i;
     b \<leftarrow> bitmap_test bm i m;
     Some (if b then c + 1 else c)
   }"

text \<open>The end of \<open>sfs_do_mount\<close>, after the hash list was allocated: the free map, the counters and the locks.  The
  boolean says whether the map was created, that is, which of the two failure labels is taken.\<close>

definition mount_freemap :: "fsdata vops \<Rightarrow> nat \<Rightarrow> nat \<Rightarrow> ucore \<Rightarrow> (int \<times> bool \<times> ucore) option" where
  "mount_freemap V f dev s = do {
     let su = sf_super (get_sfs f s);
     let nbits = sfs_freemap_bits su;
     (r, s1) \<leftarrow> bitmap_create nbits s;
     case r of
       None \<Rightarrow> Some (- E_NO_MEM, False, s1)
     | Some (p, bm) \<Rightarrow> do {
         let s2 = upd_sfs f (\<lambda>x. x\<lparr>sf_bitmap := p, sf_freemap := bm\<rparr>) s1;
         (ret, s3) \<leftarrow> sfs_init_freemap V dev bm SFS_BLKN_FREEMAP (sfs_freemap_blocks su) s2;
         if ret \<noteq> 0 then Some (ret, True, s3)
         else do {
           unused \<leftarrow> count_free bm (os_mem s3) nbits;
           kassert (u32 unused = su_unused_blocks (sf_super (get_sfs f s3)));
           let s4 = upd_sfs f (\<lambda>x. x\<lparr>sf_super_dirty := False\<rparr>) s3;
           let k = sem_init (mutex_sem f) 1 (sem_init (io_sem f) 1 (sem_init (fs_sem f) 1 (os_kern s4)));
           Some (0, True, upd_slinks (list_init (InodeList f)) (set_kern k s4))
         }
       }
   }"

definition sfs_do_mount :: "fsdata vops \<Rightarrow> nat \<Rightarrow> ucore \<Rightarrow> (int \<times> nat option \<times> ucore) option" where
  "sfs_do_mount V dev s =
     (if d_blocksize (devs (os_data s) dev) \<noteq> SFS_BLKSIZE then Some (- E_NA_DEV, None, s)
      else do {
        let (a, s1) = os_kmalloc s;
        case a of
          None \<Rightarrow> Some (- E_NO_MEM, None, s1)
        | Some f \<Rightarrow> do {
            let s2 = upd_sfs f (\<lambda>x. x\<lparr>sf_dev := dev\<rparr>) s1;
            let (b, s3) = os_kmalloc s2;
            case b of
              None \<Rightarrow> Some (- E_NO_MEM, None, os_kfree f s3)
            | Some buf \<Rightarrow> do {
                let s4 = upd_sfs f (\<lambda>x. x\<lparr>sf_buffer := buf\<rparr>) s3;
                let fail = (\<lambda>s. os_kfree f (os_kfree buf s));
                (ret, s5) \<leftarrow> sfs_init_read V dev SFS_BLKN_SUPER buf s4;
                let su = super_of (read_bytes (os_mem s5) buf 44);
                if ret \<noteq> 0 then Some (ret, None, fail s5)
                else if su_magic su \<noteq> SFS_MAGIC then Some (- E_INVAL, None, fail s5)
                else if d_blocks (devs (os_data s5) dev) < su_blocks su then Some (- E_INVAL, None, fail s5)
                else do {
                  let s6 = upd_mem (\<lambda>m. m(buf + 12 + SFS_MAX_INFO_LEN := 0)) s5;
                  let s7 = upd_sfs f (\<lambda>x. x\<lparr>sf_super := su\<lparr>su_info := (su_info su)[SFS_MAX_INFO_LEN := 0]\<rparr>\<rparr>) s6;
                  let (c, s8) = os_kmalloc s7;
                  case c of
                    None \<Rightarrow> Some (- E_NO_MEM, None, fail s8)
                  | Some h \<Rightarrow> do {
                      let s9 = upd_sfs f (\<lambda>x. x\<lparr>sf_hash_list := h\<rparr>) s8;
                      let s10 = upd_slinks (fold (\<lambda>i. list_init (HashList h i)) [0..<SFS_HLIST_SIZE]) s9;
                      (ret, made, s11) \<leftarrow> mount_freemap V f dev s10;
                      let x = get_sfs f s11;
                      let s12 = (if made then bitmap_destroy (sf_bitmap x) (sf_freemap x) s11 else s11);
                      if ret \<noteq> 0 then Some (ret, None, fail (os_kfree h s12))
                      else Some (0, Some f, s11)
                    }
                }
              }
          }
      })"

definition sfs_mount :: "fsdata vops \<Rightarrow> nat \<Rightarrow> ucore \<Rightarrow> (int \<times> ucore) option" where
  "sfs_mount V devname s = vfs_mount V devname (sfs_do_mount V) s"

section \<open>sfs.c, fs.c\<close>

definition sfs_init :: "fsdata vops \<Rightarrow> nat \<Rightarrow> ucore \<Rightarrow> ucore option" where
  "sfs_init V disk0_name s = do { (ret, s1) \<leftarrow> sfs_mount V disk0_name s; kassert (ret = 0); Some s1 }"

definition fs_init :: "fsdata vops \<Rightarrow> nat \<Rightarrow> nat \<Rightarrow> nat \<Rightarrow> ucore \<Rightarrow> ucore option" where
  "fs_init V stdin_name stdout_name disk0_name s = do {
     let s1 = vfs_init s;
     s2 \<leftarrow> dev_init V stdin_name stdout_name disk0_name s1;
     sfs_init V disk0_name s2
   }"

section \<open>The function tables\<close>

text \<open>An operation that a table lacks is \<open>None\<close>: \<open>__vop_op\<close> asserts that it is there.\<close>

definition by_table :: "nat \<Rightarrow> ucore \<Rightarrow> 'a option \<Rightarrow> 'a option \<Rightarrow> 'a option \<Rightarrow> 'a option" where
  "by_table node s dev dir file =
     (case optab (os_data s) node of DevNode \<Rightarrow> dev | SfsDir \<Rightarrow> dir | SfsFile \<Rightarrow> file)"

definition vops_none :: "sched_class \<Rightarrow> fsdata vops" where
  "vops_none sc = \<lparr>op_open = (\<lambda>_ _ _. None), op_close = (\<lambda>_ _. None), op_read = (\<lambda>_ _ _. None), op_write = (\<lambda>_ _ _. None),
     op_fstat = (\<lambda>_ _. None), op_fsync = (\<lambda>_ _. None), op_namefile = (\<lambda>_ _ _. None), op_getdirentry = (\<lambda>_ _ _. None),
     op_reclaim = (\<lambda>_ _. None), op_gettype = (\<lambda>_ _. None), op_tryseek = (\<lambda>_ _ _. None), op_truncate = (\<lambda>_ _ _. None),
     op_create = (\<lambda>_ _ _ _. None), op_lookup = (\<lambda>_ _ _. None), fs_sync = (\<lambda>_ _. None), fs_get_root = (\<lambda>_ _. None),
     fs_unmount = (\<lambda>_ _. None), fs_cleanup = (\<lambda>_ _. None), op_sched = sc\<rparr>"

text \<open>The operations that call no other operation of an inode; then those that call these; then the rest.\<close>

definition vops_base :: "sched_class \<Rightarrow> fsdata vops" where
  "vops_base sc = (let V = vops_none sc in V\<lparr>
     op_open := (\<lambda>n fl s. by_table n s (dev_open n fl s) (Some (sfs_opendir fl, s)) (Some (sfs_openfile fl, s))),
     op_read := (\<lambda>n b s. by_table n s (dev_read V n b s) None (sfs_read V n b s)),
     op_write := (\<lambda>n b s. by_table n s (dev_write V n b s) None (sfs_write V n b s)),
     op_fsync := (\<lambda>n s. by_table n s None (sfs_fsync V n s) (sfs_fsync V n s)),
     op_getdirentry := (\<lambda>n b s. by_table n s None (sfs_getdirentry V n b s) None),
     op_gettype := (\<lambda>n s. by_table n s (dev_gettype n s) (sfs_gettype n s) (sfs_gettype n s)),
     op_truncate := (\<lambda>n l s. by_table n s None None (sfs_truncfile V n l s)),
     fs_get_root := sfs_get_root V, fs_unmount := sfs_unmount\<rparr>)"

definition vops_mid :: "sched_class \<Rightarrow> fsdata vops" where
  "vops_mid sc = (let V = vops_base sc in V\<lparr>
     op_close := (\<lambda>n s. by_table n s (dev_close n s) (sfs_close V n s) (sfs_close V n s)),
     op_fstat := (\<lambda>n s. by_table n s (dev_fstat V n s) (sfs_fstat V n s) (sfs_fstat V n s)),
     op_reclaim := (\<lambda>n s. by_table n s None (sfs_reclaim V n s) (sfs_reclaim V n s)),
     op_tryseek := (\<lambda>n p s. by_table n s (dev_tryseek n p s) None (sfs_tryseek V n p s)),
     fs_sync := sfs_sync V\<rparr>)"

definition ucore_vops :: "sched_class \<Rightarrow> nat \<Rightarrow> fsdata vops" where
  "ucore_vops sc dotdot = (let V = vops_mid sc in V\<lparr>
     op_namefile := (\<lambda>n b s. by_table n s None (sfs_namefile V dotdot n b s) None),
     op_lookup := (\<lambda>n p s. by_table n s (dev_lookup n p s) (sfs_lookup V n p s) None),
     fs_cleanup := sfs_cleanup V\<rparr>)"

end
