(* ===== verification/Sfs_Disk.thy ===== *)
theory Sfs_Disk
  imports Sfs_Fs
begin

text \<open>
  What the disk device and the block input and output of a file system do to memory.  \<open>disk_block\<close> is the contents
  of a block of the disk image; \<open>same_off X\<close> compares two memories outside the
  buffers \<open>X\<close>.  Every operation here, if the locks it takes are free, changes
  nothing but memory.
\<close>

section \<open>Memory\<close>

definition with_mem :: "Strings.mem \<Rightarrow> ucore \<Rightarrow> ucore" where "with_mem m = upd_mem (\<lambda>_. m)"

lemma with_mem_simps [simp]:
  "os_mem (with_mem m s) = m" "os_data (with_mem m s) = os_data s" "os_kern (with_mem m s) = os_kern s"
  "os_nodes (with_mem m s) = os_nodes s" "os_vm (with_mem m s) = os_vm s"
  "with_mem m (with_mem m' s) = with_mem m s" "with_mem (os_mem s) s = s"
  "set_kern k (with_mem m s) = with_mem m (set_kern k s)" "upd_mem g (with_mem m s) = with_mem (g m) s"
  by (simp_all add: with_mem_def upd_mem_def set_kern_def os_kern_def)

lemma upd_mem_with: "upd_mem g s = with_mem (g (os_mem s)) s"
  by (simp add: with_mem_def upd_mem_def)

definition same_off :: "nat set \<Rightarrow> Strings.mem \<Rightarrow> Strings.mem \<Rightarrow> bool" where
  "same_off X m m' \<longleftrightarrow> (\<forall>a. a \<notin> X \<longrightarrow> m' a = m a)"

lemma same_off_refl [simp]: "same_off X m m"
  by (simp add: same_off_def)

lemma same_off_trans: "same_off X m m' \<Longrightarrow> same_off Y m' m'' \<Longrightarrow> X \<subseteq> Z \<Longrightarrow> Y \<subseteq> Z \<Longrightarrow> same_off Z m m''"
  unfolding same_off_def by (metis subsetD)

lemma same_off_mono: "same_off X m m' \<Longrightarrow> X \<subseteq> Y \<Longrightarrow> same_off Y m m'"
  by (auto simp: same_off_def)

lemma same_off_write: "{a..<a + length bs} \<subseteq> X \<Longrightarrow> same_off X m (write_bytes m a bs)"
  by (auto simp: same_off_def write_bytes_def subset_iff)

lemma same_off_write_both: "same_off X m m' \<Longrightarrow> same_off X (write_bytes m a bs) (write_bytes m' a bs)"
  by (auto simp: same_off_def write_bytes_def)

lemma same_off_read: "same_off X m m' \<Longrightarrow> {a..<a + n} \<inter> X = {} \<Longrightarrow> read_bytes m' a n = read_bytes m a n"
  by (rule read_bytes_cong) (auto simp: same_off_def disjoint_iff)

lemma memmove_bytes:
  assumes "d + n \<le> s \<or> s + n \<le> d"
  shows "memmove m d s n = write_bytes m d (read_bytes m s n)"
  using memcpy_bytes [OF assms, of m] assms by (auto simp: memmove_def memcpy_def)

section \<open>Locks that are free\<close>

definition lock_free :: "nat \<Rightarrow> kern \<Rightarrow> bool" where
  "lock_free m k \<longleftrightarrow> 0 < sem_value (sems k m) \<and> wait_queue_first m k = None"

definition sem_dec :: "nat \<Rightarrow> kern \<Rightarrow> kern" where
  "sem_dec m = upd_sem m (\<lambda>x. x\<lparr>sem_value := sem_value x - 1\<rparr>)"

lemma os_kern_set [simp]: "os_kern (set_kern k s) = k"
  by (simp add: os_kern_def set_kern_def)

lemma set_kern_simps [simp]:
  "set_kern k (set_kern k' s) = set_kern k s" "set_kern (os_kern s) s = s"
  "os_mem (set_kern k s) = os_mem s" "os_data (set_kern k s) = os_data s" "os_nodes (set_kern k s) = os_nodes s"
  by (simp_all add: os_kern_def set_kern_def)

lemma os_down_free: "lock_free m (os_kern s) \<Longrightarrow> os_down m s = Some (set_kern (sem_dec m (os_kern s)) s)"
  by (simp add: os_down_def try_down_def lock_free_def sem_dec_def)

lemma os_up_free: "os_kern s = sem_dec m k \<Longrightarrow> lock_free m k \<Longrightarrow> os_up V m s = Some (set_kern k s)"
  by (simp add: os_up_def up_def sem_up_raw_def lock_free_def sem_dec_def wait_queue_first_def upd_sem_def)

lemma lock_free_dec [simp]: "m \<noteq> m' \<Longrightarrow> lock_free m (sem_dec m' k) = lock_free m k"
  by (simp add: lock_free_def sem_dec_def upd_sem_def wait_queue_first_def)

section \<open>The disk\<close>

definition disk_addr :: "ucore \<Rightarrow> nat \<Rightarrow> nat" where
  "disk_addr s b = ide_iobase (ide_devices (os_data s) DISK0_DEV_NO) + 4096 * b"

definition disk_block :: "nat \<Rightarrow> ucore \<Rightarrow> 8 word list" where
  "disk_block b s = read_bytes (os_mem s) (disk_addr s b) 4096"

definition disk_region :: "nat \<Rightarrow> ucore \<Rightarrow> nat set" where
  "disk_region dev s = {disk_addr s 0..<disk_addr s (d_blocks (devs (os_data s) dev))}"

definition dbuf_region :: "ucore \<Rightarrow> nat set" where
  "dbuf_region s = {disk0_buffer (os_data s)..<disk0_buffer (os_data s) + 16384}"

text \<open>\<open>dev\<close> is the disk device, its image lies in memory away from the driver's buffer.\<close>

definition disk_geo :: "nat \<Rightarrow> ucore \<Rightarrow> bool" where
  "disk_geo dev s \<longleftrightarrow> d_ops (devs (os_data s) dev) = DevDisk0 \<and> VALID_IDE DISK0_DEV_NO s
     \<and> d_blocks (devs (os_data s) dev) * 8 \<le> ide_size (ide_devices (os_data s) DISK0_DEV_NO)
     \<and> ide_size (ide_devices (os_data s) DISK0_DEV_NO) \<le> MAX_DISK_NSECS
     \<and> disk_addr s (d_blocks (devs (os_data s) dev)) < 18446744073709551616
     \<and> dbuf_region s \<inter> disk_region dev s = {}"

lemma disk_geo_with [simp]: "disk_geo dev (with_mem m s) = disk_geo dev s" "disk_geo dev (set_kern k s) = disk_geo dev s"
  by (simp_all add: disk_geo_def disk_addr_def disk_region_def dbuf_region_def VALID_IDE_def)

lemma disk_addr_simps [simp]:
  "disk_addr (with_mem m s) b = disk_addr s b" "disk_addr (set_kern k s) b = disk_addr s b"
  "dbuf_region (with_mem m s) = dbuf_region s" "dbuf_region (set_kern k s) = dbuf_region s"
  "disk_region dev (with_mem m s) = disk_region dev s" "disk_region dev (set_kern k s) = disk_region dev s"
  by (simp_all add: disk_addr_def dbuf_region_def disk_region_def)

lemma disk_block_in_region:
  assumes "b + k \<le> d_blocks (devs (os_data s) dev)"
  shows "{disk_addr s b..<disk_addr s b + 4096 * k} \<subseteq> disk_region dev s"
  using assms by (auto simp: disk_region_def disk_addr_def)

text \<open>One transfer of at most four blocks through the driver's buffer.\<close>

lemma interval_disjoint: "{a..<a + n} \<inter> {b..<b + k} = {} \<Longrightarrow> 0 < n \<Longrightarrow> 0 < k \<Longrightarrow> a + n \<le> b \<or> b + k \<le> (a :: nat)"
proof (rule ccontr)
  assume e: "{a..<a + n} \<inter> {b..<b + k} = {}" and n: "0 < n" "0 < k" "\<not> ?thesis"
  then have "max a b \<in> {a..<a + n} \<inter> {b..<b + k}" by auto
  then show False using e by blast
qed

lemma disk_transfer:
  assumes "disk_geo dev s" and "b + c \<le> d_blocks (devs (os_data s) dev)" and "0 < c" "c \<le> 4"
  defines "D \<equiv> ide_devices (os_data s) DISK0_DEV_NO"
  shows "u32 (b * 8) = b * 8" "u32 (c * 8) = c * 8" "VALID_IDE DISK0_DEV_NO s" "b * 8 + c * 8 \<le> 268435456" "b * 8 < 268435456"
    "min (c * 8) (u64 (ide_size D + 18446744073709551616 - b * 8)) * 512 = 4096 * c"
    "u64 (ide_iobase D + b * 8 * 512) = disk_addr s b"
    "disk_addr s b + 4096 * c \<le> disk0_buffer (os_data s) \<or> disk0_buffer (os_data s) + 4096 * c \<le> disk_addr s b"
proof -
  have g: "(b + c) * 8 \<le> ide_size D" "ide_size D \<le> 268435456" "ide_iobase D + 4096 * (b + c) < 18446744073709551616"
    using assms by (auto simp: disk_geo_def MAX_DISK_NSECS_def disk_addr_def)
  show "VALID_IDE DISK0_DEV_NO s" using assms by (simp add: disk_geo_def)
  show "u32 (b * 8) = b * 8" "u32 (c * 8) = c * 8" using g by simp_all
  show "b * 8 + c * 8 \<le> 268435456" "b * 8 < 268435456" using g assms(3) by simp_all
  have "b * 8 \<le> ide_size D" using g(1) by simp
  then have "ide_size D + 18446744073709551616 - b * 8 = (ide_size D - b * 8) + 18446744073709551616" by simp
  moreover have "ide_size D - b * 8 < 18446744073709551616" using g(2) by simp
  ultimately have "u64 (ide_size D + 18446744073709551616 - b * 8) = ide_size D - b * 8"
    by (simp only: u64_def mod_add_self2 mod_less)
  then show "min (c * 8) (u64 (ide_size D + 18446744073709551616 - b * 8)) * 512 = 4096 * c"
    using g by (simp add: min_def)
  show "u64 (ide_iobase D + b * 8 * 512) = disk_addr s b" using g by (simp add: disk_addr_def D_def)
  have "{disk0_buffer (os_data s)..<disk0_buffer (os_data s) + 4096 * c} \<subseteq> dbuf_region s"
    using assms(4) by (auto simp: dbuf_region_def)
  moreover have "dbuf_region s \<inter> disk_region dev s = {}" using assms(1) by (simp add: disk_geo_def)
  ultimately have "{disk_addr s b..<disk_addr s b + 4096 * c}
      \<inter> {disk0_buffer (os_data s)..<disk0_buffer (os_data s) + 4096 * c} = {}"
    using disk_block_in_region [OF assms(2)] by blast
  then show "disk_addr s b + 4096 * c \<le> disk0_buffer (os_data s) \<or> disk0_buffer (os_data s) + 4096 * c \<le> disk_addr s b"
    using assms(3) by (intro interval_disjoint) auto
qed

lemma read_blks:
  assumes "disk_geo dev s" and "b + c \<le> d_blocks (devs (os_data s) dev)" and "0 < c" "c \<le> 4"
  shows "disk0_read_blks_nolock b c s =
    Some (with_mem (write_bytes (os_mem s) (disk0_buffer (os_data s)) (read_bytes (os_mem s) (disk_addr s b) (4096 * c))) s)"
proof -
  note t = disk_transfer [OF assms]
  have "disk0_buffer (os_data s) + 4096 * c \<le> disk_addr s b \<or> disk_addr s b + 4096 * c \<le> disk0_buffer (os_data s)"
    using t(8) by blast
  note m = memcpy_bytes [OF this, of "os_mem s"]
  show ?thesis using t(1-7) m assms(4)
    by (simp add: disk0_read_blks_nolock_def ide_read_secs_def DISK0_BLK_NSECT_def DISK0_BLKSIZE_def SECTSIZE_def
        MAX_NSECS_def MAX_DISK_NSECS_def ramdisk_read_def Let_def upd_mem_with)
qed

lemma write_blks:
  assumes "disk_geo dev s" and "b + c \<le> d_blocks (devs (os_data s) dev)" and "0 < c" "c \<le> 4"
  shows "disk0_write_blks_nolock b c s =
    Some (with_mem (write_bytes (os_mem s) (disk_addr s b) (read_bytes (os_mem s) (disk0_buffer (os_data s)) (4096 * c))) s)"
proof -
  note t = disk_transfer [OF assms]
  note m = memcpy_bytes [OF t(8), of "os_mem s"]
  show ?thesis using t(1-7) m assms(4)
    by (simp add: disk0_write_blks_nolock_def ide_write_secs_def DISK0_BLK_NSECT_def DISK0_BLKSIZE_def SECTSIZE_def
        MAX_NSECS_def MAX_DISK_NSECS_def ramdisk_write_def Let_def upd_mem_with)
qed

definition io_region :: "iobuf \<Rightarrow> nat set" where "io_region iob = {io_base iob..<io_base iob + io_resid iob}"

definition io_advance :: "nat \<Rightarrow> iobuf \<Rightarrow> iobuf" where
  "io_advance n iob = iob\<lparr>io_base := io_base iob + n, io_offset := io_offset iob + int n, io_resid := io_resid iob - n\<rparr>"

lemma io_advance_simps [simp]:
  "io_base (io_advance n iob) = io_base iob + n" "io_resid (io_advance n iob) = io_resid iob - n"
  "io_advance k (io_advance n iob) = io_advance (n + k) iob" "io_advance 0 iob = iob"
  by (simp_all add: io_advance_def)

lemma iobuf_skip_advance: "n \<le> io_resid iob \<Longrightarrow> iobuf_skip n iob = Some (io_advance n iob)"
  by (simp add: iobuf_skip_def io_advance_def)

lemma disk0_loop_read:
  assumes "disk_geo dev s" and "b + k \<le> d_blocks (devs (os_data s) dev)" and "io_resid iob = 4096 * k"
    and "io_region iob \<inter> (dbuf_region s \<union> disk_region dev s) = {}"
  shows "\<exists>m'. disk0_loop False b (4096 * k) iob s = Some (io_advance (4096 * k) iob, with_mem m' s)
    \<and> read_bytes m' (io_base iob) (4096 * k) = read_bytes (os_mem s) (disk_addr s b) (4096 * k)
    \<and> same_off (dbuf_region s \<union> io_region iob) (os_mem s) m'"
  using assms
proof (induction k arbitrary: b iob s rule: less_induct)
  case (less k)
  show ?case
  proof (cases "k = 0")
    case True
    then show ?thesis by (subst disk0_loop.simps) (auto simp: read_bytes_def intro!: exI [of _ "os_mem s"])
  next
    case False
    define c where "c = min k 4"
    have c: "0 < c" "c \<le> 4" "c \<le> k" using False by (auto simp: c_def)
    have bc: "b + c \<le> d_blocks (devs (os_data s) dev)" using less.prems(2) c by simp
    let ?m = "os_mem s" and ?d = "disk0_buffer (os_data s)" and ?base = "io_base iob"
    define B where "B = read_bytes ?m (disk_addr s b) (4096 * c)"
    define m1 where "m1 = write_bytes ?m ?d B"
    define m2 where "m2 = write_bytes m1 ?base B"
    have lB: "length B = 4096 * c" by (simp add: B_def)
    have sub: "{?base..<?base + 4096 * c} \<subseteq> io_region iob" "{?d..<?d + 4096 * c} \<subseteq> dbuf_region s"
      using c less.prems(3) by (auto simp: io_region_def dbuf_region_def)
    then have "{?base..<?base + 4096 * c} \<inter> {?d..<?d + 4096 * c} = {}" using less.prems(4) by blast
    then have dis: "?base + 4096 * c \<le> ?d \<or> ?d + 4096 * c \<le> ?base" using c by (intro interval_disjoint) auto
    have mv: "memmove m1 ?base ?d (4096 * c) = m2"
      unfolding m2_def memmove_bytes [OF dis] using lB by (simp add: m1_def)
    have so: "same_off (dbuf_region s \<union> io_region iob) ?m m2"
    proof (rule same_off_trans)
      show "same_off (dbuf_region s) ?m m1" unfolding m1_def by (rule same_off_write) (use sub lB in auto)
      show "same_off (io_region iob) m1 m2" unfolding m2_def by (rule same_off_write) (use sub lB in auto)
    qed auto
    have unroll: "disk0_loop False b (4096 * k) iob s =
      disk0_loop False (b + c) (4096 * (k - c)) (io_advance (4096 * c) iob) (with_mem m2 s)"
    proof -
      have mn: "min (4096 * k) 16384 = 4096 * c" by (simp add: c_def min_def)
      have u: "u32 (4096 * c div 4096) = c" "u32 (b + c) = b + c"
        using c bc less.prems(1) by (simp_all add: disk_geo_def MAX_DISK_NSECS_def)
      have r: "disk0_read_blks_nolock b c s = Some (with_mem m1 s)"
        using read_blks [OF less.prems(1) bc c(1,2)] by (simp add: m1_def B_def)
      have i: "os_iobuf_move iob ?d (4096 * c) True (with_mem m1 s) = Some (0, 4096 * c, io_advance (4096 * c) iob, with_mem m2 s)"
        using c less.prems(3) mv by (simp add: os_iobuf_move_def iobuf_move_def iobuf_skip_advance Let_def)
      show ?thesis
        using False mn u r i by (subst disk0_loop.simps)
          (simp add: Let_def DISK0_BUFSIZE_def DISK0_BLKSIZE_def right_diff_distrib')
    qed
    have ih: "\<exists>m'. disk0_loop False (b + c) (4096 * (k - c)) (io_advance (4096 * c) iob) (with_mem m2 s)
          = Some (io_advance (4096 * (k - c)) (io_advance (4096 * c) iob), with_mem m' (with_mem m2 s))
        \<and> read_bytes m' (?base + 4096 * c) (4096 * (k - c)) = read_bytes m2 (disk_addr s (b + c)) (4096 * (k - c))
        \<and> same_off (dbuf_region s \<union> io_region (io_advance (4096 * c) iob)) m2 m'"
      using less.IH [of "k - c" "with_mem m2 s" "b + c" "io_advance (4096 * c) iob"] c less.prems
      by (auto simp: io_region_def right_diff_distrib' disjoint_iff)
    then obtain m' where m': "disk0_loop False b (4096 * k) iob s = Some (io_advance (4096 * k) iob, with_mem m' s)"
      "read_bytes m' (?base + 4096 * c) (4096 * (k - c)) = read_bytes m2 (disk_addr s (b + c)) (4096 * (k - c))"
      "same_off (dbuf_region s \<union> io_region (io_advance (4096 * c) iob)) m2 m'"
      using c unroll by (auto simp: right_diff_distrib')
    have kc: "4096 * k = 4096 * c + 4096 * (k - c)" using c by (simp add: right_diff_distrib')
    have ad: "disk_addr s (b + c) = disk_addr s b + 4096 * c" by (simp add: disk_addr_def)
    have dk: "{disk_addr s (b + c)..<disk_addr s (b + c) + 4096 * (k - c)} \<subseteq> disk_region dev s"
      using disk_block_in_region [of "b + c" "k - c" s dev] less.prems(2) c by simp
    have "read_bytes m2 (disk_addr s (b + c)) (4096 * (k - c)) = read_bytes ?m (disk_addr s (b + c)) (4096 * (k - c))"
      by (rule same_off_read [OF so]) (use dk less.prems(1,4) in \<open>auto simp: disk_geo_def\<close>)
    moreover have "read_bytes m' ?base (4096 * c) = B"
    proof -
      have "read_bytes m' ?base (4096 * c) = read_bytes m2 ?base (4096 * c)"
        by (rule same_off_read [OF m'(3)]) (use sub less.prems(4) in \<open>auto simp: io_region_def disjoint_iff\<close>)
      then show ?thesis using lB by (simp add: m2_def)
    qed
    ultimately have "read_bytes m' ?base (4096 * k) = read_bytes ?m (disk_addr s b) (4096 * k)"
      unfolding kc read_bytes_append by (simp add: m'(2) B_def ad)
    moreover have "same_off (dbuf_region s \<union> io_region iob) ?m m'"
      by (rule same_off_trans [OF so m'(3)]) (auto simp: io_region_def)
    ultimately show ?thesis using m'(1) by blast
  qed
qed

lemma disk0_loop_write:
  assumes "disk_geo dev s" and "b + k \<le> d_blocks (devs (os_data s) dev)" and "io_resid iob = 4096 * k"
    and "io_region iob \<inter> (dbuf_region s \<union> disk_region dev s) = {}"
  shows "\<exists>m'. disk0_loop True b (4096 * k) iob s = Some (io_advance (4096 * k) iob, with_mem m' s)
    \<and> read_bytes m' (disk_addr s b) (4096 * k) = read_bytes (os_mem s) (io_base iob) (4096 * k)
    \<and> same_off (dbuf_region s \<union> {disk_addr s b..<disk_addr s b + 4096 * k}) (os_mem s) m'"
  using assms
proof (induction k arbitrary: b iob s rule: less_induct)
  case (less k)
  show ?case
  proof (cases "k = 0")
    case True
    then show ?thesis by (subst disk0_loop.simps) (auto simp: read_bytes_def intro!: exI [of _ "os_mem s"])
  next
    case False
    define c where "c = min k 4"
    have c: "0 < c" "c \<le> 4" "c \<le> k" using False by (auto simp: c_def)
    have bc: "b + c \<le> d_blocks (devs (os_data s) dev)" using less.prems(2) c by simp
    let ?m = "os_mem s" and ?d = "disk0_buffer (os_data s)" and ?base = "io_base iob" and ?a = "disk_addr s b"
    define B where "B = read_bytes ?m ?base (4096 * c)"
    define m1 where "m1 = write_bytes ?m ?d B"
    define m2 where "m2 = write_bytes m1 ?a B"
    have lB: "length B = 4096 * c" by (simp add: B_def)
    have sub: "{?base..<?base + 4096 * c} \<subseteq> io_region iob" "{?d..<?d + 4096 * c} \<subseteq> dbuf_region s"
      using c less.prems(3) by (auto simp: io_region_def dbuf_region_def)
    then have "{?d..<?d + 4096 * c} \<inter> {?base..<?base + 4096 * c} = {}" using less.prems(4) by blast
    then have dis: "?d + 4096 * c \<le> ?base \<or> ?base + 4096 * c \<le> ?d" using c by (intro interval_disjoint) auto
    have mv: "memmove ?m ?d ?base (4096 * c) = m1"
      unfolding m1_def memmove_bytes [OF dis] by (simp add: B_def)
    have so: "same_off (dbuf_region s \<union> {?a..<?a + 4096 * c}) ?m m2"
    proof (rule same_off_trans)
      show "same_off (dbuf_region s) ?m m1" unfolding m1_def by (rule same_off_write) (use sub lB in auto)
      show "same_off {?a..<?a + 4096 * c} m1 m2" unfolding m2_def by (rule same_off_write) (use lB in auto)
    qed auto
    have unroll: "disk0_loop True b (4096 * k) iob s =
      disk0_loop True (b + c) (4096 * (k - c)) (io_advance (4096 * c) iob) (with_mem m2 s)"
    proof -
      have mn: "min (4096 * k) 16384 = 4096 * c" by (simp add: c_def min_def)
      have u: "u32 (4096 * c div 4096) = c" "u32 (b + c) = b + c"
        using c bc less.prems(1) by (simp_all add: disk_geo_def MAX_DISK_NSECS_def)
      have "disk0_write_blks_nolock b c (with_mem m1 s) = Some (with_mem m2 s)"
        using write_blks [of dev "with_mem m1 s" b c] less.prems(1) bc c(1,2) lB by (simp add: m1_def m2_def)
      moreover have i: "os_iobuf_move iob ?d 16384 False s = Some (if 4096 * c = 16384 then 0 else - E_NO_MEM, 4096 * c,
          io_advance (4096 * c) iob, with_mem m1 s)"
        using c less.prems(3) mv mn
        by (simp add: os_iobuf_move_def iobuf_move_def iobuf_skip_advance Let_def upd_mem_with)
      ultimately show ?thesis
        using False mn u c by (subst disk0_loop.simps)
          (simp add: Let_def DISK0_BUFSIZE_def DISK0_BLKSIZE_def right_diff_distrib')
    qed
    have ad: "disk_addr s (b + c) = ?a + 4096 * c" by (simp add: disk_addr_def)
    have ih: "\<exists>m'. disk0_loop True (b + c) (4096 * (k - c)) (io_advance (4096 * c) iob) (with_mem m2 s)
          = Some (io_advance (4096 * (k - c)) (io_advance (4096 * c) iob), with_mem m' (with_mem m2 s))
        \<and> read_bytes m' (?a + 4096 * c) (4096 * (k - c)) = read_bytes m2 (?base + 4096 * c) (4096 * (k - c))
        \<and> same_off (dbuf_region s \<union> {?a + 4096 * c..<?a + 4096 * c + 4096 * (k - c)}) m2 m'"
      using less.IH [of "k - c" "with_mem m2 s" "b + c" "io_advance (4096 * c) iob"] c less.prems
      by (auto simp: io_region_def right_diff_distrib' disjoint_iff ad)
    then obtain m' where m': "disk0_loop True b (4096 * k) iob s = Some (io_advance (4096 * k) iob, with_mem m' s)"
      "read_bytes m' (?a + 4096 * c) (4096 * (k - c)) = read_bytes m2 (?base + 4096 * c) (4096 * (k - c))"
      "same_off (dbuf_region s \<union> {?a + 4096 * c..<?a + 4096 * c + 4096 * (k - c)}) m2 m'"
      using c unroll by (auto simp: right_diff_distrib')
    have kc: "4096 * k = 4096 * c + 4096 * (k - c)" using c by (simp add: right_diff_distrib')
    have dk: "{?a..<?a + 4096 * k} \<subseteq> disk_region dev s"
      using disk_block_in_region [of b k s dev] less.prems(2) by simp
    have dd: "dbuf_region s \<inter> disk_region dev s = {}" using less.prems(1) by (simp add: disk_geo_def)
    have "read_bytes m2 (?base + 4096 * c) (4096 * (k - c)) = read_bytes ?m (?base + 4096 * c) (4096 * (k - c))"
    proof (rule same_off_read [OF so])
      have "{?base + 4096 * c..<?base + 4096 * c + 4096 * (k - c)} \<subseteq> io_region iob"
        using less.prems(3) kc by (auto simp: io_region_def)
      moreover have "{?a..<?a + 4096 * c} \<subseteq> disk_region dev s" using dk kc by (auto simp: subset_iff)
      ultimately show "{?base + 4096 * c..<?base + 4096 * c + 4096 * (k - c)} \<inter> (dbuf_region s \<union> {?a..<?a + 4096 * c}) = {}"
        using less.prems(4) by blast
    qed
    moreover have "read_bytes m' ?a (4096 * c) = B"
    proof -
      have "{?a..<?a + 4096 * c} \<inter> dbuf_region s = {}" using dk dd kc by (auto simp: disjoint_iff subset_iff)
      then have "read_bytes m' ?a (4096 * c) = read_bytes m2 ?a (4096 * c)"
        by (intro same_off_read [OF m'(3)]) auto
      then show ?thesis using lB by (simp add: m2_def)
    qed
    ultimately have "read_bytes m' ?a (4096 * k) = read_bytes ?m ?base (4096 * k)"
      unfolding kc read_bytes_append by (simp add: m'(2) B_def)
    moreover have "same_off (dbuf_region s \<union> {?a..<?a + 4096 * k}) ?m m'"
      by (rule same_off_trans [OF so m'(3)]) (use kc in auto)
    ultimately show ?thesis using m'(1) by blast
  qed
qed

text \<open>A transfer of whole blocks inside the disk, with the driver's lock.\<close>

definition disk_ok :: "nat \<Rightarrow> ucore \<Rightarrow> bool" where
  "disk_ok dev s \<longleftrightarrow> disk_geo dev s \<and> lock_free (disk0_sem (os_data s)) (os_kern s)"

lemma disk_ok_with [simp]: "disk_ok dev (with_mem m s) = disk_ok dev s"
  by (simp add: disk_ok_def)

lemma disk0_io_loop:
  assumes "disk_ok dev s" and "b + k \<le> d_blocks (devs (os_data s) dev)" and "io_resid iob = 4096 * k"
    and "io_offset iob = int (4096 * b)"
    and "disk0_loop wr b (4096 * k) iob (set_kern (sem_dec (disk0_sem (os_data s)) (os_kern s)) s)
      = Some (io_advance (4096 * k) iob, with_mem m' (set_kern (sem_dec (disk0_sem (os_data s)) (os_kern s)) s))"
    and "k = 0 \<Longrightarrow> m' = os_mem s"
  shows "disk0_io V dev iob wr s = Some (0, io_advance (4096 * k) iob, with_mem m' s)"
proof -
  have le: "d_blocks (devs (os_data s) dev) * 8 \<le> 268435456"
    using assms(1) by (auto simp: disk_ok_def disk_geo_def MAX_DISK_NSECS_def)
  have bk: "b < 4294967296" "k < 4294967296" "b + k < 4294967296" using le assms(2) by simp_all
  have bn: "nat (int (4096 * b) div 4096 mod 4294967296) = b"
  proof -
    have "int (4096 * b) div 4096 mod 4294967296 = int b" using bk by simp
    then show ?thesis by simp
  qed
  have am: "int (4096 * b) mod 4096 = 0" by simp
  have down: "lock_disk0 s = Some (set_kern (sem_dec (disk0_sem (os_data s)) (os_kern s)) s)"
    using assms(1) by (simp add: lock_disk0_def os_down_free disk_ok_def)
  have up: "unlock_disk0 V (with_mem m' (set_kern (sem_dec (disk0_sem (os_data s)) (os_kern s)) s)) = Some (with_mem m' s)"
    using assms(1) os_up_free [of "with_mem m' (set_kern (sem_dec (disk0_sem (os_data s)) (os_kern s)) s)"
        "disk0_sem (os_data s)" "os_kern s" V]
    by (simp add: unlock_disk0_def disk_ok_def)
  show ?thesis
    unfolding disk0_io_def Let_def assms(3,4) DISK0_BLKSIZE_def
    using bk assms(2,5,6) bn am down up by simp
qed

lemma disk0_io_read:
  assumes "disk_ok dev s" and "b + k \<le> d_blocks (devs (os_data s) dev)" and "io_resid iob = 4096 * k"
    and "io_offset iob = int (4096 * b)" and "io_region iob \<inter> (dbuf_region s \<union> disk_region dev s) = {}"
  obtains m' where "disk0_io V dev iob False s = Some (0, io_advance (4096 * k) iob, with_mem m' s)"
    and "read_bytes m' (io_base iob) (4096 * k) = read_bytes (os_mem s) (disk_addr s b) (4096 * k)"
    and "same_off (dbuf_region s \<union> io_region iob) (os_mem s) m'"
proof -
  let ?s = "set_kern (sem_dec (disk0_sem (os_data s)) (os_kern s)) s"
  obtain m' where m': "disk0_loop False b (4096 * k) iob ?s = Some (io_advance (4096 * k) iob, with_mem m' ?s)"
    "read_bytes m' (io_base iob) (4096 * k) = read_bytes (os_mem s) (disk_addr s b) (4096 * k)"
    "same_off (dbuf_region s \<union> io_region iob) (os_mem s) m'"
    using disk0_loop_read [of dev ?s b k iob] assms by (auto simp: disk_ok_def)
  have "m' = os_mem s" if "k = 0"
  proof -
    have "with_mem m' ?s = ?s" using m'(1) that by (subst (asm) disk0_loop.simps) simp
    then have "os_mem (with_mem m' ?s) = os_mem ?s" by simp
    then show ?thesis by simp
  qed
  then show ?thesis using that [OF disk0_io_loop [OF assms(1-4) m'(1)] m'(2,3)] by blast
qed

lemma disk0_io_write:
  assumes "disk_ok dev s" and "b + k \<le> d_blocks (devs (os_data s) dev)" and "io_resid iob = 4096 * k"
    and "io_offset iob = int (4096 * b)" and "io_region iob \<inter> (dbuf_region s \<union> disk_region dev s) = {}"
  obtains m' where "disk0_io V dev iob True s = Some (0, io_advance (4096 * k) iob, with_mem m' s)"
    and "read_bytes m' (disk_addr s b) (4096 * k) = read_bytes (os_mem s) (io_base iob) (4096 * k)"
    and "same_off (dbuf_region s \<union> {disk_addr s b..<disk_addr s b + 4096 * k}) (os_mem s) m'"
proof -
  let ?s = "set_kern (sem_dec (disk0_sem (os_data s)) (os_kern s)) s"
  obtain m' where m': "disk0_loop True b (4096 * k) iob ?s = Some (io_advance (4096 * k) iob, with_mem m' ?s)"
    "read_bytes m' (disk_addr s b) (4096 * k) = read_bytes (os_mem s) (io_base iob) (4096 * k)"
    "same_off (dbuf_region s \<union> {disk_addr s b..<disk_addr s b + 4096 * k}) (os_mem s) m'"
    using disk0_loop_write [of dev ?s b k iob] assms by (auto simp: disk_ok_def)
  have "m' = os_mem s" if "k = 0"
  proof -
    have "with_mem m' ?s = ?s" using m'(1) that by (subst (asm) disk0_loop.simps) simp
    then have "os_mem (with_mem m' ?s) = os_mem ?s" by simp
    then show ?thesis by simp
  qed
  then show ?thesis using that [OF disk0_io_loop [OF assms(1-4) m'(1)] m'(2,3)] by blast
qed

end
