(* ===== verification/Sfs_Blocks.thy ===== *)
theory Sfs_Blocks
  imports Sfs_Disk
begin

text \<open>
  A mounted file system (\<open>sfs_ok\<close>): its device is the disk, its buffers lie apart, its locks are free and the free
  map counts its free blocks.  Each operation on blocks leaves such a state (\<open>fs_to\<close>), and the lemmas say what happens
  to the set of free blocks and to the contents of every block.
\<close>

section \<open>A mounted file system\<close>

definition sbuf_region :: "nat \<Rightarrow> ucore \<Rightarrow> nat set" where
  "sbuf_region f s = {sf_buffer (get_sfs f s)..<sf_buffer (get_sfs f s) + 4096}"

definition map_region :: "nat \<Rightarrow> ucore \<Rightarrow> nat set" where
  "map_region f s = (let bm = sf_freemap (get_sfs f s) in {bm_map bm..<bm_map bm + 4 * bm_nwords bm})"

definition fs_disk :: "nat \<Rightarrow> ucore \<Rightarrow> nat set" where "fs_disk f s = disk_region (sf_dev (get_sfs f s)) s"

definition scratch :: "nat \<Rightarrow> ucore \<Rightarrow> nat set" where "scratch f s = dbuf_region s \<union> sbuf_region f s"

definition fs_mem :: "nat \<Rightarrow> ucore \<Rightarrow> nat set" where "fs_mem f s = scratch f s \<union> map_region f s \<union> fs_disk f s"

definition free_blocks :: "nat \<Rightarrow> ucore \<Rightarrow> nat set" where
  "free_blocks f s = free_bits (sf_freemap (get_sfs f s)) (os_mem s)"

definition fs_geo :: "nat \<Rightarrow> ucore \<Rightarrow> bool" where
  "fs_geo f s \<longleftrightarrow> disk_ok (sf_dev (get_sfs f s)) s
     \<and> sfs_blocks f s \<le> d_blocks (devs (os_data s) (sf_dev (get_sfs f s))) \<and> sfs_blocks f s \<le> 1048576
     \<and> sbuf_region f s \<inter> (dbuf_region s \<union> fs_disk f s) = {}
     \<and> map_region f s \<inter> (scratch f s \<union> fs_disk f s) = {}"

definition sfs_ok :: "nat \<Rightarrow> ucore \<Rightarrow> bool" where
  "sfs_ok f s \<longleftrightarrow> fs_geo f s \<and> lock_free (io_sem f) (os_kern s) \<and> io_sem f \<noteq> disk0_sem (os_data s)
     \<and> WORD_BITS * bm_nwords (sf_freemap (get_sfs f s)) \<le> 4294967296
     \<and> bm_nbits (sf_freemap (get_sfs f s)) \<le> WORD_BITS * bm_nwords (sf_freemap (get_sfs f s))
     \<and> sfs_blocks f s \<le> bm_nbits (sf_freemap (get_sfs f s))
     \<and> free_blocks f s \<subseteq> {0<..<sfs_blocks f s}
     \<and> card (free_blocks f s) = su_unused_blocks (sf_super (get_sfs f s))"

lemma fs_with_mem [simp]:
  "get_sfs f (with_mem m s) = get_sfs f s" "sfs_blocks f (with_mem m s) = sfs_blocks f s"
  "sbuf_region f (with_mem m s) = sbuf_region f s" "map_region f (with_mem m s) = map_region f s"
  "fs_disk f (with_mem m s) = fs_disk f s" "scratch f (with_mem m s) = scratch f s" "fs_mem f (with_mem m s) = fs_mem f s"
  "fs_geo f (with_mem m s) = fs_geo f s"
  by (simp_all add: get_sfs_def sfs_blocks_def sbuf_region_def map_region_def fs_disk_def scratch_def fs_mem_def fs_geo_def)

lemma get_sfs_kern [simp]: "get_sfs f (set_kern k s) = get_sfs f s"
  by (simp add: get_sfs_def)

lemma free_blocks_cong:
  assumes "same_off X (os_mem s) m" and "map_region f s \<inter> X = {}"
  shows "free_blocks f (with_mem m s) = free_blocks f s"
proof -
  let ?bm = "sf_freemap (get_sfs f s)"
  have "bit_free ?bm m i \<longleftrightarrow> bit_free ?bm (os_mem s) i" if i: "i < WORD_BITS * bm_nwords ?bm" for i
  proof -
    have "i div WORD_BITS < bm_nwords ?bm" using i by (simp add: less_mult_imp_div_less mult.commute)
    then have "bm_word ?bm (i div WORD_BITS) + j \<in> map_region f s" if "j < 4" for j
      using that by (auto simp: map_region_def bm_word_def Let_def)
    then have "load32 m (bm_word ?bm (i div WORD_BITS)) = load32 (os_mem s) (bm_word ?bm (i div WORD_BITS))"
      using assms by (intro load32_cong) (auto simp: same_off_def)
    then show ?thesis by (simp add: bit_free_def)
  qed
  then show ?thesis by (auto simp: free_blocks_def free_bits_def)
qed

lemma sfs_ok_with_mem:
  assumes "sfs_ok f s" and "same_off X (os_mem s) m" and "map_region f s \<inter> X = {}"
  shows "sfs_ok f (with_mem m s)"
  using assms(1) free_blocks_cong [OF assms(2,3)] by (simp add: sfs_ok_def)

lemma sfs_okD:
  assumes "sfs_ok f s"
  shows "fs_geo f s" "lock_free (io_sem f) (os_kern s)" "free_blocks f s \<subseteq> {0<..<sfs_blocks f s}"
    "card (free_blocks f s) = su_unused_blocks (sf_super (get_sfs f s))"
  using assms by (simp_all add: sfs_ok_def)

lemma map_scratch: "fs_geo f s \<Longrightarrow> map_region f s \<inter> (scratch f s \<union> fs_disk f s) = {}"
  by (simp add: fs_geo_def)

section \<open>Blocks of the disk\<close>

definition block_region :: "ucore \<Rightarrow> nat \<Rightarrow> nat set" where
  "block_region s b = {disk_addr s b..<disk_addr s b + 4096}"

lemma length_disk_block [simp]: "length (disk_block b s) = 4096"
  by (simp add: disk_block_def)

lemma block_region_with [simp]: "block_region (with_mem m s) b = block_region s b"
  by (simp add: block_region_def)

lemma block_region_disk: "fs_geo f s \<Longrightarrow> b < sfs_blocks f s \<Longrightarrow> block_region s b \<subseteq> fs_disk f s"
  unfolding fs_geo_def block_region_def fs_disk_def
  using disk_block_in_region [of b 1 s "sf_dev (get_sfs f s)"] by auto

lemma block_region_disjoint: "b \<noteq> b' \<Longrightarrow> block_region s b \<inter> block_region s b' = {}"
  by (auto simp: block_region_def disk_addr_def disjoint_iff)

lemma scratch_disk: "fs_geo f s \<Longrightarrow> scratch f s \<inter> fs_disk f s = {}"
  by (auto simp: fs_geo_def scratch_def disk_ok_def disk_geo_def fs_disk_def)

text \<open>Only the buffers changed: no block did.\<close>

lemma disk_block_scratch:
  assumes "fs_geo f s" and "same_off (scratch f s) (os_mem s) m" and "b < sfs_blocks f s"
  shows "disk_block b (with_mem m s) = disk_block b s"
proof -
  have "block_region s b \<inter> scratch f s = {}"
    using scratch_disk [OF assms(1)] block_region_disk [OF assms(1,3)] by blast
  then show ?thesis
    unfolding disk_block_def block_region_def by (simp add: same_off_read [OF assms(2)])
qed

lemma disk_block_other:
  assumes "fs_geo f s" and "same_off (scratch f s \<union> block_region s b') (os_mem s) m" and "b < sfs_blocks f s" and "b \<noteq> b'"
  shows "disk_block b (with_mem m s) = disk_block b s"
proof -
  have "block_region s b \<inter> (scratch f s \<union> block_region s b') = {}"
    using scratch_disk [OF assms(1)] block_region_disk [OF assms(1,3)] block_region_disjoint [OF assms(4), of s] by blast
  then show ?thesis
    unfolding disk_block_def block_region_def by (simp add: same_off_read [OF assms(2)] block_region_def)
qed

section \<open>Whole blocks\<close>

lemma dop_io_disk: "disk_ok dev s \<Longrightarrow> dop_io V dev iob wr s = disk0_io V dev iob wr s"
  by (simp add: dop_io_def disk_ok_def disk_geo_def)

lemma block_pre:
  assumes "fs_geo f s" and "b < sfs_blocks f s" and "{buf..<buf + 4096} \<inter> (dbuf_region s \<union> fs_disk f s) = {}"
  defines "iob \<equiv> iobuf_init buf SFS_BLKSIZE (int (u32 (b * SFS_BLKSIZE)))"
  shows "disk_ok (sf_dev (get_sfs f s)) s" "b + 1 \<le> d_blocks (devs (os_data s) (sf_dev (get_sfs f s)))"
    "io_resid iob = 4096 * 1" "io_offset iob = int (4096 * b)"
    "io_region iob \<inter> (dbuf_region s \<union> disk_region (sf_dev (get_sfs f s)) s) = {}"
    "io_base iob = buf" "io_region iob = {buf..<buf + 4096}"
  using assms
  by (auto simp: iob_def iobuf_init_def fs_geo_def SFS_BLKSIZE_def io_region_def fs_disk_def mult.commute)

lemma rwblock_read:
  assumes "fs_geo f s" and "b < sfs_blocks f s" and "check \<longrightarrow> b \<noteq> 0"
    and "{buf..<buf + 4096} \<inter> (dbuf_region s \<union> fs_disk f s) = {}"
  obtains m where "sfs_rwblock_nolock V f buf b False check s = Some (0, with_mem m s)"
    and "read_bytes m buf 4096 = disk_block b s"
    and "same_off (dbuf_region s \<union> {buf..<buf + 4096}) (os_mem s) m"
proof -
  note p = block_pre [OF assms(1,2,4)]
  obtain m where m: "disk0_io V (sf_dev (get_sfs f s)) (iobuf_init buf SFS_BLKSIZE (int (u32 (b * SFS_BLKSIZE)))) False s
      = Some (0, io_advance (4096 * 1) (iobuf_init buf SFS_BLKSIZE (int (u32 (b * SFS_BLKSIZE)))), with_mem m s)"
    "read_bytes m buf (4096 * 1) = read_bytes (os_mem s) (disk_addr s b) (4096 * 1)"
    "same_off (dbuf_region s \<union> {buf..<buf + 4096}) (os_mem s) m"
    using disk0_io_read [OF p(1-5), of V] unfolding p(6,7) by blast
  show thesis
  proof (rule that)
    show "sfs_rwblock_nolock V f buf b False check s = Some (0, with_mem m s)"
      using m(1) assms(2,3) p(1) by (auto simp: sfs_rwblock_nolock_def Let_def dop_io_disk)
    show "read_bytes m buf 4096 = disk_block b s" using m(2) by (simp add: disk_block_def)
  qed (rule m(3))
qed

lemma rwblock_write:
  assumes "fs_geo f s" and "b < sfs_blocks f s" and "check \<longrightarrow> b \<noteq> 0"
    and "{buf..<buf + 4096} \<inter> (dbuf_region s \<union> fs_disk f s) = {}"
  obtains m where "sfs_rwblock_nolock V f buf b True check s = Some (0, with_mem m s)"
    and "disk_block b (with_mem m s) = read_bytes (os_mem s) buf 4096"
    and "same_off (dbuf_region s \<union> block_region s b) (os_mem s) m"
proof -
  note p = block_pre [OF assms(1,2,4)]
  obtain m where m: "disk0_io V (sf_dev (get_sfs f s)) (iobuf_init buf SFS_BLKSIZE (int (u32 (b * SFS_BLKSIZE)))) True s
      = Some (0, io_advance (4096 * 1) (iobuf_init buf SFS_BLKSIZE (int (u32 (b * SFS_BLKSIZE)))), with_mem m s)"
    "read_bytes m (disk_addr s b) (4096 * 1) = read_bytes (os_mem s) buf (4096 * 1)"
    "same_off (dbuf_region s \<union> {disk_addr s b..<disk_addr s b + 4096 * 1}) (os_mem s) m"
    using disk0_io_write [OF p(1-5), of V] unfolding p(6) by blast
  show thesis
  proof (rule that)
    show "sfs_rwblock_nolock V f buf b True check s = Some (0, with_mem m s)"
      using m(1) assms(2,3) p(1) by (auto simp: sfs_rwblock_nolock_def Let_def dop_io_disk)
    show "disk_block b (with_mem m s) = read_bytes (os_mem s) buf 4096" using m(2) by (simp add: disk_block_def)
    show "same_off (dbuf_region s \<union> block_region s b) (os_mem s) m" using m(3) by (simp add: block_region_def)
  qed
qed

text \<open>The lock around a transfer.\<close>

definition locked :: "nat \<Rightarrow> ucore \<Rightarrow> ucore" where "locked m s = set_kern (sem_dec m (os_kern s)) s"

lemma locked_simps [simp]:
  "os_mem (locked m s) = os_mem s" "os_data (locked m s) = os_data s" "get_sfs f (locked m s) = get_sfs f s"
  "sfs_blocks f (locked m s) = sfs_blocks f s" "sbuf_region f (locked m s) = sbuf_region f s"
  "map_region f (locked m s) = map_region f s" "fs_disk f (locked m s) = fs_disk f s" "scratch f (locked m s) = scratch f s"
  "dbuf_region (locked m s) = dbuf_region s" "disk_addr (locked m s) b = disk_addr s b" "disk_block b (locked m s) = disk_block b s"
  "block_region (locked m s) b = block_region s b" "locked m (with_mem m' s) = with_mem m' (locked m s)"
  by (simp_all add: locked_def sfs_blocks_def sbuf_region_def map_region_def fs_disk_def scratch_def disk_block_def block_region_def)

lemma disk_block_locked [simp]: "disk_block b (with_mem m (locked i s)) = disk_block b (with_mem m s)"
  by (simp add: disk_block_def)

lemma lock_io:
  assumes "sfs_ok f s"
  shows "lock_sfs_io f s = Some (locked (io_sem f) s)" "unlock_sfs_io V f (with_mem m (locked (io_sem f) s)) = Some (with_mem m s)"
    "fs_geo f (locked (io_sem f) s)"
proof -
  have l: "lock_free (io_sem f) (os_kern s)" "io_sem f \<noteq> disk0_sem (os_data s)" using assms by (auto simp: sfs_ok_def)
  then show "lock_sfs_io f s = Some (locked (io_sem f) s)" by (simp add: lock_sfs_io_def os_down_free locked_def)
  have "os_kern (with_mem m (locked (io_sem f) s)) = sem_dec (io_sem f) (os_kern s)" by (simp add: locked_def)
  from os_up_free [OF this l(1)]
  show "unlock_sfs_io V f (with_mem m (locked (io_sem f) s)) = Some (with_mem m s)" by (simp add: unlock_sfs_io_def locked_def)
  have dk: "disk_ok (sf_dev (get_sfs f s)) (locked (io_sem f) s)"
    using l(2) sfs_okD(1) [OF assms] by (auto simp: disk_ok_def locked_def fs_geo_def)
  have "dbuf_region (locked (io_sem f) s) = dbuf_region s" by (simp add: locked_def)
  with dk show "fs_geo f (locked (io_sem f) s)" using sfs_okD(1) [OF assms] by (simp add: fs_geo_def)
qed

text \<open>A part of a block is read, and replaced.\<close>

definition patch :: "nat \<Rightarrow> 'a list \<Rightarrow> 'a list \<Rightarrow> 'a list" where
  "patch off bs xs = take off xs @ bs @ drop (off + length bs) xs"

lemma length_patch [simp]: "off + length bs \<le> length xs \<Longrightarrow> length (patch off bs xs) = length xs"
  by (simp add: patch_def)

lemma read_write_patch:
  assumes "off + length bs \<le> n"
  shows "read_bytes (write_bytes m (a + off) bs) a n = patch off bs (read_bytes m a n)"
  by (rule nth_equalityI) (use assms in \<open>auto simp: patch_def write_bytes_def nth_append\<close>)

lemma sfs_rbuf_ok:
  assumes "sfs_ok f s" and "b \<noteq> 0" "b < sfs_blocks f s" and "off < 4096" "off + len \<le> 4096"
  obtains m where "sfs_rbuf V f len b off s = Some (0, take len (drop off (disk_block b s)), with_mem m s)"
    and "same_off (scratch f s) (os_mem s) m"
proof -
  let ?t = "locked (io_sem f) s" and ?buf = "sf_buffer (get_sfs f s)"
  note l = lock_io [OF assms(1)]
  have "{?buf..<?buf + 4096} \<inter> (dbuf_region ?t \<union> fs_disk f ?t) = {}"
    using sfs_okD(1) [OF assms(1)] by (auto simp: fs_geo_def sbuf_region_def)
  then obtain m where m: "sfs_rwblock_nolock V f ?buf b False True ?t = Some (0, with_mem m ?t)"
    "read_bytes m ?buf 4096 = disk_block b s" "same_off (scratch f s) (os_mem s) m"
    using rwblock_read [OF l(3), of b True ?buf V] assms(2,3) by (auto simp: scratch_def sbuf_region_def)
  have "read_bytes m (?buf + off) len = take len (drop off (disk_block b s))"
  proof -
    have "min (4096 - off) len = len" using assms(5) by simp
    then show ?thesis unfolding m(2) [symmetric] by simp
  qed
  then have "sfs_rbuf V f len b off s = Some (0, take len (drop off (disk_block b s)), with_mem m s)"
    using assms(4,5) l m(1) by (simp add: sfs_rbuf_def SFS_BLKSIZE_def Let_def)
  then show thesis using m(3) by (rule that)
qed

lemma sfs_wbuf_ok:
  assumes "sfs_ok f s" and "b \<noteq> 0" "b < sfs_blocks f s" and "off < 4096" "off + length bs \<le> 4096"
  obtains m where "sfs_wbuf V f bs b off s = Some (0, with_mem m s)"
    and "same_off (scratch f s \<union> block_region s b) (os_mem s) m"
    and "disk_block b (with_mem m s) = patch off bs (disk_block b s)"
proof -
  let ?t = "locked (io_sem f) s" and ?buf = "sf_buffer (get_sfs f s)"
  note l = lock_io [OF assms(1)]
  have d: "{?buf..<?buf + 4096} \<inter> (dbuf_region ?t \<union> fs_disk f ?t) = {}"
    using sfs_okD(1) [OF assms(1)] by (auto simp: fs_geo_def sbuf_region_def)
  then obtain m1 where m1: "sfs_rwblock_nolock V f ?buf b False True ?t = Some (0, with_mem m1 ?t)"
    "read_bytes m1 ?buf 4096 = disk_block b s" "same_off (scratch f s) (os_mem s) m1"
    using rwblock_read [OF l(3), of b True ?buf V] assms(2,3) by (auto simp: scratch_def sbuf_region_def)
  define m2 where "m2 = write_bytes m1 (?buf + off) bs"
  have s2: "same_off (scratch f s) m1 m2"
    unfolding m2_def using assms(5) by (intro same_off_write) (auto simp: scratch_def sbuf_region_def)
  have g2: "fs_geo f (with_mem m2 ?t)" using l(3) by simp
  obtain m where m: "sfs_rwblock_nolock V f ?buf b True True (with_mem m2 ?t) = Some (0, with_mem m (with_mem m2 ?t))"
    "disk_block b (with_mem m (with_mem m2 ?t)) = read_bytes m2 ?buf 4096"
    "same_off (dbuf_region (with_mem m2 ?t) \<union> block_region (with_mem m2 ?t) b) (os_mem (with_mem m2 ?t)) m"
    by (rule rwblock_write [OF g2, of b True ?buf V]) (use assms(2,3) d in auto)
  have "sfs_wbuf V f bs b off s = Some (0, with_mem m s)"
    using assms(4,5) l m1(1) m(1) by (simp add: sfs_wbuf_def SFS_BLKSIZE_def Let_def m2_def)
  moreover have "same_off (scratch f s \<union> block_region s b) (os_mem s) m"
    using m1(3) s2 m(3) by (auto simp: same_off_def scratch_def)
  moreover have "disk_block b (with_mem m s) = patch off bs (disk_block b s)"
    using m(2) m1(2) read_write_patch [OF assms(5), of m1 ?buf] by (simp add: m2_def)
  ultimately show thesis by (rule that)
qed

lemma sfs_clear_ok:
  assumes "sfs_ok f s" and "b \<noteq> 0" "b < sfs_blocks f s"
  obtains m where "sfs_clear_block V f b 1 s = Some (0, with_mem m s)"
    and "same_off (scratch f s \<union> block_region s b) (os_mem s) m"
    and "disk_block b (with_mem m s) = replicate 4096 0"
proof -
  let ?t = "locked (io_sem f) s" and ?buf = "sf_buffer (get_sfs f s)"
  note l = lock_io [OF assms(1)]
  define m1 where "m1 = memset (os_mem s) ?buf 0 4096"
  have s1: "same_off (scratch f s) (os_mem s) m1"
    by (auto simp: same_off_def m1_def memset_eq scratch_def sbuf_region_def)
  have z: "read_bytes m1 ?buf 4096 = replicate 4096 0"
    by (rule nth_equalityI) (auto simp: m1_def memset_eq)
  have g: "fs_geo f (with_mem m1 ?t)" using l(3) by simp
  have d: "{?buf..<?buf + 4096} \<inter> (dbuf_region (with_mem m1 ?t) \<union> fs_disk f (with_mem m1 ?t)) = {}"
    using sfs_okD(1) [OF assms(1)] by (auto simp: fs_geo_def sbuf_region_def)
  obtain m where m: "sfs_rwblock_nolock V f ?buf b True True (with_mem m1 ?t) = Some (0, with_mem m (with_mem m1 ?t))"
    "disk_block b (with_mem m (with_mem m1 ?t)) = read_bytes m1 ?buf 4096"
    "same_off (dbuf_region (with_mem m1 ?t) \<union> block_region (with_mem m1 ?t) b) (os_mem (with_mem m1 ?t)) m"
    by (rule rwblock_write [OF g _ _ d, of b True V]) (use assms(2,3) in auto)
  have "sfs_clear_block V f b 1 s = Some (0, with_mem m s)"
    using l m(1) by (simp add: sfs_clear_block_def SFS_BLKSIZE_def Let_def m1_def upd_mem_with)
  moreover have "same_off (scratch f s \<union> block_region s b) (os_mem s) m"
    using s1 m(3) by (auto simp: same_off_def scratch_def)
  moreover have "disk_block b (with_mem m s) = replicate 4096 0" using m(2) z by simp
  ultimately show thesis by (rule that)
qed

section \<open>Allocating and freeing blocks\<close>

text \<open>\<open>sfs_frame s t\<close>: \<open>t\<close> differs from \<open>s\<close> in memory and in the in-memory data of file systems and their inodes
  only.  \<open>fs_to f s t\<close>: moreover \<open>f\<close> is still mounted, with the same geometry, and the memory outside
  its buffers, its free map and its disk is the same.\<close>

definition sfs_frame :: "ucore \<Rightarrow> ucore \<Rightarrow> bool" where
  "sfs_frame s t \<longleftrightarrow> (\<exists>m x y. t = s\<lparr>os_mem := m, os_data := (os_data s)\<lparr>sfss := x, sins := y\<rparr>\<rparr>)"

definition fs_to :: "nat \<Rightarrow> ucore \<Rightarrow> ucore \<Rightarrow> bool" where
  "fs_to f s t \<longleftrightarrow> sfs_ok f t \<and> sfs_frame s t
     \<and> (\<exists>k d. get_sfs f t = (get_sfs f s)\<lparr>sf_super := (sf_super (get_sfs f s))\<lparr>su_unused_blocks := k\<rparr>, sf_super_dirty := d\<rparr>)
     \<and> same_off (fs_mem f s) (os_mem s) (os_mem t)"

lemma sfs_frame_trans: "sfs_frame s t \<Longrightarrow> sfs_frame t u \<Longrightarrow> sfs_frame s u"
  unfolding sfs_frame_def by (elim exE, intro exI, simp)

lemma sfs_frame_with_mem [simp]: "sfs_frame s (with_mem m s)" "sfs_frame s s"
proof -
  show f: "sfs_frame s (with_mem m s)" for m
    unfolding sfs_frame_def with_mem_def upd_mem_def
    by (rule exI [of _ m], rule exI [of _ "sfss (os_data s)"], rule exI [of _ "sins (os_data s)"]) simp
  show "sfs_frame s s" using f [of "os_mem s"] by simp
qed

lemma sfs_frame_upd [simp]: "sfs_frame s (upd_sfs f g s)" "sfs_frame s (upd_sin n h s)"
  unfolding sfs_frame_def upd_sfs_def upd_sin_def upd_data_def
  by (rule exI [of _ "os_mem s"], rule exI, rule exI [of _ "sins (os_data s)"], simp)
     (rule exI [of _ "os_mem s"], rule exI [of _ "sfss (os_data s)"], rule exI, simp)

lemma sfs_frameD:
  assumes "sfs_frame s t"
  shows "os_kern t = os_kern s" "os_nodes t = os_nodes s" "os_vm t = os_vm s" "os_files t = os_files s"
    "ide_devices (os_data t) = ide_devices (os_data s)" "devs (os_data t) = devs (os_data s)"
    "optab (os_data t) = optab (os_data s)" "disk0_buffer (os_data t) = disk0_buffer (os_data s)"
    "disk0_sem (os_data t) = disk0_sem (os_data s)" "sfs_links (os_data t) = sfs_links (os_data s)"
proof -
  obtain m x y where t: "t = s\<lparr>os_mem := m, os_data := (os_data s)\<lparr>sfss := x, sins := y\<rparr>\<rparr>"
    using assms unfolding sfs_frame_def by blast
  show "os_kern t = os_kern s" "os_nodes t = os_nodes s" "os_vm t = os_vm s" "os_files t = os_files s"
    "ide_devices (os_data t) = ide_devices (os_data s)" "devs (os_data t) = devs (os_data s)"
    "optab (os_data t) = optab (os_data s)" "disk0_buffer (os_data t) = disk0_buffer (os_data s)"
    "disk0_sem (os_data t) = disk0_sem (os_data s)" "sfs_links (os_data t) = sfs_links (os_data s)"
    unfolding t by (simp_all add: os_kern_def)
qed

text \<open>The geometry, which a step keeps.\<close>

definition same_geo :: "nat \<Rightarrow> ucore \<Rightarrow> ucore \<Rightarrow> bool" where
  "same_geo f s t \<longleftrightarrow> sfs_frame s t
     \<and> (\<exists>k d. get_sfs f t = (get_sfs f s)\<lparr>sf_super := (sf_super (get_sfs f s))\<lparr>su_unused_blocks := k\<rparr>, sf_super_dirty := d\<rparr>)"

lemma same_geoD:
  assumes "same_geo f s t"
  shows "sf_dev (get_sfs f t) = sf_dev (get_sfs f s)" "sf_freemap (get_sfs f t) = sf_freemap (get_sfs f s)"
    "sfs_blocks f t = sfs_blocks f s" "sf_hash_list (get_sfs f t) = sf_hash_list (get_sfs f s)"
    "disk_addr t b = disk_addr s b" "block_region t b = block_region s b" "scratch f t = scratch f s"
    "map_region f t = map_region f s" "fs_disk f t = fs_disk f s" "fs_mem f t = fs_mem f s" "fs_geo f t = fs_geo f s"
proof -
  note d = sfs_frameD [of s t]
  have fr: "sfs_frame s t" using assms by (simp add: same_geo_def)
  obtain k dd where g: "get_sfs f t = (get_sfs f s)\<lparr>sf_super := (sf_super (get_sfs f s))\<lparr>su_unused_blocks := k\<rparr>, sf_super_dirty := dd\<rparr>"
    using assms by (auto simp: same_geo_def)
  show "sf_dev (get_sfs f t) = sf_dev (get_sfs f s)" "sf_freemap (get_sfs f t) = sf_freemap (get_sfs f s)"
    "sf_hash_list (get_sfs f t) = sf_hash_list (get_sfs f s)"
    by (simp_all add: g)
  show bl: "sfs_blocks f t = sfs_blocks f s" by (simp add: sfs_blocks_def g)
  show da: "disk_addr t b = disk_addr s b" for b using d(5) [OF fr] by (simp add: disk_addr_def)
  show "block_region t b = block_region s b" by (simp add: block_region_def da)
  have db: "dbuf_region t = dbuf_region s" using d(8) [OF fr] by (simp add: dbuf_region_def)
  have sb: "sbuf_region f t = sbuf_region f s" by (simp add: sbuf_region_def g)
  have dr: "disk_region e t = disk_region e s" for e using d(6) [OF fr] by (simp add: disk_region_def da)
  show sc: "scratch f t = scratch f s" by (simp add: scratch_def db sb)
  show mr: "map_region f t = map_region f s" by (simp add: map_region_def g)
  show fd: "fs_disk f t = fs_disk f s" by (simp add: fs_disk_def g dr)
  show "fs_mem f t = fs_mem f s" by (simp add: fs_mem_def sc mr fd)
  have "disk_ok (sf_dev (get_sfs f t)) t = disk_ok (sf_dev (get_sfs f s)) s"
    using d(1,5,6,9) [OF fr] by (simp add: disk_ok_def disk_geo_def VALID_IDE_def g da db dr)
  then show "fs_geo f t = fs_geo f s"
    using d(6) [OF fr] by (simp add: fs_geo_def bl sb db fd mr sc g)
qed

lemma fs_toD: "fs_to f s t \<Longrightarrow> sfs_ok f t" "fs_to f s t \<Longrightarrow> same_geo f s t" "fs_to f s t \<Longrightarrow> same_off (fs_mem f s) (os_mem s) (os_mem t)"
  by (simp_all add: fs_to_def same_geo_def)

lemma same_geo_trans: "same_geo f s t \<Longrightarrow> same_geo f t u \<Longrightarrow> same_geo f s u"
  unfolding same_geo_def by (elim conjE exE, intro conjI exI, erule (1) sfs_frame_trans, simp)

lemma fs_to_iff: "fs_to f s t \<longleftrightarrow> sfs_ok f t \<and> same_geo f s t \<and> same_off (fs_mem f s) (os_mem s) (os_mem t)"
  by (auto simp: fs_to_def same_geo_def)

lemma fs_to_trans: "fs_to f s t \<Longrightarrow> fs_to f t u \<Longrightarrow> fs_to f s u"
  unfolding fs_to_iff by (metis same_geoD(10) same_geo_trans same_off_trans subset_refl)

lemma fs_to_refl: "sfs_ok f s \<Longrightarrow> fs_to f s s"
  by (auto simp: fs_to_def intro!: exI [of _ "su_unused_blocks (sf_super (get_sfs f s))"] exI [of _ "sf_super_dirty (get_sfs f s)"])

lemma same_geo_with_mem: "same_geo f s (with_mem m s)"
  by (auto simp: same_geo_def intro!: exI [of _ "su_unused_blocks (sf_super (get_sfs f s))"] exI [of _ "sf_super_dirty (get_sfs f s)"])

lemma fs_to_with_mem:
  assumes "sfs_ok f s" and "same_off X (os_mem s) m" and "X \<subseteq> scratch f s \<union> fs_disk f s"
  shows "fs_to f s (with_mem m s)"
proof -
  have "map_region f s \<inter> X = {}" using map_scratch [OF sfs_okD(1) [OF assms(1)]] assms(3) by blast
  moreover have "same_off (fs_mem f s) (os_mem s) m"
    by (rule same_off_mono [OF assms(2)]) (use assms(3) in \<open>auto simp: fs_mem_def\<close>)
  ultimately show ?thesis
    using sfs_ok_with_mem [OF assms(1,2)] same_geo_with_mem by (simp add: fs_to_iff)
qed

lemma upd_super_simps [simp]:
  "get_sfs f (upd_super f g s) = (get_sfs f s)\<lparr>sf_super := g (sf_super (get_sfs f s)), sf_super_dirty := True\<rparr>"
  "os_mem (upd_super f g s) = os_mem s" "os_kern (upd_super f g s) = os_kern s" "sins (os_data (upd_super f g s)) = sins (os_data s)"
  "sfs_frame s (upd_super f g s)" "disk0_sem (os_data (upd_super f g s)) = disk0_sem (os_data s)"
  by (simp_all add: upd_super_def) (simp_all add: upd_sfs_def get_sfs_def upd_data_def os_kern_def)

lemma same_geo_upd_super: "same_geo f s (upd_super f (\<lambda>u. u\<lparr>su_unused_blocks := h u\<rparr>) s)"
  by (auto simp: same_geo_def)

text \<open>The bitmap and the counter move together.\<close>

lemma sfs_ok_super:
  assumes "sfs_ok f s" and "free_bits (sf_freemap (get_sfs f s)) m = F" and "F \<subseteq> {0<..<sfs_blocks f s}"
    and "h (sf_super (get_sfs f s)) = card F"
    and "\<And>a. a \<notin> map_region f s \<Longrightarrow> m a = os_mem s a"
  defines "t \<equiv> upd_super f (\<lambda>u. u\<lparr>su_unused_blocks := h u\<rparr>) (with_mem m s)"
  shows "fs_to f s t" and "free_blocks f t = F" and "\<And>b. b < sfs_blocks f s \<Longrightarrow> disk_block b t = disk_block b s"
proof -
  have geo: "same_geo f s t" unfolding t_def by (rule same_geo_trans [OF same_geo_with_mem same_geo_upd_super])
  note g = same_geoD [OF geo]
  show fb: "free_blocks f t = F" using assms(2) by (simp add: free_blocks_def t_def)
  have "sfs_ok f t"
    unfolding sfs_ok_def g fb using assms(1,3,4) by (simp add: sfs_ok_def t_def)
  moreover have so: "same_off (map_region f s) (os_mem s) (os_mem t)"
    using assms(5) by (simp add: same_off_def t_def)
  ultimately show "fs_to f s t" using geo by (auto simp: fs_to_iff fs_mem_def intro: same_off_mono)
  show "disk_block b t = disk_block b s" if "b < sfs_blocks f s" for b
  proof -
    have "block_region s b \<inter> map_region f s = {}"
      using block_region_disk [OF sfs_okD(1) [OF assms(1)] that] map_scratch [OF sfs_okD(1) [OF assms(1)]] by blast
    then show ?thesis unfolding disk_block_def g block_region_def by (simp add: same_off_read [OF so])
  qed
qed

lemma block_inuse_eq:
  assumes "sfs_ok f s" and "0 < b" "b < sfs_blocks f s"
  shows "sfs_block_inuse f b s = Some (b \<notin> free_blocks f s)"
proof -
  have "b < bm_nbits (sf_freemap (get_sfs f s))" "b < WORD_BITS * bm_nwords (sf_freemap (get_sfs f s))"
    using assms by (auto simp: sfs_ok_def)
  then show ?thesis using assms(2,3) by (simp add: sfs_block_inuse_def bitmap_test_eq free_blocks_def free_bits_def)
qed

lemma sfs_block_alloc_none:
  assumes "sfs_ok f s" and "free_blocks f s = {}"
  shows "sfs_block_alloc V f s = Some (- E_NO_MEM, None, s)"
  using assms bitmap_alloc_none [of "sf_freemap (get_sfs f s)" "os_mem s"]
  by (simp add: sfs_block_alloc_def sfs_ok_def free_blocks_def error_defs upd_mem_with)

lemma sfs_block_alloc_some:
  assumes "sfs_ok f s" and "free_blocks f s \<noteq> {}"
  defines "b \<equiv> Min (free_blocks f s)"
  obtains t where "sfs_block_alloc V f s = Some (0, Some b, t)" and "fs_to f s t" and "sins (os_data t) = sins (os_data s)"
    and "free_blocks f t = free_blocks f s - {b}" and "disk_block b t = replicate 4096 0"
    and "\<And>b'. b' < sfs_blocks f s \<Longrightarrow> b' \<noteq> b \<Longrightarrow> disk_block b' t = disk_block b' s"
proof -
  let ?bm = "sf_freemap (get_sfs f s)" and ?F = "free_blocks f s - {b}"
  have fin: "finite (free_blocks f s)" by (simp add: free_blocks_def)
  have bF: "b \<in> free_blocks f s" unfolding b_def by (rule Min_in [OF fin assms(2)])
  then have b: "0 < b" "b < sfs_blocks f s" using sfs_okD(3) [OF assms(1)] by auto
  have bm: "WORD_BITS * bm_nwords ?bm \<le> 4294967296" using assms(1) by (simp add: sfs_ok_def)
  have ne: "free_bits ?bm (os_mem s) \<noteq> {}" using assms(2) by (simp add: free_blocks_def)
  obtain m where m: "bitmap_alloc ?bm (os_mem s) = Some (0, Some b, m)" "free_bits ?bm m = ?F"
    "\<And>a. a < bm_map ?bm \<or> bm_map ?bm + 4 * bm_nwords ?bm \<le> a \<Longrightarrow> m a = os_mem s a"
    by (rule bitmap_alloc_some [OF bm ne]) (auto simp: b_def free_blocks_def)
  have out: "m a = os_mem s a" if "a \<notin> map_region f s" for a
    using that m(3) [of a] by (auto simp: map_region_def Let_def)
  have cardF: "su_unused_blocks (sf_super (get_sfs f s)) - 1 = card ?F" "0 < su_unused_blocks (sf_super (get_sfs f s))"
  proof -
    have "card ?F = card (free_blocks f s) - 1" by (rule card_Diff_singleton [OF bF])
    then show "su_unused_blocks (sf_super (get_sfs f s)) - 1 = card ?F" using sfs_okD(4) [OF assms(1)] by simp
    have "0 < card (free_blocks f s)" unfolding card_gt_0_iff using bF fin by blast
    then show "0 < su_unused_blocks (sf_super (get_sfs f s))" using sfs_okD(4) [OF assms(1)] by simp
  qed
  define s2 where "s2 = upd_super f (\<lambda>u. u\<lparr>su_unused_blocks := su_unused_blocks u - 1\<rparr>) (with_mem m s)"
  have sub: "?F \<subseteq> {0<..<sfs_blocks f s}" using sfs_okD(3) [OF assms(1)] by blast
  note o = sfs_ok_super [OF assms(1) m(2) sub, of "\<lambda>u. su_unused_blocks u - 1", OF cardF(1) out, folded s2_def]
  have ok2: "sfs_ok f s2" by (rule fs_toD [OF o(1)])
  note g2 = same_geoD [OF fs_toD(2) [OF o(1)]]
  have b2: "b \<noteq> 0" "b < sfs_blocks f s2" using b g2 by auto
  have used: "sfs_block_inuse f b s2 = Some True"
    using block_inuse_eq [OF ok2, of b] b b2 o(2) by simp
  obtain m3 where m3: "sfs_clear_block V f b 1 s2 = Some (0, with_mem m3 s2)"
    "same_off (scratch f s2 \<union> block_region s2 b) (os_mem s2) m3" "disk_block b (with_mem m3 s2) = replicate 4096 0"
    using sfs_clear_ok [OF ok2 b2, of V] by blast
  have alloc: "sfs_block_alloc V f s = Some (0, Some b, with_mem m3 s2)"
    using m(1) used m3(1) cardF(2) by (simp add: sfs_block_alloc_def Let_def upd_mem_with s2_def)
  have reg: "scratch f s2 \<union> block_region s2 b \<subseteq> scratch f s2 \<union> fs_disk f s2"
    using block_region_disk [OF sfs_okD(1) [OF ok2] b2(2)] by blast
  have to: "fs_to f s (with_mem m3 s2)" by (rule fs_to_trans [OF o(1) fs_to_with_mem [OF ok2 m3(2) reg]])
  have "free_blocks f (with_mem m3 s2) = ?F"
    using free_blocks_cong [OF m3(2)] map_scratch [OF sfs_okD(1) [OF ok2]] reg o(2) by blast
  moreover have "disk_block b' (with_mem m3 s2) = disk_block b' s" if "b' < sfs_blocks f s" "b' \<noteq> b" for b'
    using disk_block_other [OF sfs_okD(1) [OF ok2] m3(2)] that g2 o(3) by simp
  ultimately show thesis using that [OF alloc to _ _ m3(3)] by (simp add: s2_def)
qed

lemma sfs_block_free_ok:
  assumes "sfs_ok f s" and "0 < b" "b < sfs_blocks f s" and "b \<notin> free_blocks f s"
  obtains t where "sfs_block_free f b s = Some t" and "fs_to f s t" and "sins (os_data t) = sins (os_data s)"
    and "free_blocks f t = insert b (free_blocks f s)"
    and "\<And>b'. b' < sfs_blocks f s \<Longrightarrow> disk_block b' t = disk_block b' s"
proof -
  let ?bm = "sf_freemap (get_sfs f s)" and ?F = "insert b (free_blocks f s)"
  have fin: "finite (free_blocks f s)" by (simp add: free_blocks_def)
  have bb: "b < bm_nbits ?bm" "bm_nbits ?bm \<le> WORD_BITS * bm_nwords ?bm" "\<not> bit_free ?bm (os_mem s) b"
    using assms by (auto simp: sfs_ok_def free_blocks_def free_bits_def)
  obtain m where m: "bitmap_free ?bm b (os_mem s) = Some m" "free_bits ?bm m = ?F"
    "\<And>a. a < bm_map ?bm \<or> bm_map ?bm + 4 * bm_nwords ?bm \<le> a \<Longrightarrow> m a = os_mem s a"
    by (rule bitmap_free_taken [OF bb]) (auto simp: free_blocks_def)
  have out: "m a = os_mem s a" if "a \<notin> map_region f s" for a
    using that m(3) [of a] by (auto simp: map_region_def Let_def)
  have sub: "?F \<subseteq> {0<..<sfs_blocks f s}" using sfs_okD(3) [OF assms(1)] assms by auto
  have "card ?F \<le> card {0<..<sfs_blocks f s}" by (rule card_mono) (use sub in auto)
  moreover have "sfs_blocks f s \<le> 1048576" using sfs_okD(1) [OF assms(1)] by (simp add: fs_geo_def)
  ultimately have "card ?F < 4294967296" by simp
  then have cardF: "u32 (su_unused_blocks (sf_super (get_sfs f s)) + 1) = card ?F"
    using fin assms(4) sfs_okD(4) [OF assms(1)] by simp
  note o = sfs_ok_super [OF assms(1) m(2) sub, of "\<lambda>u. u32 (su_unused_blocks u + 1)", OF cardF out]
  have "sfs_block_free f b s = Some (upd_super f (\<lambda>u. u\<lparr>su_unused_blocks := u32 (su_unused_blocks u + 1)\<rparr>) (with_mem m s))"
    using block_inuse_eq [OF assms(1-3)] assms(4) m(1) by (simp add: sfs_block_free_def upd_mem_with)
  then show thesis using that o by simp
qed

end
