(* ===== verification/Sfs_Map.thy ===== *)
theory Sfs_Map
  imports Sfs_Blocks
begin

text \<open>
  The block map of a file.  \<open>fmap n s i\<close> is the disk block of the \<open>i\<close>th block of the file, found in the inode or in its
  indirect block; \<open>file_ok\<close> says that the map is one-to-one into the blocks in use and filled without gaps.  Loading a block
  of the file finds it, or appends a fresh one.
\<close>

definition ind_word :: "nat \<Rightarrow> nat \<Rightarrow> ucore \<Rightarrow> nat" where
  "ind_word e i s = le_val (take 4 (drop (4 * i) (disk_block e s)))"

definition fmap :: "nat \<Rightarrow> ucore \<Rightarrow> nat \<Rightarrow> nat" where
  "fmap n s i =
     (if i < 12 then di_direct (get_din n s) ! i
      else if di_indirect (get_din n s) \<noteq> 0 then ind_word (di_indirect (get_din n s)) (i - 12) s else 0)"

definition used_blocks :: "nat \<Rightarrow> ucore \<Rightarrow> nat set" where
  "used_blocks f s = {0<..<sfs_blocks f s} - free_blocks f s"

definition MAX_BLOCKS :: nat where "MAX_BLOCKS = SFS_NDIRECT + SFS_BLK_NENTRY"

lemma MAX_BLOCKS_eq: "MAX_BLOCKS = 1036"
  by (simp add: MAX_BLOCKS_def SFS_NDIRECT_def SFS_BLK_NENTRY_def SFS_BLKSIZE_def)

definition file_ok :: "nat \<Rightarrow> nat \<Rightarrow> ucore \<Rightarrow> bool" where
  "file_ok f n s \<longleftrightarrow> length (di_direct (get_din n s)) = 12 \<and> di_blocks (get_din n s) \<le> MAX_BLOCKS
     \<and> (\<forall>i<MAX_BLOCKS. fmap n s i \<noteq> 0 \<longleftrightarrow> i < di_blocks (get_din n s))
     \<and> (\<forall>i<di_blocks (get_din n s). fmap n s i \<in> used_blocks f s)
     \<and> inj_on (fmap n s) {..<di_blocks (get_din n s)}
     \<and> (di_indirect (get_din n s) \<noteq> 0 \<longrightarrow> di_indirect (get_din n s) \<in> used_blocks f s
          \<and> (\<forall>i<di_blocks (get_din n s). fmap n s i \<noteq> di_indirect (get_din n s)))"

section \<open>Words of an indirect block\<close>

lemma take_drop_patch_same:
  "off + length bs \<le> length xs \<Longrightarrow> take (length bs) (drop off (patch off bs xs)) = bs"
  by (simp add: patch_def)

lemma take_drop_patch_other:
  assumes "off + length bs \<le> length xs" and "a + k \<le> off \<or> off + length bs \<le> a" and "a + k \<le> length xs"
  shows "take k (drop a (patch off bs xs)) = take k (drop a xs)"
proof (rule nth_equalityI)
  show "length (take k (drop a (patch off bs xs))) = length (take k (drop a xs))" using assms(1) by simp
  fix i assume "i < length (take k (drop a (patch off bs xs)))"
  then have "i < k" "a + i < length xs" using assms by auto
  then show "take k (drop a (patch off bs xs)) ! i = take k (drop a xs) ! i"
    using assms by (auto simp: patch_def nth_append)
qed

lemma ind_word_patch:
  assumes "disk_block e t = patch (4 * i) (le_bytes 4 v) B" and "length B = 4096" and "i < 1024" "j < 1024" and "v < 4294967296"
  shows "ind_word e j t = (if j = i then v else le_val (take 4 (drop (4 * j) B)))"
proof (cases "j = i")
  case True
  have "take 4 (drop (4 * i) (patch (4 * i) (le_bytes 4 v) B)) = le_bytes 4 v"
    using take_drop_patch_same [of "4 * i" "le_bytes 4 v" B] assms(2,3) by simp
  then show ?thesis using True assms(1,5) by (simp add: ind_word_def)
next
  case False
  then have "4 * j + 4 \<le> 4 * i \<or> 4 * i + 4 \<le> 4 * j" by linarith
  then show ?thesis using False assms take_drop_patch_other [of "4 * i" "le_bytes 4 v" B "4 * j" 4] by (simp add: ind_word_def)
qed

lemma le_val_replicate [simp]: "le_val (replicate n 0) = 0"
  by (induction n) auto

lemma ind_word_zero: "disk_block e t = replicate 4096 0 \<Longrightarrow> ind_word e j t = 0"
  by (simp add: ind_word_def)

lemma ind_word_cong: "disk_block e t = disk_block e s \<Longrightarrow> ind_word e j t = ind_word e j s"
  by (simp add: ind_word_def)

section \<open>Steps that keep the blocks\<close>

lemma used_blockD: "b \<in> used_blocks f s \<Longrightarrow> 0 < b \<and> b \<noteq> 0 \<and> b < sfs_blocks f s \<and> b \<notin> free_blocks f s"
  by (auto simp: used_blocks_def)

lemma used_blocks_to:
  "fs_to f s t \<Longrightarrow> free_blocks f t = free_blocks f s - X \<Longrightarrow> used_blocks f s \<subseteq> used_blocks f t"
  by (auto simp: used_blocks_def same_geoD [OF fs_toD(2)])

lemma used_inuse: "sfs_ok f s \<Longrightarrow> b \<in> used_blocks f s \<Longrightarrow> sfs_block_inuse f b s = Some True"
  by (simp add: block_inuse_eq used_blocks_def)

lemma upd_sin_simps [simp]:
  "os_mem (upd_sin n g s) = os_mem s" "os_kern (upd_sin n g s) = os_kern s" "get_sfs f (upd_sin n g s) = get_sfs f s"
  "get_sin k (upd_sin n g s) = (if k = n then g (get_sin n s) else get_sin k s)"
  "free_blocks f (upd_sin n g s) = free_blocks f s" "sfs_blocks f (upd_sin n g s) = sfs_blocks f s"
  "disk_addr (upd_sin n g s) b = disk_addr s b" "disk_block b (upd_sin n g s) = disk_block b s"
  by (simp_all add: upd_sin_def get_sfs_def get_sin_def free_blocks_def sfs_blocks_def disk_addr_def disk_block_def)

lemma same_geo_upd_sin: "same_geo f s (upd_sin n g s)"
  by (auto simp: same_geo_def intro!: exI [of _ "su_unused_blocks (sf_super (get_sfs f s))"] exI [of _ "sf_super_dirty (get_sfs f s)"])

lemma fs_to_upd_sin: "sfs_ok f s \<Longrightarrow> fs_to f s (upd_sin n g s)"
proof -
  assume ok: "sfs_ok f s"
  have "disk0_sem (os_data (upd_sin n g s)) = disk0_sem (os_data s)" by (simp add: upd_sin_def)
  then have "sfs_ok f (upd_sin n g s)"
    using ok same_geoD [OF same_geo_upd_sin [of f s n g]] by (simp add: sfs_ok_def)
  then show ?thesis using same_geo_upd_sin by (simp add: fs_to_iff)
qed

lemma upd_din_simps [simp]:
  "get_din k (upd_din n g s) = (if k = n then g (get_din n s) else get_din k s)"
  "get_din k (set_dirty n s) = get_din k s"
  "os_mem (upd_din n g s) = os_mem s" "os_mem (set_dirty n s) = os_mem s"
  "free_blocks f (upd_din n g s) = free_blocks f s" "free_blocks f (set_dirty n s) = free_blocks f s"
  "sfs_blocks f (upd_din n g s) = sfs_blocks f s" "sfs_blocks f (set_dirty n s) = sfs_blocks f s"
  "disk_block b (upd_din n g s) = disk_block b s" "disk_block b (set_dirty n s) = disk_block b s"
  by (auto simp: upd_din_def set_dirty_def get_din_def)

lemma fs_to_upd_din: "sfs_ok f s \<Longrightarrow> fs_to f s (upd_din n g s)" "sfs_ok f s \<Longrightarrow> fs_to f s (set_dirty n s)"
  by (simp_all add: upd_din_def set_dirty_def fs_to_upd_sin)

section \<open>A new entry of the indirect block\<close>

lemma word_at:
  assumes "sfs_ok f s" and "e \<in> used_blocks f s" and "i < 1024"
  obtains m where "sfs_rbuf V f 4 e (4 * i) s = Some (0, take 4 (drop (4 * i) (disk_block e s)), with_mem m s)"
    and "fs_to f s (with_mem m s)" and "free_blocks f (with_mem m s) = free_blocks f s"
    and "\<And>b. b < sfs_blocks f s \<Longrightarrow> disk_block b (with_mem m s) = disk_block b s"
    and "same_off (scratch f s) (os_mem s) m"
proof -
  note u = used_blockD [OF assms(2)]
  obtain m where m: "sfs_rbuf V f 4 e (4 * i) s = Some (0, take 4 (drop (4 * i) (disk_block e s)), with_mem m s)"
    "same_off (scratch f s) (os_mem s) m"
    by (rule sfs_rbuf_ok [OF assms(1), of e "4 * i" 4 V]) (use u assms(3) in auto)
  note g = sfs_okD(1) [OF assms(1)]
  show thesis
  proof (rule that [OF m(1)])
    show "fs_to f s (with_mem m s)" by (rule fs_to_with_mem [OF assms(1) m(2)]) simp
    show "free_blocks f (with_mem m s) = free_blocks f s" by (rule free_blocks_cong [OF m(2)]) (use map_scratch [OF g] in blast)
    show "disk_block b (with_mem m s) = disk_block b s" if "b < sfs_blocks f s" for b
      by (rule disk_block_scratch [OF g m(2) that])
    show "same_off (scratch f s) (os_mem s) m" by (rule m(2))
  qed
qed

lemma write_word:
  assumes "sfs_ok f s" and "e \<in> used_blocks f s" and "i < 1024" and "v < 4294967296"
  obtains m where "sfs_wbuf V f (le_bytes 4 v) e (4 * i) s = Some (0, with_mem m s)"
    and "fs_to f s (with_mem m s)" and "free_blocks f (with_mem m s) = free_blocks f s"
    and "\<And>b. b < sfs_blocks f s \<Longrightarrow> b \<noteq> e \<Longrightarrow> disk_block b (with_mem m s) = disk_block b s"
    and "\<And>j. j < 1024 \<Longrightarrow> ind_word e j (with_mem m s) = (if j = i then v else ind_word e j s)"
proof -
  note u = used_blockD [OF assms(2)]
  obtain m where m: "sfs_wbuf V f (le_bytes 4 v) e (4 * i) s = Some (0, with_mem m s)"
    "same_off (scratch f s \<union> block_region s e) (os_mem s) m"
    "disk_block e (with_mem m s) = patch (4 * i) (le_bytes 4 v) (disk_block e s)"
    by (rule sfs_wbuf_ok [OF assms(1), of e "4 * i" "le_bytes 4 v" V]) (use u assms(3) in auto)
  note g = sfs_okD(1) [OF assms(1)]
  have reg: "scratch f s \<union> block_region s e \<subseteq> scratch f s \<union> fs_disk f s" using block_region_disk [OF g, of e] u by blast
  show thesis
  proof (rule that [OF m(1)])
    show "fs_to f s (with_mem m s)" by (rule fs_to_with_mem [OF assms(1) m(2) reg])
    show "free_blocks f (with_mem m s) = free_blocks f s"
      by (rule free_blocks_cong [OF m(2)]) (use map_scratch [OF g] reg in blast)
    show "disk_block b (with_mem m s) = disk_block b s" if "b < sfs_blocks f s" "b \<noteq> e" for b
      by (rule disk_block_other [OF g m(2) that])
    show "ind_word e j (with_mem m s) = (if j = i then v else ind_word e j s)" if "j < 1024" for j
      using ind_word_patch [OF m(3) _ assms(3) that assms(4)] by (simp add: ind_word_def)
  qed
qed

lemma free_not_used: "b \<in> free_blocks f s \<Longrightarrow> u \<in> used_blocks f s \<Longrightarrow> u \<noteq> b"
  by (auto simp: used_blocks_def)

lemma alloc_block:
  assumes "sfs_ok f s" and "free_blocks f s \<noteq> {}"
  obtains b t where "sfs_block_alloc V f s = Some (0, Some b, t)" and "fs_to f s t" and "sins (os_data t) = sins (os_data s)"
    and "b \<in> free_blocks f s" and "0 < b" and "b < sfs_blocks f s" and "free_blocks f t = free_blocks f s - {b}"
    and "b \<in> used_blocks f t" and "used_blocks f s \<subseteq> used_blocks f t" and "disk_block b t = replicate 4096 0"
    and "\<And>b'. b' < sfs_blocks f s \<Longrightarrow> b' \<noteq> b \<Longrightarrow> disk_block b' t = disk_block b' s"
    and "sfs_blocks f t = sfs_blocks f s" and "sfs_ok f t"
proof -
  let ?b = "Min (free_blocks f s)"
  have bF: "?b \<in> free_blocks f s" by (rule Min_in) (use assms(2) in \<open>simp_all add: free_blocks_def\<close>)
  then have r: "0 < ?b" "?b < sfs_blocks f s" using sfs_okD(3) [OF assms(1)] by auto
  obtain t where t: "sfs_block_alloc V f s = Some (0, Some ?b, t)" "fs_to f s t" "sins (os_data t) = sins (os_data s)"
    "free_blocks f t = free_blocks f s - {?b}" "disk_block ?b t = replicate 4096 0"
    "\<And>b'. b' < sfs_blocks f s \<Longrightarrow> b' \<noteq> ?b \<Longrightarrow> disk_block b' t = disk_block b' s"
    using sfs_block_alloc_some [OF assms, of V] by metis
  have sb: "sfs_blocks f t = sfs_blocks f s" by (rule same_geoD(3) [OF fs_toD(2) [OF t(2)]])
  have u: "?b \<in> used_blocks f t" "used_blocks f s \<subseteq> used_blocks f t" using t(4) r sb by (auto simp: used_blocks_def)
  show thesis by (rule that [OF t(1-3) bF r t(4) u t(5,6) sb fs_toD(1) [OF t(2)]])
qed

lemma get_sin_cong: "sins (os_data t) = sins (os_data s) \<Longrightarrow> get_sin n t = get_sin n s"
  by (simp add: get_sin_def)

lemma sins_with [simp]: "sins (os_data (with_mem m s)) = sins (os_data s)"
  by simp

lemma sub_store:
  assumes "sfs_ok f s" and "ent \<in> used_blocks f s" and "idx < 1024" and "free_blocks f s \<noteq> {}"
  obtains b s1 t where "sfs_block_alloc V f s = Some (0, Some b, s1)" and "sfs_wbuf V f (le_bytes 4 b) ent (4 * idx) s1 = Some (0, t)"
    and "fs_to f s t" and "sins (os_data t) = sins (os_data s)" and "b \<in> free_blocks f s" and "free_blocks f t = free_blocks f s - {b}"
    and "\<And>j. j < 1024 \<Longrightarrow> ind_word ent j t = (if j = idx then b else ind_word ent j s)" and "disk_block b t = replicate 4096 0"
    and "\<And>b'. b' \<in> used_blocks f s \<Longrightarrow> b' \<noteq> ent \<Longrightarrow> disk_block b' t = disk_block b' s"
proof -
  obtain b s1 where a: "sfs_block_alloc V f s = Some (0, Some b, s1)" "fs_to f s s1" "sins (os_data s1) = sins (os_data s)"
    "b \<in> free_blocks f s" "0 < b" "b < sfs_blocks f s" "free_blocks f s1 = free_blocks f s - {b}" "b \<in> used_blocks f s1"
    "used_blocks f s \<subseteq> used_blocks f s1" "disk_block b s1 = replicate 4096 0"
    "\<And>b'. b' < sfs_blocks f s \<Longrightarrow> b' \<noteq> b \<Longrightarrow> disk_block b' s1 = disk_block b' s" "sfs_blocks f s1 = sfs_blocks f s" "sfs_ok f s1"
    using alloc_block [OF assms(1,4), of V] by metis
  have e1: "ent \<in> used_blocks f s1" using a(9) assms(2) by blast
  have ne: "ent \<noteq> b" using free_not_used [OF a(4) assms(2)] .
  have el: "ent < sfs_blocks f s" using used_blockD [OF assms(2)] by blast
  have bl: "b < 4294967296"
    using a(6) sfs_okD(1) [OF assms(1)] by (simp add: fs_geo_def)
  obtain m where m: "sfs_wbuf V f (le_bytes 4 b) ent (4 * idx) s1 = Some (0, with_mem m s1)" "fs_to f s1 (with_mem m s1)"
    "free_blocks f (with_mem m s1) = free_blocks f s1"
    "\<And>b'. b' < sfs_blocks f s1 \<Longrightarrow> b' \<noteq> ent \<Longrightarrow> disk_block b' (with_mem m s1) = disk_block b' s1"
    "\<And>j. j < 1024 \<Longrightarrow> ind_word ent j (with_mem m s1) = (if j = idx then b else ind_word ent j s1)"
    using write_word [OF a(13) e1 assms(3) bl, of V] by metis
  have w: "ind_word ent j s1 = ind_word ent j s" for j using a(11) [OF el ne] by (rule ind_word_cong)
  show thesis
  proof (rule that [OF a(1) m(1) fs_to_trans [OF a(2) m(2)] _ a(4)])
    show "sins (os_data (with_mem m s1)) = sins (os_data s)" using a(3) by simp
    show "free_blocks f (with_mem m s1) = free_blocks f s - {b}" using m(3) a(7) by simp
    show "ind_word ent j (with_mem m s1) = (if j = idx then b else ind_word ent j s)" if "j < 1024" for j
      using m(5) [OF that] w by simp
    show "disk_block b (with_mem m s1) = replicate 4096 0" using m(4) [of b] a(6,10,12) ne by simp
    show "disk_block b' (with_mem m s1) = disk_block b' s" if "b' \<in> used_blocks f s" "b' \<noteq> ent" for b'
      using m(4) [of b'] a(11) [of b'] a(12) used_blockD [OF that(1)] that free_not_used [OF a(4) that(1)] by simp
  qed
qed

lemma bmap_get_sub_old:
  assumes "sfs_ok f s" and "ent \<in> used_blocks f s" and "idx < 1024" and "ind_word ent idx s \<noteq> 0 \<or> \<not> create"
  obtains m where "sfs_bmap_get_sub_nolock V f ent idx create s = Some (0, ent, ind_word ent idx s, with_mem m s)"
    and "fs_to f s (with_mem m s)" and "free_blocks f (with_mem m s) = free_blocks f s"
    and "\<And>b. b < sfs_blocks f s \<Longrightarrow> disk_block b (with_mem m s) = disk_block b s"
    and "same_off (scratch f s) (os_mem s) m"
proof -
  obtain m where m: "sfs_rbuf V f 4 ent (4 * idx) s = Some (0, take 4 (drop (4 * idx) (disk_block ent s)), with_mem m s)"
    "fs_to f s (with_mem m s)" "free_blocks f (with_mem m s) = free_blocks f s"
    "\<And>b. b < sfs_blocks f s \<Longrightarrow> disk_block b (with_mem m s) = disk_block b s"
    "same_off (scratch f s) (os_mem s) m"
    using word_at [OF assms(1-3), of V] by metis
  have "ent \<noteq> 0" using used_blockD [OF assms(2)] by blast
  then have "sfs_bmap_get_sub_nolock V f ent idx create s = Some (0, ent, ind_word ent idx s, with_mem m s)"
    using m(1) assms(3,4) unfolding ind_word_def
    by (auto simp: sfs_bmap_get_sub_nolock_def SFS_BLK_NENTRY_def SFS_BLKSIZE_def Let_def mult.commute)
  then show thesis using m(2-5) by (rule that)
qed

text \<open>A word of an existing indirect block is filled in; or the indirect block is allocated first.\<close>

lemma bmap_get_sub_create:
  assumes "sfs_ok f s" and "idx < 1024"
    and "ent0 \<noteq> 0 \<Longrightarrow> ent0 \<in> used_blocks f s \<and> ind_word ent0 idx s = 0"
    and "(if ent0 = 0 then 2 else 1) \<le> card (free_blocks f s)"
  obtains ent b t where "sfs_bmap_get_sub_nolock V f ent0 idx True s = Some (0, ent, b, t)" and "fs_to f s t"
    and "sins (os_data t) = sins (os_data s)" and "b \<in> free_blocks f s" and "ent \<noteq> b"
    and "if ent0 = 0 then ent \<in> free_blocks f s else ent = ent0" and "free_blocks f t = free_blocks f s - {b, ent}"
    and "\<And>j. j < 1024 \<Longrightarrow> ind_word ent j t = (if j = idx then b else if ent0 = 0 then 0 else ind_word ent0 j s)"
    and "disk_block b t = replicate 4096 0"
    and "\<And>b'. b' \<in> used_blocks f s \<Longrightarrow> b' \<noteq> ent0 \<Longrightarrow> disk_block b' t = disk_block b' s"
proof (cases "ent0 = 0")
  case False
  then have e: "ent0 \<in> used_blocks f s" "ind_word ent0 idx s = 0" using assms(3) by auto
  obtain m where m: "sfs_rbuf V f 4 ent0 (4 * idx) s = Some (0, take 4 (drop (4 * idx) (disk_block ent0 s)), with_mem m s)"
    "fs_to f s (with_mem m s)" "free_blocks f (with_mem m s) = free_blocks f s"
    "\<And>b. b < sfs_blocks f s \<Longrightarrow> disk_block b (with_mem m s) = disk_block b s"
    using word_at [OF assms(1) e(1) assms(2), of V] by metis
  let ?s = "with_mem m s"
  have u: "used_blocks f ?s = used_blocks f s" using m(3) by (simp add: used_blocks_def)
  have ne: "free_blocks f ?s \<noteq> {}" using assms(4) False m(3) by auto
  obtain b s1 t where b: "sfs_block_alloc V f ?s = Some (0, Some b, s1)" "sfs_wbuf V f (le_bytes 4 b) ent0 (4 * idx) s1 = Some (0, t)"
    "fs_to f ?s t" "sins (os_data t) = sins (os_data ?s)" "b \<in> free_blocks f ?s" "free_blocks f t = free_blocks f ?s - {b}"
    "\<And>j. j < 1024 \<Longrightarrow> ind_word ent0 j t = (if j = idx then b else ind_word ent0 j ?s)" "disk_block b t = replicate 4096 0"
    "\<And>b'. b' \<in> used_blocks f ?s \<Longrightarrow> b' \<noteq> ent0 \<Longrightarrow> disk_block b' t = disk_block b' ?s"
    using sub_store [OF fs_toD(1) [OF m(2)] _ assms(2) ne, of ent0 V] e(1) u by metis
  have r: "sfs_bmap_get_sub_nolock V f ent0 idx True s = Some (0, ent0, b, t)"
    using m(1) b(1,2) assms(2) False e(2) unfolding ind_word_def
    by (simp add: sfs_bmap_get_sub_nolock_def SFS_BLK_NENTRY_def SFS_BLKSIZE_def Let_def mult.commute)
  have en: "ent0 \<noteq> b" "ent0 \<notin> free_blocks f s" using e(1) b(5) m(3) by (auto simp: used_blocks_def)
  have el: "ent0 < sfs_blocks f s" using used_blockD [OF e(1)] by blast
  show thesis
  proof (rule that [OF r fs_to_trans [OF m(2) b(3)]])
    show "free_blocks f t = free_blocks f s - {b, ent0}" using b(6) m(3) en by auto
    show "ind_word ent0 j t = (if j = idx then b else if ent0 = 0 then 0 else ind_word ent0 j s)" if "j < 1024" for j
      using b(7) [OF that] False ind_word_cong [OF m(4) [OF el]] by simp
    show "disk_block b' t = disk_block b' s" if "b' \<in> used_blocks f s" "b' \<noteq> ent0" for b'
      using b(9) [of b'] that u m(4) [of b'] used_blockD [OF that(1)] by simp
  qed (use b m(3) en False in auto)
next
  case True
  have c2: "2 \<le> card (free_blocks f s)" using assms(4) True by simp
  then have ne: "free_blocks f s \<noteq> {}" by auto
  obtain e s1 where a: "sfs_block_alloc V f s = Some (0, Some e, s1)" "fs_to f s s1" "sins (os_data s1) = sins (os_data s)"
    "e \<in> free_blocks f s" "0 < e" "e < sfs_blocks f s" "free_blocks f s1 = free_blocks f s - {e}" "e \<in> used_blocks f s1"
    "used_blocks f s \<subseteq> used_blocks f s1" "disk_block e s1 = replicate 4096 0"
    "\<And>b'. b' < sfs_blocks f s \<Longrightarrow> b' \<noteq> e \<Longrightarrow> disk_block b' s1 = disk_block b' s" "sfs_blocks f s1 = sfs_blocks f s" "sfs_ok f s1"
    using alloc_block [OF assms(1) ne, of V] by metis
  have "card (free_blocks f s1) = card (free_blocks f s) - 1" unfolding a(7) by (rule card_Diff_singleton [OF a(4)])
  then have ne1: "free_blocks f s1 \<noteq> {}" using c2 by auto
  obtain b s2 t where b: "sfs_block_alloc V f s1 = Some (0, Some b, s2)" "sfs_wbuf V f (le_bytes 4 b) e (4 * idx) s2 = Some (0, t)"
    "fs_to f s1 t" "sins (os_data t) = sins (os_data s1)" "b \<in> free_blocks f s1" "free_blocks f t = free_blocks f s1 - {b}"
    "\<And>j. j < 1024 \<Longrightarrow> ind_word e j t = (if j = idx then b else ind_word e j s1)" "disk_block b t = replicate 4096 0"
    "\<And>b'. b' \<in> used_blocks f s1 \<Longrightarrow> b' \<noteq> e \<Longrightarrow> disk_block b' t = disk_block b' s1"
    using sub_store [OF a(13,8) assms(2) ne1, of V] by metis
  have r: "sfs_bmap_get_sub_nolock V f ent0 idx True s = Some (0, e, b, t)"
    using a(1) b(1,2) assms(2) True
    by (simp add: sfs_bmap_get_sub_nolock_def SFS_BLK_NENTRY_def SFS_BLKSIZE_def Let_def mult.commute)
  show thesis
  proof (rule that [OF r fs_to_trans [OF a(2) b(3)]])
    show "sins (os_data t) = sins (os_data s)" using b(4) a(3) by simp
    show "b \<in> free_blocks f s" "e \<noteq> b" using b(5) a(7) by auto
    show "if ent0 = 0 then e \<in> free_blocks f s else e = ent0" using True a(4) by simp
    show "free_blocks f t = free_blocks f s - {b, e}" using b(6) a(7) by auto
    show "ind_word e j t = (if j = idx then b else if ent0 = 0 then 0 else ind_word ent0 j s)" if "j < 1024" for j
      using b(7) [OF that] True ind_word_zero [OF a(10)] by simp
    show "disk_block b t = replicate 4096 0" by (rule b(8))
    show "disk_block b' t = disk_block b' s" if "b' \<in> used_blocks f s" "b' \<noteq> ent0" for b'
    proof -
      have "b' \<noteq> e" "b' < sfs_blocks f s" "b' \<in> used_blocks f s1"
        using that a(9) free_not_used [OF a(4) that(1)] used_blockD [OF that(1)] by auto
      then show ?thesis using b(9) a(11) by simp
    qed
  qed
qed

section \<open>Loading a block of a file\<close>

lemma file_okD:
  assumes "file_ok f n s"
  shows "length (di_direct (get_din n s)) = 12" "di_blocks (get_din n s) \<le> MAX_BLOCKS"
    "\<And>i. i < MAX_BLOCKS \<Longrightarrow> fmap n s i \<noteq> 0 \<longleftrightarrow> i < di_blocks (get_din n s)"
    "\<And>i. i < di_blocks (get_din n s) \<Longrightarrow> fmap n s i \<in> used_blocks f s"
    "inj_on (fmap n s) {..<di_blocks (get_din n s)}"
    "di_indirect (get_din n s) \<noteq> 0 \<Longrightarrow> di_indirect (get_din n s) \<in> used_blocks f s"
    "\<And>i. i < di_blocks (get_din n s) \<Longrightarrow> fmap n s i \<noteq> di_indirect (get_din n s)"
proof -
  show "fmap n s i \<noteq> di_indirect (get_din n s)" if "i < di_blocks (get_din n s)" for i
    using assms that by (cases "di_indirect (get_din n s) = 0") (auto simp: file_ok_def)
qed (use assms in \<open>simp_all add: file_ok_def\<close>)

text \<open>A file whose inode and blocks did not change.\<close>

lemma file_ok_keep:
  assumes "file_ok f n s" and "get_din n t = get_din n s" and "used_blocks f s \<subseteq> used_blocks f t"
    and "di_indirect (get_din n s) \<noteq> 0 \<Longrightarrow> disk_block (di_indirect (get_din n s)) t = disk_block (di_indirect (get_din n s)) s"
  shows "file_ok f n t" "fmap n t = fmap n s"
proof -
  show fm: "fmap n t = fmap n s"
    using assms(2,4) by (auto simp: fun_eq_iff fmap_def intro: ind_word_cong)
  show "file_ok f n t" using assms(1,3) unfolding file_ok_def fm assms(2) by blast
qed

lemma file_ok_extend:
  assumes "file_ok f n s" and "i = di_blocks (get_din n s)" and "i < MAX_BLOCKS"
    and "length (di_direct (get_din n t)) = 12" and "di_blocks (get_din n t) = i + 1"
    and "\<And>j. j < MAX_BLOCKS \<Longrightarrow> fmap n t j = (if j = i then b else fmap n s j)"
    and "b \<in> used_blocks f t" "b \<notin> used_blocks f s" and "used_blocks f s \<subseteq> used_blocks f t"
    and "di_indirect (get_din n t) \<noteq> b"
    and "di_indirect (get_din n t) = di_indirect (get_din n s)
      \<or> di_indirect (get_din n t) \<in> used_blocks f t \<and> di_indirect (get_din n t) \<notin> used_blocks f s"
  shows "file_ok f n t"
proof -
  note d = file_okD [OF assms(1)]
  have old: "fmap n t j = fmap n s j" "fmap n t j \<in> used_blocks f s" if "j < i" for j
  proof -
    show "fmap n t j = fmap n s j" using assms(6) [of j] that assms(3) by simp
    then show "fmap n t j \<in> used_blocks f s" using d(4) that assms(2) by simp
  qed
  have new: "fmap n t i = b" using assms(6) [of i] assms(3) by simp
  have b0: "b \<noteq> 0" using used_blockD [OF assms(7)] by simp
  have inj: "inj_on (fmap n t) {..<i + 1}"
  proof (rule inj_onI)
    fix j k assume jk: "j \<in> {..<i + 1}" "k \<in> {..<i + 1}" "fmap n t j = fmap n t k"
    show "j = k"
    proof (cases "j = i \<or> k = i")
      case True
      then show ?thesis using jk new old(2) [of j] old(2) [of k] assms(8) by (cases "j = i"; cases "k = i") auto
    next
      case False
      then show ?thesis using jk old(1) [of j] old(1) [of k] d(5) assms(2) by (auto dest: inj_onD)
    qed
  qed
  have nz: "fmap n t j \<noteq> 0 \<longleftrightarrow> j < i + 1" if "j < MAX_BLOCKS" for j
    using assms(6) [OF that] d(3) [OF that] b0 assms(2) by auto
  have us: "fmap n t j \<in> used_blocks f t" if "j < i + 1" for j
    using that new old(2) [of j] assms(7,9) by (cases "j = i") auto
  have ind: "fmap n t j \<noteq> di_indirect (get_din n t)" if "j < i + 1" for j
  proof (cases "j = i")
    case False
    then have j: "j < i" using that by simp
    show ?thesis using assms(11)
    proof
      assume "di_indirect (get_din n t) = di_indirect (get_din n s)"
      then show ?thesis using old(1) [OF j] d(7) [of j] j assms(2) by simp
    next
      assume "di_indirect (get_din n t) \<in> used_blocks f t \<and> di_indirect (get_din n t) \<notin> used_blocks f s"
      then show ?thesis using old(2) [OF j] by metis
    qed
  qed (use new assms(10) in simp)
  have "di_indirect (get_din n t) \<in> used_blocks f t" if "di_indirect (get_din n t) \<noteq> 0"
    using assms(11) d(6) that assms(9) by auto
  then show ?thesis
    unfolding file_ok_def using assms(3,4,5) inj nz us ind by simp
qed

lemma u32_blocks [simp]: "i < MAX_BLOCKS \<Longrightarrow> u32 (Suc i) = Suc i"
  by (simp add: MAX_BLOCKS_eq)

lemma bmap_load_old:
  assumes "sfs_ok f s" and "file_ok f n s" and "i < di_blocks (get_din n s)"
  obtains m where "sfs_bmap_load_nolock V f n i s = Some (0, fmap n s i, with_mem m s)"
    and "fs_to f s (with_mem m s)" and "free_blocks f (with_mem m s) = free_blocks f s"
    and "\<And>b. b < sfs_blocks f s \<Longrightarrow> disk_block b (with_mem m s) = disk_block b s"
    and "same_off (scratch f s) (os_mem s) m"
proof -
  note d = file_okD [OF assms(2)]
  have im: "i < MAX_BLOCKS" using assms(3) d(2) by simp
  have u: "fmap n s i \<in> used_blocks f s" "fmap n s i \<noteq> 0" using d(4) [OF assms(3)] used_blockD by auto
  show thesis
  proof (cases "i < 12")
    case True
    then have "sfs_bmap_load_nolock V f n i s = Some (0, fmap n s i, s)"
      using assms(3) u used_inuse [OF assms(1) u(1)]
      by (simp add: sfs_bmap_load_nolock_def sfs_bmap_get_nolock_def SFS_NDIRECT_def fmap_def)
    then show thesis using that [of "os_mem s"] fs_to_refl [OF assms(1)] by simp
  next
    case False
    let ?e = "di_indirect (get_din n s)"
    have e: "?e \<noteq> 0" "fmap n s i = ind_word ?e (i - 12) s" using u(2) False by (auto simp: fmap_def split: if_splits)
    have ix: "i - 12 < 1024" using im by (simp add: MAX_BLOCKS_eq)
    obtain m where m: "sfs_bmap_get_sub_nolock V f ?e (i - 12) False s = Some (0, ?e, ind_word ?e (i - 12) s, with_mem m s)"
      "fs_to f s (with_mem m s)" "free_blocks f (with_mem m s) = free_blocks f s"
      "\<And>b. b < sfs_blocks f s \<Longrightarrow> disk_block b (with_mem m s) = disk_block b s"
      "same_off (scratch f s) (os_mem s) m"
      using bmap_get_sub_old [OF assms(1) d(6) [OF e(1)] ix, of False V] by metis
    have "used_blocks f (with_mem m s) = used_blocks f s" using m(3) by (simp add: used_blocks_def)
    then have iu: "sfs_block_inuse f (fmap n s i) (with_mem m s) = Some True" using used_inuse [OF fs_toD(1) [OF m(2)]] u(1) by simp
    have gd: "get_din k (with_mem m s) = get_din k s" for k by (simp add: get_din_def get_sin_def)
    have "sfs_bmap_load_nolock V f n i s = Some (0, fmap n s i, with_mem m s)"
      using assms(3) u(2) m(1) iu e ix False gd
      by (simp add: sfs_bmap_load_nolock_def sfs_bmap_get_nolock_def SFS_NDIRECT_def SFS_BLK_NENTRY_def SFS_BLKSIZE_def)
    then show thesis using m(2-5) by (rule that)
  qed
qed

text \<open>\<open>grows f n s b t\<close>: from \<open>s\<close> to \<open>t\<close> the zeroed block \<open>b\<close>, free before, was appended to the file \<open>n\<close>, for which
  at most one more block was taken; no block in use changed except the indirect block of the file, and no other inode.\<close>

definition grows :: "nat \<Rightarrow> nat \<Rightarrow> ucore \<Rightarrow> nat \<Rightarrow> ucore \<Rightarrow> bool" where
  "grows f n s b t \<longleftrightarrow> fs_to f s t \<and> file_ok f n t
     \<and> di_blocks (get_din n t) = di_blocks (get_din n s) + 1
     \<and> (\<forall>j<MAX_BLOCKS. fmap n t j = (if j = di_blocks (get_din n s) then b else fmap n s j))
     \<and> b \<in> free_blocks f s \<and> free_blocks f t \<subseteq> free_blocks f s \<and> card (free_blocks f s) \<le> card (free_blocks f t) + 2
     \<and> (di_indirect (get_din n s) \<noteq> 0 \<or> di_blocks (get_din n t) \<le> 12 \<longrightarrow> card (free_blocks f s) \<le> card (free_blocks f t) + 1)
     \<and> (di_indirect (get_din n s) \<noteq> 0 \<longrightarrow> di_indirect (get_din n t) \<noteq> 0)
     \<and> (di_indirect (get_din n t) = di_indirect (get_din n s) \<or> di_indirect (get_din n t) \<in> free_blocks f s)
     \<and> disk_block b t = replicate 4096 0
     \<and> (\<forall>b'\<in>used_blocks f s. b' \<noteq> di_indirect (get_din n s) \<longrightarrow> disk_block b' t = disk_block b' s)
     \<and> di_size (get_din n t) = di_size (get_din n s) \<and> di_type (get_din n t) = di_type (get_din n s)
     \<and> di_nlinks (get_din n t) = di_nlinks (get_din n s) \<and> sin_ino (get_sin n t) = sin_ino (get_sin n s)
     \<and> (\<forall>k. k \<noteq> n \<longrightarrow> get_sin k t = get_sin k s)"

lemma fmap_direct: "i < 12 \<Longrightarrow> fmap n s i = di_direct (get_din n s) ! i"
  by (simp add: fmap_def)

lemma bmap_load_new_direct:
  assumes "sfs_ok f s" and "file_ok f n s" and "i = di_blocks (get_din n s)" and "i < 12" and "free_blocks f s \<noteq> {}"
  obtains b t where "sfs_bmap_load_nolock V f n i s = Some (0, b, t)" and "grows f n s b t"
proof -
  note d = file_okD [OF assms(2)]
  have im: "i < MAX_BLOCKS" using assms(4) by (simp add: MAX_BLOCKS_eq)
  have z: "di_direct (get_din n s) ! i = 0" using d(3) [OF im] assms(3,4) by (simp add: fmap_direct)
  obtain b s1 where a: "sfs_block_alloc V f s = Some (0, Some b, s1)" "fs_to f s s1" "sins (os_data s1) = sins (os_data s)"
    "b \<in> free_blocks f s" "0 < b" "b < sfs_blocks f s" "free_blocks f s1 = free_blocks f s - {b}" "b \<in> used_blocks f s1"
    "used_blocks f s \<subseteq> used_blocks f s1" "disk_block b s1 = replicate 4096 0"
    "\<And>b'. b' < sfs_blocks f s \<Longrightarrow> b' \<noteq> b \<Longrightarrow> disk_block b' s1 = disk_block b' s" "sfs_blocks f s1 = sfs_blocks f s" "sfs_ok f s1"
    using alloc_block [OF assms(1,5), of V] by metis
  have g1: "get_sin k s1 = get_sin k s" "get_din k s1 = get_din k s" for k using get_sin_cong [OF a(3)] by (simp_all add: get_din_def)
  define s2 where "s2 = set_dirty n (upd_din n (\<lambda>d. d\<lparr>di_direct := (di_direct d)[i := b]\<rparr>) s1)"
  define t where "t = upd_din n (\<lambda>d. d\<lparr>di_blocks := u32 (di_blocks d + 1)\<rparr>) s2"
  have to2: "fs_to f s1 s2" unfolding s2_def by (rule fs_to_trans [OF fs_to_upd_din(1) [OF a(13)] fs_to_upd_din(2)]) (rule fs_toD [OF fs_to_upd_din(1) [OF a(13)]])
  have to: "fs_to f s t" unfolding t_def by (rule fs_to_trans [OF a(2) fs_to_trans [OF to2 fs_to_upd_din(1) [OF fs_toD(1) [OF to2]]]])
  have iu: "sfs_block_inuse f b s2 = Some True"
    by (rule used_inuse [OF fs_toD(1) [OF to2]]) (use a(8) in \<open>simp add: s2_def used_blocks_def\<close>)
  have b0: "b \<noteq> 0" using a(5) by simp
  have run: "sfs_bmap_load_nolock V f n i s = Some (0, b, t)"
    using assms(3,4) z a(1) iu b0
    by (simp add: sfs_bmap_load_nolock_def sfs_bmap_get_nolock_def SFS_NDIRECT_def Let_def s2_def t_def)
  have gd: "get_din n t = (get_din n s)\<lparr>di_direct := (di_direct (get_din n s))[i := b], di_blocks := i + 1\<rparr>"
    using g1 im assms(3) by (simp add: t_def s2_def)
  have fr: "free_blocks f t = free_blocks f s - {b}" by (simp add: t_def s2_def a(7))
  have ub: "used_blocks f t = used_blocks f s1" by (simp add: used_blocks_def t_def s2_def)
  have dk: "disk_block x t = disk_block x s1" for x by (simp add: t_def s2_def)
  have bu: "b \<notin> used_blocks f s" using a(4) by (simp add: used_blocks_def)
  have keep: "disk_block b' t = disk_block b' s" if "b' \<in> used_blocks f s" for b'
  proof -
    have "b' \<noteq> b" using that bu by metis
    then show ?thesis unfolding dk using a(11) used_blockD [OF that] by simp
  qed
  have indk: "di_indirect (get_din n s) \<noteq> 0 \<Longrightarrow> disk_block (di_indirect (get_din n s)) t = disk_block (di_indirect (get_din n s)) s"
    by (rule keep [OF d(6)])
  have fm: "fmap n t j = (if j = i then b else fmap n s j)" if "j < MAX_BLOCKS" for j
    using indk d(1) assms(4) by (auto simp: fmap_def gd intro: ind_word_cong)
  have ok: "file_ok f n t"
    by (rule file_ok_extend [OF assms(2,3) im _ _ fm]) (use gd d(1,6) a(8,9) bu b0 ub in auto)
  have "card (free_blocks f t) = card (free_blocks f s) - 1" unfolding fr by (rule card_Diff_singleton [OF a(4)])
  moreover have gs: "get_sin k t = get_sin k s" if "k \<noteq> n" for k
    using that g1 by (simp add: t_def s2_def upd_din_def set_dirty_def)
  moreover have "sin_ino (get_sin n t) = sin_ino (get_sin n s)" using g1 by (simp add: t_def s2_def upd_din_def set_dirty_def)
  ultimately have "grows f n s b t"
    unfolding grows_def using to ok fm fr a(4,10) dk gd assms(3) keep by auto
  with run show thesis by (rule that)
qed

lemma bmap_load_new_indirect:
  assumes "sfs_ok f s" and "file_ok f n s" and "i = di_blocks (get_din n s)" and "12 \<le> i" "i < MAX_BLOCKS"
    and "(if di_indirect (get_din n s) = 0 then 2 else 1) \<le> card (free_blocks f s)"
  obtains b t where "sfs_bmap_load_nolock V f n i s = Some (0, b, t)" and "grows f n s b t"
proof -
  note d = file_okD [OF assms(2)]
  let ?e = "di_indirect (get_din n s)"
  have ix: "i - 12 < 1024" using assms(5) by (simp add: MAX_BLOCKS_eq)
  have z: "ind_word ?e (i - 12) s = 0" if "?e \<noteq> 0" using d(3) [OF assms(5)] assms(3,4) that by (simp add: fmap_def)
  obtain e b s1 where a: "sfs_bmap_get_sub_nolock V f ?e (i - 12) True s = Some (0, e, b, s1)" "fs_to f s s1"
    "sins (os_data s1) = sins (os_data s)" "b \<in> free_blocks f s" "e \<noteq> b"
    "if ?e = 0 then e \<in> free_blocks f s else e = ?e" "free_blocks f s1 = free_blocks f s - {b, e}"
    "\<And>j. j < 1024 \<Longrightarrow> ind_word e j s1 = (if j = i - 12 then b else if ?e = 0 then 0 else ind_word ?e j s)"
    "disk_block b s1 = replicate 4096 0"
    "\<And>b'. b' \<in> used_blocks f s \<Longrightarrow> b' \<noteq> ?e \<Longrightarrow> disk_block b' s1 = disk_block b' s"
    by (rule bmap_get_sub_create [OF assms(1) ix, of ?e V]) (use d(6) z assms(6) in auto)
  have g1: "get_sin k s1 = get_sin k s" "get_din k s1 = get_din k s" for k using get_sin_cong [OF a(3)] by (simp_all add: get_din_def)
  have ok1: "sfs_ok f s1" by (rule fs_toD [OF a(2)])
  have bl: "sfs_blocks f s1 = sfs_blocks f s" by (rule same_geoD [OF fs_toD(2) [OF a(2)]])
  have b0: "b \<noteq> 0" "b < sfs_blocks f s" using a(4) sfs_okD(3) [OF assms(1)] by auto
  have bu: "b \<in> used_blocks f s1" "b \<notin> used_blocks f s" using a(4,7) b0 bl by (auto simp: used_blocks_def)
  have eu: "e \<in> used_blocks f s1" "e \<noteq> 0"
  proof -
    have "0 < e \<and> e < sfs_blocks f s" using a(6) d(6) sfs_okD(3) [OF assms(1)] used_blockD [of e f s] by (auto split: if_splits)
    then show "e \<in> used_blocks f s1" "e \<noteq> 0" using a(7) bl by (auto simp: used_blocks_def)
  qed
  have mono: "used_blocks f s \<subseteq> used_blocks f s1" using a(7) bl by (auto simp: used_blocks_def)
  define s2 where "s2 = (if e \<noteq> ?e then set_dirty n (upd_din n (\<lambda>d. d\<lparr>di_indirect := e\<rparr>) s1) else s1)"
  define t where "t = upd_din n (\<lambda>d. d\<lparr>di_blocks := u32 (di_blocks d + 1)\<rparr>) s2"
  have to2: "fs_to f s1 s2"
    using fs_to_trans [OF fs_to_upd_din(1) [OF ok1] fs_to_upd_din(2) [OF fs_toD(1) [OF fs_to_upd_din(1) [OF ok1]]]] fs_to_refl [OF ok1]
    by (simp add: s2_def)
  have to: "fs_to f s t" unfolding t_def by (rule fs_to_trans [OF a(2) fs_to_trans [OF to2 fs_to_upd_din(1) [OF fs_toD(1) [OF to2]]]])
  have us2: "used_blocks f s2 = used_blocks f s1" by (simp add: used_blocks_def s2_def)
  have iu: "sfs_block_inuse f b s2 = Some True" by (rule used_inuse [OF fs_toD(1) [OF to2]]) (use bu us2 in simp)
  have run: "sfs_bmap_load_nolock V f n i s = Some (0, b, t)"
  proof (cases "e = ?e")
    case True
    then have "s2 = s1" by (simp add: s2_def)
    then show ?thesis using True assms(3,4) ix a(1) iu b0 g1
      by (simp add: sfs_bmap_load_nolock_def sfs_bmap_get_nolock_def SFS_NDIRECT_def SFS_BLK_NENTRY_def SFS_BLKSIZE_def Let_def t_def)
  next
    case False
    then have "?e = 0" using a(6) by (auto split: if_splits)
    then show ?thesis using False assms(3,4) ix a(1) iu b0 g1 eu
      by (simp add: sfs_bmap_load_nolock_def sfs_bmap_get_nolock_def SFS_NDIRECT_def SFS_BLK_NENTRY_def SFS_BLKSIZE_def Let_def
          s2_def [symmetric] t_def) (simp add: s2_def)
  qed
  have gd: "get_din n t = (get_din n s)\<lparr>di_indirect := e, di_blocks := i + 1\<rparr>"
    using g1 assms(3,5) by (auto simp: t_def s2_def)
  have fr: "free_blocks f t = free_blocks f s - {b, e}" by (simp add: t_def s2_def a(7))
  have ub: "used_blocks f t = used_blocks f s1" by (simp add: used_blocks_def t_def s2_def)
  have dk: "disk_block x t = disk_block x s1" for x by (simp add: t_def s2_def)
  have fm: "fmap n t j = (if j = i then b else fmap n s j)" if j: "j < MAX_BLOCKS" for j
  proof (cases "j < 12")
    case True
    then show ?thesis using assms(4) by (auto simp: fmap_def gd)
  next
    case False
    then have "j - 12 < 1024" using j by (simp add: MAX_BLOCKS_eq)
    then have "ind_word e (j - 12) t = (if j - 12 = i - 12 then b else if ?e = 0 then 0 else ind_word ?e (j - 12) s)"
      using a(8) ind_word_cong [OF dk, of e] by simp
    then show ?thesis using False assms(4) eu(2) by (auto simp: fmap_def gd)
  qed
  have ok: "file_ok f n t"
  proof (rule file_ok_extend [OF assms(2,3,5) _ _ fm])
    show "di_indirect (get_din n t) = di_indirect (get_din n s)
        \<or> di_indirect (get_din n t) \<in> used_blocks f t \<and> di_indirect (get_din n t) \<notin> used_blocks f s"
      using a(6) eu(1) ub gd by (auto simp: used_blocks_def split: if_splits)
  qed (use gd d(1) bu mono ub a(5) in auto)
  have fin: "finite (free_blocks f s)" by (simp add: free_blocks_def)
  have c: "card (free_blocks f s) \<le> card (free_blocks f t) + 2" "?e \<noteq> 0 \<Longrightarrow> card (free_blocks f s) \<le> card (free_blocks f t) + 1"
  proof -
    have "card (free_blocks f s) - card {b, e} \<le> card (free_blocks f t)"
      unfolding fr by (rule diff_card_le_card_Diff) simp
    moreover have "card {b, e} \<le> 2" by (simp add: card_insert_if)
    ultimately show "card (free_blocks f s) \<le> card (free_blocks f t) + 2" by linarith
    assume "?e \<noteq> 0"
    then have "e \<notin> free_blocks f s" using a(6) d(6) by (auto simp: used_blocks_def)
    then have "free_blocks f t = free_blocks f s - {b}" using fr by auto
    then have "card (free_blocks f t) = card (free_blocks f s) - 1" using card_Diff_singleton [OF a(4)] by simp
    then show "card (free_blocks f s) \<le> card (free_blocks f t) + 1" by linarith
  qed
  have gs: "get_sin k t = get_sin k s" if "k \<noteq> n" for k
    using that g1 by (simp add: t_def s2_def upd_din_def set_dirty_def)
  have ino: "sin_ino (get_sin n t) = sin_ino (get_sin n s)" using g1 by (simp add: t_def s2_def upd_din_def set_dirty_def)
  have "e = ?e \<or> e \<in> free_blocks f s" using a(6) by (auto split: if_splits)
  then have "grows f n s b t"
    unfolding grows_def using to ok fm fr c a(4,9,10) dk gd gs ino assms(3,4) eu(2) by auto
  with run show thesis by (rule that)
qed

text \<open>\<open>avail f n s\<close> blocks can be taken while the file \<open>n\<close> grows, one of them kept for its indirect block.\<close>

definition avail :: "nat \<Rightarrow> nat \<Rightarrow> ucore \<Rightarrow> nat" where
  "avail f n s = card (free_blocks f s) + (if di_indirect (get_din n s) \<noteq> 0 then 1 else 0)"

lemma bmap_load_new:
  assumes "sfs_ok f s" and "file_ok f n s" and "i = di_blocks (get_din n s)" and "i < MAX_BLOCKS" and "2 \<le> avail f n s"
  obtains b t where "sfs_bmap_load_nolock V f n i s = Some (0, b, t)" and "grows f n s b t"
proof (cases "i < 12")
  case True
  have "free_blocks f s \<noteq> {}" using assms(5) by (auto simp: avail_def split: if_splits)
  then show thesis using bmap_load_new_direct [OF assms(1-3) True, of V] that by metis
next
  case False
  have "(if di_indirect (get_din n s) = 0 then 2 else 1) \<le> card (free_blocks f s)"
    using assms(5) by (simp add: avail_def split: if_splits)
  then show thesis using bmap_load_new_indirect [OF assms(1-3) _ assms(4), of V] False that by (metis not_less)
qed

lemma file_ok_indirect: "file_ok f n s \<Longrightarrow> 12 < di_blocks (get_din n s) \<Longrightarrow> di_indirect (get_din n s) \<noteq> 0"
  using file_okD(2) [of f n s] file_okD(3) [of f n s 12] by (auto simp: fmap_def split: if_splits)

lemma grows_avail: "grows f n s b t \<Longrightarrow> avail f n s \<le> avail f n t + 1"
  using file_ok_indirect [of f n t] by (auto simp: grows_def avail_def)

end
