(* ===== verification/Sfs_Rw.thy ===== *)
theory Sfs_Rw
  imports Sfs_Map
begin

text \<open>
  Reading and writing a file against its contents as one sequence of bytes.  \<open>file_byte n s p\<close> is the byte at offset
  \<open>p\<close>, found through the block map; \<open>wrote\<close> describes a state in which some bytes of
  the file were replaced or appended and everything else kept.
\<close>

definition file_byte :: "nat \<Rightarrow> ucore \<Rightarrow> nat \<Rightarrow> 8 word" where
  "file_byte n s p = disk_block (fmap n s (p div 4096)) s ! (p mod 4096)"

definition file_data :: "nat \<Rightarrow> ucore \<Rightarrow> nat \<Rightarrow> nat \<Rightarrow> 8 word list" where
  "file_data n s off len = map (file_byte n s) [off..<off + len]"

lemma length_file_data [simp]: "length (file_data n s off len) = len"
  by (simp add: file_data_def)

lemma file_data_append: "file_data n s off (a + b) = file_data n s off a @ file_data n s (off + a) b"
proof -
  have "[off..<off + (a + b)] = [off..<off + a] @ [off + a..<off + a + b]"
    using upt_add_eq_append [of off "off + a" b] by (simp add: add.assoc)
  then show ?thesis by (simp add: file_data_def)
qed

lemma file_data_block:
  assumes "o1 + len \<le> 4096"
  shows "file_data n s (4096 * i + o1) len = take len (drop o1 (disk_block (fmap n s i) s))"
proof (rule nth_equalityI)
  show "length (file_data n s (4096 * i + o1) len) = length (take len (drop o1 (disk_block (fmap n s i) s)))"
    using assms by simp
  fix j assume "j < length (file_data n s (4096 * i + o1) len)"
  then have j: "j < len" by simp
  have "4096 * i + o1 + j = (o1 + j) + i * 4096" by simp
  then have "(4096 * i + o1 + j) div 4096 = i" "(4096 * i + o1 + j) mod 4096 = o1 + j"
    using j assms by (simp_all only: div_mult_self1 mod_mult_self1) simp_all
  then show "file_data n s (4096 * i + o1) len ! j = take len (drop o1 (disk_block (fmap n s i) s)) ! j"
    using j assms by (simp add: file_data_def file_byte_def)
qed

section \<open>User buffers\<close>

text \<open>The bytes at a user's buffer change: nothing of the file system does.\<close>

lemma user_buffer:
  assumes "sfs_ok f s" and "same_off (scratch f s \<union> U) (os_mem s) m" and "U \<inter> fs_mem f s = {}"
  shows "sfs_ok f (with_mem m s)" "free_blocks f (with_mem m s) = free_blocks f s"
    "used_blocks f (with_mem m s) = used_blocks f s"
    "\<And>b. b < sfs_blocks f s \<Longrightarrow> disk_block b (with_mem m s) = disk_block b s"
proof -
  note g = sfs_okD(1) [OF assms(1)]
  have mr: "map_region f s \<inter> (scratch f s \<union> U) = {}" using map_scratch [OF g] assms(3) by (auto simp: fs_mem_def)
  show "sfs_ok f (with_mem m s)" by (rule sfs_ok_with_mem [OF assms(1,2) mr])
  show fr: "free_blocks f (with_mem m s) = free_blocks f s" by (rule free_blocks_cong [OF assms(2) mr])
  show "used_blocks f (with_mem m s) = used_blocks f s" using fr by (simp add: used_blocks_def)
  show "disk_block b (with_mem m s) = disk_block b s" if "b < sfs_blocks f s" for b
  proof -
    have "block_region s b \<inter> (scratch f s \<union> U) = {}"
      using scratch_disk [OF g] block_region_disk [OF g that] assms(3) by (auto simp: fs_mem_def)
    then show ?thesis unfolding disk_block_def block_region_def by (simp add: same_off_read [OF assms(2)])
  qed
qed

lemma get_din_with [simp]: "get_din n (with_mem m s) = get_din n s" "get_sin n (with_mem m s) = get_sin n s"
  by (simp_all add: get_din_def get_sin_def)

text \<open>So the file reads the same.\<close>

lemma file_keep:
  assumes "file_ok f n s" and "get_din n t = get_din n s" and "used_blocks f s \<subseteq> used_blocks f t"
    and "\<And>b. b \<in> used_blocks f s \<Longrightarrow> disk_block b t = disk_block b s"
  shows "file_ok f n t" "fmap n t = fmap n s" "\<And>p. p < 4096 * di_blocks (get_din n s) \<Longrightarrow> file_byte n t p = file_byte n s p"
proof -
  note d = file_okD [OF assms(1)]
  show "file_ok f n t" and fm: "fmap n t = fmap n s"
    using file_ok_keep [OF assms(1-3)] assms(4) d(6) by blast+
  show "file_byte n t p = file_byte n s p" if "p < 4096 * di_blocks (get_din n s)" for p
  proof -
    have "p div 4096 < di_blocks (get_din n s)" using that by (simp add: less_mult_imp_div_less mult.commute)
    then show ?thesis using assms(4) [OF d(4)] fm by (simp add: file_byte_def)
  qed
qed

lemma file_user_buffer:
  assumes "sfs_ok f s" and "file_ok f n s" and "same_off (scratch f s \<union> U) (os_mem s) m" and "U \<inter> fs_mem f s = {}"
  shows "file_ok f n (with_mem m s)" "fmap n (with_mem m s) = fmap n s"
    "\<And>p. p < 4096 * di_blocks (get_din n s) \<Longrightarrow> file_byte n (with_mem m s) p = file_byte n s p"
proof -
  note u = user_buffer [OF assms(1,3,4)]
  have "disk_block b (with_mem m s) = disk_block b s" if "b \<in> used_blocks f s" for b
    using u(4) used_blockD [OF that] by blast
  note k = file_keep [of f n s "with_mem m s", OF assms(2) get_din_with(1) _ this]
  show "file_ok f n (with_mem m s)" "fmap n (with_mem m s) = fmap n s"
    "\<And>p. p < 4096 * di_blocks (get_din n s) \<Longrightarrow> file_byte n (with_mem m s) p = file_byte n s p"
    using k u(3) by auto
qed

lemma file_data_cong:
  assumes "\<And>p. p < k \<Longrightarrow> file_byte n t p = file_byte n s p" and "off + len \<le> k"
  shows "file_data n t off len = file_data n s off len"
  using assms by (auto simp: file_data_def)

section \<open>Reading\<close>

text \<open>\<open>got f n s buf off len m\<close>: from \<open>s\<close> on, \<open>len\<close> bytes of the file were delivered to \<open>buf\<close>; the memory is \<open>m\<close>.\<close>

definition got :: "nat \<Rightarrow> nat \<Rightarrow> ucore \<Rightarrow> nat \<Rightarrow> nat \<Rightarrow> nat \<Rightarrow> Strings.mem \<Rightarrow> bool" where
  "got f n s buf off len m \<longleftrightarrow> same_off (scratch f s \<union> {buf..<buf + len}) (os_mem s) m
     \<and> read_bytes m buf len = file_data n s off len"

lemma got_trans:
  assumes "sfs_ok f s" and "file_ok f n s" and "got f n s buf off a m" and "got f n (with_mem m s) (buf + a) (off + a) b m'"
    and "{buf..<buf + a + b} \<inter> fs_mem f s = {}" and "off + a + b \<le> 4096 * di_blocks (get_din n s)"
  shows "got f n s buf off (a + b) m'"
proof -
  have m: "same_off (scratch f s \<union> {buf..<buf + a}) (os_mem s) m" "read_bytes m buf a = file_data n s off a"
    and m': "same_off (scratch f s \<union> {buf + a..<buf + a + b}) m m'" "read_bytes m' (buf + a) b = file_data n (with_mem m s) (off + a) b"
    using assms(3,4) by (auto simp: got_def)
  have sub: "{buf..<buf + a} \<subseteq> {buf..<buf + a + b}" "{buf + a..<buf + a + b} \<subseteq> {buf..<buf + a + b}" by auto
  have u: "{buf..<buf + a} \<inter> fs_mem f s = {}" using assms(5) sub by blast
  have "file_data n (with_mem m s) (off + a) b = file_data n s (off + a) b"
    by (rule file_data_cong [OF file_user_buffer(3) [OF assms(1,2) m(1) u]]) (use assms(6) in auto)
  moreover have "read_bytes m' buf a = read_bytes m buf a"
  proof (rule same_off_read [OF m'(1)])
    have "{buf..<buf + a} \<inter> scratch f s = {}" using u by (auto simp: fs_mem_def)
    then show "{buf..<buf + a} \<inter> (scratch f s \<union> {buf + a..<buf + a + b}) = {}" by auto
  qed
  ultimately have "read_bytes m' buf (a + b) = file_data n s off (a + b)"
    using m(2) m'(2) by (simp add: read_bytes_append file_data_append)
  moreover have "same_off (scratch f s \<union> {buf..<buf + (a + b)}) (os_mem s) m'"
    by (rule same_off_trans [OF m(1) m'(1)]) (use sub in auto)
  ultimately show ?thesis by (simp add: got_def)
qed

lemma got_none: "got f n s buf off 0 (os_mem s)"
  by (simp add: got_def file_data_def read_bytes_def)

lemma io_part_read:
  assumes "sfs_ok f s" and "file_ok f n s" and "i < di_blocks (get_din n s)" and "o1 < 4096" "o1 + len \<le> 4096"
  obtains m where "io_part V f n False buf i len o1 s = Some (0, with_mem m s)" and "got f n s buf (4096 * i + o1) len m"
proof -
  note d = file_okD [OF assms(2)]
  let ?b = "fmap n s i"
  have b: "?b \<noteq> 0" "?b < sfs_blocks f s" using used_blockD [OF d(4) [OF assms(3)]] by auto
  obtain m1 where m1: "sfs_bmap_load_nolock V f n i s = Some (0, ?b, with_mem m1 s)" "fs_to f s (with_mem m1 s)"
    "disk_block ?b (with_mem m1 s) = disk_block ?b s" "same_off (scratch f s) (os_mem s) m1"
    using bmap_load_old [OF assms(1-3), of V] b(2) by metis
  have ok1: "sfs_ok f (with_mem m1 s)" by (rule fs_toD [OF m1(2)])
  obtain m2 where m2: "sfs_rbuf V f len ?b o1 (with_mem m1 s)
      = Some (0, take len (drop o1 (disk_block ?b (with_mem m1 s))), with_mem m2 (with_mem m1 s))"
    "same_off (scratch f (with_mem m1 s)) (os_mem (with_mem m1 s)) m2"
    by (rule sfs_rbuf_ok [OF ok1, of ?b o1 len V]) (use b assms(4,5) in auto)
  let ?bs = "file_data n s (4096 * i + o1) len"
  have bs: "take len (drop o1 (disk_block ?b (with_mem m1 s))) = ?bs"
    using file_data_block [OF assms(5), of n s i] m1(3) by simp
  define m where "m = write_bytes m2 buf ?bs"
  have "io_part V f n False buf i len o1 s = Some (0, with_mem m s)"
    using m1(1) m2(1) by (simp add: io_part_def sfs_buf_op_def bs m_def)
  moreover have "got f n s buf (4096 * i + o1) len m"
    using m1(4) m2(2) by (auto simp: got_def m_def same_off_def)
  ultimately show thesis by (rule that)
qed

section \<open>The three steps of a transfer\<close>

text \<open>A rule for both directions: \<open>P a t\<close> says that in \<open>t\<close> the first \<open>a\<close> bytes were transferred.\<close>

lemma io_blocks_rule:
  assumes block: "\<And>a t i. P a t \<Longrightarrow> off + a = 4096 * i \<Longrightarrow> a + 4096 \<le> tot \<Longrightarrow>
      \<exists>ino t1 u. sfs_bmap_load_nolock V f n i t = Some (0, ino, t1) \<and> sfs_block_op V f wr (buf + a) ino 1 t1 = Some (0, u) \<and> P (a + 4096) u"
    and "P a t" and "off + a = 4096 * i" and "a + 4096 * k \<le> tot" and "off + tot \<le> 4096 * MAX_BLOCKS"
  shows "\<exists>u. io_blocks V f n wr (buf + a) i a k t = Some (0, a + 4096 * k, u) \<and> P (a + 4096 * k) u"
  using assms(2-5)
proof (induction k arbitrary: a t i)
  case (Suc k)
  obtain ino t1 u where u: "sfs_bmap_load_nolock V f n i t = Some (0, ino, t1)" "sfs_block_op V f wr (buf + a) ino 1 t1 = Some (0, u)"
    "P (a + 4096) u"
    using block [OF Suc.prems(1,2)] Suc.prems(3) by auto
  have "i < MAX_BLOCKS" using Suc.prems by simp
  then have "u32 (i + 1) = i + 1" by simp
  moreover obtain v where "io_blocks V f n wr (buf + (a + 4096)) (i + 1) (a + 4096) k u = Some (0, a + 4096 + 4096 * k, v)"
    "P (a + 4096 + 4096 * k) v"
    using Suc.IH [OF u(3), of "i + 1"] Suc.prems(2-4) by auto
  ultimately show ?case using u(1,2) by (auto simp: SFS_BLKSIZE_def add.assoc)
qed simp

lemma io_steps_rule:
  assumes part: "\<And>a t i o1 len. P a t \<Longrightarrow> off + a = 4096 * i + o1 \<Longrightarrow> o1 < 4096 \<Longrightarrow> o1 + len \<le> 4096 \<Longrightarrow> 0 < len \<Longrightarrow> a + len \<le> tot \<Longrightarrow>
      \<exists>u. io_part V f n wr (buf + a) i len o1 t = Some (0, u) \<and> P (a + len) u"
    and block: "\<And>a t i. P a t \<Longrightarrow> off + a = 4096 * i \<Longrightarrow> a + 4096 \<le> tot \<Longrightarrow>
      \<exists>ino t1 u. sfs_bmap_load_nolock V f n i t = Some (0, ino, t1) \<and> sfs_block_op V f wr (buf + a) ino 1 t1 = Some (0, u) \<and> P (a + 4096) u"
    and "P 0 s" and "0 < tot" and "off + tot \<le> 4096 * MAX_BLOCKS"
  shows "\<exists>u. io_steps V f n wr buf off (off + tot) s = Some (0, tot, u) \<and> P tot u"
proof -
  define q where "q = off div 4096"
  define o1 where "o1 = off mod 4096"
  define e where "e = (off + tot) div 4096"
  define r where "r = (off + tot) mod 4096"
  have off: "off = 4096 * q + o1" "o1 < 4096" by (simp_all add: q_def o1_def)
  have en: "off + tot = 4096 * e + r" "r < 4096" by (simp_all add: e_def r_def)
  have qe: "q \<le> e" by (simp add: q_def e_def div_le_mono)
  have em: "e \<le> MAX_BLOCKS" using en assms(5) by simp
  have u: "u32 q = q" "u32 (e - q) = e - q" using em qe by (simp_all add: MAX_BLOCKS_eq)
  have eb: "(off + tot) div 4096 = e" "off div 4096 = q" "off mod 4096 = o1" by (simp_all add: e_def q_def o1_def)
  let ?len = "if e - q \<noteq> 0 then 4096 - o1 else off + tot - off"
  show ?thesis
  proof (cases "o1 \<noteq> 0 \<and> e = q")
    case True
    obtain t where "io_part V f n wr (buf + 0) q tot o1 s = Some (0, t)" "P (0 + tot) t"
      using part [OF assms(3), of q o1 tot] off en True assms(4) by auto
    then show ?thesis using True u eb by (auto simp: io_steps_def SFS_BLKSIZE_def Let_def)
  next
    case no: False
    define h where "h = (if o1 \<noteq> 0 then 4096 - o1 else 0)"
    define q1 where "q1 = (if o1 \<noteq> 0 then q + 1 else q)"
    have q1: "off + h = 4096 * q1" "q1 \<le> e" using off no qe by (auto simp: h_def q1_def)
    have ht: "h + 4096 * (e - q1) + r = tot"
    proof -
      have "off + (h + 4096 * (e - q1) + r) = 4096 * q1 + 4096 * (e - q1) + r" using q1(1) by simp
      also have "\<dots> = 4096 * e + r" using q1(2) by (simp add: right_diff_distrib')
      finally show ?thesis using en(1) by simp
    qed
    have le: "h \<le> tot" using ht by linarith
    obtain t where t: "o1 \<noteq> 0 \<Longrightarrow> io_part V f n wr buf q (4096 - o1) o1 s = Some (0, t)" "o1 = 0 \<Longrightarrow> t = s" "P h t"
    proof (cases "o1 = 0")
      case False
      then have "4096 - o1 \<le> tot" using le by (simp add: h_def)
      then obtain t where "io_part V f n wr (buf + 0) q (4096 - o1) o1 s = Some (0, t)" "P (0 + (4096 - o1)) t"
        using part [OF assms(3), of q o1 "4096 - o1"] off by auto
      then show thesis using False that [of t] by (simp add: h_def)
    qed (use assms(3) that [of s] in \<open>simp add: h_def\<close>)
    obtain v where v: "io_blocks V f n wr (buf + h) q1 h (e - q1) t = Some (0, h + 4096 * (e - q1), v)" "P (h + 4096 * (e - q1)) v"
      using io_blocks_rule [where k = "e - q1" and tot = tot, OF block t(3) q1(1)] ht assms(5) by auto
    obtain w where w: "0 < r \<Longrightarrow> io_part V f n wr (buf + (h + 4096 * (e - q1))) e r 0 v = Some (0, w)" "r = 0 \<Longrightarrow> w = v" "P tot w"
    proof (cases "r = 0")
      case False
      have "off + (h + 4096 * (e - q1)) = 4096 * e + 0" using ht en(1) by simp
      then obtain w where "io_part V f n wr (buf + (h + 4096 * (e - q1))) e r 0 v = Some (0, w)" "P (h + 4096 * (e - q1) + r) w"
        using part [OF v(2), of e 0 r] False en(2) ht by auto
      then show thesis using False that [of w] ht by simp
    qed (use v(2) ht that [of v] in simp)
    have tt: "off + tot - (off + (h + 4096 * (e - q1))) = r" "h + 4096 * (e - q1) + r = tot" "q1 + (e - q1) = e"
      using ht q1(2) by linarith+
    have fin: "(if 0 < off + tot - (off + (h + 4096 * (e - q1)))
        then do {
          (ret, s3) \<leftarrow> io_part V f n wr (buf + (h + 4096 * (e - q1))) (q1 + (e - q1)) (off + tot - (off + (h + 4096 * (e - q1)))) 0 v;
          Some (ret, if ret \<noteq> 0 then h + 4096 * (e - q1) else h + 4096 * (e - q1) + (off + tot - (off + (h + 4096 * (e - q1)))), s3)
        }
        else Some (0, h + 4096 * (e - q1), v)) = Some (0, tot, w)"
      unfolding tt(1,3) using w(1,2) tt(2) by (cases "r = 0") auto
    let ?len = "if e - q \<noteq> 0 then 4096 - off mod 4096 else off + tot - off"
    have len: "o1 \<noteq> 0 \<Longrightarrow> ?len = 4096 - o1" unfolding eb(3) using no qe by auto
    have first: "(if off mod 4096 \<noteq> 0
        then do { (ret, s1) \<leftarrow> io_part V f n wr buf q ?len (off mod 4096) s; Some (ret, if ret \<noteq> 0 then 0 else ?len, s1) }
        else Some (0, 0, s)) = Some (0, h, t)"
    proof (cases "o1 = 0")
      case False
      show ?thesis unfolding len [OF False] unfolding eb(3) using t(1) False by (simp add: h_def)
    qed (use t(2) eb(3) in \<open>simp add: h_def\<close>)
    have eq1: "(if off mod 4096 \<noteq> 0 then q + 1 else q) = q1" "(if off mod 4096 \<noteq> 0 then e - q - 1 else e - q) = e - q1"
      "\<not> (off mod 4096 \<noteq> 0 \<and> e - q = 0)"
      unfolding eb using no qe by (auto simp: q1_def)
    have "io_steps V f n wr buf off (off + tot) s = Some (0, tot, w)"
      unfolding io_steps_def SFS_BLKSIZE_def Let_def eb(1,2) u eq1 first
      by (simp only: Option.bind.simps prod.case simp_thms eq1(3) if_False v(1) fin)
    with w(3) show ?thesis by blast
  qed
qed

end
