(* ===== verification/Sfs_Read.thy ===== *)
theory Sfs_Read
  imports Sfs_Rw
begin

text \<open>
  Reading a file through \<open>sfs_read\<close>: the bytes delivered are the bytes of the file, and nothing but the buffers changes.
\<close>

section \<open>One whole block\<close>

lemma sfs_rblock_ok:
  assumes "sfs_ok f s" and "b \<noteq> 0" "b < sfs_blocks f s" and "{buf..<buf + 4096} \<inter> fs_mem f s = {}"
  obtains m where "sfs_rblock V f buf b 1 s = Some (0, with_mem m s)" and "read_bytes m buf 4096 = disk_block b s"
    and "same_off (scratch f s \<union> {buf..<buf + 4096}) (os_mem s) m"
proof -
  let ?t = "locked (io_sem f) s"
  note l = lock_io [OF assms(1)]
  have d: "{buf..<buf + 4096} \<inter> (dbuf_region ?t \<union> fs_disk f ?t) = {}" using assms(4) by (auto simp: fs_mem_def scratch_def)
  obtain m where m: "sfs_rwblock_nolock V f buf b False True ?t = Some (0, with_mem m ?t)"
    "read_bytes m buf 4096 = disk_block b ?t" "same_off (dbuf_region ?t \<union> {buf..<buf + 4096}) (os_mem ?t) m"
    by (rule rwblock_read [OF l(3) _ _ d, of b True V]) (use assms(2,3) in auto)
  have "sfs_rblock V f buf b 1 s = Some (0, with_mem m s)"
    using l m(1) by (simp add: sfs_rblock_def sfs_rwblock_def One_nat_def)
  moreover have "same_off (scratch f s \<union> {buf..<buf + 4096}) (os_mem s) m"
    using m(3) by (auto simp: same_off_def scratch_def)
  ultimately show thesis using that m(2) by simp
qed

lemma sfs_wblock_ok:
  assumes "sfs_ok f s" and "b \<noteq> 0" "b < sfs_blocks f s" and "{buf..<buf + 4096} \<inter> fs_mem f s = {}"
  obtains m where "sfs_wblock V f buf b 1 s = Some (0, with_mem m s)"
    and "disk_block b (with_mem m s) = read_bytes (os_mem s) buf 4096"
    and "same_off (scratch f s \<union> block_region s b) (os_mem s) m"
proof -
  let ?t = "locked (io_sem f) s"
  note l = lock_io [OF assms(1)]
  have d: "{buf..<buf + 4096} \<inter> (dbuf_region ?t \<union> fs_disk f ?t) = {}" using assms(4) by (auto simp: fs_mem_def scratch_def)
  obtain m where m: "sfs_rwblock_nolock V f buf b True True ?t = Some (0, with_mem m ?t)"
    "disk_block b (with_mem m ?t) = read_bytes (os_mem ?t) buf 4096" "same_off (dbuf_region ?t \<union> block_region ?t b) (os_mem ?t) m"
    by (rule rwblock_write [OF l(3) _ _ d, of b True V]) (use assms(2,3) in auto)
  have "sfs_wblock V f buf b 1 s = Some (0, with_mem m s)"
    using l m(1) by (simp add: sfs_wblock_def sfs_rwblock_def One_nat_def)
  moreover have "same_off (scratch f s \<union> block_region s b) (os_mem s) m"
    using m(3) by (auto simp: same_off_def scratch_def)
  ultimately show thesis using that m(2) by simp
qed

section \<open>Reading\<close>

lemma block_read:
  assumes "sfs_ok f s" and "file_ok f n s" and "i < di_blocks (get_din n s)" and "{buf..<buf + 4096} \<inter> fs_mem f s = {}"
  obtains t1 m where "sfs_bmap_load_nolock V f n i s = Some (0, fmap n s i, t1)"
    and "sfs_block_op V f False buf (fmap n s i) 1 t1 = Some (0, with_mem m s)" and "got f n s buf (4096 * i) 4096 m"
proof -
  note d = file_okD [OF assms(2)]
  let ?b = "fmap n s i"
  have b: "?b \<noteq> 0" "?b < sfs_blocks f s" using used_blockD [OF d(4) [OF assms(3)]] by auto
  obtain m1 where m1: "sfs_bmap_load_nolock V f n i s = Some (0, ?b, with_mem m1 s)" "fs_to f s (with_mem m1 s)"
    "disk_block ?b (with_mem m1 s) = disk_block ?b s" "same_off (scratch f s) (os_mem s) m1"
    using bmap_load_old [OF assms(1-3), of V] b(2) by metis
  obtain m where m: "sfs_rblock V f buf ?b 1 (with_mem m1 s) = Some (0, with_mem m (with_mem m1 s))"
    "read_bytes m buf 4096 = disk_block ?b (with_mem m1 s)"
    "same_off (scratch f (with_mem m1 s) \<union> {buf..<buf + 4096}) (os_mem (with_mem m1 s)) m"
    by (rule sfs_rblock_ok [OF fs_toD(1) [OF m1(2)], of ?b buf V]) (use b assms(4) in auto)
  have "file_data n s (4096 * i) 4096 = disk_block ?b s" using file_data_block [of 0 4096 n s i] by simp
  then have "got f n s buf (4096 * i) 4096 m" using m1(3,4) m(2,3) by (auto simp: got_def same_off_def)
  moreover have "sfs_block_op V f False buf ?b 1 (with_mem m1 s) = Some (0, with_mem m s)"
    using m(1) by (simp add: sfs_block_op_def)
  ultimately show thesis using that [OF m1(1)] by blast
qed

lemma io_steps_read:
  assumes "sfs_ok f s" and "file_ok f n s" and "0 < tot" and "off + tot \<le> 4096 * di_blocks (get_din n s)"
    and "{buf..<buf + tot} \<inter> fs_mem f s = {}"
  shows "\<exists>m. io_steps V f n False buf off (off + tot) s = Some (0, tot, with_mem m s) \<and> got f n s buf off tot m"
proof -
  let ?P = "\<lambda>a t. \<exists>m. t = with_mem m s \<and> got f n s buf off a m"
  note d = file_okD [OF assms(2)]
  have sub: "{buf..<buf + a} \<inter> fs_mem f s = {}" "{buf + a..<buf + a + len} \<inter> fs_mem f s = {}" if "a + len \<le> tot" for a len
  proof -
    have "{buf..<buf + a} \<subseteq> {buf..<buf + tot}" "{buf + a..<buf + a + len} \<subseteq> {buf..<buf + tot}" using that by auto
    then show "{buf..<buf + a} \<inter> fs_mem f s = {}" "{buf + a..<buf + a + len} \<inter> fs_mem f s = {}" using assms(5) by blast+
  qed
  have ok: "sfs_ok f (with_mem m s)" "file_ok f n (with_mem m s)" if "got f n s buf off a m" "a + len \<le> tot" for a len m
    using user_buffer(1) [OF assms(1)] file_user_buffer(1) [OF assms(1,2)] sub(1) [OF that(2)] that(1) by (auto simp: got_def)
  have join: "?P (a + len) (with_mem m' (with_mem m s))"
    if "got f n s buf off a m" "got f n (with_mem m s) (buf + a) (off + a) len m'" "a + len \<le> tot" for a len m m'
  proof -
    have "{buf..<buf + a + len} \<inter> fs_mem f s = {}" using sub(1) [of "a + len" 0] that(3) by (simp add: add.assoc)
    moreover have "off + a + len \<le> 4096 * di_blocks (get_din n s)" using that(3) assms(4) by linarith
    ultimately have "got f n s buf off (a + len) m'" using got_trans [OF assms(1,2) that(1,2)] by blast
    then show ?thesis by auto
  qed
  have "\<exists>u. io_steps V f n False buf off (off + tot) s = Some (0, tot, u) \<and> ?P tot u"
  proof (rule io_steps_rule)
    fix a t i o1 len
    assume P: "?P a t" and i: "off + a = 4096 * i + o1" "o1 < 4096" "o1 + len \<le> 4096" "0 < len" "a + len \<le> tot"
    obtain m where m: "t = with_mem m s" "got f n s buf off a m" using P by blast
    have "4096 * i < 4096 * di_blocks (get_din n s)" using i assms(4) by linarith
    then have lt: "i < di_blocks (get_din n (with_mem m s))" by simp
    obtain m' where m': "io_part V f n False (buf + a) i len o1 (with_mem m s) = Some (0, with_mem m' (with_mem m s))"
      "got f n (with_mem m s) (buf + a) (4096 * i + o1) len m'"
      by (rule io_part_read [OF ok [OF m(2) i(5)] lt i(2,3)])
    show "\<exists>u. io_part V f n False (buf + a) i len o1 t = Some (0, u) \<and> ?P (a + len) u"
      using m'(1) join [OF m(2) _ i(5)] m'(2) i(1) m(1) by auto
  next
    fix a t i
    assume P: "?P a t" and i: "off + a = 4096 * i" "a + 4096 \<le> tot"
    obtain m where m: "t = with_mem m s" "got f n s buf off a m" using P by blast
    have "4096 * i < 4096 * di_blocks (get_din n s)" using i assms(4) by linarith
    then have lt: "i < di_blocks (get_din n (with_mem m s))" by simp
    have bd: "{buf + a..<buf + a + 4096} \<inter> fs_mem f (with_mem m s) = {}" using sub(2) [OF i(2)] by simp
    obtain t1 m' where m': "sfs_bmap_load_nolock V f n i (with_mem m s) = Some (0, fmap n (with_mem m s) i, t1)"
      "sfs_block_op V f False (buf + a) (fmap n (with_mem m s) i) 1 t1 = Some (0, with_mem m' (with_mem m s))"
      "got f n (with_mem m s) (buf + a) (4096 * i) 4096 m'"
      by (rule block_read [OF ok [OF m(2) i(2)] lt bd])
    show "\<exists>ino t1 u. sfs_bmap_load_nolock V f n i t = Some (0, ino, t1) \<and> sfs_block_op V f False (buf + a) ino 1 t1 = Some (0, u)
        \<and> ?P (a + 4096) u"
      using m'(1,2) join [OF m(2) _ i(2)] m'(3) i(1) m(1) by auto
  next
    show "?P 0 s" using got_none [of f n s buf off] by (intro exI [of _ "os_mem s"]) simp
    show "off + tot \<le> 4096 * MAX_BLOCKS" using d(2) assms(4) by linarith
  qed (rule assms(3))
  then show ?thesis by blast
qed

lemma s64_small: "0 \<le> z \<Longrightarrow> z < 9223372036854775808 \<Longrightarrow> s64 z = z"
  by (simp add: s64_def)

lemma sfs_io_nolock_read:
  assumes "sfs_ok f s" and "file_ok f n s" and "di_type (get_din n s) \<noteq> SFS_TYPE_DIR"
    and "di_size (get_din n s) \<le> 4096 * di_blocks (get_din n s)"
    and "off < SFS_MAX_FILE_SIZE" and "off + alen < 9223372036854775808"
  defines "k \<equiv> min alen (di_size (get_din n s) - off)"
  assumes "{buf..<buf + k} \<inter> fs_mem f s = {}"
  shows "\<exists>m. sfs_io_nolock V f n buf (int off) alen False s = Some (0, k, with_mem m s) \<and> got f n s buf off k m"
proof -
  let ?size = "di_size (get_din n s)"
  have mx: "?size \<le> SFS_MAX_FILE_SIZE" using assms(4) file_okD(2) [OF assms(2)] by (simp add: SFS_MAX_FILE_SIZE_def MAX_BLOCKS_eq)
  have e: "s64 (int off + int alen) = int (off + alen)" using assms(6) by (simp add: s64_small)
  have pre: "\<not> (int off < 0 \<or> int SFS_MAX_FILE_SIZE \<le> int off \<or> int (off + alen) < int off)" using assms(5) by simp
  show ?thesis
  proof (cases "k = 0")
    case True
    then have "sfs_io_nolock V f n buf (int off) alen False s = Some (0, k, with_mem (os_mem s) s)"
      using assms(3) e pre by (auto simp: sfs_io_nolock_def k_def Let_def)
    then show ?thesis using got_none [of f n s buf off] True by (intro exI [of _ "os_mem s"] conjI) simp_all
  next
    case False
    then have lt: "off < ?size" "0 < alen" "0 < k" "off + k \<le> ?size" by (auto simp: k_def)
    have en: "min (min (off + alen) SFS_MAX_FILE_SIZE) ?size = off + k" using mx lt by (auto simp: k_def)
    obtain m where m: "io_steps V f n False buf off (off + k) s = Some (0, k, with_mem m s)" "got f n s buf off k m"
      using io_steps_read [OF assms(1,2) lt(3) _ assms(8), of off V] lt(4) assms(4) by auto
    have na: "nat (int off + int alen) = off + alen" by simp
    have "sfs_io_nolock V f n buf (int off) alen False s = Some (0, k, with_mem m s)"
      using assms(3) e pre lt m(1) by (simp add: sfs_io_nolock_def Let_def na en)
    with m(2) show ?thesis by blast
  qed
qed

end
