(* ===== verification/Sfs_Write.thy ===== *)
theory Sfs_Write
  imports Sfs_Read
begin

text \<open>
  Writing a file: from one state to the next some bytes of the file are replaced or appended (\<open>wrote\<close>), the blocks it
  grows by hold zeros elsewhere, and no other file changes.
\<close>

definition own_blocks :: "nat \<Rightarrow> ucore \<Rightarrow> nat set" where
  "own_blocks n s = insert (di_indirect (get_din n s)) (fmap n s ` {..<di_blocks (get_din n s)})"

definition wrote :: "nat \<Rightarrow> nat \<Rightarrow> ucore \<Rightarrow> nat \<Rightarrow> 8 word list \<Rightarrow> ucore \<Rightarrow> bool" where
  "wrote f n s off bs t \<longleftrightarrow> fs_to f s t \<and> file_ok f n t \<and> di_blocks (get_din n s) \<le> di_blocks (get_din n t)
     \<and> (bs = [] \<or> off + length bs \<le> 4096 * di_blocks (get_din n t))
     \<and> (\<forall>p<4096 * di_blocks (get_din n t). file_byte n t p =
          (if off \<le> p \<and> p < off + length bs then bs ! (p - off)
           else if p < 4096 * di_blocks (get_din n s) then file_byte n s p else 0))
     \<and> (\<forall>b\<in>used_blocks f s. b \<in> used_blocks f t \<and> (b \<notin> own_blocks n s \<longrightarrow> b \<notin> own_blocks n t \<and> disk_block b t = disk_block b s))
     \<and> avail f n s + di_blocks (get_din n s) \<le> avail f n t + di_blocks (get_din n t)
     \<and> di_size (get_din n t) = di_size (get_din n s) \<and> di_type (get_din n t) = di_type (get_din n s)
     \<and> di_nlinks (get_din n t) = di_nlinks (get_din n s) \<and> sin_ino (get_sin n t) = sin_ino (get_sin n s)
     \<and> (\<forall>k. k \<noteq> n \<longrightarrow> get_sin k t = get_sin k s)"

lemma wroteD:
  assumes "wrote f n s off bs t"
  shows "fs_to f s t" "file_ok f n t" "di_blocks (get_din n s) \<le> di_blocks (get_din n t)"
    "\<And>p. p < 4096 * di_blocks (get_din n t) \<Longrightarrow> file_byte n t p =
       (if off \<le> p \<and> p < off + length bs then bs ! (p - off)
        else if p < 4096 * di_blocks (get_din n s) then file_byte n s p else 0)"
    "\<And>b. b \<in> used_blocks f s \<Longrightarrow> b \<in> used_blocks f t"
    "\<And>b. b \<in> used_blocks f s \<Longrightarrow> b \<notin> own_blocks n s \<Longrightarrow> b \<notin> own_blocks n t \<and> disk_block b t = disk_block b s"
    "avail f n s + di_blocks (get_din n s) \<le> avail f n t + di_blocks (get_din n t)"
    "di_size (get_din n t) = di_size (get_din n s)" "di_type (get_din n t) = di_type (get_din n s)"
    "di_nlinks (get_din n t) = di_nlinks (get_din n s)" "sin_ino (get_sin n t) = sin_ino (get_sin n s)"
    "\<And>k. k \<noteq> n \<Longrightarrow> get_sin k t = get_sin k s" "bs = [] \<or> off + length bs \<le> 4096 * di_blocks (get_din n t)"
  using assms by (auto simp: wrote_def)

lemma wrote_refl: "sfs_ok f s \<Longrightarrow> file_ok f n s \<Longrightarrow> wrote f n s off [] s"
  by (auto simp: wrote_def fs_to_refl)

lemma wrote_trans:
  assumes "wrote f n s off bs t" and "wrote f n t (off + length bs) cs u"
  shows "wrote f n s off (bs @ cs) u"
proof -
  note a = wroteD [OF assms(1)] and b = wroteD [OF assms(2)]
  have "file_byte n u p = (if off \<le> p \<and> p < off + length (bs @ cs) then (bs @ cs) ! (p - off)
      else if p < 4096 * di_blocks (get_din n s) then file_byte n s p else 0)"
    if p: "p < 4096 * di_blocks (get_din n u)" for p
  proof (cases "off + length bs \<le> p \<and> p < off + length bs + length cs")
    case True
    then have "\<not> p - off < length bs" by linarith
    then have "(bs @ cs) ! (p - off) = cs ! (p - (off + length bs))" by (simp add: nth_append diff_diff_left)
    then show ?thesis using True b(4) [OF p] by simp
  next
    case False
    show ?thesis
    proof (cases "p < 4096 * di_blocks (get_din n t)")
      case pt: True
      have "file_byte n u p = file_byte n t p" unfolding b(4) [OF p] using False pt by (simp only: if_True if_False)
      then show ?thesis unfolding a(4) [OF pt] using False by (auto simp: nth_append)
    next
      case pt: False
      have ns: "\<not> p < 4096 * di_blocks (get_din n s)" using pt a(3) by (meson less_le_trans mult_le_mono2)
      have z: "file_byte n u p = 0" unfolding b(4) [OF p] using False pt by (simp only: if_False)
      have "\<not> (off \<le> p \<and> p < off + length bs)" using a(13) pt by auto
      then show ?thesis using z ns False by auto
    qed
  qed
  moreover have "\<And>b'. b' \<in> used_blocks f s \<Longrightarrow> b' \<notin> own_blocks n s \<Longrightarrow> b' \<notin> own_blocks n u \<and> disk_block b' u = disk_block b' s"
    using a(5,6) b(6) by metis
  moreover have "bs @ cs = [] \<or> off + length (bs @ cs) \<le> 4096 * di_blocks (get_din n u)"
    using a(3,13) b(3,13) by (auto simp: add.assoc intro: order_trans mult_le_mono2)
  moreover have "\<And>b'. b' \<in> used_blocks f s \<Longrightarrow> b' \<in> used_blocks f u" using a(5) b(5) by blast
  ultimately show ?thesis
    unfolding wrote_def using fs_to_trans [OF a(1) b(1)] a(3,7-12) b(2,3,7-12) by simp
qed

section \<open>Finding or appending the block\<close>

lemma wrote_load:
  assumes "sfs_ok f s" and "file_ok f n s" and "i \<le> di_blocks (get_din n s)" and "i < MAX_BLOCKS"
    and "i = di_blocks (get_din n s) \<Longrightarrow> 2 \<le> avail f n s"
  obtains t where "sfs_bmap_load_nolock V f n i s = Some (0, fmap n t i, t)" and "wrote f n s off [] t"
    and "di_blocks (get_din n t) = max (di_blocks (get_din n s)) (i + 1)"
proof (cases "i = di_blocks (get_din n s)")
  case False
  then have lt: "i < di_blocks (get_din n s)" using assms(3) by simp
  obtain m where m: "sfs_bmap_load_nolock V f n i s = Some (0, fmap n s i, with_mem m s)" "fs_to f s (with_mem m s)"
    "\<And>b. b < sfs_blocks f s \<Longrightarrow> disk_block b (with_mem m s) = disk_block b s" "same_off (scratch f s) (os_mem s) m"
    using bmap_load_old [OF assms(1,2) lt, of V] by metis
  have m': "same_off (scratch f s \<union> {}) (os_mem s) m" using m(4) by simp
  note u = user_buffer [OF assms(1) m'] and k = file_user_buffer [OF assms(1,2) m']
  have "wrote f n s off [] (with_mem m s)"
    unfolding wrote_def using m(2,3) u k used_blockD by (auto simp: own_blocks_def avail_def)
  then show thesis using that [of "with_mem m s"] m(1) k(2) lt by simp
next
  case True
  obtain b t where g: "sfs_bmap_load_nolock V f n i s = Some (0, b, t)" "grows f n s b t"
    using bmap_load_new [OF assms(1,2) True assms(4) assms(5) [OF True], of V] by blast
  note d = file_okD [OF assms(2)]
  have gt: "fs_to f s t" "file_ok f n t" "di_blocks (get_din n t) = i + 1"
    "\<And>j. j < MAX_BLOCKS \<Longrightarrow> fmap n t j = (if j = i then b else fmap n s j)" "b \<in> free_blocks f s"
    "free_blocks f t \<subseteq> free_blocks f s" "disk_block b t = replicate 4096 0"
    "\<And>b'. b' \<in> used_blocks f s \<Longrightarrow> b' \<noteq> di_indirect (get_din n s) \<Longrightarrow> disk_block b' t = disk_block b' s"
    using g(2) True by (auto simp: grows_def)
  have ind: "di_indirect (get_din n t) = di_indirect (get_din n s) \<or> di_indirect (get_din n t) \<in> free_blocks f s"
    using g(2) by (simp add: grows_def)
  have sb: "sfs_blocks f t = sfs_blocks f s" by (rule same_geoD [OF fs_toD(2) [OF gt(1)]])
  have mono: "b' \<in> used_blocks f t" if "b' \<in> used_blocks f s" for b' using that gt(6) sb by (auto simp: used_blocks_def)
  have byte: "file_byte n t p = (if p < 4096 * i then file_byte n s p else 0)" if "p < 4096 * (i + 1)" for p
  proof -
    have lt: "p div 4096 < i + 1" using that by (simp add: less_mult_imp_div_less mult.commute)
    then have fm: "fmap n t (p div 4096) = (if p div 4096 = i then b else fmap n s (p div 4096))" using gt(4) assms(4) by simp
    show ?thesis
    proof (cases "p < 4096 * i")
      case pi: True
      then have lt': "p div 4096 < i" by (simp add: less_mult_imp_div_less mult.commute)
      then have "fmap n s (p div 4096) \<in> used_blocks f s" "fmap n s (p div 4096) \<noteq> di_indirect (get_din n s)"
        using d(4,6,7) True used_blockD by force+
      then show ?thesis using fm lt' gt(8) pi by (simp add: file_byte_def)
    next
      case False
      then have "p div 4096 = i" using lt by (simp add: less_Suc_eq_le div_le_mono le_antisym div_nat_eqI mult.commute)
      then show ?thesis using fm gt(7) False by (simp add: file_byte_def)
    qed
  qed
  have "wrote f n s off [] t"
    unfolding wrote_def
  proof (intro conjI ballI)
    fix b' assume b': "b' \<in> used_blocks f s"
    show "b' \<in> used_blocks f t" by (rule mono [OF b'])
    show "b' \<notin> own_blocks n s \<longrightarrow> b' \<notin> own_blocks n t \<and> disk_block b' t = disk_block b' s"
    proof (intro impI conjI)
      assume no: "b' \<notin> own_blocks n s"
      have nf: "b' \<notin> free_blocks f s" using b' by (simp add: used_blocks_def)
      have "fmap n t j \<noteq> b'" if "j < i + 1" for j
        using that gt(4) [of j] assms(4) no nf gt(5) True by (auto simp: own_blocks_def)
      moreover have "di_indirect (get_din n t) \<noteq> b'" using ind no nf by (auto simp: own_blocks_def)
      ultimately show "b' \<notin> own_blocks n t" using gt(3) by (auto simp: own_blocks_def)
      show "disk_block b' t = disk_block b' s" by (rule gt(8) [OF b']) (use no in \<open>auto simp: own_blocks_def\<close>)
    qed
  next
    show "avail f n s + di_blocks (get_din n s) \<le> avail f n t + di_blocks (get_din n t)"
      using grows_avail [OF g(2)] gt(3) True by simp
    show "\<forall>p<4096 * di_blocks (get_din n t). file_byte n t p = (if off \<le> p \<and> p < off + length [] then [] ! (p - off)
        else if p < 4096 * di_blocks (get_din n s) then file_byte n s p else 0)"
      using byte gt(3) True by auto
  qed (use g(2) gt True in \<open>auto simp: grows_def\<close>)
  moreover have "fmap n t i = b" using gt(4) assms(4) by simp
  ultimately show thesis using that [of t] g(1) gt(3) True by simp
qed

section \<open>Writing into a block of the file\<close>

lemma wrote_block:
  assumes "sfs_ok f s" and "file_ok f n s" and "i < di_blocks (get_din n s)" and "o1 + length bs \<le> 4096" and "o1 < 4096"
    and "same_off (scratch f s \<union> block_region s (fmap n s i)) (os_mem s) m"
    and "disk_block (fmap n s i) (with_mem m s) = patch o1 bs (disk_block (fmap n s i) s)"
  shows "wrote f n s (4096 * i + o1) bs (with_mem m s)"
proof -
  let ?b = "fmap n s i" and ?t = "with_mem m s"
  note d = file_okD [OF assms(2)] and g = sfs_okD(1) [OF assms(1)]
  have bu: "?b \<in> used_blocks f s" by (rule d(4) [OF assms(3)])
  note b = used_blockD [OF bu]
  have reg: "scratch f s \<union> block_region s ?b \<subseteq> scratch f s \<union> fs_disk f s" using block_region_disk [OF g, of ?b] b by blast
  have to: "fs_to f s ?t" by (rule fs_to_with_mem [OF assms(1,6) reg])
  have fr: "free_blocks f ?t = free_blocks f s" by (rule free_blocks_cong [OF assms(6)]) (use map_scratch [OF g] reg in blast)
  have ub: "used_blocks f ?t = used_blocks f s" by (simp add: used_blocks_def fr)
  have other: "disk_block b' ?t = disk_block b' s" if "b' \<in> used_blocks f s" "b' \<noteq> ?b" for b'
    by (rule disk_block_other [OF g assms(6) _ that(2)]) (use used_blockD [OF that(1)] in simp)
  have "di_indirect (get_din n s) \<noteq> 0 \<Longrightarrow> disk_block (di_indirect (get_din n s)) ?t = disk_block (di_indirect (get_din n s)) s"
    using other [OF d(6)] d(7) [OF assms(3)] by metis
  then have fk: "file_ok f n ?t" "fmap n ?t = fmap n s"
    using file_ok_keep [OF assms(2), of ?t] ub by auto
  have byte: "file_byte n ?t p = (if 4096 * i + o1 \<le> p \<and> p < 4096 * i + o1 + length bs then bs ! (p - (4096 * i + o1)) else file_byte n s p)"
    if p: "p < 4096 * di_blocks (get_din n s)" for p
  proof (cases "p div 4096 = i")
    case True
    define q where "q = p mod 4096"
    have pq: "p = 4096 * i + q" "q < 4096" using True div_mult_mod_eq [of p 4096] by (auto simp: q_def mult.commute)
    have "file_byte n ?t p = patch o1 bs (disk_block ?b s) ! q" using True fk(2) assms(7) by (simp add: file_byte_def q_def)
    moreover have "file_byte n s p = disk_block ?b s ! q" using True by (simp add: file_byte_def q_def)
    ultimately show ?thesis using pq assms(4) by (auto simp: patch_def nth_append)
  next
    case False
    have lt: "p div 4096 < di_blocks (get_din n s)" using p by (simp add: less_mult_imp_div_less mult.commute)
    have "fmap n s (p div 4096) \<noteq> ?b" using inj_onD [OF d(5), of "p div 4096" i] lt assms(3) False by auto
    then have "file_byte n ?t p = file_byte n s p" using other [OF d(4) [OF lt]] fk(2) by (simp add: file_byte_def)
    moreover have "\<not> (4096 * i + o1 \<le> p \<and> p < 4096 * i + o1 + length bs)"
    proof
      assume "4096 * i + o1 \<le> p \<and> p < 4096 * i + o1 + length bs"
      then have "p div 4096 = i" using assms(4) by (intro div_nat_eqI) auto
      with False show False ..
    qed
    ultimately show ?thesis by (simp only: if_False)
  qed
  have own: "own_blocks n ?t = own_blocks n s" by (simp add: own_blocks_def fk(2))
  have "?b \<in> own_blocks n s" using assms(3) by (simp add: own_blocks_def)
  then have keep: "b' \<notin> own_blocks n s \<Longrightarrow> disk_block b' ?t = disk_block b' s" if "b' \<in> used_blocks f s" for b'
    using other [OF that] by metis
  have "4096 * (i + 1) \<le> 4096 * di_blocks (get_din n s)" using assms(3) by (intro mult_le_mono2) simp
  then show ?thesis unfolding wrote_def using to fk(1) ub own keep byte assms(4) by (auto simp: avail_def fr)
qed

section \<open>The steps of a write\<close>

lemma take_read_bytes_ge: "a \<le> k \<Longrightarrow> take a (read_bytes m buf k) = read_bytes m buf a"
  by (simp add: read_bytes_def take_map)

lemma user_bytes:
  assumes "fs_to f s t" and "{buf..<buf + len} \<inter> fs_mem f s = {}"
  shows "read_bytes (os_mem t) buf len = read_bytes (os_mem s) buf len"
  by (rule same_off_read [OF fs_toD(3) [OF assms(1)] assms(2)])

text \<open>One part of a block, and one whole block, from a state in which the file may already have grown.\<close>

lemma io_part_write:
  assumes "sfs_ok f s" and "file_ok f n s" and "i \<le> di_blocks (get_din n s)" and "i < MAX_BLOCKS"
    and "i = di_blocks (get_din n s) \<Longrightarrow> 2 \<le> avail f n s"
    and "o1 < 4096" "o1 + len \<le> 4096" and "{buf..<buf + len} \<inter> fs_mem f s = {}"
  obtains t where "io_part V f n True buf i len o1 s = Some (0, t)"
    and "wrote f n s (4096 * i + o1) (read_bytes (os_mem s) buf len) t" and "di_blocks (get_din n t) = max (di_blocks (get_din n s)) (i + 1)"
proof -
  obtain t where t: "sfs_bmap_load_nolock V f n i s = Some (0, fmap n t i, t)" "wrote f n s (4096 * i + o1) [] t"
    "di_blocks (get_din n t) = max (di_blocks (get_din n s)) (i + 1)"
    using wrote_load [OF assms(1-5)] by metis
  note w = wroteD [OF t(2)]
  have ok: "sfs_ok f t" by (rule fs_toD [OF w(1)])
  have i: "i < di_blocks (get_din n t)" using t(3) by simp
  have b: "fmap n t i \<noteq> 0" "fmap n t i < sfs_blocks f t" using used_blockD [OF file_okD(4) [OF w(2) i]] by auto
  have bs: "read_bytes (os_mem t) buf len = read_bytes (os_mem s) buf len" by (rule user_bytes [OF w(1) assms(8)])
  have l: "o1 + length (read_bytes (os_mem s) buf len) \<le> 4096" using assms(7) by simp
  obtain m where m: "sfs_wbuf V f (read_bytes (os_mem s) buf len) (fmap n t i) o1 t = Some (0, with_mem m t)"
    "same_off (scratch f t \<union> block_region t (fmap n t i)) (os_mem t) m"
    "disk_block (fmap n t i) (with_mem m t) = patch o1 (read_bytes (os_mem s) buf len) (disk_block (fmap n t i) t)"
    by (rule sfs_wbuf_ok [OF ok b assms(6) l])
  have "wrote f n s (4096 * i + o1) ([] @ read_bytes (os_mem s) buf len) (with_mem m t)"
    by (rule wrote_trans [OF t(2)]) (use wrote_block [OF ok w(2) i l assms(6) m(2,3)] in simp)
  moreover have "io_part V f n True buf i len o1 s = Some (0, with_mem m t)"
    using t(1) m(1) by (simp add: io_part_def sfs_buf_op_def bs)
  ultimately show thesis using that [of "with_mem m t"] t(3) by simp
qed

lemma block_write:
  assumes "sfs_ok f s" and "file_ok f n s" and "i \<le> di_blocks (get_din n s)" and "i < MAX_BLOCKS"
    and "i = di_blocks (get_din n s) \<Longrightarrow> 2 \<le> avail f n s" and "{buf..<buf + 4096} \<inter> fs_mem f s = {}"
  obtains ino t1 t where "sfs_bmap_load_nolock V f n i s = Some (0, ino, t1)" and "sfs_block_op V f True buf ino 1 t1 = Some (0, t)"
    and "wrote f n s (4096 * i) (read_bytes (os_mem s) buf 4096) t" and "di_blocks (get_din n t) = max (di_blocks (get_din n s)) (i + 1)"
proof -
  obtain t where t: "sfs_bmap_load_nolock V f n i s = Some (0, fmap n t i, t)" "wrote f n s (4096 * i) [] t"
    "di_blocks (get_din n t) = max (di_blocks (get_din n s)) (i + 1)"
    using wrote_load [OF assms(1-5)] by metis
  note w = wroteD [OF t(2)]
  have ok: "sfs_ok f t" by (rule fs_toD [OF w(1)])
  have i: "i < di_blocks (get_din n t)" using t(3) by simp
  have b: "fmap n t i \<noteq> 0" "fmap n t i < sfs_blocks f t" using used_blockD [OF file_okD(4) [OF w(2) i]] by auto
  have dis: "{buf..<buf + 4096} \<inter> fs_mem f t = {}" using assms(6) same_geoD(10) [OF fs_toD(2) [OF w(1)]] by simp
  let ?bs = "read_bytes (os_mem s) buf 4096"
  have bs: "read_bytes (os_mem t) buf 4096 = ?bs" by (rule user_bytes [OF w(1) assms(6)])
  obtain m where m: "sfs_wblock V f buf (fmap n t i) 1 t = Some (0, with_mem m t)"
    "disk_block (fmap n t i) (with_mem m t) = read_bytes (os_mem t) buf 4096"
    "same_off (scratch f t \<union> block_region t (fmap n t i)) (os_mem t) m"
    by (rule sfs_wblock_ok [OF ok b dis])
  have whole: "patch 0 ?bs (disk_block (fmap n t i) t) = ?bs" by (simp add: patch_def)
  have "wrote f n t (4096 * i + 0) ?bs (with_mem m t)"
    by (rule wrote_block [OF ok w(2) i _ _ m(3)]) (simp_all add: m(2) bs whole)
  then have "wrote f n s (4096 * i) ([] @ ?bs) (with_mem m t)" by (intro wrote_trans [OF t(2)]) simp
  moreover have "sfs_block_op V f True buf (fmap n t i) 1 t = Some (0, with_mem m t)" using m(1) by (simp add: sfs_block_op_def)
  ultimately show thesis using that [OF t(1)] t(3) by simp
qed

definition blocks_for :: "nat \<Rightarrow> nat" where "blocks_for len = (len + 4095) div 4096"

lemma blocks_for_bounds: "len \<le> 4096 * blocks_for len" "4096 * k < len \<Longrightarrow> k < blocks_for len" "len \<le> 4096 * k \<Longrightarrow> blocks_for len \<le> k"
  by (auto simp: blocks_for_def)

lemma io_steps_write:
  assumes "sfs_ok f s" and "file_ok f n s" and "0 < tot" and "off \<le> 4096 * di_blocks (get_din n s)"
    and "off + tot \<le> 4096 * MAX_BLOCKS" and "{buf..<buf + tot} \<inter> fs_mem f s = {}"
    and "di_blocks (get_din n s) < blocks_for (off + tot) \<Longrightarrow> blocks_for (off + tot) < di_blocks (get_din n s) + avail f n s"
  shows "\<exists>t. io_steps V f n True buf off (off + tot) s = Some (0, tot, t) \<and> wrote f n s off (read_bytes (os_mem s) buf tot) t
    \<and> di_blocks (get_din n t) = max (di_blocks (get_din n s)) (blocks_for (off + tot))"
proof -
  let ?P = "\<lambda>a t. wrote f n s off (read_bytes (os_mem s) buf a) t \<and> off + a \<le> 4096 * di_blocks (get_din n t)
    \<and> di_blocks (get_din n t) \<le> max (di_blocks (get_din n s)) (blocks_for (off + a))"
  have pre: "sfs_ok f t \<and> file_ok f n t \<and> i \<le> di_blocks (get_din n t) \<and> i < MAX_BLOCKS
      \<and> (i = di_blocks (get_din n t) \<longrightarrow> 2 \<le> avail f n t) \<and> {buf + a..<buf + a + len} \<inter> fs_mem f t = {}
      \<and> read_bytes (os_mem t) (buf + a) len = read_bytes (os_mem s) (buf + a) len"
    if P: "?P a t" and i: "off + a = 4096 * i + o1" "0 < o1 + len" "a + len \<le> tot" "0 < len" for a t i o1 len
  proof -
    have w: "wrote f n s off (read_bytes (os_mem s) buf a) t" using P by blast
    note d = wroteD [OF w]
    have le: "4096 * i \<le> 4096 * di_blocks (get_din n t)" using P i(1) by linarith
    have lt: "4096 * i < off + tot" using i by linarith
    then have im: "4096 * i < 4096 * MAX_BLOCKS" using assms(5) by linarith
    have sub: "{buf + a..<buf + a + len} \<inter> fs_mem f s = {}"
    proof -
      have "{buf + a..<buf + a + len} \<subseteq> {buf..<buf + tot}" using i(3) by auto
      then show ?thesis using assms(6) by blast
    qed
    have "2 \<le> avail f n t" if "i = di_blocks (get_din n t)"
    proof -
      have "i < blocks_for (off + tot)" by (rule blocks_for_bounds(2) [OF lt])
      then show ?thesis using assms(7) d(3,7) that by linarith
    qed
    then show ?thesis
      using fs_toD(1) [OF d(1)] d(2) le im sub same_geoD(10) [OF fs_toD(2) [OF d(1)]] user_bytes [OF d(1) sub] by simp
  qed
  have step: "?P (a + len) u"
    if P: "?P a t" and i: "off + a = 4096 * i + o1" "o1 + len \<le> 4096" "0 < len"
      and u: "wrote f n t (off + a) (read_bytes (os_mem s) (buf + a) len) u" "di_blocks (get_din n u) = max (di_blocks (get_din n t)) (i + 1)"
    for a t i o1 len u
  proof -
    have "wrote f n s off (read_bytes (os_mem s) buf a @ read_bytes (os_mem s) (buf + a) len) u"
      by (rule wrote_trans) (use P u(1) in auto)
    then have w: "wrote f n s off (read_bytes (os_mem s) buf (a + len)) u" by (simp add: read_bytes_append)
    have "i < blocks_for (off + (a + len))" by (rule blocks_for_bounds(2)) (use i in linarith)
    moreover have "blocks_for (off + a) \<le> blocks_for (off + (a + len))" by (simp add: blocks_for_def div_le_mono)
    moreover have "off + (a + len) \<le> 4096 * di_blocks (get_din n u)"
    proof -
      have "i + 1 \<le> di_blocks (get_din n u)" using u(2) by simp
      then have "4096 * i + 4096 \<le> 4096 * di_blocks (get_din n u)" by simp
      moreover have "off + (a + len) \<le> 4096 * i + 4096" using i(1,2) by simp
      ultimately show ?thesis by (rule le_trans [rotated])
    qed
    ultimately show ?thesis using w P u(2) by auto
  qed
  have max: "off + tot \<le> 4096 * MAX_BLOCKS" by (rule assms(5))
  have "\<exists>u. io_steps V f n True buf off (off + tot) s = Some (0, tot, u) \<and> ?P tot u"
  proof (rule io_steps_rule)
    fix a t i o1 len
    assume P: "?P a t" and i: "off + a = 4096 * i + o1" "o1 < 4096" "o1 + len \<le> 4096" "0 < len" "a + len \<le> tot"
    have q: "sfs_ok f t" "file_ok f n t" "i \<le> di_blocks (get_din n t)" "i < MAX_BLOCKS"
      "i = di_blocks (get_din n t) \<Longrightarrow> 2 \<le> avail f n t" "{buf + a..<buf + a + len} \<inter> fs_mem f t = {}"
      "read_bytes (os_mem t) (buf + a) len = read_bytes (os_mem s) (buf + a) len"
      using pre [OF P i(1) _ i(5,4)] i(4) by auto
    obtain u where u: "io_part V f n True (buf + a) i len o1 t = Some (0, u)"
      "wrote f n t (4096 * i + o1) (read_bytes (os_mem t) (buf + a) len) u" "di_blocks (get_din n u) = max (di_blocks (get_din n t)) (i + 1)"
      by (rule io_part_write [OF q(1-5) i(2,3) q(6)])
    show "\<exists>u. io_part V f n True (buf + a) i len o1 t = Some (0, u) \<and> ?P (a + len) u"
      using u(1) step [OF P i(1,3,4) _ u(3)] u(2) q(7) i(1) by auto
  next
    fix a t i
    assume P: "?P a t" and i: "off + a = 4096 * i" "a + 4096 \<le> tot"
    have i0: "off + a = 4096 * i + 0" using i(1) by simp
    have q: "sfs_ok f t" "file_ok f n t" "i \<le> di_blocks (get_din n t)" "i < MAX_BLOCKS"
      "i = di_blocks (get_din n t) \<Longrightarrow> 2 \<le> avail f n t" "{buf + a..<buf + a + 4096} \<inter> fs_mem f t = {}"
      "read_bytes (os_mem t) (buf + a) 4096 = read_bytes (os_mem s) (buf + a) 4096"
      using pre [OF P i0 _ i(2)] by auto
    obtain ino t1 u where u: "sfs_bmap_load_nolock V f n i t = Some (0, ino, t1)" "sfs_block_op V f True (buf + a) ino 1 t1 = Some (0, u)"
      "wrote f n t (4096 * i) (read_bytes (os_mem t) (buf + a) 4096) u" "di_blocks (get_din n u) = max (di_blocks (get_din n t)) (i + 1)"
      by (rule block_write [OF q(1-6)])
    show "\<exists>ino t1 u. sfs_bmap_load_nolock V f n i t = Some (0, ino, t1) \<and> sfs_block_op V f True (buf + a) ino 1 t1 = Some (0, u)
        \<and> ?P (a + 4096) u"
      using u(1,2) step [OF P i0 _ _ _ u(4)] u(3) q(7) i(1) by auto
  next
    show "?P 0 s" using wrote_refl [OF assms(1,2), of off] assms(4) by (simp add: read_bytes_def)
  qed (fact assms(3) max)+
  then obtain u where u: "io_steps V f n True buf off (off + tot) s = Some (0, tot, u)" "?P tot u" by blast
  have "blocks_for (off + tot) \<le> di_blocks (get_din n u)" by (rule blocks_for_bounds(3)) (use u(2) in blast)
  then have "di_blocks (get_din n u) = max (di_blocks (get_din n s)) (blocks_for (off + tot))"
    using u(2) wroteD(3) [of f n s off "read_bytes (os_mem s) buf tot" u] by auto
  then show ?thesis using u by blast
qed

section \<open>\<open>sfs_io_nolock\<close> and the lock of the inode\<close>

lemma sfs_io_nolock_write:
  assumes "sfs_ok f s" and "file_ok f n s" and "di_type (get_din n s) \<noteq> SFS_TYPE_DIR" and "0 < len"
    and "off \<le> 4096 * di_blocks (get_din n s)" and "off + len \<le> 4096 * MAX_BLOCKS" and "{buf..<buf + len} \<inter> fs_mem f s = {}"
    and "di_blocks (get_din n s) < blocks_for (off + len) \<Longrightarrow> blocks_for (off + len) < di_blocks (get_din n s) + avail f n s"
  shows "\<exists>t. wrote f n s off (read_bytes (os_mem s) buf len) t
    \<and> di_blocks (get_din n t) = max (di_blocks (get_din n s)) (blocks_for (off + len))
    \<and> sfs_io_nolock V f n buf (int off) len True s = Some (0, len,
        if di_size (get_din n s) < off + len then set_dirty n (upd_din n (\<lambda>d. d\<lparr>di_size := off + len\<rparr>) t) else t)"
proof -
  obtain t where t: "io_steps V f n True buf off (off + len) s = Some (0, len, t)" "wrote f n s off (read_bytes (os_mem s) buf len) t"
    "di_blocks (get_din n t) = max (di_blocks (get_din n s)) (blocks_for (off + len))"
    using io_steps_write [OF assms(1,2,4,5,6,7)] assms(8) by blast
  have lim: "off + len \<le> 4243456" using assms(6) by (simp add: MAX_BLOCKS_eq)
  have e: "s64 (int off + int len) = int (off + len)" using lim by (simp add: s64_small)
  have na: "nat (int off + int len) = off + len" by simp
  have mx: "min (off + len) SFS_MAX_FILE_SIZE = off + len" "off < SFS_MAX_FILE_SIZE" "u32 (off + len) = off + len"
    using lim assms(4) by (simp_all add: SFS_MAX_FILE_SIZE_def)
  have "sfs_io_nolock V f n buf (int off) len True s = Some (0, len,
        if di_size (get_din n s) < off + len then set_dirty n (upd_din n (\<lambda>d. d\<lparr>di_size := off + len\<rparr>) t) else t)"
    using assms(3,4) e mx t(1) wroteD(8) [OF t(2)] by (simp add: sfs_io_nolock_def Let_def na)
  with t show ?thesis by blast
qed

text \<open>An inode that can be read and written: a regular file, its lock free and none of the file system's.\<close>

definition sfs_file :: "nat \<Rightarrow> nat \<Rightarrow> ucore \<Rightarrow> bool" where
  "sfs_file f n s \<longleftrightarrow> sfs_ok f s \<and> file_ok f n s \<and> di_type (get_din n s) \<noteq> SFS_TYPE_DIR
     \<and> di_size (get_din n s) \<le> 4096 * di_blocks (get_din n s)
     \<and> in_type (os_nodes s n) = inode_type_sfs_inode_info \<and> in_fs (os_nodes s n) = Some f
     \<and> lock_free n (os_kern s) \<and> n \<noteq> io_sem f \<and> n \<noteq> disk0_sem (os_data s)"

lemma locked_file [simp]:
  "get_sin k (locked n s) = get_sin k s" "get_din k (locked n s) = get_din k s" "free_blocks f (locked n s) = free_blocks f s"
  "used_blocks f (locked n s) = used_blocks f s" "fmap k (locked n s) = fmap k s" "file_ok f k (locked n s) = file_ok f k s"
  "fs_mem f (locked n s) = fs_mem f s" "file_byte k (locked n s) p = file_byte k s p" "file_data k (locked n s) off len = file_data k s off len"
  "avail f k (locked n s) = avail f k s" "own_blocks k (locked n s) = own_blocks k s"
proof -
  show gs: "get_sin k (locked n s) = get_sin k s" for k by (simp add: get_sin_def)
  show gd: "get_din k (locked n s) = get_din k s" for k by (simp add: get_din_def gs)
  show fb: "free_blocks f (locked n s) = free_blocks f s" by (simp add: free_blocks_def)
  show ub: "used_blocks f (locked n s) = used_blocks f s" by (simp add: used_blocks_def fb)
  show fm: "fmap k (locked n s) = fmap k s" by (rule ext) (simp add: fmap_def gd ind_word_def)
  show "file_ok f k (locked n s) = file_ok f k s" by (simp add: file_ok_def gd fm ub)
  show "fs_mem f (locked n s) = fs_mem f s" by (simp add: fs_mem_def)
  show fy: "file_byte k (locked n s) p = file_byte k s p" for p by (simp add: file_byte_def fm)
  show "file_data k (locked n s) off len = file_data k s off len" by (simp add: file_data_def fy)
  show "avail f k (locked n s) = avail f k s" by (simp add: avail_def gd fb)
  show "own_blocks k (locked n s) = own_blocks k s" by (simp add: own_blocks_def gd fm)
qed

lemma lock_inode:
  assumes "sfs_file f n s"
  shows "lock_sin n s = Some (locked n s)" "sfs_ok f (locked n s)" "file_ok f n (locked n s)"
    "os_kern t = sem_dec n (os_kern s) \<Longrightarrow> unlock_sin V n t = Some (set_kern (os_kern s) t)"
    "fs_info n s = Some f" "sin_info n s = Some n"
proof -
  have l: "lock_free n (os_kern s)" "n \<noteq> io_sem f" "n \<noteq> disk0_sem (os_data s)" "sfs_ok f s" "file_ok f n s"
    "in_type (os_nodes s n) = inode_type_sfs_inode_info" "in_fs (os_nodes s n) = Some f"
    using assms by (auto simp: sfs_file_def)
  show "lock_sin n s = Some (locked n s)" using l(1) by (simp add: lock_sin_def os_down_free locked_def)
  show "os_kern t = sem_dec n (os_kern s) \<Longrightarrow> unlock_sin V n t = Some (set_kern (os_kern s) t)"
    using os_up_free [of t n "os_kern s" V] l(1) by (simp add: unlock_sin_def)
  show "fs_info n s = Some f" "sin_info n s = Some n" using l(6,7) by (simp_all add: fs_info_def sin_info_def)
  show "file_ok f n (locked n s)" using l(5) by simp
  have dk: "disk_ok dev (locked n s) = disk_ok dev s" if "disk_ok dev s" for dev
    using l(3) that by (auto simp: disk_ok_def locked_def)
  have "fs_geo f (locked n s)" using sfs_okD(1) [OF l(4)] dk by (auto simp: fs_geo_def)
  moreover have "lock_free (io_sem f) (os_kern (locked n s))" using l(2,4) by (auto simp: sfs_ok_def locked_def)
  ultimately show "sfs_ok f (locked n s)" using l(4) by (simp add: sfs_ok_def)
qed

end
