(* ===== verification/Sfs_Contents.thy ===== *)
theory Sfs_Contents
  imports Sfs_Write
begin

text \<open>
  The contents of a file as one list of bytes, and \<open>sfs_read\<close> and \<open>sfs_write\<close> as operations on that list: a slice, and
  the replacement of a slice that may reach beyond the end.  Other files keep their contents.
\<close>

definition file_contents :: "nat \<Rightarrow> ucore \<Rightarrow> 8 word list" where
  "file_contents n s = file_data n s 0 (di_size (get_din n s))"

lemma length_contents [simp]: "length (file_contents n s) = di_size (get_din n s)"
  by (simp add: file_contents_def)

lemma file_data_slice: "off + k \<le> di_size (get_din n s) \<Longrightarrow> file_data n s off k = take k (drop off (file_contents n s))"
  by (rule nth_equalityI) (auto simp: file_contents_def file_data_def)

section \<open>The lock of the inode\<close>

lemma kern_file [simp]:
  "get_sin k (set_kern q s) = get_sin k s" "get_din k (set_kern q s) = get_din k s"
  "sfs_blocks f (set_kern q s) = sfs_blocks f s" "disk_block b (set_kern q s) = disk_block b s"
  "free_blocks f (set_kern q s) = free_blocks f s" "used_blocks f (set_kern q s) = used_blocks f s"
  "fmap k (set_kern q s) = fmap k s" "file_ok f k (set_kern q s) = file_ok f k s" "file_byte k (set_kern q s) p = file_byte k s p"
  "file_contents k (set_kern q s) = file_contents k s" "own_blocks k (set_kern q s) = own_blocks k s"
proof -
  show gs: "get_sin k (set_kern q s) = get_sin k s" for k by (simp add: get_sin_def)
  show gd: "get_din k (set_kern q s) = get_din k s" for k by (simp add: get_din_def gs)
  show bl: "sfs_blocks f (set_kern q s) = sfs_blocks f s" by (simp add: sfs_blocks_def)
  show db: "disk_block b (set_kern q s) = disk_block b s" for b by (simp add: disk_block_def)
  show fb: "free_blocks f (set_kern q s) = free_blocks f s" by (simp add: free_blocks_def)
  show ub: "used_blocks f (set_kern q s) = used_blocks f s" by (simp add: used_blocks_def fb bl)
  show fm: "fmap k (set_kern q s) = fmap k s" by (rule ext) (simp add: fmap_def gd ind_word_def db)
  show "file_ok f k (set_kern q s) = file_ok f k s" by (simp add: file_ok_def gd fm ub)
  show fy: "file_byte k (set_kern q s) p = file_byte k s p" for p by (simp add: file_byte_def fm db)
  show "file_contents k (set_kern q s) = file_contents k s" by (simp add: file_contents_def file_data_def gd fy)
  show "own_blocks k (set_kern q s) = own_blocks k s" by (simp add: own_blocks_def gd fm)
qed

lemma unlocked_mem: "set_kern (os_kern s) (with_mem m (locked n s)) = with_mem m s"
  by (simp add: locked_def)

lemma fs_to_unlock:
  assumes "sfs_ok f s" and "fs_to f (locked n s) t"
  shows "fs_to f s (set_kern (os_kern s) t)" "os_kern t = sem_dec n (os_kern s)"
proof -
  obtain m x y where t: "t = (locked n s)\<lparr>os_mem := m, os_data := (os_data s)\<lparr>sfss := x, sins := y\<rparr>\<rparr>"
    using assms(2) unfolding fs_to_def sfs_frame_def by auto
  have u: "set_kern (os_kern s) t = s\<lparr>os_mem := m, os_data := (os_data s)\<lparr>sfss := x, sins := y\<rparr>\<rparr>"
    by (simp add: t locked_def set_kern_def os_kern_def)
  show "os_kern t = sem_dec n (os_kern s)" using sfs_frameD(1) [of "locked n s" t] assms(2) by (simp add: fs_to_def locked_def)
  have geo: "same_geo f s (set_kern (os_kern s) t)"
    unfolding same_geo_def
  proof
    show "sfs_frame s (set_kern (os_kern s) t)" unfolding sfs_frame_def using u by blast
    show "\<exists>k d. get_sfs f (set_kern (os_kern s) t)
        = (get_sfs f s)\<lparr>sf_super := (sf_super (get_sfs f s))\<lparr>su_unused_blocks := k\<rparr>, sf_super_dirty := d\<rparr>"
      using assms(2) by (auto simp: fs_to_def)
  qed
  have "sfs_ok f (set_kern (os_kern s) t)"
    using assms(1) fs_toD(1) [OF assms(2)] same_geoD(11) [OF geo] by (simp add: sfs_ok_def)
  moreover have "same_off (fs_mem f s) (os_mem s) (os_mem (set_kern (os_kern s) t))" using fs_toD(3) [OF assms(2)] by simp
  ultimately show "fs_to f s (set_kern (os_kern s) t)" using geo by (simp add: fs_to_iff)
qed

lemma sfs_fileD:
  assumes "sfs_file f n s"
  shows "sfs_ok f s" "file_ok f n s" "di_type (get_din n s) \<noteq> SFS_TYPE_DIR" "di_size (get_din n s) \<le> 4096 * di_blocks (get_din n s)"
  using assms by (simp_all add: sfs_file_def)

section \<open>Reading\<close>

lemma sfs_read_ok:
  assumes "sfs_file f n s" and "io_offset iob = int off" and "off < SFS_MAX_FILE_SIZE"
    and "off + io_resid iob < 9223372036854775808"
  defines "k \<equiv> min (io_resid iob) (di_size (get_din n s) - off)"
  assumes "{io_base iob..<io_base iob + k} \<inter> fs_mem f s = {}"
  shows "\<exists>m. sfs_read V n iob s = Some (0, io_advance k iob, with_mem m s) \<and> got f n s (io_base iob) off k m"
proof -
  note d = sfs_fileD [OF assms(1)] and l = lock_inode [OF assms(1)]
  obtain m where m: "sfs_io_nolock V f n (io_base iob) (int off) (io_resid iob) False (locked n s) = Some (0, k, with_mem m (locked n s))"
    "got f n (locked n s) (io_base iob) off k m"
    using sfs_io_nolock_read [OF l(2,3), of off "io_resid iob" "io_base iob" V] d(3,4) assms(3,4,6) by (auto simp: k_def)
  have sk: "(if k \<noteq> 0 then iobuf_skip k iob else Some iob) = Some (io_advance k iob)"
    using iobuf_skip_advance [of k iob] by (auto simp: k_def io_advance_def)
  have up: "unlock_sin V n (with_mem m (locked n s)) = Some (with_mem m s)"
    using l(4) [of "with_mem m (locked n s)" V] by (simp add: locked_def)
  have "sfs_read V n iob s = Some (0, io_advance k iob, with_mem m s)"
    using l(1,5,6) m(1) sk up assms(2) by (simp add: sfs_read_def sfs_io_def)
  moreover have "got f n s (io_base iob) off k m" using m(2) by (simp add: got_def)
  ultimately show ?thesis by blast
qed

section \<open>Writing\<close>

lemma sfs_write_ok:
  assumes "sfs_file f n s" and "io_offset iob = int off" and "0 < io_resid iob"
    and "off \<le> 4096 * di_blocks (get_din n s)" and "off + io_resid iob \<le> 4096 * MAX_BLOCKS"
    and "{io_base iob..<io_base iob + io_resid iob} \<inter> fs_mem f s = {}"
    and "di_blocks (get_din n s) < blocks_for (off + io_resid iob)
      \<Longrightarrow> blocks_for (off + io_resid iob) < di_blocks (get_din n s) + avail f n s"
  defines "bs \<equiv> read_bytes (os_mem s) (io_base iob) (io_resid iob)"
  shows "\<exists>u. sfs_write V n iob s = Some (0, io_advance (length bs) iob, u) \<and> sfs_file f n u \<and> fs_to f s u
    \<and> di_size (get_din n u) = max (di_size (get_din n s)) (off + length bs)
    \<and> di_blocks (get_din n u) = max (di_blocks (get_din n s)) (blocks_for (off + length bs))
    \<and> (\<forall>p<4096 * di_blocks (get_din n u). file_byte n u p =
          (if off \<le> p \<and> p < off + length bs then bs ! (p - off)
           else if p < 4096 * di_blocks (get_din n s) then file_byte n s p else 0))
    \<and> (\<forall>b\<in>used_blocks f s. b \<in> used_blocks f u \<and> (b \<notin> own_blocks n s \<longrightarrow> disk_block b u = disk_block b s))
    \<and> (\<forall>k. k \<noteq> n \<longrightarrow> get_sin k u = get_sin k s)"
proof -
  let ?len = "io_resid iob"
  note d = sfs_fileD [OF assms(1)] and l = lock_inode [OF assms(1)]
  obtain t where t: "wrote f n (locked n s) off bs t"
    "di_blocks (get_din n t) = max (di_blocks (get_din n s)) (blocks_for (off + ?len))"
    "sfs_io_nolock V f n (io_base iob) (int off) ?len True (locked n s) = Some (0, ?len,
        if di_size (get_din n s) < off + ?len then set_dirty n (upd_din n (\<lambda>d. d\<lparr>di_size := off + ?len\<rparr>) t) else t)"
    using sfs_io_nolock_write [OF l(2,3), of ?len off "io_base iob" V] d(3) assms(3-7) by (auto simp: bs_def)
  note w = wroteD [OF t(1)]
  define v where "v = (if di_size (get_din n s) < off + ?len then set_dirty n (upd_din n (\<lambda>d. d\<lparr>di_size := off + ?len\<rparr>) t) else t)"
  define u where "u = set_kern (os_kern s) v"
  have tv: "fs_to f t v"
  proof (cases "di_size (get_din n s) < off + ?len")
    case True
    note a = fs_to_upd_din(1) [OF fs_toD(1) [OF w(1)], of n "\<lambda>d. d\<lparr>di_size := off + ?len\<rparr>"]
    show ?thesis using fs_to_trans [OF a fs_to_upd_din(2) [OF fs_toD(1) [OF a]]] True by (simp add: v_def)
  qed (simp add: v_def fs_to_refl [OF fs_toD(1) [OF w(1)]])
  have to: "fs_to f s u" "os_kern v = sem_dec n (os_kern s)"
    using fs_to_unlock [OF d(1) fs_to_trans [OF w(1) tv]] by (simp_all add: u_def)
  have lb: "length bs = ?len" by (simp add: bs_def)
  have sk: "iobuf_skip ?len iob = Some (io_advance ?len iob)" by (simp add: iobuf_skip_advance)
  have up: "unlock_sin V n v = Some u" using l(4) [OF to(2)] by (simp add: u_def)
  have run: "sfs_write V n iob s = Some (0, io_advance (length bs) iob, u)"
    using l(1,5,6) t(3) sk up assms(2,3) by (simp add: sfs_write_def sfs_io_def v_def [symmetric] lb)
  have gd: "get_din n u = (get_din n t)\<lparr>di_size := max (di_size (get_din n s)) (off + ?len)\<rparr>"
    using w(8) by (auto simp: u_def v_def)
  have fm: "fmap k v = fmap k t" for k by (auto simp: v_def fmap_def ind_word_def fun_eq_iff)
  have same: "file_ok f n v = file_ok f n t" "file_byte n v p = file_byte n t p" "used_blocks f v = used_blocks f t" "disk_block b v = disk_block b t" for p b
    by (simp_all add: file_ok_def file_byte_def fm used_blocks_def) (simp_all add: v_def)
  have gs: "get_sin k u = get_sin k s" if "k \<noteq> n" for k
    using w(12) [OF that] that by (simp add: u_def v_def set_dirty_def upd_din_def)
  have sz: "di_size (get_din n u) \<le> 4096 * di_blocks (get_din n u)"
    using d(4) w(3,13) lb assms(3) gd by (auto intro: order_trans)
  have "sfs_file f n u"
    unfolding sfs_file_def
  proof (intro conjI)
    show "sfs_ok f u" by (rule fs_toD(1) [OF to(1)])
    show "file_ok f n u" using w(2) same by (simp add: u_def)
    show "di_type (get_din n u) \<noteq> SFS_TYPE_DIR" using gd w(9) d(3) by simp
    show "di_size (get_din n u) \<le> 4096 * di_blocks (get_din n u)" by (rule sz)
    note fr = sfs_frameD [of s u]
    have f: "sfs_frame s u" using to(1) by (simp add: fs_to_def)
    show "in_type (os_nodes u n) = inode_type_sfs_inode_info" "in_fs (os_nodes u n) = Some f" "lock_free n (os_kern u)"
      "n \<noteq> io_sem f" "n \<noteq> disk0_sem (os_data u)"
      using assms(1) fr(1,2,9) [OF f] by (simp_all add: sfs_file_def)
  qed
  moreover have "file_byte n u p = file_byte n t p" "di_blocks (get_din n u) = di_blocks (get_din n t)" for p
    using same gd by (simp_all add: u_def)
  moreover have "b \<in> used_blocks f u \<and> (b \<notin> own_blocks n s \<longrightarrow> disk_block b u = disk_block b s)" if "b \<in> used_blocks f s" for b
    using w(5,6) [of b] that same by (simp add: u_def)
  ultimately show ?thesis using run to(1) gd t(2) w(4) gs lb by auto
qed

section \<open>The contents after a write\<close>

lemma contents_write:
  assumes "di_size (get_din n u) = max (di_size (get_din n s)) (off + length bs)" and "off \<le> di_size (get_din n s)"
    and "di_size (get_din n s) \<le> 4096 * di_blocks (get_din n s)" and "di_size (get_din n u) \<le> 4096 * di_blocks (get_din n u)"
    and "\<forall>p<4096 * di_blocks (get_din n u). file_byte n u p =
          (if off \<le> p \<and> p < off + length bs then bs ! (p - off)
           else if p < 4096 * di_blocks (get_din n s) then file_byte n s p else 0)"
  shows "file_contents n u = patch off bs (file_contents n s)"
proof (rule nth_equalityI)
  have len: "length (patch off bs (file_contents n s)) = max (di_size (get_din n s)) (off + length bs)"
    using assms(2) by (simp add: patch_def max_def)
  then show "length (file_contents n u) = length (patch off bs (file_contents n s))" using assms(1) by simp
  fix p assume "p < length (file_contents n u)"
  then have p: "p < di_size (get_din n u)" by simp
  have c: "file_contents n t ! p = file_byte n t p" if "p < di_size (get_din n t)" for t
    using that by (simp add: file_contents_def file_data_def)
  have b: "file_byte n u p = (if off \<le> p \<and> p < off + length bs then bs ! (p - off)
      else if p < 4096 * di_blocks (get_din n s) then file_byte n s p else 0)"
    using assms(4,5) p by (meson less_le_trans)
  show "file_contents n u ! p = patch off bs (file_contents n s) ! p"
  proof (cases "off \<le> p \<and> p < off + length bs")
    case True
    then have "p - off < length bs" by linarith
    then show ?thesis using c [OF p] b assms(2) True by (simp add: patch_def nth_append min_def)
  next
    case False
    then have ps: "p < di_size (get_din n s)" using p assms(1,2) by auto
    then have "file_byte n u p = file_contents n s ! p" using b c [OF ps] assms(3) False by (simp only: if_False if_True less_le_trans)
    then show ?thesis using c [OF p] False ps by (auto simp: patch_def nth_append min_def)
  qed
qed

text \<open>A file that shares no block with the one written.\<close>

lemma contents_other:
  assumes "file_ok f k s" and "di_size (get_din k s) \<le> 4096 * di_blocks (get_din k s)" and "get_sin k u = get_sin k s"
    and "own_blocks k s \<inter> own_blocks n s \<subseteq> {0}"
    and "\<forall>b\<in>used_blocks f s. b \<in> used_blocks f u \<and> (b \<notin> own_blocks n s \<longrightarrow> disk_block b u = disk_block b s)"
  shows "file_ok f k u" "file_contents k u = file_contents k s"
proof -
  note d = file_okD [OF assms(1)]
  have gd: "get_din k u = get_din k s" using assms(3) by (simp add: get_din_def)
  have sub: "used_blocks f s \<subseteq> used_blocks f u" using assms(5) by blast
  have keep: "disk_block b u = disk_block b s" if "b \<in> own_blocks k s" "b \<in> used_blocks f s" for b
    using that assms(4,5) used_blockD [OF that(2)] by blast
  have ind: "disk_block (di_indirect (get_din k s)) u = disk_block (di_indirect (get_din k s)) s" if "di_indirect (get_din k s) \<noteq> 0"
    by (rule keep [OF _ d(6) [OF that]]) (simp add: own_blocks_def)
  have dat: "disk_block (fmap k s i) u = disk_block (fmap k s i) s" if "i < di_blocks (get_din k s)" for i
    by (rule keep [OF _ d(4) [OF that]]) (use that in \<open>simp add: own_blocks_def\<close>)
  note fk = file_ok_keep [OF assms(1) gd sub ind]
  show "file_ok f k u" by (rule fk(1))
  have "file_byte k u p = file_byte k s p" if "p < di_size (get_din k s)" for p
  proof -
    have "p < 4096 * di_blocks (get_din k s)" using that assms(2) by linarith
    then have "p div 4096 < di_blocks (get_din k s)" by (simp add: less_mult_imp_div_less mult.commute)
    then show ?thesis using dat fk(2) by (simp add: file_byte_def)
  qed
  then show "file_contents k u = file_contents k s" by (auto simp: file_contents_def file_data_def gd)
qed

section \<open>A mounted disk\<close>

text \<open>Eight blocks, of which 4 to 7 are free; the inodes 20 and 21 are regular files of one block each.\<close>

definition example_mem :: Strings.mem where "example_mem a = (if a = 20480 then 240 else 0)"

definition example_din :: "nat \<Rightarrow> sfs_disk_inode" where
  "example_din b = \<lparr>di_size = 5, di_type = SFS_TYPE_FILE, di_nlinks = 1, di_blocks = 1, di_direct = b # replicate 11 0, di_indirect = 0\<rparr>"

definition example_disk :: ucore where
  "example_disk = (boot_ucore [])\<lparr>os_mem := example_mem,
     os_nodes := (\<lambda>_. \<lparr>in_type = inode_type_sfs_inode_info, in_ref = 1, in_open = 1, in_fs = Some 10, in_ops = True\<rparr>),
     os_data := boot_fsdata\<lparr>
       ide_devices := (\<lambda>_. \<lparr>ide_valid = True, ide_sets = 0xFFFFFFFF, ide_size = 64, ide_iobase = 32768\<rparr>),
       devs := (\<lambda>_. \<lparr>d_blocks = 8, d_blocksize = 4096, d_ops = DevDisk0\<rparr>), optab := (\<lambda>_. SfsFile),
       sfss := (\<lambda>_. \<lparr>sf_super = \<lparr>su_magic = SFS_MAGIC, su_blocks = 8, su_unused_blocks = 4, su_info = []\<rparr>, sf_dev = 0, sf_bitmap = 30,
         sf_freemap = \<lparr>bm_nbits = 32, bm_nwords = 1, bm_map = 20480\<rparr>, sf_super_dirty = False, sf_buffer = 16384, sf_hash_list = 31\<rparr>),
       sins := (\<lambda>n. \<lparr>sin_dp = 40, sin_din = example_din (if n = 20 then 2 else 3), sin_ino = 1, sin_dirty = False, sin_reclaim_count = 1\<rparr>)\<rparr>\<rparr>"

lemma example_simps [simp]:
  "get_sfs f example_disk = \<lparr>sf_super = \<lparr>su_magic = SFS_MAGIC, su_blocks = 8, su_unused_blocks = 4, su_info = []\<rparr>, sf_dev = 0,
     sf_bitmap = 30, sf_freemap = \<lparr>bm_nbits = 32, bm_nwords = 1, bm_map = 20480\<rparr>, sf_super_dirty = False, sf_buffer = 16384,
     sf_hash_list = 31\<rparr>"
  "get_din n example_disk = example_din (if n = 20 then 2 else 3)" "os_mem example_disk = example_mem"
  "disk0_sem (os_data example_disk) = 3" "disk0_buffer (os_data example_disk) = 0"
  "os_nodes example_disk n = \<lparr>in_type = inode_type_sfs_inode_info, in_ref = 1, in_open = 1, in_fs = Some 10, in_ops = True\<rparr>"
  "devs (os_data example_disk) d = \<lparr>d_blocks = 8, d_blocksize = 4096, d_ops = DevDisk0\<rparr>"
  "ide_devices (os_data example_disk) i = \<lparr>ide_valid = True, ide_sets = 0xFFFFFFFF, ide_size = 64, ide_iobase = 32768\<rparr>"
  by (simp_all add: example_disk_def get_sfs_def get_din_def get_sin_def boot_fsdata_def)

lemma example_free: "free_blocks 10 example_disk = {4, 5, 6, 7}"
proof -
  have w: "load32 example_mem 20480 = push_bit 4 (mask 4)"
    by (simp add: load32_def read_bytes_def example_mem_def upt_rec mask_eq_exp_minus_1)
  have "bit (load32 example_mem 20480) i \<longleftrightarrow> i \<in> {4, 5, 6, 7}" if "i < 32" for i
    unfolding w using that by (auto simp: bit_push_bit_iff bit_mask_iff)
  then show ?thesis
    by (auto simp: free_blocks_def free_bits_def bit_free_def bm_word_def WORD_BITS_def)
qed

lemma example_lock: "lock_free m (os_kern example_disk)"
  by (simp add: lock_free_def wait_queue_first_def example_disk_def boot_ucore_def os_kern_def boot_kern_def list_next_def)

lemma example_mem_regions:
  "fs_mem 10 example_disk = {0..<16384} \<union> {16384..<20480} \<union> {20480..<20484} \<union> {32768..<65536}"
  by (simp add: fs_mem_def scratch_def dbuf_region_def sbuf_region_def map_region_def fs_disk_def disk_region_def disk_addr_def)

lemma example_buffer: "65536 \<le> a \<Longrightarrow> {a..<b} \<inter> fs_mem 10 example_disk = {}"
  by (auto simp: example_mem_regions)

lemma example_ok: "sfs_ok 10 example_disk"
proof -
  have "disk_ok 0 example_disk"
    by (simp add: disk_ok_def disk_geo_def example_lock VALID_IDE_def DISK0_DEV_NO_def MAX_IDE_def MAX_DISK_NSECS_def dbuf_region_def
        disk_region_def disk_addr_def)
  then have "fs_geo 10 example_disk"
    by (auto simp: fs_geo_def scratch_def dbuf_region_def sbuf_region_def map_region_def fs_disk_def disk_region_def disk_addr_def sfs_blocks_def)
  then show ?thesis
    by (simp add: sfs_ok_def example_lock example_free io_sem_def WORD_BITS_def sfs_blocks_def)
qed

lemma example_file: "sfs_file 10 n example_disk" if "n \<in> {20, 21}"
proof -
  have fm: "fmap n example_disk i = (if i = 0 then if n = 20 then 2 else 3 else 0)" if "i < MAX_BLOCKS" for i
    using that by (auto simp: fmap_def example_din_def nth_Cons' )
  have "file_ok 10 n example_disk"
    using fm by (auto simp: file_ok_def example_din_def MAX_BLOCKS_eq used_blocks_def example_free sfs_blocks_def inj_on_def)
  then show ?thesis
    using that example_ok example_lock by (auto simp: sfs_file_def example_din_def io_sem_def SFS_TYPE_FILE_def SFS_TYPE_DIR_def)
qed

lemma example_own: "own_blocks 21 example_disk \<inter> own_blocks 20 example_disk \<subseteq> {0}"
  by (simp add: own_blocks_def example_din_def fmap_def lessThan_Suc)

section \<open>Properties\<close>

text \<open>\<open>sfs_read\<close> of a regular file refines taking a slice of its contents: it delivers the bytes from the offset on, as
  many as were asked for and as there are, to the buffer of the caller, advances the I/O buffer by their number, and changes
  nothing else: not the file, and no memory but the delivered bytes and the two block buffers.\<close>

theorem sfs_read_takes_slice:
  assumes "sfs_file f n s" and "io_offset iob = int off" and "off < SFS_MAX_FILE_SIZE" and "off + io_resid iob < 9223372036854775808"
    and "{io_base iob..<io_base iob + io_resid iob} \<inter> fs_mem f s = {}"
  shows "\<exists>m. let bs = take (io_resid iob) (drop off (file_contents n s)) in
     sfs_read V n iob s = Some (0, io_advance (length bs) iob, with_mem m s)
     \<and> read_bytes m (io_base iob) (length bs) = bs
     \<and> sfs_file f n (with_mem m s) \<and> file_contents n (with_mem m s) = file_contents n s
     \<and> same_off (scratch f s \<union> {io_base iob..<io_base iob + length bs}) (os_mem s) m"
proof -
  define k where "k = min (io_resid iob) (di_size (get_din n s) - off)"
  note d = sfs_fileD [OF assms(1)]
  have bs: "length (take (io_resid iob) (drop off (file_contents n s))) = k" by (simp add: k_def min.commute)
  have sl: "take k (drop off (file_contents n s)) = take (io_resid iob) (drop off (file_contents n s))"
    by (simp add: k_def min_def)
  have "{io_base iob..<io_base iob + k} \<subseteq> {io_base iob..<io_base iob + io_resid iob}" by (auto simp: k_def)
  then have dis: "{io_base iob..<io_base iob + k} \<inter> fs_mem f s = {}" using assms(5) by blast
  obtain m where m: "sfs_read V n iob s = Some (0, io_advance k iob, with_mem m s)" "got f n s (io_base iob) off k m"
    using sfs_read_ok [OF assms(1-4) dis [unfolded k_def]] unfolding k_def by blast
  have so: "same_off (scratch f s \<union> {io_base iob..<io_base iob + k}) (os_mem s) m" using m(2) by (simp add: got_def)
  note u = user_buffer [OF d(1) so dis] and fk = file_user_buffer [OF d(1,2) so dis]
  have "file_byte n (with_mem m s) p = file_byte n s p" if "p < di_size (get_din n s)" for p
    using fk(3) [of p] that d(4) by simp
  then have "file_contents n (with_mem m s) = file_contents n s" by (auto simp: file_contents_def file_data_def)
  moreover have "sfs_file f n (with_mem m s)" using assms(1) u(1) fk(1) by (simp add: sfs_file_def)
  moreover have "read_bytes m (io_base iob) k = take k (drop off (file_contents n s))"
  proof (cases "k = 0")
    case False
    then have "off + k \<le> di_size (get_din n s)" by (auto simp: k_def)
    then show ?thesis using m(2) file_data_slice by (simp add: got_def)
  qed (simp add: read_bytes_def)
  ultimately show ?thesis using m(1) so bs sl by (intro exI [of _ m]) (simp add: Let_def)
qed

theorem sfs_read_takes_slice_witness:
  "\<exists>m. let iob = iobuf_init 100000 4 2; bs = take 4 (drop 2 (file_contents 20 example_disk)) in
     sfs_read (ucore_vops default_sched_class 0) 20 iob example_disk = Some (0, io_advance (length bs) iob, with_mem m example_disk)
     \<and> read_bytes m 100000 (length bs) = bs"
  using sfs_read_takes_slice [OF example_file [of 20], of "iobuf_init 100000 4 2" 2 "ucore_vops default_sched_class 0"]
  by (auto simp: iobuf_init_def SFS_MAX_FILE_SIZE_def example_buffer Let_def)

text \<open>C30: \<open>sfs_write\<close> to a regular file refines the replacement of a slice of its contents, which may begin anywhere
  up to the end and reach beyond it: it takes the caller's bytes, allocates the blocks that are missing, updates the size,
  and leaves the file system mounted and in order; every other file, sharing no block with this one, keeps its contents.\<close>

theorem sfs_write_replaces_slice:
  assumes "sfs_file f n s" and "io_offset iob = int off" and "0 < io_resid iob"
    and "off \<le> di_size (get_din n s)" and "off + io_resid iob \<le> 4096 * MAX_BLOCKS"
    and "{io_base iob..<io_base iob + io_resid iob} \<inter> fs_mem f s = {}"
    and "di_blocks (get_din n s) < blocks_for (off + io_resid iob)
      \<Longrightarrow> blocks_for (off + io_resid iob) < di_blocks (get_din n s) + avail f n s"
  shows "\<exists>u. let bs = read_bytes (os_mem s) (io_base iob) (io_resid iob) in
     sfs_write V n iob s = Some (0, io_advance (length bs) iob, u)
     \<and> sfs_file f n u \<and> file_contents n u = patch off bs (file_contents n s)
     \<and> (\<forall>k. k \<noteq> n \<and> sfs_file f k s \<and> own_blocks k s \<inter> own_blocks n s \<subseteq> {0}
          \<longrightarrow> sfs_file f k u \<and> file_contents k u = file_contents k s)"
proof -
  note d = sfs_fileD [OF assms(1)]
  have le: "off \<le> 4096 * di_blocks (get_din n s)" using assms(4) d(4) by linarith
  let ?bs = "read_bytes (os_mem s) (io_base iob) (io_resid iob)"
  obtain u where u: "sfs_write V n iob s = Some (0, io_advance (length ?bs) iob, u)" "sfs_file f n u" "fs_to f s u"
    "di_size (get_din n u) = max (di_size (get_din n s)) (off + length ?bs)"
    "\<forall>p<4096 * di_blocks (get_din n u). file_byte n u p =
          (if off \<le> p \<and> p < off + length ?bs then ?bs ! (p - off)
           else if p < 4096 * di_blocks (get_din n s) then file_byte n s p else 0)"
    "\<forall>b\<in>used_blocks f s. b \<in> used_blocks f u \<and> (b \<notin> own_blocks n s \<longrightarrow> disk_block b u = disk_block b s)"
    "\<forall>k. k \<noteq> n \<longrightarrow> get_sin k u = get_sin k s"
    using sfs_write_ok [OF assms(1-3) le assms(5,6), of V] assms(7) by blast
  have c: "file_contents n u = patch off ?bs (file_contents n s)"
    by (rule contents_write [OF u(4) assms(4) d(4) sfs_fileD(4) [OF u(2)] u(5)])
  have other: "sfs_file f k u \<and> file_contents k u = file_contents k s"
    if k: "k \<noteq> n" "sfs_file f k s" "own_blocks k s \<inter> own_blocks n s \<subseteq> {0}" for k
  proof -
    have gs: "get_sin k u = get_sin k s" using u(7) k(1) by blast
    then have gd: "get_din k u = get_din k s" by (simp add: get_din_def)
    note o = contents_other [OF sfs_fileD(2,4) [OF k(2)] gs k(3) u(6)]
    have fr: "sfs_frame s u" using u(3) by (simp add: fs_to_def)
    have "sfs_file f k u"
      using k(2) o(1) fs_toD(1) [OF u(3)] sfs_frameD(1,2,9) [OF fr] by (simp add: sfs_file_def gd)
    with o(2) show ?thesis by blast
  qed
  show ?thesis unfolding Let_def using u(1,2) c other by blast
qed

theorem sfs_write_replaces_slice_witness:
  "\<exists>u. let iob = iobuf_init 100000 6000 2; bs = read_bytes example_mem 100000 6000 in
     sfs_write (ucore_vops default_sched_class 0) 20 iob example_disk = Some (0, io_advance 6000 iob, u)
     \<and> file_contents 20 u = patch 2 bs (file_contents 20 example_disk) \<and> file_contents 21 u = file_contents 21 example_disk"
proof -
  have "\<exists>u. let iob = iobuf_init 100000 6000 2; bs = read_bytes (os_mem example_disk) (io_base iob) (io_resid iob) in
     sfs_write (ucore_vops default_sched_class 0) 20 iob example_disk = Some (0, io_advance (length bs) iob, u)
     \<and> sfs_file 10 20 u \<and> file_contents 20 u = patch 2 bs (file_contents 20 example_disk)
     \<and> (\<forall>k. k \<noteq> 20 \<and> sfs_file 10 k example_disk \<and> own_blocks k example_disk \<inter> own_blocks 20 example_disk \<subseteq> {0}
          \<longrightarrow> sfs_file 10 k u \<and> file_contents k u = file_contents k example_disk)"
    unfolding Let_def
    by (rule sfs_write_replaces_slice [unfolded Let_def])
      (auto simp: example_file iobuf_init_def example_din_def MAX_BLOCKS_eq example_buffer blocks_for_def avail_def example_free)
  then show ?thesis
    using example_file [of 21] example_own by (auto simp: Let_def iobuf_init_def)
qed

text \<open>What is written to a file is read back: after a \<open>sfs_write\<close>, a \<open>sfs_read\<close> of the same length at the same
  offset into another buffer delivers the bytes that were written.\<close>

theorem sfs_write_read_roundtrip:
  assumes "sfs_file f n s" and "io_offset iob = int off" and "io_offset iob' = int off" and "0 < io_resid iob" and "io_resid iob' = io_resid iob"
    and "off \<le> di_size (get_din n s)" and "off + io_resid iob \<le> 4096 * MAX_BLOCKS"
    and "{io_base iob..<io_base iob + io_resid iob} \<inter> fs_mem f s = {}"
    and "{io_base iob'..<io_base iob' + io_resid iob} \<inter> fs_mem f s = {}"
    and "di_blocks (get_din n s) < blocks_for (off + io_resid iob)
      \<Longrightarrow> blocks_for (off + io_resid iob) < di_blocks (get_din n s) + avail f n s"
  shows "\<exists>u m. sfs_write V n iob s = Some (0, io_advance (io_resid iob) iob, u)
     \<and> sfs_read V n iob' u = Some (0, io_advance (io_resid iob) iob', with_mem m u)
     \<and> read_bytes m (io_base iob') (io_resid iob) = read_bytes (os_mem s) (io_base iob) (io_resid iob)"
proof -
  note d = sfs_fileD [OF assms(1)]
  have le: "off \<le> 4096 * di_blocks (get_din n s)" using assms(6) d(4) by linarith
  let ?bs = "read_bytes (os_mem s) (io_base iob) (io_resid iob)"
  obtain u where u: "sfs_write V n iob s = Some (0, io_advance (length ?bs) iob, u)" "sfs_file f n u" "fs_to f s u"
    "di_size (get_din n u) = max (di_size (get_din n s)) (off + length ?bs)"
    "\<forall>p<4096 * di_blocks (get_din n u). file_byte n u p =
          (if off \<le> p \<and> p < off + length ?bs then ?bs ! (p - off)
           else if p < 4096 * di_blocks (get_din n s) then file_byte n s p else 0)"
    using sfs_write_ok [OF assms(1,2,4) le assms(7,8), of V] assms(10) by blast
  have k: "min (io_resid iob') (di_size (get_din n u) - off) = io_resid iob" using u(4) assms(5) by simp
  have lim: "off < SFS_MAX_FILE_SIZE" "off + io_resid iob' < 9223372036854775808"
    using assms(4,5,7) by (simp_all add: SFS_MAX_FILE_SIZE_def MAX_BLOCKS_eq)
  have dis: "{io_base iob'..<io_base iob' + io_resid iob} \<inter> fs_mem f u = {}"
    using assms(9) same_geoD(10) [OF fs_toD(2) [OF u(3)]] by simp
  obtain m where m: "sfs_read V n iob' u = Some (0, io_advance (io_resid iob) iob', with_mem m u)"
    "got f n u (io_base iob') off (io_resid iob) m"
    using sfs_read_ok [OF u(2) assms(3) lim, of V, unfolded k] dis by blast
  have "file_data n u off (io_resid iob) = ?bs"
  proof (rule nth_equalityI)
    fix j assume "j < length (file_data n u off (io_resid iob))"
    then have j: "j < io_resid iob" by simp
    have "off + j < 4096 * di_blocks (get_din n u)" using j u(4) sfs_fileD(4) [OF u(2)] by simp
    then have "file_byte n u (off + j) = ?bs ! j" using u(5) j by simp
    then show "file_data n u off (io_resid iob) ! j = ?bs ! j" using j by (simp add: file_data_def)
  qed simp
  then show ?thesis using u(1) m by (auto simp: got_def)
qed

theorem sfs_write_read_roundtrip_witness:
  "\<exists>u m. sfs_write (ucore_vops default_sched_class 0) 20 (iobuf_init 100000 6000 2) example_disk = Some (0, io_advance 6000 (iobuf_init 100000 6000 2), u)
     \<and> sfs_read (ucore_vops default_sched_class 0) 20 (iobuf_init 200000 6000 2) u = Some (0, io_advance 6000 (iobuf_init 200000 6000 2), with_mem m u)
     \<and> read_bytes m 200000 6000 = read_bytes example_mem 100000 6000"
  using sfs_write_read_roundtrip [of 10 20 example_disk "iobuf_init 100000 6000 2" 2 "iobuf_init 200000 6000 2" "ucore_vops default_sched_class 0"]
  by (simp add: example_file iobuf_init_def example_din_def MAX_BLOCKS_eq example_buffer blocks_for_def avail_def example_free)

end
