(* ===== verification/File_Counts.thy ===== *)
theory File_Counts
  imports File_Model
begin

text \<open>
  The inode counters against the tables: \<open>open_count\<close> of an inode is the number of open table entries that refer to
  it, \<open>ref_count\<close> that number plus the working directories plus the references held elsewhere.  Duplicating and
  destroying a table keep this.
\<close>

section \<open>The invariant\<close>

definition opened :: "'d os \<Rightarrow> nat set \<Rightarrow> nat \<Rightarrow> (nat \<times> nat) set" where
  "opened s F n = {f. fst f \<in> F \<and> snd f < FILES_STRUCT_NENTRY \<and> f_status (get_file f s) = FD_OPENED \<and> f_node (get_file f s) = Some n}"

definition pwds :: "'d os \<Rightarrow> nat set \<Rightarrow> nat \<Rightarrow> nat set" where
  "pwds s P n = {p \<in> P. fl_pwd (os_files s p) = Some n}"

definition entry_ok :: "'d os \<Rightarrow> nat \<times> nat \<Rightarrow> bool" where
  "entry_ok s f \<longleftrightarrow> f_fd (get_file f s) = int (snd f)
     \<and> (case f_status (get_file f s) of
          FD_NONE \<Rightarrow> fopen_count f s = 0
        | FD_OPENED \<Rightarrow> fopen_count f s = 1 \<and> f_node (get_file f s) \<noteq> None
        | _ \<Rightarrow> False)"

text \<open>\<open>F\<close> are the tables in use, \<open>P\<close> those whose working directory holds a reference, \<open>E n\<close> the number of other
  references to the inode \<open>n\<close>.\<close>

definition files_ok :: "'d os \<Rightarrow> nat set \<Rightarrow> nat set \<Rightarrow> (nat \<Rightarrow> nat) \<Rightarrow> bool" where
  "files_ok s F P E \<longleftrightarrow> finite F \<and> finite P
     \<and> (\<forall>p\<in>F. \<forall>i<FILES_STRUCT_NENTRY. entry_ok s (p, i))
     \<and> (\<forall>n. inode_open_count n s = int (card (opened s F n))
          \<and> inode_ref_count n s = int (card (opened s F n) + card (pwds s P n) + E n)
          \<and> inode_ref_count n s < MAX_INODE_COUNT
          \<and> (0 < inode_ref_count n s \<longrightarrow> in_ops (os_nodes s n)))"

text \<open>What is asked of the last close and of the reclaiming of an inode: they succeed and change neither the tables
  nor the counters, and no other inode.\<close>

definition drivers_ok :: "'d vops \<Rightarrow> bool" where
  "drivers_ok V \<longleftrightarrow>
     (\<forall>n s. \<exists>r t. op_close V n s = Some (r, t) \<and> os_files t = os_files s \<and> os_nodes t = os_nodes s)
     \<and> (\<forall>n s. \<exists>r t. op_reclaim V n s = Some (r, t) \<and> os_files t = os_files s \<and> (\<forall>m. m \<noteq> n \<longrightarrow> os_nodes t m = os_nodes s m)
          \<and> inode_ref_count n t = inode_ref_count n s \<and> inode_open_count n t = inode_open_count n s)"

lemma finite_opened: "finite F \<Longrightarrow> finite (opened s F n)"
proof -
  assume "finite F"
  moreover have "opened s F n \<subseteq> F \<times> {..<FILES_STRUCT_NENTRY}" by (auto simp: opened_def)
  ultimately show ?thesis by (metis finite_SigmaI finite_lessThan finite_subset)
qed

lemma finite_pwds: "finite P \<Longrightarrow> finite (pwds s P n)"
  by (simp add: pwds_def)

lemma upd_node_simps [simp]:
  "os_files (upd_node n f s) = os_files s" "os_nodes (upd_node n f s) = (os_nodes s)(n := f (os_nodes s n))"
  "get_file x (upd_node n f s) = get_file x s" "fopen_count x (upd_node n f s) = fopen_count x s"
  "os_vm (upd_node n f s) = os_vm s"
  by (simp_all add: upd_node_def get_file_def fopen_count_def)

lemma upd_file_simps [simp]:
  "os_nodes (upd_file f g s) = os_nodes s" "inode_ref_count n (upd_file f g s) = inode_ref_count n s"
  "inode_open_count n (upd_file f g s) = inode_open_count n s" "os_vm (upd_file f g s) = os_vm s"
  "get_file x (upd_file f g s) = (if x = f then g (get_file f s) else get_file x s)"
  "fl_pwd (os_files (upd_file f g s) p) = fl_pwd (os_files s p)"
  "fl_count (os_files (upd_file f g s) p) = fl_count (os_files s p)"
  by (cases x; cases f; auto simp: upd_file_def upd_files_def get_file_def inode_ref_count_def inode_open_count_def)+

lemma inode_counts_upd [simp]:
  "inode_ref_count m (upd_node n f s) = (if m = n then in_ref (f (os_nodes s n)) else inode_ref_count m s)"
  "inode_open_count m (upd_node n f s) = (if m = n then in_open (f (os_nodes s n)) else inode_open_count m s)"
  by (simp_all add: inode_ref_count_def inode_open_count_def)

text \<open>Two states with the same tables up to the entries that matter.\<close>

definition same_tables :: "'d os \<Rightarrow> 'd os \<Rightarrow> nat \<times> nat \<Rightarrow> bool" where
  "same_tables s t f \<longleftrightarrow> (\<forall>x. x \<noteq> f \<longrightarrow> get_file x t = get_file x s)
     \<and> (\<forall>p. fl_pwd (os_files t p) = fl_pwd (os_files s p) \<and> fl_count (os_files t p) = fl_count (os_files s p))"

lemma entry_ok_same: "get_file x t = get_file x s \<Longrightarrow> entry_ok t x = entry_ok s x"
  by (simp add: entry_ok_def fopen_count_def cong: fstatus.case_cong)

lemma same_tables_views:
  assumes "same_tables s t f"
  shows "pwds t P n = pwds s P n" "x \<noteq> f \<Longrightarrow> entry_ok t x = entry_ok s x"
    "opened t F n - {f} = opened s F n - {f}"
proof -
  show "pwds t P n = pwds s P n" "opened t F n - {f} = opened s F n - {f}"
    using assms by (auto simp: same_tables_def pwds_def opened_def)
  assume "x \<noteq> f"
  then have "get_file x t = get_file x s" using assms unfolding same_tables_def by blast
  then show "entry_ok t x = entry_ok s x" by (rule entry_ok_same)
qed

lemma same_tables_entries:
  assumes "files_ok s F P E" "same_tables s t f" "entry_ok t f"
  shows "\<forall>p\<in>F. \<forall>i<FILES_STRUCT_NENTRY. entry_ok t (p, i)"
proof (intro ballI allI impI)
  fix p i assume "p \<in> F" "i < FILES_STRUCT_NENTRY"
  then have "entry_ok s (p, i)" using assms(1) unfolding files_ok_def by blast
  then show "entry_ok t (p, i)"
    using assms(3) same_tables_views(2) [OF assms(2), of "(p, i)"] by (cases "(p, i) = f") simp_all
qed

section \<open>Closing one entry\<close>

lemma ref_dec_ok:
  assumes d: "drivers_ok V" and r: "0 < inode_ref_count n s" and ops: "in_ops (os_nodes s n)"
    and z: "0 \<le> inode_open_count n s" "inode_open_count n s < inode_ref_count n s" and mx: "inode_ref_count n s < MAX_INODE_COUNT"
  shows "\<exists>t. inode_ref_dec V n s = Some (inode_ref_count n s - 1, t) \<and> os_files t = os_files s
     \<and> (\<forall>m. m \<noteq> n \<longrightarrow> os_nodes t m = os_nodes s m) \<and> inode_ref_count n t = inode_ref_count n s - 1
     \<and> inode_open_count n t = inode_open_count n s \<and> (1 < inode_ref_count n s \<longrightarrow> in_ops (os_nodes t n))"
proof -
  let ?s1 = "upd_node n (\<lambda>x. x\<lparr>in_ref := in_ref x - 1\<rparr>) s"
  have c: "inode_ref_count n ?s1 = inode_ref_count n s - 1" "inode_open_count n ?s1 = inode_open_count n s"
    by (simp_all add: inode_ref_count_def inode_open_count_def)
  show ?thesis
  proof (cases "inode_ref_count n s = 1")
    case True
    have "inode_check n ?s1 = Some ()" using c True z ops by (simp add: inode_check_def MAX_INODE_COUNT_def)
    moreover obtain ret t where t: "op_reclaim V n ?s1 = Some (ret, t)" "os_files t = os_files ?s1"
      "\<forall>m. m \<noteq> n \<longrightarrow> os_nodes t m = os_nodes ?s1 m" "inode_ref_count n t = inode_ref_count n ?s1" "inode_open_count n t = inode_open_count n ?s1"
      using d unfolding drivers_ok_def by blast
    ultimately have "inode_ref_dec V n s = Some (0, t)"
      using c(1) True r by (simp add: inode_ref_dec_def vop_reclaim_def Let_def)
    then show ?thesis using t c True by simp
  next
    case False
    then have "inode_ref_dec V n s = Some (inode_ref_count n s - 1, ?s1)"
      using c(1) r by (simp add: inode_ref_dec_def Let_def)
    then show ?thesis using c ops by simp
  qed
qed

lemma open_dec_ok:
  assumes d: "drivers_ok V" and o: "0 < inode_open_count n s" and ops: "in_ops (os_nodes s n)"
    and z: "inode_open_count n s \<le> inode_ref_count n s" and mx: "inode_ref_count n s < MAX_INODE_COUNT"
  shows "\<exists>t. inode_open_dec V n s = Some (inode_open_count n s - 1, t) \<and> os_files t = os_files s
     \<and> (\<forall>m. m \<noteq> n \<longrightarrow> os_nodes t m = os_nodes s m) \<and> inode_ref_count n t = inode_ref_count n s
     \<and> inode_open_count n t = inode_open_count n s - 1 \<and> in_ops (os_nodes t n)"
proof -
  let ?s1 = "upd_node n (\<lambda>x. x\<lparr>in_open := in_open x - 1\<rparr>) s"
  have c: "inode_ref_count n ?s1 = inode_ref_count n s" "inode_open_count n ?s1 = inode_open_count n s - 1"
    by (simp_all add: inode_ref_count_def inode_open_count_def)
  show ?thesis
  proof (cases "inode_open_count n s = 1")
    case True
    have "inode_check n ?s1 = Some ()" using c True z ops mx by (simp add: inode_check_def MAX_INODE_COUNT_def)
    moreover obtain ret t where t: "op_close V n ?s1 = Some (ret, t)" "os_files t = os_files ?s1" "os_nodes t = os_nodes ?s1"
      using d unfolding drivers_ok_def by blast
    ultimately have "inode_open_dec V n s = Some (0, t)"
      using c(2) True o by (simp add: inode_open_dec_def vop_close_def Let_def)
    then show ?thesis using t c True ops by (simp add: inode_ref_count_def inode_open_count_def)
  next
    case False
    then have "inode_open_dec V n s = Some (inode_open_count n s - 1, ?s1)"
      using c(2) o by (simp add: inode_open_dec_def Let_def)
    then show ?thesis using c ops by simp
  qed
qed

lemma vfs_close_ok:
  assumes d: "drivers_ok V" and o: "0 < inode_open_count n s" and ops: "in_ops (os_nodes s n)"
    and z: "inode_open_count n s \<le> inode_ref_count n s" and mx: "inode_ref_count n s < MAX_INODE_COUNT"
  shows "\<exists>t. vfs_close V n s = Some (0, t) \<and> os_files t = os_files s
     \<and> (\<forall>m. m \<noteq> n \<longrightarrow> os_nodes t m = os_nodes s m) \<and> inode_ref_count n t = inode_ref_count n s - 1
     \<and> inode_open_count n t = inode_open_count n s - 1 \<and> (1 < inode_ref_count n s \<longrightarrow> in_ops (os_nodes t n))"
proof -
  obtain t where t: "inode_open_dec V n s = Some (inode_open_count n s - 1, t)" "os_files t = os_files s"
     "\<forall>m. m \<noteq> n \<longrightarrow> os_nodes t m = os_nodes s m" "inode_ref_count n t = inode_ref_count n s"
     "inode_open_count n t = inode_open_count n s - 1" "in_ops (os_nodes t n)"
    using open_dec_ok [OF assms] by blast
  have "0 < inode_ref_count n t" "0 \<le> inode_open_count n t" "inode_open_count n t < inode_ref_count n t" "inode_ref_count n t < MAX_INODE_COUNT"
    using t(4,5) o z mx by auto
  from ref_dec_ok [OF d this(1) t(6) this(2-4)] t show ?thesis by (auto simp: vfs_close_def)
qed

lemma close_entry:
  assumes ok: "files_ok s F P E" and d: "drivers_ok V" and f: "fst f \<in> F" "snd f < FILES_STRUCT_NENTRY" "f_status (get_file f s) = FD_OPENED"
  shows "\<exists>t. fd_array_close V f s = Some t \<and> files_ok t F P E \<and> f_status (get_file f t) = FD_NONE \<and> same_tables s t f"
proof -
  have fin: "finite F" "finite P" using ok by (simp_all add: files_ok_def)
  have e: "entry_ok s f" using ok f(1,2) by (cases f) (auto simp: files_ok_def)
  then obtain n where n: "f_node (get_file f s) = Some n" and oc: "fopen_count f s = 1" and fd: "f_fd (get_file f s) = int (snd f)"
    using f(3) by (auto simp: entry_ok_def)
  have cnt: "inode_open_count m s = int (card (opened s F m))"
      "inode_ref_count m s = int (card (opened s F m) + card (pwds s P m) + E m)"
      "inode_ref_count m s < MAX_INODE_COUNT" "0 < inode_ref_count m s \<Longrightarrow> in_ops (os_nodes s m)" for m
    using ok unfolding files_ok_def by blast+
  have fo: "f \<in> opened s F n" using f n by (simp add: opened_def)
  then have pos: "0 < card (opened s F n)" using finite_opened [OF fin(1)] by (auto simp: card_gt_0_iff)
  let ?s1 = "upd_file f (\<lambda>x. x\<lparr>f_status := FD_CLOSED\<rparr>) s"
  let ?s2 = "upd_file f (\<lambda>x. x\<lparr>f_open_count := f_open_count x - 1\<rparr>) ?s1"
  have "0 < inode_open_count n ?s2" "in_ops (os_nodes ?s2 n)" "inode_open_count n ?s2 \<le> inode_ref_count n ?s2"
    "inode_ref_count n ?s2 < MAX_INODE_COUNT"
    using cnt [of n] pos by auto
  from vfs_close_ok [OF d this] obtain t where t: "vfs_close V n ?s2 = Some (0, t)" "os_files t = os_files ?s2"
     "\<forall>m. m \<noteq> n \<longrightarrow> os_nodes t m = os_nodes ?s2 m" "inode_ref_count n t = inode_ref_count n ?s2 - 1"
     "inode_open_count n t = inode_open_count n ?s2 - 1" "1 < inode_ref_count n ?s2 \<longrightarrow> in_ops (os_nodes t n)" by blast
  let ?t = "upd_file f (\<lambda>x. x\<lparr>f_status := FD_NONE\<rparr>) t"
  have gt: "get_file x t = get_file x ?s2" for x using t(2) by (simp add: get_file_def)
  have "fopen_count f ?s2 = 0" using oc by (simp add: fopen_count_def)
  moreover have "f_status (get_file f ?s2) = FD_CLOSED" "f_node (get_file f ?s2) = Some n" using n by simp_all
  ultimately have "fd_array_free V f ?s2 = Some ?t" using t(1) by (simp add: fd_array_free_def)
  then have "fd_array_close V f s = Some ?t"
    using f(3) oc by (simp add: fd_array_close_def fopen_count_dec_def Let_def fopen_count_def)
  moreover have st: "same_tables s ?t f" by (auto simp: same_tables_def gt t(2))
  moreover have none: "f_status (get_file f ?t) = FD_NONE" by simp
  moreover have "files_ok ?t F P E"
  proof -
    have "entry_ok ?t f" using fd oc by (simp add: entry_ok_def fopen_count_def gt)
    then have en: "\<forall>p\<in>F. \<forall>i<FILES_STRUCT_NENTRY. entry_ok ?t (p, i)"
      by (rule same_tables_entries [OF ok st])
    have op: "opened ?t F m = opened s F m - {f}" for m
      using same_tables_views(3) [OF st, of F m] none by (auto simp: opened_def)
    have pw: "pwds ?t P m = pwds s P m" for m by (rule same_tables_views(1) [OF st])
    have cn: "card (opened ?t F m) = card (opened s F m) - (if m = n then 1 else 0)" for m
      using fo n by (auto simp: op) (auto simp: opened_def)
    have "inode_open_count m ?t = int (card (opened ?t F m))
          \<and> inode_ref_count m ?t = int (card (opened ?t F m) + card (pwds ?t P m) + E m)
          \<and> inode_ref_count m ?t < MAX_INODE_COUNT
          \<and> (0 < inode_ref_count m ?t \<longrightarrow> in_ops (os_nodes ?t m))" for m
    proof (cases "m = n")
      case True
      then show ?thesis using t(4-6) cnt [of n] pos cn [of n] by (auto simp: pw of_nat_diff)
    next
      case False
      then have "os_nodes t m = os_nodes s m" using t(3) by simp
      then have "inode_ref_count m t = inode_ref_count m s" "inode_open_count m t = inode_open_count m s"
        by (simp_all add: inode_ref_count_def inode_open_count_def)
      then show ?thesis using False cnt [of m] cn [of m] \<open>os_nodes t m = os_nodes s m\<close> by (simp add: pw)
    qed
    then show ?thesis using fin en unfolding files_ok_def by blast
  qed
  ultimately show ?thesis by blast
qed


section \<open>Destroying a table\<close>

lemma destroy_loop_ok:
  assumes "files_ok s F P E" and d: "drivers_ok V" and p: "p \<in> F" and "i + n \<le> FILES_STRUCT_NENTRY"
  shows "\<exists>t. destroy_loop V p i n s = Some t \<and> files_ok t F P E
     \<and> (\<forall>x. fst x \<noteq> p \<or> snd x < i \<or> i + n \<le> snd x \<longrightarrow> get_file x t = get_file x s)
     \<and> (\<forall>j. i \<le> j \<and> j < i + n \<longrightarrow> f_status (get_file (p, j) t) = FD_NONE)
     \<and> (\<forall>q. fl_pwd (os_files t q) = fl_pwd (os_files s q) \<and> fl_count (os_files t q) = fl_count (os_files s q))"
  using assms(1,4)
proof (induction n arbitrary: i s)
  case 0
  then show ?case by auto
next
  case (Suc n)
  have e: "entry_ok s (p, i)" using Suc.prems p unfolding files_ok_def by auto
  obtain s1 where s1: "(if f_status (get_file (p, i) s) = FD_OPENED then fd_array_close V (p, i) s else Some s) = Some s1"
    "files_ok s1 F P E" "f_status (get_file (p, i) s1) = FD_NONE" "same_tables s s1 (p, i)"
  proof (cases "f_status (get_file (p, i) s) = FD_OPENED")
    case True
    from close_entry [OF Suc.prems(1) d, of "(p, i)"] True p Suc.prems(2) show ?thesis by (auto intro: that)
  next
    case False
    then have "f_status (get_file (p, i) s) = FD_NONE" using e by (simp add: entry_ok_def split: fstatus.splits)
    then show ?thesis using False Suc.prems(1) by (auto intro!: that [of s] simp: same_tables_def)
  qed
  have "Suc i + n \<le> FILES_STRUCT_NENTRY" using Suc.prems(2) by simp
  from Suc.IH [OF s1(2) this] obtain t where t: "destroy_loop V p (Suc i) n s1 = Some t" "files_ok t F P E"
     "\<forall>x. fst x \<noteq> p \<or> snd x < Suc i \<or> Suc i + n \<le> snd x \<longrightarrow> get_file x t = get_file x s1"
     "\<forall>j. Suc i \<le> j \<and> j < Suc i + n \<longrightarrow> f_status (get_file (p, j) t) = FD_NONE"
     "\<forall>q. fl_pwd (os_files t q) = fl_pwd (os_files s1 q) \<and> fl_count (os_files t q) = fl_count (os_files s1 q)" by blast
  have "destroy_loop V p i (Suc n) s = Some t" using s1(1,3) t(1) by simp
  moreover have "\<forall>x. fst x \<noteq> p \<or> snd x < i \<or> i + Suc n \<le> snd x \<longrightarrow> get_file x t = get_file x s"
  proof (intro allI impI)
    fix x :: "nat \<times> nat" assume x: "fst x \<noteq> p \<or> snd x < i \<or> i + Suc n \<le> snd x"
    then have "fst x \<noteq> p \<or> snd x < Suc i \<or> Suc i + n \<le> snd x" "x \<noteq> (p, i)" by auto
    then have "get_file x t = get_file x s1" "x \<noteq> (p, i)" using t(3) by blast+
    moreover have "get_file x s1 = get_file x s" using s1(4) \<open>x \<noteq> (p, i)\<close> unfolding same_tables_def by blast
    ultimately show "get_file x t = get_file x s" by simp
  qed
  moreover have "f_status (get_file (p, i) t) = FD_NONE" using t(3) s1(3) by simp
  then have "\<forall>j. i \<le> j \<and> j < i + Suc n \<longrightarrow> f_status (get_file (p, j) t) = FD_NONE"
    using t(4) by (metis add_Suc_shift le_neq_implies_less Suc_leI)
  ultimately show ?case using t(2,5) s1(4) unfolding same_tables_def by metis
qed

lemma drop_table:
  assumes "files_ok s F P E" "\<And>i. i < FILES_STRUCT_NENTRY \<Longrightarrow> f_status (get_file (p, i) s) = FD_NONE"
  shows "files_ok s (F - {p}) P E"
proof -
  have eq: "opened s (F - {p}) = opened s F" using assms(2) by (auto simp: opened_def fun_eq_iff)
  show ?thesis using assms(1) unfolding files_ok_def eq by blast
qed

lemma add_table:
  assumes "files_ok s F P E" "\<And>i. i < FILES_STRUCT_NENTRY \<Longrightarrow> f_status (get_file (p, i) s) = FD_NONE \<and> entry_ok s (p, i)"
  shows "files_ok s (insert p F) P E"
proof -
  have eq: "opened s (insert p F) = opened s F" using assms(2) by (auto simp: opened_def fun_eq_iff)
  show ?thesis using assms unfolding files_ok_def eq by blast
qed

lemma same_pwds:
  assumes "files_ok s F P E" "finite Q" "pwds s Q = pwds s P"
  shows "files_ok s F Q E"
  using assms(1,2) unfolding files_ok_def assms(3) by (elim conjE) (intro conjI)

lemma drop_pwd:
  assumes ok: "files_ok s F P E" and d: "drivers_ok V" and p: "p \<in> P" "fl_pwd (os_files s p) = Some n"
  shows "\<exists>c t. inode_ref_dec V n s = Some (c, t) \<and> files_ok t F (P - {p}) E \<and> os_files t = os_files s"
proof -
  have fin: "finite F" "finite P" using ok by (simp_all add: files_ok_def)
  have cnt: "inode_open_count m s = int (card (opened s F m))"
      "inode_ref_count m s = int (card (opened s F m) + card (pwds s P m) + E m)"
      "inode_ref_count m s < MAX_INODE_COUNT" "0 < inode_ref_count m s \<Longrightarrow> in_ops (os_nodes s m)" for m
    using ok unfolding files_ok_def by blast+
  have "p \<in> pwds s P n" using p by (simp add: pwds_def)
  then have pos: "0 < card (pwds s P n)" using finite_pwds [OF fin(2)] by (auto simp: card_gt_0_iff)
  have "0 < inode_ref_count n s" "in_ops (os_nodes s n)" "0 \<le> inode_open_count n s"
    "inode_open_count n s < inode_ref_count n s" "inode_ref_count n s < MAX_INODE_COUNT"
    using cnt [of n] pos by auto
  from ref_dec_ok [OF d this] obtain t where t: "inode_ref_dec V n s = Some (inode_ref_count n s - 1, t)" "os_files t = os_files s"
     "\<forall>m. m \<noteq> n \<longrightarrow> os_nodes t m = os_nodes s m" "inode_ref_count n t = inode_ref_count n s - 1"
     "inode_open_count n t = inode_open_count n s" "1 < inode_ref_count n s \<longrightarrow> in_ops (os_nodes t n)" by blast
  have gf: "get_file x t = get_file x s" for x using t(2) by (simp add: get_file_def)
  have op: "opened t F m = opened s F m" for m by (simp add: opened_def gf)
  have pw: "pwds t (P - {p}) m = pwds s P m - {p}" for m by (auto simp: pwds_def t(2))
  have cp: "card (pwds t (P - {p}) m) = card (pwds s P m) - (if m = n then 1 else 0)" for m
    using p by (auto simp: pw) (auto simp: pwds_def)
  have en: "\<forall>p\<in>F. \<forall>i<FILES_STRUCT_NENTRY. entry_ok t (p, i)"
    using ok entry_ok_same [OF gf] by (simp add: files_ok_def)
  have "inode_open_count m t = int (card (opened t F m))
          \<and> inode_ref_count m t = int (card (opened t F m) + card (pwds t (P - {p}) m) + E m)
          \<and> inode_ref_count m t < MAX_INODE_COUNT
          \<and> (0 < inode_ref_count m t \<longrightarrow> in_ops (os_nodes t m))" for m
  proof (cases "m = n")
    case True
    then show ?thesis using t(4-6) cnt [of n] pos cp [of n] by (auto simp: op of_nat_diff)
  next
    case False
    then have "os_nodes t m = os_nodes s m" using t(3) by simp
    then have "inode_ref_count m t = inode_ref_count m s" "inode_open_count m t = inode_open_count m s"
      by (simp_all add: inode_ref_count_def inode_open_count_def)
    then show ?thesis using False cnt [of m] cp [of m] \<open>os_nodes t m = os_nodes s m\<close> by (simp add: op)
  qed
  then have "files_ok t F (P - {p}) E" using fin en unfolding files_ok_def by blast
  then show ?thesis using t(1,2) by blast
qed

lemma files_ok_cong:
  assumes "os_files t = os_files s" "os_nodes t = os_nodes s"
  shows "files_ok t F P E = files_ok s F P E"
  using assms by (simp add: files_ok_def entry_ok_def fopen_count_def get_file_def opened_def pwds_def
      inode_ref_count_def inode_open_count_def cong: fstatus.case_cong)

lemma os_kfree_simps [simp]: "os_files (os_kfree p s) = os_files s" "os_nodes (os_kfree p s) = os_nodes s"
  by (simp_all add: os_kfree_def)

lemma destroy_ok:
  assumes ok: "files_ok s F P E" and d: "drivers_ok V" and p: "p \<in> F" "files_count p s = 0"
    and pw: "fl_pwd (os_files s p) \<noteq> None \<Longrightarrow> p \<in> P"
  shows "\<exists>t. files_destroy V p s = Some t \<and> files_ok t (F - {p}) (P - {p}) E
     \<and> (\<forall>q. q \<noteq> p \<longrightarrow> (\<forall>i. get_file (q, i) t = get_file (q, i) s)
          \<and> fl_pwd (os_files t q) = fl_pwd (os_files s q) \<and> fl_count (os_files t q) = fl_count (os_files s q))"
proof -
  obtain s1 where s1: "(case fl_pwd (os_files s p) of
         Some d \<Rightarrow> do { (_, s1) \<leftarrow> inode_ref_dec V d s; Some s1 } | None \<Rightarrow> Some s) = Some s1"
    "files_ok s1 F (P - {p}) E" "os_files s1 = os_files s"
  proof (cases "fl_pwd (os_files s p)")
    case None
    then have "pwds s (P - {p}) n = pwds s P n" for n by (auto simp: pwds_def)
    then have eq: "pwds s (P - {p}) = pwds s P" by blast
    have "files_ok s F (P - {p}) E" using ok unfolding files_ok_def eq by blast
    then show ?thesis using None that [of s] by simp
  next
    case (Some n)
    then have "p \<in> P" using pw by simp
    from drop_pwd [OF ok d this Some] Some show ?thesis by (auto intro: that)
  qed
  from destroy_loop_ok [OF s1(2) d p(1), of 0 FILES_STRUCT_NENTRY] obtain t
    where t: "destroy_loop V p 0 FILES_STRUCT_NENTRY s1 = Some t" "files_ok t F (P - {p}) E"
     "\<forall>x. fst x \<noteq> p \<or> FILES_STRUCT_NENTRY \<le> snd x \<longrightarrow> get_file x t = get_file x s1"
     "\<forall>j < FILES_STRUCT_NENTRY. f_status (get_file (p, j) t) = FD_NONE"
     "\<forall>q. fl_pwd (os_files t q) = fl_pwd (os_files s1 q) \<and> fl_count (os_files t q) = fl_count (os_files s1 q)" by auto
  have "files_destroy V p s = Some (os_kfree p t)" using p(2) s1(1) t(1) by (simp add: files_destroy_def)
  moreover have "files_ok t (F - {p}) (P - {p}) E" using drop_table [OF t(2)] t(4) by simp
  then have "files_ok (os_kfree p t) (F - {p}) (P - {p}) E" by (simp add: files_ok_cong [of "os_kfree p t" t])
  ultimately show ?thesis using t(3,5) s1(3) by (simp add: get_file_def)
qed

section \<open>Duplicating a table\<close>

lemma add_pwd:
  assumes ok: "files_ok s F P E" and p: "p \<notin> P" and n: "inode_ref_count n s + 1 < MAX_INODE_COUNT"
    and ops: "in_ops (os_nodes s n)" and pw: "fl_pwd (os_files s p) = Some n"
  shows "files_ok (snd (inode_ref_inc n s)) F (insert p P) E"
proof -
  let ?t = "snd (inode_ref_inc n s)"
  have fin: "finite F" "finite P" using ok by (simp_all add: files_ok_def)
  have cnt: "inode_open_count m s = int (card (opened s F m))"
      "inode_ref_count m s = int (card (opened s F m) + card (pwds s P m) + E m)"
      "inode_ref_count m s < MAX_INODE_COUNT" "0 < inode_ref_count m s \<Longrightarrow> in_ops (os_nodes s m)" for m
    using ok unfolding files_ok_def by blast+
  have nd: "inode_ref_count m ?t = inode_ref_count m s + (if m = n then 1 else 0)" "inode_open_count m ?t = inode_open_count m s"
    "in_ops (os_nodes ?t m) = in_ops (os_nodes s m)" "os_files ?t = os_files s" for m
    by (simp_all add: inode_ref_inc_def Let_def) (simp_all add: inode_ref_count_def inode_open_count_def)
  have gf: "get_file x ?t = get_file x s" for x by (simp add: get_file_def nd)
  have op: "opened ?t F m = opened s F m" for m by (simp add: opened_def gf)
  have pwd: "pwds ?t (insert p P) m = (if m = n then insert p (pwds s P m) else pwds s P m)" for m
    using pw by (auto simp: pwds_def nd)
  have "p \<notin> pwds s P m" for m using p by (simp add: pwds_def)
  then have cp: "card (pwds ?t (insert p P) m) = card (pwds s P m) + (if m = n then 1 else 0)" for m
    using finite_pwds [OF fin(2), of s m] by (cases "m = n") (simp_all add: pwd)
  have en: "\<forall>p\<in>F. \<forall>i<FILES_STRUCT_NENTRY. entry_ok ?t (p, i)"
    using ok entry_ok_same [OF gf] by (simp add: files_ok_def)
  have "inode_open_count m ?t = int (card (opened ?t F m))
          \<and> inode_ref_count m ?t = int (card (opened ?t F m) + card (pwds ?t (insert p P) m) + E m)
          \<and> inode_ref_count m ?t < MAX_INODE_COUNT
          \<and> (0 < inode_ref_count m ?t \<longrightarrow> in_ops (os_nodes ?t m))" for m
    using cnt [of m] n ops by (cases "m = n") (simp_all add: op cp nd)
  then show ?thesis using fin en unfolding files_ok_def by blast
qed

lemma dup_entry:
  assumes ok: "files_ok s F P E" and f: "fst f \<in> F" "snd f < FILES_STRUCT_NENTRY" "f_status (get_file f s) = FD_OPENED"
    and g: "fst g \<in> F" "snd g < FILES_STRUCT_NENTRY" "f_status (get_file g s) = FD_NONE"
    and room: "\<And>m. inode_ref_count m s + 1 < MAX_INODE_COUNT"
  shows "\<exists>t. fd_array_dup g f (upd_file g (\<lambda>x. x\<lparr>f_status := FD_INIT\<rparr>) s) = Some t \<and> files_ok t F P E
    \<and> get_file g t = (get_file f s)\<lparr>f_fd := int (snd g)\<rparr> \<and> same_tables s t g
    \<and> (\<forall>m. inode_ref_count m t \<le> inode_ref_count m s + 1)"
proof -
  have fin: "finite F" "finite P" using ok by (simp_all add: files_ok_def)
  have ne: "f \<noteq> g" using f(3) g(3) by auto
  have "entry_ok s f" "entry_ok s g" using ok f(1,2) g(1,2) by (cases f; cases g; auto simp: files_ok_def)+
  then obtain n where n: "f_node (get_file f s) = Some n" and oc: "fopen_count f s = 1" "fopen_count g s = 0"
    and fd: "f_fd (get_file g s) = int (snd g)"
    using f(3) g(3) by (auto simp: entry_ok_def)
  have cnt: "inode_open_count m s = int (card (opened s F m))"
      "inode_ref_count m s = int (card (opened s F m) + card (pwds s P m) + E m)"
      "inode_ref_count m s < MAX_INODE_COUNT" "0 < inode_ref_count m s \<Longrightarrow> in_ops (os_nodes s m)" for m
    using ok unfolding files_ok_def by blast+
  let ?x = "get_file f s" let ?y = "get_file g s"
  have "\<exists>t. fd_array_dup g f (upd_file g (\<lambda>x. x\<lparr>f_status := FD_INIT\<rparr>) s) = Some t
     \<and> get_file g t = ?y\<lparr>f_status := FD_OPENED, f_pos := f_pos ?x, f_readable := f_readable ?x, f_writable := f_writable ?x,
            f_node := Some n, f_open_count := 1\<rparr>
     \<and> same_tables s t g \<and> (\<forall>m. inode_ref_count m t = inode_ref_count m s + (if m = n then 1 else 0))
     \<and> (\<forall>m. inode_open_count m t = inode_open_count m s + (if m = n then 1 else 0)) \<and> (\<forall>m. in_ops (os_nodes t m) = in_ops (os_nodes s m))"
    using ne f(3) g(3) n oc
    by (simp add: fd_array_dup_def fd_array_open_def inode_ref_inc_def inode_open_inc_def fopen_count_inc_def Let_def same_tables_def)
      (simp add: fopen_count_def inode_ref_count_def inode_open_count_def)
  then obtain t where t: "fd_array_dup g f (upd_file g (\<lambda>x. x\<lparr>f_status := FD_INIT\<rparr>) s) = Some t"
     "get_file g t = ?y\<lparr>f_status := FD_OPENED, f_pos := f_pos ?x, f_readable := f_readable ?x, f_writable := f_writable ?x,
            f_node := Some n, f_open_count := 1\<rparr>" "same_tables s t g"
     "\<And>m. inode_ref_count m t = inode_ref_count m s + (if m = n then 1 else 0)"
     "\<And>m. inode_open_count m t = inode_open_count m s + (if m = n then 1 else 0)" "\<And>m. in_ops (os_nodes t m) = in_ops (os_nodes s m)" by blast
  have cp: "get_file g t = ?x\<lparr>f_fd := int (snd g)\<rparr>"
    using t(2) f(3) n oc fd by (simp add: fopen_count_def)
  have "entry_ok t g" using t(2) fd by (simp add: entry_ok_def fopen_count_def)
  then have en: "\<forall>p\<in>F. \<forall>i<FILES_STRUCT_NENTRY. entry_ok t (p, i)"
    by (rule same_tables_entries [OF ok t(3)])
  have fo: "f \<in> opened s F n" "g \<notin> opened s F m" for m using f g n by (simp_all add: opened_def)
  have "g \<in> opened t F m \<longleftrightarrow> m = n" for m using t(2) g by (auto simp: opened_def)
  then have op: "opened t F m = (if m = n then insert g (opened s F m) else opened s F m)" for m
    using same_tables_views(3) [OF t(3), of F m] fo(2) [of m] by (cases "m = n") auto
  have co: "card (opened t F m) = card (opened s F m) + (if m = n then 1 else 0)" for m
    using fo(2) [of m] finite_opened [OF fin(1), of s m] by (cases "m = n") (simp_all add: op)
  have "0 < card (opened s F n)" using fo(1) finite_opened [OF fin(1), of s n] by (auto simp: card_gt_0_iff)
  then have pos: "0 < inode_ref_count n s" using cnt [of n] by simp
  have "inode_open_count m t = int (card (opened t F m))
          \<and> inode_ref_count m t = int (card (opened t F m) + card (pwds t P m) + E m)
          \<and> inode_ref_count m t < MAX_INODE_COUNT
          \<and> (0 < inode_ref_count m t \<longrightarrow> in_ops (os_nodes t m))" for m
    using cnt [of m] cnt(4) [OF pos] room [of m] by (cases "m = n") (simp_all add: co t(4-6) same_tables_views(1) [OF t(3)])
  then have "files_ok t F P E" using fin en unfolding files_ok_def by blast
  moreover have "\<forall>m. inode_ref_count m t \<le> inode_ref_count m s + 1" using t(4) by simp
  ultimately show ?thesis using t(1,3) cp by blast
qed

end
