(* ===== verification/Sysread.thy ===== *)
theory Sysread
  imports Sysfile Sfs_Contents Vmm File_Counts
begin

text \<open>
  What \<open>sysfile\_read\<close> promises for a regular file: the layers below it (user memory, open files, inodes, the
  simple file system and its disk) together deliver a slice of the contents of the file to the user's buffer.
\<close>

section \<open>What a file depends on\<close>

definition same_fs :: "ucore \<Rightarrow> ucore \<Rightarrow> bool" where
  "same_fs s t \<longleftrightarrow> os_mem t = os_mem s \<and> os_data t = os_data s \<and> os_nodes t = os_nodes s
     \<and> (\<forall>m. lock_free m (os_kern t) = lock_free m (os_kern s))"

lemma same_fs_sfs:
  assumes "same_fs s t"
  shows "sfs_file f n t = sfs_file f n s" "file_contents n t = file_contents n s" "fs_mem f t = fs_mem f s" "scratch f t = scratch f s"
    "get_din n t = get_din n s"
proof -
  have e: "os_mem t = os_mem s" "os_data t = os_data s" "os_nodes t = os_nodes s" "\<And>m. lock_free m (os_kern t) = lock_free m (os_kern s)"
    using assms by (simp_all add: same_fs_def)
  have gs: "get_sin k t = get_sin k s" for k by (simp add: get_sin_def e)
  show gd: "get_din n t = get_din n s" for n by (simp add: get_din_def gs)
  have gf: "get_sfs f t = get_sfs f s" for f by (simp add: get_sfs_def e)
  have da: "disk_addr t b = disk_addr s b" for b by (simp add: disk_addr_def e)
  then have db: "disk_block b t = disk_block b s" for b by (simp add: disk_block_def e)
  have dr: "disk_region d t = disk_region d s" for d by (simp add: disk_region_def da e)
  have bl: "sfs_blocks f t = sfs_blocks f s" for f by (simp add: sfs_blocks_def gf)
  have rg: "dbuf_region t = dbuf_region s" "sbuf_region f t = sbuf_region f s" "map_region f t = map_region f s" "fs_disk f t = fs_disk f s"
    by (simp_all add: dbuf_region_def sbuf_region_def map_region_def fs_disk_def e gf dr)
  show sc: "scratch f t = scratch f s" by (simp add: scratch_def rg)
  show "fs_mem f t = fs_mem f s" by (simp add: fs_mem_def sc rg)
  have fr: "free_blocks f t = free_blocks f s" by (simp add: free_blocks_def gf e)
  then have us: "used_blocks f t = used_blocks f s" by (simp add: used_blocks_def bl)
  have fm: "fmap n t = fmap n s" by (rule ext) (simp add: fmap_def gd ind_word_def db)
  show "file_contents n t = file_contents n s"
    by (simp add: file_contents_def file_data_def gd file_byte_def fm db)
  have "file_ok f n t = file_ok f n s" by (simp add: file_ok_def gd fm us)
  moreover have "disk_ok d t = disk_ok d s" for d by (simp add: disk_ok_def disk_geo_def e rg da dr VALID_IDE_def)
  then have "fs_geo f t = fs_geo f s" by (simp add: fs_geo_def gf bl e rg sc)
  then have "sfs_ok f t = sfs_ok f s" by (simp add: sfs_ok_def e gf bl fr)
  ultimately show "sfs_file f n t = sfs_file f n s" by (simp add: sfs_file_def gd e)
qed

section \<open>Reading through a descriptor\<close>

text \<open>Descriptor \<open>fd\<close> of the current process, entry \<open>e\<close>, is open for reading on inode \<open>n\<close>, a file of the simple file system \<open>f\<close>.\<close>

definition reads_file :: "nat \<Rightarrow> nat \<Rightarrow> int \<Rightarrow> nat \<times> nat \<Rightarrow> ucore \<Rightarrow> bool" where
  "reads_file f n fd e s \<longleftrightarrow> sfs_file f n s \<and> optab (os_data s) n = SfsFile \<and> inode_check n s = Some ()
     \<and> current_filesp s = Some (fst e) \<and> 0 < files_count (fst e) s \<and> testfd fd \<and> snd e = nat fd
     \<and> f_status (get_file e s) = FD_OPENED \<and> f_fd (get_file e s) = fd \<and> f_readable (get_file e s) \<and> f_node (get_file e s) = Some n
     \<and> 0 < f_open_count (get_file e s)"

definition at_pos :: "nat \<times> nat \<Rightarrow> int \<Rightarrow> ucore \<Rightarrow> ucore" where "at_pos e k = upd_file e (\<lambda>x. x\<lparr>f_pos := k\<rparr>)"

lemma same_fs_upd [simp]: "same_fs s (upd_file e g s)"
  by (simp add: same_fs_def upd_file_def upd_files_def os_kern_def)

lemma fd2file_reads: "reads_file f n fd e s \<Longrightarrow> fd2file fd s = Some (0, Some e)"
  by (cases e) (simp add: reads_file_def fd2file_def get_fd_array_def)

lemma upd_file_twice: "upd_file e g (upd_file e h s) = upd_file e (\<lambda>x. g (h x)) s"
  by (simp add: upd_file_def upd_files_def)

lemma file_read_ok:
  assumes "reads_file f n fd e s" and "f_pos (get_file e s) = int off" "off < SFS_MAX_FILE_SIZE" "off + len < 9223372036854775808"
    and "{buf..<buf + len} \<inter> fs_mem f s = {}"
  defines "bs \<equiv> take len (drop off (file_contents n s))"
  shows "\<exists>m. file_read (ucore_vops sc dd) fd buf len s = Some (0, length bs, at_pos e (int (off + length bs)) (with_mem m s))
     \<and> read_bytes m buf (length bs) = bs \<and> same_off (scratch f s \<union> {buf..<buf + length bs}) (os_mem s) m
     \<and> sfs_file f n (with_mem m s) \<and> file_contents n (with_mem m s) = file_contents n s"
proof -
  let ?a = "upd_file e (\<lambda>x. x\<lparr>f_open_count := f_open_count x + 1\<rparr>) s"
  let ?iob = "iobuf_init buf len (int off)"
  note r = assms(1) [unfolded reads_file_def]
  have sf: "same_fs s ?a" by simp
  note c = same_fs_sfs [OF sf]
  obtain m where m: "sfs_read (vops_none sc) n ?iob ?a = Some (0, io_advance (length bs) ?iob, with_mem m ?a)"
    "read_bytes m buf (length bs) = bs" "sfs_file f n (with_mem m ?a)" "file_contents n (with_mem m ?a) = file_contents n ?a"
    "same_off (scratch f ?a \<union> {buf..<buf + length bs}) (os_mem ?a) m"
    using sfs_read_takes_slice [of f n ?a ?iob off "vops_none sc"] r assms(3-5) by (auto simp: c iobuf_init_def Let_def bs_def)
  have mem: "os_mem ?a = os_mem s" "os_data ?a = os_data s" using sf by (simp_all add: same_fs_def)
  have wm: "with_mem m ?a = upd_file e (\<lambda>x. x\<lparr>f_open_count := f_open_count x + 1\<rparr>) (with_mem m s)"
    by (simp add: with_mem_def upd_mem_def upd_file_def upd_files_def)
  have gf: "get_file e (with_mem m s) = get_file e s" by (simp add: with_mem_def upd_mem_def get_file_def)
  have ic: "inode_check n ?a = Some ()" using r by (simp add: inode_check_def)
  have vr: "vop_read (ucore_vops sc dd) n ?iob ?a = Some (0, io_advance (length bs) ?iob, with_mem m ?a)"
    using m(1) r ic mem(2) by (simp add: vop_read_def ucore_vops_def vops_mid_def vops_base_def by_table_def Let_def)
  have used: "iobuf_used (io_advance (length bs) ?iob) = length bs" by (simp add: iobuf_used_def io_advance_def iobuf_init_def bs_def)
  have fin: "upd_file e (\<lambda>x. x\<lparr>f_open_count := f_open_count x - 1\<rparr>) (upd_file e (\<lambda>x. x\<lparr>f_pos := f_pos x + int (length bs)\<rparr>) (with_mem m ?a))
      = at_pos e (int (off + length bs)) (with_mem m s)"
    unfolding wm at_pos_def upd_file_twice
    using assms(2) gf by (simp add: upd_file_def upd_files_def get_file_def)
  have "file_read (ucore_vops sc dd) fd buf len s = Some (0, length bs, at_pos e (int (off + length bs)) (with_mem m s))"
    unfolding file_read_def fd2file_reads [OF assms(1)]
    using r assms(2) vr used fin wm gf
    by (simp add: fd_array_acquire_def fopen_count_inc_def fd_array_release_def fopen_count_dec_def fopen_count_def Let_def)
  moreover have "same_fs (with_mem m s) (with_mem m ?a)" unfolding wm by simp
  ultimately show ?thesis using m(2-5) same_fs_sfs [of "with_mem m s" "with_mem m ?a"] c mem(1) by auto
qed


section \<open>The user's buffer\<close>

definition user_space :: "nat \<Rightarrow> nat \<Rightarrow> nat list \<Rightarrow> 'd os \<Rightarrow> bool" where
  "user_space c m vs s \<longleftrightarrow> current (os_kern s) = Some c \<and> p_mm (os_proc s c) = Some m \<and> mm_inv (os_vm s) m vs \<and> lock_free m (os_kern s)"

text \<open>The areas, the physical memory and the page directories are the same; so is what \<open>kmalloc\<close> has.\<close>

definition same_map :: "vmm \<Rightarrow> vmm \<Rightarrow> bool" where
  "same_map v w \<longleftrightarrow> vm_vmas w = vm_vmas v \<and> vm_mem w = vm_mem v \<and> (\<forall>k. mm_pgdir (vm_mms w k) = mm_pgdir (vm_mms v k))"

definition same_space :: "vmm \<Rightarrow> vmm \<Rightarrow> bool" where
  "same_space v w \<longleftrightarrow> same_map v w \<and> vm_pool w = vm_pool v"

lemma same_map_refl [simp]: "same_map v v" by (simp add: same_map_def)

lemma same_map_trans: "same_map u v \<Longrightarrow> same_map v w \<Longrightarrow> same_map u w" by (simp add: same_map_def)

lemma same_map_pool [simp]: "same_map v (w\<lparr>vm_pool := p\<rparr>) = same_map v w" "same_map (v\<lparr>vm_pool := p\<rparr>) w = same_map v w"
  by (simp_all add: same_map_def)

lemma same_space_refl [simp]: "same_space v v" by (simp add: same_space_def)

lemma same_space_trans: "same_space u v \<Longrightarrow> same_space v w \<Longrightarrow> same_space u w"
  by (auto simp: same_space_def intro: same_map_trans)

lemma same_space_map: "same_space v w \<Longrightarrow> same_map v w" by (simp add: same_space_def)

lemma mm_inv_locked [simp]: "mm_inv (upd_mm m (\<lambda>x. x\<lparr>mm_locked_by := p\<rparr>) v) m' vs = mm_inv v m' vs"
  by (simp add: mm_inv_def mm_list_def areas_ok_def)

lemma mm_inv_kern [simp]: "mm_inv (v\<lparr>vm_kern := k\<rparr>) m vs = mm_inv v m vs"
  by (simp add: mm_inv_def mm_list_def areas_ok_def)

lemma lock_user_ok:
  assumes "user_space c m vs s"
  shows "\<exists>v. lock_user V (Some m) s = Some (s\<lparr>os_vm := v\<rparr>) \<and> mm_inv v m vs \<and> same_space (os_vm s) v \<and> vm_kern v = sem_dec m (os_kern s)"
proof -
  let ?k = "sem_dec m (os_kern s)"
  have "down_enter sc m c (os_kern s) = Some (False, ?k)" for sc
    using assms by (simp add: down_enter_def sem_down_enter_def user_space_def lock_free_def sem_dec_def)
  then have "lock_mm sc c (Some m) (os_vm s) = Some (False, set_locked_by m ((os_vm s)\<lparr>vm_kern := ?k\<rparr>))" for sc
    by (simp add: lock_mm_def os_kern_def)
  then have "lock_user V (Some m) s = Some (s\<lparr>os_vm := set_locked_by m ((os_vm s)\<lparr>vm_kern := ?k\<rparr>)\<rparr>)"
    using assms by (simp add: lock_user_def user_space_def)
  moreover have "mm_inv (set_locked_by m ((os_vm s)\<lparr>vm_kern := ?k\<rparr>)) m vs"
    using assms by (simp add: set_locked_by_def user_space_def split: option.splits)
  moreover have "same_space (os_vm s) (set_locked_by m ((os_vm s)\<lparr>vm_kern := ?k\<rparr>))"
    "vm_kern (set_locked_by m ((os_vm s)\<lparr>vm_kern := ?k\<rparr>)) = ?k"
    by (simp_all add: set_locked_by_def same_space_def same_map_def split: option.splits)
  ultimately show ?thesis by blast
qed

lemma unlock_user_ok:
  assumes "vm_kern v = sem_dec m k" "lock_free m k" "mm_inv v m vs"
  shows "\<exists>v'. unlock_user V (Some m) (s\<lparr>os_vm := v\<rparr>) = Some (s\<lparr>os_vm := v'\<rparr>) \<and> mm_inv v' m vs \<and> same_space v v' \<and> vm_kern v' = k"
proof -
  have "up sc m (vm_kern v) = Some k" for sc
    using assms(1,2) by (simp add: up_def sem_up_raw_def lock_free_def sem_dec_def wait_queue_first_def upd_sem_def)
  then show ?thesis using assms(3)
    by (intro exI [of _ "upd_mm m (\<lambda>x. x\<lparr>mm_locked_by := 0\<rparr>) (v\<lparr>vm_kern := k\<rparr>)"]) (simp add: unlock_user_def unlock_mm_def same_space_def same_map_def)
qed

lemma check_user_ok:
  assumes "mm_inv v m vs" "USER_ACCESS base (base + len)" "\<forall>a. base \<le> a \<and> a < base + len \<longrightarrow> byte_ok v vs write a"
  shows "\<exists>v'. user_mem_check (Some m) base len write v = Some (True, v') \<and> mm_inv v' m vs \<and> same_space v v' \<and> vm_kern v' = vm_kern v"
proof -
  have "base + len \<le> USERTOP" using assms(2) by (simp add: USER_ACCESS_def)
  from check_loop_ok [OF assms(1) this, of base "write"] show ?thesis using assms(2,3) by (auto simp: user_mem_check_def same_space_def same_map_def)
qed

text \<open>\<open>len\<close> bytes from the kernel's buffer to a writable user buffer, under the lock.\<close>

definition user_mapped :: "nat \<Rightarrow> vmm \<Rightarrow> bool \<Rightarrow> nat \<Rightarrow> nat \<Rightarrow> bool" where
  "user_mapped m v write a len \<longleftrightarrow>
     (\<exists>d. mm_pgdir (vm_mms v m) = Some d \<and> (\<forall>i<len. page_access (vm_mem v) d write (of_nat (a + i))))"

definition user_range :: "nat \<Rightarrow> nat list \<Rightarrow> vmm \<Rightarrow> bool \<Rightarrow> nat \<Rightarrow> nat \<Rightarrow> bool" where
  "user_range m vs v write a len \<longleftrightarrow> 0x200000 \<le> a \<and> a + len \<le> 0x80000000 \<and> (\<forall>i<len. byte_ok v vs write (of_nat (a + i)))
     \<and> user_mapped m v write a len"

lemma user_mapped_rest:
  assumes "user_mapped m v write a len" "k + len' \<le> len" "same_map v v'"
  shows "user_mapped m v' write (a + k) len'"
proof -
  obtain d where d: "mm_pgdir (vm_mms v' m) = Some d" "\<And>i. i < len \<Longrightarrow> page_access (vm_mem v') d write (of_nat (a + i))"
    using assms(1,3) by (auto simp: user_mapped_def same_map_def)
  have "page_access (vm_mem v') d write (of_nat (a + k + i))" if "i < len'" for i
  proof -
    have "k + i < len" using that assms(2) by simp
    from d(2) [OF this] show ?thesis by (simp only: add.assoc)
  qed
  then show ?thesis using d(1) by (auto simp: user_mapped_def)
qed

lemma user_range_rest:
  assumes "user_range m vs v write a len" "k + len' \<le> len" "same_map v v'"
  shows "user_range m vs v' write (a + k) len'"
proof -
  have c: "byte_ok v' vs write = byte_ok v vs write" using assms(3) byte_ok_cong [of v' v] by (simp add: same_map_def fun_eq_iff)
  have b: "\<And>i. i < len \<Longrightarrow> byte_ok v vs write (of_nat (a + i))" using assms(1) by (simp only: user_range_def)
  have "byte_ok v vs write (of_nat (a + k + i))" if "i < len'" for i
  proof -
    have "k + i < len" using that assms(2) by simp
    from b [OF this] show ?thesis by (simp only: add.assoc)
  qed
  moreover have "user_mapped m v' write (a + k) len'"
    using assms user_mapped_rest [of m v "write" a len k len' v'] by (simp add: user_range_def)
  moreover have "0x200000 \<le> a + k" "a + k + len' \<le> 0x80000000" using assms(1,2) by (simp_all add: user_range_def)
  ultimately show ?thesis unfolding user_range_def c by blast
qed

lemma user_touch_ok:
  assumes "user_mapped m v write (unat base) len" "unat base + len < 2 ^ 64"
  shows "user_touch (Some m) base len write v = Some ()"
proof -
  obtain d where d: "mm_pgdir (vm_mms v m) = Some d" "\<And>i. i < len \<Longrightarrow> page_access (vm_mem v) d write (of_nat (unat base + i))"
    using assms(1) by (auto simp: user_mapped_def)
  have "page_access (vm_mem v) d write (base + of_nat i)" if "i < len" for i
    using d(2) [OF that] by simp
  then show ?thesis using d(1) by (simp add: user_touch_def)
qed

lemma user_range_words:
  assumes "user_range m vs v write (unat base) len" "0 < len"
  shows "USER_ACCESS base (base + of_nat len)" "\<forall>a. base \<le> a \<and> a < base + of_nat len \<longrightarrow> byte_ok v vs write a"
proof -
  have b: "0x200000 \<le> unat base" "unat base + len \<le> 0x80000000" using assms(1) by (simp_all add: user_range_def)
  then have n: "unat (of_nat len :: 64 word) = len" by (simp add: unat_of_nat)
  then have s: "unat (base + of_nat len) = unat base + len" using b by (simp add: unat_word_ariths)
  have "unat (USERBASE) = 0x200000" "unat USERTOP = 0x80000000" by (simp_all add: USERBASE_def USERTOP_def)
  then show "USER_ACCESS base (base + of_nat len)"
    using b s assms(2) by (simp add: USER_ACCESS_def word_le_nat_alt word_less_nat_alt)
  show "\<forall>a. base \<le> a \<and> a < base + of_nat len \<longrightarrow> byte_ok v vs write a"
  proof (intro allI impI)
    fix a assume "base \<le> a \<and> a < base + of_nat len"
    then have "unat base \<le> unat a" "unat a < unat base + len" by (simp_all add: word_le_nat_alt word_less_nat_alt s)
    then have "unat a - unat base < len" "unat base + (unat a - unat base) = unat a" by simp_all
    then have "byte_ok v vs write (of_nat (unat a))" using assms(1) unfolding user_range_def by metis
    then show "byte_ok v vs write a" by simp
  qed
qed

lemma copy_out_ok:
  assumes "mm_inv (os_vm s) m vs" "user_range m vs (os_vm s) True (unat base) len" "0 < len" "buf + len < 2 ^ 64"
  shows "\<exists>v. with_copy (copy_to_user (Some m) base (of_nat buf) (of_nat len)) s
      = Some (True, s\<lparr>os_mem := memcpy (os_mem s) (unat base) buf len, os_vm := v\<rparr>)
    \<and> mm_inv v m vs \<and> same_space (os_vm s) v \<and> vm_kern v = os_kern s"
proof -
  note w = user_range_words [OF assms(2,3)]
  obtain v where v: "user_mem_check (Some m) base (of_nat len) True (os_vm s) = Some (True, v)" "mm_inv v m vs"
    "same_space (os_vm s) v" "vm_kern v = vm_kern (os_vm s)"
    using check_user_ok [OF assms(1) w] by blast
  have "user_mapped m v True (unat base) len"
    using user_mapped_rest [OF _ _ same_space_map [OF v(3)], of m True "unat base" len 0 len] assms(2) by (simp add: user_range_def)
  then have t: "user_touch (Some m) base len True v = Some ()"
    by (rule user_touch_ok) (use assms(2) in \<open>simp add: user_range_def\<close>)
  have "len < 2 ^ 64" using assms(4) by simp
  then have n: "unat (of_nat buf :: 64 word) = buf" "unat (of_nat len :: 64 word) = len" using assms(4) by (simp_all add: unat_of_nat)
  show ?thesis using v by (intro exI [of _ v]) (simp add: with_copy_def copy_to_user_def n os_kern_def t)
qed


section \<open>One round\<close>

definition moved :: "nat \<times> nat \<Rightarrow> nat \<Rightarrow> Strings.mem \<Rightarrow> vmm \<Rightarrow> ucore \<Rightarrow> ucore" where
  "moved e pos m v s = (at_pos e (int pos) s)\<lparr>os_mem := m, os_vm := v\<rparr>"

lemma file_elsewhere:
  assumes "sfs_file f n s" "same_off (scratch f s \<union> U) (os_mem s) m" "U \<inter> fs_mem f s = {}"
  shows "sfs_file f n (with_mem m s)" "file_contents n (with_mem m s) = file_contents n s"
proof -
  note d = sfs_fileD [OF assms(1)]
  note u = user_buffer [OF d(1) assms(2,3)] and fk = file_user_buffer [OF d(1,2) assms(2,3)]
  have "file_byte n (with_mem m s) p = file_byte n s p" if "p < di_size (get_din n s)" for p
    using fk(3) [of p] that d(4) by simp
  then show "file_contents n (with_mem m s) = file_contents n s" by (auto simp: file_contents_def file_data_def)
  show "sfs_file f n (with_mem m s)" using assms(1) u(1) fk(1) by (simp add: sfs_file_def)
qed

lemma moved_ok:
  fixes pos :: nat
  assumes r: "reads_file f n fd e s" and c: "user_space c m vs s"
    and o: "same_off (scratch f s \<union> U) (os_mem s) mm" "U \<inter> fs_mem f s = {}" and v: "mm_inv v m vs" "vm_kern v = os_kern s"
  defines "t \<equiv> moved e pos mm v s"
  shows "reads_file f n fd e t" "user_space c m vs t" "file_contents n t = file_contents n s" "fs_mem f t = fs_mem f s"
    "scratch f t = scratch f s" "f_pos (get_file e t) = int pos" "os_mem t = mm" "os_vm t = v" "os_kern t = os_kern s"
proof -
  have sf: "sfs_file f n s" using r by (simp add: reads_file_def)
  have same: "same_fs (with_mem mm s) t"
    using v(2) by (simp add: same_fs_def t_def moved_def at_pos_def upd_file_def upd_files_def os_kern_def)
  note q = same_fs_sfs [OF same] and w = file_elsewhere [OF sf o]
  have d: "os_data t = os_data s" "os_nodes t = os_nodes s" using same by (simp_all add: same_fs_def)
  show k: "os_kern t = os_kern s" using v(2) by (simp add: t_def moved_def os_kern_def)
  show "os_mem t = mm" and ov: "os_vm t = v" by (simp_all add: t_def moved_def)
  have g: "get_file e t = (get_file e s)\<lparr>f_pos := int pos\<rparr>" "files_count p t = files_count p s" for p
    by (simp_all add: t_def moved_def at_pos_def get_file_def upd_file_def upd_files_def files_count_def)
  show "f_pos (get_file e t) = int pos" by (simp add: g)
  have pr: "os_proc t x = os_proc s x" for x by (simp add: os_proc_def k)
  have cf: "current_filesp t = current_filesp s" by (simp add: current_filesp_def k)
  have ic: "inode_check n t = inode_check n s" by (simp add: inode_check_def inode_ref_count_def inode_open_count_def d)
  show "reads_file f n fd e t" using r w(1) q(1) by (simp add: reads_file_def d g cf ic)
  show "user_space c m vs t" using c v(1) ov by (simp add: user_space_def k pr)
  show "file_contents n t = file_contents n s" using q(2) w(2) by simp
  show "fs_mem f t = fs_mem f s" "scratch f t = scratch f s" using q(3,4) by simp_all
qed

lemma read_round_ok:
  assumes r: "reads_file f n fd e s" and c: "user_space c m vs s" and p: "f_pos (get_file e s) = int off" "off < SFS_MAX_FILE_SIZE"
    and len: "off + len < 9223372036854775808" and b: "{buf..<buf + 4096} \<inter> fs_mem f s = {}" "buf + 4096 < 2 ^ 64"
    and u: "{unat base..<unat base + len} \<inter> (fs_mem f s \<union> {buf..<buf + 4096}) = {}" "user_range m vs (os_vm s) True (unat base) len"
  defines "bs \<equiv> take (min 4096 len) (drop off (file_contents n s))"
  shows "\<exists>mm v. read_round (ucore_vops sc dd) fd (Some m) buf base len s
      = Some (0, length bs, length bs, moved e (off + length bs) mm v s)
    \<and> read_bytes mm (unat base) (length bs) = bs \<and> mm_inv v m vs \<and> same_space (os_vm s) v \<and> vm_kern v = os_kern s
    \<and> same_off (scratch f s \<union> ({buf..<buf + 4096} \<union> {unat base..<unat base + length bs})) (os_mem s) mm"
proof -
  let ?V = "ucore_vops sc dd" and ?k = "length bs" and ?l = "min 4096 len" and ?u = "unat base"
  have kl: "?k \<le> ?l" unfolding bs_def by (simp only: length_take min.cobounded2)
  have "{buf..<buf + ?l} \<subseteq> {buf..<buf + 4096}" by auto
  then have bd: "{buf..<buf + ?l} \<inter> fs_mem f s = {}" using b(1) by blast
  have ol: "off + ?l < 9223372036854775808" using len by simp
  obtain m1 where m1: "file_read ?V fd buf ?l s = Some (0, ?k, at_pos e (int (off + ?k)) (with_mem m1 s))"
    "read_bytes m1 buf ?k = bs" "same_off (scratch f s \<union> {buf..<buf + ?k}) (os_mem s) m1"
    using file_read_ok [OF r p ol bd] unfolding bs_def by blast
  have so: "same_off (scratch f s \<union> ({buf..<buf + 4096} \<union> {?u..<?u + ?k})) (os_mem s) m1"
    by (rule same_off_mono [OF m1(3)]) (use kl in auto)
  show ?thesis
  proof (cases "?k = 0")
    case True
    have inv: "mm_inv (os_vm s) m vs" using c by (simp add: user_space_def)
    have st: "at_pos e (int (off + ?k)) (with_mem m1 s) = moved e (off + ?k) m1 (os_vm s) s"
      by (simp add: moved_def at_pos_def with_mem_def upd_mem_def upd_file_def upd_files_def)
    show ?thesis using m1(1) so inv True unfolding read_round_def IOBUF_SIZE_def st
      by (intro exI [of _ m1] exI [of _ "os_vm s"]) (simp add: os_kern_def read_bytes_def)
  next
    case False
    define t1 where "t1 = at_pos e (int (off + ?k)) (with_mem m1 s)"
    have s1: "os_vm t1 = os_vm s" "os_kern t1 = os_kern s" "os_mem t1 = m1"
      by (simp_all add: t1_def at_pos_def os_kern_def with_mem_def upd_mem_def upd_file_def upd_files_def)
    have c1: "user_space c m vs t1" using c unfolding user_space_def os_proc_def s1 .
    have lf: "lock_free m (os_kern s)" using c by (simp add: user_space_def)
    obtain v1 where v1: "lock_user ?V (Some m) t1 = Some (t1\<lparr>os_vm := v1\<rparr>)" "mm_inv v1 m vs" "same_space (os_vm s) v1"
      "vm_kern v1 = sem_dec m (os_kern s)"
      using lock_user_ok [OF c1] unfolding s1 by blast
    have ur: "user_range m vs v1 True ?u ?k" using user_range_rest [OF u(2) _ same_space_map [OF v1(3)], of 0 ?k] kl by simp
    have bk: "buf + ?k < 2 ^ 64" using b(2) kl by simp
    obtain v2 where v2: "with_copy (copy_to_user (Some m) base (of_nat buf) (of_nat ?k)) (t1\<lparr>os_vm := v1\<rparr>)
        = Some (True, t1\<lparr>os_mem := memcpy m1 ?u buf ?k, os_vm := v2\<rparr>)" "mm_inv v2 m vs" "same_space v1 v2"
      "vm_kern v2 = sem_dec m (os_kern s)"
      using copy_out_ok [of "t1\<lparr>os_vm := v1\<rparr>" m vs base ?k buf] v1(2,4) ur bk False by (auto simp: s1 os_kern_def)
    obtain v3 where v3: "unlock_user ?V (Some m) (t1\<lparr>os_mem := memcpy m1 ?u buf ?k, os_vm := v2\<rparr>)
        = Some (t1\<lparr>os_mem := memcpy m1 ?u buf ?k, os_vm := v3\<rparr>)" "mm_inv v3 m vs" "same_space v2 v3" "vm_kern v3 = os_kern s"
      using unlock_user_ok [OF v2(4) lf v2(2), of ?V "t1\<lparr>os_mem := memcpy m1 ?u buf ?k\<rparr>"] by auto
    have st: "t1\<lparr>os_mem := memcpy m1 ?u buf ?k, os_vm := v3\<rparr> = moved e (off + ?k) (memcpy m1 ?u buf ?k) v3 s"
      by (simp add: t1_def moved_def at_pos_def with_mem_def upd_mem_def upd_file_def upd_files_def)
    have "?u + ?k \<le> buf \<or> buf + ?k \<le> ?u"
    proof (rule ccontr)
      assume n: "\<not> (?u + ?k \<le> buf \<or> buf + ?k \<le> ?u)"
      then have "max ?u buf \<in> {?u..<?u + len} \<inter> {buf..<buf + 4096}" using kl by (auto simp: max_def)
      then show False using u(1) by blast
    qed
    then have cp: "memcpy m1 ?u buf ?k = write_bytes m1 ?u bs" using memcpy_bytes [of ?u ?k buf m1] m1(2) by simp
    have "same_off (scratch f s \<union> ({buf..<buf + 4096} \<union> {?u..<?u + ?k})) m1 (write_bytes m1 ?u bs)"
      by (rule same_off_write) auto
    from same_off_trans [OF so this subset_refl subset_refl]
    have so2: "same_off (scratch f s \<union> ({buf..<buf + 4096} \<union> {?u..<?u + ?k})) (os_mem s) (memcpy m1 ?u buf ?k)" unfolding cp .
    have "read_round ?V fd (Some m) buf base len s = Some (0, ?k, ?k, moved e (off + ?k) (memcpy m1 ?u buf ?k) v3 s)"
      using m1(1) [folded t1_def] v1(1) v2(1) v3(1) False kl unfolding read_round_def IOBUF_SIZE_def by (simp add: st t1_def [symmetric])
    moreover have "same_space (os_vm s) v3" by (rule same_space_trans [OF same_space_trans [OF v1(3) v2(3)] v3(3)])
    ultimately show ?thesis using so2 v3 cp by (intro exI [of _ "memcpy m1 ?u buf ?k"] exI [of _ v3]) simp
  qed
qed


section \<open>All rounds\<close>

lemma at_pos_same:
  assumes "f_pos (get_file e s) = k"
  shows "at_pos e k s = s"
proof -
  have "(get_file e s)\<lparr>f_pos := k\<rparr> = get_file e s" using assms by (cases "get_file e s") simp
  then have "(fl_fd (os_files s (fst e)))(snd e := (fl_fd (os_files s (fst e)) (snd e))\<lparr>f_pos := k\<rparr>) = fl_fd (os_files s (fst e))"
    by (auto simp: get_file_def fun_eq_iff)
  then have "(os_files s (fst e))\<lparr>fl_fd := (fl_fd (os_files s (fst e)))(snd e := (fl_fd (os_files s (fst e)) (snd e))\<lparr>f_pos := k\<rparr>)\<rparr>
      = os_files s (fst e)" by (cases "os_files s (fst e)") simp
  then show ?thesis by (simp add: at_pos_def upd_file_def upd_files_def)
qed

lemma moved_twice: "moved e p2 m2 v2 (moved e p1 m1 v1 s) = moved e p2 m2 v2 s"
  by (simp add: moved_def at_pos_def upd_file_def upd_files_def)

lemma read_loop_ok:
  assumes "reads_file f n fd e s" and "user_space c m vs s" and "f_pos (get_file e s) = int off" and "off < SFS_MAX_FILE_SIZE"
    and "off + len < 9223372036854775808" and "{buf..<buf + 4096} \<inter> fs_mem f s = {}" and "buf + 4096 < 2 ^ 64"
    and "{unat base..<unat base + len} \<inter> (fs_mem f s \<union> {buf..<buf + 4096}) = {}" and "user_range m vs (os_vm s) True (unat base) len"
  shows "\<exists>mm v. let bs = take len (drop off (file_contents n s)) in
      read_loop (ucore_vops sc dd) fd (Some m) buf base len cnt 0 s = Some (0, cnt + length bs, moved e (off + length bs) mm v s)
    \<and> read_bytes mm (unat base) (length bs) = bs \<and> mm_inv v m vs \<and> same_space (os_vm s) v \<and> vm_kern v = os_kern s
    \<and> same_off (scratch f s \<union> ({buf..<buf + 4096} \<union> {unat base..<unat base + length bs})) (os_mem s) mm"
  using assms
proof (induction len arbitrary: base cnt off s rule: less_induct)
  case (less len)
  let ?V = "ucore_vops sc dd" and ?u = "unat base" and ?C = "file_contents n s"
  note r = less.prems(1) and c = less.prems(2) and p = less.prems(3,4) and d = less.prems(6,7) and u = less.prems(8,9)
  show ?case
  proof (cases "len = 0")
    case True
    have "moved e off (os_mem s) (os_vm s) s = s" using at_pos_same [OF p(1)] by (simp add: moved_def)
    then show ?thesis using True c
      by (intro exI [of _ "os_mem s"] exI [of _ "os_vm s"], subst read_loop.simps)
        (simp add: Let_def read_bytes_def user_space_def os_kern_def)
  next
    case False
    define bs where "bs = take (min 4096 len) (drop off ?C)"
    let ?k = "length bs"
    have kl: "?k \<le> len" "?k \<le> 4096" "?k \<le> length ?C - off" by (simp_all add: bs_def)
    obtain m1 v1 where m1: "read_round ?V fd (Some m) buf base len s = Some (0, ?k, ?k, moved e (off + ?k) m1 v1 s)"
      "read_bytes m1 ?u ?k = bs" "mm_inv v1 m vs" "same_space (os_vm s) v1" "vm_kern v1 = os_kern s"
      "same_off (scratch f s \<union> ({buf..<buf + 4096} \<union> {?u..<?u + ?k})) (os_mem s) m1"
      using read_round_ok [OF r c p less.prems(5) d u] unfolding bs_def by blast
    show ?thesis
    proof (cases "?k = 0")
      case True
      then have z: "take len (drop off ?C) = []" using False unfolding bs_def by (simp only: length_0_conv take_eq_Nil, simp)
      have "read_loop ?V fd (Some m) buf base len cnt 0 s = Some (0, cnt + ?k, moved e (off + ?k) m1 v1 s)"
        using m1(1) True False by (subst read_loop.simps) simp
      then show ?thesis using m1 True unfolding Let_def z by (intro exI [of _ m1] exI [of _ v1]) simp
    next
      case k: False
      let ?t = "moved e (off + ?k) m1 v1 s" and ?b = "base + of_nat ?k"
      have U: "({buf..<buf + 4096} \<union> {?u..<?u + ?k}) \<inter> fs_mem f s = {}" 
      proof -
        have "{?u..<?u + ?k} \<subseteq> {?u..<?u + len}" using kl(1) by auto
        then show ?thesis using d(1) u(1) by blast
      qed
      note t = moved_ok [OF r c m1(6) U m1(3,5), of "off + ?k"]
      have "?u + len \<le> 0x80000000" using u(2) by (simp add: user_range_def)
      then have b: "unat ?b = ?u + ?k" using kl(1) by (simp add: unat_word_ariths unat_of_nat)
      have off: "off + ?k < SFS_MAX_FILE_SIZE"
      proof -
        have sf: "sfs_file f n s" using r by (simp add: reads_file_def)
        have "di_blocks (get_din n s) \<le> 1036" using sfs_fileD(2) [OF sf] by (simp add: file_ok_def MAX_BLOCKS_eq)
        then have "di_size (get_din n s) \<le> 4096 * 1036" using sfs_fileD(4) [OF sf] by linarith
        moreover have "off + ?k \<le> di_size (get_din n s)" using kl(3) k unfolding length_contents by linarith
        ultimately show ?thesis by (simp add: SFS_MAX_FILE_SIZE_def)
      qed
      have ol: "off + ?k + (len - ?k) < 9223372036854775808" using less.prems(5) kl(1) by simp
      have du: "{unat ?b..<unat ?b + (len - ?k)} \<inter> (fs_mem f ?t \<union> {buf..<buf + 4096}) = {}"
        using u(1) kl(1) unfolding t(4) b by (auto simp: disjoint_iff)
      have ur: "user_range m vs (os_vm ?t) True (unat ?b) (len - ?k)"
        using user_range_rest [OF u(2) _ same_space_map [OF m1(4)], of ?k "len - ?k"] kl(1) unfolding t(8) b by simp
      have lt: "len - ?k < len" using k kl(1) by linarith
      let ?bs = "take (len - ?k) (drop (off + ?k) ?C)"
      obtain m2 v2 where m2: "read_loop ?V fd (Some m) buf ?b (len - ?k) (cnt + ?k) 0 ?t
          = Some (0, cnt + ?k + length ?bs, moved e (off + ?k + length ?bs) m2 v2 ?t)"
        "read_bytes m2 (?u + ?k) (length ?bs) = ?bs" "mm_inv v2 m vs" "same_space v1 v2" "vm_kern v2 = os_kern s"
        "same_off (scratch f s \<union> ({buf..<buf + 4096} \<union> {?u + ?k..<?u + ?k + length ?bs})) m1 m2"
        using less.IH [OF lt t(1,2,6) off ol _ d(2) du ur, of "cnt + ?k"] d(1)
        unfolding Let_def t(3-5,7-9) b by auto
      have all: "take len (drop off ?C) = bs @ ?bs"
      proof (cases "4096 \<le> len \<and> 4096 \<le> length ?C - off")
        case True
        then have "?k = 4096" by (simp add: bs_def)
        moreover have "take (4096 + (len - 4096)) (drop off ?C) = take 4096 (drop off ?C) @ take (len - 4096) (drop 4096 (drop off ?C))"
          by (rule take_add)
        ultimately show ?thesis using True by (simp add: bs_def min_def add.commute)
      next
        case n: False
        have "bs = take len (drop off ?C)" unfolding bs_def using n by (auto simp: min_def)
        moreover from this have "?bs = []" by (auto simp: min_def)
        ultimately show ?thesis by simp
      qed
      have first: "read_bytes m2 ?u ?k = bs"
      proof -
        have "{?u..<?u + ?k} \<inter> (scratch f s \<union> ({buf..<buf + 4096} \<union> {?u + ?k..<?u + ?k + length ?bs})) = {}"
          using u(1) kl(1) by (auto simp: disjoint_iff fs_mem_def)
        then show ?thesis using same_off_read [OF m2(6)] m1(2) by simp
      qed
      have so: "same_off (scratch f s \<union> ({buf..<buf + 4096} \<union> {?u..<?u + (?k + length ?bs)})) (os_mem s) m2"
        by (rule same_off_trans [OF m1(6) m2(6)]) auto
      have "read_loop ?V fd (Some m) buf base len cnt 0 s
          = Some (0, cnt + (?k + length ?bs), moved e (off + (?k + length ?bs)) m2 v2 s)"
        using m1(1) m2(1) False k by (subst read_loop.simps) (simp add: moved_twice add.assoc)
      moreover have "read_bytes m2 ?u (?k + length ?bs) = bs @ ?bs" using first m2(2) by (simp add: read_bytes_append)
      moreover have "same_space (os_vm s) v2" by (rule same_space_trans [OF m1(4) m2(4)])
      ultimately show ?thesis unfolding Let_def all length_append using m2(3,5) so by blast
    qed
  qed
qed


section \<open>The system call\<close>

lemma to_int_small: "k < 2147483648 \<Longrightarrow> to_int k = int k"
proof -
  assume "k < 2147483648"
  then have "signed_take_bit 31 (int k) = int k" by (intro signed_take_bit_int_eq_self) simp_all
  moreover have "sint (word_of_int (int k) :: 32 word) = signed_take_bit 31 (int k)" by (simp add: sint_sbintrunc' del: of_int_of_nat_eq)
  ultimately show ?thesis by (simp add: to_int_def)
qed

lemma same_vm: "moved e off (os_mem s) v s = s\<lparr>os_vm := v\<rparr>" if "f_pos (get_file e s) = int off"
  using at_pos_same [OF that] by (simp add: moved_def)

lemma mm_inv_pool [simp]: "mm_inv (v\<lparr>vm_pool := p\<rparr>) m vs = mm_inv v m vs"
  by (simp add: mm_inv_def mm_list_def areas_ok_def)

text \<open>What a read of the file system \<open>f\<close> through the descriptor \<open>e\<close> leaves as it was: every byte of memory outside \<open>U\<close> and the
  buffers of the file system, every file, the inodes, every other descriptor and all of this one but its position, the areas,
  page tables and page frames, and what \<open>kmalloc\<close> has.\<close>

definition only_read :: "nat \<Rightarrow> nat \<times> nat \<Rightarrow> nat set \<Rightarrow> ucore \<Rightarrow> ucore \<Rightarrow> bool" where
  "only_read f e U s t \<longleftrightarrow> (\<forall>a. a \<notin> scratch f s \<union> U \<longrightarrow> os_mem t a = os_mem s a)
     \<and> (\<forall>k. sfs_file f k s \<longrightarrow> sfs_file f k t \<and> file_contents k t = file_contents k s)
     \<and> os_data t = os_data s \<and> os_nodes t = os_nodes s
     \<and> (\<forall>d. d \<noteq> e \<longrightarrow> get_file d t = get_file d s) \<and> (\<exists>p. get_file e t = (get_file e s)\<lparr>f_pos := p\<rparr>)
     \<and> (\<forall>p. files_count p t = files_count p s) \<and> same_space (os_vm s) (os_vm t)"

lemma get_file_at_pos [simp]:
  "get_file d (at_pos e p s) = (if d = e then (get_file e s)\<lparr>f_pos := p\<rparr> else get_file d s)"
  "files_count q (at_pos e p s) = files_count q s"
  by (cases d; cases e; simp add: at_pos_def upd_file_def upd_files_def get_file_def files_count_def)+

lemma moved_only:
  assumes "same_off (scratch f s \<union> U) (os_mem s) mm" "U \<inter> fs_mem f s = {}" "vm_kern v = os_kern s" "same_space (os_vm s) v"
  shows "only_read f e U s (moved e p mm v s)"
proof -
  let ?t = "moved e p mm v s"
  have same: "same_fs (with_mem mm s) ?t"
    using assms(3) by (simp add: same_fs_def moved_def at_pos_def upd_file_def upd_files_def os_kern_def)
  note q = same_fs_sfs [OF same]
  have "sfs_file f k ?t \<and> file_contents k ?t = file_contents k s" if "sfs_file f k s" for k
    using file_elsewhere [OF that assms(1,2)] q(1,2) by simp
  moreover have "os_mem ?t = mm" "os_vm ?t = v" "os_data ?t = os_data s" "os_nodes ?t = os_nodes s"
    by (simp_all add: moved_def at_pos_def upd_file_def upd_files_def)
  moreover have "get_file d ?t = get_file d (at_pos e (int p) s)" "files_count p' ?t = files_count p' (at_pos e (int p) s)" for d p'
    by (simp_all add: moved_def get_file_def files_count_def)
  ultimately show ?thesis using assms(1,4) by (auto simp: only_read_def same_off_def)
qed

text \<open>\<open>sysfile\_read\<close> of a regular file delivers the slice of its contents behind the position of the descriptor, as much as
  was asked for and as there is, to the user's buffer, returns its length and moves the position behind it; the file, the
  address space and the descriptor stay in order, and nothing else changes.\<close>

lemma sysfile_read_ok:
  assumes "reads_file f n fd e s" and "user_space c m vs s" and "f_pos (get_file e s) = int off" and "off < SFS_MAX_FILE_SIZE"
    and "len < 2147483648" and "vm_pool (os_vm s) = buf # bufs" and "{buf..<buf + 4096} \<inter> fs_mem f s = {}" and "buf + 4096 < 2 ^ 64"
    and "{unat base..<unat base + len} \<inter> (fs_mem f s \<union> {buf..<buf + 4096}) = {}" and "user_range m vs (os_vm s) True (unat base) len"
  shows "\<exists>t. let bs = take len (drop off (file_contents n s)) in
      sysfile_read (ucore_vops sc dd) fd base len s = Some (int (length bs), t)
    \<and> read_bytes (os_mem t) (unat base) (length bs) = bs \<and> f_pos (get_file e t) = int (off + length bs)
    \<and> only_read f e ({buf..<buf + 4096} \<union> {unat base..<unat base + length bs}) s t
    \<and> file_contents n t = file_contents n s \<and> reads_file f n fd e t \<and> user_space c m vs t \<and> os_kern t = os_kern s"
proof (cases "len = 0")
  case True
  have "\<exists>p. get_file e s = (get_file e s)\<lparr>f_pos := p\<rparr>" using assms(3) by (intro exI [of _ "f_pos (get_file e s)"]) (cases "get_file e s", simp)
  then show ?thesis using assms(1-3) True
    by (intro exI [of _ s]) (simp add: Let_def sysfile_read_def cur_mm_def user_space_def read_bytes_def only_read_def)
next
  case False
  let ?V = "ucore_vops sc dd" and ?bs = "take len (drop off (file_contents n s))"
  let ?v = "(os_vm s)\<lparr>vm_pool := bufs\<rparr>"
  let ?s = "s\<lparr>os_vm := ?v\<rparr>"
  have km: "os_kmalloc s = (Some buf, ?s)" using assms(6) by (simp add: os_kmalloc_def kmalloc_obj_def)
  have v: "mm_inv ?v m vs" "vm_kern ?v = os_kern s" using assms(2) by (simp_all add: user_space_def os_kern_def)
  note t = moved_ok [OF assms(1,2) same_off_refl [of "scratch f s \<union> {}"] _ v, of off, unfolded same_vm [OF assms(3)], simplified]
  have ol: "off + len < 9223372036854775808" using assms(4,5) by (simp add: SFS_MAX_FILE_SIZE_def)
  have ur: "user_range m vs (os_vm ?s) True (unat base) len" using user_range_rest [OF assms(10), of 0 len ?v] by simp
  obtain mm w where w: "read_loop ?V fd (Some m) buf base len 0 0 ?s = Some (0, length ?bs, moved e (off + length ?bs) mm w ?s)"
    "read_bytes mm (unat base) (length ?bs) = ?bs" "mm_inv w m vs" "same_space ?v w" "vm_kern w = os_kern s"
    "same_off (scratch f s \<union> ({buf..<buf + 4096} \<union> {unat base..<unat base + length ?bs})) (os_mem s) mm"
    using read_loop_ok [OF t(1,2,6) assms(4) ol _ assms(8) _ ur, of sc dd 0] assms(7,9)
    unfolding Let_def t(3-5) by (auto simp: os_kern_def)
  have U: "({buf..<buf + 4096} \<union> {unat base..<unat base + length ?bs}) \<inter> fs_mem f s = {}"
  proof -
    have "{unat base..<unat base + length ?bs} \<subseteq> {unat base..<unat base + len}" by auto
    then show ?thesis using assms(7,9) by blast
  qed
  let ?w = "w\<lparr>vm_pool := buf # vm_pool w\<rparr>"
  have wi: "mm_inv ?w m vs" "vm_kern ?w = os_kern s" using w(3,5) by simp_all
  have ss: "same_space (os_vm s) ?w" using w(4) assms(6) by (simp add: same_space_def same_map_def)
  note r = moved_ok [OF assms(1,2) w(6) U wi, of "off + length ?bs"] and o = moved_only [OF w(6) U wi(2) ss, of e "off + length ?bs"]
  have fr: "os_kfree buf (moved e (off + length ?bs) mm w ?s) = moved e (off + length ?bs) mm ?w s"
    by (simp add: os_kfree_def kfree_obj_def moved_def at_pos_def upd_file_def upd_files_def)
  have tf: "file_testfd fd True False s = Some True"
    unfolding file_testfd_def fd2file_reads [OF assms(1)] using assms(1) by (simp add: reads_file_def)
  have ti: "to_int (length ?bs) = int (length ?bs)" using assms(5) by (intro to_int_small) simp
  have "sysfile_read ?V fd base len s = Some (int (length ?bs), moved e (off + length ?bs) mm ?w s)"
    using False assms(2) km tf w(1) fr ti unfolding sysfile_read_def cur_mm_def user_space_def by simp
  then show ?thesis using r o w(2) unfolding Let_def by (intro exI [of _ "moved e (off + length ?bs) mm ?w s"]) simp
qed


text \<open>The process 5 with the address space 1, which has one writable page, and the descriptor table 0, in which descriptor 3 is the
  file 20 of the example disk.\<close>

definition example_kern_cur :: kern where
  "example_kern_cur = (os_kern example_disk)\<lparr>current := Some 5,
     procs := (procs (os_kern example_disk))(5 := (procs (os_kern example_disk) 5)\<lparr>p_mm := Some 1, p_filesp := Some 0\<rparr>)\<rparr>"

definition example_reader :: "vmm \<Rightarrow> ucore" where
  "example_reader v = example_disk\<lparr>os_vm := v\<lparr>vm_kern := example_kern_cur, vm_pool := [65536]\<rparr>,
     os_files := (\<lambda>_. \<lparr>fl_pwd = None, fl_fd = (\<lambda>i. \<lparr>f_status = FD_OPENED, f_readable = True, f_writable = True, f_fd = int i, f_pos = 2,
       f_node = Some 20, f_open_count = 1\<rparr>), fl_count = 1\<rparr>)\<rparr>"

text \<open>The page is mapped for user accesses in the page directory of frame 1, which also has the kernel's part.\<close>

lemma example_user_area:
  "\<exists>v L. mm_inv v 1 [2] \<and> vstart v 2 = USERBASE \<and> vend v 2 = USERBASE + PGSIZE \<and> vma_flags (vm_vmas v 2) = VM_WRITE
     \<and> mm_pgdir (vm_mms v 1) = Some 1 \<and> pt_inv (vm_mem v) L \<and> L 1 = Some (1, Root) \<and> kernel_mapped (vm_mem v) L 1
     \<and> pte_at (vm_mem v) 1 USERBASE = pte_create (page2ppn 5) (PTE_V OR PTE_USER)"
proof -
  obtain s where s: "mm_create boot_vmm = (Some 1, s)" by (simp add: mm_create_def boot_vmm_def kmalloc_obj_def Let_def)
  have p: "vm_pool s = [2, 3, 4]" using mm_create_inv(2) [OF s] by (simp add: boot_vmm_def)
  have "USERBASE < USERBASE + PGSIZE" by (simp add: USERBASE_def PGSIZE_def)
  from mm_map_new_ok [OF mm_create_inv(1) [OF s] p _ this, of VM_WRITE]
  obtain v where v: "mm_inv v 1 [2]" "vstart v 2 = USERBASE" "vend v 2 = USERBASE + PGSIZE" "vma_flags (vm_vmas v 2) = VM_WRITE" by auto
  obtain m L where m: "pt_inv m L" "L 1 = Some (1, Root)" "pte_at m 1 USERBASE = pte_create (page2ppn 5) (PTE_V OR PTE_USER)" "kernel_mapped m L 1"
    using example_mapping by blast
  have "mm_inv (upd_mm 1 (\<lambda>x. x\<lparr>mm_pgdir := Some 1\<rparr>) (v\<lparr>vm_mem := m\<rparr>)) 1 [2]"
    using v(1) by (simp add: mm_inv_def mm_list_def areas_ok_def)
  then show ?thesis using v m
    by (intro exI [of _ "upd_mm 1 (\<lambda>x. x\<lparr>mm_pgdir := Some 1\<rparr>) (v\<lparr>vm_mem := m\<rparr>)"] exI [of _ L]) simp
qed

lemma example_reader_ok:
  assumes "mm_inv v 1 [2]"
  shows "reads_file 10 20 3 (0, 3) (example_reader v)" "user_space 5 1 [2] (example_reader v)" "fs_mem 10 (example_reader v) = fs_mem 10 example_disk"
    "file_contents 20 (example_reader v) = file_contents 20 example_disk"
proof -
  have k: "os_kern (example_reader v) = example_kern_cur" by (simp add: example_reader_def os_kern_def)
  have l: "lock_free m example_kern_cur = lock_free m (os_kern example_disk)" for m
    by (simp add: lock_free_def wait_queue_first_def example_kern_cur_def)
  have same: "same_fs example_disk (example_reader v)" by (simp add: same_fs_def k l) (simp add: example_reader_def)
  note q = same_fs_sfs [OF same]
  show "fs_mem 10 (example_reader v) = fs_mem 10 example_disk" "file_contents 20 (example_reader v) = file_contents 20 example_disk"
    by (rule q)+
  have "optab (os_data (example_reader v)) 20 = SfsFile" by (simp add: example_reader_def example_disk_def)
  moreover have "inode_check 20 (example_reader v) = Some ()"
    by (simp add: inode_check_def inode_ref_count_def inode_open_count_def MAX_INODE_COUNT_def example_reader_def)
  moreover have "current_filesp (example_reader v) = Some 0" by (simp add: current_filesp_def k example_kern_cur_def)
  ultimately show "reads_file 10 20 3 (0, 3) (example_reader v)"
    using example_file [of 20] unfolding reads_file_def q
    by (simp add: files_count_def get_file_def testfd_def FILES_STRUCT_NENTRY_def FILES_STRUCT_BUFSIZE_def) (simp add: example_reader_def)
  have "os_proc (example_reader v) 5 = procs example_kern_cur 5" by (simp add: os_proc_def k)
  then show "user_space 5 1 [2] (example_reader v)"
    using assms example_lock [of 1] unfolding user_space_def k l by (simp add: example_kern_cur_def) (simp add: example_reader_def)
qed

lemma page_access_pte:
  assumes "pt_inv s L" and "L d = Some (r, Root)" and "la < USERTOP"
  shows "page_access s d write la \<longleftrightarrow> pte_at s d la AND PTE_V \<noteq> 0 \<and> pte_at s d la AND (if write then PTE_W else PTE_R) \<noteq> 0"
  using get_pte_lookup [OF assms(1,2) user_pdx_below [OF assms(3)]]
  by (auto simp: page_access_def pte_at_def split: option.splits)

lemma user_pte_access: "pte_create p (PTE_V OR PTE_USER) AND PTE_W \<noteq> 0" "pte_create p (PTE_V OR PTE_USER) AND PTE_R \<noteq> 0"
proof -
  have "bit (pte_create p (PTE_V OR PTE_USER) AND PTE_W) 2" "bit (pte_create p (PTE_V OR PTE_USER) AND PTE_R) 1"
    by (simp_all add: pte_create_def PTE_USER_def PTE_V_def PTE_R_def PTE_W_def PTE_X_def PTE_U_def bit_simps)
  then show "pte_create p (PTE_V OR PTE_USER) AND PTE_W \<noteq> 0" "pte_create p (PTE_V OR PTE_USER) AND PTE_R \<noteq> 0" by auto
qed

lemma example_user_range:
  assumes "mm_inv v 1 [2]" "vstart v 2 = USERBASE" "vend v 2 = USERBASE + PGSIZE" "vma_flags (vm_vmas v 2) = VM_WRITE"
    and m: "mm_pgdir (vm_mms v 1) = Some 1" "pt_inv (vm_mem v) L" "L 1 = Some (1, Root)"
      "pte_at (vm_mem v) 1 USERBASE = pte_create (page2ppn 5) (PTE_V OR PTE_USER)"
  shows "user_range 1 [2] (os_vm (example_reader v)) True (unat USERBASE) 10"
proof -
  have u: "unat USERBASE = 0x200000" by (simp add: USERBASE_def)
  have vm: "vm_vmas (os_vm (example_reader v)) = vm_vmas v" "vm_mem (os_vm (example_reader v)) = vm_mem v"
    "vm_mms (os_vm (example_reader v)) = vm_mms v" by (simp_all add: example_reader_def)
  have n: "unat (of_nat (0x200000 + i) :: 64 word) = 0x200000 + i" if "i < 10" for i
    unfolding unat_of_nat by (rule mod_less) (use that in simp)
  have "byte_ok v [2] True (of_nat (0x200000 + i))" if "i < 10" for i
  proof -
    have "vma_has v 2 (of_nat (0x200000 + i))"
      unfolding vma_has_def assms(2,3) word_le_nat_alt word_less_nat_alt n [OF that] using that by (simp add: USERBASE_def PGSIZE_def)
    then show ?thesis using assms(4) by (simp add: byte_ok_def VM_WRITE_def VM_STACK_def)
  qed
  moreover have "page_access (vm_mem v) 1 True (of_nat (0x200000 + i))" if "i < 10" for i
  proof -
    have lt: "(of_nat (0x200000 + i) :: 64 word) < USERTOP"
      unfolding word_less_nat_alt n [OF that] using that by (simp add: USERTOP_def)
    have "unat (of_nat (0x200000 + i) :: 64 word) div 4096 = unat USERBASE div 4096" unfolding n [OF that] u using that by simp
    from pte_at_same_page [OF this] show ?thesis
      unfolding page_access_pte [OF m(2,3) lt] using m(4) user_pte_access pte_create_valid by simp
  qed
  ultimately show ?thesis unfolding user_range_def user_mapped_def byte_ok_cong [OF vm(1)] u vm(2,3) using m(1) by simp
qed

end
