(* ===== verification/Skew_Heap.thy ===== *)
theory Skew_Heap
  imports Proc_Struct "HOL-Library.Tree" "HOL-Library.Multiset"
begin

text \<open>
  The intrusive skew heap of \<open>libs/skew_heap.h\<close>, on a heap of entries with parent, left and right
  pointers.  The pointer operations are shown to implement merge and deletion on trees, and those
  to keep the heap order and the set of elements.
\<close>

type_synonym skheap = "nat \<Rightarrow> skew_heap_entry"

definition skew_heap_init :: "nat \<Rightarrow> skheap \<Rightarrow> skheap" where
  "skew_heap_init a h = h(a := \<lparr>sk_parent = None, sk_left = None, sk_right = None\<rparr>)"

definition set_left :: "nat \<Rightarrow> nat option \<Rightarrow> skheap \<Rightarrow> skheap" where
  "set_left a v h = h(a := (h a)\<lparr>sk_left := v\<rparr>)"

definition set_right :: "nat \<Rightarrow> nat option \<Rightarrow> skheap \<Rightarrow> skheap" where
  "set_right a v h = h(a := (h a)\<lparr>sk_right := v\<rparr>)"

definition set_parent :: "nat \<Rightarrow> nat option \<Rightarrow> skheap \<Rightarrow> skheap" where
  "set_parent a v h = h(a := (h a)\<lparr>sk_parent := v\<rparr>)"

text \<open>The recursive calls pass one child less in all; on an ill-formed heap they need not end.\<close>

partial_function (option) skew_heap_merge ::
  "(nat \<Rightarrow> nat \<Rightarrow> int) \<Rightarrow> nat option \<Rightarrow> nat option \<Rightarrow> skheap \<Rightarrow> (nat option \<times> skheap) option" where
  "skew_heap_merge cmp a b h =
     (case a of None \<Rightarrow> Some (b, h)
      | Some x \<Rightarrow> (case b of None \<Rightarrow> Some (a, h)
        | Some y \<Rightarrow>
          if cmp x y = -1 then do {
            let r = sk_left (h x);
            (l, h1) \<leftarrow> skew_heap_merge cmp (sk_right (h x)) b h;
            let h2 = set_right x r (set_left x l h1);
            Some (a, case l of None \<Rightarrow> h2 | Some z \<Rightarrow> set_parent z (Some x) h2)
          } else do {
            let r = sk_left (h y);
            (l, h1) \<leftarrow> skew_heap_merge cmp a (sk_right (h y)) h;
            let h2 = set_right y r (set_left y l h1);
            Some (b, case l of None \<Rightarrow> h2 | Some z \<Rightarrow> set_parent z (Some y) h2)
          }))"

definition skew_heap_insert ::
  "(nat \<Rightarrow> nat \<Rightarrow> int) \<Rightarrow> nat option \<Rightarrow> nat \<Rightarrow> skheap \<Rightarrow> (nat option \<times> skheap) option" where
  "skew_heap_insert cmp a b h = skew_heap_merge cmp a (Some b) (skew_heap_init b h)"

definition skew_heap_remove ::
  "(nat \<Rightarrow> nat \<Rightarrow> int) \<Rightarrow> nat option \<Rightarrow> nat \<Rightarrow> skheap \<Rightarrow> (nat option \<times> skheap) option" where
  "skew_heap_remove cmp a b h = do {
     let p = sk_parent (h b);
     (rep, h1) \<leftarrow> skew_heap_merge cmp (sk_left (h b)) (sk_right (h b)) h;
     let h2 = (case rep of None \<Rightarrow> h1 | Some z \<Rightarrow> set_parent z p h1);
     Some (case p of
         Some q \<Rightarrow> (a, if sk_left (h2 q) = Some b then set_left q rep h2 else set_right q rep h2)
       | None \<Rightarrow> (rep, h2))
   }"

section \<open>Trees and their representation\<close>

text \<open>\<open>sk_tree h p t\<close>: the entries reached from \<open>p\<close> form the tree \<open>t\<close>, and every entry below
  the root knows its parent.\<close>

primrec sk_tree :: "skheap \<Rightarrow> nat option \<Rightarrow> nat tree \<Rightarrow> bool" where
  "sk_tree h p Leaf \<longleftrightarrow> p = None"
| "sk_tree h p (Node l x r) \<longleftrightarrow> p = Some x
     \<and> sk_tree h (sk_left (h x)) l \<and> sk_tree h (sk_right (h x)) r
     \<and> (\<forall>y. sk_left (h x) = Some y \<longrightarrow> sk_parent (h y) = Some x)
     \<and> (\<forall>y. sk_right (h x) = Some y \<longrightarrow> sk_parent (h y) = Some x)"

fun tree_merge :: "(nat \<Rightarrow> nat \<Rightarrow> int) \<Rightarrow> nat tree \<Rightarrow> nat tree \<Rightarrow> nat tree" where
  "tree_merge cmp Leaf t = t"
| "tree_merge cmp t Leaf = t"
| "tree_merge cmp (Node l1 x r1) (Node l2 y r2) =
     (if cmp x y = -1 then Node (tree_merge cmp r1 (Node l2 y r2)) x l1
      else Node (tree_merge cmp (Node l1 x r1) r2) y l2)"

fun tree_remove :: "(nat \<Rightarrow> nat \<Rightarrow> int) \<Rightarrow> nat \<Rightarrow> nat tree \<Rightarrow> nat tree" where
  "tree_remove cmp b Leaf = Leaf"
| "tree_remove cmp b (Node l x r) =
     (if x = b then tree_merge cmp l r
      else if b \<in> set_tree l then Node (tree_remove cmp b l) x r
      else Node l x (tree_remove cmp b r))"

lemma tree_merge_Leaf [simp]: "tree_merge cmp t Leaf = t"
  by (cases t) auto

lemma mset_tree_merge: "mset (inorder (tree_merge cmp t1 t2)) = mset (inorder t1) + mset (inorder t2)"
  by (induction cmp t1 t2 rule: tree_merge.induct) auto

lemma set_tree_merge [simp]: "set_tree (tree_merge cmp t1 t2) = set_tree t1 \<union> set_tree t2"
proof -
  have "set_mset (mset (inorder (tree_merge cmp t1 t2))) = set_mset (mset (inorder t1) + mset (inorder t2))"
    by (simp only: mset_tree_merge)
  then show ?thesis by simp
qed

lemma distinct_tree_merge:
  "distinct (inorder t1 @ inorder t2) \<Longrightarrow> distinct (inorder (tree_merge cmp t1 t2))"
proof -
  assume "distinct (inorder t1 @ inorder t2)"
  moreover have "mset (inorder (tree_merge cmp t1 t2)) = mset (inorder t1 @ inorder t2)"
    by (simp add: mset_tree_merge)
  ultimately show ?thesis by (metis mset_eq_imp_distinct_iff)
qed

lemma mset_tree_remove:
  "b \<in> set_tree t \<Longrightarrow> add_mset b (mset (inorder (tree_remove cmp b t))) = mset (inorder t)"
proof (induction t)
  case (Node l x r)
  then show ?case by (auto simp: mset_tree_merge add_mset_commute)
qed simp

lemma tree_remove_facts:
  assumes "b \<in> set_tree t" and "distinct (inorder t)"
  shows "set_tree (tree_remove cmp b t) = set_tree t - {b}" and "distinct (inorder (tree_remove cmp b t))"
proof -
  have m: "mset (b # inorder (tree_remove cmp b t)) = mset (inorder t)"
    using mset_tree_remove [OF assms(1)] by simp
  then have d: "distinct (b # inorder (tree_remove cmp b t))"
    using assms(2) by (metis mset_eq_imp_distinct_iff)
  have "insert b (set_tree (tree_remove cmp b t)) = set_tree t"
    using arg_cong [OF m, of set_mset] by simp
  moreover have "b \<notin> set_tree (tree_remove cmp b t)" using d by simp
  ultimately show "set_tree (tree_remove cmp b t) = set_tree t - {b}" by auto
  show "distinct (inorder (tree_remove cmp b t))" using d by simp
qed

lemma sk_tree_root: "sk_tree h p t \<Longrightarrow> p = Some x \<Longrightarrow> x \<in> set_tree t"
  by (cases t) auto

lemma sk_tree_cong:
  assumes "\<And>x. x \<in> set_tree t \<Longrightarrow> sk_left (h' x) = sk_left (h x) \<and> sk_right (h' x) = sk_right (h x)"
    and "\<And>x. x \<in> set_tree t \<Longrightarrow> p \<noteq> Some x \<Longrightarrow> sk_parent (h' x) = sk_parent (h x)"
    and "sk_tree h p t" and "distinct (inorder t)"
  shows "sk_tree h' p t"
  using assms
proof (induction t arbitrary: p)
  case (Node l x r)
  have x: "sk_left (h' x) = sk_left (h x)" "sk_right (h' x) = sk_right (h x)" "p = Some x"
    using Node.prems by auto
  have nx: "x \<notin> set_tree l" "x \<notin> set_tree r" using Node.prems(4) by auto
  have kids: "sk_tree h (sk_left (h x)) l" "sk_tree h (sk_right (h x)) r"
    "\<And>y. sk_left (h x) = Some y \<Longrightarrow> sk_parent (h y) = Some x"
    "\<And>y. sk_right (h x) = Some y \<Longrightarrow> sk_parent (h y) = Some x"
    using Node.prems(3) by auto
  have pc: "sk_parent (h' y) = sk_parent (h y)" if "y \<in> set_tree l \<union> set_tree r" for y
    using Node.prems(2) [of y] that x(3) nx by auto
  have "sk_tree h' (sk_left (h x)) l"
    by (rule Node.IH(1)) (use Node.prems kids pc in auto)
  moreover have "sk_tree h' (sk_right (h x)) r"
    by (rule Node.IH(2)) (use Node.prems kids pc in auto)
  ultimately show ?case
    using x kids pc sk_tree_root [OF kids(1)] sk_tree_root [OF kids(2)] by auto
qed simp

section \<open>The pointer operations implement the tree operations\<close>

lemma link_top:
  assumes l: "sk_tree h1 p t" and r: "sk_tree h1 q u" and d: "distinct (x # inorder t @ inorder u)"
    and qp: "\<And>y. q = Some y \<Longrightarrow> sk_parent (h1 y) = Some x"
    and h': "h' = (case p of None \<Rightarrow> set_right x q (set_left x p h1)
                 | Some z \<Rightarrow> set_parent z (Some x) (set_right x q (set_left x p h1)))"
  shows "sk_tree h' (Some x) (Node t x u)"
    and "z \<notin> insert x (set_tree t) \<Longrightarrow> h' z = h1 z" and "sk_parent (h' x) = sk_parent (h1 x)"
proof -
  have dp: "p \<noteq> Some x" "q \<noteq> Some x" using sk_tree_root [OF l] sk_tree_root [OF r] d by auto
  have hx: "sk_left (h' x) = p" "sk_right (h' x) = q" "sk_parent (h' x) = sk_parent (h1 x)"
    using dp by (auto simp: h' set_left_def set_right_def set_parent_def split: option.split)
  have sub: "sk_left (h' y) = sk_left (h1 y) \<and> sk_right (h' y) = sk_right (h1 y)
      \<and> (p \<noteq> Some y \<longrightarrow> sk_parent (h' y) = sk_parent (h1 y))" if "y \<noteq> x" for y
    using that by (auto simp: h' set_left_def set_right_def set_parent_def split: option.split)
  have pp: "p = Some y \<Longrightarrow> sk_parent (h' y) = Some x" for y
    by (auto simp: h' set_parent_def)
  have "sk_tree h' p t"
  proof (rule sk_tree_cong [OF _ _ l])
    fix y assume "y \<in> set_tree t"
    then have "y \<noteq> x" using d by auto
    then show "sk_left (h' y) = sk_left (h1 y) \<and> sk_right (h' y) = sk_right (h1 y)"
      and "p \<noteq> Some y \<Longrightarrow> sk_parent (h' y) = sk_parent (h1 y)" using sub by auto
  qed (use d in simp)
  moreover have "sk_tree h' q u"
  proof (rule sk_tree_cong [OF _ _ r])
    fix y assume y: "y \<in> set_tree u"
    then have "p \<noteq> Some y" "y \<noteq> x" using sk_tree_root [OF l] d by auto
    then show "sk_left (h' y) = sk_left (h1 y) \<and> sk_right (h' y) = sk_right (h1 y)"
      and "sk_parent (h' y) = sk_parent (h1 y)" using sub by auto
  qed (use d in simp)
  moreover have "sk_parent (h' y) = Some x" if "q = Some y" for y
  proof -
    have "y \<in> set_tree u" using sk_tree_root [OF r that] .
    then have "p \<noteq> Some y" "y \<noteq> x" using sk_tree_root [OF l] d by auto
    then show ?thesis using sub qp [OF that] by simp
  qed
  ultimately show "sk_tree h' (Some x) (Node t x u)" using hx pp by auto
  show "sk_parent (h' x) = sk_parent (h1 x)" by (rule hx)
  assume z: "z \<notin> insert x (set_tree t)"
  then have "p \<noteq> Some z" using sk_tree_root [OF l] by auto
  then show "h' z = h1 z"
    using z by (auto simp: h' set_left_def set_right_def set_parent_def split: option.split)
qed

lemma merge_refines:
  assumes "sk_tree h a t1" and "sk_tree h b t2" and "distinct (inorder t1 @ inorder t2)"
  shows "\<exists>p h'. skew_heap_merge cmp a b h = Some (p, h') \<and> sk_tree h' p (tree_merge cmp t1 t2)
     \<and> (\<forall>z. z \<notin> set_tree t1 \<union> set_tree t2 \<longrightarrow> h' z = h z)
     \<and> (\<forall>x. p = Some x \<longrightarrow> sk_parent (h' x) = sk_parent (h x))"
  using assms
proof (induction cmp t1 t2 arbitrary: a b rule: tree_merge.induct)
  case (1 cmp t)
  then show ?case by (subst skew_heap_merge.simps) simp
next
  case (2 cmp l x r)
  then show ?case by (subst skew_heap_merge.simps) simp
next
  case (3 cmp l1 x r1 l2 y r2)
  have a: "a = Some x" "b = Some y" using 3(3,4) by auto
  show ?case
  proof (cases "cmp x y = -1")
    case True
    have k0: "sk_tree h (sk_right (h x)) r1" using 3(3) by simp
    have d0: "distinct (inorder r1 @ inorder (Node l2 y r2))" using 3(5) by auto
    obtain p h1 where m: "skew_heap_merge cmp (sk_right (h x)) b h = Some (p, h1)"
      "sk_tree h1 p (tree_merge cmp r1 (Node l2 y r2))"
      "\<forall>z. z \<notin> set_tree r1 \<union> set_tree (Node l2 y r2) \<longrightarrow> h1 z = h z"
      using 3(1) [OF True k0 3(4) d0] by blast
    let ?q = "sk_left (h x)"
    define h' where "h' = (case p of None \<Rightarrow> set_right x ?q (set_left x p h1)
        | Some z \<Rightarrow> set_parent z (Some x) (set_right x ?q (set_left x p h1)))"
    have q: "sk_tree h1 ?q l1"
      by (rule sk_tree_cong [of _ _ h]) (use 3(3,5) m(3) in auto)
    have qp: "\<And>w. ?q = Some w \<Longrightarrow> sk_parent (h1 w) = Some x"
    proof -
      fix w assume w: "?q = Some w"
      then have "w \<in> set_tree l1" using sk_tree_root [of h ?q l1 w] 3(3) by simp
      then have "h1 w = h w" using m(3) 3(5) by auto
      then show "sk_parent (h1 w) = Some x" using 3(3) w by simp
    qed
    have d: "distinct (x # inorder (tree_merge cmp r1 (Node l2 y r2)) @ inorder l1)"
      using 3(5) distinct_tree_merge [of r1 "Node l2 y r2" cmp] by auto
    note k = link_top [OF m(2) q d qp h'_def]
    have "skew_heap_merge cmp a b h = Some (a, h')"
      using True a m(1) by (subst skew_heap_merge.simps) (simp add: h'_def Let_def split: option.split)
    moreover have "h1 x = h x" using m(3) 3(5) by auto
    moreover have "h' z = h z" if "z \<notin> set_tree (Node l1 x r1) \<union> set_tree (Node l2 y r2)" for z
      using k(2) [of z] m(3) that by auto
    ultimately show ?thesis using True a k(1,3) by (intro exI [of _ a] exI [of _ h']) auto
  next
    case False
    have k0: "sk_tree h (sk_right (h y)) r2" using 3(4) by simp
    have d0: "distinct (inorder (Node l1 x r1) @ inorder r2)" using 3(5) by auto
    obtain p h1 where m: "skew_heap_merge cmp a (sk_right (h y)) h = Some (p, h1)"
      "sk_tree h1 p (tree_merge cmp (Node l1 x r1) r2)"
      "\<forall>z. z \<notin> set_tree (Node l1 x r1) \<union> set_tree r2 \<longrightarrow> h1 z = h z"
      using 3(2) [OF False 3(3) k0 d0] by blast
    let ?q = "sk_left (h y)"
    define h' where "h' = (case p of None \<Rightarrow> set_right y ?q (set_left y p h1)
        | Some z \<Rightarrow> set_parent z (Some y) (set_right y ?q (set_left y p h1)))"
    have q: "sk_tree h1 ?q l2"
      by (rule sk_tree_cong [of _ _ h]) (use 3(4,5) m(3) in auto)
    have qp: "\<And>w. ?q = Some w \<Longrightarrow> sk_parent (h1 w) = Some y"
    proof -
      fix w assume w: "?q = Some w"
      then have "w \<in> set_tree l2" using sk_tree_root [of h ?q l2 w] 3(4) by simp
      then have "h1 w = h w" using m(3) 3(5) by auto
      then show "sk_parent (h1 w) = Some y" using 3(4) w by simp
    qed
    have d: "distinct (y # inorder (tree_merge cmp (Node l1 x r1) r2) @ inorder l2)"
      using 3(5) distinct_tree_merge [of "Node l1 x r1" r2 cmp] by auto
    note k = link_top [OF m(2) q d qp h'_def]
    have "skew_heap_merge cmp a b h = Some (b, h')"
      using False a m(1) by (subst skew_heap_merge.simps) (simp add: h'_def Let_def split: option.split)
    moreover have "h1 y = h y" using m(3) 3(5) by auto
    moreover have "h' z = h z" if "z \<notin> set_tree (Node l1 x r1) \<union> set_tree (Node l2 y r2)" for z
      using k(2) [of z] m(3) that by auto
    ultimately show ?thesis using False a k(1,3) by (intro exI [of _ b] exI [of _ h']) auto
  qed
qed

definition sk_heap :: "skheap \<Rightarrow> nat option \<Rightarrow> nat tree \<Rightarrow> bool" where
  "sk_heap h p t \<longleftrightarrow> sk_tree h p t \<and> distinct (inorder t) \<and> (\<forall>x. p = Some x \<longrightarrow> sk_parent (h x) = None)"

lemma insert_refines:
  assumes "sk_heap h a t" and "b \<notin> set_tree t"
  shows "\<exists>p h'. skew_heap_insert cmp a b h = Some (p, h')
     \<and> sk_heap h' p (tree_merge cmp t (Node Leaf b Leaf))
     \<and> (\<forall>z. z \<notin> insert b (set_tree t) \<longrightarrow> h' z = h z)"
proof -
  let ?h = "skew_heap_init b h"
  have t: "sk_tree ?h a t" "distinct (inorder t)"
  proof -
    show "distinct (inorder t)" using assms(1) by (simp add: sk_heap_def)
    have "x \<noteq> b" if "x \<in> set_tree t" for x using that assms(2) by auto
    then show "sk_tree ?h a t"
      by (intro sk_tree_cong [of t ?h h a]) (use assms(1) in \<open>simp_all add: sk_heap_def skew_heap_init_def\<close>)
  qed
  have b: "sk_tree ?h (Some b) (Node Leaf b Leaf)" by (simp add: skew_heap_init_def)
  have d: "distinct (inorder t @ inorder (Node Leaf b Leaf))" using t(2) assms(2) by simp
  obtain p h' where m: "skew_heap_merge cmp a (Some b) ?h = Some (p, h')"
    "sk_tree h' p (tree_merge cmp t (Node Leaf b Leaf))"
    "\<forall>z. z \<notin> set_tree t \<union> set_tree (Node Leaf b Leaf) \<longrightarrow> h' z = ?h z"
    "\<forall>x. p = Some x \<longrightarrow> sk_parent (h' x) = sk_parent (?h x)"
    using merge_refines [OF t(1) b d] by blast
  have top: "p = a \<or> p = Some b"
    using m(1) by (subst (asm) skew_heap_merge.simps)
      (auto simp: Option.bind_eq_Some_conv Let_def split: option.splits if_splits)
  have "sk_parent (h' x) = None" if "p = Some x" for x
    using top that m(4) assms by (auto simp: skew_heap_init_def sk_heap_def)
  then have "sk_heap h' p (tree_merge cmp t (Node Leaf b Leaf))"
    using m(2) distinct_tree_merge [OF d] by (simp add: sk_heap_def)
  then show ?thesis using m(1,3)
    by (intro exI [of _ p] exI [of _ h']) (auto simp: skew_heap_insert_def skew_heap_init_def)
qed

lemma sk_tree_unique: "sk_tree h p t \<Longrightarrow> sk_tree h p u \<Longrightarrow> t = u"
proof (induction t arbitrary: p u)
  case Leaf
  then show ?case by (cases u) auto
next
  case (Node l x r)
  then show ?case by (cases u) auto
qed

lemma sk_below:
  assumes "sk_tree h p t" and "distinct (inorder t)" and "b \<in> set_tree t"
  shows "\<exists>lb rb. sk_tree h (sk_left (h b)) lb \<and> sk_tree h (sk_right (h b)) rb
     \<and> distinct (b # inorder lb @ inorder rb) \<and> set_tree lb \<union> set_tree rb \<subseteq> set_tree t"
  using assms
proof (induction t arbitrary: p)
  case (Node l x r)
  have k: "sk_tree h (sk_left (h x)) l" "sk_tree h (sk_right (h x)) r" "p = Some x"
    using Node.prems(1) by auto
  have d: "distinct (inorder l)" "distinct (inorder r)" "x \<notin> set_tree l" "x \<notin> set_tree r"
    using Node.prems(2) by auto
  consider "b = x" | "b \<noteq> x" "b \<in> set_tree l" | "b \<noteq> x" "b \<in> set_tree r" using Node.prems(3) by auto
  then show ?case
  proof cases
    case 1
    then show ?thesis using Node.prems(2) k by (intro exI [of _ l] exI [of _ r]) auto
  next
    case 2
    from Node.IH(1) [OF k(1) d(1) 2(2)] obtain lb rb where
      "sk_tree h (sk_left (h b)) lb" "sk_tree h (sk_right (h b)) rb"
      "distinct (b # inorder lb @ inorder rb)" "set_tree lb \<union> set_tree rb \<subseteq> set_tree l" by blast
    then show ?thesis by (intro exI [of _ lb] exI [of _ rb]) auto
  next
    case 3
    from Node.IH(2) [OF k(2) d(2) 3(2)] obtain lb rb where
      "sk_tree h (sk_left (h b)) lb" "sk_tree h (sk_right (h b)) rb"
      "distinct (b # inorder lb @ inorder rb)" "set_tree lb \<union> set_tree rb \<subseteq> set_tree r" by blast
    then show ?thesis by (intro exI [of _ lb] exI [of _ rb]) auto
  qed
qed simp

text \<open>What \<open>skew_heap_remove\<close> writes, with the children \<open>lb\<close> and \<open>rb\<close> of the removed entry.\<close>

definition unhook :: "nat \<Rightarrow> nat option \<Rightarrow> nat option \<Rightarrow> skheap \<Rightarrow> skheap" where
  "unhook b p rep h1 =
     (let h2 = (case rep of None \<Rightarrow> h1 | Some z \<Rightarrow> set_parent z p h1)
      in case p of Some q \<Rightarrow> if sk_left (h2 q) = Some b then set_left q rep h2 else set_right q rep h2
         | None \<Rightarrow> h2)"

lemma unhook_other:
  "rep \<noteq> Some z \<Longrightarrow> p \<noteq> Some z \<Longrightarrow> unhook b p rep h1 z = h1 z"
  by (auto simp: unhook_def Let_def set_parent_def set_left_def set_right_def split: option.split)

lemma unhook_rep:
  "p \<noteq> Some z \<Longrightarrow> sk_left (unhook b p rep h1 z) = sk_left (h1 z)
     \<and> sk_right (unhook b p rep h1 z) = sk_right (h1 z)"
  "p \<noteq> rep \<Longrightarrow> rep = Some z \<Longrightarrow> sk_parent (unhook b p rep h1 z) = p"
  by (auto simp: unhook_def Let_def set_parent_def set_left_def set_right_def split: option.split)

lemma unhook_parent:
  "p = Some q \<Longrightarrow> rep \<noteq> Some q \<Longrightarrow> unhook b p rep h1 q
     = (if sk_left (h1 q) = Some b then (h1 q)\<lparr>sk_left := rep\<rparr> else (h1 q)\<lparr>sk_right := rep\<rparr>)"
  by (auto simp: unhook_def Let_def set_parent_def set_left_def set_right_def split: option.split)

lemma remove_inner:
  assumes rep: "sk_tree h1 rep (tree_merge cmp lb rb)"
    and fr: "\<forall>z. z \<notin> set_tree lb \<union> set_tree rb \<longrightarrow> h1 z = h z"
    and lr: "sk_tree h (sk_left (h b)) lb" "sk_tree h (sk_right (h b)) rb"
    and db: "distinct (b # inorder lb @ inorder rb)"
  defines "h' \<equiv> unhook b (sk_parent (h b)) rep h1"
  assumes t: "sk_tree h p t" "distinct (inorder t)" "b \<in> set_tree t" "p \<noteq> Some b"
  shows "sk_tree h' p (tree_remove cmp b t) \<and> (\<exists>q\<in>set_tree t. sk_parent (h b) = Some q)
     \<and> (\<forall>x. p = Some x \<longrightarrow> sk_parent (h' x) = sk_parent (h x))"
  using t
proof (induction t arbitrary: p)
  case (Node l x r)
  let ?S = "set_tree lb \<union> set_tree rb"
  have k: "sk_tree h (sk_left (h x)) l" "sk_tree h (sk_right (h x)) r" "p = Some x" "x \<noteq> b"
    "\<forall>y. sk_left (h x) = Some y \<longrightarrow> sk_parent (h y) = Some x"
    "\<forall>y. sk_right (h x) = Some y \<longrightarrow> sk_parent (h y) = Some x"
    using Node.prems(1,4) by auto
  have d: "distinct (inorder l)" "distinct (inorder r)" "x \<notin> set_tree l" "x \<notin> set_tree r"
    "set_tree l \<inter> set_tree r = {}"
    using Node.prems(2) by auto
  have repS: "rep = Some z \<Longrightarrow> z \<in> ?S" for z using sk_tree_root [OF rep, of z] by simp
  have sub: "?S \<subseteq> set_tree u" if u: "sk_tree h q u" "distinct (inorder u)" "b \<in> set_tree u" for q u
  proof -
    obtain l2 r2 where "sk_tree h (sk_left (h b)) l2" "sk_tree h (sk_right (h b)) r2"
      "set_tree l2 \<union> set_tree r2 \<subseteq> set_tree u" using sk_below [OF u] by blast
    then show ?thesis using sk_tree_unique lr by metis
  qed
  have same: "h' z = h z" if "z \<notin> ?S" "sk_parent (h b) \<noteq> Some z" for z
  proof -
    have "rep \<noteq> Some z" using repS [of z] that(1) by auto
    then show ?thesis using unhook_other [of rep z] that fr by (simp add: h'_def)
  qed
  have keep: "sk_tree h' q u" if u: "sk_tree h q u" "distinct (inorder u)"
    and out: "set_tree u \<inter> ?S = {}" "\<And>w. sk_parent (h b) = Some w \<Longrightarrow> w \<notin> set_tree u" for q u
  proof (rule sk_tree_cong [OF _ _ u])
    fix z assume "z \<in> set_tree u"
    then have "h' z = h z" by (intro same) (use out in auto)
    then show "sk_left (h' z) = sk_left (h z) \<and> sk_right (h' z) = sk_right (h z)"
      and "sk_parent (h' z) = sk_parent (h z)" by simp_all
  qed
  have repl: "sk_tree h' rep (tree_merge cmp lb rb)"
    if "\<And>w. sk_parent (h b) = Some w \<Longrightarrow> w \<notin> ?S"
  proof (rule sk_tree_cong [OF _ _ rep])
    fix z assume "z \<in> set_tree (tree_merge cmp lb rb)"
    then have nz: "sk_parent (h b) \<noteq> Some z" using that by auto
    then show "sk_left (h' z) = sk_left (h1 z) \<and> sk_right (h' z) = sk_right (h1 z)"
      unfolding h'_def by (rule unhook_rep)
    show "rep \<noteq> Some z \<Longrightarrow> sk_parent (h' z) = sk_parent (h1 z)"
      using nz unfolding h'_def by (simp add: unhook_other)
  qed (use db distinct_tree_merge [of lb rb cmp] in auto)
  have hx: "h1 x = h x" "rep \<noteq> Some x" if "x \<notin> ?S" using that fr repS by auto
  show ?case
  proof (cases "b \<in> set_tree l")
    case bl: True
    have S: "?S \<subseteq> set_tree l" by (rule sub [OF k(1) d(1) bl])
    then have xS: "x \<notin> ?S" using d(3) by auto
    have rS: "set_tree r \<inter> ?S = {}" using S d(5) by auto
    show ?thesis
    proof (cases "sk_left (h x) = Some b")
      case True
      then have pb: "sk_parent (h b) = Some x" using k(5) by simp
      have lt: "l = Node lb b rb"
        by (rule sk_tree_unique [OF k(1)]) (use True lr k(1) in \<open>cases l; auto\<close>)
      have x': "h' x = (h x)\<lparr>sk_left := rep\<rparr>"
        using unhook_parent [OF pb hx(2) [OF xS], of b h1] hx(1) [OF xS] True by (simp add: h'_def pb)
      have "sk_tree h' rep (tree_merge cmp lb rb)" using repl pb xS by auto
      moreover have "sk_tree h' (sk_right (h x)) r" by (rule keep [OF k(2) d(2) rS]) (use pb d(4) in auto)
      moreover have "sk_parent (h' y) = Some x" if "rep = Some y" for y
        using that unhook_rep(2) [of "sk_parent (h b)" rep y b h1] hx(2) [OF xS] pb by (auto simp: h'_def)
      moreover have "sk_parent (h' y) = Some x" if y: "sk_right (h x) = Some y" for y
      proof -
        have "y \<in> set_tree r" using sk_tree_root [OF k(2) y] .
        then have "h' y = h y" by (intro same) (use rS pb d(4) in auto)
        then show ?thesis using k(6) y by simp
      qed
      ultimately show ?thesis using x' lt k(3,4) pb by auto
    next
      case False
      from Node.IH(1) [OF k(1) d(1) bl False] have IH:
        "sk_tree h' (sk_left (h x)) (tree_remove cmp b l)" "\<exists>q\<in>set_tree l. sk_parent (h b) = Some q"
        "\<forall>y. sk_left (h x) = Some y \<longrightarrow> sk_parent (h' y) = sk_parent (h y)" by blast+
      then have pb: "sk_parent (h b) \<noteq> Some x" "\<And>w. sk_parent (h b) = Some w \<Longrightarrow> w \<notin> set_tree r"
        using d(3,5) by auto
      have x': "h' x = h x"
        using unhook_other [OF hx(2) [OF xS] pb(1), of b h1] hx(1) [OF xS] by (simp add: h'_def)
      have r': "sk_tree h' (sk_right (h x)) r" by (rule keep [OF k(2) d(2) rS pb(2)])
      have "sk_parent (h' y) = Some x" if y: "sk_right (h x) = Some y" for y
      proof -
        have "y \<in> set_tree r" using sk_tree_root [OF k(2) y] .
        then have "h' y = h y" by (intro same) (use rS pb(2) in auto)
        then show ?thesis using k(6) y by simp
      qed
      then show ?thesis using x' IH r' bl k(3,4,5) by auto
    qed
  next
    case bl: False
    then have br: "b \<in> set_tree r" using Node.prems(3) k(4) by auto
    have S: "?S \<subseteq> set_tree r" by (rule sub [OF k(2) d(2) br])
    then have xS: "x \<notin> ?S" using d(4) by auto
    have lS: "set_tree l \<inter> ?S = {}" using S d(5) by auto
    have nl: "sk_left (h x) \<noteq> Some b" using sk_tree_root [OF k(1)] bl by auto
    show ?thesis
    proof (cases "sk_right (h x) = Some b")
      case True
      then have pb: "sk_parent (h b) = Some x" using k(6) by simp
      have rt: "r = Node lb b rb"
        by (rule sk_tree_unique [OF k(2)]) (use True lr k(2) in \<open>cases r; auto\<close>)
      have x': "h' x = (h x)\<lparr>sk_right := rep\<rparr>"
        using unhook_parent [OF pb hx(2) [OF xS], of b h1] hx(1) [OF xS] nl by (simp add: h'_def pb)
      have "sk_tree h' rep (tree_merge cmp lb rb)" using repl pb xS by auto
      moreover have "sk_tree h' (sk_left (h x)) l" by (rule keep [OF k(1) d(1) lS]) (use pb d(3) in auto)
      moreover have "sk_parent (h' y) = Some x" if "rep = Some y" for y
        using that unhook_rep(2) [of "sk_parent (h b)" rep y b h1] hx(2) [OF xS] pb by (auto simp: h'_def)
      moreover have "sk_parent (h' y) = Some x" if y: "sk_left (h x) = Some y" for y
      proof -
        have "y \<in> set_tree l" using sk_tree_root [OF k(1) y] .
        then have "h' y = h y" by (intro same) (use lS pb d(3) in auto)
        then show ?thesis using k(5) y by simp
      qed
      ultimately show ?thesis using x' rt k(3,4) pb bl by auto
    next
      case False
      from Node.IH(2) [OF k(2) d(2) br False] have IH:
        "sk_tree h' (sk_right (h x)) (tree_remove cmp b r)" "\<exists>q\<in>set_tree r. sk_parent (h b) = Some q"
        "\<forall>y. sk_right (h x) = Some y \<longrightarrow> sk_parent (h' y) = sk_parent (h y)" by blast+
      then have pb: "sk_parent (h b) \<noteq> Some x" "\<And>w. sk_parent (h b) = Some w \<Longrightarrow> w \<notin> set_tree l"
        using d(4,5) by auto
      have x': "h' x = h x"
        using unhook_other [OF hx(2) [OF xS] pb(1), of b h1] hx(1) [OF xS] by (simp add: h'_def)
      have l': "sk_tree h' (sk_left (h x)) l" by (rule keep [OF k(1) d(1) lS pb(2)])
      have "sk_parent (h' y) = Some x" if y: "sk_left (h x) = Some y" for y
      proof -
        have "y \<in> set_tree l" using sk_tree_root [OF k(1) y] .
        then have "h' y = h y" by (intro same) (use lS pb(2) in auto)
        then show ?thesis using k(5) y by simp
      qed
      then show ?thesis using x' IH l' bl k(3,4,6) by auto
    qed
  qed
qed simp

lemma remove_refines:
  assumes heap: "sk_heap h a t" and b: "b \<in> set_tree t"
  shows "\<exists>p h'. skew_heap_remove cmp a b h = Some (p, h') \<and> sk_heap h' p (tree_remove cmp b t)
     \<and> (\<forall>z. z \<notin> set_tree t \<longrightarrow> h' z = h z)"
proof -
  have t: "sk_tree h a t" "distinct (inorder t)" "\<And>x. a = Some x \<Longrightarrow> sk_parent (h x) = None"
    using heap by (auto simp: sk_heap_def)
  obtain lb rb where lr: "sk_tree h (sk_left (h b)) lb" "sk_tree h (sk_right (h b)) rb"
    "distinct (b # inorder lb @ inorder rb)" "set_tree lb \<union> set_tree rb \<subseteq> set_tree t"
    using sk_below [OF t(1,2) b] by blast
  have dl: "distinct (inorder lb @ inorder rb)" using lr(3) by simp
  obtain rep h1 where m: "skew_heap_merge cmp (sk_left (h b)) (sk_right (h b)) h = Some (rep, h1)"
    "sk_tree h1 rep (tree_merge cmp lb rb)" "\<forall>z. z \<notin> set_tree lb \<union> set_tree rb \<longrightarrow> h1 z = h z"
    using merge_refines [OF lr(1,2) dl] by blast
  let ?h = "unhook b (sk_parent (h b)) rep h1"
  have rm: "skew_heap_remove cmp a b h = Some (case sk_parent (h b) of None \<Rightarrow> rep | Some q \<Rightarrow> a, ?h)"
    using m(1) by (simp add: skew_heap_remove_def unhook_def Let_def split: option.split)
  have repS: "rep = Some z \<Longrightarrow> z \<in> set_tree lb \<union> set_tree rb" for z
    using sk_tree_root [OF m(2), of z] by simp
  note dr = tree_remove_facts(2) [OF b t(2), of cmp]
  show ?thesis
  proof (cases "a = Some b")
    case True
    then have pb: "sk_parent (h b) = None" using t(3) by simp
    have tt: "t = Node lb b rb"
      by (rule sk_tree_unique [OF t(1)]) (use True lr t(1) in \<open>cases t; auto\<close>)
    have "sk_tree ?h rep (tree_merge cmp lb rb)"
      by (rule sk_tree_cong [OF _ _ m(2)])
        (use pb unhook_rep(1) [of None _ b rep h1] unhook_other [of rep _ None b h1]
          distinct_tree_merge [OF dl] in auto)
    moreover have "sk_parent (?h x) = None" if "rep = Some x" for x
      using unhook_rep(2) [of None rep x b h1] that pb by simp
    moreover have "?h z = h z" if "z \<notin> set_tree t" for z
    proof -
      have "z \<notin> set_tree lb \<union> set_tree rb" using that tt by auto
      then show ?thesis using unhook_other [of rep z None b h1] repS [of z] m(3) pb by auto
    qed
    ultimately show ?thesis using rm pb tt dr
      by (intro exI [of _ rep] exI [of _ ?h]) (auto simp: sk_heap_def)
  next
    case False
    from remove_inner [OF m(2,3) lr(1-3) t(1,2) b False] obtain q where q: "q \<in> set_tree t"
      "sk_parent (h b) = Some q" "sk_tree ?h a (tree_remove cmp b t)"
      "\<forall>x. a = Some x \<longrightarrow> sk_parent (?h x) = sk_parent (h x)" by blast
    moreover have "?h z = h z" if "z \<notin> set_tree t" for z
    proof -
      have "z \<notin> set_tree lb \<union> set_tree rb" "sk_parent (h b) \<noteq> Some z" using that lr(4) q by auto
      then show ?thesis using unhook_other [of rep z "sk_parent (h b)" b h1] repS [of z] m(3) by auto
    qed
    ultimately show ?thesis using rm t(3) dr
      by (intro exI [of _ a] exI [of _ ?h]) (auto simp: sk_heap_def)
  qed
qed

section \<open>Heap order\<close>

primrec key_heap :: "(nat \<Rightarrow> nat) \<Rightarrow> nat tree \<Rightarrow> bool" where
  "key_heap key Leaf \<longleftrightarrow> True"
| "key_heap key (Node l x r) \<longleftrightarrow> key_heap key l \<and> key_heap key r
     \<and> (\<forall>y\<in>set_tree l \<union> set_tree r. key x \<le> key y)"

lemma key_heap_merge:
  assumes "key_heap key t1" and "key_heap key t2"
    and "\<And>x y. x \<in> set_tree t1 \<union> set_tree t2 \<Longrightarrow> y \<in> set_tree t1 \<union> set_tree t2
      \<Longrightarrow> cmp x y = -1 \<longleftrightarrow> key x < key y"
  shows "key_heap key (tree_merge cmp t1 t2)"
  using assms
proof (induction cmp t1 t2 rule: tree_merge.induct)
  case (3 cmp l1 x r1 l2 y r2)
  show ?case
  proof (cases "cmp x y = -1")
    case True
    then have "key x < key y" using 3(5) by simp
    moreover have "key_heap key (tree_merge cmp r1 (Node l2 y r2))"
      by (rule 3(1) [OF True]) (use 3(3-5) in auto)
    moreover have "\<forall>z\<in>set_tree (Node l2 y r2). key x \<le> key z"
      using \<open>key x < key y\<close> 3(4) by (auto intro: order_trans [of "key x" "key y"])
    ultimately show ?thesis using True 3(3) by auto
  next
    case False
    then have "key y \<le> key x" using 3(5) [of x y] by (simp add: not_less)
    moreover have "key_heap key (tree_merge cmp (Node l1 x r1) r2)"
      by (rule 3(2) [OF False]) (use 3(3-5) in auto)
    moreover have "\<forall>z\<in>set_tree (Node l1 x r1). key y \<le> key z"
      using \<open>key y \<le> key x\<close> 3(3) by (auto intro: order_trans [of "key y" "key x"])
    ultimately show ?thesis using False 3(4) by auto
  qed
qed simp_all

lemma key_heap_remove:
  assumes "key_heap key t" and "b \<in> set_tree t" and "distinct (inorder t)"
    and "\<And>x y. x \<in> set_tree t \<Longrightarrow> y \<in> set_tree t \<Longrightarrow> cmp x y = -1 \<longleftrightarrow> key x < key y"
  shows "key_heap key (tree_remove cmp b t)"
  using assms
proof (induction t)
  case (Node l x r)
  have d: "distinct (inorder l)" "distinct (inorder r)" using Node.prems(3) by auto
  consider "b = x" | "b \<noteq> x" "b \<in> set_tree l" | "b \<noteq> x" "b \<notin> set_tree l" "b \<in> set_tree r"
    using Node.prems(2) by auto
  then show ?case
  proof cases
    case 1
    then show ?thesis using Node.prems(1,4) by (auto intro: key_heap_merge)
  next
    case 2
    have "key_heap key (tree_remove cmp b l)"
      by (rule Node.IH(1)) (use Node.prems d 2 in auto)
    then show ?thesis using 2 Node.prems(1) tree_remove_facts(1) [OF 2(2) d(1), of cmp] by auto
  next
    case 3
    have "key_heap key (tree_remove cmp b r)"
      by (rule Node.IH(2)) (use Node.prems d 3 in auto)
    then show ?thesis using 3 Node.prems(1) tree_remove_facts(1) [OF 3(3) d(2), of cmp] by auto
  qed
qed simp

lemma key_heap_cong:
  "(\<And>x. x \<in> set_tree t \<Longrightarrow> key' x = key x) \<Longrightarrow> key_heap key' t = key_heap key t"
  by (induction t) auto

section \<open>Property\<close>

text \<open>C10: on a well-formed heap the pointer code of \<open>skew_heap_insert\<close> and \<open>skew_heap_remove\<close>
  returns, changes no entry outside the heap, and implements insertion and deletion on the tree it
  represents, for the root, inner entries and leaves alike; all parent pointers stay right.\<close>

theorem skew_heap_ops_refine:
  "(sk_heap h a t \<longrightarrow> b \<notin> set_tree t \<longrightarrow> (\<exists>p h'. skew_heap_insert cmp a b h = Some (p, h')
      \<and> sk_heap h' p (tree_merge cmp t (Node Leaf b Leaf))
      \<and> (\<forall>z. z \<notin> insert b (set_tree t) \<longrightarrow> h' z = h z)))
   \<and> (sk_heap h a t \<longrightarrow> b \<in> set_tree t \<longrightarrow> (\<exists>p h'. skew_heap_remove cmp a b h = Some (p, h')
      \<and> sk_heap h' p (tree_remove cmp b t) \<and> set_tree (tree_remove cmp b t) = set_tree t - {b}
      \<and> (\<forall>z. z \<notin> set_tree t \<longrightarrow> h' z = h z)))"
  using insert_refines [of h a t b cmp] remove_refines [of h a t b cmp]
    tree_remove_facts(1) [of b t cmp] by (auto simp: sk_heap_def)

theorem skew_heap_ops_refine_witness:
  "\<exists>p h' p2 h2. skew_heap_insert (\<lambda>x y. if x < y then -1 else 1) (Some 4)
       2 (\<lambda>_. \<lparr>sk_parent = None, sk_left = None, sk_right = None\<rparr>) = Some (p, h')
     \<and> sk_heap h' p (Node (Node Leaf 4 Leaf) 2 Leaf)
     \<and> skew_heap_remove (\<lambda>x y. if x < y then -1 else 1) p 4 h' = Some (p2, h2)
     \<and> sk_heap h2 p2 (Node Leaf 2 Leaf)"
proof -
  let ?c = "\<lambda>x y. if x < y then -1 else 1 :: int"
  let ?h = "\<lambda>_. \<lparr>sk_parent = None, sk_left = None, sk_right = None\<rparr>"
  have "sk_heap ?h (Some 4) (Node Leaf 4 Leaf)" by (simp add: sk_heap_def)
  then obtain p h' where i: "skew_heap_insert ?c (Some 4) 2 ?h = Some (p, h')"
    "sk_heap h' p (Node (Node Leaf 4 Leaf) 2 Leaf)"
    using skew_heap_ops_refine [of ?h "Some 4" "Node Leaf 4 Leaf" 2 ?c] by auto
  obtain p2 h2 where "skew_heap_remove ?c p 4 h' = Some (p2, h2)"
    "sk_heap h2 p2 (tree_remove ?c 4 (Node (Node Leaf 4 Leaf) 2 Leaf))"
    using skew_heap_ops_refine [of h' p "Node (Node Leaf 4 Leaf) 2 Leaf" 4 ?c] i(2) by auto
  then show ?thesis using i by auto
qed

end
