(* ===== verification/Sched_Stride.thy ===== *)
theory Sched_Stride
  imports Sched Skew_Heap
begin

text \<open>
  The stride scheduling class of \<open>kern/schedule/default_sched_stride.c\<close>.  The run pool is the
  pointer skew heap; strides are 32-bit counters that wrap and are compared by the sign of their
  difference.  The class fulfils \<open>sched_policy\<close> as long as every process has a positive
  priority (the C code divides by it), and the wrapped comparison orders processes by their
  unbounded virtual time.
\<close>

definition BIG_STRIDE :: nat where
  "BIG_STRIDE = 1073741824"

definition to_s32 :: "nat \<Rightarrow> int" where
  "to_s32 n = (if n < 2147483648 then int n else int n - 4294967296)"

definition proc_stride_comp_f :: "kern \<Rightarrow> nat \<Rightarrow> nat \<Rightarrow> int" where
  "proc_stride_comp_f s p q =
     (let c = to_s32 (sub32 (p_stride (procs s p)) (p_stride (procs s q)))
      in if 0 < c then 1 else if c = 0 then 0 else -1)"

definition stride_init :: "kern \<Rightarrow> kern" where
  "stride_init s = (upd_run_links (list_init RunList) s)\<lparr>run_pool := None, proc_num := 0\<rparr>"

definition stride_enqueue :: "nat \<Rightarrow> kern \<Rightarrow> kern option" where
  "stride_enqueue p s = do {
     (r, h) \<leftarrow> skew_heap_insert (proc_stride_comp_f s) (run_pool s) p (pool s);
     let s1 = s\<lparr>run_pool := r, pool := h\<rparr>;
     let s2 = (if p_time_slice (procs s1 p) = 0 \<or> max_time_slice s1 < p_time_slice (procs s1 p)
               then upd_proc p (\<lambda>a. a\<lparr>p_time_slice := max_time_slice s1\<rparr>) s1 else s1);
     let s3 = upd_proc p (\<lambda>a. a\<lparr>p_rq := TheRq\<rparr>) s2;
     Some (s3\<lparr>proc_num := u32 (proc_num s3 + 1)\<rparr>)
   }"

definition stride_dequeue :: "nat \<Rightarrow> kern \<Rightarrow> kern option" where
  "stride_dequeue p s = do {
     kassert (p_rq (procs s p) = TheRq \<and> 0 < proc_num s);
     (r, h) \<leftarrow> skew_heap_remove (proc_stride_comp_f s) (run_pool s) p (pool s);
     let s1 = s\<lparr>run_pool := r, pool := h\<rparr>;
     Some (s1\<lparr>proc_num := sub32 (proc_num s1) 1\<rparr>)
   }"

text \<open>Dividing by a priority of zero is undefined in C; it is \<open>None\<close> here.\<close>

definition stride_pick_next :: "kern \<Rightarrow> (nat option \<times> kern) option" where
  "stride_pick_next s =
     (case run_pool s of None \<Rightarrow> Some (None, s)
      | Some p \<Rightarrow>
          if p_priority (procs s p) = 0 then None
          else Some (Some p, upd_proc p (\<lambda>a. a\<lparr>p_stride :=
                 u32 (p_stride a + BIG_STRIDE div p_priority a)\<rparr>) s))"

definition stride_proc_tick :: "nat \<Rightarrow> kern \<Rightarrow> kern" where
  "stride_proc_tick p s =
     (let s1 = (if 0 < p_time_slice (procs s p)
                then upd_proc p (\<lambda>a. a\<lparr>p_time_slice := p_time_slice a - 1\<rparr>) s else s)
      in if p_time_slice (procs s1 p) = 0
         then upd_proc p (\<lambda>a. a\<lparr>p_need_resched := True\<rparr>) s1 else s1)"

definition stride_sched_class :: sched_class where
  "stride_sched_class = \<lparr>sc_name = ''stride_scheduler'', sc_init = stride_init,
     sc_enqueue = stride_enqueue, sc_dequeue = stride_dequeue, sc_pick_next = stride_pick_next,
     sc_proc_tick = stride_proc_tick\<rparr>"

section \<open>The run pool\<close>

text \<open>Process addresses are indices below \<open>2^32 - 1\<close>, so the 32-bit counter cannot wrap.\<close>

definition stride_addr :: "nat \<Rightarrow> bool" where
  "stride_addr p \<longleftrightarrow> p < 4294967295"

definition stride_rep :: "kern \<Rightarrow> nat tree \<Rightarrow> bool" where
  "stride_rep s t \<longleftrightarrow> sk_heap (pool s) (run_pool s) t \<and> proc_num s = size t
     \<and> (\<forall>p\<in>set_tree t. p_rq (procs s p) = TheRq \<and> 0 < p_priority (procs s p) \<and> stride_addr p)"

lemma stride_size: "stride_rep s t \<Longrightarrow> size t < 4294967296"
proof -
  assume r: "stride_rep s t"
  then have "distinct (inorder t)" "set_tree t \<subseteq> {..<4294967295}"
    by (auto simp: stride_rep_def sk_heap_def stride_addr_def)
  then have "length (inorder t) = card (set_tree t)" by (metis distinct_card set_inorder)
  also have "\<dots> \<le> card {..<4294967295::nat}" by (rule card_mono) (simp, fact)
  finally show ?thesis by simp
qed

lemma size_tree_merge: "size (tree_merge c t u) = size t + size u"
  by (induction c t u rule: tree_merge.induct) auto

lemma size_tree_remove: "b \<in> set_tree t \<Longrightarrow> size (tree_remove c b t) = size t - 1"
proof -
  assume "b \<in> set_tree t"
  from mset_tree_remove [OF this, of c] have "size (add_mset b (mset (inorder (tree_remove c b t))))
      = size (mset (inorder t))" by simp
  then show ?thesis by simp
qed

lemma stride_enqueue_ok:
  assumes r: "stride_rep s t" and p: "p \<notin> set_tree t" "stride_addr p" "0 < p_priority (procs s p)"
  shows "\<exists>u. stride_enqueue p s = Some u
     \<and> stride_rep u (tree_merge (proc_stride_comp_f s) t (Node Leaf p Leaf)) \<and> rq_frame s u
     \<and> (\<forall>q. p_stride (procs u q) = p_stride (procs s q))"
proof -
  obtain x h where h: "skew_heap_insert (proc_stride_comp_f s) (run_pool s) p (pool s) = Some (x, h)"
    "sk_heap h x (tree_merge (proc_stride_comp_f s) t (Node Leaf p Leaf))"
    using insert_refines [of "pool s" "run_pool s" t p "proc_stride_comp_f s"] r p(1)
    by (auto simp: stride_rep_def)
  let ?ts = "if p_time_slice (procs s p) = 0 \<or> max_time_slice s < p_time_slice (procs s p)
    then max_time_slice s else p_time_slice (procs s p)"
  let ?u = "upd_proc p (\<lambda>a. a\<lparr>p_rq := TheRq, p_time_slice := ?ts\<rparr>)
    (s\<lparr>run_pool := x, pool := h, proc_num := u32 (proc_num s + 1)\<rparr>)"
  have e: "stride_enqueue p s = Some ?u"
    using h(1) by (auto simp: stride_enqueue_def Let_def upd_proc_def intro!: kern.equality)
  have "Suc (size t) < 4294967296"
  proof -
    have d: "distinct (inorder t)" "p \<notin> set_tree t" "set_tree t \<subseteq> {..<4294967295}"
      using r p(1) by (auto simp: stride_rep_def sk_heap_def stride_addr_def)
    then have "Suc (length (inorder t)) = card (insert p (set_tree t))"
      by (metis distinct_card set_inorder card_insert_disjoint finite_set_tree)
    also have "\<dots> \<le> card {..<4294967295::nat}"
      by (rule card_mono) (use d(3) p(2) in \<open>auto simp: stride_addr_def\<close>)
    finally show ?thesis by simp
  qed
  then have "stride_rep ?u (tree_merge (proc_stride_comp_f s) t (Node Leaf p Leaf))"
    using r h(2) p by (auto simp: stride_rep_def size_tree_merge)
  moreover have "rq_frame s ?u"
    by (auto simp: rq_frame_def rest_of_def upd_proc_def proc_core_def fun_eq_iff)
  ultimately show ?thesis using e by (intro exI [of _ ?u]) auto
qed

lemma stride_dequeue_ok:
  assumes r: "stride_rep s t" and p: "p \<in> set_tree t"
  shows "\<exists>u. stride_dequeue p s = Some u
     \<and> stride_rep u (tree_remove (proc_stride_comp_f s) p t) \<and> rq_frame s u \<and> procs u = procs s"
proof -
  obtain x h where h: "skew_heap_remove (proc_stride_comp_f s) (run_pool s) p (pool s) = Some (x, h)"
    "sk_heap h x (tree_remove (proc_stride_comp_f s) p t)"
    using remove_refines [of "pool s" "run_pool s" t p "proc_stride_comp_f s"] r p
    by (auto simp: stride_rep_def)
  let ?u = "s\<lparr>run_pool := x, pool := h, proc_num := sub32 (proc_num s) 1\<rparr>"
  have "0 < size t" using p by (cases t) auto
  then have n: "0 < proc_num s" "sub32 (proc_num s) 1 = size t - 1"
    using r stride_size [OF r] by (simp_all add: stride_rep_def)
  have e: "stride_dequeue p s = Some ?u"
    using h(1) r p n by (simp add: stride_dequeue_def stride_rep_def)
  moreover have "stride_rep ?u (tree_remove (proc_stride_comp_f s) p t)"
    using r h(2) n size_tree_remove [OF p] tree_remove_facts(1) [OF p]
    by (auto simp: stride_rep_def sk_heap_def)
  moreover have "rq_frame s ?u" by (simp add: rq_frame_def rest_of_def)
  ultimately show ?thesis by (intro exI [of _ ?u]) simp
qed

lemma stride_pick_ok:
  assumes r: "stride_rep s (Node l p q)"
  shows "\<exists>t. stride_pick_next s = Some (Some p, t) \<and> stride_rep t (Node l p q) \<and> rq_frame s t
     \<and> (\<forall>x. p_stride (procs t x) = (if x = p then u32 (p_stride (procs s p)
          + BIG_STRIDE div p_priority (procs s p)) else p_stride (procs s x)))"
proof -
  let ?t = "upd_proc p (\<lambda>a. a\<lparr>p_stride := u32 (p_stride a + BIG_STRIDE div p_priority a)\<rparr>) s"
  have "run_pool s = Some p" "0 < p_priority (procs s p)"
    using r by (simp_all add: stride_rep_def sk_heap_def)
  then have "stride_pick_next s = Some (Some p, ?t)" by (simp add: stride_pick_next_def)
  moreover have "stride_rep ?t (Node l p q)" using r by (auto simp: stride_rep_def)
  moreover have "rq_frame s ?t" by (rule rq_frame_upd) (simp add: proc_core_def)
  ultimately show ?thesis by (intro exI [of _ ?t]) auto
qed

lemma stride_tick_eq: "\<exists>ts nr. stride_proc_tick p s
    = upd_proc p (\<lambda>a. a\<lparr>p_time_slice := ts, p_need_resched := nr\<rparr>) s"
proof -
  let ?ts = "if 0 < p_time_slice (procs s p) then p_time_slice (procs s p) - 1
    else p_time_slice (procs s p)"
  have "stride_proc_tick p s = upd_proc p (\<lambda>a. a\<lparr>p_time_slice := ?ts,
      p_need_resched := (if ?ts = 0 then True else p_need_resched (procs s p))\<rparr>) s"
    by (auto simp: stride_proc_tick_def Let_def upd_proc_def intro!: kern.equality)
  then show ?thesis by blast
qed

lemma stride_sel [simp]:
  "sc_enqueue stride_sched_class = stride_enqueue" "sc_dequeue stride_sched_class = stride_dequeue"
  "sc_pick_next stride_sched_class = stride_pick_next"
  "sc_proc_tick stride_sched_class = stride_proc_tick"
  by (simp_all add: stride_sched_class_def)

interpretation stride: sched_policy stride_sched_class "\<lambda>s Q. \<exists>t. stride_rep s t \<and> Q = set_tree t"
  "\<lambda>p s. 0 < p_priority (procs s p)" stride_addr
proof (unfold_locales, goal_cases)
  case (1 s Q t)
  then have "pool t = pool s" "run_pool t = run_pool s" "proc_num t = proc_num s"
    "\<And>p. p_rq (procs t p) = p_rq (procs s p)" "\<And>p. p_priority (procs t p) = p_priority (procs s p)"
    by (auto simp: rq_view_def fun_eq_iff)
  then show ?case using 1(1) by (simp add: stride_rep_def)
next
  case (2 p s t)
  then show ?case by (auto simp: rq_view_def fun_eq_iff)
next
  case (3 s Q p)
  then obtain t where t: "stride_rep s t" "Q = set_tree t" by blast
  obtain u where u: "stride_enqueue p s = Some u" "rq_frame s u"
    "stride_rep u (tree_merge (proc_stride_comp_f s) t (Node Leaf p Leaf))"
    using stride_enqueue_ok [OF t(1)] 3 t(2) by blast
  moreover have "insert p Q = set_tree (tree_merge (proc_stride_comp_f s) t (Node Leaf p Leaf))"
    using t(2) by simp
  ultimately show ?case
    using rq_frame_procs(6) [OF u(2)] by (intro exI [of _ u]) auto
next
  case (4 s)
  then have "run_pool s = None" by (auto simp: stride_rep_def sk_heap_def)
  then show ?case by (simp add: stride_pick_next_def)
next
  case (5 s Q)
  then obtain l p q where t: "stride_rep s (Node l p q)" "Q = set_tree (Node l p q)"
    by (metis tree.set(1) tree.exhaust)
  obtain t1 where t1: "stride_pick_next s = Some (Some p, t1)" "stride_rep t1 (Node l p q)"
    "rq_frame s t1" using stride_pick_ok [OF t(1)] by blast
  obtain u where u: "stride_dequeue p t1 = Some u" "rq_frame t1 u"
    "stride_rep u (tree_remove (proc_stride_comp_f t1) p (Node l p q))"
    using stride_dequeue_ok [OF t1(2), of p] by auto
  have f: "rq_frame s u" using t1(3) u(2) rq_frame_trans by blast
  have d: "distinct (inorder (Node l p q))" using t(1) by (simp add: stride_rep_def sk_heap_def)
  have "Q - {p} = set_tree (tree_remove (proc_stride_comp_f t1) p (Node l p q))"
    using tree_remove_facts(1) [OF _ d, of p] t(2) by simp
  moreover have "0 < p_priority (procs s p)" using t(1) by (simp add: stride_rep_def)
  ultimately show ?case
    using t(2) t1(1) u f rq_frame_procs(6) [OF f] by (intro exI [of _ p] exI [of _ t1] exI [of _ u]) auto
next
  case (6 p s)
  show ?case unfolding stride_sel by (rule stride_tick_eq)
qed

section \<open>The order of the wrapped strides\<close>

text \<open>\<open>f\<close> is the unbounded virtual time whose low 32 bits the code stores.\<close>

definition stride_window :: "(nat \<Rightarrow> nat) \<Rightarrow> kern \<Rightarrow> nat set \<Rightarrow> bool" where
  "stride_window f s P \<longleftrightarrow> (\<forall>p\<in>P. p_stride (procs s p) = u32 (f p))
     \<and> (\<forall>p\<in>P. \<forall>q\<in>P. f p \<le> f q + BIG_STRIDE)"

lemma sub32_int: "int (sub32 (u32 a) (u32 b)) = (int a - int b) mod 4294967296"
proof -
  have "u32 (u32 b) = u32 b" "u32 b \<le> u32 a + 4294967296"
    using u32_less [of b] by (simp_all add: less_imp_le trans_le_add2)
  then have "int (sub32 (u32 a) (u32 b)) = (int (u32 a) + 4294967296 - int (u32 b)) mod 4294967296"
    by (simp add: sub32_def) (simp add: u32_def zmod_int of_nat_diff)
  also have "\<dots> = (int (u32 a) - int (u32 b) + 4294967296) mod 4294967296"
    by (rule arg_cong [of _ _ "\<lambda>x. x mod 4294967296"]) simp
  also have "\<dots> = (int (u32 a) - int (u32 b)) mod 4294967296" by (rule mod_add_self2)
  also have "\<dots> = (int a - int b) mod 4294967296"
    by (simp add: u32_def zmod_int mod_diff_eq)
  finally show ?thesis .
qed

lemma wrapped_diff:
  assumes "a \<le> b + 1073741824" and "b \<le> a + 1073741824"
  shows "to_s32 (sub32 (u32 a) (u32 b)) = int a - int b"
proof (cases "b \<le> a")
  case True
  then have "(int a - int b) mod 4294967296 = int a - int b"
    using assms by (intro mod_pos_pos_trivial) auto
  then show ?thesis using sub32_int [of a b] assms True by (simp add: to_s32_def)
next
  case False
  have "(int a - int b) mod 4294967296 = (int a - int b + 4294967296) mod 4294967296"
    by (rule mod_add_self2 [symmetric])
  also have "\<dots> = int a - int b + 4294967296"
    using assms False by (intro mod_pos_pos_trivial) auto
  finally show ?thesis using sub32_int [of a b] assms False by (simp add: to_s32_def)
qed

lemma stride_comp_order:
  assumes "stride_window f s P" and "p \<in> P" and "q \<in> P"
  shows "proc_stride_comp_f s p q = -1 \<longleftrightarrow> f p < f q"
proof -
  have "to_s32 (sub32 (p_stride (procs s p)) (p_stride (procs s q))) = int (f p) - int (f q)"
    using wrapped_diff [of "f p" "f q"] assms by (simp add: stride_window_def BIG_STRIDE_def)
  then show ?thesis by (auto simp: proc_stride_comp_f_def Let_def)
qed

lemma stride_step_le: "BIG_STRIDE div k \<le> BIG_STRIDE"
  by simp

section \<open>Properties\<close>

text \<open>C11: one round of stride scheduling.  While the virtual times of the queued processes lie
  within \<open>BIG_STRIDE\<close> of each other, \<open>pick_next\<close> returns a process with the least virtual time,
  whatever the 32-bit counters have wrapped to; after it is charged \<open>BIG_STRIDE / priority\<close>,
  dequeued and enqueued again the pool is well formed, heap ordered, holds the same processes, and
  the virtual times still lie within \<open>BIG_STRIDE\<close>, so the property holds for every later round.\<close>

theorem stride_round_picks_least:
  assumes r: "stride_rep s t" and w: "stride_window f s (set_tree t)" and h: "key_heap f t"
    and ne: "t \<noteq> Leaf"
  shows "\<exists>p s1 s2 s3 t'. stride_pick_next s = Some (Some p, s1) \<and> p \<in> set_tree t
     \<and> (\<forall>q\<in>set_tree t. f p \<le> f q) \<and> stride_dequeue p s1 = Some s2 \<and> stride_enqueue p s2 = Some s3
     \<and> (let g = f(p := f p + BIG_STRIDE div p_priority (procs s p)) in
          stride_rep s3 t' \<and> set_tree t' = set_tree t \<and> stride_window g s3 (set_tree t') \<and> key_heap g t')"
proof -
  obtain l p q where t: "t = Node l p q" using ne by (cases t) auto
  define g where "g = f(p := f p + BIG_STRIDE div p_priority (procs s p))"
  obtain s1 where s1: "stride_pick_next s = Some (Some p, s1)" "stride_rep s1 (Node l p q)"
    "rq_frame s s1" "\<forall>x. p_stride (procs s1 x) = (if x = p then u32 (p_stride (procs s p)
          + BIG_STRIDE div p_priority (procs s p)) else p_stride (procs s x))"
    using stride_pick_ok [of s l p q] r t by blast
  have min: "\<forall>x\<in>set_tree t. f p \<le> f x" using h t by auto
  have d: "distinct (inorder t)" using r by (simp add: stride_rep_def sk_heap_def)
  have st: "p_stride (procs s x) = u32 (f x)" if "x \<in> set_tree t" for x
    using w that by (simp add: stride_window_def)
  have wg: "stride_window g s1 (set_tree t)"
  proof -
    have "u32 (u32 (f p) + k) = u32 (f p + k)" for k by (simp add: u32_def mod_add_left_eq)
    then have "\<forall>x\<in>set_tree t. p_stride (procs s1 x) = u32 (g x)"
      using s1(4) st t by (auto simp: g_def)
    moreover have "g x \<le> g y + BIG_STRIDE" if "x \<in> set_tree t" "y \<in> set_tree t" for x y
    proof -
      have a: "f x \<le> f y + BIG_STRIDE" "f p \<le> f y" "f x \<le> f p + BIG_STRIDE"
        using w that min t by (auto simp: stride_window_def)
      show ?thesis using a stride_step_le [of "p_priority (procs s p)"]
        by (auto simp: g_def intro: add_mono trans_le_add1 trans_le_add2)
    qed
    ultimately show ?thesis by (simp add: stride_window_def)
  qed
  let ?c1 = "proc_stride_comp_f s1"
  obtain s2 where s2: "stride_dequeue p s1 = Some s2" "stride_rep s2 (tree_merge ?c1 l q)"
    "procs s2 = procs s1"
    using stride_dequeue_ok [OF s1(2), of p] by auto
  let ?u = "tree_merge ?c1 l q" and ?c2 = "proc_stride_comp_f s2"
  have kids: "set_tree ?u = set_tree t - {p}" using d t by auto
  have kg: "key_heap g l" "key_heap g q"
  proof -
    have "key_heap g l = key_heap f l" by (rule key_heap_cong) (use d t in \<open>auto simp: g_def\<close>)
    moreover have "key_heap g q = key_heap f q"
      by (rule key_heap_cong) (use d t in \<open>auto simp: g_def\<close>)
    ultimately show "key_heap g l" "key_heap g q" using h t by simp_all
  qed
  have cmp: "?c1 x y = -1 \<longleftrightarrow> g x < g y" if "x \<in> set_tree t" "y \<in> set_tree t" for x y
    by (rule stride_comp_order [OF wg that])
  have ku: "key_heap g ?u"
    by (rule key_heap_merge [OF kg]) (use cmp t in auto)
  have c2: "?c2 = ?c1" by (simp add: proc_stride_comp_f_def fun_eq_iff s2(3))
  let ?t' = "tree_merge ?c2 ?u (Node Leaf p Leaf)"
  have "stride_addr p" "0 < p_priority (procs s2 p)"
    using s1(2) s2(3) by (simp_all add: stride_rep_def)
  then obtain s3 where s3: "stride_enqueue p s2 = Some s3" "stride_rep s3 ?t'"
    "\<forall>x. p_stride (procs s3 x) = p_stride (procs s2 x)"
    using stride_enqueue_ok [OF s2(2), of p] kids by blast
  have set: "set_tree ?t' = set_tree t" using kids t by auto
  have "key_heap g ?t'"
    by (rule key_heap_merge [OF ku]) (use cmp kids t in \<open>auto simp: c2\<close>)
  moreover have "stride_window g s3 (set_tree t)"
    using wg s3(3) s2(3) by (simp add: stride_window_def)
  ultimately show ?thesis
    using s1(1) s2(1) s3(1,2) min t set unfolding g_def [symmetric]
    by (intro exI [of _ p] exI [of _ s1] exI [of _ s2] exI [of _ s3] exI [of _ ?t']) (simp add: g_def)
qed

definition example_stride :: kern where
  "example_stride = stride_init (boot_kern\<lparr>procs :=
     (\<lambda>p. zero_proc\<lparr>p_priority := p, p_stride := 4294967295\<rparr>)\<rparr>)"

theorem stride_round_picks_least_witness:
  "\<exists>s s1 s2 s3. stride_rep s (Node Leaf 4 Leaf) \<and> p_stride (procs s 4) = 4294967295
     \<and> stride_pick_next s = Some (Some 4, s1) \<and> stride_dequeue 4 s1 = Some s2
     \<and> stride_enqueue 4 s2 = Some s3 \<and> p_stride (procs s3 4) = 268435455"
proof -
  have r0: "stride_rep example_stride Leaf"
    by (simp add: stride_rep_def example_stride_def stride_init_def sk_heap_def)
  have pr: "procs example_stride = (\<lambda>p. zero_proc\<lparr>p_priority := p, p_stride := 4294967295\<rparr>)"
    by (simp add: example_stride_def stride_init_def upd_run_links_def)
  obtain s where s: "stride_rep s (Node Leaf 4 Leaf)" "rq_frame example_stride s"
    "p_stride (procs s 4) = 4294967295"
    using stride_enqueue_ok [OF r0, of 4] by (auto simp: pr stride_addr_def)
  have pri: "p_priority (procs s 4) = 4"
    using rq_frame_procs(6) [OF s(2), of 4] by (simp add: pr)
  let ?f = "\<lambda>_::nat. 4294967295::nat"
  have w: "stride_window ?f s (set_tree (Node Leaf 4 Leaf))"
    using s(3) by (simp add: stride_window_def)
  obtain p s1 s2 s3 t' where x: "stride_pick_next s = Some (Some p, s1)" "p \<in> set_tree (Node Leaf 4 Leaf)"
    "stride_dequeue p s1 = Some s2" "stride_enqueue p s2 = Some s3"
    "let g = ?f(p := ?f p + BIG_STRIDE div p_priority (procs s p)) in
          stride_rep s3 t' \<and> set_tree t' = set_tree (Node Leaf 4 Leaf) \<and> stride_window g s3 (set_tree t') \<and> key_heap g t'"
    using stride_round_picks_least [OF s(1) w] by auto
  have "p = 4" using x(2) by simp
  moreover have "p_stride (procs s3 4) = 268435455"
    using x(5) \<open>p = 4\<close> pri by (simp add: stride_window_def Let_def BIG_STRIDE_def) (simp add: u32_def)
  ultimately show ?thesis using s x by blast
qed

definition stride_ok :: "kern \<Rightarrow> nat set \<Rightarrow> nat \<Rightarrow> nat \<Rightarrow> bool" where
  "stride_ok s Q c i \<longleftrightarrow> (\<exists>t. stride_rep s t \<and> Q = set_tree t) \<and> current s = Some c \<and> idleproc s = Some i
     \<and> (\<forall>p. p \<in> Q \<longleftrightarrow> p_state (procs s p) = PROC_RUNNABLE \<and> p \<noteq> c \<and> p \<noteq> i)
     \<and> (\<forall>p. stride_addr p \<longrightarrow> p \<notin> Q \<longrightarrow> p \<noteq> i \<longrightarrow> 0 < p_priority (procs s p))
     \<and> (c \<noteq> i \<longrightarrow> stride_addr c)"

lemma stride_inv_iff: "stride.sched_inv s Q c i \<longleftrightarrow> stride_ok s Q c i"
proof -
  have "stride_rep s t \<Longrightarrow> Q = set_tree t \<Longrightarrow> \<forall>p\<in>Q. stride_addr p" for t
    by (simp add: stride_rep_def)
  then show ?thesis unfolding stride.sched_inv_def stride_ok_def by blast
qed

text \<open>The contract of the scheduler core holds for the stride class too: \<open>schedule\<close> returns,
  runs a process of the pool (or the one that just ran, if it is still runnable), the idle process
  only when nobody else is runnable, and keeps pool and process states in step.\<close>

theorem stride_schedule_keeps_contract:
  assumes "stride_ok s Q c i"
  shows "\<exists>t n. schedule stride_sched_class s = Some t \<and> (\<forall>p. p_state (procs t p) = p_state (procs s p))
     \<and> (let R = {p. p_state (procs s p) = PROC_RUNNABLE \<and> p \<noteq> i} in
          (if R = {} then n = i else n \<in> R) \<and> stride_ok t (R - {n}) n i)"
proof -
  have "(if p_state (procs s c) = PROC_RUNNABLE \<and> c \<noteq> i then insert c Q else Q)
      = {p. p_state (procs s p) = PROC_RUNNABLE \<and> p \<noteq> i}"
    using assms by (auto simp: stride_ok_def)
  note R = this
  show ?thesis
    using stride.schedule_steps [of s Q c i] assms unfolding stride_inv_iff R Let_def by blast
qed

theorem stride_schedule_keeps_contract_witness:
  "\<exists>s t. stride_ok s {} 2 2 \<and> schedule stride_sched_class s = Some t \<and> stride_ok t {} 2 2"
proof -
  let ?s = "stride_init (boot_kern\<lparr>current := Some 2, idleproc := Some 2,
    procs := (\<lambda>p. zero_proc\<lparr>p_priority := 3\<rparr>)\<rparr>)"
  have k: "procs ?s = (\<lambda>p. zero_proc\<lparr>p_priority := 3\<rparr>)" "current ?s = Some 2" "idleproc ?s = Some 2"
    by (simp_all add: stride_init_def upd_run_links_def)
  have "stride_rep ?s Leaf" by (simp add: stride_rep_def stride_init_def sk_heap_def)
  then have "\<exists>t. stride_rep ?s t \<and> {} = set_tree t" by (intro exI [of _ Leaf]) simp
  then have ok: "stride_ok ?s {} 2 2" unfolding stride_ok_def k by (simp add: zero_proc_def)
  have R: "{p. p_state (procs ?s p) = PROC_RUNNABLE \<and> p \<noteq> 2} = {}"
    by (simp only: k) (simp add: zero_proc_def)
  show ?thesis using stride_schedule_keeps_contract [OF ok] ok unfolding R Let_def by auto
qed

text \<open>A process whose priority was never set (\<open>alloc_proc\<close> stores 0) makes \<open>pick_next\<close> divide by zero.\<close>

lemma stride_pick_zero_priority:
  "run_pool s = Some p \<Longrightarrow> p_priority (procs s p) = 0 \<Longrightarrow> stride_pick_next s = None"
  by (simp add: stride_pick_next_def)

end
