(* ===== verification/Fork_Files.thy ===== *)
theory Fork_Files
  imports File_Counts Vmm Sched_Stride
begin

text \<open>
  The open files of a process and its child: duplicating the table of the parent shares every open file and
  counts it, and destroying the copy gives every count back.
\<close>

section \<open>Duplicating\<close>

definition fresh_table :: "'d os \<Rightarrow> nat \<Rightarrow> bool" where
  "fresh_table s p \<longleftrightarrow> files_count p s = 0 \<and> (\<forall>i<FILES_STRUCT_NENTRY. f_status (get_file (p, i) s) = FD_NONE \<and> entry_ok s (p, i))"

definition shared_entry :: "'d os \<Rightarrow> nat \<Rightarrow> nat \<Rightarrow> nat \<Rightarrow> file_t" where
  "shared_entry s to frm i = (if f_status (get_file (frm, i) s) = FD_OPENED then get_file (frm, i) s else get_file (to, i) s)"

lemma dup_files_loop_ok:
  assumes "files_ok s F P E" and f: "to \<in> F" "frm \<in> F" "to \<noteq> frm" and "i + n \<le> FILES_STRUCT_NENTRY"
    and "\<forall>m. inode_ref_count m s + int n < MAX_INODE_COUNT" and "\<forall>j. i \<le> j \<and> j < i + n \<longrightarrow> f_status (get_file (to, j) s) = FD_NONE"
  shows "\<exists>t. dup_files_loop to frm i n s = Some t \<and> files_ok t F P E
     \<and> (\<forall>p j. p \<noteq> to \<or> j < i \<or> i + n \<le> j \<longrightarrow> get_file (p, j) t = get_file (p, j) s)
     \<and> (\<forall>j. i \<le> j \<and> j < i + n \<longrightarrow> get_file (to, j) t = shared_entry s to frm j)
     \<and> (\<forall>q. fl_pwd (os_files t q) = fl_pwd (os_files s q) \<and> fl_count (os_files t q) = fl_count (os_files s q))"
  using assms(1,5-7)
proof (induction n arbitrary: i s)
  case 0
  then show ?case by auto
next
  case (Suc n)
  let ?step = "if f_status (get_file (frm, i) s) = FD_OPENED
       then fd_array_dup (to, i) (frm, i) (upd_file (to, i) (\<lambda>x. x\<lparr>f_status := FD_INIT\<rparr>) s) else Some s"
  have i: "i < FILES_STRUCT_NENTRY" "Suc i + n \<le> FILES_STRUCT_NENTRY" using Suc.prems(2) by simp_all
  have none: "f_status (get_file (to, i) s) = FD_NONE" using Suc.prems(4) by simp
  have room: "inode_ref_count m s + int (Suc n) < MAX_INODE_COUNT" for m using Suc.prems(3) by blast
  then have room1: "inode_ref_count m s + 1 < MAX_INODE_COUNT" for m using room [of m] by linarith
  have "entry_ok s (frm, i)" using Suc.prems(1) f(2) i(1) unfolding files_ok_def by blast
  then have fd: "(get_file (frm, i) s)\<lparr>f_fd := int i\<rparr> = get_file (frm, i) s" by (simp add: entry_ok_def)
  obtain s1 where s1: "?step = Some s1" "files_ok s1 F P E" "get_file (to, i) s1 = shared_entry s to frm i"
    "same_tables s s1 (to, i)" "\<And>m. inode_ref_count m s1 \<le> inode_ref_count m s + 1"
  proof (cases "f_status (get_file (frm, i) s) = FD_OPENED")
    case True
    from dup_entry [OF Suc.prems(1), of "(frm, i)" "(to, i)"] True none room1 f i(1) fd
    show ?thesis by (auto intro: that simp: shared_entry_def)
  next
    case False
    show ?thesis by (rule that [of s]) (use False Suc.prems(1) in \<open>simp_all add: shared_entry_def same_tables_def\<close>)
  qed
  have same: "x \<noteq> (to, i) \<Longrightarrow> get_file x s1 = get_file x s" for x using s1(4) unfolding same_tables_def by blast
  have "\<forall>m. inode_ref_count m s1 + int n < MAX_INODE_COUNT"
  proof
    fix m show "inode_ref_count m s1 + int n < MAX_INODE_COUNT" using s1(5) [of m] room [of m] by simp
  qed
  moreover have "\<forall>j. Suc i \<le> j \<and> j < Suc i + n \<longrightarrow> f_status (get_file (to, j) s1) = FD_NONE"
    using Suc.prems(4) same by auto
  ultimately obtain t where t: "dup_files_loop to frm (Suc i) n s1 = Some t" "files_ok t F P E"
     "\<forall>p j. p \<noteq> to \<or> j < Suc i \<or> Suc i + n \<le> j \<longrightarrow> get_file (p, j) t = get_file (p, j) s1"
     "\<forall>j. Suc i \<le> j \<and> j < Suc i + n \<longrightarrow> get_file (to, j) t = shared_entry s1 to frm j"
     "\<forall>q. fl_pwd (os_files t q) = fl_pwd (os_files s1 q) \<and> fl_count (os_files t q) = fl_count (os_files s1 q)"
    using Suc.IH [OF s1(2) i(2)] by blast
  have "dup_files_loop to frm i (Suc n) s = Some t" using s1(1) t(1) by simp
  moreover have "\<forall>p j. p \<noteq> to \<or> j < i \<or> i + Suc n \<le> j \<longrightarrow> get_file (p, j) t = get_file (p, j) s"
    using t(3) same by auto
  moreover have "\<forall>j. i \<le> j \<and> j < i + Suc n \<longrightarrow> get_file (to, j) t = shared_entry s to frm j"
  proof (intro allI impI)
    fix j assume j: "i \<le> j \<and> j < i + Suc n"
    show "get_file (to, j) t = shared_entry s to frm j"
    proof (cases "j = i")
      case True
      then show ?thesis using t(3) s1(3) by simp
    next
      case False
      then have "get_file (to, j) t = shared_entry s1 to frm j" using j t(4) by simp
      then show ?thesis using False f(3) same by (simp add: shared_entry_def)
    qed
  qed
  moreover have "\<forall>q. fl_pwd (os_files t q) = fl_pwd (os_files s q) \<and> fl_count (os_files t q) = fl_count (os_files s q)"
    using t(5) s1(4) unfolding same_tables_def by simp
  ultimately show ?case using t(2) by blast
qed

lemma dup_files_ok:
  assumes ok: "files_ok s F P E" and f: "frm \<in> F" "0 < files_count frm s" and to: "to \<notin> F" "to \<notin> P" "fresh_table s to"
    and pw: "fl_pwd (os_files s frm) \<noteq> None \<Longrightarrow> frm \<in> P"
    and room: "\<forall>n. inode_ref_count n s + int FILES_STRUCT_NENTRY + 1 < MAX_INODE_COUNT"
  shows "\<exists>t. dup_files to frm s = Some (0, t) \<and> files_ok t (insert to F) (insert to P) E
     \<and> (\<forall>i<FILES_STRUCT_NENTRY. get_file (to, i) t = shared_entry s to frm i)
     \<and> fl_pwd (os_files t to) = fl_pwd (os_files s frm) \<and> files_count to t = 0
     \<and> (\<forall>q. q \<noteq> to \<longrightarrow> (\<forall>i. get_file (q, i) t = get_file (q, i) s)
          \<and> fl_pwd (os_files t q) = fl_pwd (os_files s q) \<and> fl_count (os_files t q) = fl_count (os_files s q))"
proof -
  let ?s1 = "upd_files to (\<lambda>x. x\<lparr>fl_pwd := fl_pwd (os_files s frm)\<rparr>) s"
  let ?s2 = "case fl_pwd (os_files ?s1 to) of Some d \<Rightarrow> snd (inode_ref_inc d ?s1) | None \<Rightarrow> ?s1"
  have ne: "frm \<noteq> to" using f(1) to(1) by blast
  have gf: "get_file x ?s1 = get_file x s" for x by (simp add: get_file_def upd_files_def)
  have nd: "os_nodes ?s1 = os_nodes s" by (simp add: upd_files_def)
  have pwd: "fl_pwd (os_files ?s1 q) = (if q = to then fl_pwd (os_files s frm) else fl_pwd (os_files s q))"
    "fl_count (os_files ?s1 q) = fl_count (os_files s q)" for q by (simp_all add: upd_files_def)
  have rc: "inode_ref_count n ?s1 = inode_ref_count n s" "inode_open_count n ?s1 = inode_open_count n s" for n
    by (simp_all add: inode_ref_count_def inode_open_count_def nd)
  have op: "opened ?s1 = opened s" by (simp add: opened_def gf fun_eq_iff)
  have pws: "pwds ?s1 P = pwds s P" using to(2) by (auto simp: pwds_def pwd fun_eq_iff)
  have en: "entry_ok ?s1 x = entry_ok s x" for x by (rule entry_ok_same [OF gf])
  have ok1: "files_ok ?s1 F P E"
    using ok unfolding files_ok_def op pws rc nd en .
  have ok2: "files_ok ?s1 (insert to F) P E"
    using add_table [OF ok1, of to] to(3) entry_ok_same [OF gf] by (simp add: fresh_table_def gf)
  have s2: "files_ok ?s2 (insert to F) (insert to P) E" "os_files ?s2 = os_files ?s1"
    "\<forall>n. inode_ref_count n ?s2 \<le> inode_ref_count n s + 1"
  proof -
    show "files_ok ?s2 (insert to F) (insert to P) E"
    proof (cases "fl_pwd (os_files s frm)")
      case None
      then have "fl_pwd (os_files ?s1 to) = None" by (simp add: upd_files_def)
      then have eq: "pwds ?s1 (insert to P) = pwds ?s1 P" by (auto simp: pwds_def fun_eq_iff)
      have "files_ok ?s1 (insert to F) (insert to P) E" by (rule same_pwds [OF ok2 _ eq]) (use ok in \<open>simp add: files_ok_def\<close>)
      then show ?thesis using None by (simp add: upd_files_def)
    next
      case (Some n)
      then have "frm \<in> pwds s P n" using pw by (simp add: pwds_def)
      moreover have "finite P" using ok by (simp add: files_ok_def)
      ultimately have "0 < card (pwds s P n)" using finite_pwds by (auto simp: card_gt_0_iff)
      moreover have "inode_ref_count n s = int (card (opened s F n) + card (pwds s P n) + E n)"
        and ops: "0 < inode_ref_count n s \<longrightarrow> in_ops (os_nodes s n)" using ok unfolding files_ok_def by blast+
      ultimately have "in_ops (os_nodes ?s1 n)" by (simp add: nd)
      moreover have "inode_ref_count n ?s1 + 1 < MAX_INODE_COUNT" using spec [OF room, of n] unfolding rc by linarith
      moreover have "fl_pwd (os_files ?s1 to) = Some n" using Some by (simp add: upd_files_def)
      ultimately have "files_ok (snd (inode_ref_inc n ?s1)) (insert to F) (insert to P) E"
        using add_pwd [OF ok2 to(2)] by blast
      then show ?thesis using Some by (simp add: upd_files_def)
    qed
    show "os_files ?s2 = os_files ?s1" by (simp add: inode_ref_inc_def Let_def split: option.split)
    show "\<forall>n. inode_ref_count n ?s2 \<le> inode_ref_count n s + 1"
      by (auto simp: inode_ref_inc_def Let_def rc [symmetric] split: option.split) (simp add: inode_ref_count_def)
  qed
  have g2: "get_file x ?s2 = get_file x s" for x using s2(2) gf [of x] by (simp add: get_file_def)
  have "\<forall>n. inode_ref_count n ?s2 + int FILES_STRUCT_NENTRY < MAX_INODE_COUNT"
  proof
    fix n show "inode_ref_count n ?s2 + int FILES_STRUCT_NENTRY < MAX_INODE_COUNT"
      using spec [OF s2(3), of n] spec [OF room, of n] by linarith
  qed
  moreover have "\<forall>j. 0 \<le> j \<and> j < 0 + FILES_STRUCT_NENTRY \<longrightarrow> f_status (get_file (to, j) ?s2) = FD_NONE"
    using to(3) unfolding g2 by (simp add: fresh_table_def)
  ultimately obtain t where t: "dup_files_loop to frm 0 FILES_STRUCT_NENTRY ?s2 = Some t" "files_ok t (insert to F) (insert to P) E"
     "\<forall>p j. p \<noteq> to \<or> j < 0 \<or> 0 + FILES_STRUCT_NENTRY \<le> j \<longrightarrow> get_file (p, j) t = get_file (p, j) ?s2"
     "\<forall>j. 0 \<le> j \<and> j < 0 + FILES_STRUCT_NENTRY \<longrightarrow> get_file (to, j) t = shared_entry ?s2 to frm j"
     "\<forall>q. fl_pwd (os_files t q) = fl_pwd (os_files ?s2 q) \<and> fl_count (os_files t q) = fl_count (os_files ?s2 q)"
    using dup_files_loop_ok [OF s2(1), of to frm 0 FILES_STRUCT_NENTRY] f(1) ne by auto
  have "files_count to s = 0" using to(3) by (simp add: fresh_table_def)
  then have "dup_files to frm s = Some (0, t)"
    using f(2) t(1) by (simp add: dup_files_def)
  moreover have "\<forall>i<FILES_STRUCT_NENTRY. get_file (to, i) t = shared_entry s to frm i"
    using t(4) g2 by (simp add: shared_entry_def)
  moreover have "files_count to t = 0" using t(5) s2(2) to(3) pwd(2) by (simp add: files_count_def fresh_table_def)
  ultimately show ?thesis using t(2,3,5) s2(2) pwd g2 by simp
qed

text \<open>C19: duplicating the table of open files of a parent into a fresh one succeeds; each open file appears in the child
  with the same inode, position and rights, the other entries stay free, and afterwards the two counters of every inode
  again are the numbers of the entries and working directories that refer to it.  Nothing of the other tables changes.\<close>

theorem dup_files_shares:
  assumes "files_ok s F P E" and "frm \<in> F" "0 < files_count frm s" and "to \<notin> F" "to \<notin> P" "fresh_table s to"
    and "fl_pwd (os_files s frm) \<noteq> None \<Longrightarrow> frm \<in> P"
    and "\<forall>n. inode_ref_count n s + int FILES_STRUCT_NENTRY + 1 < MAX_INODE_COUNT"
  shows "\<exists>t. dup_files to frm s = Some (0, t) \<and> files_ok t (insert to F) (insert to P) E
     \<and> (\<forall>i<FILES_STRUCT_NENTRY. get_file (to, i) t = shared_entry s to frm i)
     \<and> fl_pwd (os_files t to) = fl_pwd (os_files s frm)
     \<and> (\<forall>q i. q \<noteq> to \<longrightarrow> get_file (q, i) t = get_file (q, i) s)"
  using dup_files_ok [OF assms] by blast

text \<open>Destroying the copy that \<open>dup_files\<close> made succeeds, whatever inodes it shares, and restores: every counter of every inode
  and every other table are what they were before the two calls.\<close>

theorem dup_destroy_restores:
  assumes ok: "files_ok s F P E" and f: "frm \<in> F" "0 < files_count frm s" and to: "to \<notin> F" "to \<notin> P" "fresh_table s to"
    and pw: "fl_pwd (os_files s frm) \<noteq> None \<Longrightarrow> frm \<in> P"
    and room: "\<forall>n. inode_ref_count n s + int FILES_STRUCT_NENTRY + 1 < MAX_INODE_COUNT" and d: "drivers_ok V"
  shows "\<exists>t u. dup_files to frm s = Some (0, t) \<and> files_destroy V to t = Some u
     \<and> (\<forall>n. inode_ref_count n u = inode_ref_count n s \<and> inode_open_count n u = inode_open_count n s)
     \<and> (\<forall>q i. q \<noteq> to \<longrightarrow> get_file (q, i) u = get_file (q, i) s)"
proof -
  obtain t where t: "dup_files to frm s = Some (0, t)" "files_ok t (insert to F) (insert to P) E" "files_count to t = 0"
     "\<forall>q. q \<noteq> to \<longrightarrow> (\<forall>i. get_file (q, i) t = get_file (q, i) s) \<and> fl_pwd (os_files t q) = fl_pwd (os_files s q)"
    using dup_files_ok [OF ok f to pw room] by blast
  obtain u where u: "files_destroy V to t = Some u" "files_ok u (insert to F - {to}) (insert to P - {to}) E"
     "\<forall>q. q \<noteq> to \<longrightarrow> (\<forall>i. get_file (q, i) u = get_file (q, i) t) \<and> fl_pwd (os_files u q) = fl_pwd (os_files t q)"
    using destroy_ok [OF t(2) d _ t(3)] by blast
  have F: "insert to F - {to} = F" "insert to P - {to} = P" using to by simp_all
  have same: "\<forall>q i. q \<noteq> to \<longrightarrow> get_file (q, i) u = get_file (q, i) s" "\<forall>q. q \<noteq> to \<longrightarrow> fl_pwd (os_files u q) = fl_pwd (os_files s q)"
    using t(4) u(3) by simp_all
  have "opened u F n = opened s F n" "pwds u P n = pwds s P n" for n
    using same to(1,2) by (auto simp: opened_def pwds_def)
  then have "\<forall>n. inode_ref_count n u = inode_ref_count n s \<and> inode_open_count n u = inode_open_count n s"
    using ok u(2) unfolding F files_ok_def by metis
  then show ?thesis using t(1) u(1) same(1) by blast
qed

section \<open>Witnesses\<close>

text \<open>A parent, table 1, with one open file: entry 0 on the inode 7, which is also its working directory.\<close>

definition example_os :: "unit os" where
  "example_os = \<lparr>os_vm = boot_vmm, os_mem = (\<lambda>_. 0),
     os_nodes = (\<lambda>n. if n = 7 then \<lparr>in_type = 0, in_ref = 2, in_open = 1, in_fs = None, in_ops = True\<rparr>
                     else \<lparr>in_type = 0, in_ref = 0, in_open = 0, in_fs = None, in_ops = False\<rparr>),
     os_files = (\<lambda>p. if p = 1
        then \<lparr>fl_pwd = Some 7, fl_fd = (\<lambda>i. if i = 0
                then \<lparr>f_status = FD_OPENED, f_readable = True, f_writable = True, f_fd = 0, f_pos = 12, f_node = Some 7, f_open_count = 1\<rparr>
                else \<lparr>f_status = FD_NONE, f_readable = False, f_writable = False, f_fd = int i, f_pos = 0, f_node = None, f_open_count = 0\<rparr>),
              fl_count = 1\<rparr>
        else \<lparr>fl_pwd = None,
              fl_fd = (\<lambda>i. \<lparr>f_status = FD_NONE, f_readable = False, f_writable = False, f_fd = int i, f_pos = 0, f_node = None, f_open_count = 0\<rparr>),
              fl_count = 0\<rparr>),
     vdev_list = \<lparr>lnext = (\<lambda>_. VdevList), lprev = (\<lambda>_. VdevList)\<rparr>, os_vdevs = (\<lambda>_. \<lparr>vd_name = 0, vd_node = None, vd_fs = None, vd_mountable = False\<rparr>), vdev_list_sem = 0,
     bootfs_node = None, bootfs_sem = 0, os_data = ()\<rparr>"

definition example_vops :: "unit vops" where
  "example_vops = \<lparr>op_open = (\<lambda>_ _ s. Some (0, s)), op_close = (\<lambda>_ s. Some (0, s)), op_read = (\<lambda>_ b s. Some (0, b, s)),
     op_write = (\<lambda>_ b s. Some (0, b, s)), op_fstat = (\<lambda>_ s. None), op_fsync = (\<lambda>_ s. Some (0, s)), op_namefile = (\<lambda>_ b s. Some (0, b, s)),
     op_getdirentry = (\<lambda>_ b s. Some (0, b, s)), op_reclaim = (\<lambda>_ s. Some (0, s)), op_gettype = (\<lambda>_ s. None), op_tryseek = (\<lambda>_ _ s. Some (0, s)),
     op_truncate = (\<lambda>_ _ s. Some (0, s)), op_create = (\<lambda>_ _ _ s. None), op_lookup = (\<lambda>_ _ s. None), fs_sync = (\<lambda>_ s. Some (0, s)),
     fs_get_root = (\<lambda>_ s. None), fs_unmount = (\<lambda>_ s. Some (0, s)), fs_cleanup = (\<lambda>_ s. Some s), op_sched = stride_sched_class\<rparr>"

lemma example_vops_ok: "drivers_ok example_vops"
  by (simp add: drivers_ok_def example_vops_def)

lemma example_os_ok: "files_ok example_os {1} {1} (\<lambda>_. 0)"
proof -
  have "opened example_os {1} n = (if n = 7 then {(1, 0)} else {})" for n
    by (auto simp: opened_def example_os_def get_file_def FILES_STRUCT_NENTRY_def FILES_STRUCT_BUFSIZE_def split: if_splits)
  moreover have "pwds example_os {1} n = (if n = 7 then {1} else {})" for n
    by (auto simp: pwds_def example_os_def)
  moreover have "entry_ok example_os (1, i)" for i
    by (simp add: entry_ok_def fopen_count_def get_file_def example_os_def)
  ultimately show ?thesis
    by (simp add: files_ok_def inode_ref_count_def inode_open_count_def example_os_def MAX_INODE_COUNT_def)
qed

lemma example_os_fresh: "fresh_table example_os 2"
  by (simp add: fresh_table_def files_count_def entry_ok_def fopen_count_def get_file_def example_os_def)

lemma example_os_room: "\<forall>n. inode_ref_count n example_os + int FILES_STRUCT_NENTRY + 1 < MAX_INODE_COUNT"
  by (simp add: inode_ref_count_def example_os_def FILES_STRUCT_NENTRY_def FILES_STRUCT_BUFSIZE_def MAX_INODE_COUNT_def)

theorem dup_files_shares_witness:
  "\<exists>t. dup_files 2 1 example_os = Some (0, t) \<and> f_pos (get_file (2, 0) t) = 12 \<and> f_status (get_file (2, 1) t) = FD_NONE"
proof -
  obtain t where t: "dup_files 2 1 example_os = Some (0, t)" "\<forall>i<FILES_STRUCT_NENTRY. get_file (2, i) t = shared_entry example_os 2 1 i"
    using dup_files_shares [OF example_os_ok _ _ _ _ example_os_fresh _ example_os_room, of 1]
    by (auto simp: files_count_def example_os_def)
  have "0 < FILES_STRUCT_NENTRY" "1 < FILES_STRUCT_NENTRY" by (simp_all add: FILES_STRUCT_NENTRY_def FILES_STRUCT_BUFSIZE_def)
  then have "get_file (2, 0) t = shared_entry example_os 2 1 0" "get_file (2, 1) t = shared_entry example_os 2 1 1"
    using t(2) by blast+
  then show ?thesis using t(1) by (simp add: shared_entry_def get_file_def example_os_def)
qed

theorem dup_destroy_restores_witness:
  "\<exists>t u. dup_files 2 1 example_os = Some (0, t) \<and> files_destroy example_vops 2 t = Some u \<and> inode_ref_count 7 u = 2"
  using dup_destroy_restores [OF example_os_ok _ _ _ _ example_os_fresh _ example_os_room example_vops_ok, of 1]
  by (auto simp: files_count_def example_os_def inode_ref_count_def)

end
