(* ===== verification/Proc_Exit.thy ===== *)
theory Proc_Exit
  imports Proc_Life Fork_Files
begin

text \<open>
  What an exiting process leaves behind: its children go to \<open>initproc\<close>, youngest last, its parent is woken if it
  waits for a child, and the processor goes to another process.  Proved against the contract of a scheduling class and
  instantiated for the round robin class that \<open>sched_init\<close> installs.
\<close>

section \<open>The family while children are handed over\<close>

definition same_family :: "kern \<Rightarrow> kern \<Rightarrow> bool" where
  "same_family s t \<longleftrightarrow> list_links t = list_links s \<and> nr_process t = nr_process s \<and> initproc t = initproc s
     \<and> (\<forall>x. p_parent (procs t x) = p_parent (procs s x) \<and> p_cptr (procs t x) = p_cptr (procs s x)
          \<and> p_yptr (procs t x) = p_yptr (procs s x) \<and> p_optr (procs t x) = p_optr (procs s x)
          \<and> p_pid (procs t x) = p_pid (procs s x) \<and> p_exit_code (procs t x) = p_exit_code (procs s x))"

text \<open>The children of \<open>c\<close> not handed over yet are \<open>cs\<close>; the sibling before them may be gone.\<close>

definition adopting :: "kern \<Rightarrow> nat \<Rightarrow> nat list \<Rightarrow> (nat \<Rightarrow> nat list) \<Rightarrow> nat \<Rightarrow> nat list \<Rightarrow> bool" where
  "adopting s i ps ch c cs \<longleftrightarrow> proc_list s ps \<and> nr_process s = int (length ps) + 1 \<and> i \<notin> set ps
     \<and> (\<forall>p\<in>set ps. \<exists>q\<in>insert i (set ps). p_parent (procs s p) = Some q)
     \<and> (\<forall>q\<in>insert i (set ps). q \<noteq> c \<longrightarrow> children s q (ch q) \<and> set (ch q) = {p \<in> set ps. p_parent (procs s p) = Some q})
     \<and> c \<in> set ps \<and> p_cptr (procs s c) = opt_hd cs None \<and> (\<exists>a. sib_seg s a cs None) \<and> distinct cs
     \<and> set cs = {p \<in> set ps. p_parent (procs s p) = Some c}"

lemma same_family_sib: "same_family s t \<Longrightarrow> sib_seg t a xs b = sib_seg s a xs b"
  by (rule sib_seg_cong) (simp add: same_family_def)

lemma same_family_children: "same_family s t \<Longrightarrow> children t q xs = children s q xs"
  by (simp add: children_def same_family_sib) (simp add: same_family_def)

lemma family_fields:
  assumes "list_links t = list_links s" "nr_process t = nr_process s"
    and "\<And>x. p_parent (procs t x) = p_parent (procs s x)" "\<And>x. p_cptr (procs t x) = p_cptr (procs s x)"
      "\<And>x. p_yptr (procs t x) = p_yptr (procs s x)" "\<And>x. p_optr (procs t x) = p_optr (procs s x)"
  shows "family t i ps ch = family s i ps ch"
proof -
  have "sib_seg t a xs b = sib_seg s a xs b" for a xs b by (rule sib_seg_cong) (simp add: assms)
  then show ?thesis by (simp add: family_def children_def proc_list_def assms)
qed

lemma family_cong: "same_family s t \<Longrightarrow> family t i ps ch = family s i ps ch"
  by (rule family_fields) (simp_all add: same_family_def)

lemma adopting_cong: "same_family s t \<Longrightarrow> adopting t i ps ch c cs = adopting s i ps ch c cs"
  by (simp add: adopting_def same_family_children same_family_sib) (simp add: same_family_def proc_list_def)

lemma adopting_start: "family s i ps ch \<Longrightarrow> c \<in> set ps \<Longrightarrow> adopting s i ps ch c (ch c)"
  by (auto simp: family_def adopting_def children_def)

lemma adopting_end: "adopting s i ps ch c [] \<Longrightarrow> family s i ps (ch(c := []))"
  by (auto simp: family_def adopting_def children_def)

lemma adopt_child_eq:
  assumes "c \<noteq> i" "p \<noteq> c" "p \<noteq> i" "p_cptr (procs s i) \<noteq> Some p"
  shows "adopt_child c i p s = s\<lparr>procs := (\<lambda>x. (procs s x)\<lparr>
     p_cptr := if x = i then Some p else if x = c then p_optr (procs s p) else p_cptr (procs s x),
     p_yptr := if p_cptr (procs s i) = Some x then Some p else if x = p then None else p_yptr (procs s x),
     p_optr := if x = p then p_cptr (procs s i) else p_optr (procs s x),
     p_parent := if x = p then Some i else p_parent (procs s x)\<rparr>)\<rparr>"
  using assms by (cases "p_cptr (procs s i)") (auto simp: adopt_child_def Let_def upd_proc_def fun_eq_iff)

lemma adopt_child_sel:
  assumes "c \<noteq> i" "p \<noteq> c" "p \<noteq> i" "p_cptr (procs s i) \<noteq> Some p"
  defines "t \<equiv> adopt_child c i p s"
  shows "p_cptr (procs t x) = (if x = i then Some p else if x = c then p_optr (procs s p) else p_cptr (procs s x))"
    "p_yptr (procs t x) = (if p_cptr (procs s i) = Some x then Some p else if x = p then None else p_yptr (procs s x))"
    "p_optr (procs t x) = (if x = p then p_cptr (procs s i) else p_optr (procs s x))"
    "p_parent (procs t x) = (if x = p then Some i else p_parent (procs s x))"
    "p_state (procs t x) = p_state (procs s x)" "p_wait_state (procs t x) = p_wait_state (procs s x)"
    "p_pid (procs t x) = p_pid (procs s x)" "p_exit_code (procs t x) = p_exit_code (procs s x)"
    "rq_view t = rq_view s" "current t = current s" "idleproc t = idleproc s" "initproc t = initproc s"
    "list_links t = list_links s" "nr_process t = nr_process s"
  unfolding t_def adopt_child_eq [OF assms(1-4)] by (simp_all add: rq_view_def)

lemma adopt_step:
  assumes a: "adopting s i ps ch c (p # cs)" and n: "n \<in> set ps" "n \<noteq> c" "n \<notin> set (p # cs)" and c: "c \<notin> set (p # cs)"
  shows "adopting (adopt_child c n p s) i ps (ch(n := p # ch n)) c cs"
proof -
  let ?t = "adopt_child c n p s"
  have cn: "children s n (ch n)" "set (ch n) = {x \<in> set ps. p_parent (procs s x) = Some n}"
    using a n(1,2) by (auto simp: adopting_def)
  have pc: "p \<in> set ps" "p_parent (procs s p) = Some c" "p_optr (procs s p) = opt_hd cs None" "distinct (p # cs)"
    "set (p # cs) = {x \<in> set ps. p_parent (procs s x) = Some c}" and seg: "sib_seg s (Some p) cs None"
    using a by (auto simp: adopting_def)
  have np: "p \<noteq> c" "p \<noteq> n" "p \<notin> set (ch n)" using c n pc(2) cn(2) by auto
  have hd: "p_cptr (procs s n) = opt_hd (ch n) None" using cn(1) by (simp add: children_def)
  have head: "x \<in> set (ch n)" if "p_cptr (procs s n) = Some x" for x
    using that hd by (auto simp: opt_hd_def split: list.splits)
  have "p_cptr (procs s n) \<noteq> Some p" using head np(3) by blast
  note sel = adopt_child_sel [OF n(2) [symmetric] np(1,2) this]
  have same: "sib_seg ?t b xs d = sib_seg s b xs d" if "p \<notin> set xs" "set xs \<inter> set (ch n) = {}" for b xs d
    by (rule sib_seg_cong) (use that head in \<open>auto simp: sel\<close>)
  have new: "children ?t n (p # ch n)"
  proof -
    have "sib_seg ?t (Some p) (ch n) None"
    proof (cases "ch n")
      case (Cons y ys)
      have s: "sib_seg s None (y # ys) None" "distinct (y # ys)" using cn(1) Cons by (simp_all add: children_def)
      have "sib_seg ?t (Some y) ys None = sib_seg s (Some y) ys None"
        by (rule sib_seg_cong) (use s np(3) hd Cons in \<open>auto simp: sel\<close>)
      then show ?thesis using s Cons hd np(3) by (auto simp: sel)
    qed simp
    then show ?thesis using cn(1) np hd head by (auto simp: children_def sel)
  qed
  have rest: "children ?t r (ch r)" if r: "r \<in> insert i (set ps)" "r \<noteq> n" "r \<noteq> c" for r
  proof -
    have cr: "children s r (ch r)" "set (ch r) = {x \<in> set ps. p_parent (procs s x) = Some r}"
      using a r(1,3) unfolding adopting_def by blast+
    have "set (ch r) \<inter> set (ch n) = {}" "p \<notin> set (ch r)" using cr(2) cn(2) r(2,3) pc(2) by auto
    then show ?thesis using cr(1) same r(2,3) by (auto simp: children_def sel)
  qed
  have "p_parent (procs s x) = Some c" if "x \<in> set cs" for x using that pc(5) by auto
  then have "set cs \<inter> set (ch n) = {}" using cn(2) n(2) by auto
  then have "sib_seg ?t (Some p) cs None" using same [of cs] seg pc(4) by simp
  moreover have "proc_list ?t ps" using a by (simp add: adopting_def proc_list_def sel)
  moreover have "\<forall>x\<in>set ps. \<exists>q\<in>insert i (set ps). p_parent (procs ?t x) = Some q"
    using a n(1) by (simp add: adopting_def sel)
  moreover have "\<forall>q\<in>insert i (set ps). q \<noteq> c \<longrightarrow> children ?t q ((ch(n := p # ch n)) q)
      \<and> set ((ch(n := p # ch n)) q) = {x \<in> set ps. p_parent (procs ?t x) = Some q}"
  proof (intro ballI impI)
    fix q assume q: "q \<in> insert i (set ps)" "q \<noteq> c"
    have cq: "set (ch q) = {x \<in> set ps. p_parent (procs s x) = Some q}" using a q unfolding adopting_def by blast
    show "children ?t q ((ch(n := p # ch n)) q)
      \<and> set ((ch(n := p # ch n)) q) = {x \<in> set ps. p_parent (procs ?t x) = Some q}"
    proof (cases "q = n")
      case True
      then show ?thesis using new cn(2) pc(1) by (auto simp: sel)
    next
      case False
      then show ?thesis using rest [OF q(1) False q(2)] cq pc(2) q(2) by (auto simp: sel)
    qed
  qed
  moreover have "set cs = {x \<in> set ps. p_parent (procs ?t x) = Some c}"
    using pc(4,5) n(2) by (auto simp: sel)
  ultimately show ?thesis
    using a n(2) pc(3,4) unfolding adopting_def by (auto simp: sel)
qed

section \<open>Waking and handing over\<close>

definition waiting_ok :: "kern \<Rightarrow> nat \<Rightarrow> bool" where
  "waiting_ok s i \<longleftrightarrow> (\<forall>x. p_wait_state (procs s x) = WT_CHILD \<longrightarrow> p_state (procs s x) = PROC_SLEEPING \<and> x \<noteq> i)"

text \<open>\<open>woken s t W\<close>: the processes \<open>W\<close> became runnable.\<close>

definition woken :: "kern \<Rightarrow> kern \<Rightarrow> nat set \<Rightarrow> bool" where
  "woken s t W \<longleftrightarrow> (\<forall>x. p_state (procs t x) = (if x \<in> W then PROC_RUNNABLE else p_state (procs s x))
     \<and> p_wait_state (procs t x) = (if x \<in> W then 0 else p_wait_state (procs s x)))"

lemma woken_trans: "woken s t A \<Longrightarrow> woken t u B \<Longrightarrow> woken s u (A \<union> B)"
  by (auto simp: woken_def)

lemma WT_CHILD_nonzero [simp]: "WT_CHILD \<noteq> 0" "0 \<noteq> WT_CHILD"
  by (simp_all add: WT_CHILD_def WT_INTERRUPTED_def)

lemma woken_waiting: "woken s t W \<Longrightarrow> waiting_ok s i \<Longrightarrow> waiting_ok t i"
  by (auto simp: woken_def waiting_ok_def)

definition waits_for :: "kern \<Rightarrow> nat \<Rightarrow> nat set" where
  "waits_for s q = (if p_wait_state (procs s q) = WT_CHILD then {q} else {})"

context sched_policy begin

lemma wake_parent:
  assumes inv: "sched_inv s Q c i" and w: "waiting_ok s i" and q: "q \<noteq> c" "\<And>x. live x"
  shows "\<exists>t. (if b \<and> p_wait_state (procs s q) = WT_CHILD then wakeup_proc sc q s else Some s) = Some t
     \<and> sched_inv t (Q \<union> (if b then waits_for s q else {})) c i \<and> woken s t (if b then waits_for s q else {}) \<and> same_family s t"
proof (cases "b \<and> p_wait_state (procs s q) = WT_CHILD")
  case False
  then show ?thesis using inv by (auto simp: waits_for_def woken_def same_family_def)
next
  case True
  then have st: "p_state (procs s q) = PROC_SLEEPING" "q \<noteq> i" using w by (simp_all add: waiting_ok_def)
  obtain t where t: "wakeup_proc sc q s = Some t" "sched_inv t (insert q Q) c i"
      "\<forall>r. p_state (procs t r) = (if r = q then PROC_RUNNABLE else p_state (procs s r))"
    using wakeup_steps [OF inv _ st(2) q(2)] st(1) q(1) by auto
  have f: "rq_frame (upd_proc q (\<lambda>a. a\<lparr>p_state := PROC_RUNNABLE, p_wait_state := 0\<rparr>) s) t"
    using wakeup_frame [OF inv t(1) st(2) q(2)] st(1) by simp
  have "woken s t {q}" using t(3) rq_frame_procs(3) [OF f] by (simp add: woken_def)
  moreover have "same_family s t"
    using rq_frame_kern(3,9,11) [OF f] rq_frame_procs(2,4,9-11,13) [OF f] by (simp add: same_family_def)
  ultimately show ?thesis using True t by (auto simp: waits_for_def)
qed

lemma adopt_loop_ok:
  assumes "adopting s i ps ch c cs" and "sched_inv s Q c i" and "waiting_ok s i" and "initproc s = Some n"
    and n: "n \<in> set ps" "n \<noteq> c" "n \<notin> set cs" and c: "c \<notin> set cs" and lv: "\<And>x. live x"
  defines "W \<equiv> if \<exists>p\<in>set cs. p_state (procs s p) = PROC_ZOMBIE then waits_for s n else {}"
  shows "\<exists>t. adopt_loop sc c s = Some t \<and> adopting t i ps (ch(n := rev cs @ ch n)) c [] \<and> sched_inv t (Q \<union> W) c i
     \<and> woken s t W \<and> waiting_ok t i \<and> initproc t = Some n
     \<and> (\<forall>x. p_parent (procs t x) = (if x \<in> set cs then Some n else p_parent (procs s x))
          \<and> p_pid (procs t x) = p_pid (procs s x) \<and> p_exit_code (procs t x) = p_exit_code (procs s x))"
  using assms(1-4) n(3) c unfolding W_def
proof (induction cs arbitrary: s Q ch)
  case Nil
  then have "p_cptr (procs s c) = None" by (simp add: adopting_def)
  then have "adopt_loop sc c s = Some s" by (subst adopt_loop.simps) simp
  then show ?case using Nil by (simp add: woken_def)
next
  case (Cons p cs)
  let ?s1 = "adopt_child c n p s" and ?b = "p_state (procs s p) = PROC_ZOMBIE"
  have pc: "p_cptr (procs s c) = Some p" using Cons.prems(1) by (simp add: adopting_def)
  have np: "p \<noteq> c" "p \<noteq> n" using Cons.prems(5,6) by auto
  have ch: "children s n (ch n)" "set (ch n) = {x \<in> set ps. p_parent (procs s x) = Some n}" "p_parent (procs s p) = Some c"
    using Cons.prems(1) n(1,2) by (auto simp: adopting_def)
  then have "p \<notin> set (ch n)" using n(2) by simp
  moreover have "p_cptr (procs s n) = opt_hd (ch n) None" using ch(1) by (simp add: children_def)
  ultimately have "p_cptr (procs s n) \<noteq> Some p" by (cases "ch n") auto
  note sel = adopt_child_sel [OF n(2) [symmetric] np this]
  have a1: "adopting ?s1 i ps (ch(n := p # ch n)) c cs"
    by (rule adopt_step [OF Cons.prems(1) n(1,2) Cons.prems(5,6)])
  have i1: "sched_inv ?s1 Q c i" by (rule sched_inv_cong [OF Cons.prems(2)]) (simp_all add: sel)
  have w1: "waiting_ok ?s1 i" using Cons.prems(3) by (simp add: waiting_ok_def sel)
  have wf: "waits_for ?s1 n = waits_for s n" by (simp add: waits_for_def sel)
  obtain s2 where s2: "(if ?b \<and> p_wait_state (procs ?s1 n) = WT_CHILD then wakeup_proc sc n ?s1 else Some ?s1) = Some s2"
    "sched_inv s2 (Q \<union> (if ?b then waits_for s n else {})) c i" "woken ?s1 s2 (if ?b then waits_for s n else {})" "same_family ?s1 s2"
    using wake_parent [OF i1 w1 n(2) lv, of ?b] unfolding wf by blast
  have wk: "woken s s2 (if ?b then waits_for s n else {})" using s2(3) by (simp add: woken_def sel)
  have z: "p_state (procs s2 x) = PROC_ZOMBIE \<longleftrightarrow> p_state (procs s x) = PROC_ZOMBIE" if "x \<in> set cs" for x
    using wk that Cons.prems(5) by (auto simp: woken_def waits_for_def)
  have ip: "initproc s2 = Some n" using s2(4) Cons.prems(4) by (simp add: same_family_def sel)
  have nx: "n \<notin> set cs" "c \<notin> set cs" using Cons.prems(5,6) by simp_all
  let ?W = "if \<exists>p\<in>set cs. p_state (procs s2 p) = PROC_ZOMBIE then waits_for s2 n else {}"
  have a2: "adopting s2 i ps (ch(n := p # ch n)) c cs" using a1 adopting_cong [OF s2(4)] by simp
  obtain t where t: "adopt_loop sc c s2 = Some t" "adopting t i ps ((ch(n := p # ch n))(n := rev cs @ (ch(n := p # ch n)) n)) c []"
     "sched_inv t (Q \<union> (if ?b then waits_for s n else {}) \<union> ?W) c i" "woken s2 t ?W" "waiting_ok t i" "initproc t = Some n"
     "\<forall>x. p_parent (procs t x) = (if x \<in> set cs then Some n else p_parent (procs s2 x))
          \<and> p_pid (procs t x) = p_pid (procs s2 x) \<and> p_exit_code (procs t x) = p_exit_code (procs s2 x)"
    using Cons.IH [OF a2 s2(2) woken_waiting [OF s2(3) w1] ip nx] by blast
  have W: "(if ?b then waits_for s n else {}) \<union> ?W
      = (if \<exists>x\<in>set (p # cs). p_state (procs s x) = PROC_ZOMBIE then waits_for s n else {})"
    using z wk by (auto simp: waits_for_def woken_def)
  have "adopt_loop sc c s = Some t"
    by (subst adopt_loop.simps) (use pc Cons.prems(4) s2(1) t(1) in \<open>simp add: sel Let_def\<close>)
  moreover have "woken s t (if \<exists>x\<in>set (p # cs). p_state (procs s x) = PROC_ZOMBIE then waits_for s n else {})"
    using woken_trans [OF wk t(4)] unfolding W .
  moreover have "sched_inv t (Q \<union> (if \<exists>x\<in>set (p # cs). p_state (procs s x) = PROC_ZOMBIE then waits_for s n else {})) c i"
    using t(3) unfolding W [symmetric] by (simp only: Un_assoc)
  moreover have "\<forall>x. p_parent (procs t x) = (if x \<in> set (p # cs) then Some n else p_parent (procs s x))
          \<and> p_pid (procs t x) = p_pid (procs s x) \<and> p_exit_code (procs t x) = p_exit_code (procs s x)"
    using t(7) s2(4) by (simp add: same_family_def sel)
  moreover have "adopting t i ps (ch(n := rev (p # cs) @ ch n)) c []" using t(2) by simp
  ultimately show ?case using t(5,6) by blast
qed

end

section \<open>do\_exit\<close>

text \<open>Who is woken: the parent \<open>q\<close>, and \<open>initproc\<close> when it is given a zombie, if they wait for a child.\<close>

definition exit_wakes :: "kern \<Rightarrow> nat \<Rightarrow> nat \<Rightarrow> nat list \<Rightarrow> nat set" where
  "exit_wakes s q n cs = waits_for s q \<union> (if \<exists>p\<in>set cs. p_state (procs s p) = PROC_ZOMBIE then waits_for s n else {})"

context sched_policy begin

lemma exit_links_ok:
  assumes fam: "family s i ps ch" and inv: "sched_inv s Q c i" and w: "waiting_ok s i" and run: "p_state (procs s c) = PROC_RUNNABLE"
    and c: "c \<in> set ps" "p_parent (procs s c) = Some q" "q \<noteq> c" and n: "initproc s = Some n" "n \<in> set ps" "n \<noteq> c" "p_parent (procs s n) \<noteq> Some c"
    and lv: "\<And>x. live x"
  defines "W \<equiv> exit_wakes s q n (ch c)"
  shows "\<exists>t. exit_links sc c e s = Some t \<and> family t i ps (ch(n := rev (ch c) @ ch n, c := [])) \<and> sched_inv t (Q \<union> W) c i
     \<and> p_exit_code (procs t c) = e \<and> waiting_ok t i
     \<and> (\<forall>x. p_state (procs t x) = (if x = c then PROC_ZOMBIE else if x \<in> W then PROC_RUNNABLE else p_state (procs s x)))"
proof -
  let ?s1 = "upd_proc c (\<lambda>a. a\<lparr>p_state := PROC_ZOMBIE, p_exit_code := e\<rparr>) s"
  have nw: "p_wait_state (procs s c) \<noteq> WT_CHILD" using w run by (auto simp: waiting_ok_def)
  have i1: "sched_inv ?s1 Q c i" by (rule sched_inv_cong [OF inv rq_view_upd]) simp_all
  have w1: "waiting_ok ?s1 i" using w nw by (simp add: waiting_ok_def)
  have wf: "waits_for ?s1 x = waits_for s x" for x by (simp add: waits_for_def)
  have chc: "set (ch c) = {x \<in> set ps. p_parent (procs s x) = Some c}" using fam c(1) by (auto simp: family_def)
  have nc: "n \<notin> set (ch c)" "c \<notin> set (ch c)" using chc n(4) c(2,3) by auto
  have "family ?s1 i ps ch = family s i ps ch" by (rule family_fields) simp_all
  then have f1: "family ?s1 i ps ch" using fam by simp
  obtain s2 where s2: "(if True \<and> p_wait_state (procs ?s1 q) = WT_CHILD then wakeup_proc sc q ?s1 else Some ?s1) = Some s2"
    "sched_inv s2 (Q \<union> waits_for s q) c i" "woken ?s1 s2 (waits_for s q)" "same_family ?s1 s2"
    using wake_parent [OF i1 w1 c(3) lv, of True] by (auto simp: wf)
  have a2: "adopting s2 i ps ch c (ch c)" using adopting_start [OF f1 c(1)] adopting_cong [OF s2(4)] by simp
  have ip: "initproc s2 = Some n" using s2(4) n(1) by (simp add: same_family_def)
  let ?W = "if \<exists>p\<in>set (ch c). p_state (procs s2 p) = PROC_ZOMBIE then waits_for s2 n else {}"
  obtain t where t: "adopt_loop sc c s2 = Some t" "adopting t i ps (ch(n := rev (ch c) @ ch n)) c []"
     "sched_inv t (Q \<union> waits_for s q \<union> ?W) c i" "woken s2 t ?W" "waiting_ok t i"
     "\<forall>x. p_exit_code (procs t x) = p_exit_code (procs s2 x)"
    using adopt_loop_ok [OF a2 s2(2) woken_waiting [OF s2(3) w1] ip n(2,3) nc lv] by blast
  have z: "p_state (procs s2 x) = PROC_ZOMBIE \<longleftrightarrow> p_state (procs s x) = PROC_ZOMBIE" if "x \<in> set (ch c)" for x
    using s2(3) that nc w by (auto simp: woken_def waits_for_def waiting_ok_def)
  have W: "waits_for s q \<union> ?W = W"
  proof -
    have "waits_for s q \<union> waits_for s2 n = waits_for s q \<union> waits_for s n"
      using s2(3) n(3) by (auto simp: waits_for_def woken_def)
    then show ?thesis using z by (auto simp: W_def exit_wakes_def)
  qed
  have wk: "woken ?s1 t W" using woken_trans [OF s2(3) t(4)] unfolding W .
  have cW: "c \<notin> W" using c(3) n(3) by (auto simp: W_def exit_wakes_def waits_for_def split: if_splits)
  have "exit_links sc c e s = Some t" using c(2) s2(1) t(1) by (simp add: exit_links_def Let_def)
  moreover have "sched_inv t (Q \<union> W) c i" using t(3) unfolding W [symmetric] by (simp only: Un_assoc)
  moreover have "p_exit_code (procs t c) = e" using t(6) s2(4) by (simp add: same_family_def)
  moreover have "\<forall>x. p_state (procs t x) = (if x = c then PROC_ZOMBIE else if x \<in> W then PROC_RUNNABLE else p_state (procs s x))"
    using wk cW by (simp add: woken_def)
  ultimately show ?thesis using adopting_end [OF t(2)] t(5) by blast
qed

lemma exit_leaves:
  assumes "sched_inv s Q c i" and "p_state (procs s c) = PROC_ZOMBIE" and "c \<noteq> i"
  shows "\<exists>t d. schedule sc s = Some t \<and> d \<noteq> c \<and> (if Q = {} then d = i else d \<in> Q) \<and> sched_inv t (Q - {d}) d i \<and> sched_frame s t
     \<and> (\<forall>p. p_state (procs t p) = p_state (procs s p))"
proof -
  have "c \<notin> Q" using assms(1) by (simp add: sched_inv_def)
  then show ?thesis using schedule_steps [OF assms(1)] assms(2,3) by (auto split: if_splits)
qed

end

lemma sched_frame_family: "sched_frame s t \<Longrightarrow> same_family s t"
  using sched_frame_proc [of s t] by (simp add: same_family_def sched_frame_def)

lemma runq_sched: "runq_ok s r c i \<Longrightarrow> rr.sched_inv s (set r) c i" "rr.sched_inv s Q c i \<Longrightarrow> \<exists>r. runq_ok s r c i \<and> set r = Q"
  using list_inv_runq(1) by (auto simp: rr.list_inv_def rr.sched_inv_def runq_ok_def)

text \<open>C23: once it has given up its memory and files, a process that calls \<open>do_exit\<close> always ends:
  it is a zombie with its exit code, its children have become children of \<open>initproc\<close>, the last one youngest, all other
  families are as before; the parent is woken if it waits for a child and so is \<open>initproc\<close> if it is given a zombie, nobody
  else changes state, and another process has the processor.\<close>

theorem do_exit_hands_over:
  assumes "op_sched V = default_sched_class" and k: "current (os_kern s) = Some c" "idleproc (os_kern s) = Some i" "initproc (os_kern s) = Some n"
    and rel: "exit_release V K c s = Some s1" and rq: "runq_ok (os_kern s1) r c i" and fam: "family (os_kern s1) i ps ch"
    and w: "waiting_ok (os_kern s1) i" and run: "p_state (os_proc s1 c) = PROC_RUNNABLE"
    and c: "c \<in> set ps" "p_parent (os_proc s1 c) = Some q" "q \<noteq> c"
    and n: "initproc (os_kern s1) = Some n" "n \<in> set ps" "n \<noteq> c" "p_parent (os_proc s1 n) \<noteq> Some c"
  shows "\<exists>t d r'. do_exit V K e s = Some t \<and> runq_ok (os_kern t) r' d i \<and> d \<noteq> c
     \<and> family (os_kern t) i ps (ch(n := rev (ch c) @ ch n, c := [])) \<and> p_exit_code (os_proc t c) = e
     \<and> (\<forall>x. p_state (os_proc t x) = (if x = c then PROC_ZOMBIE
          else if x \<in> exit_wakes (os_kern s1) q n (ch c) then PROC_RUNNABLE else p_state (os_proc s1 x)))"
proof -
  have ci: "c \<noteq> i" using fam c(1) by (auto simp: family_def)
  obtain u where u: "exit_links default_sched_class c e (os_kern s1) = Some u"
     "family u i ps (ch(n := rev (ch c) @ ch n, c := []))" "rr.sched_inv u (set r \<union> exit_wakes (os_kern s1) q n (ch c)) c i"
     "p_exit_code (procs u c) = e"
     "\<forall>x. p_state (procs u x) = (if x = c then PROC_ZOMBIE
        else if x \<in> exit_wakes (os_kern s1) q n (ch c) then PROC_RUNNABLE else p_state (procs (os_kern s1) x))"
    using rr.exit_links_ok [OF fam runq_sched(1) [OF rq] w _ c(1) _ c(3) n(1-3)] run c(2) n(4) by (auto simp: os_proc_def)
  obtain t d where t: "schedule default_sched_class u = Some t" "d \<noteq> c"
      "rr.sched_inv t (set r \<union> exit_wakes (os_kern s1) q n (ch c) - {d}) d i" "sched_frame u t" "\<forall>p. p_state (procs t p) = p_state (procs u p)"
    using rr.exit_leaves [OF u(3) _ ci] u(5) by auto
  obtain r' where r': "runq_ok t r' d i" using runq_sched(2) [OF t(3)] by blast
  have kern: "os_kern (set_kern x y) = x" for x and y :: "'a os" by (simp add: os_kern_def set_kern_def)
  have sk: "set_kern x (set_kern z y) = set_kern x y" for x z and y :: "'a os" by (simp add: set_kern_def)
  have "do_exit V K e s = Some (set_kern t s1)"
    using assms(1) k rel ci n(3) u(1) t(1,2) r'
    by (simp add: do_exit_def os_schedule_def kern sk runq_ok_def)
  moreover have "family t i ps (ch(n := rev (ch c) @ ch n, c := []))" using u(2) family_cong [OF sched_frame_family [OF t(4)]] by simp
  moreover have "p_exit_code (procs t c) = e" using u(4) sched_frame_proc(5) [OF t(4)] by simp
  ultimately show ?thesis using r' t(2,5) u(5) by (intro exI [of _ "set_kern t s1"] exI [of _ d] exI [of _ r']) (simp add: os_proc_def kern)
qed

text \<open>Process 3, a child of \<open>initproc\<close> (2), exits; its child 4 is a zombie.\<close>

definition example_kern :: kern where
  "example_kern = RR_init (boot_kern\<lparr>current := Some 3, idleproc := Some 1, initproc := Some 2, nr_process := 4,
     list_links := list_add ProcList (ListLink 4) (list_add ProcList (ListLink 3) (list_add ProcList (ListLink 2) (list_links boot_kern))),
     procs := (\<lambda>x. if x = 1 then zero_proc\<lparr>p_cptr := Some 2\<rparr>
       else if x = 2 then zero_proc\<lparr>p_parent := Some 1, p_cptr := Some 3, p_state := PROC_SLEEPING, p_wait_state := WT_CHILD\<rparr>
       else if x = 3 then zero_proc\<lparr>p_parent := Some 2, p_cptr := Some 4, p_state := PROC_RUNNABLE\<rparr>
       else if x = 4 then zero_proc\<lparr>p_parent := Some 3, p_state := PROC_ZOMBIE\<rparr> else zero_proc)\<rparr>)"

lemma RR_init_rest:
  "procs (RR_init s) = procs s" "list_links (RR_init s) = list_links s" "nr_process (RR_init s) = nr_process s"
  "current (RR_init s) = current s" "idleproc (RR_init s) = idleproc s" "initproc (RR_init s) = initproc s"
  by (simp_all add: RR_init_def upd_run_links_def)

definition example_ksyms :: ksyms where
  "example_ksyms = \<lparr>ks_forkret = 1, ks_thread_entry = 2, ks_init_main = 3, ks_bootstack = 4, ks_idle_name = [], ks_init_name = [],
     ks_boot_pgdir = 0\<rparr>"

lemma example_kern_family: "family example_kern 1 [4, 3, 2] ((\<lambda>_. [])(1 := [2], 2 := [3], 3 := [4]))"
proof -
  have "proc_list (boot_kern\<lparr>list_links := list_add ProcList (ListLink 2) (list_links boot_kern)\<rparr>) [2]"
    by (rule proc_list_add [OF boot_lists(1)]) simp
  from proc_list_add [OF proc_list_add [OF this, of 3], of 4] have "proc_list example_kern [4, 3, 2]"
    by (simp add: proc_list_def example_kern_def RR_init_rest)
  moreover have "p_parent (procs example_kern x) = (if x = 2 then Some 1 else if x = 3 then Some 2 else if x = 4 then Some 3 else None)"
    "p_cptr (procs example_kern x) = (if x = 1 then Some 2 else if x = 2 then Some 3 else if x = 3 then Some 4 else None)"
    "p_yptr (procs example_kern x) = None" "p_optr (procs example_kern x) = None" "nr_process example_kern = 4" for x
    by (simp_all add: example_kern_def RR_init_rest zero_proc_def)
  ultimately show ?thesis by (auto simp: family_def children_def)
qed

lemma example_kern_runq: "runq_ok example_kern [] 3 1" "waiting_ok example_kern 1"
proof -
  have "rq_list example_kern []" unfolding example_kern_def by (rule RR_init_empty)
  then show "runq_ok example_kern [] 3 1"
    by (simp add: runq_ok_def example_kern_def RR_init_rest RR_init_def upd_run_links_def zero_proc_def unlinked_def list_empty_def list_init_def boot_kern_def)
  show "waiting_ok example_kern 1" by (simp add: waiting_ok_def example_kern_def RR_init_rest zero_proc_def)
qed

theorem do_exit_hands_over_witness:
  "\<exists>t. do_exit (example_vops\<lparr>op_sched := default_sched_class\<rparr>) example_ksyms 7 (set_kern example_kern example_os) = Some t
     \<and> p_exit_code (os_proc t 3) = 7 \<and> p_state (os_proc t 2) = PROC_RUNNABLE
     \<and> family (os_kern t) 1 [4, 3, 2] ((\<lambda>_. [])(1 := [2], 2 := [4, 3]))"
proof -
  let ?s = "set_kern example_kern example_os" and ?V = "example_vops\<lparr>op_sched := default_sched_class\<rparr>"
  let ?ch = "(\<lambda>_. [])(1 := [2], 2 := [3], 3 := [4]) :: nat \<Rightarrow> nat list"
  have k: "os_kern ?s = example_kern" by (simp add: os_kern_def set_kern_def)
  have p: "current example_kern = Some 3" "idleproc example_kern = Some 1" "initproc example_kern = Some 2"
    "p_mm (procs example_kern 3) = None" "p_state (procs example_kern 3) = PROC_RUNNABLE" "p_parent (procs example_kern 3) = Some 2"
    "p_parent (procs example_kern 2) = Some 1" "p_wait_state (procs example_kern 2) = WT_CHILD"
    by (simp_all add: example_kern_def RR_init_rest zero_proc_def)
  have r: "exit_release ?V example_ksyms 3 ?s = Some ?s" by (simp add: exit_release_def os_proc_def k p)
  have V: "op_sched ?V = default_sched_class" by simp
  from do_exit_hands_over [OF V _ _ _ r, of 1 2 "[]" "[4, 3, 2]" ?ch 2 7] obtain t where
    t: "do_exit ?V example_ksyms 7 ?s = Some t" "family (os_kern t) 1 [4, 3, 2] (?ch(2 := rev (?ch 3) @ ?ch 2, 3 := []))"
    "p_exit_code (os_proc t 3) = 7"
    "p_state (os_proc t 2) = (if 2 \<in> exit_wakes example_kern 2 2 (?ch 3) then PROC_RUNNABLE else p_state (os_proc ?s 2))"
    using example_kern_family example_kern_runq p by (auto simp: k os_proc_def)
  have "2 \<in> exit_wakes example_kern 2 2 (?ch 3)" using p(8) by (simp add: exit_wakes_def waits_for_def)
  moreover have "?ch(2 := rev (?ch 3) @ ?ch 2, 3 := []) = (\<lambda>_. [])(1 := [2], 2 := [4, 3])" by (simp add: fun_eq_iff)
  ultimately show ?thesis using t by auto
qed

end
