(* ===== verification/Trap_Read.thy ===== *)
theory Trap_Read
  imports Trap Sysread Proc_Exit
begin

text \<open>A system call from user mode, from the trap to the return: reading a file.\<close>

lemma newline_code: "of_char (CHR ''\<newline>'') = (10 :: nat)" by simp

section \<open>The saved frame of a process\<close>

definition with_tf :: "nat \<Rightarrow> (nat \<times> trapframe) option \<Rightarrow> 'd os \<Rightarrow> 'd os" where
  "with_tf c x s = upd_os_proc c (\<lambda>p. p\<lparr>p_tf := x\<rparr>) s"

lemma with_tf_proc: "os_proc (with_tf c x s) d = (if d = c then (os_proc s d)\<lparr>p_tf := x\<rparr> else os_proc s d)"
  by (simp add: with_tf_def upd_os_proc_def os_proc_def set_kern_def os_kern_def upd_proc_def)

lemma with_tf_with_tf [simp]: "with_tf c x (with_tf c y s) = with_tf c x s"
  by (simp add: with_tf_def upd_os_proc_def set_kern_def os_kern_def upd_proc_def)

lemma with_tf_simps [simp]:
  "os_mem (with_tf c x s) = os_mem s" "os_data (with_tf c x s) = os_data s" "os_nodes (with_tf c x s) = os_nodes s"
  "os_files (with_tf c x s) = os_files s" "current (os_kern (with_tf c x s)) = current (os_kern s)"
  "vm_pool (os_vm (with_tf c x s)) = vm_pool (os_vm s)" "vm_vmas (os_vm (with_tf c x s)) = vm_vmas (os_vm s)"
  "lock_free m (os_kern (with_tf c x s)) = lock_free m (os_kern s)"
  by (simp_all add: with_tf_def upd_os_proc_def set_kern_def os_kern_def upd_proc_def lock_free_def wait_queue_first_def)

lemma with_tf_reads [simp]: "reads_file f n fd e (with_tf c x s) = reads_file f n fd e s"
  and with_tf_contents [simp]: "file_contents n (with_tf c x s) = file_contents n s"
  and with_tf_mem [simp]: "fs_mem f (with_tf c x s) = fs_mem f s"
  and with_tf_file [simp]: "get_file e (with_tf c x s) = get_file e s"
proof -
  have q: "same_fs s (with_tf c x s)" by (simp add: same_fs_def)
  show "file_contents n (with_tf c x s) = file_contents n s" "fs_mem f (with_tf c x s) = fs_mem f s"
    by (rule same_fs_sfs [OF q])+
  show g: "get_file e (with_tf c x s) = get_file e s" by (simp add: get_file_def)
  have "current_filesp (with_tf c x s) = current_filesp s"
    by (cases "current (os_kern s)") (auto simp: current_filesp_def with_tf_proc [unfolded os_proc_def])
  then show "reads_file f n fd e (with_tf c x s) = reads_file f n fd e s"
    unfolding reads_file_def same_fs_sfs [OF q] g
    by (simp add: inode_check_def inode_ref_count_def inode_open_count_def files_count_def)
qed

lemma with_tf_user [simp]: "user_space c m vs (with_tf c x s) = user_space c m vs s"
  by (auto simp: user_space_def with_tf_proc) (simp_all add: with_tf_def upd_os_proc_def set_kern_def)

lemma with_tf_only: "only_read f e U (with_tf c x s) t = only_read f e U s t" "only_read f e U s (with_tf c y t) = only_read f e U s t"
proof -
  have f: "sfs_file f k (with_tf c z u) = sfs_file f k u" "scratch f (with_tf c z u) = scratch f u" for k z u
    by (rule same_fs_sfs; simp add: same_fs_def)+
  have v: "same_space (os_vm (with_tf c x s)) w = same_space (os_vm s) w" "same_space w (os_vm (with_tf c y t)) = same_space w (os_vm t)" for w
    by (simp_all add: same_space_def same_map_def with_tf_def upd_os_proc_def set_kern_def)
  have c: "files_count p (with_tf c z u) = files_count p u" "get_file d (with_tf c z u) = get_file d u" for p d z u
    by (simp_all add: files_count_def get_file_def)
  show "only_read f e U (with_tf c x s) t = only_read f e U s t" "only_read f e U s (with_tf c y t) = only_read f e U s t"
    unfolding only_read_def f v c by simp_all
qed

lemma with_tf_kern: "os_kern t = os_kern (with_tf c x s) \<Longrightarrow> os_kern (with_tf c y t) = os_kern (with_tf c y s)"
  by (simp add: with_tf_def upd_os_proc_def set_kern_def os_kern_def upd_proc_def)

lemma with_tf_cur [simp]: "p_tf (os_proc (with_tf c x s) c) = x" by (simp add: with_tf_proc)

lemma upd_tf_with: "p_tf (os_proc (mc_os s) c) = Some (a, x) \<Longrightarrow> upd_tf c f s = s\<lparr>mc_os := with_tf c (Some (a, f x)) (mc_os s)\<rparr>"
  by (simp add: upd_tf_def with_tf_def upd_os_proc_def set_kern_def os_kern_def os_proc_def upd_proc_def)

lemma os_proc_kern: "os_kern t = os_kern s \<Longrightarrow> os_proc t = os_proc s" by (simp add: os_proc_def fun_eq_iff)

section \<open>read\<close>

text \<open>The frame with which the process goes on: behind the call, with the result.\<close>

definition returned :: "int \<Rightarrow> trapframe \<Rightarrow> trapframe" where
  "returned r tf = set_a0 (word_of_int r) (tf\<lparr>tf_epc := tf_epc tf + 4\<rparr>)"

lemma ecall_read:
  assumes "current (os_kern (mc_os S)) = Some c" and "p_tf (os_proc (mc_os S) c) = Some (a, tf)"
    and "arg_int (gpr_a0 (tf_gpr tf)) = int SYS_read"
    and "sysfile_read (ev_vops E) (arg_int (gpr_a1 (tf_gpr tf))) (gpr_a2 (tf_gpr tf)) (unat (gpr_a3 (tf_gpr tf)))
      (with_tf c (Some (a, tf\<lparr>tf_epc := tf_epc tf + 4\<rparr>)) (mc_os S)) = Some (r, t)"
    and "os_kern t = os_kern (with_tf c (Some (a, tf\<lparr>tf_epc := tf_epc tf + 4\<rparr>)) (mc_os S))"
  shows "ecall E S = Some (True, S\<lparr>mc_os := with_tf c (Some (a, returned r tf)) t\<rparr>)"
proof -
  have sc: "syscalls SYS_read = Some sys_read" by (simp add: syscalls_def SYS_exit_def SYS_fork_def SYS_wait_def SYS_exec_def SYS_yield_def
      SYS_kill_def SYS_getpid_def SYS_putc_def SYS_pgdir_def SYS_gettime_def SYS_lab6_set_priority_def SYS_sleep_def SYS_open_def
      SYS_close_def SYS_read_def)
  have lt: "SYS_read < NUM_SYSCALLS" by (simp add: SYS_read_def NUM_SYSCALLS_def)
  have pt: "p_tf (os_proc t c) = Some (a, tf\<lparr>tf_epc := tf_epc tf + 4\<rparr>)" using os_proc_kern [OF assms(5)] by simp
  show ?thesis
    using assms(1,3,4) sc lt pt
    by (simp add: ecall_def upd_tf_with [OF assms(2)] syscall_def Let_def sys_read_def on_os_def returns_def upd_tf_with returned_def)
qed

text \<open>C28: A \<open>read\<close> trap from user mode goes all the way: the process continues behind the call with the number of bytes in \<open>a0\<close>
  and every other register as it was; its buffer, writable and mapped by its page table, holds exactly the slice of the file's
  contents from the position of the descriptor on, as much as was asked for and as there is; the position has moved behind it.
  Nothing else changes: no file, no inode, no other descriptor, no byte of memory outside the slice, the kernel's buffer and
  those of the file system, no area, page table or frame, and of the processes only the saved frame of this one.\<close>

theorem trap_read_takes_slice:
  fixes S E tf
  defines "s \<equiv> mc_os S" and "r \<equiv> tf_gpr tf"
  defines "base \<equiv> unat (gpr_a2 r)" and "len \<equiv> unat (gpr_a3 r)" and "fd \<equiv> arg_int (gpr_a1 r)"
  assumes "reads_file f n fd e s" and "user_space c m vs s" and "f_pos (get_file e s) = int off" and "off < SFS_MAX_FILE_SIZE"
    and "len < 2147483648" and "vm_pool (os_vm s) = buf # bufs" and "{buf..<buf + 4096} \<inter> fs_mem f s = {}" and "buf + 4096 < 2 ^ 64"
    and "{base..<base + len} \<inter> (fs_mem f s \<union> {buf..<buf + 4096}) = {}" and "user_range m vs (os_vm s) True base len"
    and "ev_vops E = ucore_vops sc dd"
    and "tf_cause tf = CAUSE_USER_ECALL" and "\<not> trap_in_kernel tf" and "arg_int (gpr_a0 r) = int SYS_read"
    and "p_flags (os_proc s c) AND PF_EXITING = 0" and "\<not> p_need_resched (os_proc s c)"
  shows "\<exists>t. let bs = take len (drop off (file_contents n s)) in
      trap E a tf S = Some (True, returned (int (length bs)) tf, S\<lparr>mc_os := t\<rparr>)
    \<and> read_bytes (os_mem t) base (length bs) = bs \<and> f_pos (get_file e t) = int (off + length bs)
    \<and> only_read f e ({buf..<buf + 4096} \<union> {base..<base + length bs}) s t \<and> (\<exists>x. os_kern t = os_kern (with_tf c x s))
    \<and> reads_file f n fd e t \<and> user_space c m vs t"
proof -
  let ?bs = "take len (drop off (file_contents n s))"
  let ?tf = "tf\<lparr>tf_epc := tf_epc tf + 4\<rparr>"
  let ?s = "with_tf c (Some (a, ?tf)) s"
  have cur: "current (os_kern s) = Some c" using assms(7) by (simp add: user_space_def)
  have "same_map (os_vm s) (os_vm ?s)" by (simp add: same_map_def with_tf_def upd_os_proc_def set_kern_def)
  then have ur: "user_range m vs (os_vm ?s) True base len" using user_range_rest [OF assms(15), of 0 len] by simp
  obtain t where t: "sysfile_read (ev_vops E) fd (gpr_a2 r) len ?s = Some (int (length ?bs), t)"
    "read_bytes (os_mem t) base (length ?bs) = ?bs" "f_pos (get_file e t) = int (off + length ?bs)"
    "only_read f e ({buf..<buf + 4096} \<union> {base..<base + length ?bs}) ?s t" "reads_file f n fd e t" "user_space c m vs t" "os_kern t = os_kern ?s"
    using sysfile_read_ok [of f n fd e ?s c m vs off len buf bufs "gpr_a2 r" sc dd] assms(6-14,16) ur
    unfolding Let_def base_def by auto
  define g where "g = returned (int (length ?bs)) tf"
  let ?S = "S\<lparr>mc_os := with_tf c (Some (a, tf)) s\<rparr>"
  let ?x = "case p_tf (os_proc s c) of Some (b, x) \<Rightarrow> Some (b, if b = a then g else x) | None \<Rightarrow> None"
  have e: "ecall E ?S = Some (True, S\<lparr>mc_os := with_tf c (Some (a, g)) t\<rparr>)"
    using ecall_read [of ?S c a tf E "int (length ?bs)" t] assms(19) t(1,7) cur
    unfolding r_def fd_def len_def g_def by simp
  have d: "trap_dispatch E a tf ?S = ecall E ?S"
    using assms(17) by (simp add: trap_dispatch_def exception_handler_def CAUSE_USER_ECALL_def CAUSE_MISALIGNED_STORE_def)
  have k: "current (os_kern t) = Some c" "p_flags (os_proc t c) = p_flags (os_proc s c)" "p_need_resched (os_proc t c) = p_need_resched (os_proc s c)"
    using t(7) cur os_proc_kern [OF t(7)] by (simp_all add: with_tf_proc)
  have "trap E a tf S = Some (True, g, S\<lparr>mc_os := with_tf c ?x t\<rparr>)"
    using cur d e k assms(18,20,21)
    by (simp add: trap_def with_tf_def [symmetric] trap_leave_def Let_def with_tf_proc flip: s_def)
  then obtain x where "trap E a tf S = Some (True, g, S\<lparr>mc_os := with_tf c x t\<rparr>)" by blast
  moreover have "only_read f e ({buf..<buf + 4096} \<union> {base..<base + length ?bs}) s (with_tf c x t)"
    using t(4) unfolding with_tf_only .
  ultimately show ?thesis using t(2,3,5,6) with_tf_kern [OF t(7), of x] unfolding Let_def g_def
    by (intro exI [of _ "with_tf c x t"]) auto
qed

definition example_frame :: trapframe where
  "example_frame = \<lparr>tf_gpr = zero_regs\<lparr>gpr_a0 := 102, gpr_a1 := 3, gpr_a2 := USERBASE, gpr_a3 := 10\<rparr>,
     tf_status = 0, tf_epc = 0x800020, tf_tval = 0, tf_cause = 8\<rparr>"

definition example_machine :: "vmm \<Rightarrow> machine" where
  "example_machine v = \<lparr>mc_os = example_reader v, ticks = 0,
     cons = \<lparr>cons_buf = replicate CONSBUFSIZE 0, cons_rpos = 0, cons_wpos = 0, serial = []\<rparr>\<rparr>"

definition example_env :: env where
  "example_env = \<lparr>ev_vops = ucore_vops default_sched_class 0, ev_syms = example_ksyms,
     ev_vars = \<lparr>lv_name = 0, lv_elf = 0, lv_ph = 0, lv_stat = 0, lv_colon = 0, lv_timer = 0\<rparr>\<rparr>"

theorem trap_read_takes_slice_witness:
  "\<exists>v L t. kernel_mapped (vm_mem v) L 1 \<and> trap example_env 0x5000 example_frame (example_machine v) = Some (True, returned 3 example_frame, example_machine v\<lparr>mc_os := t\<rparr>)
     \<and> read_bytes (os_mem t) 0x200000 3 = drop 2 (file_contents 20 example_disk) \<and> (\<forall>a\<ge>0x200003. os_mem t a = os_mem (example_reader v) a)"
proof -
  obtain v L where v: "mm_inv v 1 [2]" "vstart v 2 = USERBASE" "vend v 2 = USERBASE + PGSIZE" "vma_flags (vm_vmas v 2) = VM_WRITE"
    and m: "mm_pgdir (vm_mms v 1) = Some 1" "pt_inv (vm_mem v) L" "L 1 = Some (1, Root)"
      "pte_at (vm_mem v) 1 USERBASE = pte_create (page2ppn 5) (PTE_V OR PTE_USER)" and km: "kernel_mapped (vm_mem v) L 1"
    using example_user_area by blast
  note r = example_reader_ok [OF v(1)]
  have u: "unat USERBASE = 0x200000" by (simp add: USERBASE_def)
  have fc: "length (file_contents 20 example_disk) = 5" by (simp add: example_din_def)
  then have sl: "take 10 (drop 2 (file_contents 20 example_disk)) = drop 2 (file_contents 20 example_disk)" by simp
  have regs: "mc_os (example_machine v) = example_reader v" "gpr_a2 (tf_gpr example_frame) = USERBASE" "unat (gpr_a3 (tf_gpr example_frame)) = 10"
    "arg_int (gpr_a1 (tf_gpr example_frame)) = 3" "arg_int (gpr_a0 (tf_gpr example_frame)) = int SYS_read"
    "tf_cause example_frame = CAUSE_USER_ECALL" "\<not> trap_in_kernel example_frame" "ev_vops example_env = ucore_vops default_sched_class 0"
    by (simp_all add: example_machine_def example_frame_def arg_int_def SYS_read_def CAUSE_USER_ECALL_def trap_in_kernel_def SSTATUS_SPP_def example_env_def)
  have p: "os_proc (example_reader v) 5 = procs example_kern_cur 5" by (simp add: os_proc_def os_kern_def example_reader_def)
  have z: "p_flags (procs (os_kern example_disk) 5) = 0" "\<not> p_need_resched (procs (os_kern example_disk) 5)"
    by (simp_all add: example_disk_def boot_ucore_def os_kern_def boot_kern_def zero_proc_def)
  have "\<exists>t. let bs = take 10 (drop 2 (file_contents 20 (example_reader v))) in
      trap example_env 0x5000 example_frame (example_machine v) = Some (True, returned (int (length bs)) example_frame, example_machine v\<lparr>mc_os := t\<rparr>)
    \<and> read_bytes (os_mem t) (unat USERBASE) (length bs) = bs \<and> f_pos (get_file (0, 3) t) = int (2 + length bs)
    \<and> only_read 10 (0, 3) ({65536..<65536 + 4096} \<union> {unat USERBASE..<unat USERBASE + length bs}) (example_reader v) t
    \<and> (\<exists>x. os_kern t = os_kern (with_tf 5 x (example_reader v))) \<and> reads_file 10 20 3 (0, 3) t \<and> user_space 5 1 [2] t"
  proof (rule trap_read_takes_slice [where f = 10 and n = 20 and tf = example_frame and S = "example_machine v" and e = "(0, 3)" and c = 5 and m = 1
      and vs = "[2]" and off = 2 and buf = 65536 and bufs = "[]" and E = example_env and sc = default_sched_class and dd = 0 and a = "0x5000",
      unfolded regs])
    show "f_pos (get_file (0, 3) (example_reader v)) = int 2" by (simp add: get_file_def example_reader_def)
    show "vm_pool (os_vm (example_reader v)) = 65536 # []" by (simp add: example_reader_def)
    show "{unat USERBASE..<unat USERBASE + 10} \<inter> (fs_mem 10 (example_reader v) \<union> {65536..<65536 + 4096}) = {}"
      unfolding r(3) u using example_buffer [of "0x200000" "0x200000 + 10"] by auto
  qed (use r(1,2) example_user_range [OF v m] in \<open>simp_all add: r(3) example_buffer SFS_MAX_FILE_SIZE_def regs p z example_kern_cur_def\<close>)
  then obtain t where t: "trap example_env 0x5000 example_frame (example_machine v) = Some (True, returned 3 example_frame, example_machine v\<lparr>mc_os := t\<rparr>)"
    "read_bytes (os_mem t) 0x200000 3 = drop 2 (file_contents 20 example_disk)"
    "only_read 10 (0, 3) ({65536..<65536 + 4096} \<union> {0x200000..<0x200000 + 3}) (example_reader v) t"
    unfolding Let_def r(4) sl u using fc by auto
  have "os_mem t a = os_mem (example_reader v) a" if "0x200003 \<le> a" for a
  proof -
    have "a \<notin> fs_mem 10 (example_reader v)" using that unfolding r(3) using example_buffer [of a "a + 1"] by auto
    then show ?thesis using t(3) that by (simp add: only_read_def fs_mem_def)
  qed
  then show ?thesis using t(1,2) km by blast
qed

end
