(* ===== verification/Exec_Args.thy ===== *)
theory Exec_Args
  imports Exec Sysread
begin

text \<open>The stack of a new program: the four pages that \<open>load_icode\<close> maps and the argument block that it builds on them.\<close>

section \<open>Words in memory\<close>

lemma load_store64 [simp]: "load64 (store64 a w m) a = w"
proof -
  have "unat w < 256 ^ 8" using unsigned_less [of w] by simp
  then show ?thesis by (simp add: load64_def store64_def)
qed




section \<open>The block\<close>

text \<open>The bytes that the strings take, terminators included.\<close>

definition str_size :: "8 word list list \<Rightarrow> nat" where "str_size xss = sum_list (map (\<lambda>xs. length xs + 1) xss)"

lemma str_size_simps [simp]: "str_size [] = 0" "str_size (xs # xss) = length xs + 1 + str_size xss"
  by (simp_all add: str_size_def)






text \<open>Where string \<open>j\<close> begins.\<close>

definition str_at :: "8 word list list \<Rightarrow> nat \<Rightarrow> nat" where "str_at xss j = str_size (take j xss)"

lemma str_at_simps [simp]: "str_at xss 0 = 0" "str_at (xs # xss) (Suc j) = length xs + 1 + str_at xss j"
  by (simp_all add: str_at_def)





section \<open>Its place at the top of the stack\<close>



section \<open>The pages of the stack\<close>












end
