(* ===== verification/Buddy.thy ===== *)
theory Buddy
  imports Paging_Inv
begin

unbundle bit_operations_syntax

text \<open>
  The buddy page manager \<open>lab2/kern/mm/buddysystem\_pmm.c\<close>: one free list for every order, blocks of \<open>2 ^ order\<close>
  frames, splitting on allocation and merging with the neighbour that differs in one address bit on release.
\<close>

section \<open>State\<close>

datatype bnode = FreeArea nat | BuddyLink nat

fun ble2page :: "bnode \<Rightarrow> nat" where "ble2page (BuddyLink p) = p"

record buddy =
  bd_mem :: pmem
  bd_links :: "bnode links"
  bd_nr :: "nat \<Rightarrow> nat"

definition MAX_ORDER :: nat where "MAX_ORDER = 11"

definition upd_bpages :: "(pmm \<Rightarrow> pmm) \<Rightarrow> buddy \<Rightarrow> buddy" where "upd_bpages f s = s\<lparr>bd_mem := upd_pmm f (bd_mem s)\<rparr>"
definition upd_blinks :: "(bnode links \<Rightarrow> bnode links) \<Rightarrow> buddy \<Rightarrow> buddy" where "upd_blinks f s = s\<lparr>bd_links := f (bd_links s)\<rparr>"
definition upd_nr :: "nat \<Rightarrow> (nat \<Rightarrow> nat) \<Rightarrow> buddy \<Rightarrow> buddy" where "upd_nr i f s = s\<lparr>bd_nr := (bd_nr s)(i := u32 (f (bd_nr s i)))\<rparr>"

abbreviation bpages :: "buddy \<Rightarrow> pmm" where "bpages s \<equiv> pm_pmm (bd_mem s)"

definition list_is_empty :: "nat \<Rightarrow> buddy \<Rightarrow> bool" where "list_is_empty i s = list_empty (FreeArea i) (bd_links s)"

definition IS_POWER_OF_2 :: "nat \<Rightarrow> bool" where "IS_POWER_OF_2 num \<longleftrightarrow> 0 < num \<and> num AND (num - 1) = 0"

section \<open>Initialisation\<close>

definition init_free_area :: "nat \<Rightarrow> buddy \<Rightarrow> buddy" where
  "init_free_area order s = upd_nr order (\<lambda>_. 0) (upd_blinks (list_init (FreeArea order)) s)"

definition buddy_system_init :: "buddy \<Rightarrow> buddy" where
  "buddy_system_init s = fold init_free_area [0..<MAX_ORDER] s"

text \<open>\<open>while ((1 << order) <= n && order < MAX_ORDER) order += 1\<close>.\<close>

function order_above :: "nat \<Rightarrow> nat \<Rightarrow> nat" where
  "order_above n order = (if 2 ^ order \<le> n \<and> order < MAX_ORDER then order_above n (order + 1) else order)"
  by auto
termination by (relation "measure (\<lambda>(n, order). MAX_ORDER - order)") auto

declare order_above.simps [simp del]

definition add_block :: "nat \<Rightarrow> nat \<Rightarrow> buddy \<Rightarrow> buddy" where
  "add_block order p s =
     (let s1 = upd_bpages (set_property p (2 ^ order)) s;
          s2 = upd_bpages (SetPageProperty p) s1;
          s3 = upd_blinks (list_add (FreeArea order) (BuddyLink p)) s2
      in upd_nr order (\<lambda>k. k + 1) s3)"

function memmap_blocks :: "nat \<Rightarrow> nat \<Rightarrow> buddy \<Rightarrow> buddy" where
  "memmap_blocks p n s =
     (if n = 0 then s
      else let order = order_above n 0 - 1 in memmap_blocks (p + 2 ^ order) (n - 2 ^ order) (add_block order p s))"
  by auto
termination by (relation "measure (\<lambda>(p, n, s). n)") simp_all

declare memmap_blocks.simps [simp del]

definition buddy_system_init_memmap :: "nat \<Rightarrow> nat \<Rightarrow> buddy \<Rightarrow> buddy option" where
  "buddy_system_init_memmap base n s = do {
     kassert (0 < n);
     p \<leftarrow> memmap_pages base n (bpages s);
     Some (memmap_blocks base n (upd_bpages (\<lambda>_. p) s))
   }"

section \<open>Allocation\<close>

definition split_first :: "nat \<Rightarrow> buddy \<Rightarrow> buddy" where
  "split_first order s =
     (let page = ble2page (list_next (FreeArea order) (bd_links s));
          s1 = upd_nr order (\<lambda>k. k - 1) (upd_blinks (list_del (BuddyLink page)) s);
          sz = 2 ^ (order - 1);
          buddy = page + sz;
          s2 = upd_bpages (\<lambda>p. SetPageProperty buddy (SetPageProperty page (set_property buddy sz (set_property page sz p)))) s1;
          s3 = upd_blinks (list_add (FreeArea (order - 1)) (BuddyLink page)) s2;
          s4 = upd_blinks (list_add (FreeArea (order - 1)) (BuddyLink buddy)) s3
      in upd_nr (order - 1) (\<lambda>k. k + 2) s4)"

function split_page :: "nat \<Rightarrow> buddy \<Rightarrow> buddy option" where
  "split_page order s =
     (if \<not> (0 < order \<and> order < MAX_ORDER) then None
      else do {
        s1 \<leftarrow> (if list_is_empty order s then split_page (order + 1) s else Some s);
        Some (if list_is_empty order s1 then s1 else split_first order s1)
      })"
  by auto
termination by (relation "measure (\<lambda>(order, s). MAX_ORDER - order)") auto

declare split_page.simps [simp del]

text \<open>\<open>while ((1 << order) < n && order < MAX_ORDER) order += 1\<close>.\<close>

function order_fit :: "nat \<Rightarrow> nat \<Rightarrow> nat" where
  "order_fit n order = (if 2 ^ order < n \<and> order < MAX_ORDER then order_fit n (order + 1) else order)"
  by auto
termination by (relation "measure (\<lambda>(n, order). MAX_ORDER - order)") auto

declare order_fit.simps [simp del]

function find_order_list :: "nat \<Rightarrow> buddy \<Rightarrow> nat" where
  "find_order_list order s =
     (if order < MAX_ORDER \<and> list_is_empty order s then find_order_list (order + 1) s else order)"
  by auto
termination by (relation "measure (\<lambda>(order, s). MAX_ORDER - order)") auto

declare find_order_list.simps [simp del]

text \<open>Splitting \<open>k\<close> times, from order \<open>order + k\<close> down.\<close>

primrec split_down :: "nat \<Rightarrow> nat \<Rightarrow> buddy \<Rightarrow> buddy option" where
  "split_down order 0 s = Some s"
| "split_down order (Suc k) s = do { s1 \<leftarrow> split_page (order + Suc k) s; split_down order k s1 }"

definition buddy_system_alloc_pages :: "nat \<Rightarrow> buddy \<Rightarrow> (nat option \<times> buddy) option" where
  "buddy_system_alloc_pages n s = do {
     kassert (0 < n);
     (if 2 ^ (MAX_ORDER - 1) < n then Some (None, s)
      else let order = order_fit n 0 in
        if MAX_ORDER \<le> order then Some (None, s)
        else let current_order = find_order_list order s in
          if current_order = MAX_ORDER then Some (None, s)
          else do {
            s1 \<leftarrow> split_down order (current_order - order) s;
            let page = ble2page (list_next (FreeArea order) (bd_links s1));
            let s2 = upd_nr order (\<lambda>k. k - 1) (upd_blinks (list_del (BuddyLink page)) s1);
            Some (Some page, upd_bpages (ClearPageProperty page) s2)
          })
   }"

section \<open>Release\<close>

definition add_page :: "nat \<Rightarrow> nat \<Rightarrow> buddy \<Rightarrow> buddy" where
  "add_page order base s = upd_blinks (list_add (FreeArea order) (BuddyLink base)) s"

function merge_page :: "nat \<Rightarrow> nat \<Rightarrow> buddy \<Rightarrow> buddy option" where
  "merge_page order base s =
     (if MAX_ORDER - 1 \<le> order then Some (upd_nr order (\<lambda>k. k + 1) (add_page order base s))
      else do {
        let sz = 2 ^ order;
        let buddy_addr = page2pa base XOR push_bit PGSHIFT (of_nat sz);
        buddy \<leftarrow> pa2page (bd_mem s) buddy_addr;
        (if property (bpages s) buddy \<noteq> sz \<or> \<not> PageProperty (bpages s) buddy
         then Some (upd_nr order (\<lambda>k. k + 1) (add_page order base s))
         else do {
           let s1 = upd_blinks (list_del (BuddyLink buddy)) s;
           let s2 = upd_bpages (ClearPageProperty buddy) s1;
           let s3 = upd_nr order (\<lambda>k. k - 1) s2;
           let base = (if buddy < base then buddy else base);
           let s4 = upd_bpages (set_property base (2 * sz)) s3;
           let s5 = upd_bpages (ClearPageProperty base) s4;
           merge_page (order + 1) base s5
         })
      })"
  by auto
termination by (relation "measure (\<lambda>(order, base, s). MAX_ORDER - order)") (auto simp: MAX_ORDER_def)

declare merge_page.simps [simp del]

text \<open>\<open>while (temp > 1) { temp >>= 1; order++; }\<close>.\<close>

function log_loop :: "nat \<Rightarrow> nat \<Rightarrow> nat" where
  "log_loop temp order = (if 1 < temp then log_loop (temp div 2) (order + 1) else order)"
  by auto
termination by (relation "measure (\<lambda>(temp, order). temp)") auto

declare log_loop.simps [simp del]

definition buddy_system_free_pages :: "nat \<Rightarrow> nat \<Rightarrow> buddy \<Rightarrow> buddy option" where
  "buddy_system_free_pages base n s = do {
     kassert (0 < n);
     kassert (IS_POWER_OF_2 n);
     kassert (n \<le> 2 ^ (MAX_ORDER - 1));
     p \<leftarrow> reset_pages base n (bpages s);
     let s1 = upd_bpages (\<lambda>_. SetPageProperty base (set_property base n p)) s;
     merge_page (log_loop n 0) base s1
   }"

definition buddy_system_nr_free_pages :: "buddy \<Rightarrow> nat" where
  "buddy_system_nr_free_pages s = (\<Sum>i<MAX_ORDER. u32 (bd_nr s i * 2 ^ i))"


text \<open>Two frames; a run of operations.\<close>

definition example_buddy :: buddy where
  "example_buddy = buddy_system_init \<lparr>bd_mem = \<lparr>pm_pmm = frames_with {0, 1}, pm_npage = nbase + 1024, pm_frame = \<lambda>_ _. 0\<rparr>,
     bd_links = \<lparr>lnext = id, lprev = id\<rparr>, bd_nr = (\<lambda>_. 0)\<rparr>"

definition example_run :: "(nat \<times> nat \<times> nat \<times> buddy) option" where
  "example_run = do {
     s1 \<leftarrow> buddy_system_init_memmap 0 2 example_buddy;
     (a, s2) \<leftarrow> buddy_system_alloc_pages 1 s1;
     (b, s3) \<leftarrow> buddy_system_alloc_pages 1 s2;
     s4 \<leftarrow> buddy_system_free_pages (the b) 1 s3;
     s5 \<leftarrow> buddy_system_free_pages (the a) 1 s4;
     (c, s6) \<leftarrow> buddy_system_alloc_pages 2 s5;
     Some (the a, the b, the c, s6)
   }"

end
