(* ===== verification/Buddy_Inv.thy ===== *)
theory Buddy_Inv
  imports Buddy
begin

unbundle bit_operations_syntax

text \<open>
  The invariant of the buddy manager: the free lists hold disjoint blocks.  Splitting, taking and merging blocks keep it;
  how the \<open>PG_property\<close> flags relate to the lists is a separate predicate, since merging does not keep it.
\<close>

section \<open>The neighbour of a block\<close>

definition partner :: "nat \<Rightarrow> nat \<Rightarrow> nat" where
  "partner k b = (if odd (b div 2 ^ k) then b - 2 ^ k else b + 2 ^ k)"

lemma odd_ge: "odd (b div 2 ^ k) \<Longrightarrow> 2 ^ k \<le> (b :: nat)"
  by (rule ccontr) simp

lemma partner_xor:
  assumes "k < 10"
  shows "(b + nbase) XOR 2 ^ k = partner k b + nbase"
proof -
  have n: "nbase = 2 ^ k * 2 ^ (19 - k)"
    using assms by (simp add: nbase_def flip: power_add)
  have "(b + nbase) div 2 ^ k = b div 2 ^ k + 2 ^ (19 - k)" unfolding n by simp
  moreover have "even ((2 :: nat) ^ (19 - k))" using assms by simp
  ultimately have o: "odd ((b + nbase) div 2 ^ k) \<longleftrightarrow> odd (b div 2 ^ k)" by simp
  have up: "y XOR 2 ^ k = y + 2 ^ k" if "even (y div 2 ^ k)" for y :: nat
    using that flip_bit_eq_xor [of k y] by (simp add: push_bit_eq_mult flip_bit_eq_if set_bit_eq bit_iff_odd)
  show ?thesis
  proof (cases "odd (b div 2 ^ k)")
    case False
    then show ?thesis using up [of "b + nbase"] o by (simp add: partner_def)
  next
    case True
    let ?y = "b - 2 ^ k + nbase"
    have b: "b + nbase = ?y + 2 ^ k" using odd_ge [OF True] by simp
    have "(b + nbase) div 2 ^ k = ?y div 2 ^ k + 1" unfolding b by (rule div_add_self2) simp
    then have "even (?y div 2 ^ k)" using o True by simp
    from up [OF this] have "b + nbase = ?y XOR 2 ^ k" using b by (simp only:)
    then have "(b + nbase) XOR 2 ^ k = ?y XOR (2 ^ k XOR 2 ^ k)" by (simp only: xor.assoc)
    also have "\<dots> = ?y" by (simp only: xor_self_eq xor.right_neutral)
    finally show ?thesis unfolding partner_def using True by (metis (full_types))
  qed
qed

lemma buddy_page:
  assumes "k < 10" "b + nbase < pm_npage m" "1024 dvd pm_npage m" "pm_npage m < 2 ^ 32"
  shows "pa2page m (page2pa b XOR push_bit PGSHIFT (of_nat (2 ^ k))) = Some (partner k b)" "partner k b + nbase < pm_npage m"
proof -
  have "page2pa b XOR push_bit PGSHIFT (of_nat (2 ^ k)) = push_bit 12 (of_nat ((b + nbase) XOR 2 ^ k))"
    by (simp add: page2pa_def page2ppn_def PGSHIFT_def push_bit_xor of_nat_xor_eq del: of_nat_add of_nat_power)
  also have "\<dots> = push_bit 12 (of_nat (partner k b + nbase))" using partner_xor [OF assms(1)] by simp
  finally have e: "page2pa b XOR push_bit PGSHIFT (of_nat (2 ^ k)) = push_bit 12 (of_nat (partner k b + nbase))" .
  show l: "partner k b + nbase < pm_npage m"
  proof (cases "odd (b div 2 ^ k)")
    case True
    then show ?thesis using assms(2) by (simp add: partner_def)
  next
    case False
    let ?x = "b + nbase"
    have n: "nbase = 2 ^ k * 2 ^ (19 - k)" using assms(1) by (simp add: nbase_def flip: power_add)
    have "even ((2 :: nat) ^ (19 - k))" using assms(1) by simp
    then have ev: "even (?x div 2 ^ k)" using False unfolding n by simp
    have "(2 :: nat) ^ (k + 1) dvd 1024"
      using assms(1) le_imp_power_dvd [of "k + 1" 10 "2 :: nat"] by simp
    then have "2 ^ (k + 1) dvd pm_npage m" using assms(3) dvd_trans by blast
    then obtain c where c: "pm_npage m = 2 ^ k * (2 * c)" by (auto simp: mult.assoc mult.left_commute)
    have "?x div 2 ^ k < 2 * c" using assms(2) c by (simp add: div_less_iff_less_mult mult.commute)
    moreover have "q + 2 \<le> 2 * c" if "q < 2 * c" "even q" for q using that by presburger
    ultimately have "?x div 2 ^ k + 2 \<le> 2 * c" using ev by blast
    then have "2 ^ k * (?x div 2 ^ k + 2) \<le> pm_npage m" unfolding c by (rule mult_le_mono2)
    moreover have "?x < 2 ^ k * (?x div 2 ^ k + 1)" using dividend_less_times_div [of "2 ^ k" ?x] by (simp add: algebra_simps)
    ultimately show ?thesis using False by (simp add: partner_def algebra_simps)
  qed
  have p: "PPN (push_bit 12 (of_nat (partner k b + nbase))) = partner k b + nbase"
    by (rule PPN_push) (use l assms(4) in simp)
  show "pa2page m (page2pa b XOR push_bit PGSHIFT (of_nat (2 ^ k))) = Some (partner k b)"
    unfolding e pa2page_def p using l by simp
qed

text \<open>A block and its neighbour are the two halves of the block of the next order.\<close>

lemma partner_union:
  "{min b (partner k b)..<min b (partner k b) + 2 ^ (k + 1)} = {b..<b + 2 ^ k} \<union> {partner k b..<partner k b + 2 ^ k}"
  "{b..<b + 2 ^ k} \<inter> {partner k b..<partner k b + 2 ^ k} = {}"
  using odd_ge [of b k] by (auto simp: partner_def min_def)

section \<open>The lists\<close>

definition bfrees :: "(nat \<Rightarrow> nat list) \<Rightarrow> nat set" where "bfrees B = (\<Union>i. \<Union>p\<in>set (B i). {p..<p + 2 ^ i})"

definition apart :: "(nat \<Rightarrow> nat list) \<Rightarrow> bool" where
  "apart B \<longleftrightarrow> (\<forall>i j p q. p \<in> set (B i) \<longrightarrow> q \<in> set (B j) \<longrightarrow> (i, p) \<noteq> (j, q) \<longrightarrow> {p..<p + 2 ^ i} \<inter> {q..<q + 2 ^ j} = {})"

definition links_ok :: "bnode links \<Rightarrow> (nat \<Rightarrow> nat list) \<Rightarrow> bool" where
  "links_ok h B \<longleftrightarrow> (\<forall>i<MAX_ORDER. clist h (FreeArea i) (map BuddyLink (B i)))"

lemma bfrees_head: "p \<in> set (B i) \<Longrightarrow> {p..<p + 2 ^ i} \<subseteq> bfrees B" by (auto simp: bfrees_def)

lemma head_free: "p \<in> set (B i) \<Longrightarrow> p \<in> bfrees B" by (force simp: bfrees_def)

lemma apartD: "apart B \<Longrightarrow> p \<in> set (B i) \<Longrightarrow> q \<in> set (B j) \<Longrightarrow> (i, p) \<noteq> (j, q) \<Longrightarrow> {p..<p + 2 ^ i} \<inter> {q..<q + 2 ^ j} = {}"
  by (simp add: apart_def)

lemma apart_head: "apart B \<Longrightarrow> p \<in> set (B i) \<Longrightarrow> p \<in> set (B j) \<Longrightarrow> i = j"
  using apartD [of B p i p j] by force

lemma bfrees_push: "bfrees (B(i := p # B i)) = {p..<p + 2 ^ i} \<union> bfrees B"
proof -
  have "x \<in> set ((B(i := p # B i)) a) \<longleftrightarrow> x \<in> set (B a) \<or> (a, x) = (i, p)" for a x by auto
  then have "bfrees (B(i := p # B i)) = (\<Union>a. \<Union>x\<in>{x. x \<in> set (B a) \<or> (a, x) = (i, p)}. {x..<x + 2 ^ a})"
    unfolding bfrees_def by auto
  then show ?thesis by (auto simp: bfrees_def)
qed

lemma apart_push:
  assumes "apart B" "{p..<p + 2 ^ i} \<inter> bfrees B = {}"
  shows "apart (B(i := p # B i))"
proof -
  have d: "{p..<p + 2 ^ i} \<inter> {q..<q + 2 ^ j} = {}" if "q \<in> set (B j)" for q j
    using that assms(2) bfrees_head by blast
  show ?thesis
    unfolding apart_def
  proof (intro allI impI)
    fix a b x y
    assume x: "x \<in> set ((B(i := p # B i)) a)" and y: "y \<in> set ((B(i := p # B i)) b)" and n: "(a, x) \<noteq> (b, y)"
    have "(a = i \<and> x = p) \<or> x \<in> set (B a)" "(b = i \<and> y = p) \<or> y \<in> set (B b)" using x y by (auto split: if_splits)
    then show "{x..<x + 2 ^ a} \<inter> {y..<y + 2 ^ b} = {}"
      using n d [of y b] d [of x a] apartD [OF assms(1), of x a y b] by blast
  qed
qed

lemma drop_facts:
  assumes "apart B" "links_ok h B" "i < MAX_ORDER" "B i = us @ p # vs"
  shows "apart (B(i := us @ vs))" "bfrees (B(i := us @ vs)) = bfrees B - {p..<p + 2 ^ i}" "{p..<p + 2 ^ i} \<subseteq> bfrees B"
proof -
  have "clist h (FreeArea i) (map BuddyLink (B i))" using assms(2,3) by (simp add: links_ok_def)
  then have "distinct (map BuddyLink (B i))" using clist_distinct by fastforce
  then have p: "p \<notin> set us \<union> set vs" using assms(4) by (auto simp: distinct_map)
  have sub: "x \<in> set ((B(i := us @ vs)) a) \<Longrightarrow> x \<in> set (B a) \<and> (a, x) \<noteq> (i, p)" for x a
    using assms(4) p by (auto split: if_splits)
  show "apart (B(i := us @ vs))" using assms(1) sub unfolding apart_def by blast
  show "{p..<p + 2 ^ i} \<subseteq> bfrees B" using assms(4) by (intro bfrees_head) simp
  have "x \<in> set ((B(i := us @ vs)) a) \<longleftrightarrow> x \<in> set (B a) \<and> (a, x) \<noteq> (i, p)" for x a
    using assms(4) p by (auto split: if_splits)
  then have "bfrees (B(i := us @ vs)) = (\<Union>a. \<Union>x\<in>{x \<in> set (B a). (a, x) \<noteq> (i, p)}. {x..<x + 2 ^ a})"
    unfolding bfrees_def by auto
  also have "\<dots> = bfrees B - {p..<p + 2 ^ i}"
  proof (rule set_eqI)
    fix z
    show "z \<in> (\<Union>a. \<Union>x\<in>{x \<in> set (B a). (a, x) \<noteq> (i, p)}. {x..<x + 2 ^ a}) \<longleftrightarrow> z \<in> bfrees B - {p..<p + 2 ^ i}"
    proof
      assume "z \<in> (\<Union>a. \<Union>x\<in>{x \<in> set (B a). (a, x) \<noteq> (i, p)}. {x..<x + 2 ^ a})"
      then obtain a x where x: "x \<in> set (B a)" "(a, x) \<noteq> (i, p)" "z \<in> {x..<x + 2 ^ a}" by blast
      have "p \<in> set (B i)" using assms(4) by simp
      from apartD [OF assms(1) x(1) this x(2)] x(3) have "z \<notin> {p..<p + 2 ^ i}" by blast
      then show "z \<in> bfrees B - {p..<p + 2 ^ i}" using x bfrees_head [of x B a] by blast
    next
      assume "z \<in> bfrees B - {p..<p + 2 ^ i}"
      then obtain a x where "x \<in> set (B a)" "z \<in> {x..<x + 2 ^ a}" "z \<notin> {p..<p + 2 ^ i}" by (auto simp: bfrees_def)
      then show "z \<in> (\<Union>a. \<Union>x\<in>{x \<in> set (B a). (a, x) \<noteq> (i, p)}. {x..<x + 2 ^ a})" by blast
    qed
  qed
  finally show "bfrees (B(i := us @ vs)) = bfrees B - {p..<p + 2 ^ i}" .
qed

lemma links_push:
  assumes "links_ok h B" "i < MAX_ORDER" "\<forall>j. p \<notin> set (B j)"
  shows "links_ok (list_add (FreeArea i) (BuddyLink p) h) (B(i := p # B i))"
  unfolding links_ok_def
proof (intro allI impI)
  fix j assume j: "j < MAX_ORDER"
  have ci: "clist h (FreeArea i) (map BuddyLink (B i))" and cj: "clist h (FreeArea j) (map BuddyLink (B j))"
    using assms(1,2) j by (simp_all add: links_ok_def)
  show "clist (list_add (FreeArea i) (BuddyLink p) h) (FreeArea j) (map BuddyLink ((B(i := p # B i)) j))"
  proof (cases "j = i")
    case True
    then show ?thesis using clist_push_front [OF ci, of "BuddyLink p"] assms(3) by (auto simp: inj_image_mem_iff)
  next
    case False
    have d: "distinct (map BuddyLink (B i))" using clist_distinct [OF ci] by simp
    have "lnext h (FreeArea i) \<notin> set (FreeArea j # map BuddyLink (B j))"
    proof (cases "B i")
      case Nil
      then show ?thesis using clist_head_next [OF ci] False by auto
    next
      case (Cons x xs)
      have "x \<notin> set (B j)"
      proof
        assume "x \<in> set (B j)"
        then obtain us vs where j: "B j = us @ x # vs" by (meson split_list)
        have "lprev h (BuddyLink x) = FreeArea i" using clist_mid_prev [of h "FreeArea i" "[]" "BuddyLink x"] ci Cons by simp
        moreover have "lprev h (BuddyLink x) = last (FreeArea j # map BuddyLink us)"
          using clist_mid_prev [of h "FreeArea j" "map BuddyLink us" "BuddyLink x" "map BuddyLink vs"] cj j by simp
        ultimately show False using False by (cases us rule: rev_cases) auto
      qed
      then show ?thesis using clist_head_next [OF ci] Cons by auto
    qed
    then show ?thesis
      using False cj assms(3) by (auto simp: list_add_def list_add_after_def intro!: clist_add_frame)
  qed
qed

lemma links_drop:
  assumes "links_ok h B" "i < MAX_ORDER" "B i = us @ p # vs" "apart B"
  shows "links_ok (list_del (BuddyLink p) h) (B(i := us @ vs))"
  unfolding links_ok_def
proof (intro allI impI)
  fix j assume j: "j < MAX_ORDER"
  have ci: "clist h (FreeArea i) (map BuddyLink us @ BuddyLink p # map BuddyLink vs)" and cj: "clist h (FreeArea j) (map BuddyLink (B j))"
    using assms(1-3) j unfolding links_ok_def by (metis list.simps(9) map_append, simp)
  show "clist (list_del (BuddyLink p) h) (FreeArea j) (map BuddyLink ((B(i := us @ vs)) j))"
  proof (cases "j = i")
    case True
    then show ?thesis using clist_list_del [OF ci] by simp
  next
    case False
    have nb: "x \<notin> set (B j)" if "x \<in> set (B i)" for x
      using apart_head [OF assms(4) that] False by blast
    have "lprev h (BuddyLink p) = last (FreeArea i # map BuddyLink us)" by (rule clist_mid_prev [OF ci])
    then have "lprev h (BuddyLink p) \<notin> set (FreeArea j # map BuddyLink (B j))"
      using nb assms(3) False by (cases us rule: rev_cases) auto
    moreover have "lnext h (BuddyLink p) = hd (map BuddyLink vs @ [FreeArea i])" by (rule clist_mid_next [OF ci])
    then have "lnext h (BuddyLink p) \<notin> set (FreeArea j # map BuddyLink (B j))"
      using nb assms(3) False by (cases vs) auto
    ultimately show ?thesis using False cj by (simp add: clist_del_frame)
  qed
qed


section \<open>The invariant\<close>

definition bd_inv :: "buddy \<Rightarrow> (nat \<Rightarrow> nat list) \<Rightarrow> bool" where
  "bd_inv s B \<longleftrightarrow> links_ok (bd_links s) B \<and> apart B \<and> (\<forall>i\<ge>MAX_ORDER. B i = []) \<and> (\<forall>i<MAX_ORDER. bd_nr s i = length (B i))
     \<and> (\<forall>p\<in>bfrees B. p + nbase < pm_npage (bd_mem s)) \<and> 1024 dvd pm_npage (bd_mem s) \<and> pm_npage (bd_mem s) < 2 ^ 32"

text \<open>Outside \<open>X\<close>, \<open>PG_property\<close> marks the heads of the free blocks; each of these knows its size.\<close>

definition flags_ok :: "buddy \<Rightarrow> (nat \<Rightarrow> nat list) \<Rightarrow> nat set \<Rightarrow> bool" where
  "flags_ok s B X \<longleftrightarrow> (\<forall>i. \<forall>p\<in>set (B i). property (bpages s) p = 2 ^ i)
     \<and> (\<forall>q. q \<notin> X \<longrightarrow> (PageProperty (bpages s) q \<longleftrightarrow> (\<exists>i. q \<in> set (B i))))"

lemma bd_simps [simp]:
  "bd_links (upd_bpages f s) = bd_links s" "bd_nr (upd_bpages f s) = bd_nr s" "bpages (upd_bpages f s) = f (bpages s)"
  "pm_npage (bd_mem (upd_bpages f s)) = pm_npage (bd_mem s)"
  "bd_links (upd_blinks g s) = g (bd_links s)" "bd_nr (upd_blinks g s) = bd_nr s" "bd_mem (upd_blinks g s) = bd_mem s"
  "bd_links (upd_nr i k s) = bd_links s" "bd_nr (upd_nr i k s) = (bd_nr s)(i := u32 (k (bd_nr s i)))" "bd_mem (upd_nr i k s) = bd_mem s"
  by (simp_all add: upd_bpages_def upd_blinks_def upd_nr_def upd_pmm_def)

lemma bd_inv_links: "bd_inv s B \<Longrightarrow> i < MAX_ORDER \<Longrightarrow> clist (bd_links s) (FreeArea i) (map BuddyLink (B i))"
  by (simp add: bd_inv_def links_ok_def)

lemma list_is_empty_iff: "bd_inv s B \<Longrightarrow> i < MAX_ORDER \<Longrightarrow> list_is_empty i s \<longleftrightarrow> B i = []"
  using clist_empty_iff [OF bd_inv_links, of s B i] by (simp add: list_is_empty_def)

lemma order_bound: "bd_inv s B \<Longrightarrow> p \<in> set (B i) \<Longrightarrow> i < MAX_ORDER"
  by (rule ccontr) (auto simp: bd_inv_def not_less)

lemma heads_bound:
  assumes "bd_inv s B"
  shows "set (B i) \<subseteq> {..<pm_npage (bd_mem s)}"
proof
  fix q assume "q \<in> set (B i)"
  then have "q + nbase < pm_npage (bd_mem s)" using head_free assms unfolding bd_inv_def by blast
  then show "q \<in> {..<pm_npage (bd_mem s)}" by simp
qed

lemma bd_inv_length:
  assumes "bd_inv s B"
  shows "length (B i) < 4294967296"
proof (cases "i < MAX_ORDER")
  case True
  have "distinct (map BuddyLink (B i))" using clist_distinct [OF bd_inv_links [OF assms True]] by simp
  then have "length (B i) = card (set (B i))" by (simp add: distinct_map distinct_card)
  also have "\<dots> \<le> card {..<pm_npage (bd_mem s)}"
    by (rule card_mono [OF finite_lessThan heads_bound [OF assms]])
  finally show ?thesis using assms by (simp add: bd_inv_def)
qed (use assms in \<open>simp add: bd_inv_def\<close>)

lemma bd_inv_bpages: "bd_inv (upd_bpages f s) B = bd_inv s B" by (simp add: bd_inv_def)

lemma bd_inv_push:
  assumes "bd_inv s B" "i < MAX_ORDER" "{p..<p + 2 ^ i} \<inter> bfrees B = {}" "p + 2 ^ i + nbase \<le> pm_npage (bd_mem s)"
  shows "bd_inv (upd_nr i (\<lambda>k. k + 1) (upd_blinks (list_add (FreeArea i) (BuddyLink p)) s)) (B(i := p # B i))"
proof -
  let ?t = "upd_nr i (\<lambda>k. k + 1) (upd_blinks (list_add (FreeArea i) (BuddyLink p)) s)"
  have pn: "\<forall>j. p \<notin> set (B j)" using assms(3) head_free by force
  have l: "links_ok (bd_links ?t) (B(i := p # B i))"
    using links_push [OF _ assms(2) pn] assms(1) by (simp add: bd_inv_def)
  have a: "apart (B(i := p # B i))" using apart_push [OF _ assms(3)] assms(1) by (simp add: bd_inv_def)
  have b: "\<forall>q\<in>bfrees (B(i := p # B i)). q + nbase < pm_npage (bd_mem ?t)"
    using assms(1,4) unfolding bfrees_push by (auto simp: bd_inv_def)
  have "length (p # B i) < 4294967296"
  proof -
    have "distinct (p # B i)" using pn clist_distinct [OF bd_inv_links [OF assms(1,2)]] by (simp add: distinct_map)
    then have "length (p # B i) = card (set (p # B i))" by (simp add: distinct_card)
    also have "p < pm_npage (bd_mem s)" using assms(4) by (simp add: nbase_def)
    then have "card (set (p # B i)) \<le> card {..<pm_npage (bd_mem s)}"
      using heads_bound [OF assms(1), of i] by (intro card_mono) simp_all
    finally show ?thesis using assms(1) by (simp add: bd_inv_def)
  qed
  then show ?thesis using l a b assms(1,2) by (auto simp: bd_inv_def u32_id)
qed

lemma bd_inv_drop:
  assumes "bd_inv s B" "i < MAX_ORDER" "B i = us @ p # vs"
  shows "bd_inv (upd_nr i (\<lambda>k. k - 1) (upd_blinks (list_del (BuddyLink p)) s)) (B(i := us @ vs))"
    and "bfrees (B(i := us @ vs)) = bfrees B - {p..<p + 2 ^ i}" "{p..<p + 2 ^ i} \<subseteq> bfrees B"
proof -
  have i: "links_ok (bd_links s) B" "apart B" using assms(1) by (auto simp: bd_inv_def)
  note d = drop_facts [OF i(2,1) assms(2,3)]
  show "bfrees (B(i := us @ vs)) = bfrees B - {p..<p + 2 ^ i}" "{p..<p + 2 ^ i} \<subseteq> bfrees B" by (rule d)+
  have "length (us @ vs) < 4294967296" using bd_inv_length [OF assms(1), of i] assms(3) by simp
  then show "bd_inv (upd_nr i (\<lambda>k. k - 1) (upd_blinks (list_del (BuddyLink p)) s)) (B(i := us @ vs))"
    using links_drop [OF i(1) assms(2,3) i(2)] d assms unfolding bd_inv_def by (auto simp: u32_id)
qed

end
