(* ===== verification/Buddy_Alloc.thy ===== *)
theory Buddy_Alloc
  imports Buddy_Inv
begin

text \<open>Splitting and allocation in the buddy manager.\<close>

lemma bd_block_bound:
  assumes "bd_inv s B" "p \<in> set (B i)"
  shows "p + 2 ^ i + nbase \<le> pm_npage (bd_mem s)"
proof -
  have "{p..<p + 2 ^ i} \<subseteq> bfrees B" by (rule bfrees_head) (rule assms(2))
  moreover have "p + (2 ^ i - 1) \<in> {p..<p + 2 ^ i}" by (cases "(2 :: nat) ^ i") simp_all
  ultimately have "p + (2 ^ i - 1) \<in> bfrees B" by blast
  then have "p + (2 ^ i - 1) + nbase < pm_npage (bd_mem s)" using assms(1) by (simp add: bd_inv_def)
  then show ?thesis by (simp add: Suc_le_eq flip: less_eq_Suc_le)
qed

lemma upd_nr_twice: "upd_nr i (\<lambda>k. k + 1) (upd_blinks f (upd_nr i (\<lambda>k. k + 1) s)) = upd_nr i (\<lambda>k. k + 2) (upd_blinks f s)"
  by (simp add: upd_nr_def upd_blinks_def u32_def mod_Suc_eq fun_upd_idem_iff)

lemma split_first_ok:
  assumes i: "bd_inv s B" and o: "0 < k" "k < MAX_ORDER" and b: "B k = h # vs"
  defines "B' \<equiv> B(k := vs, k - 1 := (h + 2 ^ (k - 1)) # h # B (k - 1))"
  shows "bd_inv (split_first k s) B'" "bfrees B' = bfrees B" "pm_npage (bd_mem (split_first k s)) = pm_npage (bd_mem s)"
    "flags_ok s B {} \<Longrightarrow> flags_ok (split_first k s) B' {}"
proof -
  have h: "ble2page (list_next (FreeArea k) (bd_links s)) = h"
    using clist_head_next [OF bd_inv_links [OF i o(2)]] b by (simp add: list_next_def)
  let ?s1 = "upd_nr k (\<lambda>k. k - 1) (upd_blinks (list_del (BuddyLink h)) s)"
  let ?z = "2 ^ (k - 1) :: nat"
  let ?s2 = "upd_bpages (\<lambda>p. SetPageProperty (h + ?z) (SetPageProperty h (set_property (h + ?z) ?z (set_property h ?z p)))) ?s1"
  let ?s3 = "upd_nr (k - 1) (\<lambda>k. k + 1) (upd_blinks (list_add (FreeArea (k - 1)) (BuddyLink h)) ?s2)"
  have e: "split_first k s = upd_nr (k - 1) (\<lambda>k. k + 1) (upd_blinks (list_add (FreeArea (k - 1)) (BuddyLink (h + ?z))) ?s3)"
    unfolding split_first_def h Let_def upd_nr_twice ..
  have z: "2 ^ k = ?z + ?z" using o(1) by (cases k) simp_all
  note d = bd_inv_drop [OF i o(2), of "[]" h vs, simplified append_Nil, OF b]
  have bound: "h + 2 ^ k + nbase \<le> pm_npage (bd_mem s)" using bd_block_bound [OF i, of h k] b by simp
  let ?B1 = "B(k := vs)"
  let ?B2 = "?B1(k - 1 := h # ?B1 (k - 1))"
  have "bd_inv ?s2 ?B1" using d(1) by (simp only: bd_inv_bpages)
  then have i3: "bd_inv ?s3 ?B2"
  proof (rule bd_inv_push)
    show "{h..<h + 2 ^ (k - 1)} \<inter> bfrees ?B1 = {}" using d(2) z by auto
  qed (use o bound z in auto)
  have B': "?B2(k - 1 := (h + ?z) # ?B2 (k - 1)) = B'" using o by (auto simp: B'_def fun_eq_iff)
  have "bd_inv (split_first k s) (?B2(k - 1 := (h + ?z) # ?B2 (k - 1)))"
    unfolding e
  proof (rule bd_inv_push [OF i3])
    show "{h + ?z..<h + ?z + 2 ^ (k - 1)} \<inter> bfrees ?B2 = {}" using d(2) z unfolding bfrees_push by auto
  qed (use o bound z in auto)
  then show "bd_inv (split_first k s) B'" unfolding B' .
  have "bfrees B' = {h + ?z..<h + ?z + ?z} \<union> ({h..<h + ?z} \<union> (bfrees B - {h..<h + 2 ^ k}))"
    unfolding B' [symmetric] bfrees_push d(2) ..
  also have "\<dots> = bfrees B" using d(3) z by auto
  finally show "bfrees B' = bfrees B" .
  show "pm_npage (bd_mem (split_first k s)) = pm_npage (bd_mem s)" unfolding e by simp
  show "flags_ok (split_first k s) B' {}" if f: "flags_ok s B {}"
  proof -
    have hk: "h \<notin> set (B j)" if "j \<noteq> k" for j
      using apart_head [of B h k j] i b that by (auto simp: bd_inv_def)
    have hz: "h + ?z \<notin> set (B j)" for j
    proof
      assume j: "h + ?z \<in> set (B j)"
      have n: "(k, h) \<noteq> (j, h + ?z)" by simp
      have "h \<in> set (B k)" "apart B" using b i by (simp_all add: bd_inv_def)
      from apartD [OF this(2,1) j n] have "{h..<h + 2 ^ k} \<inter> {h + ?z..<h + ?z + 2 ^ j} = {}" .
      moreover have "h + ?z \<in> {h..<h + 2 ^ k} \<inter> {h + ?z..<h + ?z + 2 ^ j}" using z by simp
      ultimately show False by blast
    qed
    have dist: "h \<notin> set vs" using clist_distinct [OF bd_inv_links [OF i o(2)]] b by auto
    have fr: "property (bpages s) p = 2 ^ j" if "p \<in> set (B j)" for p j using f that by (simp add: flags_ok_def)
    have pp: "PageProperty (bpages s) q \<longleftrightarrow> (\<exists>j. q \<in> set (B j))" for q using f by (simp add: flags_ok_def)
    have mem: "q \<in> set (B' j) \<longleftrightarrow> (j = k - 1 \<and> (q = h \<or> q = h + ?z)) \<or> (q \<in> set (B j) \<and> (j, q) \<noteq> (k, h))" for q j
      using o b dist by (auto simp: B'_def)
    have bp: "bpages (split_first k s) = SetPageProperty (h + ?z) (SetPageProperty h (set_property (h + ?z) ?z (set_property h ?z (bpages s))))"
      unfolding e by simp
    have "(2 :: nat) ^ (k - 1) \<le> 2 ^ 10" using o by (intro power_increasing) (auto simp: MAX_ORDER_def)
    then have u: "u32 ?z = ?z" by (simp add: u32_id)
    have "property (bpages (split_first k s)) p = 2 ^ j" if "p \<in> set (B' j)" for p j
      using that fr [of p j] hk [of j] hz [of j] unfolding mem bp by (auto simp: property_upd u [simplified])
    moreover have "PageProperty (bpages (split_first k s)) q \<longleftrightarrow> (\<exists>j. q \<in> set (B' j))" for q
      using hk b unfolding mem bp PageProperty_upd pp by auto
    ultimately show ?thesis by (simp add: flags_ok_def)
  qed
qed


text \<open>Splitting from order \<open>order + d\<close> down to \<open>order\<close>: the free frames stay the same, and order \<open>order\<close> gets a block.\<close>

lemma split_down_ok:
  assumes "bd_inv s B" "order + d < MAX_ORDER" "B (order + d) \<noteq> []" "\<forall>i. order \<le> i \<longrightarrow> i < order + d \<longrightarrow> B i = []"
  shows "\<exists>t B'. split_down order d s = Some t \<and> bd_inv t B' \<and> bfrees B' = bfrees B \<and> B' order \<noteq> []
     \<and> pm_npage (bd_mem t) = pm_npage (bd_mem s) \<and> (flags_ok s B {} \<longrightarrow> flags_ok t B' {})"
  using assms
proof (induction d arbitrary: s B)
  case 0
  then show ?case by auto
next
  case (Suc d)
  let ?k = "order + Suc d"
  from Suc.prems obtain h vs where b: "B ?k = h # vs" by (cases "B ?k") auto
  have k: "0 < ?k" "?k < MAX_ORDER" using Suc.prems by auto
  have e: "\<not> list_is_empty ?k s" using list_is_empty_iff [OF Suc.prems(1) k(2)] b by simp
  have sp: "split_page ?k s = Some (split_first ?k s)" using k e by (subst split_page.simps) simp
  let ?B = "B(?k := vs, ?k - 1 := (h + 2 ^ (?k - 1)) # h # B (?k - 1))"
  note f = split_first_ok [OF Suc.prems(1) k b]
  have "\<exists>t B'. split_down order d (split_first ?k s) = Some t \<and> bd_inv t B' \<and> bfrees B' = bfrees ?B \<and> B' order \<noteq> []
     \<and> pm_npage (bd_mem t) = pm_npage (bd_mem (split_first ?k s)) \<and> (flags_ok (split_first ?k s) ?B {} \<longrightarrow> flags_ok t B' {})"
  proof (rule Suc.IH [OF f(1)])
    show "?B (order + d) \<noteq> []" by simp
    show "\<forall>i. order \<le> i \<longrightarrow> i < order + d \<longrightarrow> ?B i = []" using Suc.prems(4) by auto
  qed (use k in simp)
  then show ?case unfolding split_down.simps sp f(2) f(3) using f(4) by auto
qed

section \<open>Orders\<close>

lemma order_fit_ok:
  assumes "n \<le> 2 ^ 10" "j \<le> 10"
  shows "order_fit n j \<le> 10 \<and> n \<le> 2 ^ order_fit n j \<and> j \<le> order_fit n j \<and> (\<forall>i. j \<le> i \<longrightarrow> i < order_fit n j \<longrightarrow> 2 ^ i < n)"
  using assms
proof (induction n j rule: order_fit.induct)
  case (1 n j)
  show ?case
  proof (cases "2 ^ j < n")
    case True
    then have "j \<noteq> 10" using 1 by auto
    then have j: "j + 1 \<le> 10" "j < MAX_ORDER" using 1 by (auto simp: MAX_ORDER_def)
    have e: "order_fit n j = order_fit n (j + 1)" using True j by (subst order_fit.simps) simp
    have ih: "order_fit n (j + 1) \<le> 10 \<and> n \<le> 2 ^ order_fit n (j + 1) \<and> j + 1 \<le> order_fit n (j + 1)
      \<and> (\<forall>i. j + 1 \<le> i \<longrightarrow> i < order_fit n (j + 1) \<longrightarrow> 2 ^ i < n)"
      using 1(1) [OF _ 1(2) j(1)] True j by blast
    have "2 ^ i < n" if "j \<le> i" "i < order_fit n (j + 1)" for i
      using ih that True by (cases "i = j") auto
    then show ?thesis unfolding e using ih by auto
  next
    case False
    then have e: "order_fit n j = j" by (subst order_fit.simps) simp
    show ?thesis unfolding e using False 1 by simp
  qed
qed

lemma find_order_list_ok:
  assumes "bd_inv s B" "j \<le> MAX_ORDER"
  shows "find_order_list j s \<le> MAX_ORDER \<and> j \<le> find_order_list j s \<and> (\<forall>i. j \<le> i \<longrightarrow> i < find_order_list j s \<longrightarrow> B i = [])
    \<and> (find_order_list j s < MAX_ORDER \<longrightarrow> B (find_order_list j s) \<noteq> [])"
  using assms
proof (induction j s rule: find_order_list.induct)
  case (1 j s)
  show ?case
  proof (cases "j < MAX_ORDER \<and> B j = []")
    case True
    then have l: "j < MAX_ORDER \<and> list_is_empty j s" using list_is_empty_iff [OF 1(2)] by simp
    then have e: "find_order_list j s = find_order_list (j + 1) s" by (subst find_order_list.simps) simp
    have ih: "find_order_list (j + 1) s \<le> MAX_ORDER \<and> j + 1 \<le> find_order_list (j + 1) s
      \<and> (\<forall>i. j + 1 \<le> i \<longrightarrow> i < find_order_list (j + 1) s \<longrightarrow> B i = [])
      \<and> (find_order_list (j + 1) s < MAX_ORDER \<longrightarrow> B (find_order_list (j + 1) s) \<noteq> [])"
      by (rule 1(1) [OF l 1(2)]) (use l in simp)
    have "B i = []" if "j \<le> i" "i < find_order_list (j + 1) s" for i
      using ih that True by (cases "i = j") auto
    then show ?thesis unfolding e using ih by auto
  next
    case False
    have l: "(j < MAX_ORDER \<and> list_is_empty j s) = False" using False list_is_empty_iff [OF 1(2)] by auto
    have e: "find_order_list j s = j" by (subst find_order_list.simps) (simp only: l if_False)
    show ?thesis unfolding e using False 1(3) by auto
  qed
qed

section \<open>Allocation\<close>

text \<open>What an allocation of a block of order \<open>k\<close> at \<open>p\<close> leaves.\<close>

definition block_gone :: "buddy \<Rightarrow> (nat \<Rightarrow> nat list) \<Rightarrow> nat \<Rightarrow> nat \<Rightarrow> buddy \<Rightarrow> (nat \<Rightarrow> nat list) \<Rightarrow> bool" where
  "block_gone s B k p t B' \<longleftrightarrow> bd_inv t B' \<and> {p..<p + 2 ^ k} \<subseteq> bfrees B \<and> bfrees B' = bfrees B - {p..<p + 2 ^ k}
     \<and> (flags_ok s B {} \<longrightarrow> flags_ok t B' {})"

lemma take_head_ok:
  assumes i: "bd_inv s B" and k: "k < MAX_ORDER" and b: "B k = p # vs"
  defines "t \<equiv> upd_bpages (ClearPageProperty p) (upd_nr k (\<lambda>k. k - 1) (upd_blinks (list_del (BuddyLink p)) s))"
  shows "ble2page (list_next (FreeArea k) (bd_links s)) = p" "block_gone s B k p t (B(k := vs))"
proof -
  show "ble2page (list_next (FreeArea k) (bd_links s)) = p"
    using clist_head_next [OF bd_inv_links [OF i k]] b by (simp add: list_next_def)
  note d = bd_inv_drop [OF i k, of "[]" p vs, simplified append_Nil, OF b]
  have "p \<notin> set vs" using clist_distinct [OF bd_inv_links [OF i k]] b by auto
  moreover have "p \<notin> set (B j)" if "j \<noteq> k" for j
    using apart_head [of B p k j] i b that by (auto simp: bd_inv_def)
  ultimately have m: "q \<in> set ((B(k := vs)) j) \<longleftrightarrow> q \<in> set (B j) \<and> q \<noteq> p" for q j using b by auto
  have "flags_ok t (B(k := vs)) {}" if "flags_ok s B {}"
    using that b unfolding flags_ok_def m t_def by auto
  then show "block_gone s B k p t (B(k := vs))"
    using d unfolding block_gone_def t_def bd_inv_bpages by simp
qed

lemma buddy_alloc_pages:
  assumes i: "bd_inv s B" and n: "0 < n" "n \<le> 1024"
  defines "k \<equiv> order_fit n 0"
  shows "\<forall>i\<ge>k. B i = [] \<Longrightarrow> buddy_system_alloc_pages n s = Some (None, s)"
    and "\<exists>i\<ge>k. B i \<noteq> [] \<Longrightarrow> \<exists>p t B'. buddy_system_alloc_pages n s = Some (Some p, t) \<and> block_gone s B k p t B'"
proof -
  let ?c = "find_order_list k s"
  have k: "k \<le> 10" "k < MAX_ORDER" using order_fit_ok [of n 0] n by (auto simp: k_def MAX_ORDER_def)
  have c: "?c \<le> MAX_ORDER" "k \<le> ?c" "\<forall>i. k \<le> i \<longrightarrow> i < ?c \<longrightarrow> B i = []" "?c < MAX_ORDER \<longrightarrow> B ?c \<noteq> []"
    using find_order_list_ok [OF i, of k] k by auto
  have big: "\<forall>i\<ge>MAX_ORDER. B i = []" using i by (simp add: bd_inv_def)
  have e: "buddy_system_alloc_pages n s = (if ?c = MAX_ORDER then Some (None, s)
     else do {
       s1 \<leftarrow> split_down k (?c - k) s;
       let page = ble2page (list_next (FreeArea k) (bd_links s1));
       let s2 = upd_nr k (\<lambda>k. k - 1) (upd_blinks (list_del (BuddyLink page)) s1);
       Some (Some page, upd_bpages (ClearPageProperty page) s2)
     })"
    using n k unfolding buddy_system_alloc_pages_def k_def by (simp add: MAX_ORDER_def Let_def)
  show "buddy_system_alloc_pages n s = Some (None, s)" if "\<forall>i\<ge>k. B i = []"
    using e c that by auto
  assume ex: "\<exists>i\<ge>k. B i \<noteq> []"
  then have lt: "?c < MAX_ORDER" using c(1,3) big by (metis le_neq_implies_less not_less)
  have "\<exists>t B'. split_down k (?c - k) s = Some t \<and> bd_inv t B' \<and> bfrees B' = bfrees B \<and> B' k \<noteq> []
     \<and> pm_npage (bd_mem t) = pm_npage (bd_mem s) \<and> (flags_ok s B {} \<longrightarrow> flags_ok t B' {})"
    by (rule split_down_ok [OF i]) (use c lt in auto)
  then obtain s1 B1 where s1: "split_down k (?c - k) s = Some s1" "bd_inv s1 B1" "bfrees B1 = bfrees B" "B1 k \<noteq> []"
    "flags_ok s B {} \<longrightarrow> flags_ok s1 B1 {}" by blast
  then obtain p vs where b: "B1 k = p # vs" by (cases "B1 k") auto
  note t = take_head_ok [OF s1(2) k(2) b]
  show "\<exists>p t B'. buddy_system_alloc_pages n s = Some (Some p, t) \<and> block_gone s B k p t B'"
    using lt s1 t unfolding e block_gone_def by (auto simp: Let_def)
qed

end
