(* ===== verification/Buddy_Merge.thy ===== *)
theory Buddy_Merge
  imports Buddy_Alloc
begin

text \<open>Merging and release in the buddy manager.\<close>

section \<open>Merging\<close>

text \<open>The block at \<open>b\<close> of order \<open>k\<close> is outside the lists and knows its size; flags are right outside the block.\<close>

definition loose :: "buddy \<Rightarrow> (nat \<Rightarrow> nat list) \<Rightarrow> nat \<Rightarrow> nat \<Rightarrow> bool" where
  "loose s B k b \<longleftrightarrow> bd_inv s B \<and> k \<le> 10 \<and> {b..<b + 2 ^ k} \<inter> bfrees B = {} \<and> b + 2 ^ k + nbase \<le> pm_npage (bd_mem s)
     \<and> property (bpages s) b = 2 ^ k \<and> flags_ok s B {b..<b + 2 ^ k}"

text \<open>The block ends inside a listed block at \<open>c\<close>; flags are right outside that block.\<close>

definition merged :: "buddy \<Rightarrow> (nat \<Rightarrow> nat list) \<Rightarrow> nat set \<Rightarrow> buddy \<Rightarrow> (nat \<Rightarrow> nat list) \<Rightarrow> bool" where
  "merged s B X t B' \<longleftrightarrow> bd_inv t B' \<and> bfrees B' = bfrees B \<union> X
     \<and> (\<exists>c j. c \<in> set (B' j) \<and> X \<subseteq> {c..<c + 2 ^ j} \<and> flags_ok t B' {c..<c + 2 ^ j})"

lemma push_loose:
  assumes l: "loose s B k b"
  defines "t \<equiv> upd_nr k (\<lambda>k. k + 1) (add_page k b s)"
  shows "bd_inv t (B(k := b # B k))" "flags_ok t (B(k := b # B k)) {b..<b + 2 ^ k}"
    "PageProperty (bpages s) b \<Longrightarrow> \<forall>q\<in>{b<..<b + 2 ^ k}. \<not> PageProperty (bpages s) q \<Longrightarrow> flags_ok t (B(k := b # B k)) {}"
    "merged s B {b..<b + 2 ^ k} t (B(k := b # B k))"
proof -
  show i: "bd_inv t (B(k := b # B k))"
    unfolding t_def add_page_def by (rule bd_inv_push) (use l in \<open>auto simp: loose_def MAX_ORDER_def\<close>)
  have bt: "bpages t = bpages s" by (simp add: t_def add_page_def)
  have f: "flags_ok s B {b..<b + 2 ^ k}" "property (bpages s) b = 2 ^ k" using l by (auto simp: loose_def)
  have nb: "q \<notin> {b..<b + 2 ^ k}" if "q \<in> set (B j)" for q j
    using l head_free [of q B j] that by (auto simp: loose_def)
  have m: "q \<in> set ((B(k := b # B k)) j) \<longleftrightarrow> q \<in> set (B j) \<or> (q = b \<and> j = k)" for q j by auto
  have pr: "\<forall>j. \<forall>q\<in>set ((B(k := b # B k)) j). property (bpages s) q = 2 ^ j"
    using f unfolding flags_ok_def by auto
  have out: "PageProperty (bpages s) q \<longleftrightarrow> (\<exists>j. q \<in> set (B j) \<or> (q = b \<and> j = k))" if "q \<notin> {b..<b + 2 ^ k}" for q
  proof -
    have "q \<noteq> b" using that by auto
    then show ?thesis using f(1) that by (simp add: flags_ok_def)
  qed
  show fo: "flags_ok t (B(k := b # B k)) {b..<b + 2 ^ k}" unfolding flags_ok_def bt using pr out m by blast
  show "flags_ok t (B(k := b # B k)) {}"
    if pb: "PageProperty (bpages s) b" "\<forall>q\<in>{b<..<b + 2 ^ k}. \<not> PageProperty (bpages s) q"
  proof -
    have "PageProperty (bpages s) q \<longleftrightarrow> (\<exists>j. q \<in> set (B j) \<or> (q = b \<and> j = k))" for q
      using out [of q] pb nb [of q] by (cases "q \<in> {b..<b + 2 ^ k}"; cases "q = b") auto
    then show ?thesis unfolding flags_ok_def bt using pr m by blast
  qed
  show "merged s B {b..<b + 2 ^ k} t (B(k := b # B k))"
    unfolding merged_def
  proof (intro conjI)
    show "bfrees (B(k := b # B k)) = bfrees B \<union> {b..<b + 2 ^ k}" unfolding bfrees_push by blast
    show "\<exists>c j. c \<in> set ((B(k := b # B k)) j) \<and> {b..<b + 2 ^ k} \<subseteq> {c..<c + 2 ^ j} \<and> flags_ok t (B(k := b # B k)) {c..<c + 2 ^ j}"
      using fo by - (rule exI [of _ b], rule exI [of _ k], simp)
  qed (rule i)
qed

text \<open>One merge: the neighbour leaves its list and the two halves become one loose block.\<close>

definition merge_once :: "nat \<Rightarrow> nat \<Rightarrow> nat \<Rightarrow> buddy \<Rightarrow> buddy" where
  "merge_once k b c s =
     (let p = min b c
      in upd_bpages (\<lambda>u. ClearPageProperty p (set_property p (2 * 2 ^ k) u))
           (upd_nr k (\<lambda>k. k - 1) (upd_bpages (ClearPageProperty c) (upd_blinks (list_del (BuddyLink c)) s))))"

lemma upd_bpages_twice: "upd_bpages f (upd_bpages g s) = upd_bpages (\<lambda>u. f (g u)) s"
  by (simp add: upd_bpages_def upd_pmm_def)

lemma merge_page_eq:
  assumes l: "loose s B k b" and k: "k < 10"
  shows "merge_page k b s = (if partner k b \<in> set (B k)
     then merge_page (k + 1) (min b (partner k b)) (merge_once k b (partner k b) s)
     else Some (upd_nr k (\<lambda>k. k + 1) (add_page k b s)))"
proof -
  have i: "bd_inv s B" and f: "flags_ok s B {b..<b + 2 ^ k}" and bb: "b + 2 ^ k + nbase \<le> pm_npage (bd_mem s)"
    using l by (auto simp: loose_def)
  have "b + nbase < pm_npage (bd_mem s)" using bb by (rule less_le_trans [rotated]) simp
  then have c: "pa2page (bd_mem s) (page2pa b XOR push_bit PGSHIFT (of_nat (2 ^ k))) = Some (partner k b)"
    using buddy_page(1) [OF k] i by (simp add: bd_inv_def)
  have "partner k b \<notin> {b..<b + 2 ^ k}" using partner_union(2) [of b k] by force
  then have fl: "PageProperty (bpages s) (partner k b) \<longleftrightarrow> (\<exists>i. partner k b \<in> set (B i))"
    using f by (simp add: flags_ok_def)
  have pr: "property (bpages s) q = 2 ^ j" if "q \<in> set (B j)" for q j using f that by (simp add: flags_ok_def)
  have t: "(property (bpages s) (partner k b) \<noteq> 2 ^ k \<or> \<not> PageProperty (bpages s) (partner k b)) \<longleftrightarrow> partner k b \<notin> set (B k)"
    using fl pr by (metis power_inject_exp one_less_numeral_iff semiring_norm(76))
  have mn: "(if partner k b < b then partner k b else b) = min b (partner k b)" by auto
  have k': "\<not> MAX_ORDER - 1 \<le> k" using k by (simp add: MAX_ORDER_def)
  show ?thesis
    by (subst merge_page.simps)
      (simp only: k' if_False Let_def c Option.bind.bind_lunit t mn merge_once_def upd_bpages_twice if_not_P not_not if_True split: if_split, simp)
qed

lemma merge_once_ok:
  assumes l: "loose s B k b" and k: "k < 10" and c: "partner k b \<in> set (B k)"
  shows "\<exists>B1. loose (merge_once k b (partner k b) s) B1 (k + 1) (min b (partner k b))
     \<and> bfrees B1 = bfrees B - {partner k b..<partner k b + 2 ^ k} \<and> {partner k b..<partner k b + 2 ^ k} \<subseteq> bfrees B
     \<and> (\<forall>j. j \<noteq> k \<longrightarrow> B1 j = B j)"
proof -
  let ?c = "partner k b" and ?p = "min b (partner k b)"
  obtain us vs where u: "B k = us @ ?c # vs" using c by (meson split_list)
  have i: "bd_inv s B" and f: "flags_ok s B {b..<b + 2 ^ k}" and bb: "b + 2 ^ k + nbase \<le> pm_npage (bd_mem s)"
    and dj: "{b..<b + 2 ^ k} \<inter> bfrees B = {}" using l by (auto simp: loose_def)
  have km: "k < MAX_ORDER" using k by (simp add: MAX_ORDER_def)
  let ?B = "B(k := us @ vs)" and ?t = "merge_once k b ?c s"
  note d = bd_inv_drop [OF i km u]
  have "bd_inv ?t ?B" using d(1) unfolding merge_once_def Let_def bd_inv_bpages
    by (simp add: upd_nr_def upd_blinks_def upd_bpages_def bd_inv_def upd_pmm_def)
  moreover have X: "{?p..<?p + 2 ^ (k + 1)} = {b..<b + 2 ^ k} \<union> {?c..<?c + 2 ^ k}" by (rule partner_union)
  have "{?p..<?p + 2 ^ (k + 1)} \<inter> bfrees ?B = {}" unfolding X d(2) using dj by blast
  moreover have "?p + 2 ^ (k + 1) + nbase \<le> pm_npage (bd_mem ?t)"
  proof -
    have "?c + 2 ^ k + nbase \<le> pm_npage (bd_mem s)" by (rule bd_block_bound [OF i c])
    moreover have "?p + 2 ^ (k + 1) = max (b + 2 ^ k) (?c + 2 ^ k)"
      using odd_ge [of b k] by (auto simp: partner_def min_def max_def)
    ultimately show ?thesis using bb by (simp add: merge_once_def Let_def max_def)
  qed
  moreover have "(2 :: nat) ^ (k + 1) \<le> 2 ^ 10" using k by (intro power_increasing) auto
  then have "property (bpages ?t) ?p = 2 ^ (k + 1)" by (simp add: merge_once_def Let_def)
  moreover have "flags_ok ?t ?B {?p..<?p + 2 ^ (k + 1)}"
  proof -
    have dist: "?c \<notin> set us \<union> set vs" using clist_distinct [OF bd_inv_links [OF i km]] u by auto
    have ck: "?c \<notin> set (B j)" if "j \<noteq> k" for j using apart_head [of B ?c k j] i c that by (auto simp: bd_inv_def)
    have m: "q \<in> set (?B j) \<longleftrightarrow> q \<in> set (B j) \<and> q \<noteq> ?c" for q j using u dist ck by auto
    have nb: "b \<notin> set (B j)" for j using dj head_free [of b B j] by force
    have pn: "?p \<notin> set (?B j)" for j unfolding m using nb by (auto simp: min_def)
    have "property (bpages ?t) q = 2 ^ j" if "q \<in> set (?B j)" for q j
    proof -
      have "q \<noteq> ?p" using that pn by blast
      then show ?thesis using that f unfolding m by (simp add: merge_once_def Let_def flags_ok_def)
    qed
    moreover have "PageProperty (bpages ?t) q \<longleftrightarrow> (\<exists>j. q \<in> set (?B j))" if "q \<notin> {?p..<?p + 2 ^ (k + 1)}" for q
    proof -
      have "b \<in> {b..<b + 2 ^ k}" "?c \<in> {?c..<?c + 2 ^ k}" by simp_all
      moreover from this have "q \<noteq> b" "q \<noteq> ?c" "q \<notin> {b..<b + 2 ^ k}" using that unfolding X by blast+
      moreover from this have "q \<noteq> ?p" by (simp add: min_def)
      ultimately have "q \<notin> {b..<b + 2 ^ k}" "q \<noteq> ?c" "q \<noteq> ?p" by blast+
      then show ?thesis using f unfolding m by (simp add: merge_once_def Let_def flags_ok_def)
    qed
    ultimately show ?thesis by (simp add: flags_ok_def)
  qed
  ultimately have "loose ?t ?B (k + 1) ?p" using k by (simp add: loose_def)
  then show ?thesis using d(2,3) by (intro exI [of _ ?B]) auto
qed

lemma merge_page_ok:
  assumes "loose s B k b"
  shows "\<exists>t B'. merge_page k b s = Some t \<and> merged s B {b..<b + 2 ^ k} t B'"
  using assms
proof (induction "10 - k" arbitrary: k b s B)
  case 0
  then have "k = 10" by (simp add: loose_def)
  then have "merge_page k b s = Some (upd_nr k (\<lambda>k. k + 1) (add_page k b s))"
    by (subst merge_page.simps) (simp add: MAX_ORDER_def)
  then show ?case using push_loose(4) [OF 0(2)] by blast
next
  case (Suc d)
  then have k: "k < 10" by simp
  let ?c = "partner k b" and ?p = "min b (partner k b)"
  show ?case
  proof (cases "?c \<in> set (B k)")
    case False
    then show ?thesis unfolding merge_page_eq [OF Suc(3) k] using push_loose(4) [OF Suc(3)] by auto
  next
    case True
    from merge_once_ok [OF Suc(3) k True] obtain B1 where B1: "loose (merge_once k b ?c s) B1 (k + 1) ?p"
      "bfrees B1 = bfrees B - {?c..<?c + 2 ^ k}" "{?c..<?c + 2 ^ k} \<subseteq> bfrees B" by blast
    have "d = 10 - (k + 1)" using Suc(2) by simp
    from Suc(1) [OF this B1(1)] obtain t B' where t: "merge_page (k + 1) ?p (merge_once k b ?c s) = Some t"
      "merged (merge_once k b ?c s) B1 {?p..<?p + 2 ^ (k + 1)} t B'" by blast
    have X: "{?p..<?p + 2 ^ (k + 1)} = {b..<b + 2 ^ k} \<union> {?c..<?c + 2 ^ k}" by (rule partner_union)
    have "bfrees B' = bfrees B \<union> {b..<b + 2 ^ k}" using t(2) B1(2,3) unfolding merged_def X by blast
    then have "merged s B {b..<b + 2 ^ k} t B'" using t(2) unfolding merged_def X by blast
    then show ?thesis unfolding merge_page_eq [OF Suc(3) k] using True t(1) by auto
  qed
qed


section \<open>Release\<close>

lemma log_loop_power: "log_loop (2 ^ k) j = j + k"
proof (induction k arbitrary: j)
  case 0
  show ?case by (subst log_loop.simps) simp
next
  case (Suc k)
  have "1 < (2 :: nat) ^ Suc k" by (rule one_less_power) simp_all
  then have "log_loop (2 ^ Suc k) j = log_loop (2 ^ k) (j + 1)" by (subst log_loop.simps) simp
  then show ?case using Suc by simp
qed

lemma IS_POWER_OF_2_power: "IS_POWER_OF_2 (2 ^ k)"
proof -
  have "(2 :: nat) ^ k AND mask k = 0" by (rule bit_eqI) (auto simp: bit_simps)
  then show ?thesis by (simp add: IS_POWER_OF_2_def mask_eq_exp_minus_1)
qed

definition release_start :: "nat \<Rightarrow> nat \<Rightarrow> pmm \<Rightarrow> buddy \<Rightarrow> buddy" where
  "release_start k b u s = upd_bpages (\<lambda>_. SetPageProperty b (set_property b (2 ^ k) u)) s"

lemma buddy_free_start:
  assumes i: "bd_inv s B" and f: "flags_ok s B {}" and k: "k \<le> 10" and d: "{b..<b + 2 ^ k} \<inter> bfrees B = {}"
    and bb: "b + 2 ^ k + nbase \<le> pm_npage (bd_mem s)" and r: "\<forall>p\<in>{b..<b + 2 ^ k}. \<not> PageReserved (bpages s) p"
  shows "\<exists>u. buddy_system_free_pages b (2 ^ k) s = merge_page k b (release_start k b u s) \<and> loose (release_start k b u s) B k b
    \<and> same_view u (bpages s)"
proof -
  have nf: "\<not> PageProperty (bpages s) q" if "q \<in> {b..<b + 2 ^ k}" for q
    using that d f head_free unfolding flags_ok_def by blast
  then obtain u where u: "reset_pages b (2 ^ k) (bpages s) = Some u" "same_view u (bpages s)"
    using reset_pages_ok [of b "2 ^ k" "bpages s"] r by blast
  have le: "(2 :: nat) ^ k \<le> 2 ^ 10" using k by (rule power_increasing) simp
  then have e: "buddy_system_free_pages b (2 ^ k) s = merge_page k b (release_start k b u s)"
    using u(1) IS_POWER_OF_2_power [of k] unfolding buddy_system_free_pages_def release_start_def
    by (simp add: MAX_ORDER_def log_loop_power Let_def)
  have bn: "b \<notin> set (B j)" for j using d head_free [of b B j] by force
  have "flags_ok (release_start k b u s) B {b..<b + 2 ^ k}"
    unfolding flags_ok_def
  proof (intro conjI allI ballI impI)
    fix j p assume "p \<in> set (B j)"
    then show "property (bpages (release_start k b u s)) p = 2 ^ j"
      using bn [of j] u(2) f by (auto simp: release_start_def same_view_def flags_ok_def)
  next
    fix q assume "q \<notin> {b..<b + 2 ^ k}"
    moreover have "b \<in> {b..<b + 2 ^ k}" by simp
    ultimately have "q \<noteq> b" by blast
    then show "PageProperty (bpages (release_start k b u s)) q = (\<exists>j. q \<in> set (B j))"
      using u(2) f by (simp add: release_start_def same_view_def flags_ok_def)
  qed
  then have "loose (release_start k b u s) B k b"
    using i k d bb le by (simp add: loose_def release_start_def bd_inv_bpages)
  then show ?thesis using e u(2) by blast
qed

lemma stale_flag:
  assumes l: "loose s B k b" and k: "k < 10" and c: "partner k b \<in> set (B k)" "partner k b < b"
    and top: "k + 1 < 10 \<longrightarrow> partner (k + 1) (partner k b) \<notin> set (B (k + 1))" and p: "PageProperty (bpages s) b"
  shows "\<exists>t B' vs. merge_page k b s = Some t \<and> bd_inv t B' \<and> B' (k + 1) = partner k b # vs \<and> PageProperty (bpages t) b"
proof -
  let ?c = "partner k b"
  have m: "min b ?c = ?c" using c(2) by simp
  from merge_once_ok [OF l k c(1)] obtain B1 where B1: "loose (merge_once k b ?c s) B1 (k + 1) ?c"
    "\<forall>j. j \<noteq> k \<longrightarrow> B1 j = B j" unfolding m by blast
  let ?t = "upd_nr (k + 1) (\<lambda>k. k + 1) (add_page (k + 1) ?c (merge_once k b ?c s))"
  have e: "merge_page (k + 1) ?c (merge_once k b ?c s) = Some ?t"
  proof (cases "k + 1 < 10")
    case True
    then show ?thesis using merge_page_eq [OF B1(1) True] top B1(2) by simp
  next
    case False
    then show ?thesis using k by (subst merge_page.simps) (simp add: MAX_ORDER_def)
  qed
  have "merge_page k b s = Some ?t" unfolding merge_page_eq [OF l k] m using c(1) e by simp
  moreover have "bd_inv ?t (B1(k + 1 := ?c # B1 (k + 1)))" by (rule push_loose(1) [OF B1(1)])
  moreover have "PageProperty (bpages ?t) b" using p c(2) by (simp add: add_page_def merge_once_def Let_def)
  ultimately show ?thesis by (intro exI [of _ ?t] exI [of _ "B1(k + 1 := ?c # B1 (k + 1))"]) auto
qed

end
