(* ===== verification/Buddy_System.thy ===== *)
theory Buddy_System
  imports Buddy_Merge
begin

text \<open>Registration of memory, the count of free frames and the promises of the buddy manager.\<close>

section \<open>Registration\<close>

lemma order_above_ok:
  assumes "j = 0 \<or> 2 ^ (j - 1) \<le> n" "j \<le> 11" "0 < n"
  shows "order_above n j \<le> 11 \<and> 0 < order_above n j \<and> 2 ^ (order_above n j - 1) \<le> n"
  using assms
proof (induction n j rule: order_above.induct)
  case (1 n j)
  show ?case
  proof (cases "2 ^ j \<le> n \<and> j < MAX_ORDER")
    case True
    then have e: "order_above n j = order_above n (j + 1)" by (subst order_above.simps) simp
    show ?thesis unfolding e by (rule 1(1) [OF True]) (use True 1(4) in \<open>auto simp: MAX_ORDER_def\<close>)
  next
    case False
    then have e: "order_above n j = j" by (subst order_above.simps) (simp only: if_False)
    have "0 < j" using False 1(4) by (cases j) (auto simp: MAX_ORDER_def)
    then show ?thesis unfolding e using 1 by auto
  qed
qed

lemma add_block_ok:
  assumes i: "bd_inv s B" and k: "k < MAX_ORDER" and d: "{p..<p + 2 ^ k} \<inter> bfrees B = {}" and b: "p + 2 ^ k + nbase \<le> pm_npage (bd_mem s)"
    and f: "flags_ok s B {}"
  shows "bd_inv (add_block k p s) (B(k := p # B k))" "flags_ok (add_block k p s) (B(k := p # B k)) {}"
    "pm_npage (bd_mem (add_block k p s)) = pm_npage (bd_mem s)"
    "PageReserved (bpages (add_block k p s)) q = PageReserved (bpages s) q"
proof -
  let ?s = "upd_bpages (\<lambda>u. SetPageProperty p (set_property p (2 ^ k) u)) s"
  have e: "add_block k p s = upd_nr k (\<lambda>k. k + 1) (upd_blinks (list_add (FreeArea k) (BuddyLink p)) ?s)"
    by (simp add: add_block_def Let_def upd_bpages_twice)
  show "bd_inv (add_block k p s) (B(k := p # B k))"
    unfolding e by (rule bd_inv_push) (use assms in \<open>simp_all add: bd_inv_bpages\<close>)
  have pn: "p \<notin> set (B j)" for j using d head_free [of p B j] by force
  have "(2 :: nat) ^ k \<le> 2 ^ 10" using k by (intro power_increasing) (auto simp: MAX_ORDER_def)
  then have "\<forall>j. \<forall>q\<in>set ((B(k := p # B k)) j). property (bpages (add_block k p s)) q = 2 ^ j"
    using f pn unfolding e flags_ok_def by (auto split: if_splits)
  moreover have "PageProperty (bpages (add_block k p s)) q \<longleftrightarrow> (\<exists>j. q \<in> set ((B(k := p # B k)) j))" for q
    using f unfolding e flags_ok_def by auto
  ultimately show "flags_ok (add_block k p s) (B(k := p # B k)) {}" by (simp add: flags_ok_def)
  show "pm_npage (bd_mem (add_block k p s)) = pm_npage (bd_mem s)" "PageReserved (bpages (add_block k p s)) q = PageReserved (bpages s) q"
    unfolding e by simp_all
qed

lemma memmap_blocks_ok:
  assumes "bd_inv s B" "flags_ok s B {}" "{p..<p + n} \<inter> bfrees B = {}" "p + n + nbase \<le> pm_npage (bd_mem s)"
  shows "\<exists>B'. bd_inv (memmap_blocks p n s) B' \<and> flags_ok (memmap_blocks p n s) B' {} \<and> bfrees B' = bfrees B \<union> {p..<p + n}
     \<and> PageReserved (bpages (memmap_blocks p n s)) = PageReserved (bpages s)
     \<and> pm_npage (bd_mem (memmap_blocks p n s)) = pm_npage (bd_mem s)"
  using assms
proof (induction n arbitrary: p s B rule: less_induct)
  case (less n)
  show ?case
  proof (cases "n = 0")
    case True
    then show ?thesis using less.prems by (subst memmap_blocks.simps, simp) (intro exI [of _ B], simp add: memmap_blocks.simps)
  next
    case False
    let ?k = "order_above n 0 - 1"
    have o: "?k < MAX_ORDER" "2 ^ ?k \<le> n" using order_above_ok [of 0 n] False by (auto simp: MAX_ORDER_def)
    let ?s = "add_block ?k p s" and ?B = "B(?k := p # B ?k)" and ?p = "p + 2 ^ ?k" and ?n = "n - 2 ^ ?k"
    have e: "memmap_blocks p n s = memmap_blocks ?p ?n ?s" using False by (subst memmap_blocks.simps) (simp add: Let_def)
    have parts: "{p..<p + n} = {p..<p + 2 ^ ?k} \<union> {?p..<?p + ?n}" "{p..<p + 2 ^ ?k} \<inter> {?p..<?p + ?n} = {}"
      using o by auto
    have sub: "{p..<p + 2 ^ ?k} \<inter> bfrees B = {}" using less.prems(3) unfolding parts(1) by blast
    have top: "p + 2 ^ ?k + nbase \<le> pm_npage (bd_mem s)" using less.prems(4) o by simp
    note a = add_block_ok [OF less.prems(1) o(1) sub top less.prems(2)]
    have "{?p..<?p + ?n} \<inter> bfrees ?B = {}" using less.prems(3) parts(2) unfolding bfrees_push parts(1) by blast
    moreover have "?p + ?n + nbase \<le> pm_npage (bd_mem ?s)" using less.prems(4) o unfolding a(3) by simp
    moreover have "?n < n" using False by simp
    ultimately obtain B' where B': "bd_inv (memmap_blocks ?p ?n ?s) B'" "flags_ok (memmap_blocks ?p ?n ?s) B' {}"
      "bfrees B' = bfrees ?B \<union> {?p..<?p + ?n}" "PageReserved (bpages (memmap_blocks ?p ?n ?s)) = PageReserved (bpages ?s)"
      "pm_npage (bd_mem (memmap_blocks ?p ?n ?s)) = pm_npage (bd_mem ?s)"
      using less.IH [of ?n ?s ?B ?p] a(1,2) by blast
    have "bfrees B' = bfrees B \<union> {p..<p + n}" unfolding B'(3) bfrees_push parts(1) by blast
    then show ?thesis unfolding e using B' a(3,4) by (intro exI [of _ B']) (auto simp: fun_eq_iff)
  qed
qed

lemma buddy_memmap_ok:
  assumes i: "bd_inv s B" and f: "flags_ok s B {}" and d: "{p..<p + n} \<inter> bfrees B = {}" and b: "p + n + nbase \<le> pm_npage (bd_mem s)"
    and n: "0 < n" and r: "\<forall>q\<in>{p..<p + n}. PageReserved (bpages s) q"
  shows "\<exists>t B'. buddy_system_init_memmap p n s = Some t \<and> bd_inv t B' \<and> flags_ok t B' {} \<and> bfrees B' = bfrees B \<union> {p..<p + n}
     \<and> pm_npage (bd_mem t) = pm_npage (bd_mem s) \<and> (\<forall>q. PageReserved (bpages t) q \<longleftrightarrow> q \<notin> {p..<p + n} \<and> PageReserved (bpages s) q)"
proof -
  obtain u where u: "memmap_pages p n (bpages s) = Some u"
    "\<forall>q. PageReserved u q \<longleftrightarrow> q \<notin> {p..<p + n} \<and> PageReserved (bpages s) q"
    "\<forall>q. PageProperty u q \<longleftrightarrow> q \<notin> {p..<p + n} \<and> PageProperty (bpages s) q"
    "\<forall>q. property u q = (if q \<in> {p..<p + n} then 0 else property (bpages s) q)"
    using memmap_pages_ok [of p n "bpages s"] r by blast
  let ?s = "upd_bpages (\<lambda>_. u) s"
  have nb: "q \<notin> {p..<p + n}" if "q \<in> set (B j)" for q j using d head_free [of q B j] that by blast
  have "flags_ok ?s B {}" using f nb u(3,4) unfolding flags_ok_def by auto
  then obtain B' where "bd_inv (memmap_blocks p n ?s) B'" "flags_ok (memmap_blocks p n ?s) B' {}" "bfrees B' = bfrees B \<union> {p..<p + n}"
    "PageReserved (bpages (memmap_blocks p n ?s)) = PageReserved (bpages ?s)"
    "pm_npage (bd_mem (memmap_blocks p n ?s)) = pm_npage (bd_mem ?s)"
    using memmap_blocks_ok [of ?s B p n] i d b by (auto simp: bd_inv_bpages)
  then show ?thesis using u(1,2) n unfolding buddy_system_init_memmap_def by auto
qed

lemma init_free_areas:
  "\<forall>i<n. clist (bd_links (fold init_free_area [0..<n] s)) (FreeArea i) [] \<and> bd_nr (fold init_free_area [0..<n] s) i = 0"
  "bd_mem (fold init_free_area [0..<n] s) = bd_mem s"
  by (induction n) (auto simp: init_free_area_def clist_unlinked_init less_Suc_eq intro!: list_init_other)

lemma buddy_init_ok:
  assumes "1024 dvd pm_npage (bd_mem s)" "pm_npage (bd_mem s) < 2 ^ 32" "\<forall>q. \<not> PageProperty (bpages s) q"
  shows "bd_inv (buddy_system_init s) (\<lambda>_. [])" "flags_ok (buddy_system_init s) (\<lambda>_. []) {}"
    "bd_mem (buddy_system_init s) = bd_mem s"
  using init_free_areas [of MAX_ORDER s] assms
  by (auto simp: bd_inv_def flags_ok_def buddy_system_init_def links_ok_def apart_def bfrees_def)

section \<open>The count of free frames\<close>



section \<open>The promises\<close>

lemma bfrees_member: "q \<in> bfrees B \<Longrightarrow> \<exists>i p. p \<in> set (B i) \<and> q \<in> {p..<p + 2 ^ i}" by (auto simp: bfrees_def)

text \<open>Two example states, on the frames 0 and 1 of a machine with 1024 frames: both free, or only frame 0 free.\<close>

definition example_pair :: "nat \<Rightarrow> buddy" where
  "example_pair n = buddy_system_init \<lparr>bd_mem = \<lparr>pm_pmm = frames_with {0..<n}, pm_npage = nbase + 1024, pm_frame = \<lambda>_ _. 0\<rparr>,
     bd_links = \<lparr>lnext = \<lambda>_. FreeArea 0, lprev = \<lambda>_. FreeArea 0\<rparr>, bd_nr = \<lambda>_. 0\<rparr>"

lemma example_pair_ok:
  assumes "0 < n" "n \<le> 2"
  shows "\<exists>t B. buddy_system_init_memmap 0 n (example_pair n) = Some t \<and> bd_inv t B \<and> flags_ok t B {} \<and> bfrees B = {0..<n}
     \<and> pm_npage (bd_mem t) = nbase + 1024 \<and> (\<forall>q. \<not> PageReserved (bpages t) q)"
proof -
  let ?s = "\<lparr>bd_mem = \<lparr>pm_pmm = frames_with {0..<n}, pm_npage = nbase + 1024, pm_frame = \<lambda>_ _. 0\<rparr>,
     bd_links = \<lparr>lnext = \<lambda>_. FreeArea 0, lprev = \<lambda>_. FreeArea 0\<rparr>, bd_nr = \<lambda>_. 0\<rparr>"
  have "1024 dvd pm_npage (bd_mem ?s)" "pm_npage (bd_mem ?s) < 2 ^ 32" "\<forall>q. \<not> PageProperty (bpages ?s) q"
    by (simp_all add: nbase_def frames_with_flags)
  note i = buddy_init_ok [OF this, folded example_pair_def]
  have r: "PageReserved (bpages (example_pair n)) q \<longleftrightarrow> q < n" for q
    unfolding i(3) by (simp add: frames_with_def PageReserved_def PG_reserved_def atomic_test_bit_def bit_simps)
  have "pm_npage (bd_mem (example_pair n)) = nbase + 1024" unfolding i(3) by simp
  then show ?thesis using buddy_memmap_ok [OF i(1,2), of 0 n] r assms by (simp add: bfrees_def)
qed

text \<open>C38: an allocation of 1 to 1024 frames takes a block of the least order that holds them: when no list of this or a higher
  order has a block the answer is NULL and nothing changes; otherwise a free block is handed out, exactly its frames leave
  the free lists, and the invariant and the flags stay right.  The requests of more frames are refused.\<close>

theorem buddy_alloc_takes_block:
  assumes "bd_inv s B" "flags_ok s B {}" "0 < n"
  shows "if 1024 < n then buddy_system_alloc_pages n s = Some (None, s)
    else \<exists>k\<le>10. n \<le> 2 ^ k \<and> (\<forall>i<k. 2 ^ i < n)
      \<and> (if \<forall>i\<ge>k. B i = [] then buddy_system_alloc_pages n s = Some (None, s)
         else \<exists>p t B'. buddy_system_alloc_pages n s = Some (Some p, t) \<and> {p..<p + 2 ^ k} \<subseteq> bfrees B
           \<and> bfrees B' = bfrees B - {p..<p + 2 ^ k} \<and> bd_inv t B' \<and> flags_ok t B' {})"
proof (cases "1024 < n")
  case True
  then show ?thesis using assms(3) by (simp add: buddy_system_alloc_pages_def MAX_ORDER_def)
next
  case False
  then have n: "n \<le> 1024" by simp
  note a = buddy_alloc_pages [OF assms(1,3) n]
  have o: "order_fit n 0 \<le> 10 \<and> n \<le> 2 ^ order_fit n 0 \<and> 0 \<le> order_fit n 0 \<and> (\<forall>i. 0 \<le> i \<longrightarrow> i < order_fit n 0 \<longrightarrow> 2 ^ i < n)"
    by (rule order_fit_ok) (use n in simp_all)
  have "\<exists>k\<le>10. n \<le> 2 ^ k \<and> (\<forall>i<k. 2 ^ i < n)
      \<and> (if \<forall>i\<ge>k. B i = [] then buddy_system_alloc_pages n s = Some (None, s)
         else \<exists>p t B'. buddy_system_alloc_pages n s = Some (Some p, t) \<and> {p..<p + 2 ^ k} \<subseteq> bfrees B
           \<and> bfrees B' = bfrees B - {p..<p + 2 ^ k} \<and> bd_inv t B' \<and> flags_ok t B' {})"
  proof (intro exI [of _ "order_fit n 0"] conjI)
    show "if \<forall>i\<ge>order_fit n 0. B i = [] then buddy_system_alloc_pages n s = Some (None, s)
         else \<exists>p t B'. buddy_system_alloc_pages n s = Some (Some p, t) \<and> {p..<p + 2 ^ order_fit n 0} \<subseteq> bfrees B
           \<and> bfrees B' = bfrees B - {p..<p + 2 ^ order_fit n 0} \<and> bd_inv t B' \<and> flags_ok t B' {}"
      using a assms(2) unfolding block_gone_def by (metis (no_types, lifting))
  qed (use o in auto)
  then show ?thesis using False by simp
qed

theorem buddy_alloc_takes_block_witness:
  "\<exists>s p t B'. buddy_system_init_memmap 0 2 (example_pair 2) = Some s \<and> buddy_system_alloc_pages 1 s = Some (Some p, t)
     \<and> p < 2 \<and> bd_inv t B' \<and> bfrees B' = {0, 1} - {p}"
proof -
  obtain s B where s: "buddy_system_init_memmap 0 2 (example_pair 2) = Some s" "bd_inv s B" "flags_ok s B {}" "bfrees B = {0..<2}"
    using example_pair_ok [of 2] by auto
  obtain k where k: "\<forall>i<k. 2 ^ i < (1 :: nat)" "if \<forall>i\<ge>k. B i = [] then buddy_system_alloc_pages 1 s = Some (None, s)
         else \<exists>p t B'. buddy_system_alloc_pages 1 s = Some (Some p, t) \<and> {p..<p + 2 ^ k} \<subseteq> bfrees B
           \<and> bfrees B' = bfrees B - {p..<p + 2 ^ k} \<and> bd_inv t B' \<and> flags_ok t B' {}"
    using buddy_alloc_takes_block [OF s(2,3), of 1] by auto
  have "k = 0" using k(1) by (cases k) auto
  moreover obtain j q where "q \<in> set (B j)" using bfrees_member [of 0 B] s(4) by auto
  then have "\<not> (\<forall>i\<ge>0. B i = [])" by (metis empty_iff le0 list.set(1))
  ultimately have "\<exists>p t B'. buddy_system_alloc_pages 1 s = Some (Some p, t) \<and> {p..<p + 2 ^ k} \<subseteq> bfrees B
           \<and> bfrees B' = bfrees B - {p..<p + 2 ^ k} \<and> bd_inv t B' \<and> flags_ok t B' {}"
    using k(2) by (simp only: if_False)
  then obtain p t B' where t: "buddy_system_alloc_pages 1 s = Some (Some p, t)" "{p..<p + 2 ^ k} \<subseteq> bfrees B"
    "bfrees B' = bfrees B - {p..<p + 2 ^ k}" "bd_inv t B'" by blast
  have "{p..<p + 2 ^ k} = {p}" using \<open>k = 0\<close> by auto
  then have "p < 2" "bfrees B' = {0, 1} - {p}" using t(2,3) s(4) by auto
  then show ?thesis using s(1) t(1,4) by blast
qed



text \<open>C40: a merge leaves \<open>PG_property\<close> set on the upper half it was started from: when the merged block is handed out as one
  and given back, the release of it panics.\<close>

theorem buddy_merge_release_panics:
  assumes "bd_inv s B" "flags_ok s B {}" "k < 10" "{b..<b + 2 ^ k} \<inter> bfrees B = {}"
    and "b + 2 ^ k + nbase \<le> pm_npage (bd_mem s)" "\<forall>p\<in>{b..<b + 2 ^ k}. \<not> PageReserved (bpages s) p"
    and "c + 2 ^ k = b" "odd (b div 2 ^ k)" "c \<in> set (B k)" "partner (k + 1) c \<notin> set (B (k + 1))"
  shows "\<exists>t u. buddy_system_free_pages b (2 ^ k) s = Some t \<and> buddy_system_alloc_pages (2 ^ (k + 1)) t = Some (Some c, u)
    \<and> buddy_system_free_pages c (2 ^ (k + 1)) u = None"
proof -
  have k10: "k \<le> 10" using assms(3) by simp
  obtain u where u: "buddy_system_free_pages b (2 ^ k) s = merge_page k b (release_start k b u s)" "loose (release_start k b u s) B k b"
    using buddy_free_start [OF assms(1,2) k10 assms(4-6)] by blast
  have c: "partner k b = c" "c < b" using assms(7,8) by (auto simp: partner_def)
  have p: "PageProperty (bpages (release_start k b u s)) b" by (simp add: release_start_def)
  obtain t B' vs where t: "merge_page k b (release_start k b u s) = Some t" "bd_inv t B'" "B' (k + 1) = c # vs" "PageProperty (bpages t) b"
    using stale_flag [OF u(2) assms(3) _ _ _ p] c assms(9,10) by auto
  have k1: "k + 1 < MAX_ORDER" using assms(3) by (simp add: MAX_ORDER_def)
  note h = take_head_ok(1) [OF t(2) k1 t(3)]
  let ?u = "upd_bpages (ClearPageProperty c) (upd_nr (k + 1) (\<lambda>k. k - 1) (upd_blinks (list_del (BuddyLink c)) t))"
  have le: "(2 :: nat) ^ (k + 1) \<le> 2 ^ 10" using assms(3) by (intro power_increasing) auto
  have "order_fit (2 ^ (k + 1)) 0 = k + 1"
  proof -
    have o: "(2 :: nat) ^ (k + 1) \<le> 2 ^ order_fit (2 ^ (k + 1)) 0" "\<forall>i < order_fit (2 ^ (k + 1)) 0. (2 :: nat) ^ i < 2 ^ (k + 1)"
      using order_fit_ok [OF le, of 0] by auto
    then have "k + 1 \<le> order_fit (2 ^ (k + 1)) 0" by (simp only: power_increasing_iff one_less_numeral_iff semiring_norm(76))
    moreover have "order_fit (2 ^ (k + 1)) 0 \<le> k + 1" using o(2) not_less by blast
    ultimately show ?thesis by (rule antisym [rotated])
  qed
  moreover have "\<not> list_is_empty (k + 1) t" using list_is_empty_iff [OF t(2) k1] t(3) by simp
  then have "find_order_list (k + 1) t = k + 1" by (subst find_order_list.simps) simp
  ultimately have a: "buddy_system_alloc_pages (2 ^ (k + 1)) t = Some (Some c, ?u)"
    using k1 le h unfolding buddy_system_alloc_pages_def by (simp add: MAX_ORDER_def Let_def)
  have "PageProperty (bpages ?u) b" using t(4) c(2) by simp
  moreover have "b \<in> {c..<c + 2 ^ (k + 1)}" using assms(7) by auto
  ultimately have "reset_pages c (2 ^ (k + 1)) (bpages ?u) = None" using reset_pages_panics by blast
  then have "buddy_system_free_pages c (2 ^ (k + 1)) ?u = None" unfolding buddy_system_free_pages_def by (simp add: kassert_def)
  then show ?thesis using a t(1) u(1) by auto
qed

theorem buddy_merge_release_panics_witness:
  "\<exists>s t u. buddy_system_init_memmap 0 1 (example_pair 1) = Some s \<and> buddy_system_free_pages 1 1 s = Some t
     \<and> buddy_system_alloc_pages 2 t = Some (Some 0, u) \<and> buddy_system_free_pages 0 2 u = None"
proof -
  obtain s B where s: "buddy_system_init_memmap 0 1 (example_pair 1) = Some s" "bd_inv s B" "flags_ok s B {}" "bfrees B = {0..<1}"
    "pm_npage (bd_mem s) = nbase + 1024" "\<forall>q. \<not> PageReserved (bpages s) q"
    using example_pair_ok [of 1] by auto
  obtain i p where p: "p \<in> set (B i)" "0 \<in> {p..<p + 2 ^ i}" using bfrees_member [of 0 B] s(4) by auto
  then have "{p..<p + 2 ^ i} \<subseteq> {0..<1}" using bfrees_head [of p B i] s(4) by simp
  moreover have p0: "p = 0" using p(2) by simp
  ultimately have "\<not> 1 < (2 :: nat) ^ i" by (auto simp: subset_iff)
  then have "i = 0" using one_less_power [of "2 :: nat" i] by (cases "i = 0") auto
  then have z: "0 \<in> set (B 0)" using p(1) p0 by simp
  have "2 \<notin> bfrees B" using s(4) by simp
  then have q: "2 \<notin> set (B 1)" using head_free [of 2 B 1] by blast
  have "\<exists>t u. buddy_system_free_pages 1 (2 ^ 0) s = Some t \<and> buddy_system_alloc_pages (2 ^ (0 + 1)) t = Some (Some 0, u)
    \<and> buddy_system_free_pages 0 (2 ^ (0 + 1)) u = None"
    by (rule buddy_merge_release_panics [OF s(2,3)]) (use s z q in \<open>auto simp: nbase_def partner_def numeral_2_eq_2\<close>)
  then show ?thesis using s(1) by auto
qed

end
