(* ===== verification/Slob.thy ===== *)
theory Slob
  imports Paging_Model
begin

unbundle bit_operations_syntax

text \<open>
  The small-object allocator \<open>kern/mm/kmalloc.c\<close>.  A pointer is a byte address; the header of a block
  (\<open>slob_t\<close>: a number of 16-byte units and the next free block) is two functions on addresses, so is a
  \<open>bigblock_t\<close>.  The header of a block that holds a \<open>bigblock_t\<close> is overwritten by it in the code; \<open>kfree\<close> sets the number
  of units anew before the block is read again.  Interrupts are off where the code takes its locks, so every
  operation is one step.
\<close>

section \<open>State\<close>

record slob =
  arena :: nat
  sl_units :: "nat \<Rightarrow> int"
  sl_next :: "nat \<Rightarrow> nat"
  slobfree :: nat
  bb_order :: "nat \<Rightarrow> nat"
  bb_pages :: "nat \<Rightarrow> nat"
  bb_next :: "nat \<Rightarrow> nat option"
  bigblocks :: "nat option"
  sl_mem :: pmem

definition PAGE_SIZE :: nat where "PAGE_SIZE = 4096"
definition SLOB_UNIT :: nat where "SLOB_UNIT = 16"
definition SLOB_UNITS :: "nat \<Rightarrow> nat" where "SLOB_UNITS sz = (sz + SLOB_UNIT - 1) div SLOB_UNIT"
definition sizeof_bigblock :: nat where "sizeof_bigblock = 24"

text \<open>The complement of \<open>a - 1\<close> in 64 bits.\<close>

definition ALIGN :: "nat \<Rightarrow> nat \<Rightarrow> nat" where
  "ALIGN addr a = (addr + a - 1) AND (18446744073709551616 - a)"

definition set_units :: "nat \<Rightarrow> int \<Rightarrow> slob \<Rightarrow> slob" where "set_units b u s = s\<lparr>sl_units := (sl_units s)(b := u)\<rparr>"
definition set_next :: "nat \<Rightarrow> nat \<Rightarrow> slob \<Rightarrow> slob" where "set_next b n s = s\<lparr>sl_next := (sl_next s)(b := n)\<rparr>"

text \<open>\<open>b + b->units\<close> in pointer arithmetic.\<close>

definition block_end :: "nat \<Rightarrow> slob \<Rightarrow> nat" where
  "block_end b s = nat (int b + sl_units s b * int SLOB_UNIT)"

definition slob_boot :: "nat \<Rightarrow> pmem \<Rightarrow> slob" where
  "slob_boot a m = \<lparr>arena = a, sl_units = (\<lambda>_. 0)(a := 1), sl_next = (\<lambda>_. 0)(a := a), slobfree = a,
     bb_order = (\<lambda>_. 0), bb_pages = (\<lambda>_. 0), bb_next = (\<lambda>_. None), bigblocks = None, sl_mem = m\<rparr>"

section \<open>Pages\<close>

definition slob_get_free_pages :: "nat \<Rightarrow> slob \<Rightarrow> (nat option \<times> slob) option" where
  "slob_get_free_pages order s = do {
     (page, m) \<leftarrow> alloc_pages (2 ^ order) (sl_mem s);
     let s1 = s\<lparr>sl_mem := m\<rparr>;
     case page of
       None \<Rightarrow> Some (None, s1)
     | Some g \<Rightarrow> do { f \<leftarrow> page2kva m g; Some (Some (kva_of f), s1) }
   }"

definition slob_free_pages :: "nat \<Rightarrow> nat \<Rightarrow> slob \<Rightarrow> slob option" where
  "slob_free_pages kva order s = do {
     page \<leftarrow> kva2page (sl_mem s) (of_nat kva);
     m \<leftarrow> free_pages page (2 ^ order) (sl_mem s);
     Some (s\<lparr>sl_mem := m\<rparr>)
   }"

section \<open>Blocks\<close>

text \<open>The search for the free block behind which \<open>b\<close> belongs.\<close>

partial_function (option) place_loop :: "nat \<Rightarrow> nat \<Rightarrow> slob \<Rightarrow> nat option" where
  "place_loop b cur s =
     (if cur < b \<and> b < sl_next s cur then Some cur
      else if sl_next s cur \<le> cur \<and> (cur < b \<or> b < sl_next s cur) then Some cur
      else place_loop b (sl_next s cur) s)"

text \<open>Linking \<open>b\<close> behind \<open>cur\<close>, with the two merges.\<close>

definition join_block :: "nat \<Rightarrow> nat \<Rightarrow> slob \<Rightarrow> slob" where
  "join_block b cur s =
     (let s1 = (if block_end b s = sl_next s cur
                then set_next b (sl_next s (sl_next s cur)) (set_units b (sl_units s b + sl_units s (sl_next s cur)) s)
                else set_next b (sl_next s cur) s);
          s2 = (if block_end cur s1 = b
                then set_next cur (sl_next s1 b) (set_units cur (sl_units s1 cur + sl_units s1 b) s1)
                else set_next cur b s1)
      in s2\<lparr>slobfree := cur\<rparr>)"

definition slob_free :: "nat \<Rightarrow> nat \<Rightarrow> slob \<Rightarrow> slob option" where
  "slob_free block sz s =
     (if block = 0 then Some s
      else do {
        let s1 = (if sz \<noteq> 0 then set_units block (int (SLOB_UNITS sz)) s else s);
        cur \<leftarrow> place_loop block (slobfree s1) s1;
        Some (join_block block cur s1)
      })"

text \<open>Taking \<open>units\<close> units from the free block \<open>cur\<close>, whose predecessor is \<open>prev\<close>.\<close>

definition take_block :: "int \<Rightarrow> nat \<Rightarrow> nat \<Rightarrow> slob \<Rightarrow> slob" where
  "take_block units prev cur s =
     (let s3 = (if sl_units s cur = units then set_next prev (sl_next s cur) s
        else let s1 = set_next prev (nat (int cur + units * int SLOB_UNIT)) s;
                 s2 = set_units (sl_next s1 prev) (sl_units s1 cur - units) s1
             in set_units cur units (set_next (sl_next s2 prev) (sl_next s2 cur) s2))
      in s3\<lparr>slobfree := prev\<rparr>)"

definition split_head :: "nat \<Rightarrow> nat \<Rightarrow> int \<Rightarrow> slob \<Rightarrow> slob" where
  "split_head cur aligned delta s =
     (let s1 = set_units aligned (sl_units s cur - delta) s;
          s2 = set_next aligned (sl_next s1 cur) s1;
          s3 = set_next cur aligned s2
      in set_units cur delta s3)"

partial_function (option) alloc_loop ::
  "nat \<Rightarrow> nat \<Rightarrow> int \<Rightarrow> nat \<Rightarrow> nat \<Rightarrow> slob \<Rightarrow> (nat option \<times> slob) option" where
  "alloc_loop sz align units prev cur s =
     (let aligned = (if align \<noteq> 0 then ALIGN cur align else 0);
          delta = (if align \<noteq> 0 then (int aligned - int cur) div int SLOB_UNIT else 0)
      in if units + delta \<le> sl_units s cur
         then (if delta \<noteq> 0 then Some (Some aligned, take_block units cur aligned (split_head cur aligned delta s))
               else Some (Some cur, take_block units prev cur s))
         else if cur = slobfree s
         then (if sz = PAGE_SIZE then Some (None, s)
               else do {
                 (page, s1) \<leftarrow> slob_get_free_pages 0 s;
                 case page of
                   None \<Rightarrow> Some (None, s1)
                 | Some c \<Rightarrow> do {
                     s2 \<leftarrow> slob_free c PAGE_SIZE s1;
                     alloc_loop sz align units (slobfree s2) (sl_next s2 (slobfree s2)) s2
                   }
               })
         else alloc_loop sz align units cur (sl_next s cur) s)"

definition slob_alloc :: "nat \<Rightarrow> nat \<Rightarrow> slob \<Rightarrow> (nat option \<times> slob) option" where
  "slob_alloc sz align s = do {
     kassert (sz + SLOB_UNIT < PAGE_SIZE);
     alloc_loop sz align (int (SLOB_UNITS sz)) (slobfree s) (sl_next s (slobfree s)) s
   }"

section \<open>kmalloc, kfree, ksize\<close>

function find_order :: "int \<Rightarrow> nat" where
  "find_order sz = (if 4096 < sz then find_order (sz div 2) + 1 else 0)"
  by auto
termination by (relation "measure nat") auto

text \<open>The \<open>int\<close> that a \<open>size_t\<close> becomes as an argument of \<open>find_order\<close>.\<close>

definition c_int :: "nat \<Rightarrow> int" where "c_int n = sint (of_nat n :: 32 word)"

definition kmalloc :: "nat \<Rightarrow> slob \<Rightarrow> (nat option \<times> slob) option" where
  "kmalloc sz s =
     (if sz < PAGE_SIZE - SLOB_UNIT
      then do {
        (m, s1) \<leftarrow> slob_alloc (sz + SLOB_UNIT) 0 s;
        Some (map_option (\<lambda>b. b + SLOB_UNIT) m, s1)
      }
      else do {
        (r, s1) \<leftarrow> slob_alloc sizeof_bigblock 0 s;
        case r of
          None \<Rightarrow> Some (None, s1)
        | Some bb \<Rightarrow> do {
            let order = find_order (c_int sz);
            let s2 = s1\<lparr>bb_order := (bb_order s1)(bb := order)\<rparr>;
            (pages, s3) \<leftarrow> slob_get_free_pages order s2;
            case pages of
              Some p \<Rightarrow>
                let s4 = s3\<lparr>bb_pages := (bb_pages s3)(bb := p)\<rparr>
                in Some (Some p, s4\<lparr>bb_next := (bb_next s4)(bb := bigblocks s4), bigblocks := Some bb\<rparr>)
            | None \<Rightarrow> do { s4 \<leftarrow> slob_free bb sizeof_bigblock s3; Some (None, s4) }
          }
      })"

text \<open>The entry of the list whose pages are \<open>block\<close>, with its predecessor.\<close>

partial_function (option) big_loop :: "nat \<Rightarrow> nat option \<Rightarrow> nat option \<Rightarrow> slob \<Rightarrow> (nat option \<times> nat option) option" where
  "big_loop block prev cur s =
     (case cur of
        None \<Rightarrow> Some (prev, None)
      | Some bb \<Rightarrow> if bb_pages s bb = block then Some (prev, Some bb) else big_loop block (Some bb) (bb_next s bb) s)"

definition big_find :: "nat \<Rightarrow> slob \<Rightarrow> (nat option \<times> nat option) option" where
  "big_find block s =
     (if block mod PAGE_SIZE = 0 then big_loop block None (bigblocks s) s else Some (None, None))"

definition kfree :: "nat \<Rightarrow> slob \<Rightarrow> slob option" where
  "kfree block s =
     (if block = 0 then Some s
      else do {
        (prev, r) \<leftarrow> big_find block s;
        case r of
          Some bb \<Rightarrow> do {
            let s1 = (case prev of
                None \<Rightarrow> s\<lparr>bigblocks := bb_next s bb\<rparr>
              | Some q \<Rightarrow> s\<lparr>bb_next := (bb_next s)(q := bb_next s bb)\<rparr>);
            s2 \<leftarrow> slob_free_pages block (bb_order s1 bb) s1;
            slob_free bb sizeof_bigblock s2
          }
        | None \<Rightarrow> slob_free (block - SLOB_UNIT) 0 s
      })"

definition ksize :: "nat \<Rightarrow> slob \<Rightarrow> nat option" where
  "ksize block s =
     (if block = 0 then Some 0
      else do {
        (prev, r) \<leftarrow> big_find block s;
        Some (case r of
            Some bb \<Rightarrow> PAGE_SIZE * 2 ^ bb_order s bb
          | None \<Rightarrow> nat (sl_units s (block - SLOB_UNIT) * int SLOB_UNIT))
      })"

definition kallocated :: nat where "kallocated = 0"

end
