(* ===== verification/Slob_Inv.thy ===== *)
theory Slob_Inv
  imports Slob
begin

text \<open>
  The free list of the small-object allocator: a ring in address order that starts at the arena.  The search for the
  place of a block, linking it with both merges, and taking a block from the ring are shown to keep the ring and to
  change the set of free bytes by exactly the block.
\<close>

section \<open>The ring\<close>

primrec spath :: "(nat \<Rightarrow> nat) \<Rightarrow> nat \<Rightarrow> nat list \<Rightarrow> nat \<Rightarrow> bool" where
  "spath nx a [] b \<longleftrightarrow> nx a = b"
| "spath nx a (x # xs) b \<longleftrightarrow> nx a = x \<and> spath nx x xs b"

lemma spath_append [simp]: "spath nx a (xs @ y # ys) b \<longleftrightarrow> spath nx a xs y \<and> spath nx y ys b"
  by (induction xs arbitrary: a) auto

lemma spath_map: "spath nx a xs b \<longleftrightarrow> map nx (a # xs) = xs @ [b]"
  by (induction xs arbitrary: a) auto

lemma spath_cong: "(\<And>x. x \<in> set (a # xs) \<Longrightarrow> nx' x = nx x) \<Longrightarrow> spath nx' a xs b = spath nx a xs b"
  by (induction xs arbitrary: a) auto

lemma spath_upd_other: "x \<notin> set (a # xs) \<Longrightarrow> spath (nx(x := y)) a xs b = spath nx a xs b"
  by (rule spath_cong) auto

lemma ring_inj: "spath nx a xs a \<Longrightarrow> distinct (a # xs) \<Longrightarrow> inj_on nx (set (a # xs))"
  unfolding spath_map using distinct_map [of nx "a # xs"] by auto

lemma ring_from:
  assumes "spath nx a xs a" "a # xs = us @ f # vs"
  shows "spath nx f (vs @ us) f"
  using assms by (cases us) (auto simp: append_eq_Cons_conv)

section \<open>Blocks in order\<close>

definition bend :: "(nat \<Rightarrow> int) \<Rightarrow> nat \<Rightarrow> nat" where "bend un b = b + 16 * nat (un b)"

definition span :: "(nat \<Rightarrow> int) \<Rightarrow> nat \<Rightarrow> nat set" where "span un b = {b..<bend un b}"

definition ordered :: "(nat \<Rightarrow> int) \<Rightarrow> nat list \<Rightarrow> bool" where
  "ordered un bs \<longleftrightarrow> sorted_wrt (\<lambda>a b. bend un a < b) bs \<and> (\<forall>b\<in>set bs. 1 \<le> un b)"

definition free_bytes :: "(nat \<Rightarrow> int) \<Rightarrow> nat list \<Rightarrow> nat set" where "free_bytes un bs = (\<Union>b\<in>set bs. span un b)"

text \<open>The free list of \<open>s\<close> is the arena and then \<open>bs\<close>.\<close>

definition heap_ok :: "slob \<Rightarrow> nat list \<Rightarrow> bool" where
  "heap_ok s bs \<longleftrightarrow> ordered (sl_units s) (arena s # bs) \<and> sl_units s (arena s) = 1
     \<and> spath (sl_next s) (arena s) bs (arena s) \<and> slobfree s \<in> set (arena s # bs)"

lemma bend_mono: "1 \<le> un b \<Longrightarrow> b < bend un b" by (simp add: bend_def)

lemma ordered_Cons: "ordered un (b # bs) \<longleftrightarrow> 1 \<le> un b \<and> (\<forall>c\<in>set bs. bend un b < c) \<and> ordered un bs"
  by (auto simp: ordered_def)

lemma ordered_append: "ordered un (xs @ ys) \<longleftrightarrow> ordered un xs \<and> ordered un ys \<and> (\<forall>x\<in>set xs. \<forall>y\<in>set ys. bend un x < y)"
  by (auto simp: ordered_def sorted_wrt_append)

lemma ordered_Nil [simp]: "ordered un []" by (simp add: ordered_def)

lemma ordered_cong: "(\<And>b. b \<in> set bs \<Longrightarrow> un' b = un b) \<Longrightarrow> ordered un' bs = ordered un bs"
  by (induction bs) (auto simp: ordered_Cons bend_def)

lemma ordered_less: "ordered un bs \<Longrightarrow> sorted_wrt (<) bs"
  unfolding ordered_def by (induction bs) (auto dest: less_trans simp: bend_def)

lemma ordered_distinct: "ordered un bs \<Longrightarrow> distinct bs"
  using ordered_less strict_sorted_iff by blast

lemma free_bytes_simps [simp]:
  "free_bytes un [] = {}" "free_bytes un (b # bs) = span un b \<union> free_bytes un bs"
  "free_bytes un (xs @ ys) = free_bytes un xs \<union> free_bytes un ys"
  by (auto simp: free_bytes_def)

lemma free_bytes_cong: "(\<And>b. b \<in> set bs \<Longrightarrow> un' b = un b) \<Longrightarrow> free_bytes un' bs = free_bytes un bs"
  by (auto simp: free_bytes_def span_def bend_def)

lemma ordered_upd [simp]: "b \<notin> set bs \<Longrightarrow> ordered (un(b := k)) bs = ordered un bs"
  by (rule ordered_cong) auto

lemma free_bytes_upd [simp]: "b \<notin> set bs \<Longrightarrow> free_bytes (un(b := k)) bs = free_bytes un bs"
  by (rule free_bytes_cong) auto

lemma span_eq: "span un b = {b..<b + 16 * nat (un b)}" by (simp add: span_def bend_def)

lemma span_self: "1 \<le> un b \<Longrightarrow> b \<in> span un b" by (simp add: span_eq)

section \<open>Finding the place\<close>

lemma place_here:
  assumes "c < b" "b < sl_next s c \<or> sl_next s c \<le> c"
  shows "place_loop b c s = Some c"
  using assms by (subst place_loop.simps) auto

lemma place_forward:
  assumes "spath (sl_next s) d ds c" "sorted_wrt (<) (d # ds @ [c])" "c < b"
  shows "place_loop b d s = place_loop b c s"
  using assms
proof (induction ds arbitrary: d)
  case Nil
  then show ?case by (subst place_loop.simps) auto
next
  case (Cons x xs)
  then have "place_loop b x s = place_loop b c s" "sl_next s d = x" "d < x" "x < c" by auto
  then show ?case using Cons.prems(3) by (subst place_loop.simps) auto
qed

lemma place_wrap:
  assumes "spath (sl_next s) d ds a" "sorted_wrt (<) (d # ds)" "b < d" "a < b"
  shows "place_loop b d s = place_loop b a s"
  using assms
proof (induction ds arbitrary: d)
  case Nil
  then show ?case by (subst place_loop.simps) auto
next
  case (Cons x xs)
  then have "place_loop b x s = place_loop b a s" "sl_next s d = x" "d < x" by auto
  then show ?case using Cons.prems(3) by (subst place_loop.simps) auto
qed

lemma place_ok:
  assumes "heap_ok s bs" "arena s # bs = us @ c # vs" "c < b" "\<forall>v\<in>set vs. b < v" "arena s < b"
  shows "place_loop b (slobfree s) s = Some c"
proof -
  have p: "spath (sl_next s) (arena s) bs (arena s)" and o: "sorted_wrt (<) (us @ c # vs)"
    using assms(1) ordered_less unfolding heap_ok_def assms(2) by auto
  have q: "spath (sl_next s) c (vs @ us) c" by (rule ring_from [OF p assms(2)])
  have here: "place_loop b c s = Some c"
  proof (rule place_here [OF assms(3)])
    show "b < sl_next s c \<or> sl_next s c \<le> c"
      using q o assms(4) by (cases vs; cases us) auto
  qed
  have before: "place_loop b d s = Some c" if d: "d \<in> set us" for d
  proof -
    obtain xs ys where u: "us = xs @ d # ys" using d by (meson split_list)
    then have "spath (sl_next s) d ys c" using q spath_append [of "sl_next s" c "vs @ xs" d ys c] by simp
    then show ?thesis using place_forward [of s d ys c b] o u here assms(3) by (simp add: sorted_wrt_append)
  qed
  have first: "place_loop b (arena s) s = Some c"
    using before here assms(2) by (cases us) auto
  have after: "place_loop b d s = Some c" if d: "d \<in> set vs" for d
  proof -
    obtain xs ys where v: "vs = xs @ d # ys" using d by (meson split_list)
    have "spath (sl_next s) d ys (arena s)"
    proof (cases us)
      case Nil
      then show ?thesis using q v assms(2) by simp
    next
      case (Cons u us')
      then show ?thesis using q v assms(2) by simp
    qed
    then show ?thesis
      using place_wrap [of s d ys "arena s" b] o v assms(4,5) first by (simp add: sorted_wrt_append)
  qed
  have "slobfree s \<in> set us \<union> {c} \<union> set vs"
    using assms(1) unfolding heap_ok_def assms(2) by simp
  then show ?thesis using before here after by auto
qed


section \<open>Linking a block\<close>

definition rpre :: "(nat \<Rightarrow> nat) \<Rightarrow> nat \<Rightarrow> nat list \<Rightarrow> nat \<Rightarrow> bool" where
  "rpre nx a us c \<longleftrightarrow> (case us of [] \<Rightarrow> c = a | u # us' \<Rightarrow> u = a \<and> spath nx a us' c)"

lemma ring_parts: "spath nx a bs a \<Longrightarrow> a # bs = us @ c # vs \<Longrightarrow> rpre nx a us c \<and> spath nx c vs a"
  by (cases us) (auto simp: rpre_def)

lemma ring_glue: "rpre nx a us c \<Longrightarrow> spath nx c vs a \<Longrightarrow> \<exists>bs. a # bs = us @ c # vs \<and> spath nx a bs a"
  by (cases us) (auto simp: rpre_def)

lemma rpre_upd: "x \<notin> set us \<Longrightarrow> rpre (nx(x := y)) a us c = rpre nx a us c"
  by (cases us) (auto simp: rpre_def spath_upd_other simp del: fun_upd_apply)

lemma block_end_eq: "0 \<le> sl_units s b \<Longrightarrow> block_end b s = bend (sl_units s) b"
  by (simp add: block_end_def bend_def SLOB_UNIT_def nat_add_distrib nat_mult_distrib)

lemma slob_simps [simp]:
  "sl_units (set_units b u s) = (sl_units s)(b := u)" "sl_next (set_units b u s) = sl_next s"
  "sl_units (set_next b n s) = sl_units s" "sl_next (set_next b n s) = (sl_next s)(b := n)"
  "arena (set_units b u s) = arena s" "arena (set_next b n s) = arena s"
  "slobfree (set_units b u s) = slobfree s" "slobfree (set_next b n s) = slobfree s"
  by (simp_all add: set_units_def set_next_def)

text \<open>Everything but the free list is as it was.\<close>

definition same_rest :: "slob \<Rightarrow> slob \<Rightarrow> bool" where
  "same_rest s t \<longleftrightarrow> arena t = arena s \<and> bb_order t = bb_order s \<and> bb_pages t = bb_pages s \<and> bb_next t = bb_next s
     \<and> bigblocks t = bigblocks s \<and> sl_mem t = sl_mem s"

lemma same_rest_simps [simp]:
  "same_rest s s" "same_rest s (set_units b u t) = same_rest s t" "same_rest s (set_next b n t) = same_rest s t"
  "same_rest s (t\<lparr>slobfree := c\<rparr>) = same_rest s t"
  by (auto simp: same_rest_def set_units_def set_next_def)

lemma join_rest: "same_rest s (join_block b c s)"
  by (simp add: join_block_def Let_def)

lemma span_join: "1 \<le> un c \<Longrightarrow> 1 \<le> k \<Longrightarrow> bend un c = b \<Longrightarrow> un' c = un c + k
  \<Longrightarrow> span un' c = span un c \<union> {b..<b + 16 * nat k} \<and> bend un' c = b + 16 * nat k"
  by (auto simp: span_eq bend_def nat_add_distrib)

text \<open>The first half of \<open>join_block\<close>: the block absorbs its successor when they touch.\<close>

lemma join_next:
  assumes "spath (sl_next s) c vs a" "ordered (sl_units s) vs" "\<forall>v\<in>set vs. bend (sl_units s) b \<le> v" "1 \<le> sl_units s b"
    and "a < b" "b \<noteq> c" "c < b"
    and s1: "s1 = (if block_end b s = sl_next s c
                then set_next b (sl_next s (sl_next s c)) (set_units b (sl_units s b + sl_units s (sl_next s c)) s)
                else set_next b (sl_next s c) s)"
  shows "\<exists>cs k n. sl_next s1 = (sl_next s)(b := n) \<and> sl_units s1 = (sl_units s)(b := k) \<and> sl_units s b \<le> k \<and> set cs \<subseteq> set vs
    \<and> spath (sl_next s1) b cs a \<and> ordered (sl_units s1) (b # cs)
    \<and> span (sl_units s1) b \<union> free_bytes (sl_units s) cs = span (sl_units s) b \<union> free_bytes (sl_units s) vs"
proof -
  let ?u = "sl_units s" and ?n = "sl_next s"
  have e: "block_end b s = bend ?u b" using assms(4) by (intro block_end_eq) simp
  have lb: "b < bend ?u b" using assms(4) by (rule bend_mono)
  have bvs: "b \<notin> set vs" using assms(3) lb by auto
  have ov: "ordered (?u(b := k)) vs" "free_bytes (?u(b := k)) vs = free_bytes ?u vs" for k
    using assms(2) bvs by simp_all
  show ?thesis
  proof (cases "bend ?u b = ?n c")
    case True
    have "\<exists>v vs'. vs = v # vs'" using True assms(1,5) lb by (cases vs) auto
    then obtain v vs' where v: "vs = v # vs'" by blast
    let ?k = "?u b + ?u v"
    have nv: "?n c = v" "bend ?u b = v" "1 \<le> ?u v" "b \<noteq> v" using True assms(1,2) v bvs by (auto simp: ordered_Cons)
    have sp: "span (?u(b := ?k)) b = span ?u b \<union> span ?u v \<and> bend (?u(b := ?k)) b = bend ?u v"
      using span_join [OF assms(4) nv(3,2), of "?u(b := ?k)"] unfolding span_def bend_def fun_upd_same by blast
    have "s1 = set_next b (?n v) (set_units b ?k s)" using s1 e True nv by simp
    moreover have "spath (?n(b := ?n v)) b vs' a" using assms(1) v bvs by (cases vs') (auto simp: spath_upd_other)
    moreover have "ordered (?u(b := ?k)) (b # vs')"
      using ov(1) [of ?k] assms(2,4) v nv sp by (simp add: ordered_Cons bend_def)
    ultimately show ?thesis
      using sp v nv by (intro exI [of _ vs'] exI [of _ ?k] exI [of _ "?n v"]) auto
  next
    case False
    have s1: "s1 = set_next b (?n c) s" using s1 e False by simp
    have "spath (?n(b := ?n c)) b vs a" using assms(1) bvs by (cases vs) (auto simp: spath_upd_other)
    moreover have "ordered ?u (b # vs)"
    proof (cases vs)
      case (Cons v vs')
      then have "bend ?u b < v" using assms(1,3) False by auto
      moreover have "v < x" if "x \<in> set vs'" for x
        using assms(2) Cons that bend_mono [of ?u v] by (auto simp: ordered_Cons intro: less_trans)
      ultimately show ?thesis using assms(2,4) Cons less_trans by (fastforce simp: ordered_Cons)
    qed (use assms(4) in \<open>simp add: ordered_Cons\<close>)
    ultimately show ?thesis
      using s1 by (intro exI [of _ vs] exI [of _ "?u b"] exI [of _ "?n c"]) auto
  qed
qed

lemma join_ok:
  assumes "heap_ok s bs" "arena s # bs = us @ c # vs" "bend (sl_units s) c \<le> b" "\<forall>v\<in>set vs. bend (sl_units s) b \<le> v"
    and "1 \<le> sl_units s b" "bend (sl_units s) (arena s) < b"
  shows "\<exists>bs'. heap_ok (join_block b c s) bs' \<and> (\<exists>x\<in>set bs'. sl_units s b \<le> sl_units (join_block b c s) x)
    \<and> free_bytes (sl_units (join_block b c s)) (arena s # bs') = free_bytes (sl_units s) (arena s # bs) \<union> span (sl_units s) b"
proof -
  let ?u = "sl_units s" and ?n = "sl_next s"
  have h: "ordered ?u (us @ c # vs)" "?u (arena s) = 1" "spath ?n (arena s) bs (arena s)"
    using assms(1,2) by (auto simp: heap_ok_def)
  have r: "rpre ?n (arena s) us c" "spath ?n c vs (arena s)" using ring_parts [OF h(3) assms(2)] by auto
  have o: "ordered ?u us" "1 \<le> ?u c" "ordered ?u vs" "\<forall>x\<in>set us. bend ?u x < c" "\<forall>v\<in>set vs. bend ?u c < v"
    using h(1) by (auto simp: ordered_append ordered_Cons)
  have cb: "c < b" using bend_mono [of ?u c, OF o(2)] assms(3) by simp
  have ub: "\<forall>x\<in>set us. bend ?u x < b" using o(4) cb by auto
  have bu: "b \<notin> set us"
    using ub bend_mono [of ?u] o(1) unfolding ordered_def by (metis less_asym)
  have ab: "arena s < b" using assms(6) bend_mono [of ?u "arena s"] h(2) by simp
  define s1 where "s1 = (if block_end b s = ?n c
                then set_next b (?n (?n c)) (set_units b (?u b + ?u (?n c)) s) else set_next b (?n c) s)"
  obtain cs k n where s1: "sl_next s1 = ?n(b := n)" "sl_units s1 = ?u(b := k)" "?u b \<le> k" "set cs \<subseteq> set vs"
    "spath (sl_next s1) b cs (arena s)" "ordered (sl_units s1) (b # cs)"
    "span (sl_units s1) b \<union> free_bytes ?u cs = span ?u b \<union> free_bytes ?u vs"
    using join_next [OF r(2) o(3) assms(4,5) ab _ cb s1_def] cb by auto
  have bcs: "b \<notin> set cs" using ordered_distinct [OF s1(6)] by simp
  have ar1: "arena s1 = arena s" by (simp add: s1_def)
  have u1: "ordered (?u(b := k)) us" "free_bytes (?u(b := k)) us = free_bytes ?u us" "\<forall>x\<in>set us. bend (?u(b := k)) x = bend ?u x"
    using bu o(1) by (simp_all, auto simp: bend_def)
  have fcs: "free_bytes (?u(b := k)) cs = free_bytes ?u cs"
    using bcs by (intro free_bytes_cong) auto
  have jb: "join_block b c s = (if bend ?u c = b then set_next c (sl_next s1 b) (set_units c (?u c + k) s1) else set_next c b s1)\<lparr>slobfree := c\<rparr>"
    using cb o(2) block_end_eq [of s1 c] s1(1,2) unfolding join_block_def Let_def s1_def [symmetric] by (simp add: bend_def)
  have ccs: "c \<notin> set cs" using s1(4) o(5) bend_mono [of ?u c, OF o(2)] by (meson less_asym' subsetD)
  show ?thesis
  proof (cases "bend ?u c = b")
    case True
    let ?u2 = "?u(b := k, c := ?u c + k)" and ?n2 = "(sl_next s1)(c := sl_next s1 b)"
    have ca: "c \<noteq> arena s" using True assms(6) by auto
    have sp: "span ?u2 c = span ?u c \<union> {b..<b + 16 * nat k} \<and> bend ?u2 c = b + 16 * nat k"
      using s1(3) assms(5) True o(2) by (intro span_join) auto
    have f: "sl_units (join_block b c s) = ?u2" "sl_next (join_block b c s) = ?n2" "slobfree (join_block b c s) = c"
      "arena (join_block b c s) = arena s" using True s1(1,2) ar1 cb by (simp_all add: jb)
    have cu: "c \<notin> set us" using o(4) bend_mono [of ?u] o(1) unfolding ordered_def by (metis less_irrefl less_trans)
    have "rpre ?n2 (arena s) us c" using r(1) bu cu s1(1) by (simp add: rpre_upd)
    moreover have "spath ?n2 c cs (arena s)"
      using s1(5) ccs bcs by (cases cs) (auto simp: spath_upd_other)
    ultimately obtain bs' where bs': "arena s # bs' = us @ c # cs" "spath ?n2 (arena s) bs' (arena s)"
      using ring_glue by metis
    have kk: "bend (?u(b := k)) b = b + 16 * nat k" by (simp add: bend_def)
    have o2: "ordered ?u2 us" "ordered ?u2 cs" "\<forall>x\<in>set us. bend ?u2 x = bend ?u x"
      "free_bytes ?u2 us = free_bytes ?u us" "free_bytes ?u2 cs = free_bytes ?u cs"
      using u1 s1(2,6) cu ccs fcs
      by (simp_all add: ordered_Cons, auto simp: bend_def)
    have "\<forall>y\<in>set cs. bend ?u2 c < y" using s1(2,6) kk sp by (simp add: ordered_Cons)
    moreover have "\<forall>x\<in>set us. \<forall>y\<in>set cs. bend ?u2 x < y"
      using o2(3) ub s1(6) s1(2) bend_mono [of "?u(b := k)" b] by (fastforce simp: ordered_Cons)
    ultimately have "ordered ?u2 (arena s # bs')"
      using o2 o(2,4) s1(3) assms(5) unfolding bs'(1) by (simp add: ordered_append ordered_Cons)
    then have "heap_ok (join_block b c s) bs'"
      using bs' ca ab h(2) unfolding heap_ok_def f bs'(1) by simp
    moreover have "c \<in> set bs'" using bs'(1) ca by (cases us) auto
    moreover have "free_bytes ?u2 (us @ c # cs) = free_bytes ?u (us @ c # vs) \<union> span ?u b"
      using o2(4,5) sp s1(7) s1(2) kk by (auto simp: span_def)
    ultimately show ?thesis
      using s1(3) o(2) f bs'(1) assms(2) by (intro exI [of _ bs']) auto
  next
    case False
    let ?u2 = "?u(b := k)" and ?n2 = "(sl_next s1)(c := b)"
    have cb': "bend ?u c < b" using False assms(3) by simp
    have f: "sl_units (join_block b c s) = ?u2" "sl_next (join_block b c s) = ?n2" "slobfree (join_block b c s) = c"
      "arena (join_block b c s) = arena s" using False s1(1,2) ar1 by (simp_all add: jb)
    have cu: "c \<notin> set us" using o(4) bend_mono [of ?u] o(1) unfolding ordered_def by (metis less_irrefl less_trans)
    have "rpre ?n2 (arena s) us c" using r(1) bu cu s1(1) by (simp add: rpre_upd)
    moreover have "spath ?n2 c (b # cs) (arena s)"
      using s1(5) ccs cb by (simp add: spath_upd_other)
    ultimately obtain bs' where bs': "arena s # bs' = us @ c # b # cs" "spath ?n2 (arena s) bs' (arena s)"
      using ring_glue by metis
    have c2: "bend ?u2 c = bend ?u c" "span ?u2 c = span ?u c" "?u2 c = ?u c" using cb by (simp_all add: bend_def span_def)
    have "\<forall>y\<in>set cs. bend ?u c < y" using s1(4) o(5) by blast
    moreover have "\<forall>x\<in>set us. \<forall>y\<in>set cs. bend ?u2 x < y"
      using u1(3) ub s1(6) s1(2) bend_mono [of "?u(b := k)" b] by (fastforce simp: ordered_Cons)
    ultimately have "ordered ?u2 (arena s # bs')"
      using u1 o(2,4) ub s1(2,6) cb' c2 unfolding bs'(1) by (simp add: ordered_append ordered_Cons)
    then have "heap_ok (join_block b c s) bs'"
      using bs' ab h(2) unfolding heap_ok_def f bs'(1) by simp
    moreover have "b \<in> set bs'" using bs'(1) ab by (cases us) auto
    moreover have "free_bytes ?u2 (us @ c # b # cs) = free_bytes ?u (us @ c # vs) \<union> span ?u b"
      using u1(2) c2 s1(7) s1(2) fcs by auto
    ultimately show ?thesis
      using s1(3) f bs'(1) assms(2) by (intro exI [of _ bs']) auto
  qed
qed


section \<open>Freeing and taking\<close>

text \<open>Where a block that touches no free byte belongs.\<close>

lemma place_split:
  assumes "ordered un (a # bs)" "{b..<e} \<inter> free_bytes un (a # bs) = {}" "b < e" "a < b"
  shows "\<exists>us c vs. a # bs = us @ c # vs \<and> c < b \<and> bend un c \<le> b \<and> (\<forall>v\<in>set vs. b < v \<and> e \<le> v)"
proof -
  let ?L = "a # bs"
  define us where "us = takeWhile (\<lambda>x. x < b) ?L"
  define vs where "vs = dropWhile (\<lambda>x. x < b) ?L"
  have l: "?L = us @ vs" by (simp add: us_def vs_def)
  have "us \<noteq> []" using assms(4) by (simp add: us_def)
  then obtain us' c where u: "us = us' @ [c]" using rev_exhaust by blast
  have cb: "c < b" using set_takeWhileD [of c "\<lambda>x. x < b" ?L] u unfolding us_def by (metis in_set_conv_decomp)
  have one: "\<forall>x\<in>set ?L. 1 \<le> un x" using assms(1) by (simp add: ordered_def)
  have apart: "x < b \<and> bend un x \<le> b \<or> e \<le> x" if x: "x \<in> set ?L" for x
  proof -
    have "{b..<e} \<inter> span un x = {}" using assms(2) x by (auto simp: free_bytes_def)
    then have "max b x \<notin> {b..<e} \<inter> span un x" by blast
    moreover have "x < bend un x" using one x bend_mono by blast
    ultimately show ?thesis using assms(3) by (auto simp: span_def max_def split: if_splits)
  qed
  have "\<forall>v\<in>set vs. b \<le> v"
  proof (cases vs)
    case (Cons v ws)
    then have "\<not> v < b" using hd_dropWhile [of "\<lambda>x. x < b" ?L] unfolding vs_def by force
    moreover have "sorted_wrt (<) (us @ v # ws)" using ordered_less [OF assms(1)] l Cons by simp
    ultimately show ?thesis using Cons by (auto simp: sorted_wrt_append)
  qed simp
  then have "\<forall>v\<in>set vs. e \<le> v" using apart l by (metis Un_iff leD set_append)
  moreover have "c \<in> set ?L" using l u by simp
  then have "bend un c \<le> b" using apart cb assms(3) by fastforce
  ultimately show ?thesis using l u cb assms(3) by (intro exI [of _ us'] exI [of _ c] exI [of _ vs]) auto
qed

lemma slob_free_ok:
  assumes "heap_ok s bs" "s1 = (if sz \<noteq> 0 then set_units b (int (SLOB_UNITS sz)) s else s)" "sl_units s1 b = int n" "0 < n"
    and "{b..<b + 16 * n} \<inter> free_bytes (sl_units s) (arena s # bs) = {}" "bend (sl_units s) (arena s) < b"
  shows "\<exists>t bs'. slob_free b sz s = Some t \<and> heap_ok t bs' \<and> same_rest s t \<and> (\<exists>x\<in>set bs'. int n \<le> sl_units t x)
    \<and> free_bytes (sl_units t) (arena s # bs') = free_bytes (sl_units s) (arena s # bs) \<union> {b..<b + 16 * n}"
proof -
  have ord: "ordered (sl_units s) (arena s # bs)" and a1: "sl_units s (arena s) = 1" using assms(1) by (auto simp: heap_ok_def)
  have ab: "arena s < b" using assms(6) bend_mono [of "sl_units s" "arena s"] a1 by simp
  obtain us c vs where l: "arena s # bs = us @ c # vs" "c < b" "bend (sl_units s) c \<le> b" "\<forall>v\<in>set vs. b < v \<and> b + 16 * n \<le> v"
    using place_split [OF ord assms(5) _ ab] assms(4) by auto
  have bn: "b \<notin> set (arena s # bs)"
  proof
    assume "b \<in> set (arena s # bs)"
    then have "b \<in> free_bytes (sl_units s) (arena s # bs)"
      using ord span_self unfolding ordered_def free_bytes_def by blast
    moreover have "b \<in> {b..<b + 16 * n}" using assms(4) by simp
    ultimately show False using assms(5) by blast
  qed
  have s1: "sl_next s1 = sl_next s" "arena s1 = arena s" "slobfree s1 = slobfree s" "same_rest s s1"
    "\<exists>k. sl_units s1 = (sl_units s)(b := k)"
    using assms(2) by (auto intro: exI [of _ "sl_units s b"])
  have fb: "free_bytes (sl_units s1) (arena s # bs) = free_bytes (sl_units s) (arena s # bs)"
    using s1(5) bn free_bytes_upd [of b "arena s # bs"] by (auto simp del: free_bytes_simps)
  have ok: "heap_ok s1 bs" using assms(1) s1 bn unfolding heap_ok_def by auto
  have e: "bend (sl_units s1) b = b + 16 * n" "bend (sl_units s1) c = bend (sl_units s) c"
    "bend (sl_units s1) (arena s) = bend (sl_units s) (arena s)"
    using assms(3) s1(5) l(2) ab by (auto simp: bend_def)
  have "place_loop b (slobfree s1) s1 = Some c"
    using place_ok [OF ok, of us c vs b] l ab s1(2) by simp
  then have f: "slob_free b sz s = Some (join_block b c s1)"
    using assms(2) ab by (simp add: slob_free_def Let_def)
  obtain bs' where "heap_ok (join_block b c s1) bs'" "\<exists>x\<in>set bs'. sl_units s1 b \<le> sl_units (join_block b c s1) x"
    "free_bytes (sl_units (join_block b c s1)) (arena s1 # bs') = free_bytes (sl_units s1) (arena s1 # bs) \<union> span (sl_units s1) b"
    using join_ok [OF ok, of us c vs b] l e s1(2) assms(3,4,6) by auto
  moreover have "same_rest s (join_block b c s1)"
    using s1(4) join_rest [of s1 b c] by (auto simp: same_rest_def)
  moreover have "span (sl_units s1) b = {b..<b + 16 * n}" using e by (simp add: span_def)
  ultimately show ?thesis using f assms(3) s1(2) fb by (intro exI [of _ "join_block b c s1"] exI [of _ bs']) simp
qed

lemma take_rest: "same_rest s (take_block u p x s)"
  by (simp add: take_block_def Let_def)

lemma take_ok:
  assumes "heap_ok s bs" "x \<in> set bs" "p \<in> set (arena s # bs)" "sl_next s p = x" "units \<le> sl_units s x" "1 \<le> units"
  shows "\<exists>bs'. heap_ok (take_block units p x s) bs' \<and> sl_units (take_block units p x s) x = units
    \<and> {x..<x + 16 * nat units} \<subseteq> free_bytes (sl_units s) bs
    \<and> free_bytes (sl_units (take_block units p x s)) (arena s # bs')
      = free_bytes (sl_units s) (arena s # bs) - {x..<x + 16 * nat units}"
proof -
  let ?u = "sl_units s" and ?n = "sl_next s"
  obtain ws vs where bs: "bs = ws @ x # vs" using assms(2) by (meson split_list)
  obtain us q where w: "arena s # ws = us @ [q]" using rev_exhaust by (metis list.distinct(1))
  have l: "arena s # bs = us @ q # x # vs" using bs w by simp
  have h: "ordered ?u (us @ q # x # vs)" "?u (arena s) = 1" "spath ?n (arena s) bs (arena s)"
    using assms(1) l by (auto simp: heap_ok_def)
  have dist: "distinct (us @ q # x # vs)" by (rule ordered_distinct [OF h(1)])
  have r: "rpre ?n (arena s) us q" "?n q = x" "spath ?n x vs (arena s)" using ring_parts [OF h(3) l] by auto
  have "q = p"
    using inj_onD [OF ring_inj [OF h(3)], of q p] dist l r(2) assms(3,4) by (metis Un_iff list.set_intros(1) set_append)
  note r = r [unfolded this] and h = h [unfolded this] and dist = dist [unfolded this] and l = l [unfolded this]
  have o: "ordered ?u us" "1 \<le> ?u p" "1 \<le> ?u x" "ordered ?u vs" "\<forall>y\<in>set us. bend ?u y < p \<and> bend ?u y < x \<and> (\<forall>v\<in>set vs. bend ?u y < v)"
    "bend ?u p < x" "\<forall>v\<in>set vs. bend ?u p < v \<and> bend ?u x < v"
    using h(1) by (auto simp: ordered_append ordered_Cons)
  have pa: "arena s \<in> set (us @ [p])" using w \<open>q = p\<close> by (metis list.set_intros(1))
  have sub: "{x..<x + 16 * nat units} \<subseteq> span ?u x" using assms(5,6) by (auto simp: span_eq)
  have sepu: "span ?u y \<inter> span ?u x = {}" if "y \<in> set (us @ p # vs)" for y
    using that o bend_mono [of ?u] by (fastforce simp: span_def)
  have sep: "free_bytes ?u (us @ p # vs) \<inter> span ?u x = {}"
    using sepu unfolding free_bytes_def by blast
  have total: "free_bytes ?u (us @ p # x # vs) = free_bytes ?u (us @ p # vs) \<union> span ?u x" by auto
  show ?thesis
  proof (cases "?u x = units")
    case True
    let ?t = "take_block units p x s"
    have t: "sl_units ?t = ?u" "sl_next ?t = ?n(p := ?n x)" "slobfree ?t = p" "arena ?t = arena s"
      using True by (simp_all add: take_block_def Let_def)
    have "rpre (?n(p := ?n x)) (arena s) us p" using r(1) dist by (simp add: rpre_upd)
    moreover have "spath (?n(p := ?n x)) p vs (arena s)"
      using r(3) dist by (cases vs) (auto simp: spath_upd_other)
    ultimately obtain bs' where bs': "arena s # bs' = us @ p # vs" "spath (?n(p := ?n x)) (arena s) bs' (arena s)"
      using ring_glue by metis
    have "heap_ok ?t bs'"
      using bs' o h(2) unfolding heap_ok_def t bs'(1) by (simp add: ordered_append ordered_Cons)
    moreover have "span ?u x = {x..<x + 16 * nat units}" using True by (simp add: span_eq)
    ultimately show ?thesis
      using t bs'(1) l total sep True assms(2) by (intro exI [of _ bs']) (auto simp: free_bytes_def)
  next
    case False
    let ?t = "take_block units p x s"
    let ?r = "x + 16 * nat units"
    have rx: "nat (int x + units * int SLOB_UNIT) = ?r" using assms(6) by (simp add: SLOB_UNIT_def)
    have xr: "x < ?r" "?r < bend ?u x" using assms(5,6) False by (auto simp: bend_def)
    have px: "p \<noteq> x" using dist by simp
    have t: "sl_units ?t = ?u(?r := ?u x - units, x := units)" "sl_next ?t = ?n(p := ?r, ?r := ?n x)" "slobfree ?t = p"
      "arena ?t = arena s"
      using False px xr(1) by (simp_all add: take_block_def Let_def rx)
    have rn: "?r \<notin> set us" "?r \<noteq> p" "?r \<notin> set vs" "x \<notin> set us" "x \<notin> set vs" "p \<notin> set us" "p \<notin> set vs"
    proof -
      have le: "y \<le> bend ?u y" for y by (simp add: bend_def)
      have "y < ?r" if "y \<in> set us" for y using o(5) that le [of y] xr(1) by fastforce
      then show "?r \<notin> set us" by blast
      show "?r \<noteq> p" using o(6) le [of p] xr(1) by linarith
      have "?r < y" if "y \<in> set vs" for y using o(7) that xr(2) by fastforce
      then show "?r \<notin> set vs" by blast
      show "x \<notin> set us" "x \<notin> set vs" "p \<notin> set us" "p \<notin> set vs" using dist by auto
    qed
    let ?u' = "?u(?r := ?u x - units, x := units)"
    have "rpre (?n(p := ?r, ?r := ?n x)) (arena s) us p" using r(1) rn by (simp add: rpre_upd)
    moreover have "spath (?n(p := ?r, ?r := ?n x)) p (?r # vs) (arena s)"
      using r(3) rn dist by (cases vs) (auto simp: spath_upd_other)
    ultimately obtain bs' where bs': "arena s # bs' = us @ p # ?r # vs" "spath (?n(p := ?r, ?r := ?n x)) (arena s) bs' (arena s)"
      using ring_glue by metis
    have u': "ordered ?u' us" "ordered ?u' vs" "\<forall>y\<in>set (us @ p # vs). bend ?u' y = bend ?u y \<and> ?u' y = ?u y" "?u' ?r = ?u x - units"
      "free_bytes ?u' (us @ p # vs) = free_bytes ?u (us @ p # vs)"
      using o(1,4) rn px xr(1) by (auto simp: bend_def span_def)
    have br: "bend ?u' ?r = bend ?u x" using assms(5,6) xr(1) by (simp add: bend_def)
    have ord: "ordered ?u' (us @ p # ?r # vs)"
    proof -
      have "\<forall>y\<in>set us. bend ?u y < ?r" "bend ?u p < ?r" "\<forall>v\<in>set vs. bend ?u x < v" "1 \<le> ?u x - units"
        using o(5-7) xr(1) False assms(5) by auto
      then show ?thesis
        unfolding ordered_append ordered_Cons using u'(1-4) o(2,5,7) br by auto
    qed
    have "arena s \<noteq> x" "arena s \<noteq> ?r" using pa rn px by auto
    then have "?u' (arena s) = 1" using h(2) by simp
    then have "heap_ok ?t bs'" using bs' ord unfolding heap_ok_def t bs'(1) by simp
    moreover have "span ?u' ?r = span ?u x - {x..<?r}" using br xr by (auto simp: span_def)
    then have "free_bytes ?u' (us @ p # ?r # vs) = free_bytes ?u (us @ p # x # vs) - {x..<?r}"
      using u'(5) sep sub total by auto
    ultimately show ?thesis
      using t(1) bs'(1) l sub assms(2) by (intro exI [of _ bs']) (auto simp: free_bytes_def)
  qed
qed

end
