(* ===== verification/Kmalloc.thy ===== *)
theory Kmalloc
  imports Slob_Inv Paging_Inv
begin

text \<open>
  What \<open>kmalloc\<close> and \<open>kfree\<close> promise: blocks are taken from and returned to the free bytes exactly, and pages come
  from the page manager.
\<close>

section \<open>Pages\<close>

definition page_bytes :: "nat \<Rightarrow> nat set" where "page_bytes g = {kva_of g..<kva_of g + 4096}"

definition pages_ok :: "pmem \<Rightarrow> bool" where
  "pages_ok m \<longleftrightarrow> (\<exists>L. fl_inv (pm_pmm m) L) \<and> pm_npage m \<le> 0xC0000 \<and> (\<forall>g\<in>free_set (pm_pmm m). g + nbase < pm_npage m)"

abbreviation free_frames :: "slob \<Rightarrow> nat set" where "free_frames s \<equiv> free_set (pm_pmm (sl_mem s))"

lemma kva_of_eq:
  assumes "g + nbase < 0xC0000"
  shows "kva_of g = 0xFFFFFFFFC0000000 + 4096 * g"
proof -
  have g: "g < 0x40000" using assms by (simp add: nbase_def)
  have "page2pa g = of_nat ((g + nbase) * 4096)"
    by (simp add: page2pa_def page2ppn_def PGSHIFT_def push_bit_eq_mult)
  then have "page2pa g + PHYSICAL_MEMORY_OFFSET = of_nat ((g + nbase) * 4096 + 0xFFFFFFFF40000000)"
    by (simp add: PHYSICAL_MEMORY_OFFSET_def)
  moreover have "(g + nbase) * 4096 + 0xFFFFFFFF40000000 < 2 ^ 64" using g by (simp add: nbase_def)
  ultimately have "kva_of g = (g + nbase) * 4096 + 0xFFFFFFFF40000000"
    unfolding kva_of_def by (simp add: unat_of_nat del: of_nat_add of_nat_mult)
  then show ?thesis by (simp add: nbase_def)
qed

lemma page2kva_same:
  assumes "g + nbase < pm_npage m" "pm_npage m \<le> 0xC0000"
  shows "page2kva m g = Some g"
  using KADDR_create(2) [of g m 0] assms by (simp add: page2kva_def)


lemma pages_okD: "pages_ok m \<Longrightarrow> g \<in> free_set (pm_pmm m) \<Longrightarrow> g + nbase < pm_npage m \<and> pm_npage m \<le> 0xC0000"
  by (simp add: pages_ok_def)

lemma get_pages_ok:
  assumes "pages_ok (sl_mem s)"
  shows "slob_get_free_pages k s = Some (None, s)
     \<or> (\<exists>g m. slob_get_free_pages k s = Some (Some (kva_of g), s\<lparr>sl_mem := m\<rparr>) \<and> pages_ok m
          \<and> {g..<g + 2 ^ k} \<subseteq> free_frames s \<and> free_set (pm_pmm m) = free_frames s - {g..<g + 2 ^ k})"
proof -
  let ?p = "pm_pmm (sl_mem s)"
  have inv: "\<exists>L. fl_inv ?p L" using assms by (simp add: pages_ok_def)
  obtain r p where a: "default_alloc_pages (2 ^ k) ?p = Some (r, p)" using ff.alloc_returns [OF inv, of "2 ^ k"] by auto
  show ?thesis
  proof (cases r)
    case None
    then have "p = ?p" using ff.alloc_fails [OF inv] a by simp
    then show ?thesis using a None by (simp add: slob_get_free_pages_def alloc_pages_def)
  next
    case (Some g)
    have g: "\<exists>L. fl_inv p L" "{g..<g + 2 ^ k} \<subseteq> free_set ?p" "free_set p = free_set ?p - {g..<g + 2 ^ k}"
      using ff.alloc_gives [OF inv] a Some by auto
    have "g \<in> free_set ?p" using g(2) by force
    then have "g + nbase < pm_npage (sl_mem s) \<and> pm_npage (sl_mem s) \<le> 0xC0000" by (rule pages_okD [OF assms])
    then have "page2kva ((sl_mem s)\<lparr>pm_pmm := p\<rparr>) g = Some g" by (intro page2kva_same) simp_all
    then have "slob_get_free_pages k s = Some (Some (kva_of g), s\<lparr>sl_mem := (sl_mem s)\<lparr>pm_pmm := p\<rparr>\<rparr>)"
      using a Some by (simp add: slob_get_free_pages_def alloc_pages_def Let_def)
    moreover have "pages_ok ((sl_mem s)\<lparr>pm_pmm := p\<rparr>)" using assms g by (auto simp: pages_ok_def)
    ultimately show ?thesis
      using g by (intro disjI2 exI [of _ g] exI [of _ "(sl_mem s)\<lparr>pm_pmm := p\<rparr>"]) simp
  qed
qed

lemma no_page_left:
  assumes "pages_ok (sl_mem s)" "slob_get_free_pages 0 s = Some (None, t)"
  shows "free_frames s = {}"
proof -
  obtain L where L: "fl_inv (pm_pmm (sl_mem s)) L" using assms(1) by (auto simp: pages_ok_def)
  have "List.find (\<lambda>b. 1 \<le> property (pm_pmm (sl_mem s)) b) L = None"
  proof (rule ccontr)
    assume "\<not> ?thesis"
    then obtain g where f: "List.find (\<lambda>b. 1 \<le> property (pm_pmm (sl_mem s)) b) L = Some g" by auto
    have "\<exists>p. default_alloc_pages 1 (pm_pmm (sl_mem s)) = Some (Some g, p)"
      using default_alloc_some [OF L _ f] by auto
    then show False
      using assms(2) by (auto simp: slob_get_free_pages_def alloc_pages_def Let_def Option.bind_eq_Some_conv)
  qed
  from default_alloc_none(2) [OF L _ this] show ?thesis
    unfolding fl_inv_free_set [OF L] bset_def by force
qed

section \<open>The search for a block\<close>

lemma loop_skip:
  assumes "spath (sl_next s) prev xs cur" "\<forall>x\<in>set xs. sl_units s x < units \<and> x \<noteq> slobfree s"
  shows "alloc_loop sz 0 units prev (sl_next s prev) s = alloc_loop sz 0 units (last (prev # xs)) cur s
     \<and> sl_next s (last (prev # xs)) = cur"
  using assms
proof (induction xs arbitrary: prev)
  case Nil
  then show ?case by simp
next
  case (Cons x xs)
  then have "alloc_loop sz 0 units prev x s = alloc_loop sz 0 units x (sl_next s x) s"
    by (subst alloc_loop.simps) (simp add: Let_def)
  then show ?case using Cons by auto
qed

lemma loop_take:
  "units \<le> sl_units s cur \<Longrightarrow> alloc_loop sz 0 units prev cur s = Some (Some cur, take_block units prev cur s)"
  by (subst alloc_loop.simps) (simp add: Let_def)

lemma alloc_found:
  assumes "heap_ok s bs" "\<exists>x\<in>set bs. units \<le> sl_units s x" "2 \<le> units"
  shows "\<exists>x p. x \<in> set bs \<and> p \<in> set (arena s # bs) \<and> sl_next s p = x \<and> units \<le> sl_units s x
     \<and> alloc_loop sz 0 units (slobfree s) (sl_next s (slobfree s)) s = Some (Some x, take_block units p x s)"
proof -
  let ?f = "slobfree s" and ?n = "sl_next s"
  have h: "ordered (sl_units s) (arena s # bs)" "spath ?n (arena s) bs (arena s)" "?f \<in> set (arena s # bs)" "sl_units s (arena s) = 1"
    using assms(1) by (auto simp: heap_ok_def)
  obtain us vs where l: "arena s # bs = us @ ?f # vs" using split_list [OF h(3)] by blast
  have ring: "spath ?n ?f (vs @ us) ?f" by (rule ring_from [OF h(2) l])
  have R: "set (vs @ us @ [?f]) = set (arena s # bs)" unfolding l by auto
  have "\<exists>x\<in>set (vs @ us @ [?f]). units \<le> sl_units s x" using assms(2) unfolding R by auto
  then obtain ys x zs where x: "vs @ us @ [?f] = ys @ x # zs" "units \<le> sl_units s x" "\<forall>y\<in>set ys. \<not> units \<le> sl_units s y"
    using split_list_first_prop [of "vs @ us @ [?f]" "\<lambda>x. units \<le> sl_units s x"] by blast
  have d: "distinct (vs @ us @ [?f])" using ordered_distinct [OF h(1)] unfolding l by auto
  have "last (vs @ us @ [?f]) = last (x # zs)" unfolding x(1) by simp
  then have "?f \<in> set (x # zs)" using last_in_set [of "x # zs"] by simp
  then have fy: "?f \<notin> set ys" using d x(1) by auto
  have path: "spath ?n ?f ys x"
  proof (cases zs rule: rev_cases)
    case Nil
    then show ?thesis using x(1) ring by simp
  next
    case (snoc zs' z)
    then have "vs @ us = ys @ x # zs'" using x(1) by (metis append_assoc append_Cons butlast_snoc)
    then show ?thesis using ring by simp
  qed
  have xs: "x \<in> set (arena s # bs)" using x(1) R by (metis in_set_conv_decomp)
  have "x \<noteq> arena s" using x(2) h(4) assms(3) by auto
  then have xb: "x \<in> set bs" using xs by simp
  let ?p = "last (?f # ys)"
  have "\<forall>y\<in>set ys. sl_units s y < units \<and> y \<noteq> ?f" using x(3) fy by auto
  from loop_skip [OF path this]
  have s: "alloc_loop sz 0 units ?f (?n ?f) s = alloc_loop sz 0 units ?p x s" "?n ?p = x" by blast+
  have "set ys \<subseteq> set (arena s # bs)" using x(1) R by (metis Un_upper1 set_append)
  then have "?p \<in> set (arena s # bs)" using h(3) by (cases ys rule: rev_cases) auto
  then show ?thesis using xb s loop_take [OF x(2)] x(2) by (intro exI [of _ x] exI [of _ ?p]) simp
qed

lemma alloc_grow:
  assumes "heap_ok s bs" "\<forall>x\<in>set bs. sl_units s x < units" "2 \<le> units" "sz \<noteq> PAGE_SIZE"
  shows "alloc_loop sz 0 units (slobfree s) (sl_next s (slobfree s)) s = do {
     (page, s1) \<leftarrow> slob_get_free_pages 0 s;
     case page of
       None \<Rightarrow> Some (None, s1)
     | Some c \<Rightarrow> do {
         s2 \<leftarrow> slob_free c PAGE_SIZE s1;
         alloc_loop sz 0 units (slobfree s2) (sl_next s2 (slobfree s2)) s2
       }
   }"
proof -
  let ?f = "slobfree s" and ?n = "sl_next s"
  have h: "ordered (sl_units s) (arena s # bs)" "spath ?n (arena s) bs (arena s)" "?f \<in> set (arena s # bs)" "sl_units s (arena s) = 1"
    using assms(1) by (auto simp: heap_ok_def)
  obtain us vs where l: "arena s # bs = us @ ?f # vs" using split_list [OF h(3)] by blast
  have ring: "spath ?n ?f (vs @ us) ?f" by (rule ring_from [OF h(2) l])
  have R: "set (vs @ us @ [?f]) = set (arena s # bs)" unfolding l by auto
  have small: "\<forall>x\<in>set (vs @ us @ [?f]). sl_units s x < units" unfolding R using assms(2,3) h(4) by auto
  have d: "distinct (vs @ us @ [?f])" using ordered_distinct [OF h(1)] unfolding l by auto
  have "\<forall>x\<in>set (vs @ us). sl_units s x < units \<and> x \<noteq> ?f" using small d by auto
  from loop_skip [OF ring this]
  have "alloc_loop sz 0 units ?f (?n ?f) s = alloc_loop sz 0 units (last (?f # vs @ us)) ?f s" by blast
  also have "\<dots> = do {
     (page, s1) \<leftarrow> slob_get_free_pages 0 s;
     case page of
       None \<Rightarrow> Some (None, s1)
     | Some c \<Rightarrow> do {
         s2 \<leftarrow> slob_free c PAGE_SIZE s1;
         alloc_loop sz 0 units (slobfree s2) (sl_next s2 (slobfree s2)) s2
       }
   }"
    using small assms(4) by (subst alloc_loop.simps) (simp add: Let_def)
  finally show ?thesis .
qed


section \<open>The invariant\<close>

text \<open>\<open>bs\<close> is the free list without the arena, \<open>H\<close> the page frames that the heap has taken.\<close>

definition slob_inv :: "slob \<Rightarrow> nat list \<Rightarrow> nat set \<Rightarrow> bool" where
  "slob_inv s bs H \<longleftrightarrow> heap_ok s bs \<and> pages_ok (sl_mem s) \<and> H \<inter> free_frames s = {}
     \<and> (\<forall>g\<in>free_frames s \<union> H. g + nbase < 0xC0000 \<and> arena s + 16 < kva_of g)
     \<and> free_bytes (sl_units s) bs \<subseteq> \<Union> (page_bytes ` H)"

text \<open>The free bytes: those of the blocks of the free list; the arena itself is never handed out.\<close>

definition slob_frees :: "slob \<Rightarrow> nat list \<Rightarrow> nat set" where
  "slob_frees s bs = free_bytes (sl_units s) (arena s # bs)"

lemma page_bytes_disjoint:
  assumes "g + nbase < 0xC0000" "h + nbase < 0xC0000" "g \<noteq> h"
  shows "page_bytes g \<inter> page_bytes h = {}"
proof -
  have "4096 * g + 4096 \<le> 4096 * h \<or> 4096 * h + 4096 \<le> 4096 * g" using assms(3) by arith
  then show ?thesis using kva_of_eq [OF assms(1)] kva_of_eq [OF assms(2)] by (auto simp: page_bytes_def)
qed

lemma arena_span: "heap_ok s bs \<Longrightarrow> span (sl_units s) (arena s) = {arena s..<arena s + 16}"
  by (simp add: heap_ok_def span_eq)

lemma arena_apart:
  assumes "heap_ok s bs"
  shows "free_bytes (sl_units s) bs = slob_frees s bs - {arena s..<arena s + 16}"
proof -
  have "ordered (sl_units s) (arena s # bs)" "sl_units s (arena s) = 1" using assms by (auto simp: heap_ok_def)
  then have "\<forall>b\<in>set bs. arena s + 16 < b" by (simp add: ordered_Cons bend_def)
  then have "free_bytes (sl_units s) bs \<inter> {arena s..<arena s + 16} = {}"
    by (fastforce simp: free_bytes_def span_def)
  then show ?thesis using arena_span [OF assms] by (auto simp: slob_frees_def)
qed

text \<open>The result of \<open>slob_alloc\<close>: \<open>n\<close> units at \<open>x\<close>; \<open>N\<close> is the set of new frames, one at most.\<close>

definition block_taken :: "slob \<Rightarrow> nat list \<Rightarrow> nat set \<Rightarrow> nat \<Rightarrow> nat \<Rightarrow> nat set \<Rightarrow> slob \<Rightarrow> nat list \<Rightarrow> bool" where
  "block_taken s bs H n x N t bs' \<longleftrightarrow>
     slob_inv t bs' (H \<union> N) \<and> N \<subseteq> free_frames s \<and> free_frames t = free_frames s - N \<and> card N \<le> 1
     \<and> sl_units t x = int n \<and> {x..<x + 16 * n} \<subseteq> \<Union> (page_bytes ` (H \<union> N))
     \<and> {x..<x + 16 * n} \<subseteq> slob_frees s bs \<union> \<Union> (page_bytes ` N)
     \<and> slob_frees t bs' = slob_frees s bs \<union> \<Union> (page_bytes ` N) - {x..<x + 16 * n}
     \<and> arena t = arena s \<and> bb_order t = bb_order s \<and> bb_pages t = bb_pages s \<and> bb_next t = bb_next s \<and> bigblocks t = bigblocks s"

lemma alloc_existing:
  assumes "slob_inv s bs H" "\<exists>x\<in>set bs. int n \<le> sl_units s x" "2 \<le> n"
  shows "\<exists>x t bs'. alloc_loop sz 0 (int n) (slobfree s) (sl_next s (slobfree s)) s = Some (Some x, t)
    \<and> block_taken s bs H n x {} t bs'"
proof -
  have ok: "heap_ok s bs" using assms(1) by (simp add: slob_inv_def)
  obtain x p where x: "x \<in> set bs" "p \<in> set (arena s # bs)" "sl_next s p = x" "int n \<le> sl_units s x"
    "alloc_loop sz 0 (int n) (slobfree s) (sl_next s (slobfree s)) s = Some (Some x, take_block (int n) p x s)"
    using alloc_found [OF ok assms(2), of sz] assms(3) by auto
  let ?t = "take_block (int n) p x s"
  obtain bs' where t: "heap_ok ?t bs'" "sl_units ?t x = int n" "{x..<x + 16 * n} \<subseteq> free_bytes (sl_units s) bs"
    "free_bytes (sl_units ?t) (arena s # bs') = free_bytes (sl_units s) (arena s # bs) - {x..<x + 16 * n}"
    using take_ok [OF ok x(1-4)] assms(3) by auto
  have rest: "same_rest s ?t" by (rule take_rest)
  then have fr: "slob_frees ?t bs' = slob_frees s bs - {x..<x + 16 * n}"
    using t(4) by (simp add: slob_frees_def same_rest_def)
  have "free_bytes (sl_units ?t) bs' \<subseteq> free_bytes (sl_units s) bs"
    using arena_apart [OF t(1)] arena_apart [OF ok] fr rest by (auto simp: same_rest_def)
  then have "slob_inv ?t bs' H"
    using assms(1) t(1) rest unfolding slob_inv_def same_rest_def by auto
  moreover have "{x..<x + 16 * n} \<subseteq> \<Union> (page_bytes ` H)" using t(3) assms(1) by (auto simp: slob_inv_def)
  moreover have "{x..<x + 16 * n} \<subseteq> slob_frees s bs" using t(3) by (auto simp: slob_frees_def)
  ultimately show ?thesis
    using x(5) t(2) fr rest by (intro exI [of _ x] exI [of _ ?t] exI [of _ bs']) (simp add: block_taken_def same_rest_def)
qed

text \<open>The heap grows by one page.\<close>

lemma slob_grow:
  assumes "slob_inv s bs H" "slob_get_free_pages 0 s = Some (Some c, s1)"
  shows "\<exists>g t bs'. slob_free c PAGE_SIZE s1 = Some t \<and> g \<in> free_frames s \<and> slob_inv t bs' (insert g H)
    \<and> free_frames t = free_frames s - {g} \<and> slob_frees t bs' = slob_frees s bs \<union> page_bytes g
    \<and> (\<exists>x\<in>set bs'. 256 \<le> sl_units t x) \<and> same_rest s1 t
    \<and> arena s1 = arena s \<and> bb_order s1 = bb_order s \<and> bb_pages s1 = bb_pages s \<and> bb_next s1 = bb_next s \<and> bigblocks s1 = bigblocks s"
proof -
  have inv: "heap_ok s bs" "pages_ok (sl_mem s)" "H \<inter> free_frames s = {}"
    "\<forall>g\<in>free_frames s \<union> H. g + nbase < 0xC0000 \<and> arena s + 16 < kva_of g"
    "free_bytes (sl_units s) bs \<subseteq> \<Union> (page_bytes ` H)" using assms(1) by (auto simp: slob_inv_def)
  obtain g m where g: "c = kva_of g" "s1 = s\<lparr>sl_mem := m\<rparr>" "pages_ok m" "g \<in> free_frames s" "free_set (pm_pmm m) = free_frames s - {g}"
    using get_pages_ok [OF inv(2), of 0] assms(2) by auto
  have gb: "g + nbase < 0xC0000" "arena s + 16 < kva_of g" using inv(4) g(4) by auto
  have ok1: "heap_ok s1 bs" using inv(1) g(2) by (simp add: heap_ok_def)
  have a: "span (sl_units s) (arena s) = {arena s..<arena s + 16}" by (rule arena_span [OF inv(1)])
  have "page_bytes g \<inter> page_bytes h = {}" if "h \<in> H" for h
    by (rule page_bytes_disjoint) (use that inv(3,4) g(4) in auto)
  then have "page_bytes g \<inter> free_bytes (sl_units s) bs = {}" using inv(5) by auto
  moreover have "page_bytes g \<inter> {arena s..<arena s + 16} = {}" using gb(2) by (auto simp: page_bytes_def)
  ultimately have d: "{c..<c + 16 * 256} \<inter> free_bytes (sl_units s1) (arena s1 # bs) = {}"
    using a g(1,2) by (auto simp: page_bytes_def)
  have u: "SLOB_UNITS PAGE_SIZE = 256" by (simp add: SLOB_UNITS_def PAGE_SIZE_def SLOB_UNIT_def)
  have "bend (sl_units s1) (arena s1) < c" using inv(1) g(1,2) gb(2) by (simp add: bend_def heap_ok_def)
  then obtain t bs' where t: "slob_free c PAGE_SIZE s1 = Some t" "heap_ok t bs'" "same_rest s1 t" "\<exists>x\<in>set bs'. 256 \<le> sl_units t x"
    "free_bytes (sl_units t) (arena s1 # bs') = free_bytes (sl_units s1) (arena s1 # bs) \<union> {c..<c + 16 * 256}"
    using slob_free_ok [OF ok1 refl _ _ d, of PAGE_SIZE] u by (auto simp: PAGE_SIZE_def)
  have fr: "slob_frees t bs' = slob_frees s bs \<union> page_bytes g"
    using t(3,5) g(1,2) by (simp add: slob_frees_def same_rest_def page_bytes_def)
  have "free_bytes (sl_units t) bs' \<subseteq> free_bytes (sl_units s) bs \<union> page_bytes g"
    using arena_apart [OF t(2)] arena_apart [OF inv(1)] fr t(3) g(2) by (auto simp: same_rest_def)
  then have "slob_inv t bs' (insert g H)"
    using t(2,3) g(2-5) inv gb unfolding slob_inv_def same_rest_def by auto
  then show ?thesis using t fr g by (intro exI [of _ g] exI [of _ t] exI [of _ bs']) (auto simp: same_rest_def)
qed

lemma slob_alloc_ok:
  assumes "slob_inv s bs H" "16 < sz" "sz + 16 < 4096" "n = SLOB_UNITS sz"
  shows "slob_alloc sz 0 s = Some (None, s) \<and> free_frames s = {} \<and> (\<forall>b\<in>set bs. sl_units s b < int n)
    \<or> (\<exists>x N t bs'. slob_alloc sz 0 s = Some (Some x, t) \<and> block_taken s bs H n x N t bs')"
proof -
  have n: "2 \<le> n" "n \<le> 256" using assms(2-4) by (simp_all add: SLOB_UNITS_def SLOB_UNIT_def)
  have inv: "heap_ok s bs" "pages_ok (sl_mem s)" "H \<inter> free_frames s = {}" using assms(1) by (auto simp: slob_inv_def)
  have al: "slob_alloc sz 0 s = alloc_loop sz 0 (int n) (slobfree s) (sl_next s (slobfree s)) s"
    using assms(3,4) by (simp add: slob_alloc_def SLOB_UNIT_def PAGE_SIZE_def)
  show ?thesis
  proof (cases "\<exists>x\<in>set bs. int n \<le> sl_units s x")
    case True
    then show ?thesis using alloc_existing [OF assms(1) True n(1), of sz] unfolding al by blast
  next
    case False
    then have small: "\<forall>x\<in>set bs. sl_units s x < int n" by auto
    have "sz \<noteq> PAGE_SIZE" using assms(3) by (simp add: PAGE_SIZE_def)
    from alloc_grow [OF inv(1) small _ this] n(1)
    have grow: "slob_alloc sz 0 s = do {
        (page, s1) \<leftarrow> slob_get_free_pages 0 s;
        case page of
          None \<Rightarrow> Some (None, s1)
        | Some c \<Rightarrow> do {
            s2 \<leftarrow> slob_free c PAGE_SIZE s1;
            alloc_loop sz 0 (int n) (slobfree s2) (sl_next s2 (slobfree s2)) s2
          }
      }" unfolding al by simp
    show ?thesis
    proof (cases "slob_get_free_pages 0 s = Some (None, s)")
      case True
      then show ?thesis using grow small no_page_left [OF inv(2) True] by simp
    next
      case False
      then obtain c s1 where c: "slob_get_free_pages 0 s = Some (Some c, s1)" using get_pages_ok [OF inv(2), of 0] by auto
      obtain g s2 bs2 where g: "slob_free c PAGE_SIZE s1 = Some s2" "g \<in> free_frames s" "slob_inv s2 bs2 (insert g H)"
        "free_frames s2 = free_frames s - {g}" "slob_frees s2 bs2 = slob_frees s bs \<union> page_bytes g"
        "\<exists>x\<in>set bs2. 256 \<le> sl_units s2 x" "same_rest s1 s2"
        "arena s1 = arena s" "bb_order s1 = bb_order s" "bb_pages s1 = bb_pages s" "bb_next s1 = bb_next s" "bigblocks s1 = bigblocks s"
        using slob_grow [OF assms(1) c] by blast
      have "\<exists>x\<in>set bs2. int n \<le> sl_units s2 x" using g(6) n(2) by force
      then obtain x t bs' where x: "alloc_loop sz 0 (int n) (slobfree s2) (sl_next s2 (slobfree s2)) s2 = Some (Some x, t)"
        "block_taken s2 bs2 (insert g H) n x {} t bs'"
        using alloc_existing [OF g(3) _ n(1), of sz] by blast
      then have "block_taken s bs H n x {g} t bs'"
        using g(2,4,5,7-12) unfolding block_taken_def same_rest_def by auto
      then show ?thesis using grow c g(1) x(1) by (intro disjI2 exI [of _ x] exI [of _ "{g}"] exI [of _ t] exI [of _ bs']) simp
    qed
  qed
qed


section \<open>kmalloc and kfree\<close>




lemma kmalloc_small:
  assumes "slob_inv s bs H" "0 < sz" "sz < 4064"
  shows "kmalloc sz s = Some (None, s) \<and> free_frames s = {} \<and> (\<forall>b\<in>set bs. sl_units s b < int (SLOB_UNITS (sz + 16)))
    \<or> (\<exists>x N t bs'. kmalloc sz s = Some (Some (x + 16), t) \<and> block_taken s bs H (SLOB_UNITS (sz + 16)) x N t bs')"
proof -
  have k: "kmalloc sz s = do { (m, s1) \<leftarrow> slob_alloc (sz + 16) 0 s; Some (map_option (\<lambda>b. b + 16) m, s1) }"
    using assms(3) by (simp add: kmalloc_def PAGE_SIZE_def SLOB_UNIT_def)
  show ?thesis
    using slob_alloc_ok [OF assms(1), of "sz + 16" "SLOB_UNITS (sz + 16)"] assms(2,3) unfolding k by auto
qed

lemma units_cover: "sz \<le> 16 * SLOB_UNITS (sz + 16) - 16" "0 < SLOB_UNITS (sz + 16)"
  by (simp_all add: SLOB_UNITS_def SLOB_UNIT_def)

text \<open>The list of the big blocks.\<close>

primrec big_list :: "(nat \<Rightarrow> nat option) \<Rightarrow> nat option \<Rightarrow> nat list \<Rightarrow> bool" where
  "big_list nx c [] \<longleftrightarrow> c = None"
| "big_list nx c (b # bs) \<longleftrightarrow> c = Some b \<and> big_list nx (nx b) bs"

lemma big_find_none:
  assumes "big_list (bb_next s) (bigblocks s) B" "\<forall>b\<in>set B. bb_pages s b \<noteq> p"
  shows "\<exists>q. big_find p s = Some (q, None)"
proof -
  have "\<exists>q. big_loop p prev c s = Some (q, None)" if "big_list (bb_next s) c B'" "set B' \<subseteq> set B" for prev c B'
    using that
  proof (induction B' arbitrary: prev c)
    case Nil
    then show ?case by (subst big_loop.simps) simp
  next
    case (Cons b B')
    then show ?case using assms(2) by (subst big_loop.simps) auto
  qed
  then show ?thesis using assms(1) by (simp add: big_find_def)
qed

text \<open>Any block of the heap's pages that is not free can be given back.\<close>

lemma kfree_ok:
  assumes "slob_inv s bs H" "sl_units s x = int n" "0 < n" "{x..<x + 16 * n} \<inter> slob_frees s bs = {}"
    and "{x..<x + 16 * n} \<subseteq> \<Union> (page_bytes ` H)"
    and "big_list (bb_next s) (bigblocks s) B" "\<forall>b\<in>set B. bb_pages s b \<noteq> x + 16"
  shows "\<exists>t bs'. kfree (x + 16) s = Some t \<and> slob_inv t bs' H \<and> free_frames t = free_frames s
    \<and> slob_frees t bs' = slob_frees s bs \<union> {x..<x + 16 * n}"
proof -
  have inv: "heap_ok s bs" "\<forall>g\<in>free_frames s \<union> H. g + nbase < 0xC0000 \<and> arena s + 16 < kva_of g"
    "free_bytes (sl_units s) bs \<subseteq> \<Union> (page_bytes ` H)" using assms(1) by (auto simp: slob_inv_def)
  obtain g where g: "g \<in> H" "x \<in> page_bytes g" using assms(3,5) by force
  moreover have "arena s + 16 < kva_of g" using inv(2) g(1) by blast
  ultimately have "arena s + 16 < x" by (simp add: page_bytes_def)
  then have "bend (sl_units s) (arena s) < x" using inv(1) by (simp add: bend_def heap_ok_def)
  then obtain t bs' where t: "slob_free x 0 s = Some t" "heap_ok t bs'" "same_rest s t"
    "free_bytes (sl_units t) (arena s # bs') = free_bytes (sl_units s) (arena s # bs) \<union> {x..<x + 16 * n}"
    using slob_free_ok [OF inv(1) refl, of 0 x n] assms(2-4) by (auto simp: slob_frees_def)
  obtain q where "big_find (x + 16) s = Some (q, None)" using big_find_none [OF assms(6,7)] by blast
  then have k: "kfree (x + 16) s = Some t" using t(1) by (simp add: kfree_def SLOB_UNIT_def)
  have fr: "slob_frees t bs' = slob_frees s bs \<union> {x..<x + 16 * n}" using t(3,4) by (simp add: slob_frees_def same_rest_def)
  then have "free_bytes (sl_units t) bs' \<subseteq> \<Union> (page_bytes ` H)"
    using arena_apart [OF t(2)] arena_apart [OF inv(1)] t(3) assms(5) inv(3) by (auto simp: same_rest_def)
  then have "slob_inv t bs' H"
    using assms(1) t(2,3) unfolding slob_inv_def same_rest_def by auto
  then show ?thesis using k fr t(3) by (auto simp: same_rest_def)
qed

text \<open>A search from a block that is the only one of the list never ends.\<close>

lemma place_alone_aux: "place_loop b c s = Some r \<Longrightarrow> c = b \<longrightarrow> sl_next s b \<noteq> b"
  by (erule place_loop.raw_induct [where P = "\<lambda>b c s r. c = b \<longrightarrow> sl_next s b \<noteq> b", rotated]) (auto split: if_splits)

lemma place_alone: "sl_next s b = b \<Longrightarrow> place_loop b b s = None"
  using place_alone_aux [of b b s] by (cases "place_loop b b s") auto

section \<open>An example\<close>

text \<open>The heap at the start, with the free frames 0x300 to 0x30f; the arena is in the kernel image.\<close>

definition example_arena :: nat where "example_arena = 0xFFFFFFFFC0209000"

lemma example_heap:
  "\<exists>m. slob_inv (slob_boot example_arena m) [] {} \<and> free_set (pm_pmm m) = {0x300..<0x310}
     \<and> big_list (bb_next (slob_boot example_arena m)) (bigblocks (slob_boot example_arena m)) []"
proof -
  obtain t where t: "fl_inv t [0x300]" "free_set t = {0x300..<0x310}" using example_region [of 16 "0x300"] by auto
  let ?m = "\<lparr>pm_pmm = t, pm_npage = nbase + 0x310, pm_frame = \<lambda>_ _. 0\<rparr>"
  have "pages_ok ?m" using t by (auto simp: pages_ok_def nbase_def)
  moreover have "heap_ok (slob_boot example_arena ?m) []"
    by (simp add: heap_ok_def slob_boot_def ordered_Cons)
  moreover have "\<forall>g\<in>{0x300..<0x310}. g + nbase < 0xC0000 \<and> example_arena + 16 < kva_of g"
    by (auto simp: kva_of_eq nbase_def example_arena_def)
  ultimately have "slob_inv (slob_boot example_arena ?m) [] {}"
    using t(2) by (simp add: slob_inv_def slob_boot_def)
  then show ?thesis using t(2) by (intro exI [of _ ?m]) (simp add: slob_boot_def)
qed



section \<open>Properties\<close>

text \<open>C35: a request of 1 to 4063 bytes always returns.  It fails, and changes nothing, only when no free block is large
  enough and no page frame is left; otherwise the caller gets a block behind its 16-byte header that holds the request
  and lies in pages of the heap, the free bytes lose exactly that block (after at most one new page joined them), and the free list stays
  ordered, coalesced and disjoint.\<close>

theorem kmalloc_takes_block:
  assumes "slob_inv s bs H" "0 < sz" "sz < 4064"
  shows "kmalloc sz s = Some (None, s) \<and> free_frames s = {} \<and> (\<forall>b\<in>set bs. sl_units s b < int (SLOB_UNITS (sz + 16)))
    \<or> (\<exists>x N t bs'. kmalloc sz s = Some (Some (x + 16), t) \<and> block_taken s bs H (SLOB_UNITS (sz + 16)) x N t bs'
        \<and> {x + 16..<x + 16 + sz} \<subseteq> {x..<x + 16 * SLOB_UNITS (sz + 16)})"
proof -
  have "x + 16 + sz \<le> x + 16 * SLOB_UNITS (sz + 16)" for x using units_cover [of sz] by linarith
  then show ?thesis using kmalloc_small [OF assms] by fastforce
qed

theorem kmalloc_takes_block_witness:
  "\<exists>m x t N bs'. kmalloc 100 (slob_boot example_arena m) = Some (Some (x + 16), t)
     \<and> block_taken (slob_boot example_arena m) [] {} 8 x N t bs'"
proof -
  obtain m where m: "slob_inv (slob_boot example_arena m) [] {}" "free_set (pm_pmm m) = {0x300..<0x310}"
    using example_heap by blast
  have "free_frames (slob_boot example_arena m) \<noteq> {}" using m(2) by (simp add: slob_boot_def)
  moreover have "SLOB_UNITS (100 + 16) = 8" by (simp add: SLOB_UNITS_def SLOB_UNIT_def)
  ultimately show ?thesis using kmalloc_takes_block [OF m(1), of 100] by auto
qed

text \<open>C36: giving a block back restores the heap: after \<open>kmalloc\<close> and \<open>kfree\<close> the free bytes are those from before and the
  pages the heap took in between, and the invariant holds.\<close>

theorem kmalloc_kfree_restores:
  assumes "slob_inv s bs H" "0 < sz" "sz < 4064" "kmalloc sz s = Some (Some p, t)"
    and "big_list (bb_next s) (bigblocks s) B" "\<forall>b\<in>set B. bb_pages s b \<noteq> p"
  shows "\<exists>N u bs'. kfree p t = Some u \<and> slob_inv u bs' (H \<union> N) \<and> N \<subseteq> free_frames s \<and> card N \<le> 1
    \<and> free_frames u = free_frames s - N \<and> slob_frees u bs' = slob_frees s bs \<union> \<Union> (page_bytes ` N)"
proof -
  obtain x N bs' where x: "p = x + 16" "block_taken s bs H (SLOB_UNITS (sz + 16)) x N t bs'"
    using kmalloc_small [OF assms(1-3)] assms(4) by auto
  let ?B = "{x..<x + 16 * SLOB_UNITS (sz + 16)}"
  note b = x(2) [unfolded block_taken_def]
  obtain u bs2 where "kfree (x + 16) t = Some u" "slob_inv u bs2 (H \<union> N)" "free_frames u = free_frames t"
    "slob_frees u bs2 = slob_frees t bs' \<union> ?B"
    using kfree_ok [of t bs' "H \<union> N" x "SLOB_UNITS (sz + 16)" B] b units_cover(2) [of sz] assms(5,6) x(1) by auto
  then show ?thesis
    using b x(1) by (intro exI [of _ N] exI [of _ u] exI [of _ bs2]) auto
qed

theorem kmalloc_kfree_restores_witness:
  "\<exists>m p t u. kmalloc 100 (slob_boot example_arena m) = Some (Some p, t) \<and> kfree p t = Some u"
proof -
  obtain m where m: "slob_inv (slob_boot example_arena m) [] {}" "free_set (pm_pmm m) = {0x300..<0x310}"
    "big_list (bb_next (slob_boot example_arena m)) (bigblocks (slob_boot example_arena m)) []"
    using example_heap by blast
  have "free_frames (slob_boot example_arena m) \<noteq> {}" using m(2) by (simp add: slob_boot_def)
  then obtain p t where "kmalloc 100 (slob_boot example_arena m) = Some (Some p, t)"
    using kmalloc_small [OF m(1), of 100] by auto
  then show ?thesis using kmalloc_kfree_restores [OF m(1) _ _ _ m(3), of 100 p t] by auto
qed



text \<open>The two tests of the size do not agree: a request of 4064 to 4079 bytes is taken as a small one and then fails
  the assertion of \<open>slob_alloc\<close>.\<close>

theorem kmalloc_gap_panics:
  assumes "4064 \<le> sz" "sz < 4080"
  shows "kmalloc sz s = None"
  using assms by (simp add: kmalloc_def slob_alloc_def PAGE_SIZE_def SLOB_UNIT_def)

theorem kmalloc_gap_panics_witness:
  "kmalloc 4070 (slob_boot example_arena \<lparr>pm_pmm = frames_with {0}, pm_npage = 1, pm_frame = \<lambda>_ _. 0\<rparr>) = None"
  by (rule kmalloc_gap_panics) simp_all

text \<open>A request of no bytes at the start of the heap is answered with the arena itself, which stays in the
  free list; giving it back never returns.\<close>

theorem kmalloc_nothing_hangs:
  assumes "a \<noteq> 0"
  shows "\<exists>t. kmalloc 0 (slob_boot a m) = Some (Some (a + 16), t) \<and> sl_next t a = a \<and> slobfree t = a \<and> kfree (a + 16) t = None"
proof -
  let ?s = "slob_boot a m"
  have u: "SLOB_UNITS 16 = 1" by (simp add: SLOB_UNITS_def SLOB_UNIT_def)
  have f: "slobfree ?s = a" "sl_next ?s a = a" "sl_units ?s a = 1" "bigblocks ?s = None" by (simp_all add: slob_boot_def)
  have "alloc_loop 16 0 (int 1) a a ?s = Some (Some a, take_block (int 1) a a ?s)" by (rule loop_take) (simp add: f)
  then have k: "kmalloc 0 ?s = Some (Some (a + 16), take_block 1 a a ?s)"
    using f by (simp add: kmalloc_def slob_alloc_def PAGE_SIZE_def SLOB_UNIT_def u [unfolded SLOB_UNIT_def])
  let ?t = "take_block 1 a a ?s"
  have t: "slobfree ?t = a" "sl_next ?t a = a" "bigblocks ?t = None"
    using f by (simp_all add: take_block_def Let_def set_next_def)
  have "big_find (a + 16) ?t = Some (None, None)"
    using t(3) by (simp add: big_find_def) (subst big_loop.simps, simp)
  then have "kfree (a + 16) ?t = None"
    using place_alone [OF t(2)] t(1) assms by (simp add: kfree_def slob_free_def SLOB_UNIT_def)
  then show ?thesis using k t by blast
qed


theorem kmalloc_nothing_hangs_witness:
  "\<exists>t. kmalloc 0 (slob_boot example_arena m) = Some (Some (example_arena + 16), t) \<and> kfree (example_arena + 16) t = None"
  using kmalloc_nothing_hangs [of example_arena m] by (auto simp: example_arena_def)

end
