(* ===== verification/Sfs_Sync.thy ===== *)
theory Sfs_Sync
  imports Sfs_Contents
begin

text \<open>
  Inodes on the disk and in memory: the encoding of an inode, writing it back with \<open>sfs_fsync\<close>, loading it with
  \<open>sfs_load_inode\<close>; and the limit of the block map.
\<close>

section \<open>The encoding of an inode\<close>

definition din_wf :: "sfs_disk_inode \<Rightarrow> bool" where
  "din_wf d \<longleftrightarrow> di_size d < 2 ^ 32 \<and> di_type d < 2 ^ 16 \<and> di_nlinks d < 2 ^ 16 \<and> di_blocks d < 2 ^ 32
     \<and> length (di_direct d) = SFS_NDIRECT \<and> (\<forall>b\<in>set (di_direct d). b < 2 ^ 32) \<and> di_indirect d < 2 ^ 32"

lemma le_val_le_bytes_id: "v < 256 ^ n \<Longrightarrow> le_val (le_bytes n v) = v"
  by (simp add: le_val_le_bytes)

lemma length_concat_words: "length (concat (map (le_bytes n) xs)) = n * length xs"
  by (induction xs) simp_all

lemma concat_word_at: "i < length xs \<Longrightarrow> take n (drop (n * i) (concat (map (le_bytes n) xs) @ ys)) = le_bytes n (xs ! i)"
proof (induction xs arbitrary: i)
  case (Cons x xs)
  then show ?case by (cases i) simp_all
qed simp

lemma length_din_bytes: "length (di_direct d) = SFS_NDIRECT \<Longrightarrow> length (din_bytes d) = sizeof_din"
  by (simp add: din_bytes_def length_concat_words SFS_NDIRECT_def sizeof_din_def)

lemma din_of_bytes:
  assumes "din_wf d"
  shows "din_of (din_bytes d @ ys) = d"
proof -
  let ?A = "le_bytes 4 (di_size d) @ le_bytes 2 (di_type d) @ le_bytes 2 (di_nlinks d) @ le_bytes 4 (di_blocks d)"
  let ?D = "concat (map (le_bytes 4) (di_direct d))" and ?E = "le_bytes 4 (di_indirect d) @ ys"
  note w = assms [unfolded din_wf_def]
  have bs: "din_bytes d @ ys = ?A @ ?D @ ?E" by (simp add: din_bytes_def)
  have len: "length ?A = 12" "length ?D = 48" using w by (simp_all add: length_concat_words SFS_NDIRECT_def)
  have word: "take 4 (drop (12 + 4 * i) (din_bytes d @ ys)) = le_bytes 4 (di_direct d ! i)" if "i < 12" for i
  proof -
    have "drop (12 + 4 * i) (din_bytes d @ ys) = drop (4 * i) (?D @ ?E)" unfolding bs using len(1) by simp
    then show ?thesis using concat_word_at [of i "di_direct d" 4 ?E] w that by (simp add: SFS_NDIRECT_def)
  qed
  have "map (\<lambda>i. le_val (take 4 (drop (12 + 4 * i) (din_bytes d @ ys)))) [0..<SFS_NDIRECT] = di_direct d"
  proof (rule nth_equalityI)
    fix i assume "i < length (map (\<lambda>i. le_val (take 4 (drop (12 + 4 * i) (din_bytes d @ ys)))) [0..<SFS_NDIRECT])"
    then have i: "i < 12" "i < length (di_direct d)" using w by (simp_all add: SFS_NDIRECT_def)
    have "di_direct d ! i \<in> set (di_direct d)" by (rule nth_mem [OF i(2)])
    then have "di_direct d ! i < 256 ^ 4" using w by simp
    then show "map (\<lambda>i. le_val (take 4 (drop (12 + 4 * i) (din_bytes d @ ys)))) [0..<SFS_NDIRECT] ! i = di_direct d ! i"
      using i word [OF i(1)] by (simp add: SFS_NDIRECT_def le_val_le_bytes_id)
  qed (use w in simp)
  moreover have "take 4 (drop 60 (din_bytes d @ ys)) = le_bytes 4 (di_indirect d)" unfolding bs using len by simp
  moreover have "take 4 (din_bytes d @ ys) = le_bytes 4 (di_size d)" "take 2 (drop 4 (din_bytes d @ ys)) = le_bytes 2 (di_type d)"
    "take 2 (drop 6 (din_bytes d @ ys)) = le_bytes 2 (di_nlinks d)" "take 4 (drop 8 (din_bytes d @ ys)) = le_bytes 4 (di_blocks d)"
    by (simp_all add: din_bytes_def)
  ultimately show ?thesis using w by (simp add: din_of_def le_val_le_bytes_id)
qed

section \<open>Writing an inode back\<close>

lemma disk_block_kern_mem [simp]: "disk_block b (with_mem m (set_kern k s)) = disk_block b (with_mem m s)"
  by (simp add: disk_block_def)

lemma sfs_fsync_ok:
  assumes "sfs_file f n s" and "sin_dirty (get_sin n s)" and "sin_ino (get_sin n s) \<in> used_blocks f s" and "din_wf (get_din n s)"
  shows "\<exists>t. sfs_fsync V n s = Some (0, t) \<and> fs_to f s t \<and> din_of (disk_block (sin_ino (get_sin n s)) t) = get_din n s
    \<and> get_sin n t = (get_sin n s)\<lparr>sin_dirty := False\<rparr> \<and> (\<forall>k. k \<noteq> n \<longrightarrow> get_sin k t = get_sin k s)
    \<and> (\<forall>b\<in>used_blocks f s. b \<noteq> sin_ino (get_sin n s) \<longrightarrow> disk_block b t = disk_block b s)"
proof -
  let ?ino = "sin_ino (get_sin n s)"
  note d = sfs_fileD [OF assms(1)] and l = lock_inode [OF assms(1)]
  define s1 where "s1 = upd_sin n (\<lambda>x. x\<lparr>sin_dirty := False\<rparr>) (locked n s)"
  have to1: "fs_to f (locked n s) s1" unfolding s1_def by (rule fs_to_upd_sin [OF l(2)])
  have ok1: "sfs_ok f s1" by (rule fs_toD(1) [OF to1])
  have gd: "get_din n s1 = get_din n s" "sin_ino (get_sin n s1) = ?ino" by (simp_all add: s1_def get_din_def)
  have u: "?ino \<noteq> 0" "?ino < sfs_blocks f s1" using used_blockD [OF assms(3)] by (simp_all add: s1_def)
  have len: "length (din_bytes (get_din n s)) = 64" using length_din_bytes assms(4) by (simp add: din_wf_def sizeof_din_def)
  obtain m where m: "sfs_wbuf V f (din_bytes (get_din n s)) ?ino 0 s1 = Some (0, with_mem m s1)"
    "same_off (scratch f s1 \<union> block_region s1 ?ino) (os_mem s1) m"
    "disk_block ?ino (with_mem m s1) = patch 0 (din_bytes (get_din n s)) (disk_block ?ino s1)"
    by (rule sfs_wbuf_ok [OF ok1 u, of 0 "din_bytes (get_din n s)" V]) (use len in auto)
  define t where "t = set_kern (os_kern s) (with_mem m s1)"
  have reg: "scratch f s1 \<union> block_region s1 ?ino \<subseteq> scratch f s1 \<union> fs_disk f s1"
    using block_region_disk [OF sfs_okD(1) [OF ok1] u(2)] by blast
  have to2: "fs_to f (locked n s) (with_mem m s1)" by (rule fs_to_trans [OF to1 fs_to_with_mem [OF ok1 m(2) reg]])
  note un = fs_to_unlock [OF d(1) to2, folded t_def]
  have "unlock_sin V n (with_mem m s1) = Some t" using l(4) [OF un(2)] by (simp add: t_def)
  then have "sfs_fsync V n s = Some (0, t)"
    using l(1,5,6) assms(2) m(1) gd by (simp add: sfs_fsync_def s1_def)
  moreover have "din_of (disk_block ?ino t) = get_din n s"
    using m(3) din_of_bytes [OF assms(4), of "drop 64 (disk_block ?ino s1)"] by (simp add: t_def patch_def len)
  moreover have "disk_block b t = disk_block b s" if "b \<in> used_blocks f s" "b \<noteq> ?ino" for b
    using disk_block_other [OF sfs_okD(1) [OF ok1] m(2), of b] used_blockD [OF that(1)] that(2) by (simp add: t_def s1_def)
  moreover have "get_sin n t = (get_sin n s)\<lparr>sin_dirty := False\<rparr>" "\<forall>k. k \<noteq> n \<longrightarrow> get_sin k t = get_sin k s"
    by (simp_all add: t_def s1_def)
  ultimately show ?thesis using un(1) by blast
qed

section \<open>The limit of the block map\<close>

lemma load_beyond_map: "di_blocks (get_din n s) = MAX_BLOCKS \<Longrightarrow> sfs_bmap_load_nolock V f n MAX_BLOCKS s = None"
  by (simp add: sfs_bmap_load_nolock_def sfs_bmap_get_nolock_def MAX_BLOCKS_def SFS_NDIRECT_def)

lemma io_steps_beyond:
  assumes "di_blocks (get_din n s) = MAX_BLOCKS" and "0 < k"
  shows "io_steps V f n True buf (4096 * MAX_BLOCKS) (4096 * MAX_BLOCKS + k) s = None"
proof -
  note ld = load_beyond_map [OF assms(1), of V f]
  have "io_blocks V f n True buf MAX_BLOCKS 0 j s = None" if "j \<noteq> 0" for j using that ld by (cases j) simp_all
  moreover have "io_part V f n True buf MAX_BLOCKS len 0 s = None" for len using ld by (simp add: io_part_def)
  moreover have "u32 MAX_BLOCKS = MAX_BLOCKS" by (simp add: MAX_BLOCKS_eq)
  ultimately show ?thesis
    using assms(2) by (cases "u32 ((4096 * MAX_BLOCKS + k) div 4096 - MAX_BLOCKS) = 0") (simp_all add: io_steps_def SFS_BLKSIZE_def Let_def)
qed

section \<open>Loading an inode\<close>

definition chained :: "nat \<Rightarrow> nat \<Rightarrow> ucore \<Rightarrow> nat list \<Rightarrow> bool" where
  "chained f ino s ns \<longleftrightarrow> clist (sfs_links (os_data s)) (sfs_hash_list f ino s) (map HashLink ns)"

lemma lookup_loop_eq:
  assumes "clist (sfs_links (os_data s)) l (us @ map HashLink ns)"
  shows "lookup_loop l ino (last (l # us)) s =
    Some (case find (\<lambda>n. sin_ino (get_sin n s) = ino) ns of
       None \<Rightarrow> (None, s)
     | Some n \<Rightarrow> let (c, s1) = inode_ref_inc n s in
         (Some n, if c = 1 then upd_sin n (\<lambda>x. x\<lparr>sin_reclaim_count := sin_reclaim_count x + 1\<rparr>) s1 else s1))"
  using assms
proof (induction ns arbitrary: us)
  case Nil
  have "list_next (last (l # us)) (sfs_links (os_data s)) = l"
  proof (cases us rule: rev_cases)
    case Nil
    then show ?thesis using Nil.prems clist_head_next [of "sfs_links (os_data s)" l "[]"] by (simp add: list_next_def)
  next
    case (snoc vs v)
    then show ?thesis using Nil.prems clist_mid_next [of "sfs_links (os_data s)" l vs v "[]"] by (simp add: list_next_def)
  qed
  then show ?case by (subst lookup_loop.simps) simp
next
  case (Cons n ns)
  have nx: "list_next (last (l # us)) (sfs_links (os_data s)) = HashLink n"
  proof (cases us rule: rev_cases)
    case Nil
    then show ?thesis using Cons.prems clist_head_next [of "sfs_links (os_data s)" l "HashLink n # map HashLink ns"]
      by (simp add: list_next_def)
  next
    case (snoc vs v)
    then show ?thesis using Cons.prems clist_mid_next [of "sfs_links (os_data s)" l vs v "HashLink n # map HashLink ns"]
      by (simp add: list_next_def)
  qed
  have ne: "HashLink n \<noteq> l" using clist_distinct [OF Cons.prems] by auto
  show ?case
  proof (cases "sin_ino (get_sin n s) = ino")
    case True
    then show ?thesis using nx ne by (subst lookup_loop.simps) (simp add: Let_def split: prod.splits)
  next
    case False
    have "lookup_loop l ino (last (l # us)) s = lookup_loop l ino (HashLink n) s"
      using nx ne False by (subst lookup_loop.simps) simp
    then show ?thesis using Cons.IH [of "us @ [HashLink n]"] Cons.prems False by simp
  qed
qed

lemma lookup_sfs_eq:
  assumes "chained f ino s ns"
  shows "lookup_sfs_nolock f ino s =
    Some (case find (\<lambda>n. sin_ino (get_sin n s) = ino) ns of
       None \<Rightarrow> (None, s)
     | Some n \<Rightarrow> let (c, s1) = inode_ref_inc n s in
         (Some n, if c = 1 then upd_sin n (\<lambda>x. x\<lparr>sin_reclaim_count := sin_reclaim_count x + 1\<rparr>) s1 else s1))"
  using lookup_loop_eq [of s "sfs_hash_list f ino s" "[]" ns ino] assms by (simp add: lookup_sfs_nolock_def chained_def)

lemma sem_init_dec: "m \<noteq> n \<Longrightarrow> sem_init n v (sem_dec m k) = sem_dec m (sem_init n v k)"
  by (simp add: sem_init_def sem_dec_def upd_sem_def wait_queue_init_def upd_wait_links_def fun_upd_twist)

lemma lock_free_init: "m \<noteq> n \<Longrightarrow> lock_free m (sem_init n v k) = lock_free m k"
  by (simp add: lock_free_def sem_init_def upd_sem_def wait_queue_init_def upd_wait_links_def wait_queue_first_def
      list_init_def list_next_def)

lemma sfs_ok_cong:
  assumes "sfs_ok f s" and "os_data t = os_data s" and "os_mem t = os_mem s"
    and "lock_free (io_sem f) (os_kern t)" and "lock_free (disk0_sem (os_data s)) (os_kern t)"
  shows "sfs_ok f t" "disk_block b t = disk_block b s" "used_blocks f t = used_blocks f s"
  using assms
  by (simp_all add: sfs_ok_def fs_geo_def disk_ok_def disk_geo_def VALID_IDE_def disk_region_def disk_addr_def dbuf_region_def get_sfs_def
      sfs_blocks_def sbuf_region_def scratch_def fs_disk_def map_region_def free_blocks_def disk_block_def used_blocks_def)

definition set_pool :: "nat list \<Rightarrow> ucore \<Rightarrow> ucore" where
  "set_pool p s = s\<lparr>os_vm := (os_vm s)\<lparr>vm_pool := p\<rparr>\<rparr>"

lemma set_pool_simps [simp]:
  "os_data (set_pool p s) = os_data s" "os_mem (set_pool p s) = os_mem s" "os_kern (set_pool p s) = os_kern s"
  "os_nodes (set_pool p s) = os_nodes s" "vm_pool (os_vm (set_pool p s)) = p"
  by (simp_all add: set_pool_def os_kern_def)

lemma os_kmalloc_free_pool: "vm_pool (os_vm s) = a # p \<Longrightarrow> os_kmalloc s = (Some a, set_pool p s)"
  by (simp add: os_kmalloc_def kmalloc_obj_def set_pool_def)

lemma pool_simps [simp]: "vm_pool (os_vm (locked m s)) = vm_pool (os_vm s)" "os_nodes (locked m s) = os_nodes s"
  "os_kern (locked m s) = sem_dec m (os_kern s)"
  by (simp_all add: locked_def set_kern_def os_kern_def)

text \<open>The new inode.\<close>

definition loaded :: "nat \<Rightarrow> nat \<Rightarrow> nat \<Rightarrow> sfs_disk_inode \<Rightarrow> nat \<Rightarrow> node_ops \<Rightarrow> ucore \<Rightarrow> ucore" where
  "loaded f n dp d ino tab s =
     (let s1 = vop_init n tab (Some f) (upd_node n (\<lambda>x. x\<lparr>in_type := inode_type_sfs_inode_info\<rparr>) s);
        s2 = upd_sin n (\<lambda>_. \<lparr>sin_dp = dp, sin_din = d, sin_ino = ino, sin_dirty = False, sin_reclaim_count = 1\<rparr>) s1
      in set_kern (sem_init n 1 (os_kern s2)) s2)"

lemma sfs_create_inode_loaded:
  assumes "vm_pool (os_vm s) = n # free" and "sfs_get_ops (di_type d) = Some tab"
  shows "sfs_create_inode f dp d ino s = Some (0, Some n, loaded f n dp d ino tab (set_pool free s))"
  using assms by (simp add: sfs_create_inode_def alloc_inode_def os_kmalloc_free_pool loaded_def Let_def)

lemma sfs_upd_node_simps [simp]:
  "os_data (upd_node n g s) = os_data s" "os_kern (upd_node n g s) = os_kern s" "os_mem (upd_node n g s) = os_mem s"
  "os_vm (upd_node n g s) = os_vm s" "os_nodes (upd_node n g s) = (os_nodes s)(n := g (os_nodes s n))"
  by (simp_all add: upd_node_def os_kern_def)

lemma loaded_simps:
  "get_sin k (loaded f n dp d ino tab s) = (if k = n then
     \<lparr>sin_dp = dp, sin_din = d, sin_ino = ino, sin_dirty = False, sin_reclaim_count = 1\<rparr> else get_sin k s)"
  "os_nodes (loaded f n dp d ino tab s) k = (if k = n then
     \<lparr>in_type = inode_type_sfs_inode_info, in_ref = 1, in_open = 0, in_fs = Some f, in_ops = True\<rparr> else os_nodes s k)"
  "optab (os_data (loaded f n dp d ino tab s)) = (optab (os_data s))(n := tab)"
  "os_kern (loaded f n dp d ino tab s) = sem_init n 1 (os_kern s)"
  "sfs_links (os_data (loaded f n dp d ino tab s)) = sfs_links (os_data s)" "get_sfs g (loaded f n dp d ino tab s) = get_sfs g s"
  "vm_pool (os_vm (loaded f n dp d ino tab s)) = vm_pool (os_vm s)" "os_mem (loaded f n dp d ino tab s) = os_mem s"
  by (auto simp: loaded_def vop_init_def inode_init_def inode_ref_inc_def Let_def upd_sin_def upd_data_def get_sin_def get_sfs_def set_kern_def os_kern_def)

lemma sfs_load_inode_fresh:
  assumes "sfs_ok f s" and "lock_free (fs_sem f) (os_kern s)" and "fs_sem f \<noteq> disk0_sem (os_data s)" and "chained f ino s ns"
    and "\<forall>k\<in>set ns. sin_ino (get_sin k s) \<noteq> ino" and "vm_pool (os_vm s) = dp # n # free" and "ino \<in> used_blocks f s"
    and "n \<noteq> fs_sem f" and "n \<notin> set ns" and "clist (sfs_links (os_data s)) (InodeList f) (map InodeLink ms)" and "n \<notin> set ms"
  defines "d \<equiv> din_of (take sizeof_din (disk_block ino s))"
  assumes "di_nlinks d \<noteq> 0" and "sfs_get_ops (di_type d) = Some tab"
  obtains t where "sfs_load_inode V f ino s = Some (0, Some n, t)"
    and "get_sin n t = \<lparr>sin_dp = dp, sin_din = d, sin_ino = ino, sin_dirty = False, sin_reclaim_count = 1\<rparr>"
    and "os_nodes t n = \<lparr>in_type = inode_type_sfs_inode_info, in_ref = 1, in_open = 0, in_fs = Some f, in_ops = True\<rparr>"
    and "optab (os_data t) n = tab" and "lock_free n (os_kern t)" and "chained f ino t (n # ns)"
    and "vm_pool (os_vm t) = free"
    and "\<And>k. k \<noteq> n \<Longrightarrow> get_sin k t = get_sin k s \<and> os_nodes t k = os_nodes s k \<and> optab (os_data t) k = optab (os_data s) k"
proof -
  define s1 where "s1 = locked (fs_sem f) s"
  have dl: "lock_free (disk0_sem (os_data s)) (os_kern s)" "lock_free (io_sem f) (os_kern s)"
    using sfs_okD(1,2) [OF assms(1)] by (auto simp: fs_geo_def disk_ok_def)
  have ne: "io_sem f \<noteq> fs_sem f" by (simp add: io_sem_def fs_sem_def)
  have lk: "lock_sfs_fs f s = Some s1" using assms(2) by (simp add: lock_sfs_fs_def os_down_free s1_def locked_def)
  have ch: "chained f ino s1 ns" using assms(4) by (simp add: chained_def s1_def sfs_hash_list_def)
  have nf: "find (\<lambda>k. sin_ino (get_sin k s1) = ino) ns = None" using assms(5) by (simp add: find_None_iff s1_def)
  have lu: "lookup_sfs_nolock f ino s1 = Some (None, s1)" using lookup_sfs_eq [OF ch] nf by simp
  define s3 where "s3 = set_pool (n # free) s1"
  have km: "os_kmalloc s1 = (Some dp, s3)" unfolding s3_def by (rule os_kmalloc_free_pool) (simp add: s1_def assms(6))
  have d3: "os_data s3 = os_data s" "os_mem s3 = os_mem s" "os_kern s3 = sem_dec (fs_sem f) (os_kern s)" "os_nodes s3 = os_nodes s"
    by (simp_all add: s3_def s1_def)
  have ok3: "sfs_ok f s3" and db: "disk_block ino s3 = disk_block ino s" and ub: "used_blocks f s3 = used_blocks f s"
    using sfs_ok_cong [OF assms(1) d3(1,2)] dl ne assms(3) by (simp_all add: d3(3))
  have u3: "ino \<in> used_blocks f s3" using assms(7) ub by simp
  have u: "ino \<noteq> 0" "ino < sfs_blocks f s3" using used_blockD [OF u3] by auto
  obtain m where m: "sfs_rbuf V f sizeof_din ino 0 s3 = Some (0, take sizeof_din (disk_block ino s), with_mem m s3)"
    by (rule sfs_rbuf_ok [OF ok3 u, of 0 sizeof_din V]) (auto simp: sizeof_din_def db)
  let ?s4 = "with_mem m s3"
  define s5 where "s5 = loaded f n dp d ino tab (set_pool free ?s4)"
  have p4: "vm_pool (os_vm ?s4) = n # free" by (simp add: s3_def)
  have cr: "sfs_create_inode f dp d ino ?s4 = Some (0, Some n, s5)"
    unfolding s5_def by (rule sfs_create_inode_loaded [OF p4 assms(14)])
  define s6 where "s6 = sfs_set_links f n s5"
  define t where "t = set_kern (sem_init n 1 (os_kern s)) s6"
  have k6: "os_kern s6 = sem_dec (fs_sem f) (sem_init n 1 (os_kern s))"
    using assms(8) by (simp add: s6_def s5_def sfs_set_links_def upd_slinks_def Let_def loaded_simps d3(3) sem_init_dec)
  have up: "unlock_sfs_fs V f s6 = Some t"
    using os_up_free [OF k6, of V] assms(2,8) by (simp add: unlock_sfs_fs_def lock_free_init t_def)
  have run: "sfs_load_inode V f ino s = Some (0, Some n, t)"
    using lk lu km used_inuse [OF ok3 u3] m cr up assms(13) by (simp add: sfs_load_inode_def Let_def d_def s6_def)
  have view: "get_sin k t = get_sin k s5" "os_nodes t = os_nodes s5" "optab (os_data t) = optab (os_data s5)" for k
    by (simp_all add: t_def s6_def sfs_set_links_def upd_slinks_def Let_def get_sin_def)
  have lf: "lock_free n (os_kern t)"
    by (simp add: t_def lock_free_def sem_init_def upd_sem_def wait_queue_init_def upd_wait_links_def wait_queue_first_def list_init_def list_next_def)
  have ch5: "clist (sfs_links (os_data s5)) (sfs_hash_list f ino s) (map HashLink ns)"
    using assms(4) by (simp add: chained_def s5_def loaded_simps d3)
  have hl: "sfs_hash_list f ino s = HashList (sf_hash_list (get_sfs f s)) (sin_hashfn ino)" by (simp add: sfs_hash_list_def)
  have "chained f ino t (n # ns)"
  proof -
    let ?L = "list_add (InodeList f) (InodeLink n) (sfs_links (os_data s5))"
    have nx: "lnext (sfs_links (os_data s5)) (InodeList f) \<in> set (InodeList f # map InodeLink ms)"
      using clist_head_next [OF assms(10)] by (cases ms) (auto simp: s5_def loaded_simps d3)
    have "clist ?L (sfs_hash_list f ino s) (map HashLink ns)"
      unfolding list_add_def list_add_after_def by (rule clist_add_frame [OF ch5]) (use nx in \<open>auto simp: hl\<close>)
    then have "clist (list_add (sfs_hash_list f ino s) (HashLink n) ?L) (sfs_hash_list f ino s) (HashLink n # map HashLink ns)"
      by (rule clist_push_front) (use assms(9) in \<open>auto simp: hl\<close>)
    then show ?thesis
      by (simp add: chained_def t_def s6_def sfs_set_links_def upd_slinks_def Let_def sfs_hash_list_def get_sfs_def s5_def loaded_simps
          [unfolded get_sfs_def] d3) (simp add: get_sin_def s5_def loaded_simps [unfolded get_sin_def get_sfs_def])
  qed
  moreover have "vm_pool (os_vm t) = free"
    by (simp add: t_def s6_def sfs_set_links_def upd_slinks_def Let_def set_kern_def s5_def) (simp add: loaded_simps)
  moreover have "get_sin k t = get_sin k s \<and> os_nodes t k = os_nodes s k \<and> optab (os_data t) k = optab (os_data s) k" if "k \<noteq> n" for k
    using that by (simp add: view s5_def loaded_simps d3) (simp add: get_sin_def d3)
  ultimately show thesis using that [OF run] lf by (simp add: view s5_def loaded_simps d3)
qed

section \<open>Properties\<close>

text \<open>\<open>sfs_fsync\<close> of a dirty inode writes it back: decoding its block of the disk gives the inode that is in memory, the
  dirty flag is clear, and no other inode and no other block in use changes.\<close>

theorem sfs_fsync_writes_inode:
  assumes "sfs_file f n s" and "sin_dirty (get_sin n s)" and "sin_ino (get_sin n s) \<in> used_blocks f s" and "din_wf (get_din n s)"
  shows "\<exists>t. sfs_fsync V n s = Some (0, t) \<and> din_of (disk_block (sin_ino (get_sin n s)) t) = get_din n s
    \<and> get_sin n t = (get_sin n s)\<lparr>sin_dirty := False\<rparr> \<and> (\<forall>k. k \<noteq> n \<longrightarrow> get_sin k t = get_sin k s)
    \<and> (\<forall>b\<in>used_blocks f s. b \<noteq> sin_ino (get_sin n s) \<longrightarrow> disk_block b t = disk_block b s)"
  using sfs_fsync_ok [OF assms, of V] by blast

lemma example_dirty:
  "sfs_file 10 20 (set_dirty 20 example_disk)" "sin_ino (get_sin 20 (set_dirty 20 example_disk)) = 1"
  "sin_dirty (get_sin 20 (set_dirty 20 example_disk))" "1 \<in> used_blocks 10 (set_dirty 20 example_disk)"
proof -
  let ?t = "set_dirty 20 example_disk"
  have f: "sfs_file 10 20 example_disk" by (rule example_file) simp
  have to: "fs_to 10 example_disk ?t" by (rule fs_to_upd_din(2) [OF sfs_fileD(1) [OF f]])
  have ub: "used_blocks 10 ?t = used_blocks 10 example_disk" by (simp add: used_blocks_def)
  have k: "os_kern ?t = os_kern example_disk" "os_nodes ?t = os_nodes example_disk" "disk0_sem (os_data ?t) = 3"
    using sfs_frameD(1,2,9) [of example_disk ?t] to by (simp_all add: fs_to_def)
  have "file_ok 10 20 ?t"
    using file_ok_keep [OF sfs_fileD(2) [OF f], of ?t] ub by simp
  then show "sfs_file 10 20 ?t" using f fs_toD(1) [OF to] k by (simp add: sfs_file_def)
  have "sin_ino (get_sin 20 example_disk) = 1" by (simp add: example_disk_def get_sin_def)
  then show "sin_ino (get_sin 20 ?t) = 1" "sin_dirty (get_sin 20 ?t)" by (simp_all add: set_dirty_def)
  show "1 \<in> used_blocks 10 ?t" unfolding ub by (simp add: used_blocks_def example_free sfs_blocks_def)
qed

theorem sfs_fsync_writes_inode_witness:
  "\<exists>t. sfs_fsync (ucore_vops default_sched_class 0) 20 (set_dirty 20 example_disk) = Some (0, t) \<and> din_of (disk_block 1 t) = example_din 2"
  using sfs_fsync_writes_inode [OF example_dirty(1,3), of "ucore_vops default_sched_class 0"] example_dirty(2,4)
  by (auto simp: din_wf_def example_din_def SFS_NDIRECT_def SFS_TYPE_FILE_def)

text \<open>C31: \<open>sfs_load_inode\<close> of an inode that is not in memory, whose block holds a directory or a file with links, with two
  objects left for the copy of the block and for the inode, gives a well-typed one: of the type of SFS inodes, belonging to
  this file system, with the function table of directories for a directory and that of files for a file, the contents of its
  block, an unlocked semaphore, and chained so that the next lookup finds it and takes a reference; other inodes stay as they are.\<close>

theorem sfs_load_inode_typed:
  assumes "sfs_ok f s" and "lock_free (fs_sem f) (os_kern s)" and "fs_sem f \<noteq> disk0_sem (os_data s)" and "chained f ino s ns"
    and "\<forall>k\<in>set ns. sin_ino (get_sin k s) \<noteq> ino" and "vm_pool (os_vm s) = dp # n # free" and "ino \<in> used_blocks f s"
    and "n \<noteq> fs_sem f" and "n \<notin> set ns" and "clist (sfs_links (os_data s)) (InodeList f) (map InodeLink ms)" and "n \<notin> set ms"
    and "di_nlinks (din_of (take sizeof_din (disk_block ino s))) \<noteq> 0"
    and "di_type (din_of (take sizeof_din (disk_block ino s))) = SFS_TYPE_DIR \<and> tab = SfsDir
      \<or> di_type (din_of (take sizeof_din (disk_block ino s))) = SFS_TYPE_FILE \<and> tab = SfsFile"
  shows "\<exists>t. sfs_load_inode V f ino s = Some (0, Some n, t)
    \<and> in_type (os_nodes t n) = inode_type_sfs_inode_info \<and> in_fs (os_nodes t n) = Some f \<and> inode_check n t = Some ()
    \<and> optab (os_data t) n = tab
    \<and> get_din n t = din_of (take sizeof_din (disk_block ino s)) \<and> lock_free n (os_kern t)
    \<and> lookup_sfs_nolock f ino t = Some (Some n, snd (inode_ref_inc n t))
    \<and> (\<forall>k. k \<noteq> n \<longrightarrow> get_sin k t = get_sin k s \<and> os_nodes t k = os_nodes s k \<and> optab (os_data t) k = optab (os_data s) k)"
proof -
  have ops: "sfs_get_ops (di_type (din_of (take sizeof_din (disk_block ino s)))) = Some tab"
    using assms(13) by (auto simp: sfs_get_ops_def SFS_TYPE_DIR_def SFS_TYPE_FILE_def)
  obtain t where t: "sfs_load_inode V f ino s = Some (0, Some n, t)"
    "get_sin n t = \<lparr>sin_dp = dp, sin_din = din_of (take sizeof_din (disk_block ino s)), sin_ino = ino, sin_dirty = False, sin_reclaim_count = 1\<rparr>"
    "os_nodes t n = \<lparr>in_type = inode_type_sfs_inode_info, in_ref = 1, in_open = 0, in_fs = Some f, in_ops = True\<rparr>"
    "optab (os_data t) n = tab" "lock_free n (os_kern t)" "chained f ino t (n # ns)"
    "\<And>k. k \<noteq> n \<Longrightarrow> get_sin k t = get_sin k s \<and> os_nodes t k = os_nodes s k \<and> optab (os_data t) k = optab (os_data s) k"
    using sfs_load_inode_fresh [OF assms(1-12) ops, of V] by metis
  have "lookup_sfs_nolock f ino t = Some (Some n, snd (inode_ref_inc n t))"
    using lookup_sfs_eq [OF t(6)] t(2,3) by (simp add: inode_ref_inc_def inode_ref_count_def Let_def)
  then show ?thesis
    using t
    by (intro exI [of _ t]) (simp add: get_din_def inode_check_def inode_open_count_def inode_ref_count_def MAX_INODE_COUNT_def)
qed

text \<open>The example disk with the root directory in block 1, no inode loaded, two free objects.\<close>

definition root_din :: sfs_disk_inode where
  "root_din = \<lparr>di_size = 0, di_type = SFS_TYPE_DIR, di_nlinks = 1, di_blocks = 0, di_direct = replicate 12 0, di_indirect = 0\<rparr>"

definition example_root :: ucore where
  "example_root = set_pool [50, 51, 52] (example_disk\<lparr>os_mem := write_bytes example_mem 36864
     (din_bytes root_din),
     os_data := (os_data example_disk)\<lparr>sfs_links := \<lparr>lnext = id, lprev = id\<rparr>\<rparr>\<rparr>)"

lemma example_root:
  "sfs_ok 10 example_root" "lock_free m (os_kern example_root)" "disk0_sem (os_data example_root) = 3"
  "sfs_links (os_data example_root) = \<lparr>lnext = id, lprev = id\<rparr>" "vm_pool (os_vm example_root) = [50, 51, 52]" "1 \<in> used_blocks 10 example_root"
  "din_of (take sizeof_din (disk_block 1 example_root)) = root_din"
proof -
  define m where "m = write_bytes example_mem 36864 (din_bytes root_din)"
  have wf: "din_wf root_din" by (simp add: root_din_def din_wf_def SFS_TYPE_DIR_def SFS_NDIRECT_def)
  have len: "length (din_bytes root_din) = 64" using length_din_bytes [of root_din] by (simp add: root_din_def SFS_NDIRECT_def sizeof_din_def)
  have so: "same_off {36864..<36928} (os_mem example_disk) m" unfolding m_def example_simps by (rule same_off_write) (simp add: len)
  have mr: "map_region 10 example_disk \<inter> {36864..<36928} = {}" by (simp add: map_region_def Let_def)
  let ?s = "with_mem m example_disk"
  have ok: "sfs_ok 10 ?s" by (rule sfs_ok_with_mem [OF example_ok so mr])
  have fr: "free_blocks 10 ?s = free_blocks 10 example_disk" by (rule free_blocks_cong [OF so mr])
  have eq: "example_root = set_pool [50, 51, 52] (?s\<lparr>os_data := (os_data example_disk)\<lparr>sfs_links := \<lparr>lnext = id, lprev = id\<rparr>\<rparr>\<rparr>)"
    by (simp add: example_root_def m_def with_mem_def upd_mem_def)
  have v: "os_kern example_root = os_kern example_disk" "os_mem example_root = m"
    "os_data example_root = (os_data example_disk)\<lparr>sfs_links := \<lparr>lnext = id, lprev = id\<rparr>\<rparr>"
    unfolding eq by (simp_all add: set_pool_def os_kern_def)
  show "lock_free m (os_kern example_root)" for m using example_lock v by simp
  show "disk0_sem (os_data example_root) = 3" "sfs_links (os_data example_root) = \<lparr>lnext = id, lprev = id\<rparr>" by (simp_all add: v)
  show "vm_pool (os_vm example_root) = [50, 51, 52]" by (simp add: example_root_def)
  have same: "get_sfs f example_root = get_sfs f ?s" "free_blocks f example_root = free_blocks f ?s" "sfs_blocks f example_root = sfs_blocks f ?s"
    "disk_block b example_root = disk_block b ?s" for f b
    by (simp_all add: free_blocks_def sfs_blocks_def disk_block_def disk_addr_def get_sfs_def v)
  show "1 \<in> used_blocks 10 example_root" by (simp add: used_blocks_def same fr example_free) (simp add: sfs_blocks_def)
  show "sfs_ok 10 example_root"
    using ok example_lock
    by (simp add: sfs_ok_def same v fs_geo_def disk_ok_def disk_geo_def VALID_IDE_def disk_region_def disk_addr_def dbuf_region_def
        sbuf_region_def scratch_def fs_disk_def map_region_def)
  have "take 64 (read_bytes m 36864 4096) = din_bytes root_din"
    using len by (simp add: m_def)
  then show "din_of (take sizeof_din (disk_block 1 example_root)) = root_din"
    using din_of_bytes [OF wf, of "[]"] by (simp add: same disk_block_def disk_addr_def sizeof_din_def v)
qed

theorem sfs_load_inode_typed_witness:
  "\<exists>t. sfs_load_inode (ucore_vops default_sched_class 0) 10 1 example_root = Some (0, Some 51, t) \<and> in_fs (os_nodes t 51) = Some 10
    \<and> lookup_sfs_nolock 10 1 t = Some (Some 51, snd (inode_ref_inc 51 t)) \<and> optab (os_data t) 51 = SfsDir"
proof -
  have c: "chained 10 1 example_root []" "clist (sfs_links (os_data example_root)) (InodeList 10) (map InodeLink [])"
    using clist_unlinked_init by (simp_all add: chained_def example_root(4) clist_def)
  have "\<exists>t. sfs_load_inode (ucore_vops default_sched_class 0) 10 1 example_root = Some (0, Some 51, t)
    \<and> in_type (os_nodes t 51) = inode_type_sfs_inode_info \<and> in_fs (os_nodes t 51) = Some 10 \<and> inode_check 51 t = Some ()
    \<and> optab (os_data t) 51 = SfsDir
    \<and> get_din 51 t = din_of (take sizeof_din (disk_block 1 example_root)) \<and> lock_free 51 (os_kern t)
    \<and> lookup_sfs_nolock 10 1 t = Some (Some 51, snd (inode_ref_inc 51 t))
    \<and> (\<forall>k. k \<noteq> 51 \<longrightarrow> get_sin k t = get_sin k example_root \<and> os_nodes t k = os_nodes example_root k
        \<and> optab (os_data t) k = optab (os_data example_root) k)"
    by (rule sfs_load_inode_typed [OF example_root(1,2) _ c(1) _ example_root(5,6) _ _ c(2)])
      (simp_all add: example_root fs_sem_def root_din_def del: One_nat_def)
  then show ?thesis by auto
qed

text \<open>C32: the size limit of 128 MB is beyond what the block map of 12 direct and 1024 indirect blocks holds: for a file
  that fills its block map, resizing and writing beyond it end in a panic instead of an error, though the offset is
  below the limit.\<close>

theorem sfs_file_limit_panics:
  assumes "in_type (os_nodes s n) = inode_type_sfs_inode_info" and "in_fs (os_nodes s n) = Some f" and "lock_free n (os_kern s)"
    and "di_blocks (get_din n s) = MAX_BLOCKS" and "di_size (get_din n s) \<le> 4096 * MAX_BLOCKS" and "4096 * MAX_BLOCKS < len"
    and "len \<le> SFS_MAX_FILE_SIZE" and "0 < cnt" and "cnt < SFS_MAX_FILE_SIZE"
  shows "sfs_truncfile V n (int len) s = None \<and> sfs_io_nolock V f n buf (int (4096 * MAX_BLOCKS)) cnt True s = None"
proof
  have lk: "lock_sin n s = Some (locked n s)" using assms(3) by (simp add: lock_sin_def os_down_free locked_def)
  have c: "(4096 * 1036 + 4095) div 4096 < (len + 4096 - 1) div 4096 + 1" "(len + 4096 - 1) div 4096 \<le> (134217728 + 4095) div (4096 :: nat)"
    using assms(6,7) div_le_mono [of "4096 * 1036 + 4095" "len + 4096 - 1" 4096] div_le_mono [of "len + 4096 - 1" "134217728 + 4095" 4096]
    by (simp_all add: MAX_BLOCKS_eq SFS_MAX_FILE_SIZE_def)
  have "1036 * 4096 + 4096 \<le> len + 4096 - 1" using assms(6) by (simp add: MAX_BLOCKS_eq)
  then have "1037 \<le> (len + 4096 - 1) div 4096" by (simp add: less_eq_div_iff_mult_less_eq)
  then obtain k where k: "u32 (ROUNDUP_DIV len SFS_BLKSIZE) = MAX_BLOCKS + Suc k"
    using c(2) by (auto simp: ROUNDUP_DIV_def SFS_BLKSIZE_def MAX_BLOCKS_eq dest: le_Suc_ex)
  have "sfs_bmap_load_nolock V f n MAX_BLOCKS (locked n s) = None" using load_beyond_map [of n "locked n s" V f] assms(4) by simp
  then show "sfs_truncfile V n (int len) s = None"
    using assms(1,2,4-7) lk k
    by (simp add: sfs_truncfile_def fs_info_def sin_info_def Let_def)
  show "sfs_io_nolock V f n buf (int (4096 * MAX_BLOCKS)) cnt True s = None"
  proof -
    have "min (4096 * MAX_BLOCKS + cnt) SFS_MAX_FILE_SIZE = 4096 * MAX_BLOCKS + min cnt (SFS_MAX_FILE_SIZE - 4096 * MAX_BLOCKS)"
      by (simp add: MAX_BLOCKS_eq SFS_MAX_FILE_SIZE_def)
    moreover have "io_steps V f n True buf (4096 * MAX_BLOCKS) (4096 * MAX_BLOCKS + min cnt (SFS_MAX_FILE_SIZE - 4096 * MAX_BLOCKS)) s = None"
      by (rule io_steps_beyond) (use assms(4,8) in \<open>simp_all add: MAX_BLOCKS_eq SFS_MAX_FILE_SIZE_def\<close>)
    moreover have "s64 (int (4096 * MAX_BLOCKS) + int cnt) = int (4096 * MAX_BLOCKS + cnt)"
      using assms(9) by (simp add: s64_small MAX_BLOCKS_eq SFS_MAX_FILE_SIZE_def)
    moreover have "nat (int (4096 * MAX_BLOCKS + cnt)) = 4096 * MAX_BLOCKS + cnt" by simp
    moreover have "4096 * MAX_BLOCKS < SFS_MAX_FILE_SIZE" by (simp add: MAX_BLOCKS_eq SFS_MAX_FILE_SIZE_def)
    ultimately show ?thesis
      using assms(8) by (auto simp: sfs_io_nolock_def Let_def nat_mult_distrib kassert_def simp del: of_nat_add of_nat_mult)
  qed
qed

theorem sfs_file_limit_panics_witness:
  "let s = upd_din 20 (\<lambda>d. d\<lparr>di_blocks := MAX_BLOCKS\<rparr>) example_disk in
     sfs_truncfile (ucore_vops default_sched_class 0) 20 5000000 s = None
     \<and> sfs_io_nolock (ucore_vops default_sched_class 0) 10 20 100000 (int (4096 * MAX_BLOCKS)) 1 True s = None"
proof -
  let ?s = "upd_din 20 (\<lambda>d. d\<lparr>di_blocks := MAX_BLOCKS\<rparr>) example_disk"
  have v: "os_nodes (upd_din 20 h example_disk) 20 = os_nodes example_disk 20" "os_kern (upd_din 20 h example_disk) = os_kern example_disk" for h
    by (simp_all add: upd_din_def upd_sin_def)
  have "sfs_truncfile (ucore_vops default_sched_class 0) 20 (int 5000000) ?s = None
     \<and> sfs_io_nolock (ucore_vops default_sched_class 0) 10 20 100000 (int (4096 * MAX_BLOCKS)) 1 True ?s = None"
    by (rule sfs_file_limit_panics) (simp_all add: v example_lock example_din_def MAX_BLOCKS_eq SFS_MAX_FILE_SIZE_def)
  then show ?thesis by (simp add: Let_def)
qed

end
