(* ===== verification/Monitor.thy ===== *)
theory Monitor
  imports Semaphore
begin

text \<open>
  Monitors with condition variables: \<open>kern/sync/monitor.c\<close>.  The semaphores inside a monitor and inside its condition variables
  are named by their addresses.  An operation that sleeps is split there: its first part says whether the caller sleeps, and
  the second part is what it does when it runs again.  The messages on the console are left out.
\<close>

definition upd_mon :: "nat \<Rightarrow> (monitor_t \<Rightarrow> monitor_t) \<Rightarrow> kern \<Rightarrow> kern" where
  "upd_mon m f s = s\<lparr>monitors := (monitors s)(m := f (monitors s m))\<rparr>"

definition upd_cv :: "nat \<Rightarrow> (condvar_t \<Rightarrow> condvar_t) \<Rightarrow> kern \<Rightarrow> kern" where
  "upd_cv v f s = s\<lparr>condvars := (condvars s)(v := f (condvars s v))\<rparr>"

definition init_cv :: "nat \<Rightarrow> nat \<Rightarrow> kern \<Rightarrow> kern" where
  "init_cv mtp v s =
     upd_cv v (\<lambda>x. x\<lparr>cv_owner := mtp\<rparr>) (sem_init (cv_sem (condvars s v)) 0 (upd_cv v (\<lambda>x. x\<lparr>cv_count := 0\<rparr>) s))"

text \<open>\<open>cv\<close> is the array that \<open>kmalloc\<close> returns: the address of each element, or nothing.\<close>

definition monitor_init :: "nat \<Rightarrow> nat \<Rightarrow> (nat \<Rightarrow> nat) option \<Rightarrow> kern \<Rightarrow> kern option" where
  "monitor_init mtp num_cv cv s = do {
     kassert (0 < num_cv);
     let s1 = upd_mon mtp (\<lambda>x. x\<lparr>mt_next_count := 0, mt_cv := []\<rparr>) s;
     let s2 = sem_init (mt_next (monitors s1 mtp)) 0 (sem_init (mt_mutex (monitors s1 mtp)) 1 s1);
     a \<leftarrow> cv;
     let cvs = map a [0..<num_cv];
     Some (fold (init_cv mtp) cvs (upd_mon mtp (\<lambda>x. x\<lparr>mt_cv := cvs\<rparr>) s2))
   }"

text \<open>What \<open>monitor_free\<close> gives back to \<open>kfree\<close>: the array.\<close>

definition monitor_free :: "nat \<Rightarrow> kern \<Rightarrow> nat list" where "monitor_free mtp s = mt_cv (monitors s mtp)"

definition cond_signal_resume :: "nat \<Rightarrow> kern \<Rightarrow> kern" where
  "cond_signal_resume mtp s = upd_mon mtp (\<lambda>x. x\<lparr>mt_next_count := mt_next_count x - 1\<rparr>) s"

text \<open>\<open>w\<close> is the entry of the caller in a wait queue.\<close>

definition cond_signal :: "sched_class \<Rightarrow> nat \<Rightarrow> nat \<Rightarrow> kern \<Rightarrow> (bool \<times> kern) option" where
  "cond_signal sc w cvp s =
     (if 0 < cv_count (condvars s cvp)
      then do {
        let mtp = cv_owner (condvars s cvp);
        let s1 = upd_mon mtp (\<lambda>x. x\<lparr>mt_next_count := mt_next_count x + 1\<rparr>) s;
        s2 \<leftarrow> up sc (cv_sem (condvars s1 cvp)) s1;
        (sleeps, s3) \<leftarrow> down_enter sc (mt_next (monitors s2 mtp)) w s2;
        Some (sleeps, if sleeps then s3 else cond_signal_resume mtp s3)
      }
      else Some (False, s))"

definition cond_signal_wake :: "nat \<Rightarrow> nat \<Rightarrow> kern \<Rightarrow> kern option" where
  "cond_signal_wake w mtp s = do { s1 \<leftarrow> down_resume (mt_next (monitors s mtp)) w s; Some (cond_signal_resume mtp s1) }"

text \<open>Leaving the monitor, in \<open>cond_wait\<close> and at the end of every routine of a monitor.\<close>

definition monitor_leave :: "sched_class \<Rightarrow> nat \<Rightarrow> kern \<Rightarrow> kern option" where
  "monitor_leave sc mtp s =
     (if 0 < mt_next_count (monitors s mtp) then up sc (mt_next (monitors s mtp)) s else up sc (mt_mutex (monitors s mtp)) s)"

definition cond_wait_resume :: "nat \<Rightarrow> kern \<Rightarrow> kern" where
  "cond_wait_resume cvp s = upd_cv cvp (\<lambda>x. x\<lparr>cv_count := cv_count x - 1\<rparr>) s"

definition cond_wait :: "sched_class \<Rightarrow> nat \<Rightarrow> nat \<Rightarrow> kern \<Rightarrow> (bool \<times> kern) option" where
  "cond_wait sc w cvp s = do {
     let s1 = upd_cv cvp (\<lambda>x. x\<lparr>cv_count := cv_count x + 1\<rparr>) s;
     s2 \<leftarrow> monitor_leave sc (cv_owner (condvars s1 cvp)) s1;
     (sleeps, s3) \<leftarrow> down_enter sc (cv_sem (condvars s2 cvp)) w s2;
     Some (sleeps, if sleeps then s3 else cond_wait_resume cvp s3)
   }"

definition cond_wait_wake :: "nat \<Rightarrow> nat \<Rightarrow> kern \<Rightarrow> kern option" where
  "cond_wait_wake w cvp s = do { s1 \<leftarrow> down_resume (cv_sem (condvars s cvp)) w s; Some (cond_wait_resume cvp s1) }"

end
