(* ===== verification/Philosophers.thy ===== *)
theory Philosophers
  imports Semaphore
begin

text \<open>
  \<open>kern/sync/check_sync.c\<close>: five philosophers who synchronise with semaphores.  A philosopher is at one of the
  points between two statements of its code (\<open>pc\<close>); a step of it executes one statement, and the philosophers' steps interleave
  in any order.  The semaphores are taken at the level of their contract: a value and the queue of the sleepers, of whom
  \<open>up\<close> hands its unit to the first; the lemmas before the model relate this to the code of \<open>kern/sync/sem.c\<close>.
\<close>

section \<open>Semaphores by contract\<close>

record asem =
  as_value :: int
  as_queue :: "nat list"

definition a_init :: "int \<Rightarrow> asem" where "a_init v = \<lparr>as_value = v, as_queue = []\<rparr>"

text \<open>The boolean says whether the caller goes on; otherwise it sleeps in the queue.\<close>

definition a_down :: "nat \<Rightarrow> asem \<Rightarrow> bool \<times> asem" where
  "a_down p x = (if 0 < as_value x then (True, x\<lparr>as_value := as_value x - 1\<rparr>) else (False, x\<lparr>as_queue := as_queue x @ [p]\<rparr>))"

text \<open>The sleeper that is handed the unit, if there is one.\<close>

definition a_up :: "asem \<Rightarrow> nat option \<times> asem" where
  "a_up x = (case as_queue x of [] \<Rightarrow> (None, x\<lparr>as_value := as_value x + 1\<rparr>) | p # ps \<Rightarrow> (Some p, x\<lparr>as_queue := ps\<rparr>))"

definition sem_abs :: "nat \<Rightarrow> kern \<Rightarrow> asem \<Rightarrow> bool" where
  "sem_abs m s x \<longleftrightarrow> sem_value (sems s m) = as_value x \<and> wait_list s m (as_queue x)"

lemma wait_list_unique:
  assumes "wait_list s q ws" and "wait_list s q us"
  shows "ws = us"
proof -
  have "map WaitLink ws = map WaitLink us" using assms by (auto simp: wait_list_def intro: clist_unique)
  then show ?thesis by (simp add: inj_map_eq_map inj_on_def)
qed

context sched_policy begin

lemma sem_good_abs: "sem_good m n i ws c s H W \<Longrightarrow> sem_abs m s \<lparr>as_value = sem_value (sems s m), as_queue = ws\<rparr>"
  by (simp add: sem_good_def sem_abs_def)

lemma down_enter_abs:
  assumes g: "sem_good m n i ws c s H W" and "sem_abs m s x" and "c \<notin> H" "c \<noteq> i"
  shows "\<exists>t. down_enter sc m c s = Some (\<not> fst (a_down c x), t) \<and> sem_abs m t (snd (a_down c x))"
proof -
  have x: "as_value x = sem_value (sems s m)" "as_queue x = ws"
    using assms(2) sem_goodD(7) [OF g] wait_list_unique by (auto simp: sem_abs_def)
  show ?thesis
  proof (cases "0 < sem_value (sems s m)")
    case True
    then show ?thesis
      using assms(2) x by (auto simp: down_enter_def sem_down_enter_def a_down_def sem_abs_def wait_list_def)
  next
    case False
    obtain t c' where t: "down_enter sc m c s = Some (True, t)" "sem_good m n i (ws @ [c]) c' t H W"
      using down_blocks [OF g False assms(3,4)] by blast
    have "sem_value (sems t m) = sem_value (sems s m)"
      using sem_goodD(2) [OF g] sem_goodD(2) [OF t(2)] by simp
    then show ?thesis using t(1) sem_good_abs [OF t(2)] x False by (auto simp: a_down_def sem_abs_def)
  qed
qed

lemma up_abs:
  assumes g: "sem_good m n i ws c s H W" and "sem_abs m s x" and "c \<in> H" "c \<notin> W"
  shows "\<exists>t. up sc m s = Some t \<and> sem_abs m t (snd (a_up x)) \<and> wait_queue_first m s = fst (a_up x)"
proof -
  have x: "as_value x = sem_value (sems s m)" "as_queue x = ws"
    using assms(2) sem_goodD(7) [OF g] wait_list_unique by (auto simp: sem_abs_def)
  show ?thesis
  proof (cases ws)
    case Nil
    note u = up_free [OF g [unfolded Nil] assms(3,4)]
    have "wait_queue_first m s = None" using wait_first [of s m "[]"] sem_goodD(7) [OF g] Nil by simp
    then show ?thesis using u(1) sem_good_abs [OF u(2)] x Nil by (auto simp: a_up_def sem_abs_def)
  next
    case (Cons w ws')
    obtain t where t: "wait_queue_first m s = Some w" "up sc m s = Some t" "sem_good m n i ws' c t (insert w (H - {c})) (insert w W)"
      using up_hands_over [OF g [unfolded Cons] assms(3,4)] by blast
    have "sem_value (sems t m) = sem_value (sems s m)"
      using sem_goodD(4) [OF g] sem_goodD(1,2,3,6) [OF g] sem_goodD(2) [OF t(3)] Cons assms(3) card_Suc_Diff1 [of H c]
      by auto
    then show ?thesis using t sem_good_abs [OF t(3)] x Cons by (auto simp: a_up_def sem_abs_def)
  qed
qed

end

section \<open>The philosophers\<close>

definition N :: nat where "N = 5"
definition TIMES :: nat where "TIMES = 4"
definition LEFT :: "nat \<Rightarrow> nat" where "LEFT i = (i + N - 1) mod N"
definition RIGHT :: "nat \<Rightarrow> nat" where "RIGHT i = (i + 1) mod N"

datatype phase = THINKING | HUNGRY | EATING

text \<open>The points of \<open>philosopher_using_semaphore\<close>: before \<open>phi_take_forks_sema\<close> (\<open>Think\<close>), asleep in \<open>down(&mutex)\<close>
  (\<open>TakeSleep\<close>), before each of its further statements, asleep in \<open>down(&s[i])\<close> (\<open>ForkSleep\<close>), before
  \<open>phi_put_forks_sema\<close> (\<open>Eat\<close>), before the statements of that function, and after the loop.\<close>

datatype pc = Think | TakeSleep | TakeHungry | TakeTest | TakeUp | TakeDown | ForkSleep
  | Eat | PutSleep | PutThink | PutLeft | PutRight | PutUp | Quit

record table =
  state_sema :: "nat \<Rightarrow> phase"
  mutex_sema :: asem
  fork_sema :: "nat \<Rightarrow> asem"
  at_pc :: "nat \<Rightarrow> pc"
  iter :: "nat \<Rightarrow> nat"

definition goto :: "nat \<Rightarrow> pc \<Rightarrow> table \<Rightarrow> table" where "goto i p s = s\<lparr>at_pc := (at_pc s)(i := p)\<rparr>"

text \<open>Where a sleeper goes on when it is handed a unit.\<close>

fun woken :: "pc \<Rightarrow> pc" where
  "woken TakeSleep = TakeHungry"
| "woken PutSleep = PutThink"
| "woken ForkSleep = Eat"
| "woken p = p"

definition wake :: "nat option \<Rightarrow> table \<Rightarrow> table" where
  "wake w s = (case w of None \<Rightarrow> s | Some p \<Rightarrow> goto p (woken (at_pc s p)) s)"

definition down_mutex :: "nat \<Rightarrow> pc \<Rightarrow> pc \<Rightarrow> table \<Rightarrow> table" where
  "down_mutex i run sleep s =
     (let (ok, x) = a_down i (mutex_sema s) in goto i (if ok then run else sleep) (s\<lparr>mutex_sema := x\<rparr>))"

definition up_mutex :: "table \<Rightarrow> table" where
  "up_mutex s = (let (w, x) = a_up (mutex_sema s) in wake w (s\<lparr>mutex_sema := x\<rparr>))"

definition down_fork :: "nat \<Rightarrow> table \<Rightarrow> table" where
  "down_fork i s =
     (let (ok, x) = a_down i (fork_sema s i) in goto i (if ok then Eat else ForkSleep) (s\<lparr>fork_sema := (fork_sema s)(i := x)\<rparr>))"

definition up_fork :: "nat \<Rightarrow> table \<Rightarrow> table" where
  "up_fork i s = (let (w, x) = a_up (fork_sema s i) in wake w (s\<lparr>fork_sema := (fork_sema s)(i := x)\<rparr>))"

definition set_phase :: "nat \<Rightarrow> phase \<Rightarrow> table \<Rightarrow> table" where
  "set_phase i p s = s\<lparr>state_sema := (state_sema s)(i := p)\<rparr>"

definition phi_test_sema :: "nat \<Rightarrow> table \<Rightarrow> table" where
  "phi_test_sema i s =
     (if state_sema s i = HUNGRY \<and> state_sema s (LEFT i) \<noteq> EATING \<and> state_sema s (RIGHT i) \<noteq> EATING
      then up_fork i (set_phase i EATING s) else s)"

text \<open>One step of philosopher \<open>i\<close>; none if it sleeps or has quit.\<close>

fun phi_step_at :: "pc \<Rightarrow> nat \<Rightarrow> table \<Rightarrow> table option" where
  "phi_step_at Think i s = Some
     (if iter s i < TIMES then down_mutex i TakeHungry TakeSleep (s\<lparr>iter := (iter s)(i := iter s i + 1)\<rparr>) else goto i Quit s)"
| "phi_step_at TakeHungry i s = Some (goto i TakeTest (set_phase i HUNGRY s))"
| "phi_step_at TakeTest i s = Some (goto i TakeUp (phi_test_sema i s))"
| "phi_step_at TakeUp i s = Some (goto i TakeDown (up_mutex s))"
| "phi_step_at TakeDown i s = Some (down_fork i s)"
| "phi_step_at Eat i s = Some (down_mutex i PutThink PutSleep s)"
| "phi_step_at PutThink i s = Some (goto i PutLeft (set_phase i THINKING s))"
| "phi_step_at PutLeft i s = Some (goto i PutRight (phi_test_sema (LEFT i) s))"
| "phi_step_at PutRight i s = Some (goto i PutUp (phi_test_sema (RIGHT i) s))"
| "phi_step_at PutUp i s = Some (goto i Think (up_mutex s))"
| "phi_step_at _ i s = None"

definition phi_step :: "nat \<Rightarrow> table \<Rightarrow> table option" where "phi_step i s = phi_step_at (at_pc s i) i s"

definition table_init :: table where
  "table_init = \<lparr>state_sema = (\<lambda>_. THINKING), mutex_sema = a_init 1, fork_sema = (\<lambda>_. a_init 0), at_pc = (\<lambda>_. Think), iter = (\<lambda>_. 0)\<rparr>"

inductive dining :: "table \<Rightarrow> bool" where
  start: "dining table_init"
| step: "dining s \<Longrightarrow> i < N \<Longrightarrow> phi_step i s = Some t \<Longrightarrow> dining t"

section \<open>The invariant\<close>

definition inside :: "pc \<Rightarrow> bool" where
  "inside p \<longleftrightarrow> p \<in> {TakeHungry, TakeTest, TakeUp, PutThink, PutLeft, PutRight, PutUp}"

definition mutex_ok :: "table \<Rightarrow> bool" where
  "mutex_ok s \<longleftrightarrow>
     (if as_value (mutex_sema s) = 0 then \<exists>h<N. \<forall>i<N. inside (at_pc s i) \<longleftrightarrow> i = h
      else as_value (mutex_sema s) = 1 \<and> as_queue (mutex_sema s) = [] \<and> (\<forall>i<N. \<not> inside (at_pc s i)))
     \<and> distinct (as_queue (mutex_sema s))
     \<and> (\<forall>i. i \<in> set (as_queue (mutex_sema s)) \<longleftrightarrow> i < N \<and> at_pc s i \<in> {TakeSleep, PutSleep})"

definition fork_ok :: "table \<Rightarrow> nat \<Rightarrow> bool" where
  "fork_ok s i \<longleftrightarrow> as_queue (fork_sema s i) = (if at_pc s i = ForkSleep then [i] else [])
     \<and> as_value (fork_sema s i) = (if state_sema s i = EATING \<and> at_pc s i \<in> {TakeUp, TakeDown} then 1 else 0)
     \<and> (case state_sema s i of
          THINKING \<Rightarrow> at_pc s i \<in> {Think, TakeSleep, TakeHungry, PutLeft, PutRight, PutUp, Quit}
        | HUNGRY \<Rightarrow> at_pc s i \<in> {TakeTest, TakeUp, TakeDown, ForkSleep}
        | EATING \<Rightarrow> at_pc s i \<in> {TakeUp, TakeDown, Eat, PutSleep, PutThink})"

definition apart :: "table \<Rightarrow> nat \<Rightarrow> bool" where
  "apart s i \<longleftrightarrow> \<not> (state_sema s i = EATING \<and> state_sema s (RIGHT i) = EATING)"

text \<open>A hungry philosopher waits for a neighbour who eats, or somebody is about to test it.\<close>

definition waits_for :: "table \<Rightarrow> nat \<Rightarrow> bool" where
  "waits_for s i \<longleftrightarrow> (state_sema s i = HUNGRY \<longrightarrow>
     state_sema s (LEFT i) = EATING \<or> state_sema s (RIGHT i) = EATING \<or> at_pc s i = TakeTest
     \<or> at_pc s (RIGHT i) = PutLeft \<or> at_pc s (LEFT i) \<in> {PutLeft, PutRight})"

definition table_ok :: "table \<Rightarrow> bool" where
  "table_ok s \<longleftrightarrow> mutex_ok s \<and> (\<forall>i<N. fork_ok s i \<and> apart s i \<and> waits_for s i)"

lemma below_N: "i < N \<Longrightarrow> i = 0 \<or> i = 1 \<or> i = 2 \<or> i = 3 \<or> i = 4"
  by (simp add: N_def) arith

lemma neighbours:
  assumes "i < N"
  shows "LEFT i < N" "RIGHT i < N" "LEFT (RIGHT i) = i" "RIGHT (LEFT i) = i" "LEFT i \<noteq> i" "RIGHT i \<noteq> i" "LEFT i \<noteq> RIGHT i"
  using below_N [OF assms] by (elim disjE; simp add: LEFT_def RIGHT_def N_def)+

lemma goto_simps [simp]:
  "state_sema (goto i p s) = state_sema s" "mutex_sema (goto i p s) = mutex_sema s" "fork_sema (goto i p s) = fork_sema s"
  "at_pc (goto i p s) = (at_pc s)(i := p)" "iter (goto i p s) = iter s"
  by (simp_all add: goto_def)

lemma set_phase_simps [simp]:
  "state_sema (set_phase i p s) = (state_sema s)(i := p)" "mutex_sema (set_phase i p s) = mutex_sema s"
  "fork_sema (set_phase i p s) = fork_sema s" "at_pc (set_phase i p s) = at_pc s" "iter (set_phase i p s) = iter s"
  by (simp_all add: set_phase_def)

lemma wake_simps [simp]:
  "state_sema (wake w s) = state_sema s" "mutex_sema (wake w s) = mutex_sema s" "fork_sema (wake w s) = fork_sema s" "iter (wake w s) = iter s"
  "at_pc (wake None s) = at_pc s" "at_pc (wake (Some p) s) = (at_pc s)(p := woken (at_pc s p))"
  by (simp_all add: wake_def split: option.split)

text \<open>Moves that involve the mutex only.\<close>

definition plain_move :: "pc \<Rightarrow> pc \<Rightarrow> bool" where
  "plain_move p q \<longleftrightarrow> p = q \<or> (p, q) \<in> {(Think, TakeHungry), (Think, TakeSleep), (Think, Quit), (TakeSleep, TakeHungry),
     (TakeUp, TakeDown), (Eat, PutThink), (Eat, PutSleep), (PutSleep, PutThink), (PutUp, Think)}"

lemma plain_pc:
  assumes "plain_move p q"
  shows "q \<in> {Think, TakeSleep, TakeHungry, PutLeft, PutRight, PutUp, Quit} \<longleftrightarrow> p \<in> {Think, TakeSleep, TakeHungry, PutLeft, PutRight, PutUp, Quit}"
    "q \<in> {TakeTest, TakeUp, TakeDown, ForkSleep} \<longleftrightarrow> p \<in> {TakeTest, TakeUp, TakeDown, ForkSleep}"
    "q \<in> {TakeUp, TakeDown, Eat, PutSleep, PutThink} \<longleftrightarrow> p \<in> {TakeUp, TakeDown, Eat, PutSleep, PutThink}"
    "q \<in> {TakeUp, TakeDown} \<longleftrightarrow> p \<in> {TakeUp, TakeDown}" "q \<in> {PutLeft, PutRight} \<longleftrightarrow> p \<in> {PutLeft, PutRight}"
    "q = ForkSleep \<longleftrightarrow> p = ForkSleep" "q = TakeTest \<longleftrightarrow> p = TakeTest" "q = PutLeft \<longleftrightarrow> p = PutLeft"
  using assms unfolding plain_move_def by (elim disjE insertE; simp)+

lemma plain_table_ok:
  assumes "table_ok s" and "mutex_ok t" and "state_sema t = state_sema s" and "fork_sema t = fork_sema s"
    and "\<And>j. plain_move (at_pc s j) (at_pc t j)"
  shows "table_ok t"
proof -
  note pc = plain_pc [OF assms(5)]
  have "fork_ok t j = fork_ok s j" "apart t j = apart s j" "waits_for t j = waits_for s j" for j
    unfolding fork_ok_def apart_def waits_for_def assms(3,4) pc by (rule refl)+
  then show ?thesis using assms(1,2) by (simp add: table_ok_def)
qed

lemma mutex_ok_pc:
  assumes "mutex_ok s" and "mutex_sema t = mutex_sema s" and "\<And>j. inside (at_pc t j) = inside (at_pc s j)"
    and "\<And>j. at_pc t j \<in> {TakeSleep, PutSleep} \<longleftrightarrow> at_pc s j \<in> {TakeSleep, PutSleep}"
  shows "mutex_ok t"
  using assms(1) unfolding mutex_ok_def assms(2-4) .

lemma down_mutex_ok:
  assumes "mutex_ok s" and "i < N" and "\<not> inside (at_pc s i)" and "at_pc s i \<notin> {TakeSleep, PutSleep}"
    and "inside run" and "\<not> inside sleep" and "sleep \<in> {TakeSleep, PutSleep}"
  shows "mutex_ok (down_mutex i run sleep s)"
proof (cases "as_value (mutex_sema s) = 0")
  case True
  have "i \<notin> set (as_queue (mutex_sema s))" using assms(1,4) by (simp add: mutex_ok_def)
  then show ?thesis using assms True unfolding mutex_ok_def down_mutex_def a_down_def by auto
next
  case False
  then have v: "as_value (mutex_sema s) = 1" "as_queue (mutex_sema s) = []" "\<forall>i<N. \<not> inside (at_pc s i)"
    and q: "\<forall>j. j < N \<longrightarrow> at_pc s j \<noteq> TakeSleep \<and> at_pc s j \<noteq> PutSleep"
    using assms(1) by (auto simp: mutex_ok_def)
  have "run \<noteq> TakeSleep" "run \<noteq> PutSleep" using assms(5) by (auto simp: inside_def)
  then show ?thesis using v q assms(2,5) unfolding mutex_ok_def down_mutex_def a_down_def by auto
qed

lemma up_mutex_ok:
  assumes "mutex_ok s" and "i < N" and "inside (at_pc s i)" and "\<not> inside p" and "p \<notin> {TakeSleep, PutSleep}"
  shows "mutex_ok (goto i p (up_mutex s))"
proof -
  have v: "as_value (mutex_sema s) = 0" and h: "\<And>j. j < N \<Longrightarrow> inside (at_pc s j) \<longleftrightarrow> j = i"
    and q: "distinct (as_queue (mutex_sema s))" "\<And>j. j \<in> set (as_queue (mutex_sema s)) \<longleftrightarrow> j < N \<and> at_pc s j \<in> {TakeSleep, PutSleep}"
    using assms(1-3) by (auto simp: mutex_ok_def split: if_splits)
  show ?thesis
  proof (cases "as_queue (mutex_sema s)")
    case Nil
    then show ?thesis
      using v h q assms(2,4,5) unfolding mutex_ok_def up_mutex_def a_up_def by auto
  next
    case (Cons w ws)
    have w: "w < N" "at_pc s w \<in> {TakeSleep, PutSleep}" using q(2) [of w] Cons by simp_all
    then have "\<not> inside (at_pc s w)" by (auto simp: inside_def)
    then have wi: "w \<noteq> i" using assms(3) by blast
    have wn: "w \<notin> set ws" using q(1) Cons by simp
    have wk: "inside (woken (at_pc s w))" "woken (at_pc s w) \<notin> {TakeSleep, PutSleep}" using w(2) by (auto simp: inside_def)
    let ?t = "goto i p (up_mutex s)"
    have t: "mutex_sema ?t = (mutex_sema s)\<lparr>as_queue := ws\<rparr>" "at_pc ?t = (at_pc s)(w := woken (at_pc s w), i := p)"
      by (simp_all add: up_mutex_def a_up_def Cons)
    have "inside (at_pc ?t j) \<longleftrightarrow> j = w" if "j < N" for j
      unfolding t(2) using h [OF that] wi wk(1) assms(4) by simp
    moreover have "j \<in> set ws \<longleftrightarrow> j < N \<and> at_pc ?t j \<in> {TakeSleep, PutSleep}" for j
    proof -
      have "at_pc s i \<notin> {TakeSleep, PutSleep}" using assms(3) by (auto simp: inside_def)
      moreover have "j \<in> set ws \<longleftrightarrow> j \<noteq> w \<and> j < N \<and> at_pc s j \<in> {TakeSleep, PutSleep}" using q(2) [of j] wn by (auto simp: Cons)
      ultimately show ?thesis unfolding t(2) using wk(2) assms(5) wi by (cases "j = i"; cases "j = w") simp_all
    qed
    moreover have "distinct ws" using q(1) Cons by simp
    moreover have "as_value ((mutex_sema s)\<lparr>as_queue := ws\<rparr>) = 0" by (simp add: v)
    ultimately show ?thesis unfolding mutex_ok_def t(1) using w(1) by simp blast
  qed
qed

lemma only_inside: "mutex_ok s \<Longrightarrow> i < N \<Longrightarrow> inside (at_pc s i) \<Longrightarrow> j < N \<Longrightarrow> inside (at_pc s j) \<Longrightarrow> j = i"
  by (auto simp: mutex_ok_def split: if_splits)

lemma up_mutex_simps [simp]:
  "state_sema (up_mutex s) = state_sema s" "fork_sema (up_mutex s) = fork_sema s" "iter (up_mutex s) = iter s"
  by (simp_all add: up_mutex_def split: prod.split)

lemma up_mutex_moves:
  assumes "mutex_ok s" and "i < N" and "inside (at_pc s i)" and "plain_move (at_pc s i) p"
  shows "plain_move (at_pc s j) (at_pc (goto i p (up_mutex s)) j)"
proof (cases "j = i")
  case True
  then show ?thesis using assms(4) by simp
next
  case False
  show ?thesis
  proof (cases "as_queue (mutex_sema s)")
    case Nil
    then show ?thesis using False by (simp add: up_mutex_def a_up_def plain_move_def)
  next
    case (Cons w ws)
    then have "w \<in> set (as_queue (mutex_sema s))" by simp
    then have "at_pc s w \<in> {TakeSleep, PutSleep}" using assms(1) by (simp add: mutex_ok_def)
    then show ?thesis using False Cons by (auto simp: up_mutex_def a_up_def plain_move_def)
  qed
qed

text \<open>The effect of \<open>phi_test_sema\<close>.\<close>

lemma up_fork_simps [simp]:
  "state_sema (up_fork j s) = state_sema s" "mutex_sema (up_fork j s) = mutex_sema s" "iter (up_fork j s) = iter s"
  by (simp_all add: up_fork_def split: prod.split)

lemma test_other [simp]:
  "mutex_sema (phi_test_sema j s) = mutex_sema s" "iter (phi_test_sema j s) = iter s"
  "k \<noteq> j \<Longrightarrow> state_sema (phi_test_sema j s) k = state_sema s k"
  by (simp_all add: phi_test_sema_def)

lemma test_cases:
  assumes "fork_ok s j"
  obtains (no) "phi_test_sema j s = s" "state_sema s j = HUNGRY \<Longrightarrow> state_sema s (LEFT j) = EATING \<or> state_sema s (RIGHT j) = EATING"
  | (asleep) "state_sema s j = HUNGRY" "state_sema s (LEFT j) \<noteq> EATING" "state_sema s (RIGHT j) \<noteq> EATING" "at_pc s j = ForkSleep"
      "phi_test_sema j s = s\<lparr>state_sema := (state_sema s)(j := EATING), fork_sema := (fork_sema s)(j := a_init 0), at_pc := (at_pc s)(j := Eat)\<rparr>"
  | (awake) "state_sema s j = HUNGRY" "state_sema s (LEFT j) \<noteq> EATING" "state_sema s (RIGHT j) \<noteq> EATING" "at_pc s j \<in> {TakeTest, TakeUp, TakeDown}"
      "phi_test_sema j s = s\<lparr>state_sema := (state_sema s)(j := EATING), fork_sema := (fork_sema s)(j := a_init 1)\<rparr>"
proof (cases "state_sema s j = HUNGRY \<and> state_sema s (LEFT j) \<noteq> EATING \<and> state_sema s (RIGHT j) \<noteq> EATING")
  case False
  then show ?thesis using no by (auto simp: phi_test_sema_def)
next
  case True
  then have f: "as_queue (fork_sema s j) = (if at_pc s j = ForkSleep then [j] else [])" "as_value (fork_sema s j) = 0"
    "at_pc s j \<in> {TakeTest, TakeUp, TakeDown, ForkSleep}"
    using assms by (auto simp: fork_ok_def)
  have eq: "fork_sema s j = \<lparr>as_value = 0, as_queue = if at_pc s j = ForkSleep then [j] else []\<rparr>"
    using f(1,2) by (cases "fork_sema s j") simp
  show ?thesis
  proof (cases "at_pc s j = ForkSleep")
    case fs: True
    then have "phi_test_sema j s = s\<lparr>state_sema := (state_sema s)(j := EATING), fork_sema := (fork_sema s)(j := a_init 0), at_pc := (at_pc s)(j := Eat)\<rparr>"
      using f True eq by (simp add: phi_test_sema_def up_fork_def a_up_def wake_def goto_def set_phase_def a_init_def)
    then show ?thesis using asleep True fs by blast
  next
    case fs: False
    then have "phi_test_sema j s = s\<lparr>state_sema := (state_sema s)(j := EATING), fork_sema := (fork_sema s)(j := a_init 1)\<rparr>"
      using f True eq by (simp add: phi_test_sema_def up_fork_def a_up_def wake_def set_phase_def a_init_def)
    then show ?thesis using awake True fs f(3) by blast
  qed
qed

lemma fork_ok_cong:
  "fork_sema t k = fork_sema s k \<Longrightarrow> state_sema t k = state_sema s k \<Longrightarrow> at_pc t k = at_pc s k \<Longrightarrow> fork_ok t k = fork_ok s k"
  by (simp only: fork_ok_def)

lemma test_ok:
  assumes "\<forall>k<N. fork_ok s k \<and> apart s k" and "j < N" and "at_pc s j \<noteq> TakeTest"
  defines "u \<equiv> phi_test_sema j s"
  shows "k < N \<Longrightarrow> fork_ok u k \<and> apart u k" and "waits_for u j" and "k < N \<Longrightarrow> waits_for s k \<Longrightarrow> waits_for u k"
    and "mutex_ok s \<Longrightarrow> mutex_ok u"
proof -
  have fj: "fork_ok s j" using assms(1,2) by blast
  have "(\<forall>k<N. fork_ok u k \<and> apart u k) \<and> waits_for u j \<and> (\<forall>k<N. waits_for s k \<longrightarrow> waits_for u k) \<and> (mutex_ok s \<longrightarrow> mutex_ok u)"
    using fj
  proof (cases rule: test_cases)
    case no
    then show ?thesis using assms(1,2) by (auto simp: u_def waits_for_def)
  next
    case asleep
    have st: "state_sema u = (state_sema s)(j := EATING)" "fork_sema u = (fork_sema s)(j := a_init 0)" "at_pc u = (at_pc s)(j := Eat)"
      by (simp_all add: u_def asleep(5))
    have "fork_ok u k" if "k < N" for k
      using assms(1) that fork_ok_cong [of u k s] by (cases "k = j") (simp_all add: st, simp add: fork_ok_def st a_init_def)
    moreover have "apart u k" if "k < N" for k
      using assms(1) that asleep(2,3) neighbours [OF that] unfolding apart_def st by auto
    moreover have "waits_for u j" by (simp add: waits_for_def st)
    moreover have "waits_for u k" if "waits_for s k" for k
      using that asleep(4) unfolding waits_for_def st by auto
    moreover have "mutex_ok u" if "mutex_ok s"
      by (rule mutex_ok_pc [OF that]) (use asleep(4) st in \<open>auto simp: u_def inside_def\<close>)
    ultimately show ?thesis by blast
  next
    case awake
    have st: "state_sema u = (state_sema s)(j := EATING)" "fork_sema u = (fork_sema s)(j := a_init 1)" "at_pc u = at_pc s"
      by (simp_all add: u_def awake(5))
    have "fork_ok u k" if "k < N" for k
    proof (cases "k = j")
      case True
      then show ?thesis using assms(1) that awake(4) assms(3) by (auto simp: fork_ok_def st a_init_def)
    qed (use assms(1) that fork_ok_cong [of u k s] in \<open>simp add: st\<close>)
    moreover have "apart u k" if "k < N" for k
      using assms(1) that awake(2,3) neighbours [OF that] unfolding apart_def st by auto
    moreover have "waits_for u j" by (simp add: waits_for_def st)
    moreover have "waits_for u k" if "waits_for s k" for k
      using that unfolding waits_for_def st by auto
    moreover have "mutex_ok u" if "mutex_ok s"
      by (rule mutex_ok_pc [OF that]) (simp_all only: st, simp add: u_def)
    ultimately show ?thesis by blast
  qed
  then show "k < N \<Longrightarrow> fork_ok u k \<and> apart u k" "waits_for u j" "k < N \<Longrightarrow> waits_for s k \<Longrightarrow> waits_for u k" "mutex_ok s \<Longrightarrow> mutex_ok u"
    by blast+
qed

section \<open>Every step keeps the invariant\<close>

lemma table_okD:
  assumes "table_ok s"
  shows "mutex_ok s" "i < N \<Longrightarrow> fork_ok s i" "i < N \<Longrightarrow> apart s i" "i < N \<Longrightarrow> waits_for s i"
  using assms by (auto simp: table_ok_def)

text \<open>A test, after the tester moved on; \<open>j\<close> is tested, and only \<open>j\<close> may have relied on the tester's position.\<close>

lemma test_table_ok:
  assumes "table_ok s" and "i < N" and "j < N" and "at_pc (goto i p s) j \<noteq> TakeTest" and "inside (at_pc s i)" and "inside p"
    and "\<And>k. k < N \<Longrightarrow> fork_ok (goto i p s) k" and "\<And>k. k < N \<Longrightarrow> k \<noteq> j \<Longrightarrow> waits_for (goto i p s) k"
  shows "table_ok (phi_test_sema j (goto i p s))"
proof -
  have f: "\<forall>k<N. fork_ok (goto i p s) k \<and> apart (goto i p s) k"
    using assms(7) table_okD(3) [OF assms(1)] by (simp add: apart_def)
  have m: "mutex_ok (goto i p s)"
    by (rule mutex_ok_pc [OF table_okD(1) [OF assms(1)]]) (use assms(5,6) in \<open>auto simp: inside_def\<close>)
  note t = test_ok [OF f assms(3,4)]
  have "waits_for (phi_test_sema j (goto i p s)) k" if "k < N" for k
    using t(2) t(3) [OF that] assms(8) [OF that] by blast
  then show ?thesis using t(1) t(4) [OF m] by (simp add: table_ok_def)
qed

lemma goto_fork_ok:
  assumes "fork_ok s k" and "k = i \<Longrightarrow> fork_ok (goto i p s) i"
  shows "fork_ok (goto i p s) k"
  using assms fork_ok_cong [of "goto i p s" k s] by (cases "k = i") simp_all

lemma test_goto: "k \<noteq> j \<Longrightarrow> set (as_queue (fork_sema s j)) \<subseteq> {j} \<Longrightarrow> phi_test_sema j (goto k p s) = goto k p (phi_test_sema j s)"
  by (auto simp: phi_test_sema_def up_fork_def a_up_def wake_def goto_def set_phase_def fun_upd_twist split: list.splits)

lemma test_goto_self: "as_queue (fork_sema s j) = [] \<Longrightarrow> phi_test_sema j (goto j p s) = goto j p (phi_test_sema j s)"
  by (auto simp: phi_test_sema_def up_fork_def a_up_def wake_def goto_def set_phase_def)

lemma step_table_ok:
  assumes ok: "table_ok s" and i: "i < N" and st: "phi_step i s = Some t"
  shows "table_ok t"
proof -
  note d = table_okD [OF ok]
  note fi = d(2) [OF i, unfolded fork_ok_def]
  have qs: "set (as_queue (fork_sema s j)) \<subseteq> {j}" if "j < N" for j using d(2) [OF that] by (auto simp: fork_ok_def split: if_splits)
  show ?thesis
  proof (cases "at_pc s i")
    case Think
    show ?thesis
    proof (cases "iter s i < TIMES")
      case True
      let ?s = "s\<lparr>iter := (iter s)(i := iter s i + 1)\<rparr>"
      have t: "t = down_mutex i TakeHungry TakeSleep ?s" using st Think True by (simp add: phi_step_def)
      have m: "mutex_ok ?s" using d(1) by (simp add: mutex_ok_def)
      have "mutex_ok t" unfolding t by (rule down_mutex_ok [OF m i]) (simp_all add: Think inside_def)
      then show ?thesis
        by (rule plain_table_ok [OF ok]) (auto simp: t down_mutex_def plain_move_def Think split: prod.split)
    next
      case False
      then have t: "t = goto i Quit s" using st Think by (simp add: phi_step_def)
      have "mutex_ok t" by (rule mutex_ok_pc [OF d(1)]) (use Think in \<open>auto simp: t inside_def\<close>)
      then show ?thesis by (rule plain_table_ok [OF ok]) (auto simp: t plain_move_def Think)
    qed
  next
    case TakeHungry
    then have t: "t = goto i TakeTest (set_phase i HUNGRY s)" using st by (simp add: phi_step_def)
    have th: "state_sema s i = THINKING" "as_queue (fork_sema s i) = []" "as_value (fork_sema s i) = 0"
      using fi TakeHungry by (auto split: phase.splits)
    have "mutex_ok t" by (rule mutex_ok_pc [OF d(1)]) (use TakeHungry in \<open>auto simp: t inside_def\<close>)
    moreover have "fork_ok t k" if "k < N" for k
      using d(2) [OF that] th fork_ok_cong [of t k s] by (cases "k = i") (simp_all add: fork_ok_def t)
    moreover have "apart t k" if "k < N" for k using d(3) [OF that] by (auto simp: apart_def t)
    moreover have "waits_for t k" if "k < N" for k
      using d(4) [OF that] TakeHungry th(1) by (auto simp: waits_for_def t)
    ultimately show ?thesis by (simp add: table_ok_def)
  next
    case TakeTest
    have q: "as_queue (fork_sema s i) = []" using fi TakeTest by simp
    have t: "t = phi_test_sema i (goto i TakeUp s)" using st TakeTest test_goto_self [OF q] by (simp add: phi_step_def)
    show ?thesis unfolding t
    proof (rule test_table_ok [OF ok i i])
      show "fork_ok (goto i TakeUp s) k" if "k < N" for k
        by (rule goto_fork_ok [OF d(2) [OF that]]) (use fi TakeTest in \<open>auto simp: fork_ok_def split: phase.splits\<close>)
      show "waits_for (goto i TakeUp s) k" if "k < N" "k \<noteq> i" for k
        using d(4) [OF that(1)] TakeTest that(2) by (auto simp: waits_for_def)
    qed (simp_all add: TakeTest inside_def)
  next
    case TakeUp
    then have t: "t = goto i TakeDown (up_mutex s)" using st by (simp add: phi_step_def)
    have "mutex_ok t" unfolding t by (rule up_mutex_ok [OF d(1) i]) (simp_all add: TakeUp inside_def)
    then show ?thesis by (rule plain_table_ok [OF ok]) (use up_mutex_moves [OF d(1) i] TakeUp in \<open>simp_all add: t inside_def plain_move_def\<close>)
  next
    case TakeDown
    then have t: "t = down_fork i s" using st by (simp add: phi_step_def)
    have "mutex_ok t" by (rule mutex_ok_pc [OF d(1)]) (use TakeDown in \<open>auto simp: t down_fork_def inside_def split: prod.splits\<close>)
    moreover have "fork_ok t k" if "k < N" for k
      using d(2) [OF that] fi TakeDown fork_ok_cong [of t k s]
      by (cases "k = i") (auto simp: fork_ok_def t down_fork_def a_down_def split: phase.splits)
    moreover have "apart t k" if "k < N" for k using d(3) [OF that] by (auto simp: apart_def t down_fork_def split: prod.splits)
    moreover have "waits_for t k" if "k < N" for k
      using d(4) [OF that] TakeDown by (auto simp: waits_for_def t down_fork_def split: prod.splits)
    ultimately show ?thesis by (simp add: table_ok_def)
  next
    case Eat
    then have t: "t = down_mutex i PutThink PutSleep s" using st by (simp add: phi_step_def)
    have "mutex_ok t" unfolding t by (rule down_mutex_ok [OF d(1) i]) (simp_all add: Eat inside_def)
    then show ?thesis
      by (rule plain_table_ok [OF ok]) (auto simp: t down_mutex_def plain_move_def Eat split: prod.split)
  next
    case PutThink
    then have t: "t = goto i PutLeft (set_phase i THINKING s)" using st by (simp add: phi_step_def)
    have th: "state_sema s i = EATING" "as_queue (fork_sema s i) = []" "as_value (fork_sema s i) = 0"
      using fi PutThink by (auto split: phase.splits)
    have "mutex_ok t" by (rule mutex_ok_pc [OF d(1)]) (use PutThink in \<open>auto simp: t inside_def\<close>)
    moreover have "fork_ok t k" if "k < N" for k
      using d(2) [OF that] th fork_ok_cong [of t k s] by (cases "k = i") (simp_all add: fork_ok_def t)
    moreover have "apart t k" if "k < N" for k using d(3) [OF that] by (auto simp: apart_def t)
    moreover have "waits_for t k" if "k < N" for k
      using d(4) [OF that] PutThink by (auto simp: waits_for_def t)
    ultimately show ?thesis by (simp add: table_ok_def)
  next
    case PutLeft
    have t: "t = phi_test_sema (LEFT i) (goto i PutRight s)" using st PutLeft test_goto [OF neighbours(5) [OF i, symmetric] qs [OF neighbours(1) [OF i]]]
      by (simp add: phi_step_def)
    have nt: "at_pc s (LEFT i) \<noteq> TakeTest" using only_inside [OF d(1) i _ neighbours(1) [OF i]] neighbours(5) [OF i] PutLeft by (auto simp: inside_def)
    show ?thesis unfolding t
    proof (rule test_table_ok [OF ok i neighbours(1) [OF i]])
      show "fork_ok (goto i PutRight s) k" if "k < N" for k
        by (rule goto_fork_ok [OF d(2) [OF that]]) (use fi PutLeft in \<open>auto simp: fork_ok_def split: phase.splits\<close>)
      show "waits_for (goto i PutRight s) k" if "k < N" "k \<noteq> LEFT i" for k
        using d(4) [OF that(1)] PutLeft that(2) neighbours [OF that(1)] by (auto simp: waits_for_def)
    qed (use PutLeft nt neighbours [OF i] in \<open>simp_all add: inside_def\<close>)
  next
    case PutRight
    have t: "t = phi_test_sema (RIGHT i) (goto i PutUp s)" using st PutRight test_goto [OF neighbours(6) [OF i, symmetric] qs [OF neighbours(2) [OF i]]]
      by (simp add: phi_step_def)
    have nt: "at_pc s (RIGHT i) \<noteq> TakeTest" using only_inside [OF d(1) i _ neighbours(2) [OF i]] neighbours(6) [OF i] PutRight by (auto simp: inside_def)
    show ?thesis unfolding t
    proof (rule test_table_ok [OF ok i neighbours(2) [OF i]])
      show "fork_ok (goto i PutUp s) k" if "k < N" for k
        by (rule goto_fork_ok [OF d(2) [OF that]]) (use fi PutRight in \<open>auto simp: fork_ok_def split: phase.splits\<close>)
      show "waits_for (goto i PutUp s) k" if "k < N" "k \<noteq> RIGHT i" for k
        using d(4) [OF that(1)] PutRight that(2) neighbours [OF that(1)] by (auto simp: waits_for_def)
    qed (use PutRight nt neighbours [OF i] in \<open>simp_all add: inside_def\<close>)
  next
    case PutUp
    then have t: "t = goto i Think (up_mutex s)" using st by (simp add: phi_step_def)
    have "mutex_ok t" unfolding t by (rule up_mutex_ok [OF d(1) i]) (simp_all add: PutUp inside_def)
    then show ?thesis by (rule plain_table_ok [OF ok]) (use up_mutex_moves [OF d(1) i] PutUp in \<open>simp_all add: t inside_def plain_move_def\<close>)
  qed (use st in \<open>simp_all add: phi_step_def\<close>)
qed

lemma table_init_ok: "table_ok table_init"
  by (auto simp: table_ok_def mutex_ok_def fork_ok_def apart_def waits_for_def table_init_def a_init_def inside_def)

lemma dining_ok: "dining s \<Longrightarrow> table_ok s"
  by (induction rule: dining.induct) (auto intro: table_init_ok step_table_ok)

section \<open>Progress\<close>

text \<open>Who waits for whom: a sleeper at the mutex for the philosopher inside, a hungry sleeper for a neighbour who eats.\<close>

lemma table_ok_progress:
  assumes ok: "table_ok s" and st: "\<forall>i<N. phi_step i s = None" and i: "i < N"
  shows "at_pc s i = Quit"
proof -
  have pcs: "at_pc s j \<in> {TakeSleep, PutSleep, ForkSleep, Quit}" if "j < N" for j
    using st that by (cases "at_pc s j") (auto simp: phi_step_def)
  have out: "\<not> inside (at_pc s j)" if "j < N" for j using pcs [OF that] by (auto simp: inside_def)
  have m: "mutex_ok s" by (rule table_okD(1) [OF ok])
  then have "as_queue (mutex_sema s) = []" using out by (auto simp: mutex_ok_def split: if_splits)
  then have ns: "at_pc s j \<in> {ForkSleep, Quit}" if "j < N" for j
    using m pcs [OF that] that unfolding mutex_ok_def by auto
  have ne: "state_sema s j \<noteq> EATING" if "j < N" for j
    using table_okD(2) [OF ok that] ns [OF that] by (auto simp: fork_ok_def)
  show ?thesis
  proof (rule ccontr)
    assume "at_pc s i \<noteq> Quit"
    then have f: "at_pc s i = ForkSleep" using ns [OF i] by simp
    then have "state_sema s i = HUNGRY" using table_okD(2) [OF ok i] ne [OF i] by (auto simp: fork_ok_def split: phase.splits)
    then show False
      using table_okD(4) [OF ok i] f ne neighbours [OF i] ns [OF neighbours(1) [OF i]] ns [OF neighbours(2) [OF i]]
      by (auto simp: waits_for_def)
  qed
qed

fun rank :: "pc \<Rightarrow> nat" where
  "rank Quit = 0" | "rank Think = 1" | "rank PutUp = 2" | "rank PutRight = 3" | "rank PutLeft = 4" | "rank PutThink = 5"
| "rank PutSleep = 6" | "rank Eat = 7" | "rank ForkSleep = 8" | "rank TakeDown = 9" | "rank TakeUp = 10" | "rank TakeTest = 11"
| "rank TakeHungry = 12" | "rank TakeSleep = 13"

definition weight :: "table \<Rightarrow> nat \<Rightarrow> nat" where "weight s i = (TIMES - iter s i) * 16 + rank (at_pc s i)"
definition steps_left :: "table \<Rightarrow> nat" where "steps_left s = (\<Sum>i<N. weight s i)"

lemma rank_woken: "rank (woken p) \<le> rank p"
  by (cases p) simp_all

lemma rank_wake: "rank (at_pc (wake w s) j) \<le> rank (at_pc s j)"
  by (cases w) (auto simp: rank_woken)

lemma rank_moves:
  "rank (at_pc (up_mutex s) j) \<le> rank (at_pc s j)" "rank (at_pc (phi_test_sema k s) j) \<le> rank (at_pc s j)"
proof -
  show "rank (at_pc (up_mutex s) j) \<le> rank (at_pc s j)"
    using rank_wake [of "fst (a_up (mutex_sema s))" "s\<lparr>mutex_sema := snd (a_up (mutex_sema s))\<rparr>" j]
    by (simp add: up_mutex_def split_beta)
  have "rank (at_pc (up_fork k u) j) \<le> rank (at_pc u j)" for u
    using rank_wake [of "fst (a_up (fork_sema u k))" "u\<lparr>fork_sema := (fork_sema u)(k := snd (a_up (fork_sema u k)))\<rparr>" j]
    by (simp add: up_fork_def split_beta)
  from this [of "set_phase k EATING s"] show "rank (at_pc (phi_test_sema k s) j) \<le> rank (at_pc s j)"
    by (simp add: phi_test_sema_def)
qed

lemma step_weight:
  assumes "phi_step i s = Some t"
  shows "weight t j \<le> weight s j \<and> weight t i < weight s i"
proof -
  have "j \<noteq> i \<Longrightarrow> weight t j \<le> weight s j" "weight t i < weight s i"
    using assms rank_moves(1) [of s j] rank_moves(2) [of _ s j]
    by (cases "at_pc s i"; auto simp: phi_step_def weight_def down_mutex_def down_fork_def a_down_def TIMES_def
        split: if_splits)+
  then show ?thesis by (cases "j = i") auto
qed

lemma step_decreases: "phi_step i s = Some t \<Longrightarrow> i < N \<Longrightarrow> steps_left t < steps_left s"
  unfolding steps_left_def using step_weight [of i s t] by (intro sum_strict_mono_ex1) auto

definition count_ok :: "table \<Rightarrow> nat \<Rightarrow> bool" where
  "count_ok s i \<longleftrightarrow> iter s i \<le> TIMES \<and> (at_pc s i = Quit \<longrightarrow> iter s i = TIMES)"

lemma woken_quit: "woken p = Quit \<longleftrightarrow> p = Quit"
  by (cases p) simp_all

lemma wake_quit: "at_pc (wake w s) j = Quit \<longleftrightarrow> at_pc s j = Quit"
  by (cases w) (auto simp: woken_quit)

lemma moves_quit: "at_pc (up_mutex s) j = Quit \<longleftrightarrow> at_pc s j = Quit" "at_pc (phi_test_sema k s) j = Quit \<longleftrightarrow> at_pc s j = Quit"
  by (auto simp: up_mutex_def phi_test_sema_def up_fork_def wake_quit split: prod.split)

lemma step_count_ok:
  assumes "phi_step i s = Some t" and "\<forall>j. count_ok s j"
  shows "\<forall>j. count_ok t j"
proof
  fix j
  show "count_ok t j"
    using assms
    by (cases "at_pc s i") (auto simp: phi_step_def count_ok_def down_mutex_def down_fork_def a_down_def moves_quit not_less split: if_splits intro: le_antisym)
qed

lemma dining_count: "dining s \<Longrightarrow> \<forall>j. count_ok s j"
proof (induction rule: dining.induct)
  case start
  then show ?case by (simp add: count_ok_def table_init_def)
qed (rule step_count_ok)

section \<open>Properties\<close>

text \<open>C33: in every state that five philosophers reach with \<open>phi_take_forks_sema\<close> and \<open>phi_put_forks_sema\<close>, in any interleaving
  of their steps, no two neighbours eat at the same time, at most one philosopher is inside the critical sections, and the
  table is not stuck: unless all have quit, somebody can take a step.\<close>

theorem philosophers_exclude:
  assumes "dining s" and "i < N" and "j < N"
  shows "\<not> (at_pc s i = Eat \<and> at_pc s (RIGHT i) = Eat) \<and> (inside (at_pc s i) \<and> inside (at_pc s j) \<longrightarrow> i = j)
    \<and> ((\<forall>k<N. at_pc s k = Quit) \<or> (\<exists>k<N. phi_step k s \<noteq> None))"
proof -
  note ok = dining_ok [OF assms(1)]
  note d = table_okD [OF ok]
  have "\<not> (at_pc s i = Eat \<and> at_pc s (RIGHT i) = Eat)"
  proof
    assume "at_pc s i = Eat \<and> at_pc s (RIGHT i) = Eat"
    then have "state_sema s i = EATING" "state_sema s (RIGHT i) = EATING"
      using d(2) [OF assms(2)] d(2) [OF neighbours(2) [OF assms(2)]] by (auto simp: fork_ok_def split: phase.splits)
    then show False using d(3) [OF assms(2)] by (simp add: apart_def)
  qed
  moreover have "inside (at_pc s i) \<and> inside (at_pc s j) \<longrightarrow> i = j"
    using only_inside [OF d(1) assms(3) _ assms(2)] by blast
  moreover have "(\<forall>k<N. at_pc s k = Quit) \<or> (\<exists>k<N. phi_step k s \<noteq> None)" using table_ok_progress [OF ok] by blast
  ultimately show ?thesis by blast
qed

primrec run_steps :: "nat list \<Rightarrow> table \<Rightarrow> table option" where
  "run_steps [] s = Some s"
| "run_steps (i # is) s = Option.bind (phi_step i s) (run_steps is)"

lemma dining_run: "run_steps is s = Some t \<Longrightarrow> dining s \<Longrightarrow> set is \<subseteq> {..<N} \<Longrightarrow> dining t"
  by (induction "is" arbitrary: s) (auto simp: Option.bind_eq_Some_conv intro: dining.step)

text \<open>Philosopher 0 eats, philosopher 1 is hungry and asleep.\<close>

theorem philosophers_exclude_witness:
  "\<exists>s. dining s \<and> at_pc s 0 = Eat \<and> at_pc s 1 = ForkSleep \<and> (\<exists>k<N. phi_step k s \<noteq> None)"
proof -
  have "\<exists>s. run_steps [0, 0, 0, 0, 0, 1, 1, 1, 1, 1] table_init = Some s \<and> at_pc s 0 = Eat \<and> at_pc s 1 = ForkSleep"
    by (simp add: phi_step_def table_init_def TIMES_def down_mutex_def a_down_def a_init_def goto_def set_phase_def phi_test_sema_def LEFT_def
        RIGHT_def N_def up_fork_def a_up_def wake_def up_mutex_def down_fork_def)
  then obtain s where s: "run_steps [0, 0, 0, 0, 0, 1, 1, 1, 1, 1] table_init = Some s" "at_pc s 0 = Eat" "at_pc s 1 = ForkSleep" by blast
  have d: "dining s" by (rule dining_run [OF s(1) dining.start]) (simp add: N_def)
  have "(0 :: nat) < N" by (simp add: N_def)
  from philosophers_exclude [OF d this this] s(2) have "\<exists>k<N. phi_step k s \<noteq> None" by (auto simp: N_def)
  with d s show ?thesis by blast
qed

text \<open>C34: the philosophers finish: there is no infinite run, and a run that cannot go on ends with every philosopher having eaten
  \<open>TIMES\<close> times and left its loop.\<close>

theorem philosophers_finish:
  "wf {(t, s). dining s \<and> (\<exists>i<N. phi_step i s = Some t)}
   \<and> (\<forall>s. dining s \<and> (\<forall>i<N. phi_step i s = None) \<longrightarrow> (\<forall>i<N. at_pc s i = Quit \<and> iter s i = TIMES))"
proof
  show "wf {(t, s). dining s \<and> (\<exists>i<N. phi_step i s = Some t)}"
    by (rule wf_subset [OF wf_measure [of steps_left]]) (auto intro: step_decreases)
  show "\<forall>s. dining s \<and> (\<forall>i<N. phi_step i s = None) \<longrightarrow> (\<forall>i<N. at_pc s i = Quit \<and> iter s i = TIMES)"
    using dining_ok table_ok_progress dining_count unfolding count_ok_def by blast
qed

theorem philosophers_finish_witness: "\<exists>s. dining s \<and> (\<forall>i<N. at_pc s i = Quit \<and> iter s i = TIMES)"
proof -
  note f = philosophers_finish
  have "wf {(t, s). dining s \<and> (\<exists>i<N. phi_step i s = Some t)}" using f by blast
  then obtain s where "s \<in> {s. dining s}"
    and m: "\<And>t. (t, s) \<in> {(t, s). dining s \<and> (\<exists>i<N. phi_step i s = Some t)} \<Longrightarrow> t \<notin> {s. dining s}"
    by (rule wfE_min [of _ table_init "{s. dining s}"]) (auto intro: dining.start)
  then have s: "dining s" "\<And>t. (t, s) \<in> {(t, s). dining s \<and> (\<exists>i<N. phi_step i s = Some t)} \<Longrightarrow> \<not> dining t" by blast+
  have "phi_step i s = None" if "i < N" for i
  proof (cases "phi_step i s")
    case (Some t)
    then have "dining t" using dining.step [OF s(1) that] by blast
    moreover have "\<not> dining t" by (rule s(2)) (use s(1) that Some in auto)
    ultimately show ?thesis by blast
  qed simp
  with f s(1) show ?thesis by blast
qed

end
