(* ===== verification/Monitor_Table.thy ===== *)
theory Monitor_Table
  imports Monitor Philosophers
begin

text \<open>
  The philosophers of \<open>kern/sync/check_sync.c\<close> with a monitor.  As in the version with semaphores a philosopher is at a point
  between two statements of its code, a step executes one statement, and the steps interleave in any order; the statements of
  \<open>cond_signal\<close> and \<open>cond_wait\<close> are points of their own.
\<close>

section \<open>The model\<close>

text \<open>Which of its three calls of \<open>phi_test_condvar\<close> a philosopher is in: for itself, its left or its right neighbour.\<close>

datatype turn = Own | Lft | Rgt

datatype mpc = MThink | MTakeSleep | MTakeHungry | MTakeTest | MTakeCheck
  | MSig turn | MSigUp turn | MSigDown turn | MNextSleep turn | MSigDec turn
  | MWaitInc | MWaitUp | MWaitDown | MCvSleep | MWaitDec | MTakeLeave
  | MEat | MPutSleep | MPutThink | MPutLeft | MPutRight | MPutLeave | MQuit

record mtable =
  state_condvar :: "nat \<Rightarrow> phase"
  mon_mutex :: asem
  mon_next :: asem
  mon_next_count :: int
  mon_cv :: "nat \<Rightarrow> asem"
  mon_count :: "nat \<Rightarrow> int"
  mat :: "nat \<Rightarrow> mpc"
  miter :: "nat \<Rightarrow> nat"

definition mgo :: "nat \<Rightarrow> mpc \<Rightarrow> mtable \<Rightarrow> mtable" where "mgo i p s = s\<lparr>mat := (mat s)(i := p)\<rparr>"

fun mwoken :: "mpc \<Rightarrow> mpc" where
  "mwoken MTakeSleep = MTakeHungry"
| "mwoken MPutSleep = MPutThink"
| "mwoken (MNextSleep a) = MSigDec a"
| "mwoken MCvSleep = MWaitDec"
| "mwoken p = p"

definition mwake :: "nat option \<Rightarrow> mtable \<Rightarrow> mtable" where
  "mwake w s = (case w of None \<Rightarrow> s | Some p \<Rightarrow> mgo p (mwoken (mat s p)) s)"

definition mdown_mutex :: "nat \<Rightarrow> mpc \<Rightarrow> mpc \<Rightarrow> mtable \<Rightarrow> mtable" where
  "mdown_mutex i run sleep s = (let (ok, x) = a_down i (mon_mutex s) in mgo i (if ok then run else sleep) (s\<lparr>mon_mutex := x\<rparr>))"

definition mup_mutex :: "mtable \<Rightarrow> mtable" where
  "mup_mutex s = (let (w, x) = a_up (mon_mutex s) in mwake w (s\<lparr>mon_mutex := x\<rparr>))"

definition mdown_next :: "nat \<Rightarrow> mpc \<Rightarrow> mpc \<Rightarrow> mtable \<Rightarrow> mtable" where
  "mdown_next i run sleep s = (let (ok, x) = a_down i (mon_next s) in mgo i (if ok then run else sleep) (s\<lparr>mon_next := x\<rparr>))"

definition mup_next :: "mtable \<Rightarrow> mtable" where
  "mup_next s = (let (w, x) = a_up (mon_next s) in mwake w (s\<lparr>mon_next := x\<rparr>))"

definition mdown_cv :: "nat \<Rightarrow> mpc \<Rightarrow> mpc \<Rightarrow> mtable \<Rightarrow> mtable" where
  "mdown_cv i run sleep s =
     (let (ok, x) = a_down i (mon_cv s i) in mgo i (if ok then run else sleep) (s\<lparr>mon_cv := (mon_cv s)(i := x)\<rparr>))"

definition mup_cv :: "nat \<Rightarrow> mtable \<Rightarrow> mtable" where
  "mup_cv j s = (let (w, x) = a_up (mon_cv s j) in mwake w (s\<lparr>mon_cv := (mon_cv s)(j := x)\<rparr>))"

definition mleave :: "mtable \<Rightarrow> mtable" where
  "mleave s = (if 0 < mon_next_count s then mup_next s else mup_mutex s)"

fun target :: "nat \<Rightarrow> turn \<Rightarrow> nat" where
  "target i Own = i" | "target i Lft = LEFT i" | "target i Rgt = RIGHT i"

fun after :: "turn \<Rightarrow> mpc" where
  "after Own = MTakeCheck" | "after Lft = MPutRight" | "after Rgt = MPutLeave"

definition set_state :: "nat \<Rightarrow> phase \<Rightarrow> mtable \<Rightarrow> mtable" where
  "set_state i p s = s\<lparr>state_condvar := (state_condvar s)(i := p)\<rparr>"

text \<open>\<open>phi_test_condvar\<close> up to its call of \<open>cond_signal\<close>.\<close>

definition phi_test_condvar :: "nat \<Rightarrow> turn \<Rightarrow> mtable \<Rightarrow> mtable" where
  "phi_test_condvar i a s = (let j = target i a in
     if state_condvar s j = HUNGRY \<and> state_condvar s (LEFT j) \<noteq> EATING \<and> state_condvar s (RIGHT j) \<noteq> EATING
     then mgo i (MSig a) (set_state j EATING s) else mgo i (after a) s)"

fun mstep_at :: "mpc \<Rightarrow> nat \<Rightarrow> mtable \<Rightarrow> mtable option" where
  "mstep_at MThink i s = Some
     (if miter s i < TIMES then mdown_mutex i MTakeHungry MTakeSleep (s\<lparr>miter := (miter s)(i := miter s i + 1)\<rparr>) else mgo i MQuit s)"
| "mstep_at MTakeHungry i s = Some (mgo i MTakeTest (set_state i HUNGRY s))"
| "mstep_at MTakeTest i s = Some (phi_test_condvar i Own s)"
| "mstep_at MTakeCheck i s = Some (mgo i (if state_condvar s i = HUNGRY then MWaitInc else MTakeLeave) s)"
| "mstep_at (MSig a) i s = Some
     (if 0 < mon_count s (target i a) then mgo i (MSigUp a) (s\<lparr>mon_next_count := mon_next_count s + 1\<rparr>) else mgo i (after a) s)"
| "mstep_at (MSigUp a) i s = Some (mgo i (MSigDown a) (mup_cv (target i a) s))"
| "mstep_at (MSigDown a) i s = Some (mdown_next i (MSigDec a) (MNextSleep a) s)"
| "mstep_at (MSigDec a) i s = Some (mgo i (after a) (s\<lparr>mon_next_count := mon_next_count s - 1\<rparr>))"
| "mstep_at MWaitInc i s = Some (mgo i MWaitUp (s\<lparr>mon_count := (mon_count s)(i := mon_count s i + 1)\<rparr>))"
| "mstep_at MWaitUp i s = Some (mgo i MWaitDown (mleave s))"
| "mstep_at MWaitDown i s = Some (mdown_cv i MWaitDec MCvSleep s)"
| "mstep_at MWaitDec i s = Some (mgo i MTakeLeave (s\<lparr>mon_count := (mon_count s)(i := mon_count s i - 1)\<rparr>))"
| "mstep_at MTakeLeave i s = Some (mgo i MEat (mleave s))"
| "mstep_at MEat i s = Some (mdown_mutex i MPutThink MPutSleep s)"
| "mstep_at MPutThink i s = Some (mgo i MPutLeft (set_state i THINKING s))"
| "mstep_at MPutLeft i s = Some (phi_test_condvar i Lft s)"
| "mstep_at MPutRight i s = Some (phi_test_condvar i Rgt s)"
| "mstep_at MPutLeave i s = Some (mgo i MThink (mleave s))"
| "mstep_at _ i s = None"

definition mstep :: "nat \<Rightarrow> mtable \<Rightarrow> mtable option" where "mstep i s = mstep_at (mat s i) i s"

definition mtable_init :: mtable where
  "mtable_init = \<lparr>state_condvar = (\<lambda>_. THINKING), mon_mutex = a_init 1, mon_next = a_init 0, mon_next_count = 0,
     mon_cv = (\<lambda>_. a_init 0), mon_count = (\<lambda>_. 0), mat = (\<lambda>_. MThink), miter = (\<lambda>_. 0)\<rparr>"

inductive mdining :: "mtable \<Rightarrow> bool" where
  mstart: "mdining mtable_init"
| mstep: "mdining s \<Longrightarrow> i < N \<Longrightarrow> mstep i s = Some t \<Longrightarrow> mdining t"

section \<open>The invariant\<close>

text \<open>The right to be in the monitor is in one place: a unit of a semaphore, or with one philosopher.\<close>

datatype place = AtMutex | AtNext | AtCv nat | With nat

definition minside :: "mpc \<Rightarrow> bool" where
  "minside p \<longleftrightarrow> p \<in> {MTakeHungry, MTakeTest, MTakeCheck, MWaitInc, MWaitUp, MWaitDec, MTakeLeave, MPutThink, MPutLeft, MPutRight, MPutLeave}
     \<or> (\<exists>a. p \<in> {MSig a, MSigUp a, MSigDec a})"

definition mutex_inv :: "mtable \<Rightarrow> place \<Rightarrow> bool" where
  "mutex_inv s tok \<longleftrightarrow> as_value (mon_mutex s) = (if tok = AtMutex then 1 else 0) \<and> (tok = AtMutex \<longrightarrow> as_queue (mon_mutex s) = [])
     \<and> distinct (as_queue (mon_mutex s)) \<and> (\<forall>i. i \<in> set (as_queue (mon_mutex s)) \<longleftrightarrow> i < N \<and> mat s i \<in> {MTakeSleep, MPutSleep})"

text \<open>\<open>sg\<close> is the philosopher who counts in \<open>next_count\<close>.\<close>

definition next_inv :: "mtable \<Rightarrow> place \<Rightarrow> (nat \<times> turn) option \<Rightarrow> bool" where
  "next_inv s tok sg \<longleftrightarrow>
     as_value (mon_next s) = (if tok = AtNext then 1 else 0)
     \<and> as_queue (mon_next s) = (case sg of None \<Rightarrow> [] | Some (i, a) \<Rightarrow> if mat s i = MNextSleep a then [i] else [])
     \<and> mon_next_count s = (if sg = None then 0 else 1)"

definition signalling :: "turn \<Rightarrow> mpc set" where "signalling a = {MSigUp a, MSigDown a, MNextSleep a, MSigDec a}"

definition sig_inv :: "mtable \<Rightarrow> (nat \<times> turn) option \<Rightarrow> bool" where
  "sig_inv s sg \<longleftrightarrow> (\<forall>i<N. \<forall>a. mat s i \<in> signalling a \<longleftrightarrow> sg = Some (i, a)) \<and> (\<forall>i a. sg = Some (i, a) \<longrightarrow> i < N \<and> a \<noteq> Own)"

definition cv_inv :: "mtable \<Rightarrow> place \<Rightarrow> nat \<Rightarrow> bool" where
  "cv_inv s tok j \<longleftrightarrow> as_value (mon_cv s j) = (if tok = AtCv j then 1 else 0)
     \<and> as_queue (mon_cv s j) = (if mat s j = MCvSleep then [j] else [])
     \<and> mon_count s j = (if mat s j \<in> {MWaitUp, MWaitDown, MCvSleep, MWaitDec} then 1 else 0)"

definition tok_inv :: "mtable \<Rightarrow> place \<Rightarrow> bool" where
  "tok_inv s tok \<longleftrightarrow> (\<forall>i<N. minside (mat s i) \<longleftrightarrow> tok = With i) \<and> (\<forall>i. tok = With i \<or> tok = AtCv i \<longrightarrow> i < N)"

text \<open>After a signal the right goes to the woken philosopher, and from it back to the one who signalled.\<close>

definition handoff_at :: "mtable \<Rightarrow> place \<Rightarrow> nat \<Rightarrow> turn \<Rightarrow> bool" where
  "handoff_at s tok k a \<longleftrightarrow>
     (mat s k \<in> {MSigDown a, MNextSleep a} \<longrightarrow>
        tok = AtCv (target k a) \<or> tok = With (target k a) \<and> mat s (target k a) \<in> {MWaitDec, MTakeLeave} \<or> tok = AtNext)
     \<and> (tok = AtNext \<longrightarrow> mat s k = MSigDown a)
     \<and> (\<forall>j. tok = AtCv j \<longrightarrow> j = target k a \<and> mat s j = MWaitDown \<and> state_condvar s j = EATING \<and> mat s k \<in> {MSigDown a, MNextSleep a})"

definition handoff_inv :: "mtable \<Rightarrow> place \<Rightarrow> (nat \<times> turn) option \<Rightarrow> bool" where
  "handoff_inv s tok sg \<longleftrightarrow>
     (case sg of None \<Rightarrow> tok \<noteq> AtNext \<and> (\<forall>j. tok \<noteq> AtCv j) | Some (k, a) \<Rightarrow> handoff_at s tok k a)"

fun phase_pcs :: "phase \<Rightarrow> mpc set" where
  "phase_pcs THINKING = {MThink, MTakeSleep, MTakeHungry, MPutLeft, MPutRight, MPutLeave, MQuit, MSig Lft, MSig Rgt}
     \<union> signalling Lft \<union> signalling Rgt"
| "phase_pcs HUNGRY = {MTakeTest, MTakeCheck, MWaitInc, MWaitUp, MWaitDown, MCvSleep}"
| "phase_pcs EATING = {MSig Own, MTakeCheck, MTakeLeave, MWaitDown, MCvSleep, MWaitDec, MEat, MPutSleep, MPutThink}"

definition phase_inv :: "mtable \<Rightarrow> nat \<Rightarrow> bool" where "phase_inv s i \<longleftrightarrow> mat s i \<in> phase_pcs (state_condvar s i)"

text \<open>Who is set to eat while it waits is about to be signalled, and only such a philosopher is signalled.\<close>

definition signals :: "mtable \<Rightarrow> nat \<Rightarrow> nat \<Rightarrow> bool" where
  "signals s k i \<longleftrightarrow> (\<exists>a. a \<noteq> Own \<and> mat s k \<in> {MSig a, MSigUp a} \<and> target k a = i)"

definition pend_inv :: "mtable \<Rightarrow> place \<Rightarrow> nat \<Rightarrow> bool" where
  "pend_inv s tok i \<longleftrightarrow> (state_condvar s i = EATING \<and> mat s i \<in> {MWaitDown, MCvSleep} \<longrightarrow> tok = AtCv i \<or> (\<exists>k<N. signals s k i))
     \<and> (\<forall>k<N. signals s k i \<longrightarrow> state_condvar s i = EATING \<and> mat s i \<in> {MWaitDown, MCvSleep})"

definition mapart :: "mtable \<Rightarrow> nat \<Rightarrow> bool" where
  "mapart s i \<longleftrightarrow> \<not> (state_condvar s i = EATING \<and> state_condvar s (RIGHT i) = EATING)"

definition mwaits :: "mtable \<Rightarrow> nat \<Rightarrow> bool" where
  "mwaits s i \<longleftrightarrow> (state_condvar s i = HUNGRY \<longrightarrow>
     state_condvar s (LEFT i) = EATING \<or> state_condvar s (RIGHT i) = EATING \<or> mat s i = MTakeTest
     \<or> mat s (RIGHT i) = MPutLeft \<or> mat s (LEFT i) \<in> {MPutLeft, MPutRight, MSig Lft} \<union> signalling Lft)"

definition minv :: "mtable \<Rightarrow> place \<Rightarrow> (nat \<times> turn) option \<Rightarrow> bool" where
  "minv s tok sg \<longleftrightarrow> mutex_inv s tok \<and> next_inv s tok sg \<and> sig_inv s sg \<and> tok_inv s tok \<and> handoff_inv s tok sg
     \<and> (\<forall>i<N. cv_inv s tok i \<and> phase_inv s i \<and> pend_inv s tok i \<and> mapart s i \<and> mwaits s i)"

end
