(* ===== verification/Monitor_Inv.thy ===== *)
theory Monitor_Inv
  imports Monitor_Table
begin

text \<open>Every step of the philosophers with a monitor keeps the invariant.\<close>

lemma mgo_simps [simp]:
  "state_condvar (mgo i p s) = state_condvar s" "mon_mutex (mgo i p s) = mon_mutex s" "mon_next (mgo i p s) = mon_next s"
  "mon_next_count (mgo i p s) = mon_next_count s" "mon_cv (mgo i p s) = mon_cv s" "mon_count (mgo i p s) = mon_count s"
  "mat (mgo i p s) = (mat s)(i := p)" "miter (mgo i p s) = miter s"
  by (simp_all add: mgo_def)

lemma set_state_simps [simp]:
  "state_condvar (set_state i p s) = (state_condvar s)(i := p)" "mon_mutex (set_state i p s) = mon_mutex s"
  "mon_next (set_state i p s) = mon_next s" "mon_next_count (set_state i p s) = mon_next_count s" "mon_cv (set_state i p s) = mon_cv s"
  "mon_count (set_state i p s) = mon_count s" "mat (set_state i p s) = mat s" "miter (set_state i p s) = miter s"
  by (simp_all add: set_state_def)

lemma minvD:
  assumes "minv s tok sg"
  shows "mutex_inv s tok" "next_inv s tok sg" "sig_inv s sg" "tok_inv s tok" "handoff_inv s tok sg"
    "i < N \<Longrightarrow> cv_inv s tok i" "i < N \<Longrightarrow> phase_inv s i" "i < N \<Longrightarrow> pend_inv s tok i" "i < N \<Longrightarrow> mapart s i" "i < N \<Longrightarrow> mwaits s i"
  using assms by (auto simp: minv_def)

lemma target_below: "i < N \<Longrightarrow> target i a < N"
  by (cases a) (simp_all add: neighbours)

lemma target_other: "i < N \<Longrightarrow> a \<noteq> Own \<Longrightarrow> target i a \<noteq> i"
  by (cases a) (simp_all add: neighbours)

lemma minv_inside: "minv s tok sg \<Longrightarrow> i < N \<Longrightarrow> minside (mat s i) \<Longrightarrow> tok = With i"
  by (auto simp: minv_def tok_inv_def)

text \<open>Moves of the philosopher inside that touch no semaphore.\<close>

definition inner_move :: "mpc \<Rightarrow> mpc \<Rightarrow> bool" where
  "inner_move p q \<longleftrightarrow> minside p \<and> minside q \<and> (\<forall>a. p \<notin> signalling a \<and> q \<notin> signalling a) \<and> (p \<in> {MWaitDec, MTakeLeave} \<longrightarrow> q = MTakeLeave)"

lemma inner_glob:
  assumes inv: "minv s tok sg" and i: "i < N" and mv: "inner_move (mat s i) p"
    and t: "mat t = (mat s)(i := p)" "mon_mutex t = mon_mutex s" "mon_next t = mon_next s" "mon_next_count t = mon_next_count s"
  shows "mutex_inv t tok" "next_inv t tok sg" "sig_inv t sg" "tok_inv t tok" "handoff_inv t tok sg"
proof -
  note d = minvD [OF inv]
  have tok: "tok = With i" using minv_inside [OF inv i] mv by (simp add: inner_move_def)
  have ns: "sg \<noteq> Some (i, a)" for a using d(3) i mv by (auto simp: sig_inv_def inner_move_def)
  have ts: "minside (mat s i)" "minside p" "mat s i \<notin> {MTakeSleep, MPutSleep}" "p \<notin> {MTakeSleep, MPutSleep}"
    using mv by (auto simp: inner_move_def minside_def)
  show "mutex_inv t tok" using d(1) ts(3,4) unfolding mutex_inv_def t by auto
  show "next_inv t tok sg" using d(2) ns unfolding next_inv_def t by (auto split: option.splits)
  show "sig_inv t sg" using d(3) ns mv unfolding sig_inv_def t inner_move_def by auto
  show "tok_inv t tok" using d(4) ts(1,2) unfolding tok_inv_def t by auto
  show "handoff_inv t tok sg"
  proof (cases sg)
    case None
    then show ?thesis using d(5) by (simp add: handoff_inv_def)
  next
    case (Some x)
    then obtain k b where x: "sg = Some (k, b)" by (cases x) simp
    have k: "mat t k = mat s k" using ns x t(1) by (cases "k = i") auto
    have h: "handoff_at s tok k b" using d(5) x by (simp add: handoff_inv_def)
    have "mat t j \<in> {MWaitDec, MTakeLeave}" if "mat s j \<in> {MWaitDec, MTakeLeave}" for j
      using that mv t(1) by (cases "j = i") (auto simp: inner_move_def)
    then have "handoff_at t tok k b" using h tok unfolding handoff_at_def k by auto
    then show ?thesis by (simp add: x handoff_inv_def)
  qed
qed

lemma inner_step:
  assumes inv: "minv s tok sg" and i: "i < N" and mv: "inner_move (mat s i) p"
    and t: "mat t = (mat s)(i := p)" "mon_mutex t = mon_mutex s" "mon_next t = mon_next s" "mon_next_count t = mon_next_count s"
    and loc: "\<And>k. k < N \<Longrightarrow> cv_inv t tok k \<and> phase_inv t k \<and> pend_inv t tok k \<and> mapart t k \<and> mwaits t k"
  shows "minv t tok sg"
  using inner_glob [OF inv i mv t] loc by (simp add: minv_def)

definition loc_inv :: "mtable \<Rightarrow> place \<Rightarrow> nat \<Rightarrow> bool" where
  "loc_inv s tok k \<longleftrightarrow> cv_inv s tok k \<and> phase_inv s k \<and> pend_inv s tok k \<and> mapart s k \<and> mwaits s k"

lemma phase_upd:
  assumes "phase_inv s k" and "mat t = (mat s)(i := p)" and "k \<noteq> i \<Longrightarrow> state_condvar t k = state_condvar s k" and "p \<in> phase_pcs (state_condvar t i)"
  shows "phase_inv t k"
  using assms by (cases "k = i") (simp_all add: phase_inv_def)

lemma phase_at:
  assumes "phase_inv s i" and "mat s i = p"
  shows "p \<in> phase_pcs (state_condvar s i)"
  using assms by (simp add: phase_inv_def)

definition can_signal :: "mpc \<Rightarrow> bool" where "can_signal p \<longleftrightarrow> p \<in> {MSig Lft, MSigUp Lft, MSig Rgt, MSigUp Rgt}"

definition told :: "mtable \<Rightarrow> nat \<Rightarrow> bool" where
  "told s k \<longleftrightarrow> state_condvar s k = EATING \<and> mat s k \<in> {MWaitDown, MCvSleep}"

lemma pend_told: "pend_inv s tok k \<longleftrightarrow> (told s k \<longrightarrow> tok = AtCv k \<or> (\<exists>j<N. signals s j k)) \<and> (\<forall>j<N. signals s j k \<longrightarrow> told s k)"
  by (simp only: pend_inv_def told_def)

lemma can_signal_iff: "can_signal p \<longleftrightarrow> (\<exists>a. a \<noteq> Own \<and> p \<in> {MSig a, MSigUp a})"
  unfolding can_signal_def using turn.exhaust by auto

lemma signals_can: "signals s j k \<Longrightarrow> can_signal (mat s j)"
  by (auto simp: signals_def can_signal_iff)

lemma signals_same: "mat t j = mat s j \<Longrightarrow> signals t j k = signals s j k"
  by (simp add: signals_def)

lemma pend_same:
  assumes "pend_inv s tok k" and "mat t = (mat s)(i := p)" and "\<not> can_signal (mat s i)" and "\<not> can_signal p" and "told t k = told s k"
  shows "pend_inv t tok k"
proof -
  have "signals t j k = signals s j k" for j
    using signals_can [of s i k] signals_can [of t i k] assms(2-4) signals_same [of t j s k] by (cases "j = i") auto
  then show ?thesis using assms(1,5) by (simp only: pend_told)
qed

lemma step_TakeHungry:
  assumes inv: "minv s tok sg" and i: "i < N" and p: "mat s i = MTakeHungry"
  shows "minv (mgo i MTakeTest (set_state i HUNGRY s)) tok sg"
proof (rule inner_step [OF inv i])
  show "inner_move (mat s i) MTakeTest" by (simp add: p inner_move_def minside_def signalling_def)
  note d = minvD [OF inv]
  fix k assume k: "k < N"
  let ?t = "mgo i MTakeTest (set_state i HUNGRY s)"
  have th: "state_condvar s i = THINKING" using phase_at [OF d(7) [OF i] p] by (cases "state_condvar s i") (simp_all add: signalling_def)
  have "cv_inv ?t tok k" using d(6) [OF k] p by (auto simp: cv_inv_def)
  moreover have "phase_inv ?t k" by (rule phase_upd [OF d(7) [OF k], where i = i]) (simp, simp_all)
  moreover have "pend_inv ?t tok k" by (rule pend_same [OF d(8) [OF k], where i = i]) (use p in \<open>auto simp: can_signal_def told_def split: if_splits\<close>)
  moreover have "mapart ?t k" using d(9) [OF k] by (auto simp: mapart_def)
  moreover have "mwaits ?t k" using d(10) [OF k] p th by (auto simp: mwaits_def signalling_def)
  ultimately show "cv_inv ?t tok k \<and> phase_inv ?t k \<and> pend_inv ?t tok k \<and> mapart ?t k \<and> mwaits ?t k" by blast
qed simp_all

lemma step_PutThink:
  assumes inv: "minv s tok sg" and i: "i < N" and p: "mat s i = MPutThink"
  shows "minv (mgo i MPutLeft (set_state i THINKING s)) tok sg"
proof (rule inner_step [OF inv i])
  show "inner_move (mat s i) MPutLeft" by (simp add: p inner_move_def minside_def signalling_def)
  note d = minvD [OF inv]
  fix k assume k: "k < N"
  let ?t = "mgo i MPutLeft (set_state i THINKING s)"
  have th: "state_condvar s i = EATING" using phase_at [OF d(7) [OF i] p] by (cases "state_condvar s i") (simp_all add: signalling_def)
  have "cv_inv ?t tok k" using d(6) [OF k] p by (auto simp: cv_inv_def)
  moreover have "phase_inv ?t k" by (rule phase_upd [OF d(7) [OF k], where i = i]) (simp, simp_all)
  moreover have "pend_inv ?t tok k" by (rule pend_same [OF d(8) [OF k], where i = i]) (use p in \<open>auto simp: can_signal_def told_def split: if_splits\<close>)
  moreover have "mapart ?t k" using d(9) [OF k] by (auto simp: mapart_def)
  moreover have "mwaits ?t k" using d(10) [OF k] p th neighbours [OF k] by (auto simp: mwaits_def signalling_def)
  ultimately show "cv_inv ?t tok k \<and> phase_inv ?t k \<and> pend_inv ?t tok k \<and> mapart ?t k \<and> mwaits ?t k" by blast
qed simp_all

lemma step_TakeCheck:
  assumes inv: "minv s tok sg" and i: "i < N" and p: "mat s i = MTakeCheck"
  shows "minv (mgo i (if state_condvar s i = HUNGRY then MWaitInc else MTakeLeave) s) tok sg"
proof (rule inner_step [OF inv i])
  let ?p = "if state_condvar s i = HUNGRY then MWaitInc else MTakeLeave"
  show "inner_move (mat s i) ?p" by (simp add: p inner_move_def minside_def signalling_def)
  note d = minvD [OF inv]
  fix k assume k: "k < N"
  let ?t = "mgo i ?p s"
  have "cv_inv ?t tok k" using d(6) [OF k] p by (auto simp: cv_inv_def)
  moreover have "?p \<in> phase_pcs (state_condvar s i)"
    using phase_at [OF d(7) [OF i] p] by (cases "state_condvar s i") (simp_all add: signalling_def)
  then have "phase_inv ?t k" by (intro phase_upd [OF d(7) [OF k], where i = i]) (simp, simp_all)
  moreover have "pend_inv ?t tok k" by (rule pend_same [OF d(8) [OF k], where i = i]) (use p in \<open>auto simp: can_signal_def told_def split: if_splits\<close>)
  moreover have "mapart ?t k" using d(9) [OF k] by (auto simp: mapart_def)
  moreover have "mwaits ?t k" using d(10) [OF k] p by (auto simp: mwaits_def signalling_def)
  ultimately show "cv_inv ?t tok k \<and> phase_inv ?t k \<and> pend_inv ?t tok k \<and> mapart ?t k \<and> mwaits ?t k" by blast
qed simp_all

lemma step_WaitInc:
  assumes inv: "minv s tok sg" and i: "i < N" and p: "mat s i = MWaitInc"
  shows "minv (mgo i MWaitUp (s\<lparr>mon_count := (mon_count s)(i := mon_count s i + 1)\<rparr>)) tok sg"
proof (rule inner_step [OF inv i])
  show "inner_move (mat s i) MWaitUp" by (simp add: p inner_move_def minside_def signalling_def)
  note d = minvD [OF inv]
  fix k assume k: "k < N"
  let ?t = "mgo i MWaitUp (s\<lparr>mon_count := (mon_count s)(i := mon_count s i + 1)\<rparr>)"
  have "cv_inv ?t tok k" using d(6) [OF k] p by (auto simp: cv_inv_def)
  moreover have "MWaitUp \<in> phase_pcs (state_condvar s i)"
    using phase_at [OF d(7) [OF i] p] by (cases "state_condvar s i") (simp_all add: signalling_def)
  then have "phase_inv ?t k" by (intro phase_upd [OF d(7) [OF k], where i = i]) (simp, simp_all)
  moreover have "pend_inv ?t tok k" by (rule pend_same [OF d(8) [OF k], where i = i]) (use p in \<open>auto simp: can_signal_def told_def split: if_splits\<close>)
  moreover have "mapart ?t k" using d(9) [OF k] by (auto simp: mapart_def)
  moreover have "mwaits ?t k" using d(10) [OF k] p by (auto simp: mwaits_def signalling_def)
  ultimately show "cv_inv ?t tok k \<and> phase_inv ?t k \<and> pend_inv ?t tok k \<and> mapart ?t k \<and> mwaits ?t k" by blast
qed simp_all

lemma step_WaitDec:
  assumes inv: "minv s tok sg" and i: "i < N" and p: "mat s i = MWaitDec"
  shows "minv (mgo i MTakeLeave (s\<lparr>mon_count := (mon_count s)(i := mon_count s i - 1)\<rparr>)) tok sg"
proof (rule inner_step [OF inv i])
  show "inner_move (mat s i) MTakeLeave" by (simp add: p inner_move_def minside_def signalling_def)
  note d = minvD [OF inv]
  fix k assume k: "k < N"
  let ?t = "mgo i MTakeLeave (s\<lparr>mon_count := (mon_count s)(i := mon_count s i - 1)\<rparr>)"
  have "cv_inv ?t tok k" using d(6) [OF k] p by (auto simp: cv_inv_def)
  moreover have "MTakeLeave \<in> phase_pcs (state_condvar s i)"
    using phase_at [OF d(7) [OF i] p] by (cases "state_condvar s i") (simp_all add: signalling_def)
  then have "phase_inv ?t k" by (intro phase_upd [OF d(7) [OF k], where i = i]) (simp, simp_all)
  moreover have "pend_inv ?t tok k" by (rule pend_same [OF d(8) [OF k], where i = i]) (use p in \<open>auto simp: can_signal_def told_def split: if_splits\<close>)
  moreover have "mapart ?t k" using d(9) [OF k] by (auto simp: mapart_def)
  moreover have "mwaits ?t k" using d(10) [OF k] p by (auto simp: mwaits_def signalling_def)
  ultimately show "cv_inv ?t tok k \<and> phase_inv ?t k \<and> pend_inv ?t tok k \<and> mapart ?t k \<and> mwaits ?t k" by blast
qed simp_all

section \<open>Tests\<close>

lemma facing: "k < N \<Longrightarrow> RIGHT k = i \<longleftrightarrow> k = LEFT i \<and> i < N" "k < N \<Longrightarrow> LEFT k = i \<longleftrightarrow> k = RIGHT i \<and> i < N"
  using neighbours by metis+

text \<open>Who is about to test its left neighbour, and who its right one.\<close>

definition tests_left :: "mpc \<Rightarrow> bool" where "tests_left p \<longleftrightarrow> p = MPutLeft"
definition tests_right :: "mpc \<Rightarrow> bool" where "tests_right p \<longleftrightarrow> p \<in> {MPutLeft, MPutRight, MSig Lft} \<union> signalling Lft"

lemma mwaits_tests: "mwaits s k \<longleftrightarrow> (state_condvar s k = HUNGRY \<longrightarrow>
    state_condvar s (LEFT k) = EATING \<or> state_condvar s (RIGHT k) = EATING \<or> mat s k = MTakeTest
    \<or> tests_left (mat s (RIGHT k)) \<or> tests_right (mat s (LEFT k)))"
  by (simp only: mwaits_def tests_left_def tests_right_def)

lemma mwaits_upd:
  assumes "mwaits s k" and "k < N" and "mat t = (mat s)(i := p)"
    and "state_condvar t k = HUNGRY \<Longrightarrow> state_condvar s k = HUNGRY"
    and "\<And>l. state_condvar t k = HUNGRY \<Longrightarrow> l \<in> {LEFT k, RIGHT k} \<Longrightarrow> state_condvar s l = EATING \<Longrightarrow> state_condvar t l = EATING"
    and "state_condvar t k = HUNGRY \<Longrightarrow> k = i \<Longrightarrow> mat s i \<noteq> MTakeTest"
    and "state_condvar t k = HUNGRY \<Longrightarrow> k = LEFT i \<Longrightarrow> tests_left (mat s i) \<Longrightarrow> tests_left p"
    and "state_condvar t k = HUNGRY \<Longrightarrow> k = RIGHT i \<Longrightarrow> tests_right (mat s i) \<Longrightarrow> tests_right p"
  shows "mwaits t k"
proof -
  have "state_condvar t (LEFT k) = EATING \<or> state_condvar t (RIGHT k) = EATING \<or> mat t k = MTakeTest
      \<or> tests_left (mat t (RIGHT k)) \<or> tests_right (mat t (LEFT k))" if h: "state_condvar t k = HUNGRY"
  proof -
    have "tests_left (mat t (RIGHT k))" if "tests_left (mat s (RIGHT k))"
      using assms(7) [OF h] that facing(1) [OF assms(2), of i] assms(3) by auto
    moreover have "tests_right (mat t (LEFT k))" if "tests_right (mat s (LEFT k))"
      using assms(8) [OF h] that facing(2) [OF assms(2), of i] assms(3) by auto
    moreover have "mat t k = MTakeTest" if "mat s k = MTakeTest"
      using assms(6) [OF h] that assms(3) by auto
    moreover have "state_condvar t (LEFT k) = EATING" if "state_condvar s (LEFT k) = EATING" using assms(5) [OF h _ that] by simp
    moreover have "state_condvar t (RIGHT k) = EATING" if "state_condvar s (RIGHT k) = EATING" using assms(5) [OF h _ that] by simp
    moreover have "state_condvar s (LEFT k) = EATING \<or> state_condvar s (RIGHT k) = EATING \<or> mat s k = MTakeTest
      \<or> tests_left (mat s (RIGHT k)) \<or> tests_right (mat s (LEFT k))"
      using assms(1) assms(4) [OF h] unfolding mwaits_tests by blast
    ultimately show ?thesis by blast
  qed
  then show ?thesis unfolding mwaits_tests by blast
qed

fun before :: "turn \<Rightarrow> mpc" where
  "before Own = MTakeTest" | "before Lft = MPutLeft" | "before Rgt = MPutRight"

lemma outside_waits:
  assumes inv: "minv s tok sg" and i: "i < N" and p: "minside (mat s i)" and j: "j < N" "j \<noteq> i" and h: "state_condvar s j = HUNGRY"
  shows "mat s j \<in> {MWaitDown, MCvSleep}"
proof -
  have "\<not> minside (mat s j)" using minv_inside [OF inv i p] minv_inside [OF inv j(1)] j(2) by auto
  moreover have "mat s j \<in> phase_pcs HUNGRY" using minvD(7) [OF inv j(1)] h by (simp add: phase_inv_def)
  ultimately show ?thesis by (auto simp: minside_def)
qed

lemma step_test_no:
  assumes inv: "minv s tok sg" and i: "i < N" and p: "mat s i = before a"
    and c: "\<not> (state_condvar s (target i a) = HUNGRY \<and> state_condvar s (LEFT (target i a)) \<noteq> EATING \<and> state_condvar s (RIGHT (target i a)) \<noteq> EATING)"
  shows "minv (mgo i (after a) s) tok sg"
proof (rule inner_step [OF inv i])
  show "inner_move (mat s i) (after a)" unfolding p by (cases a; simp add: inner_move_def minside_def signalling_def)
  note d = minvD [OF inv]
  fix k assume k: "k < N"
  let ?t = "mgo i (after a) s"
  have "cv_inv ?t tok k" using d(6) [OF k] p by (cases a) (auto simp: cv_inv_def)
  moreover have "after a \<in> phase_pcs (state_condvar s i)"
    using phase_at [OF d(7) [OF i] p] by (cases a; cases "state_condvar s i") (simp_all add: signalling_def)
  then have "phase_inv ?t k" by (intro phase_upd [OF d(7) [OF k], where i = i]) (simp, simp_all)
  moreover have "pend_inv ?t tok k"
  proof (rule pend_same [OF d(8) [OF k], where i = i])
    have "after a \<notin> {MWaitDown, MCvSleep}" "before a \<notin> {MWaitDown, MCvSleep}" by (cases a; simp)+
    then show "told ?t k = told s k" using p by (cases "k = i") (simp_all add: told_def)
    show "\<not> can_signal (mat s i)" "\<not> can_signal (after a)" unfolding p by (cases a; simp add: can_signal_def)+
  qed simp
  moreover have "mapart ?t k" using d(9) [OF k] by (auto simp: mapart_def)
  moreover have "mwaits ?t k"
  proof (cases "k = target i a")
    case True
    then show ?thesis using c by (auto simp: mwaits_def)
  next
    case False
    show ?thesis
    proof (rule mwaits_upd [OF d(10) [OF k] k, where i = i and p = "after a"])
      show "k = i \<Longrightarrow> mat s i \<noteq> MTakeTest" using False p by (cases a) simp_all
      show "k = LEFT i \<Longrightarrow> tests_left (mat s i) \<Longrightarrow> tests_left (after a)" using False p by (cases a) (simp_all add: tests_left_def)
      show "k = RIGHT i \<Longrightarrow> tests_right (mat s i) \<Longrightarrow> tests_right (after a)"
        using False p by (cases a) (simp_all add: tests_right_def signalling_def)
    qed simp_all
  qed
  ultimately show "cv_inv ?t tok k \<and> phase_inv ?t k \<and> pend_inv ?t tok k \<and> mapart ?t k \<and> mwaits ?t k" by blast
qed simp_all

lemma step_test_yes:
  assumes inv: "minv s tok sg" and i: "i < N" and p: "mat s i = before a"
    and c: "state_condvar s (target i a) = HUNGRY" "state_condvar s (LEFT (target i a)) \<noteq> EATING" "state_condvar s (RIGHT (target i a)) \<noteq> EATING"
  shows "minv (mgo i (MSig a) (set_state (target i a) EATING s)) tok sg"
proof (rule inner_step [OF inv i])
  have ins: "minside (mat s i)" unfolding p by (cases a; simp add: minside_def)
  show "inner_move (mat s i) (MSig a)" unfolding p by (cases a; simp add: inner_move_def minside_def signalling_def)
  note d = minvD [OF inv]
  let ?j = "target i a" and ?t = "mgo i (MSig a) (set_state (target i a) EATING s)"
  have j: "?j < N" by (rule target_below [OF i])
  have w: "a \<noteq> Own \<Longrightarrow> mat s ?j \<in> {MWaitDown, MCvSleep}"
    using outside_waits [OF inv i ins j target_other [OF i] c(1)] .
  fix k assume k: "k < N"
  have "cv_inv ?t tok k" using d(6) [OF k] p by (cases a) (auto simp: cv_inv_def)
  moreover have "phase_inv ?t k"
  proof (cases "k = ?j \<or> k = i")
    case True
    then show ?thesis
      using w phase_at [OF d(7) [OF i] p] target_other [OF i, of a] c(1)
      by (cases a; cases "state_condvar s i") (auto simp: phase_inv_def signalling_def)
  qed (use d(7) [OF k] in \<open>simp add: phase_inv_def\<close>)
  moreover have "pend_inv ?t tok k"
  proof (cases "a = Own")
    case True
    show ?thesis by (rule pend_same [OF d(8) [OF k], where i = i]) (use p True in \<open>auto simp: can_signal_def told_def\<close>)
  next
    case False
    have o: "signals ?t l k = (if l = i then k = ?j else signals s l k)" for l
      using False signals_same [of ?t l s k] by (cases "l = i") (auto simp: signals_def)
    have n: "\<not> signals s i k" using signals_can [of s i k] p by (cases a) (auto simp: can_signal_def)
    have tl: "told ?t k \<longleftrightarrow> k = ?j \<or> told s k"
      using w [OF False] target_other [OF i False] p by (cases a) (auto simp: told_def)
    show ?thesis using d(8) [OF k] n i unfolding pend_told o tl by auto
  qed
  moreover have "mapart ?t k"
    using d(9) [OF k] c neighbours [OF k] neighbours [OF j] by (auto simp: mapart_def)
  moreover have "mwaits ?t k"
  proof (cases "k = ?j")
    case True
    then show ?thesis by (simp add: mwaits_def)
  next
    case False
    show ?thesis
    proof (rule mwaits_upd [OF d(10) [OF k] k, where i = i and p = "MSig a"])
      show "state_condvar ?t k = HUNGRY \<Longrightarrow> state_condvar s k = HUNGRY" using False by simp
      show "k = i \<Longrightarrow> mat s i \<noteq> MTakeTest" using False p by (cases a) simp_all
      show "k = LEFT i \<Longrightarrow> tests_left (mat s i) \<Longrightarrow> tests_left (MSig a)" using False p by (cases a) (simp_all add: tests_left_def)
      show "k = RIGHT i \<Longrightarrow> tests_right (mat s i) \<Longrightarrow> tests_right (MSig a)"
        using False p by (cases a) (simp_all add: tests_right_def signalling_def)
    qed simp_all
  qed
  ultimately show "cv_inv ?t tok k \<and> phase_inv ?t k \<and> pend_inv ?t tok k \<and> mapart ?t k \<and> mwaits ?t k" by blast
qed simp_all

end
