(* ===== verification/Monitor_Steps.thy ===== *)
theory Monitor_Steps
  imports Monitor_Inv
begin

text \<open>The steps of the philosophers with a monitor that use a semaphore.\<close>

section \<open>The two halves of the invariant\<close>

definition glob_inv :: "mtable \<Rightarrow> place \<Rightarrow> (nat \<times> turn) option \<Rightarrow> bool" where
  "glob_inv s tok sg \<longleftrightarrow> mutex_inv s tok \<and> next_inv s tok sg \<and> sig_inv s sg \<and> tok_inv s tok \<and> handoff_inv s tok sg"

definition loc_all :: "mtable \<Rightarrow> place \<Rightarrow> bool" where "loc_all s tok \<longleftrightarrow> (\<forall>k<N. loc_inv s tok k)"

lemma minv_halves: "minv s tok sg \<longleftrightarrow> glob_inv s tok sg \<and> loc_all s tok"
  by (auto simp: minv_def glob_inv_def loc_all_def loc_inv_def)

definition counts :: "mpc \<Rightarrow> bool" where "counts p \<longleftrightarrow> p \<in> {MWaitUp, MWaitDown, MCvSleep, MWaitDec}"

lemma loc_move_gen:
  assumes s: "loc_all s tok" and i: "i < N" and t: "mat t = (mat s)(i := p)"
    and same: "state_condvar t = state_condvar s" "\<And>k. k \<noteq> i \<Longrightarrow> mon_cv t k = mon_cv s k" "mon_count t = mon_count s"
      "\<And>k. k \<noteq> i \<Longrightarrow> tok' = AtCv k \<longleftrightarrow> tok = AtCv k"
    and p: "p \<in> phase_pcs (state_condvar s i)" "\<And>k. k < N \<Longrightarrow> signals t i k = signals s i k" "mat s i \<noteq> MTakeTest"
      "tests_left (mat s i) \<Longrightarrow> tests_left p" "tests_right (mat s i) \<Longrightarrow> tests_right p"
      "cv_inv t tok' i" "pend_inv t tok' i"
  shows "loc_all t tok'"
  unfolding loc_all_def loc_inv_def
proof (intro allI impI conjI)
  fix k assume k: "k < N"
  have s': "cv_inv s tok k" "phase_inv s k" "pend_inv s tok k" "mapart s k" "mwaits s k"
    using s k by (auto simp: loc_all_def loc_inv_def)
  show "cv_inv t tok' k" using s'(1) p(6) by (cases "k = i") (simp_all add: cv_inv_def t same)
  show "phase_inv t k" by (rule phase_upd [OF s'(2) t]) (simp_all add: same p(1))
  have "pend_inv t tok' k" if "k \<noteq> i"
  proof -
    have "signals t j k = signals s j k" for j
      using p(2) [OF k] signals_same [of t j s k] t by (cases "j = i") auto
    moreover have "told t k = told s k" using that by (simp add: told_def t same)
    ultimately show ?thesis using s'(3) by (simp only: pend_told same(4) [OF that])
  qed
  then show "pend_inv t tok' k" using p(7) by blast
  show "mapart t k" using s'(4) by (simp add: mapart_def same)
  show "mwaits t k" by (rule mwaits_upd [OF s'(5) k t]) (use p(3-5) in \<open>simp_all add: same\<close>)
qed

lemma loc_move:
  assumes s: "loc_all s tok" and i: "i < N" and t: "mat t = (mat s)(i := p)"
    and same: "state_condvar t = state_condvar s" "mon_cv t = mon_cv s" "mon_count t = mon_count s" "\<And>k. tok' = AtCv k \<longleftrightarrow> tok = AtCv k"
    and p: "p \<in> phase_pcs (state_condvar s i)" "\<not> can_signal (mat s i)" "\<not> can_signal p" "mat s i \<noteq> MTakeTest"
      "state_condvar s i = EATING \<Longrightarrow> mat s i \<in> {MWaitDown, MCvSleep} \<longleftrightarrow> p \<in> {MWaitDown, MCvSleep}"
      "tests_left (mat s i) \<Longrightarrow> tests_left p" "tests_right (mat s i) \<Longrightarrow> tests_right p"
      "mat s i = MCvSleep \<longleftrightarrow> p = MCvSleep" "counts (mat s i) \<longleftrightarrow> counts p"
  shows "loc_all t tok'"
proof (rule loc_move_gen [OF s i t same(1) _ same(3,4)])
  have s': "cv_inv s tok i" "pend_inv s tok i" using s i by (auto simp: loc_all_def loc_inv_def)
  show "signals t i k = signals s i k" for k using signals_can [of s i k] signals_can [of t i k] p(2,3) t by auto
  show "cv_inv t tok' i" using s'(1) p(8,9) by (auto simp: cv_inv_def t same counts_def)
  have "told t i = told s i" using p(5) by (auto simp: told_def t same)
  then have "pend_inv t tok i" by (rule pend_same [OF s'(2) t p(2,3)])
  then show "pend_inv t tok' i" by (simp add: pend_inv_def same(4))
qed (use p same in simp_all)

definition mplain :: "mpc \<Rightarrow> mpc \<Rightarrow> bool" where
  "mplain p q \<longleftrightarrow> (p, q) \<in> {(MThink, MTakeHungry), (MThink, MTakeSleep), (MThink, MQuit), (MTakeSleep, MTakeHungry), (MTakeLeave, MEat),
     (MEat, MPutThink), (MEat, MPutSleep), (MPutSleep, MPutThink), (MPutLeave, MThink)}"

lemma mplain_phase: "mplain p q \<Longrightarrow> p \<in> phase_pcs x \<Longrightarrow> q \<in> phase_pcs x"
  by (cases x) (auto simp: mplain_def signalling_def)

lemma mplain_facts:
  assumes "mplain p q"
  shows "\<not> can_signal p" "\<not> can_signal q" "p \<noteq> MTakeTest" "p \<notin> {MWaitDown, MCvSleep}" "q \<notin> {MWaitDown, MCvSleep}"
    "\<not> tests_left p" "\<not> tests_right p" "\<not> counts p" "\<not> counts q"
  using assms by (auto simp: mplain_def can_signal_def tests_left_def tests_right_def counts_def signalling_def)

lemma loc_plain:
  assumes s: "loc_all s tok" and i: "i < N" and t: "mat t = (mat s)(i := p)" and pl: "mplain (mat s i) p"
    and same: "state_condvar t = state_condvar s" "mon_cv t = mon_cv s" "mon_count t = mon_count s" "\<And>k. tok' = AtCv k \<longleftrightarrow> tok = AtCv k"
  shows "loc_all t tok'"
proof (rule loc_move [OF s i t same])
  have "mat s i \<in> phase_pcs (state_condvar s i)" using s i by (simp add: loc_all_def loc_inv_def phase_inv_def)
  then show "p \<in> phase_pcs (state_condvar s i)" by (rule mplain_phase [OF pl])
qed (use mplain_facts [OF pl] in auto)

text \<open>Who signals keeps the right away from the mutex.\<close>

lemma signaller:
  assumes "glob_inv s tok (Some (k, b))"
  shows "k < N" "b \<noteq> Own" "mat s k \<in> signalling b"
    and "tok = With k \<and> mat s k \<in> {MSigUp b, MSigDec b} \<or> mat s k \<in> {MSigDown b, MNextSleep b} \<and> (tok = AtCv (target k b)
      \<or> tok = With (target k b) \<and> mat s (target k b) \<in> {MWaitDec, MTakeLeave} \<or> tok = AtNext \<and> mat s k = MSigDown b)"
proof -
  show k: "k < N" "b \<noteq> Own" "mat s k \<in> signalling b" using assms by (auto simp: glob_inv_def sig_inv_def)
  show "tok = With k \<and> mat s k \<in> {MSigUp b, MSigDec b} \<or> mat s k \<in> {MSigDown b, MNextSleep b} \<and> (tok = AtCv (target k b)
      \<or> tok = With (target k b) \<and> mat s (target k b) \<in> {MWaitDec, MTakeLeave} \<or> tok = AtNext \<and> mat s k = MSigDown b)"
  proof (cases "mat s k \<in> {MSigDown b, MNextSleep b}")
    case True
    then show ?thesis using assms by (auto simp: glob_inv_def handoff_inv_def handoff_at_def)
  next
    case False
    then have "mat s k \<in> {MSigUp b, MSigDec b}" using k(3) by (auto simp: signalling_def)
    moreover from this have "minside (mat s k)" by (auto simp: minside_def)
    ultimately show ?thesis using assms k(1) by (auto simp: glob_inv_def tok_inv_def)
  qed
qed

lemma no_signaller: "glob_inv s tok sg \<Longrightarrow> tok = AtMutex \<or> tok = With i \<and> mat s i \<notin> {MWaitDec, MTakeLeave} \<and> (\<forall>b. mat s i \<notin> signalling b) \<Longrightarrow> sg = None"
proof (cases sg)
  case (Some x)
  obtain k b where x: "x = (k, b)" by (cases x)
  assume g: "glob_inv s tok sg" and "tok = AtMutex \<or> tok = With i \<and> mat s i \<notin> {MWaitDec, MTakeLeave} \<and> (\<forall>b. mat s i \<notin> signalling b)"
  then show ?thesis using signaller [OF g [unfolded Some x]] by auto
qed simp

lemma handoff_other:
  assumes h: "handoff_inv s tok sg" and t: "mat t = (mat s)(i := p)" "state_condvar t = state_condvar s"
    and ns: "\<And>a. sg \<noteq> Some (i, a)" and p: "mat s i \<notin> {MWaitDec, MTakeLeave, MWaitDown}"
  shows "handoff_inv t tok sg"
proof -
  have k: "mat t k = mat s k" if "sg = Some (k, b)" for k b using ns that t(1) by (cases "k = i") auto
  have j: "mat t j = mat s j" if "mat s j \<in> {MWaitDec, MTakeLeave, MWaitDown}" for j using p that t(1) by (cases "j = i") auto
  show ?thesis
  proof (cases sg)
    case None
    then show ?thesis using h by (simp add: handoff_inv_def)
  next
    case (Some x)
    then obtain l b where x: "sg = Some (l, b)" by (cases x) simp
    have "handoff_at s tok l b" using h x by (simp add: handoff_inv_def)
    then have "handoff_at t tok l b" using j unfolding handoff_at_def k [OF x] t(2) by auto
    then show ?thesis by (simp add: x handoff_inv_def)
  qed
qed

section \<open>Entering by the mutex\<close>

lemma mutex_queue:
  assumes "mutex_inv s tok"
  shows "i \<in> set (as_queue (mon_mutex s)) \<longleftrightarrow> i < N \<and> mat s i \<in> {MTakeSleep, MPutSleep}" "distinct (as_queue (mon_mutex s))"
    "as_value (mon_mutex s) = (if tok = AtMutex then 1 else 0)" "tok = AtMutex \<Longrightarrow> as_queue (mon_mutex s) = []"
  using assms unfolding mutex_inv_def by blast+

lemma step_down_mutex:
  assumes inv: "minv s tok sg" and i: "i < N" and pl: "mplain (mat s i) run" "mplain (mat s i) sleep"
    and r: "run \<in> {MTakeHungry, MPutThink}" "sleep \<in> {MTakeSleep, MPutSleep}" "mat s i \<in> {MThink, MEat}"
  shows "\<exists>tok'. minv (mdown_mutex i run sleep s) tok' sg"
proof -
  have g: "glob_inv s tok sg" and l: "loc_all s tok" using inv by (simp_all add: minv_halves)
  have d: "mutex_inv s tok" "next_inv s tok sg" "sig_inv s sg" "tok_inv s tok" "handoff_inv s tok sg"
    using g by (simp_all add: glob_inv_def)
  have q: "i \<notin> set (as_queue (mon_mutex s))" using mutex_queue(1) [OF d(1), of i] r(3) by auto
  have out: "\<not> minside (mat s i)" "\<And>a. mat s i \<notin> signalling a" using r(3) by (auto simp: minside_def signalling_def)
  have ns: "sg \<noteq> Some (i, a)" for a using d(3) i out(2) by (auto simp: sig_inv_def)
  show ?thesis
  proof (cases "tok = AtMutex")
    case True
    have sn: "sg = None" by (rule no_signaller [OF g]) (use True in simp)
    have v: "as_value (mon_mutex s) = 1" "as_queue (mon_mutex s) = []" using mutex_queue(3,4) [OF d(1)] True by simp_all
    let ?t = "mdown_mutex i run sleep s"
    have t: "mat ?t = (mat s)(i := run)" "mon_mutex ?t = (mon_mutex s)\<lparr>as_value := 0\<rparr>" "mon_next ?t = mon_next s"
      "mon_next_count ?t = mon_next_count s" "mon_cv ?t = mon_cv s" "mon_count ?t = mon_count s" "state_condvar ?t = state_condvar s"
      using v by (simp_all add: mdown_mutex_def a_down_def)
    have rn: "minside run" "run \<notin> {MTakeSleep, MPutSleep}" "\<And>a. run \<notin> signalling a" using r(1) by (auto simp: minside_def signalling_def)
    have "j \<in> set (as_queue (mon_mutex ?t)) \<longleftrightarrow> j < N \<and> mat ?t j \<in> {MTakeSleep, MPutSleep}" for j
      using mutex_queue(1) [OF d(1), of j] v(2) rn(2) unfolding t by (cases "j = i") simp_all
    then have "mutex_inv ?t (With i)" using v unfolding mutex_inv_def by (simp add: t)
    moreover have "next_inv ?t (With i) sg" using d(2) True sn unfolding next_inv_def t by auto
    moreover have "sig_inv ?t sg" using d(3) sn rn(3) unfolding sig_inv_def t by auto
    moreover have "tok_inv ?t (With i)" using d(4) True rn(1) i unfolding tok_inv_def t by auto
    moreover have "handoff_inv ?t (With i) sg" using sn unfolding handoff_inv_def by auto
    moreover have "loc_all ?t (With i)" by (rule loc_plain [OF l i t(1) pl(1)]) (simp_all add: t True)
    ultimately have "minv ?t (With i) sg" by (simp add: minv_halves glob_inv_def)
    then show ?thesis by blast
  next
    case False
    have v: "as_value (mon_mutex s) = 0" using mutex_queue(3) [OF d(1)] False by simp
    let ?t = "mdown_mutex i run sleep s"
    have t: "mat ?t = (mat s)(i := sleep)" "mon_mutex ?t = (mon_mutex s)\<lparr>as_queue := as_queue (mon_mutex s) @ [i]\<rparr>" "mon_next ?t = mon_next s"
      "mon_next_count ?t = mon_next_count s" "mon_cv ?t = mon_cv s" "mon_count ?t = mon_count s" "state_condvar ?t = state_condvar s"
      using v by (simp_all add: mdown_mutex_def a_down_def)
    have rn: "\<not> minside sleep" "\<And>a. sleep \<notin> signalling a" using r(2) by (auto simp: minside_def signalling_def)
    have "j \<in> set (as_queue (mon_mutex ?t)) \<longleftrightarrow> j < N \<and> mat ?t j \<in> {MTakeSleep, MPutSleep}" for j
      using mutex_queue(1) [OF d(1), of j] r(2) i unfolding t by (cases "j = i") simp_all
    then have "mutex_inv ?t tok" using mutex_queue(2,3) [OF d(1)] False q unfolding mutex_inv_def by (simp add: t)
    moreover have "next_inv ?t tok sg" using d(2) ns unfolding next_inv_def t by (auto split: option.splits)
    moreover have "sig_inv ?t sg" using d(3) ns rn(2) unfolding sig_inv_def t by auto
    moreover have "tok_inv ?t tok" using d(4) rn(1) out(1) unfolding tok_inv_def t by auto
    moreover have "handoff_inv ?t tok sg"
      by (rule handoff_other [OF d(5) t(1,7) ns]) (use r(3) in auto)
    moreover have "loc_all ?t tok" by (rule loc_plain [OF l i t(1) pl(2)]) (simp_all add: t)
    ultimately have "minv ?t tok sg" by (simp add: minv_halves glob_inv_def)
    then show ?thesis by blast
  qed
qed

section \<open>Leaving\<close>

definition leaving :: "mpc \<Rightarrow> mpc \<Rightarrow> bool" where
  "leaving q p \<longleftrightarrow> (q, p) \<in> {(MTakeLeave, MEat), (MPutLeave, MThink), (MWaitUp, MWaitDown)}"

lemma leaving_facts:
  assumes "leaving q p"
  shows "minside q" "\<not> minside p" "q \<notin> signalling a" "p \<notin> signalling a" "p \<notin> {MTakeSleep, MPutSleep}" "q \<notin> {MTakeSleep, MPutSleep}"
  using assms by (auto simp: leaving_def minside_def signalling_def)

lemma loc_leaving:
  assumes s: "loc_all s tok" and i: "i < N" and lv: "leaving (mat s i) p" and tok: "\<And>k. tok' = AtCv k \<longleftrightarrow> tok = AtCv k"
  shows "loc_all (mgo i p s) tok'"
proof (rule loc_move [OF s i _ _ _ _ tok])
  have ph: "mat s i \<in> phase_pcs (state_condvar s i)" using s i by (simp add: loc_all_def loc_inv_def phase_inv_def)
  show "p \<in> phase_pcs (state_condvar s i)"
    using ph lv by (cases "state_condvar s i") (auto simp: leaving_def signalling_def)
  show "state_condvar s i = EATING \<Longrightarrow> mat s i \<in> {MWaitDown, MCvSleep} \<longleftrightarrow> p \<in> {MWaitDown, MCvSleep}"
    using ph lv by (auto simp: leaving_def)
qed (use lv in \<open>auto simp: leaving_def can_signal_def tests_left_def tests_right_def signalling_def counts_def\<close>)

lemma woken_mutex:
  assumes "p \<in> {MTakeSleep, MPutSleep}"
  shows "minside (mwoken p)" "mwoken p \<noteq> MTakeSleep \<and> mwoken p \<noteq> MPutSleep" "mwoken p \<notin> signalling a" "mplain p (mwoken p)"
  using assms by (elim insertE; simp add: minside_def signalling_def mplain_def)+

lemma leave_mutex:
  assumes g: "glob_inv s tok None" and l: "loc_all s tok" and i: "i < N" and lv: "leaving (mat s i) p"
  shows "\<exists>tok'. minv (mgo i p (mup_mutex s)) tok' None"
proof -
  have d: "mutex_inv s tok" "next_inv s tok None" "sig_inv s None" "tok_inv s tok"
    using g by (simp_all add: glob_inv_def)
  note f = leaving_facts [OF lv]
  have tok: "tok = With i" using d(4) i f(1) by (simp add: tok_inv_def)
  have v: "as_value (mon_mutex s) = 0" using mutex_queue(3) [OF d(1)] tok by simp
  note mq = mutex_queue(1) [OF d(1)]
  have ins: "minside (mat s j) \<longleftrightarrow> j = i" if "j < N" for j using d(4) tok that by (auto simp: tok_inv_def)
  have sg: "mat s j \<notin> signalling a" if "j < N" for j a using d(3) that by (simp add: sig_inv_def)
  show ?thesis
  proof (cases "as_queue (mon_mutex s)")
    case Nil
    let ?t = "mgo i p (mup_mutex s)"
    have u: "mup_mutex s = s\<lparr>mon_mutex := (mon_mutex s)\<lparr>as_value := 1\<rparr>\<rparr>" using Nil v by (simp add: mup_mutex_def a_up_def mwake_def)
    have "j \<in> set (as_queue (mon_mutex ?t)) \<longleftrightarrow> j < N \<and> mat ?t j \<in> {MTakeSleep, MPutSleep}" for j
      using mq [of j] Nil f(5) unfolding u by (cases "j = i") simp_all
    then have "mutex_inv ?t AtMutex" using Nil unfolding mutex_inv_def by (simp add: u)
    moreover have "next_inv ?t AtMutex None" using d(2) tok by (simp add: next_inv_def u)
    moreover have "sig_inv ?t None" using sg f(4) by (simp add: sig_inv_def u)
    moreover have "tok_inv ?t AtMutex" using ins f(2) by (simp add: tok_inv_def u)
    moreover have "handoff_inv ?t AtMutex None" by (simp add: handoff_inv_def)
    moreover have "loc_all (mup_mutex s) AtMutex"
      using l tok unfolding u loc_all_def loc_inv_def cv_inv_def phase_inv_def pend_inv_def signals_def mapart_def mwaits_def by simp
    then have "loc_all ?t AtMutex" by (rule loc_leaving [OF _ i]) (simp_all add: u lv)
    ultimately have "minv ?t AtMutex None" by (simp add: minv_halves glob_inv_def)
    then show ?thesis by blast
  next
    case (Cons w ws)
    have w: "w < N" "mat s w \<in> {MTakeSleep, MPutSleep}" using mq [of w] Cons by simp_all
    have wi: "w \<noteq> i" using w(2) f(6) by auto
    have di: "distinct (w # ws)" using mutex_queue(2) [OF d(1)] Cons by simp
    let ?q = "mwoken (mat s w)" and ?s = "s\<lparr>mon_mutex := (mon_mutex s)\<lparr>as_queue := ws\<rparr>\<rparr>"
    let ?t = "mgo i p (mup_mutex s)"
    have u: "mup_mutex s = mgo w ?q ?s" using Cons by (simp add: mup_mutex_def a_up_def mwake_def)
    have q: "minside ?q" "?q \<notin> {MTakeSleep, MPutSleep}" "?q \<notin> signalling a" "mplain (mat s w) ?q" for a
      using woken_mutex [OF w(2)] by simp_all
    have m: "mat ?t j = (if j = i then p else if j = w then ?q else mat s j)" for j by (simp add: u)
    have "j \<in> set ws \<longleftrightarrow> j < N \<and> mat ?t j \<in> {MTakeSleep, MPutSleep}" for j
      using mq [of j] Cons di f(5,6) q(2) w unfolding m by (cases "j = i"; cases "j = w") auto
    then have "mutex_inv ?t (With w)" using v di unfolding mutex_inv_def by (simp add: u)
    moreover have "next_inv ?t (With w) None" using d(2) tok by (simp add: next_inv_def u)
    moreover have "sig_inv ?t None" using sg f(4) q(3) unfolding sig_inv_def m by simp
    moreover have "tok_inv ?t (With w)" using ins f(2) q(1) w(1) wi unfolding tok_inv_def m by auto
    moreover have "handoff_inv ?t (With w) None" by (simp add: handoff_inv_def)
    moreover have "loc_all (mup_mutex s) (With w)"
      by (rule loc_plain [OF l w(1) _ q(4)]) (simp_all add: u tok)
    then have "loc_all ?t (With w)" by (rule loc_leaving [OF _ i]) (use wi lv in \<open>simp_all add: u\<close>)
    ultimately have "minv ?t (With w) None" by (simp add: minv_halves glob_inv_def)
    then show ?thesis by blast
  qed
qed

lemma leave_next:
  assumes g: "glob_inv s tok (Some (k, b))" and l: "loc_all s tok" and i: "i < N" and lv: "leaving (mat s i) p"
  shows "\<exists>tok'. minv (mgo i p (mup_next s)) tok' (Some (k, b))"
proof -
  have d: "mutex_inv s tok" "next_inv s tok (Some (k, b))" "sig_inv s (Some (k, b))" "tok_inv s tok" "handoff_inv s tok (Some (k, b))"
    using g by (simp_all add: glob_inv_def)
  note f = leaving_facts [OF lv]
  have tok: "tok = With i" using d(4) i f(1) by (simp add: tok_inv_def)
  note sk = signaller [OF g]
  have ki: "k \<noteq> i" using sk(3) f(3) by blast
  then have mk: "mat s k \<in> {MSigDown b, MNextSleep b}" and ti: "i = target k b" using sk(4) tok by auto
  have v: "as_value (mon_mutex s) = 0" using mutex_queue(3) [OF d(1)] tok by simp
  note mq = mutex_queue(1) [OF d(1)]
  have ins: "minside (mat s j) \<longleftrightarrow> j = i" if "j < N" for j using d(4) tok that by (auto simp: tok_inv_def)
  have sg: "mat s j \<in> signalling a \<longleftrightarrow> j = k \<and> a = b" if "j < N" for j a using d(3) that by (auto simp: sig_inv_def)
  have nv: "as_value (mon_next s) = 0" "as_queue (mon_next s) = (if mat s k = MNextSleep b then [k] else [])" "mon_next_count s = 1"
    using d(2) tok by (simp_all add: next_inv_def)
  have mu: "mutex_inv t tok'" if "mon_mutex t = mon_mutex s" "tok' \<noteq> AtMutex"
    "\<And>j. mat t j \<in> {MTakeSleep, MPutSleep} \<longleftrightarrow> mat s j \<in> {MTakeSleep, MPutSleep}" for t tok'
    unfolding mutex_inv_def that(1,3) using mutex_queue [OF d(1)] tok that(2) by simp
  let ?t = "mgo i p (mup_next s)"
  show ?thesis
  proof (cases "mat s k = MNextSleep b")
    case False
    then have kd: "mat s k = MSigDown b" using mk by simp
    have u: "mup_next s = s\<lparr>mon_next := (mon_next s)\<lparr>as_value := 1\<rparr>\<rparr>" using False nv by (simp add: mup_next_def a_up_def mwake_def)
    have "mutex_inv ?t AtNext" by (rule mu) (use f(5,6) in \<open>auto simp: u\<close>)
    moreover have "next_inv ?t AtNext (Some (k, b))" using nv ki kd by (simp add: next_inv_def u)
    moreover have "sig_inv ?t (Some (k, b))" using sg f(4) ki sk(1,2) by (auto simp: sig_inv_def u)
    moreover have "tok_inv ?t AtNext" using ins f(2) by (simp add: tok_inv_def u)
    moreover have "handoff_inv ?t AtNext (Some (k, b))" using kd ki by (simp add: handoff_inv_def handoff_at_def u)
    moreover have "loc_all (mup_next s) AtNext"
      using l tok unfolding u loc_all_def loc_inv_def cv_inv_def phase_inv_def pend_inv_def signals_def mapart_def mwaits_def by simp
    then have "loc_all ?t AtNext" by (rule loc_leaving [OF _ i]) (simp_all add: u lv)
    ultimately have "minv ?t AtNext (Some (k, b))" by (simp add: minv_halves glob_inv_def)
    then show ?thesis by blast
  next
    case True
    let ?s = "s\<lparr>mon_next := (mon_next s)\<lparr>as_queue := []\<rparr>\<rparr>"
    have u: "mup_next s = mgo k (MSigDec b) ?s" using True nv by (simp add: mup_next_def a_up_def mwake_def)
    have m: "mat ?t j = (if j = i then p else if j = k then MSigDec b else mat s j)" for j by (simp add: u)
    have "mutex_inv ?t (With k)" by (rule mu) (use f(5,6) True in \<open>auto simp: u\<close>)
    moreover have "next_inv ?t (With k) (Some (k, b))" using nv ki by (simp add: next_inv_def u)
    moreover have "sig_inv ?t (Some (k, b))"
      using sg f(4) ki sk(1,2) unfolding sig_inv_def m by (auto simp: signalling_def)
    moreover have "tok_inv ?t (With k)" using ins f(2) sk(1) ki unfolding tok_inv_def m by (auto simp: minside_def)
    moreover have "handoff_inv ?t (With k) (Some (k, b))" unfolding handoff_inv_def handoff_at_def m using ki by simp
    moreover have "loc_all (mup_next s) (With k)"
    proof (rule loc_move [OF l sk(1)])
      have "mat s k \<in> phase_pcs (state_condvar s k)" using l sk(1) by (simp add: loc_all_def loc_inv_def phase_inv_def)
      then show "MSigDec b \<in> phase_pcs (state_condvar s k)"
        unfolding True by (cases "state_condvar s k") (auto simp: signalling_def)
    qed (use True tok in \<open>auto simp: u can_signal_def tests_left_def tests_right_def counts_def signalling_def\<close>)
    then have "loc_all ?t (With k)" by (rule loc_leaving [OF _ i]) (use ki lv in \<open>simp_all add: u\<close>)
    ultimately have "minv ?t (With k) (Some (k, b))" by (simp add: minv_halves glob_inv_def)
    then show ?thesis by blast
  qed
qed

lemma step_leave:
  assumes inv: "minv s tok sg" and i: "i < N" and lv: "leaving (mat s i) p"
  shows "\<exists>tok'. minv (mgo i p (mleave s)) tok' sg"
proof -
  have g: "glob_inv s tok sg" and l: "loc_all s tok" using inv by (simp_all add: minv_halves)
  have n: "mon_next_count s = (if sg = None then 0 else 1)" using minvD(2) [OF inv] by (simp add: next_inv_def)
  show ?thesis
  proof (cases sg)
    case None
    then show ?thesis using leave_mutex [OF _ l i lv] g n by (simp add: mleave_def)
  next
    case (Some x)
    then obtain k b where "sg = Some (k, b)" by (cases x) simp
    then show ?thesis using leave_next [OF _ l i lv] g n by (simp add: mleave_def)
  qed
qed

end
