(* ===== verification/Monitor_Sig.thy ===== *)
theory Monitor_Sig
  imports Monitor_Steps
begin

text \<open>The steps of \<open>cond_signal\<close> and \<open>cond_wait\<close>, and with them the invariant of every reachable table.\<close>

lemma minv_globs:
  assumes "minv s tok sg"
  shows "glob_inv s tok sg" "loc_all s tok"
  using assms by (simp_all add: minv_halves)

lemma loc_at:
  assumes "loc_all s tok" "i < N"
  shows "cv_inv s tok i" "phase_inv s i" "pend_inv s tok i"
  using assms by (simp_all add: loc_all_def loc_inv_def)

lemma mutex_cong:
  assumes "mutex_inv s tok" and "mon_mutex t = mon_mutex s" and "tok' = AtMutex \<longleftrightarrow> tok = AtMutex"
    and "\<And>j. mat t j \<in> {MTakeSleep, MPutSleep} \<longleftrightarrow> mat s j \<in> {MTakeSleep, MPutSleep}"
  shows "mutex_inv t tok'"
  unfolding mutex_inv_def assms(2-4) using mutex_queue [OF assms(1)] by simp

lemma step_quit:
  assumes inv: "minv s tok sg" and i: "i < N" and p: "mat s i = MThink"
  shows "minv (mgo i MQuit s) tok sg"
proof -
  note d = minvD(1-5) [OF inv]
  have ns: "sg \<noteq> Some (i, a)" for a using d(3) i p by (auto simp: sig_inv_def signalling_def)
  have "mutex_inv (mgo i MQuit s) tok" by (rule mutex_cong [OF d(1)]) (use p in auto)
  moreover have "next_inv (mgo i MQuit s) tok sg" using d(2) ns by (auto simp: next_inv_def split: option.splits)
  moreover have "sig_inv (mgo i MQuit s) sg" using d(3) ns by (auto simp: sig_inv_def signalling_def)
  moreover have "tok_inv (mgo i MQuit s) tok" using d(4) p by (auto simp: tok_inv_def minside_def)
  moreover have "handoff_inv (mgo i MQuit s) tok sg" by (rule handoff_other [OF d(5) _ _ ns]) (simp_all add: p)
  moreover have "loc_all (mgo i MQuit s) tok" by (rule loc_plain [OF minv_globs(2) [OF inv] i, where p = MQuit]) (simp_all add: p mplain_def)
  ultimately show ?thesis by (simp add: minv_halves glob_inv_def)
qed

lemma step_Sig:
  assumes inv: "minv s tok sg" and i: "i < N" and p: "mat s i = MSig a"
  shows "\<exists>sg'. minv (if 0 < mon_count s (target i a) then mgo i (MSigUp a) (s\<lparr>mon_next_count := mon_next_count s + 1\<rparr>) else mgo i (after a) s) tok sg'"
proof -
  have g: "glob_inv s tok sg" and l: "loc_all s tok" using minv_globs [OF inv] .
  note d = minvD(1-5) [OF inv]
  have tok: "tok = With i" by (rule minv_inside [OF inv i]) (simp add: p minside_def)
  have sn: "sg = None" by (rule no_signaller [OF g, of i]) (simp add: tok p signalling_def)
  have ph: "MSig a \<in> phase_pcs (state_condvar s i)" using loc_at(2) [OF l i] p by (simp add: phase_inv_def)
  show ?thesis
  proof (cases "a = Own")
    case True
    have c: "mon_count s (target i a) = 0" using loc_at(1) [OF l i] p True by (simp add: cv_inv_def)
    let ?t = "mgo i (after a) s"
    have "glob_inv ?t tok sg"
      unfolding glob_inv_def
      by (intro conjI inner_glob [OF inv i, of "after a"]) (simp_all add: p True inner_move_def minside_def signalling_def)
    moreover have "loc_all ?t tok"
    proof (rule loc_move [OF l i, where p = "after a"])
      show "after a \<in> phase_pcs (state_condvar s i)" using ph True by (cases "state_condvar s i") (auto simp: signalling_def)
    qed (use p True in \<open>auto simp: can_signal_def tests_left_def tests_right_def signalling_def counts_def\<close>)
    ultimately show ?thesis using c by (auto simp: minv_halves)
  next
    case False
    have sj: "signals s i (target i a)" using p False by (auto simp: signals_def)
    have "told s (target i a)" using loc_at(3) [OF l target_below [OF i]] sj i by (auto simp: pend_told)
    then have c: "mon_count s (target i a) = 1" using loc_at(1) [OF l target_below [OF i]] by (auto simp: cv_inv_def told_def)
    let ?t = "mgo i (MSigUp a) (s\<lparr>mon_next_count := mon_next_count s + 1\<rparr>)"
    have "mutex_inv ?t tok" by (rule mutex_cong [OF d(1)]) (use p in auto)
    moreover have "next_inv ?t tok (Some (i, a))" using d(2) sn by (simp add: next_inv_def)
    moreover have "sig_inv ?t (Some (i, a))" using d(3) sn i False by (auto simp: sig_inv_def signalling_def)
    moreover have "tok_inv ?t tok" using d(4) p by (auto simp: tok_inv_def minside_def)
    moreover have "handoff_inv ?t tok (Some (i, a))" using tok by (simp add: handoff_inv_def handoff_at_def)
    moreover have "loc_all ?t tok"
    proof (rule loc_move_gen [OF l i])
      show "MSigUp a \<in> phase_pcs (state_condvar s i)"
        using ph False by (cases a; cases "state_condvar s i") (auto simp: signalling_def)
      show "signals ?t i k = signals s i k" for k using p by (auto simp: signals_def)
      show "cv_inv ?t tok i" using loc_at(1) [OF l i] p by (simp add: cv_inv_def)
      have "\<not> told ?t i" "\<not> told s i" by (simp_all add: told_def p)
      moreover have "signals ?t j i = signals s j i" for j using p by (cases "j = i") (auto simp: signals_def)
      ultimately show "pend_inv ?t tok i" using loc_at(3) [OF l i] by (simp only: pend_told)
    qed (use p in \<open>auto simp: tests_left_def tests_right_def signalling_def\<close>)
    ultimately have "minv ?t tok (Some (i, a))" by (simp add: minv_halves glob_inv_def)
    then show ?thesis using c by auto
  qed
qed

lemma at_signaller:
  assumes "minv s tok sg" "i < N" "mat s i \<in> signalling a"
  shows "sg = Some (i, a)" "a \<noteq> Own"
  using minvD(3) [OF assms(1)] assms(2,3) by (auto simp: sig_inv_def)

lemma step_SigDec:
  assumes inv: "minv s tok sg" and i: "i < N" and p: "mat s i = MSigDec a"
  shows "minv (mgo i (after a) (s\<lparr>mon_next_count := mon_next_count s - 1\<rparr>)) tok None"
proof -
  have l: "loc_all s tok" by (rule minv_globs(2) [OF inv])
  note d = minvD(1-5) [OF inv]
  have sg: "sg = Some (i, a)" "a \<noteq> Own" using at_signaller [OF inv i, of a] by (simp_all add: p signalling_def)
  have tok: "tok = With i" by (rule minv_inside [OF inv i]) (simp add: p minside_def)
  have ph: "MSigDec a \<in> phase_pcs (state_condvar s i)" using loc_at(2) [OF l i] p by (simp add: phase_inv_def)
  let ?t = "mgo i (after a) (s\<lparr>mon_next_count := mon_next_count s - 1\<rparr>)"
  have af: "after a \<in> {MPutRight, MPutLeave}" using sg(2) by (cases a) simp_all
  have "mutex_inv ?t tok" by (rule mutex_cong [OF d(1)]) (use p af in auto)
  moreover have "next_inv ?t tok None" using d(2) sg(1) p by (simp add: next_inv_def)
  moreover have "sig_inv ?t None" using d(3) sg af by (auto simp: sig_inv_def signalling_def)
  moreover have "tok_inv ?t tok" using d(4) p af by (auto simp: tok_inv_def minside_def)
  moreover have "handoff_inv ?t tok None" using tok by (simp add: handoff_inv_def)
  moreover have "loc_all ?t tok"
  proof (rule loc_move [OF l i])
    show "after a \<in> phase_pcs (state_condvar s i)"
      using ph sg(2) by (cases a; cases "state_condvar s i") (auto simp: signalling_def)
    show "tests_right (mat s i) \<Longrightarrow> tests_right (after a)" using sg(2) by (cases a) (auto simp: p tests_right_def signalling_def)
  qed (use p af in \<open>auto simp: can_signal_def tests_left_def counts_def\<close>)
  ultimately show ?thesis by (simp add: minv_halves glob_inv_def)
qed

lemma only_signaller:
  assumes "minv s tok sg" "i < N" "minside (mat s i)" "k < N" "signals s k j"
  shows "k = i"
proof -
  have "minside (mat s k)" using signals_can [OF assms(5)] by (auto simp: can_signal_def minside_def)
  then show ?thesis using minv_inside [OF assms(1,2,3)] minv_inside [OF assms(1,4)] by simp
qed

lemma sig_cong:
  assumes "sig_inv s sg" and "\<And>j a. j < N \<Longrightarrow> mat t j \<in> signalling a \<longleftrightarrow> mat s j \<in> signalling a"
  shows "sig_inv t sg"
  using assms by (simp add: sig_inv_def)

lemma step_SigDown:
  assumes inv: "minv s tok sg" and i: "i < N" and p: "mat s i = MSigDown a"
  shows "\<exists>tok'. minv (mdown_next i (MSigDec a) (MNextSleep a) s) tok' sg"
proof -
  have g: "glob_inv s tok sg" and l: "loc_all s tok" using minv_globs [OF inv] .
  note d = minvD(1-5) [OF inv]
  have sg: "sg = Some (i, a)" "a \<noteq> Own" using at_signaller [OF inv i, of a] by (simp_all add: p signalling_def)
  have ph: "MSigDown a \<in> phase_pcs (state_condvar s i)" using loc_at(2) [OF l i] p by (simp add: phase_inv_def)
  let ?t = "mdown_next i (MSigDec a) (MNextSleep a) s"
  have nx: "as_value (mon_next s) = (if tok = AtNext then 1 else 0)" "as_queue (mon_next s) = []" "mon_next_count s = 1"
    using d(2) sg(1) p by (simp_all add: next_inv_def)
  have lc: "loc_all ?t tok'" if "mat ?t = (mat s)(i := q)" "q = MSigDec a \<or> q = MNextSleep a" "\<And>k. tok' = AtCv k \<longleftrightarrow> tok = AtCv k" for q tok'
  proof (rule loc_move [OF l i that(1) _ _ _ that(3)])
    show "q \<in> phase_pcs (state_condvar s i)"
      using ph sg(2) that(2) by (cases a; cases "state_condvar s i") (auto simp: signalling_def)
  qed (use p that(2) in \<open>auto simp: can_signal_def tests_left_def tests_right_def signalling_def counts_def mdown_next_def a_down_def\<close>)
  have out: "\<not> minside (mat s i)" by (simp add: p minside_def)
  show ?thesis
  proof (cases "tok = AtNext")
    case True
    have u: "?t = mgo i (MSigDec a) (s\<lparr>mon_next := (mon_next s)\<lparr>as_value := 0\<rparr>\<rparr>)" using nx True by (simp add: mdown_next_def a_down_def)
    have "mutex_inv ?t (With i)" by (rule mutex_cong [OF d(1)]) (use p True in \<open>auto simp: u\<close>)
    moreover have "next_inv ?t (With i) sg" using nx sg(1) by (simp add: next_inv_def u)
    moreover have "sig_inv ?t sg" by (rule sig_cong [OF d(3)]) (use p in \<open>auto simp: u signalling_def\<close>)
    moreover have "tok_inv ?t (With i)" using d(4) True i by (auto simp: tok_inv_def u minside_def)
    moreover have "handoff_inv ?t (With i) sg" by (simp add: sg(1) handoff_inv_def handoff_at_def u)
    moreover have "loc_all ?t (With i)" by (rule lc [of "MSigDec a"]) (simp_all add: u True)
    ultimately have "minv ?t (With i) sg" by (simp add: minv_halves glob_inv_def)
    then show ?thesis by blast
  next
    case False
    have u: "?t = mgo i (MNextSleep a) (s\<lparr>mon_next := (mon_next s)\<lparr>as_queue := [i]\<rparr>\<rparr>)" using nx False by (simp add: mdown_next_def a_down_def)
    have "mutex_inv ?t tok" by (rule mutex_cong [OF d(1)]) (use p in \<open>auto simp: u\<close>)
    moreover have "next_inv ?t tok sg" using nx sg(1) False by (simp add: next_inv_def u)
    moreover have "sig_inv ?t sg" by (rule sig_cong [OF d(3)]) (use p in \<open>auto simp: u signalling_def\<close>)
    moreover have "tok_inv ?t tok" using d(4) out by (auto simp: tok_inv_def u minside_def)
    moreover have "handoff_inv ?t tok sg"
    proof -
      have "handoff_at s tok i a" using d(5) by (simp add: sg(1) handoff_inv_def)
      then have "handoff_at ?t tok i a" using p False target_other [OF i sg(2)] by (auto simp: handoff_at_def u)
      then show ?thesis by (simp add: sg(1) handoff_inv_def)
    qed
    moreover have "loc_all ?t tok" by (rule lc [of "MNextSleep a"]) (simp_all add: u)
    ultimately have "minv ?t tok sg" by (simp add: minv_halves glob_inv_def)
    then show ?thesis by blast
  qed
qed

lemma step_WaitDown:
  assumes inv: "minv s tok sg" and i: "i < N" and p: "mat s i = MWaitDown"
  shows "\<exists>tok'. minv (mdown_cv i MWaitDec MCvSleep s) tok' sg"
proof -
  have g: "glob_inv s tok sg" and l: "loc_all s tok" using minv_globs [OF inv] .
  note d = minvD(1-5) [OF inv]
  have ph: "MWaitDown \<in> phase_pcs (state_condvar s i)" using loc_at(2) [OF l i] p by (simp add: phase_inv_def)
  have out: "\<not> minside (mat s i)" and osg: "mat s i \<notin> signalling a" for a by (simp_all add: p minside_def signalling_def)
  have ns: "sg \<noteq> Some (i, a)" for a
  proof
    assume "sg = Some (i, a)"
    then have "mat s i \<in> signalling a" using d(3) i unfolding sig_inv_def by blast
    then show False using osg by simp
  qed
  have cv: "as_value (mon_cv s i) = (if tok = AtCv i then 1 else 0)" "as_queue (mon_cv s i) = []" "mon_count s i = 1"
    using loc_at(1) [OF l i] p by (simp_all add: cv_inv_def)
  let ?t = "mdown_cv i MWaitDec MCvSleep s"
  show ?thesis
  proof (cases "tok = AtCv i")
    case True
    have u: "?t = mgo i MWaitDec (s\<lparr>mon_cv := (mon_cv s)(i := (mon_cv s i)\<lparr>as_value := 0\<rparr>)\<rparr>)" using cv True by (simp add: mdown_cv_def a_down_def)
    obtain k b where kb: "sg = Some (k, b)" "handoff_at s tok k b"
      using d(5) True by (cases sg) (auto simp: handoff_inv_def)
    have hk: "i = target k b" "state_condvar s i = EATING" "mat s k \<in> {MSigDown b, MNextSleep b}"
      using kb(2) True unfolding handoff_at_def by blast+
    have ki: "k \<noteq> i" using ns kb(1) by blast
    have "mutex_inv ?t (With i)" by (rule mutex_cong [OF d(1)]) (use p True in \<open>auto simp: u\<close>)
    moreover have "next_inv ?t (With i) sg" using d(2) True ki by (auto simp: next_inv_def u kb(1))
    moreover have "sig_inv ?t sg" by (rule sig_cong [OF d(3)]) (use p in \<open>auto simp: u signalling_def\<close>)
    moreover have "tok_inv ?t (With i)" using d(4) True i by (auto simp: tok_inv_def u minside_def)
    moreover have "handoff_inv ?t (With i) sg" unfolding u using hk(2,3) ki by (simp add: kb(1) handoff_inv_def handoff_at_def flip: hk(1))
    moreover have "loc_all ?t (With i)"
    proof (rule loc_move_gen [OF l i])
      show "MWaitDec \<in> phase_pcs (state_condvar s i)" using hk(2) by simp
      show "cv_inv ?t (With i) i" using cv by (simp add: cv_inv_def u)
      have "\<not> signals ?t j i" if "j < N" for j
      proof
        assume "signals ?t j i"
        then have "can_signal (mat ?t j)" by (rule signals_can)
        then have "minside (mat s j)" by (cases "j = i") (auto simp: u can_signal_def minside_def)
        then show False using minv_inside [OF inv that] True by simp
      qed
      then show "pend_inv ?t (With i) i" by (auto simp: pend_told told_def u)
    qed (use p True in \<open>auto simp: u signals_def tests_left_def tests_right_def signalling_def\<close>)
    ultimately have "minv ?t (With i) sg" by (simp add: minv_halves glob_inv_def)
    then show ?thesis by blast
  next
    case False
    have u: "?t = mgo i MCvSleep (s\<lparr>mon_cv := (mon_cv s)(i := (mon_cv s i)\<lparr>as_queue := [i]\<rparr>)\<rparr>)" using cv False by (simp add: mdown_cv_def a_down_def)
    have "mutex_inv ?t tok" by (rule mutex_cong [OF d(1)]) (use p in \<open>auto simp: u\<close>)
    moreover have "next_inv ?t tok sg" using d(2) ns by (auto simp: next_inv_def u split: option.splits)
    moreover have "sig_inv ?t sg" by (rule sig_cong [OF d(3)]) (use p in \<open>auto simp: u signalling_def\<close>)
    moreover have "tok_inv ?t tok" using d(4) out by (auto simp: tok_inv_def u minside_def)
    moreover have "handoff_inv ?t tok sg"
    proof (cases sg)
      case None
      then show ?thesis using d(5) by (simp add: handoff_inv_def)
    next
      case (Some x)
      then obtain k b where kb: "sg = Some (k, b)" by (cases x) simp
      have ki: "k \<noteq> i" using ns kb by blast
      have "handoff_at s tok k b" using d(5) by (simp add: kb handoff_inv_def)
      then have "handoff_at ?t tok k b" using p False ki by (auto simp: handoff_at_def u)
      then show ?thesis by (simp add: kb handoff_inv_def)
    qed
    moreover have "loc_all ?t tok"
    proof (rule loc_move_gen [OF l i])
      show "MCvSleep \<in> phase_pcs (state_condvar s i)" using ph by (cases "state_condvar s i") (auto simp: signalling_def)
      show "cv_inv ?t tok i" using cv False by (simp add: cv_inv_def u)
      have "told ?t i = told s i" by (simp add: told_def u p)
      moreover have "signals ?t j i = signals s j i" for j using p by (cases "j = i") (auto simp: signals_def u)
      ultimately show "pend_inv ?t tok i" using loc_at(3) [OF l i] by (simp only: pend_told)
    qed (use p in \<open>auto simp: u signals_def tests_left_def tests_right_def signalling_def\<close>)
    ultimately have "minv ?t tok sg" by (simp add: minv_halves glob_inv_def)
    then show ?thesis by blast
  qed
qed

lemma step_SigUp:
  assumes inv: "minv s tok sg" and i: "i < N" and p: "mat s i = MSigUp a"
  shows "\<exists>tok'. minv (mgo i (MSigDown a) (mup_cv (target i a) s)) tok' sg"
proof -
  have g: "glob_inv s tok sg" and l: "loc_all s tok" using minv_globs [OF inv] .
  note d = minvD(1-5) [OF inv]
  have sg: "sg = Some (i, a)" "a \<noteq> Own" using at_signaller [OF inv i, of a] by (simp_all add: p signalling_def)
  let ?j = "target i a" and ?t = "mgo i (MSigDown a) (mup_cv (target i a) s)"
  have ins: "minside (mat s i)" by (simp add: p minside_def)
  have tok: "tok = With i" by (rule minv_inside [OF inv i ins])
  have j: "?j < N" "?j \<noteq> i" by (rule target_below [OF i], rule target_other [OF i sg(2)])
  have only: "k = i" if "k < N" "signals s k x" for k x by (rule only_signaller [OF inv i ins that])
  have "signals s i ?j" using p sg(2) by (auto simp: signals_def)
  then have tj: "told s ?j" using loc_at(3) [OF l j(1)] i by (auto simp: pend_told)
  have cv: "as_value (mon_cv s ?j) = 0" "as_queue (mon_cv s ?j) = (if mat s ?j = MCvSleep then [?j] else [])"
    using loc_at(1) [OF l j(1)] tok by (simp_all add: cv_inv_def)
  have ph: "MSigUp a \<in> phase_pcs (state_condvar s i)" using loc_at(2) [OF l i] p by (simp add: phase_inv_def)
  have phi: "MSigDown a \<in> phase_pcs (state_condvar s i)"
    using ph sg(2) by (cases a; cases "state_condvar s i") (auto simp: signalling_def)
  have nx: "as_value (mon_next s) = 0" "as_queue (mon_next s) = []" "mon_next_count s = 1"
    using d(2) sg(1) p tok by (simp_all add: next_inv_def)
  have silent: "\<not> signals u k x" if "\<And>k. k \<noteq> i \<Longrightarrow> k \<noteq> ?j \<Longrightarrow> mat u k = mat s k" "\<not> can_signal (mat u i)" "\<not> can_signal (mat u ?j)" "k < N" for u k x
  proof
    assume sgk: "signals u k x"
    have "k \<noteq> i" "k \<noteq> ?j" using signals_can [OF sgk] that(2,3) by auto
    then have "signals s k x" using sgk signals_same [of u k s x] that(1) by simp
    then show False using only [OF that(4)] \<open>k \<noteq> i\<close> by blast
  qed
  have rest: "loc_all t tok'"
    if m: "mat t = (mat s)(?j := q, i := MSigDown a)" and st: "state_condvar t = state_condvar s" "mon_count t = mon_count s"
      "\<And>k. k \<noteq> ?j \<Longrightarrow> mon_cv t k = mon_cv s k" and q: "q = MWaitDown \<and> mat s ?j = MWaitDown \<and> tok' = AtCv ?j \<or> q = MWaitDec \<and> tok' = With ?j"
      and c: "cv_inv t tok' ?j" for q tok' t
    unfolding loc_all_def loc_inv_def
  proof (intro allI impI conjI)
    fix k assume k: "k < N"
    have s': "cv_inv s tok k" "phase_inv s k" "pend_inv s tok k" "mapart s k" "mwaits s k" using l k by (auto simp: loc_all_def loc_inv_def)
    have mk: "mat t k = (if k = i then MSigDown a else if k = ?j then q else mat s k)" unfolding m by simp
    show "cv_inv t tok' k"
    proof (cases "k = ?j")
      case False
      have "tok' \<noteq> AtCv k" "tok \<noteq> AtCv k" using q tok False by auto
      then show ?thesis using s'(1) False p unfolding cv_inv_def mk st(1,2) st(3) [OF False] by (cases "k = i") simp_all
    qed (use c in simp)
    have e: "state_condvar s ?j = EATING" using tj by (simp add: told_def)
    show "phase_inv t k" using s'(2) phi e q unfolding phase_inv_def mk st by auto
    have "told t k \<longleftrightarrow> told s k \<and> (k = ?j \<longrightarrow> q = MWaitDown)"
      using q p tj j(2) unfolding told_def mk st by auto
    moreover have "\<not> signals t l k" if "l < N" for l
      by (rule silent [OF _ _ _ that]) (use q j(2) in \<open>auto simp: m can_signal_def\<close>)
    moreover have "k = ?j" if tk: "told s k"
    proof -
      obtain l where "l < N" "signals s l k" using s'(3) tk tok by (auto simp: pend_told)
      then show ?thesis using only [of l k] p by (auto simp: signals_def)
    qed
    ultimately show "pend_inv t tok' k" using q unfolding pend_told by blast
    show "mapart t k" using s'(4) by (simp add: mapart_def st)
    have w: "mwaits (mgo ?j q s) k"
      by (rule mwaits_upd [OF s'(5) k, where i = ?j and p = q])
        (use tj in \<open>auto simp: told_def tests_left_def tests_right_def signalling_def\<close>)
    show "mwaits t k"
      by (rule mwaits_upd [OF w k, where i = i and p = "MSigDown a"])
        (use p j(2) st(1) in \<open>simp_all add: m tests_left_def tests_right_def signalling_def\<close>)
  qed
  show ?thesis
  proof (cases "mat s ?j = MCvSleep")
    case True
    have u: "mup_cv ?j s = mgo ?j MWaitDec (s\<lparr>mon_cv := (mon_cv s)(?j := (mon_cv s ?j)\<lparr>as_queue := []\<rparr>)\<rparr>)"
      using cv True by (simp add: mup_cv_def a_up_def mwake_def)
    have "mutex_inv ?t (With ?j)" by (rule mutex_cong [OF d(1)]) (use p True tok in \<open>auto simp: u\<close>)
    moreover have "next_inv ?t (With ?j) sg" using nx by (simp add: next_inv_def u sg(1))
    moreover have "sig_inv ?t sg" by (rule sig_cong [OF d(3)]) (use p True j(2) in \<open>auto simp: u signalling_def\<close>)
    moreover have "tok_inv ?t (With ?j)" using d(4) tok j by (auto simp: tok_inv_def u minside_def)
    moreover have "handoff_inv ?t (With ?j) sg" using j(2) by (simp add: sg(1) handoff_inv_def handoff_at_def u)
    moreover have "loc_all ?t (With ?j)"
      by (rule rest [where q = MWaitDec]) (use cv True j loc_at(1) [OF l j(1)] in \<open>simp_all add: u cv_inv_def\<close>)
    ultimately have "minv ?t (With ?j) sg" by (simp add: minv_halves glob_inv_def)
    then show ?thesis by blast
  next
    case False
    then have wd: "mat s ?j = MWaitDown" using tj by (simp add: told_def)
    have u: "mup_cv ?j s = s\<lparr>mon_cv := (mon_cv s)(?j := (mon_cv s ?j)\<lparr>as_value := 1\<rparr>)\<rparr>"
      using cv False by (simp add: mup_cv_def a_up_def mwake_def)
    have id: "(mat s)(?j := MWaitDown) = mat s" using wd by (rule fun_upd_idem)
    have "mutex_inv ?t (AtCv ?j)" by (rule mutex_cong [OF d(1)]) (use p tok in \<open>auto simp: u\<close>)
    moreover have "next_inv ?t (AtCv ?j) sg" using nx by (simp add: next_inv_def u sg(1))
    moreover have "sig_inv ?t sg" by (rule sig_cong [OF d(3)]) (use p in \<open>auto simp: u signalling_def\<close>)
    moreover have "tok_inv ?t (AtCv ?j)" using d(4) tok j by (auto simp: tok_inv_def u minside_def)
    moreover have "handoff_inv ?t (AtCv ?j) sg" using j(2) wd tj by (simp add: sg(1) handoff_inv_def handoff_at_def u told_def)
    moreover have "loc_all ?t (AtCv ?j)"
      by (rule rest [where q = MWaitDown]) (use cv wd j loc_at(1) [OF l j(1)] in \<open>simp_all add: u id cv_inv_def\<close>)
    ultimately have "minv ?t (AtCv ?j) sg" by (simp add: minv_halves glob_inv_def)
    then show ?thesis by blast
  qed
qed

end
