(* ===== verification/Monitor_Run.thy ===== *)
theory Monitor_Run
  imports Monitor_Sig
begin

text \<open>What holds of every run of the philosophers with a monitor.\<close>

section \<open>Every reachable table\<close>

lemma step_test:
  assumes inv: "minv s tok sg" and i: "i < N" and p: "mat s i = before a"
  shows "minv (phi_test_condvar i a s) tok sg"
  using step_test_yes [OF inv i p] step_test_no [OF inv i p] by (auto simp: phi_test_condvar_def Let_def)

lemma mstep_minv:
  assumes inv: "minv s tok sg" and i: "i < N" and st: "mstep i s = Some t"
  shows "\<exists>tok' sg'. minv t tok' sg'"
proof (cases "mat s i")
  case MThink
  show ?thesis
  proof (cases "miter s i < TIMES")
    case True
    let ?s = "s\<lparr>miter := (miter s)(i := miter s i + 1)\<rparr>"
    have "minv ?s tok sg"
      using inv by (simp add: minv_def mutex_inv_def next_inv_def sig_inv_def tok_inv_def handoff_inv_def handoff_at_def
          cv_inv_def phase_inv_def pend_inv_def signals_def mapart_def mwaits_def cong: option.case_cong)
    moreover have "t = mdown_mutex i MTakeHungry MTakeSleep ?s" using st MThink True by (simp add: mstep_def)
    ultimately show ?thesis using step_down_mutex [of ?s tok sg i MTakeHungry MTakeSleep] i by (auto simp: MThink mplain_def)
  next
    case False
    then show ?thesis using step_quit [OF inv i MThink] st MThink by (auto simp: mstep_def)
  qed
next
  case MTakeHungry
  then show ?thesis using step_TakeHungry [OF inv i] st by (auto simp: mstep_def)
next
  case MTakeTest
  then show ?thesis using step_test [OF inv i, of Own] st by (auto simp: mstep_def)
next
  case MTakeCheck
  then show ?thesis using step_TakeCheck [OF inv i] st unfolding mstep_def by auto
next
  case (MSig a)
  then show ?thesis using step_Sig [OF inv i MSig] st unfolding mstep_def by auto
next
  case (MSigUp a)
  then show ?thesis using step_SigUp [OF inv i MSigUp] st unfolding mstep_def by auto
next
  case (MSigDown a)
  then show ?thesis using step_SigDown [OF inv i MSigDown] st unfolding mstep_def by auto
next
  case (MSigDec a)
  then show ?thesis using step_SigDec [OF inv i MSigDec] st unfolding mstep_def by auto
next
  case MWaitInc
  then show ?thesis using step_WaitInc [OF inv i] st by (auto simp: mstep_def)
next
  case MWaitUp
  then show ?thesis using step_leave [OF inv i, of MWaitDown] st by (auto simp: mstep_def leaving_def)
next
  case MWaitDown
  then show ?thesis using step_WaitDown [OF inv i] st by (auto simp: mstep_def)
next
  case MWaitDec
  then show ?thesis using step_WaitDec [OF inv i] st by (auto simp: mstep_def)
next
  case MTakeLeave
  then show ?thesis using step_leave [OF inv i, of MEat] st by (auto simp: mstep_def leaving_def)
next
  case MEat
  then show ?thesis using step_down_mutex [OF inv i, of MPutThink MPutSleep] st by (auto simp: mstep_def mplain_def)
next
  case MPutThink
  then show ?thesis using step_PutThink [OF inv i] st by (auto simp: mstep_def)
next
  case MPutLeft
  then show ?thesis using step_test [OF inv i, of Lft] st by (auto simp: mstep_def)
next
  case MPutRight
  then show ?thesis using step_test [OF inv i, of Rgt] st by (auto simp: mstep_def)
next
  case MPutLeave
  then show ?thesis using step_leave [OF inv i, of MThink] st by (auto simp: mstep_def leaving_def)
qed (use st in \<open>simp_all add: mstep_def\<close>)

lemma mtable_init_minv: "minv mtable_init AtMutex None"
  by (simp add: minv_def mtable_init_def a_init_def mutex_inv_def next_inv_def sig_inv_def tok_inv_def handoff_inv_def cv_inv_def
      phase_inv_def pend_inv_def signals_def mapart_def mwaits_def signalling_def minside_def)

lemma mdining_minv: "mdining s \<Longrightarrow> \<exists>tok sg. minv s tok sg"
  by (induction rule: mdining.induct) (use mtable_init_minv mstep_minv in blast)+

section \<open>Progress\<close>

lemma minv_progress:
  assumes inv: "minv s tok sg" and st: "\<forall>i<N. mstep i s = None" and i: "i < N"
  shows "mat s i = MQuit"
proof -
  note d = minvD [OF inv]
  have pcs: "mat s j \<in> {MTakeSleep, MPutSleep, MCvSleep, MQuit} \<or> (\<exists>a. mat s j = MNextSleep a)" if "j < N" for j
    using st that by (cases "mat s j") (auto simp: mstep_def)
  have out: "\<not> minside (mat s j)" "\<not> can_signal (mat s j)" "mat s j \<noteq> MSigDown a" "mat s j \<noteq> MWaitDown" if "j < N" for j a
    using pcs [OF that] by (auto simp: minside_def can_signal_def)
  have nw: "tok \<noteq> With j" for j using d(4) out(1) by (auto simp: tok_inv_def)
  have g: "glob_inv s tok sg" using minv_globs(1) [OF inv] .
  have tok: "tok = AtMutex"
  proof (cases tok)
    case AtNext
    then obtain k b where "sg = Some (k, b)" "mat s k = MSigDown b" using d(5) by (cases sg) (auto simp: handoff_inv_def handoff_at_def)
    then show ?thesis using signaller(1) [of s tok k b] g out(3) by auto
  next
    case (AtCv j)
    then have "mat s j = MWaitDown" using d(5) by (cases sg) (auto simp: handoff_inv_def handoff_at_def)
    moreover have "j < N" using d(4) AtCv by (simp add: tok_inv_def)
    ultimately show ?thesis using out(4) by simp
  qed (use nw in auto)
  have "sg = None" by (rule no_signaller [OF g]) (simp add: tok)
  then have nn: "mat s j \<noteq> MNextSleep a" if "j < N" for j a using d(3) that by (auto simp: sig_inv_def signalling_def)
  have nm: "mat s j \<notin> {MTakeSleep, MPutSleep}" if "j < N" for j
    using mutex_queue(1) [OF d(1), of j] mutex_queue(4) [OF d(1) tok] that by simp
  have cq: "mat s j \<in> {MCvSleep, MQuit}" if "j < N" for j using pcs [OF that] nn [OF that] nm [OF that] by auto
  have ne: "state_condvar s j \<noteq> EATING" if l: "j < N" for j
  proof
    assume e: "state_condvar s j = EATING"
    then have "mat s j = MCvSleep" using d(7) [OF l] cq [OF l] by (auto simp: phase_inv_def)
    then have "told s j" using e by (simp add: told_def)
    then obtain k where "k < N" "signals s k j" using d(8) [OF l] tok by (auto simp: pend_told)
    then show False using signals_can out(2) by blast
  qed
  show ?thesis
  proof (rule ccontr)
    assume "mat s i \<noteq> MQuit"
    then have c: "mat s i = MCvSleep" using cq [OF i] by simp
    then have "state_condvar s i = HUNGRY" using d(7) [OF i] ne [OF i] by (cases "state_condvar s i") (auto simp: phase_inv_def signalling_def)
    then show False
      using d(10) [OF i] c ne neighbours(1,2) [OF i] cq [OF neighbours(1) [OF i]] cq [OF neighbours(2) [OF i]]
      by (auto simp: mwaits_def signalling_def)
  qed
qed

text \<open>The monitor version.  In every state that five philosophers reach with \<open>phi_take_forks_condvar\<close> and
  \<open>phi_put_forks_condvar\<close>, in any interleaving of the statements of these, of \<open>cond_signal\<close> and of \<open>cond_wait\<close>, no two
  neighbours eat at the same time, at most one philosopher is active in the monitor, and nobody is forgotten: unless all have
  quit, somebody can take a step.\<close>

theorem monitor_excludes:
  assumes "mdining s" and "i < N" and "j < N"
  shows "\<not> (mat s i = MEat \<and> mat s (RIGHT i) = MEat) \<and> (minside (mat s i) \<and> minside (mat s j) \<longrightarrow> i = j)
    \<and> ((\<forall>k<N. mat s k = MQuit) \<or> (\<exists>k<N. mstep k s \<noteq> None))"
proof -
  obtain tok sg where inv: "minv s tok sg" using mdining_minv [OF assms(1)] by blast
  have e: "state_condvar s k = EATING" if "k < N" "mat s k = MEat" for k
    using minvD(7) [OF inv that(1)] that(2) by (cases "state_condvar s k") (auto simp: phase_inv_def signalling_def)
  have "\<not> (mat s i = MEat \<and> mat s (RIGHT i) = MEat)"
    using e [OF assms(2)] e [OF neighbours(2) [OF assms(2)]] minvD(9) [OF inv assms(2)] by (auto simp: mapart_def)
  moreover have "minside (mat s i) \<and> minside (mat s j) \<longrightarrow> i = j"
    using minv_inside [OF inv assms(2)] minv_inside [OF inv assms(3)] by auto
  moreover have "(\<forall>k<N. mat s k = MQuit) \<or> (\<exists>k<N. mstep k s \<noteq> None)" using minv_progress [OF inv] by blast
  ultimately show ?thesis by blast
qed

primrec run_msteps :: "nat list \<Rightarrow> mtable \<Rightarrow> mtable option" where
  "run_msteps [] s = Some s"
| "run_msteps (i # is) s = Option.bind (mstep i s) (run_msteps is)"

lemma mdining_run: "run_msteps is s = Some t \<Longrightarrow> mdining s \<Longrightarrow> set is \<subseteq> {..<N} \<Longrightarrow> mdining t"
  by (induction "is" arbitrary: s) (auto simp: Option.bind_eq_Some_conv intro: mdining.mstep)

text \<open>Philosopher 0 eats, philosopher 1 is hungry and waits on its condition variable.\<close>

theorem monitor_excludes_witness:
  "\<exists>s. mdining s \<and> mat s 0 = MEat \<and> mat s 1 = MCvSleep \<and> (\<exists>k<N. mstep k s \<noteq> None)"
proof -
  have "\<exists>s. run_msteps [0, 0, 0, 0, 0, 0, 1, 1, 1, 1, 1, 1, 1] mtable_init = Some s \<and> mat s 0 = MEat \<and> mat s 1 = MCvSleep"
    by (simp add: mstep_def mtable_init_def TIMES_def mdown_mutex_def a_down_def a_init_def mgo_def set_state_def phi_test_condvar_def LEFT_def
        RIGHT_def N_def mleave_def mup_mutex_def a_up_def mwake_def mdown_cv_def)
  then obtain s where s: "run_msteps [0, 0, 0, 0, 0, 0, 1, 1, 1, 1, 1, 1, 1] mtable_init = Some s" "mat s 0 = MEat" "mat s 1 = MCvSleep" by blast
  have d: "mdining s" by (rule mdining_run [OF s(1) mdining.mstart]) (simp add: N_def)
  have "(0 :: nat) < N" by (simp add: N_def)
  from monitor_excludes [OF d this this] s(2) have "\<exists>k<N. mstep k s \<noteq> None" by (auto simp: N_def)
  with d s show ?thesis by blast
qed

end
