(* ===== verification/Best_Fit.thy ===== *)
theory Best_Fit
  imports First_Fit
begin

text \<open>
  The best-fit page manager of \<open>lab2/kern/mm/best_fit_pmm.c\<close>.  Only the search differs
  from the first-fit manager: the whole list is scanned for the smallest block that is large
  enough.  The manager interprets the same interface \<open>page_manager\<close>.
\<close>

section \<open>best\_fit\_pmm.c\<close>

definition best_fit_init :: "pmm \<Rightarrow> pmm" where
  "best_fit_init s = (upd_links (list_init FreeList) s)\<lparr>nr_free := 0\<rparr>"

definition best_fit_init_memmap :: "nat \<Rightarrow> nat \<Rightarrow> pmm \<Rightarrow> pmm option" where
  "best_fit_init_memmap base n s = do {
     kassert (0 < n);
     s1 \<leftarrow> memmap_pages base n s;
     let s2 = SetPageProperty base (set_property base n s1);
     link_block base (s2\<lparr>nr_free := u32 (nr_free s2 + n)\<rparr>)
   }"

partial_function (option) best_fit_scan ::
  "nat \<Rightarrow> fnode \<Rightarrow> nat option \<Rightarrow> nat \<Rightarrow> pmm \<Rightarrow> nat option option" where
  "best_fit_scan n le page min_size s =
     (let le = list_next le (links s)
      in if le = FreeList then Some page
         else let p = le2page le
              in if n \<le> property s p \<and> property s p < min_size
                 then best_fit_scan n le (Some p) (property s p) s
                 else best_fit_scan n le page min_size s)"

definition best_fit_alloc_pages :: "nat \<Rightarrow> pmm \<Rightarrow> (nat option \<times> pmm) option" where
  "best_fit_alloc_pages n s = do {
     kassert (0 < n);
     if nr_free s < n then Some (None, s)
     else do {
       page \<leftarrow> best_fit_scan n FreeList None (u32 (nr_free s + 1)) s;
       Some (case page of None \<Rightarrow> (None, s) | Some p \<Rightarrow> (Some p, cut_block n p s))
     }
   }"

definition best_fit_free_pages :: "nat \<Rightarrow> nat \<Rightarrow> pmm \<Rightarrow> pmm option" where
  "best_fit_free_pages base n s = do {
     kassert (0 < n);
     s1 \<leftarrow> reset_pages base n s;
     let s2 = SetPageProperty base (set_property base n s1);
     s3 \<leftarrow> link_block base (s2\<lparr>nr_free := u32 (nr_free s2 + n)\<rparr>);
     let (base', s4) = coalesce_prev base s3;
     Some (coalesce_next base' s4)
   }"

definition best_fit_nr_free_pages :: "pmm \<Rightarrow> nat" where
  "best_fit_nr_free_pages s = nr_free s"

section \<open>The search as a function of the block list\<close>

fun best_of :: "(nat \<Rightarrow> nat) \<Rightarrow> nat \<Rightarrow> nat option \<Rightarrow> nat \<Rightarrow> nat list \<Rightarrow> nat option" where
  "best_of f n page m [] = page"
| "best_of f n page m (b # bs) =
     (if n \<le> f b \<and> f b < m then best_of f n (Some b) (f b) bs else best_of f n page m bs)"

lemma best_fit_scan_best_of:
  assumes "fseg (links s) le (map PageLink bs) FreeList"
  shows "best_fit_scan n le page m s = Some (best_of (property s) n page m bs)"
  using assms
proof (induction bs arbitrary: le page m)
  case Nil
  then show ?case by (subst best_fit_scan.simps) (simp add: list_next_def)
next
  case (Cons b bs)
  then show ?case by (subst best_fit_scan.simps) (simp add: list_next_def Let_def)
qed

lemma best_of_result:
  "best_of f n page m bs = page \<and> (\<forall>b\<in>set bs. n \<le> f b \<longrightarrow> m \<le> f b)
   \<or> (\<exists>p us vs. best_of f n page m bs = Some p \<and> bs = us @ p # vs \<and> n \<le> f p \<and> f p < m
        \<and> (\<forall>b\<in>set us. n \<le> f b \<longrightarrow> f p < f b) \<and> (\<forall>b\<in>set vs. n \<le> f b \<longrightarrow> f p \<le> f b))"
proof (induction bs arbitrary: page m)
  case Nil
  then show ?case by simp
next
  case (Cons b bs)
  show ?case
  proof (cases "n \<le> f b \<and> f b < m")
    case False
    from Cons.IH [of page m] show ?thesis
    proof (elim disjE exE conjE)
      fix p us vs
      assume "best_of f n page m bs = Some p" "bs = us @ p # vs" "n \<le> f p" "f p < m"
        "\<forall>b\<in>set us. n \<le> f b \<longrightarrow> f p < f b" "\<forall>b\<in>set vs. n \<le> f b \<longrightarrow> f p \<le> f b"
      then show ?thesis using False
        by (intro disjI2 exI [of _ p] exI [of _ "b # us"] exI [of _ vs]) auto
    qed (use False in auto)
  next
    case True
    from Cons.IH [of "Some b" "f b"] show ?thesis
    proof (elim disjE exE conjE)
      assume "best_of f n (Some b) (f b) bs = Some b" "\<forall>c\<in>set bs. n \<le> f c \<longrightarrow> f b \<le> f c"
      then show ?thesis using True
        by (intro disjI2 exI [of _ b] exI [of _ "[]"] exI [of _ bs]) simp
    next
      fix p us vs
      assume "best_of f n (Some b) (f b) bs = Some p" "bs = us @ p # vs" "n \<le> f p" "f p < f b"
        "\<forall>c\<in>set us. n \<le> f c \<longrightarrow> f p < f c" "\<forall>c\<in>set vs. n \<le> f c \<longrightarrow> f p \<le> f c"
      then show ?thesis using True
        by (intro disjI2 exI [of _ p] exI [of _ "b # us"] exI [of _ vs]) auto
    qed
  qed
qed

lemma best_fit_alloc_eq:
  assumes inv: "fl_inv s bs" and "0 < n"
  shows "best_fit_alloc_pages n s = Some (if nr_free s < n then (None, s)
     else case best_of (property s) n None (u32 (nr_free s + 1)) bs of
       None \<Rightarrow> (None, s) | Some p \<Rightarrow> (Some p, cut_block n p s))"
proof -
  have "fseg (links s) FreeList (map PageLink bs) FreeList"
    using inv by (intro clist_fseg) (simp add: fl_inv_def)
  from best_fit_scan_best_of [OF this] show ?thesis
    using \<open>0 < n\<close> by (simp add: best_fit_alloc_pages_def)
qed

text \<open>The one bound the C code needs: \<open>nr_free + 1\<close> must not wrap.\<close>

lemma best_fit_alloc_cases:
  assumes inv: "fl_inv s bs" and n: "0 < n" and nf: "nr_free s + 1 < 4294967296"
  shows "(best_fit_alloc_pages n s = Some (None, s) \<and> (\<forall>b\<in>set bs. property s b < n))
    \<or> (\<exists>p us vs. best_fit_alloc_pages n s = Some (Some p, cut_block n p s) \<and> bs = us @ p # vs
        \<and> n \<le> property s p
        \<and> (\<forall>b\<in>set us. n \<le> property s b \<longrightarrow> property s p < property s b)
        \<and> (\<forall>b\<in>set vs. n \<le> property s b \<longrightarrow> property s p \<le> property s b))"
proof -
  have le: "\<And>b. b \<in> set bs \<Longrightarrow> property s b < nr_free s + 1"
    using fl_inv_property_le [OF inv] by fastforce
  from best_of_result [of "property s" n None "nr_free s + 1" bs] show ?thesis
  proof (elim disjE exE conjE)
    assume b: "best_of (property s) n None (nr_free s + 1) bs = None"
      "\<forall>b\<in>set bs. n \<le> property s b \<longrightarrow> nr_free s + 1 \<le> property s b"
    have "\<forall>b\<in>set bs. property s b < n"
    proof
      fix b
      assume "b \<in> set bs"
      then show "property s b < n" using b(2) le [of b] by (cases "n \<le> property s b") auto
    qed
    then show ?thesis using b(1) best_fit_alloc_eq [OF inv n] nf by simp
  next
    fix p us vs
    assume p: "best_of (property s) n None (nr_free s + 1) bs = Some p" "bs = us @ p # vs"
      "n \<le> property s p"
      "\<forall>b\<in>set us. n \<le> property s b \<longrightarrow> property s p < property s b"
      "\<forall>b\<in>set vs. n \<le> property s b \<longrightarrow> property s p \<le> property s b"
    have "\<not> nr_free s < n" using p(2,3) fl_inv_property_le [OF inv, of p] by simp
    then have "best_fit_alloc_pages n s = Some (Some p, cut_block n p s)"
      using p(1) best_fit_alloc_eq [OF inv n] nf by simp
    with p show ?thesis by blast
  qed
qed

lemma best_fit_free_eq: "best_fit_free_pages b n s = default_free_pages b n s"
  by (simp add: best_fit_free_pages_def default_free_pages_def)

lemma best_fit_memmap_eq: "best_fit_init_memmap b n s = default_init_memmap b n s"
  by (simp add: best_fit_init_memmap_def default_init_memmap_def)

definition bf_inv :: "pmm \<Rightarrow> bool" where
  "bf_inv s \<longleftrightarrow> (\<exists>bs. fl_inv s bs) \<and> nr_free s + 1 < 4294967296"

definition bf_freeable :: "nat \<Rightarrow> nat \<Rightarrow> pmm \<Rightarrow> bool" where
  "bf_freeable b n s \<longleftrightarrow> ff_freeable b n s \<and> nr_free s + n + 1 < 4294967296"

interpretation bf: page_manager best_fit_alloc_pages best_fit_free_pages best_fit_nr_free_pages
  bf_inv free_set bf_freeable
proof (unfold_locales, goal_cases)
  case (1 s)
  then show ?case by (auto simp: bf_inv_def intro: fl_inv_finite)
next
  case (2 s)
  then show ?case by (auto simp: bf_inv_def best_fit_nr_free_pages_def fl_inv_card)
next
  case (3 s n)
  then show ?case using best_fit_alloc_eq by (auto simp: bf_inv_def)
next
  case (4 s n s')
  then obtain bs where inv: "fl_inv s bs" by (auto simp: bf_inv_def)
  have "0 < n" using 4 by (simp add: best_fit_alloc_pages_def)
  then show ?case
    using 4 best_fit_alloc_eq [OF inv] by (auto split: option.splits if_splits)
next
  case (5 s n p s')
  then obtain bs where inv: "fl_inv s bs" and nf: "nr_free s + 1 < 4294967296"
    by (auto simp: bf_inv_def)
  have n: "0 < n" using 5 by (simp add: best_fit_alloc_pages_def)
  obtain us vs where p: "bs = us @ p # vs" "n \<le> property s p" "s' = cut_block n p s"
    using best_fit_alloc_cases [OF inv n nf] 5 by auto
  note cut = cut_block_ok [OF inv [unfolded p(1)] n p(2)]
  have "nr_free s' + 1 < 4294967296" using cut(4) nf p(3) by simp
  then show ?case using cut p(3) by (auto simp: bf_inv_def)
next
  case (6 s b n)
  then obtain bs where inv: "fl_inv s bs" by (auto simp: bf_inv_def)
  have fr: "ff_freeable b n s" "nr_free s + n + 1 < 4294967296"
    using 6 by (simp_all add: bf_freeable_def)
  from free_pages_steps [OF inv fr(1)] show ?case
    using fr(2) by (auto simp: best_fit_free_eq bf_inv_def)
next
  case (7 s b n)
  then show ?case by (simp add: bf_freeable_def ff_freeable_def)
qed

section \<open>Properties\<close>

text \<open>C4: best-fit allocation returns NULL exactly when no block is large enough; otherwise it
  returns the smallest block that holds \<open>n\<close> pages (the lowest in address among equals), takes
  its first \<open>n\<close> pages out of the free set and keeps the invariant.\<close>

theorem best_fit_alloc_pages_smallest:
  assumes inv: "fl_inv s bs" and n: "0 < n" and nf: "nr_free s + 1 < 4294967296"
  shows "\<exists>r t. best_fit_alloc_pages n s = Some (r, t) \<and> (case r of
      None \<Rightarrow> t = s \<and> (\<forall>b\<in>set bs. property s b < n)
    | Some p \<Rightarrow> \<exists>us vs. bs = us @ p # vs \<and> n \<le> property s p
        \<and> (\<forall>b\<in>set us. n \<le> property s b \<longrightarrow> property s p < property s b)
        \<and> (\<forall>b\<in>set vs. n \<le> property s b \<longrightarrow> property s p \<le> property s b)
        \<and> fl_inv t (us @ (if n < property s p then [p + n] else []) @ vs)
        \<and> {p..<p + n} \<subseteq> free_set s \<and> free_set t = free_set s - {p..<p + n}
        \<and> nr_free t = nr_free s - n)"
  using best_fit_alloc_cases [OF inv n nf]
proof (elim disjE exE conjE)
  fix p us vs
  assume p: "best_fit_alloc_pages n s = Some (Some p, cut_block n p s)" "bs = us @ p # vs"
    "n \<le> property s p" "\<forall>b\<in>set us. n \<le> property s b \<longrightarrow> property s p < property s b"
    "\<forall>b\<in>set vs. n \<le> property s b \<longrightarrow> property s p \<le> property s b"
  note cut = cut_block_ok [OF inv [unfolded p(2)] n p(3)]
  show ?thesis
    using p cut by (intro exI [of _ "Some p"] exI [of _ "cut_block n p s"])
      (simp only: option.case, blast)
qed (intro exI [of _ None] exI [of _ s], simp)

theorem best_fit_alloc_pages_smallest_witness:
  "\<exists>s t. fl_inv s [2, 10] \<and> best_fit_alloc_pages 2 s = Some (Some 10, t)"
proof -
  obtain s where s: "fl_inv s [2, 10]" "property s 2 = 5" "property s 10 = 3" "nr_free s = 8"
    using example_two_regions by blast
  then have nf: "nr_free s + 1 < 4294967296" by simp
  obtain r t where r: "best_fit_alloc_pages 2 s = Some (r, t)" "r = None \<or> r = Some 10"
    "r = None \<Longrightarrow> False"
    using best_fit_alloc_pages_smallest [OF s(1) _ nf, of 2] s
    by (auto simp: Cons_eq_append_conv split: option.splits)
  with s(1) show ?thesis by blast
qed

text \<open>Best fit keeps the contract of the manager interface across two requests: blocks
  handed out one after the other never overlap, and the free count drops by exactly the number
  of pages handed out.\<close>

theorem best_fit_allocations_disjoint:
  assumes "bf_inv s" and "best_fit_alloc_pages n s = Some (Some p, s1)"
    and "best_fit_alloc_pages m s1 = Some (Some q, s2)"
  shows "{p..<p + n} \<inter> {q..<q + m} = {} \<and> bf_inv s2
     \<and> best_fit_nr_free_pages s2 + m + n = best_fit_nr_free_pages s"
  using bf.alloc_twice_disjoint [OF assms] bf.alloc_nr_free [OF assms(1,2)]
    bf.alloc_gives [OF assms(1,2)] bf.alloc_nr_free [OF _ assms(3)] by simp

theorem best_fit_allocations_disjoint_witness:
  "\<exists>s p q s1 s2. best_fit_alloc_pages 2 s = Some (Some p, s1)
     \<and> best_fit_alloc_pages 4 s1 = Some (Some q, s2) \<and> {p..<p + 2} \<inter> {q..<q + 4} = {}"
proof -
  obtain s where s: "fl_inv s [2, 10]" "property s 2 = 5" "property s 10 = 3" "nr_free s = 8"
    using example_two_regions by blast
  then have inv: "bf_inv s" by (auto simp: bf_inv_def)
  have nf: "nr_free s + 1 < 4294967296" using s by simp
  obtain us vs where p: "best_fit_alloc_pages 2 s = Some (Some 10, cut_block 2 10 s)"
    "[2, 10] = us @ 10 # vs"
    using best_fit_alloc_cases [OF s(1) _ nf, of 2] s by (auto simp: Cons_eq_append_conv)
  let ?t = "cut_block 2 10 s"
  have t: "fl_inv ?t [2, 12]" "nr_free ?t = 6"
    using cut_block_ok [of s "[2]" 10 "[]" 2] s by simp_all
  have "clist (links s) FreeList (map PageLink [2, 10])" using s(1) by (simp add: fl_inv_def)
  have t2: "property ?t 2 = 5" using s by (simp add: cut_block_def Let_def)
  have nf': "nr_free ?t + 1 < 4294967296" using t by simp
  obtain r t' where q: "best_fit_alloc_pages 4 ?t = Some (Some r, t')"
    using best_fit_alloc_cases [OF t(1) _ nf', of 4] t2 by auto
  show ?thesis using best_fit_allocations_disjoint [OF inv p(1) q] p(1) q by blast
qed

end
