(* ===== verification/Vmm_Dup.thy ===== *)
theory Vmm_Dup
  imports Vmm
begin

text \<open>
  Duplicating an address space: \<open>dup_mmap\<close> walks the parent's areas from the last to the first, inserts
  an equal area into the child and copies its pages.
\<close>

lemma clist_prev_of:
  assumes "clist h l (xs @ x # ys)" shows "list_prev (hd (ys @ [l])) h = x"
proof (cases ys)
  case Nil
  then show ?thesis using assms clist_head_prev [of h l "xs @ [x]"] by (simp add: list_prev_def)
next
  case (Cons y zs)
  then show ?thesis using assms clist_mid_prev [of h l "xs @ [x]" y zs] by (simp add: list_prev_def)
qed

text \<open>The areas lie in user space and are page-aligned, as \<open>mm_map\<close> makes them.\<close>

definition areas_user :: "vmm \<Rightarrow> nat list \<Rightarrow> bool" where
  "areas_user s vs \<longleftrightarrow> (\<forall>v\<in>set vs. USER_ACCESS (vstart s v) (vend s v) \<and> vstart s v mod PGSIZE = 0 \<and> vend s v mod PGSIZE = 0)"

definition area_pages :: "vmm \<Rightarrow> nat \<Rightarrow> nat list \<Rightarrow> nat" where
  "area_pages s pgdir vs = (\<Sum>v\<leftarrow>vs. card (mapped_pages (vm_mem s) pgdir (vstart s v) (vend s v)))"

text \<open>The situation when the areas \<open>ys\<close> of \<open>vs = xs @ ys\<close> have been duplicated as \<open>ws\<close>.\<close>

definition dup_state :: "vmm \<Rightarrow> roles \<Rightarrow> nat \<Rightarrow> nat \<Rightarrow> nat \<Rightarrow> nat \<Rightarrow> nat list \<Rightarrow> nat list \<Rightarrow> nat list \<Rightarrow> vmm \<Rightarrow> roles \<Rightarrow> bool" where
  "dup_state s0 L0 f t fp tp xs ys ws s L \<longleftrightarrow>
     mm_inv s f (xs @ ys) \<and> mm_inv s t ws \<and> map (area s) ws = map (area s0) ys
     \<and> (\<forall>v\<in>set (xs @ ys). area s v = area s0 v)
     \<and> mm_pgdir (vm_mms s f) = Some fp \<and> mm_pgdir (vm_mms s t) = Some tp
     \<and> pt_inv (vm_mem s) L \<and> L0 \<subseteq>\<^sub>m L \<and> kernel_kept (vm_mem s0) L0 (vm_mem s) \<and> pm_npage (vm_mem s) = pm_npage (vm_mem s0) \<and> frees (vm_mem s) \<subseteq> frees (vm_mem s0)
     \<and> (\<forall>v\<in>set ys. \<forall>la. vma_has s0 v la \<longrightarrow> page_copied (vm_mem s0) fp tp la (vm_mem s) L)
     \<and> (\<forall>p r la. L0 p = Some (r, Root) \<longrightarrow> unat la < 2 ^ 39 \<longrightarrow> (p = tp \<longrightarrow> (\<forall>v\<in>set ys. \<not> vma_has s0 v la)) \<longrightarrow>
          pte_at (vm_mem s) p la = pte_at (vm_mem s0) p la)
     \<and> (\<forall>x. x \<notin> frees (vm_mem s0) \<longrightarrow> L0 x = None \<longrightarrow>
          L x = None \<and> pm_frame (vm_mem s) x = pm_frame (vm_mem s0) x \<and> refs (vm_mem s) x = refs (vm_mem s0) x)
     \<and> distinct (vm_pool s) \<and> set (vm_pool s) \<inter> set (xs @ ys @ ws) = {} \<and> length xs \<le> length (vm_pool s)
     \<and> 3 * area_pages s0 fp xs \<le> card (frees (vm_mem s))"

lemma mem_below:
  assumes "areas_user s vs" and "v \<in> set vs" and "vma_has s v la" shows "unat la < 2 ^ 39"
proof -
  have "la < USERTOP" using assms by (auto simp: areas_user_def USER_ACCESS_def vma_has_def intro: less_le_trans)
  then show ?thesis using below_user [of la] by simp
qed

lemma dup_step:
  assumes D: "dup_state s0 L0 f t fp tp (xs @ [v]) ys ws s L" and tf: "t \<noteq> f" and pc: "fp \<noteq> tp"
    and inv0: "pt_inv (vm_mem s0) L0" and r: "L0 fp = Some (fp, Root)" "L0 tp = Some (tp, Root)"
    and au: "areas_user s0 (xs @ v # ys)" and ok0: "areas_ok s0 (xs @ v # ys)"
    and nv: "\<forall>w\<in>set (xs @ v # ys). \<forall>la. vma_has s0 w la \<longrightarrow> \<not> valid (pte_at (vm_mem s0) tp la)"
  shows "\<exists>w s1 mem u L'. vma_create (vstart s v) (vend s v) (vma_flags (vm_vmas s v)) s = (Some w, s1)
     \<and> (\<exists>s2. insert_vma_struct t w s1 = Some s2 \<and> mm_pgdir (vm_mms s2 t) = Some tp \<and> mm_pgdir (vm_mms s2 f) = Some fp
          \<and> copy_range tp fp (vstart s2 v) (vend s2 v) (vm_mem s2) = Some (0, mem) \<and> u = s2\<lparr>vm_mem := mem\<rparr>)
     \<and> dup_state s0 L0 f t fp tp xs (v # ys) (w # ws) u L'"
proof -
  have d: "mm_inv s f (xs @ v # ys)" "mm_inv s t ws" "map (area s) ws = map (area s0) ys"
     "\<forall>x\<in>set (xs @ v # ys). area s x = area s0 x"
     "mm_pgdir (vm_mms s f) = Some fp" "mm_pgdir (vm_mms s t) = Some tp"
     "pt_inv (vm_mem s) L" "L0 \<subseteq>\<^sub>m L" "pm_npage (vm_mem s) = pm_npage (vm_mem s0)" "frees (vm_mem s) \<subseteq> frees (vm_mem s0)"
     "distinct (vm_pool s)" "set (vm_pool s) \<inter> set (xs @ v # ys @ ws) = {}" "Suc (length xs) \<le> length (vm_pool s)"
     "3 * area_pages s0 fp (xs @ [v]) \<le> card (frees (vm_mem s))" "kernel_kept (vm_mem s0) L0 (vm_mem s)"
    using D by (simp_all add: dup_state_def)
  have dpc: "\<And>y la. y \<in> set ys \<Longrightarrow> vma_has s0 y la \<Longrightarrow> page_copied (vm_mem s0) fp tp la (vm_mem s) L"
    and dat: "\<And>p r la. L0 p = Some (r, Root) \<Longrightarrow> unat la < 2 ^ 39 \<Longrightarrow> (p = tp \<Longrightarrow> \<forall>y\<in>set ys. \<not> vma_has s0 y la) \<Longrightarrow>
          pte_at (vm_mem s) p la = pte_at (vm_mem s0) p la"
    and dfr: "\<And>x. x \<notin> frees (vm_mem s0) \<Longrightarrow> L0 x = None \<Longrightarrow>
          L x = None \<and> pm_frame (vm_mem s) x = pm_frame (vm_mem s0) x \<and> refs (vm_mem s) x = refs (vm_mem s0) x"
    using D unfolding dup_state_def by blast+
  have dis: "distinct (xs @ v # ys)" by (rule mm_list_distinct [of s f]) (use d(1) in \<open>simp add: mm_inv_def\<close>)
  obtain w as where pool: "vm_pool s = w # as" using d(13) by (cases "vm_pool s") auto
  have wn: "w \<notin> set ws" "w \<notin> set (xs @ v # ys)" using d(12) by (auto simp: pool)
  have av: "vstart s v = vstart s0 v" "vend s v = vend s0 v" "vma_flags (vm_vmas s v) = vma_flags (vm_vmas s0 v)"
    using bspec [OF d(4), of v] by (simp_all add: area_def)
  have uv: "USER_ACCESS (vstart s v) (vend s v)" "vstart s v mod PGSIZE = 0" "vend s v mod PGSIZE = 0"
    using au by (simp_all add: areas_user_def av)
  then have se: "vstart s v < vend s v" "vend s v \<le> USERTOP" by (simp_all add: USER_ACCESS_def)
  have al: "unat (vstart s v) mod 4096 = 0" "unat (vend s v) mod 4096 = 0"
    using uv(2,3) by (metis size_nat(1) unat_mod unsigned_0)+
  have aft: "vend s v \<le> vstart s x" if "x \<in> set ws" for x
  proof -
    have "area s x \<in> set (map (area s0) ys)" using that d(3) by (metis image_eqI list.set_map)
    then obtain y where y: "y \<in> set ys" "vstart s x = vstart s0 y" by (auto simp: area_def)
    then show ?thesis using ok0 av by (auto simp: areas_ok_def sorted_wrt_append)
  qed
  then have fr: "\<forall>x\<in>set ws. vend s x \<le> vstart s v \<or> vend s v \<le> vstart s x" by blast
  from mm_map_new_ok [OF d(2) pool wn(1) se(1) fr, of "vma_flags (vm_vmas s v)"] obtain xs' ys' s2 where
    ws: "ws = xs' @ ys'" and new: "mm_map_new t (vstart s v) (vend s v) (vma_flags (vm_vmas s v)) s = Some (0, Some w, s2)"
    and t2: "mm_inv s2 t (xs' @ w # ys')" and w2: "vstart s2 w = vstart s v" "vend s2 w = vend s v" "vma_flags (vm_vmas s2 w) = vma_flags (vm_vmas s v)"
    and same: "\<forall>x\<in>set ws. vm_vmas s2 x = vm_vmas s x" "vm_pool s2 = as"
    and oth: "\<And>m' vs'. m' \<noteq> t \<Longrightarrow> w \<notin> set vs' \<Longrightarrow> mm_inv s m' vs' \<Longrightarrow> mm_inv s2 m' vs'"
    and mem2: "vm_mem s2 = vm_mem s" "\<And>k. mm_pgdir (vm_mms s2 k) = mm_pgdir (vm_mms s k)"
    and vm2: "\<And>x. x \<noteq> w \<Longrightarrow> area s2 x = area s x" by blast
  have "xs' = []"
  proof (rule ccontr)
    assume "xs' \<noteq> []"
    then obtain x zs where x: "xs' = x # zs" by (cases xs') auto
    have "vend s2 x \<le> vstart s2 w" "vstart s2 x < vend s2 x" using t2 x by (auto simp: mm_inv_def areas_ok_def)
    moreover have "vend s v \<le> vstart s2 x" using aft [of x] same(1) ws x by simp
    ultimately show False using se(1) w2(1) by simp
  qed
  then have t2: "mm_inv s2 t (w # ws)" using t2 ws by simp
  obtain s1 where s1: "vma_create (vstart s v) (vend s v) (vma_flags (vm_vmas s v)) s = (Some w, s1)" "insert_vma_struct t w s1 = Some s2"
    using new by (auto simp: mm_map_new_def Option.bind_eq_Some_conv split: prod.splits option.splits)
  have a2: "vstart s2 v = vstart s v" "vend s2 v = vend s v" using vm2 [of v] wn by (auto simp: area_def)
  have dj: "\<not> vma_has s0 y la" if "y \<in> set ys" "vma_has s0 v la" for y la
    using areas_disjoint [OF ok0, of y v la] that dis by auto
  have b39: "unat la < 2 ^ 39" if "x \<in> set (xs @ v # ys)" "vma_has s0 x la" for x la by (rule mem_below [OF au that])
  have p': "L fp = Some (fp, Root)" "L tp = Some (tp, Root)" and Lr: "\<And>q r. L0 q = Some (r, Root) \<Longrightarrow> L q = Some (r, Root)"
    using d(8) r by (auto simp: map_le_def dom_def)
  have nv': "\<forall>la. vstart s v \<le> la \<and> la < vend s v \<longrightarrow> \<not> valid (pte_at (vm_mem s) tp la)"
  proof (intro allI impI)
    fix la assume "vstart s v \<le> la \<and> la < vend s v"
    then have h: "vma_has s0 v la" by (simp add: vma_has_def av)
    have "pte_at (vm_mem s) tp la = pte_at (vm_mem s0) tp la" by (rule dat [OF r(2) b39 [OF _ h]]) (use dj h in auto)
    then show "\<not> valid (pte_at (vm_mem s) tp la)" using nv h by simp
  qed
  have mp: "mapped_pages (vm_mem s) fp (vstart s v) (vend s v) = mapped_pages (vm_mem s0) fp (vstart s0 v) (vend s0 v)"
    using mapped_pages_cong [OF se(2) al(2), of "vm_mem s" fp "vm_mem s0"] dat [OF r(1)] pc by (simp add: av)
  have cd: "3 * card (mapped_pages (vm_mem s) fp (vstart s v) (vend s v)) \<le> card (frees (vm_mem s))"
    using d(14) by (simp add: area_pages_def mp)
  obtain mem L' where cp: "copy_loop tp fp (vstart s v) (vend s v) (vm_mem s) = Some (0, mem)"
    "copied (vm_mem s) L fp tp (vstart s v) (vend s v) mem L'"
    "card (frees (vm_mem s)) \<le> card (frees mem) + 3 * card (mapped_pages (vm_mem s) fp (vstart s v) (vend s v))"
    using copy_loop_ok [OF d(7) p' pc se al nv' cd] by blast
  note c = copiedD [OF cp(2)]
  have range: "copy_range tp fp (vstart s2 v) (vend s2 v) (vm_mem s2) = Some (0, mem)"
    using uv cp(1) by (simp add: copy_range_def a2 mem2)
  let ?u = "s2\<lparr>vm_mem := mem\<rparr>"
  have ar: "area ?u x = area s2 x" for x by (simp add: area_def)
  have inv_u: "mm_inv ?u m' vs'" if "mm_inv s2 m' vs'" for m' vs' by (rule mm_inv_cong [OF that]) simp_all
  have P1: "page_copied (vm_mem s0) fp tp la mem L'" if y: "y \<in> set (v # ys)" "vma_has s0 y la" for y la
  proof (cases "y = v")
    case True
    then have h: "vma_has s0 v la" "vstart s v \<le> la" "la < vend s v" using y(2) by (auto simp: vma_has_def av)
    have "pte_at (vm_mem s) fp la = pte_at (vm_mem s0) fp la" by (rule dat [OF r(1) b39 [OF _ h(1)]]) (use pc in auto)
    then show ?thesis
      using page_copied_earlier [OF inv0 r(1) c(6) [OF h(2,3)] d(9,10)] dfr by blast
  next
    case False
    then have y': "y \<in> set ys" using y(1) by simp
    have la: "unat la < 2 ^ 39" using b39 [OF _ y(2)] y' by simp
    have "\<not> vma_has s0 v la" using dj [OF y'] y(2) by auto
    then have "tp = tp \<longrightarrow> vstart s v \<le> la \<longrightarrow> vend s v \<le> la" by (auto simp: vma_has_def av)
    from page_copied_later [OF dpc [OF y' y(2)] c(5) c(7) [OF p'(2) la this]] show ?thesis using c(8-10) by blast
  qed
  have P2: "pte_at mem p la = pte_at (vm_mem s0) p la" if h: "L0 p = Some (r', Root)" "unat la < 2 ^ 39" "p = tp \<longrightarrow> (\<forall>y\<in>set (v # ys). \<not> vma_has s0 y la)" for p r' la
  proof -
    have "pte_at mem p la = pte_at (vm_mem s) p la"
      by (rule c(7) [OF Lr [OF h(1)] h(2)]) (use h(3) in \<open>auto simp: vma_has_def av\<close>)
    moreover have "pte_at (vm_mem s) p la = pte_at (vm_mem s0) p la" by (rule dat [OF h(1,2)]) (use h(3) in auto)
    ultimately show ?thesis by simp
  qed
  have P3: "L' x = None \<and> pm_frame mem x = pm_frame (vm_mem s0) x \<and> refs mem x = refs (vm_mem s0) x" if "x \<notin> frees (vm_mem s0)" "L0 x = None" for x
    using dfr [OF that] c(8-10) [of x] d(10) that(1) by auto
  have "map (area ?u) (w # ws) = map (area s0) (v # ys)"
  proof -
    have "area ?u w = area s0 v" using w2 av by (simp add: area_def)
    moreover have "map (area ?u) ws = map (area s) ws" unfolding ar
      by (rule map_cong [OF refl], rule vm2) (use wn(1) in auto)
    ultimately show ?thesis using d(3) by simp
  qed
  moreover have "area ?u x = area s0 x" if "x \<in> set (xs @ v # ys)" for x
    using vm2 [of x] wn(2) that bspec [OF d(4) that] by (auto simp: ar)
  moreover have "3 * area_pages s0 fp xs \<le> card (frees mem)"
    using d(14) cp(3) by (simp add: area_pages_def mp)
  moreover have "kernel_kept (vm_mem s0) L0 mem" by (rule kernel_kept_trans [OF d(15) c(11) d(8)])
  moreover have "L0 \<subseteq>\<^sub>m L'" using d(8) c(2) by (rule map_le_trans)
  moreover have "distinct as \<and> set as \<inter> set (xs @ (v # ys) @ w # ws) = {} \<and> length xs \<le> length as"
    using d(11-13) by (auto simp: pool)
  moreover have "mm_inv ?u f (xs @ v # ys)" "mm_inv ?u t (w # ws)"
    using inv_u oth [OF _ wn(2) d(1)] tf t2 by auto
  ultimately have "dup_state s0 L0 f t fp tp xs (v # ys) (w # ws) ?u L'"
    using P1 P2 P3 c(1,3,5) d(5,6,9,10) mem2 same(2) unfolding dup_state_def by auto
  moreover have "mm_pgdir (vm_mms s2 t) = Some tp" "mm_pgdir (vm_mms s2 f) = Some fp" using mem2(2) d(5,6) by simp_all
  ultimately show ?thesis using s1 range by blast
qed


lemma dup_loop_ok:
  assumes "dup_state s0 L0 f t fp tp xs ys ws s L" and "t \<noteq> f" and "fp \<noteq> tp"
    and "pt_inv (vm_mem s0) L0" and "L0 fp = Some (fp, Root)" "L0 tp = Some (tp, Root)"
    and "areas_user s0 (xs @ ys)" and "areas_ok s0 (xs @ ys)"
    and "\<forall>w\<in>set (xs @ ys). \<forall>la. vma_has s0 w la \<longrightarrow> \<not> valid (pte_at (vm_mem s0) tp la)"
  shows "\<exists>u L' ws'. dup_loop t f (hd (map VmaLink ys @ [MmapList f])) s = Some (0, u)
     \<and> dup_state s0 L0 f t fp tp [] (xs @ ys) ws' u L'"
  using assms
proof (induction xs arbitrary: ys ws s L rule: rev_induct)
  case Nil
  have "clist (vm_links s) (MmapList f) (map VmaLink ys)"
    using Nil.prems(1) by (simp add: dup_state_def mm_inv_def mm_list_def)
  then have "list_prev (hd (map VmaLink ys @ [MmapList f])) (vm_links s) = MmapList f"
    by (cases ys) (auto simp: list_prev_def clist_def)
  then have "dup_loop t f (hd (map VmaLink ys @ [MmapList f])) s = Some (0, s)"
    by (subst dup_loop.simps) simp
  then show ?case using Nil.prems(1) by auto
next
  case (snoc v xs)
  have p: "areas_user s0 (xs @ v # ys)" "areas_ok s0 (xs @ v # ys)"
    "\<forall>w\<in>set (xs @ v # ys). \<forall>la. vma_has s0 w la \<longrightarrow> \<not> valid (pte_at (vm_mem s0) tp la)"
    using snoc.prems(7-9) by simp_all
  obtain w s1 s2 mem u L' where st: "vma_create (vstart s v) (vend s v) (vma_flags (vm_vmas s v)) s = (Some w, s1)"
     "insert_vma_struct t w s1 = Some s2" "mm_pgdir (vm_mms s2 t) = Some tp" "mm_pgdir (vm_mms s2 f) = Some fp"
     "copy_range tp fp (vstart s2 v) (vend s2 v) (vm_mem s2) = Some (0, mem)" "u = s2\<lparr>vm_mem := mem\<rparr>"
    and D: "dup_state s0 L0 f t fp tp xs (v # ys) (w # ws) u L'"
    using dup_step [OF snoc.prems(1-6) p] by blast
  have "clist (vm_links s) (MmapList f) (map VmaLink xs @ VmaLink v # map VmaLink ys)"
    using snoc.prems(1) by (simp add: dup_state_def mm_inv_def mm_list_def)
  then have "list_prev (hd (map VmaLink ys @ [MmapList f])) (vm_links s) = VmaLink v" by (rule clist_prev_of)
  then have "dup_loop t f (hd (map VmaLink ys @ [MmapList f])) s = dup_loop t f (VmaLink v) u"
    using st by (subst dup_loop.simps) (simp add: Let_def)
  then show ?case using snoc.IH [OF D snoc.prems(2-6) p] by simp
qed

section \<open>The property\<close>

text \<open>C18: with memory for it, \<open>dup_mmap\<close> into an empty address space builds equal areas in the same order and gives the
  child a private copy of every page the parent maps in them, with the parent's permissions; the parent's areas and
  pages, every other address space and the kernel's entries and tables are as before.\<close>

theorem dup_mmap_copies:
  assumes "pt_inv (vm_mem s) L" and "mm_inv s frm vs" and "mm_inv s to []" and "to \<noteq> frm"
    and "mm_pgdir (vm_mms s frm) = Some fp" and "mm_pgdir (vm_mms s to) = Some tp" and "fp \<noteq> tp"
    and "L fp = Some (fp, Root)" and "L tp = Some (tp, Root)" and "areas_user s vs"
    and "\<forall>v\<in>set vs. \<forall>la. vma_has s v la \<longrightarrow> \<not> valid (pte_at (vm_mem s) tp la)"
    and "fresh_pool s vs" and "length vs \<le> length (vm_pool s)" and "3 * area_pages s fp vs \<le> card (frees (vm_mem s))"
  shows "\<exists>u L' ws. dup_mmap (Some to) (Some frm) s = Some (0, u) \<and> pt_inv (vm_mem u) L' \<and> kernel_kept (vm_mem s) L (vm_mem u)
     \<and> mm_inv u frm vs \<and> mm_inv u to ws \<and> map (area u) ws = map (area s) vs \<and> (\<forall>v\<in>set vs. area u v = area s v)
     \<and> (\<forall>v\<in>set vs. \<forall>la. vma_has s v la \<longrightarrow> page_copied (vm_mem s) fp tp la (vm_mem u) L')
     \<and> (\<forall>p la. L p = Some (p, Root) \<longrightarrow> unat la < 2 ^ 39 \<longrightarrow> (p = tp \<longrightarrow> (\<forall>v\<in>set vs. \<not> vma_has s v la)) \<longrightarrow>
          pte_at (vm_mem u) p la = pte_at (vm_mem s) p la)"
proof -
  have ok: "areas_ok s vs" and c: "clist (vm_links s) (MmapList frm) (map VmaLink vs)"
    using assms(2) by (simp_all add: mm_inv_def mm_list_def)
  have D: "dup_state s L frm to fp tp vs [] [] s L"
    using assms by (simp add: dup_state_def fresh_pool_def)
  obtain u L' ws where u: "dup_loop to frm (MmapList frm) s = Some (0, u)" "dup_state s L frm to fp tp [] vs ws u L'"
    using dup_loop_ok [OF D assms(4,7,1,8,9)] assms(10,11) ok by auto
  have "dup_mmap (Some to) (Some frm) s = Some (0, u)" using u(1) by (simp add: dup_mmap_def)
  then show ?thesis using u(2) unfolding dup_state_def append_Nil by blast
qed

text \<open>A parent with the area of one mapped page and an empty child.\<close>

lemma example_fork:
  "\<exists>s L. pt_inv (vm_mem s) L \<and> mm_inv s 1 [2] \<and> mm_inv s 3 [] \<and> mm_pgdir (vm_mms s 1) = Some 1 \<and> mm_pgdir (vm_mms s 3) = Some 2
     \<and> L 1 = Some (1, Root) \<and> L 2 = Some (2, Root) \<and> areas_user s [2] \<and> fresh_pool s [2] \<and> length (vm_pool s) = 1
     \<and> 3 * area_pages s 1 [2] \<le> card (frees (vm_mem s)) \<and> (\<forall>la. pte_at (vm_mem s) 2 la = 0)
     \<and> valid (pte_at (vm_mem s) 1 USERBASE) \<and> vma_has s 2 USERBASE
     \<and> kernel_mapped (vm_mem s) L 1 \<and> kernel_mapped (vm_mem s) L 2"
proof -
  obtain s0 where s0: "mm_inv s0 1 [2]" "vstart s0 2 = USERBASE" "vend s0 2 = USERBASE + PGSIZE" "vm_pool s0 = [3, 4]"
    using example_area by auto
  obtain m L where m: "pt_inv m L" "L 1 = Some (1, Root)" "L 2 = Some (2, Root)" "8 \<le> card (frees m)"
    "pte_at m 1 USERBASE = pte_create (page2ppn 5) (PTE_V OR PTE_USER)" "\<forall>la. pte_at m 2 la = 0"
    "kernel_mapped m L 1" "kernel_mapped m L 2"
    using example_mapping by blast
  obtain s1 where s1: "mm_create s0 = (Some 3, s1)" by (simp add: mm_create_def kmalloc_obj_def s0(4) Let_def)
  have k: "mm_inv s1 3 []" "vm_pool s1 = [4]" "vm_vmas s1 = vm_vmas s0" using mm_create_inv [OF s1] s0(4) by simp_all
  have i1: "mm_inv s1 1 [2]"
  proof (rule mm_inv_frame [OF s0(1)])
    show "vm_vmas s1 = vm_vmas s0" by (rule k(3))
    show "vm_mms s1 1 = vm_mms s0 1"
      using s1 by (auto simp: mm_create_def kmalloc_obj_def s0(4) Let_def set_mm_count_def)
    have "vm_links s1 = list_init (MmapList 3) (vm_links s0)"
      using s1 by (auto simp: mm_create_def kmalloc_obj_def s0(4) Let_def set_mm_count_def)
    then show "mm_list s1 1 [2]"
      using s0(1) list_init_other [of "vm_links s0" "MmapList 1" "[VmaLink 2]" "MmapList 3"] by (simp add: mm_inv_def mm_list_def)
  qed
  define s where "s = upd_mm 1 (\<lambda>x. x\<lparr>mm_pgdir := Some 1\<rparr>) (upd_mm 3 (\<lambda>x. x\<lparr>mm_pgdir := Some 2\<rparr>) (s1\<lparr>vm_mem := m\<rparr>))"
  have s: "vm_mem s = m" "vm_vmas s = vm_vmas s1" "vm_links s = vm_links s1" "vm_pool s = [4]"
    "mm_pgdir (vm_mms s 1) = Some 1" "mm_pgdir (vm_mms s 3) = Some 2"
    by (simp_all add: s_def k(2))
  have inv: "mm_inv s k vs" if "mm_inv s1 k vs" for k vs
    using that s(2,3) by (auto simp: mm_inv_def mm_list_def areas_ok_def s_def)
  have w: "USERBASE mod PGSIZE = 0" "(USERBASE + PGSIZE) mod PGSIZE = 0" "USER_ACCESS USERBASE (USERBASE + PGSIZE)"
    "USERBASE < USERBASE + PGSIZE" "unat (USERBASE + PGSIZE) div 4096 = 513" "unat USERBASE div 4096 = 512"
    by (simp_all add: USERBASE_def PGSIZE_def USER_ACCESS_def USERTOP_def)
  have "mapped_pages m 1 USERBASE (USERBASE + PGSIZE) \<subseteq> {512..<513}" by (auto simp: mapped_pages_def w(5,6))
  then have "card (mapped_pages m 1 USERBASE (USERBASE + PGSIZE)) \<le> card {512..<513::nat}" by (intro card_mono) auto
  then have "3 * area_pages s 1 [2] \<le> card (frees (vm_mem s))"
    using m(4) s0(2,3) by (simp add: area_pages_def s k(3))
  moreover have "areas_user s [2]" using w(1-3) s0(2,3) by (simp add: areas_user_def s k(3))
  moreover have "vma_has s 2 USERBASE" using w(4) s0(2,3) by (simp add: vma_has_def s k(3))
  ultimately show ?thesis
    using m s inv [OF i1] inv [OF k(1)] by (intro exI [of _ s] exI [of _ L]) (simp add: fresh_pool_def)
qed

theorem dup_mmap_copies_witness:
  "\<exists>s L u. kernel_mapped (vm_mem s) L 1 \<and> kernel_mapped (vm_mem s) L 2 \<and> valid (pte_at (vm_mem s) 1 USERBASE) \<and> dup_mmap (Some 3) (Some 1) s = Some (0, u) \<and> (\<exists>ws. mm_inv u 3 ws \<and> length ws = 1)"
proof -
  obtain s L where s: "pt_inv (vm_mem s) L" "mm_inv s 1 [2]" "mm_inv s 3 []" "mm_pgdir (vm_mms s 1) = Some 1" "mm_pgdir (vm_mms s 3) = Some 2"
     "L 1 = Some (1, Root)" "L 2 = Some (2, Root)" "areas_user s [2]" "fresh_pool s [2]" "length (vm_pool s) = 1"
     "3 * area_pages s 1 [2] \<le> card (frees (vm_mem s))" "\<forall>la. pte_at (vm_mem s) 2 la = 0" "valid (pte_at (vm_mem s) 1 USERBASE)"
     "kernel_mapped (vm_mem s) L 1" "kernel_mapped (vm_mem s) L 2"
    using example_fork by blast
  have "\<forall>v\<in>set [2]. \<forall>la. vma_has s v la \<longrightarrow> \<not> valid (pte_at (vm_mem s) 2 la)" using s(12) by simp
  from dup_mmap_copies [OF s(1-3) _ s(4,5) _ s(6-8) this s(9) _ s(11)] obtain u ws where
    u: "dup_mmap (Some 3) (Some 1) s = Some (0, u)" "mm_inv u 3 ws" "map (area u) ws = map (area s) [2]"
    using s(10) by auto
  from u(3) have "length ws = 1" by (metis length_map list.size(3,4) One_nat_def add.commute plus_1_eq_Suc)
  then show ?thesis using s(13-15) u(1,2) by blast
qed

end
