(* ===== verification/Proc_Fork.thy ===== *)
theory Proc_Fork
  imports Proc_Exit
begin

text \<open>
  What \<open>do_fork\<close> gives: every table of processes with the child in it, the identifier of the child, its
  table of open files, and a child that will return 0 through \<open>forkret\<close>.
\<close>

section \<open>The tables of processes\<close>

definition proc_tables_ok :: "kern \<Rightarrow> nat list \<Rightarrow> nat \<Rightarrow> nat \<Rightarrow> nat list \<Rightarrow> (nat \<Rightarrow> nat list) \<Rightarrow> (nat \<Rightarrow> nat list) \<Rightarrow> bool" where
  "proc_tables_ok s r c i ps ch hs \<longleftrightarrow> runq_ok s r c i \<and> family s i ps ch \<and> hash_ok s hs \<and> (\<forall>h<HASH_LIST_SIZE. set (hs h) \<subseteq> set ps)
     \<and> pid_inv s ps \<and> c \<in> insert i (set ps)"

lemma sib_seg_on:
  assumes "set xs \<subseteq> A" and "\<And>x. x \<in> A \<Longrightarrow> procs t x = procs s x"
  shows "sib_seg t a xs b = sib_seg s a xs b"
  by (rule sib_seg_cong) (use assms in auto)

text \<open>A process outside the tables may change as it likes, as long as it does not become runnable.\<close>

lemma tables_outsider:
  assumes tab: "proc_tables_ok s r c i ps ch hs" and p: "p \<notin> insert i (set ps)" "p \<notin> set r"
    and same: "\<And>x. x \<noteq> p \<Longrightarrow> procs t x = procs s x" and np: "p_state (procs t p) \<noteq> PROC_RUNNABLE"
    and k: "list_links t = list_links s" "hash_links t = hash_links s" "nr_process t = nr_process s" "last_pid t = last_pid s"
      "next_safe t = next_safe s" "current t = current s" "idleproc t = idleproc s" "proc_num t = proc_num s"
    and rl: "run_links t = run_links s \<or> run_links t = list_init (RunLink p) (run_links s)"
  shows "proc_tables_ok t r c i ps ch hs"
proof -
  have in_ps: "procs t x = procs s x" if "x \<in> insert i (set ps)" for x using same [of x] that p(1) by blast
  have fam: "family s i ps ch" and rq: "runq_ok s r c i" and h: "hash_ok s hs" "\<forall>h<HASH_LIST_SIZE. set (hs h) \<subseteq> set ps"
    and pi: "pid_inv s ps" and c: "c \<in> insert i (set ps)" using tab by (simp_all add: proc_tables_ok_def)
  have "children t q (ch q) = children s q (ch q)" if "q \<in> insert i (set ps)" for q
  proof -
    have "set (ch q) \<subseteq> set ps" using fam that by (auto simp: family_def)
    then have "sib_seg t None (ch q) None = sib_seg s None (ch q) None" by (rule sib_seg_on) (simp add: in_ps)
    then show ?thesis by (simp add: children_def in_ps [OF that])
  qed
  moreover have par: "p_parent (procs t x) = p_parent (procs s x)" if "x \<in> set ps" for x using in_ps that by simp
  then have "{x \<in> set ps. p_parent (procs t x) = Some q} = {x \<in> set ps. p_parent (procs s x) = Some q}" for q by auto
  ultimately have "family t i ps ch"
    using fam par unfolding family_def proc_list_def k by simp
  moreover have "hash_ok t hs"
    using h in_ps unfolding hash_ok_def k by (auto simp: subset_iff)
  moreover have "pids t ps = pids s ps" using in_ps by (auto simp: pids_def)
  then have "pid_inv t ps" using pi by (simp add: pid_inv_def k)
  moreover have "runq_ok t r c i"
  proof -
    have l: "rq_list s r" and un: "unlinked p s" using rq p by (auto simp: runq_ok_def)
    then have lp: "lnext (run_links s) (RunLink p) = RunLink p" by (simp add: unlinked_def list_empty_def)
    have "lnext (run_links t) x = lnext (run_links s) x \<and> lprev (run_links t) x = lprev (run_links s) x" if "x \<noteq> RunLink p" for x
      using rl that by (auto simp: list_init_def)
    moreover have "x \<noteq> RunLink p" if "x \<in> set (RunList # map RunLink r)" for x using that p(2) by auto
    ultimately have "clist (run_links t) RunList (map RunLink r) = clist (run_links s) RunList (map RunLink r)"
      by (intro clist_cong) blast+
    then have cl: "clist (run_links t) RunList (map RunLink r)" using l by (simp add: rq_list_def)
    have "procs t x = procs s x" if "x \<in> set r" for x using same [of x] p(2) that by blast
    then have "rq_list t r" using l cl by (auto simp: rq_list_def k)
    moreover have e1: "list_empty (RunLink x) (run_links t) = list_empty (RunLink x) (run_links s)" for x
      using rl lp by (cases "x = p") (auto simp: list_empty_def list_init_def)
    moreover have e2: "p_state (procs t x) = PROC_RUNNABLE \<and> x \<noteq> c \<and> x \<noteq> i \<longleftrightarrow> p_state (procs s x) = PROC_RUNNABLE \<and> x \<noteq> c \<and> x \<noteq> i" for x
      using same [of x] np p rq by (cases "x = p") (auto simp: runq_ok_def)
    ultimately show ?thesis using rq unfolding runq_ok_def unlinked_def k e1 e2 by blast
  qed
  ultimately show ?thesis using h(2) c by (simp add: proc_tables_ok_def)
qed

lemma hash_ok_cong: "hash_links t = hash_links s \<Longrightarrow> (\<And>x. p_pid (procs t x) = p_pid (procs s x)) \<Longrightarrow> hash_ok t hs = hash_ok s hs"
  by (simp add: hash_ok_def)

lemma pids_cong: "(\<And>x. p_pid (procs t x) = p_pid (procs s x)) \<Longrightarrow> pids t ps = pids s ps"
  by (simp add: pids_def)

lemma tables_pids: "proc_tables_ok s r c i ps ch hs \<Longrightarrow> nr_process s \<le> MAX_PROCESS \<Longrightarrow> card (pids s ps) < 8191"
proof -
  assume "proc_tables_ok s r c i ps ch hs" "nr_process s \<le> MAX_PROCESS"
  then have "length ps < 4096" by (simp add: proc_tables_ok_def family_def MAX_PROCESS_def)
  moreover have "card (pids s ps) \<le> length ps"
    unfolding pids_def by (rule order_trans [OF card_image_le card_length]) simp
  ultimately show ?thesis by simp
qed

section \<open>Entering the tables\<close>

lemma links_only_more:
  assumes "links_only s t"
  shows "p_context (procs t x) = p_context (procs s x)" "p_tf (procs t x) = p_tf (procs s x)" "p_filesp (procs t x) = p_filesp (procs s x)"
proof -
  have e: "procs t x = (procs s x)\<lparr>p_cptr := p_cptr (procs t x), p_yptr := p_yptr (procs t x),
      p_optr := p_optr (procs t x)\<rparr>" using assms by (simp add: links_only_def)
  show "p_context (procs t x) = p_context (procs s x)" "p_tf (procs t x) = p_tf (procs s x)" "p_filesp (procs t x) = p_filesp (procs s x)"
    by (subst e, simp)+
qed

lemma rq_frame_tf: "rq_frame s t \<Longrightarrow> p_tf (procs t p) = p_tf (procs s p)"
  using rq_frame_core [of s t p] by (metis proc_core_def proc_struct.select_convs(9) proc_struct.surjective proc_struct.update_convs(18,19,20))

lemma fork_enter_ok:
  assumes V: "op_sched V = default_sched_class" and tab: "proc_tables_ok (os_kern s) r c i ps ch hs"
    and room: "nr_process (os_kern s) \<le> MAX_PROCESS" and p: "p \<notin> insert i (set ps)" "p \<notin> set r" "p_state (os_proc s p) = PROC_UNINIT"
      "p_cptr (os_proc s p) = None" "p_parent (os_proc s p) = Some c"
  shows "\<exists>pid k hs'. fork_enter V p s = Some (pid, set_kern k s) \<and> 1 \<le> pid \<and> pid < MAX_PID \<and> (\<forall>x\<in>set ps. p_pid (os_proc s x) \<noteq> pid)
     \<and> find_proc pid k = Some (Some p) \<and> proc_tables_ok k (r @ [p]) c i (p # ps) (ch(c := p # ch c, p := [])) hs'
     \<and> p_context (procs k p) = p_context (os_proc s p) \<and> p_tf (procs k p) = p_tf (os_proc s p) \<and> p_filesp (procs k p) = p_filesp (os_proc s p)"
proof -
  let ?k = "os_kern s"
  have fam: "family ?k i ps ch" and rq: "runq_ok ?k r c i" and h: "hash_ok ?k hs" "\<And>h. h < HASH_LIST_SIZE \<Longrightarrow> set (hs h) \<subseteq> set ps"
    and c: "c \<in> insert i (set ps)" "proc_list ?k ps" "pid_inv ?k ps"
    using tab by (auto simp: proc_tables_ok_def family_def)
  have ne: "p \<noteq> c" "p \<noteq> i" using p(1) c(1) by auto
  obtain pid k1 where k1: "get_pid ?k = Some (pid, k1)" "1 \<le> pid" "pid < MAX_PID" "pid \<notin> pids ?k ps"
    "k1 = ?k\<lparr>last_pid := pid, next_safe := next_safe k1\<rparr>" "pid_inv k1 ps"
    using get_pid_ok [OF c(2,3) tables_pids [OF tab room]] by blast
  let ?k2 = "upd_proc p (\<lambda>a. a\<lparr>p_pid := pid\<rparr>) k1" and ?h = "pid_hashfn pid"
  let ?k3 = "hash_proc p ?k2"
  have sel1: "procs k1 = procs ?k" "hash_links k1 = hash_links ?k" "list_links k1 = list_links ?k" "nr_process k1 = nr_process ?k"
    "current k1 = current ?k" "idleproc k1 = idleproc ?k" "last_pid k1 = pid"
    by (subst k1(5), simp)+
  have "rq_view (?k\<lparr>last_pid := pid, next_safe := x\<rparr>) = rq_view ?k" for x by (simp add: rq_view_def)
  then have v1: "rq_view k1 = rq_view ?k" using k1(5) by metis
  have hl: "?h < HASH_LIST_SIZE" by (rule pid_hashfn_less)
  have nh: "p \<notin> set (hs x)" if "x < HASH_LIST_SIZE" for x using h(2) [OF that] p(1) by auto
  have "hash_ok ?k2 hs" using h(1) nh unfolding hash_ok_def by (auto simp: sel1)
  from hash_proc_ok [OF this, of p] nh [OF hl] have h3: "hash_ok ?k3 (hs(?h := p # hs ?h))" by simp
  have p3: "procs ?k3 = (procs ?k)(p := (procs ?k p)\<lparr>p_pid := pid\<rparr>)" "list_links ?k3 = list_links ?k" "nr_process ?k3 = nr_process ?k"
    "rq_view ?k3 = rq_view ?k" "current ?k3 = current ?k" "idleproc ?k3 = idleproc ?k" "last_pid ?k3 = pid" "next_safe ?k3 = next_safe k1"
    using v1 by (simp_all add: hash_proc_def sel1) (auto simp: rq_view_def sel1(1))
  have "family ?k3 i ps ch" using fam family_fields [of ?k3 ?k i ps ch] p3 by simp
  moreover have "p_cptr (procs ?k3 p) = None" "p_parent (procs ?k3 p) = Some c" using p(4,5) by (simp_all add: p3 os_proc_def)
  ultimately obtain k4 where k4: "set_links p ?k3 = Some k4" "links_only ?k3 k4" "family k4 i (p # ps) (ch(c := p # ch c, p := []))"
    using set_links_ok [OF _ p(1)] c(1) by blast
  have st4: "p_state (procs k4 x) = p_state (procs ?k x)" for x using links_only_procs(3) [OF k4(2)] by (simp add: p3)
  have "rr.list_inv ?k r c i" using rq by (simp add: list_inv_runq)
  then have "rr.sched_inv ?k (set r) c i" "rq_list ?k r" by (simp_all add: rr.list_inv_def)
  then have s4: "rr.sched_inv k4 (set r) c i" "rq_list k4 r"
    using rr.sched_inv_cong [of ?k "set r" c i k4] rq_list_view [of ?k r k4] links_only_kern(1-3) [OF k4(2)] p3(4-6) st4 by simp_all
  then have l4: "rr.list_inv k4 r c i" by (simp add: rr.list_inv_def)
  obtain t where t: "wakeup_proc default_sched_class p k4 = Some t" "rr.list_inv t (r @ [p]) c i"
     "\<forall>x. p_state (procs t x) = (if x = p then PROC_RUNNABLE else p_state (procs k4 x))"
    using rr.wakeup_queue [OF l4, of p] p(3) st4 ne by (auto simp: os_proc_def)
  let ?k5 = "upd_proc p (\<lambda>a. a\<lparr>p_state := PROC_RUNNABLE, p_wait_state := 0\<rparr>) k4"
  have f: "rq_frame ?k5 t"
    using rr.wakeup_frame [OF s4(1) t(1) ne(2)] p(3) st4 by (simp add: os_proc_def)
  have pid: "p_pid (procs t x) = (if x = p then pid else p_pid (procs ?k x))" for x
    using rq_frame_procs(2) [OF f, of x] links_only_procs(2) [OF k4(2), of x] by (cases "x = p") (simp_all add: p3)
  have ht: "hash_ok t (hs(?h := p # hs ?h))"
    using h3 hash_ok_cong [of t ?k3] rq_frame_kern(10) [OF f] links_only_kern(5) [OF k4(2)] pid by (simp add: p3)
  have "find_proc pid t = Some (Some p)" using find_proc_ok [OF ht, of pid] k1(2,3) by (simp add: pid)
  moreover have "fork_enter V p s = Some (pid, set_kern t s)"
    using V k1(1) k4(1) t(1) by (simp add: fork_enter_def pid Let_def)
  moreover have "\<forall>x\<in>set ps. p_pid (os_proc s x) \<noteq> pid" using k1(4) by (auto simp: pids_def os_proc_def)
  moreover have "proc_tables_ok t (r @ [p]) c i (p # ps) (ch(c := p # ch c, p := [])) (hs(?h := p # hs ?h))"
  proof -
    have "family t i (p # ps) (ch(c := p # ch c, p := []))"
      using k4(3) family_fields [of t k4 i "p # ps" "ch(c := p # ch c, p := [])"] rq_frame_kern(9,11) [OF f] rq_frame_procs(4,9-11) [OF f] by simp
    moreover have "pids t (p # ps) = insert pid (pids ?k ps)" using p(1) by (auto simp: pids_def pid)
    then have "pid_inv t (p # ps)"
      using k1(6) rq_frame_kern(12,13) [OF f] links_only_kern(6,7) [OF k4(2)] p3(7,8) sel1(1,7) by (auto simp: pid_inv_def pids_def)
    moreover have "runq_ok t (r @ [p]) c i" using t(2) by (simp add: list_inv_runq)
    moreover have "\<forall>x<HASH_LIST_SIZE. set ((hs(?h := p # hs ?h)) x) \<subseteq> set (p # ps)" using h(2) by auto
    moreover have "c \<in> insert i (set (p # ps))" using c(1) by auto
    ultimately show ?thesis using ht unfolding proc_tables_ok_def by blast
  qed
  moreover have "p_context (procs t p) = p_context (procs ?k p)" "p_tf (procs t p) = p_tf (procs ?k p)" "p_filesp (procs t p) = p_filesp (procs ?k p)"
    using rq_frame_procs(14,16) [OF f, of p] rq_frame_tf [OF f, of p] links_only_more [OF k4(2), of p] by (simp_all add: p3)
  ultimately show ?thesis using k1(2,3) unfolding os_proc_def by blast
qed

section \<open>do\_fork\<close>

lemma os_views [simp]:
  "os_kern (set_kern k s) = k" "os_kern (upd_os_proc p f s) = upd_proc p f (os_kern s)" "os_kern (set_mem m s) = os_kern s"
  "os_kern (upd_files fl g s) = os_kern s" "os_files (set_kern k s) = os_files s" "os_files (upd_os_proc p f s) = os_files s"
  "os_files (set_mem m s) = os_files s" "vm_mem (os_vm (set_kern k s)) = vm_mem (os_vm s)" "vm_mem (os_vm (upd_os_proc p f s)) = vm_mem (os_vm s)"
  "os_proc (set_kern k s) x = procs k x" "os_proc (upd_os_proc p f s) x = (if x = p then f (os_proc s p) else os_proc s x)"
  "os_proc (set_mem m s) x = os_proc s x" "os_proc (upd_files fl g s) x = os_proc s x"
  by (simp_all add: os_kern_def set_kern_def upd_os_proc_def set_mem_def upd_files_def os_proc_def)

lemma init_proc_sel:
  "x \<noteq> p \<Longrightarrow> procs (init_proc K p k) x = procs k x"
  "p_state (procs (init_proc K p k) p) = PROC_UNINIT" "p_cptr (procs (init_proc K p k) p) = None"
  "run_links (init_proc K p k) = list_init (RunLink p) (run_links k)" "list_links (init_proc K p k) = list_links k"
  "hash_links (init_proc K p k) = hash_links k" "nr_process (init_proc K p k) = nr_process k" "last_pid (init_proc K p k) = last_pid k"
  "next_safe (init_proc K p k) = next_safe k" "current (init_proc K p k) = current k" "idleproc (init_proc K p k) = idleproc k"
  "proc_num (init_proc K p k) = proc_num k"
  by (simp_all add: init_proc_def Let_def upd_run_links_def)

lemma os_kmalloc_pool:
  assumes "vm_pool (os_vm s) = p # vs"
  shows "os_kmalloc s = (Some p, s\<lparr>os_vm := (os_vm s)\<lparr>vm_pool := vs\<rparr>\<rparr>)"
  using assms by (simp add: os_kmalloc_def kmalloc_obj_def)

text \<open>The table of open files the child gets: the parent's, counted once more, with \<open>CLONE_FS\<close>; otherwise a new one.\<close>

lemma upd_views [simp]:
  "os_vm (upd_file f g s) = os_vm s" "os_vm (upd_files q h s) = os_vm s" "os_vm (snd (inode_ref_inc n s)) = os_vm s"
  "os_vm (snd (inode_open_inc n s)) = os_vm s" "os_vm (snd (fopen_count_inc f s)) = os_vm s"
  by (simp_all add: upd_file_def upd_files_def inode_ref_inc_def inode_open_inc_def fopen_count_inc_def upd_node_def Let_def)

lemma fd_array_dup_vm: "fd_array_dup g f s = Some t \<Longrightarrow> os_vm t = os_vm s"
  by (auto simp: fd_array_dup_def fd_array_open_def kassert_def Let_def split: if_splits Option.bind_splits)

lemma dup_files_loop_vm: "dup_files_loop to frm i n s = Some t \<Longrightarrow> os_vm t = os_vm s"
  by (induction n arbitrary: i s) (auto dest!: fd_array_dup_vm split: if_splits Option.bind_splits)

lemma dup_files_vm: "dup_files to frm s = Some (r, t) \<Longrightarrow> os_vm t = os_vm s"
  by (auto simp: dup_files_def kassert_def Let_def dest!: dup_files_loop_vm split: if_splits Option.bind_splits option.splits)

lemma files_create_ok:
  assumes "vm_pool (os_vm s) = q # vs"
  shows "\<exists>t y z. files_create s = (Some q, t) \<and> os_kern t = (os_kern s)\<lparr>sems := y, wait_links := z\<rparr> \<and> os_nodes t = os_nodes s
     \<and> (\<forall>x. x \<noteq> q \<longrightarrow> os_files t x = os_files s x) \<and> fresh_table t q"
proof -
  let ?t = "snd (files_create s)"
  have "files_create s = (Some q, ?t)" by (simp add: files_create_def os_kmalloc_pool [OF assms] Let_def)
  moreover have "\<exists>y z. os_kern ?t = (os_kern s)\<lparr>sems := y, wait_links := z\<rparr>"
    by (simp add: files_create_def os_kmalloc_pool [OF assms] fd_array_init_def sem_init_def wait_queue_init_def upd_wait_links_def upd_sem_def
        os_kern_def set_kern_def upd_files_def Let_def) (metis kern.surjective kern.update_convs(20,22))
  moreover have "os_nodes ?t = os_nodes s" "\<forall>x. x \<noteq> q \<longrightarrow> os_files ?t x = os_files s x"
    by (simp_all add: files_create_def os_kmalloc_pool [OF assms] fd_array_init_def set_kern_def upd_files_def Let_def)
  moreover have "fresh_table ?t q"
    by (simp add: files_create_def os_kmalloc_pool [OF assms] fd_array_init_def set_kern_def upd_files_def Let_def
        fresh_table_def files_count_def get_file_def entry_ok_def fopen_count_def)
  ultimately show ?thesis by blast
qed

definition child_table :: "'d os \<Rightarrow> 'd os \<Rightarrow> nat \<Rightarrow> nat \<Rightarrow> bool" where
  "child_table s t q fl \<longleftrightarrow> files_count q t = 1 \<and> fl_pwd (os_files t q) = fl_pwd (os_files s fl)
     \<and> (\<forall>i<FILES_STRUCT_NENTRY. if f_status (get_file (fl, i) s) = FD_OPENED then get_file (q, i) t = get_file (fl, i) s
          else f_status (get_file (q, i) t) = FD_NONE)
     \<and> (\<forall>x. x \<noteq> q \<longrightarrow> os_files t x = os_files s x)"

lemma child_table_cong: "os_files s' = os_files s \<Longrightarrow> os_files t' = os_files t \<Longrightarrow> child_table s' t' q fl = child_table s t q fl"
  by (simp add: child_table_def files_count_def get_file_def)

lemma share_files_sel:
  "fst (share_files f p s) = 0" "os_kern (snd (share_files f p s)) = upd_proc p (\<lambda>a. a\<lparr>p_filesp := Some f\<rparr>) (os_kern s)"
  "os_files (snd (share_files f p s)) = (os_files s)(f := (os_files s f)\<lparr>fl_count := fl_count (os_files s f) + 1\<rparr>)"
  "os_nodes (snd (share_files f p s)) = os_nodes s"
  by (simp_all add: share_files_def files_count_inc_def Let_def upd_files_def upd_os_proc_def set_kern_def os_kern_def)

lemma files_ok_count:
  assumes "os_nodes t = os_nodes s" "\<And>x. fl_fd (os_files t x) = fl_fd (os_files s x)" "\<And>x. fl_pwd (os_files t x) = fl_pwd (os_files s x)"
  shows "files_ok t F P E = files_ok s F P E"
proof -
  have "get_file x t = get_file x s" for x using assms(2) by (simp add: get_file_def)
  moreover from this have "entry_ok t x = entry_ok s x" for x by (rule entry_ok_same)
  ultimately have "opened t F n = opened s F n" "entry_ok t x = entry_ok s x" for n x
    by (simp_all add: opened_def)
  then show ?thesis
    by (simp add: files_ok_def pwds_def inode_open_count_def inode_ref_count_def assms)
qed

lemma copy_files_new:
  assumes cur: "current_filesp s = Some fl" and flags: "flags AND CLONE_FS = 0" and pool: "vm_pool (os_vm s) = q # vs"
    and ok: "files_ok s F P E" and f: "fl \<in> F" "0 < files_count fl s" and q: "q \<notin> F" "q \<notin> P"
    and pw: "fl_pwd (os_files s fl) \<noteq> None \<Longrightarrow> fl \<in> P"
    and room: "\<forall>n. inode_ref_count n s + int FILES_STRUCT_NENTRY + 1 < MAX_INODE_COUNT"
  shows "\<exists>t y z. copy_files V flags p s = Some (0, t)
     \<and> os_kern t = upd_proc p (\<lambda>a. a\<lparr>p_filesp := Some q\<rparr>) ((os_kern s)\<lparr>sems := y, wait_links := z\<rparr>)
     \<and> files_ok t (insert q F) (insert q P) E \<and> child_table s t q fl"
proof -
  obtain s1 y z where s1: "files_create s = (Some q, s1)" "os_kern s1 = (os_kern s)\<lparr>sems := y, wait_links := z\<rparr>" "os_nodes s1 = os_nodes s"
     "\<forall>x. x \<noteq> q \<longrightarrow> os_files s1 x = os_files s x" "fresh_table s1 q" using files_create_ok [OF pool] by blast
  have ne: "fl \<noteq> q" using f(1) q(1) by blast
  have rc: "inode_ref_count n s1 = inode_ref_count n s" "inode_open_count n s1 = inode_open_count n s" for n
    by (simp_all add: inode_ref_count_def inode_open_count_def s1(3))
  have fls: "os_files s1 fl = os_files s fl" using s1(4) ne by blast
  have "files_ok s1 F P E"
  proof -
    have sm: "os_files s1 x = os_files s x" if "x \<in> F \<union> P" for x using s1(4) q that by (metis UnE)
    have gf: "get_file (x, i) s1 = get_file (x, i) s" if "x \<in> F" for x i using sm [of x] that by (simp add: get_file_def)
    have op: "opened s1 F = opened s F" using gf by (auto simp: opened_def fun_eq_iff)
    have ps: "pwds s1 P = pwds s P" using sm by (auto simp: pwds_def fun_eq_iff)
    have "entry_ok s1 (x, i) = entry_ok s (x, i)" if "x \<in> F" for x i by (rule entry_ok_same [OF gf [OF that]])
    then have "\<forall>x\<in>F. \<forall>i<FILES_STRUCT_NENTRY. entry_ok s1 (x, i)" using ok by (simp add: files_ok_def)
    then show ?thesis using ok unfolding files_ok_def rc s1(3) op ps by blast
  qed
  moreover have "0 < files_count fl s1" using f(2) by (simp add: files_count_def fls)
  ultimately obtain u where u: "dup_files q fl s1 = Some (0, u)" "files_ok u (insert q F) (insert q P) E"
     "\<forall>i<FILES_STRUCT_NENTRY. get_file (q, i) u = shared_entry s1 q fl i" "fl_pwd (os_files u q) = fl_pwd (os_files s1 fl)" "files_count q u = 0"
     "\<forall>x. x \<noteq> q \<longrightarrow> (\<forall>i. get_file (x, i) u = get_file (x, i) s1)
          \<and> fl_pwd (os_files u x) = fl_pwd (os_files s1 x) \<and> fl_count (os_files u x) = fl_count (os_files s1 x)"
    using dup_files_ok [of s1 F P E fl q] f(1) q s1(5) pw room unfolding rc fls by blast
  let ?t = "snd (share_files q p u)"
  have "copy_files V flags p s = Some (0, ?t)"
    using share_files_sel(1) [of q p u] by (simp add: copy_files_def cur flags s1(1) u(1)) (metis prod.collapse)
  moreover have "os_kern u = os_kern s1" using dup_files_vm [OF u(1)] by (simp add: os_kern_def)
  then have "os_kern ?t = upd_proc p (\<lambda>a. a\<lparr>p_filesp := Some q\<rparr>) ((os_kern s)\<lparr>sems := y, wait_links := z\<rparr>)"
    by (simp add: share_files_sel s1(2))
  moreover have "files_ok ?t (insert q F) (insert q P) E"
    using u(2) files_ok_count [of ?t u "insert q F" "insert q P" E] by (simp add: share_files_sel)
  moreover have "os_files ?t x = os_files s x" if "x \<noteq> q" for x
  proof -
    have "fl_fd (os_files u x) i = fl_fd (os_files s1 x) i" for i using u(6) that by (simp add: get_file_def)
    then have "fl_fd (os_files u x) = fl_fd (os_files s1 x)" by (rule ext)
    then have "os_files u x = os_files s1 x" using u(6) that by simp
    then show ?thesis using that s1(4) by (simp add: share_files_sel)
  qed
  moreover have "get_file (q, i) ?t = get_file (q, i) u" for i by (simp add: share_files_sel get_file_def)
  then have "if f_status (get_file (fl, i) s) = FD_OPENED then get_file (q, i) ?t = get_file (fl, i) s
          else f_status (get_file (q, i) ?t) = FD_NONE" if "i < FILES_STRUCT_NENTRY" for i
    using u(3) s1(5) that by (simp add: shared_entry_def fresh_table_def get_file_def fls)
  moreover have "files_count q ?t = 1" using u(5) by (simp add: share_files_sel files_count_def)
  moreover have "fl_pwd (os_files ?t q) = fl_pwd (os_files s fl)" using u(4) by (simp add: share_files_sel fls)
  ultimately show ?thesis unfolding child_table_def by blast
qed

text \<open>C22: when a kernel thread forks, with a process structure, a file table and two pages for the stack being left, \<open>do_fork\<close>
  returns an identifier that no process had, under which the child is then found.  The child joins the process list, the children of
  its parent, the hash table and the back of the run list, all of which stay well formed, and will start in \<open>forkret\<close> on a trap
  frame that makes it return 0.  With \<open>CLONE_FS\<close> it shares the parent's table of files, counted once more; without, as every caller
  in the kernel asks, it has a table of its own in which exactly the open files of the parent are open, at the same positions, the
  counters of all inodes again count the references to them, and no other table changes.\<close>

theorem do_fork_child:
  assumes V: "op_sched V = default_sched_class" and tab: "proc_tables_ok (os_kern s) r c i ps ch hs"
    and room: "nr_process (os_kern s) < MAX_PROCESS" and wait: "p_wait_state (os_proc s c) = 0"
    and mm: "p_mm (os_proc s c) = None" and fl: "p_filesp (os_proc s c) = Some fl"
    and ok: "files_ok s F P E" and F: "fl \<in> F" "0 < files_count fl s" and q: "q \<notin> F" "q \<notin> P"
    and pw: "fl_pwd (os_files s fl) \<noteq> None \<Longrightarrow> fl \<in> P"
    and refs: "\<forall>n. inode_ref_count n s + int FILES_STRUCT_NENTRY + 1 < MAX_INODE_COUNT"
    and pool: "vm_pool (os_vm s) = p # q # vs" and p: "p \<notin> insert i (set ps)" "p \<notin> set r"
    and stack: "alloc_pages KSTACKPAGE (vm_mem (os_vm s)) = Some (Some g, m)" "page2kva m g = Some f"
  shows "\<exists>pid t hs' a tf'. do_fork V K flags stack tf s = Some (pid, t) \<and> 1 \<le> pid \<and> pid < MAX_PID
     \<and> (\<forall>x\<in>set ps. p_pid (os_proc s x) \<noteq> pid) \<and> find_proc pid (os_kern t) = Some (Some p)
     \<and> proc_tables_ok (os_kern t) (r @ [p]) c i (p # ps) (ch(c := p # ch c, p := [])) hs'
     \<and> (if flags AND CLONE_FS \<noteq> 0
         then p_filesp (os_proc t p) = Some fl \<and> os_files t = (os_files s)(fl := (os_files s fl)\<lparr>fl_count := files_count fl s + 1\<rparr>)
         else p_filesp (os_proc t p) = Some q \<and> child_table s t q fl \<and> files_ok t (insert q F) (insert q P) E)
     \<and> p_tf (os_proc t p) = Some (a, tf') \<and> gpr_a0 (tf_gpr tf') = 0 \<and> tf_epc tf' = tf_epc tf
     \<and> ctx_ra (p_context (os_proc t p)) = ks_forkret K \<and> ctx_sp (p_context (os_proc t p)) = of_nat a"
proof -
  have cs: "current (os_kern s) = Some c" and ne: "p \<noteq> c" using tab p(1) by (auto simp: proc_tables_ok_def runq_ok_def)
  define s1 where "s1 = set_kern (init_proc K p (os_kern s)) (s\<lparr>os_vm := (os_vm s)\<lparr>vm_pool := q # vs\<rparr>\<rparr>)"
  define s2 where "s2 = upd_os_proc p (\<lambda>a. a\<lparr>p_parent := Some c\<rparr>) s1"
  define s3 where "s3 = upd_os_proc p (\<lambda>a. a\<lparr>p_kstack := kva_of f\<rparr>) (set_mem m s2)"
  have k1: "os_kern (s\<lparr>os_vm := (os_vm s)\<lparr>vm_pool := q # vs\<rparr>\<rparr>) = os_kern s" by (simp add: os_kern_def)
  have al: "alloc_proc K s = (Some p, s1)" using k1 by (simp add: alloc_proc_def os_kmalloc_pool [OF pool] s1_def)
  have m2: "vm_mem (os_vm s2) = vm_mem (os_vm s)" by (simp add: s1_def s2_def set_kern_def upd_os_proc_def)
  have same: "os_proc s1 x = os_proc s x" "os_proc s2 x = os_proc s x" "os_proc s3 x = os_proc s x" if "x \<noteq> p" for x
    using that init_proc_sel(1) [of x p K "os_kern s"] by (simp_all add: s1_def s2_def s3_def os_proc_def)
  have cur: "current (os_kern s1) = Some c" "current (os_kern s2) = Some c" "current (os_kern s3) = Some c"
    using cs by (simp_all add: s1_def s2_def s3_def init_proc_sel)
  have ks: "setup_kstack p s2 = Some (0, s3)" using stack by (simp add: setup_kstack_def m2 s3_def)
  have cm: "copy_mm V K flags p s3 = Some (0, s3)"
    using mm cur(3) same(3) [of c] ne by (simp add: copy_mm_def)
  have cf: "current_filesp s3 = Some fl"
    using cur(3) fl same(3) [of c] ne by (simp add: current_filesp_def os_proc_def)
  have vm3: "vm_pool (os_vm s3) = q # vs" "os_files s3 = os_files s" "os_nodes s3 = os_nodes s"
    by (simp_all add: s1_def s2_def s3_def set_kern_def upd_os_proc_def set_mem_def)
  have ok3: "files_ok s3 F P E" using ok files_ok_count [of s3 s F P E] vm3 by simp
  have fc3: "files_count fl s3 = files_count fl s" "inode_ref_count n s3 = inode_ref_count n s" for n
    by (simp_all add: files_count_def inode_ref_count_def vm3)
  define d where "d = (if flags AND CLONE_FS \<noteq> 0 then fl else q)"
  obtain s4 y z where s4: "copy_files V flags p s3 = Some (0, s4)"
    "os_kern s4 = upd_proc p (\<lambda>a. a\<lparr>p_filesp := Some d\<rparr>) ((os_kern s3)\<lparr>sems := y, wait_links := z\<rparr>)"
    "if flags AND CLONE_FS \<noteq> 0 then os_files s4 = (os_files s)(fl := (os_files s fl)\<lparr>fl_count := files_count fl s + 1\<rparr>)
     else child_table s s4 q fl \<and> files_ok s4 (insert q F) (insert q P) E"
  proof (cases "flags AND CLONE_FS = 0")
    case True
    then show ?thesis
      using copy_files_new [OF cf True vm3(1) ok3 F(1) _ q, of V p] F(2) pw refs child_table_cong [OF vm3(2)]
      by (auto intro: that simp: fc3 vm3 d_def)
  next
    case False
    have "copy_files V flags p s3 = Some (0, snd (share_files fl p s3))"
      using share_files_sel(1) [of fl p s3] cf False by (simp add: copy_files_def) (metis prod.collapse)
    moreover have "os_kern s3 = (os_kern s3)\<lparr>sems := sems (os_kern s3), wait_links := wait_links (os_kern s3)\<rparr>" by simp
    ultimately show ?thesis
      using False by (intro that [of "snd (share_files fl p s3)" "wait_links (os_kern s3)" "sems (os_kern s3)"])
        (simp_all add: share_files_sel vm3 d_def files_count_def)
  qed
  define s5 where "s5 = copy_thread K p stack tf s4"
  have "p_wait_state (os_proc s1 c) = 0" "c \<noteq> p" using wait same(1) [of c] ne by simp_all
  then have fk: "do_fork V K flags stack tf s = fork_enter V p s5"
    using room al ks cm s4(1) cur by (simp add: do_fork_def s2_def [symmetric] s5_def [symmetric])
  let ?k = "os_kern s5"
  define a where "a = kva_of f + KSTACKSIZE - sizeof_trapframe"
  obtain sp where kern5: "?k = (upd_proc p (\<lambda>x. x\<lparr>p_parent := Some c, p_kstack := kva_of f, p_filesp := Some d,
      p_tf := Some (a, tf\<lparr>tf_gpr := (tf_gpr tf)\<lparr>gpr_a0 := 0, gpr_sp := sp\<rparr>\<rparr>),
      p_context := (p_context x)\<lparr>ctx_ra := ks_forkret K, ctx_sp := of_nat a\<rparr>\<rparr>) (init_proc K p (os_kern s)))\<lparr>sems := y, wait_links := z\<rparr>"
    by (rule that [of "if stack = 0 then of_nat a else stack"])
      (simp add: s5_def s3_def s2_def s1_def copy_thread_def s4(2) Let_def a_def upd_proc_def os_proc_def)
  have pr: "procs ?k x = procs (os_kern s) x" if "x \<noteq> p" for x
    using that init_proc_sel(1) [of x p K "os_kern s"] by (simp add: kern5)
  have chp: "p_state (procs ?k p) = PROC_UNINIT" "p_cptr (procs ?k p) = None" "p_parent (procs ?k p) = Some c" "p_filesp (procs ?k p) = Some d"
    by (simp_all add: kern5 init_proc_sel)
  have t5: "proc_tables_ok ?k r c i ps ch hs"
    by (rule tables_outsider [OF tab p pr]) (simp_all add: chp, simp_all add: kern5 init_proc_sel)
  have room5: "nr_process ?k \<le> MAX_PROCESS" using room by (simp add: kern5 init_proc_sel)
  have op: "os_proc s5 = procs ?k" by (simp add: os_proc_def fun_eq_iff)
  from fork_enter_ok [OF V t5 room5 p] chp obtain pid k hs' where r: "fork_enter V p s5 = Some (pid, set_kern k s5)" "1 \<le> pid" "pid < MAX_PID"
     "\<forall>x\<in>set ps. p_pid (procs ?k x) \<noteq> pid" "find_proc pid k = Some (Some p)" "proc_tables_ok k (r @ [p]) c i (p # ps) (ch(c := p # ch c, p := [])) hs'"
     "p_context (procs k p) = p_context (procs ?k p)" "p_tf (procs k p) = p_tf (procs ?k p)" "p_filesp (procs k p) = p_filesp (procs ?k p)"
    unfolding op by blast
  have tf: "\<exists>sp. p_tf (procs ?k p) = Some (a, tf\<lparr>tf_gpr := (tf_gpr tf)\<lparr>gpr_a0 := 0, gpr_sp := sp\<rparr>\<rparr>)"
    "ctx_ra (p_context (procs ?k p)) = ks_forkret K" "ctx_sp (p_context (procs ?k p)) = of_nat a"
    by (auto simp: kern5 Let_def)
  have "\<forall>x\<in>set ps. p_pid (os_proc s x) \<noteq> pid" using r(4) pr p(1) by (metis insertCI os_proc_def)
  moreover have fs: "os_files (set_kern k s5) = os_files s4" "os_nodes (set_kern k s5) = os_nodes s4"
    by (simp_all add: s5_def copy_thread_def upd_os_proc_def set_kern_def Let_def)
  then have "if flags AND CLONE_FS \<noteq> 0 then os_files (set_kern k s5) = (os_files s)(fl := (os_files s fl)\<lparr>fl_count := files_count fl s + 1\<rparr>)
     else child_table s (set_kern k s5) q fl \<and> files_ok (set_kern k s5) (insert q F) (insert q P) E"
    using s4(3) child_table_cong [OF refl fs(1)] files_ok_count [of "set_kern k s5" s4] by simp
  ultimately show ?thesis using fk r tf chp(4) unfolding d_def
    by (intro exI [of _ pid] exI [of _ "set_kern k s5"] exI [of _ hs'] exI [of _ a]) auto
qed

text \<open>The idle process, 1, forks a kernel thread: the block 9, with the table of files 2 and the stack in the frames 10 and 11.\<close>

definition example_idle :: kern where
  "example_idle = RR_init (boot_kern\<lparr>current := Some 1, idleproc := Some 1, nr_process := 1,
     procs := (\<lambda>x. zero_proc\<lparr>p_filesp := Some 1\<rparr>)\<rparr>)"

lemma example_idle_sel:
  "procs example_idle x = zero_proc\<lparr>p_filesp := Some 1\<rparr>" "current example_idle = Some 1" "idleproc example_idle = Some 1"
  "nr_process example_idle = 1" "list_links example_idle = list_links boot_kern" "hash_links example_idle = hash_links boot_kern"
  "last_pid example_idle = last_pid boot_kern" "next_safe example_idle = next_safe boot_kern" "lnext (run_links example_idle) = id"
  by (simp_all add: example_idle_def RR_init_def upd_run_links_def list_init_def fun_eq_iff boot_kern_def)

lemma example_idle_tables: "proc_tables_ok example_idle [] 1 1 [] (\<lambda>_. []) (\<lambda>_. [])"
proof -
  have "rq_list example_idle []" unfolding example_idle_def by (rule RR_init_empty)
  then have "runq_ok example_idle [] 1 1"
    by (simp add: runq_ok_def example_idle_sel zero_proc_def unlinked_def list_empty_def)
  moreover have "family example_idle 1 [] (\<lambda>_. [])"
    using boot_lists(1) by (simp add: family_def children_def proc_list_def zero_proc_def example_idle_sel)
  moreover have "hash_ok example_idle (\<lambda>_. [])" "pid_inv example_idle []"
    using boot_lists(2,3) by (simp_all add: hash_ok_def pid_inv_def pids_def example_idle_sel)
  ultimately show ?thesis by (simp add: proc_tables_ok_def)
qed

theorem do_fork_child_witness:
  "\<exists>s pid t tf. do_fork (example_vops\<lparr>op_sched := default_sched_class\<rparr>) example_ksyms CLONE_VM 0 tf s = Some (pid, t)
     \<and> find_proc pid (os_kern t) = Some (Some 9) \<and> p_state (os_proc t 9) = PROC_RUNNABLE
     \<and> p_filesp (os_proc t 9) = Some 2 \<and> f_pos (get_file (2, 0) t) = 12"
proof -
  fix tf :: trapframe
  obtain q where q: "fl_inv q [10]" "free_set q = {10..<14}" "nr_free q = 4" "property q 10 = 4"
    using example_region [of 4 10] by auto
  then have "List.find (\<lambda>b. 2 \<le> property q b) [10] = Some 10" by simp
  from default_alloc_some [OF q(1) _ this] obtain u where u: "default_alloc_pages 2 q = Some (Some 10, u)" by auto
  let ?m = "\<lambda>q. \<lparr>pm_pmm = q, pm_npage = nbase + 100, pm_frame = \<lambda>_ _. 0\<rparr>"
  let ?s = "example_os\<lparr>os_vm := boot_vmm\<lparr>vm_kern := example_idle, vm_mem := ?m q, vm_pool := [9, 2]\<rparr>\<rparr>" and ?V = "example_vops\<lparr>op_sched := default_sched_class\<rparr>"
  have k: "os_kern ?s = example_idle" by (simp add: os_kern_def)
  have pr: "os_proc ?s 1 = zero_proc\<lparr>p_filesp := Some 1\<rparr>" by (simp add: os_proc_def k example_idle_sel)
  have "alloc_pages KSTACKPAGE (vm_mem (os_vm ?s)) = Some (Some 10, ?m u)"
    using u by (simp add: alloc_pages_def KSTACKPAGE_def)
  moreover have "page2kva (?m u) 10 = Some 10"
    by (simp add: page2kva_def, rule KADDR_create(2) [where ty = 0]) (simp_all add: nbase_def)
  moreover have "proc_tables_ok (os_kern ?s) [] 1 1 [] (\<lambda>_. []) (\<lambda>_. [])" unfolding k by (rule example_idle_tables)
  moreover have "nr_process (os_kern ?s) < MAX_PROCESS" by (simp add: k example_idle_sel MAX_PROCESS_def)
  moreover have "op_sched ?V = default_sched_class" "vm_pool (os_vm ?s) = 9 # 2 # []" by simp_all
  moreover have "p_wait_state (os_proc ?s 1) = 0" "p_mm (os_proc ?s 1) = None" "p_filesp (os_proc ?s 1) = Some 1"
    unfolding pr by (simp_all add: zero_proc_def)
  moreover have "(9::nat) \<notin> insert 1 (set [])" "(9::nat) \<notin> set []" by simp_all
  moreover have "files_ok ?s {1} {1} (\<lambda>_. 0)" using example_os_ok files_ok_count [of ?s example_os] by simp
  moreover have "0 < files_count 1 ?s" "fl_pwd (os_files ?s 1) \<noteq> None \<Longrightarrow> (1 :: nat) \<in> {1}"
    by (simp_all add: files_count_def example_os_def)
  moreover have "\<forall>n. inode_ref_count n ?s + int FILES_STRUCT_NENTRY + 1 < MAX_INODE_COUNT"
    using example_os_room by (simp add: inode_ref_count_def)
  moreover have fs: "CLONE_VM AND CLONE_FS = 0" by (simp add: CLONE_FS_def CLONE_VM_def)
  moreover have "(1 :: nat) \<in> {1}" "(2 :: nat) \<notin> {1}" by simp_all
  ultimately have "\<exists>pid t hs' a tf'. do_fork ?V example_ksyms CLONE_VM 0 tf ?s = Some (pid, t) \<and> 1 \<le> pid \<and> pid < MAX_PID
     \<and> (\<forall>x\<in>set []. p_pid (os_proc ?s x) \<noteq> pid) \<and> find_proc pid (os_kern t) = Some (Some 9)
     \<and> proc_tables_ok (os_kern t) ([] @ [9]) 1 1 (9 # []) ((\<lambda>_. [])(1 := 9 # [], 9 := [])) hs'
     \<and> (if CLONE_VM AND CLONE_FS \<noteq> 0
        then p_filesp (os_proc t 9) = Some 1 \<and> os_files t = (os_files ?s)(1 := (os_files ?s 1)\<lparr>fl_count := files_count 1 ?s + 1\<rparr>)
        else p_filesp (os_proc t 9) = Some 2 \<and> child_table ?s t 2 1 \<and> files_ok t (insert 2 {1}) (insert 2 {1}) (\<lambda>_. 0))
     \<and> p_tf (os_proc t 9) = Some (a, tf') \<and> gpr_a0 (tf_gpr tf') = 0 \<and> tf_epc tf' = tf_epc tf
     \<and> ctx_ra (p_context (os_proc t 9)) = ks_forkret example_ksyms \<and> ctx_sp (p_context (os_proc t 9)) = of_nat a"
    by (intro do_fork_child) assumption+
  then obtain pid t hs' where t: "do_fork ?V example_ksyms CLONE_VM 0 tf ?s = Some (pid, t)" "find_proc pid (os_kern t) = Some (Some 9)"
    "proc_tables_ok (os_kern t) ([] @ [9]) 1 1 (9 # []) ((\<lambda>_. [])(1 := 9 # [], 9 := [])) hs'"
    "if CLONE_VM AND CLONE_FS \<noteq> 0 then p_filesp (os_proc t 9) = Some 1 \<and> os_files t = (os_files ?s)(1 := (os_files ?s 1)\<lparr>fl_count := files_count 1 ?s + 1\<rparr>)
         else p_filesp (os_proc t 9) = Some 2 \<and> child_table ?s t 2 1 \<and> files_ok t (insert 2 {1}) (insert 2 {1}) (\<lambda>_. 0)"
    by blast
  from t(4) fs have f: "p_filesp (os_proc t 9) = Some 2" "child_table ?s t 2 1" "files_ok t {1, 2} {1, 2} (\<lambda>_. 0)"
    by (auto simp: insert_commute)
  from t(3) have "9 \<in> set ([] @ [9 :: nat]) \<longleftrightarrow> p_state (os_proc t 9) = PROC_RUNNABLE \<and> 9 \<noteq> (1 :: nat) \<and> 9 \<noteq> (1 :: nat)"
    unfolding proc_tables_ok_def runq_ok_def os_proc_def by blast
  then have "p_state (os_proc t 9) = PROC_RUNNABLE" by simp
  moreover have g0: "get_file (2, 0) t = get_file (1, 0) ?s"
  proof -
    have "0 < FILES_STRUCT_NENTRY" by (simp add: FILES_STRUCT_NENTRY_def FILES_STRUCT_BUFSIZE_def)
    moreover have "f_status (get_file (1, 0) ?s) = FD_OPENED" by (simp add: get_file_def example_os_def)
    ultimately show ?thesis using f(2) unfolding child_table_def by metis
  qed
  then have "f_pos (get_file (2, 0) t) = 12" by (simp add: get_file_def example_os_def)
  ultimately show ?thesis using t(1,2) f(1) by blast
qed

end
