(* ===== verification/Spec2Isabelle.thy ===== *)
theory Spec2Isabelle
  imports Trap_Read Exec_Args Buddy_System Kmalloc Sfs_Sync Monitor_Run Best_Fit Timers Sched_Stride Semaphore Proc_Table Printfmt Vmm_Dup Fork_Files Proc_Fork
begin

text \<open>
  A model of the uCore teaching kernel for RISC-V (Sv39).  The repository holds it eight times, as \<open>lab1\<close> to \<open>lab8\<close>, each
  extending the one before.  The model follows \<open>lab8\<close>, the complete kernel, and takes from the earlier ones what they have in
  addition: best-fit and buddy allocation (\<open>lab2\<close>), FIFO and shortest-job-first scheduling (\<open>lab6\<close>).  Paths below are those of
  \<open>lab8\<close> unless they say otherwise.

  \<^bold>\<open>How to read it.\<close>  A C function is a HOL function of the same name that takes the state it works on and returns its
  result and the new state.  A \<open>struct\<close> is a record, a \<open>#define\<close> a definition, a machine integer a word of its width where it
  wraps and \<open>nat\<close> or \<open>int\<close> where the code keeps it in range or the truncation is written out.  The result \<open>None\<close> of an
  \<open>option\<close> stands for what has no result in C: a failed \<open>assert\<close> or a \<open>panic\<close>, a NULL pointer that is followed, undefined
  behaviour, a loop that does not end, a page fault, and a lock that the model does not wait for.  Loops over pointers are
  \<open>partial_function (option)\<close>; theorems about them say that there is a result.  There is no fuel anywhere: the other loops
  are structural or have a measure.  A routine that sleeps in the middle (\<open>down\<close>, \<open>do_wait\<close>, \<open>do_sleep\<close>, \<open>dev_stdin_read\<close>,
  \<open>cond_signal\<close>, \<open>cond_wait\<close>) is split where it calls \<open>schedule\<close>.  Code with interrupts off is one step.

  \<^bold>\<open>The state.\<close>  It grows in layers, each a field of the next: \<open>pmm\<close> (frame descriptors and the free list), \<open>pmem\<close> (that, and
  the 512 words of every frame, in which the page tables are), \<open>kern\<close> (processes, run queue, timers, wait queues, semaphores),
  \<open>vmm\<close> (memory, kernel, address spaces and the pool of objects for \<open>kmalloc\<close>), \<open>os\<close> (that, bytes of memory, inodes, tables of
  open files, devices; a type parameter for what the drivers keep), \<open>ucore\<close> (an \<open>os\<close> with the simple file system and the
  devices), \<open>machine\<close> (an \<open>ucore\<close> with the ticks and the input of the console).  The bytes \<open>os_mem\<close> are what the running process and the kernel see at their
  addresses; the words of frames are a separate view, used for the page tables and for copying pages.  A kernel access to
  user memory asks the page table first (\<open>user_touch\<close>): where it does not allow the access there is no result, since
  \<open>exception_handler\<close> only prints a line on a page fault and returns to the same instruction.

  \<^bold>\<open>The parts, from the bottom up.\<close>

  \<^item> \<open>Prelude\<close>, \<open>Errors\<close>, \<open>Clist\<close>, \<open>Strings\<close>, \<open>Bytes\<close>, \<open>Printfmt\<close>: assertions as options and the collections of simplification
    rules; \<open>libs/error.h\<close>; the circular lists of \<open>libs/list.h\<close>, as two functions on node names, with the predicate \<open>clist\<close> that
    names their members; \<open>libs/string.c\<close> and \<open>kern/libs/string.c\<close>; integers and blocks as bytes; \<open>libs/printfmt.c\<close>.
  \<^item> \<open>Page_Frame\<close>, \<open>Free_List\<close>, \<open>First_Fit\<close>, \<open>Best_Fit\<close>: frame descriptors and their flags; the address-ordered free list of
    \<open>kern/mm/default_pmm.c\<close> and \<open>lab2/kern/mm/best_fit_pmm.c\<close> with its invariant \<open>fl_inv\<close>.  Both managers are interpretations
    of the locale \<open>page_manager\<close>.  \<open>Buddy\<close>, \<open>Buddy_Inv\<close>, \<open>Buddy_Alloc\<close>, \<open>Buddy_Merge\<close>, \<open>Buddy_System\<close>: the manager of
    \<open>lab2/kern/mm/buddysystem_pmm.c\<close>; its lists hold disjoint blocks, and the flags, which merging does not keep, are apart.
  \<^item> \<open>Paging_Model\<close>, \<open>Paging_Inv\<close>, \<open>Paging_Ops\<close>, \<open>Paging_Range\<close>, \<open>Paging\<close>: \<open>kern/mm/pmm.c\<close>, \<open>pmm.h\<close>, \<open>mmu.h\<close>.  The operations
    are compared with the view \<open>pte_at\<close>, address to entry, of the user part of every directory.  The invariant \<open>pt_inv\<close> says which frame is which table
    (\<open>roles\<close>) and that reference counters count user mappings.  The kernel part of a directory, which \<open>setup_pgdir\<close> copies from the boot directory and
    which maps all of physical memory, free frames included, is arbitrary: \<open>kernel_kept\<close> states that it does not change.
  \<^item> \<open>Slob\<close>, \<open>Slob_Inv\<close>, \<open>Kmalloc\<close>: \<open>kern/mm/kmalloc.c\<close> at the level of bytes; the free list as a ring in address order.  The
    other parts see \<open>kmalloc\<close> as a pool of objects (\<open>kmalloc_obj\<close>), which is what this one promises.
  \<^item> \<open>Proc_Struct\<close>, \<open>Sched\<close>, \<open>Sched_Lists\<close>, \<open>Skew_Heap\<close>, \<open>Sched_Stride\<close>, \<open>Timers\<close>: the records of processes and threads;
    \<open>wakeup_proc\<close> and \<open>schedule\<close> of \<open>kern/schedule/sched.c\<close>, proved once in the locales \<open>sched_policy\<close>, \<open>list_policy\<close> and
    \<open>queue_policy\<close> and interpreted for round robin, FIFO, shortest job first and stride; \<open>libs/skew_heap.h\<close> as a refinement of
    trees; timers as a list of differences against absolute deadlines.
  \<^item> \<open>Wait_Queue\<close>, \<open>Semaphore\<close>, \<open>Philosophers\<close>, \<open>Monitor\<close>, \<open>Monitor_Table\<close>, \<open>Monitor_Inv\<close>, \<open>Monitor_Steps\<close>, \<open>Monitor_Sig\<close>,
    \<open>Monitor_Run\<close>: \<open>wait.c\<close>, \<open>sem.c\<close>, \<open>monitor.c\<close> and \<open>check_sync.c\<close> of \<open>kern/sync\<close>.  Interleavings are inductive sets of
    reachable states.  A semaphore is first shown to admit no more than its value; the philosophers then run over an abstract
    semaphore (a value and a queue) that this model refines.  The monitor version is proved with one token, the right
    to be in the monitor, that lies in a semaphore or with one philosopher.
  \<^item> \<open>Proc_Table\<close>, \<open>Proc_Life\<close>, \<open>Proc_Exit\<close>, \<open>Proc_Fork\<close>: \<open>kern/process/proc.c\<close>.  The tables of processes are the process list,
    the family links, the hash table and the window of \<open>get_pid\<close>; \<open>do_exit\<close> and \<open>do_fork\<close> are shown to keep them.
  \<^item> \<open>Vmm_Model\<close>, \<open>Vmm_Inv\<close>, \<open>Vmm\<close>, \<open>Vmm_Dup\<close>: \<open>kern/mm/vmm.c\<close>.  \<open>mm_inv\<close>: the areas of an address space in address order, disjoint and non-empty.
  \<^item> \<open>Inode_Model\<close>, \<open>Vfs_Model\<close>, \<open>File_Model\<close>, \<open>File_Counts\<close>, \<open>Fork_Files\<close>: \<open>kern/fs/vfs\<close>, \<open>file.c\<close>, \<open>fs.c\<close>, \<open>iobuf.c\<close>.  The
    operations of a file system are an argument (the record \<open>vops\<close>).  \<open>files_ok\<close>: the two counters of an inode are the numbers of references to it.
  \<^item> \<open>Dev_Model\<close>, \<open>Console\<close>, \<open>Bitmap\<close>, \<open>Sfs_Io\<close>, \<open>Sfs_Inode\<close>, \<open>Sfs_File\<close>, \<open>Sfs_Fs\<close>: devices, console and the simple file system
    of \<open>kern/fs/devs\<close>, \<open>kern/driver\<close> and \<open>kern/fs/sfs\<close>; the last gives \<open>vops\<close> its value (\<open>ucore_vops\<close>).  \<open>Sfs_Disk\<close>,
    \<open>Sfs_Blocks\<close>, \<open>Sfs_Map\<close>, \<open>Sfs_Rw\<close>, \<open>Sfs_Read\<close>, \<open>Sfs_Write\<close>, \<open>Sfs_Contents\<close>, \<open>Sfs_Sync\<close> refine it in steps: blocks of the
    disk, the invariant \<open>sfs_ok\<close> of a mounted file system, the block map, and a file as one list of bytes (\<open>file_contents\<close>)
    of which a read is a slice and in which a write replaces one.
  \<^item> \<open>Sysfile\<close>, \<open>Exec\<close>, \<open>Syscall\<close>, \<open>Trap\<close>, \<open>Sysread\<close>, \<open>Trap_Read\<close>, \<open>Exec_Args\<close>: \<open>kern/fs/sysfile.c\<close>, the loading of
    programs, \<open>kern/syscall/syscall.c\<close>, \<open>kern/trap/trap.c\<close>; a \<open>read\<close> from the trap to the return, through all layers, and the
    stack of a new program.
\<close>

text \<open>
  \<^bold>\<open>What is shown.\<close>  For the allocators: which block is handed out, that exactly its frames or bytes leave the free set, and that
  releasing it brings them back.  For page tables and address spaces: what each operation maps, copies or undoes, that all
  other mappings stay, and that no assertion fails.  For the schedulers: who runs next and that the run queue stays
  well formed; for round robin, when everybody has run.  For timers: that deadlines are right.  For synchronisation:
  mutual exclusion, progress and termination over all interleavings.  For processes: that the tables are kept and what
  children inherit.  For files: that reading, writing, loading of inodes and the bitmap do what the contents, as lists, say.  For the libraries: exact results and frames.

  Several theorems show where the code goes wrong: releasing a block above every free one lets the first-fit manager hand out
  a frame twice, releasing a merged block panics in the buddy manager, \<open>mm_map\<close> panics on a range that reaches into a later area,
  writes beyond 1036 blocks panic, big requests to \<open>kmalloc\<close> get too few pages, and arguments that need more than four pages
  of stack fault for ever.

  \<^bold>\<open>Assumptions that the theorems make.\<close>  They name what they need: an invariant of the part, memory that is left (objects in
  the pool, free frames), locks that are free, and that buffers, inodes and tables lie apart.  Every theorem with hypotheses is
  applied to a concrete state by the theorem named after it with \<open>_witness\<close>.

  \<^bold>\<open>What is not modelled.\<close>  Assembly (trap entry, context switch, start of threads), the start-up sequence of \<open>kern_init\<close>,
  device registers and the device tree, the loading of \<open>satp\<close> and the flushing of the TLB, the text of debugging output, the
  self tests \<open>check_*\<close> except the philosophers, user programs and the host tools.  The earlier laboratories are modelled only
  in what they add.  Calls of the firmware, which read and write one character of the console, are lists.
\<close>

end
